(* ===== verification/Prelude.thy ===== *)
theory Prelude
  imports Main "HOL-Library.Word" "HOL-Library.Char_ord"
begin

text \<open>
  The shared ground of the development: the part of Go's \<^verbatim>\<open>strings\<close>, \<^verbatim>\<open>bytes\<close> and
  \<^verbatim>\<open>sort\<close> packages the service is written in, the line iterator of
  \<^verbatim>\<open>internal/ioutil/ioutil.go\<close>, and the lemmas about them every component uses.

  A Go \<^verbatim>\<open>string\<close> or \<^verbatim>\<open>[]byte\<close> is a HOL \<open>string\<close>: a list of 8-bit characters, so a
  character is a byte and a non-ASCII rune is the bytes of its UTF-8 encoding. An index
  result of \<open>-1\<close> is \<open>None\<close>. A slice view and a copy are the same value here: the code's
  zero-copy conversions (\<^verbatim>\<open>UnsafeString\<close>) are the identity.
\<close>

named_theorems go_simps \<open>rewrite rules for the Go string operations\<close>
named_theorems model_defs \<open>definitions unfolded when a concrete input is evaluated\<close>

type_synonym bytes = string

abbreviation byte :: "char \<Rightarrow> nat" where
  "byte c \<equiv> of_char c"

section \<open>Byte classes\<close>

definition is_digit :: "char \<Rightarrow> bool" where
  "is_digit c \<longleftrightarrow> 48 \<le> byte c \<and> byte c \<le> 57"

definition is_lower :: "char \<Rightarrow> bool" where
  "is_lower c \<longleftrightarrow> 97 \<le> byte c \<and> byte c \<le> 122"

definition is_upper :: "char \<Rightarrow> bool" where
  "is_upper c \<longleftrightarrow> 65 \<le> byte c \<and> byte c \<le> 90"

definition is_ascii :: "char \<Rightarrow> bool" where
  "is_ascii c \<longleftrightarrow> byte c < 128"

definition lower_byte :: "char \<Rightarrow> char" where
  "lower_byte c = (if is_upper c then char_of (byte c + 32) else c)"

definition upper_byte :: "char \<Rightarrow> char" where
  "upper_byte c = (if is_lower c then char_of (byte c - 32) else c)"

text \<open>
  \<^verbatim>\<open>strings.ToLower\<close>. On an ASCII string it is byte-wise; on any other it applies the
  Unicode case table, which is data of the Go release and stays a parameter \<open>uni\<close>.
\<close>

definition to_lower :: "(string \<Rightarrow> string) \<Rightarrow> string \<Rightarrow> string" where
  "to_lower uni s = (if list_all is_ascii s then map lower_byte s else uni s)"

lemma byte_less_256 [simp]: "byte c < 256"
  by simp

lemma is_ascii_lower_byte [simp]: "is_ascii c \<Longrightarrow> is_ascii (lower_byte c)"
  by (auto simp: is_ascii_def lower_byte_def is_upper_def)

lemma not_upper_lower_byte [simp]: "\<not> is_upper (lower_byte c)"
  by (auto simp: lower_byte_def is_upper_def)

lemma lower_byte_idem [simp]: "lower_byte (lower_byte c) = lower_byte c"
  using not_upper_lower_byte [of c] by (simp add: lower_byte_def [of "lower_byte c"])

lemma lower_byte_id [simp]: "\<not> is_upper c \<Longrightarrow> lower_byte c = c"
  by (simp add: lower_byte_def)

text \<open>The case bit of a letter is bit 5: the form that computes on character literals.\<close>

lemma lower_byte_Char [model_defs]:
  "lower_byte (Char b0 b1 b2 b3 b4 b5 b6 b7) =
     (if is_upper (Char b0 b1 b2 b3 b4 b5 b6 b7) then Char b0 b1 b2 b3 b4 True b6 b7
      else Char b0 b1 b2 b3 b4 b5 b6 b7)"
proof -
  have "byte (lower_byte (Char b0 b1 b2 b3 b4 b5 b6 b7)) = byte
     (if is_upper (Char b0 b1 b2 b3 b4 b5 b6 b7) then Char b0 b1 b2 b3 b4 True b6 b7
      else Char b0 b1 b2 b3 b4 b5 b6 b7)"
    by (cases b0; cases b1; cases b2; cases b3; cases b4; cases b5; cases b6; cases b7)
       (simp_all add: lower_byte_def is_upper_def)
  then show ?thesis by (simp only: of_char_eq_iff)
qed

lemma upper_byte_Char [model_defs]:
  "upper_byte (Char b0 b1 b2 b3 b4 b5 b6 b7) =
     (if is_lower (Char b0 b1 b2 b3 b4 b5 b6 b7) then Char b0 b1 b2 b3 b4 False b6 b7
      else Char b0 b1 b2 b3 b4 b5 b6 b7)"
proof -
  have "byte (upper_byte (Char b0 b1 b2 b3 b4 b5 b6 b7)) = byte
     (if is_lower (Char b0 b1 b2 b3 b4 b5 b6 b7) then Char b0 b1 b2 b3 b4 False b6 b7
      else Char b0 b1 b2 b3 b4 b5 b6 b7)"
    by (cases b0; cases b1; cases b2; cases b3; cases b4; cases b5; cases b6; cases b7)
       (simp_all add: upper_byte_def is_lower_def)
  then show ?thesis by (simp only: of_char_eq_iff)
qed

section \<open>Searching and cutting\<close>

text \<open>\<^verbatim>\<open>strings.IndexByte\<close> and \<^verbatim>\<open>strings.LastIndexByte\<close>.\<close>

fun index_byte :: "char \<Rightarrow> string \<Rightarrow> nat option" where
  "index_byte c [] = None"
| "index_byte c (x # xs) = (if x = c then Some 0 else map_option Suc (index_byte c xs))"

fun last_index_byte :: "char \<Rightarrow> string \<Rightarrow> nat option" where
  "last_index_byte c [] = None"
| "last_index_byte c (x # xs) =
     (case last_index_byte c xs of
        Some i \<Rightarrow> Some (Suc i)
      | None \<Rightarrow> (if x = c then Some 0 else None))"

definition has_prefix :: "string \<Rightarrow> string \<Rightarrow> bool" where
  "has_prefix p s \<longleftrightarrow> take (length p) s = p"

text \<open>\<^verbatim>\<open>strings.Index\<close> for a separator of more than one byte.\<close>

fun index_str :: "string \<Rightarrow> string \<Rightarrow> nat option" where
  "index_str sep [] = (if sep = [] then Some 0 else None)"
| "index_str sep (x # xs) =
     (if has_prefix sep (x # xs) then Some 0 else map_option Suc (index_str sep xs))"

text \<open>\<^verbatim>\<open>strings.Cut\<close>: what is before the separator, what is after it, whether it was found.\<close>

definition cut_byte :: "char \<Rightarrow> string \<Rightarrow> string \<times> string \<times> bool" where
  "cut_byte c s =
     (case index_byte c s of
        None \<Rightarrow> (s, [], False)
      | Some i \<Rightarrow> (take i s, drop (Suc i) s, True))"

definition cut_str :: "string \<Rightarrow> string \<Rightarrow> string \<times> string \<times> bool" where
  "cut_str sep s =
     (case index_str sep s of
        None \<Rightarrow> (s, [], False)
      | Some i \<Rightarrow> (take i s, drop (i + length sep) s, True))"

definition contains_str :: "string \<Rightarrow> string \<Rightarrow> bool" where
  "contains_str s sep \<longleftrightarrow> index_str sep s \<noteq> None"

text \<open>\<^verbatim>\<open>s[:i]\<close> where \<^verbatim>\<open>i := IndexByte(s, c)\<close>, and \<^verbatim>\<open>s\<close> itself where it is negative.\<close>

definition before_byte :: "char \<Rightarrow> string \<Rightarrow> string" where
  "before_byte c s = (case index_byte c s of None \<Rightarrow> s | Some i \<Rightarrow> take i s)"

lemma index_byte_None [go_simps]: "index_byte c s = None \<longleftrightarrow> c \<notin> set s"
  by (induction s) auto

lemma index_byte_Some:
  "index_byte c s = Some i \<Longrightarrow> i < length s \<and> s ! i = c \<and> c \<notin> set (take i s)"
  by (induction s arbitrary: i) (auto split: if_splits)

lemma index_byte_append [go_simps]:
  "c \<notin> set a \<Longrightarrow> index_byte c (a @ c # b) = Some (length a)"
  by (induction a) auto

lemma index_byte_append_skip [go_simps]:
  "c \<notin> set a \<Longrightarrow> index_byte c (a @ b) = map_option ((+) (length a)) (index_byte c b)"
  by (induction a) (cases "index_byte c b"; auto)+

lemma index_byte_append_left:
  "index_byte c a = Some i \<Longrightarrow> index_byte c (a @ b) = Some i"
  by (induction a arbitrary: i) (auto split: if_splits)

lemma index_byte_split:
  "index_byte c s = Some i \<Longrightarrow> s = take i s @ c # drop (Suc i) s"
  using index_byte_Some [of c s i] id_take_nth_drop [of i s] by auto

lemma last_index_byte_None [go_simps]: "last_index_byte c s = None \<longleftrightarrow> c \<notin> set s"
  by (induction s) (auto split: option.splits)

lemma last_index_byte_Some:
  "last_index_byte c s = Some i \<Longrightarrow> i < length s \<and> s ! i = c \<and> c \<notin> set (drop (Suc i) s)"
proof (induction s arbitrary: i)
  case Nil
  then show ?case by simp
next
  case (Cons x s)
  show ?case
  proof (cases "last_index_byte c s")
    case None
    with Cons.prems show ?thesis
      by (auto simp: last_index_byte_None split: if_splits)
  next
    case (Some j)
    with Cons.prems Cons.IH [OF Some] show ?thesis by auto
  qed
qed

lemma last_index_byte_append [go_simps]:
  "c \<notin> set b \<Longrightarrow> last_index_byte c (a @ c # b) = Some (length a)"
proof (induction a)
  case Nil
  then show ?case by (auto simp: last_index_byte_None split: option.splits)
next
  case (Cons x a)
  then show ?case by auto
qed

lemma has_prefix_append [simp]: "has_prefix p (p @ s)"
  by (simp add: has_prefix_def)

lemma has_prefix_Nil [simp]: "has_prefix [] s"
  by (simp add: has_prefix_def)

lemma has_prefix_Nil_right [simp]: "has_prefix p [] \<longleftrightarrow> p = []"
  by (auto simp: has_prefix_def)

lemma has_prefix_Cons [simp]: "has_prefix (c # p) (x # s) \<longleftrightarrow> x = c \<and> has_prefix p s"
  by (simp add: has_prefix_def)

lemma has_prefix_iff: "has_prefix p s \<longleftrightarrow> (\<exists>t. s = p @ t)"
proof
  assume "has_prefix p s"
  then have "s = p @ drop (length p) s"
    unfolding has_prefix_def by (metis append_take_drop_id)
  then show "\<exists>t. s = p @ t" by blast
qed (auto simp: has_prefix_def)

lemma index_str_Some:
  "index_str sep s = Some i \<Longrightarrow> i + length sep \<le> length s \<and> s = take i s @ sep @ drop (i + length sep) s"
proof (induction sep s arbitrary: i rule: index_str.induct)
  case (1 sep)
  then show ?case by (auto split: if_splits)
next
  case (2 sep x xs)
  show ?case
  proof (cases "has_prefix sep (x # xs)")
    case True
    then obtain t where "x # xs = sep @ t" by (auto simp: has_prefix_iff)
    moreover have "i = 0" using True "2.prems" by simp
    ultimately show ?thesis by simp
  next
    case False
    with "2.prems" obtain j where j: "index_str sep xs = Some j" "i = Suc j" by auto
    with "2.IH" [OF False j(1)] show ?thesis by auto
  qed
qed

lemma index_str_no_head:
  "h \<notin> set a \<Longrightarrow> index_str (h # sep) (a @ (h # sep) @ b) = Some (length a)"
  by (induction a) (auto simp: has_prefix_def)

lemma cut_byte_found [go_simps]:
  "c \<notin> set a \<Longrightarrow> cut_byte c (a @ c # b) = (a, b, True)"
  by (simp add: cut_byte_def index_byte_append)

lemma cut_byte_absent [go_simps]: "c \<notin> set a \<Longrightarrow> cut_byte c a = (a, [], False)"
  by (simp add: cut_byte_def index_byte_None [THEN iffD2])

text \<open>Computing a cut from the front, over known bytes and over unknown parts without the separator.\<close>

lemma cut_byte_Nil: "cut_byte c [] = ([], [], False)"
  by (simp add: cut_byte_def)

lemma cut_byte_Cons:
  "cut_byte c (x # s) =
     (if x = c then ([], s, True) else (let (a, b, f) = cut_byte c s in (x # a, b, f)))"
  by (auto simp: cut_byte_def split: option.splits)

lemma cut_byte_skip:
  "c \<notin> set a \<Longrightarrow> cut_byte c (a @ s) = (let (p, q, f) = cut_byte c s in (a @ p, q, f))"
  by (induction a) (auto simp: cut_byte_Cons split: prod.splits)

lemmas cut_byte_compute = cut_byte_Nil cut_byte_Cons cut_byte_skip

lemma cut_byte_length:
  "cut_byte c s = (a, b, f) \<Longrightarrow> s \<noteq> [] \<Longrightarrow> length b < length s"
  by (auto simp: cut_byte_def split: option.splits dest: index_byte_Some)

lemma before_byte_set [simp]: "c \<notin> set (before_byte c s)"
  by (auto simp: before_byte_def index_byte_None split: option.splits dest: index_byte_Some)

lemma before_byte_absent [go_simps]: "c \<notin> set s \<Longrightarrow> before_byte c s = s"
  by (simp add: before_byte_def index_byte_None [THEN iffD2])

lemma before_byte_append [go_simps]: "c \<notin> set a \<Longrightarrow> before_byte c (a @ c # b) = a"
  by (simp add: before_byte_def index_byte_append)

lemma before_byte_subset: "set (before_byte c s) \<subseteq> set s"
  by (auto simp: before_byte_def split: option.splits dest: in_set_takeD)


text \<open>\<^verbatim>\<open>strings.ReplaceAll\<close> for a non-empty old string.\<close>

function replace_all :: "string \<Rightarrow> string \<Rightarrow> string \<Rightarrow> string" where
  "replace_all old new s =
     (if old = [] then s
      else case index_str old s of
             None \<Rightarrow> s
           | Some i \<Rightarrow> take i s @ new @ replace_all old new (drop (i + length old) s))"
  by pat_completeness auto
termination
proof (relation "measure (\<lambda>(old, new, s). length s)")
  fix old new s i
  assume "old \<noteq> []" and i: "index_str old s = Some i"
  then have "0 < length old" "i + length old \<le> length s" using index_str_Some [OF i] by auto
  then have "length s - (i + length old) < length s" by linarith
  then show "((old, new, drop (i + length old) s), old, new, s)
      \<in> measure (\<lambda>(old, new :: string, s :: string). length s)"
    by simp
qed simp

declare replace_all.simps [simp del]

section \<open>Trimming\<close>

text \<open>
  The UTF-8 encodings of the code points \<^verbatim>\<open>unicode.IsSpace\<close> accepts. \<^verbatim>\<open>TrimSpace\<close> decodes a
  rune at each end of its argument, and a rune is one of these exactly when its bytes are
  the prefix (the suffix) of what is left.
\<close>

definition space_runes :: "string list" where
  "space_runes =
     [[CHR 0x20], [CHR 0x09], [CHR 0x0A], [CHR 0x0B], [CHR 0x0C], [CHR 0x0D],
      [CHR 0xC2, CHR 0x85], [CHR 0xC2, CHR 0xA0],
      [CHR 0xE1, CHR 0x9A, CHR 0x80],
      [CHR 0xE2, CHR 0x80, CHR 0x80], [CHR 0xE2, CHR 0x80, CHR 0x81], [CHR 0xE2, CHR 0x80, CHR 0x82],
      [CHR 0xE2, CHR 0x80, CHR 0x83], [CHR 0xE2, CHR 0x80, CHR 0x84], [CHR 0xE2, CHR 0x80, CHR 0x85],
      [CHR 0xE2, CHR 0x80, CHR 0x86], [CHR 0xE2, CHR 0x80, CHR 0x87], [CHR 0xE2, CHR 0x80, CHR 0x88],
      [CHR 0xE2, CHR 0x80, CHR 0x89], [CHR 0xE2, CHR 0x80, CHR 0x8A],
      [CHR 0xE2, CHR 0x80, CHR 0xA8], [CHR 0xE2, CHR 0x80, CHR 0xA9], [CHR 0xE2, CHR 0x80, CHR 0xAF],
      [CHR 0xE2, CHR 0x81, CHR 0x9F], [CHR 0xE3, CHR 0x80, CHR 0x80]]"

definition strip_one :: "string list \<Rightarrow> string \<Rightarrow> string option" where
  "strip_one rs s =
     (case find (\<lambda>r. r \<noteq> [] \<and> has_prefix r s) rs of
        None \<Rightarrow> None
      | Some r \<Rightarrow> Some (drop (length r) s))"

lemma strip_one_shorter: "strip_one rs s = Some t \<Longrightarrow> length t < length s"
  by (auto simp: strip_one_def has_prefix_iff find_Some_iff split: option.splits)

function skip_runes :: "string list \<Rightarrow> string \<Rightarrow> string" where
  "skip_runes rs s = (case strip_one rs s of None \<Rightarrow> s | Some t \<Rightarrow> skip_runes rs t)"
  by pat_completeness auto
termination
  by (relation "measure (\<lambda>(rs, s). length s)") (auto dest: strip_one_shorter)

declare skip_runes.simps [simp del]

text \<open>\<^verbatim>\<open>strings.TrimSpace\<close> and \<^verbatim>\<open>bytes.TrimSpace\<close>.\<close>

definition trim_space :: "string \<Rightarrow> string" where
  "trim_space s = rev (skip_runes (map rev space_runes) (rev (skip_runes space_runes s)))"

lemma skip_runes_stop: "strip_one rs s = None \<Longrightarrow> skip_runes rs s = s"
  by (simp add: skip_runes.simps [of rs s])

lemma skip_runes_result: "strip_one rs (skip_runes rs s) = None"
proof (induction rs s rule: skip_runes.induct)
  case (1 rs s)
  then show ?case
    by (cases "strip_one rs s") (simp_all add: skip_runes.simps [of rs s])
qed

lemma skip_runes_suffix: "\<exists>p. s = p @ skip_runes rs s"
proof (induction rs s rule: skip_runes.induct)
  case (1 rs s)
  show ?case
  proof (cases "strip_one rs s")
    case None
    then show ?thesis by (simp add: skip_runes_stop)
  next
    case (Some t)
    then obtain r where "s = r @ t"
      by (auto simp: strip_one_def has_prefix_iff find_Some_iff split: option.splits)
    moreover from 1 [OF Some] obtain p where "t = p @ skip_runes rs t" by blast
    ultimately show ?thesis
      using Some by (metis append_assoc option.simps(5) skip_runes.simps)
  qed
qed

lemma trim_space_infix: "\<exists>p q. s = p @ trim_space s @ q"
proof -
  obtain p where p: "s = p @ skip_runes space_runes s" using skip_runes_suffix by blast
  obtain q where "rev (skip_runes space_runes s) = q @ rev (trim_space s)"
    using skip_runes_suffix [of "rev (skip_runes space_runes s)" "map rev space_runes"]
    by (auto simp: trim_space_def)
  then have "skip_runes space_runes s = trim_space s @ rev q"
    by (metis rev_append rev_rev_ident)
  with p show ?thesis by metis
qed

lemma set_trim_space: "set (trim_space s) \<subseteq> set s"
proof -
  obtain p q where "s = p @ trim_space s @ q" using trim_space_infix by blast
  then have "set s = set p \<union> set (trim_space s) \<union> set q" by (metis set_append sup_assoc)
  then show ?thesis by blast
qed

lemma trim_space_Nil [simp]: "trim_space [] = []"
  using set_trim_space [of "[]"] by simp

text \<open>
  A string whose first and last bytes are printable ASCII is its own trim: no encoding in
  \<open>space_runes\<close> starts or ends with such a byte.
\<close>

definition graphic :: "char \<Rightarrow> bool" where
  "graphic c \<longleftrightarrow> 33 \<le> byte c \<and> byte c \<le> 126"

lemma space_runes_not_graphic:
  "\<forall>r \<in> set space_runes. r \<noteq> [] \<and> \<not> graphic (hd r) \<and> \<not> graphic (last r)"
  by (simp add: space_runes_def graphic_def)

lemma strip_one_graphic:
  assumes "\<forall>r \<in> set rs. r \<noteq> [] \<and> \<not> graphic (hd r)" and "s \<noteq> []" and "graphic (hd s)"
  shows "strip_one rs s = None"
proof -
  have "\<not> (\<exists>r \<in> set rs. r \<noteq> [] \<and> has_prefix r s)"
    using assms by (auto simp: has_prefix_iff neq_Nil_conv)
  then have "find (\<lambda>r. r \<noteq> [] \<and> has_prefix r s) rs = None"
    by (simp add: find_None_iff)
  then show ?thesis by (simp add: strip_one_def)
qed

lemma trim_space_id:
  assumes "s = [] \<or> graphic (hd s) \<and> graphic (last s)"
  shows "trim_space s = s"
proof (cases "s = []")
  case False
  with assms have h: "graphic (hd s)" "graphic (hd (rev s))" by (auto simp: hd_rev)
  have "skip_runes space_runes s = s"
    using space_runes_not_graphic False h(1)
    by (intro skip_runes_stop strip_one_graphic) auto
  moreover have "skip_runes (map rev space_runes) (rev s) = rev s"
    using space_runes_not_graphic False h(2)
    by (intro skip_runes_stop strip_one_graphic) (auto simp: hd_rev)
  ultimately show ?thesis by (simp add: trim_space_def)
qed simp

section \<open>Binary search\<close>

text \<open>\<^verbatim>\<open>sort.Search(n, f)\<close>: the loop halves the window \<open>[i, j)\<close>.\<close>

function search_loop :: "nat \<Rightarrow> nat \<Rightarrow> (nat \<Rightarrow> bool) \<Rightarrow> nat" where
  "search_loop i j f =
     (if i < j
      then (let h = (i + j) div 2 in if \<not> f h then search_loop (Suc h) j f else search_loop i h f)
      else i)"
  by pat_completeness auto
termination
  by (relation "measure (\<lambda>(i, j, f). j - i)") auto

declare search_loop.simps [simp del]

definition go_search :: "nat \<Rightarrow> (nat \<Rightarrow> bool) \<Rightarrow> nat" where
  "go_search n f = search_loop 0 n f"

lemma search_loop_spec:
  assumes "i \<le> j" "j \<le> n"
    and "\<And>k. k < i \<Longrightarrow> \<not> f k" and "\<And>k. j \<le> k \<Longrightarrow> k < n \<Longrightarrow> f k"
    and mono: "\<And>k l. k \<le> l \<Longrightarrow> l < n \<Longrightarrow> f k \<Longrightarrow> f l"
  shows "search_loop i j f \<le> n \<and> (\<forall>k < search_loop i j f. \<not> f k) \<and>
         (\<forall>k. search_loop i j f \<le> k \<longrightarrow> k < n \<longrightarrow> f k)"
  using assms
proof (induction i j f rule: search_loop.induct)
  case (1 i j f)
  show ?case
  proof (cases "i < j")
    case False
    then have "search_loop i j f = i" by (subst search_loop.simps) simp
    with False "1.prems"(1-4) show ?thesis by auto
  next
    case True
    define h where "h = (i + j) div 2"
    have h: "i \<le> h" "h < j" using True by (auto simp: h_def)
    show ?thesis
    proof (cases "f h")
      case False
      have lo: "\<not> f k" if "k < Suc h" for k
        using "1.prems"(5) [of k h] that False h "1.prems"(2) by auto
      have "search_loop i j f = search_loop (Suc h) j f"
        using True False by (subst search_loop.simps) (simp add: h_def Let_def)
      moreover have "Suc h \<le> j" using h by simp
      ultimately show ?thesis
        using "1.IH"(1) [OF True h_def False _ "1.prems"(2) lo "1.prems"(4,5)] by simp
    next
      case fh: True
      have hi: "f k" if "h \<le> k" "k < n" for k
        using "1.prems"(5) [of h k] that fh by auto
      have "search_loop i j f = search_loop i h f"
        using True fh by (subst search_loop.simps) (simp add: h_def Let_def)
      moreover have "h \<le> n" using h "1.prems"(2) by simp
      ultimately show ?thesis
        using "1.IH"(2) [OF True h_def _ h(1) _ "1.prems"(3) hi "1.prems"(5)] fh by simp
    qed
  qed
qed

lemma go_search_spec:
  assumes "\<And>k l. k \<le> l \<Longrightarrow> l < n \<Longrightarrow> f k \<Longrightarrow> f l"
  shows "go_search n f \<le> n" and "k < go_search n f \<Longrightarrow> \<not> f k"
    and "go_search n f \<le> k \<Longrightarrow> k < n \<Longrightarrow> f k"
  using search_loop_spec [of 0 n n f] assms by (auto simp: go_search_def)

text \<open>The same for a predicate stated to be upward closed, as one conjunction.\<close>

lemma go_search_upward:
  assumes "\<forall>k l. k \<le> l \<longrightarrow> l < n \<longrightarrow> f k \<longrightarrow> f l"
  shows "go_search n f \<le> n \<and> (\<forall>k < go_search n f. \<not> f k) \<and>
         (\<forall>k. go_search n f \<le> k \<longrightarrow> k < n \<longrightarrow> f k)"
  using search_loop_spec [of 0 n n f] assms by (auto simp: go_search_def)

section \<open>Compacting a slice in place\<close>

text \<open>
  The idiom \<^verbatim>\<open>n := 0; for _, x := range xs { if keep(x) { xs[n] = x; n++ } }; xs[:n]\<close>: the
  slice is overwritten while it is read.
\<close>

function compact :: "('a \<Rightarrow> bool) \<Rightarrow> 'a list \<Rightarrow> nat \<Rightarrow> nat \<Rightarrow> 'a list" where
  "compact keep xs n i =
     (if length xs \<le> i then take n xs
      else if keep (xs ! i) then compact keep (xs[n := xs ! i]) (n + 1) (i + 1)
      else compact keep xs n (i + 1))"
  by pat_completeness auto
termination
  by (relation "measure (\<lambda>(keep, xs, n, i). length xs - i)") auto

declare compact.simps [simp del]

lemma compact_filter:
  "n \<le> i \<Longrightarrow> compact keep xs n i = take n xs @ filter keep (drop i xs)"
proof (induction keep xs n i rule: compact.induct)
  case (1 keep xs n i)
  show ?case
  proof (cases "length xs \<le> i")
    case True
    then show ?thesis by (subst compact.simps) simp
  next
    case False
    then have d: "drop i xs = xs ! i # drop (Suc i) xs" by (simp add: Cons_nth_drop_Suc)
    show ?thesis
    proof (cases "keep (xs ! i)")
      case True
      with False "1.IH"(1) "1.prems"
      have "compact keep xs n i = take (Suc n) (xs[n := xs ! i]) @ filter keep (drop (Suc i) xs)"
        by (subst compact.simps) simp
      with True False "1.prems" show ?thesis by (simp add: d take_Suc_conv_app_nth)
    next
      case keep: False
      with False "1.IH"(2) "1.prems" show ?thesis
        by (subst compact.simps) (simp add: d)
    qed
  qed
qed

lemma compact_from_start: "compact keep xs 0 0 = filter keep xs"
  by (simp add: compact_filter)

end
