(* ===== verification/Lines.thy ===== *)
theory Lines
  imports Prelude
begin

text \<open>
  \<^verbatim>\<open>internal/ioutil/ioutil.go\<close>: the line iterator every downloaded body is read with
  (subscriptions, cidr lists, the three geo databases). \<open>next_line\<close> is the method \<^verbatim>\<open>Next\<close>
  on the iterator's one field \<^verbatim>\<open>remain\<close>; \<open>lines\<close> is the loop every caller writes around it.
  The lemmas show that the iterator yields exactly the trimmed, non-empty, non-comment
  lines of the body, in order.
\<close>

abbreviation newline :: char where
  "newline \<equiv> CHR 0x0A"

definition UnsafeString :: "string \<Rightarrow> string" where
  "UnsafeString b = (if length b = 0 then [] else b)"

lemma UnsafeString_id [simp]: "UnsafeString b = b"
  by (simp add: UnsafeString_def)

definition wanted :: "string \<Rightarrow> bool" where
  "wanted line \<longleftrightarrow> line \<noteq> [] \<and> hd line \<noteq> CHR ''#''"

function next_line :: "string \<Rightarrow> string option \<times> string" where
  "next_line remain =
     (if remain = [] then (None, [])
      else case index_byte newline remain of
        None \<Rightarrow>
          (let line = trim_space remain
           in (if line \<noteq> [] \<and> hd line \<noteq> CHR ''#'' then Some line else None, []))
      | Some idx \<Rightarrow>
          (let line = trim_space (take idx remain); remain' = drop (idx + 1) remain
           in if line \<noteq> [] \<and> hd line \<noteq> CHR ''#'' then (Some line, remain')
              else next_line remain'))"
  by pat_completeness auto
termination
  by (relation "measure length") (auto dest: index_byte_Some)

declare next_line.simps [simp del]

lemma next_line_shorter: "next_line s = (Some l, r) \<Longrightarrow> length r < length s"
proof (induction s rule: next_line.induct)
  case (1 s)
  show ?case
  proof (cases "index_byte newline s")
    case None
    with "1.prems" show ?thesis
      by (auto simp: next_line.simps [of s] Let_def split: if_splits)
  next
    case (Some i)
    then have "s \<noteq> []" "i < length s" using index_byte_Some [OF Some] by auto
    with Some "1.prems" "1.IH" [OF _ Some refl refl] show ?thesis
      by (subst (asm) next_line.simps) (fastforce simp: Let_def split: if_splits)
  qed
qed

function lines :: "string \<Rightarrow> string list" where
  "lines s = (case next_line s of (None, r) \<Rightarrow> [] | (Some l, r) \<Rightarrow> l # lines r)"
  by pat_completeness auto
termination
  by (relation "measure length") (auto dest: next_line_shorter [OF sym])

declare lines.simps [simp del]

section \<open>The reference: split, trim, keep\<close>

fun split_byte :: "char \<Rightarrow> string \<Rightarrow> string list" where
  "split_byte c [] = [[]]"
| "split_byte c (x # xs) =
     (if x = c then [] # split_byte c xs
      else (case split_byte c xs of [] \<Rightarrow> [[x]] | l # ls \<Rightarrow> (x # l) # ls))"

lemma split_byte_nonempty [simp]: "split_byte c s \<noteq> []"
  by (induction s) (auto split: list.splits)

lemma split_byte_absent [simp]: "c \<notin> set s \<Longrightarrow> split_byte c s = [s]"
  by (induction s) auto

lemma split_byte_append:
  "c \<notin> set a \<Longrightarrow> split_byte c (a @ c # b) = a # split_byte c b"
  by (induction a) auto

lemma split_byte_index:
  "index_byte c s = Some i \<Longrightarrow> split_byte c s = take i s # split_byte c (drop (Suc i) s)"
  using index_byte_split [of c s i] index_byte_Some [of c s i] split_byte_append [of c "take i s"]
  by metis

lemma split_byte_no_sep: "l \<in> set (split_byte c s) \<Longrightarrow> c \<notin> set l"
  by (induction s arbitrary: l) (auto split: if_splits list.splits)

definition kept_lines :: "string \<Rightarrow> string list" where
  "kept_lines s = filter wanted (map trim_space (split_byte newline s))"

lemma kept_lines_next:
  "kept_lines s =
     (case next_line s of (None, r) \<Rightarrow> [] | (Some l, r) \<Rightarrow> l # kept_lines r)"
proof (induction s rule: next_line.induct)
  case (1 s)
  show ?case
  proof (cases "index_byte newline s")
    case None
    then have "newline \<notin> set s" by (simp add: index_byte_None)
    with None show ?thesis
      by (subst next_line.simps) (simp add: kept_lines_def wanted_def Let_def)
  next
    case (Some i)
    then have ne: "s \<noteq> []" by auto
    have split: "kept_lines s =
        (if wanted (trim_space (take i s)) then [trim_space (take i s)] else [])
        @ kept_lines (drop (Suc i) s)"
      by (simp add: kept_lines_def split_byte_index [OF Some])
    show ?thesis
    proof (cases "wanted (trim_space (take i s))")
      case True
      then show ?thesis
        using split ne Some by (subst next_line.simps) (simp add: wanted_def Let_def)
    next
      case False
      then have "next_line s = next_line (drop (Suc i) s)"
        using ne Some by (subst next_line.simps) (auto simp: wanted_def Let_def)
      with False show ?thesis
        using split "1.IH" [OF ne Some refl refl] by (simp add: wanted_def)
    qed
  qed
qed

lemma lines_eq_kept: "lines s = kept_lines s"
proof (induction s rule: lines.induct)
  case (1 s)
  show ?case
    using "1.IH"
    by (subst lines.simps, subst kept_lines_next) (auto split: prod.splits option.splits)
qed

lemma in_linesD:
  assumes "l \<in> set (lines s)"
  shows "l \<noteq> []" and "hd l \<noteq> CHR ''#''" and "newline \<notin> set l"
proof -
  from assms obtain t where t: "l = trim_space t" "t \<in> set (split_byte newline s)" "wanted l"
    by (auto simp: lines_eq_kept kept_lines_def)
  then show "l \<noteq> []" "hd l \<noteq> CHR ''#''" by (auto simp: wanted_def)
  show "newline \<notin> set l"
    using t set_trim_space [of t] split_byte_no_sep by blast
qed

text \<open>The lines of a body are the lines of its parts, when the cut is at a newline.\<close>

lemma lines_append: "newline \<notin> set a \<Longrightarrow> lines (a @ newline # b) = lines a @ lines b"
  by (simp add: lines_eq_kept kept_lines_def split_byte_append)

lemma length_lines: "length (lines s) \<le> Suc (count_list s newline)"
proof -
  have "length (split_byte newline s) = Suc (count_list s newline)"
    by (induction s) (auto split: list.splits)
  then show ?thesis
    by (metis length_filter_le length_map lines_eq_kept kept_lines_def)
qed

text \<open>
  the iterator loop over a body returns exactly the body's newline-separated pieces,
  trimmed, without the empty ones and the comments, in their order.
\<close>

theorem lines_are_trimmed_pieces:
  "lines body = filter wanted (map trim_space (split_byte newline body))"
  by (simp add: lines_eq_kept kept_lines_def)

end
