(* ===== verification/Strconv.thy ===== *)
theory Strconv
  imports Prelude
begin

text \<open>
  The part of Go's \<^verbatim>\<open>strconv\<close> the service parses and prints numbers with: \<^verbatim>\<open>ParseUint\<close>,
  \<^verbatim>\<open>Atoi\<close> and \<^verbatim>\<open>Itoa\<close> in base 10. Go's loop reports a range error as soon as the value
  leaves the type; the value only grows with more digits, so testing the whole value is the
  same. The lemmas are the round trip between printing and parsing.
\<close>

definition dec_value :: "string \<Rightarrow> nat" where
  "dec_value s = foldl (\<lambda>n c. n * 10 + (byte c - 48)) 0 s"

definition parse_uint :: "nat \<Rightarrow> string \<Rightarrow> nat option" where
  "parse_uint width s =
     (if s = [] \<or> \<not> list_all is_digit s then None
      else if dec_value s < 2 ^ width then Some (dec_value s) else None)"

text \<open>\<^verbatim>\<open>strconv.Atoi\<close>: an optional sign, digits, the range of a 64-bit \<^verbatim>\<open>int\<close>.\<close>

definition atoi :: "string \<Rightarrow> int option" where
  "atoi s =
     (let neg = (s \<noteq> [] \<and> hd s = CHR ''-'');
          ds = (if s \<noteq> [] \<and> (hd s = CHR ''-'' \<or> hd s = CHR ''+'') then tl s else s)
      in if ds = [] \<or> \<not> list_all is_digit ds then None
         else if neg then (if dec_value ds \<le> 2 ^ 63 then Some (- int (dec_value ds)) else None)
         else (if dec_value ds < 2 ^ 63 then Some (int (dec_value ds)) else None))"

fun itoa :: "nat \<Rightarrow> string" where
  "itoa n = (if n < 10 then [char_of (48 + n)] else itoa (n div 10) @ [char_of (48 + n mod 10)])"

declare itoa.simps [simp del]

lemma dec_value_Nil [simp]: "dec_value [] = 0"
  by (simp add: dec_value_def)

lemma dec_value_snoc [simp]: "dec_value (s @ [c]) = dec_value s * 10 + (byte c - 48)"
  by (simp add: dec_value_def)

lemma digit_char [simp]: "(n::nat) < 10 \<Longrightarrow> byte (char_of (48 + n)) = 48 + n"
  by simp

lemma is_digit_char [simp]: "(n::nat) < 10 \<Longrightarrow> is_digit (char_of (48 + n))"
  by (simp add: is_digit_def)

lemma itoa_digits [simp]: "list_all is_digit (itoa n)"
  by (induction n rule: itoa.induct) (subst itoa.simps, simp)

lemma itoa_nonempty [simp]: "itoa n \<noteq> []"
  by (subst itoa.simps) simp

lemma dec_value_itoa [simp]: "dec_value (itoa n) = n"
proof (induction n rule: itoa.induct)
  case (1 n)
  then show ?case
    by (subst itoa.simps) (auto simp: dec_value_def)
qed

lemma parse_uint_itoa [simp]: "n < 2 ^ w \<Longrightarrow> parse_uint w (itoa n) = Some n"
  by (simp add: parse_uint_def)

lemma parse_uint_Some:
  "parse_uint w s = Some n \<longleftrightarrow> s \<noteq> [] \<and> list_all is_digit s \<and> dec_value s = n \<and> n < 2 ^ w"
  by (auto simp: parse_uint_def)

lemma itoa_inject [simp]: "itoa m = itoa n \<longleftrightarrow> m = n"
  by (metis dec_value_itoa)

lemma not_in_itoa: "\<not> is_digit c \<Longrightarrow> c \<notin> set (itoa n)"
  using itoa_digits [of n] by (auto simp: list_all_iff)

lemma hd_itoa_digit: "is_digit (hd (itoa n))"
  using itoa_digits [of n] itoa_nonempty [of n] hd_in_set by (fastforce simp: list_all_iff)

lemma atoi_itoa [simp]: "n < 2 ^ 63 \<Longrightarrow> atoi (itoa n) = Some (int n)"
proof -
  assume "n < 2 ^ 63"
  moreover have "hd (itoa n) \<noteq> CHR ''-''" "hd (itoa n) \<noteq> CHR ''+''"
    using hd_itoa_digit [of n] by (auto simp: is_digit_def)
  ultimately show ?thesis by (simp add: atoi_def Let_def)
qed

text \<open>The first digit of a number of more than one digit is not zero.\<close>

lemma hd_itoa: "10 \<le> n \<Longrightarrow> hd (itoa n) \<noteq> CHR ''0''"
proof (induction n rule: itoa.induct)
  case (1 n)
  have step: "itoa n = itoa (n div 10) @ [char_of (48 + n mod 10)]"
    using "1.prems" by (subst itoa.simps) simp
  show ?case
  proof (cases "n div 10 < 10")
    case True
    then have "itoa (n div 10) = [char_of (48 + n div 10)]" by (subst itoa.simps) simp
    moreover have "char_of (48 + n div 10) \<noteq> CHR ''0''"
    proof
      assume "char_of (48 + n div 10) = CHR ''0''"
      then have "byte (char_of (48 + n div 10)) = byte (CHR ''0'')" by simp
      then show False using True "1.prems" by (simp del: of_char_of)
    qed
    ultimately show ?thesis using step by simp
  next
    case False
    then show ?thesis using "1.IH" "1.prems" step by simp
  qed
qed

end
