(* ===== verification/Netip.thy ===== *)
theory Netip
  imports Strconv
begin

text \<open>
  Go's \<^verbatim>\<open>net/netip\<close> as the service uses it: addresses, their parser, prefixes. An address
  is the zero value, an IPv4 address of 32 bits or an IPv6 address held as two 64-bit words
  (as Go holds it) with its zone. Errors of the parsers are \<open>None\<close>: every caller only tests
  for an error.
\<close>

unbundle bit_operations_syntax

datatype addr =
    NoAddr
  | V4 "32 word"
  | V6 "64 word" "64 word" string

fun Is4 :: "addr \<Rightarrow> bool" where
  "Is4 (V4 w) \<longleftrightarrow> True"
| "Is4 _ \<longleftrightarrow> False"

fun Is6 :: "addr \<Rightarrow> bool" where
  "Is6 (V6 h l z) \<longleftrightarrow> True"
| "Is6 _ \<longleftrightarrow> False"

fun Is4In6 :: "addr \<Rightarrow> bool" where
  "Is4In6 (V6 h l z) \<longleftrightarrow> h = 0 \<and> drop_bit 32 l = 0xFFFF"
| "Is4In6 _ \<longleftrightarrow> False"

definition IsValid :: "addr \<Rightarrow> bool" where
  "IsValid a \<longleftrightarrow> a \<noteq> NoAddr"

fun Zone :: "addr \<Rightarrow> string" where
  "Zone (V6 h l z) = z"
| "Zone _ = []"

fun withoutZone :: "addr \<Rightarrow> addr" where
  "withoutZone (V6 h l z) = V6 h l []"
| "withoutZone a = a"

fun BitLen :: "addr \<Rightarrow> nat" where
  "BitLen NoAddr = 0"
| "BitLen (V4 w) = 32"
| "BitLen (V6 h l z) = 128"

fun Unmap :: "addr \<Rightarrow> addr" where
  "Unmap (V6 h l z) = (if Is4In6 (V6 h l z) then V4 (ucast l) else V6 h l z)"
| "Unmap a = a"

text \<open>\<^verbatim>\<open>As4\<close>, read big-endian; \<open>None\<close> is its panic.\<close>

fun As4 :: "addr \<Rightarrow> 32 word option" where
  "As4 (V4 w) = Some w"
| "As4 (V6 h l z) = (if Is4In6 (V6 h l z) then Some (ucast l) else None)"
| "As4 NoAddr = None"

text \<open>\<^verbatim>\<open>As16\<close>, its two halves read big-endian.\<close>

fun As16 :: "addr \<Rightarrow> 64 word \<times> 64 word" where
  "As16 (V4 w) = (0, 0xFFFF00000000 OR ucast w)"
| "As16 (V6 h l z) = (h, l)"
| "As16 NoAddr = (0, 0)"

definition zone_less :: "string \<Rightarrow> string \<Rightarrow> bool" where
  "zone_less a b \<longleftrightarrow> (a, b) \<in> lexord {(x, y). byte x < byte y}"

fun Less :: "addr \<Rightarrow> addr \<Rightarrow> bool" where
  "Less (V4 a) (V4 b) \<longleftrightarrow> a < b"
| "Less (V6 h l z) (V6 h' l' z') \<longleftrightarrow>
     h < h' \<or> h = h' \<and> (l < l' \<or> l = l' \<and> zone_less z z')"
| "Less a b \<longleftrightarrow> BitLen a < BitLen b"

lemma Unmap_not_4in6 [simp]: "\<not> Is4In6 (Unmap a)"
  by (cases a) auto

lemma Unmap_idem [simp]: "Unmap (Unmap a) = Unmap a"
  by (cases a) auto

lemma Unmap_V4 [simp]: "Is4 a \<Longrightarrow> Unmap a = a"
  by (cases a) auto

lemma Is4_cases: "Is4 a \<longleftrightarrow> (\<exists>w. a = V4 w)"
  by (cases a) auto

section \<open>Parsing an address\<close>

text \<open>
  \<^verbatim>\<open>parseIPv4Fields\<close>: \<open>prev\<close> is the byte before, \<open>val\<close> and \<open>digLen\<close> the octet being read,
  \<open>fields\<close> the octets stored so far (\<^verbatim>\<open>pos\<close> of them).
\<close>

fun parseIPv4Fields :: "char option \<Rightarrow> nat \<Rightarrow> nat \<Rightarrow> nat list \<Rightarrow> string \<Rightarrow> nat list option" where
  "parseIPv4Fields prev val digLen fields [] =
     (if length fields < 3 then None else Some (fields @ [val]))"
| "parseIPv4Fields prev val digLen fields (c # cs) =
     (if is_digit c then
        (if digLen = 1 \<and> val = 0 then None
         else let val' = val * 10 + (byte c - 48)
              in if val' > 255 then None
                 else parseIPv4Fields (Some c) val' (digLen + 1) fields cs)
      else if c = CHR ''.'' then
        (if prev = None \<or> cs = [] \<or> prev = Some CHR ''.'' then None
         else if length fields = 3 then None
         else parseIPv4Fields (Some c) 0 0 (fields @ [val]) cs)
      else None)"

definition be_value :: "nat list \<Rightarrow> nat" where
  "be_value bs = foldl (\<lambda>n b. n * 256 + b) 0 bs"

definition parseIPv4 :: "string \<Rightarrow> addr option" where
  "parseIPv4 s =
     (case parseIPv4Fields None 0 0 [] s of
        None \<Rightarrow> None
      | Some fs \<Rightarrow> Some (V4 (word_of_nat (be_value fs))))"

definition hex_value :: "char \<Rightarrow> nat option" where
  "hex_value c =
     (if is_digit c then Some (byte c - 48)
      else if 97 \<le> byte c \<and> byte c \<le> 102 then Some (byte c - 97 + 10)
      else if 65 \<le> byte c \<and> byte c \<le> 70 then Some (byte c - 65 + 10)
      else None)"

text \<open>One group of hex digits: its length, its value and the rest; more than four fail.\<close>

fun hex_group :: "nat \<Rightarrow> nat \<Rightarrow> string \<Rightarrow> (nat \<times> nat \<times> string) option" where
  "hex_group off acc [] = Some (off, acc, [])"
| "hex_group off acc (c # cs) =
     (case hex_value c of
        None \<Rightarrow> Some (off, acc, c # cs)
      | Some d \<Rightarrow>
          (if off > 3 then None
           else if acc * 16 + d > 65535 then None
           else hex_group (off + 1) (acc * 16 + d) cs))"

text \<open>
  The loop of \<^verbatim>\<open>parseIPv6\<close> over the 16 bytes: \<open>ip\<close> holds the bytes stored so far, so \<^verbatim>\<open>i\<close>
  is its length; \<open>ell\<close> is the position of the ellipsis. It returns the bytes, the ellipsis
  and what is left of the string.
\<close>

function ipv6_loop ::
  "nat list \<Rightarrow> nat option \<Rightarrow> string \<Rightarrow> (nat list \<times> nat option \<times> string) option" where
  "ipv6_loop ip ell s =
     (if 16 \<le> length ip then Some (ip, ell, s)
      else case hex_group 0 0 s of
        None \<Rightarrow> None
      | Some (off, acc, rest) \<Rightarrow>
          (if off = 0 then None
           else if rest \<noteq> [] \<and> hd rest = CHR ''.'' then
             (if ell = None \<and> length ip \<noteq> 12 then None
              else if length ip + 4 > 16 then None
              else case parseIPv4Fields None 0 0 [] s of
                None \<Rightarrow> None
              | Some fs \<Rightarrow> Some (ip @ fs, ell, []))
           else
             (let ip' = ip @ [acc div 256, acc mod 256]
              in if rest = [] then Some (ip', ell, [])
                 else if hd rest \<noteq> CHR '':'' then None
                 else if tl rest = [] then None
                 else if hd (tl rest) = CHR '':'' then
                   (if ell \<noteq> None then None
                    else if tl (tl rest) = [] then Some (ip', Some (length ip'), [])
                    else ipv6_loop ip' (Some (length ip')) (tl (tl rest)))
                 else ipv6_loop ip' ell (tl rest))))"
  by pat_completeness auto
termination
  by (relation "measure (\<lambda>(ip, ell, s). 16 - length ip)") auto

declare ipv6_loop.simps [simp del]

definition ipv6_finish :: "nat list \<Rightarrow> nat option \<Rightarrow> string \<Rightarrow> nat list option" where
  "ipv6_finish ip ell s =
     (if s \<noteq> [] then None
      else if length ip < 16 then
        (case ell of
           None \<Rightarrow> None
         | Some e \<Rightarrow> Some (take e ip @ replicate (16 - length ip) 0 @ drop e ip))
      else if ell \<noteq> None then None
      else Some ip)"

definition v6_of_bytes :: "nat list \<Rightarrow> string \<Rightarrow> addr" where
  "v6_of_bytes bs zone =
     V6 (word_of_nat (be_value (take 8 bs))) (word_of_nat (be_value (drop 8 bs))) zone"

definition parseIPv6 :: "string \<Rightarrow> addr option" where
  "parseIPv6 inp =
     (let (s, zone, found) = cut_byte CHR ''%'' inp
      in if found \<and> zone = [] then None
         else if has_prefix ''::'' s then
           (if drop 2 s = [] then Some (V6 0 0 zone)
            else case ipv6_loop [] (Some 0) (drop 2 s) of
              None \<Rightarrow> None
            | Some (ip, ell, r) \<Rightarrow> map_option (\<lambda>bs. v6_of_bytes bs zone) (ipv6_finish ip ell r))
         else (case ipv6_loop [] None s of
              None \<Rightarrow> None
            | Some (ip, ell, r) \<Rightarrow> map_option (\<lambda>bs. v6_of_bytes bs zone) (ipv6_finish ip ell r)))"

fun addr_kind :: "string \<Rightarrow> char option" where
  "addr_kind [] = None"
| "addr_kind (c # cs) =
     (if c = CHR ''.'' \<or> c = CHR '':'' \<or> c = CHR ''%'' then Some c else addr_kind cs)"

definition ParseAddr :: "string \<Rightarrow> addr option" where
  "ParseAddr s =
     (case addr_kind s of
        None \<Rightarrow> None
      | Some c \<Rightarrow>
          (if c = CHR ''.'' then parseIPv4 s
           else if c = CHR '':'' then parseIPv6 s
           else None))"

section \<open>Prefixes\<close>

record prefix =
  paddr :: addr
  pbits :: nat

text \<open>\<^verbatim>\<open>Addr.Prefix\<close>: the zone is dropped and the host bits are cleared; \<open>None\<close> is its error.\<close>

definition mask32 :: "nat \<Rightarrow> 32 word" where
  "mask32 n = push_bit (32 - n) (- 1)"

definition mask_hi :: "nat \<Rightarrow> 64 word" where
  "mask_hi n = NOT (drop_bit n (- 1))"

definition mask_lo :: "nat \<Rightarrow> 64 word" where
  "mask_lo n = push_bit (128 - n) (- 1)"

fun addr_Prefix :: "addr \<Rightarrow> nat \<Rightarrow> prefix option" where
  "addr_Prefix NoAddr b = Some \<lparr>paddr = NoAddr, pbits = 0\<rparr>"
| "addr_Prefix (V4 w) b =
     (if b > 32 then None else Some \<lparr>paddr = V4 (w AND mask32 b), pbits = b\<rparr>)"
| "addr_Prefix (V6 h l z) b =
     (if b > 128 then None
      else Some \<lparr>paddr = V6 (h AND mask_hi b) (l AND mask_lo b) [], pbits = b\<rparr>)"

definition Masked :: "prefix \<Rightarrow> prefix" where
  "Masked p =
     (case addr_Prefix (paddr p) (pbits p) of
        Some q \<Rightarrow> q
      | None \<Rightarrow> \<lparr>paddr = NoAddr, pbits = 0\<rparr>)"

definition PrefixFrom :: "addr \<Rightarrow> nat \<Rightarrow> prefix" where
  "PrefixFrom a b = \<lparr>paddr = withoutZone a, pbits = b\<rparr>"

definition ParsePrefix :: "string \<Rightarrow> prefix option" where
  "ParsePrefix s =
     (case last_index_byte CHR ''/'' s of
        None \<Rightarrow> None
      | Some i \<Rightarrow>
          (case ParseAddr (take i s) of
             None \<Rightarrow> None
           | Some ip \<Rightarrow>
               (if Is6 ip \<and> Zone ip \<noteq> [] then None
                else let bits = drop (Suc i) s
                     in if length bits > 1 \<and> \<not> (49 \<le> byte (hd bits) \<and> byte (hd bits) \<le> 57)
                        then None
                        else case atoi bits of
                          None \<Rightarrow> None
                        | Some n \<Rightarrow>
                            (if n < 0 \<or> n > (if Is6 ip then 128 else 32) then None
                             else Some (PrefixFrom ip (nat n))))))"

lemma replicate_numeral [model_defs]:
  "replicate (numeral n) x = x # replicate (pred_numeral n) x"
  by (simp add: numeral_eq_Suc)

lemmas netip_eval [model_defs] =
  ParseAddr_def parseIPv4_def is_digit_def be_value_def hex_value_def parseIPv6_def cut_byte_def
  Let_def ipv6_finish_def v6_of_bytes_def ParsePrefix_def atoi_def dec_value_def PrefixFrom_def
  ipv6_loop.simps

lemma withoutZone_simps [simp]:
  "Is4 (withoutZone a) = Is4 a" "Is6 (withoutZone a) = Is6 a" "BitLen (withoutZone a) = BitLen a"
  "Zone (withoutZone a) = []"
  by (cases a; simp)+

lemma BitLen_le_128 [simp]: "BitLen a \<le> 128"
  by (cases a) auto

text \<open>A parsed prefix fits its family, and masking it keeps the family and the length.\<close>

definition prefix_ok :: "prefix \<Rightarrow> bool" where
  "prefix_ok p \<longleftrightarrow> pbits p \<le> BitLen (paddr p) \<and> paddr p \<noteq> NoAddr \<and> Zone (paddr p) = []"

lemma ParseAddr_valid: "ParseAddr s = Some a \<Longrightarrow> a \<noteq> NoAddr"
  by (auto simp: ParseAddr_def parseIPv4_def parseIPv6_def Let_def v6_of_bytes_def
      split: option.splits if_splits prod.splits)

definition before_slash :: "string \<Rightarrow> string" where
  "before_slash s = (case last_index_byte CHR ''/'' s of None \<Rightarrow> s | Some i \<Rightarrow> take i s)"

lemma ParsePrefix_SomeD:
  assumes "ParsePrefix s = Some p"
  obtains ip n where "ParseAddr (before_slash s) = Some ip" "n \<le> (if Is6 ip then 128 else 32)"
    and "p = PrefixFrom ip n" and "Zone ip = []"
proof -
  obtain i where i: "last_index_byte CHR ''/'' s = Some i"
    using assms by (auto simp: ParsePrefix_def split: option.splits)
  obtain ip where ip: "ParseAddr (take i s) = Some ip"
    using assms by (auto simp: ParsePrefix_def i split: option.splits)
  obtain m where "\<not> (m < 0 \<or> m > (if Is6 ip then 128 else 32))" "p = PrefixFrom ip (nat m)"
    using assms unfolding ParsePrefix_def i ip option.simps Let_def
    by (auto split: option.splits if_splits)
  then have "nat m \<le> (if Is6 ip then 128 else 32)" "p = PrefixFrom ip (nat m)"
    by (auto split: if_splits)
  moreover have "Zone ip = []"
    using assms by (cases ip) (auto simp: ParsePrefix_def i ip split: if_splits)
  ultimately show thesis using that ip by (simp add: before_slash_def i)
qed

lemma ParsePrefix_ok: "ParsePrefix s = Some p \<Longrightarrow> prefix_ok p"
  by (erule ParsePrefix_SomeD)
     (auto simp: prefix_ok_def PrefixFrom_def dest!: ParseAddr_valid, (case_tac ip; simp)+)

lemma Masked_simps [simp]:
  assumes "prefix_ok p"
  shows "prefix_ok (Masked p)" and "pbits (Masked p) = pbits p"
    and "Is4 (paddr (Masked p)) = Is4 (paddr p)" and "Is6 (paddr (Masked p)) = Is6 (paddr p)"
  using assms by (cases "paddr p"; simp add: prefix_ok_def Masked_def)+

end
