(* ===== verification/Words.thy ===== *)
theory Words
  imports Prelude
begin

text \<open>
  Intervals of machine words: the successor below the top, the block of addresses under a
  prefix mask, and the size of an interval. Shared by the allow-list and the geo databases.
\<close>

unbundle bit_operations_syntax

lemma unat_bound: "unat (w :: 'a::len word) < 2 ^ LENGTH('a)"
  by (rule unsigned_less)

lemma word_top_unat: "(w :: 'a::len word) = - 1 \<longleftrightarrow> unat w = 2 ^ LENGTH('a) - 1"
proof -
  have "unat (- 1 :: 'a word) = 2 ^ LENGTH('a) - 1"
    by (simp add: unsigned_minus_1_eq_mask mask_eq_exp_minus_1)
  then show ?thesis by (metis unsigned_word_eqI)
qed

lemma unat_plus_one: "(w :: 'a::len word) \<noteq> - 1 \<Longrightarrow> unat (w + 1) = unat w + 1"
proof -
  assume "w \<noteq> - 1"
  then have "unat w \<noteq> 2 ^ LENGTH('a) - 1" by (simp add: word_top_unat)
  then have "unat w + 1 < 2 ^ LENGTH('a)" using unat_bound [of w] by linarith
  then show ?thesis by (simp add: unat_word_ariths)
qed

lemma unat_image_interval: "unat ` {a .. b :: 'a::len word} = {unat a .. unat b}"
proof
  show "unat ` {a .. b} \<subseteq> {unat a .. unat b}" by (auto simp: word_le_nat_alt)
  show "{unat a .. unat b} \<subseteq> unat ` {a .. b}"
  proof
    fix n assume n: "n \<in> {unat a .. unat b}"
    then have "n \<le> unat b" by simp
    then have "n < 2 ^ LENGTH('a)" using unat_bound by (rule le_less_trans)
    then have "unat (word_of_nat n :: 'a word) = n"
      by (simp add: unsigned_of_nat take_bit_nat_eq_self)
    with n show "n \<in> unat ` {a .. b}"
      by (intro image_eqI [of _ _ "word_of_nat n"]) (auto simp: word_le_nat_alt)
  qed
qed

lemma card_word_interval: "a \<le> b \<Longrightarrow> card {a .. b :: 'a::len word} = unat (b - a) + 1"
proof -
  assume "a \<le> b"
  have "inj_on unat {a .. b}" by (auto simp: inj_on_def intro: unsigned_word_eqI)
  then have "card {a .. b} = card {unat a .. unat b}"
    by (metis card_image unat_image_interval)
  with \<open>a \<le> b\<close> show ?thesis
    by (simp add: word_le_nat_alt unat_sub)
qed

section \<open>Prefix blocks\<close>

lemma and_not_mask_minus: "(x :: 'a::len word) AND NOT (mask k) = x - take_bit k x"
proof -
  have "(x AND NOT (mask k)) + take_bit k x = (x AND NOT (mask k)) OR take_bit k x"
    by (rule disjunctive_add_eq_or) (auto simp: bit_eq_iff bit_simps)
  also have "\<dots> = x" by (auto simp: bit_eq_iff bit_simps)
  finally show ?thesis by (simp add: algebra_simps)
qed

lemma unat_and_not_mask: "unat ((x :: 'a::len word) AND NOT (mask k)) = unat x div 2 ^ k * 2 ^ k"
proof -
  have t: "unat (take_bit k x) = unat x mod 2 ^ k"
    by (metis unsigned_take_bit_eq take_bit_eq_mod)
  then have "take_bit k x \<le> x" by (simp add: word_le_nat_alt)
  then have "unat (x - take_bit k x) = unat x - unat x mod 2 ^ k"
    by (simp add: unat_sub t)
  then show ?thesis by (simp add: and_not_mask_minus minus_mod_eq_div_mult)
qed

lemma and_not_mask_mono: "(x :: 'a::len word) \<le> y \<Longrightarrow> x AND NOT (mask k) \<le> y AND NOT (mask k)"
  by (simp add: word_le_nat_alt unat_and_not_mask div_le_mono)

lemma prefix_block:
  fixes v w :: "'a::len word"
  shows "v \<in> {w AND NOT (mask k) .. w AND NOT (mask k) OR mask k} \<longleftrightarrow>
         v AND NOT (mask k) = w AND NOT (mask k)" (is "v \<in> {?a .. _} \<longleftrightarrow> _")
proof
  assume "v AND NOT (mask k) = ?a"
  moreover have "v AND NOT (mask k) \<le> v" by (rule word_and_le2)
  moreover have "v \<le> (v AND NOT (mask k)) OR mask k"
  proof -
    have "(v AND NOT (mask k)) OR mask k = v OR mask k" by (auto simp: bit_eq_iff bit_simps)
    then show ?thesis by (simp add: le_word_or2)
  qed
  ultimately show "v \<in> {?a .. ?a OR mask k}" by simp
next
  assume v: "v \<in> {?a .. ?a OR mask k}"
  have "?a AND NOT (mask k) = ?a" by (auto simp: bit_eq_iff bit_simps)
  moreover have "(?a OR mask k) AND NOT (mask k) = ?a" by (auto simp: bit_eq_iff bit_simps)
  ultimately show "v AND NOT (mask k) = ?a"
    using v and_not_mask_mono [of ?a v k] and_not_mask_mono [of v "?a OR mask k" k] by simp
qed

text \<open>The two ways the code writes a mask.\<close>

lemma drop_bit_top: "n \<le> LENGTH('a) \<Longrightarrow> drop_bit n (- 1 :: 'a::len word) = mask (LENGTH('a) - n)"
  by (auto simp: bit_eq_iff bit_simps)

lemma push_bit_top: "push_bit k (- 1 :: 'a::len word) = NOT (mask k)"
  by (auto simp: bit_eq_iff bit_simps)

end
