(* ===== verification/SourceLoop.thy ===== *)
theory SourceLoop
  imports Prelude
begin

text \<open>
  The loop the allow-list and the country databases share: go over the configured sources,
  skip the nameless ones, count the ones that gave nothing, append what the others gave.
  \<open>source_loop\<close> is that contract; each loader interprets it with its own reader.
\<close>

locale source_loop =
  fixes source_name :: "'s \<Rightarrow> string"
    and source_gives :: "'s \<Rightarrow> 'e list"
    and load_loop :: "'e list \<Rightarrow> nat \<Rightarrow> 's list \<Rightarrow> 'e list \<times> nat"
  assumes load_Nil: "load_loop acc n [] = (acc, n)"
    and load_Cons: "load_loop acc n (s # ss) =
      (if source_name s = [] then load_loop acc n ss
       else if source_gives s = [] then load_loop acc (n + 1) ss
       else load_loop (acc @ source_gives s) n ss)"
begin

definition gathered :: "'s list \<Rightarrow> 'e list" where
  "gathered ss = concat (map source_gives (filter (\<lambda>s. source_name s \<noteq> []) ss))"

definition barren :: "'s list \<Rightarrow> nat" where
  "barren ss = length (filter (\<lambda>s. source_name s \<noteq> [] \<and> source_gives s = []) ss)"

definition named :: "'s list \<Rightarrow> nat" where
  "named ss = length (filter (\<lambda>s. source_name s \<noteq> []) ss)"

lemma load_loop_eq: "load_loop acc n ss = (acc @ gathered ss, n + barren ss)"
  by (induction ss arbitrary: acc n)
     (auto simp: load_Nil load_Cons gathered_def barren_def)

lemma in_gathered:
  "x \<in> set (gathered ss) \<longleftrightarrow> (\<exists>s \<in> set ss. source_name s \<noteq> [] \<and> x \<in> set (source_gives s))"
  by (auto simp: gathered_def)

lemma gathered_empty: "gathered ss = [] \<Longrightarrow> barren ss = named ss"
  by (induction ss) (auto simp: gathered_def barren_def named_def split: if_splits)

lemma gathered_nonempty: "gathered ss \<noteq> [] \<Longrightarrow> barren ss < named ss"
proof (induction ss)
  case (Cons s ss)
  have "barren ss \<le> named ss"
    by (induction ss) (auto simp: barren_def named_def)
  with Cons show ?case
    by (cases "gathered ss = []") (auto simp: gathered_def barren_def named_def split: if_splits)
qed (simp add: gathered_def)

end

end
