(* ===== verification/CidrSet.thy ===== *)
theory CidrSet
  imports Netip Lines Words SourceLoop
begin

text \<open>
  \<^verbatim>\<open>internal/cidrset/cidrset.go\<close>: the IPv4 allow-list. Ranges are parsed one per line,
  sorted, coalesced in place into separated ranges, and answered by one binary search.
  The lemmas show that the coalesced set admits exactly the addresses of the parsed ranges,
  that its form does not depend on how the sort breaks ties, and that \<open>covered\<close> counts its
  addresses without wrapping. The download is the parameter \<open>fetchBytes\<close>.
\<close>

record ipRange =
  lo :: "32 word"
  hi :: "32 word"

record cidr_set =
  ranges :: "ipRange list"
  covered :: "64 word"

definition hostMask :: "nat \<Rightarrow> 32 word" where
  "hostMask bits = drop_bit bits (NOT 0)"

definition addrToUint32 :: "addr \<Rightarrow> 32 word" where
  "addrToUint32 a = (case As4 a of Some w \<Rightarrow> w | None \<Rightarrow> 0)"

definition parseLine :: "string \<Rightarrow> ipRange option" where
  "parseLine line =
     (let txt = UnsafeString line
      in if CHR ''/'' \<in> set line then
           (case ParsePrefix txt of
              None \<Rightarrow> None
            | Some prefix \<Rightarrow>
                (if \<not> Is4 (paddr prefix) then None
                 else let prefix' = Masked prefix; l = addrToUint32 (paddr prefix')
                      in Some \<lparr>lo = l, hi = l OR hostMask (pbits prefix')\<rparr>))
         else
           (case ParseAddr txt of
              None \<Rightarrow> None
            | Some addr \<Rightarrow>
                (if \<not> Is4 addr then None
                 else let value = addrToUint32 addr in Some \<lparr>lo = value, hi = value\<rparr>)))"

fun parseRanges_loop :: "ipRange list \<Rightarrow> nat \<Rightarrow> string list \<Rightarrow> ipRange list \<times> nat" where
  "parseRanges_loop rs skipped [] = (rs, skipped)"
| "parseRanges_loop rs skipped (line # ls) =
     (case parseLine line of
        None \<Rightarrow> parseRanges_loop rs (skipped + 1) ls
      | Some parsed \<Rightarrow> parseRanges_loop (rs @ [parsed]) skipped ls)"

definition parseRanges :: "string \<Rightarrow> ipRange list \<times> nat" where
  "parseRanges body = parseRanges_loop [] 0 (lines body)"

text \<open>
  The loop of \<^verbatim>\<open>newSet\<close> over the sorted slice, which it overwrites in place: \<open>k\<close> is the
  index the range clause reads next, \<open>lastIdx\<close> (\<^verbatim>\<open>last\<close>) that of the latest merged range.
\<close>

function coalesce :: "ipRange list \<Rightarrow> nat \<Rightarrow> nat \<Rightarrow> ipRange list \<times> nat" where
  "coalesce rs lastIdx k =
     (if length rs \<le> k then (rs, lastIdx)
      else if hi (rs ! lastIdx) = - 1 then (rs, lastIdx)
      else if lo (rs ! k) \<le> hi (rs ! lastIdx) + 1 then
        coalesce (rs[lastIdx := (rs ! lastIdx)\<lparr>hi := max (hi (rs ! lastIdx)) (hi (rs ! k))\<rparr>]) lastIdx (k + 1)
      else coalesce (rs[lastIdx + 1 := rs ! k]) (lastIdx + 1) (k + 1))"
  by pat_completeness auto
termination
  by (relation "measure (\<lambda>(rs, lastIdx, k). length rs - k)") auto

declare coalesce.simps [simp del]

definition range_size :: "ipRange \<Rightarrow> 64 word" where
  "range_size r = ucast (hi r - lo r) + 1"

definition newSet :: "ipRange list \<Rightarrow> cidr_set" where
  "newSet rs =
     (if rs = [] then \<lparr>ranges = [], covered = 0\<rparr>
      else let (rs', lastIdx) = coalesce (sort_key lo rs) 0 1; merged = take (lastIdx + 1) rs'
           in \<lparr>ranges = merged, covered = foldl (\<lambda>c r. c + range_size r) 0 merged\<rparr>)"

definition Parse :: "string \<Rightarrow> cidr_set \<times> nat" where
  "Parse body = (let (rs, skipped) = parseRanges body in (newSet rs, skipped))"

definition Contains :: "cidr_set \<Rightarrow> addr \<Rightarrow> bool" where
  "Contains s ip =
     (let addr = Unmap ip
      in if ranges s = [] \<or> \<not> Is4 addr then False
         else let v = addrToUint32 addr;
                  idx = go_search (length (ranges s)) (\<lambda>i. lo (ranges s ! i) > v)
              in if idx = 0 then False else v \<le> hi (ranges s ! (idx - 1)))"

definition Len :: "cidr_set \<Rightarrow> nat" where
  "Len s = length (ranges s)"

definition Covered :: "cidr_set \<Rightarrow> 64 word" where
  "Covered s = covered s"

text \<open>\<^verbatim>\<open>Load\<close>: the accumulated ranges and the count of failed sources, over the urls.\<close>

fun Load_loop :: "(string \<Rightarrow> string option) \<Rightarrow> ipRange list \<Rightarrow> nat \<Rightarrow> string list \<Rightarrow> ipRange list \<times> nat" where
  "Load_loop fetchBytes rs failed [] = (rs, failed)"
| "Load_loop fetchBytes rs failed (url # urls) =
     (if url = [] then Load_loop fetchBytes rs failed urls
      else case fetchBytes url of
        None \<Rightarrow> Load_loop fetchBytes rs (failed + 1) urls
      | Some body \<Rightarrow>
          (let (part, skipped) = parseRanges body
           in if part = [] then Load_loop fetchBytes rs (failed + 1) urls
              else if rs = [] then Load_loop fetchBytes part failed urls
              else Load_loop fetchBytes (rs @ part) failed urls))"

datatype load_error = NoRangesLoaded nat

definition Load :: "(string \<Rightarrow> string option) \<Rightarrow> string list \<Rightarrow> load_error + cidr_set \<times> nat" where
  "Load fetchBytes urls =
     (let (rs, failed) = Load_loop fetchBytes [] 0 urls
      in if rs = [] then Inl (NoRangesLoaded failed) else Inr (newSet rs, failed))"

section \<open>Membership\<close>

definition members :: "ipRange list \<Rightarrow> 32 word set" where
  "members rs = (\<Union>r \<in> set rs. {lo r .. hi r})"

definition range_ok :: "ipRange \<Rightarrow> bool" where
  "range_ok r \<longleftrightarrow> lo r \<le> hi r"

definition separated :: "ipRange list \<Rightarrow> bool" where
  "separated rs \<longleftrightarrow>
     sorted_wrt (\<lambda>r s. unat (hi r) + 1 < unat (lo s)) rs \<and> (\<forall>r \<in> set rs. range_ok r)"

lemma members_simps [simp]:
  "members [] = {}" "members (r # rs) = {lo r .. hi r} \<union> members rs"
  "members (rs @ ss) = members rs \<union> members ss"
  by (auto simp: members_def)

lemma members_cong_set: "set rs = set ss \<Longrightarrow> members rs = members ss"
  by (simp add: members_def)

lemma members_sort_key [simp]: "members (sort_key f rs) = members rs"
  by (rule members_cong_set) simp

text \<open>The arithmetic of one step of the merge: \<open>h + 1\<close> does not wrap below the top address.\<close>

lemma merge_interval:
  fixes a b c d :: "32 word"
  assumes "a \<le> b" "c \<le> d" "a \<le> c" "b \<noteq> - 1" "c \<le> b + 1"
  shows "{a .. max b d} = {a .. b} \<union> {c .. d}"
proof -
  have "unat c \<le> unat b + 1"
    using assms(4,5) by (simp add: word_le_nat_alt unat_plus_one)
  then show ?thesis
    using assms(1-3)
    by (auto simp: word_le_nat_alt max_def split: if_splits)
qed

section \<open>The in-place merge is the merge of a list\<close>

fun merge_run :: "ipRange \<Rightarrow> ipRange list \<Rightarrow> ipRange list" where
  "merge_run cur [] = [cur]"
| "merge_run cur (n # ns) =
     (if hi cur = - 1 then [cur]
      else if lo n \<le> hi cur + 1 then merge_run (cur\<lparr>hi := max (hi cur) (hi n)\<rparr>) ns
      else cur # merge_run n ns)"

lemma coalesce_merge_run:
  assumes "coalesce rs i k = (rs', i')" "i < k" "k \<le> length rs"
  shows "take (Suc i') rs' = take i rs @ merge_run (rs ! i) (drop k rs)"
  using assms
proof (induction rs i k arbitrary: rs' i' rule: coalesce.induct)
  case (1 rs i k)
  show ?case
  proof (cases "k = length rs")
    case True
    then have "coalesce rs i k = (rs, i)" by (subst coalesce.simps) simp
    with "1.prems" True show ?thesis by (simp add: take_Suc_conv_app_nth)
  next
    case False
    then have k: "k < length rs" using "1.prems" by simp
    then have d: "drop k rs = rs ! k # drop (Suc k) rs" by (simp add: Cons_nth_drop_Suc)
    consider (top) "hi (rs ! i) = - 1"
      | (join) "hi (rs ! i) \<noteq> - 1" "lo (rs ! k) \<le> hi (rs ! i) + 1"
      | (new) "hi (rs ! i) \<noteq> - 1" "\<not> lo (rs ! k) \<le> hi (rs ! i) + 1" by blast
    then show ?thesis
    proof cases
      case top
      then have "coalesce rs i k = (rs, i)" by (subst coalesce.simps) simp
      with "1.prems" top k d show ?thesis by (simp add: take_Suc_conv_app_nth)
    next
      case join
      with "1.prems"(1) k
      have "coalesce (rs[i := (rs ! i)\<lparr>hi := max (hi (rs ! i)) (hi (rs ! k))\<rparr>]) i (k + 1) = (rs', i')"
        by (subst (asm) coalesce.simps) simp
      from "1.IH"(1) [OF _ _ _ this] join k "1.prems"(2) d show ?thesis by simp
    next
      case new
      with "1.prems"(1) k have "coalesce (rs[i + 1 := rs ! k]) (i + 1) (k + 1) = (rs', i')"
        by (subst (asm) coalesce.simps) simp
      from "1.IH"(2) [OF _ _ _ this] new k "1.prems"(2) d show ?thesis
        by (simp add: take_Suc_conv_app_nth)
    qed
  qed
qed

lemma newSet_ranges:
  "ranges (newSet rs) = (case sort_key lo rs of [] \<Rightarrow> [] | r # rs' \<Rightarrow> merge_run r rs')"
proof (cases "sort_key lo rs")
  case Nil
  then have "rs = []" by (metis set_sort set_empty)
  then show ?thesis by (simp add: newSet_def)
next
  case (Cons r rs')
  obtain ss i where c: "coalesce (r # rs') 0 (Suc 0) = (ss, i)" by fastforce
  then have "take (Suc i) ss = merge_run r rs'"
    using coalesce_merge_run [OF c] by simp
  moreover have "rs \<noteq> []" using Cons by auto
  ultimately show ?thesis by (simp add: newSet_def c Cons Let_def)
qed

lemma newSet_covered: "covered (newSet rs) = foldl (\<lambda>c r. c + range_size r) 0 (ranges (newSet rs))"
  by (auto simp: newSet_def Let_def split: prod.splits)

lemma joined_ok:
  assumes "\<forall>r \<in> set (cur # n # ns). range_ok r" "sorted (map lo (cur # n # ns))"
  shows "\<forall>r \<in> set (cur\<lparr>hi := max (hi cur) (hi n)\<rparr> # ns). range_ok r"
    and "sorted (map lo (cur\<lparr>hi := max (hi cur) (hi n)\<rparr> # ns))"
  using assms by (simp_all add: range_ok_def le_max_iff_disj)

lemma merge_run_members:
  assumes "\<forall>r \<in> set (cur # ns). range_ok r" "sorted (map lo (cur # ns))"
  shows "members (merge_run cur ns) = members (cur # ns)"
  using assms
proof (induction cur ns rule: merge_run.induct)
  case (2 cur n ns)
  consider (top) "hi cur = - 1" | (join) "hi cur \<noteq> - 1" "lo n \<le> hi cur + 1"
    | (new) "hi cur \<noteq> - 1" "\<not> lo n \<le> hi cur + 1" by blast
  then show ?case
  proof cases
    case top
    have "members (n # ns) \<subseteq> {lo cur .. - 1}"
      using "2.prems"(2) by (auto simp: members_def) (meson order_trans)+
    with top show ?thesis by auto
  next
    case join
    then have "{lo cur .. max (hi cur) (hi n)} = {lo cur .. hi cur} \<union> {lo n .. hi n}"
      using "2.prems" by (intro merge_interval) (auto simp: range_ok_def)
    moreover have "members (merge_run (cur\<lparr>hi := max (hi cur) (hi n)\<rparr>) ns)
        = members (cur\<lparr>hi := max (hi cur) (hi n)\<rparr> # ns)"
      using "2.IH"(1) [OF join joined_ok [OF "2.prems"]] .
    ultimately show ?thesis using join by auto
  next
    case new
    with "2.IH"(2) [OF new] "2.prems" show ?thesis by auto
  qed
qed simp

lemma merge_run_separated:
  assumes "\<forall>r \<in> set (cur # ns). range_ok r" "sorted (map lo (cur # ns))"
  shows "separated (merge_run cur ns) \<and> (\<forall>r \<in> set (merge_run cur ns). lo cur \<le> lo r)"
  using assms
proof (induction cur ns rule: merge_run.induct)
  case (1 cur)
  then show ?case by (simp add: separated_def)
next
  case (2 cur n ns)
  consider (top) "hi cur = - 1" | (join) "hi cur \<noteq> - 1" "lo n \<le> hi cur + 1"
    | (new) "hi cur \<noteq> - 1" "\<not> lo n \<le> hi cur + 1" by blast
  then show ?case
  proof cases
    case top
    with "2.prems" show ?thesis by (simp add: separated_def)
  next
    case join
    then have "merge_run cur (n # ns) = merge_run (cur\<lparr>hi := max (hi cur) (hi n)\<rparr>) ns" by simp
    with "2.IH"(1) [OF join joined_ok [OF "2.prems"]] show ?thesis by simp
  next
    case new
    have ih: "separated (merge_run n ns)" "\<forall>r \<in> set (merge_run n ns). lo n \<le> lo r"
      using "2.IH"(2) [OF new] "2.prems" by auto
    have e: "merge_run cur (n # ns) = cur # merge_run n ns" using new by simp
    have ok: "range_ok cur" using "2.prems"(1) by simp
    have "unat (hi cur) + 1 < unat (lo n)"
      using new unat_plus_one [of "hi cur"] by (simp add: word_le_nat_alt)
    with ih have "\<forall>r \<in> set (merge_run n ns). unat (hi cur) + 1 < unat (lo r)"
      by (auto simp: word_le_nat_alt intro: less_le_trans)
    moreover have "lo cur \<le> lo r" if "r \<in> set (merge_run n ns)" for r
      using ih(2) "2.prems"(2) that order_trans [of "lo cur" "lo n" "lo r"] by simp
    ultimately show ?thesis
      unfolding e using ih(1) ok by (simp add: separated_def)
  qed
qed

lemma newSet_spec:
  assumes "\<forall>r \<in> set rs. range_ok r"
  shows "separated (ranges (newSet rs))" and "members (ranges (newSet rs)) = members rs"
proof -
  have *: "separated (ranges (newSet rs)) \<and> members (ranges (newSet rs)) = members (sort_key lo rs)"
  proof (cases "sort_key lo rs")
    case Nil
    then show ?thesis by (simp add: newSet_ranges separated_def)
  next
    case (Cons r rs')
    have ok: "\<forall>x \<in> set (r # rs'). range_ok x"
      using assms by (simp flip: Cons)
    have srt: "sorted (map lo (r # rs'))"
      using sorted_sort_key [of lo rs] by (simp only: Cons)
    show ?thesis
      using merge_run_separated [OF ok srt] merge_run_members [OF ok srt]
      by (simp only: newSet_ranges Cons list.case)
  qed
  then show "separated (ranges (newSet rs))" "members (ranges (newSet rs)) = members rs" by auto
qed

lemma separated_Cons:
  "separated (r # rs) \<longleftrightarrow>
     range_ok r \<and> (\<forall>s \<in> set rs. unat (hi r) + 1 < unat (lo s)) \<and> separated rs"
  by (auto simp: separated_def)

lemma separated_head_least:
  assumes "separated (r # rs)" "v \<in> members (r # rs)"
  shows "lo r \<le> v" and "v \<notin> {lo r .. hi r} \<Longrightarrow> unat (hi r) + 1 < unat v"
proof -
  have gap: "unat (hi r) + 1 < unat v" if v: "v \<in> members rs"
  proof -
    from v obtain s where "s \<in> set rs" "lo s \<le> v" by (auto simp: members_def)
    then show ?thesis
      using assms(1) by (fastforce simp: separated_Cons word_le_nat_alt)
  qed
  then show "v \<notin> {lo r .. hi r} \<Longrightarrow> unat (hi r) + 1 < unat v"
    using assms(2) by auto
  show "lo r \<le> v"
  proof (cases "v \<in> {lo r .. hi r}")
    case False
    with gap assms show ?thesis
      by (auto simp: separated_Cons range_ok_def word_le_nat_alt)
  qed simp
qed

text \<open>A separated list is determined by its addresses: the form of a set is canonical.\<close>

lemma separated_top_le:
  assumes "separated (r # rs)" "separated (s # ss)" "members (r # rs) = members (s # ss)"
    and "lo r = lo s"
  shows "hi s \<le> hi r"
proof (rule ccontr)
  assume "\<not> hi s \<le> hi r"
  then have lt: "unat (hi r) < unat (hi s)" by (simp add: word_le_nat_alt)
  then have ne: "hi r \<noteq> - 1" using unat_bound [of "hi s"] by (auto simp: word_top_unat)
  have "lo s \<le> hi r" using assms(1,4) by (simp add: separated_Cons range_ok_def)
  then have "hi r + 1 \<in> {lo s .. hi s}"
    using lt by (simp add: word_le_nat_alt unat_plus_one [OF ne])
  then have "hi r + 1 \<in> members (r # rs)" using assms(3) by auto
  moreover have "hi r + 1 \<notin> {lo r .. hi r}"
    by (simp add: word_le_nat_alt unat_plus_one [OF ne])
  ultimately show False
    using separated_head_least(2) [OF assms(1), of "hi r + 1"] by (simp add: unat_plus_one [OF ne])
qed

lemma separated_tail_members:
  "separated (r # rs) \<Longrightarrow> members rs = members (r # rs) - {lo r .. hi r}"
  by (fastforce simp: separated_Cons members_def word_le_nat_alt)

lemma separated_unique:
  "separated rs \<Longrightarrow> separated ss \<Longrightarrow> members rs = members ss \<Longrightarrow> rs = ss"
proof (induction rs arbitrary: ss)
  case Nil
  show ?case
  proof (cases ss)
    case (Cons s ss')
    with Nil have "lo s \<in> members ss" by (auto simp: separated_Cons range_ok_def)
    with Nil show ?thesis by auto
  qed simp
next
  case (Cons r rs)
  have r: "lo r \<in> members (r # rs)" using Cons.prems by (auto simp: separated_Cons range_ok_def)
  with Cons.prems obtain s ss' where ss: "ss = s # ss'" by (cases ss) auto
  have s: "lo s \<in> members ss" using Cons.prems ss by (auto simp: separated_Cons range_ok_def)
  have lo: "lo r = lo s"
    using separated_head_least(1) [OF Cons.prems(1), of "lo s"]
      separated_head_least(1) [OF Cons.prems(2) [unfolded ss], of "lo r"] r s Cons.prems(3) ss
    by (simp only: order_antisym)
  have hi: "hi r = hi s"
    using separated_top_le [OF Cons.prems(1) Cons.prems(2) [unfolded ss]]
      separated_top_le [OF Cons.prems(2) [unfolded ss] Cons.prems(1)] Cons.prems(3) ss lo
    by (simp only: order_antisym)
  have "members rs = members ss'"
    using separated_tail_members Cons.prems lo hi unfolding ss by metis
  with Cons.IH Cons.prems ss have "rs = ss'" by (simp add: separated_Cons)
  with lo hi ss show ?case by simp
qed

lemma newSet_unique:
  assumes "\<forall>r \<in> set rs. range_ok r" "\<forall>r \<in> set ss. range_ok r" "members rs = members ss"
  shows "newSet rs = newSet ss"
proof -
  have "ranges (newSet rs) = ranges (newSet ss)"
    using newSet_spec [OF assms(1)] newSet_spec [OF assms(2)] assms(3)
    by (intro separated_unique) simp_all
  then show ?thesis by (intro cidr_set.equality) (simp_all add: newSet_covered)
qed

section \<open>Counting\<close>

lemma range_size_card: "range_ok r \<Longrightarrow> range_size r = of_nat (card {lo r .. hi r})"
  by (simp add: range_size_def range_ok_def card_word_interval)

lemma separated_disjoint: "separated (r # rs) \<Longrightarrow> {lo r .. hi r} \<inter> members rs = {}"
  using separated_tail_members by blast

lemma finite_members [simp]: "finite (members rs)"
  by simp

lemma fold_size:
  "separated rs \<Longrightarrow> foldl (\<lambda>c r. c + range_size r) k rs = k + of_nat (card (members rs))"
proof (induction rs arbitrary: k)
  case (Cons r rs)
  have "card (members (r # rs)) = card {lo r .. hi r} + card (members rs)"
    using separated_disjoint [OF Cons.prems] by (simp add: card_Un_disjoint)
  with Cons show ?case by (simp add: separated_Cons range_size_card)
qed simp

lemma card_members_bound: "card (members rs) \<le> 2 ^ 32"
proof -
  have "card (members rs) \<le> card (UNIV :: 32 word set)" by (rule card_mono) simp_all
  then show ?thesis by (simp add: card_word)
qed

section \<open>The search\<close>

lemma separated_nth:
  "separated rs \<Longrightarrow> i < j \<Longrightarrow> j < length rs \<Longrightarrow> unat (hi (rs ! i)) + 1 < unat (lo (rs ! j))"
  by (auto simp: separated_def dest: sorted_wrt_nth_less)

lemma separated_nth_ok: "separated rs \<Longrightarrow> i < length rs \<Longrightarrow> lo (rs ! i) \<le> hi (rs ! i)"
  by (auto simp: separated_def range_ok_def)

lemma separated_lo_mono:
  "separated rs \<Longrightarrow> i \<le> j \<Longrightarrow> j < length rs \<Longrightarrow> lo (rs ! i) \<le> lo (rs ! j)"
  using separated_nth [of rs i j] separated_nth_ok [of rs i]
  by (cases "i = j") (auto simp: word_le_nat_alt)

lemma search_members:
  assumes sep: "separated rs" and i: "i = go_search (length rs) (\<lambda>k. lo (rs ! k) > v)"
  shows "v \<in> members rs \<longleftrightarrow> i \<noteq> 0 \<and> v \<le> hi (rs ! (i - 1))"
proof -
  have "\<forall>k l. k \<le> l \<longrightarrow> l < length rs \<longrightarrow> lo (rs ! k) > v \<longrightarrow> lo (rs ! l) > v"
    using separated_lo_mono [OF sep] less_le_trans by blast
  from go_search_upward [OF this, folded i]
  have spec: "i \<le> length rs" "k < i \<Longrightarrow> lo (rs ! k) \<le> v"
      "i \<le> k \<Longrightarrow> k < length rs \<Longrightarrow> v < lo (rs ! k)" for k
    by (simp_all add: not_less)
  show ?thesis
  proof
    assume "v \<in> members rs"
    then obtain k where k: "k < length rs" "lo (rs ! k) \<le> v" "v \<le> hi (rs ! k)"
      by (auto simp: members_def in_set_conv_nth)
    then have "k < i" using spec(3) [of k] by (meson leI not_le)
    moreover have "\<not> k < i - 1"
    proof
      assume "k < i - 1"
      then have "unat (hi (rs ! k)) + 1 < unat (lo (rs ! (i - 1)))"
        using separated_nth [OF sep] spec(1) by simp
      moreover have "lo (rs ! (i - 1)) \<le> v" using spec(2) [of "i - 1"] \<open>k < i\<close> by simp
      ultimately show False using k(3) by (simp add: word_le_nat_alt)
    qed
    ultimately have "k = i - 1" by simp
    with \<open>k < i\<close> k(3) show "i \<noteq> 0 \<and> v \<le> hi (rs ! (i - 1))" by simp
  next
    assume "i \<noteq> 0 \<and> v \<le> hi (rs ! (i - 1))"
    moreover from this have "lo (rs ! (i - 1)) \<le> v" "i - 1 < length rs" using spec(1,2) by auto
    ultimately show "v \<in> members rs" unfolding members_def by fastforce
  qed
qed

lemma Contains_members:
  assumes "separated (ranges s)"
  shows "Contains s ip \<longleftrightarrow> (\<exists>v. Unmap ip = V4 v \<and> v \<in> members (ranges s))"
proof (cases "Unmap ip")
  case (V4 v)
  then show ?thesis
    using search_members [OF assms refl, of v]
    by (auto simp: Contains_def Let_def addrToUint32_def)
qed (simp_all add: Contains_def)

section \<open>The parsed ranges\<close>

lemma parseLine_ok: "parseLine line = Some r \<Longrightarrow> range_ok r"
  by (auto simp: parseLine_def Let_def range_ok_def le_word_or2 split: if_splits option.splits)

lemma parseRanges_loop_eq:
  "parseRanges_loop rs n ls =
     (rs @ List.map_filter parseLine ls, n + length (filter (\<lambda>l. parseLine l = None) ls))"
  by (induction rs n ls rule: parseRanges_loop.induct)
     (auto simp: map_filter_simps split: option.splits)

lemma parseRanges_eq:
  "parseRanges body =
     (List.map_filter parseLine (lines body), length (filter (\<lambda>l. parseLine l = None) (lines body)))"
  by (simp add: parseRanges_def parseRanges_loop_eq)

lemma in_map_filter: "y \<in> set (List.map_filter f xs) \<longleftrightarrow> (\<exists>x \<in> set xs. f x = Some y)"
  by (force simp: List.map_filter_def)

lemma parseRanges_ok: "\<forall>r \<in> set (fst (parseRanges body)). range_ok r"
  by (auto simp: parseRanges_eq in_map_filter parseLine_ok)

lemma Parse_eq: "fst (Parse body) = newSet (fst (parseRanges body))"
  by (simp add: Parse_def split: prod.splits)

lemma Contains_newSet:
  assumes "\<forall>r \<in> set rs. range_ok r"
  shows "Contains (newSet rs) ip \<longleftrightarrow> (\<exists>v. Unmap ip = V4 v \<and> v \<in> members rs)"
  using newSet_spec [OF assms] Contains_members [of "newSet rs" ip] by simp

lemma Contains_newSet_append:
  assumes "\<forall>r \<in> set rs. range_ok r" "\<forall>r \<in> set ss. range_ok r"
  shows "Contains (newSet (rs @ ss)) ip \<longleftrightarrow> Contains (newSet rs) ip \<or> Contains (newSet ss) ip"
  using assms Contains_newSet [of "rs @ ss"] by (simp add: Contains_newSet ball_Un) blast

lemma newSet_Covered:
  assumes ok: "\<forall>r \<in> set rs. range_ok r"
  shows "unat (Covered (newSet rs)) = card {v. Contains (newSet rs) (V4 v)}"
proof -
  have "Covered (newSet rs) = of_nat (card (members rs))"
    using fold_size [of "ranges (newSet rs)" 0] newSet_spec [OF ok]
    by (simp add: Covered_def newSet_covered)
  moreover have "take_bit 64 (card (members rs)) = card (members rs)"
    using card_members_bound [of rs] by (simp add: take_bit_nat_eq_self)
  moreover have "{v. Contains (newSet rs) (V4 v)} = members rs"
    by (auto simp: Contains_newSet [OF ok])
  ultimately show ?thesis by (simp add: unsigned_of_nat)
qed

section \<open>Loading\<close>

text \<open>What one source contributes.\<close>

definition source_ranges :: "(string \<Rightarrow> string option) \<Rightarrow> string \<Rightarrow> ipRange list" where
  "source_ranges fetchBytes url =
     (case fetchBytes url of None \<Rightarrow> [] | Some body \<Rightarrow> fst (parseRanges body))"

interpretation cidr_load: source_loop "\<lambda>u. u" "source_ranges f" "Load_loop f"
  for f :: "string \<Rightarrow> string option"
  by unfold_locales (auto simp: source_ranges_def Let_def split: option.splits prod.splits)

lemma source_ranges_ok: "\<forall>r \<in> set (cidr_load.gathered f urls). range_ok r"
  using parseRanges_ok by (fastforce simp: cidr_load.in_gathered source_ranges_def split: option.splits)

text \<open>A loaded set is never empty.\<close>

lemma Load_Covered: "Load f urls = Inr (s, n) \<Longrightarrow> 0 < unat (Covered s)"
proof -
  assume "Load f urls = Inr (s, n)"
  then have s: "s = newSet (cidr_load.gathered f urls)" and ne: "cidr_load.gathered f urls \<noteq> []"
    by (auto simp: Load_def cidr_load.load_loop_eq split: if_splits)
  obtain r where r: "r \<in> set (cidr_load.gathered f urls)" using ne by (meson hd_in_set)
  then have "lo r \<in> {v. Contains s (V4 v)}"
    using source_ranges_ok unfolding s Contains_newSet [OF source_ranges_ok] members_def range_ok_def
    by fastforce
  then have "{v. Contains s (V4 v)} \<noteq> {}" by blast
  then have "0 < card {v. Contains s (V4 v)}" by (simp add: card_gt_0_iff)
  then show ?thesis unfolding s newSet_Covered [OF source_ranges_ok] .
qed

lemma members_gathered:
  "v \<in> members (cidr_load.gathered f urls) \<longleftrightarrow>
     (\<exists>url body. url \<in> set urls \<and> url \<noteq> [] \<and> f url = Some body \<and>
        Contains (fst (Parse body)) (V4 v))"
proof -
  have "v \<in> members (source_ranges f url) \<longleftrightarrow>
      (\<exists>body. f url = Some body \<and> Contains (fst (Parse body)) (V4 v))" for url
    by (auto simp: source_ranges_def Parse_eq Contains_newSet [OF parseRanges_ok] split: option.splits)
  moreover have "v \<in> members (cidr_load.gathered f urls) \<longleftrightarrow>
      (\<exists>url. url \<in> set urls \<and> url \<noteq> [] \<and> v \<in> members (source_ranges f url))"
    unfolding members_def UN_iff Bex_def cidr_load.in_gathered by blast
  ultimately show ?thesis by blast
qed

section \<open>Properties\<close>

lemmas cidr_eval =
  parseLine_def addrToUint32_def Masked_def mask32_def hostMask_def Let_def lines_eq_kept
  kept_lines_def trim_space_def skip_runes.simps strip_one_def space_runes_def has_prefix_def
  wanted_def

text \<open>
  C16: the parsed set admits an address exactly when the address, unmapped, is an IPv4 address
  inside the range of some line of the body: sorting, coalescing in place and the binary
  search lose no line and add no address.
\<close>

theorem parsed_set_contains:
  "Contains (fst (Parse body)) ip \<longleftrightarrow>
     (\<exists>line \<in> set (lines body). \<exists>r v. parseLine line = Some r \<and> Unmap ip = V4 v \<and>
        lo r \<le> v \<and> v \<le> hi r)"
  using Contains_newSet [OF parseRanges_ok, of body ip]
  unfolding Parse_eq members_def parseRanges_eq fst_conv UN_iff atLeastAtMost_iff Bex_def
    in_map_filter
  by blast

text \<open>
  a line with a valid IPv4 prefix is accepted and stands for exactly the addresses that
  agree with it on the bits of the prefix, however sloppy its host bits are.
\<close>

theorem cidr_line_block:
  assumes "ParsePrefix line = Some p" and "paddr p = V4 w"
  shows "\<exists>r. parseLine line = Some r \<and>
             (\<forall>v. lo r \<le> v \<and> v \<le> hi r \<longleftrightarrow>
                    v AND NOT (mask (32 - pbits p)) = w AND NOT (mask (32 - pbits p)))"
proof -
  have "CHR ''/'' \<in> set line"
    using assms(1) by (auto simp: ParsePrefix_def last_index_byte_None split: option.splits)
      (metis last_index_byte_None option.distinct(1))
  moreover have n: "pbits p \<le> 32"
    using ParsePrefix_ok [OF assms(1)] assms(2) by (simp add: prefix_ok_def)
  ultimately show ?thesis
    using assms prefix_block [of _ w "32 - pbits p"]
    by (simp add: parseLine_def Masked_def addrToUint32_def mask32_def hostMask_def
        drop_bit_top push_bit_top Let_def)
qed

theorem cidr_line_block_witness:
  "\<exists>r. parseLine ''1.2.3.4/24'' = Some r \<and>
       (\<forall>v. lo r \<le> v \<and> v \<le> hi r \<longleftrightarrow> v AND NOT (mask 8) = 0x01020304 AND NOT (mask 8))"
  using cidr_line_block [where line = "''1.2.3.4/24''" and p = "\<lparr>paddr = V4 0x01020304, pbits = 24\<rparr>" and w = "0x01020304"]
  by (simp add: model_defs)

text \<open>
  the number of covered addresses reported for a parsed set is exactly the number of IPv4
  addresses it admits; the 64-bit sum does not wrap and no address is counted twice.
\<close>

theorem covered_counts_addresses:
  "unat (Covered (fst (Parse body))) = card {v. Contains (fst (Parse body)) (V4 v)}"
  unfolding Parse_eq by (rule newSet_Covered [OF parseRanges_ok])

text \<open>
  the built set is canonical. Two bodies with the same lines, in any order and with any
  repetitions, give the same set, so the unspecified order of the sort on equal starts
  cannot be observed.
\<close>

theorem parsed_set_canonical:
  assumes "set (lines a) = set (lines b)"
  shows "fst (Parse a) = fst (Parse b)"
proof -
  have "set (fst (parseRanges a)) = set (fst (parseRanges b))"
    using assms by (auto simp: parseRanges_eq in_map_filter)
  then show ?thesis
    unfolding Parse_eq by (intro newSet_unique parseRanges_ok members_cong_set)
qed

theorem parsed_set_canonical_witness:
  "fst (Parse (''1.2.3.4/24'' @ [newline] @ ''1.2.3.4'')) =
     fst (Parse (''1.2.3.4'' @ [newline] @ ''# c'' @ [newline] @ ''1.2.3.4/24''))"
  by (rule parsed_set_canonical) (simp add: cidr_eval model_defs, blast)

text \<open>
  loading several sources admits exactly what some readable source admits, counts the
  sources that gave nothing, and fails only when no source gave a range.
\<close>

theorem load_union:
  "case Load fetchBytes urls of
     Inl (NoRangesLoaded failed) \<Rightarrow>
       failed = length (filter (\<lambda>u. u \<noteq> []) urls) \<and>
       \<not> (\<exists>url body ip. url \<in> set urls \<and> url \<noteq> [] \<and> fetchBytes url = Some body \<and>
              Contains (fst (Parse body)) ip)
   | Inr (s, failed) \<Rightarrow>
       (\<forall>ip. Contains s ip \<longleftrightarrow>
          (\<exists>url body. url \<in> set urls \<and> url \<noteq> [] \<and> fetchBytes url = Some body \<and>
              Contains (fst (Parse body)) ip)) \<and>
       (\<exists>ip. Contains s ip) \<and> failed < length (filter (\<lambda>u. u \<noteq> []) urls)"
proof -
  let ?rs = "cidr_load.gathered fetchBytes urls"
  have v4: "Contains s ip \<Longrightarrow> \<exists>v. Unmap ip = V4 v" for s ip
    by (cases "Unmap ip") (auto simp: Contains_def)
  have unmap: "Unmap ip = V4 v \<Longrightarrow> Contains s ip = Contains s (V4 v)" for s ip v
    by (simp add: Contains_def)
  have c: "Contains (newSet ?rs) ip \<longleftrightarrow> (\<exists>url body. url \<in> set urls \<and> url \<noteq> [] \<and>
      fetchBytes url = Some body \<and> Contains (fst (Parse body)) ip)" for ip
    using members_gathered v4 [of _ ip] unmap [of ip]
    unfolding Contains_newSet [OF source_ranges_ok] by blast
  have l: "Load fetchBytes urls =
      (if ?rs = [] then Inl (NoRangesLoaded (cidr_load.barren fetchBytes urls))
       else Inr (newSet ?rs, cidr_load.barren fetchBytes urls))"
    by (simp add: Load_def cidr_load.load_loop_eq)
  show ?thesis
  proof (cases "?rs = []")
    case True
    have "\<not> Contains (newSet ?rs) ip" for ip
      unfolding True by (simp add: newSet_def Contains_def)
    then show ?thesis
      using c cidr_load.gathered_empty [OF True] unfolding l if_P [OF True]
      by (auto simp: cidr_load.named_def)
  next
    case False
    then obtain r where "r \<in> set ?rs" by (meson hd_in_set)
    then have "lo r \<in> members ?rs"
      using source_ranges_ok unfolding members_def range_ok_def by fastforce
    then have "Contains (newSet ?rs) (V4 (lo r))" by (simp add: Contains_newSet [OF source_ranges_ok])
    then show ?thesis
      using c cidr_load.gathered_nonempty [OF False] unfolding l if_not_P [OF False]
      by (auto simp: cidr_load.named_def)
  qed
qed

end
