(* ===== verification/GeoLookup.thy ===== *)
theory GeoLookup
  imports Netip Words "HOL-Library.Product_Lexorder"
begin

text \<open>
  \<^verbatim>\<open>internal/geofeed/lookup.go\<close>: the country index. Ranges of both families are split,
  stably sorted by start and searched by a binary search and a backward walk that a running
  maximum of range ends cuts short. The IPv4 and the IPv6 index are the same algorithm on two
  kinds of machine words; \<open>span_walk\<close> states what it needs of them and holds the proof once,
  and both indexes interpret it. The result is that a lookup returns the country of the
  smallest covering range, the lowest start and then the earliest input breaking ties.
\<close>

type_synonym CountryCode = "char \<times> char"

abbreviation no_country :: CountryCode where
  "no_country \<equiv> (CHR 0x00, CHR 0x00)"

record Range =
  Start :: addr
  End :: addr
  Country :: CountryCode

record ip4Range =
  start4 :: "32 word"
  end4 :: "32 word"
  country4 :: CountryCode

datatype uint128 = U128 (u_hi: "64 word") (u_lo: "64 word")

definition uint128_less :: "uint128 \<Rightarrow> uint128 \<Rightarrow> bool" where
  "uint128_less a b \<longleftrightarrow> u_hi a < u_hi b \<or> (u_hi a = u_hi b \<and> u_lo a < u_lo b)"

text \<open>\<^verbatim>\<open>bits.Sub64\<close> returns the wrapped difference and the borrow.\<close>

definition Sub64 :: "64 word \<Rightarrow> 64 word \<Rightarrow> 64 word \<Rightarrow> 64 word \<times> 64 word" where
  "Sub64 x y b = (x - y - b, if unat x < unat y + unat b then 1 else 0)"

definition uint128_sub :: "uint128 \<Rightarrow> uint128 \<Rightarrow> uint128" where
  "uint128_sub a b =
     (let (l, borrow) = Sub64 (u_lo a) (u_lo b) 0;
          (h, _) = Sub64 (u_hi a) (u_hi b) borrow
      in U128 h l)"

definition uint128_or :: "uint128 \<Rightarrow> uint128 \<Rightarrow> uint128" where
  "uint128_or a b = U128 (u_hi a OR u_hi b) (u_lo a OR u_lo b)"

definition uint128_addr :: "uint128 \<Rightarrow> addr" where
  "uint128_addr a = V6 (u_hi a) (u_lo a) []"

definition addrToUint128 :: "addr \<Rightarrow> uint128" where
  "addrToUint128 addr = (let (h, l) = As16 addr in U128 h l)"

record ip6Range =
  start6 :: uint128
  end6 :: uint128
  country6 :: CountryCode

definition addrToUint32 :: "addr \<Rightarrow> 32 word" where
  "addrToUint32 a = (case As4 a of Some w \<Rightarrow> w | None \<Rightarrow> 0)"

definition uint32ToAddr :: "32 word \<Rightarrow> addr" where
  "uint32ToAddr ip = V4 ip"

text \<open>The order of \<^verbatim>\<open>uint128.less\<close> is the numeric order of 128-bit values.\<close>

definition num128 :: "uint128 \<Rightarrow> nat" where
  "num128 u = unat (u_hi u) * 2 ^ 64 + unat (u_lo u)"

lemma num_pair_less:
  fixes l l' :: nat
  assumes "l < n" "l' < n"
  shows "h * n + l < h' * n + l' \<longleftrightarrow> h < h' \<or> h = h' \<and> l < l'"
proof -
  have "h * n + l < h' * n + l'" if "h < h'"
  proof -
    have "Suc h * n \<le> h' * n" using that by (intro mult_right_mono) auto
    with assms show ?thesis by simp
  qed
  moreover have "h' * n + l' < h * n + l" if "h' < h"
  proof -
    have "Suc h' * n \<le> h * n" using that by (intro mult_right_mono) auto
    with assms show ?thesis by simp
  qed
  ultimately show ?thesis by (metis add_less_cancel_left less_asym linorder_neqE_nat)
qed

lemma uint128_less_num: "uint128_less a b \<longleftrightarrow> num128 a < num128 b"
  using num_pair_less [OF unat_bound [of "u_lo a"] unat_bound [of "u_lo b"], of "unat (u_hi a)" "unat (u_hi b)"]
  by (auto simp: uint128_less_def num128_def word_less_nat_alt intro: unsigned_word_eqI)

lemma num128_inject: "num128 a = num128 b \<longleftrightarrow> a = b"
proof
  assume "num128 a = num128 b"
  then have "\<not> uint128_less a b" "\<not> uint128_less b a" by (simp_all add: uint128_less_num)
  then show "a = b" by (cases a; cases b) (auto simp: uint128_less_def)
qed simp

instantiation uint128 :: linorder
begin

definition less_uint128 :: "uint128 \<Rightarrow> uint128 \<Rightarrow> bool" where
  "less_uint128 = uint128_less"

definition less_eq_uint128 :: "uint128 \<Rightarrow> uint128 \<Rightarrow> bool" where
  "less_eq_uint128 a b \<longleftrightarrow> \<not> uint128_less b a"

instance
  by standard
     (auto simp: less_uint128_def less_eq_uint128_def uint128_less_num simp flip: num128_inject)

end

lemma less128_num: "a < b \<longleftrightarrow> num128 a < num128 (b :: uint128)"
  by (simp add: less_uint128_def uint128_less_num)

lemma le128_num: "a \<le> b \<longleftrightarrow> num128 a \<le> num128 (b :: uint128)"
  by (simp add: less_eq_uint128_def uint128_less_num not_less)

lemma borrow_arith:
  fixes n :: nat
  assumes "l' \<le> n" "h' < h"
  shows "(h - h' - 1) * n + (n + l - l') = h * n + l - (h' * n + l')"
proof -
  obtain k where "h = h' + 1 + k" using assms(2) less_imp_Suc_add [OF assms(2)] by auto
  with assms(1) show ?thesis by (simp add: algebra_simps)
qed

lemma num128_sub:
  assumes "num128 b \<le> num128 a"
  shows "num128 (uint128_sub a b) = num128 a - num128 b"
proof -
  obtain h l h' l' where ab: "a = U128 h l" "b = U128 h' l'" by (cases a; cases b)
  show ?thesis
  proof (cases "l < l'")
    case False
    then have l: "unat (l - l') = unat l - unat l'" "l' \<le> l"
      by (simp_all add: unat_sub not_less)
    moreover have "h' \<le> h"
      using assms l(2) num_pair_less [OF unat_bound [of l] unat_bound [of l'], of "unat h" "unat h'"]
      by (simp add: num128_def ab word_le_nat_alt not_less [symmetric])
    ultimately show ?thesis
      using assms False
      by (simp add: num128_def ab uint128_sub_def Sub64_def unat_sub word_le_nat_alt word_less_nat_alt
          diff_mult_distrib)
  next
    case True
    then have hh: "h' < h"
      using assms num_pair_less [OF unat_bound [of l] unat_bound [of l'], of "unat h" "unat h'"]
      by (simp add: num128_def ab word_less_nat_alt)
    then have h1: "unat (h - h' - 1) = unat h - unat h' - 1"
      by (simp add: unat_sub word_less_nat_alt word_le_nat_alt Suc_le_eq)
    have l1: "unat (l - l') = 2 ^ 64 + unat l - unat l'"
      using True unat_bound [of l'] by (simp add: word_less_nat_alt unat_sub_if')
    have "(unat h - unat h' - 1) * 2 ^ 64 + (2 ^ 64 + unat l - unat l')
        = unat h * 2 ^ 64 + unat l - (unat h' * 2 ^ 64 + unat l')"
      using hh unat_bound [of l'] by (intro borrow_arith) (simp_all add: word_less_nat_alt)
    moreover have "uint128_sub a b = U128 (h - h' - 1) (l - l')"
      using True by (simp add: ab uint128_sub_def Sub64_def word_less_nat_alt)
    ultimately show ?thesis
      by (simp only: num128_def ab uint128.sel h1 l1)
  qed
qed

section \<open>The index\<close>

record indexedLookup =
  v4 :: "ip4Range list"
  v4MaxEnd :: "32 word list"
  v6 :: "ip6Range list"
  v6MaxEnd :: "uint128 list"

text \<open>The loop of \<^verbatim>\<open>newIndexedLookup\<close> that sorts the ranges into the two families.\<close>

fun split_families :: "ip4Range list \<Rightarrow> ip6Range list \<Rightarrow> Range list \<Rightarrow> ip4Range list \<times> ip6Range list" where
  "split_families a b [] = (a, b)"
| "split_families a b (r # rs) =
     (let s = Unmap (Start r); e = Unmap (End r)
      in if \<not> IsValid s \<or> Is4 s \<noteq> Is4 e \<or> Less e s then split_families a b rs
         else if Is4 s then
           split_families
             (a @ [\<lparr>start4 = addrToUint32 s, end4 = addrToUint32 e, country4 = Country r\<rparr>]) b rs
         else
           split_families a
             (b @ [\<lparr>start6 = addrToUint128 s, end6 = addrToUint128 e, country6 = Country r\<rparr>]) rs)"

fun max_ends4 :: "32 word \<Rightarrow> ip4Range list \<Rightarrow> 32 word list" where
  "max_ends4 m [] = []"
| "max_ends4 m (r # rs) = (let m' = (if end4 r > m then end4 r else m) in m' # max_ends4 m' rs)"

fun max_ends6 :: "uint128 \<Rightarrow> ip6Range list \<Rightarrow> uint128 list" where
  "max_ends6 m [] = []"
| "max_ends6 m (r # rs) =
     (let m' = (if uint128_less m (end6 r) then end6 r else m) in m' # max_ends6 m' rs)"

definition newIndexedLookup :: "Range list \<Rightarrow> indexedLookup" where
  "newIndexedLookup rs =
     (let (a, b) = split_families [] [] rs; a' = sort_key start4 a; b' = sort_key start6 b
      in \<lparr>v4 = a', v4MaxEnd = max_ends4 0 a', v6 = b', v6MaxEnd = max_ends6 (U128 0 0) b'\<rparr>)"

definition lookup_Len :: "indexedLookup \<Rightarrow> nat" where
  "lookup_Len l = length (v4 l) + length (v6 l)"

text \<open>
  The backward walks: \<open>idx\<close> counts the entries still to visit, \<open>best\<close> is \<open>None\<close> until a
  range was found and then its span and country.
\<close>

fun walk4 :: "ip4Range list \<Rightarrow> 32 word list \<Rightarrow> 32 word \<Rightarrow> nat \<Rightarrow> (32 word \<times> CountryCode) option
    \<Rightarrow> (32 word \<times> CountryCode) option" where
  "walk4 rs maxEnd ip 0 best = best"
| "walk4 rs maxEnd ip (Suc idx) best =
     (if maxEnd ! idx < ip then best
      else let r = rs ! idx
           in if ip > end4 r then walk4 rs maxEnd ip idx best
              else let span = end4 r - start4 r
                   in case best of
                        None \<Rightarrow> walk4 rs maxEnd ip idx (Some (span, country4 r))
                      | Some (bestSpan, _) \<Rightarrow>
                          (if span \<le> bestSpan
                           then walk4 rs maxEnd ip idx (Some (span, country4 r))
                           else walk4 rs maxEnd ip idx best))"

fun walk6 :: "ip6Range list \<Rightarrow> uint128 list \<Rightarrow> uint128 \<Rightarrow> nat \<Rightarrow> (uint128 \<times> CountryCode) option
    \<Rightarrow> (uint128 \<times> CountryCode) option" where
  "walk6 rs maxEnd ip 0 best = best"
| "walk6 rs maxEnd ip (Suc idx) best =
     (if uint128_less (maxEnd ! idx) ip then best
      else let r = rs ! idx
           in if uint128_less (end6 r) ip then walk6 rs maxEnd ip idx best
              else let span = uint128_sub (end6 r) (start6 r)
                   in case best of
                        None \<Rightarrow> walk6 rs maxEnd ip idx (Some (span, country6 r))
                      | Some (bestSpan, _) \<Rightarrow>
                          (if \<not> uint128_less bestSpan span
                           then walk6 rs maxEnd ip idx (Some (span, country6 r))
                           else walk6 rs maxEnd ip idx best))"

definition lookupV4 :: "indexedLookup \<Rightarrow> 32 word \<Rightarrow> CountryCode" where
  "lookupV4 l ip32 =
     (let idx = go_search (length (v4 l)) (\<lambda>i. start4 (v4 l ! i) > ip32)
      in case walk4 (v4 l) (v4MaxEnd l) ip32 idx None of
           None \<Rightarrow> no_country
         | Some (_, country) \<Rightarrow> country)"

definition lookupV6 :: "indexedLookup \<Rightarrow> uint128 \<Rightarrow> CountryCode" where
  "lookupV6 l ip128 =
     (let idx = go_search (length (v6 l)) (\<lambda>i. uint128_less ip128 (start6 (v6 l ! i)))
      in case walk6 (v6 l) (v6MaxEnd l) ip128 idx None of
           None \<Rightarrow> no_country
         | Some (_, country) \<Rightarrow> country)"

definition indexed_LookupCountry :: "indexedLookup \<Rightarrow> addr \<Rightarrow> CountryCode" where
  "indexed_LookupCountry l ip =
     (let ip' = Unmap ip
      in if Is4 ip' then lookupV4 l (addrToUint32 ip') else lookupV6 l (addrToUint128 ip'))"

text \<open>The package function: a \<^verbatim>\<open>nil\<close> lookup answers the zero code.\<close>

definition LookupCountry :: "(addr \<Rightarrow> CountryCode) option \<Rightarrow> addr \<Rightarrow> CountryCode" where
  "LookupCountry lookup ip = (case lookup of None \<Rightarrow> no_country | Some f \<Rightarrow> f ip)"

section \<open>The first of the smallest\<close>

fun first_min :: "('r \<Rightarrow> 'k::linorder) \<Rightarrow> 'r list \<Rightarrow> 'r option" where
  "first_min f [] = None"
| "first_min f (x # xs) =
     (case first_min f xs of
        None \<Rightarrow> Some x
      | Some y \<Rightarrow> (if f x \<le> f y then Some x else Some y))"

lemma first_min_None [simp]: "first_min f xs = None \<longleftrightarrow> xs = []"
  by (cases xs) (auto split: option.splits)

lemma first_min_Some:
  "first_min f xs = Some y \<Longrightarrow> y \<in> set xs \<and> (\<forall>x \<in> set xs. f y \<le> f x)"
  by (induction xs arbitrary: y) (fastforce split: option.splits if_splits)+

lemma first_min_insort:
  assumes "sorted (map g zs)"
  shows "first_min f (insort_key g x zs) =
     (case first_min f zs of
        None \<Rightarrow> Some x
      | Some y \<Rightarrow> (if (f x, g x) \<le> (f y, g y) then Some x else Some y))"
  using assms
proof (induction zs)
  case (Cons z zs)
  then have ih: "first_min f (insort_key g x zs) =
     (case first_min f zs of
        None \<Rightarrow> Some x
      | Some y \<Rightarrow> (if (f x, g x) \<le> (f y, g y) then Some x else Some y))" by simp
  have le: "g z \<le> g y" if "first_min f zs = Some y" for y
    using first_min_Some [OF that] Cons.prems by auto
  show ?case
  proof (cases "g x \<le> g z")
    case True
    then have "g x \<le> g y" if "first_min f zs = Some y" for y
      using le [OF that] by (rule order_trans)
    with True show ?thesis by (auto split: option.splits)
  next
    case False
    then have step: "first_min f (insort_key g x (z # zs)) =
        (case first_min f (insort_key g x zs) of
           None \<Rightarrow> Some z | Some y \<Rightarrow> (if f z \<le> f y then Some z else Some y))" by simp
    show ?thesis
    proof (cases "first_min f zs")
      case None
      with False show ?thesis unfolding step ih by (auto simp: not_le)
    next
      case (Some y)
      have "g z \<le> g y" using le [OF Some] .
      with False Some show ?thesis
        unfolding step ih
        by (cases "f x" "f y" rule: linorder_cases; cases "f z" "f y" rule: linorder_cases)
           (auto simp: not_le)
    qed
  qed
qed simp

text \<open>Sorting stably by start first makes the start the tie-break.\<close>

lemma first_min_sort_key: "first_min f (sort_key g xs) = first_min (\<lambda>x. (f x, g x)) xs"
proof (induction xs)
  case (Cons x xs)
  then show ?case
    using first_min_insort [of g "sort_key g xs" f x] by (simp split: option.splits)
qed simp

lemma first_min_snoc:
  "first_min f (xs @ [x]) =
     (case first_min f xs of
        None \<Rightarrow> Some x
      | Some y \<Rightarrow> (if f y \<le> f x then Some y else Some x))"
proof (induction xs)
  case (Cons z xs)
  show ?case
  proof (cases "first_min f xs")
    case (Some y)
    with Cons show ?thesis
      by (cases "f z" "f y" rule: linorder_cases; cases "f y" "f x" rule: linorder_cases) auto
  qed (use Cons in auto)
qed simp

lemma first_min_map: "first_min f (map h xs) = map_option h (first_min (\<lambda>x. f (h x)) xs)"
  by (induction xs) (auto split: option.splits)

lemma first_min_cong:
  "(\<And>x y. x \<in> set xs \<Longrightarrow> y \<in> set xs \<Longrightarrow> f x \<le> f y \<longleftrightarrow> g x \<le> g y) \<Longrightarrow>
     first_min f xs = first_min g xs"
proof (induction xs)
  case (Cons x xs)
  then have ih: "first_min f xs = first_min g xs" by simp
  show ?case
  proof (cases "first_min g xs")
    case (Some y)
    then have "y \<in> set xs" using first_min_Some [of g xs y] by simp
    with Cons.prems [of x y] ih Some show ?thesis by simp
  qed (use ih in simp)
qed simp

section \<open>The walk, for any kind of endpoint\<close>

locale span_walk =
  fixes num :: "'e \<Rightarrow> nat"
    and st en :: "'r \<Rightarrow> 'e"
    and cc :: "'r \<Rightarrow> 'c"
    and span :: "'r \<Rightarrow> 'e"
    and walk :: "'r list \<Rightarrow> 'e list \<Rightarrow> 'e \<Rightarrow> nat \<Rightarrow> ('e \<times> 'c) option \<Rightarrow> ('e \<times> 'c) option"
    and maxes :: "'r list \<Rightarrow> 'e list"
  assumes walk_0: "walk rs me ip 0 best = best"
    and walk_Suc: "walk rs me ip (Suc i) best =
      (if num (me ! i) < num ip then best
       else if num (en (rs ! i)) < num ip then walk rs me ip i best
       else if (case best of None \<Rightarrow> True | Some (s, _) \<Rightarrow> num (span (rs ! i)) \<le> num s)
         then walk rs me ip i (Some (span (rs ! i), cc (rs ! i)))
         else walk rs me ip i best)"
    and maxes_reach: "j \<le> i \<Longrightarrow> i < length rs \<Longrightarrow> num (en (rs ! j)) \<le> num (maxes rs ! i)"
begin

definition merge :: "'r option \<Rightarrow> ('e \<times> 'c) option \<Rightarrow> ('e \<times> 'c) option" where
  "merge m best =
     (case m of
        None \<Rightarrow> best
      | Some r \<Rightarrow>
          (case best of
             None \<Rightarrow> Some (span r, cc r)
           | Some (s, c) \<Rightarrow> (if num (span r) \<le> num s then Some (span r, cc r) else Some (s, c))))"

lemma walk_first_min:
  assumes "i \<le> length rs"
  shows "walk rs (maxes rs) ip i best =
    merge (first_min (\<lambda>r. num (span r)) (filter (\<lambda>r. num ip \<le> num (en r)) (take i rs))) best"
  using assms
proof (induction i arbitrary: best)
  case 0
  then show ?case by (simp add: walk_0 merge_def)
next
  case (Suc i)
  let ?P = "\<lambda>r. num ip \<le> num (en r)" and ?f = "\<lambda>r. num (span r)"
  have t: "take (Suc i) rs = take i rs @ [rs ! i]" using Suc.prems by (simp add: take_Suc_conv_app_nth)
  show ?case
  proof (cases "num (maxes rs ! i) < num ip")
    case True
    have "\<not> ?P (rs ! j)" if "j \<le> i" for j
      using maxes_reach [OF that, of rs] Suc.prems True by simp
    then have "filter ?P (take (Suc i) rs) = []"
      using Suc.prems by (auto simp: filter_empty_conv in_set_conv_nth)
    with True show ?thesis by (simp add: walk_Suc merge_def)
  next
    case reach: False
    show ?thesis
    proof (cases "?P (rs ! i)")
      case False
      with reach Suc show ?thesis by (simp add: walk_Suc t)
    next
      case True
      then have f: "first_min ?f (filter ?P (take (Suc i) rs)) =
          (case first_min ?f (filter ?P (take i rs)) of
             None \<Rightarrow> Some (rs ! i)
           | Some y \<Rightarrow> (if ?f y \<le> ?f (rs ! i) then Some y else Some (rs ! i)))"
        by (simp add: t first_min_snoc)
      show ?thesis
        using reach True Suc
        by (cases "first_min ?f (filter ?P (take i rs))"; cases best)
           (auto simp: walk_Suc f merge_def split: prod.splits)
    qed
  qed
qed

lemma walk_search:
  assumes "sorted (map (\<lambda>r. num (st r)) rs)"
  shows "walk rs (maxes rs) ip (go_search (length rs) (\<lambda>i. num ip < num (st (rs ! i)))) None =
    map_option (\<lambda>r. (span r, cc r))
      (first_min (\<lambda>r. num (span r)) (filter (\<lambda>r. num (st r) \<le> num ip \<and> num ip \<le> num (en r)) rs))"
proof -
  define k where "k = go_search (length rs) (\<lambda>i. num ip < num (st (rs ! i)))"
  have "\<forall>i j. i \<le> j \<longrightarrow> j < length rs \<longrightarrow> num ip < num (st (rs ! i)) \<longrightarrow> num ip < num (st (rs ! j))"
    using sorted_nth_mono [OF assms] by fastforce
  from go_search_upward [OF this, folded k_def]
  have k: "k \<le> length rs" "\<And>i. i < k \<Longrightarrow> num (st (rs ! i)) \<le> num ip"
      "\<And>i. k \<le> i \<Longrightarrow> i < length rs \<Longrightarrow> num ip < num (st (rs ! i))"
    by (simp_all add: not_less)
  let ?P = "\<lambda>r. num (st r) \<le> num ip \<and> num ip \<le> num (en r)"
  have "filter ?P (drop k rs) = []"
  proof -
    have "\<not> num (st r) \<le> num ip" if "r \<in> set (drop k rs)" for r
    proof -
      from that obtain i where "i < length (drop k rs)" "r = drop k rs ! i"
        by (auto simp: in_set_conv_nth)
      with k(1) k(3) [of "k + i"] show ?thesis by (simp add: less_diff_conv add.commute)
    qed
    then show ?thesis by (auto simp: filter_empty_conv)
  qed
  moreover have "filter ?P (take k rs) = filter (\<lambda>r. num ip \<le> num (en r)) (take k rs)"
    using k(1,2) by (intro filter_cong) (auto simp: in_set_conv_nth)
  ultimately have "filter ?P rs = filter (\<lambda>r. num ip \<le> num (en r)) (take k rs)"
    using filter_append [of ?P "take k rs" "drop k rs"] by simp
  then show ?thesis
    using walk_first_min [OF k(1), of ip None]
    by (simp add: k_def [symmetric] merge_def split: option.splits)
qed

end

text \<open>Both indexes are instances: their running maxima reach every earlier end.\<close>

lemma max_ends4_reach:
  "j \<le> i \<Longrightarrow> i < length rs \<Longrightarrow> end4 (rs ! j) \<le> max_ends4 m rs ! i \<and> m \<le> max_ends4 m rs ! i"
proof (induction rs arbitrary: m i j)
  case (Cons r rs)
  then show ?case
  proof (cases i)
    case (Suc i')
    define m' where "m' = (if end4 r > m then end4 r else m)"
    have "end4 r \<le> m'" "m \<le> m'" by (auto simp: m'_def)
    with Suc Cons.prems Cons.IH [of "j - 1" i' m'] Cons.IH [of i' i' m'] show ?thesis
      by (cases j) (auto simp: Let_def m'_def [symmetric] intro: order_trans)
  qed (auto simp: Let_def)
qed simp

lemma max_ends6_reach:
  "j \<le> i \<Longrightarrow> i < length rs \<Longrightarrow> end6 (rs ! j) \<le> max_ends6 m rs ! i \<and> m \<le> max_ends6 m rs ! i"
proof (induction rs arbitrary: m i j)
  case (Cons r rs)
  then show ?case
  proof (cases i)
    case (Suc i')
    define m' where "m' = (if uint128_less m (end6 r) then end6 r else m)"
    have "end6 r \<le> m'" "m \<le> m'" by (auto simp: m'_def less_eq_uint128_def uint128_less_num)
    with Suc Cons.prems Cons.IH [of "j - 1" i' m'] Cons.IH [of i' i' m'] show ?thesis
      by (cases j) (auto simp: Let_def m'_def [symmetric] intro: order_trans)
  qed (auto simp: Let_def less_eq_uint128_def uint128_less_num)
qed simp

interpretation w4: span_walk unat start4 end4 country4 "\<lambda>r. end4 r - start4 r" walk4 "max_ends4 0"
proof
  show "unat (end4 (rs ! j)) \<le> unat (max_ends4 0 rs ! i)" if "j \<le> i" "i < length rs" for rs i j
    using max_ends4_reach [OF that, of 0] by (simp add: word_le_nat_alt)
qed (auto simp: Let_def word_less_nat_alt word_le_nat_alt split: option.splits)

interpretation w6: span_walk num128 start6 end6 country6 "\<lambda>r. uint128_sub (end6 r) (start6 r)"
  walk6 "max_ends6 (U128 0 0)"
proof
  show "num128 (end6 (rs ! j)) \<le> num128 (max_ends6 (U128 0 0) rs ! i)"
    if "j \<le> i" "i < length rs" for rs i j
    using max_ends6_reach [OF that, of "U128 0 0"] by (simp add: le128_num)
qed (auto simp: Let_def uint128_less_num not_less split: option.splits)

section \<open>Prefixes to ranges\<close>

definition hostMask128 :: "nat \<Rightarrow> uint128" where
  "hostMask128 prefixBits =
     (let host = 128 - prefixBits
      in if host \<ge> 128 then U128 (NOT 0) (NOT 0)
         else if host > 64 then U128 (drop_bit (128 - host) (NOT 0)) (NOT 0)
         else if host = 64 then U128 0 (NOT 0)
         else U128 0 (push_bit host 1 - 1))"

definition ipv4PrefixRange :: "prefix \<Rightarrow> CountryCode \<Rightarrow> ip4Range" where
  "ipv4PrefixRange p country =
     (let ip = addrToUint32 (paddr p); bits = pbits p;
          m = push_bit (32 - bits) (NOT 0); s = ip AND m
      in \<lparr>start4 = s, end4 = s OR NOT m, country4 = country\<rparr>)"

definition prefixRange :: "prefix \<Rightarrow> CountryCode \<Rightarrow> Range" where
  "prefixRange p country =
     (let p' = Masked p; addr = paddr p'
      in if Is4 addr then
           (let r = ipv4PrefixRange p' country
            in \<lparr>Start = uint32ToAddr (start4 r), End = uint32ToAddr (end4 r), Country = country\<rparr>)
         else
           (let s = addrToUint128 addr; e = uint128_or s (hostMask128 (pbits p'))
            in \<lparr>Start = addr, End = uint128_addr e, Country = country\<rparr>))"

record Entry =
  Prefix :: prefix
  entry_Country :: CountryCode

definition NewLookup :: "Entry list \<Rightarrow> indexedLookup" where
  "NewLookup entries = newIndexedLookup (map (\<lambda>e. prefixRange (Prefix e) (entry_Country e)) entries)"

definition NewRangeLookup :: "Range list \<Rightarrow> indexedLookup" where
  "NewRangeLookup rs = newIndexedLookup rs"

section \<open>What a range covers\<close>

fun addr_num :: "addr \<Rightarrow> nat" where
  "addr_num (V4 w) = unat w"
| "addr_num (V6 h l z) = num128 (U128 h l)"
| "addr_num NoAddr = 0"

definition range_first :: "Range \<Rightarrow> nat" where
  "range_first r = addr_num (Unmap (Start r))"

definition range_last :: "Range \<Rightarrow> nat" where
  "range_last r = addr_num (Unmap (End r))"

definition usable :: "Range \<Rightarrow> bool" where
  "usable r \<longleftrightarrow>
     IsValid (Unmap (Start r)) \<and> Is4 (Unmap (Start r)) = Is4 (Unmap (End r)) \<and>
     \<not> Less (Unmap (End r)) (Unmap (Start r))"

definition covers :: "addr \<Rightarrow> Range \<Rightarrow> bool" where
  "covers ip r \<longleftrightarrow>
     usable r \<and> Is4 (Unmap (Start r)) = Is4 (Unmap ip) \<and>
     range_first r \<le> addr_num (Unmap ip) \<and> addr_num (Unmap ip) \<le> range_last r"

definition as4 :: "Range \<Rightarrow> ip4Range" where
  "as4 r = \<lparr>start4 = addrToUint32 (Unmap (Start r)), end4 = addrToUint32 (Unmap (End r)),
            country4 = Country r\<rparr>"

definition as6 :: "Range \<Rightarrow> ip6Range" where
  "as6 r = \<lparr>start6 = addrToUint128 (Unmap (Start r)), end6 = addrToUint128 (Unmap (End r)),
            country6 = Country r\<rparr>"

lemma split_families_eq:
  "split_families a b rs =
     (a @ map as4 (filter (\<lambda>r. usable r \<and> Is4 (Unmap (Start r))) rs),
      b @ map as6 (filter (\<lambda>r. usable r \<and> \<not> Is4 (Unmap (Start r))) rs))"
  by (induction a b rs rule: split_families.induct)
     (auto simp: Let_def usable_def as4_def as6_def)

lemma usable4:
  assumes "usable r" "Is4 (Unmap (Start r))"
  shows "unat (start4 (as4 r)) = range_first r" "unat (end4 (as4 r)) = range_last r"
    and "range_first r \<le> range_last r"
  using assms
  by (cases "Unmap (Start r)"; cases "Unmap (End r)";
      simp add: usable_def as4_def addrToUint32_def range_first_def range_last_def word_less_nat_alt)+

lemma usable6:
  assumes "usable r" "\<not> Is4 (Unmap (Start r))"
  shows "num128 (start6 (as6 r)) = range_first r" "num128 (end6 (as6 r)) = range_last r"
    and "range_first r \<le> range_last r"
  using assms
  by (cases "Unmap (Start r)"; cases "Unmap (End r)";
      auto simp: usable_def as6_def addrToUint128_def range_first_def range_last_def IsValid_def
        uint128_less_num [symmetric] uint128_less_def not_less [symmetric])+

lemma addrToUint128_num: "\<not> Is4 a \<Longrightarrow> num128 (addrToUint128 a) = addr_num a"
  by (cases a) (auto simp: addrToUint128_def num128_def)

definition range_key :: "Range \<Rightarrow> nat \<times> nat" where
  "range_key r = (range_last r - range_first r, range_first r)"

lemma lookup4:
  assumes "Unmap ip = V4 w"
  shows "lookupV4 (newIndexedLookup rs) w =
    (case first_min range_key (filter (covers ip) rs) of
       None \<Rightarrow> no_country | Some r \<Rightarrow> Country r)"
proof -
  let ?us = "filter (\<lambda>r. usable r \<and> Is4 (Unmap (Start r))) rs"
  let ?a = "sort_key start4 (map as4 ?us)"
  let ?P = "\<lambda>r. unat (start4 r) \<le> unat w \<and> unat w \<le> unat (end4 r)"
  have l: "v4 (newIndexedLookup rs) = ?a" "v4MaxEnd (newIndexedLookup rs) = max_ends4 0 ?a"
    by (simp_all add: newIndexedLookup_def split_families_eq Let_def)
  have "sorted (map start4 ?a)" by (rule sorted_sort_key)
  then have srt: "sorted (map (\<lambda>r. unat (start4 r)) ?a)"
    by (simp add: sorted_map word_le_nat_alt)
  have "filter ?P ?a = sort_key start4 (filter ?P (map as4 ?us))" by (rule filter_sort)
  also have "filter ?P (map as4 ?us) = map as4 (filter (covers ip) rs)"
    by (induction rs) (auto simp: covers_def usable4 assms)
  finally have f: "first_min (\<lambda>r. unat (end4 r - start4 r)) (filter ?P ?a) =
      map_option as4 (first_min (\<lambda>r. (unat (end4 (as4 r) - start4 (as4 r)), start4 (as4 r)))
        (filter (covers ip) rs))"
    by (simp add: first_min_sort_key first_min_map)
  also have "first_min (\<lambda>r. (unat (end4 (as4 r) - start4 (as4 r)), start4 (as4 r)))
        (filter (covers ip) rs) = first_min range_key (filter (covers ip) rs)"
  proof (rule first_min_cong)
    fix x y assume "x \<in> set (filter (covers ip) rs)" "y \<in> set (filter (covers ip) rs)"
    then have xy: "usable x" "usable y" "Is4 (Unmap (Start x))" "Is4 (Unmap (Start y))"
      by (auto simp: covers_def assms)
    have "unat (end4 (as4 r) - start4 (as4 r)) = range_last r - range_first r"
      if "usable r" "Is4 (Unmap (Start r))" for r
      using usable4 [OF that] by (simp add: unat_sub word_le_nat_alt)
    with xy show "((unat (end4 (as4 x) - start4 (as4 x)), start4 (as4 x))
          \<le> (unat (end4 (as4 y) - start4 (as4 y)), start4 (as4 y))) = (range_key x \<le> range_key y)"
      by (simp add: range_key_def word_le_nat_alt usable4)
  qed
  finally have g: "first_min (\<lambda>r. unat (end4 r - start4 r)) (filter ?P ?a) =
      map_option as4 (first_min range_key (filter (covers ip) rs))" .
  show ?thesis
    unfolding lookupV4_def l Let_def word_less_nat_alt w4.walk_search [OF srt] g
    by (simp split: option.splits add: as4_def)
qed

lemma lookup6:
  assumes "\<not> Is4 (Unmap ip)"
  shows "lookupV6 (newIndexedLookup rs) (addrToUint128 (Unmap ip)) =
    (case first_min range_key (filter (covers ip) rs) of
       None \<Rightarrow> no_country | Some r \<Rightarrow> Country r)"
proof -
  let ?w = "addrToUint128 (Unmap ip)"
  let ?us = "filter (\<lambda>r. usable r \<and> \<not> Is4 (Unmap (Start r))) rs"
  let ?a = "sort_key start6 (map as6 ?us)"
  let ?P = "\<lambda>r. num128 (start6 r) \<le> num128 ?w \<and> num128 ?w \<le> num128 (end6 r)"
  have l: "v6 (newIndexedLookup rs) = ?a" "v6MaxEnd (newIndexedLookup rs) = max_ends6 (U128 0 0) ?a"
    by (simp_all add: newIndexedLookup_def split_families_eq Let_def)
  have "sorted (map start6 ?a)" by (rule sorted_sort_key)
  then have srt: "sorted (map (\<lambda>r. num128 (start6 r)) ?a)"
    by (simp add: sorted_map le128_num)
  have "filter ?P ?a = sort_key start6 (filter ?P (map as6 ?us))" by (rule filter_sort)
  also have "filter ?P (map as6 ?us) = map as6 (filter (covers ip) rs)"
    by (induction rs) (auto simp: covers_def usable6 assms addrToUint128_num)
  finally have f: "first_min (\<lambda>r. num128 (uint128_sub (end6 r) (start6 r))) (filter ?P ?a) =
      map_option as6 (first_min (\<lambda>r. (num128 (uint128_sub (end6 (as6 r)) (start6 (as6 r))),
        start6 (as6 r))) (filter (covers ip) rs))"
    by (simp add: first_min_sort_key first_min_map)
  also have "first_min (\<lambda>r. (num128 (uint128_sub (end6 (as6 r)) (start6 (as6 r))), start6 (as6 r)))
        (filter (covers ip) rs) = first_min range_key (filter (covers ip) rs)"
  proof (rule first_min_cong)
    fix x y assume "x \<in> set (filter (covers ip) rs)" "y \<in> set (filter (covers ip) rs)"
    then have xy: "usable x" "usable y" "\<not> Is4 (Unmap (Start x))" "\<not> Is4 (Unmap (Start y))"
      by (auto simp: covers_def assms)
    have "num128 (uint128_sub (end6 (as6 r)) (start6 (as6 r))) = range_last r - range_first r"
      if "usable r" "\<not> Is4 (Unmap (Start r))" for r
      using usable6 [OF that] by (simp add: num128_sub)
    with xy show "((num128 (uint128_sub (end6 (as6 x)) (start6 (as6 x))), start6 (as6 x))
        \<le> (num128 (uint128_sub (end6 (as6 y)) (start6 (as6 y))), start6 (as6 y)))
        = (range_key x \<le> range_key y)"
      by (simp add: range_key_def le128_num usable6)
  qed
  finally have g: "first_min (\<lambda>r. num128 (uint128_sub (end6 r) (start6 r))) (filter ?P ?a) =
      map_option as6 (first_min range_key (filter (covers ip) rs))" .
  show ?thesis
    unfolding lookupV6_def l Let_def uint128_less_num w6.walk_search [OF srt] g
    by (simp split: option.splits add: as6_def)
qed

section \<open>Prefix ranges cover their prefix\<close>

lemma mask_hi_eq: "mask_hi n = NOT (mask (64 - n))"
proof (cases "n \<le> 64")
  case False
  then have "drop_bit n (- 1 :: 64 word) = 0" by (intro bit_eqI) (simp add: bit_simps)
  with False show ?thesis by (simp add: mask_hi_def)
qed (simp add: mask_hi_def drop_bit_top)

lemma mask_lo_eq: "mask_lo n = NOT (mask (128 - n))"
  by (simp add: mask_lo_def push_bit_top)

lemma hostMask128_eq:
  assumes "n \<le> 128"
  shows "hostMask128 n = U128 (mask (64 - n)) (mask (128 - n))"
proof -
  have big: "mask k = (- 1 :: 64 word)" if "64 \<le> k" for k
    using that by (intro bit_eqI) (simp add: bit_simps)
  consider "n = 0" | "0 < n" "n < 64" | "n = 64" | "64 < n" by linarith
  then show ?thesis
    using assms by cases (auto simp: hostMask128_def Let_def big drop_bit_top mask_eq_exp_minus_1 push_bit_eq_mult)
qed

lemma unat_block_end:
  assumes "k \<le> LENGTH('a::len)"
  shows "unat ((x AND NOT (mask k)) OR mask k :: 'a word) = unat x div 2 ^ k * 2 ^ k + (2 ^ k - 1)"
proof -
  have "(x AND NOT (mask k)) + mask k = (x AND NOT (mask k)) OR mask k"
    by (rule disjunctive_add_eq_or) (auto simp: bit_eq_iff bit_simps)
  moreover have m: "unat (mask k :: 'a word) = 2 ^ k - 1"
    using assms unfolding take_bit_minus_one_eq_mask [symmetric] unsigned_take_bit_eq
      unsigned_minus_1_eq_mask take_bit_of_mask by (simp add: min_def mask_eq_exp_minus_1)
  have "unat x div 2 ^ k * 2 ^ k + (2 ^ k - 1) < 2 ^ LENGTH('a)"
  proof -
    obtain j where j: "LENGTH('a) = k + j" using assms le_Suc_ex by blast
    have "unat x < 2 ^ k * 2 ^ j" using unat_bound [of x] by (simp add: j power_add)
    then have "unat x div 2 ^ k < 2 ^ j" by (simp add: div_less_iff_less_mult mult.commute)
    then have "Suc (unat x div 2 ^ k) * 2 ^ k \<le> 2 ^ j * 2 ^ k"
      by (intro mult_right_mono) simp_all
    then have "unat x div 2 ^ k * 2 ^ k + 2 ^ k \<le> 2 ^ LENGTH('a)"
      by (simp add: j power_add mult.commute)
    moreover have "(0 :: nat) < 2 ^ k" by simp
    ultimately show ?thesis by linarith
  qed
  then have "unat ((x AND NOT (mask k)) + mask k) = unat x div 2 ^ k * 2 ^ k + (2 ^ k - 1)"
    by (simp add: unat_word_ariths unat_and_not_mask m)
  ultimately show ?thesis by simp
qed

text \<open>A 128-bit value cleared below bit \<open>k\<close>, and the same with those bits set.\<close>

lemma low_block_split:
  fixes h l :: "64 word"
  assumes "64 \<le> n" "n \<le> 128"
  defines "k \<equiv> 128 - n"
  shows "num128 (U128 (h AND mask_hi n) (l AND mask_lo n)) = num128 (U128 h l) div 2 ^ k * 2 ^ k"
    and "num128 (uint128_or (U128 (h AND mask_hi n) (l AND mask_lo n)) (hostMask128 n))
       = num128 (U128 h l) div 2 ^ k * 2 ^ k + (2 ^ k - 1)"
proof -
  have "k \<le> 64" using assms by (simp add: k_def)
  then obtain j where j: "64 = k + j" using le_Suc_ex by blast
  have d: "num128 (U128 h l) div 2 ^ k * 2 ^ k = unat h * 2 ^ 64 + unat l div 2 ^ k * 2 ^ k"
  proof -
    have "num128 (U128 h l) = unat l + unat h * 2 ^ j * 2 ^ k"
      by (simp add: num128_def j power_add)
    also have "\<dots> div 2 ^ k * 2 ^ k = (unat h * 2 ^ j + unat l div 2 ^ k) * 2 ^ k"
      by (subst div_mult_self1) (simp_all add: add.commute)
    finally show ?thesis by (simp add: j power_add algebra_simps)
  qed
  have h: "mask_hi n = - 1" "hostMask128 n = U128 0 (mask k)"
    using assms by (simp_all add: mask_hi_eq hostMask128_eq)
  show "num128 (U128 (h AND mask_hi n) (l AND mask_lo n)) = num128 (U128 h l) div 2 ^ k * 2 ^ k"
    unfolding d by (simp add: num128_def h(1) mask_lo_eq k_def [symmetric] unat_and_not_mask)
  show "num128 (uint128_or (U128 (h AND mask_hi n) (l AND mask_lo n)) (hostMask128 n))
       = num128 (U128 h l) div 2 ^ k * 2 ^ k + (2 ^ k - 1)"
  proof -
    have "unat (l AND NOT (mask k) OR mask k) = unat l div 2 ^ k * 2 ^ k + (2 ^ k - 1)"
      by (rule unat_block_end) (simp add: j)
    then show ?thesis
      unfolding d
      by (simp only: num128_def uint128_or_def h mask_lo_eq k_def [symmetric] uint128.sel
          bit.conj_one_right or.right_neutral add.assoc)
  qed
qed

lemma block_top_arith:
  fixes q e n :: nat
  assumes "0 < e" "0 < n"
  shows "(q + (e - 1)) * n + (n - 1) = q * n + (n * e - 1)"
  using assms by (cases e; cases n) (simp_all add: algebra_simps)

lemma high_block_split:
  fixes h l :: "64 word"
  assumes "n < 64"
  defines "k \<equiv> 128 - n"
  shows "num128 (U128 (h AND mask_hi n) (l AND mask_lo n)) = num128 (U128 h l) div 2 ^ k * 2 ^ k"
    and "num128 (uint128_or (U128 (h AND mask_hi n) (l AND mask_lo n)) (hostMask128 n))
       = num128 (U128 h l) div 2 ^ k * 2 ^ k + (2 ^ k - 1)"
proof -
  define j where "j = 64 - n"
  have k: "k = 64 + j" using assms by (simp add: k_def j_def)
  have d: "num128 (U128 h l) div 2 ^ k * 2 ^ k = unat h div 2 ^ j * 2 ^ j * 2 ^ 64"
    using unat_bound [of l] by (simp add: num128_def k power_add div_mult2_eq)
  have big: "mask k = (- 1 :: 64 word)"
    by (intro bit_eqI) (simp add: bit_simps k)
  have h: "mask_hi n = NOT (mask j)" "mask_lo n = 0" "hostMask128 n = U128 (mask j) (- 1)"
    using assms big by (simp_all add: mask_hi_eq mask_lo_eq hostMask128_eq k_def j_def)
  have top: "unat (- 1 :: 64 word) = 2 ^ 64 - 1"
    by (simp add: unsigned_minus_1_eq_mask mask_eq_exp_minus_1)
  show "num128 (U128 (h AND mask_hi n) (l AND mask_lo n)) = num128 (U128 h l) div 2 ^ k * 2 ^ k"
    unfolding d by (simp add: num128_def h unat_and_not_mask)
  have "unat ((h AND NOT (mask j)) OR mask j) = unat h div 2 ^ j * 2 ^ j + (2 ^ j - 1)"
    by (rule unat_block_end) (simp add: j_def)
  then have "num128 (uint128_or (U128 (h AND mask_hi n) (l AND mask_lo n)) (hostMask128 n))
      = (unat h div 2 ^ j * 2 ^ j + (2 ^ j - 1)) * 2 ^ 64 + (2 ^ 64 - 1)"
    by (simp only: num128_def uint128_or_def h uint128.sel bit.disj_one_right top)
  then show "num128 (uint128_or (U128 (h AND mask_hi n) (l AND mask_lo n)) (hostMask128 n))
       = num128 (U128 h l) div 2 ^ k * 2 ^ k + (2 ^ k - 1)"
    unfolding d unfolding k power_add using block_top_arith [of "2 ^ j" "2 ^ 64" "unat h div 2 ^ j * 2 ^ j"]
    by simp
qed

lemma block_iff:
  fixes m n d :: nat
  assumes "0 < d"
  shows "n div d * d \<le> m \<and> m \<le> n div d * d + (d - 1) \<longleftrightarrow> m div d = n div d"
proof -
  have "m \<le> n div d * d + (d - 1) \<longleftrightarrow> m < Suc (n div d) * d" using assms by auto
  moreover have "m < Suc (n div d) * d \<longleftrightarrow> m div d < Suc (n div d)"
    using assms by (simp add: div_less_iff_less_mult)
  moreover have "n div d * d \<le> m \<longleftrightarrow> n div d \<le> m div d"
    using assms by (simp add: less_eq_div_iff_mult_less_eq)
  ultimately show ?thesis by auto
qed

lemma prefixRange_v6:
  assumes "paddr p = V6 h l z" "pbits p \<le> 128"
  shows "\<exists>s e. prefixRange p c = \<lparr>Start = s, End = e, Country = c\<rparr> \<and> Is6 s \<and> Is6 e \<and>
     (\<forall>m. addr_num s \<le> m \<and> m \<le> addr_num e \<longleftrightarrow>
          m div 2 ^ (128 - pbits p) = addr_num (paddr p) div 2 ^ (128 - pbits p))"
proof -
  let ?n = "pbits p" and ?a = "U128 (h AND mask_hi (pbits p)) (l AND mask_lo (pbits p))"
  have r: "prefixRange p c = \<lparr>Start = V6 (u_hi ?a) (u_lo ?a) [],
      End = uint128_addr (uint128_or ?a (hostMask128 ?n)), Country = c\<rparr>"
    using assms by (simp add: prefixRange_def Masked_def addrToUint128_def Let_def)
  have "num128 ?a = num128 (U128 h l) div 2 ^ (128 - ?n) * 2 ^ (128 - ?n) \<and>
      num128 (uint128_or ?a (hostMask128 ?n)) =
        num128 (U128 h l) div 2 ^ (128 - ?n) * 2 ^ (128 - ?n) + (2 ^ (128 - ?n) - 1)"
    using low_block_split [of ?n h l] high_block_split [of ?n h l] assms(2) by (cases "?n < 64") auto
  then show ?thesis
    unfolding r using assms(1) block_iff [of "2 ^ (128 - ?n)" "num128 (U128 h l)"]
    by (simp add: uint128_addr_def)
qed

lemma prefixRange_v4:
  assumes "paddr p = V4 w" "pbits p \<le> 32"
  shows "\<exists>s e. prefixRange p c = \<lparr>Start = V4 s, End = V4 e, Country = c\<rparr> \<and>
     (\<forall>m. unat s \<le> m \<and> m \<le> unat e \<longleftrightarrow>
          m div 2 ^ (32 - pbits p) = unat w div 2 ^ (32 - pbits p))"
proof -
  let ?k = "32 - pbits p"
  have "(w AND NOT (mask ?k)) AND NOT (mask ?k) = w AND NOT (mask ?k)"
    by (auto simp: bit_eq_iff bit_simps)
  then have "prefixRange p c = \<lparr>Start = V4 (w AND NOT (mask ?k)),
      End = V4 ((w AND NOT (mask ?k)) OR mask ?k), Country = c\<rparr>"
    using assms by (simp add: prefixRange_def Masked_def ipv4PrefixRange_def mask32_def push_bit_top
        addrToUint32_def uint32ToAddr_def Let_def)
  moreover have "unat ((w AND NOT (mask ?k)) OR mask ?k) = unat w div 2 ^ ?k * 2 ^ ?k + (2 ^ ?k - 1)"
    by (rule unat_block_end) simp
  ultimately show ?thesis
    using block_iff [of "2 ^ ?k" "unat w"] by (simp add: unat_and_not_mask)
qed

section \<open>Properties\<close>

lemma indexed_lookup_first_min:
  "indexed_LookupCountry (newIndexedLookup rs) ip =
     (case first_min range_key (filter (covers ip) rs) of
        None \<Rightarrow> no_country | Some r \<Rightarrow> Country r)"
proof (cases "Is4 (Unmap ip)")
  case True
  then obtain w where "Unmap ip = V4 w" by (cases "Unmap ip") auto
  with lookup4 [OF this] show ?thesis
    by (simp add: indexed_LookupCountry_def addrToUint32_def)
next
  case False
  with lookup6 show ?thesis by (simp add: indexed_LookupCountry_def)
qed

text \<open>
  C7: the indexed lookup, with its family split, stable sort, binary search and early-stopping
  backward walk, returns the country of the first of the smallest covering ranges: least
  span, then lowest start, then earliest in the input; and the zero code when no usable range
  covers the address.
\<close>

theorem indexed_lookup_is_smallest_range:
  "indexed_LookupCountry (newIndexedLookup rs) ip =
     (case first_min range_key (filter (covers ip) rs) of
        None \<Rightarrow> no_country | Some r \<Rightarrow> Country r)"
  by (rule indexed_lookup_first_min)

text \<open>
  the range built from a valid prefix holds exactly the addresses, as numbers, that agree
  with the prefix above its host bits, for both families and every prefix length.
\<close>

theorem prefix_range_is_block:
  assumes "prefix_ok p"
  shows "\<exists>s e. prefixRange p c = \<lparr>Start = s, End = e, Country = c\<rparr> \<and>
           Is4 s = Is4 (paddr p) \<and> Is4 e = Is4 (paddr p) \<and>
           (\<forall>m. addr_num s \<le> m \<and> m \<le> addr_num e \<longleftrightarrow>
                m div 2 ^ (BitLen (paddr p) - pbits p) =
                addr_num (paddr p) div 2 ^ (BitLen (paddr p) - pbits p))"
proof (cases "paddr p")
  case NoAddr
  with assms show ?thesis by (simp add: prefix_ok_def)
next
  case (V4 w)
  then have "pbits p \<le> 32" using assms by (simp add: prefix_ok_def)
  from prefixRange_v4 [OF V4 this, of c] obtain s e
    where "prefixRange p c = \<lparr>Start = V4 s, End = V4 e, Country = c\<rparr>"
      "\<forall>m. unat s \<le> m \<and> m \<le> unat e \<longleftrightarrow> m div 2 ^ (32 - pbits p) = unat w div 2 ^ (32 - pbits p)"
    by blast
  then show ?thesis by (intro exI [of _ "V4 s"] exI [of _ "V4 e"]) (simp add: V4)
next
  case (V6 h l z)
  then have "pbits p \<le> 128" using assms by (simp add: prefix_ok_def)
  from prefixRange_v6 [OF V6 this, of c] obtain s e
    where "prefixRange p c = \<lparr>Start = s, End = e, Country = c\<rparr>" "Is6 s" "Is6 e"
      and m: "\<forall>m. addr_num s \<le> m \<and> m \<le> addr_num e \<longleftrightarrow>
        m div 2 ^ (128 - pbits p) = addr_num (paddr p) div 2 ^ (128 - pbits p)"
    by blast
  moreover have "Is6 a \<Longrightarrow> \<not> Is4 a" for a by (cases a) auto
  ultimately show ?thesis
    by (intro exI [of _ s] exI [of _ e]) (simp add: V6 m [unfolded V6])
qed

theorem prefix_range_is_block_witness:
  "\<exists>s e. prefixRange \<lparr>paddr = V6 0x20010db800000000 1 [], pbits = 40\<rparr> (CHR ''D'', CHR ''E'') =
           \<lparr>Start = s, End = e, Country = (CHR ''D'', CHR ''E'')\<rparr> \<and>
           Is4 s = False \<and> Is4 e = False \<and>
           (\<forall>m. addr_num s \<le> m \<and> m \<le> addr_num e \<longleftrightarrow>
                m div 2 ^ (128 - 40) = num128 (U128 0x20010db800000000 1) div 2 ^ (128 - 40))"
proof -
  have "prefix_ok \<lparr>paddr = V6 0x20010db800000000 1 [], pbits = 40\<rparr>" by (simp add: prefix_ok_def)
  from prefix_range_is_block [OF this, of "(CHR ''D'', CHR ''E'')"] show ?thesis
    by (simp only: prefix.simps BitLen.simps Is4.simps addr_num.simps)
qed

text \<open>
  Ties between overlapping ranges of equal span go to the lower start, not to the earlier
  input: the second input range answers here.
\<close>

lemma equal_span_tie_by_start:
  "indexed_LookupCountry
     (newIndexedLookup [\<lparr>Start = V4 5, End = V4 15, Country = (CHR ''U'', CHR ''S'')\<rparr>,
                        \<lparr>Start = V4 0, End = V4 10, Country = (CHR ''D'', CHR ''E'')\<rparr>]) (V4 7)
   = (CHR ''D'', CHR ''E'')"
  by (simp add: indexed_lookup_first_min covers_def usable_def IsValid_def range_first_def
      range_last_def range_key_def)

end
