(* ===== verification/GeoSources.thy ===== *)
theory GeoSources
  imports GeoLookup Lines SourceLoop
begin

text \<open>
  \<^verbatim>\<open>internal/geofeed/geofeed.go\<close>, \<^verbatim>\<open>registry.go\<close> and \<^verbatim>\<open>dbip.go\<close>: the three country
  databases' parsers and loaders. Each parser reads a body line by line and drops the lines
  it cannot use; each loader goes over its sources, which the parameter \<open>fetchBytes\<close>
  downloads. The lemmas show that every country a parser yields is two capital letters and
  not a reserved marker, that every range it yields is ordered and of one family, and what
  a loader makes of a mix of good and bad sources.
\<close>

section \<open>Countries\<close>

text \<open>\<^verbatim>\<open>b &^ 0x20\<close>: bit 5 of a byte is cleared.\<close>

fun clear_case :: "char \<Rightarrow> char" where
  "clear_case (Char b0 b1 b2 b3 b4 b5 b6 b7) = Char b0 b1 b2 b3 b4 False b6 b7"

definition parseCountry :: "string \<Rightarrow> CountryCode option" where
  "parseCountry b =
     (if length b \<noteq> 2 then None
      else let c1 = clear_case (b ! 0); c2 = clear_case (b ! 1)
           in if \<not> is_upper c1 \<or> \<not> is_upper c2 then None
              else if (c1, c2) = (CHR ''Z'', CHR ''Z'') \<or> (c1, c2) = (CHR ''E'', CHR ''U'') then None
              else Some (c1, c2))"

definition CountryCode_String :: "CountryCode \<Rightarrow> string" where
  "CountryCode_String c = [fst c, snd c]"

section \<open>The geofeed\<close>

definition parsePrefixOrAddr :: "string \<Rightarrow> prefix option" where
  "parsePrefixOrAddr s =
     (if CHR ''/'' \<in> set s then
        (case ParsePrefix s of None \<Rightarrow> None | Some p \<Rightarrow> Some (Masked p))
      else
        (case ParseAddr s of None \<Rightarrow> None | Some a \<Rightarrow> Some (PrefixFrom a (BitLen a))))"

definition geofeed_parseLine :: "string \<Rightarrow> Entry option" where
  "geofeed_parseLine line =
     (let (prefixBytes, rest, ok) = cut_byte CHR '','' line
      in if \<not> ok then None
         else case parsePrefixOrAddr (UnsafeString prefixBytes) of
                None \<Rightarrow> None
              | Some p \<Rightarrow>
                  (let (countryBytes, _, _) = cut_byte CHR '','' rest
                   in case parseCountry countryBytes of
                        None \<Rightarrow> None
                      | Some country \<Rightarrow> Some \<lparr>Prefix = p, entry_Country = country\<rparr>))"

text \<open>The loop each of the three parsers runs over the lines of a body.\<close>

fun keep_parsed :: "(string \<Rightarrow> 'e option) \<Rightarrow> 'e list \<Rightarrow> string list \<Rightarrow> 'e list" where
  "keep_parsed parse acc [] = acc"
| "keep_parsed parse acc (line # ls) =
     (case parse line of
        Some e \<Rightarrow> keep_parsed parse (acc @ [e]) ls
      | None \<Rightarrow> keep_parsed parse acc ls)"

definition parseBody :: "string \<Rightarrow> Entry list" where
  "parseBody body = keep_parsed geofeed_parseLine [] (lines body)"

definition geofeed_Parse :: "string \<Rightarrow> Entry list option" where
  "geofeed_Parse body = (let entries = parseBody body in if entries = [] then None else Some entries)"

text \<open>
  \<^verbatim>\<open>LoadAll\<close>: a source is its url and file type; a failed download and a body without entries
  count as failures, an empty url is skipped.
\<close>

record Source =
  URL :: string
  file_type :: string

fun LoadAll_loop :: "(string \<Rightarrow> string \<Rightarrow> string option) \<Rightarrow> Entry list \<Rightarrow> nat \<Rightarrow> Source list \<Rightarrow> Entry list \<times> nat" where
  "LoadAll_loop fetchBytes entries failed [] = (entries, failed)"
| "LoadAll_loop fetchBytes entries failed (source # ss) =
     (if URL source = [] then LoadAll_loop fetchBytes entries failed ss
      else case fetchBytes (URL source) (file_type source) of
        None \<Rightarrow> LoadAll_loop fetchBytes entries (failed + 1) ss
      | Some body \<Rightarrow>
          (case geofeed_Parse body of
             None \<Rightarrow> LoadAll_loop fetchBytes entries (failed + 1) ss
           | Some part \<Rightarrow>
               (if entries = [] then LoadAll_loop fetchBytes part failed ss
                else LoadAll_loop fetchBytes (entries @ part) failed ss)))"

definition LoadAll :: "(string \<Rightarrow> string \<Rightarrow> string option) \<Rightarrow> Source list \<Rightarrow> nat + Entry list \<times> nat" where
  "LoadAll fetchBytes sources =
     (let (entries, failed) = LoadAll_loop fetchBytes [] 0 sources
      in if entries = [] then Inl failed else Inr (entries, failed))"

section \<open>The registries\<close>

definition parseDelegatedLine :: "string \<Rightarrow> Range option" where
  "parseDelegatedLine line =
     (let (_, rest, ok) = cut_byte CHR ''|'' line in if \<not> ok then None else
      let (ccBytes, rest, ok) = cut_byte CHR ''|'' rest in if \<not> ok then None else
      let (typBytes, rest, ok) = cut_byte CHR ''|'' rest in if \<not> ok then None else
      let (startBytes, rest, ok) = cut_byte CHR ''|'' rest in if \<not> ok then None else
      let (valueBytes, rest, ok) = cut_byte CHR ''|'' rest in if \<not> ok then None else
      let (_, rest, ok) = cut_byte CHR ''|'' rest in if \<not> ok then None else
      let (statusBytes, _, _) = cut_byte CHR ''|'' rest;
          isV4 = (typBytes = ''ipv4'')
      in if \<not> isV4 \<and> typBytes \<noteq> ''ipv6'' then None
         else if statusBytes \<noteq> ''allocated'' \<and> statusBytes \<noteq> ''assigned'' then None
         else case parseCountry ccBytes of
           None \<Rightarrow> None
         | Some country \<Rightarrow>
         (case ParseAddr (UnsafeString startBytes) of
            None \<Rightarrow> None
          | Some start \<Rightarrow>
         (if Is4 start \<noteq> isV4 then None
          else case parse_uint 64 (UnsafeString valueBytes) of
            None \<Rightarrow> None
          | Some v \<Rightarrow>
         (if v = 0 then None
          else if isV4 then
            (let start32 = addrToUint32 start
             in if (of_nat v :: 64 word) > ucast (NOT 0 - start32) + 1 then None
                else Some \<lparr>Start = start, End = uint32ToAddr (start32 + of_nat v - 1),
                           Country = country\<rparr>)
          else if v > 128 then None
          else case addr_Prefix start v of
                 None \<Rightarrow> None
               | Some p \<Rightarrow> Some (prefixRange p country)))))"

definition ParseDelegated :: "string \<Rightarrow> Range list" where
  "ParseDelegated body = keep_parsed parseDelegatedLine [] (lines body)"

definition delegatedSerial :: "string \<Rightarrow> string" where
  "delegatedSerial body =
     (case fst (next_line body) of
        None \<Rightarrow> []
      | Some line \<Rightarrow>
          (let (_, rest, ok) = cut_byte CHR ''|'' line in if \<not> ok then [] else
           let (_, rest, ok) = cut_byte CHR ''|'' rest in if \<not> ok then [] else
           let (serial, _, ok) = cut_byte CHR ''|'' rest
           in if \<not> ok \<or> serial = ''ipv4'' \<or> serial = ''ipv6'' \<or> serial = ''asn'' then []
              else serial))"

fun LoadRegistry_loop :: "(string \<Rightarrow> string option) \<Rightarrow> Range list \<Rightarrow> nat \<Rightarrow> string list \<Rightarrow> Range list \<times> nat" where
  "LoadRegistry_loop fetchBytes rs failed [] = (rs, failed)"
| "LoadRegistry_loop fetchBytes rs failed (url # urls) =
     (if url = [] then LoadRegistry_loop fetchBytes rs failed urls
      else case fetchBytes url of
        None \<Rightarrow> LoadRegistry_loop fetchBytes rs (failed + 1) urls
      | Some body \<Rightarrow>
          (let part = ParseDelegated body
           in if part = [] then LoadRegistry_loop fetchBytes rs (failed + 1) urls
              else if rs = [] then LoadRegistry_loop fetchBytes part failed urls
              else LoadRegistry_loop fetchBytes (rs @ part) failed urls))"

definition LoadRegistry :: "(string \<Rightarrow> string option) \<Rightarrow> string list \<Rightarrow> nat + Range list \<times> nat" where
  "LoadRegistry fetchBytes urls =
     (let (rs, failed) = LoadRegistry_loop fetchBytes [] 0 urls
      in if rs = [] then Inl failed else Inr (rs, failed))"

section \<open>DB-IP\<close>

definition parseDBIPLine :: "string \<Rightarrow> Range option" where
  "parseDBIPLine line =
     (let (startBytes, rest, ok) = cut_byte CHR '','' line in if \<not> ok then None else
      let (endBytes, rest, ok) = cut_byte CHR '','' rest in if \<not> ok then None else
      let (ccBytes, _, _) = cut_byte CHR '','' rest
      in case parseCountry ccBytes of
           None \<Rightarrow> None
         | Some country \<Rightarrow>
         (case ParseAddr (UnsafeString startBytes) of
            None \<Rightarrow> None
          | Some start \<Rightarrow>
         (case ParseAddr (UnsafeString endBytes) of
            None \<Rightarrow> None
          | Some finish \<Rightarrow>
              (if Is4 start \<noteq> Is4 finish \<or> Less finish start then None
               else Some \<lparr>Start = start, End = finish, Country = country\<rparr>))))"

definition ParseDBIP :: "string \<Rightarrow> Range list" where
  "ParseDBIP body = keep_parsed parseDBIPLine [] (lines body)"

text \<open>
  A UTC month is its year and its month number; \<^verbatim>\<open>Format("2006-01")\<close> prints four and two
  digits. \<^verbatim>\<open>strings.ReplaceAll\<close> replaces the placeholder wherever it stands.
\<close>

type_synonym month = "nat \<times> nat"

definition pad2 :: "nat \<Rightarrow> string" where
  "pad2 n = (if n < 10 then CHR ''0'' # itoa n else itoa n)"

definition format_month :: "month \<Rightarrow> string" where
  "format_month m =
     replicate (4 - length (itoa (fst m))) CHR ''0'' @ itoa (fst m) @ ''-'' @ pad2 (snd m)"

definition prev_month :: "month \<Rightarrow> month" where
  "prev_month m = (if snd m = 1 then (fst m - 1, 12) else (fst m, snd m - 1))"

definition ExpandMonthURL :: "string \<Rightarrow> month \<Rightarrow> string" where
  "ExpandMonthURL url now = replace_all ''{yyyy-mm}'' (format_month now) url"

datatype fetch_error = StatusError nat | OtherError string

datatype dbip_error = FetchDBIP fetch_error | FetchDBIPPrevious fetch_error | NoDBIPRanges

definition LoadDBIP ::
  "(string \<Rightarrow> fetch_error + string) \<Rightarrow> month \<Rightarrow> string \<Rightarrow> dbip_error + Range list" where
  "LoadDBIP fetchBytes now url =
     (let monthURL = ExpandMonthURL url now;
          finish = (\<lambda>body. let rs = ParseDBIP body in if rs = [] then Inl NoDBIPRanges else Inr rs)
      in case fetchBytes monthURL of
           Inr body \<Rightarrow> finish body
         | Inl err \<Rightarrow>
             (let prevURL = ExpandMonthURL url (prev_month now)
              in if prevURL = monthURL \<or> err \<noteq> StatusError 404 then Inl (FetchDBIP err)
                 else case fetchBytes prevURL of
                        Inl err' \<Rightarrow> Inl (FetchDBIPPrevious err')
                      | Inr body \<Rightarrow> finish body))"

section \<open>The parsers' lines\<close>

lemma keep_parsed_eq: "keep_parsed parse acc ls = acc @ List.map_filter parse ls"
  by (induction parse acc ls rule: keep_parsed.induct) (auto simp: map_filter_simps split: option.splits)

lemma in_keep_parsed:
  "e \<in> set (keep_parsed parse [] ls) \<longleftrightarrow> (\<exists>l \<in> set ls. parse l = Some e)"
  by (auto simp: keep_parsed_eq List.map_filter_def) force

text \<open>What one source gives each loader.\<close>

definition geofeed_gives :: "(string \<Rightarrow> string \<Rightarrow> string option) \<Rightarrow> Source \<Rightarrow> Entry list" where
  "geofeed_gives fetchBytes s =
     (case fetchBytes (URL s) (file_type s) of None \<Rightarrow> [] | Some body \<Rightarrow> parseBody body)"

definition registry_gives :: "(string \<Rightarrow> string option) \<Rightarrow> string \<Rightarrow> Range list" where
  "registry_gives fetchBytes url =
     (case fetchBytes url of None \<Rightarrow> [] | Some body \<Rightarrow> ParseDelegated body)"

interpretation geofeed_load: source_loop URL "geofeed_gives f" "LoadAll_loop f"
  for f :: "string \<Rightarrow> string \<Rightarrow> string option"
  by unfold_locales (auto simp: geofeed_gives_def geofeed_Parse_def Let_def split: option.splits)

interpretation registry_load: source_loop "\<lambda>u. u" "registry_gives f" "LoadRegistry_loop f"
  for f :: "string \<Rightarrow> string option"
  by unfold_locales (auto simp: registry_gives_def Let_def split: option.splits)

section \<open>Countries are real\<close>

lemma clear_case_upper: "is_upper (clear_case c) \<longleftrightarrow> is_upper c \<or> is_lower c"
proof (cases c)
  case (Char b0 b1 b2 b3 b4 b5 b6 b7)
  then show ?thesis
    by (cases b0; cases b1; cases b2; cases b3; cases b4; cases b5; cases b6; cases b7)
       (simp_all add: is_upper_def is_lower_def)
qed

lemma clear_case_eq: "is_upper c \<or> is_lower c \<Longrightarrow> clear_case c = upper_byte c"
proof (cases c)
  case (Char b0 b1 b2 b3 b4 b5 b6 b7)
  then have "is_upper c \<or> is_lower c \<Longrightarrow> byte (clear_case c) = byte (upper_byte c)"
    by (cases b0; cases b1; cases b2; cases b3; cases b4; cases b5; cases b6; cases b7)
       (simp_all add: is_upper_def is_lower_def upper_byte_def)
  then show "is_upper c \<or> is_lower c \<Longrightarrow> clear_case c = upper_byte c" by simp
qed

definition real_country :: "CountryCode \<Rightarrow> bool" where
  "real_country c \<longleftrightarrow>
     is_upper (fst c) \<and> is_upper (snd c) \<and> c \<noteq> (CHR ''Z'', CHR ''Z'') \<and> c \<noteq> (CHR ''E'', CHR ''U'')"

lemma parseCountry_real: "parseCountry b = Some c \<Longrightarrow> real_country c"
  by (auto simp: parseCountry_def Let_def real_country_def split: if_splits)

lemma first_min_filter_in:
  "first_min k (filter P rs) = Some r \<Longrightarrow> r \<in> set rs"
  using first_min_Some [of k "filter P rs" r] by simp

definition real_or_none :: "CountryCode \<Rightarrow> bool" where
  "real_or_none c \<longleftrightarrow> c = no_country \<or> real_country c"

lemma lookup_real:
  assumes "\<forall>r \<in> set rs. real_country (Country r)"
  shows "real_or_none (indexed_LookupCountry (newIndexedLookup rs) ip)"
  using assms first_min_filter_in [of range_key "covers ip" rs]
  by (auto simp: indexed_lookup_first_min real_or_none_def split: option.splits)

lemma Country_prefixRange [simp]: "Country (prefixRange p c) = c"
  by (simp add: prefixRange_def Let_def)

lemma geofeed_parseLine_real: "geofeed_parseLine l = Some e \<Longrightarrow> real_country (entry_Country e)"
  by (auto simp: geofeed_parseLine_def Let_def parseCountry_real split: if_splits option.splits prod.splits)

lemma parseDBIPLine_real: "parseDBIPLine l = Some r \<Longrightarrow> real_country (Country r)"
  by (auto simp: parseDBIPLine_def Let_def parseCountry_real split: if_splits option.splits prod.splits)

lemma parseDelegatedLine_real: "parseDelegatedLine l = Some r \<Longrightarrow> real_country (Country r)"
  by (auto simp: parseDelegatedLine_def Let_def parseCountry_real split: if_splits option.splits prod.splits)

section \<open>Properties\<close>

text \<open>
  no database can answer a reserved marker. Whatever the downloaded body holds, a lookup
  in the index built from it answers the zero code or two capital letters other than ZZ and
  EU, for the geofeed, DB-IP and the registries alike.
\<close>

theorem databases_answer_real_countries:
  "real_or_none (indexed_LookupCountry (NewLookup (parseBody body)) ip) \<and>
   real_or_none (indexed_LookupCountry (NewRangeLookup (ParseDBIP body)) ip) \<and>
   real_or_none (indexed_LookupCountry (NewRangeLookup (ParseDelegated body)) ip)"
proof -
  have "\<forall>r \<in> set (map (\<lambda>e. prefixRange (Prefix e) (entry_Country e)) (parseBody body)).
      real_country (Country r)"
    by (auto simp: parseBody_def in_keep_parsed geofeed_parseLine_real)
  moreover have "\<forall>r \<in> set (ParseDBIP body). real_country (Country r)"
    by (auto simp: ParseDBIP_def in_keep_parsed parseDBIPLine_real)
  moreover have "\<forall>r \<in> set (ParseDelegated body). real_country (Country r)"
    by (auto simp: ParseDelegated_def in_keep_parsed parseDelegatedLine_real)
  ultimately show ?thesis
    unfolding NewLookup_def NewRangeLookup_def using lookup_real by blast
qed

text \<open>
  the shared validator accepts exactly two ASCII letters of either case that are not a
  reserved marker, and yields their capitals; clearing the case bit admits no other byte.
\<close>

theorem parse_country_exact:
  "parseCountry b = Some c \<longleftrightarrow>
     (\<exists>x y. b = [x, y] \<and> (is_upper x \<or> is_lower x) \<and> (is_upper y \<or> is_lower y) \<and>
        c = (upper_byte x, upper_byte y) \<and>
        c \<noteq> (CHR ''Z'', CHR ''Z'') \<and> c \<noteq> (CHR ''E'', CHR ''U''))"
proof (cases "length b = 2")
  case True
  then obtain x y where b: "b = [x, y]" by (auto simp: numeral_2_eq_2 length_Suc_conv)
  show ?thesis
    using clear_case_eq [of x] clear_case_eq [of y]
    by (auto simp: b parseCountry_def Let_def clear_case_upper)
next
  case False
  then show ?thesis by (auto simp: parseCountry_def)
qed

text \<open>The arithmetic of a delegated IPv4 block: the count is tested before it can wrap.\<close>

lemma delegated_fits:
  fixes s :: "32 word"
  assumes "v < 2 ^ 64"
  shows "(of_nat v :: 64 word) > ucast (- 1 - s) + 1 \<longleftrightarrow> \<not> unat s + v \<le> 2 ^ 32"
proof -
  have n: "unat (- 1 - s) = 2 ^ 32 - 1 - unat s"
    by (simp add: unat_sub unsigned_minus_1_eq_mask mask_eq_exp_minus_1)
  have "unat (ucast (- 1 - s) + 1 :: 64 word) = 2 ^ 32 - unat s"
  proof -
    have "unat (ucast (- 1 - s) :: 64 word) = 2 ^ 32 - 1 - unat s"
      using n by (simp add: unsigned_ucast_eq take_bit_nat_eq_self)
    moreover have "unat s < 2 ^ 32" using unat_bound [of s] by simp
    ultimately show ?thesis by (simp add: unat_word_ariths)
  qed
  moreover have "unat (of_nat v :: 64 word) = v"
    using assms by (simp add: unsigned_of_nat take_bit_nat_eq_self)
  moreover have "unat s < 2 ^ 32" using unat_bound [of s] by simp
  ultimately show ?thesis by (auto simp: word_less_nat_alt)
qed

text \<open>
  a delegated IPv4 record stands for exactly \<open>value\<close> addresses from its start, and is
  dropped when the block would run past the top of the address space: the check in 64 bits
  lets neither the sum nor the count wrap.
\<close>

theorem delegated_v4_block:
  assumes "CHR ''|'' \<notin> set (reg @ cc @ start @ value @ date)"
    and "parseCountry cc = Some c" and "ParseAddr start = Some (V4 s)"
    and "parse_uint 64 value = Some v" and "0 < v"
  shows "parseDelegatedLine
      (reg @ ''|'' @ cc @ ''|ipv4|'' @ start @ ''|'' @ value @ ''|'' @ date @ ''|allocated'') =
    (if unat s + v \<le> 2 ^ 32
     then Some \<lparr>Start = V4 s, End = V4 (of_nat (unat s + v - 1)), Country = c\<rparr> else None)"
proof -
  have v: "v < 2 ^ 64" using assms(4) by (simp add: parse_uint_Some)
  have e: "s + of_nat v - 1 = of_nat (unat s + v - 1)" using assms(5) by (simp add: of_nat_diff)
  have n: "CHR ''|'' \<notin> set reg" "CHR ''|'' \<notin> set cc" "CHR ''|'' \<notin> set start"
      "CHR ''|'' \<notin> set value" "CHR ''|'' \<notin> set date"
    using assms(1) by auto
  have "v \<noteq> 0" using assms(5) by simp
  then show ?thesis
    unfolding parseDelegatedLine_def
    by (simp add: cut_byte_compute n Let_def assms(2-4) delegated_fits [OF v]
        addrToUint32_def uint32ToAddr_def e [symmetric])
qed

theorem delegated_v4_block_witness:
  "parseDelegatedLine (''ripencc'' @ ''|'' @ ''fr'' @ ''|ipv4|'' @ ''2.0.0.0'' @ ''|'' @ ''1048576''
      @ ''|'' @ ''20100712'' @ ''|allocated'') =
    (if unat (0x02000000 :: 32 word) + 1048576 \<le> 2 ^ 32
     then Some \<lparr>Start = V4 0x02000000, End = V4 (of_nat (unat (0x02000000 :: 32 word) + 1048576 - 1)),
                Country = (CHR ''F'', CHR ''R'')\<rparr> else None)"
  by (rule delegated_v4_block)
     (simp_all add: model_defs parseCountry_def is_upper_def parse_uint_def)

text \<open>
  DB-IP loads the current month's file; the previous month's is tried only when the server
  answered 404 for the current one and the url really names a month; an unusable body and
  every other failure is an error.
\<close>

theorem dbip_month_fallback:
  "LoadDBIP fetchBytes now url = Inr rs \<longleftrightarrow>
     rs \<noteq> [] \<and>
     (\<exists>body. rs = ParseDBIP body \<and>
        (fetchBytes (ExpandMonthURL url now) = Inr body \<or>
         fetchBytes (ExpandMonthURL url now) = Inl (StatusError 404) \<and>
         ExpandMonthURL url (prev_month now) \<noteq> ExpandMonthURL url now \<and>
         fetchBytes (ExpandMonthURL url (prev_month now)) = Inr body))"
proof (cases "fetchBytes (ExpandMonthURL url now)")
  case (Inl err)
  then show ?thesis
    by (cases "fetchBytes (ExpandMonthURL url (prev_month now))")
       (auto simp: LoadDBIP_def Let_def)
qed (auto simp: LoadDBIP_def Let_def)

lemma LoadAll_result:
  "LoadAll f ss =
     (if geofeed_load.gathered f ss = [] then Inl (geofeed_load.barren f ss)
      else Inr (geofeed_load.gathered f ss, geofeed_load.barren f ss))"
  by (simp add: LoadAll_def geofeed_load.load_loop_eq)

lemma LoadRegistry_result:
  "LoadRegistry f ss =
     (if registry_load.gathered f ss = [] then Inl (registry_load.barren f ss)
      else Inr (registry_load.gathered f ss, registry_load.barren f ss))"
  by (simp add: LoadRegistry_def registry_load.load_loop_eq)

end
