(* ===== verification/CountryFilter.thy ===== *)
theory CountryFilter
  imports GeoLookup Lines
begin

text \<open>
  \<^verbatim>\<open>internal/filter/filter.go\<close>: a set of two-letter country codes as eleven 64-bit words, and
  the allow/deny verdict the pipeline takes with two of them. The lemmas relate the words to
  the set of codes they stand for.
\<close>

type_synonym CountrySet = "64 word list"

definition zero_set :: CountrySet where
  "zero_set = replicate 11 0"

definition code_index :: "char \<Rightarrow> char \<Rightarrow> nat" where
  "code_index c1 c2 = (byte c1 - 65) * 26 + (byte c2 - 65)"

definition Has :: "CountrySet \<Rightarrow> CountryCode \<Rightarrow> bool" where
  "Has s country =
     (let c1 = fst country; c2 = snd country
      in if \<not> is_upper c1 \<or> \<not> is_upper c2 then False
         else let idx = code_index c1 c2
              in s ! (idx div 64) AND push_bit (idx mod 64) 1 \<noteq> 0)"

definition All_codes :: CountrySet where
  "All_codes = (replicate (676 div 64) (NOT 0)) @ [push_bit (676 mod 64) 1 - 1]"

definition IsFull :: "CountrySet \<Rightarrow> bool" where
  "IsFull s \<longleftrightarrow> s = All_codes"

fun IsEmpty :: "CountrySet \<Rightarrow> bool" where
  "IsEmpty [] = True"
| "IsEmpty (v # vs) = (if v \<noteq> 0 then False else IsEmpty vs)"

definition Permits :: "CountrySet \<Rightarrow> CountrySet \<Rightarrow> CountryCode \<Rightarrow> bool" where
  "Permits allowed denied country =
     (if \<not> IsFull allowed \<and> \<not> Has allowed country then False else \<not> Has denied country)"

definition Permitted ::
  "(addr \<Rightarrow> CountryCode) option \<Rightarrow> addr list \<Rightarrow> CountrySet \<Rightarrow> CountrySet \<Rightarrow> addr list" where
  "Permitted lookup ips allowed denied =
     (let allowAll = IsFull allowed
      in compact (\<lambda>ip. let country = LookupCountry lookup ip
                       in (allowAll \<or> Has allowed country) \<and> \<not> Has denied country) ips 0 0)"

definition is_blank :: "char \<Rightarrow> bool" where
  "is_blank c \<longleftrightarrow> c = CHR '' '' \<or> c = CHR 0x09 \<or> c = CHR 0x0A \<or> c = CHR 0x0D"

text \<open>The two index loops of \<^verbatim>\<open>parseCountryPart\<close>, as the bytes between their ends.\<close>

definition trim_blank :: "string \<Rightarrow> string" where
  "trim_blank part = rev (dropWhile is_blank (rev (dropWhile is_blank part)))"

definition parseCountryPart :: "CountrySet \<Rightarrow> string \<Rightarrow> CountrySet \<times> bool" where
  "parseCountryPart cs part =
     (let mid = trim_blank part
      in if length mid \<noteq> 2 then (cs, False)
         else let c1 = upper_byte (mid ! 0); c2 = upper_byte (mid ! 1)
              in if \<not> is_upper c1 \<or> \<not> is_upper c2 then (cs, False)
                 else let i = code_index c1 c2
                      in (cs[i div 64 := cs ! (i div 64) OR push_bit (i mod 64) 1], True))"

definition Add :: "CountrySet \<Rightarrow> string \<Rightarrow> CountrySet \<times> bool" where
  "Add s part = parseCountryPart s part"

definition ParseAllowed :: "string list \<Rightarrow> CountrySet" where
  "ParseAllowed parts =
     foldl (\<lambda>cs part. foldl (\<lambda>cs sub. fst (Add cs sub)) cs (split_byte CHR '','' part))
       zero_set parts"

section \<open>The words as a set of codes\<close>

definition code_bit :: "CountrySet \<Rightarrow> nat \<Rightarrow> bool" where
  "code_bit s i \<longleftrightarrow> bit (s ! (i div 64)) (i mod 64)"

definition set_ok :: "CountrySet \<Rightarrow> bool" where
  "set_ok s \<longleftrightarrow> length s = 11 \<and> (\<forall>i. 676 \<le> i \<and> i < 704 \<longrightarrow> \<not> code_bit s i)"

lemma Has_code_bit:
  "Has s c \<longleftrightarrow> is_upper (fst c) \<and> is_upper (snd c) \<and> code_bit s (code_index (fst c) (snd c))"
  by (auto simp: Has_def Let_def and_exp_eq_0_iff_not_bit code_bit_def)

lemma code_index_bound: "is_upper a \<Longrightarrow> is_upper b \<Longrightarrow> code_index a b < 676"
  by (auto simp: code_index_def is_upper_def)

lemma index_arith:
  fixes a b c d :: nat
  assumes "65 \<le> a" "65 \<le> b" "65 \<le> c" "65 \<le> d" "b \<le> 90" "d \<le> 90"
    and "(a - 65) * 26 + (b - 65) = (c - 65) * 26 + (d - 65)"
  shows "a = c" "b = d"
proof -
  have "((a - 65) * 26 + (b - 65)) div 26 = a - 65" "((c - 65) * 26 + (d - 65)) div 26 = c - 65"
    using assms(5,6) by simp_all
  then have "a - 65 = c - 65" using assms(7) by simp
  then show "a = c" "b = d" using assms by simp_all
qed

lemma code_index_inject:
  assumes "is_upper a" "is_upper b" "is_upper c" "is_upper d"
  shows "code_index a b = code_index c d \<longleftrightarrow> a = c \<and> b = d"
proof
  assume "code_index a b = code_index c d"
  then have "byte a = byte c" "byte b = byte d"
    using assms index_arith [of "byte a" "byte b" "byte c" "byte d"]
    unfolding code_index_def is_upper_def by blast+
  then show "a = c \<and> b = d" by simp
qed simp

lemma code_index_surj:
  assumes "i < 676"
  obtains a b where "is_upper a" "is_upper b" "code_index a b = i"
proof
  have "i div 26 < 26" using assms by simp
  then show "is_upper (char_of (65 + i div 26))" "is_upper (char_of (65 + i mod 26))"
    by (simp_all add: is_upper_def)
  show "code_index (char_of (65 + i div 26)) (char_of (65 + i mod 26)) = i"
    using \<open>i div 26 < 26\<close> by (simp add: code_index_def)
qed

lemma code_bit_update:
  assumes "length s = 11" "i < 704"
  shows "code_bit (s[j div 64 := s ! (j div 64) OR push_bit (j mod 64) 1]) i
     \<longleftrightarrow> code_bit s i \<or> i = j"
proof (cases "i div 64 = j div 64")
  case True
  then have "i div 64 < length s" using assms by simp
  moreover have "i = j \<longleftrightarrow> i mod 64 = j mod 64" using True by (metis div_mult_mod_eq)
  ultimately show ?thesis
    using True by (auto simp: code_bit_def bit_simps)
next
  case False
  then show ?thesis using assms by (auto simp: code_bit_def nth_list_update)
qed

lemma set_eqI:
  assumes "length s = 11" "length t = 11" "\<And>i. i < 704 \<Longrightarrow> code_bit s i = code_bit t i"
  shows "s = t"
proof (rule nth_equalityI)
  fix k assume "k < length s"
  then have "k < 11" using assms by simp
  have "bit (s ! k) n = bit (t ! k) n" if "n < 64" for n
  proof -
    have "code_bit s (k * 64 + n) = code_bit t (k * 64 + n)"
      using \<open>k < 11\<close> that by (intro assms(3)) simp
    with that show ?thesis by (simp add: code_bit_def)
  qed
  then show "s ! k = t ! k" by (intro bit_eqI) (simp add: bit_imp_le_length)
qed (use assms in simp)

lemma code_bit_All: "i < 704 \<Longrightarrow> code_bit All_codes i \<longleftrightarrow> i < 676"
proof -
  assume i: "i < 704"
  show ?thesis
  proof (cases "i div 64 < 10")
    case True
    then have "All_codes ! (i div 64) = NOT 0" by (simp add: All_codes_def nth_append)
    with True show ?thesis by (simp add: code_bit_def)
  next
    case False
    then have d: "i div 64 = 10" using i by simp
    have "All_codes ! 10 = mask 36"
      by (simp add: All_codes_def nth_append mask_eq_exp_minus_1 push_bit_eq_mult)
    then have "code_bit All_codes i \<longleftrightarrow> i mod 64 < 36" by (simp add: code_bit_def d bit_simps)
    also have "\<dots> \<longleftrightarrow> i < 676" using d div_mult_mod_eq [of i 64] by linarith
    finally show ?thesis .
  qed
qed

lemma set_ok_All [simp]: "set_ok All_codes"
  using code_bit_All by (auto simp: set_ok_def All_codes_def)

lemma code_bit_zero [simp]: "i < 704 \<Longrightarrow> \<not> code_bit zero_set i"
  by (simp add: code_bit_def zero_set_def)

lemma set_ok_zero [simp]: "set_ok zero_set"
  by (auto simp: set_ok_def) (simp add: zero_set_def)

lemma set_eq_Has:
  assumes "set_ok s" "set_ok t" "\<And>c. Has s c = Has t c"
  shows "s = t"
proof (rule set_eqI)
  fix i :: nat assume i: "i < 704"
  show "code_bit s i = code_bit t i"
  proof (cases "i < 676")
    case True
    then obtain a b where "is_upper a" "is_upper b" "code_index a b = i" by (rule code_index_surj)
    with assms(3) [of "(a, b)"] show ?thesis by (simp add: Has_code_bit)
  qed (use assms i in \<open>simp add: set_ok_def\<close>)
qed (use assms in \<open>simp_all add: set_ok_def\<close>)

lemma Has_All: "Has All_codes c \<longleftrightarrow> is_upper (fst c) \<and> is_upper (snd c)"
  using code_bit_All code_index_bound by (force simp: Has_code_bit)

lemma Has_zero [simp]: "\<not> Has zero_set c"
  using code_index_bound by (force simp: Has_code_bit)

lemma IsFull_iff: "set_ok s \<Longrightarrow> IsFull s \<longleftrightarrow> (\<forall>c. is_upper (fst c) \<and> is_upper (snd c) \<longrightarrow> Has s c)"
proof
  assume "set_ok s" and all: "\<forall>c. is_upper (fst c) \<and> is_upper (snd c) \<longrightarrow> Has s c"
  have "Has s c = Has All_codes c" for c
    using all Has_All [of c] by (auto simp: Has_code_bit)
  then show "IsFull s" unfolding IsFull_def using \<open>set_ok s\<close> by (intro set_eq_Has) auto
qed (auto simp: IsFull_def Has_All)

lemma IsEmpty_zero: "IsEmpty s \<longleftrightarrow> (\<forall>v \<in> set s. v = 0)"
  by (induction s rule: IsEmpty.induct) auto

lemma IsEmpty_iff: "set_ok s \<Longrightarrow> IsEmpty s \<longleftrightarrow> (\<forall>c. \<not> Has s c)"
proof
  assume "set_ok s" "\<forall>c. \<not> Has s c"
  then have "s = zero_set" by (intro set_eq_Has) auto
  then show "IsEmpty s" by (simp add: IsEmpty_zero zero_set_def)
next
  assume ok: "set_ok s" and "IsEmpty s"
  then have "s = zero_set"
    unfolding zero_set_def by (intro replicate_eqI) (auto simp: set_ok_def IsEmpty_zero)
  then show "\<forall>c. \<not> Has s c" by simp
qed

section \<open>Adding and parsing\<close>

text \<open>The code a part names.\<close>

definition part_code :: "string \<Rightarrow> CountryCode option" where
  "part_code part =
     (case trim_blank part of
        [a, b] \<Rightarrow> (if is_upper (upper_byte a) \<and> is_upper (upper_byte b)
                   then Some (upper_byte a, upper_byte b) else None)
      | _ \<Rightarrow> None)"

lemma Add_spec:
  assumes "set_ok s"
  shows "set_ok (fst (Add s part))"
    and "snd (Add s part) \<longleftrightarrow> part_code part \<noteq> None"
    and "Has (fst (Add s part)) c \<longleftrightarrow> Has s c \<or> part_code part = Some c"
proof -
  have *: "set_ok (fst (Add s part)) \<and> (snd (Add s part) \<longleftrightarrow> part_code part \<noteq> None) \<and>
      (Has (fst (Add s part)) c \<longleftrightarrow> Has s c \<or> part_code part = Some c)"
  proof (cases "part_code part")
    case None
    then have "Add s part = (s, False)"
      by (auto simp: Add_def parseCountryPart_def part_code_def Let_def length_Suc_conv
          numeral_2_eq_2 split: list.splits if_splits)
    with None assms show ?thesis by simp
  next
    case (Some d)
    then obtain a b where t: "trim_blank part = [a, b]" and ab: "is_upper (upper_byte a)"
        "is_upper (upper_byte b)" and d: "d = (upper_byte a, upper_byte b)"
      by (auto simp: part_code_def split: list.splits if_splits)
    let ?j = "code_index (upper_byte a) (upper_byte b)"
    have add: "Add s part = (s[?j div 64 := s ! (?j div 64) OR push_bit (?j mod 64) 1], True)"
      using ab by (simp add: Add_def parseCountryPart_def t Let_def)
    have j: "?j < 676" using ab by (rule code_index_bound)
    have len: "length s = 11" using assms by (simp add: set_ok_def)
    have "code_bit (fst (Add s part)) i \<longleftrightarrow> code_bit s i \<or> i = ?j" if "i < 704" for i
      using code_bit_update [OF len that] add by simp
    moreover have "length (fst (Add s part)) = 11" using len add by simp
    ultimately show ?thesis
      using assms add Some d ab j code_index_inject [of "fst c" "snd c"] code_index_bound [of "fst c" "snd c"]
      by (cases c) (auto simp: set_ok_def Has_code_bit)
  qed
  then show "set_ok (fst (Add s part))" "snd (Add s part) \<longleftrightarrow> part_code part \<noteq> None"
      "Has (fst (Add s part)) c \<longleftrightarrow> Has s c \<or> part_code part = Some c" by auto
qed

lemma foldl_Add:
  assumes "set_ok s"
  shows "set_ok (foldl (\<lambda>cs sub. fst (Add cs sub)) s subs)"
    and "Has (foldl (\<lambda>cs sub. fst (Add cs sub)) s subs) c \<longleftrightarrow>
         Has s c \<or> (\<exists>sub \<in> set subs. part_code sub = Some c)"
  using assms by (induction subs arbitrary: s) (auto simp: Add_spec)

lemma ParseAllowed_flat:
  "ParseAllowed parts =
     foldl (\<lambda>cs sub. fst (Add cs sub)) zero_set (concat (map (split_byte CHR '','') parts))"
proof -
  have "foldl (\<lambda>cs part. foldl (\<lambda>cs sub. fst (Add cs sub)) cs (split_byte CHR '','' part)) s parts
      = foldl (\<lambda>cs sub. fst (Add cs sub)) s (concat (map (split_byte CHR '','') parts))" for s
    by (induction parts arbitrary: s) simp_all
  then show ?thesis by (simp add: ParseAllowed_def)
qed

lemma ParseAllowed_spec:
  "set_ok (ParseAllowed parts)"
  "Has (ParseAllowed parts) c \<longleftrightarrow>
     (\<exists>part \<in> set parts. \<exists>sub \<in> set (split_byte CHR '','' part). part_code sub = Some c)"
  by (simp_all add: ParseAllowed_flat foldl_Add)

lemma Permits_iff:
  "Permits allowed denied c \<longleftrightarrow> (IsFull allowed \<or> Has allowed c) \<and> \<not> Has denied c"
  by (auto simp: Permits_def)

section \<open>Properties\<close>

text \<open>
  the bitset parsed from any country lists holds exactly the codes those lists name, so
  adding never disturbs another code; it is full exactly when every two-capital code was
  named, and empty exactly when none was.
\<close>

theorem parsed_country_set:
  "{c. Has (ParseAllowed parts) c} =
     {c. \<exists>part \<in> set parts. \<exists>sub \<in> set (split_byte CHR '','' part). part_code sub = Some c} \<and>
   (IsFull (ParseAllowed parts) \<longleftrightarrow>
     {c. Has (ParseAllowed parts) c} = {c. is_upper (fst c) \<and> is_upper (snd c)}) \<and>
   (IsEmpty (ParseAllowed parts) \<longleftrightarrow> {c. Has (ParseAllowed parts) c} = {})"
proof (intro conjI)
  show "{c. Has (ParseAllowed parts) c} =
     {c. \<exists>part \<in> set parts. \<exists>sub \<in> set (split_byte CHR '','' part). part_code sub = Some c}"
    by (simp add: ParseAllowed_spec)
  have "Has (ParseAllowed parts) c \<Longrightarrow> is_upper (fst c) \<and> is_upper (snd c)" for c
    by (simp add: Has_code_bit)
  then show "IsFull (ParseAllowed parts) \<longleftrightarrow>
     {c. Has (ParseAllowed parts) c} = {c. is_upper (fst c) \<and> is_upper (snd c)}"
    unfolding IsFull_iff [OF ParseAllowed_spec(1)] by blast
  show "IsEmpty (ParseAllowed parts) \<longleftrightarrow> {c. Has (ParseAllowed parts) c} = {}"
    unfolding IsEmpty_iff [OF ParseAllowed_spec(1)] by blast
qed

text \<open>
  compacting in place keeps exactly the addresses whose country the allow/deny verdict
  accepts, in order; the hoisted full-set test decides as the verdict itself does.
\<close>

theorem permitted_is_filter:
  "Permitted lookup ips allowed denied =
     filter (\<lambda>ip. Permits allowed denied (LookupCountry lookup ip)) ips"
  by (simp add: Permitted_def Permits_iff compact_from_start Let_def)

end
