(* ===== verification/Refresh.thy ===== *)
theory Refresh
  imports GeoSources CidrSet
begin

text \<open>
  \<^verbatim>\<open>internal/preprocess/processor.go\<close>, the downloaded tables: the geofeed, the two lazily
  built geo databases and the allow-list, each with its staleness test, its background
  reload, the guards a reload must pass before it replaces live data and its retry schedule;
  and the chain of local databases the country filter consults.

  Times and durations are nanoseconds; Go's zero time is \<open>None\<close>. The result of a download is
  an argument of the reload (\<open>Inl\<close> an error). The three tables share the contract
  \<open>refreshable\<close>: what a reload may do to the data, and when the next attempt is due.
\<close>

section \<open>Country lookups\<close>

text \<open>
  The lookups the interface ranges over here: none (\<^verbatim>\<open>nil\<close>), an index, and a chain, which
  reports no size.
\<close>

datatype country_lookup =
    NilLookup
  | Indexed indexedLookup
  | ChainLookup "country_lookup list"

fun lookup_country :: "country_lookup \<Rightarrow> addr \<Rightarrow> CountryCode"
and chain_LookupCountry :: "country_lookup list \<Rightarrow> addr \<Rightarrow> CountryCode" where
  "lookup_country NilLookup ip = no_country"
| "lookup_country (Indexed l) ip = indexed_LookupCountry l ip"
| "lookup_country (ChainLookup c) ip = chain_LookupCountry c ip"
| "chain_LookupCountry [] ip = no_country"
| "chain_LookupCountry (l # ls) ip =
     (let country = lookup_country l ip
      in if country \<noteq> no_country then country else chain_LookupCountry ls ip)"

fun lookupLen :: "country_lookup \<Rightarrow> int" where
  "lookupLen (Indexed l) = int (lookup_Len l)"
| "lookupLen _ = - 1"

section \<open>Guards and schedule\<close>

definition reloadRetryInterval :: int where
  "reloadRetryInterval = 5 * 60 * 1000000000"

definition maxRetryBackoffShift :: nat where
  "maxRetryBackoffShift = 12"

datatype refusal = PartialLoad | CatastrophicShrink

text \<open>
  The ratio test \<^verbatim>\<open>float64(loaded) < float64(current)*0.5\<close> is exact for sizes below 2 to the
  53rd, and the sizes compared here are range counts and covered IPv4 addresses.
\<close>

definition swapRefusalSize :: "nat \<Rightarrow> nat \<Rightarrow> nat \<Rightarrow> refusal option" where
  "swapRefusalSize currentSize loadedSize failed =
     (if currentSize = 0 then None
      else if failed > 0 then Some PartialLoad
      else if 2 * loadedSize < currentSize then Some CatastrophicShrink
      else None)"

definition swapRefusal :: "country_lookup \<Rightarrow> country_lookup \<Rightarrow> nat \<Rightarrow> refusal option" where
  "swapRefusal current loaded failed =
     (let currentLen = lookupLen current
      in if currentLen < 0 then None
         else swapRefusalSize (nat currentLen) (nat (max (lookupLen loaded) 0)) failed)"

definition retryDelay :: "nat \<Rightarrow> int \<Rightarrow> int" where
  "retryDelay failures interval =
     (let delay = reloadRetryInterval * 2 ^ min failures maxRetryBackoffShift
      in if interval > 0 \<and> delay > interval then interval else delay)"

section \<open>The geofeed of a processor\<close>

text \<open>\<^verbatim>\<open>GeoState\<close>, and with the interval the fields a \<^verbatim>\<open>Processor\<close> and a \<^verbatim>\<open>geoDB\<close> keep.\<close>

record GeoState =
  gs_Lookup :: country_lookup
  gs_LoadedAt :: "int option"
  gs_RetryAt :: "int option"
  gs_Failures :: nat

record geo_table =
  lookup :: country_lookup
  loadedAt :: "int option"
  retryAt :: "int option"
  reloadFailures :: nat
  interval :: int

definition scheduleRetryLocked :: "int \<Rightarrow> geo_table \<Rightarrow> geo_table" where
  "scheduleRetryLocked now p =
     (let delay = retryDelay (reloadFailures p) (interval p)
      in p\<lparr>reloadFailures := reloadFailures p + 1, retryAt := Some (now + delay)\<rparr>)"

definition geofeed_doReload :: "int \<Rightarrow> nat + Entry list \<times> nat \<Rightarrow> geo_table \<Rightarrow> geo_table" where
  "geofeed_doReload now result p =
     (case result of
        Inl _ \<Rightarrow> scheduleRetryLocked now p
      | Inr (entries, failed) \<Rightarrow>
          (let next = Indexed (NewLookup entries)
           in if swapRefusal (lookup p) next failed \<noteq> None then scheduleRetryLocked now p
              else let p' = p\<lparr>lookup := next, loadedAt := Some now\<rparr>
                   in if failed > 0 then scheduleRetryLocked now p'
                      else p'\<lparr>retryAt := None, reloadFailures := 0\<rparr>))"

definition shouldReloadGeofeedLocked :: "int \<Rightarrow> geo_table \<Rightarrow> bool" where
  "shouldReloadGeofeedLocked now p =
     (if interval p \<le> 0 then False
      else case retryAt p of
        Some r \<Rightarrow> \<not> now < r
      | None \<Rightarrow> (case loadedAt p of None \<Rightarrow> True | Some l \<Rightarrow> now - l \<ge> interval p))"

definition GeofeedState :: "geo_table \<Rightarrow> GeoState" where
  "GeofeedState p =
     \<lparr>gs_Lookup = lookup p, gs_LoadedAt = loadedAt p, gs_RetryAt = retryAt p,
      gs_Failures = reloadFailures p\<rparr>"

definition empty_index :: country_lookup where
  "empty_index = Indexed (NewLookup [])"

datatype init_error = CarriedEmpty | LoadGeofeed nat

definition initialGeofeedState ::
  "int \<Rightarrow> GeoState \<Rightarrow> Source list \<Rightarrow> int \<Rightarrow> nat + Entry list \<times> nat \<Rightarrow> init_error + GeoState" where
  "initialGeofeedState now preloaded sources refreshInterval result =
     (if gs_Lookup preloaded \<noteq> NilLookup then
        (if sources \<noteq> [] \<and> refreshInterval \<le> 0 \<and> lookupLen (gs_Lookup preloaded) = 0
         then Inl CarriedEmpty else Inr preloaded)
      else if sources = [] then
        Inr \<lparr>gs_Lookup = empty_index, gs_LoadedAt = Some now, gs_RetryAt = None, gs_Failures = 0\<rparr>
      else case result of
        Inl n \<Rightarrow>
          (if refreshInterval \<le> 0 then Inl (LoadGeofeed n)
           else Inr \<lparr>gs_Lookup = empty_index, gs_LoadedAt = None,
                     gs_RetryAt = Some (now + retryDelay 0 refreshInterval), gs_Failures = 1\<rparr>)
      | Inr (entries, failed) \<Rightarrow>
          (let armed = failed > 0 \<and> \<not> refreshInterval \<le> 0
           in Inr \<lparr>gs_Lookup = Indexed (NewLookup entries), gs_LoadedAt = Some now,
                   gs_RetryAt = (if armed then Some (now + retryDelay 0 refreshInterval) else None),
                   gs_Failures = (if armed then 1 else 0)\<rparr>))"

text \<open>The geofeed fields \<^verbatim>\<open>NewProcessor\<close> sets from the initial state.\<close>

definition processor_table :: "GeoState \<Rightarrow> Source list \<Rightarrow> int \<Rightarrow> geo_table" where
  "processor_table st sources refreshInterval =
     (let refresh = (if sources = [] then 0 else refreshInterval)
      in \<lparr>lookup = gs_Lookup st, loadedAt = gs_LoadedAt st, retryAt = gs_RetryAt st,
          reloadFailures = gs_Failures st, interval = refresh\<rparr>)"

section \<open>The geo databases\<close>

definition db_scheduleRetryLocked :: "int \<Rightarrow> geo_table \<Rightarrow> geo_table" where
  "db_scheduleRetryLocked now d =
     (let delay = retryDelay (reloadFailures d) (interval d)
      in d\<lparr>reloadFailures := reloadFailures d + 1, retryAt := Some (now + delay)\<rparr>)"

definition newGeoDB :: "int \<Rightarrow> int \<Rightarrow> GeoState \<Rightarrow> unit + Range list \<times> nat \<Rightarrow> geo_table" where
  "newGeoDB now intv preloaded result =
     (let d = \<lparr>lookup = NilLookup, loadedAt = None, retryAt = None, reloadFailures = 0,
               interval = intv\<rparr>
      in if gs_Lookup preloaded \<noteq> NilLookup then
           d\<lparr>lookup := gs_Lookup preloaded, loadedAt := gs_LoadedAt preloaded,
             retryAt := gs_RetryAt preloaded, reloadFailures := gs_Failures preloaded\<rparr>
         else case result of
           Inl _ \<Rightarrow> db_scheduleRetryLocked now (d\<lparr>lookup := Indexed (NewRangeLookup [])\<rparr>)
         | Inr (rs, failed) \<Rightarrow>
             (let d' = (if failed > 0 then db_scheduleRetryLocked now d else d)
              in d'\<lparr>lookup := Indexed (NewRangeLookup rs), loadedAt := Some now\<rparr>))"

definition db_doReload :: "int \<Rightarrow> unit + Range list \<times> nat \<Rightarrow> geo_table \<Rightarrow> geo_table" where
  "db_doReload now result d =
     (case result of
        Inl _ \<Rightarrow> db_scheduleRetryLocked now d
      | Inr (rs, failed) \<Rightarrow>
          (let next = Indexed (NewRangeLookup rs)
           in if swapRefusal (lookup d) next failed \<noteq> None then db_scheduleRetryLocked now d
              else let d' = d\<lparr>lookup := next, loadedAt := Some now\<rparr>
                   in if failed > 0 then db_scheduleRetryLocked now d'
                      else d'\<lparr>retryAt := None, reloadFailures := 0\<rparr>))"

definition db_staleLocked :: "int \<Rightarrow> geo_table \<Rightarrow> bool" where
  "db_staleLocked now d =
     (if interval d \<le> 0 then False
      else case retryAt d of
        Some r \<Rightarrow> \<not> now < r
      | None \<Rightarrow> (case loadedAt d of None \<Rightarrow> True | Some l \<Rightarrow> now - l \<ge> interval d))"

definition db_state :: "geo_table \<Rightarrow> GeoState" where
  "db_state d =
     \<lparr>gs_Lookup = lookup d, gs_LoadedAt = loadedAt d, gs_RetryAt = retryAt d,
      gs_Failures = reloadFailures d\<rparr>"

section \<open>The allow-list\<close>

record CIDRState =
  cs_Set :: cidr_set
  cs_LoadedAt :: "int option"
  cs_RetryAt :: "int option"
  cs_Failures :: nat

record cidrStore =
  cset :: cidr_set
  c_loadedAt :: "int option"
  c_retryAt :: "int option"
  c_reloadFailures :: nat
  c_interval :: int

definition cidr_scheduleRetryLocked :: "int \<Rightarrow> cidrStore \<Rightarrow> cidrStore" where
  "cidr_scheduleRetryLocked now s =
     (let delay = retryDelay (c_reloadFailures s) (c_interval s)
      in s\<lparr>c_reloadFailures := c_reloadFailures s + 1, c_retryAt := Some (now + delay)\<rparr>)"

datatype cidr_error = LoadAllowList load_error | EmptyCIDRSet

definition newCIDRStore ::
  "int \<Rightarrow> int \<Rightarrow> CIDRState \<Rightarrow> load_error + cidr_set \<times> nat \<Rightarrow> cidr_error + cidrStore" where
  "newCIDRStore now intv preloaded result =
     (let s = \<lparr>cset = \<lparr>ranges = [], covered = 0\<rparr>, c_loadedAt = None, c_retryAt = None,
               c_reloadFailures = 0, c_interval = intv\<rparr>
      in if Len (cs_Set preloaded) > 0 then
           Inr (s\<lparr>cset := cs_Set preloaded, c_loadedAt := cs_LoadedAt preloaded,
                  c_retryAt := cs_RetryAt preloaded, c_reloadFailures := cs_Failures preloaded\<rparr>)
         else case result of
           Inl e \<Rightarrow> Inl (LoadAllowList e)
         | Inr (set', failed) \<Rightarrow>
             (if Len set' = 0 then Inl EmptyCIDRSet
              else let s' = (if failed > 0 then cidr_scheduleRetryLocked now s else s)
                   in Inr (s'\<lparr>cset := set', c_loadedAt := Some now\<rparr>)))"

definition cidr_doReload :: "int \<Rightarrow> load_error + cidr_set \<times> nat \<Rightarrow> cidrStore \<Rightarrow> cidrStore" where
  "cidr_doReload now result s =
     (case result of
        Inl _ \<Rightarrow> cidr_scheduleRetryLocked now s
      | Inr (next, failed) \<Rightarrow>
          (if swapRefusalSize (unat (Covered (cset s))) (unat (Covered next)) failed \<noteq> None
           then cidr_scheduleRetryLocked now s
           else let s' = s\<lparr>cset := next, c_loadedAt := Some now\<rparr>
                in if failed > 0 then cidr_scheduleRetryLocked now s'
                   else s'\<lparr>c_retryAt := None, c_reloadFailures := 0\<rparr>))"

definition cidr_staleLocked :: "int \<Rightarrow> cidrStore \<Rightarrow> bool" where
  "cidr_staleLocked now s =
     (if c_interval s \<le> 0 then False
      else case c_retryAt s of
        Some r \<Rightarrow> \<not> now < r
      | None \<Rightarrow> (case c_loadedAt s of None \<Rightarrow> True | Some l \<Rightarrow> now - l \<ge> c_interval s))"

definition cidr_state :: "cidrStore \<Rightarrow> CIDRState" where
  "cidr_state s =
     \<lparr>cs_Set = cset s, cs_LoadedAt = c_loadedAt s, cs_RetryAt = c_retryAt s,
      cs_Failures = c_reloadFailures s\<rparr>"

section \<open>Background reloads\<close>

text \<open>
  \<^verbatim>\<open>maybeRefresh\<close> (and \<^verbatim>\<open>currentEntries\<close>) on a request: a stale table whose reload lock is
  free starts one reload in the background; the reload takes the lock, runs \<^verbatim>\<open>doReload\<close>
  under the table's lock when its download ends, and frees it. The state is the table with
  the flag of the reload lock.
\<close>

datatype 'r refresh_event = Request int | Downloaded int 'r

fun refresh_step ::
  "(int \<Rightarrow> 's \<Rightarrow> bool) \<Rightarrow> (int \<Rightarrow> 'r \<Rightarrow> 's \<Rightarrow> 's) \<Rightarrow> 'r refresh_event \<Rightarrow> 's \<times> bool \<Rightarrow> 's \<times> bool" where
  "refresh_step stale reload (Request now) (s, busy) = (s, busy \<or> stale now s)"
| "refresh_step stale reload (Downloaded now r) (s, busy) =
     (if busy then (reload now r s, False) else (s, busy))"

section \<open>The order of the country chain\<close>

record AnnotateSpec =
  Tag :: string
  Providers :: "string list"

definition localCountryProvider :: "string \<Rightarrow> bool \<Rightarrow> bool \<Rightarrow> bool" where
  "localCountryProvider prov haveDBIP haveRegistry =
     (if prov = ''geofeed'' then True
      else if prov = ''dbip'' then haveDBIP
      else if prov = ''registry'' then haveRegistry
      else False)"

fun chain_providers :: "bool \<Rightarrow> bool \<Rightarrow> string list \<Rightarrow> string list \<Rightarrow> string list" where
  "chain_providers haveDBIP haveRegistry buf [] = buf"
| "chain_providers haveDBIP haveRegistry buf (prov # ps) =
     (if \<not> localCountryProvider prov haveDBIP haveRegistry \<or> prov \<in> set buf
      then chain_providers haveDBIP haveRegistry buf ps
      else chain_providers haveDBIP haveRegistry (buf @ [prov]) ps)"

fun chain_specs :: "bool \<Rightarrow> bool \<Rightarrow> string list \<Rightarrow> AnnotateSpec list \<Rightarrow> string list" where
  "chain_specs haveDBIP haveRegistry buf [] = buf"
| "chain_specs haveDBIP haveRegistry buf (a # as) =
     (if Tag a \<noteq> ''GEO'' then chain_specs haveDBIP haveRegistry buf as
      else chain_specs haveDBIP haveRegistry
             (chain_providers haveDBIP haveRegistry buf (Providers a)) as)"

definition countryChainOrder :: "AnnotateSpec list \<Rightarrow> bool \<Rightarrow> bool \<Rightarrow> string list" where
  "countryChainOrder annotate haveDBIP haveRegistry =
     (let buf = chain_specs haveDBIP haveRegistry [] annotate
      in if buf = [] \<or> buf = [''geofeed''] then [] else buf)"

definition countryChain ::
  "string list \<Rightarrow> country_lookup \<Rightarrow> country_lookup \<Rightarrow> country_lookup \<Rightarrow> country_lookup" where
  "countryChain countryOrder geofeed dbip registry =
     (if countryOrder = [] then geofeed
      else ChainLookup (map (\<lambda>name. if name = ''dbip'' then dbip
                                    else if name = ''registry'' then registry
                                    else geofeed) countryOrder))"

section \<open>The contract of a refreshable table\<close>

definition refresh_due :: "int \<Rightarrow> int option \<Rightarrow> int option \<Rightarrow> int \<Rightarrow> bool" where
  "refresh_due now retry loaded intv \<longleftrightarrow>
     intv > 0 \<and>
     (case retry of
        Some r \<Rightarrow> r \<le> now
      | None \<Rightarrow> (case loaded of None \<Rightarrow> True | Some l \<Rightarrow> l + intv \<le> now))"

locale refreshable =
  fixes tdata :: "'s \<Rightarrow> 'd"
    and tsize :: "'d \<Rightarrow> nat"
    and tloaded tretry :: "'s \<Rightarrow> int option"
    and tfails :: "'s \<Rightarrow> nat"
    and tinterval :: "'s \<Rightarrow> int"
    and fetched :: "'r \<Rightarrow> ('d \<times> nat) option"
    and reload :: "int \<Rightarrow> 'r \<Rightarrow> 's \<Rightarrow> 's"
    and stale :: "int \<Rightarrow> 's \<Rightarrow> bool"
  assumes reload_interval [simp]: "tinterval (reload now r s) = tinterval s"
    and reload_rejected:
      "(case fetched r of None \<Rightarrow> True
        | Some (d, f) \<Rightarrow> swapRefusalSize (tsize (tdata s)) (tsize d) f \<noteq> None) \<Longrightarrow>
       tdata (reload now r s) = tdata s \<and> tloaded (reload now r s) = tloaded s \<and>
       tretry (reload now r s) = Some (now + retryDelay (tfails s) (tinterval s)) \<and>
       tfails (reload now r s) = tfails s + 1"
    and reload_accepted:
      "fetched r = Some (d, f) \<Longrightarrow> swapRefusalSize (tsize (tdata s)) (tsize d) f = None \<Longrightarrow>
       tdata (reload now r s) = d \<and> tloaded (reload now r s) = Some now \<and>
       (if f > 0
        then tretry (reload now r s) = Some (now + retryDelay (tfails s) (tinterval s)) \<and>
             tfails (reload now r s) = tfails s + 1
        else tretry (reload now r s) = None \<and> tfails (reload now r s) = 0)"
    and stale_due: "stale now s \<longleftrightarrow> refresh_due now (tretry s) (tloaded s) (tinterval s)"
begin

definition reload_run :: "(int \<times> 'r) list \<Rightarrow> 's \<Rightarrow> 's" where
  "reload_run = fold (\<lambda>(now, r) s. reload now r s)"

text \<open>One reload: the data stays, or it is replaced by a complete download at least half its size.\<close>

lemma reload_guard:
  "tdata (reload now r s) = tdata s \<or>
     (\<exists>d f. fetched r = Some (d, f) \<and> tdata (reload now r s) = d \<and>
        (tsize (tdata s) > 0 \<longrightarrow> f = 0 \<and> tsize (tdata s) \<le> 2 * tsize d))"
proof (cases "fetched r")
  case None
  with reload_rejected [where r = r and s = s and now = now] show ?thesis by simp
next
  case (Some x)
  obtain d f where x: "x = (d, f)" by fastforce
  show ?thesis
  proof (cases "swapRefusalSize (tsize (tdata s)) (tsize d) f")
    case None
    with Some x reload_accepted [where r = r and s = s and now = now and d = d and f = f] show ?thesis
      by (auto simp: swapRefusalSize_def split: if_splits)
  next
    case (Some e)
    with \<open>fetched r = Some x\<close> x reload_rejected [where r = r and s = s and now = now] show ?thesis by simp
  qed
qed

lemma reload_positive: "tsize (tdata s) > 0 \<Longrightarrow> tsize (tdata (reload now r s)) > 0"
  using reload_guard [of now r s] by auto

text \<open>However many reloads run, data that was there is never lost.\<close>

lemma run_positive: "tsize (tdata s) > 0 \<Longrightarrow> tsize (tdata (reload_run rs s)) > 0"
  by (induction rs arbitrary: s) (auto simp: reload_run_def reload_positive)

text \<open>An attempt that left anything to be done is due again exactly after its back-off.\<close>

lemma retry_due:
  assumes "tretry (reload now r s) \<noteq> None" "0 < tinterval s"
  shows "stale t (reload now r s) \<longleftrightarrow> now + retryDelay (tfails s) (tinterval s) \<le> t"
proof -
  have "tretry (reload now r s) = Some (now + retryDelay (tfails s) (tinterval s))"
  proof (cases "case fetched r of None \<Rightarrow> True
      | Some (d, f) \<Rightarrow> swapRefusalSize (tsize (tdata s)) (tsize d) f \<noteq> None")
    case True
    with reload_rejected show ?thesis by blast
  next
    case False
    then obtain d f where "fetched r = Some (d, f)"
        "swapRefusalSize (tsize (tdata s)) (tsize d) f = None"
      by (auto split: option.splits prod.splits)
    with reload_accepted [where r = r and s = s and now = now and d = d and f = f] assms(1) show ?thesis by (auto split: if_splits)
  qed
  with assms(2) show ?thesis by (simp add: stale_due refresh_due_def)
qed

text \<open>A clean reload is fresh for a whole interval.\<close>

lemma clean_due:
  assumes "tretry (reload now r s) = None" "0 < tinterval s"
  shows "stale t (reload now r s) \<longleftrightarrow> now + tinterval s \<le> t"
proof -
  have acc: "\<exists>d f. fetched r = Some (d, f) \<and> swapRefusalSize (tsize (tdata s)) (tsize d) f = None"
  proof (rule ccontr)
    assume "\<not> ?thesis"
    then have "case fetched r of None \<Rightarrow> True
        | Some (d, f) \<Rightarrow> swapRefusalSize (tsize (tdata s)) (tsize d) f \<noteq> None"
      by (auto split: option.splits)
    from reload_rejected [OF this, of now] assms(1) show False by simp
  qed
  then obtain d f where df: "fetched r = Some (d, f)"
      "swapRefusalSize (tsize (tdata s)) (tsize d) f = None" by blast
  with reload_accepted [OF df, of now] assms show ?thesis
    by (auto simp: stale_due refresh_due_def split: if_splits)
qed

end

lemma retryDelay_eq:
  "0 < intv \<Longrightarrow> retryDelay n intv = min intv (300000000000 * 2 ^ min n 12)"
  by (simp add: retryDelay_def reloadRetryInterval_def maxRetryBackoffShift_def Let_def min_def)

lemma retryDelay_bounds: "0 < intv \<Longrightarrow> 0 < retryDelay n intv \<and> retryDelay n intv \<le> intv"
  by (simp add: retryDelay_eq)

text \<open>The size of a lookup, as the swap guard measures it.\<close>

definition lookup_size :: "country_lookup \<Rightarrow> nat" where
  "lookup_size l = nat (max (lookupLen l) 0)"

lemma lookupLen_ge: "- 1 \<le> lookupLen l"
  by (cases l rule: lookupLen.cases) auto

lemma swapRefusal_size:
  "swapRefusal current loaded failed = swapRefusalSize (lookup_size current) (lookup_size loaded) failed"
  using lookupLen_ge [of current]
  by (auto simp: swapRefusal_def lookup_size_def swapRefusalSize_def Let_def max_def)

definition geofeed_fetched :: "nat + Entry list \<times> nat \<Rightarrow> (country_lookup \<times> nat) option" where
  "geofeed_fetched r =
     (case r of Inl _ \<Rightarrow> None | Inr (entries, f) \<Rightarrow> Some (Indexed (NewLookup entries), f))"

definition db_fetched :: "unit + Range list \<times> nat \<Rightarrow> (country_lookup \<times> nat) option" where
  "db_fetched r =
     (case r of Inl _ \<Rightarrow> None | Inr (rs, f) \<Rightarrow> Some (Indexed (NewRangeLookup rs), f))"

definition cidr_fetched :: "load_error + cidr_set \<times> nat \<Rightarrow> (cidr_set \<times> nat) option" where
  "cidr_fetched r = (case r of Inl _ \<Rightarrow> None | Inr x \<Rightarrow> Some x)"

interpretation geofeed_table: refreshable lookup lookup_size loadedAt retryAt reloadFailures interval
  geofeed_fetched geofeed_doReload shouldReloadGeofeedLocked
  by unfold_locales
     (auto simp: geofeed_doReload_def scheduleRetryLocked_def geofeed_fetched_def swapRefusal_size
       shouldReloadGeofeedLocked_def refresh_due_def Let_def split: sum.splits prod.splits option.splits,
      (rule ccontr, simp)+)

interpretation db_table: refreshable lookup lookup_size loadedAt retryAt reloadFailures interval
  db_fetched db_doReload db_staleLocked
  by unfold_locales
     (auto simp: db_doReload_def db_scheduleRetryLocked_def db_fetched_def swapRefusal_size
       db_staleLocked_def refresh_due_def Let_def split: sum.splits prod.splits option.splits,
      (rule ccontr, simp)+)

interpretation cidr_table: refreshable cset "\<lambda>s. unat (Covered s)" c_loadedAt c_retryAt
  c_reloadFailures c_interval cidr_fetched cidr_doReload cidr_staleLocked
  by unfold_locales
     (auto simp: cidr_doReload_def cidr_scheduleRetryLocked_def cidr_fetched_def
       cidr_staleLocked_def refresh_due_def Let_def split: sum.splits prod.splits option.splits,
      (rule ccontr, simp)+)

section \<open>The chain\<close>

lemma chain_providers_eq:
  "distinct buf \<Longrightarrow>
     chain_providers d r buf ps = buf @ filter (\<lambda>p. p \<notin> set buf)
       (rev (remdups (rev (filter (\<lambda>p. localCountryProvider p d r) ps))))"
proof (induction d r buf ps rule: chain_providers.induct)
  case (2 d r buf p ps)
  let ?k = "\<lambda>p. localCountryProvider p d r"
  have first: "rev (remdups (rev (x # xs))) = x # filter (\<lambda>y. y \<noteq> x) (rev (remdups (rev xs)))"
    for x :: string and xs
  proof -
    have "remdups (ys @ [x]) = filter (\<lambda>y. y \<noteq> x) (remdups ys) @ [x]" for ys
      by (induction ys) (auto simp: filter_empty_conv)
    then show ?thesis by (simp add: rev_filter)
  qed
  show ?case
  proof (cases "\<not> ?k p \<or> p \<in> set buf")
    case True
    then have "filter (\<lambda>q. q \<notin> set buf) (rev (remdups (rev (filter ?k (p # ps)))))
        = filter (\<lambda>q. q \<notin> set buf) (rev (remdups (rev (filter ?k ps))))"
      using first [of p "filter ?k ps"] by (auto intro!: filter_cong)
    with True 2 show ?thesis by auto
  next
    case False
    then have "filter (\<lambda>q. q \<notin> set buf) (rev (remdups (rev (filter ?k (p # ps)))))
        = p # filter (\<lambda>q. q \<notin> set (buf @ [p])) (rev (remdups (rev (filter ?k ps))))"
      using first [of p "filter ?k ps"] by (auto intro!: filter_cong)
    with False 2 show ?thesis by simp
  qed
qed simp

lemma chain_specs_eq:
  "distinct buf \<Longrightarrow>
     chain_specs d r buf specs = chain_providers d r buf
       (concat (map Providers (filter (\<lambda>a. Tag a = ''GEO'') specs)))"
proof (induction d r buf specs rule: chain_specs.induct)
  case (2 d r buf a specs)
  have app: "chain_providers d r (chain_providers d r b ps) qs = chain_providers d r b (ps @ qs)"
    for b ps qs
    by (induction d r b ps rule: chain_providers.induct) auto
  have "distinct (chain_providers d r buf (Providers a))"
    using "2.prems" by (auto simp: chain_providers_eq)
  with 2 show ?case by (auto simp: app)
qed simp

lemma chain_answer:
  "chain_LookupCountry ls ip =
     (case find (\<lambda>l. lookup_country l ip \<noteq> no_country) ls of
        None \<Rightarrow> no_country | Some l \<Rightarrow> lookup_country l ip)"
  by (induction ls) (auto simp: Let_def)

section \<open>Properties\<close>

text \<open>
  C23: an instance that started from a downloaded allow-list never runs with an empty one:
  after any number of background reloads, whatever they downloaded and however they failed,
  the list still admits some address.
\<close>

theorem allow_list_never_empties:
  assumes "newCIDRStore now intv preloaded (Load fetchBytes urls) = Inr s"
    and "Len (cs_Set preloaded) = 0"
  shows "0 < unat (Covered (cset (cidr_table.reload_run rs s)))"
proof (rule cidr_table.run_positive)
  show "0 < unat (Covered (cset s))"
    using assms Load_Covered
    by (auto simp: newCIDRStore_def Let_def cidr_scheduleRetryLocked_def
        split: sum.splits if_splits)
qed

theorem allow_list_never_empties_witness:
  "\<exists>s. newCIDRStore 0 60 \<lparr>cs_Set = \<lparr>ranges = [], covered = 0\<rparr>, cs_LoadedAt = None,
          cs_RetryAt = None, cs_Failures = 0\<rparr> (Load (\<lambda>u. Some ''9.9.9.9'') [''u'']) = Inr s \<and>
       0 < unat (Covered (cset (cidr_table.reload_run [(5, Inl (NoRangesLoaded 1)),
            (9, Inr (\<lparr>ranges = [], covered = 0\<rparr>, 0))] s)))"
proof -
  let ?p = "\<lparr>cs_Set = \<lparr>ranges = [], covered = 0\<rparr>, cs_LoadedAt = None, cs_RetryAt = None,
      cs_Failures = 0\<rparr>"
  let ?l = "Load (\<lambda>u. Some ''9.9.9.9'') [''u'']"
  have one: "parseLine ''9.9.9.9'' = Some \<lparr>lo = 0x09090909, hi = 0x09090909\<rparr>"
    by (simp add: parseLine_def CidrSet.addrToUint32_def model_defs)
  have "lines ''9.9.9.9'' = [''9.9.9.9'']"
    by (simp add: lines_eq_kept kept_lines_def wanted_def trim_space_id graphic_def)
  with one have p: "parseRanges ''9.9.9.9'' = ([\<lparr>lo = 0x09090909, hi = 0x09090909\<rparr>], 0)"
    by (simp add: parseRanges_eq map_filter_simps)
  then have "?l = Inr (newSet [\<lparr>lo = 0x09090909, hi = 0x09090909\<rparr>], 0)"
    by (simp add: Load_def)
  moreover have "Len (newSet [\<lparr>lo = 0x09090909, hi = 0x09090909\<rparr>]) \<noteq> 0"
    by (simp add: Len_def newSet_ranges)
  ultimately obtain s where s: "newCIDRStore 0 60 ?p ?l = Inr s"
    by (simp add: newCIDRStore_def Len_def)
  from allow_list_never_empties [OF s] show ?thesis using s by (auto simp: Len_def)
qed

text \<open>
  C30: a reload of a geo database leaves the live lookup in place, or installs a freshly
  indexed download; and where the live lookup answered anything, the download was complete
  and at least half its size.
\<close>

theorem geo_reload_guard:
  "lookup (db_doReload now r d) = lookup d \<or>
   (\<exists>rs failed. r = Inr (rs, failed) \<and>
      lookup (db_doReload now r d) = Indexed (NewRangeLookup rs) \<and>
      (lookup_size (lookup d) = 0 \<or>
       failed = 0 \<and> lookup_size (lookup d) \<le> 2 * lookup_size (Indexed (NewRangeLookup rs))))"
  using db_table.reload_guard [of now r d]
  by (auto simp: db_fetched_def split: sum.splits)

text \<open>
  while a failed, refused or partial reload backs off, no request starts another
  download, so any number of requests within the delay leave the table untouched and idle.
\<close>

theorem no_download_during_backoff:
  assumes "0 < interval d" and "retryAt (db_doReload now r d) \<noteq> None"
    and "\<forall>t \<in> set ts. t < now + retryDelay (reloadFailures d) (interval d)"
  shows "fold (refresh_step db_staleLocked db_doReload) (Downloaded now r # map Request ts) (d, True)
    = (db_doReload now r d, False)"
proof -
  have "\<not> db_staleLocked t (db_doReload now r d)" if "t \<in> set ts" for t
    using assms that db_table.retry_due [of now r d t] by auto
  then have "fold (refresh_step db_staleLocked db_doReload) (map Request ts)
      (db_doReload now r d, False) = (db_doReload now r d, False)"
    by (induction ts) auto
  then show ?thesis by simp
qed

theorem no_download_during_backoff_witness:
  "fold (refresh_step db_staleLocked db_doReload)
     (Downloaded 50 (Inl ()) # map Request [60, 300000000049])
     (\<lparr>lookup = NilLookup, loadedAt = None, retryAt = None, reloadFailures = 0,
       interval = 86400000000000\<rparr>, True)
   = (db_doReload 50 (Inl ()) \<lparr>lookup = NilLookup, loadedAt = None, retryAt = None,
        reloadFailures = 0, interval = 86400000000000\<rparr>, False)"
  by (rule no_download_during_backoff)
     (auto simp: db_doReload_def db_scheduleRetryLocked_def retryDelay_eq)

text \<open>
  after a geofeed reload that left something to be done, the next one is due exactly when
  the back-off ends: five minutes doubled for each failure in a row, twelve times at most,
  and never longer than the refresh interval.
\<close>

theorem geofeed_backoff_schedule:
  assumes "0 < interval p" and "retryAt (geofeed_doReload now r p) \<noteq> None"
  shows "shouldReloadGeofeedLocked t (geofeed_doReload now r p) \<longleftrightarrow>
     now + min (interval p) (300000000000 * 2 ^ min (reloadFailures p) 12) \<le> t"
  using geofeed_table.retry_due [OF assms(2,1), of t] retryDelay_eq [OF assms(1)] by simp

theorem geofeed_backoff_schedule_witness:
  "shouldReloadGeofeedLocked 1000 (geofeed_doReload 7 (Inl 1)
      \<lparr>lookup = NilLookup, loadedAt = None, retryAt = None, reloadFailures = 3, interval = 900\<rparr>)
   \<longleftrightarrow> 7 + min 900 (300000000000 * 2 ^ min (3 :: nat) 12) \<le> (1000 :: int)"
  using geofeed_backoff_schedule [of "\<lparr>lookup = NilLookup, loadedAt = None, retryAt = None,
      reloadFailures = 3, interval = 900\<rparr>" 7 "Inl 1" 1000]
  by (simp add: geofeed_doReload_def scheduleRetryLocked_def)

lemma country_chain_eq:
  "lookup_country (countryChain (countryChainOrder annotate haveDBIP haveRegistry) geofeed dbip registry) ip =
   (let named = rev (remdups (rev (filter (\<lambda>p. localCountryProvider p haveDBIP haveRegistry)
           (concat (map Providers (filter (\<lambda>a. Tag a = ''GEO'') annotate))))));
        pick = (\<lambda>name. if name = ''dbip'' then dbip else if name = ''registry'' then registry
                       else geofeed)
    in case find (\<lambda>l. lookup_country l ip \<noteq> no_country)
              (map pick (if named = [] then [''geofeed''] else named)) of
         None \<Rightarrow> no_country
       | Some l \<Rightarrow> lookup_country l ip)"
proof -
  define named where "named = rev (remdups (rev (filter (\<lambda>p. localCountryProvider p haveDBIP haveRegistry)
           (concat (map Providers (filter (\<lambda>a. Tag a = ''GEO'') annotate))))))"
  have "countryChainOrder annotate haveDBIP haveRegistry =
      (if named = [] \<or> named = [''geofeed''] then [] else named)"
    by (simp add: countryChainOrder_def chain_specs_eq chain_providers_eq named_def Let_def)
  then show ?thesis
    unfolding Let_def named_def [symmetric]
    by (auto simp: countryChain_def chain_answer)
qed

text \<open>
  the country filter resolves an address through every local database the GEO entries
  name, in the order written and each once, and takes the first answer; with none named, the
  geofeed alone.
\<close>

theorem country_chain_first_answer:
  "lookup_country (countryChain (countryChainOrder annotate haveDBIP haveRegistry) geofeed dbip registry) ip =
   (let named = rev (remdups (rev (filter (\<lambda>p. localCountryProvider p haveDBIP haveRegistry)
           (concat (map Providers (filter (\<lambda>a. Tag a = ''GEO'') annotate))))));
        pick = (\<lambda>name. if name = ''dbip'' then dbip else if name = ''registry'' then registry
                       else geofeed)
    in case find (\<lambda>l. lookup_country l ip \<noteq> no_country)
              (map pick (if named = [] then [''geofeed''] else named)) of
         None \<Rightarrow> no_country
       | Some l \<Rightarrow> lookup_country l ip)"
  by (rule country_chain_eq)

end
