(* ===== verification/GoJson.thy ===== *)
theory GoJson
  imports Prelude
begin

text \<open>
  The part of Go's \<^verbatim>\<open>encoding/json\<close> and \<^verbatim>\<open>unicode/utf8\<close> the share-link parser relies on:
  \<^verbatim>\<open>json.Valid\<close> as the byte-at-a-time scanner it is, with its explicit stack; the decoding of a
  JSON string literal into a Go string; and the encoding of a Go string as a literal, with
  the HTML escapes \<^verbatim>\<open>json.Marshal\<close> applies.
\<close>

section \<open>The scanner\<close>

datatype container = ObjectKey | ObjectValue | ArrayValue

datatype scan_step =
    BeginValue | BeginValueOrEmpty | BeginString | BeginStringOrEmpty
  | EndValue | EndTop
  | InString | InStringEsc | InStringEscU nat
  | Neg | Digits1 | Zero0 | Dot | Dot0 | Exp | ExpSign | Exp0
  | Literal string

type_synonym scanner = "scan_step \<times> container list"

definition maxNestingDepth :: nat where
  "maxNestingDepth = 10000"

definition json_space :: "char \<Rightarrow> bool" where
  "json_space c \<longleftrightarrow> c = CHR '' '' \<or> c = CHR 0x09 \<or> c = CHR 0x0D \<or> c = CHR 0x0A"

definition is_hex :: "char \<Rightarrow> bool" where
  "is_hex c \<longleftrightarrow> is_digit c \<or> 97 \<le> byte c \<and> byte c \<le> 102 \<or> 65 \<le> byte c \<and> byte c \<le> 70"

definition push_container :: "container \<Rightarrow> scan_step \<Rightarrow> container list \<Rightarrow> scanner option" where
  "push_container p next st =
     (if length st + 1 \<le> maxNestingDepth then Some (next, p # st) else None)"

definition pop_container :: "container list \<Rightarrow> scanner" where
  "pop_container st = (if tl st = [] then (EndTop, []) else (EndValue, tl st))"

definition end_value :: "container list \<Rightarrow> char \<Rightarrow> scanner option" where
  "end_value st c =
     (case st of
        [] \<Rightarrow> (if json_space c then Some (EndTop, []) else None)
      | p # rest \<Rightarrow>
          (if json_space c then Some (EndValue, st)
           else case p of
             ObjectKey \<Rightarrow> (if c = CHR '':'' then Some (BeginValue, ObjectValue # rest) else None)
           | ObjectValue \<Rightarrow>
               (if c = CHR '','' then Some (BeginString, ObjectKey # rest)
                else if c = CHR 0x7D then Some (pop_container st) else None)
           | ArrayValue \<Rightarrow>
               (if c = CHR '','' then Some (BeginValue, st)
                else if c = CHR '']'' then Some (pop_container st) else None)))"

definition begin_value :: "container list \<Rightarrow> char \<Rightarrow> scanner option" where
  "begin_value st c =
     (if json_space c then Some (BeginValue, st)
      else if c = CHR 0x7B then push_container ObjectKey BeginStringOrEmpty st
      else if c = CHR ''['' then push_container ArrayValue BeginValueOrEmpty st
      else if c = CHR 0x22 then Some (InString, st)
      else if c = CHR ''-'' then Some (Neg, st)
      else if c = CHR ''0'' then Some (Zero0, st)
      else if c = CHR ''t'' then Some (Literal ''rue'', st)
      else if c = CHR ''f'' then Some (Literal ''alse'', st)
      else if c = CHR ''n'' then Some (Literal ''ull'', st)
      else if is_digit c then Some (Digits1, st)
      else None)"

definition begin_string :: "container list \<Rightarrow> char \<Rightarrow> scanner option" where
  "begin_string st c =
     (if json_space c then Some (BeginString, st)
      else if c = CHR 0x22 then Some (InString, st) else None)"

fun scan :: "scanner \<Rightarrow> char \<Rightarrow> scanner option" where
  "scan (BeginValue, st) c = begin_value st c"
| "scan (BeginValueOrEmpty, st) c =
     (if json_space c then Some (BeginValueOrEmpty, st)
      else if c = CHR '']'' then end_value st c else begin_value st c)"
| "scan (BeginString, st) c = begin_string st c"
| "scan (BeginStringOrEmpty, st) c =
     (if json_space c then Some (BeginStringOrEmpty, st)
      else if c = CHR 0x7D then end_value (ObjectValue # tl st) c else begin_string st c)"
| "scan (EndValue, st) c = end_value st c"
| "scan (EndTop, st) c = (if json_space c then Some (EndTop, st) else None)"
| "scan (InString, st) c =
     (if c = CHR 0x22 then Some (EndValue, st)
      else if c = CHR 0x5C then Some (InStringEsc, st)
      else if byte c < 32 then None else Some (InString, st))"
| "scan (InStringEsc, st) c =
     (if c \<in> set ''bfnrt/'' \<or> c = CHR 0x5C \<or> c = CHR 0x22 then Some (InString, st)
      else if c = CHR ''u'' then Some (InStringEscU 3, st) else None)"
| "scan (InStringEscU n, st) c =
     (if is_hex c then Some (if n = 0 then InString else InStringEscU (n - 1), st) else None)"
| "scan (Neg, st) c =
     (if c = CHR ''0'' then Some (Zero0, st) else if is_digit c then Some (Digits1, st) else None)"
| "scan (Digits1, st) c =
     (if is_digit c then Some (Digits1, st)
      else if c = CHR ''.'' then Some (Dot, st)
      else if c = CHR ''e'' \<or> c = CHR ''E'' then Some (Exp, st) else end_value st c)"
| "scan (Zero0, st) c =
     (if c = CHR ''.'' then Some (Dot, st)
      else if c = CHR ''e'' \<or> c = CHR ''E'' then Some (Exp, st) else end_value st c)"
| "scan (Dot, st) c = (if is_digit c then Some (Dot0, st) else None)"
| "scan (Dot0, st) c =
     (if is_digit c then Some (Dot0, st)
      else if c = CHR ''e'' \<or> c = CHR ''E'' then Some (Exp, st) else end_value st c)"
| "scan (Exp, st) c =
     (if c = CHR ''+'' \<or> c = CHR ''-'' then Some (ExpSign, st)
      else if is_digit c then Some (Exp0, st) else None)"
| "scan (ExpSign, st) c = (if is_digit c then Some (Exp0, st) else None)"
| "scan (Exp0, st) c = (if is_digit c then Some (Exp0, st) else end_value st c)"
| "scan (Literal w, st) c =
     (if w \<noteq> [] \<and> c = hd w
      then Some (if tl w = [] then EndValue else Literal (tl w), st) else None)"

fun scan_all :: "scanner \<Rightarrow> string \<Rightarrow> scanner option" where
  "scan_all s [] = Some s"
| "scan_all s (c # cs) = (case scan s c of None \<Rightarrow> None | Some s' \<Rightarrow> scan_all s' cs)"

text \<open>
  \<^verbatim>\<open>eof\<close>: the document is complete, or a space completes it. The scanner sets its \<^verbatim>\<open>endTop\<close> flag
  exactly when it enters \<^verbatim>\<open>stateEndTop\<close>, which it never leaves.
\<close>

definition at_end :: "scanner \<Rightarrow> bool" where
  "at_end s \<longleftrightarrow> fst s = EndTop \<or> (case scan s CHR '' '' of Some s' \<Rightarrow> fst s' = EndTop | None \<Rightarrow> False)"

definition json_valid :: "string \<Rightarrow> bool" where
  "json_valid data = (case scan_all (BeginValue, []) data of None \<Rightarrow> False | Some s \<Rightarrow> at_end s)"

section \<open>UTF-8\<close>

definition runeError :: nat where
  "runeError = 65533"

definition cont :: "char \<Rightarrow> bool" where
  "cont c \<longleftrightarrow> 128 \<le> byte c \<and> byte c \<le> 191"

text \<open>\<^verbatim>\<open>utf8.DecodeRune\<close> of a non-empty string: the rune and its width, \<^verbatim>\<open>RuneError\<close> of width 1 on error.\<close>

definition decode_rune :: "string \<Rightarrow> nat \<times> nat" where
  "decode_rune s =
     (case s of
        [] \<Rightarrow> (runeError, 0)
      | a # t \<Rightarrow>
          (let b0 = byte a
           in if b0 < 128 then (b0, 1)
              else if 194 \<le> b0 \<and> b0 \<le> 223 then
                (case t of
                   b # _ \<Rightarrow> (if cont b then ((b0 - 192) * 64 + (byte b - 128), 2) else (runeError, 1))
                 | _ \<Rightarrow> (runeError, 1))
              else if 224 \<le> b0 \<and> b0 \<le> 239 then
                (case t of
                   b # c # _ \<Rightarrow>
                     (if cont b \<and> (b0 = 224 \<longrightarrow> 160 \<le> byte b) \<and> (b0 = 237 \<longrightarrow> byte b \<le> 159) \<and> cont c
                      then ((b0 - 224) * 4096 + (byte b - 128) * 64 + (byte c - 128), 3)
                      else (runeError, 1))
                 | _ \<Rightarrow> (runeError, 1))
              else if 240 \<le> b0 \<and> b0 \<le> 244 then
                (case t of
                   b # c # d # _ \<Rightarrow>
                     (if cont b \<and> (b0 = 240 \<longrightarrow> 144 \<le> byte b) \<and> (b0 = 244 \<longrightarrow> byte b \<le> 143) \<and> cont c \<and> cont d
                      then ((b0 - 240) * 262144 + (byte b - 128) * 4096 + (byte c - 128) * 64 + (byte d - 128), 4)
                      else (runeError, 1))
                 | _ \<Rightarrow> (runeError, 1))
              else (runeError, 1)))"

text \<open>\<^verbatim>\<open>utf8.AppendRune\<close>; an invalid rune is written as \<^verbatim>\<open>RuneError\<close>.\<close>

definition encode_rune :: "nat \<Rightarrow> string" where
  "encode_rune r =
     (if r < 128 then [char_of r]
      else if r < 2048 then [char_of (192 + r div 64), char_of (128 + r mod 64)]
      else if r > 1114111 \<or> 55296 \<le> r \<and> r \<le> 57343 then [CHR 0xEF, CHR 0xBF, CHR 0xBD]
      else if r < 65536 then
        [char_of (224 + r div 4096), char_of (128 + r div 64 mod 64), char_of (128 + r mod 64)]
      else [char_of (240 + r div 262144), char_of (128 + r div 4096 mod 64),
            char_of (128 + r div 64 mod 64), char_of (128 + r mod 64)])"

lemma decode_rune_size: "s \<noteq> [] \<Longrightarrow> 1 \<le> snd (decode_rune s)"
  by (auto simp: decode_rune_def Let_def split: list.splits)

section \<open>String literals\<close>

definition hex_digit :: "char \<Rightarrow> nat option" where
  "hex_digit c =
     (if is_digit c then Some (byte c - 48)
      else if 97 \<le> byte c \<and> byte c \<le> 102 then Some (byte c - 97 + 10)
      else if 65 \<le> byte c \<and> byte c \<le> 70 then Some (byte c - 65 + 10)
      else None)"

text \<open>\<^verbatim>\<open>getu4\<close>: the value of \<^verbatim>\<open>\uXXXX\<close> at the front.\<close>

definition getu4 :: "string \<Rightarrow> nat option" where
  "getu4 s =
     (case s of
        a # b # w # x # y # z # _ \<Rightarrow>
          (if a = CHR 0x5C \<and> b = CHR ''u'' then
             (case (hex_digit w, hex_digit x, hex_digit y, hex_digit z) of
                (Some p, Some q, Some r, Some t) \<Rightarrow> Some (((p * 16 + q) * 16 + r) * 16 + t)
              | _ \<Rightarrow> None)
           else None)
      | _ \<Rightarrow> None)"

definition surrogate :: "nat \<Rightarrow> bool" where
  "surrogate r \<longleftrightarrow> 55296 \<le> r \<and> r < 57344"

text \<open>\<^verbatim>\<open>utf16.DecodeRune\<close>.\<close>

definition decode_surrogates :: "nat \<Rightarrow> nat \<Rightarrow> nat" where
  "decode_surrogates r1 r2 =
     (if 55296 \<le> r1 \<and> r1 < 56320 \<and> 56320 \<le> r2 \<and> r2 < 57344
      then (r1 - 55296) * 1024 + (r2 - 56320) + 65536 else runeError)"

definition simple_escape :: "char \<Rightarrow> char option" where
  "simple_escape c =
     (if c = CHR 0x22 \<or> c = CHR 0x5C \<or> c = CHR ''/'' \<or> c = CHR 0x27 then Some c
      else if c = CHR ''b'' then Some (CHR 0x08)
      else if c = CHR ''f'' then Some (CHR 0x0C)
      else if c = CHR ''n'' then Some (CHR 0x0A)
      else if c = CHR ''r'' then Some (CHR 0x0D)
      else if c = CHR ''t'' then Some (CHR 0x09)
      else None)"

function unquote_body :: "string \<Rightarrow> string option" where
  "unquote_body s =
     (case s of
        [] \<Rightarrow> Some []
      | c # t \<Rightarrow>
          (if c = CHR 0x5C then
             (case t of
                [] \<Rightarrow> None
              | e # u \<Rightarrow>
                  (if e = CHR ''u'' then
                     (case getu4 s of
                        None \<Rightarrow> None
                      | Some rr \<Rightarrow>
                          (if surrogate rr then
                             (case getu4 (drop 6 s) of
                                Some rr1 \<Rightarrow>
                                  (if decode_surrogates rr rr1 \<noteq> runeError
                                   then map_option ((@) (encode_rune (decode_surrogates rr rr1)))
                                          (unquote_body (drop 12 s))
                                   else map_option ((@) (encode_rune runeError)) (unquote_body (drop 6 s)))
                              | None \<Rightarrow> map_option ((@) (encode_rune runeError)) (unquote_body (drop 6 s)))
                           else map_option ((@) (encode_rune rr)) (unquote_body (drop 6 s))))
                   else case simple_escape e of
                     None \<Rightarrow> None
                   | Some d \<Rightarrow> map_option ((#) d) (unquote_body u)))
           else if c = CHR 0x22 \<or> byte c < 32 then None
           else if byte c < 128 then map_option ((#) c) (unquote_body t)
           else let (r, size) = decode_rune s
                in map_option ((@) (encode_rune r)) (unquote_body (drop size s))))"
  by pat_completeness auto
termination
proof (relation "measure length", goal_cases)
  case (8 s x y c xa ya)
  then show ?case using decode_rune_size [of s] by (cases "decode_rune s") auto
qed auto

declare unquote_body.simps [simp del]

text \<open>
  \<^verbatim>\<open>json.Unmarshal\<close> of one token into a \<^verbatim>\<open>string\<close> variable holding \<^verbatim>\<open>""\<close>: a string literal is
  decoded, \<^verbatim>\<open>null\<close> leaves the variable alone, anything else is an error.
\<close>

definition unmarshal_string :: "string \<Rightarrow> string option" where
  "unmarshal_string tok =
     (if \<not> json_valid tok then None
      else if tok = ''null'' then Some []
      else if length tok \<ge> 2 \<and> hd tok = CHR 0x22 \<and> last tok = CHR 0x22
      then unquote_body (butlast (tl tok))
      else None)"

section \<open>Encoding a string\<close>

definition lowerhex :: string where
  "lowerhex = ''0123456789abcdef''"

definition escape_json_byte :: "char \<Rightarrow> string" where
  "escape_json_byte c =
     (if c = CHR 0x5C \<or> c = CHR 0x22 then [CHR 0x5C, c]
      else if c = CHR 0x08 then [CHR 0x5C, CHR ''b'']
      else if c = CHR 0x0C then [CHR 0x5C, CHR ''f'']
      else if c = CHR 0x0A then [CHR 0x5C, CHR ''n'']
      else if c = CHR 0x0D then [CHR 0x5C, CHR ''r'']
      else if c = CHR 0x09 then [CHR 0x5C, CHR ''t'']
      else CHR 0x5C # ''u00'' @ [lowerhex ! (byte c div 16), lowerhex ! (byte c mod 16)])"

definition html_safe :: "char \<Rightarrow> bool" where
  "html_safe c \<longleftrightarrow> 32 \<le> byte c \<and> byte c < 128 \<and> c \<noteq> CHR 0x22 \<and> c \<noteq> CHR 0x5C \<and>
     c \<noteq> CHR ''<'' \<and> c \<noteq> CHR ''>'' \<and> c \<noteq> CHR ''&''"

function marshal_body :: "string \<Rightarrow> string" where
  "marshal_body s =
     (case s of
        [] \<Rightarrow> []
      | c # t \<Rightarrow>
          (if byte c < 128 then
             (if html_safe c then c # marshal_body t else escape_json_byte c @ marshal_body t)
           else let (r, size) = decode_rune s
                in if r = runeError \<and> size = 1 then CHR 0x5C # ''ufffd'' @ marshal_body t
                   else if r = 8232 \<or> r = 8233
                   then CHR 0x5C # ''u202'' @ [lowerhex ! (r mod 16)] @ marshal_body (drop size s)
                   else take size s @ marshal_body (drop size s)))"
  by pat_completeness auto
termination
proof (relation "measure length")
  fix s x y z r size
  assume s: "s = x # y" and "z = decode_rune s" "(r, size) = z"
  then have "1 \<le> size" using decode_rune_size [of s] by (cases "decode_rune s") auto
  with s show "(drop size s, s) \<in> measure length" "(drop size s, s) \<in> measure length" by simp_all
qed auto

declare marshal_body.simps [simp del]

definition marshal_string :: "string \<Rightarrow> string" where
  "marshal_string s = CHR 0x22 # marshal_body s @ [CHR 0x22]"

end
