(* ===== verification/Query.thy ===== *)
theory Query
  imports Prelude "HOL-Library.List_Lexorder"
begin

text \<open>
  \<^verbatim>\<open>internal/subscription/query.go\<close>: the key/value list of a share link's query, which
  replaces \<^verbatim>\<open>url.Values\<close>, its parser, its encoder and the three byte escapers. The lemmas are
  the round trip: what is encoded parses back to the sorted list.

  \<^verbatim>\<open>set\<close> compacts the list in place; the write index never passes the read index and each
  pair is copied out before the write, so the loop is a recursion over the pairs as they were.
\<close>

record queryPair =
  qkey :: string
  qvalue :: string

type_synonym queryList = "queryPair list"

definition qpair :: "string \<Rightarrow> string \<Rightarrow> queryPair" where
  "qpair k v = \<lparr>qkey = k, qvalue = v\<rparr>"

definition query_add :: "queryList \<Rightarrow> string \<Rightarrow> string \<Rightarrow> queryList" where
  "query_add q k v = q @ [qpair k v]"

fun query_set_loop :: "queryList \<Rightarrow> bool \<Rightarrow> string \<Rightarrow> string \<Rightarrow> queryList \<Rightarrow> queryList \<times> bool" where
  "query_set_loop kept found k v [] = (kept, found)"
| "query_set_loop kept found k v (p # q) =
     (if qkey p \<noteq> k then query_set_loop (kept @ [p]) found k v q
      else if \<not> found then query_set_loop (kept @ [p\<lparr>qvalue := v\<rparr>]) True k v q
      else query_set_loop kept found k v q)"

definition query_set :: "queryList \<Rightarrow> string \<Rightarrow> string \<Rightarrow> queryList" where
  "query_set q k v =
     (let (kept, found) = query_set_loop [] False k v q
      in if \<not> found then query_add kept k v else kept)"

fun query_get :: "queryList \<Rightarrow> string \<Rightarrow> string" where
  "query_get [] k = []"
| "query_get (p # q) k = (if qkey p = k then qvalue p else query_get q k)"

definition maxQueryParams :: nat where
  "maxQueryParams = 10000"

text \<open>\<^verbatim>\<open>url.QueryUnescape\<close>.\<close>

definition unhex :: "char \<Rightarrow> nat option" where
  "unhex c =
     (if is_digit c then Some (byte c - 48)
      else if 97 \<le> byte c \<and> byte c \<le> 102 then Some (byte c - 97 + 10)
      else if 65 \<le> byte c \<and> byte c \<le> 70 then Some (byte c - 65 + 10)
      else None)"

fun QueryUnescape :: "string \<Rightarrow> string option" where
  "QueryUnescape [] = Some []"
| "QueryUnescape (c # s) =
     (if c = CHR ''%'' then
        (case s of
           a # b # t \<Rightarrow>
             (case (unhex a, unhex b) of
                (Some x, Some y) \<Rightarrow> map_option ((#) (char_of (x * 16 + y))) (QueryUnescape t)
              | _ \<Rightarrow> None)
         | _ \<Rightarrow> None)
      else map_option ((#) (if c = CHR ''+'' then CHR '' '' else c)) (QueryUnescape s))"

definition unescapeQuery :: "string \<Rightarrow> string option" where
  "unescapeQuery s =
     (if CHR ''%'' \<notin> set s \<and> CHR ''+'' \<notin> set s then Some s else QueryUnescape s)"

function query_parse_loop :: "queryList \<Rightarrow> string \<Rightarrow> queryList \<times> bool" where
  "query_parse_loop q raw =
     (if raw = [] then (q, True)
      else let (segment, rest, _) = cut_byte CHR ''&'' raw
           in if CHR '';'' \<in> set segment then (q, False)
              else if segment = [] then query_parse_loop q rest
              else let (key, value, _) = cut_byte CHR ''='' segment
                   in case unescapeQuery key of
                        None \<Rightarrow> (q, False)
                      | Some k \<Rightarrow>
                          (case unescapeQuery value of
                             None \<Rightarrow> (q, False)
                           | Some v \<Rightarrow> query_parse_loop (query_add q k v) rest))"
  by pat_completeness auto
termination
  by (relation "measure (\<lambda>(q, raw). length raw)") (auto dest: cut_byte_length [OF sym])

declare query_parse_loop.simps [simp del]

definition query_parse :: "queryList \<Rightarrow> string \<Rightarrow> queryList \<times> bool" where
  "query_parse q raw =
     (if length (filter ((=) CHR ''&'') raw) + 1 > maxQueryParams then (q, False)
      else query_parse_loop q raw)"

section \<open>Encoding\<close>

definition upperhex :: string where
  "upperhex = ''0123456789ABCDEF''"

definition unreserved :: "char \<Rightarrow> bool" where
  "unreserved c \<longleftrightarrow>
     is_lower c \<or> is_upper c \<or> is_digit c \<or> c = CHR ''-'' \<or> c = CHR ''_'' \<or> c = CHR ''.'' \<or> c = CHR ''~''"

definition hex_escape :: "char \<Rightarrow> string" where
  "hex_escape c = [CHR ''%'', upperhex ! (byte c div 16), upperhex ! (byte c mod 16)]"

fun appendQueryEscape :: "string \<Rightarrow> string \<Rightarrow> string" where
  "appendQueryEscape dst [] = dst"
| "appendQueryEscape dst (c # s) =
     appendQueryEscape
       (if unreserved c then dst @ [c]
        else if c = CHR '' '' then dst @ ''+''
        else dst @ hex_escape c) s"

definition userinfoSafe :: "char \<Rightarrow> bool" where
  "userinfoSafe c \<longleftrightarrow> unreserved c \<or> c \<in> set '':$&+,;=''"

fun appendUserinfoEscape :: "string \<Rightarrow> string \<Rightarrow> string" where
  "appendUserinfoEscape dst [] = dst"
| "appendUserinfoEscape dst (c # s) =
     appendUserinfoEscape (if userinfoSafe c then dst @ [c] else dst @ hex_escape c) s"

definition pathSegmentSafe :: "char \<Rightarrow> bool" where
  "pathSegmentSafe c \<longleftrightarrow> c \<in> set ''$&+:=@''"

fun appendPathEscape :: "string \<Rightarrow> string \<Rightarrow> string" where
  "appendPathEscape dst [] = dst"
| "appendPathEscape dst (c # s) =
     appendPathEscape
       (if unreserved c \<or> pathSegmentSafe c then dst @ [c] else dst @ hex_escape c) s"

definition sortByKey :: "queryList \<Rightarrow> queryList" where
  "sortByKey q = sort_key qkey q"

fun append_pairs :: "string \<Rightarrow> nat \<Rightarrow> queryList \<Rightarrow> string" where
  "append_pairs dst i [] = dst"
| "append_pairs dst i (p # q) =
     append_pairs
       (appendQueryEscape (appendQueryEscape (if i > 0 then dst @ ''&'' else dst) (qkey p) @ ''='')
          (qvalue p)) (i + 1) q"

definition appendEncoded :: "queryList \<Rightarrow> string \<Rightarrow> string" where
  "appendEncoded q dst = append_pairs dst 0 (sortByKey q)"

definition rawLen :: "queryList \<Rightarrow> nat" where
  "rawLen q =
     (let n = sum_list (map (\<lambda>p. length (qkey p) + length (qvalue p) + 2) q)
      in if n > 0 then n - 1 else n)"

section \<open>Escaping is reversible\<close>

definition escape_byte :: "char \<Rightarrow> string" where
  "escape_byte c =
     (if unreserved c then [c] else if c = CHR '' '' then ''+'' else hex_escape c)"

lemma appendQueryEscape_eq: "appendQueryEscape dst s = dst @ concat (map escape_byte s)"
  by (induction dst s rule: appendQueryEscape.induct) (auto simp: escape_byte_def)

definition escape :: "string \<Rightarrow> string" where
  "escape s = concat (map escape_byte s)"

lemma escape_simps [simp]: "escape [] = []" "escape (c # s) = escape_byte c @ escape s"
  by (simp_all add: escape_def)

lemma nibble_cases: "(n :: nat) < 16 \<Longrightarrow> n \<in> set [0,1,2,3,4,5,6,7,8,9,10,11,12,13,14,15]"
  by (simp only: list.set insert_iff empty_iff) presburger

lemma unhex_upperhex [simp]: "n < 16 \<Longrightarrow> unhex (upperhex ! n) = Some n"
proof -
  assume "n < 16"
  then have "n \<in> set [0,1,2,3,4,5,6,7,8,9,10,11,12,13,14,15]" by (rule nibble_cases)
  then show ?thesis
    by (auto simp: upperhex_def unhex_def is_digit_def)
qed

lemma upperhex_alnum: "n < 16 \<Longrightarrow> is_digit (upperhex ! n) \<or> is_upper (upperhex ! n)"
proof -
  assume "n < 16"
  then have "n \<in> set [0,1,2,3,4,5,6,7,8,9,10,11,12,13,14,15]" by (rule nibble_cases)
  then show ?thesis
    by (auto simp: upperhex_def is_upper_def is_digit_def)
qed

lemma unreserved_special [simp]:
  "\<not> unreserved CHR ''%''" "\<not> unreserved CHR ''+''" "\<not> unreserved CHR ''&''"
  "\<not> unreserved CHR ''=''" "\<not> unreserved CHR '';''" "\<not> unreserved CHR ''/''" "\<not> unreserved CHR ''?''"
  "\<not> unreserved CHR '' ''" "\<not> unreserved CHR ''#''"
  by (simp_all add: unreserved_def is_lower_def is_upper_def is_digit_def)

lemma QueryUnescape_escape_byte:
  "QueryUnescape (escape_byte c @ s) = map_option ((#) c) (QueryUnescape s)"
proof -
  have "byte c < 256" by simp
  then have "byte c div 16 < 16" by (simp add: div_less_iff_less_mult)
  then have u: "unhex (upperhex ! (byte c div 16)) = Some (byte c div 16)"
    "unhex (upperhex ! (byte c mod 16)) = Some (byte c mod 16)" by simp_all
  have c: "char_of (byte c div 16 * 16 + byte c mod 16) = c" by (simp only: div_mult_mod_eq char_of_char)
  consider "unreserved c" | "\<not> unreserved c" "c = CHR '' ''" | "\<not> unreserved c" "c \<noteq> CHR '' ''" by blast
  then show ?thesis
  proof cases
    case 1
    then have "c \<noteq> CHR ''%''" "c \<noteq> CHR ''+''" by auto
    with 1 show ?thesis by (simp add: escape_byte_def)
  next
    case 3
    then have "escape_byte c @ s = CHR ''%'' # upperhex ! (byte c div 16) # upperhex ! (byte c mod 16) # s"
      by (simp add: escape_byte_def hex_escape_def)
    then show ?thesis by (simp only: QueryUnescape.simps list.case if_True simp_thms u option.case prod.case c)
  qed (simp add: escape_byte_def)
qed

lemma QueryUnescape_escape: "QueryUnescape (escape s) = Some s"
  by (induction s) (simp_all add: QueryUnescape_escape_byte)

lemma escape_chars: "c \<in> set (escape s) \<Longrightarrow> unreserved c \<or> c = CHR ''+'' \<or> c = CHR ''%''"
proof (induction s)
  case (Cons x s)
  have "byte x div 16 < 16" by (simp add: div_less_iff_less_mult)
  then have "unreserved c \<or> c = CHR ''+'' \<or> c = CHR ''%''" if "c \<in> set (escape_byte x)"
    using that upperhex_alnum [of "byte x div 16"] upperhex_alnum [of "byte x mod 16"]
    by (auto simp: escape_byte_def hex_escape_def unreserved_def split: if_splits)
  with Cons show ?case by auto
qed simp

lemma escape_no_percent: "CHR ''%'' \<notin> set (escape s) \<Longrightarrow> CHR ''+'' \<notin> set (escape s) \<Longrightarrow> escape s = s"
  by (induction s) (auto simp: escape_byte_def hex_escape_def split: if_splits)

lemma unescapeQuery_escape [simp]: "unescapeQuery (escape s) = Some s"
  using escape_no_percent [of s] by (auto simp: unescapeQuery_def QueryUnescape_escape)

lemma escape_not_special [simp]:
  "CHR ''&'' \<notin> set (escape s)" "CHR ''='' \<notin> set (escape s)" "CHR '';'' \<notin> set (escape s)"
  "CHR ''/'' \<notin> set (escape s)" "CHR ''?'' \<notin> set (escape s)" "CHR '' '' \<notin> set (escape s)"
  "CHR ''#'' \<notin> set (escape s)"
  using escape_chars by fastforce+

section \<open>A query is its segments, joined\<close>

fun join_raw :: "(string \<times> string) list \<Rightarrow> string" where
  "join_raw [] = []"
| "join_raw [(k, v)] = k @ ''='' @ v"
| "join_raw ((k, v) # r # rs) = k @ ''='' @ v @ ''&'' @ join_raw (r # rs)"

definition clean_raw :: "string \<times> string \<Rightarrow> bool" where
  "clean_raw r \<longleftrightarrow> set (fst r) \<inter> {CHR ''&'', CHR ''='', CHR '';''} = {} \<and>
     set (snd r) \<inter> {CHR ''&'', CHR '';''} = {}"

definition raw_pair :: "string \<times> string \<Rightarrow> queryPair option" where
  "raw_pair r =
     (case (unescapeQuery (fst r), unescapeQuery (snd r)) of
        (Some k, Some v) \<Rightarrow> Some (qpair k v)
      | _ \<Rightarrow> None)"

lemma parse_segment:
  assumes "clean_raw (k, v)" "raw_pair (k, v) = Some p"
  shows "query_parse_loop q (k @ ''='' @ v) = (q @ [p], True)"
    and "query_parse_loop q (k @ ''='' @ v @ ''&'' @ rest) = query_parse_loop (q @ [p]) rest"
proof -
  have k: "CHR ''&'' \<notin> set k" "CHR ''='' \<notin> set k" "CHR '';'' \<notin> set k"
    and v: "CHR ''&'' \<notin> set v" "CHR '';'' \<notin> set v"
    using assms(1) by (auto simp: clean_raw_def)
  obtain k' v' where u: "unescapeQuery k = Some k'" "unescapeQuery v = Some v'" "p = qpair k' v'"
    using assms(2) by (auto simp: raw_pair_def split: option.splits)
  have c: "cut_byte CHR ''&'' (k @ CHR ''='' # v) = (k @ CHR ''='' # v, [], False)"
    using k v by (intro cut_byte_absent) auto
  have "cut_byte CHR ''&'' ((k @ CHR ''='' # v) @ CHR ''&'' # rest) = (k @ CHR ''='' # v, rest, True)"
    using k v by (intro cut_byte_found) auto
  then have d: "cut_byte CHR ''&'' (k @ CHR ''='' # v @ CHR ''&'' # rest) = (k @ CHR ''='' # v, rest, True)"
    by simp
  have e: "cut_byte CHR ''='' (k @ CHR ''='' # v) = (k, v, True)"
    using k by (intro cut_byte_found)
  show "query_parse_loop q (k @ ''='' @ v) = (q @ [p], True)"
    by (subst query_parse_loop.simps)
       (simp add: c e k v u query_add_def query_parse_loop.simps [of _ "[]"])
  show "query_parse_loop q (k @ ''='' @ v @ ''&'' @ rest) = query_parse_loop (q @ [p]) rest"
    by (subst query_parse_loop.simps) (simp add: d e k v u query_add_def)
qed

lemma parse_joined:
  assumes "list_all clean_raw rs" "map raw_pair rs = map Some ps"
  shows "query_parse_loop q (join_raw rs) = (q @ ps, True)"
  using assms
proof (induction rs arbitrary: q ps rule: join_raw.induct)
  case 1
  then show ?case by (subst query_parse_loop.simps) simp
next
  case (2 k v)
  then obtain p where "ps = [p]" "raw_pair (k, v) = Some p" by auto
  with 2 parse_segment(1) [of k v p q] show ?case by simp
next
  case (3 k v r rs)
  then obtain p ps' where "ps = p # ps'" "raw_pair (k, v) = Some p" by (cases ps) auto
  with 3 parse_segment(2) [of k v p q "join_raw (r # rs)"] show ?case by simp
qed

lemma joined_separators:
  "list_all clean_raw rs \<Longrightarrow> length (filter ((=) CHR ''&'') (join_raw rs)) = length rs - 1"
proof (induction rs rule: join_raw.induct)
  case (2 k v)
  then have "CHR ''&'' \<notin> set k" "CHR ''&'' \<notin> set v" by (auto simp: clean_raw_def)
  then show ?case by (auto simp: filter_empty_conv)
next
  case (3 k v r rs)
  then have "CHR ''&'' \<notin> set k" "CHR ''&'' \<notin> set v" by (auto simp: clean_raw_def)
  then have "filter ((=) CHR ''&'') k = []" "filter ((=) CHR ''&'') v = []"
    by (auto simp: filter_empty_conv)
  with 3 show ?case by simp
qed simp

lemma query_parse_joined:
  assumes "list_all clean_raw rs" "map raw_pair rs = map Some ps" "length rs \<le> maxQueryParams"
  shows "query_parse [] (join_raw rs) = (ps, True)"
proof -
  have "\<not> length rs - 1 + 1 > maxQueryParams" using assms(3) by (auto simp: maxQueryParams_def)
  with assms show ?thesis by (simp add: query_parse_def joined_separators parse_joined)
qed

definition escaped :: "queryPair \<Rightarrow> string \<times> string" where
  "escaped p = (escape (qkey p), escape (qvalue p))"

lemma append_pairs_eq:
  "append_pairs dst i q = dst @ (if i > 0 \<and> q \<noteq> [] then ''&'' else []) @ join_raw (map escaped q)"
proof (induction dst i q rule: append_pairs.induct)
  case (2 dst i p q)
  then show ?case
    by (cases q) (simp_all add: appendQueryEscape_eq escaped_def escape_def)
qed simp

lemma appendEncoded_eq: "appendEncoded q dst = dst @ join_raw (map escaped (sortByKey q))"
  by (simp add: appendEncoded_def append_pairs_eq)

lemma clean_escaped: "clean_raw (escaped p)"
  by (simp add: clean_raw_def escaped_def)

lemma raw_pair_escaped: "raw_pair (escaped p) = Some p"
  by (simp add: raw_pair_def escaped_def qpair_def)

lemma length_sortByKey [simp]: "length (sortByKey q) = length q"
  by (simp add: sortByKey_def)

section \<open>Lookup and update\<close>

lemma query_get_append:
  "query_get (a @ b) k = (if k \<in> qkey ` set a then query_get a k else query_get b k)"
  by (induction a) auto

lemma query_set_loop_eq:
  "query_set_loop kept True k v q = (kept @ filter (\<lambda>p. qkey p \<noteq> k) q, True)"
  by (induction q arbitrary: kept) auto

lemma query_set_loop_false:
  "query_set_loop kept False k v q =
     (if k \<in> qkey ` set q
      then (kept @ takeWhile (\<lambda>p. qkey p \<noteq> k) q @ [qpair k v] @
            filter (\<lambda>p. qkey p \<noteq> k) (dropWhile (\<lambda>p. qkey p \<noteq> k) q), True)
      else (kept @ q, False))"
proof (induction q arbitrary: kept)
  case (Cons p q)
  have "p\<lparr>qvalue := v\<rparr> = qpair k v" if "qkey p = k"
    using that by (cases p) (simp add: qpair_def)
  with Cons show ?case by (auto simp: query_set_loop_eq)
qed simp

lemma query_set_cases:
  obtains a b where "query_set q k v = a @ qpair k v # b"
    and "k \<notin> qkey ` set a" and "k \<notin> qkey ` set b"
    and "a @ b = filter (\<lambda>p. qkey p \<noteq> k) q"
proof (cases "k \<in> qkey ` set q")
  case True
  let ?a = "takeWhile (\<lambda>p. qkey p \<noteq> k) q"
  let ?b = "filter (\<lambda>p. qkey p \<noteq> k) (dropWhile (\<lambda>p. qkey p \<noteq> k) q)"
  have "query_set q k v = ?a @ qpair k v # ?b"
    using True by (simp add: query_set_def query_set_loop_false)
  moreover have "k \<notin> qkey ` set ?a" by (auto dest: set_takeWhileD)
  moreover have "?a @ ?b = filter (\<lambda>p. qkey p \<noteq> k) q" by (induction q) auto
  ultimately show thesis by (intro that) auto
next
  case False
  then have "query_set q k v = q @ [qpair k v]"
    by (simp add: query_set_def query_set_loop_false query_add_def)
  moreover have "filter (\<lambda>p. qkey p \<noteq> k) q = q" using False by (auto simp: filter_id_conv)
  ultimately show thesis using False by (intro that [of q "[]"]) auto
qed

lemma query_get_set: "query_get (query_set q k v) k = v"
  by (rule query_set_cases [of q k v]) (simp add: query_get_append qpair_def)

lemma query_set_length: "length (query_set q k v) \<le> Suc (length q)"
proof (rule query_set_cases [of q k v])
  fix a b assume e: "query_set q k v = a @ qpair k v # b" and ab: "a @ b = filter (\<lambda>p. qkey p \<noteq> k) q"
  have "length (a @ b) \<le> length q" by (simp only: ab length_filter_le)
  then show ?thesis by (simp add: e)
qed

lemma query_set_length_present: "k \<in> qkey ` set q \<Longrightarrow> length (query_set q k v) \<le> length q"
proof (rule query_set_cases [of q k v])
  fix a b assume k: "k \<in> qkey ` set q" and e: "query_set q k v = a @ qpair k v # b"
    and ab: "a @ b = filter (\<lambda>p. qkey p \<noteq> k) q"
  from k obtain x where "x \<in> set q" "\<not> qkey x \<noteq> k" by auto
  then have "length (filter (\<lambda>p. qkey p \<noteq> k) q) < length q" by (rule length_filter_less)
  then have "length (a @ b) < length q" by (simp only: ab)
  then show ?thesis by (simp add: e)
qed

text \<open>The value of a key that occurs once does not depend on the order of the pairs.\<close>

lemma query_get_unique:
  assumes "\<forall>p \<in> set q. qkey p = k \<longrightarrow> qvalue p = v" and "k \<in> qkey ` set q"
  shows "query_get q k = v"
  using assms by (induction q) auto

section \<open>Properties\<close>

text \<open>
  a query of up to 10,000 pairs survives encoding and parsing: the parser accepts what
  the encoder writes, for any keys and values, and returns the pairs themselves, sorted by
  key with equal keys in their order.
\<close>

theorem query_round_trip:
  assumes "length q \<le> maxQueryParams"
  shows "query_parse [] (appendEncoded q []) = (sort_key qkey q, True)"
  using assms
  by (simp add: appendEncoded_eq query_parse_joined [of _ "sortByKey q"] list_all_iff clean_escaped
      raw_pair_escaped sortByKey_def [symmetric])

lemma query_round_trip_witness:
  "query_parse [] (appendEncoded [qpair ''b'' ''&'', qpair ''a'' ''x y''] []) =
     (sort_key qkey [qpair ''b'' ''&'', qpair ''a'' ''x y''], True)"
  by (rule query_round_trip) (simp add: maxQueryParams_def)

end
