(* ===== verification/GoBase64.thy ===== *)
theory GoBase64
  imports Prelude
begin

text \<open>
  Go's \<^verbatim>\<open>encoding/base64\<close>: the standard and url-safe alphabets, padded and raw, with the
  decoder's tolerance of line breaks and of loose trailing bits; and the choice of one of
  the four the share-link decoders make (\<^verbatim>\<open>decodeBase64Tolerant\<close>, \<^verbatim>\<open>internal/subscription/vmess.go\<close>).
  What is encoded decodes to itself, in each of the four.
\<close>

datatype encoding = StdEncoding | RawStdEncoding | URLEncoding | RawURLEncoding

definition url_safe :: "encoding \<Rightarrow> bool" where
  "url_safe e \<longleftrightarrow> e = URLEncoding \<or> e = RawURLEncoding"

definition padded :: "encoding \<Rightarrow> bool" where
  "padded e \<longleftrightarrow> e = StdEncoding \<or> e = URLEncoding"

text \<open>The alphabet: the value of a digit and the digit of a value.\<close>

definition digit_value :: "bool \<Rightarrow> char \<Rightarrow> nat option" where
  "digit_value url c =
     (if is_upper c then Some (byte c - 65)
      else if is_lower c then Some (byte c - 71)
      else if is_digit c then Some (byte c + 4)
      else if c = (if url then CHR ''-'' else CHR ''+'') then Some 62
      else if c = (if url then CHR ''_'' else CHR ''/'') then Some 63
      else None)"

definition digit_char :: "bool \<Rightarrow> nat \<Rightarrow> char" where
  "digit_char url v =
     (if v < 26 then char_of (v + 65)
      else if v < 52 then char_of (v + 71)
      else if v < 62 then char_of (v - 4)
      else if v = 62 then (if url then CHR ''-'' else CHR ''+'')
      else (if url then CHR ''_'' else CHR ''/''))"

fun decode_digits :: "encoding \<Rightarrow> string \<Rightarrow> string option" where
  "decode_digits e [] = Some []"
| "decode_digits e (a # b # c # d # s) =
     (case (digit_value (url_safe e) a, digit_value (url_safe e) b) of
        (Some v, Some w) \<Rightarrow>
          (if padded e \<and> c = CHR ''='' then
             (if d = CHR ''='' \<and> s = [] then Some [char_of (v * 4 + w div 16)] else None)
           else case digit_value (url_safe e) c of
             None \<Rightarrow> None
           | Some x \<Rightarrow>
               (if padded e \<and> d = CHR ''='' then
                  (if s = [] then Some [char_of (v * 4 + w div 16), char_of (w mod 16 * 16 + x div 4)]
                   else None)
                else case digit_value (url_safe e) d of
                  None \<Rightarrow> None
                | Some y \<Rightarrow>
                    (case decode_digits e s of
                       None \<Rightarrow> None
                     | Some bs \<Rightarrow>
                         Some (char_of (v * 4 + w div 16) # char_of (w mod 16 * 16 + x div 4) #
                               char_of (x mod 4 * 64 + y) # bs))))
      | _ \<Rightarrow> None)"
| "decode_digits e [a, b, c] =
     (if padded e then None
      else case (digit_value (url_safe e) a, digit_value (url_safe e) b, digit_value (url_safe e) c) of
        (Some v, Some w, Some x) \<Rightarrow>
          Some [char_of (v * 4 + w div 16), char_of (w mod 16 * 16 + x div 4)]
      | _ \<Rightarrow> None)"
| "decode_digits e [a, b] =
     (if padded e then None
      else case (digit_value (url_safe e) a, digit_value (url_safe e) b) of
        (Some v, Some w) \<Rightarrow> Some [char_of (v * 4 + w div 16)]
      | _ \<Rightarrow> None)"
| "decode_digits e [a] = None"

definition DecodeString :: "encoding \<Rightarrow> string \<Rightarrow> string option" where
  "DecodeString e s = decode_digits e (filter (\<lambda>c. c \<noteq> CHR 0x0A \<and> c \<noteq> CHR 0x0D) s)"

fun AppendEncode :: "encoding \<Rightarrow> string \<Rightarrow> string" where
  "AppendEncode e [] = []"
| "AppendEncode e (a # b # c # s) =
     digit_char (url_safe e) (byte a div 4) #
     digit_char (url_safe e) (byte a mod 4 * 16 + byte b div 16) #
     digit_char (url_safe e) (byte b mod 16 * 4 + byte c div 64) #
     digit_char (url_safe e) (byte c mod 64) # AppendEncode e s"
| "AppendEncode e [a, b] =
     [digit_char (url_safe e) (byte a div 4),
      digit_char (url_safe e) (byte a mod 4 * 16 + byte b div 16),
      digit_char (url_safe e) (byte b mod 16 * 4)] @ (if padded e then ''='' else [])"
| "AppendEncode e [a] =
     [digit_char (url_safe e) (byte a div 4), digit_char (url_safe e) (byte a mod 4 * 16)]
     @ (if padded e then ''=='' else [])"

definition tolerant_encoding :: "string \<Rightarrow> encoding" where
  "tolerant_encoding s =
     (let url = (CHR ''-'' \<in> set s \<or> CHR ''_'' \<in> set s)
      in if length s mod 4 = 0 then (if url then URLEncoding else StdEncoding)
         else (if url then RawURLEncoding else RawStdEncoding))"

definition decodeBase64Tolerant :: "string \<Rightarrow> string option" where
  "decodeBase64Tolerant s = DecodeString (tolerant_encoding s) s"

section \<open>Digits\<close>

lemma digit_roundtrip [simp]: "v < 64 \<Longrightarrow> digit_value url (digit_char url v) = Some v"
proof -
  assume v: "v < 64"
  consider "v < 26" | "26 \<le> v" "v < 52" | "52 \<le> v" "v < 62" | "v = 62" | "v = 63"
    using v by linarith
  then show ?thesis
  proof cases
    case 1
    then show ?thesis by (simp add: digit_char_def digit_value_def is_upper_def)
  next
    case 2
    then show ?thesis by (simp add: digit_char_def digit_value_def is_upper_def is_lower_def)
  next
    case 3
    then have n: "v = (v - 52) + 52" "v - 52 < 10" by linarith+
    define n where "n = v - 52"
    from n have n: "v = n + 52" "n < 10" by (simp_all add: n_def)
    then show ?thesis
      by (simp add: digit_char_def digit_value_def is_upper_def is_lower_def is_digit_def)
  qed (auto simp: digit_char_def digit_value_def is_upper_def is_lower_def is_digit_def)
qed

lemma digit_value_special:
  "digit_value url CHR ''='' = None" "digit_value url CHR 0x0A = None" "digit_value url CHR 0x0D = None"
  "digit_value url CHR ''#'' = None" "digit_value url CHR '' '' = None" "digit_value url CHR 0x09 = None"
  by (simp_all add: digit_value_def is_upper_def is_lower_def is_digit_def)

lemma digit_char_not_special:
  assumes "v < 64"
  shows "digit_char url v \<noteq> CHR ''=''" "digit_char url v \<noteq> CHR 0x0A" "digit_char url v \<noteq> CHR 0x0D"
    "digit_char url v \<noteq> CHR ''#''" "digit_char url v \<noteq> CHR '' ''" "digit_char url v \<noteq> CHR 0x09"
  using digit_roundtrip [OF assms, of url] digit_value_special [of url] by auto

lemma sextets [simp]:
  "byte a div 4 < 64" "byte a mod 4 * 16 + byte b div 16 < 64"
  "byte b mod 16 * 4 + byte c div 64 < 64" "byte c mod 64 < 64" "byte b mod 16 * 4 < 64"
  "byte a mod 4 * 16 < 64"
proof -
  have b: "byte x < 256" for x by simp
  show "byte a div 4 < 64" using b [of a] by linarith
  show "byte a mod 4 * 16 + byte b div 16 < 64" using b [of b] by linarith
  show "byte b mod 16 * 4 + byte c div 64 < 64" using b [of c] by linarith
qed simp_all

lemma byte_pieces [simp]:
  "byte x div 16 div 16 = 0" "byte x div 16 mod 16 = byte x div 16"
  "byte x div 64 div 4 = 0" "byte x div 64 mod 4 = byte x div 64"
proof -
  have b: "byte x < 256" by simp
  then have "byte x div 16 < 16" "byte x div 64 < 4" by linarith+
  then show "byte x div 16 div 16 = 0" "byte x div 16 mod 16 = byte x div 16"
    "byte x div 64 div 4 = 0" "byte x div 64 mod 4 = byte x div 64" by simp_all
qed

section \<open>The round trip\<close>

lemma encode_no_breaks:
  "c \<in> set (AppendEncode e s) \<Longrightarrow> c \<noteq> CHR 0x0A \<and> c \<noteq> CHR 0x0D \<and> c \<noteq> CHR ''#'' \<and> c \<noteq> CHR '' '' \<and> c \<noteq> CHR 0x09"
  by (induction e s rule: AppendEncode.induct) (auto simp: digit_char_not_special split: if_splits)

lemma decode_encode_digits: "decode_digits e (AppendEncode e s) = Some s"
  by (induction e s rule: AppendEncode.induct) (auto simp: digit_char_not_special div_mult_mod_eq)

lemma decode_encode: "DecodeString e (AppendEncode e s) = Some s"
proof -
  have "filter (\<lambda>c. c \<noteq> CHR 0x0A \<and> c \<noteq> CHR 0x0D) (AppendEncode e s) = AppendEncode e s"
    using encode_no_breaks by (auto simp: filter_id_conv)
  then show ?thesis by (simp add: DecodeString_def decode_encode_digits)
qed

section \<open>The tolerant choice\<close>

lemma digit_char_std: "v < 64 \<Longrightarrow> digit_char False v \<noteq> CHR ''-'' \<and> digit_char False v \<noteq> CHR ''_''"
proof -
  have "digit_value False CHR ''-'' = None" "digit_value False CHR ''_'' = None"
    by (simp_all add: digit_value_def is_upper_def is_lower_def is_digit_def)
  then show "v < 64 \<Longrightarrow> digit_char False v \<noteq> CHR ''-'' \<and> digit_char False v \<noteq> CHR ''_''"
    by (metis digit_roundtrip option.distinct(1))
qed

lemma digit_char_same:
  "CHR ''-'' \<noteq> digit_char True v \<Longrightarrow> CHR ''_'' \<noteq> digit_char True v \<Longrightarrow> digit_char False v = digit_char True v"
  by (auto simp: digit_char_def split: if_splits)

lemma std_no_url: "\<not> url_safe e \<Longrightarrow> c \<in> set (AppendEncode e s) \<Longrightarrow> c \<noteq> CHR ''-'' \<and> c \<noteq> CHR ''_''"
  by (induction e s rule: AppendEncode.induct) (auto simp: digit_char_std split: if_splits)

lemma encode_same_alphabet:
  assumes "padded e = padded e'" "url_safe e" "\<not> url_safe e'"
    and "CHR ''-'' \<notin> set (AppendEncode e s)" "CHR ''_'' \<notin> set (AppendEncode e s)"
  shows "AppendEncode e' s = AppendEncode e s"
  using assms
proof (induction e s rule: AppendEncode.induct)
  case (2 e a b c s)
  then show ?case by (simp add: digit_char_same)
next
  case (3 e a b)
  then show ?case by (simp add: digit_char_same)
next
  case (4 e a)
  then show ?case by (simp add: digit_char_same)
qed simp

lemma encode_same_padding:
  "url_safe e = url_safe e' \<Longrightarrow> length s mod 3 = 0 \<Longrightarrow> AppendEncode e s = AppendEncode e' s"
  by (induction e s rule: AppendEncode.induct) simp_all

lemma encode_length:
  "length (AppendEncode e s) mod 4 = 0 \<longleftrightarrow> padded e \<or> length s mod 3 = 0"
  by (induction e s rule: AppendEncode.induct) simp_all

lemma encode_tolerant_encoding:
  "AppendEncode (tolerant_encoding (AppendEncode e s)) s = AppendEncode e s"
proof -
  let ?out = "AppendEncode e s" and ?t = "tolerant_encoding (AppendEncode e s)"
  have pad: "padded ?t \<longleftrightarrow> padded e \<or> length s mod 3 = 0"
    using encode_length [of e s] by (auto simp: tolerant_encoding_def padded_def Let_def)
  have url: "url_safe ?t \<longleftrightarrow> CHR ''-'' \<in> set ?out \<or> CHR ''_'' \<in> set ?out"
    by (auto simp: tolerant_encoding_def url_safe_def Let_def)
  define m where "m = (if url_safe e then (if padded ?t then URLEncoding else RawURLEncoding)
     else (if padded ?t then StdEncoding else RawStdEncoding))"
  have m: "url_safe m = url_safe e" "padded m = padded ?t"
    by (auto simp: m_def url_safe_def padded_def)
  have "AppendEncode m s = ?out"
  proof (cases "length s mod 3 = 0")
    case True
    with m show ?thesis by (intro encode_same_padding) simp_all
  next
    case False
    with pad m have "padded m = padded e" "url_safe m = url_safe e" by simp_all
    then have "m = e" by (cases m; cases e) (auto simp: padded_def url_safe_def)
    then show ?thesis by simp
  qed
  moreover have "AppendEncode ?t s = AppendEncode m s"
  proof (cases "url_safe ?t = url_safe m")
    case True
    with m(2) have "?t = m" by (cases ?t; cases m) (auto simp: padded_def url_safe_def)
    then show ?thesis by simp
  next
    case False
    have "\<not> url_safe ?t"
    proof
      assume u: "url_safe ?t"
      with False m have "\<not> url_safe e" by simp
      with u url std_no_url show False by blast
    qed
    with False m url \<open>AppendEncode m s = ?out\<close> show ?thesis
      by (intro encode_same_alphabet) auto
  qed
  ultimately show ?thesis by simp
qed

text \<open>Whatever encoding the producer used, the tolerant decoder reads it back.\<close>

lemma tolerant_decode_encode [simp]: "decodeBase64Tolerant (AppendEncode e s) = Some s"
  using decode_encode [of "tolerant_encoding (AppendEncode e s)" s]
  by (simp add: decodeBase64Tolerant_def encode_tolerant_encoding)

end
