(* ===== verification/Endpoint.thy ===== *)
theory Endpoint
  imports Netip GoBase64 Lines
begin

text \<open>
  The scheme-independent parts of the share-link parser, \<^verbatim>\<open>internal/subscription/subscription.go\<close>,
  \<^verbatim>\<open>ss.go\<close> and \<^verbatim>\<open>mieru.go\<close>: the shape of a scheme, the split of an authority into host and
  port, the port grammar, the legacy shadowsocks authority and the mieru port list.
\<close>

record Node =
  Raw :: string
  Scheme :: string
  Name :: string
  Server :: string
  Port :: string
  FragmentIdx :: "nat option"

definition is_alpha :: "char \<Rightarrow> bool" where
  "is_alpha c \<longleftrightarrow> is_lower c \<or> is_upper c"

definition scheme_tail_byte :: "char \<Rightarrow> bool" where
  "scheme_tail_byte c \<longleftrightarrow>
     is_lower c \<or> is_upper c \<or> is_digit c \<or> c = CHR ''+'' \<or> c = CHR ''-'' \<or> c = CHR ''.''"

definition validScheme :: "string \<Rightarrow> bool" where
  "validScheme s =
     (if s = [] then False
      else if \<not> is_lower (hd s) \<and> \<not> is_upper (hd s) then False
      else list_all scheme_tail_byte (tl s))"

definition splitHostPort :: "string \<Rightarrow> string \<times> string" where
  "splitHostPort auth =
     (let authority = (case last_index_byte CHR ''@'' auth of
                         None \<Rightarrow> auth | Some j \<Rightarrow> drop (j + 1) auth)
      in if authority = [] then ([], [])
         else if hd authority = CHR ''['' then
           (case index_byte CHR '']'' authority of
              None \<Rightarrow> ([], [])
            | Some j \<Rightarrow>
                (take (j - 1) (drop 1 authority),
                 if j + 1 < length authority \<and> authority ! (j + 1) = CHR '':''
                 then drop (j + 2) authority else []))
         else case last_index_byte CHR '':'' authority of
           None \<Rightarrow> (authority, [])
         | Some j \<Rightarrow>
             (if CHR '':'' \<in> set (take j authority) then (authority, [])
              else (take j authority, drop (j + 1) authority)))"

fun port_digits :: "nat \<Rightarrow> string \<Rightarrow> nat option" where
  "port_digits n [] = Some n"
| "port_digits n (c # cs) =
     (if \<not> is_digit c then None else port_digits (n * 10 + (byte c - 48)) cs)"

definition portNumber :: "string \<Rightarrow> nat option" where
  "portNumber s =
     (if s = [] \<or> length s > 5 then None
      else if length s > 1 \<and> hd s = CHR ''0'' then None
      else case port_digits 0 s of
        None \<Rightarrow> None
      | Some n \<Rightarrow> (if n < 1 \<or> n > 65535 then None else Some n))"

definition is_line_space :: "char \<Rightarrow> bool" where
  "is_line_space c \<longleftrightarrow> c = CHR '' '' \<or> c = CHR 0x09 \<or> c = CHR 0x0A \<or> c = CHR 0x0D"

definition stripWhitespace :: "string \<Rightarrow> string" where
  "stripWhitespace s =
     (if list_ex is_line_space s then filter (\<lambda>c. \<not> is_line_space c) s else s)"

section \<open>Legacy shadowsocks\<close>

definition decodeSSLegacy :: "string \<Rightarrow> (string \<times> string) option" where
  "decodeSSLegacy authority =
     (case DecodeString RawStdEncoding authority of
        None \<Rightarrow> None
      | Some decoded \<Rightarrow>
          (let plain = UnsafeString decoded
           in if CHR ''@'' \<notin> set plain then None
              else let (server, port) = splitHostPort plain
                   in if server = [] \<or> port = [] then None else Some (server, port)))"

definition ssFields :: "string \<Rightarrow> string \<Rightarrow> string \<Rightarrow> (string \<times> string) option" where
  "ssFields authority server port =
     (if port \<noteq> [] then Some (server, port) else decodeSSLegacy authority)"

section \<open>Mieru\<close>

definition mieruUsablePort :: "string \<Rightarrow> bool" where
  "mieruUsablePort value =
     (let (first, final, isRange) = cut_byte CHR ''-'' value
      in if isRange then
           (case (portNumber first, portNumber final) of
              (Some b, Some e) \<Rightarrow> b \<le> e
            | _ \<Rightarrow> False)
         else portNumber value \<noteq> None)"

function mieru_pairs :: "string \<Rightarrow> nat \<Rightarrow> nat \<Rightarrow> string \<Rightarrow> string \<times> nat \<times> nat" where
  "mieru_pairs port ports protocols query =
     (if query = [] then (port, ports, protocols)
      else let (pair, rest, _) = cut_byte CHR ''&'' query;
               (key, value, _) = cut_byte CHR ''='' pair
           in if key = ''port'' then
                mieru_pairs (if port = [] \<and> mieruUsablePort value then value else port)
                  (ports + 1) protocols rest
              else if key = ''protocol'' then mieru_pairs port ports (protocols + 1) rest
              else mieru_pairs port ports protocols rest)"
  by pat_completeness auto
termination
  by (relation "measure (\<lambda>(port, ports, protocols, query). length query)")
     (auto dest: cut_byte_length [OF sym])

declare mieru_pairs.simps [simp del]

definition mieruPort :: "string \<Rightarrow> string option" where
  "mieruPort tail =
     (let tail' = before_byte CHR ''#'' tail;
          (_, query, found) = cut_byte CHR ''?'' tail'
      in if \<not> found then None
         else let (port, ports, protocols) = mieru_pairs [] 0 0 query
              in if ports = 0 \<or> ports \<noteq> protocols \<or> port = [] then None else Some port)"

section \<open>Lemmas\<close>

lemma port_digits_eq:
  "port_digits n s = (if list_all is_digit s then Some (foldl (\<lambda>n c. n * 10 + (byte c - 48)) n s) else None)"
  by (induction n s rule: port_digits.induct) auto

lemma portNumber_digits: "portNumber s = Some n \<Longrightarrow> list_all is_digit s \<and> s \<noteq> []"
  by (auto simp: portNumber_def port_digits_eq split: if_splits)

lemma portNumber_value: "portNumber s = Some n \<Longrightarrow> dec_value s = n \<and> 1 \<le> n \<and> n \<le> 65535"
  by (auto simp: portNumber_def port_digits_eq dec_value_def split: if_splits)

lemma stripWhitespace_filter: "stripWhitespace s = filter (\<lambda>c. \<not> is_line_space c) s"
proof (cases "list_ex is_line_space s")
  case False
  then have "filter (\<lambda>c. \<not> is_line_space c) s = s" by (auto simp: list_ex_iff filter_id_conv)
  with False show ?thesis by (simp add: stripWhitespace_def)
qed (simp add: stripWhitespace_def)

lemma itoa_length_5: "n \<le> 65535 \<Longrightarrow> length (itoa n) \<le> 5"
proof -
  have step: "length (itoa n) \<le> Suc k" if "length (itoa (n div 10)) \<le> k" for n k
    using that by (subst itoa.simps) auto
  have one: "length (itoa n) \<le> 1" if "n < 10" for n
    using that by (subst itoa.simps) auto
  assume "n \<le> 65535"
  then have "n div 10 div 10 div 10 div 10 < 10" by simp
  from step [OF step [OF step [OF step [OF one [OF this]]]]] show ?thesis by simp
qed

text \<open>The accepted ports are exactly the printed numbers of the range.\<close>

lemma portNumber_itoa: "1 \<le> n \<Longrightarrow> n \<le> 65535 \<Longrightarrow> portNumber (itoa n) = Some n"
proof -
  assume n: "1 \<le> n" "n \<le> 65535"
  have "\<not> (length (itoa n) > 1 \<and> hd (itoa n) = CHR ''0'')"
  proof (cases "n < 10")
    case True
    then show ?thesis by (subst (1) itoa.simps) simp
  next
    case False
    then show ?thesis using hd_itoa by simp
  qed
  moreover have "port_digits 0 (itoa n) = Some n"
    using dec_value_itoa [of n] by (simp add: port_digits_eq dec_value_def)
  ultimately show ?thesis using n itoa_length_5 [OF n(2)] by (simp add: portNumber_def)
qed

text \<open>Decimal digits without a leading zero are the number's own print.\<close>

lemma itoa_snoc: "0 < v \<Longrightarrow> is_digit c \<Longrightarrow> itoa (v * 10 + (byte c - 48)) = itoa v @ [c]"
proof -
  assume v: "0 < v" and c: "is_digit c"
  then have d: "byte c - 48 < 10" by (auto simp: is_digit_def)
  have "char_of (48 + (v * 10 + (byte c - 48)) mod 10) = c"
  proof -
    have e: "(v * 10 + (byte c - 48)) mod 10 = byte c - 48" using d by simp
    have "48 + (byte c - 48) = byte c" using c by (simp add: is_digit_def)
    then show ?thesis unfolding e by simp
  qed
  moreover have "(v * 10 + (byte c - 48)) div 10 = v" using d by simp
  ultimately show ?thesis using v by (subst itoa.simps) simp
qed

lemma itoa_single: "is_digit c \<Longrightarrow> itoa (byte c - 48) = [c]"
proof -
  assume "is_digit c"
  then have "byte c - 48 < 10" "48 + (byte c - 48) = byte c" by (auto simp: is_digit_def)
  then show ?thesis by (subst itoa.simps) simp
qed

lemma itoa_dec_value:
  assumes "list_all is_digit s" "s \<noteq> []" "hd s \<noteq> CHR ''0''"
  shows "itoa (dec_value s) = s \<and> 0 < dec_value s"
  using assms
proof (induction s rule: rev_induct)
  case (snoc c s)
  show ?case
  proof (cases "s = []")
    case True
    with snoc.prems have "c \<noteq> CHR ''0''" by simp
    then have "byte c \<noteq> byte CHR ''0''" by (simp only: of_char_eq_iff not_False_eq_True)
    with True snoc.prems show ?thesis by (simp add: dec_value_def itoa_single is_digit_def)
  next
    case False
    with snoc have "itoa (dec_value s) = s" "0 < dec_value s" by (auto simp: hd_append)
    with snoc.prems show ?thesis by (simp add: itoa_snoc)
  qed
qed simp

text \<open>The pairs of a query, as the loop cuts them.\<close>

definition query_pairs :: "string \<Rightarrow> (string \<times> string) list" where
  "query_pairs q =
     map (\<lambda>p. let (k, v, _) = cut_byte CHR ''='' p in (k, v)) (split_byte CHR ''&'' q)"

definition port_values :: "string \<Rightarrow> string list" where
  "port_values q = map snd (filter (\<lambda>p. fst p = ''port'') (query_pairs q))"

definition protocol_count :: "string \<Rightarrow> nat" where
  "protocol_count q = length (filter (\<lambda>p. fst p = ''protocol'') (query_pairs q))"

lemma split_byte_cut:
  "split_byte c s = (let (a, b, f) = cut_byte c s in if f then a # split_byte c b else [a])"
  by (auto simp: cut_byte_def index_byte_None split_byte_index split: option.splits)

lemma query_pairs_step:
  assumes "cut_byte CHR ''&'' q = (pair, rest, f)" "cut_byte CHR ''='' pair = (k, v, g)"
  shows "query_pairs q = (k, v) # (if f then query_pairs rest else [])"
  using assms by (simp add: query_pairs_def split_byte_cut [of _ q])

lemma cut_not_found: "cut_byte c s = (a, b, False) \<Longrightarrow> b = []"
  by (auto simp: cut_byte_def split: option.splits)

lemma query_pairs_empty: "query_pairs [] = [([], [])]"
  by (simp add: query_pairs_def cut_byte_Nil)

lemma mieruUsablePort_nonempty: "mieruUsablePort v \<Longrightarrow> v \<noteq> []"
  by (auto simp: mieruUsablePort_def cut_byte_Nil portNumber_def)

lemma mieru_pairs_eq:
  "mieru_pairs port a b q =
     (if port \<noteq> [] then port
      else case find mieruUsablePort (port_values q) of None \<Rightarrow> [] | Some v \<Rightarrow> v,
      a + length (port_values q), b + protocol_count q)"
proof (induction port a b q rule: mieru_pairs.induct)
  case (1 port a b q)
  show ?case
  proof (cases "q = []")
    case True
    then show ?thesis
      by (subst mieru_pairs.simps)
         (simp add: port_values_def protocol_count_def query_pairs_def cut_byte_Nil)
  next
    case False
    obtain pair rest f where c: "cut_byte CHR ''&'' q = (pair, rest, f)" by (metis prod_cases3)
    obtain k v g where e: "cut_byte CHR ''='' pair = (k, v, g)" by (metis prod_cases3)
    have qs: "query_pairs q = (k, v) # (if f then query_pairs rest else [])"
      by (rule query_pairs_step [OF c e])
    have p: "port_values q = (if k = ''port'' then [v] else []) @ port_values rest"
        "protocol_count q = (if k = ''protocol'' then 1 else 0) + protocol_count rest"
      using cut_not_found [of "CHR ''&''" q pair rest] c
      by (cases f; simp add: port_values_def protocol_count_def qs query_pairs_empty)+
    have ih: "mieru_pairs (if port = [] \<and> mieruUsablePort v then v else port) (a + 1) b rest =
        (if (if port = [] \<and> mieruUsablePort v then v else port) \<noteq> []
         then (if port = [] \<and> mieruUsablePort v then v else port)
         else case find mieruUsablePort (port_values rest) of None \<Rightarrow> [] | Some v \<Rightarrow> v,
         a + 1 + length (port_values rest), b + protocol_count rest)" if "k = ''port''"
      using "1.IH"(1) [OF False c [symmetric] refl refl e [symmetric] refl refl that] .
    have ih2: "mieru_pairs port a (b + 1) rest =
        (if port \<noteq> [] then port
         else case find mieruUsablePort (port_values rest) of None \<Rightarrow> [] | Some v \<Rightarrow> v,
         a + length (port_values rest), b + 1 + protocol_count rest)" if "k = ''protocol''"
      using "1.IH"(2) [OF False c [symmetric] refl refl e [symmetric] refl refl _ that] that by simp
    have ih3: "mieru_pairs port a b rest =
        (if port \<noteq> [] then port
         else case find mieruUsablePort (port_values rest) of None \<Rightarrow> [] | Some v \<Rightarrow> v,
         a + length (port_values rest), b + protocol_count rest)"
      if "k \<noteq> ''port''" "k \<noteq> ''protocol''"
      using "1.IH"(3) [OF False c [symmetric] refl refl e [symmetric] refl refl that] .
    consider "k = ''port''" | "k = ''protocol''" | "k \<noteq> ''port''" "k \<noteq> ''protocol''" by blast
    then show ?thesis
    proof cases
      case 1
      with ih mieruUsablePort_nonempty [of v] show ?thesis
        by (subst mieru_pairs.simps) (auto simp: False c e p)
    next
      case 2
      with ih2 show ?thesis by (subst mieru_pairs.simps) (simp add: False c e p)
    next
      case 3
      with ih3 show ?thesis by (subst mieru_pairs.simps) (simp add: False c e p)
    qed
  qed
qed

section \<open>Properties\<close>

text \<open>
  the port grammar accepts exactly the decimal numbers 1 to 65535 written without a
  leading zero, and yields that number, although the digits are accumulated unchecked.
\<close>

theorem port_number_exact:
  "portNumber s = Some n \<longleftrightarrow> 1 \<le> n \<and> n \<le> 65535 \<and> s = itoa n"
proof
  assume p: "portNumber s = Some n"
  then have d: "list_all is_digit s" "s \<noteq> []" and v: "dec_value s = n" "1 \<le> n" "n \<le> 65535"
    using portNumber_digits portNumber_value by auto
  have "hd s \<noteq> CHR ''0''"
  proof
    assume z: "hd s = CHR ''0''"
    with p have "length s \<le> 1" by (auto simp: portNumber_def split: if_splits)
    with d(2) z have "s = ''0''" by (cases s) auto
    with v show False by (simp add: dec_value_def)
  qed
  with itoa_dec_value d v show "1 \<le> n \<and> n \<le> 65535 \<and> s = itoa n" by metis
qed (auto simp: portNumber_itoa)

text \<open>
  a mieru link is kept exactly when its query names as many ports as protocols and one of
  the ports is usable, and it is booked under the first usable one; unusable values cost
  nothing but themselves.
\<close>

theorem mieru_first_usable_port:
  "mieruPort tail =
     (let (_, query, found) = cut_byte CHR ''?'' (before_byte CHR ''#'' tail)
      in if found \<and> length (port_values query) = protocol_count query
         then find mieruUsablePort (port_values query) else None)"
proof -
  obtain b query found where c: "cut_byte CHR ''?'' (before_byte CHR ''#'' tail) = (b, query, found)"
    by (metis prod_cases3)
  have ne: "find mieruUsablePort vs = Some v \<Longrightarrow> v \<noteq> []" for vs v
    using mieruUsablePort_nonempty by (auto simp: find_Some_iff)
  have none: "port_values query = [] \<Longrightarrow> find mieruUsablePort (port_values query) = None" by simp
  show ?thesis
    using ne [of "port_values query"]
    by (cases "find mieruUsablePort (port_values query)")
       (auto simp: mieruPort_def c mieru_pairs_eq)
qed

end
