(* ===== verification/Ssr.thy ===== *)
theory Ssr
  imports Query Endpoint
begin

text \<open>
  \<^verbatim>\<open>internal/subscription/ssr.go\<close>: the ssr share link, whose host, port and display name are all
  inside one base64 payload, its parser and its relabeller. Parsing and relabelling share
  \<^verbatim>\<open>decodeSSR\<close>; the lemmas follow a payload through the relabeller and back through the parser.
\<close>

definition url_safe_byte :: "char \<Rightarrow> char" where
  "url_safe_byte c = (if c = CHR ''+'' then CHR ''-'' else if c = CHR ''/'' then CHR ''_'' else c)"

definition ssrURLSafeQuery :: "string \<Rightarrow> string" where
  "ssrURLSafeQuery query =
     (if CHR ''+'' \<notin> set query \<and> CHR ''/'' \<notin> set query then query
      else map url_safe_byte query)"

definition decodeSSR :: "string \<Rightarrow> (string \<times> queryList) option" where
  "decodeSSR payload =
     (case decodeBase64Tolerant (stripWhitespace (before_byte CHR ''#'' payload)) of
        None \<Rightarrow> None
      | Some decoded \<Rightarrow>
          (let (head, rawQuery, ok) = cut_str ''/?'' decoded
           in if \<not> ok then None
              else if length (filter ((=) CHR '':'') head) \<noteq> 5 then None
              else let (query, ok) = query_parse [] (ssrURLSafeQuery rawQuery)
                   in if \<not> ok then None else Some (head, query)))"

definition ssrRemarks :: "queryList \<Rightarrow> string" where
  "ssrRemarks query =
     (case decodeBase64Tolerant (query_get query ''remarks'') of
        None \<Rightarrow> []
      | Some decoded \<Rightarrow> trim_space decoded)"

definition parseSSR :: "string \<Rightarrow> string \<Rightarrow> Node option" where
  "parseSSR line payload =
     (case decodeSSR payload of
        None \<Rightarrow> None
      | Some (head, query) \<Rightarrow>
          (let (server, rest, _) = cut_byte CHR '':'' head;
               (port, _, _) = cut_byte CHR '':'' rest
           in if server = [] \<or> portNumber port = None then None
              else let name = ssrRemarks query
                   in Some \<lparr>Raw = line, Scheme = ''ssr'',
                            Name = (if name = [] then server else name),
                            Server = server, Port = port,
                            FragmentIdx = index_byte CHR ''#'' line\<rparr>))"

definition compose_name :: "string \<Rightarrow> string \<Rightarrow> string" where
  "compose_name tags cleanName = (if tags \<noteq> [] then tags @ '' '' else []) @ cleanName"

definition rewriteSSRName :: "string \<Rightarrow> string \<Rightarrow> string \<Rightarrow> string option" where
  "rewriteSSRName raw tags cleanName =
     (let (_, payload, found) = cut_str ''://'' raw
      in if \<not> found then None
         else case decodeSSR payload of
           None \<Rightarrow> None
         | Some (head, query) \<Rightarrow>
             (let composed = compose_name tags cleanName;
                  query = query_set query ''remarks'' (AppendEncode RawURLEncoding composed);
                  plain = appendEncoded query (head @ ''/?'')
              in Some (''ssr://'' @ AppendEncode RawURLEncoding plain)))"

definition RewriteSSRName :: "string \<Rightarrow> string \<Rightarrow> string option" where
  "RewriteSSRName raw newName = rewriteSSRName raw [] newName"

definition RewriteSSRNameTagged :: "string \<Rightarrow> string \<Rightarrow> string \<Rightarrow> string option" where
  "RewriteSSRNameTagged raw tags cleanName = rewriteSSRName raw tags cleanName"

section \<open>Cutting where the separator was found\<close>

lemma index_str_recut:
  "index_str sep s = Some i \<Longrightarrow> index_str sep (take i s @ sep @ t) = Some i"
proof (induction sep s arbitrary: i rule: index_str.induct)
  case (1 sep)
  then show ?case by (cases t) (auto split: if_splits)
next
  case (2 sep x xs)
  show ?case
  proof (cases "has_prefix sep (x # xs)")
    case True
    with "2.prems" have "i = 0" by simp
    have "index_str sep (sep @ t) = Some 0"
    proof (cases "sep @ t")
      case (Cons a l)
      have "has_prefix sep (sep @ t)" by simp
      then have "has_prefix sep (a # l)" by (simp only: Cons)
      then show ?thesis unfolding Cons by simp
    qed simp
    then show ?thesis using \<open>i = 0\<close> by simp
  next
    case False
    with "2.prems" obtain j where j: "index_str sep xs = Some j" "i = Suc j" by auto
    from index_str_Some [OF j(1)]
    have e: "take j xs @ sep = take (j + length sep) xs"
      by (metis (no_types) add.commute add_diff_cancel_right' append_eq_append_conv_if append_take_drop_id
          drop_drop length_drop take_add append_eq_conv_conj)
    have "take (length sep) (x # take j xs @ sep @ t) = take (length sep) (x # xs)"
    proof -
      have "take (length sep) (x # take j xs @ sep @ t) = take (length sep) ((x # take (j + length sep) xs) @ t)"
        by (simp flip: e)
      also have "\<dots> = take (length sep) (x # take (j + length sep) xs)"
        by (subst take_append) (use index_str_Some [OF j(1)] in \<open>simp add: min_def\<close>)
      also have "\<dots> = take (length sep) (take (Suc (j + length sep)) (x # xs))" by simp
      also have "\<dots> = take (length sep) (x # xs)"
        by (simp only: take_take min.absorb1 le_SucI le_add2)
      finally show ?thesis .
    qed
    with False have "\<not> has_prefix sep (x # take j xs @ sep @ t)" by (simp add: has_prefix_def)
    with "2.IH" [OF False j(1)] j(2) show ?thesis by simp
  qed
qed

lemma cut_str_recut:
  "cut_str sep s = (a, b, True) \<Longrightarrow> cut_str sep (a @ sep @ t) = (a, t, True)"
proof -
  assume c: "cut_str sep s = (a, b, True)"
  then obtain i where i: "index_str sep s = Some i" "a = take i s"
    by (auto simp: cut_str_def split: option.splits)
  then have "index_str sep (a @ sep @ t) = Some i" using index_str_recut by blast
  moreover have "length a = i" using i index_str_Some [OF i(1)] by simp
  ultimately show ?thesis by (auto simp: cut_str_def)
qed

section \<open>The url-safe mapping of an encoded query\<close>

lemma ssrURLSafeQuery_map: "ssrURLSafeQuery q = map url_safe_byte q"
proof (cases "CHR ''+'' \<notin> set q \<and> CHR ''/'' \<notin> set q")
  case True
  then have "map url_safe_byte q = q" by (intro map_idI) (auto simp: url_safe_byte_def)
  with True show ?thesis by (simp add: ssrURLSafeQuery_def)
qed (auto simp: ssrURLSafeQuery_def)

definition dash_space :: "char \<Rightarrow> char" where
  "dash_space c = (if c = CHR '' '' then CHR ''-'' else c)"

definition dash_pair :: "queryPair \<Rightarrow> queryPair" where
  "dash_pair p = qpair (map dash_space (qkey p)) (map dash_space (qvalue p))"

lemma url_safe_alnum: "is_digit c \<or> is_upper c \<Longrightarrow> url_safe_byte c = c"
  by (auto simp: url_safe_byte_def is_digit_def is_upper_def)

lemma QueryUnescape_safe_byte:
  "QueryUnescape (map url_safe_byte (escape_byte c) @ s) = map_option ((#) (dash_space c)) (QueryUnescape s)"
proof (cases "unreserved c \<or> c \<noteq> CHR '' ''")
  case True
  have h: "byte c div 16 < 16" by (simp add: div_less_iff_less_mult)
  have "map url_safe_byte (escape_byte c) = escape_byte c"
    using True url_safe_alnum upperhex_alnum [OF h] upperhex_alnum [of "byte c mod 16"]
    by (auto simp: escape_byte_def hex_escape_def url_safe_byte_def)
  moreover have "dash_space c = c" using True by (auto simp: dash_space_def)
  ultimately show ?thesis by (simp add: QueryUnescape_escape_byte)
qed (simp add: escape_byte_def url_safe_byte_def dash_space_def)

lemma QueryUnescape_safe: "QueryUnescape (map url_safe_byte (escape s)) = Some (map dash_space s)"
  by (induction s) (simp_all add: QueryUnescape_safe_byte)

lemma QueryUnescape_plain: "CHR ''%'' \<notin> set s \<Longrightarrow> CHR ''+'' \<notin> set s \<Longrightarrow> QueryUnescape s = Some s"
  by (induction s) auto

lemma unescapeQuery_eq: "unescapeQuery s = QueryUnescape s"
  by (simp add: unescapeQuery_def QueryUnescape_plain)

definition safe_raw :: "string \<times> string \<Rightarrow> string \<times> string" where
  "safe_raw r = (map url_safe_byte (fst r), map url_safe_byte (snd r))"

lemma safe_join: "map url_safe_byte (join_raw rs) = join_raw (map safe_raw rs)"
  by (induction rs rule: join_raw.induct) (simp_all add: safe_raw_def url_safe_byte_def)

lemma clean_safe: "clean_raw (safe_raw (escaped p))"
proof -
  have "c \<notin> {CHR ''&'', CHR ''='', CHR '';''}" if "c \<in> set (map url_safe_byte (escape s))" for c s
    using that escape_not_special(1-3) [of s]
    by (auto simp: url_safe_byte_def split: if_splits)
  then show ?thesis by (fastforce simp: clean_raw_def safe_raw_def escaped_def)
qed

lemma raw_pair_safe: "raw_pair (safe_raw (escaped p)) = Some (dash_pair p)"
  by (simp add: raw_pair_def safe_raw_def escaped_def unescapeQuery_eq QueryUnescape_safe dash_pair_def)

lemma parse_safe_encoded:
  "length q \<le> maxQueryParams \<Longrightarrow>
     query_parse [] (ssrURLSafeQuery (join_raw (map escaped q))) = (map dash_pair q, True)"
  unfolding ssrURLSafeQuery_map safe_join
  by (rule query_parse_joined) (simp_all add: list_all_iff clean_safe raw_pair_safe)

lemma dash_space_remarks: "map dash_space k = ''remarks'' \<longleftrightarrow> k = ''remarks''"
proof
  assume m: "map dash_space k = ''remarks''"
  have "CHR '' '' \<notin> set k"
  proof
    assume "CHR '' '' \<in> set k"
    then have "dash_space CHR '' '' \<in> set (map dash_space k)" by (metis image_eqI set_map)
    with m show False by (simp add: dash_space_def)
  qed
  then have "map dash_space k = k" by (intro map_idI) (auto simp: dash_space_def)
  with m show "k = ''remarks''" by simp
qed (simp add: dash_space_def)

lemma dash_encoded: "map dash_space (AppendEncode e s) = AppendEncode e s"
  by (intro map_idI) (auto simp: dash_space_def dest: encode_no_breaks)

text \<open>The new name is what the relabelled query answers, wherever the sort put it.\<close>

lemma relabelled_remarks:
  "query_get (map dash_pair (sortByKey (query_set q ''remarks'' (AppendEncode e s)))) ''remarks'' =
     AppendEncode e s"
proof (rule query_set_cases [of q "''remarks''" "AppendEncode e s"])
  fix a b
  assume e: "query_set q ''remarks'' (AppendEncode e s) = a @ qpair ''remarks'' (AppendEncode e s) # b"
    and a: "''remarks'' \<notin> qkey ` set a" and b: "''remarks'' \<notin> qkey ` set b"
  let ?q = "map dash_pair (sortByKey (query_set q ''remarks'' (AppendEncode e s)))"
  have st: "set (sortByKey (query_set q ''remarks'' (AppendEncode e s))) =
      set a \<union> {qpair ''remarks'' (AppendEncode e s)} \<union> set b"
    by (simp add: sortByKey_def e)
  have "dash_pair (qpair ''remarks'' (AppendEncode e s)) = qpair ''remarks'' (AppendEncode e s)"
    by (simp add: dash_pair_def qpair_def dash_encoded dash_space_def)
  then have "qpair ''remarks'' (AppendEncode e s) \<in> set ?q" using st by force
  then have "qkey (qpair ''remarks'' (AppendEncode e s)) \<in> qkey ` set ?q" by (rule imageI)
  then have p: "''remarks'' \<in> qkey ` set ?q" by (simp only: qpair_def queryPair.select_convs)
  show ?thesis
  proof (rule query_get_unique [OF _ p], intro ballI impI)
    fix x assume "x \<in> set ?q" and k: "qkey x = ''remarks''"
    then obtain y where y: "y \<in> set a \<union> {qpair ''remarks'' (AppendEncode e s)} \<union> set b" "x = dash_pair y"
      unfolding set_map st by blast
    with k have "qkey y = ''remarks''" by (simp add: dash_pair_def qpair_def dash_space_remarks)
    with y(1) a b have "y = qpair ''remarks'' (AppendEncode e s)" by force
    then show "qvalue x = AppendEncode e s" by (simp add: y(2) dash_pair_def qpair_def dash_encoded)
  qed
qed

lemma encoded_payload:
  "decodeBase64Tolerant (stripWhitespace (before_byte CHR ''#'' (AppendEncode e s))) = Some s"
proof -
  have "before_byte CHR ''#'' (AppendEncode e s) = AppendEncode e s"
    by (rule before_byte_absent) (blast dest: encode_no_breaks)
  moreover have "stripWhitespace (AppendEncode e s) = AppendEncode e s"
    unfolding stripWhitespace_filter filter_id_conv
    by (auto simp: is_line_space_def dest: encode_no_breaks)
  ultimately show ?thesis by simp
qed

text \<open>The largest query a relabelled link still parses with: one pair is spare for the name.\<close>

definition relabel_fits :: "queryList \<Rightarrow> bool" where
  "relabel_fits q \<longleftrightarrow> length q < maxQueryParams \<or> length q = maxQueryParams \<and> ''remarks'' \<in> qkey ` set q"

lemma relabel_fits_length:
  assumes "relabel_fits q" shows "length (query_set q ''remarks'' v) \<le> maxQueryParams"
proof (cases "length q < maxQueryParams")
  case True
  with query_set_length [of q "''remarks''" v] show ?thesis by linarith
next
  case False
  with assms have "length q = maxQueryParams" "''remarks'' \<in> qkey ` set q"
    by (auto simp: relabel_fits_def)
  with query_set_length_present [of "''remarks''" q v] show ?thesis by simp
qed

lemma decodeSSR_relabelled:
  fixes s :: string
  assumes d: "decodeSSR payload = Some (head, q)" and fits: "relabel_fits q"
  defines "q' \<equiv> query_set q ''remarks'' (AppendEncode RawURLEncoding s)"
  shows "decodeSSR (AppendEncode RawURLEncoding (appendEncoded q' (head @ ''/?''))) =
           Some (head, map dash_pair (sortByKey q'))"
proof -
  obtain decoded rawQuery where "cut_str ''/?'' decoded = (head, rawQuery, True)"
    and c: "length (filter ((=) CHR '':'') head) = 5"
    using d by (auto simp: decodeSSR_def split: option.splits prod.splits if_splits)
  then have "cut_str ''/?'' (head @ ''/?'' @ join_raw (map escaped (sortByKey q'))) =
      (head, join_raw (map escaped (sortByKey q')), True)"
    using cut_str_recut by blast
  moreover have "appendEncoded q' (head @ ''/?'') = head @ ''/?'' @ join_raw (map escaped (sortByKey q'))"
    by (simp add: appendEncoded_eq)
  moreover have "length (sortByKey q') \<le> maxQueryParams"
    using relabel_fits_length [OF fits] by (simp add: q'_def)
  ultimately show ?thesis
    unfolding decodeSSR_def encoded_payload option.case
    by (simp only: prod.case Let_def not_True_eq_False if_False c parse_safe_encoded) simp
qed

lemma cut_ssr: "cut_str ''://'' (''ssr://'' @ t) = (''ssr'', t, True)"
  by (simp add: cut_str_def has_prefix_def)

lemma no_hash_ssr: "index_byte CHR ''#'' (''ssr://'' @ AppendEncode e s) = None"
  by (auto simp: index_byte_None dest: encode_no_breaks)

section \<open>Property\<close>

text \<open>
  accepting an ssr link and relabelling it are one decision. A link the parser accepts is
  relabelled, and what comes out parses to the same node with the new name: the same server
  and port, the composed name trimmed (the server where that is empty), no fragment. The
  bound is the query's: the name needs a slot within the parser's 10,000 pairs.
\<close>

theorem ssr_relabel:
  assumes "cut_str ''://'' line = (scheme, payload, True)"
    and "parseSSR line payload = Some nd"
    and "\<And>head q. decodeSSR payload = Some (head, q) \<Longrightarrow> relabel_fits q"
  shows "\<exists>out. RewriteSSRNameTagged line tags name = Some (''ssr://'' @ out) \<and>
     parseSSR (''ssr://'' @ out) out =
       Some (nd\<lparr>Raw := ''ssr://'' @ out, FragmentIdx := None,
                Name := (let n = trim_space (compose_name tags name)
                         in if n = [] then Server nd else n)\<rparr>)"
proof -
  obtain head q where d: "decodeSSR payload = Some (head, q)"
    using assms(2) by (auto simp: parseSSR_def split: option.splits)
  obtain server rest f where s: "cut_byte CHR '':'' head = (server, rest, f)" by (metis prod_cases3)
  obtain port r g where p: "cut_byte CHR '':'' rest = (port, r, g)" by (metis prod_cases3)
  have ok: "\<not> (server = [] \<or> portNumber port = None)" and nd: "Scheme nd = ''ssr''" "Server nd = server" "Port nd = port"
    using assms(2) by (auto simp: parseSSR_def d s p Let_def split: if_splits)
  define q' where "q' = query_set q ''remarks'' (AppendEncode RawURLEncoding (compose_name tags name))"
  define out where "out = AppendEncode RawURLEncoding (appendEncoded q' (head @ ''/?''))"
  have d': "decodeSSR out = Some (head, map dash_pair (sortByKey q'))"
    unfolding out_def q'_def by (rule decodeSSR_relabelled [OF d assms(3) [OF d]])
  have n: "ssrRemarks (map dash_pair (sortByKey q')) = trim_space (compose_name tags name)"
    unfolding ssrRemarks_def q'_def relabelled_remarks by simp
  have i: "index_byte CHR ''#'' (''ssr://'' @ out) = None"
    unfolding out_def by (rule no_hash_ssr)
  have "parseSSR (''ssr://'' @ out) out =
       Some (nd\<lparr>Raw := ''ssr://'' @ out, FragmentIdx := None,
                Name := (let n = trim_space (compose_name tags name)
                         in if n = [] then Server nd else n)\<rparr>)"
    unfolding parseSSR_def d' option.case prod.case s p Let_def if_not_P [OF ok] n i
    using nd by (cases nd) (simp only: Node.simps Node.update_convs)
  moreover have "RewriteSSRNameTagged line tags name = Some (''ssr://'' @ out)"
    by (simp add: RewriteSSRNameTagged_def rewriteSSRName_def assms(1) d out_def q'_def)
  ultimately show ?thesis by blast
qed

lemma sample_payload:
  "decodeSSR (AppendEncode RawURLEncoding ''h:1:a:b:c:d/?'') = Some (''h:1:a:b:c:d'', [])"
  unfolding decodeSSR_def encoded_payload
  by (simp add: cut_str_def has_prefix_def ssrURLSafeQuery_def query_parse_def maxQueryParams_def
      query_parse_loop.simps)

lemma sample_ssr:
  "\<exists>nd. parseSSR line (AppendEncode RawURLEncoding ''h:1:a:b:c:d/?'') = Some nd"
  unfolding parseSSR_def sample_payload
  by (simp add: cut_byte_compute portNumber_def is_digit_def Let_def)

lemma ssr_relabel_witness:
  "\<exists>nd out. RewriteSSRNameTagged (''ssr://'' @ AppendEncode RawURLEncoding ''h:1:a:b:c:d/?'') ''T'' ''N'' =
       Some (''ssr://'' @ out) \<and>
     parseSSR (''ssr://'' @ out) out =
       Some (nd\<lparr>Raw := ''ssr://'' @ out, FragmentIdx := None,
                Name := (let n = trim_space (compose_name ''T'' ''N'')
                         in if n = [] then Server nd else n)\<rparr>)"
proof -
  let ?p = "AppendEncode RawURLEncoding ''h:1:a:b:c:d/?''"
  obtain nd where nd: "parseSSR (''ssr://'' @ ?p) ?p = Some nd" using sample_ssr by blast
  have "relabel_fits q" if "decodeSSR ?p = Some (head, q)" for head q
    using that unfolding sample_payload by (simp add: relabel_fits_def maxQueryParams_def)
  note r = ssr_relabel [where tags = "''T''" and name = "''N''", OF cut_ssr nd this]
  show ?thesis by (rule exI [where x = nd], rule r)
qed

end
