(* ===== verification/Vmess.thy ===== *)
theory Vmess
  imports GoJson Ssr
begin

text \<open>
  \<^verbatim>\<open>internal/subscription/vmess.go\<close>: the vmess share link, in its base64 JSON form and in the
  Xray AEAD form that looks like any other link, its parser and its relabellers. The JSON
  walkers index the document directly and rely on \<^verbatim>\<open>json.Valid\<close> having accepted it, so an
  index out of range is modelled as what it is in Go: \<open>Panic\<close>.
\<close>

datatype 'a outcome = Panic | Refuse | Done 'a

fun accepted :: "'a outcome \<Rightarrow> 'a option" where
  "accepted (Done x) = Some x"
| "accepted _ = None"

section \<open>Walking a document\<close>

function skipJSONSpace :: "string \<Rightarrow> nat \<Rightarrow> nat" where
  "skipJSONSpace doc i =
     (if i < length doc \<and> json_space (doc ! i) then skipJSONSpace doc (i + 1) else i)"
  by pat_completeness auto
termination by (relation "measure (\<lambda>(doc, i). length doc - i)") auto

function string_end :: "string \<Rightarrow> nat \<Rightarrow> nat" where
  "string_end doc i =
     (if length doc \<le> i then length doc
      else if doc ! i = CHR 0x5C then string_end doc (i + 2)
      else if doc ! i = CHR 0x22 then i + 1
      else string_end doc (i + 1))"
  by pat_completeness auto
termination by (relation "measure (\<lambda>(doc, i). length doc - i)") auto

declare skipJSONSpace.simps [simp del] string_end.simps [simp del]

definition endOfJSONString :: "string \<Rightarrow> nat \<Rightarrow> nat" where
  "endOfJSONString doc i = string_end doc (i + 1)"

lemma skip_ge: "i \<le> skipJSONSpace doc i"
proof (induction doc i rule: skipJSONSpace.induct)
  case (1 doc i)
  then show ?case by (subst skipJSONSpace.simps) auto
qed

lemma string_end_gt: "i < length doc \<Longrightarrow> i < string_end doc i"
proof (induction doc i rule: string_end.induct)
  case (1 doc i)
  have l: "string_end doc j = length doc" if "length doc \<le> j" for j
    using that by (subst string_end.simps) simp
  have "i < string_end doc (i + 2)" if "doc ! i = CHR 0x5C"
    using 1 that l [of "i + 2"] by (cases "i + 2 < length doc") auto
  moreover have "i < string_end doc (i + 1)" if "doc ! i \<noteq> CHR 0x5C" "doc ! i \<noteq> CHR 0x22"
    using 1 that l [of "i + 1"] by (cases "i + 1 < length doc") auto
  ultimately show ?case using "1.prems" by (subst string_end.simps) auto
qed

lemma endOfJSONString_gt: "i < length doc \<Longrightarrow> i < endOfJSONString doc i"
proof (cases "i + 1 < length doc")
  case True
  then show ?thesis using string_end_gt [of "i + 1" doc] by (simp add: endOfJSONString_def)
next
  case False
  assume "i < length doc"
  with False show ?thesis
    unfolding endOfJSONString_def by (subst string_end.simps) simp
qed

function container_end :: "string \<Rightarrow> nat \<Rightarrow> int \<Rightarrow> nat" where
  "container_end doc i depth =
     (if length doc \<le> i then length doc
      else if doc ! i = CHR 0x22 then container_end doc (endOfJSONString doc i) depth
      else if doc ! i = CHR 0x7B \<or> doc ! i = CHR ''['' then container_end doc (i + 1) (depth + 1)
      else if doc ! i = CHR 0x7D \<or> doc ! i = CHR '']'' then
        (if depth - 1 = 0 then i + 1 else container_end doc (i + 1) (depth - 1))
      else container_end doc (i + 1) depth)"
  by pat_completeness auto
termination
proof (relation "measure (\<lambda>(doc, i, depth). length doc - i)", goal_cases)
  case (2 doc i depth)
  then show ?case using endOfJSONString_gt [of i doc] by auto
qed auto

definition value_stop :: "char \<Rightarrow> bool" where
  "value_stop c \<longleftrightarrow> c = CHR '','' \<or> c = CHR 0x7D \<or> c = CHR '']'' \<or> json_space c"

function scalar_end :: "string \<Rightarrow> nat \<Rightarrow> nat" where
  "scalar_end doc i =
     (if length doc \<le> i then length doc
      else if value_stop (doc ! i) then i else scalar_end doc (i + 1))"
  by pat_completeness auto
termination by (relation "measure (\<lambda>(doc, i). length doc - i)") auto

declare container_end.simps [simp del] scalar_end.simps [simp del]

text \<open>\<open>None\<close>: the first byte is out of range.\<close>

definition endOfJSONValue :: "string \<Rightarrow> nat \<Rightarrow> nat option" where
  "endOfJSONValue doc i =
     (if length doc \<le> i then None
      else Some (if doc ! i = CHR 0x22 then endOfJSONString doc i
                 else if doc ! i = CHR 0x7B \<or> doc ! i = CHR ''['' then container_end doc i 0
                 else scalar_end doc i))"

text \<open>A slice expression \<^verbatim>\<open>s[i:j]\<close>, \<open>None\<close> when out of range.\<close>

definition slice :: "string \<Rightarrow> nat \<Rightarrow> nat \<Rightarrow> string option" where
  "slice s i j = (if i \<le> j \<and> j \<le> length s then Some (take (j - i) (drop i s)) else None)"

definition jsonKeyEquals :: "string \<Rightarrow> string \<Rightarrow> bool option" where
  "jsonKeyEquals token want =
     (if length token < 2 then None
      else let inner = butlast (tl token)
           in if CHR 0x5C \<notin> set inner then Some (inner = want)
              else Some (unmarshal_string token = Some want))"

record vmessScalars =
  vadd :: string
  vport :: string
  vps :: string
  psAt :: "nat option"

function vmess_walk :: "string \<Rightarrow> nat \<Rightarrow> vmessScalars \<Rightarrow> vmessScalars option" where
  "vmess_walk doc i0 out =
     (let i = skipJSONSpace doc i0
      in if i = length doc then Some out
         else if length doc < i then None
         else if doc ! i = CHR 0x7D then Some out
         else let keyEnd = endOfJSONString doc i;
                  v = skipJSONSpace doc (skipJSONSpace doc keyEnd + 1)
              in case (slice doc i keyEnd, endOfJSONValue doc v) of
                   (Some key, Some valEnd) \<Rightarrow>
                     (case (slice doc v valEnd, jsonKeyEquals key ''add'',
                            jsonKeyEquals key ''port'', jsonKeyEquals key ''ps'') of
                        (Some val, Some isAdd, Some isPort, Some isPs) \<Rightarrow>
                          (let out' = (if isAdd then out\<lparr>vadd := val\<rparr>
                                       else if isPort then out\<lparr>vport := val\<rparr>
                                       else if isPs then out\<lparr>vps := val, psAt := Some v\<rparr>
                                       else out);
                               j = skipJSONSpace doc valEnd
                           in vmess_walk doc
                                (if j < length doc \<and> doc ! j = CHR '','' then j + 1 else j) out')
                      | _ \<Rightarrow> None)
                 | _ \<Rightarrow> None)"
  by pat_completeness auto

termination
proof (relation "measure (\<lambda>(doc, i, out). length doc - i)")
  fix doc i0 i keyEnd v keyS valE key valEnd valS r val j
    and out out' :: vmessScalars
  assume i: "i = skipJSONSpace doc i0" "i \<noteq> length doc" "\<not> length doc < i"
    and k: "keyEnd = endOfJSONString doc i" and v: "v = skipJSONSpace doc (skipJSONSpace doc keyEnd + 1)"
    and e: "(keyS, valE) = (slice doc i keyEnd, endOfJSONValue doc v)" "valE = Some valEnd"
    and r: "(valS, r) = (slice doc v valEnd, jsonKeyEquals key ''add'',
        jsonKeyEquals key ''port'', jsonKeyEquals key ''ps'')" "valS = Some val"
    and j: "j = skipJSONSpace doc valEnd"
  have "i0 \<le> i" using skip_ge i(1) by simp
  moreover have "i < keyEnd" using endOfJSONString_gt i(2,3) k by simp
  moreover have "keyEnd < v" using skip_ge [of keyEnd doc] skip_ge [of "skipJSONSpace doc keyEnd + 1" doc] v by linarith
  moreover have "v \<le> valEnd" using r by (simp add: slice_def split: if_splits)
  moreover have "valEnd \<le> j" using skip_ge j by simp
  ultimately have "i0 < j" by linarith
  with i show "((doc, if j < length doc \<and> doc ! j = CHR '','' then j + 1 else j, out'), doc, i0, out)
      \<in> measure (\<lambda>(doc, i, out). length doc - i)"
    using \<open>i0 \<le> i\<close> by auto
qed simp

declare vmess_walk.simps [simp del]

definition vmessFields :: "string \<Rightarrow> vmessScalars outcome" where
  "vmessFields doc =
     (if \<not> json_valid doc then Refuse
      else let i = skipJSONSpace doc 0
           in if i = length doc then Refuse
              else if length doc < i then Panic
              else if doc ! i \<noteq> CHR 0x7B then Refuse
              else case vmess_walk doc (i + 1) \<lparr>vadd = [], vport = [], vps = [], psAt = None\<rparr> of
                     None \<Rightarrow> Panic
                   | Some out \<Rightarrow> Done out)"

definition jsonValueString :: "string \<Rightarrow> string" where
  "jsonValueString raw =
     (if raw = [] then []
      else if length raw \<ge> 2 \<and> hd raw = CHR 0x22 \<and> last raw = CHR 0x22 \<and>
              CHR 0x5C \<notin> set (butlast (tl raw))
      then butlast (tl raw)
      else if hd raw = CHR ''-'' \<or> is_digit (hd raw) then trim_space raw
      else case unmarshal_string raw of Some s \<Rightarrow> s | None \<Rightarrow> [])"

section \<open>Parsing\<close>

definition vmessBody :: "string \<Rightarrow> string" where
  "vmessBody payload = (let (body, _, found) = cut_byte CHR ''#'' payload in if found then body else payload)"

definition decodeVmessPayload :: "string \<Rightarrow> string option" where
  "decodeVmessPayload payload = decodeBase64Tolerant (stripWhitespace (before_byte CHR ''#'' payload))"

definition splitVmessAEAD :: "string \<Rightarrow> (string \<times> string) option" where
  "splitVmessAEAD payload =
     (let authority = before_byte CHR ''/'' (before_byte CHR ''?'' (vmessBody payload))
      in if CHR ''@'' \<notin> set authority then None
         else let (server, port) = splitHostPort authority
              in if server = [] \<or> port = [] then None
                 else if \<not> list_all is_digit port then None
                 else Some (server, port))"

definition parseVmessAEAD :: "string \<Rightarrow> nat \<Rightarrow> Node option" where
  "parseVmessAEAD line schemeEnd =
     (let payload = drop (schemeEnd + 3) line
      in case splitVmessAEAD payload of
           None \<Rightarrow> None
         | Some (server, port) \<Rightarrow>
             (let (name, hashIdx) =
                (case index_byte CHR ''#'' payload of
                   None \<Rightarrow> ([], None)
                 | Some h \<Rightarrow> (trim_space (drop (h + 1) payload), Some (schemeEnd + 3 + h)))
              in Some \<lparr>Raw = line, Scheme = ''vmess'', Name = (if name = [] then server else name),
                       Server = server, Port = port, FragmentIdx = hashIdx\<rparr>))"

definition vmess_name :: "string \<Rightarrow> vmessScalars \<Rightarrow> string \<Rightarrow> string" where
  "vmess_name payload flds server =
     (let name = jsonValueString (vps flds);
          name = (if name = []
                  then (let (_, frag, found) = cut_byte CHR ''#'' payload
                        in if found then trim_space frag else name)
                  else name)
      in if name = [] then server else name)"

definition vmess_raw :: "string \<Rightarrow> nat \<Rightarrow> string \<Rightarrow> string \<Rightarrow> string" where
  "vmess_raw line schemeEnd payload doc =
     (if CHR ''-'' \<in> set (vmessBody payload) \<or> CHR ''_'' \<in> set (vmessBody payload)
      then take (schemeEnd + 3) line @ AppendEncode StdEncoding doc @
           (case index_byte CHR ''#'' payload of None \<Rightarrow> [] | Some h \<Rightarrow> drop h payload)
      else line)"

definition parseVmess :: "string \<Rightarrow> nat \<Rightarrow> Node outcome" where
  "parseVmess line schemeEnd =
     (let payload = drop (schemeEnd + 3) line
      in if CHR ''@'' \<in> set (vmessBody payload)
         then (case parseVmessAEAD line schemeEnd of None \<Rightarrow> Refuse | Some nd \<Rightarrow> Done nd)
         else case decodeVmessPayload payload of
           None \<Rightarrow> Refuse
         | Some doc \<Rightarrow>
             (case vmessFields doc of
                Panic \<Rightarrow> Panic
              | Refuse \<Rightarrow> Refuse
              | Done flds \<Rightarrow>
                  (let server = jsonValueString (vadd flds);
                       port = jsonValueString (vport flds)
                   in if server = [] then Refuse
                      else if port = [] then Refuse
                      else Done \<lparr>Raw = vmess_raw line schemeEnd payload doc, Scheme = ''vmess'',
                                 Name = vmess_name payload flds server,
                                 Server = server, Port = port, FragmentIdx = None\<rparr>)))"

section \<open>Relabelling\<close>

function jsonPlainString :: "string \<Rightarrow> bool" where
  "jsonPlainString s =
     (case s of
        [] \<Rightarrow> True
      | c # t \<Rightarrow>
          (if byte c < 128 then
             (if byte c < 32 \<or> byte c = 127 \<or> c = CHR 0x22 \<or> c = CHR 0x5C \<or>
                 c = CHR ''<'' \<or> c = CHR ''>'' \<or> c = CHR ''&''
              then False else jsonPlainString t)
           else let (r, size) = decode_rune s
                in if r = runeError \<and> size = 1 \<or> r = 8232 \<or> r = 8233 then False
                   else jsonPlainString (drop size s)))"
  by pat_completeness auto
termination
proof (relation "measure length")
  fix s x y z r size
  assume s: "s = x # y" and "z = decode_rune s" "(r, size) = z"
  then have "1 \<le> size" using decode_rune_size [of s] by (cases "decode_rune s") auto
  with s show "(drop size s, s) \<in> measure length" by simp
qed auto

declare jsonPlainString.simps [simp del]

definition quoted :: "string \<Rightarrow> string" where
  "quoted s = CHR 0x22 # s @ [CHR 0x22]"

text \<open>\<^verbatim>\<open>json.Marshal\<close> of a string has no error.\<close>

definition appendJSONString :: "string \<Rightarrow> string \<Rightarrow> string" where
  "appendJSONString dst s = dst @ (if jsonPlainString s then quoted s else marshal_string s)"

definition appendJSONName :: "string \<Rightarrow> string \<Rightarrow> string \<Rightarrow> string" where
  "appendJSONName dst tags cleanName =
     (if tags = [] then appendJSONString dst cleanName
      else if jsonPlainString tags \<and> jsonPlainString cleanName
      then dst @ quoted (tags @ '' '' @ cleanName)
      else appendJSONString dst (tags @ '' '' @ cleanName))"

definition splice_name :: "string \<Rightarrow> vmessScalars \<Rightarrow> string \<Rightarrow> string option" where
  "splice_name doc flds nameJSON =
     (case psAt flds of
        Some i \<Rightarrow>
          (if length doc < i + length (vps flds) then None
           else Some (take i doc @ nameJSON @ drop (i + length (vps flds)) doc))
      | None \<Rightarrow>
          (let openAt = skipJSONSpace doc 0 + 1;
               j = skipJSONSpace doc openAt
           in if length doc \<le> j then None
              else Some (take openAt doc @ CHR 0x22 # ''ps'' @ CHR 0x22 # '':'' @ nameJSON @
                         (if doc ! j \<noteq> CHR 0x7D then '','' else []) @ drop openAt doc)))"

definition rewriteVmessName :: "string \<Rightarrow> string \<Rightarrow> string \<Rightarrow> string outcome" where
  "rewriteVmessName raw tags cleanName =
     (let (_, payload, found) = cut_str ''://'' raw
      in if \<not> found then Refuse
         else case decodeVmessPayload payload of
           None \<Rightarrow> Refuse
         | Some doc \<Rightarrow>
             (case vmessFields doc of
                Panic \<Rightarrow> Panic
              | Refuse \<Rightarrow> Refuse
              | Done flds \<Rightarrow>
                  (case splice_name doc flds (appendJSONName [] tags cleanName) of
                     None \<Rightarrow> Panic
                   | Some plain \<Rightarrow> Done (''vmess://'' @ AppendEncode StdEncoding plain))))"

definition RewriteVmessName :: "string \<Rightarrow> string \<Rightarrow> string outcome" where
  "RewriteVmessName raw newName = rewriteVmessName raw [] newName"

definition RewriteVmessNameTagged :: "string \<Rightarrow> string \<Rightarrow> string \<Rightarrow> string outcome" where
  "RewriteVmessNameTagged raw tags cleanName = rewriteVmessName raw tags cleanName"

definition rewriteVmessAEADName :: "string \<Rightarrow> string \<Rightarrow> string \<Rightarrow> string option" where
  "rewriteVmessAEADName raw tags cleanName =
     (let (prefix, payload, found) = cut_str ''://'' raw
      in if \<not> found then None
         else if splitVmessAEAD payload = None then None
         else let fragLen = (case index_byte CHR ''#'' payload of
                               None \<Rightarrow> 0 | Some h \<Rightarrow> length payload - h)
              in Some (prefix @ ''://'' @ take (length payload - fragLen) payload @ ''#'' @
                       compose_name tags cleanName))"

definition RewriteVmessAEADName :: "string \<Rightarrow> string \<Rightarrow> string option" where
  "RewriteVmessAEADName raw newName = rewriteVmessAEADName raw [] newName"

definition RewriteVmessAEADNameTagged :: "string \<Rightarrow> string \<Rightarrow> string \<Rightarrow> string option" where
  "RewriteVmessAEADNameTagged raw tags cleanName = rewriteVmessAEADName raw tags cleanName"

end
