(* ===== verification/VmessWalk.thy ===== *)
theory VmessWalk
  imports Vmess
begin

text \<open>
  The unchecked walkers of \<^verbatim>\<open>vmess.go\<close> stay inside every document \<^verbatim>\<open>json.Valid\<close> accepts: each
  walker is followed by the scanner, whose state at the walker's index says which byte can
  come next.
\<close>

section \<open>The scanner along a document\<close>

definition run :: "string \<Rightarrow> nat \<Rightarrow> scanner option" where
  "run doc k = scan_all (BeginValue, []) (take k doc)"

lemma scan_all_append:
  "scan_all s (a @ b) = (case scan_all s a of None \<Rightarrow> None | Some s' \<Rightarrow> scan_all s' b)"
  by (induction a arbitrary: s) (auto split: option.splits)

lemma run_Suc:
  "k < length doc \<Longrightarrow> run doc (Suc k) = (case run doc k of None \<Rightarrow> None | Some s \<Rightarrow> scan s (doc ! k))"
  by (auto simp: run_def take_Suc_conv_app_nth scan_all_append split: option.splits)

lemma valid_run:
  assumes "json_valid doc" "k \<le> length doc" shows "\<exists>s. run doc k = Some s"
proof -
  have "scan_all (BeginValue, []) (take k doc @ drop k doc) \<noteq> None"
    using assms(1) by (auto simp: json_valid_def split: option.splits)
  then have "scan_all (BeginValue, []) (take k doc) \<noteq> None"
    unfolding scan_all_append by (cases "scan_all (BeginValue, []) (take k doc)") simp_all
  then show ?thesis by (simp add: run_def)
qed

lemma valid_end: "json_valid doc \<Longrightarrow> run doc (length doc) = Some s \<Longrightarrow> at_end s"
  by (simp add: json_valid_def run_def)

lemma run_step:
  assumes "json_valid doc" "k < length doc" "run doc k = Some s"
  obtains s' where "scan s (doc ! k) = Some s'" "run doc (Suc k) = Some s'"
  using valid_run [OF assms(1), of "Suc k"] assms(2,3) by (auto simp: run_Suc)

lemma space_not: "json_space CHR '' ''" by (simp add: json_space_def)

lemma at_end_stack: "at_end (s, st) \<Longrightarrow> s \<noteq> EndTop \<Longrightarrow> st = []"
  by (cases s; cases st) (auto simp: at_end_def begin_value_def begin_string_def end_value_def space_not
      is_digit_def split: if_splits)

lemma at_end_string: "\<not> at_end (InString, st)" "\<not> at_end (InStringEsc, st)" "\<not> at_end (InStringEscU n, st)"
  by (auto simp: at_end_def is_hex_def)

section \<open>Strings\<close>

definition in_string :: "scan_step \<Rightarrow> bool" where
  "in_string s \<longleftrightarrow> (case s of InString \<Rightarrow> True | InStringEscU n \<Rightarrow> True | _ \<Rightarrow> False)"

lemma in_string_at_end: "in_string s \<Longrightarrow> \<not> at_end (s, st)"
  using at_end_string by (cases s) (auto simp: in_string_def)

lemma in_string_step:
  assumes "in_string s" "scan (s, st) c = Some (s', st')"
  shows "st' = st" and "c = CHR 0x5C \<Longrightarrow> s' = InStringEsc" and "c = CHR 0x22 \<Longrightarrow> s' = EndValue"
    and "c \<noteq> CHR 0x5C \<Longrightarrow> c \<noteq> CHR 0x22 \<Longrightarrow> in_string s'"
  using assms by (cases s; auto simp: in_string_def is_hex_def is_digit_def split: if_splits)+

lemma escape_step: "scan (InStringEsc, st) c = Some (s', st') \<Longrightarrow> in_string s' \<and> st' = st"
  by (auto simp: in_string_def split: if_splits)

lemma string_walk:
  assumes "json_valid doc" "k \<le> length doc" "run doc k = Some (s, st)" "in_string s"
  shows "k < string_end doc k \<and> string_end doc k \<le> length doc \<and>
         run doc (string_end doc k) = Some (EndValue, st)"
  using assms
proof (induction doc k arbitrary: s rule: string_end.induct)
  case (1 doc k)
  have k: "k < length doc"
  proof (rule ccontr)
    assume "\<not> k < length doc"
    then have "run doc (length doc) = Some (s, st)" using "1.prems" by simp
    with valid_end [OF "1.prems"(1)] in_string_at_end [OF "1.prems"(4)] show False by blast
  qed
  then have nk: "\<not> length doc \<le> k" by simp
  obtain s' st' where sc: "scan (s, st) (doc ! k) = Some (s', st')" and r: "run doc (Suc k) = Some (s', st')"
    using run_step [OF "1.prems"(1) k "1.prems"(3)] by (metis surj_pair)
  note st = in_string_step [OF "1.prems"(4) sc]
  consider "doc ! k = CHR 0x5C" | "doc ! k = CHR 0x22" | "doc ! k \<noteq> CHR 0x5C" "doc ! k \<noteq> CHR 0x22" by blast
  then show ?case
  proof cases
    case 1
    with st have "s' = InStringEsc" "st' = st" by simp_all
    have k1: "Suc k < length doc"
    proof (rule ccontr)
      assume "\<not> Suc k < length doc"
      with k have "Suc k = length doc" by simp
      with r valid_end [OF "1.prems"(1)] at_end_string(2) show False
        unfolding \<open>s' = InStringEsc\<close> by metis
    qed
    obtain s2 st2 where "scan (s', st') (doc ! Suc k) = Some (s2, st2)" and r2: "run doc (Suc (Suc k)) = Some (s2, st2)"
      using run_step [OF "1.prems"(1) k1 r] by (metis surj_pair)
    then have "in_string s2" "st2 = st" using escape_step \<open>s' = InStringEsc\<close> \<open>st' = st\<close> by blast+
    with "1.IH"(1) [OF nk 1 "1.prems"(1), of s2] r2 k1 show ?thesis
      using 1 nk by (subst (1 2 3) string_end.simps) simp
  next
    case 2
    with st r k show ?thesis by (subst (1 2 3) string_end.simps) simp
  next
    case 3
    with st have "in_string s'" "st' = st" by simp_all
    with "1.IH"(2) [OF nk 3 "1.prems"(1), of s'] r k show ?thesis
      using 3 nk by (subst (1 2 3) string_end.simps) simp
  qed
qed

section \<open>Spaces\<close>

definition ended :: "scan_step \<Rightarrow> bool" where
  "ended s \<longleftrightarrow> s \<in> {EndValue, Digits1, Zero0, Dot0, Exp0}"

lemma ended_stop:
  "ended s \<Longrightarrow> value_stop c \<Longrightarrow> scan (s, st) c = end_value st c"
  by (auto simp: ended_def value_stop_def json_space_def is_digit_def)

lemma skip_bound: "i \<le> length doc \<Longrightarrow> skipJSONSpace doc i \<le> length doc"
proof (induction doc i rule: skipJSONSpace.induct)
  case (1 doc i)
  then show ?case by (subst skipJSONSpace.simps) auto
qed

lemma skip_stops: "skipJSONSpace doc i < length doc \<Longrightarrow> \<not> json_space (doc ! skipJSONSpace doc i)"
proof (induction doc i rule: skipJSONSpace.induct)
  case (1 doc i)
  show ?case
  proof (cases "i < length doc \<and> json_space (doc ! i)")
    case True
    with 1 show ?thesis by (metis skipJSONSpace.simps)
  next
    case False
    then have "skipJSONSpace doc i = i" by (subst skipJSONSpace.simps) auto
    with False "1.prems" show ?thesis by simp
  qed
qed

text \<open>A predicate on scanner states that white space keeps holds after the spaces.\<close>

lemma skip_walk:
  assumes "json_valid doc" "k \<le> length doc" "run doc k = Some (s, st)" "P s"
    and "\<And>s c s' st'. P s \<Longrightarrow> json_space c \<Longrightarrow> scan (s, st) c = Some (s', st') \<Longrightarrow> P s' \<and> st' = st"
  shows "\<exists>s'. run doc (skipJSONSpace doc k) = Some (s', st) \<and> P s'"
  using assms
proof (induction doc k arbitrary: s rule: skipJSONSpace.induct)
  case (1 doc k)
  show ?case
  proof (cases "k < length doc \<and> json_space (doc ! k)")
    case True
    obtain s' st' where sc: "scan (s, st) (doc ! k) = Some (s', st')" and r: "run doc (Suc k) = Some (s', st')"
      using run_step [of doc k "(s, st)"] "1.prems"(1,3) True by (metis surj_pair)
    then have "P s'" "st' = st" using "1.prems"(5) [OF "1.prems"(4) _ sc] True by simp_all
    with "1.IH" [OF True "1.prems"(1), of s'] r True "1.prems"(5)
    show ?thesis by (subst skipJSONSpace.simps) simp
  next
    case False
    then have "skipJSONSpace doc k = k" by (subst skipJSONSpace.simps) auto
    with "1.prems" show ?thesis by auto
  qed
qed

lemma skip_same:
  assumes "json_valid doc" "k \<le> length doc" "run doc k = Some (s, st)"
    and "s \<in> {BeginValue, BeginString, BeginStringOrEmpty}"
  shows "run doc (skipJSONSpace doc k) = Some (s, st)"
  using skip_walk [OF assms(1-3), of "\<lambda>s'. s' = s"] assms(4)
  by (auto simp: begin_value_def begin_string_def)

lemma skip_ended:
  assumes "json_valid doc" "k \<le> length doc" "run doc k = Some (s, st)" "ended s" "st \<noteq> []"
  shows "\<exists>s'. run doc (skipJSONSpace doc k) = Some (s', st) \<and> ended s'"
proof (rule skip_walk [where P = ended, OF assms(1-4)])
  fix s c s' st' assume "ended s" "json_space c" "scan (s, st) c = Some (s', st')"
  moreover from this have "scan (s, st) c = end_value st c"
    by (intro ended_stop) (auto simp: value_stop_def)
  ultimately show "ended s' \<and> st' = st"
    using assms(5) by (cases st) (auto simp: end_value_def ended_def)
qed

lemma more_input:
  assumes "json_valid doc" "k \<le> length doc" "run doc k = Some (s, st)" "s \<noteq> EndTop" "st \<noteq> []"
  shows "k < length doc"
proof (rule ccontr)
  assume "\<not> k < length doc"
  with assms have "at_end (s, st)" by (intro valid_end [OF assms(1)]) simp
  with at_end_stack assms(4,5) show False by blast
qed

section \<open>Containers\<close>

definition lit :: "string \<Rightarrow> bool" where
  "lit w \<longleftrightarrow> list_all is_lower w"

definition outer :: "scan_step \<Rightarrow> bool" where
  "outer s \<longleftrightarrow>
     (case s of InString \<Rightarrow> False | InStringEsc \<Rightarrow> False | InStringEscU _ \<Rightarrow> False | EndTop \<Rightarrow> False
      | Literal w \<Rightarrow> lit w | _ \<Rightarrow> True)"

lemma lit_words: "lit ''rue''" "lit ''alse''" "lit ''ull''"
  by (simp_all add: lit_def is_lower_def)

lemma lit_tl: "lit w \<Longrightarrow> lit (tl w)" by (cases w) (simp_all add: lit_def)

lemma lit_hd: "lit w \<Longrightarrow> w \<noteq> [] \<Longrightarrow> is_lower (hd w)" by (cases w) (simp_all add: lit_def)

lemma special_bytes [simp]:
  "\<not> json_space CHR 0x22" "\<not> json_space CHR 0x7B" "\<not> json_space CHR ''[''" "\<not> json_space CHR 0x7D"
  "\<not> json_space CHR '']''" "\<not> is_digit CHR 0x22" "\<not> is_digit CHR 0x7B" "\<not> is_digit CHR ''[''"
  "\<not> is_digit CHR 0x7D" "\<not> is_digit CHR '']''" "\<not> is_lower CHR 0x22" "\<not> is_lower CHR 0x7B"
  "\<not> is_lower CHR ''[''" "\<not> is_lower CHR 0x7D" "\<not> is_lower CHR '']''"
  by (simp_all add: json_space_def is_digit_def is_lower_def)

lemma plain_bytes:
  "json_space c \<or> is_digit c \<or> is_lower c \<Longrightarrow>
     c \<noteq> CHR 0x22 \<and> c \<noteq> CHR 0x7B \<and> c \<noteq> CHR ''['' \<and> c \<noteq> CHR 0x7D \<and> c \<noteq> CHR '']''"
  by auto

lemma push_Some: "push_container p n st = Some r \<longleftrightarrow> length st < maxNestingDepth \<and> r = (n, p # st)"
  by (auto simp: push_container_def)

lemma end_value_step:
  assumes "end_value st c = Some (s', st')" "st \<noteq> []"
  shows "c \<noteq> CHR 0x7D \<Longrightarrow> c \<noteq> CHR '']'' \<Longrightarrow> outer s' \<and> tl st' = tl st \<and> st' \<noteq> []"
    and "c = CHR 0x7D \<or> c = CHR '']'' \<Longrightarrow> (s', st') = pop_container st"
    and "value_stop c \<or> hd st = ObjectKey"
    and "c \<noteq> CHR 0x22 \<and> c \<noteq> CHR 0x7B \<and> c \<noteq> CHR ''[''"
proof -
  obtain p r where st: "st = p # r" using assms(2) by (cases st) auto
  consider "json_space c" "s' = EndValue" "st' = st"
    | "c = CHR '':''" "s' = BeginValue" "st' = ObjectValue # r" "p = ObjectKey"
    | "c = CHR '',''" "s' = BeginString" "st' = ObjectKey # r"
    | "c = CHR '',''" "s' = BeginValue" "st' = st"
    | "c = CHR 0x7D \<or> c = CHR '']''" "(s', st') = pop_container st"
    using assms(1) unfolding st end_value_def list.case
    by (cases p) (auto split: if_split_asm)
  then have "(c \<noteq> CHR 0x7D \<longrightarrow> c \<noteq> CHR '']'' \<longrightarrow> outer s' \<and> tl st' = tl st \<and> st' \<noteq> []) \<and>
     (c = CHR 0x7D \<or> c = CHR '']'' \<longrightarrow> (s', st') = pop_container st) \<and>
     (value_stop c \<or> hd st = ObjectKey) \<and> c \<noteq> CHR 0x22 \<and> c \<noteq> CHR 0x7B \<and> c \<noteq> CHR ''[''"
    by cases (auto simp: outer_def value_stop_def st)
  then show "c \<noteq> CHR 0x7D \<Longrightarrow> c \<noteq> CHR '']'' \<Longrightarrow> outer s' \<and> tl st' = tl st \<and> st' \<noteq> []"
    and "c = CHR 0x7D \<or> c = CHR '']'' \<Longrightarrow> (s', st') = pop_container st"
    and "value_stop c \<or> hd st = ObjectKey"
    and "c \<noteq> CHR 0x22 \<and> c \<noteq> CHR 0x7B \<and> c \<noteq> CHR ''[''" by blast+
qed

lemma begin_value_step:
  assumes "begin_value st c = Some (s', st')"
  shows "c = CHR 0x7B \<or> c = CHR ''['' \<Longrightarrow> outer s' \<and> tl st' = st \<and> st' \<noteq> []"
    and "c = CHR 0x22 \<Longrightarrow> s' = InString \<and> st' = st"
    and "c \<noteq> CHR 0x7D \<and> c \<noteq> CHR '']''"
    and "c \<noteq> CHR 0x7B \<Longrightarrow> c \<noteq> CHR ''['' \<Longrightarrow> c \<noteq> CHR 0x22 \<Longrightarrow> outer s' \<and> st' = st"
proof -
  consider (open') "c = CHR 0x7B \<or> c = CHR ''[''" "outer s' \<and> tl st' = st \<and> st' \<noteq> []"
    | (quote) "c = CHR 0x22" "s' = InString \<and> st' = st"
    | (other) "c \<noteq> CHR 0x7B" "c \<noteq> CHR ''[''" "c \<noteq> CHR 0x22" "c \<noteq> CHR 0x7D" "c \<noteq> CHR '']''" "outer s' \<and> st' = st"
    using assms plain_bytes [of c] lit_words unfolding begin_value_def
    by (auto simp: push_Some outer_def split: if_split_asm)
  note c = this
  show "c = CHR 0x7B \<or> c = CHR ''['' \<Longrightarrow> outer s' \<and> tl st' = st \<and> st' \<noteq> []"
    using c by cases auto
  show "c = CHR 0x22 \<Longrightarrow> s' = InString \<and> st' = st" using c by cases auto
  show "c \<noteq> CHR 0x7D \<and> c \<noteq> CHR '']''" using c by cases auto
  show "c \<noteq> CHR 0x7B \<Longrightarrow> c \<noteq> CHR ''['' \<Longrightarrow> c \<noteq> CHR 0x22 \<Longrightarrow> outer s' \<and> st' = st" using c by cases auto
qed

lemma begin_string_step:
  assumes "begin_string st c = Some (s', st')"
  shows "c = CHR 0x22 \<Longrightarrow> s' = InString \<and> st' = st"
    and "c \<noteq> CHR 0x7D \<and> c \<noteq> CHR '']'' \<and> c \<noteq> CHR 0x7B \<and> c \<noteq> CHR ''[''"
    and "c \<noteq> CHR 0x22 \<Longrightarrow> outer s' \<and> st' = st"
  using assms by (auto simp: begin_string_def outer_def split: if_splits)

text \<open>
  What one byte does to a scanner outside a string, by the state: it stays where it is, or
  acts as \<open>begin_value\<close>, \<open>begin_string\<close> or \<open>end_value\<close>, or goes on with a number or a word.
\<close>

lemma outer_step_cases:
  assumes "outer s" "scan (s, st) c = Some (s', st')"
  obtains (value') "begin_value st c = Some (s', st')"
  | (string') "begin_string st c = Some (s', st')"
  | (close') q where "end_value (q # tl st) c = Some (s', st')"
  | (end') "end_value st c = Some (s', st')"
  | (go) "outer s'" "st' = st" "c \<noteq> CHR 0x22" "c \<noteq> CHR 0x7B" "c \<noteq> CHR ''[''" "c \<noteq> CHR 0x7D" "c \<noteq> CHR '']''"
proof -
  show thesis
  proof (cases s)
    case (Literal v)
    with assms have v: "lit v" "v \<noteq> []" "c = hd v" "s' = (if tl v = [] then EndValue else Literal (tl v))" "st' = st"
      by (auto simp: outer_def split: if_splits)
    then have "is_lower c" "outer s'" using lit_hd lit_tl by (auto simp: outer_def)
    with v(5) show thesis by (intro go) auto
  qed (use assms in \<open>auto simp: outer_def split: if_splits intro: value' string' end' close' go\<close>)
qed

lemma outer_step:
  assumes "outer s" "st \<noteq> []" "scan (s, st) c = Some (s', st')"
  shows "c = CHR 0x22 \<Longrightarrow> s' = InString \<and> st' = st"
    and "c = CHR 0x7B \<or> c = CHR ''['' \<Longrightarrow> outer s' \<and> tl st' = st \<and> st' \<noteq> []"
    and "c = CHR 0x7D \<or> c = CHR '']'' \<Longrightarrow> \<exists>q. (s', st') = pop_container (q # tl st)"
    and "c \<notin> {CHR 0x22, CHR 0x7B, CHR ''['', CHR 0x7D, CHR '']''} \<Longrightarrow>
           outer s' \<and> tl st' = tl st \<and> st' \<noteq> []"
proof -
  have e: "(c = CHR 0x22 \<longrightarrow> s' = InString \<and> st' = st) \<and>
    (c = CHR 0x7B \<or> c = CHR ''['' \<longrightarrow> outer s' \<and> tl st' = st \<and> st' \<noteq> []) \<and>
    (c = CHR 0x7D \<or> c = CHR '']'' \<longrightarrow> (\<exists>q. (s', st') = pop_container (q # tl st))) \<and>
    (c \<notin> {CHR 0x22, CHR 0x7B, CHR ''['', CHR 0x7D, CHR '']''} \<longrightarrow>
           outer s' \<and> tl st' = tl st \<and> st' \<noteq> [])"
    using assms(1,3)
  proof (cases rule: outer_step_cases)
    case value'
    note v = begin_value_step [OF value']
    show ?thesis using v assms(2) by auto
  next
    case string'
    note v = begin_string_step [OF string']
    show ?thesis using v assms(2) by auto
  next
    case (close' q)
    note v = end_value_step [OF close']
    show ?thesis using v by auto
  next
    case end'
    note v = end_value_step [OF end' assms(2)]
    obtain p r where st: "st = p # r" using assms(2) by (cases st) auto
    have "c = CHR 0x7D \<or> c = CHR '']'' \<Longrightarrow> \<exists>q. (s', st') = pop_container (q # tl st)"
      using v(2) unfolding st by auto
    then show ?thesis using v(1,4) by blast
  next
    case go
    then show ?thesis using assms(2) by auto
  qed
  show "c = CHR 0x22 \<Longrightarrow> s' = InString \<and> st' = st"
    by (rule e [THEN conjunct1, THEN mp])
  show "c = CHR 0x7B \<or> c = CHR ''['' \<Longrightarrow> outer s' \<and> tl st' = st \<and> st' \<noteq> []"
    by (rule e [THEN conjunct2, THEN conjunct1, THEN mp])
  show "c = CHR 0x7D \<or> c = CHR '']'' \<Longrightarrow> \<exists>q. (s', st') = pop_container (q # tl st)"
    by (rule e [THEN conjunct2, THEN conjunct2, THEN conjunct1, THEN mp])
  show "c \<notin> {CHR 0x22, CHR 0x7B, CHR ''['', CHR 0x7D, CHR '']''} \<Longrightarrow>
           outer s' \<and> tl st' = tl st \<and> st' \<noteq> []"
    by (rule e [THEN conjunct2, THEN conjunct2, THEN conjunct2, THEN mp])
qed

lemma outer_not_top: "outer s \<Longrightarrow> s \<noteq> EndTop"
  by (auto simp: outer_def)

lemma container_end_byte:
  assumes "k < length doc"
  shows "doc ! k = CHR 0x22 \<Longrightarrow> container_end doc k d = container_end doc (endOfJSONString doc k) d"
    and "doc ! k = CHR 0x7B \<or> doc ! k = CHR ''['' \<Longrightarrow> container_end doc k d = container_end doc (k + 1) (d + 1)"
    and "doc ! k = CHR 0x7D \<or> doc ! k = CHR '']'' \<Longrightarrow>
           container_end doc k d = (if d - 1 = 0 then k + 1 else container_end doc (k + 1) (d - 1))"
    and "doc ! k \<notin> {CHR 0x22, CHR 0x7B, CHR ''['', CHR 0x7D, CHR '']''} \<Longrightarrow>
           container_end doc k d = container_end doc (k + 1) d"
  using assms by (subst container_end.simps; auto)+

lemma container_walk:
  assumes "json_valid doc" "k \<le> length doc" "run doc k = Some (s, pre)" "outer s"
    and "drop d pre = st" "d < length pre" "st \<noteq> []" "0 < d"
  shows "k < container_end doc k (int d) \<and> container_end doc k (int d) \<le> length doc \<and>
         run doc (container_end doc k (int d)) = Some (EndValue, st)"
  using assms
proof (induction doc k "int d" arbitrary: s pre d rule: container_end.induct)
  case (1 doc k)
  have pre: "pre \<noteq> []" using "1.prems"(6) by auto
  have k: "k < length doc"
    using more_input [OF "1.prems"(1-3) outer_not_top pre] "1.prems"(4) by blast
  then have nk: "\<not> length doc \<le> k" and k1: "k + 1 \<le> length doc" by simp_all
  obtain s' st' where sc: "scan (s, pre) (doc ! k) = Some (s', st')" and r: "run doc (k + 1) = Some (s', st')"
    using run_step [OF "1.prems"(1) k "1.prems"(3)] by (metis surj_pair Suc_eq_plus1)
  note step = outer_step [OF "1.prems"(4) pre sc]
  consider (q) "doc ! k = CHR 0x22" | (o) "doc ! k = CHR 0x7B \<or> doc ! k = CHR ''[''"
    | (c) "doc ! k = CHR 0x7D \<or> doc ! k = CHR '']''"
    | (x) "doc ! k \<notin> {CHR 0x22, CHR 0x7B, CHR ''['', CHR 0x7D, CHR '']''}" by blast
  then show ?case
  proof cases
    case q
    with step(1) r have r: "run doc (k + 1) = Some (InString, pre)" by simp
    have "Suc k < endOfJSONString doc k \<and> endOfJSONString doc k \<le> length doc \<and>
        run doc (endOfJSONString doc k) = Some (EndValue, pre)"
      unfolding endOfJSONString_def using string_walk [OF "1.prems"(1) _ r] k
      by (simp add: in_string_def)
    moreover have "outer EndValue" by (simp add: outer_def)
    ultimately show ?thesis
      using "1.hyps"(1) [OF nk q refl "1.prems"(1) _ _ _ "1.prems"(5-8), of EndValue] k
      unfolding container_end_byte(1) [OF k q] by linarith
  next
    case o
    then have nq: "doc ! k \<noteq> CHR 0x22" by auto
    from step(2) [OF o] have s': "outer s'" "tl st' = pre" "st' \<noteq> []" by simp_all
    then have "drop (Suc d) st' = st" "Suc d < length st'"
      using "1.prems"(5,6) by (cases st'; simp)+
    note d = this
    have "int d + 1 = int (Suc d)" "0 < Suc d" by simp_all
    note ih = "1.hyps"(2) [OF nk nq o this(1) "1.prems"(1) k1 r s'(1) d "1.prems"(7) this(2)]
    have "container_end doc k (int d) = container_end doc (k + 1) (int (Suc d))"
      by (simp add: container_end_byte(2) [OF k o] add.commute)
    then show ?thesis using ih by simp
  next
    case c
    then have n: "doc ! k \<noteq> CHR 0x22" "\<not> (doc ! k = CHR 0x7B \<or> doc ! k = CHR ''['')" by auto
    from step(3) [OF c] obtain p where p: "(s', st') = pop_container (p # tl pre)" by blast
    have tl: "tl pre \<noteq> []" using "1.prems"(6,8) by (cases pre) auto
    with p have s': "s' = EndValue" "st' = tl pre" by (auto simp: pop_container_def)
    show ?thesis
    proof (cases "d = 1")
      case True
      with "1.prems"(5) have "st = tl pre" by (simp add: drop_Suc)
      moreover have "container_end doc k (int d) = Suc k"
        using True by (simp add: container_end_byte(3) [OF k c])
      ultimately show ?thesis using r s' k by simp
    next
      case False
      then have d: "int d - 1 \<noteq> 0" "int d - 1 = int (d - 1)" "0 < d - 1" using "1.prems"(8) by simp_all
      have pr: "drop (d - 1) (tl pre) = st" "d - 1 < length (tl pre)"
        using "1.prems"(5,6,8) by (cases d; simp add: drop_Suc)+
      have o: "outer EndValue" by (simp add: outer_def)
      note ih = "1.hyps"(3) [OF nk n c d(1,2) "1.prems"(1) k1 r [unfolded s'] o pr "1.prems"(7) d(3)]
      have "container_end doc k (int d) = container_end doc (k + 1) (int (d - 1))"
        unfolding container_end_byte(3) [OF k c] if_not_P [OF d(1)] by (simp only: d(2))
      then show ?thesis using ih by simp
    qed
  next
    case x
    then have n: "doc ! k \<noteq> CHR 0x22" "\<not> (doc ! k = CHR 0x7B \<or> doc ! k = CHR ''['')"
      "\<not> (doc ! k = CHR 0x7D \<or> doc ! k = CHR '']'')" by auto
    from step(4) [OF x] have s': "outer s'" "tl st' = tl pre" "st' \<noteq> []" by simp_all
    have "length (tl st') = length (tl pre)" by (simp only: s'(2))
    then have "length st' = length pre" using s'(3) pre by (cases st'; cases pre) simp_all
    moreover have "drop d xs = drop (d - 1) (tl xs)" for xs :: "container list"
      using "1.prems"(8) by (cases d) (simp_all add: drop_Suc)
    with s'(2) have "drop d st' = drop d pre" by simp
    ultimately have pr: "drop d st' = st" "d < length st'" using "1.prems"(5,6) by simp_all
    have "k + 1 < container_end doc (k + 1) (int d) \<and>
        container_end doc (k + 1) (int d) \<le> length doc \<and>
        run doc (container_end doc (k + 1) (int d)) = Some (EndValue, st)"
      by (rule "1.hyps"(4) [OF nk n refl "1.prems"(1) k1 r s'(1) pr "1.prems"(7,8)])
    then show ?thesis by (simp add: container_end_byte(4) [OF k x])
  qed
qed

section \<open>Scalars\<close>

definition scalar :: "scan_step \<Rightarrow> bool" where
  "scalar s \<longleftrightarrow> s \<in> {EndValue, Neg, Digits1, Zero0, Dot, Dot0, Exp, ExpSign, Exp0} \<or> (\<exists>w. s = Literal w \<and> lit w)"

lemma stop_not_lower: "value_stop c \<Longrightarrow> \<not> is_lower c" "value_stop c \<Longrightarrow> \<not> is_digit c"
  by (auto simp: value_stop_def json_space_def is_lower_def is_digit_def)

lemma scalar_stop:
  assumes "scalar s" "value_stop c" "scan (s, st) c = Some r"
  shows "ended s"
proof (cases s)
  case (Literal w)
  with assms have "lit w" "w \<noteq> []" "c = hd w" by (auto simp: scalar_def split: if_splits)
  with lit_hd stop_not_lower(1) [OF assms(2)] show ?thesis by blast
qed (use assms stop_not_lower(2) [OF assms(2)] in
      \<open>auto simp: scalar_def ended_def value_stop_def json_space_def split: if_splits\<close>)

lemma end_value_stop:
  "end_value st c = Some r \<Longrightarrow> st \<noteq> [] \<Longrightarrow> hd st \<noteq> ObjectKey \<Longrightarrow> value_stop c"
  using end_value_step(3) [of st c "fst r" "snd r"] by (cases r) auto

lemma scalar_go:
  assumes "scalar s" "\<not> value_stop c" "scan (s, st) c = Some (s', st')" "st \<noteq> []" "hd st \<noteq> ObjectKey"
  shows "scalar s' \<and> st' = st"
proof -
  have no: "end_value st c \<noteq> Some (s', st')" using end_value_stop assms(2,4,5) by blast
  show ?thesis
  proof (cases s)
    case (Literal w)
    with assms show ?thesis using lit_tl by (auto simp: scalar_def split: if_splits)
  qed (use assms no in \<open>auto simp: scalar_def split: if_splits\<close>)
qed

lemma scalar_walk:
  assumes "json_valid doc" "k \<le> length doc" "run doc k = Some (s, st)" "scalar s"
    and "st \<noteq> []" "hd st \<noteq> ObjectKey"
  shows "k \<le> scalar_end doc k \<and> scalar_end doc k < length doc \<and> value_stop (doc ! scalar_end doc k) \<and>
         (\<exists>s'. run doc (scalar_end doc k) = Some (s', st) \<and> ended s')"
  using assms
proof (induction doc k arbitrary: s rule: scalar_end.induct)
  case (1 doc k)
  have top: "s \<noteq> EndTop" using "1.prems"(4) by (auto simp: scalar_def)
  have k: "k < length doc" by (rule more_input [OF "1.prems"(1-3) top "1.prems"(5)])
  then have nk: "\<not> length doc \<le> k" and k1: "k + 1 \<le> length doc" by simp_all
  obtain s' st' where sc: "scan (s, st) (doc ! k) = Some (s', st')" and r: "run doc (k + 1) = Some (s', st')"
    using run_step [OF "1.prems"(1) k "1.prems"(3)] by (metis surj_pair Suc_eq_plus1)
  show ?case
  proof (cases "value_stop (doc ! k)")
    case True
    have e: "scalar_end doc k = k" using True nk by (subst scalar_end.simps) simp
    have "ended s" by (rule scalar_stop [OF "1.prems"(4) True sc])
    with "1.prems"(3) k True show ?thesis unfolding e by blast
  next
    case False
    have e: "scalar_end doc k = scalar_end doc (k + 1)" using False nk by (subst scalar_end.simps) simp
    have s': "scalar s'" "st' = st" using scalar_go [OF "1.prems"(4) False sc "1.prems"(5,6)] by simp_all
    have "k + 1 \<le> scalar_end doc (k + 1) \<and> scalar_end doc (k + 1) < length doc \<and>
         value_stop (doc ! scalar_end doc (k + 1)) \<and>
         (\<exists>s'. run doc (scalar_end doc (k + 1)) = Some (s', st) \<and> ended s')"
      by (rule "1.IH" [OF nk False "1.prems"(1) k1 r [unfolded s'(2)] s'(1) "1.prems"(5,6)])
    then show ?thesis unfolding e by simp
  qed
qed

section \<open>Values\<close>

lemma value_walk:
  assumes "json_valid doc" "k \<le> length doc" "run doc k = Some (BeginValue, st)"
    and "st \<noteq> []" "hd st \<noteq> ObjectKey" "k < length doc \<Longrightarrow> \<not> json_space (doc ! k)"
  shows "\<exists>e s. endOfJSONValue doc k = Some e \<and> k < e \<and> e \<le> length doc \<and> run doc e = Some (s, st) \<and>
           ended s \<and> (s = EndValue \<or> value_stop (doc ! e))"
proof -
  have k: "k < length doc" by (rule more_input [OF assms(1-3) _ assms(4)]) simp
  then have nk: "\<not> length doc \<le> k" and k1: "k + 1 \<le> length doc" by simp_all
  obtain s' st' where sc: "scan (BeginValue, st) (doc ! k) = Some (s', st')" and r: "run doc (k + 1) = Some (s', st')"
    using run_step [OF assms(1) k assms(3)] by (metis surj_pair Suc_eq_plus1)
  have ended: "ended EndValue" by (simp add: ended_def)
  consider (q) "doc ! k = CHR 0x22" | (o) "doc ! k = CHR 0x7B \<or> doc ! k = CHR ''[''"
    | (x) "doc ! k \<noteq> CHR 0x22" "doc ! k \<noteq> CHR 0x7B" "doc ! k \<noteq> CHR ''[''" by blast
  then show ?thesis
  proof cases
    case q
    have "s' = InString" "st' = st" using begin_value_step(2) [of st "doc ! k" s' st'] sc q by simp_all
    with string_walk [OF assms(1) k1 r] have
      "k + 1 < endOfJSONString doc k \<and> endOfJSONString doc k \<le> length doc \<and>
       run doc (endOfJSONString doc k) = Some (EndValue, st)"
      by (simp add: endOfJSONString_def in_string_def)
    moreover have "endOfJSONValue doc k = Some (endOfJSONString doc k)"
      using q nk by (simp add: endOfJSONValue_def)
    ultimately show ?thesis using ended by (metis Suc_eq_plus1 Suc_lessD)
  next
    case o
    have s': "outer s'" "tl st' = st" "st' \<noteq> []" using begin_value_step(1) [of st "doc ! k" s' st'] sc o by simp_all
    have pr: "drop 1 st' = st" "1 < length st'" using s'(2,3) assms(4) by (cases st'; auto)+
    have "k + 1 < container_end doc (k + 1) (int 1) \<and> container_end doc (k + 1) (int 1) \<le> length doc \<and>
       run doc (container_end doc (k + 1) (int 1)) = Some (EndValue, st)"
      by (rule container_walk [OF assms(1) k1 r s'(1) pr assms(4)]) simp
    moreover have "endOfJSONValue doc k = Some (container_end doc (k + 1) (int 1))"
    proof -
      have "doc ! k \<noteq> CHR 0x22" using o by auto
      then show ?thesis using o nk container_end_byte(2) [OF k o, of 0] by (simp add: endOfJSONValue_def)
    qed
    ultimately show ?thesis using ended by (metis Suc_eq_plus1 Suc_lessD)
  next
    case x
    have ns: "\<not> value_stop (doc ! k)"
      using assms(6) [OF k] sc begin_value_step(3) [of st "doc ! k" s' st']
      by (auto simp: value_stop_def begin_value_def is_digit_def split: if_splits)
    have "scalar s' \<and> st' = st"
      using sc x assms(6) [OF k] lit_words
      by (auto simp: begin_value_def scalar_def split: if_splits)
    then have s': "scalar s'" "st' = st" by simp_all
    have "k + 1 \<le> scalar_end doc (k + 1) \<and> scalar_end doc (k + 1) < length doc \<and>
         value_stop (doc ! scalar_end doc (k + 1)) \<and>
         (\<exists>s'. run doc (scalar_end doc (k + 1)) = Some (s', st) \<and> ended s')"
      by (rule scalar_walk [OF assms(1) k1 r [unfolded s'(2)] s'(1) assms(4,5)])
    moreover have "endOfJSONValue doc k = Some (scalar_end doc (k + 1))"
    proof -
      have "scalar_end doc k = scalar_end doc (k + 1)" using ns nk by (subst scalar_end.simps) simp
      then show ?thesis using x nk by (simp add: endOfJSONValue_def)
    qed
    ultimately show ?thesis by (metis Suc_eq_plus1 Suc_le_lessD less_imp_le_nat)
  qed
qed

section \<open>The walk\<close>

definition at_member :: "string \<Rightarrow> nat \<Rightarrow> bool" where
  "at_member doc i \<longleftrightarrow>
     run doc i = Some (BeginString, [ObjectKey]) \<or> run doc i = Some (BeginStringOrEmpty, [ObjectKey]) \<or>
     i < length doc \<and> doc ! i = CHR 0x7D"

definition field_ok :: "string \<Rightarrow> vmessScalars \<Rightarrow> bool" where
  "field_ok doc f \<longleftrightarrow> (case psAt f of None \<Rightarrow> True | Some i \<Rightarrow> i + length (vps f) \<le> length doc)"

lemma skip_fixed: "i < length doc \<Longrightarrow> \<not> json_space (doc ! i) \<Longrightarrow> skipJSONSpace doc i = i"
  by (subst skipJSONSpace.simps) simp

text \<open>The spaces after a value leave its end state as it was, or as \<open>EndValue\<close>.\<close>

lemma after_value:
  assumes v: "json_valid doc" and e: "e \<le> length doc" "run doc e = Some (s, [ObjectValue])" "ended s"
    "s = EndValue \<or> value_stop (doc ! e)"
  shows "\<exists>s'. run doc (skipJSONSpace doc e) = Some (s', [ObjectValue]) \<and> ended s' \<and>
           (s' = EndValue \<or> value_stop (doc ! skipJSONSpace doc e))"
proof (cases "e < length doc \<and> json_space (doc ! e)")
  case True
  have st: "value_stop (doc ! e)" using True by (simp add: value_stop_def)
  obtain s' st' where sc: "scan (s, [ObjectValue]) (doc ! e) = Some (s', st')" and r: "run doc (e + 1) = Some (s', st')"
    using run_step [OF v, of e] True e(2) by (metis surj_pair Suc_eq_plus1)
  have "s' = EndValue" "st' = [ObjectValue]"
    using sc True unfolding ended_stop [OF e(3) st] by (simp_all add: end_value_def)
  with r have r: "run doc (e + 1) = Some (EndValue, [ObjectValue])" by simp
  have "e + 1 \<le> length doc" using True by simp
  from skip_walk [OF v this r, of "\<lambda>s. s = EndValue"]
  have "run doc (skipJSONSpace doc (e + 1)) = Some (EndValue, [ObjectValue])"
    by (auto simp: end_value_def)
  moreover have "skipJSONSpace doc e = skipJSONSpace doc (e + 1)"
    using True by (subst skipJSONSpace.simps) simp
  ultimately show ?thesis by (simp add: ended_def)
next
  case False
  then have "skipJSONSpace doc e = e" by (subst skipJSONSpace.simps) auto
  with e show ?thesis by auto
qed

text \<open>From the start of a member, its key, its colon and its value are all there.\<close>

lemma member_walk:
  assumes v: "json_valid doc" and i0: "i0 \<le> length doc" and m: "at_member doc i0"
  defines "i \<equiv> skipJSONSpace doc i0"
  defines "keyEnd \<equiv> endOfJSONString doc i"
  defines "w \<equiv> skipJSONSpace doc (skipJSONSpace doc keyEnd + 1)"
  shows "i < length doc"
    and "doc ! i \<noteq> CHR 0x7D \<Longrightarrow> i + 2 \<le> keyEnd \<and> keyEnd \<le> length doc"
    and "doc ! i \<noteq> CHR 0x7D \<Longrightarrow>
      \<exists>e. endOfJSONValue doc w = Some e \<and> w < e \<and> e \<le> length doc \<and>
          at_member doc (let j = skipJSONSpace doc e in if j < length doc \<and> doc ! j = CHR '','' then j + 1 else j)"
proof -
  have il: "i \<le> length doc" unfolding i_def by (rule skip_bound [OF i0])
  show i: "i < length doc"
  proof (cases "i0 < length doc \<and> doc ! i0 = CHR 0x7D")
    case True
    then show ?thesis unfolding i_def using skip_fixed [of i0 doc] by simp
  next
    case False
    with m obtain b where b: "run doc i0 = Some (b, [ObjectKey])" "b \<in> {BeginString, BeginStringOrEmpty}"
      by (auto simp: at_member_def)
    have "run doc i = Some (b, [ObjectKey])"
      unfolding i_def by (rule skip_same [OF v i0 b(1)]) (use b(2) in auto)
    then show ?thesis using more_input [OF v il, of b "[ObjectKey]"] b(2) by auto
  qed
  assume nc: "doc ! i \<noteq> CHR 0x7D"
  then have "\<not> (i0 < length doc \<and> doc ! i0 = CHR 0x7D)"
    unfolding i_def using skip_fixed [of i0 doc] by auto
  with m obtain b where b: "run doc i0 = Some (b, [ObjectKey])" "b \<in> {BeginString, BeginStringOrEmpty}"
    by (auto simp: at_member_def)
  have r: "run doc i = Some (b, [ObjectKey])"
    unfolding i_def by (rule skip_same [OF v i0 b(1)]) (use b(2) in auto)
  have ns: "\<not> json_space (doc ! i)" using i unfolding i_def by (rule skip_stops)
  obtain s' st' where sc: "scan (b, [ObjectKey]) (doc ! i) = Some (s', st')" and r1: "run doc (i + 1) = Some (s', st')"
    using run_step [OF v i r] by (metis surj_pair Suc_eq_plus1)
  have s': "s' = InString" "st' = [ObjectKey]"
    using sc b(2) ns nc by (auto simp: begin_string_def split: if_splits)
  have k: "i + 1 < keyEnd \<and> keyEnd \<le> length doc \<and> run doc keyEnd = Some (EndValue, [ObjectKey])"
    unfolding keyEnd_def endOfJSONString_def
    by (rule string_walk [OF v _ r1 [unfolded s']]) (use i in \<open>simp_all add: in_string_def\<close>)
  then show "i + 2 \<le> keyEnd \<and> keyEnd \<le> length doc" by simp
  let ?c = "skipJSONSpace doc keyEnd"
  have kl: "keyEnd \<le> length doc" and kr: "run doc keyEnd = Some (EndValue, [ObjectKey])" using k by simp_all
  obtain s2 where c: "run doc ?c = Some (s2, [ObjectKey])" "ended s2"
    using skip_ended [OF v kl kr] by (auto simp: ended_def)
  have cl: "?c < length doc"
    by (rule more_input [OF v skip_bound [OF kl] c(1)]) (use c(2) in \<open>auto simp: ended_def\<close>)
  have cs: "\<not> json_space (doc ! ?c)" by (rule skip_stops [OF cl])
  obtain s3 st3 where sc3: "scan (s2, [ObjectKey]) (doc ! ?c) = Some (s3, st3)" and r3: "run doc (?c + 1) = Some (s3, st3)"
    using run_step [OF v cl c(1)] by (metis surj_pair Suc_eq_plus1)
  have s2: "s2 = EndValue"
    using skip_walk [OF v kl kr, of "\<lambda>s. s = EndValue"] c(1)
    by (auto simp: end_value_def)
  have s3: "s3 = BeginValue" "st3 = [ObjectValue]"
    using sc3 cs unfolding s2 by (auto simp: end_value_def split: if_splits)
  have wl: "w \<le> length doc" unfolding w_def by (rule skip_bound) (use cl in simp)
  have wr: "run doc w = Some (BeginValue, [ObjectValue])"
    unfolding w_def by (rule skip_same [OF v _ r3 [unfolded s3]]) (use cl in simp_all)
  have "w < length doc \<Longrightarrow> \<not> json_space (doc ! w)" unfolding w_def by (rule skip_stops)
  then obtain e s where e: "endOfJSONValue doc w = Some e" "w < e" "e \<le> length doc"
      "run doc e = Some (s, [ObjectValue])" "ended s" "s = EndValue \<or> value_stop (doc ! e)"
    using value_walk [OF v wl wr] by auto
  let ?j = "skipJSONSpace doc e"
  obtain s4 where j: "run doc ?j = Some (s4, [ObjectValue])" "ended s4" "s4 = EndValue \<or> value_stop (doc ! ?j)"
    using after_value [OF v e(3-6)] by blast
  have jl: "?j < length doc"
    by (rule more_input [OF v skip_bound [OF e(3)] j(1)]) (use j(2) in \<open>auto simp: ended_def\<close>)
  obtain s5 st5 where sc5: "scan (s4, [ObjectValue]) (doc ! ?j) = Some (s5, st5)" and r5: "run doc (?j + 1) = Some (s5, st5)"
    using run_step [OF v jl j(1)] by (metis surj_pair Suc_eq_plus1)
  have ev: "end_value [ObjectValue] (doc ! ?j) = Some (s5, st5)"
  proof (cases "s4 = EndValue")
    case False
    with j(3) have "value_stop (doc ! ?j)" by blast
    with ended_stop [OF j(2)] sc5 show ?thesis by metis
  qed (use sc5 in simp)
  have "\<not> json_space (doc ! ?j)" by (rule skip_stops [OF jl])
  with ev have "doc ! ?j = CHR '','' \<and> s5 = BeginString \<and> st5 = [ObjectKey] \<or> doc ! ?j = CHR 0x7D"
    by (auto simp: end_value_def split: if_splits)
  then have "at_member doc (if ?j < length doc \<and> doc ! ?j = CHR '','' then ?j + 1 else ?j)"
    using r5 jl by (auto simp: at_member_def)
  with e(1-3) show "\<exists>e. endOfJSONValue doc w = Some e \<and> w < e \<and> e \<le> length doc \<and>
          at_member doc (let j = skipJSONSpace doc e in if j < length doc \<and> doc ! j = CHR '','' then j + 1 else j)"
    by (auto simp: Let_def)
qed

lemma walk_total:
  assumes "json_valid doc" "i0 \<le> length doc" "at_member doc i0" "field_ok doc out"
  shows "\<exists>out'. vmess_walk doc i0 out = Some out' \<and> field_ok doc out'"
  using assms
proof (induction "length doc - i0" arbitrary: i0 out rule: less_induct)
  case (less i0 out)
  define i where "i = skipJSONSpace doc i0"
  define keyEnd where "keyEnd = endOfJSONString doc i"
  define w where "w = skipJSONSpace doc (skipJSONSpace doc keyEnd + 1)"
  note m = member_walk [OF less.prems(1-3), folded i_def, folded keyEnd_def, folded w_def]
  have i: "i \<noteq> length doc" "\<not> length doc < i" using m(1) by simp_all
  show ?case
  proof (cases "doc ! i = CHR 0x7D")
    case True
    have "vmess_walk doc i0 out = Some out"
      unfolding vmess_walk.simps [of doc i0 out] Let_def i_def [symmetric] if_not_P [OF i(1)] if_not_P [OF i(2)]
        if_P [OF True] ..
    with less.prems(4) show ?thesis by simp
  next
    case False
    have k: "i + 2 \<le> keyEnd" "keyEnd \<le> length doc" using m(2) [OF False] by simp_all
    obtain e where e: "endOfJSONValue doc w = Some e" "w < e" "e \<le> length doc"
      and am: "at_member doc (let j = skipJSONSpace doc e in if j < length doc \<and> doc ! j = CHR '','' then j + 1 else j)"
      using m(3) [OF False] by blast
    define key where "key = take (keyEnd - i) (drop i doc)"
    define val where "val = take (e - w) (drop w doc)"
    have ks: "slice doc i keyEnd = Some key" using k by (simp add: slice_def key_def)
    have vs: "slice doc w e = Some val" using e by (simp add: slice_def val_def)
    have "\<not> length key < 2" using k by (simp add: key_def)
    then have "jsonKeyEquals key want \<noteq> None" for want by (simp add: jsonKeyEquals_def Let_def)
    then obtain isAdd isPort isPs where eq: "jsonKeyEquals key ''add'' = Some isAdd"
        "jsonKeyEquals key ''port'' = Some isPort" "jsonKeyEquals key ''ps'' = Some isPs"
      by (metis not_None_eq)
    define out' where "out' = (if isAdd then out\<lparr>vadd := val\<rparr>
       else if isPort then out\<lparr>vport := val\<rparr>
       else if isPs then out\<lparr>vps := val, psAt := Some w\<rparr> else out)"
    have ok: "field_ok doc out'"
      using less.prems(4) e by (auto simp: out'_def field_ok_def val_def split: option.splits)
    define j where "j = (if skipJSONSpace doc e < length doc \<and> doc ! skipJSONSpace doc e = CHR '',''
                  then skipJSONSpace doc e + 1 else skipJSONSpace doc e)"
    have step: "vmess_walk doc i0 out = vmess_walk doc j out'"
      unfolding vmess_walk.simps [of doc i0 out] Let_def i_def [symmetric] if_not_P [OF i(1)] if_not_P [OF i(2)]
        if_not_P [OF False] keyEnd_def [symmetric] w_def [symmetric] ks e(1) vs option.case prod.case eq
        out'_def [symmetric] j_def [symmetric] ..
    have jl: "j \<le> length doc" using skip_bound [OF e(3)] by (simp add: j_def)
    have aj: "at_member doc j" using am by (simp only: j_def Let_def)
    have "i0 \<le> i" unfolding i_def by (rule skip_ge)
    moreover have "keyEnd \<le> w" using skip_ge [of keyEnd doc] skip_ge [of "skipJSONSpace doc keyEnd + 1" doc]
      by (simp add: w_def)
    moreover have "e \<le> j" using skip_ge [of e doc] by (simp add: j_def)
    ultimately have "length doc - j < length doc - i0" using k(1) e(2) i by linarith
    from less.hyps [OF this less.prems(1) jl aj ok] show ?thesis unfolding step .
  qed
qed

text \<open>The first member of an accepted object is where the walk starts.\<close>

lemma object_start:
  assumes "json_valid doc" "skipJSONSpace doc 0 < length doc" "doc ! skipJSONSpace doc 0 = CHR 0x7B"
  shows "run doc (skipJSONSpace doc 0 + 1) = Some (BeginStringOrEmpty, [ObjectKey])"
proof -
  have "run doc 0 = Some (BeginValue, [])" by (simp add: run_def)
  then have r: "run doc (skipJSONSpace doc 0) = Some (BeginValue, [])"
    by (intro skip_same [OF assms(1)]) simp_all
  have "scan (BeginValue, []) CHR 0x7B = Some (BeginStringOrEmpty, [ObjectKey])"
    by (simp add: begin_value_def push_container_def maxNestingDepth_def)
  with r show ?thesis using assms(2,3) by (simp add: run_Suc)
qed

lemma vmessFields_total:
  "vmessFields doc = Refuse \<or>
   (\<exists>f. vmessFields doc = Done f \<and> field_ok doc f \<and> json_valid doc \<and>
        skipJSONSpace doc 0 < length doc \<and> doc ! skipJSONSpace doc 0 = CHR 0x7B)"
proof (cases "json_valid doc \<and> skipJSONSpace doc 0 \<noteq> length doc \<and> doc ! skipJSONSpace doc 0 = CHR 0x7B")
  case True
  then have v: "json_valid doc" and o: "doc ! skipJSONSpace doc 0 = CHR 0x7B"
    and l: "skipJSONSpace doc 0 < length doc"
    using skip_bound [of 0 doc] by simp_all
  have "at_member doc (skipJSONSpace doc 0 + 1)" using object_start [OF v l o] by (simp add: at_member_def)
  moreover have "field_ok doc \<lparr>vadd = [], vport = [], vps = [], psAt = None\<rparr>" by (simp add: field_ok_def)
  ultimately obtain f where "vmess_walk doc (skipJSONSpace doc 0 + 1) \<lparr>vadd = [], vport = [], vps = [], psAt = None\<rparr> = Some f"
      "field_ok doc f"
    using walk_total [OF v, of "skipJSONSpace doc 0 + 1"] l by auto
  with v l o show ?thesis by (simp add: vmessFields_def)
next
  case False
  with skip_bound [of 0 doc] show ?thesis by (auto simp: vmessFields_def Let_def)
qed

lemma splice_total:
  assumes "field_ok doc f" "json_valid doc" "skipJSONSpace doc 0 < length doc" "doc ! skipJSONSpace doc 0 = CHR 0x7B"
  shows "\<exists>plain. splice_name doc f n = Some plain"
proof (cases "psAt f")
  case None
  have l: "skipJSONSpace doc 0 + 1 \<le> length doc" using assms(3) by simp
  have "run doc (skipJSONSpace doc (skipJSONSpace doc 0 + 1)) = Some (BeginStringOrEmpty, [ObjectKey])"
    by (rule skip_same [OF assms(2) l object_start [OF assms(2-4)]]) simp
  from more_input [OF assms(2) skip_bound [OF l] this]
  have "skipJSONSpace doc (skipJSONSpace doc 0 + 1) < length doc" by simp
  with None show ?thesis by (simp add: splice_name_def Let_def)
next
  case (Some i)
  with assms(1) show ?thesis by (simp add: splice_name_def field_ok_def)
qed

lemma parseVmess_total: "parseVmess line k \<noteq> Panic"
proof -
  have "vmessFields doc \<noteq> Panic" for doc using vmessFields_total [of doc] by auto
  then show ?thesis
    by (auto simp: parseVmess_def Let_def split: option.splits outcome.splits if_splits)
qed

lemma rewriteVmessName_total: "rewriteVmessName raw tags name \<noteq> Panic"
proof -
  obtain s p f where c: "cut_str ''://'' raw = (s, p, f)" by (metis prod_cases3)
  show ?thesis
  proof (cases "decodeVmessPayload p")
    case (Some doc)
    show ?thesis
    proof (cases "vmessFields doc")
      case (Done g)
      with vmessFields_total [of doc] obtain plain where "splice_name doc g (appendJSONName [] tags name) = Some plain"
        using splice_total [of doc g] by auto
      with Some Done c show ?thesis by (simp add: rewriteVmessName_def)
    qed (use vmessFields_total [of doc] Some c in \<open>auto simp: rewriteVmessName_def\<close>)
  qed (simp add: rewriteVmessName_def c)
qed

section \<open>Properties\<close>

text \<open>
  C17: the unchecked JSON walkers never index outside the document: on no input, however
  malformed or adversarial its payload, does parsing a vmess link or relabelling it panic.
  \<^verbatim>\<open>json.Valid\<close> is the only guard in front of them, and it is enough.
\<close>

theorem vmess_never_panics:
  "parseVmess line k \<noteq> Panic \<and> rewriteVmessName raw tags name \<noteq> Panic"
  using parseVmess_total rewriteVmessName_total by blast

end
