(* ===== verification/VmessLinks.thy ===== *)
theory VmessLinks
  imports VmessWalk
begin

text \<open>
  What the vmess parser promises the rest of the service: the line it publishes for a link is
  one it accepts again as the same node, and every node it accepts can be relabelled, the AEAD
  form with the new name read back from the fragment.
\<close>

section \<open>Fragments\<close>

lemma vmessBody_eq: "vmessBody p = before_byte CHR ''#'' p"
  by (auto simp: vmessBody_def before_byte_def cut_byte_def split: option.splits)

definition fragment :: "string \<Rightarrow> string" where
  "fragment p = (case index_byte CHR ''#'' p of None \<Rightarrow> [] | Some h \<Rightarrow> drop h p)"

lemma fragment_cases: "fragment p = [] \<or> (\<exists>f. fragment p = CHR ''#'' # f)"
  by (auto simp: fragment_def split: option.splits dest!: index_byte_Some)
     (metis Cons_nth_drop_Suc)

lemma body_fragment: "p = vmessBody p @ fragment p"
  by (auto simp: vmessBody_eq before_byte_def fragment_def split: option.splits)

lemma vmessBody_no_hash: "CHR ''#'' \<notin> set (vmessBody p)"
  by (simp add: vmessBody_eq)

lemma index_byte_skip: "c \<notin> set a \<Longrightarrow> index_byte c (a @ s) = map_option ((+) (length a)) (index_byte c s)"
  by (cases "index_byte c s"; induction a) auto

lemma swap_body:
  assumes "CHR ''#'' \<notin> set b"
  shows "vmessBody (b @ fragment p) = b" and "fragment (b @ fragment p) = fragment p"
proof -
  have "fragment p = [] \<or> (\<exists>f. fragment p = CHR ''#'' # f)" by (rule fragment_cases)
  then show "vmessBody (b @ fragment p) = b"
    using assms by (auto simp: vmessBody_eq go_simps)
  show "fragment (b @ fragment p) = fragment p"
    using assms fragment_cases [of p]
    by (auto simp: fragment_def [of "b @ x" for x] index_byte_skip)
qed

lemma name_fragment:
  "vmess_name p f s =
     (let name = jsonValueString (vps f);
          name = (if name = [] \<and> fragment p \<noteq> [] then trim_space (tl (fragment p)) else name)
      in if name = [] then s else name)"
proof -
  have "(let (_, frag, found) = cut_byte CHR ''#'' p in if found then trim_space frag else []) =
        (if fragment p \<noteq> [] then trim_space (tl (fragment p)) else [])"
  proof (cases "index_byte CHR ''#'' p")
    case (Some h)
    with index_byte_Some [OF Some] have "drop h p = CHR ''#'' # drop (Suc h) p"
      by (metis Cons_nth_drop_Suc)
    with Some show ?thesis by (simp add: cut_byte_def fragment_def)
  qed (simp add: cut_byte_def fragment_def)
  then show ?thesis by (auto simp: vmess_name_def Let_def split: prod.splits)
qed

section \<open>The healed line\<close>

lemma digit_char_not_at: "v < 64 \<Longrightarrow> digit_char e v \<noteq> CHR ''@''"
proof -
  have "digit_value e CHR ''@'' = None"
    by (simp add: digit_value_def is_upper_def is_lower_def is_digit_def)
  then show "v < 64 \<Longrightarrow> digit_char e v \<noteq> CHR ''@''" by (metis digit_roundtrip option.distinct(1))
qed

lemma encode_not_at: "CHR ''@'' \<notin> set (AppendEncode e s)"
  by (induction e s rule: AppendEncode.induct) (auto simp: digit_char_not_at [THEN not_sym])

lemma encode_not_hash: "CHR ''#'' \<notin> set (AppendEncode e s)"
  by (blast dest: encode_no_breaks)

lemma decode_encoded_payload: "decodeVmessPayload (AppendEncode e doc @ fragment p) = Some doc"
proof -
  have "before_byte CHR ''#'' (AppendEncode e doc @ fragment p) = AppendEncode e doc"
    using swap_body(1) [OF encode_not_hash] by (simp add: vmessBody_eq)
  moreover have "before_byte CHR ''#'' (AppendEncode e doc) = AppendEncode e doc"
    by (rule before_byte_absent [OF encode_not_hash])
  ultimately show ?thesis
    using encoded_payload [of e doc] by (simp add: decodeVmessPayload_def)
qed

lemma vmess_raw_eq:
  "vmess_raw line k p doc =
     (if CHR ''-'' \<in> set (vmessBody p) \<or> CHR ''_'' \<in> set (vmessBody p)
      then take (k + 3) line @ AppendEncode StdEncoding doc @ fragment p else line)"
  by (simp add: vmess_raw_def fragment_def)

lemma parseVmess_json:
  assumes "parseVmess line k = Done nd" "CHR ''@'' \<notin> set (vmessBody (drop (k + 3) line))"
  obtains doc f where "decodeVmessPayload (drop (k + 3) line) = Some doc" "vmessFields doc = Done f"
    and "jsonValueString (vadd f) \<noteq> []" "jsonValueString (vport f) \<noteq> []"
    and "nd = \<lparr>Raw = vmess_raw line k (drop (k + 3) line) doc, Scheme = ''vmess'',
               Name = vmess_name (drop (k + 3) line) f (jsonValueString (vadd f)),
               Server = jsonValueString (vadd f), Port = jsonValueString (vport f), FragmentIdx = None\<rparr>"
  using assms by (auto simp: parseVmess_def Let_def split: option.splits outcome.splits if_splits)

lemma parseVmess_json_intro:
  assumes "CHR ''@'' \<notin> set (vmessBody (drop (k + 3) line))"
    and "decodeVmessPayload (drop (k + 3) line) = Some doc" "vmessFields doc = Done f"
    and "jsonValueString (vadd f) \<noteq> []" "jsonValueString (vport f) \<noteq> []"
  shows "parseVmess line k =
     Done \<lparr>Raw = vmess_raw line k (drop (k + 3) line) doc, Scheme = ''vmess'',
           Name = vmess_name (drop (k + 3) line) f (jsonValueString (vadd f)),
           Server = jsonValueString (vadd f), Port = jsonValueString (vport f), FragmentIdx = None\<rparr>"
  using assms by (simp add: parseVmess_def Let_def)

lemma healed_parse:
  assumes p: "parseVmess line k = Done nd" and k: "k + 3 \<le> length line"
  shows "parseVmess (Raw nd) k = Done nd"
proof (cases "CHR ''@'' \<in> set (vmessBody (drop (k + 3) line))")
  case True
  with p have "Raw nd = line"
    by (auto simp: parseVmess_def parseVmessAEAD_def Let_def split: option.splits prod.splits)
  with p show ?thesis by simp
next
  case at: False
  let ?p = "drop (k + 3) line"
  obtain doc f where d: "decodeVmessPayload ?p = Some doc" "vmessFields doc = Done f"
      "jsonValueString (vadd f) \<noteq> []" "jsonValueString (vport f) \<noteq> []"
    and nd: "nd = \<lparr>Raw = vmess_raw line k ?p doc, Scheme = ''vmess'',
               Name = vmess_name ?p f (jsonValueString (vadd f)),
               Server = jsonValueString (vadd f), Port = jsonValueString (vport f), FragmentIdx = None\<rparr>"
    by (rule parseVmess_json [OF p at])
  show ?thesis
  proof (cases "CHR ''-'' \<in> set (vmessBody ?p) \<or> CHR ''_'' \<in> set (vmessBody ?p)")
    case False
    then have "Raw nd = line" by (simp add: nd vmess_raw_eq)
    with p show ?thesis by simp
  next
    case True
    let ?b = "AppendEncode StdEncoding doc"
    define line' where "line' = take (k + 3) line @ ?b @ fragment ?p"
    have raw: "vmess_raw line k ?p doc = line'" using True by (simp add: vmess_raw_eq line'_def)
    have dr: "drop (k + 3) line' = ?b @ fragment ?p" using k by (simp add: line'_def)
    have body: "vmessBody (?b @ fragment ?p) = ?b" "fragment (?b @ fragment ?p) = fragment ?p"
      using swap_body [OF encode_not_hash] by simp_all
    have clean: "CHR ''-'' \<notin> set ?b \<and> CHR ''_'' \<notin> set ?b"
      using std_no_url [of StdEncoding] by (auto simp: url_safe_def)
    have "parseVmess line' k = Done \<lparr>Raw = vmess_raw line' k (?b @ fragment ?p) doc, Scheme = ''vmess'',
           Name = vmess_name (?b @ fragment ?p) f (jsonValueString (vadd f)),
           Server = jsonValueString (vadd f), Port = jsonValueString (vport f), FragmentIdx = None\<rparr>"
      by (rule parseVmess_json_intro [of k line' doc f, unfolded dr])
         (simp_all add: body encode_not_at decode_encoded_payload d)
    moreover have "vmess_raw line' k (?b @ fragment ?p) doc = line'"
      using clean by (simp add: vmess_raw_eq body)
    moreover have "vmess_name (?b @ fragment ?p) f s = vmess_name ?p f s" for s
      unfolding name_fragment body ..
    ultimately have "parseVmess line' k = Done \<lparr>Raw = line', Scheme = ''vmess'',
           Name = vmess_name ?p f (jsonValueString (vadd f)),
           Server = jsonValueString (vadd f), Port = jsonValueString (vport f), FragmentIdx = None\<rparr>"
      by simp
    then show ?thesis unfolding nd raw by simp
  qed
qed

section \<open>Relabelling\<close>

lemma digit_value_at: "digit_value e CHR ''@'' = None"
  by (simp add: digit_value_def is_upper_def is_lower_def is_digit_def)

lemma decode_digits_at: "CHR ''@'' \<in> set s \<Longrightarrow> decode_digits e s = None"
proof (induction s rule: length_induct)
  case (1 s)
  consider (n) "s = []" | (one) a where "s = [a]" | (two) a b where "s = [a, b]"
    | (three) a b c where "s = [a, b, c]" | (four) a b c d t where "s = a # b # c # d # t"
    by (metis neq_Nil_conv)
  then show ?case
  proof cases
    case four
    then have "CHR ''@'' \<in> set t \<Longrightarrow> decode_digits e t = None" using "1.IH" by simp
    with "1.prems" show ?thesis unfolding four
      by (auto simp: digit_value_at split: option.splits)
  qed (use "1.prems" digit_value_at in \<open>auto split: option.splits\<close>)
qed

lemma decode_at: "CHR ''@'' \<in> set s \<Longrightarrow> DecodeString e s = None"
  unfolding DecodeString_def by (rule decode_digits_at) simp

lemma payload_at: "CHR ''@'' \<in> set (vmessBody p) \<Longrightarrow> decodeVmessPayload p = None"
  unfolding decodeVmessPayload_def decodeBase64Tolerant_def vmessBody_eq [symmetric] stripWhitespace_filter
  by (rule decode_at) (simp add: is_line_space_def)

lemma cut_payload:
  assumes "cut_str ''://'' line = (scheme, payload, True)"
  shows "line = scheme @ ''://'' @ payload" and "drop (length scheme + 3) line = payload"
proof -
  obtain i where i: "index_str ''://'' line = Some i" "scheme = take i line"
      "payload = drop (i + length ''://'') line"
    using assms by (auto simp: cut_str_def split: option.splits)
  from index_str_Some [OF i(1)] i(2,3) show "line = scheme @ ''://'' @ payload" by (simp only:)
  then show "drop (length scheme + 3) line = payload" by simp
qed

lemma aead_relabelled:
  assumes c: "cut_str ''://'' line = (scheme, payload, True)"
    and p: "parseVmess line (length scheme) = Done nd" and at: "CHR ''@'' \<in> set (vmessBody payload)"
  shows "\<exists>out i. rewriteVmessAEADName line tags name = Some out \<and>
     parseVmess out (length scheme) =
       Done (nd\<lparr>Raw := out, FragmentIdx := Some i,
                 Name := (let n = trim_space (compose_name tags name) in if n = [] then Server nd else n)\<rparr>)"
proof -
  note line = cut_payload [OF c]
  obtain server port where sp: "splitVmessAEAD payload = Some (server, port)"
    and nd: "Scheme nd = ''vmess''" "Server nd = server" "Port nd = port"
    using p at by (auto simp: parseVmess_def line(2) parseVmessAEAD_def Let_def split: option.splits prod.splits)
  define n where "n = compose_name tags name"
  define p' where "p' = vmessBody payload @ CHR ''#'' # n"
  define out where "out = scheme @ ''://'' @ p'"
  have body: "vmessBody p' = vmessBody payload" "index_byte CHR ''#'' p' = Some (length (vmessBody payload))"
    using vmessBody_no_hash [of payload] by (simp_all add: p'_def vmessBody_eq go_simps index_byte_append)
  have sp': "splitVmessAEAD p' = Some (server, port)"
    using sp unfolding splitVmessAEAD_def body .
  have dr: "drop (length scheme + 3) out = p'" by (simp add: out_def)
  have "parseVmessAEAD out (length scheme) =
      Some \<lparr>Raw = out, Scheme = ''vmess'',
            Name = (if trim_space n = [] then server else trim_space n), Server = server, Port = port,
            FragmentIdx = Some (length scheme + 3 + length (vmessBody payload))\<rparr>"
    unfolding parseVmessAEAD_def dr Let_def sp' option.case prod.case body(2)
    by (simp add: p'_def)
  then have "parseVmess out (length scheme) =
      Done \<lparr>Raw = out, Scheme = ''vmess'',
            Name = (if trim_space n = [] then server else trim_space n), Server = server, Port = port,
            FragmentIdx = Some (length scheme + 3 + length (vmessBody payload))\<rparr>"
    using at by (simp add: parseVmess_def dr body)
  also have "\<dots> = Done (nd\<lparr>Raw := out, FragmentIdx := Some (length scheme + 3 + length (vmessBody payload)),
                 Name := (let n = trim_space (compose_name tags name) in if n = [] then Server nd else n)\<rparr>)"
    using nd by (cases nd) (simp add: n_def)
  finally have parsed: "parseVmess out (length scheme) =
      Done (nd\<lparr>Raw := out, FragmentIdx := Some (length scheme + 3 + length (vmessBody payload)),
                 Name := (let n = trim_space (compose_name tags name) in if n = [] then Server nd else n)\<rparr>)" .
  have "take (length payload - (case index_byte CHR ''#'' payload of None \<Rightarrow> 0 | Some h \<Rightarrow> length payload - h)) payload
      = vmessBody payload"
    using index_byte_Some [of "CHR ''#''" payload]
    by (auto simp: vmessBody_eq before_byte_def split: option.splits)
  then have "rewriteVmessAEADName line tags name = Some out"
    by (simp add: rewriteVmessAEADName_def c sp out_def p'_def n_def Let_def)
  with parsed show ?thesis by blast
qed

lemma json_relabelled:
  assumes c: "cut_str ''://'' line = (scheme, payload, True)"
    and p: "parseVmess line (length scheme) = Done nd" and at: "CHR ''@'' \<notin> set (vmessBody payload)"
  shows "\<exists>out. rewriteVmessName (Raw nd) tags name = Done (''vmess://'' @ out)"
proof -
  note line = cut_payload [OF c]
  have at': "CHR ''@'' \<notin> set (vmessBody (drop (length scheme + 3) line))" using at unfolding line(2) .
  obtain doc f where d: "decodeVmessPayload payload = Some doc" "vmessFields doc = Done f"
    and raw: "Raw nd = vmess_raw line (length scheme) payload doc"
    using parseVmess_json [OF p at'] unfolding line(2) by (metis Node.select_convs(1))
  have "\<exists>p'. cut_str ''://'' (Raw nd) = (scheme, p', True) \<and> decodeVmessPayload p' = Some doc"
  proof (cases "CHR ''-'' \<in> set (vmessBody payload) \<or> CHR ''_'' \<in> set (vmessBody payload)")
    case True
    then have "Raw nd = take (length scheme + 3) line @ AppendEncode StdEncoding doc @ fragment payload"
      by (simp add: raw vmess_raw_eq)
    also have "take (length scheme + 3) line = scheme @ ''://''" by (simp add: line(1))
    finally have "Raw nd = scheme @ ''://'' @ AppendEncode StdEncoding doc @ fragment payload" by simp
    with cut_str_recut [OF c] decode_encoded_payload show ?thesis by auto
  next
    case False
    then have "Raw nd = line" by (simp add: raw vmess_raw_eq)
    with c d(1) show ?thesis by auto
  qed
  then obtain p' where p': "cut_str ''://'' (Raw nd) = (scheme, p', True)" "decodeVmessPayload p' = Some doc" by blast
  have "field_ok doc f \<and> json_valid doc \<and> skipJSONSpace doc 0 < length doc \<and> doc ! skipJSONSpace doc 0 = CHR 0x7B"
    using vmessFields_total [of doc] d(2) by auto
  then obtain plain where "splice_name doc f (appendJSONName [] tags name) = Some plain"
    using splice_total by blast
  with p' d(2) show ?thesis by (simp add: rewriteVmessName_def)
qed

section \<open>Properties\<close>

text \<open>
  the line published for a vmess link is stable. Parsing replaces a url-safe base64 body by
  its standard-alphabet encoding; parsing that line again yields the identical node, name,
  server, port and line included.
\<close>

theorem vmess_heal_stable:
  assumes "parseVmess line k = Done nd" and "k + 3 \<le> length line"
  shows "parseVmess (Raw nd) k = Done nd"
  using assms by (rule healed_parse)

lemma sample_aead: "parseVmess ''vmess://u@h:1'' 5 =
    Done \<lparr>Raw = ''vmess://u@h:1'', Scheme = ''vmess'', Name = ''h'', Server = ''h'', Port = ''1'', FragmentIdx = None\<rparr>"
proof -
  have b: "vmessBody ''u@h:1'' = ''u@h:1''" by (simp add: vmessBody_def cut_byte_compute)
  have "splitVmessAEAD ''u@h:1'' = Some (''h'', ''1'')"
    unfolding splitVmessAEAD_def b by (simp add: before_byte_def splitHostPort_def is_digit_def Let_def)
  then show ?thesis by (simp add: parseVmess_def parseVmessAEAD_def b)
qed

lemma vmess_heal_stable_witness:
  "\<exists>nd. parseVmess ''vmess://u@h:1'' 5 = Done nd \<and> parseVmess (Raw nd) 5 = Done nd"
  using vmess_heal_stable [OF sample_aead] sample_aead by auto

text \<open>
  every vmess node the parser accepts can be relabelled. The AEAD form is refused by the
  JSON relabeller and relabelled in its fragment, and the result parses to the same node with
  the new name (the server when that is blank); the JSON form is always re-encoded with the
  new name spliced in.
\<close>

theorem vmess_relabel:
  assumes "cut_str ''://'' line = (scheme, payload, True)"
    and "parseVmess line (length scheme) = Done nd"
  shows "if CHR ''@'' \<in> set (vmessBody payload)
    then rewriteVmessName line tags name = Refuse \<and>
      (\<exists>out i. rewriteVmessAEADName line tags name = Some out \<and>
         parseVmess out (length scheme) =
           Done (nd\<lparr>Raw := out, FragmentIdx := Some i,
                     Name := (let n = trim_space (compose_name tags name) in if n = [] then Server nd else n)\<rparr>))
    else (\<exists>out. rewriteVmessName (Raw nd) tags name = Done (''vmess://'' @ out))"
proof (cases "CHR ''@'' \<in> set (vmessBody payload)")
  case True
  then have "rewriteVmessName line tags name = Refuse"
    using assms(1) by (simp add: rewriteVmessName_def payload_at)
  with aead_relabelled [OF assms True] True show ?thesis by simp
next
  case False
  with json_relabelled [OF assms False] show ?thesis by simp
qed

lemma vmess_relabel_witness:
  "\<exists>nd. parseVmess ''vmess://u@h:1'' 5 = Done nd \<and>
    (if CHR ''@'' \<in> set (vmessBody ''u@h:1'')
     then rewriteVmessName ''vmess://u@h:1'' ''T'' ''N'' = Refuse \<and>
      (\<exists>out i. rewriteVmessAEADName ''vmess://u@h:1'' ''T'' ''N'' = Some out \<and>
         parseVmess out (length ''vmess'') =
           Done (nd\<lparr>Raw := out, FragmentIdx := Some i,
                     Name := (let n = trim_space (compose_name ''T'' ''N'') in if n = [] then Server nd else n)\<rparr>))
     else (\<exists>out. rewriteVmessName (Raw nd) ''T'' ''N'' = Done (''vmess://'' @ out)))"
proof -
  have c: "cut_str ''://'' ''vmess://u@h:1'' = (''vmess'', ''u@h:1'', True)"
    by (simp add: cut_str_def has_prefix_def)
  have l: "length ''vmess'' = 5" by simp
  have p: "parseVmess ''vmess://u@h:1'' (length ''vmess'') =
    Done \<lparr>Raw = ''vmess://u@h:1'', Scheme = ''vmess'', Name = ''h'', Server = ''h'', Port = ''1'', FragmentIdx = None\<rparr>"
    unfolding l by (rule sample_aead)
  show ?thesis by (rule exI, rule conjI [OF sample_aead vmess_relabel [OF c p]])
qed

end
