(* ===== verification/Placeholder.thy ===== *)
theory Placeholder
  imports Endpoint
begin

text \<open>
  \<^verbatim>\<open>internal/subscription/placeholder.go\<close>: the test for a panel's stand-in node, one whose
  credential is the Nil UUID or whose server is the machine that dials it. The hand-written
  address walks avoid \<^verbatim>\<open>netip\<close> for speed; the lemmas relate the IPv4 walk to it exactly.
  Indices into the server are modelled as the suffix they point at.
\<close>

section \<open>The credential\<close>

fun nil_zeros :: "nat \<Rightarrow> string \<Rightarrow> nat option" where
  "nil_zeros zeros [] = Some zeros"
| "nil_zeros zeros (c # cs) =
     (if c = CHR ''0'' then nil_zeros (zeros + 1) cs
      else if c = CHR ''-'' then nil_zeros zeros cs
      else None)"

definition authority_end :: "string \<Rightarrow> nat" where
  "authority_end auth =
     (let e0 = length auth;
          e1 = (case index_byte CHR ''/'' auth of Some j \<Rightarrow> (if j < e0 then j else e0) | None \<Rightarrow> e0);
          e2 = (case index_byte CHR ''?'' auth of Some j \<Rightarrow> (if j < e1 then j else e1) | None \<Rightarrow> e1)
      in case index_byte CHR ''#'' auth of Some j \<Rightarrow> (if j < e2 then j else e2) | None \<Rightarrow> e2)"

definition nilCredential :: "string \<Rightarrow> bool" where
  "nilCredential raw =
     (let (_, auth, ok) = cut_str ''://'' raw
      in if \<not> ok then False
         else if auth = [] \<or> (hd auth \<noteq> CHR ''0'' \<and> hd auth \<noteq> CHR ''-'') then False
         else case last_index_byte CHR ''@'' (take (authority_end auth) auth) of
           None \<Rightarrow> False
         | Some at' \<Rightarrow>
             (if at' = 0 then False
              else case nil_zeros 0 (take at' auth) of
                None \<Rightarrow> False
              | Some zeros \<Rightarrow> zeros \<ge> 32))"

section \<open>The server\<close>

fun quad_digits :: "nat \<Rightarrow> nat \<Rightarrow> string \<Rightarrow> (nat \<times> nat \<times> string) option" where
  "quad_digits v n [] = Some (v, n, [])"
| "quad_digits v n (c # cs) =
     (if is_digit c then
        (if n = 1 \<and> v = 0 then None
         else let v' = v * 10 + (byte c - 48)
              in if v' > 255 then None else quad_digits v' (n + 1) cs)
      else Some (v, n, c # cs))"

definition quad_group :: "string \<Rightarrow> (nat \<times> string) option" where
  "quad_group s =
     (case quad_digits 0 0 s of
        None \<Rightarrow> None
      | Some (v, n, rest) \<Rightarrow> (if n = 0 then None else Some (v, rest)))"

fun quad_groups :: "nat \<Rightarrow> string \<Rightarrow> (nat list \<times> string) option" where
  "quad_groups 0 s = Some ([], s)"
| "quad_groups (Suc k) s =
     (if s = [] \<or> hd s \<noteq> CHR ''.'' then None
      else case quad_group (tl s) of
        None \<Rightarrow> None
      | Some (v, rest) \<Rightarrow>
          (case quad_groups k rest of None \<Rightarrow> None | Some (vs, r) \<Rightarrow> Some (v # vs, r)))"

definition dottedQuad :: "string \<Rightarrow> nat list option" where
  "dottedQuad s =
     (case quad_group s of
        None \<Rightarrow> None
      | Some (v, rest) \<Rightarrow>
          (case quad_groups 3 rest of
             None \<Rightarrow> None
           | Some (vs, r) \<Rightarrow> (if r = [] then Some (v # vs) else None)))"

definition localV4 :: "string \<Rightarrow> bool" where
  "localV4 s =
     (if s = ''0.0.0.0'' then True
      else if \<not> has_prefix ''127.'' s then False
      else dottedQuad s \<noteq> None)"

definition or_case :: "char \<Rightarrow> char" where
  "or_case c = (case c of Char b0 b1 b2 b3 b4 b5 b6 b7 \<Rightarrow> Char b0 b1 b2 b3 b4 True b6 b7)"

definition loopbackName :: "string \<Rightarrow> bool" where
  "loopbackName server =
     (if length server < 9 then False
      else let at' = length server - 9
           in if map or_case (drop at' server) \<noteq> ''localhost'' then False
              else at' = 0 \<or> server ! (at' - 1) = CHR ''.'')"

definition mapped_byte :: "char \<Rightarrow> char \<Rightarrow> bool" where
  "mapped_byte c want \<longleftrightarrow> c = want \<or> want = CHR ''f'' \<and> c = CHR ''F''"

definition cutMappedV4 :: "string \<Rightarrow> string option" where
  "cutMappedV4 s =
     (if length s \<le> 7 then None
      else if list_all2 mapped_byte (take 7 s) ''::ffff:'' then Some (drop 7 s)
      else None)"

text \<open>The IPv6 group at the front: whether its value is 1, and what follows it.\<close>

definition zeroOrOneGroup :: "string \<Rightarrow> (bool \<times> string) option" where
  "zeroOrOneGroup s =
     (let run = takeWhile (\<lambda>c. c = CHR ''0'' \<or> c = CHR ''1'') s;
          n = length run;
          group = (let d = dropWhile (\<lambda>c. c = CHR ''0'') run in if d = [] then ''0'' else d)
      in if n = 0 \<or> n > 4 then None
         else if group = ''0'' \<or> group = ''1'' then Some (group = ''1'', drop n s) else None)"

definition v6Separator :: "string \<Rightarrow> bool \<Rightarrow> (string \<times> bool) option" where
  "v6Separator s elided =
     (if hd s \<noteq> CHR '':'' then None
      else if tl s = [] then None
      else if hd (tl s) \<noteq> CHR '':'' then Some (tl s, elided)
      else if elided then None
      else Some (tl (tl s), True))"

lemma zeroOrOneGroup_length: "zeroOrOneGroup s = Some (one, rest) \<Longrightarrow> length rest < length s"
proof -
  assume z: "zeroOrOneGroup s = Some (one, rest)"
  let ?n = "length (takeWhile (\<lambda>c. c = CHR ''0'' \<or> c = CHR ''1'') s)"
  have n: "?n \<noteq> 0" and r: "rest = drop ?n s"
    using z unfolding zeroOrOneGroup_def Let_def by (simp_all only: split: if_splits) simp_all
  have "?n \<le> length s" by (rule length_takeWhile_le)
  with n have "length s - ?n < length s" by linarith
  with r show ?thesis by simp
qed

lemma v6Separator_length: "v6Separator s e = Some (rest, e') \<Longrightarrow> length rest \<le> length s"
  unfolding v6Separator_def by (cases s; cases "tl s") (auto split: if_splits)

function v6_walk :: "nat \<Rightarrow> bool \<Rightarrow> string \<Rightarrow> (nat \<times> bool) option" where
  "v6_walk groups elided s =
     (if s = [] then Some (groups, elided)
      else case zeroOrOneGroup s of
        None \<Rightarrow> None
      | Some (one, rest) \<Rightarrow>
          (if one \<and> rest \<noteq> [] then None
           else if rest = [] then Some (groups + 1, elided)
           else case v6Separator rest elided of
             None \<Rightarrow> None
           | Some (rest', elided') \<Rightarrow>
               (if rest' = [] then Some (groups + 1, elided')
                else v6_walk (groups + 1) elided' rest')))"
  by pat_completeness auto
termination
proof (relation "measure (\<lambda>(groups, elided, s). length s)")
  fix groups elided s x one rest y rest' elided'
  assume z: "zeroOrOneGroup s = Some x" "(one, rest) = x"
    and v: "v6Separator rest elided = Some y" "(rest', elided') = y"
  have "length rest < length s" using z zeroOrOneGroup_length [of s one rest] by simp
  moreover have "length rest' \<le> length rest" using v v6Separator_length [of rest elided rest' elided'] by simp
  ultimately show "((groups + 1, elided', rest'), groups, elided, s)
      \<in> measure (\<lambda>(groups, elided, s). length s)" by simp
qed simp

declare v6_walk.simps [simp del]

definition localV6 :: "string \<Rightarrow> bool" where
  "localV6 s =
     (case cutMappedV4 s of
        Some rest \<Rightarrow> localV4 rest
      | None \<Rightarrow>
          (if hd s = CHR '':'' then
             (if length s < 2 \<or> s ! 1 \<noteq> CHR '':'' then False
              else case v6_walk 0 True (drop 2 s) of
                None \<Rightarrow> False
              | Some (groups, elided) \<Rightarrow> if elided then groups < 8 else groups = 8)
           else case v6_walk 0 False s of
             None \<Rightarrow> False
           | Some (groups, elided) \<Rightarrow> if elided then groups < 8 else groups = 8))"

definition localServer :: "string \<Rightarrow> bool" where
  "localServer server =
     (if server = [] then False
      else if hd server = CHR ''0'' \<and> (localV4 server \<or> CHR '':'' \<in> set server \<and> localV6 server) then True
      else if hd server = CHR ''1'' \<and> has_prefix ''127.'' server \<and> localV4 server then True
      else if hd server = CHR '':'' \<and> localV6 server then True
      else loopbackName server)"

definition PlaceholderNode :: "string \<Rightarrow> string \<Rightarrow> bool" where
  "PlaceholderNode raw server \<longleftrightarrow> nilCredential raw \<or> localServer server"

section \<open>The IPv4 walk is the library's\<close>

lemma quad_digits_grow:
  "quad_digits v n s = Some (v', n', rest) \<Longrightarrow> 0 < v \<Longrightarrow>
     \<exists>ds. s = ds @ rest \<and> itoa v' = itoa v @ ds \<and> n' = n + length ds \<and>
       (rest = [] \<or> \<not> is_digit (hd rest)) \<and> v' \<le> max v 255"
proof (induction v n s rule: quad_digits.induct)
  case (2 v n c cs)
  show ?case
  proof (cases "is_digit c")
    case True
    let ?v = "v * 10 + (byte c - 48)"
    have "\<not> (n = 1 \<and> v = 0)" "\<not> ?v > 255" "quad_digits ?v (n + 1) cs = Some (v', n', rest)" "0 < ?v"
      using "2.prems" True by (auto simp: Let_def split: if_splits)
    with "2.IH" [OF True] obtain ds where "cs = ds @ rest" "itoa v' = itoa ?v @ ds"
        "n' = n + 1 + length ds" "rest = [] \<or> \<not> is_digit (hd rest)" "v' \<le> max ?v 255" by auto
    with itoa_snoc [OF "2.prems"(2) True] \<open>\<not> ?v > 255\<close> show ?thesis
      by (intro exI [of _ "c # ds"]) auto
  next
    case False
    with "2.prems" show ?thesis by auto
  qed
qed simp

lemma quad_group_itoa:
  "quad_group s = Some (v, rest) \<longleftrightarrow>
     v \<le> 255 \<and> s = itoa v @ rest \<and> (rest = [] \<or> \<not> is_digit (hd rest))"
proof
  assume g: "quad_group s = Some (v, rest)"
  then obtain n where q: "quad_digits 0 0 s = Some (v, n, rest)" and n: "n \<noteq> 0"
    by (auto simp: quad_group_def split: option.splits if_splits)
  from q n obtain c cs where s: "s = c # cs" and c: "is_digit c"
    by (cases s) (auto split: if_splits)
  let ?v = "byte c - 48"
  have v: "?v \<le> 9" using c by (auto simp: is_digit_def)
  with q s c have q': "quad_digits ?v 1 cs = Some (v, n, rest)" by (simp add: Let_def)
  show "v \<le> 255 \<and> s = itoa v @ rest \<and> (rest = [] \<or> \<not> is_digit (hd rest))"
  proof (cases "?v = 0")
    case True
    with q' have "rest = cs \<and> v = 0 \<and> (cs = [] \<or> \<not> is_digit (hd cs))"
      by (cases cs) (auto split: if_splits)
    with True s itoa_single [OF c] show ?thesis by auto
  next
    case False
    with quad_digits_grow [OF q'] s itoa_single [OF c] v show ?thesis by auto
  qed
next
  assume r: "v \<le> 255 \<and> s = itoa v @ rest \<and> (rest = [] \<or> \<not> is_digit (hd rest))"
  have stop: "quad_digits w n rest = Some (w, n, rest)" for w n
    using r by (cases rest) auto
  have run: "quad_digits w n (ds @ rest) = Some (dec_value (itoa w @ ds), n + length ds, rest)"
    if "0 < w" "list_all is_digit ds" "dec_value (itoa w @ ds) \<le> 255" for w n ds
    using that
  proof (induction ds arbitrary: w n)
    case (Cons d ds)
    let ?w = "w * 10 + (byte d - 48)"
    have i: "itoa ?w = itoa w @ [d]" using Cons.prems by (simp add: itoa_snoc)
    have mono: "x \<le> foldl (\<lambda>n c. n * 10 + (byte c - 48)) x ys" for x and ys :: string
    proof (induction ys arbitrary: x)
      case (Cons y ys)
      have "x \<le> x * 10 + (byte y - 48)" by simp
      also have "\<dots> \<le> foldl (\<lambda>n c. n * 10 + (byte c - 48)) (x * 10 + (byte y - 48)) ys" by (rule Cons)
      finally show ?case by simp
    qed simp
    have "?w \<le> dec_value (itoa w @ d # ds)"
      using mono [of ?w ds] dec_value_itoa [of w] by (simp add: dec_value_def)
    then have "?w \<le> 255" using Cons.prems(3) by simp
    moreover have "0 < ?w" using Cons.prems(1) by simp
    moreover have "dec_value (itoa ?w @ ds) \<le> 255" using Cons.prems(3) i by simp
    ultimately show ?case using Cons.IH [of ?w "n + 1"] Cons.prems i by (simp add: Let_def)
  qed (simp add: stop)
  show "quad_group s = Some (v, rest)"
  proof (cases "v = 0")
    case True
    have "is_digit CHR ''0''" by (simp add: is_digit_def)
    from itoa_single [OF this] True have "itoa v = ''0''" by simp
    with r True stop [of 0 1] show ?thesis by (simp add: quad_group_def is_digit_def)
  next
    case False
    obtain c ds where c: "itoa v = c # ds" using itoa_nonempty [of v] by (cases "itoa v") auto
    have dig: "is_digit c" "list_all is_digit ds" using itoa_digits [of v] c by auto
    have "c \<noteq> CHR ''0''"
    proof (cases "v < 10")
      case True
      then have "itoa v = [char_of (48 + v)]" by (subst itoa.simps) simp
      moreover have "char_of (48 + v) \<noteq> CHR ''0''"
      proof
        assume "char_of (48 + v) = CHR ''0''"
        then have "byte (char_of (48 + v)) = byte (CHR ''0'')" by simp
        then show False using True False \<open>v \<noteq> 0\<close> by (simp del: of_char_of)
      qed
      ultimately show ?thesis using c by simp
    next
      case False
      then show ?thesis using hd_itoa [of v] c by simp
    qed
    then have "byte c \<noteq> byte CHR ''0''" by (simp only: of_char_eq_iff not_False_eq_True)
    then have w: "0 < byte c - 48" "byte c - 48 \<le> 9" using dig(1) by (auto simp: is_digit_def)
    have "dec_value (itoa (byte c - 48) @ ds) = v"
      using dec_value_itoa [of v] c by (simp add: itoa_single [OF dig(1)])
    with run [OF w(1) dig(2), of 1] r c dig w show ?thesis
      by (simp add: quad_group_def Let_def)
  qed
qed

lemma quad_digits_digit:
  assumes "quad_digits v n s = Some (v', n', rest)"
  shows "n \<le> n'" and "rest = [] \<or> \<not> is_digit (hd rest)"
    and "n' = 0 \<Longrightarrow> rest = s"
  using assms by (induction v n s rule: quad_digits.induct) (auto simp: Let_def split: if_splits)

lemma parseIPv4Fields_group:
  assumes "if n = 0 then prev = None \<or> prev = Some CHR ''.'' else (\<exists>c. prev = Some c \<and> is_digit c)"
  shows "parseIPv4Fields prev v n fs s =
    (case quad_digits v n s of
       None \<Rightarrow> None
     | Some (v', n', rest) \<Rightarrow>
         (if rest = [] then (if length fs < 3 then None else Some (fs @ [v']))
          else if hd rest \<noteq> CHR ''.'' then None
          else if n' = 0 \<or> tl rest = [] \<or> length fs = 3 then None
          else parseIPv4Fields (Some CHR ''.'') 0 0 (fs @ [v']) (tl rest)))"
  using assms
proof (induction v n s arbitrary: prev rule: quad_digits.induct)
  case (2 v n c cs)
  show ?case
  proof (cases "is_digit c")
    case True
    show ?thesis
    proof (cases "n = 1 \<and> v = 0 \<or> v * 10 + (byte c - 48) > 255")
      case True
      with \<open>is_digit c\<close> show ?thesis by (auto simp: Let_def)
    next
      case False
      then have f: "\<not> (n = 1 \<and> v = 0)" "\<not> v * 10 + (byte c - 48) > 255" by simp_all
      have "if n + 1 = 0 then Some c = None \<or> Some c = Some CHR ''.''
            else (\<exists>d. Some c = Some d \<and> is_digit d)"
        using \<open>is_digit c\<close> by simp
      note ih = "2.IH" [OF \<open>is_digit c\<close> f(1) refl f(2) this]
      have "parseIPv4Fields prev v n fs (c # cs) =
          parseIPv4Fields (Some c) (v * 10 + (byte c - 48)) (n + 1) fs cs"
        unfolding parseIPv4Fields.simps Let_def if_P [OF \<open>is_digit c\<close>] if_not_P [OF f(1)] if_not_P [OF f(2)] ..
      moreover have "quad_digits v n (c # cs) = quad_digits (v * 10 + (byte c - 48)) (n + 1) cs"
        unfolding quad_digits.simps Let_def if_P [OF \<open>is_digit c\<close>] if_not_P [OF f(1)] if_not_P [OF f(2)] ..
      ultimately show ?thesis using ih by (simp only:)
    qed
  next
    case False
    have "\<not> is_digit CHR ''.''" by (simp add: is_digit_def)
    with "2.prems" have "prev = None \<or> prev = Some CHR ''.'' \<longleftrightarrow> n = 0"
      by (auto split: if_splits)
    with False show ?thesis by auto
  qed
qed simp

lemma parseIPv4Fields_quad:
  assumes "length fs \<le> 3" and "prev = None \<or> prev = Some CHR ''.''" and "s \<noteq> [] \<or> fs = []"
  shows "parseIPv4Fields prev 0 0 fs s =
    (case quad_group s of
       None \<Rightarrow> None
     | Some (v, rest) \<Rightarrow>
         (case quad_groups (3 - length fs) rest of
            None \<Rightarrow> None
          | Some (vs, r) \<Rightarrow> (if r = [] then Some (fs @ v # vs) else None)))"
  using assms
proof (induction "3 - length fs" arbitrary: fs prev s)
  case (0 fs prev s)
  then have l: "length fs = 3" by simp
  show ?case
  proof (cases "quad_digits 0 0 s")
    case None
    with 0 show ?thesis by (subst parseIPv4Fields_group) (simp_all add: quad_group_def)
  next
    case (Some x)
    obtain v n rest where x: "x = (v, n, rest)" by (cases x)
    have "n = 0 \<Longrightarrow> rest = s" using quad_digits_digit(3) Some x by simp
    with 0 l Some x show ?thesis
      by (subst parseIPv4Fields_group) (auto simp: quad_group_def)
  qed
next
  case (Suc k fs prev s)
  then have l: "length fs < 3" and k: "3 - length (fs @ [v]) = k" for v by simp_all
  show ?case
  proof (cases "quad_digits 0 0 s")
    case None
    with Suc.prems show ?thesis by (subst parseIPv4Fields_group) (simp_all add: quad_group_def)
  next
    case (Some x)
    obtain v n rest where x: "x = (v, n, rest)" by (cases x)
    have n0: "n = 0 \<Longrightarrow> rest = s" using quad_digits_digit(3) Some x by simp
    have nil: "quad_group [] = None" by (simp add: quad_group_def)
    show ?thesis
    proof (cases "rest \<noteq> [] \<and> hd rest = CHR ''.'' \<and> n \<noteq> 0 \<and> tl rest \<noteq> []")
      case True
      have "parseIPv4Fields prev 0 0 fs s = parseIPv4Fields (Some CHR ''.'') 0 0 (fs @ [v]) (tl rest)"
        using Suc.prems Some x True l by (subst parseIPv4Fields_group) simp_all
      also have "\<dots> = (case quad_group (tl rest) of
         None \<Rightarrow> None
       | Some (v', rest') \<Rightarrow>
           (case quad_groups k rest' of
              None \<Rightarrow> None
            | Some (vs, r) \<Rightarrow> (if r = [] then Some ((fs @ [v]) @ v' # vs) else None)))"
        using Suc.hyps(1) [of "fs @ [v]" "Some CHR ''.''" "tl rest"] k [of v] l True
        by (simp only: k) simp
      finally have p: "parseIPv4Fields prev 0 0 fs s = (case quad_group (tl rest) of
         None \<Rightarrow> None
       | Some (v', rest') \<Rightarrow>
           (case quad_groups k rest' of
              None \<Rightarrow> None
            | Some (vs, r) \<Rightarrow> (if r = [] then Some ((fs @ [v]) @ v' # vs) else None)))" .
      have g: "quad_group s = Some (v, rest)" using Some x True by (simp add: quad_group_def)
      have k3: "3 - length fs = Suc k" using Suc.hyps(2) by simp
      show ?thesis
      proof (cases "quad_group (tl rest)")
        case None
        with True show ?thesis unfolding p g k3 by simp
      next
        case (Some y)
        with True show ?thesis unfolding p g k3
          by (cases y; cases "quad_groups k (snd y)") auto
      qed
    next
      case False
      have "parseIPv4Fields prev 0 0 fs s = None"
        using Suc.prems Some x False l n0 by (subst parseIPv4Fields_group) auto
      moreover have "3 - length fs = Suc k" using Suc.hyps(2) by simp
      moreover have "n \<noteq> 0 \<Longrightarrow> quad_groups (Suc k) rest = None" using False nil by auto
      ultimately show ?thesis using Some x
        by (cases "n = 0") (simp_all add: quad_group_def [of s])
    qed
  qed
qed

lemma dottedQuad_parse: "dottedQuad s = parseIPv4Fields None 0 0 [] s"
proof -
  have "parseIPv4Fields None 0 0 [] s =
    (case quad_group s of
       None \<Rightarrow> None
     | Some (v, rest) \<Rightarrow>
         (case quad_groups 3 rest of
            None \<Rightarrow> None
          | Some (vs, r) \<Rightarrow> (if r = [] then Some (v # vs) else None)))"
    using parseIPv4Fields_quad [of "[]" None s]
    unfolding list.size append_Nil minus_nat.diff_0 by simp
  then show ?thesis by (simp only: dottedQuad_def)
qed

lemma quad_groups_step:
  "quad_groups (Suc k) s = Some (vs, r) \<longleftrightarrow>
     (\<exists>v vs' t. vs = v # vs' \<and> v \<le> 255 \<and> s = CHR ''.'' # itoa v @ t \<and>
        (t = [] \<or> \<not> is_digit (hd t)) \<and> quad_groups k t = Some (vs', r))"
proof
  assume "quad_groups (Suc k) s = Some (vs, r)"
  then obtain v t vs' where "s \<noteq> []" "hd s = CHR ''.''" "quad_group (tl s) = Some (v, t)"
      "quad_groups k t = Some (vs', r)" "vs = v # vs'"
    by (auto split: if_splits option.splits)
  then show "\<exists>v vs' t. vs = v # vs' \<and> v \<le> 255 \<and> s = CHR ''.'' # itoa v @ t \<and>
        (t = [] \<or> \<not> is_digit (hd t)) \<and> quad_groups k t = Some (vs', r)"
    by (cases s) (auto simp: quad_group_itoa)
next
  assume "\<exists>v vs' t. vs = v # vs' \<and> v \<le> 255 \<and> s = CHR ''.'' # itoa v @ t \<and>
        (t = [] \<or> \<not> is_digit (hd t)) \<and> quad_groups k t = Some (vs', r)"
  then obtain v vs' t where e: "vs = v # vs'" "s = CHR ''.'' # itoa v @ t" "quad_groups k t = Some (vs', r)"
    and "v \<le> 255 \<and> itoa v @ t = itoa v @ t \<and> (t = [] \<or> \<not> is_digit (hd t))" by blast
  then have "quad_group (itoa v @ t) = Some (v, t)" by (simp only: quad_group_itoa)
  with e show "quad_groups (Suc k) s = Some (vs, r)" by simp
qed

text \<open>The accepted spellings are the canonical ones.\<close>

definition quad_text :: "nat \<Rightarrow> nat \<Rightarrow> nat \<Rightarrow> nat \<Rightarrow> string" where
  "quad_text a b c d = itoa a @ ''.'' @ itoa b @ ''.'' @ itoa c @ ''.'' @ itoa d"

lemma dottedQuad_canonical:
  "dottedQuad s = Some vs \<longleftrightarrow>
     (\<exists>a b c d. vs = [a, b, c, d] \<and> a \<le> 255 \<and> b \<le> 255 \<and> c \<le> 255 \<and> d \<le> 255 \<and> s = quad_text a b c d)"
proof -
  have dot: "\<not> is_digit CHR ''.''" by (simp add: is_digit_def)
  have z: "quad_groups 0 t = Some (ws, []) \<longleftrightarrow> t = [] \<and> ws = []" for t ws by auto
  have "dottedQuad s = Some vs \<longleftrightarrow>
     (\<exists>v rest ws. quad_group s = Some (v, rest) \<and> quad_groups (Suc (Suc (Suc 0))) rest = Some (ws, []) \<and> vs = v # ws)"
    by (auto simp: dottedQuad_def numeral_3_eq_3 simp del: quad_groups.simps
        split: option.splits prod.splits if_splits)
  also have "\<dots> \<longleftrightarrow>
     (\<exists>a b c d. vs = [a, b, c, d] \<and> a \<le> 255 \<and> b \<le> 255 \<and> c \<le> 255 \<and> d \<le> 255 \<and> s = quad_text a b c d)"
    unfolding quad_groups_step z quad_group_itoa using dot by (auto simp: quad_text_def)
  finally show ?thesis .
qed

lemma itoa_127: "itoa 127 = ''127''"
proof -
  have d: "is_digit CHR ''1''" "is_digit CHR ''2''" "is_digit CHR ''7''" by (simp_all add: is_digit_def)
  have "itoa 1 = ''1''" using itoa_single [OF d(1)] by simp
  then have "itoa 12 = ''12''" using itoa_snoc [of 1, OF _ d(2)] by simp
  then show ?thesis using itoa_snoc [of 12, OF _ d(3)] by simp
qed

lemma itoa_0: "itoa 0 = ''0''"
proof -
  have "is_digit CHR ''0''" by (simp add: is_digit_def)
  from itoa_single [OF this] show ?thesis by simp
qed

lemma itoa_prefix_eq:
  assumes "itoa a @ CHR ''.'' # s = itoa b @ CHR ''.'' # t"
  shows "a = b \<and> s = t"
proof -
  have "CHR ''.'' \<notin> set (itoa n)" for n
    using itoa_digits [of n] by (auto simp: list_all_iff is_digit_def)
  then have "cut_byte CHR ''.'' (itoa n @ CHR ''.'' # u) = (itoa n, u, True)" for n u
    by (rule cut_byte_found)
  with assms have "itoa a = itoa b" "s = t" by (metis prod.inject)+
  then show ?thesis using dec_value_itoa by metis
qed

lemma quad_text_127: "has_prefix ''127.'' (quad_text a b c d) \<longleftrightarrow> a = 127"
proof
  assume "has_prefix ''127.'' (quad_text a b c d)"
  then obtain t where "quad_text a b c d = ''127.'' @ t" by (auto simp: has_prefix_iff)
  then have "itoa a @ CHR ''.'' # (itoa b @ ''.'' @ itoa c @ ''.'' @ itoa d) = itoa 127 @ CHR ''.'' # t"
    by (simp add: quad_text_def itoa_127)
  then show "a = 127" using itoa_prefix_eq by blast
qed (simp add: quad_text_def itoa_127)

lemma addr_kind_quad_text: "addr_kind (quad_text a b c d) = Some CHR ''.''"
proof -
  have "addr_kind (ds @ CHR ''.'' # t) = Some CHR ''.''" if "list_all is_digit ds" for ds t
    using that by (induction ds) (auto simp: is_digit_def)
  then show ?thesis by (simp add: quad_text_def)
qed

lemma ParseAddr_V4_kind:
  "ParseAddr s = Some (V4 w) \<longleftrightarrow> addr_kind s = Some CHR ''.'' \<and> parseIPv4 s = Some (V4 w)"
  by (auto simp: ParseAddr_def parseIPv6_def v6_of_bytes_def Let_def
      split: option.splits if_splits prod.splits)

lemma ParseAddr_quad:
  "ParseAddr s = Some (V4 w) \<longleftrightarrow>
     (\<exists>a b c d. a \<le> 255 \<and> b \<le> 255 \<and> c \<le> 255 \<and> d \<le> 255 \<and> s = quad_text a b c d \<and>
        w = word_of_nat (be_value [a, b, c, d]))"
proof -
  have p: "parseIPv4 s = Some (V4 w) \<longleftrightarrow> (\<exists>vs. dottedQuad s = Some vs \<and> w = word_of_nat (be_value vs))"
    by (auto simp: parseIPv4_def dottedQuad_parse split: option.splits)
  show ?thesis
    unfolding ParseAddr_V4_kind p dottedQuad_canonical using addr_kind_quad_text by blast
qed

lemma quad_unat:
  assumes "a \<le> 255" "b \<le> 255" "c \<le> 255" "d \<le> 255"
  shows "unat (word_of_nat (be_value [a, b, c, d]) :: 32 word) = ((a * 256 + b) * 256 + c) * 256 + d"
proof -
  have v: "be_value [a, b, c, d] = ((a * 256 + b) * 256 + c) * 256 + d" by (simp add: be_value_def)
  have "((a * 256 + b) * 256 + c) * 256 + d < 2 ^ 32" using assms by simp
  then have "be_value [a, b, c, d] < 2 ^ 32" by (simp only: v)
  then have "unat (word_of_nat (be_value [a, b, c, d]) :: 32 word) = be_value [a, b, c, d]"
    using of_nat_inverse [of "be_value [a, b, c, d]" "word_of_nat (be_value [a, b, c, d]) :: 32 word", OF refl]
    by (simp only: len_bit0 len_num1 mult.right_neutral mult_2 [symmetric]) simp
  then show ?thesis by (simp only: v)
qed

lemma quad_local:
  assumes "a \<le> 255" "b \<le> 255" "c \<le> 255" "d \<le> 255"
  defines "w \<equiv> word_of_nat (be_value [a, b, c, d]) :: 32 word"
  shows "w = 0 \<longleftrightarrow> a = 0 \<and> b = 0 \<and> c = 0 \<and> d = 0" and "drop_bit 24 w = 127 \<longleftrightarrow> a = 127"
proof -
  note u = quad_unat [OF assms(1-4), folded w_def]
  have "w = 0 \<longleftrightarrow> unat w = 0" by (simp add: unat_eq_0)
  then show "w = 0 \<longleftrightarrow> a = 0 \<and> b = 0 \<and> c = 0 \<and> d = 0" by (auto simp: u)
  have "unat (drop_bit 24 w) = unat w div 2 ^ 24" by (metis drop_bit_eq_div unat_drop_bit_eq)
  also have "\<dots> = a" using assms(1-4) unfolding u by simp
  finally have "unat (drop_bit 24 w) = a" .
  moreover have "unat (127 :: 32 word) = 127" by simp
  ultimately show "drop_bit 24 w = 127 \<longleftrightarrow> a = 127" by (metis word_unat_eq_iff)
qed

text \<open>
  the hand-written IPv4 test of a placeholder server answers exactly as Go's
  \<^verbatim>\<open>netip.ParseAddr\<close> would: it holds of a string when, and only when, the string parses as
  the unspecified IPv4 address or as an address of the loopback /8 - every spelling, every
  malformed string included.
\<close>

theorem local_v4_exact:
  "localV4 s \<longleftrightarrow>
     (case ParseAddr s of Some (V4 w) \<Rightarrow> w = 0 \<or> drop_bit 24 w = 127 | _ \<Rightarrow> False)"
proof -
  have "(case ParseAddr s of Some (V4 w) \<Rightarrow> w = 0 \<or> drop_bit 24 w = 127 | _ \<Rightarrow> False) \<longleftrightarrow>
        (\<exists>w. ParseAddr s = Some (V4 w) \<and> (w = 0 \<or> drop_bit 24 w = 127))"
    by (auto split: option.splits addr.splits)
  also have "\<dots> \<longleftrightarrow> (\<exists>a b c d. a \<le> 255 \<and> b \<le> 255 \<and> c \<le> 255 \<and> d \<le> 255 \<and> s = quad_text a b c d \<and>
        (a = 0 \<and> b = 0 \<and> c = 0 \<and> d = 0 \<or> a = 127))"
  proof
    assume "\<exists>w. ParseAddr s = Some (V4 w) \<and> (w = 0 \<or> drop_bit 24 w = 127)"
    then obtain w where p: "ParseAddr s = Some (V4 w)" and l: "w = 0 \<or> drop_bit 24 w = 127" by blast
    from p obtain a b c d where r: "a \<le> 255" "b \<le> 255" "c \<le> 255" "d \<le> 255"
      and s: "s = quad_text a b c d" and w: "w = word_of_nat (be_value [a, b, c, d])"
      unfolding ParseAddr_quad by blast
    from l have "a = 0 \<and> b = 0 \<and> c = 0 \<and> d = 0 \<or> a = 127" unfolding w quad_local [OF r] .
    with r s show "\<exists>a b c d. a \<le> 255 \<and> b \<le> 255 \<and> c \<le> 255 \<and> d \<le> 255 \<and> s = quad_text a b c d \<and>
        (a = 0 \<and> b = 0 \<and> c = 0 \<and> d = 0 \<or> a = 127)" by blast
  next
    assume "\<exists>a b c d. a \<le> 255 \<and> b \<le> 255 \<and> c \<le> 255 \<and> d \<le> 255 \<and> s = quad_text a b c d \<and>
        (a = 0 \<and> b = 0 \<and> c = 0 \<and> d = 0 \<or> a = 127)"
    then obtain a b c d where r: "a \<le> 255" "b \<le> 255" "c \<le> 255" "d \<le> 255"
      and s: "s = quad_text a b c d" and l: "a = 0 \<and> b = 0 \<and> c = 0 \<and> d = 0 \<or> a = 127" by blast
    have "ParseAddr s = Some (V4 (word_of_nat (be_value [a, b, c, d])))"
      unfolding ParseAddr_quad using r s by blast
    moreover from l have "word_of_nat (be_value [a, b, c, d]) = (0 :: 32 word) \<or>
        drop_bit 24 (word_of_nat (be_value [a, b, c, d]) :: 32 word) = 127"
      unfolding quad_local [OF r] .
    ultimately show "\<exists>w. ParseAddr s = Some (V4 w) \<and> (w = 0 \<or> drop_bit 24 w = 127)" by blast
  qed
  also have "\<dots> \<longleftrightarrow> s = ''0.0.0.0'' \<or>
        (\<exists>a b c d. a \<le> 255 \<and> b \<le> 255 \<and> c \<le> 255 \<and> d \<le> 255 \<and> s = quad_text a b c d \<and> a = 127)"
  proof -
    have z: "''0.0.0.0'' = quad_text 0 0 0 0" by (simp add: quad_text_def itoa_0)
    have "(0 :: nat) \<le> 255" by simp
    then show ?thesis unfolding z by blast
  qed
  also have "\<dots> \<longleftrightarrow> localV4 s"
  proof -
    have "dottedQuad s \<noteq> None \<longleftrightarrow>
        (\<exists>a b c d. a \<le> 255 \<and> b \<le> 255 \<and> c \<le> 255 \<and> d \<le> 255 \<and> s = quad_text a b c d)"
      using dottedQuad_canonical [of s] by (metis not_None_eq)
    moreover have "localV4 s \<longleftrightarrow> s = ''0.0.0.0'' \<or> dottedQuad s \<noteq> None \<and> has_prefix ''127.'' s"
      by (auto simp: localV4_def)
    ultimately have "localV4 s \<longleftrightarrow> s = ''0.0.0.0'' \<or>
       (\<exists>a b c d. a \<le> 255 \<and> b \<le> 255 \<and> c \<le> 255 \<and> d \<le> 255 \<and> s = quad_text a b c d \<and>
          has_prefix ''127.'' (quad_text a b c d))" by blast
    then show ?thesis unfolding quad_text_127 by blast
  qed
  finally show ?thesis by (simp only:)
qed

end
