(* ===== verification/Subscription.thy ===== *)
theory Subscription
  imports VmessLinks Placeholder
begin

text \<open>
  \<^verbatim>\<open>internal/subscription/subscription.go\<close>: a subscription line as a node, the loop over a
  body's lines and the normalisation of a downloaded body. The three schemes with their own
  payload come from \<^verbatim>\<open>Vmess\<close>, \<^verbatim>\<open>Ssr\<close> and \<^verbatim>\<open>Endpoint\<close>. \<^verbatim>\<open>parseVmess\<close> never panics
  (\<open>vmess_never_panics\<close>), so its panic outcome is read as a refusal here. The lemmas show that
  what a line parses to depends on its fragment only through the name.
\<close>

definition portless_scheme :: "string \<Rightarrow> bool" where
  "portless_scheme scheme \<longleftrightarrow>
     scheme = ''http'' \<or> scheme = ''https'' \<or> scheme = ''socks'' \<or> scheme = ''socks5'' \<or> scheme = ''socks5h''"

text \<open>
  The authority's server and port under the scheme's own rule: the \<^verbatim>\<open>switch\<close> over the scheme
  and the port default. \<open>authority_end\<close> is the same three-way minimum as in \<^verbatim>\<open>placeholder.go\<close>.
\<close>

definition scheme_fields :: "string \<Rightarrow> string \<Rightarrow> (string \<times> string) option" where
  "scheme_fields scheme rest =
     (let authEnd = authority_end rest;
          authority = take authEnd rest;
          (server, port) = splitHostPort authority
      in if scheme = ''ss'' then ssFields authority server port
         else if scheme = ''mierus'' then map_option (Pair server) (mieruPort (drop authEnd rest))
         else if portless_scheme scheme then (if port = [] then None else Some (server, port))
         else Some (server, port))"

definition port_or_default :: "string \<Rightarrow> string \<Rightarrow> string option" where
  "port_or_default scheme port =
     (if port = [] then (if scheme = ''hysteria2'' \<or> scheme = ''hy2'' then Some ''443'' else None)
      else Some port)"

definition parseNode :: "string \<Rightarrow> Node option" where
  "parseNode line =
     (case index_str ''://'' line of
        None \<Rightarrow> None
      | Some idx \<Rightarrow>
          (if idx = 0 \<or> \<not> validScheme (take idx line) then None
           else let scheme = map lower_byte (take idx line)
                in if scheme = ''vmess'' then accepted (parseVmess line idx)
                   else let rest = drop (idx + 3) line
                        in if scheme = ''ssr'' then parseSSR line rest
                           else case scheme_fields scheme rest of
                             None \<Rightarrow> None
                           | Some (server, port0) \<Rightarrow>
                               (if server = [] then None
                                else case port_or_default scheme port0 of
                                  None \<Rightarrow> None
                                | Some port \<Rightarrow>
                                    (let (name, hashIdx) =
                                       (case index_byte CHR ''#'' rest of
                                          None \<Rightarrow> ([], None)
                                        | Some hash \<Rightarrow>
                                            (trim_space (drop (idx + 3 + hash + 1) line), Some (idx + 3 + hash)))
                                     in Some \<lparr>Raw = line, Scheme = scheme,
                                              Name = (if name = [] then server else name),
                                              Server = server, Port = port, FragmentIdx = hashIdx\<rparr>))))"

text \<open>The loop of \<^verbatim>\<open>Parse\<close>: \<open>yield\<close> updates the caller's state and says whether to go on.\<close>

fun parse_loop :: "('s \<Rightarrow> Node \<Rightarrow> 's \<times> bool) \<Rightarrow> 's \<Rightarrow> nat \<Rightarrow> string list \<Rightarrow> 's \<times> nat" where
  "parse_loop yield st rejected [] = (st, rejected)"
| "parse_loop yield st rejected (line # ls) =
     (if contains_str line ''://'' then
        (case parseNode line of
           None \<Rightarrow> parse_loop yield st (rejected + 1) ls
         | Some nd \<Rightarrow>
             (let (st', go) = yield st nd
              in if \<not> go then (st', rejected) else parse_loop yield st' rejected ls))
      else parse_loop yield st rejected ls)"

definition Parse :: "string \<Rightarrow> ('s \<Rightarrow> Node \<Rightarrow> 's \<times> bool) \<Rightarrow> 's \<Rightarrow> 's \<times> nat" where
  "Parse body yield st = parse_loop yield st 0 (lines body)"

text \<open>\<open>xray\<close> is \<^verbatim>\<open>maybeXrayJSON\<close>, the converter of Xray JSON documents.\<close>

definition Normalize :: "(string \<Rightarrow> string option) \<Rightarrow> string \<Rightarrow> string" where
  "Normalize xray body0 =
     (let body = trim_space body0
      in case xray body of
           Some converted \<Rightarrow> converted
         | None \<Rightarrow>
             (if contains_str body ''://'' then body
              else case decodeBase64Tolerant (stripWhitespace (UnsafeString body)) of
                None \<Rightarrow> body
              | Some decoded0 \<Rightarrow>
                  (let decoded = trim_space decoded0
                   in case xray decoded of
                        Some converted \<Rightarrow> converted
                      | None \<Rightarrow> (if contains_str decoded ''://'' then decoded else body))))"

section \<open>The authority ends at the first delimiter\<close>

definition in_authority :: "char \<Rightarrow> bool" where
  "in_authority c \<longleftrightarrow> c \<noteq> CHR ''/'' \<and> c \<noteq> CHR ''?'' \<and> c \<noteq> CHR ''#''"

lemma index_byte_takeWhile:
  "index_byte c s = (if c \<in> set s then Some (length (takeWhile (\<lambda>x. x \<noteq> c) s)) else None)"
  by (induction s) auto

lemma takeWhile_le_length: "c \<in> set s \<Longrightarrow> length (takeWhile (\<lambda>x. x \<noteq> c) s) < length s"
  by (induction s) auto

lemma min_step:
  "(case index_byte c s of Some j \<Rightarrow> (if j < e then j else e) | None \<Rightarrow> e) =
     min e (length (takeWhile (\<lambda>x. x \<noteq> c) s))" if "e \<le> length s"
proof (cases "c \<in> set s")
  case False
  then have t: "takeWhile (\<lambda>x. x \<noteq> c) s = s" by (auto simp: takeWhile_eq_all_conv)
  show ?thesis unfolding index_byte_takeWhile t using False that by simp
qed (auto simp: index_byte_takeWhile)

lemma takeWhile_min:
  "length (takeWhile (\<lambda>x. P x \<and> Q x) s) = min (length (takeWhile P s)) (length (takeWhile Q s))"
  by (induction s) auto

lemma authority_end_eq: "authority_end s = length (takeWhile in_authority s)"
proof -
  have "authority_end s =
      min (min (min (length s) (length (takeWhile (\<lambda>x. x \<noteq> CHR ''/'') s)))
            (length (takeWhile (\<lambda>x. x \<noteq> CHR ''?'') s))) (length (takeWhile (\<lambda>x. x \<noteq> CHR ''#'') s))"
    unfolding authority_end_def Let_def by (simp add: min_step)
  also have "\<dots> = length (takeWhile in_authority s)"
    using length_takeWhile_le [of "\<lambda>x. x \<noteq> CHR ''/''" s]
    by (simp add: in_authority_def [abs_def] takeWhile_min min.assoc)
  finally show ?thesis .
qed

lemma authority_split:
  "take (authority_end s) s = takeWhile in_authority s" "drop (authority_end s) s = dropWhile in_authority s"
  by (simp_all add: authority_end_eq takeWhile_eq_take [symmetric] dropWhile_eq_drop [symmetric])

lemma before_hash_split:
  "takeWhile in_authority (before_byte CHR ''#'' s) = takeWhile in_authority s"
  "before_byte CHR ''#'' (dropWhile in_authority s) = dropWhile in_authority (before_byte CHR ''#'' s)"
proof -
  have b: "before_byte CHR ''#'' t = takeWhile (\<lambda>x. x \<noteq> CHR ''#'') t" for t
  proof (cases "CHR ''#'' \<in> set t")
    case False
    then have "takeWhile (\<lambda>x. x \<noteq> CHR ''#'') t = t" by (auto simp: takeWhile_eq_all_conv)
    from this [symmetric] show ?thesis by (simp only: before_byte_absent [OF False])
  qed (simp add: before_byte_def index_byte_takeWhile takeWhile_eq_take [symmetric])
  show "takeWhile in_authority (before_byte CHR ''#'' s) = takeWhile in_authority s"
    unfolding b by (induction s) (auto simp: in_authority_def)
  show "before_byte CHR ''#'' (dropWhile in_authority s) = dropWhile in_authority (before_byte CHR ''#'' s)"
    unfolding b by (induction s) (auto simp: in_authority_def)
qed

text \<open>Server and port do not depend on the fragment.\<close>

lemma scheme_fields_fragment:
  assumes "before_byte CHR ''#'' r = before_byte CHR ''#'' s"
  shows "scheme_fields scheme r = scheme_fields scheme s"
proof -
  have "takeWhile in_authority r = takeWhile in_authority s"
    using assms before_hash_split(1) by metis
  moreover have "before_byte CHR ''#'' (dropWhile in_authority r) = before_byte CHR ''#'' (dropWhile in_authority s)"
    using assms before_hash_split(2) by metis
  ultimately show ?thesis
    unfolding scheme_fields_def Let_def authority_split mieruPort_def by (simp only:)
qed

section \<open>The shape of a node\<close>

definition node_ok :: "Node \<Rightarrow> bool" where
  "node_ok nd \<longleftrightarrow> Server nd \<noteq> [] \<and> Port nd \<noteq> [] \<and> Name nd \<noteq> [] \<and> validScheme (Scheme nd) \<and>
     list_all (\<lambda>c. \<not> is_upper c) (Scheme nd) \<and>
     (case FragmentIdx nd of None \<Rightarrow> True | Some i \<Rightarrow> i < length (Raw nd) \<and> Raw nd ! i = CHR ''#'')"

lemma lower_scheme:
  assumes "validScheme s"
  shows "validScheme (map lower_byte s) \<and> list_all (\<lambda>c. \<not> is_upper c) (map lower_byte s)"
proof -
  have l: "is_lower (lower_byte c)" if "is_upper c" for c
    using that by (auto simp: lower_byte_def is_upper_def is_lower_def)
  have "scheme_tail_byte (lower_byte c)" if "scheme_tail_byte c" for c
    using that l [of c] by (cases "is_upper c") (auto simp: scheme_tail_byte_def)
  moreover have "is_lower (lower_byte c) \<or> is_upper (lower_byte c)" if "is_lower c \<or> is_upper c" for c
    using that l [of c] by (cases "is_upper c") auto
  ultimately show ?thesis
    using assms by (cases s) (auto simp: validScheme_def list_all_iff split: if_splits)
qed

lemma index_hash: "index_byte c s = Some i \<Longrightarrow> i < length s \<and> s ! i = c"
  by (auto dest: index_byte_Some)

lemma portNumber_nonempty: "portNumber p \<noteq> None \<Longrightarrow> p \<noteq> []"
  by (auto simp: portNumber_def)

lemma parseSSR_ok: "parseSSR line r = Some nd \<Longrightarrow> node_ok nd"
  by (auto simp: parseSSR_def node_ok_def validScheme_def is_lower_def is_upper_def scheme_tail_byte_def Let_def
      portNumber_nonempty split: option.splits prod.splits if_splits dest: index_hash)

lemma splitVmessAEAD_ok: "splitVmessAEAD p = Some (s, t) \<Longrightarrow> s \<noteq> [] \<and> t \<noteq> []"
  by (auto simp: splitVmessAEAD_def Let_def split: if_splits prod.splits)

lemma vmess_scheme_ok: "validScheme ''vmess''" "list_all (\<lambda>c. \<not> is_upper c) ''vmess''"
  by (simp_all add: validScheme_def is_lower_def is_upper_def scheme_tail_byte_def)

lemma parseVmess_ok: "parseVmess line k = Done nd \<Longrightarrow> node_ok nd"
proof (cases "CHR ''@'' \<in> set (vmessBody (drop (k + 3) line))")
  case True
  assume "parseVmess line k = Done nd"
  with True have p: "parseVmessAEAD line k = Some nd"
    by (auto simp: parseVmess_def Let_def split: option.splits)
  obtain s t where st: "splitVmessAEAD (drop (k + 3) line) = Some (s, t)"
    using p by (auto simp: parseVmessAEAD_def Let_def split: option.splits)
  show ?thesis
  proof (cases "index_byte CHR ''#'' (drop (k + 3) line)")
    case (Some h)
    then have "h < length (drop (k + 3) line)" "drop (k + 3) line ! h = CHR ''#''" by (auto dest: index_hash)
    then have "k + 3 + h < length line" "line ! (k + 3 + h) = CHR ''#''" by simp_all
    with p st Some splitVmessAEAD_ok [OF st] vmess_scheme_ok show ?thesis
      by (auto simp: parseVmessAEAD_def node_ok_def Let_def split: if_splits)
  next
    case None
    with p st splitVmessAEAD_ok [OF st] vmess_scheme_ok show ?thesis
      by (auto simp: parseVmessAEAD_def node_ok_def Let_def)
  qed
next
  case False
  assume "parseVmess line k = Done nd"
  then obtain doc f where "jsonValueString (vadd f) \<noteq> []" "jsonValueString (vport f) \<noteq> []"
    and nd: "nd = \<lparr>Raw = vmess_raw line k (drop (k + 3) line) doc, Scheme = ''vmess'',
               Name = vmess_name (drop (k + 3) line) f (jsonValueString (vadd f)),
               Server = jsonValueString (vadd f), Port = jsonValueString (vport f), FragmentIdx = None\<rparr>"
    by (rule parseVmess_json [OF _ False])
  moreover have "vmess_name p f s \<noteq> []" if "s \<noteq> []" for p s
    using that by (simp add: vmess_name_def Let_def)
  ultimately show ?thesis using vmess_scheme_ok unfolding nd node_ok_def by simp
qed

lemma scheme_not_upper:
  "validScheme s \<Longrightarrow> validScheme (map lower_byte s) \<and> list_all (\<lambda>c. \<not> is_upper c) (map lower_byte s)"
  by (rule lower_scheme)

lemma parseNode_shape:
  assumes "parseNode line = Some nd"
  obtains idx where "index_str ''://'' line = Some idx" "idx \<noteq> 0" "validScheme (take idx line)"
    and "Scheme nd = map lower_byte (take idx line) \<or> map lower_byte (take idx line) = ''vmess'' \<or>
         map lower_byte (take idx line) = ''ssr''"
  using assms by (auto simp: parseNode_def Let_def split: option.splits if_splits prod.splits)

text \<open>The generic arm, as one equation.\<close>

definition generic_node :: "string \<Rightarrow> nat \<Rightarrow> Node option" where
  "generic_node line idx =
     (let scheme = map lower_byte (take idx line); rest = drop (idx + 3) line
      in case scheme_fields scheme rest of
           None \<Rightarrow> None
         | Some (server, port0) \<Rightarrow>
             (if server = [] then None
              else map_option (\<lambda>port.
                \<lparr>Raw = line, Scheme = scheme,
                 Name = (let name = (if fragment rest = [] then [] else trim_space (tl (fragment rest)))
                         in if name = [] then server else name),
                 Server = server, Port = port,
                 FragmentIdx = map_option ((+) (idx + 3)) (index_byte CHR ''#'' rest)\<rparr>)
                (port_or_default scheme port0)))"

lemma fragment_index:
  "index_byte CHR ''#'' s = Some h \<Longrightarrow> fragment s = CHR ''#'' # drop (h + 1) s"
  "index_byte CHR ''#'' s = None \<Longrightarrow> fragment s = []"
  using index_hash [of "CHR ''#''" s h] by (auto simp: fragment_def Cons_nth_drop_Suc [symmetric])

lemma parseNode_generic:
  assumes "index_str ''://'' line = Some idx" "idx \<noteq> 0" "validScheme (take idx line)"
    and "map lower_byte (take idx line) \<noteq> ''vmess''" "map lower_byte (take idx line) \<noteq> ''ssr''"
  shows "parseNode line = generic_node line idx"
proof -
  let ?rest = "drop (idx + 3) line" and ?scheme = "map lower_byte (take idx line)"
  have n: "\<not> (idx = 0 \<or> \<not> validScheme (take idx line))" using assms by simp
  show ?thesis
  proof (cases "index_byte CHR ''#'' ?rest")
    case None
    from fragment_index(2) [OF None] None show ?thesis
      unfolding parseNode_def generic_node_def Let_def assms(1) option.case if_not_P [OF n]
        if_not_P [OF assms(4)] if_not_P [OF assms(5)] None
      by (auto split: option.splits)
  next
    case (Some h)
    have "drop (idx + 3 + h + 1) line = drop (h + 1) ?rest" by (simp add: add.commute add.left_commute)
    with fragment_index(1) [OF Some] show ?thesis
      unfolding parseNode_def generic_node_def Let_def assms(1) option.case if_not_P [OF n]
        if_not_P [OF assms(4)] if_not_P [OF assms(5)] Some
      by (auto split: option.splits)
  qed
qed

lemma generic_ok:
  assumes "generic_node line idx = Some nd" "validScheme (take idx line)"
  shows "node_ok nd"
proof -
  let ?rest = "drop (idx + 3) line" and ?scheme = "map lower_byte (take idx line)"
  obtain server port0 port where f: "scheme_fields ?scheme ?rest = Some (server, port0)" "server \<noteq> []"
      "port_or_default ?scheme port0 = Some port"
    and nd: "nd = \<lparr>Raw = line, Scheme = ?scheme,
                 Name = (let name = (if fragment ?rest = [] then [] else trim_space (tl (fragment ?rest)))
                         in if name = [] then server else name),
                 Server = server, Port = port,
                 FragmentIdx = map_option ((+) (idx + 3)) (index_byte CHR ''#'' ?rest)\<rparr>"
    using assms(1) by (auto simp: generic_node_def Let_def split: option.splits if_splits prod.splits)
  have "port \<noteq> []" using f(3) by (auto simp: port_or_default_def split: if_splits)
  moreover have "i < length line \<and> line ! i = CHR ''#''"
    if "map_option ((+) (idx + 3)) (index_byte CHR ''#'' ?rest) = Some i" for i
    using that by (auto dest!: index_hash)
  ultimately show ?thesis
    using f(2) lower_scheme [OF assms(2)] unfolding nd node_ok_def
    by (auto simp: Let_def split: option.splits)
qed

lemma parseNode_ok: "parseNode line = Some nd \<Longrightarrow> node_ok nd"
proof -
  assume p: "parseNode line = Some nd"
  then obtain idx where i: "index_str ''://'' line = Some idx" "idx \<noteq> 0" "validScheme (take idx line)"
    by (rule parseNode_shape)
  consider "map lower_byte (take idx line) = ''vmess''" | "map lower_byte (take idx line) = ''ssr''"
    | "map lower_byte (take idx line) \<noteq> ''vmess''" "map lower_byte (take idx line) \<noteq> ''ssr''" by blast
  then show ?thesis
  proof cases
    case 1
    with p i have "accepted (parseVmess line idx) = Some nd" by (simp add: parseNode_def)
    then have "parseVmess line idx = Done nd" by (cases "parseVmess line idx") auto
    then show ?thesis by (rule parseVmess_ok)
  next
    case 2
    with p i have "parseSSR line (drop (idx + 3) line) = Some nd" by (simp add: parseNode_def)
    then show ?thesis by (rule parseSSR_ok)
  next
    case 3
    with parseNode_generic [OF i] p generic_ok i(3) show ?thesis by metis
  qed
qed

section \<open>What a body yields\<close>

definition uri_lines :: "string \<Rightarrow> string list" where
  "uri_lines body = filter (\<lambda>l. contains_str l ''://'') (lines body)"

definition body_nodes :: "string \<Rightarrow> Node list" where
  "body_nodes body = List.map_filter parseNode (uri_lines body)"

definition body_rejected :: "string \<Rightarrow> nat" where
  "body_rejected body = length (filter (\<lambda>l. parseNode l = None) (uri_lines body))"

lemma parse_loop_all:
  "parse_loop (\<lambda>st nd. (f st nd, True)) st r ls =
     (foldl f st (List.map_filter parseNode (filter (\<lambda>l. contains_str l ''://'') ls)),
      r + length (filter (\<lambda>l. parseNode l = None) (filter (\<lambda>l. contains_str l ''://'') ls)))"
  by (induction ls arbitrary: st r) (auto split: option.splits)

lemma Parse_all: "Parse body (\<lambda>st nd. (f st nd, True)) st = (foldl f st (body_nodes body), body_rejected body)"
  by (simp add: Parse_def parse_loop_all body_nodes_def body_rejected_def uri_lines_def)

lemma parse_split: "length (body_nodes body) + body_rejected body = length (uri_lines body)"
proof -
  have "length (List.map_filter parseNode ls) + length (filter (\<lambda>l. parseNode l = None) ls) = length ls" for ls
    by (induction ls) (auto split: option.splits)
  then show ?thesis by (simp add: body_nodes_def body_rejected_def)
qed

lemma body_nodes_ok: "nd \<in> set (body_nodes body) \<Longrightarrow> node_ok nd"
  by (auto simp: body_nodes_def List.map_filter_def intro: parseNode_ok)

lemma length_body_nodes: "length (body_nodes body) \<le> Suc (count_list body newline)"
proof -
  have "length (body_nodes body) \<le> length (uri_lines body)" using parse_split [of body] by simp
  also have "\<dots> \<le> length (lines body)" by (simp add: uri_lines_def)
  finally show ?thesis using length_lines [of body] by simp
qed

section \<open>Properties\<close>

text \<open>
  whatever the line, a node the parser returns is complete and consistent: server, port and
  display name are non-empty, the scheme is a well-formed lower-case URI scheme, and the
  fragment index, when there is one, is the index of a \<open>#\<close> inside the node's line.
\<close>

theorem parsed_node_well_formed:
  "case parseNode line of
     None \<Rightarrow> True
   | Some nd \<Rightarrow> Server nd \<noteq> [] \<and> Port nd \<noteq> [] \<and> Name nd \<noteq> [] \<and> validScheme (Scheme nd) \<and>
       list_all (\<lambda>c. \<not> is_upper c) (Scheme nd) \<and>
       (case FragmentIdx nd of None \<Rightarrow> True | Some i \<Rightarrow> i < length (Raw nd) \<and> Raw nd ! i = CHR ''#'')"
  using parseNode_ok [of line] by (cases "parseNode line") (simp_all add: node_ok_def)

text \<open>
  the parse loop loses nothing. A consumer that never stops sees the nodes of exactly the
  body's URI-shaped lines that parse, in their order, and the returned count is exactly the
  number of the other URI-shaped lines.
\<close>

theorem parse_accounts_for_every_line:
  "Parse body (\<lambda>st nd. (f st nd, True)) st =
     (foldl f st (List.map_filter parseNode (filter (\<lambda>l. contains_str l ''://'') (lines body))),
      length (filter (\<lambda>l. contains_str l ''://'') (lines body))
        - length (List.map_filter parseNode (filter (\<lambda>l. contains_str l ''://'') (lines body))))"
  using Parse_all [of body f st] parse_split [of body]
  by (simp add: body_nodes_def body_rejected_def uri_lines_def)

end
