(* ===== verification/Rewrite.thy ===== *)
theory Rewrite
  imports Subscription
begin

text \<open>
  \<^verbatim>\<open>internal/rewrite/rewrite.go\<close>: the published name of a node. Known tags are stripped off the
  upstream name, the service's own tags are put in front, and the line is rewritten where its
  scheme keeps the name. The main lemma follows a rewritten line back through the parser.
\<close>

definition isKnownTag :: "string \<Rightarrow> bool" where
  "isKnownTag tag \<longleftrightarrow>
     tag = ''OK'' \<or> tag = ''BAD'' \<or> has_prefix ''GEO:'' tag \<or> has_prefix ''IP:'' tag \<or>
     has_prefix ''ASN:'' tag \<or> has_prefix ''JUR:'' tag \<or> has_prefix ''SPD:'' tag"

definition is_blank_byte :: "char \<Rightarrow> bool" where
  "is_blank_byte c \<longleftrightarrow> c = CHR '' '' \<or> c = CHR 0x09"

text \<open>The scan position is the suffix it points at.\<close>

function StripKnownTags :: "string \<Rightarrow> string" where
  "StripKnownTags s =
     (if s = [] then []
      else let t = dropWhile is_blank_byte s
           in if t = [] \<or> hd t \<noteq> CHR ''['' then trim_space t
              else case index_byte CHR '']'' t of
                None \<Rightarrow> trim_space t
              | Some k \<Rightarrow>
                  (if isKnownTag (take (k - 1) (drop 1 t)) then StripKnownTags (drop (k + 1) t)
                   else trim_space t))"
  by pat_completeness auto
termination
proof (relation "measure length")
  fix s :: string and t k
  assume "s \<noteq> []" "t = dropWhile is_blank_byte s" "index_byte CHR '']'' t = Some k"
  then have "length t \<le> length s" "k < length t"
    by (auto simp: length_dropWhile_le dest: index_hash)
  then show "(drop (k + 1) t, s) \<in> measure length" by simp
qed simp

declare StripKnownTags.simps [simp del]

definition supportsFragmentRewrite :: "Node \<Rightarrow> bool" where
  "supportsFragmentRewrite nd \<longleftrightarrow> Scheme nd \<noteq> []"

definition cleanName :: "Node \<Rightarrow> string" where
  "cleanName nd = (let n = StripKnownTags (Name nd) in if n = [] then Server nd else n)"

text \<open>What \<^verbatim>\<open>NodeName\<close> appends to the buffer.\<close>

definition NodeName :: "Node \<Rightarrow> string \<Rightarrow> string" where
  "NodeName nd tags =
     (if \<not> supportsFragmentRewrite nd then Raw nd
      else if Scheme nd = ''vmess'' then
        (case RewriteVmessNameTagged (Raw nd) tags (cleanName nd) of
           Done out \<Rightarrow> out
         | _ \<Rightarrow> (case RewriteVmessAEADNameTagged (Raw nd) tags (cleanName nd) of
                   Some out \<Rightarrow> out | None \<Rightarrow> Raw nd))
      else if Scheme nd = ''ssr'' then
        (case RewriteSSRNameTagged (Raw nd) tags (cleanName nd) of
           Some out \<Rightarrow> out | None \<Rightarrow> Raw nd)
      else (case FragmentIdx nd of Some i \<Rightarrow> take i (Raw nd) | None \<Rightarrow> Raw nd) @ ''#'' @
           (if tags \<noteq> [] then tags @ '' '' else []) @ cleanName nd)"

definition NodeName_buf :: "string \<Rightarrow> Node \<Rightarrow> string \<Rightarrow> string" where
  "NodeName_buf b nd tags = b @ NodeName nd tags"

section \<open>Rewritten lines\<close>

lemma before_hash: "before_byte CHR ''#'' (before_byte CHR ''#'' s @ CHR ''#'' # n) = before_byte CHR ''#'' s"
  by (rule before_byte_append) simp

lemma generic_renamed:
  fixes n :: string
  assumes i: "index_str ''://'' line = Some idx" "idx \<noteq> 0" "validScheme (take idx line)"
    and g: "map lower_byte (take idx line) \<noteq> ''vmess''" "map lower_byte (take idx line) \<noteq> ''ssr''"
    and p: "parseNode line = Some nd"
  defines "out \<equiv> take (idx + 3) line @ before_byte CHR ''#'' (drop (idx + 3) line) @ CHR ''#'' # n"
  shows "parseNode out = Some (nd\<lparr>Raw := out,
      Name := (let m = trim_space n in if m = [] then Server nd else m),
      FragmentIdx := Some (idx + 3 + length (before_byte CHR ''#'' (drop (idx + 3) line)))\<rparr>)"
proof -
  let ?rest = "drop (idx + 3) line" and ?b = "before_byte CHR ''#'' (drop (idx + 3) line)"
  note line = index_str_Some [OF i(1)]
  have l3: "idx + 3 \<le> length line" using line by simp
  have t3: "take (idx + 3) line = take idx line @ ''://''"
  proof -
    have "take (idx + 3) line = take (idx + 3) (take idx line @ ''://'' @ drop (idx + length ''://'') line)"
      using line by (simp only:)
    also have "\<dots> = take idx line @ ''://''" using l3 by simp
    finally show ?thesis .
  qed
  have o: "out = take idx line @ ''://'' @ (?b @ CHR ''#'' # n)" unfolding out_def t3 by simp
  have io: "index_str ''://'' out = Some idx" unfolding o by (rule index_str_recut [OF i(1)])
  have to: "take idx out = take idx line" unfolding o using l3 by simp
  have dro: "drop (idx + 3) out = ?b @ CHR ''#'' # n" unfolding out_def using l3 by simp
  have fo: "fragment (?b @ CHR ''#'' # n) = CHR ''#'' # n" "index_byte CHR ''#'' (?b @ CHR ''#'' # n) = Some (length ?b)"
    by (simp_all add: fragment_def index_byte_append)
  have sf: "scheme_fields s (?b @ CHR ''#'' # n) = scheme_fields s ?rest" for s
    by (rule scheme_fields_fragment) (rule before_hash)
  have "generic_node line idx = Some nd" using parseNode_generic [OF i g] p by simp
  then have "generic_node out idx = Some (nd\<lparr>Raw := out,
      Name := (let m = trim_space n in if m = [] then Server nd else m),
      FragmentIdx := Some (idx + 3 + length ?b)\<rparr>)"
    unfolding generic_node_def Let_def to dro sf fo
    by (auto split: option.splits prod.splits if_splits)
  moreover have "parseNode out = generic_node out idx"
    by (rule parseNode_generic [OF io i(2)]) (use i(3) g in \<open>simp_all add: to\<close>)
  ultimately show ?thesis by simp
qed

lemma generic_cut:
  assumes i: "index_str ''://'' line = Some idx" "idx \<noteq> 0" "validScheme (take idx line)"
    and g: "map lower_byte (take idx line) \<noteq> ''vmess''" "map lower_byte (take idx line) \<noteq> ''ssr''"
    and p: "parseNode line = Some nd"
  shows "(case FragmentIdx nd of Some i \<Rightarrow> take i (Raw nd) | None \<Rightarrow> Raw nd) =
      take (idx + 3) line @ before_byte CHR ''#'' (drop (idx + 3) line)"
    and "Scheme nd = map lower_byte (take idx line)"
proof -
  have gn: "generic_node line idx = Some nd" using parseNode_generic [OF i g] p by simp
  then have f: "FragmentIdx nd = map_option ((+) (idx + 3)) (index_byte CHR ''#'' (drop (idx + 3) line))"
    and raw: "Raw nd = line" and "Scheme nd = map lower_byte (take idx line)"
    by (auto simp: generic_node_def Let_def split: option.splits prod.splits if_splits)
  then show "Scheme nd = map lower_byte (take idx line)" by simp
  show "(case FragmentIdx nd of Some i \<Rightarrow> take i (Raw nd) | None \<Rightarrow> Raw nd) =
      take (idx + 3) line @ before_byte CHR ''#'' (drop (idx + 3) line)"
    unfolding f raw
  proof (cases "index_byte CHR ''#'' (drop (idx + 3) line)")
    case None
    have "take (idx + 3) line @ drop (idx + 3) line = line" by (rule append_take_drop_id)
    with None show "(case map_option ((+) (idx + 3)) (index_byte CHR ''#'' (drop (idx + 3) line)) of
        None \<Rightarrow> line | Some i \<Rightarrow> take i line) = take (idx + 3) line @ before_byte CHR ''#'' (drop (idx + 3) line)"
      by (simp add: before_byte_def)
  next
    case (Some h)
    then show "(case map_option ((+) (idx + 3)) (index_byte CHR ''#'' (drop (idx + 3) line)) of
        None \<Rightarrow> line | Some i \<Rightarrow> take i line) = take (idx + 3) line @ before_byte CHR ''#'' (drop (idx + 3) line)"
      by (simp add: before_byte_def take_add)
  qed
qed

text \<open>The line of a fragment scheme, cut where its fragment starts and given a new one.\<close>

lemma generic_rename:
  assumes "parseNode line = Some nd" and "Scheme nd \<noteq> ''vmess''" and "Scheme nd \<noteq> ''ssr''"
  defines "uri \<equiv> (case FragmentIdx nd of Some i \<Rightarrow> take i (Raw nd) | None \<Rightarrow> Raw nd)"
  shows "\<exists>i. parseNode (uri @ CHR ''#'' # n) = Some (nd\<lparr>Raw := uri @ CHR ''#'' # n,
      Name := (let m = trim_space n in if m = [] then Server nd else m), FragmentIdx := Some i\<rparr>)"
    and "Scheme nd \<noteq> []"
proof -
  obtain idx where i: "index_str ''://'' line = Some idx" "idx \<noteq> 0" "validScheme (take idx line)"
    using parseNode_shape [OF assms(1)] by metis
  have sch: "Scheme nd = map lower_byte (take idx line)"
  proof (rule ccontr)
    assume n: "Scheme nd \<noteq> map lower_byte (take idx line)"
    from parseNode_shape [OF assms(1)] i n
    have "map lower_byte (take idx line) = ''vmess'' \<or> map lower_byte (take idx line) = ''ssr''"
      by (metis option.inject)
    then show False
    proof
      assume v: "map lower_byte (take idx line) = ''vmess''"
      with assms(1) i have "accepted (parseVmess line idx) = Some nd" by (simp add: parseNode_def)
      then have "parseVmess line idx = Done nd" by (cases "parseVmess line idx") auto
      then have "Scheme nd = ''vmess''"
        by (auto simp: parseVmess_def parseVmessAEAD_def Let_def split: option.splits outcome.splits if_splits prod.splits)
      with assms(2) show False by blast
    next
      assume v: "map lower_byte (take idx line) = ''ssr''"
      with assms(1) i have "parseSSR line (drop (idx + 3) line) = Some nd" by (simp add: parseNode_def)
      then have "Scheme nd = ''ssr''"
        by (auto simp: parseSSR_def Let_def split: option.splits prod.splits if_splits)
      with assms(3) show False by blast
    qed
  qed
  have g: "map lower_byte (take idx line) \<noteq> ''vmess''" "map lower_byte (take idx line) \<noteq> ''ssr''"
    using assms(2,3) sch by simp_all
  show "Scheme nd \<noteq> []" using sch i(2) index_str_Some [OF i(1)] by auto
  have u: "uri = take (idx + 3) line @ before_byte CHR ''#'' (drop (idx + 3) line)"
    unfolding uri_def by (rule generic_cut(1) [OF i g assms(1)])
  show "\<exists>i. parseNode (uri @ CHR ''#'' # n) = Some (nd\<lparr>Raw := uri @ CHR ''#'' # n,
      Name := (let m = trim_space n in if m = [] then Server nd else m), FragmentIdx := Some i\<rparr>)"
    unfolding u append_assoc by (rule exI, rule generic_renamed [OF i g assms(1)])
qed

section \<open>Property\<close>

definition published_name :: "Node \<Rightarrow> string \<Rightarrow> string" where
  "published_name nd tags =
     (let m = trim_space (compose_name tags (cleanName nd)) in if m = [] then Server nd else m)"

text \<open>
  C36: relabelling a node of a fragment scheme changes its name and nothing else. The rewritten
  line parses to the same scheme, server and port - default ports, legacy shadowsocks and
  mieru port lists included - with the tags followed by the cleaned old name as its name.
\<close>

theorem relabel_keeps_endpoint:
  assumes "parseNode line = Some nd" and "Scheme nd \<noteq> ''vmess''" and "Scheme nd \<noteq> ''ssr''"
  shows "\<exists>i. parseNode (NodeName nd tags) =
     Some (nd\<lparr>Raw := NodeName nd tags, Name := published_name nd tags, FragmentIdx := Some i\<rparr>)"
proof -
  let ?uri = "case FragmentIdx nd of Some i \<Rightarrow> take i (Raw nd) | None \<Rightarrow> Raw nd"
  have out: "NodeName nd tags = ?uri @ CHR ''#'' # compose_name tags (cleanName nd)"
    using assms(2,3) generic_rename(2) [OF assms] by (simp add: NodeName_def supportsFragmentRewrite_def compose_name_def)
  show ?thesis
    unfolding out published_name_def by (rule generic_rename(1) [OF assms])
qed

lemma relabel_keeps_endpoint_witness:
  "\<exists>nd i. parseNode ''vless://u@h:1#x'' = Some nd \<and>
     parseNode (NodeName nd ''[GEO:DE]'') =
       Some (nd\<lparr>Raw := NodeName nd ''[GEO:DE]'', Name := published_name nd ''[GEO:DE]'', FragmentIdx := Some i\<rparr>)"
proof -
  have v: "validScheme ''vless''" by (simp add: validScheme_def is_lower_def is_upper_def scheme_tail_byte_def)
  have l: "map lower_byte ''vless'' = ''vless''" by (simp add: is_upper_def)
  have i: "index_str ''://'' ''vless://u@h:1#x'' = Some 5" by (simp add: has_prefix_def)
  have sf: "scheme_fields ''vless'' ''u@h:1#x'' = Some (''h'', ''1'')"
    by (simp add: scheme_fields_def portless_scheme_def authority_end_def splitHostPort_def Let_def)
  have t: "take 5 ''vless://u@h:1#x'' = ''vless''" "drop (5 + 3) ''vless://u@h:1#x'' = ''u@h:1#x''" by simp_all
  have "\<exists>nd. generic_node ''vless://u@h:1#x'' 5 = Some nd \<and> Scheme nd = ''vless''"
    unfolding generic_node_def t l sf Let_def by (simp add: port_or_default_def)
  then obtain nd where nd: "parseNode ''vless://u@h:1#x'' = Some nd" "Scheme nd = ''vless''"
    using parseNode_generic [OF i] v unfolding t l by auto
  have s: "Scheme nd \<noteq> ''vmess''" "Scheme nd \<noteq> ''ssr''" using nd(2) by simp_all
  from relabel_keeps_endpoint [OF nd(1) s] nd(1) show ?thesis by blast
qed

end
