(* ===== verification/BoundedCache.thy ===== *)
theory BoundedCache
  imports Prelude "HOL-Library.AList" "HOL-Library.Multiset"
begin

text \<open>
  The bounded TTL cache two resolvers share in shape (\<^verbatim>\<open>internal/resolver/resolver.go\<close>,
  \<^verbatim>\<open>internal/asn/resolver.go\<close>): expired entries are swept only when the map is full, and when
  that frees nothing an eighth of the live ones goes. A Go map is an association list with
  distinct keys; the order a \<^verbatim>\<open>range\<close> visits it in is the parameter \<open>order\<close>, any rearrangement.

  \<open>bounded_cache\<close> is the contract of the store operation each resolver defines for its own
  entries; its lemmas are proved from the equation alone.
\<close>

definition maxCacheEntries :: nat where
  "maxCacheEntries = 16384"

definition evictFraction :: nat where
  "evictFraction = 8"

definition rearranges :: "('a list \<Rightarrow> 'a list) \<Rightarrow> bool" where
  "rearranges order \<longleftrightarrow> (\<forall>xs. mset (order xs) = mset xs)"

definition cache_ok :: "('k \<times> 'e) list \<Rightarrow> bool" where
  "cache_ok c \<longleftrightarrow> distinct (map fst c) \<and> length c \<le> maxCacheEntries"

lemma length_update_le: "length (AList.update k v c) \<le> Suc (length c)"
  by (induction c) auto

lemma rearranges_distinct:
  "rearranges order \<Longrightarrow> distinct (map fst c) \<Longrightarrow> distinct (map fst (order c))"
proof -
  assume "rearranges order" and d: "distinct (map fst c)"
  then have "mset (map fst (order c)) = mset (map fst c)" by (simp add: rearranges_def)
  with d show ?thesis by (metis mset_eq_imp_distinct_iff)
qed

lemma rearranges_length: "rearranges order \<Longrightarrow> length (order c) = length c"
  by (metis mset_eq_length rearranges_def)

locale bounded_cache =
  fixes expired :: "int \<Rightarrow> 'e \<Rightarrow> bool"
    and evict :: "(('k \<times> 'e) list \<Rightarrow> ('k \<times> 'e) list) \<Rightarrow> int \<Rightarrow> ('k \<times> 'e) list \<Rightarrow> ('k \<times> 'e) list"
    and insert_entry :: "(('k \<times> 'e) list \<Rightarrow> ('k \<times> 'e) list) \<Rightarrow> int \<Rightarrow> 'k \<Rightarrow> 'e \<Rightarrow> ('k \<times> 'e) list \<Rightarrow> ('k \<times> 'e) list"
  assumes evict_eq: "evict order now c =
      (let live = filter (\<lambda>p. \<not> expired now (snd p)) c
       in if length live < maxCacheEntries then live
          else drop (maxCacheEntries div evictFraction) (order live))"
    and insert_eq: "insert_entry order now k e c =
      AList.update k e (if maxCacheEntries \<le> length c then evict order now c else c)"
begin

lemma evict_room:
  assumes "rearranges order" "length c \<le> maxCacheEntries"
  shows "length (evict order now c) < maxCacheEntries"
proof -
  have "length (filter (\<lambda>p. \<not> expired now (snd p)) c) \<le> maxCacheEntries"
    using assms(2) length_filter_le order_trans by blast
  with rearranges_length [OF assms(1)] show ?thesis
    by (auto simp: evict_eq Let_def maxCacheEntries_def evictFraction_def)
qed

lemma evict_distinct:
  assumes "rearranges order" "distinct (map fst c)"
  shows "distinct (map fst (evict order now c))"
proof -
  let ?l = "filter (\<lambda>p. \<not> expired now (snd p)) c"
  have d: "distinct (map fst ?l)" using assms(2) by (rule distinct_map_filter)
  with rearranges_distinct [OF assms(1) d] have "distinct (drop n (map fst (order ?l)))" for n
    by (intro distinct_drop)
  with d show ?thesis by (simp add: evict_eq Let_def drop_map)
qed

lemma insert_ok:
  assumes "rearranges order" "cache_ok c"
  shows "cache_ok (insert_entry order now k e c)"
proof -
  define c' where "c' = (if maxCacheEntries \<le> length c then evict order now c else c)"
  have "length c' < maxCacheEntries" "distinct (map fst c')"
    using assms evict_room [OF assms(1)] evict_distinct [OF assms(1)] by (auto simp: c'_def cache_ok_def)
  with length_update_le [of k e c'] show ?thesis
    unfolding insert_eq c'_def [symmetric] cache_ok_def by (simp add: distinct_update)
qed

lemma insert_lookup: "map_of (insert_entry order now k e c) k = Some e"
  by (simp add: insert_eq update_conv)

text \<open>Whatever else the map still holds, it held before.\<close>

lemma insert_keeps:
  assumes "rearranges order" "k' \<noteq> k" "map_of (insert_entry order now k e c) k' = Some e'" "distinct (map fst c)"
  shows "map_of c k' = Some e'"
proof -
  have m: "map_of (if maxCacheEntries \<le> length c then evict order now c else c) k' = Some e'"
    using assms(2,3) by (simp add: insert_eq update_conv)
  have "set (evict order now c) \<subseteq> set c"
  proof -
    have "set (order xs) = set xs" for xs
      using assms(1) by (metis rearranges_def set_mset_mset)
    then show ?thesis by (auto simp: evict_eq Let_def dest: in_set_dropD split: if_splits)
  qed
  moreover have "(k', e') \<in> set (if maxCacheEntries \<le> length c then evict order now c else c)"
    using m by (rule map_of_SomeD)
  ultimately have "(k', e') \<in> set c" by (auto split: if_splits)
  with assms(4) show ?thesis by simp
qed

end

end
