(* ===== verification/Resolver.thy ===== *)
theory Resolver
  imports BoundedCache Netip
begin

text \<open>
  \<^verbatim>\<open>internal/resolver/resolver.go\<close>: the caching DNS resolver. The wire query
  (\<^verbatim>\<open>net.Resolver.LookupNetIP\<close>) and the clock are arguments of each call: its answer, the
  clock before and after it, and whether the caller's context was done when it failed.
\<close>

record cacheEntry =
  ce_ips :: "addr list"
  ce_expires :: int

type_synonym dns_cache = "(string \<times> cacheEntry) list"

record Resolver =
  r_cacheTTL :: int
  r_negativeTTL :: int
  r_cache :: "dns_cache option"

definition newResolver :: "int \<Rightarrow> int \<Rightarrow> Resolver" where
  "newResolver cacheTTL negativeTTL =
     \<lparr>r_cacheTTL = cacheTTL, r_negativeTTL = negativeTTL,
      r_cache = (if cacheTTL > 0 \<or> negativeTTL > 0 then Some [] else None)\<rparr>"

definition cachedIPs :: "int \<Rightarrow> Resolver \<Rightarrow> string \<Rightarrow> addr list option" where
  "cachedIPs now r host =
     (case r_cache r of
        None \<Rightarrow> None
      | Some c \<Rightarrow>
          (case map_of c host of
             None \<Rightarrow> None
           | Some e \<Rightarrow> (if now > ce_expires e then None else Some (ce_ips e))))"

definition dns_expired :: "int \<Rightarrow> cacheEntry \<Rightarrow> bool" where
  "dns_expired now e \<longleftrightarrow> now > ce_expires e"

definition evictExpiredLocked :: "(dns_cache \<Rightarrow> dns_cache) \<Rightarrow> int \<Rightarrow> dns_cache \<Rightarrow> dns_cache" where
  "evictExpiredLocked order now c =
     (let live = filter (\<lambda>p. \<not> dns_expired now (snd p)) c
      in if length live < maxCacheEntries then live
         else drop (maxCacheEntries div evictFraction) (order live))"

definition dns_insert :: "(dns_cache \<Rightarrow> dns_cache) \<Rightarrow> int \<Rightarrow> string \<Rightarrow> cacheEntry \<Rightarrow> dns_cache \<Rightarrow> dns_cache" where
  "dns_insert order now host e c =
     AList.update host e (if maxCacheEntries \<le> length c then evictExpiredLocked order now c else c)"

definition storeCache ::
  "(dns_cache \<Rightarrow> dns_cache) \<Rightarrow> int \<Rightarrow> Resolver \<Rightarrow> string \<Rightarrow> addr list \<Rightarrow> int \<Rightarrow> Resolver" where
  "storeCache order now r host ips ttl =
     (case r_cache r of
        None \<Rightarrow> r
      | Some c \<Rightarrow>
          (if ttl \<le> 0 then r
           else r\<lparr>r_cache := Some (dns_insert order now host \<lparr>ce_ips = ips, ce_expires = now + ttl\<rparr> c)\<rparr>))"

interpretation dns: bounded_cache dns_expired evictExpiredLocked dns_insert
  by unfold_locales (simp_all add: evictExpiredLocked_def dns_insert_def)

section \<open>Removing duplicates in place\<close>

text \<open>
  The loop of \<^verbatim>\<open>dedupIPv4\<close>: \<open>out\<close> is \<^verbatim>\<open>ips[:n]\<close>. The small branch looks the address up among the
  first \<open>n\<close> of an array that holds the same addresses as \<^verbatim>\<open>ips[:n]\<close>, the large one in a map of
  the same keys; both writes land below the read index.
\<close>

fun dedup_loop :: "addr list \<Rightarrow> addr list \<Rightarrow> addr list \<Rightarrow> addr list" where
  "dedup_loop seen out [] = out"
| "dedup_loop seen out (ip # ips) =
     (if Is4 ip \<and> ip \<notin> set seen then dedup_loop (seen @ [ip]) (out @ [ip]) ips
      else dedup_loop seen out ips)"

definition dedupIPv4 :: "addr list \<Rightarrow> addr list" where
  "dedupIPv4 ips = dedup_loop [] [] ips"

section \<open>Resolving\<close>

text \<open>\<open>query\<close> is the answer of the wire query, \<open>None\<close> an error; \<open>ctx_done\<close> is \<^verbatim>\<open>ctx.Err() != nil\<close> after it.\<close>

definition Resolve ::
  "(dns_cache \<Rightarrow> dns_cache) \<Rightarrow> int \<Rightarrow> int \<Rightarrow> (string \<Rightarrow> addr list option) \<Rightarrow> bool \<Rightarrow> Resolver \<Rightarrow> string
   \<Rightarrow> addr list option \<times> Resolver" where
  "Resolve order now later query ctx_done r host =
     (case cachedIPs now r host of
        Some ips \<Rightarrow> (Some ips, r)
      | None \<Rightarrow>
          (case ParseAddr host of
             Some a \<Rightarrow> ((if Is4 a then Some [a] else None), r)
           | None \<Rightarrow>
               (case query host of
                  None \<Rightarrow>
                    (None, if \<not> ctx_done then storeCache order later r host [] (r_negativeTTL r) else r)
                | Some ips \<Rightarrow>
                    (let deduped = dedupIPv4 ips
                     in if deduped = [] then (Some [], storeCache order later r host [] (r_negativeTTL r))
                        else (Some deduped, storeCache order later r host deduped (r_cacheTTL r))))))"

section \<open>Lemmas\<close>

lemma dedup_loop_eq:
  "dedup_loop seen out ips =
     out @ rev (remdups (rev (filter (\<lambda>a. Is4 a \<and> a \<notin> set seen) ips)))"
proof (induction ips arbitrary: seen out)
  case (Cons ip ips)
  have rr: "rev (remdups (rev xs @ [x])) = x # rev (remdups (rev (filter (\<lambda>y. y \<noteq> x) xs)))" for x :: addr and xs
  proof -
    have "remdups (ys @ [x]) = remdups (filter (\<lambda>y. y \<noteq> x) ys) @ [x]" for ys
      by (induction ys) auto
    from this [of "rev xs"] show ?thesis by (simp add: rev_filter)
  qed
  show ?case
  proof (cases "Is4 ip \<and> ip \<notin> set seen")
    case True
    have "filter (\<lambda>y. y \<noteq> ip) (filter (\<lambda>a. Is4 a \<and> a \<notin> set seen) ips) =
        filter (\<lambda>a. Is4 a \<and> a \<notin> set (seen @ [ip])) ips"
      by (simp add: conj_commute conj_left_commute)
    with True Cons.IH [of "seen @ [ip]" "out @ [ip]"] show ?thesis by (simp add: rr)
  next
    case False
    then have "filter (\<lambda>a. Is4 a \<and> a \<notin> set seen) (ip # ips) = filter (\<lambda>a. Is4 a \<and> a \<notin> set seen) ips"
      by auto
    moreover have "dedup_loop seen out (ip # ips) = dedup_loop seen out ips" using False by auto
    ultimately show ?thesis by (simp only: Cons.IH)
  qed
qed simp

lemma dedup_result: "set (dedupIPv4 ips) = {a \<in> set ips. Is4 a}" "distinct (dedupIPv4 ips)"
  by (auto simp: dedupIPv4_def dedup_loop_eq)

definition resolver_ok :: "Resolver \<Rightarrow> bool" where
  "resolver_ok r \<longleftrightarrow>
     (case r_cache r of
        None \<Rightarrow> True
      | Some c \<Rightarrow> cache_ok c \<and> (\<forall>e \<in> snd ` set c. list_all Is4 (ce_ips e)))"

lemma newResolver_ok: "resolver_ok (newResolver a b)"
  by (simp add: newResolver_def resolver_ok_def cache_ok_def)

lemma dns_insert_entries:
  assumes "rearranges order" "cache_ok c" "p \<in> set (dns_insert order now host e c)"
  shows "p \<in> set c \<or> p = (host, e)"
proof (cases "fst p = host")
  case True
  have "distinct (map fst (dns_insert order now host e c))"
    using dns.insert_ok [OF assms(1,2)] by (simp add: cache_ok_def)
  then have "map_of (dns_insert order now host e c) (fst p) = Some (snd p)" using assms(3) by simp
  with True dns.insert_lookup have "snd p = e" by (metis option.inject)
  with True show ?thesis by (cases p) simp
next
  case False
  have "distinct (map fst (dns_insert order now host e c))"
    using dns.insert_ok [OF assms(1,2)] by (simp add: cache_ok_def)
  then have "map_of (dns_insert order now host e c) (fst p) = Some (snd p)" using assms(3) by simp
  from dns.insert_keeps [OF assms(1) False this] assms(2) have "map_of c (fst p) = Some (snd p)"
    by (simp add: cache_ok_def)
  then show ?thesis by (metis map_of_SomeD prod.collapse)
qed

lemma storeCache_ok:
  assumes "rearranges order" "resolver_ok r" "list_all Is4 ips"
  shows "resolver_ok (storeCache order now r host ips ttl)"
proof (cases "r_cache r")
  case (Some c)
  with assms(2) have c: "cache_ok c" "\<forall>e \<in> snd ` set c. list_all Is4 (ce_ips e)"
    by (simp_all add: resolver_ok_def)
  let ?e = "\<lparr>ce_ips = ips, ce_expires = now + ttl\<rparr>"
  have "\<forall>e \<in> snd ` set (dns_insert order now host ?e c). list_all Is4 (ce_ips e)"
    using dns_insert_entries [OF assms(1) c(1)] c(2) assms(3) by fastforce
  with dns.insert_ok [OF assms(1) c(1)] assms(2) Some show ?thesis
    by (simp add: storeCache_def resolver_ok_def)
qed (use assms in \<open>simp add: storeCache_def\<close>)

lemma Resolve_ok:
  assumes "rearranges order" "resolver_ok r"
  shows "resolver_ok (snd (Resolve order now later query cd r host))"
    and "fst (Resolve order now later query cd r host) = Some ips \<Longrightarrow> list_all Is4 ips"
proof -
  have hit: "list_all Is4 is" if "cachedIPs now r host = Some is" for "is"
  proof -
    from that obtain c e where "r_cache r = Some c" "map_of c host = Some e" "is = ce_ips e"
      by (auto simp: cachedIPs_def split: option.splits if_splits)
    with assms(2) show ?thesis by (force simp: resolver_ok_def dest: map_of_SomeD)
  qed
  have dd: "list_all Is4 (dedupIPv4 is)" for "is" by (simp add: list_all_iff dedup_result)
  show "resolver_ok (snd (Resolve order now later query cd r host))"
    using assms(2) storeCache_ok [OF assms] dd
    by (auto simp: Resolve_def Let_def split: option.splits)
  show "fst (Resolve order now later query cd r host) = Some ips \<Longrightarrow> list_all Is4 ips"
    using hit dd by (auto simp: Resolve_def Let_def split: option.splits if_splits)
qed

text \<open>A run of lookups, each with its own clock, map order, wire answer and context.\<close>

datatype dns_call = DnsCall "dns_cache \<Rightarrow> dns_cache" int int "string \<Rightarrow> addr list option" bool string

fun dns_order :: "dns_call \<Rightarrow> dns_cache \<Rightarrow> dns_cache" where
  "dns_order (DnsCall order _ _ _ _ _) = order"

fun dns_run :: "Resolver \<Rightarrow> dns_call list \<Rightarrow> Resolver \<times> addr list option list" where
  "dns_run r [] = (r, [])"
| "dns_run r (DnsCall order now later query d host # cs) =
     (let (ans, r') = Resolve order now later query d r host; (r'', as) = dns_run r' cs
      in (r'', ans # as))"

lemma dns_run_ok:
  assumes "resolver_ok r" "\<forall>c \<in> set cs. rearranges (dns_order c)"
  shows "resolver_ok (fst (dns_run r cs)) \<and> (\<forall>ips. Some ips \<in> set (snd (dns_run r cs)) \<longrightarrow> list_all Is4 ips)"
  using assms
proof (induction cs arbitrary: r)
  case (Cons c cs)
  obtain order now later query d host where c: "c = DnsCall order now later query d host" by (cases c)
  have o: "rearranges order" using Cons.prems(2) c by simp
  obtain ans r' where s: "Resolve order now later query d r host = (ans, r')" by (metis surj_pair)
  have "resolver_ok r'" "\<And>ips. ans = Some ips \<Longrightarrow> list_all Is4 ips"
    using Resolve_ok [OF o Cons.prems(1), where now = now and later = later and query = query and cd = d and host = host] s
    by auto
  with Cons.IH [of r'] Cons.prems(2) show ?case
    by (auto simp: c s split: prod.splits)
qed simp

section \<open>Property\<close>

text \<open>
  the resolver's cache is bounded and its answers are IPv4. After any sequence of lookups,
  with any clock, any map iteration order and any wire answers, the cache holds at most 16,384
  hosts, each once, and every answer given, cached or fresh, is a list of IPv4 addresses.
\<close>

theorem dns_cache_bounded_v4:
  assumes "\<forall>c \<in> set cs. rearranges (dns_order c)"
  shows "(case r_cache (fst (dns_run (newResolver cacheTTL negativeTTL) cs)) of
            None \<Rightarrow> True | Some c \<Rightarrow> distinct (map fst c) \<and> length c \<le> 16384) \<and>
         list_all (\<lambda>a. case a of None \<Rightarrow> True | Some ips \<Rightarrow> list_all Is4 ips)
           (snd (dns_run (newResolver cacheTTL negativeTTL) cs))"
  using dns_run_ok [OF newResolver_ok assms, of cacheTTL negativeTTL]
  by (auto simp: resolver_ok_def cache_ok_def maxCacheEntries_def list_all_iff [of _ "snd _"] split: option.splits)

lemma dns_cache_bounded_v4_witness:
  "(case r_cache (fst (dns_run (newResolver 60 5) [DnsCall rev 0 1 (\<lambda>h. Some [V4 1, V4 1]) False ''a''])) of
      None \<Rightarrow> True | Some c \<Rightarrow> distinct (map fst c) \<and> length c \<le> 16384) \<and>
   list_all (\<lambda>a. case a of None \<Rightarrow> True | Some ips \<Rightarrow> list_all Is4 ips)
     (snd (dns_run (newResolver 60 5) [DnsCall rev 0 1 (\<lambda>h. Some [V4 1, V4 1]) False ''a'']))"
  by (rule dns_cache_bounded_v4) (simp add: rearranges_def)

end
