(* ===== verification/Pipeline.thy ===== *)
theory Pipeline
  imports Rewrite CidrSet CountryFilter Refresh Resolver
begin

text \<open>
  \<^verbatim>\<open>internal/preprocess/filters.go\<close> and the request path of \<^verbatim>\<open>internal/preprocess/processor.go\<close>:
  the IP filters, the per-node pipeline and the loop over a body.

  What a request meets outside this code is the record \<open>env\<close>: the DNS resolver, the ASN
  resolver, the blocklist and the allow-list getter, each threading a world \<open>'w\<close>, so two calls
  may answer differently. Cancellation is the number of times the context is still found
  live (\<open>None\<close>: never cancelled); once done it stays done. The scratch buffers of the code hold
  copies that live for one node, so they do not appear.
\<close>

record Stats =
  Total :: nat
  Kept :: nat
  DNSDrop :: nat
  GeoDrop :: nat
  ASNDrop :: nat
  CIDRDrop :: nat
  GeoBlockDrop :: nat
  IPv6Drop :: nat
  Unsupported :: nat

definition no_stats :: Stats where
  "no_stats = \<lparr>Total = 0, Kept = 0, DNSDrop = 0, GeoDrop = 0, ASNDrop = 0, CIDRDrop = 0,
               GeoBlockDrop = 0, IPv6Drop = 0, Unsupported = 0\<rparr>"

record NodeResult =
  nr_Raw :: string
  nr_IP :: addr

record 'w env =
  e_dns :: "'w \<Rightarrow> string \<Rightarrow> addr list option \<times> 'w"
  e_asn :: "'w \<Rightarrow> addr \<Rightarrow> (string \<times> CountryCode) option \<times> 'w"
  e_blocked :: "('w \<Rightarrow> string \<Rightarrow> bool \<times> 'w) option"
  e_cidr :: "'w \<Rightarrow> cidr_set \<times> 'w"

text \<open>The request's country policy: the lookup chain and the two country sets.\<close>

record policy =
  p_Lookup :: "(addr \<Rightarrow> CountryCode) option"
  p_Allowed :: CountrySet
  p_Denied :: CountrySet

section \<open>The filters\<close>

text \<open>A compiled deny pattern is the predicate it matches names with.\<close>

datatype ip_filter =
    GeofeedFilter
  | ASNFilter bool "(string \<Rightarrow> bool) list"
  | CIDRFilter

definition isNameDenied :: "(string \<Rightarrow> bool) list \<Rightarrow> string \<Rightarrow> bool" where
  "isNameDenied patterns name = list_ex (\<lambda>p. p name) patterns"

definition geofeed_Process :: "policy \<Rightarrow> addr list \<Rightarrow> Stats \<Rightarrow> addr list \<times> Stats" where
  "geofeed_Process pol ips st =
     (if IsFull (p_Allowed pol) \<and> IsEmpty (p_Denied pol) then (ips, st)
      else let result = Permitted (p_Lookup pol) ips (p_Allowed pol) (p_Denied pol)
           in (result, if result = [] then st\<lparr>GeoDrop := GeoDrop st + 1\<rparr> else st))"

fun asn_loop ::
  "'w env \<Rightarrow> policy \<Rightarrow> (string \<Rightarrow> bool) list \<Rightarrow> addr list \<Rightarrow> bool \<Rightarrow> bool \<Rightarrow> 'w \<Rightarrow> addr list
   \<Rightarrow> addr list \<times> bool \<times> bool \<times> 'w" where
  "asn_loop env pol patterns out asnDrop geoDrop w [] = (out, asnDrop, geoDrop, w)"
| "asn_loop env pol patterns out asnDrop geoDrop w (ip # ips) =
     (case e_asn env w ip of
        (None, w') \<Rightarrow> asn_loop env pol patterns (out @ [ip]) asnDrop geoDrop w' ips
      | (Some (name, country), w') \<Rightarrow>
          (if name \<noteq> [] \<and> isNameDenied patterns name
           then asn_loop env pol patterns out True geoDrop w' ips
           else if \<not> Permits (p_Allowed pol) (p_Denied pol) country
           then asn_loop env pol patterns out asnDrop True w' ips
           else asn_loop env pol patterns (out @ [ip]) asnDrop geoDrop w' ips))"

definition asn_Process ::
  "'w env \<Rightarrow> policy \<Rightarrow> bool \<Rightarrow> (string \<Rightarrow> bool) list \<Rightarrow> 'w \<Rightarrow> addr list \<Rightarrow> Stats \<Rightarrow> addr list \<times> Stats \<times> 'w" where
  "asn_Process env pol resolver patterns w ips st =
     (if \<not> resolver then (ips, st, w)
      else let (out, asnDrop, geoDrop, w') = asn_loop env pol patterns [] False False w ips
           in (out,
               if out = [] then
                 (if asnDrop then st\<lparr>ASNDrop := ASNDrop st + 1\<rparr>
                  else if geoDrop then st\<lparr>GeoDrop := GeoDrop st + 1\<rparr> else st)
               else st, w'))"

definition cidr_Process :: "cidr_set \<Rightarrow> addr list \<Rightarrow> Stats \<Rightarrow> addr list \<times> Stats" where
  "cidr_Process set' ips st =
     (let out = compact (Contains set') ips 0 0
      in (out, if out = [] then st\<lparr>CIDRDrop := CIDRDrop st + 1\<rparr> else st))"

fun Process :: "'w env \<Rightarrow> policy \<Rightarrow> ip_filter \<Rightarrow> 'w \<Rightarrow> addr list \<Rightarrow> Stats \<Rightarrow> addr list \<times> Stats \<times> 'w" where
  "Process env pol GeofeedFilter w ips st = (let (out, st') = geofeed_Process pol ips st in (out, st', w))"
| "Process env pol (ASNFilter r pats) w ips st = asn_Process env pol r pats w ips st"
| "Process env pol CIDRFilter w ips st =
     (let (set', w') = e_cidr env w; (out, st') = cidr_Process set' ips st in (out, st', w'))"

section \<open>Building the chain\<close>

datatype filter_type = FilterCountry | FilterASN | FilterCIDR | FilterOther string

record IPFilterSpec =
  fs_Type :: filter_type
  fs_Provider :: string
  fs_DenyPatterns :: "string list"

datatype build_error = ErrNoASNResolver | ErrNoCIDRSet | ErrPattern string

text \<open>\<open>compile\<close> is \<^verbatim>\<open>regexp.Compile\<close> with \<^verbatim>\<open>MatchString\<close> of the result.\<close>

fun compilePatterns :: "(string \<Rightarrow> (string \<Rightarrow> bool) option) \<Rightarrow> string list \<Rightarrow> build_error + (string \<Rightarrow> bool) list" where
  "compilePatterns compile [] = Inr []"
| "compilePatterns compile (p # ps) =
     (case compile p of
        None \<Rightarrow> Inl (ErrPattern p)
      | Some re \<Rightarrow>
          (case compilePatterns compile ps of Inl e \<Rightarrow> Inl e | Inr res \<Rightarrow> Inr (re # res)))"

fun build_loop ::
  "(string \<Rightarrow> (string \<Rightarrow> bool) option) \<Rightarrow> bool \<Rightarrow> bool \<Rightarrow> ip_filter list \<Rightarrow> IPFilterSpec list
   \<Rightarrow> build_error + ip_filter list" where
  "build_loop compile asnR cidrSet filters [] = Inr filters"
| "build_loop compile asnR cidrSet filters (spec # specs) =
     (case fs_Type spec of
        FilterCountry \<Rightarrow>
          (if fs_Provider spec = ''asn'' then
             (if \<not> asnR then Inl ErrNoASNResolver
              else build_loop compile asnR cidrSet (filters @ [ASNFilter True []]) specs)
           else build_loop compile asnR cidrSet (filters @ [GeofeedFilter]) specs)
      | FilterASN \<Rightarrow>
          (if \<not> asnR then Inl ErrNoASNResolver
           else case compilePatterns compile (fs_DenyPatterns spec) of
             Inl e \<Rightarrow> Inl e
           | Inr pats \<Rightarrow> build_loop compile asnR cidrSet (filters @ [ASNFilter True pats]) specs)
      | FilterCIDR \<Rightarrow>
          (if \<not> cidrSet then Inl ErrNoCIDRSet
           else build_loop compile asnR cidrSet (filters @ [CIDRFilter]) specs)
      | FilterOther _ \<Rightarrow> build_loop compile asnR cidrSet filters specs)"

definition buildFilters ::
  "(string \<Rightarrow> (string \<Rightarrow> bool) option) \<Rightarrow> IPFilterSpec list \<Rightarrow> bool \<Rightarrow> bool \<Rightarrow> build_error + ip_filter list" where
  "buildFilters compile specs asnR cidrSet = build_loop compile asnR cidrSet [] specs"

text \<open>Which backends the configuration references: the ASN resolver, DB-IP, the registry.\<close>

definition spec_needs_asn :: "IPFilterSpec \<Rightarrow> bool" where
  "spec_needs_asn spec \<longleftrightarrow>
     fs_Type spec = FilterASN \<or> fs_Type spec = FilterCountry \<and> fs_Provider spec = ''asn''"

fun provider_step :: "bool \<times> bool \<times> bool \<Rightarrow> string \<Rightarrow> bool \<times> bool \<times> bool" where
  "provider_step (a, d, r) prov =
     (if prov = ''asn'' then (True, d, r)
      else if prov = ''dbip'' then (a, True, r)
      else if prov = ''registry'' then (a, d, True) else (a, d, r))"

definition providerNeeds :: "IPFilterSpec list \<Rightarrow> AnnotateSpec list \<Rightarrow> bool \<times> bool \<times> bool" where
  "providerNeeds specs annotate =
     foldl (foldl provider_step) (list_ex spec_needs_asn specs, False, False) (map Providers annotate)"

section \<open>The sink\<close>

definition arenaChunk :: nat where
  "arenaChunk = 8192"

text \<open>
  The sink's survivors and the book-keeping of its arena: the current chunk's bytes and
  capacity, what is left of the byte bound, and the survivor slice's capacity. How far an
  overflowing \<^verbatim>\<open>append\<close> grows a slice is the runtime's choice; the least it may is taken.
\<close>

record sliceSink =
  sk_nodes :: "NodeResult list"
  sk_cap :: nat
  sk_arena :: string
  sk_arenaCap :: nat
  sk_byteBound :: int

definition empty_sink :: sliceSink where
  "empty_sink = \<lparr>sk_nodes = [], sk_cap = 0, sk_arena = [], sk_arenaCap = 0, sk_byteBound = 0\<rparr>"

definition intern :: "sliceSink \<Rightarrow> string \<Rightarrow> string \<times> sliceSink" where
  "intern s line =
     (let s1 = (if length line > sk_arenaCap s - length (sk_arena s)
                then s\<lparr>sk_arena := [],
                       sk_arenaCap := nat (max (min (int arenaChunk) (sk_byteBound s)) (int (length line)))\<rparr>
                else s);
          start = length (sk_arena s1);
          s2 = s1\<lparr>sk_arena := sk_arena s1 @ line, sk_byteBound := sk_byteBound s1 - int (length line)\<rparr>
      in (UnsafeString (drop start (sk_arena s2)), s2))"

definition emit :: "sliceSink \<Rightarrow> Node \<Rightarrow> addr \<Rightarrow> sliceSink" where
  "emit s nd ip =
     (let (raw, s') = intern s (Raw nd)
      in s'\<lparr>sk_nodes := sk_nodes s' @ [\<lparr>nr_Raw = raw, nr_IP = ip\<rparr>],
            sk_cap := max (sk_cap s') (length (sk_nodes s') + 1)\<rparr>)"

definition reserve :: "sliceSink \<Rightarrow> nat \<Rightarrow> int \<Rightarrow> sliceSink" where
  "reserve s nodes byteBound =
     (if sk_nodes s = [] \<and> sk_cap s = 0 then s\<lparr>sk_cap := nodes\<rparr> else s)\<lparr>sk_byteBound := byteBound\<rparr>"

definition fit :: "sliceSink \<Rightarrow> NodeResult list" where
  "fit s =
     (if length (sk_nodes s) * 2 > sk_cap s then sk_nodes s
      else if sk_nodes s = [] then []
      else [] @ sk_nodes s)"

section \<open>One node\<close>

definition ipLiteralShape :: "string \<Rightarrow> bool" where
  "ipLiteralShape server =
     (if CHR '':'' \<in> set server then True
      else if list_ex (\<lambda>c. c \<noteq> CHR ''.'' \<and> \<not> is_digit c) server then False
      else CHR ''.'' \<in> set server)"

record 'w request =
  q_world :: 'w
  q_ctx :: "nat option"
  q_Resolved :: "string \<rightharpoonup> addr list"
  q_stats :: Stats
  q_sink :: sliceSink

definition ctx_check :: "'w request \<Rightarrow> bool \<times> 'w request" where
  "ctx_check q =
     (case q_ctx q of
        None \<Rightarrow> (False, q)
      | Some 0 \<Rightarrow> (True, q)
      | Some (Suc n) \<Rightarrow> (False, q\<lparr>q_ctx := Some n\<rparr>))"

text \<open>The addresses of a server and whether its family is supported.\<close>

definition resolveNode :: "'w env \<Rightarrow> 'w request \<Rightarrow> string \<Rightarrow> addr list \<times> bool \<times> 'w request" where
  "resolveNode env q server =
     (case q_Resolved q server of
        Some cached \<Rightarrow> (cached, True, q)
      | None \<Rightarrow>
          (case (if ipLiteralShape server then ParseAddr server else None) of
             Some a \<Rightarrow>
               (let addr = Unmap a
                in if \<not> Is4 addr then ([], False, q) else ([addr], True, q))
           | None \<Rightarrow>
               (let (ans, w) = e_dns env (q_world q) server;
                    q' = q\<lparr>q_world := w\<rparr>
                in case ans of
                     None \<Rightarrow> ([], True, q'\<lparr>q_Resolved := (q_Resolved q')(server \<mapsto> [])\<rparr>)
                   | Some resolved \<Rightarrow>
                       (if resolved = []
                        then ([], True, q'\<lparr>q_Resolved := (q_Resolved q')(server \<mapsto> [])\<rparr>)
                        else (resolved, True, q'\<lparr>q_Resolved := (q_Resolved q')(server \<mapsto> resolved)\<rparr>)))))"

fun run_filters ::
  "('f \<Rightarrow> 'w \<Rightarrow> addr list \<Rightarrow> Stats \<Rightarrow> addr list \<times> Stats \<times> 'w) \<Rightarrow> 'f list \<Rightarrow> 'w \<Rightarrow> addr list \<Rightarrow> Stats
   \<Rightarrow> addr list \<times> Stats \<times> 'w" where
  "run_filters process [] w ips st = (ips, st, w)"
| "run_filters process (f # fs) w ips st =
     (let (ips', st', w') = process f w ips st
      in if ips' = [] then ([], st', w') else run_filters process fs w' ips' st')"

definition processNode :: "'w env \<Rightarrow> policy \<Rightarrow> ip_filter list \<Rightarrow> 'w request \<Rightarrow> Node \<Rightarrow> 'w request" where
  "processNode env pol filters q0 nd =
     (let (cancelled, q1) = ctx_check q0
      in if cancelled then q1
         else let q2 = q1\<lparr>q_stats := (q_stats q1)\<lparr>Total := Total (q_stats q1) + 1\<rparr>\<rparr>;
                  (blocked, w) = (case e_blocked env of
                                    None \<Rightarrow> (False, q_world q2)
                                  | Some b \<Rightarrow> b (q_world q2) (Server nd));
                  q3 = q2\<lparr>q_world := w\<rparr>;
                  st = q_stats q3
              in if blocked then q3\<lparr>q_stats := st\<lparr>GeoBlockDrop := GeoBlockDrop st + 1\<rparr>\<rparr>
                 else let (cached, supported, q4) = resolveNode env q3 (Server nd)
                      in if \<not> supported then q4\<lparr>q_stats := st\<lparr>IPv6Drop := IPv6Drop st + 1\<rparr>\<rparr>
                         else if cached = [] then q4\<lparr>q_stats := st\<lparr>DNSDrop := DNSDrop st + 1\<rparr>\<rparr>
                         else let (ips, st', w') = run_filters (Process env pol) filters (q_world q4) cached st
                              in if ips = [] then q4\<lparr>q_world := w', q_stats := st'\<rparr>
                                 else q4\<lparr>q_world := w', q_sink := emit (q_sink q4) nd (hd ips),
                                         q_stats := st'\<lparr>Kept := Kept st' + 1\<rparr>\<rparr>)"

section \<open>One body\<close>

definition maxSubscriptionNodes :: nat where
  "maxSubscriptionNodes = 50000"

definition maxNodeHint :: nat where
  "maxNodeHint = 16384"

definition countNodes :: "string \<Rightarrow> nat \<Rightarrow> nat" where
  "countNodes body limit = fst (Subscription.Parse body (\<lambda>count _. (count + 1, count + 1 \<le> limit)) 0)"

datatype process_error = TooManyNodes | Cancelled

definition node_yield :: "'w env \<Rightarrow> policy \<Rightarrow> ip_filter list \<Rightarrow> 'w request \<Rightarrow> Node \<Rightarrow> 'w request \<times> bool" where
  "node_yield env pol filters q nd =
     (let (cancelled, q') = ctx_check q
      in if cancelled then (q', False) else (processNode env pol filters q' nd, True))"

definition processBody ::
  "'w env \<Rightarrow> policy \<Rightarrow> ip_filter list \<Rightarrow> string \<Rightarrow> 'w request \<Rightarrow> process_error option \<times> 'w request" where
  "processBody env pol filters body q =
     (let nlines = count_list body newline + 1
      in if nlines > maxSubscriptionNodes \<and> countNodes body maxSubscriptionNodes > maxSubscriptionNodes
         then (Some TooManyNodes, q)
         else let q1 = q\<lparr>q_sink := reserve (q_sink q) (min nlines maxNodeHint)
                                    (int (length body) - int nlines + 1)\<rparr>;
                  (q2, rejected) = Subscription.Parse body (node_yield env pol filters) q1;
                  st = q_stats q2;
                  q3 = q2\<lparr>q_stats := st\<lparr>Unsupported := Unsupported st + rejected\<rparr>\<rparr>;
                  (cancelled, q4) = ctx_check q3
              in (if cancelled then Some Cancelled else None, q4))"

datatype filter_error =
    NoAllowedCountries | LoadFailed | ProcessFailed process_error | NoNodes

text \<open>
  \<^verbatim>\<open>FilterNodes\<close>: \<open>inline\<close> is the request's body, \<open>load\<close> the fetch of its URL (already normalised),
  \<open>xray\<close> the converter \<^verbatim>\<open>Normalize\<close> calls.
\<close>

definition FilterNodes ::
  "'w env \<Rightarrow> policy \<Rightarrow> ip_filter list \<Rightarrow> (string \<Rightarrow> string option) \<Rightarrow> string \<Rightarrow> string option \<Rightarrow> 'w \<Rightarrow> nat option
   \<Rightarrow> (filter_error + NodeResult list) \<times> Stats" where
  "FilterNodes env pol filters xray inline load w ctx =
     (if IsEmpty (p_Allowed pol) then (Inl NoAllowedCountries, no_stats)
      else case (if inline \<noteq> [] then Some (Normalize xray inline) else load) of
        None \<Rightarrow> (Inl LoadFailed, no_stats)
      | Some body \<Rightarrow>
          (case processBody env pol filters body
                  \<lparr>q_world = w, q_ctx = ctx, q_Resolved = Map.empty, q_stats = no_stats, q_sink = empty_sink\<rparr> of
             (Some e, q) \<Rightarrow> (Inl (ProcessFailed e), q_stats q)
           | (None, q) \<Rightarrow>
               (if Total (q_stats q) = 0 then (Inl NoNodes, q_stats q)
                else (Inr (fit (q_sink q)), q_stats q))))"

end
