(* ===== verification/PipelineLaws.thy ===== *)
theory PipelineLaws
  imports Pipeline
begin

text \<open>
  The contract of an IP filter as the locale \<open>filter_stage\<close>, its interpretation on the three
  filters of \<^verbatim>\<open>filters.go\<close>, and the properties of the request path that rest on it: every node is
  booked once, and every survivor has an address each configured filter admits.
\<close>

section \<open>Booking one drop\<close>

definition drops :: "Stats \<Rightarrow> nat" where
  "drops st = DNSDrop st + GeoDrop st + ASNDrop st + CIDRDrop st + GeoBlockDrop st + IPv6Drop st"

definition one_drop :: "Stats \<Rightarrow> Stats \<Rightarrow> bool" where
  "one_drop st st' \<longleftrightarrow>
     drops st' = drops st + 1 \<and> Total st' = Total st \<and> Kept st' = Kept st \<and> Unsupported st' = Unsupported st"

lemma one_drop_intros [intro]:
  "one_drop st (st\<lparr>GeoDrop := Suc (GeoDrop st)\<rparr>)" "one_drop st (st\<lparr>ASNDrop := Suc (ASNDrop st)\<rparr>)"
  "one_drop st (st\<lparr>CIDRDrop := Suc (CIDRDrop st)\<rparr>)" "one_drop st (st\<lparr>GeoBlockDrop := Suc (GeoBlockDrop st)\<rparr>)"
  "one_drop st (st\<lparr>IPv6Drop := Suc (IPv6Drop st)\<rparr>)" "one_drop st (st\<lparr>DNSDrop := Suc (DNSDrop st)\<rparr>)"
  by (simp_all add: one_drop_def drops_def)

section \<open>The contract of a filter\<close>

locale filter_stage =
  fixes process :: "'f \<Rightarrow> 'w \<Rightarrow> addr list \<Rightarrow> Stats \<Rightarrow> addr list \<times> Stats \<times> 'w"
    and admits :: "'f \<Rightarrow> addr \<Rightarrow> bool"
  assumes selects: "process f w ips st = (out, st', w') \<Longrightarrow> set out \<subseteq> {ip \<in> set ips. admits f ip}"
    and keeps: "process f w ips st = (out, st', w') \<Longrightarrow> out \<noteq> [] \<Longrightarrow> st' = st"
    and books: "process f w ips st = (out, st', w') \<Longrightarrow> ips \<noteq> [] \<Longrightarrow> out = [] \<Longrightarrow> one_drop st st'"
begin

lemma chain:
  assumes "run_filters process fs w ips st = (out, st', w')" "ips \<noteq> []"
  shows "set out \<subseteq> {ip \<in> set ips. \<forall>f \<in> set fs. admits f ip}"
    and "out \<noteq> [] \<Longrightarrow> st' = st" and "out = [] \<Longrightarrow> one_drop st st'"
proof -
  have "set out \<subseteq> {ip \<in> set ips. \<forall>f \<in> set fs. admits f ip} \<and>
      (if out = [] then one_drop st st' else st' = st)"
    using assms
  proof (induction fs arbitrary: w ips st)
    case (Cons f fs)
    obtain ips1 st1 w1 where s: "process f w ips st = (ips1, st1, w1)" by (metis surj_pair)
    show ?case
    proof (cases "ips1 = []")
      case True
      with Cons.prems s books [OF s] show ?thesis by simp
    next
      case False
      with Cons.prems s have r: "run_filters process fs w1 ips1 st1 = (out, st', w')" by simp
      from Cons.IH [OF this False] keeps [OF s False] selects [OF s] show ?thesis by auto
    qed
  qed simp
  then show "set out \<subseteq> {ip \<in> set ips. \<forall>f \<in> set fs. admits f ip}"
    and "out \<noteq> [] \<Longrightarrow> st' = st" and "out = [] \<Longrightarrow> one_drop st st'" by (auto split: if_splits)
qed

end

section \<open>The three filters keep it\<close>

text \<open>What a filter admits, over every answer its backends may give.\<close>

definition asn_admits :: "policy \<Rightarrow> (string \<Rightarrow> bool) list \<Rightarrow> (string \<times> CountryCode) option \<Rightarrow> bool" where
  "asn_admits pol pats ans =
     (case ans of
        None \<Rightarrow> True
      | Some (name, country) \<Rightarrow>
          (name = [] \<or> \<not> isNameDenied pats name) \<and> Permits (p_Allowed pol) (p_Denied pol) country)"

fun filter_admits :: "'w env \<Rightarrow> policy \<Rightarrow> ip_filter \<Rightarrow> addr \<Rightarrow> bool" where
  "filter_admits env pol GeofeedFilter ip \<longleftrightarrow>
     IsFull (p_Allowed pol) \<and> IsEmpty (p_Denied pol) \<or>
     Permits (p_Allowed pol) (p_Denied pol) (LookupCountry (p_Lookup pol) ip)"
| "filter_admits env pol (ASNFilter r pats) ip \<longleftrightarrow> r \<longrightarrow> (\<exists>w. asn_admits pol pats (fst (e_asn env w ip)))"
| "filter_admits env pol CIDRFilter ip \<longleftrightarrow> (\<exists>w. Contains (fst (e_cidr env w)) ip)"

lemma asn_loop_selects:
  "asn_loop env pol pats out a g w ips = (out', a', g', w') \<Longrightarrow>
   set out' \<subseteq> set out \<union> {ip \<in> set ips. \<exists>w. asn_admits pol pats (fst (e_asn env w ip))} \<and>
   (ips \<noteq> [] \<or> a \<or> g \<longrightarrow> out' = [] \<longrightarrow> a' \<or> g') \<and> (out \<noteq> [] \<longrightarrow> out' \<noteq> []) \<and> (a \<longrightarrow> a') \<and> (g \<longrightarrow> g')"
proof (induction ips arbitrary: out a g w)
  case (Cons ip ips)
  obtain ans w1 where e: "e_asn env w ip = (ans, w1)" by (metis surj_pair)
  have adm: "asn_admits pol pats ans \<Longrightarrow> \<exists>w. asn_admits pol pats (fst (e_asn env w ip))" using e by (metis fst_conv)
  consider (keep) "asn_admits pol pats ans" "asn_loop env pol pats (out @ [ip]) a g w1 ips = (out', a', g', w')"
    | (name) "asn_loop env pol pats out True g w1 ips = (out', a', g', w')"
    | (geo) "asn_loop env pol pats out a True w1 ips = (out', a', g', w')"
    using Cons.prems e by (auto simp: asn_admits_def split: option.splits if_splits prod.splits)
  then show ?case
  proof cases
    case keep
    from Cons.IH [OF keep(2)] adm [OF keep(1)] show ?thesis by auto
  next
    case name
    from Cons.IH [OF name] show ?thesis by auto
  next
    case geo
    from Cons.IH [OF geo] show ?thesis by auto
  qed
qed auto

interpretation stage: filter_stage "Process env pol" "filter_admits env pol" for env :: "'w env" and pol
proof unfold_locales
  fix f :: ip_filter and w :: 'w and ips st out st' and w' :: 'w
  assume p: "Process env pol f w ips st = (out, st', w')"
  show "set out \<subseteq> {ip \<in> set ips. filter_admits env pol f ip}"
  proof (cases f)
    case GeofeedFilter
    with p show ?thesis
      by (auto simp: geofeed_Process_def Permitted_def Permits_iff compact_from_start Let_def split: if_splits)
  next
    case (ASNFilter r pats)
    show ?thesis
    proof (cases r)
      case True
      obtain out' a g w1 where l: "asn_loop env pol pats [] False False w ips = (out', a, g, w1)"
        by (metis prod_cases4)
      with p ASNFilter True have "out = out'" by (simp add: asn_Process_def)
      with asn_loop_selects [OF l] ASNFilter True show ?thesis by auto
    qed (use p ASNFilter in \<open>simp add: asn_Process_def\<close>)
  next
    case CIDRFilter
    obtain cs w1 where "e_cidr env w = (cs, w1)" by (metis surj_pair)
    with p CIDRFilter show ?thesis
      by (auto simp: cidr_Process_def compact_from_start Let_def intro!: exI [where x = w])
  qed
  show "out \<noteq> [] \<Longrightarrow> st' = st"
    using p by (cases f) (auto simp: geofeed_Process_def asn_Process_def cidr_Process_def Let_def
        split: if_splits prod.splits)
  assume i: "ips \<noteq> []" "out = []"
  show "one_drop st st'"
  proof (cases f)
    case GeofeedFilter
    with p i show ?thesis by (auto simp: geofeed_Process_def Let_def split: if_splits)
  next
    case (ASNFilter r pats)
    obtain out' a g w1 where l: "asn_loop env pol pats [] False False w ips = (out', a, g, w1)"
      by (metis prod_cases4)
    from asn_loop_selects [OF this] i(1) have "out' = [] \<longrightarrow> a \<or> g" by simp
    with p i l ASNFilter show ?thesis by (auto simp: asn_Process_def split: if_splits)
  next
    case CIDRFilter
    with p i show ?thesis by (auto simp: cidr_Process_def Let_def split: prod.splits)
  qed
qed

section \<open>One node\<close>

lemma intern_line: "fst (intern s line) = line" "sk_nodes (snd (intern s line)) = sk_nodes s"
  by (simp_all add: intern_def Let_def)

lemma emit_nodes: "sk_nodes (emit s nd ip) = sk_nodes s @ [\<lparr>nr_Raw = Raw nd, nr_IP = ip\<rparr>]"
proof -
  obtain raw s' where i: "intern s (Raw nd) = (raw, s')" by (metis surj_pair)
  with intern_line [of s "Raw nd"] have "raw = Raw nd" "sk_nodes s' = sk_nodes s" by simp_all
  with i show ?thesis by (simp add: emit_def)
qed

lemma ctx_checkD:
  "ctx_check q = (c, q') \<Longrightarrow> q_stats q' = q_stats q \<and> q_sink q' = q_sink q \<and> q_world q' = q_world q \<and>
     q_Resolved q' = q_Resolved q \<and> (c \<longrightarrow> q_ctx q' = Some 0 \<and> q' = q) \<and> (\<not> c \<longrightarrow> q_ctx q \<noteq> Some 0)"
  by (auto simp: ctx_check_def split: option.splits nat.splits)

lemma resolveNode_frame:
  "resolveNode env q server = (ips, ok, q') \<Longrightarrow>
     q_stats q' = q_stats q \<and> q_sink q' = q_sink q \<and> q_ctx q' = q_ctx q"
  by (auto simp: resolveNode_def Let_def split: option.splits if_splits prod.splits)

definition counted :: "Stats \<Rightarrow> Stats" where
  "counted st = st\<lparr>Total := Total st + 1\<rparr>"

definition block_check :: "'w env \<Rightarrow> 'w \<Rightarrow> string \<Rightarrow> bool \<times> 'w" where
  "block_check env w server = (case e_blocked env of None \<Rightarrow> (False, w) | Some b \<Rightarrow> b w server)"

text \<open>One node, once its context, blocklist and address answers are known.\<close>

lemma processNode_eq:
  assumes "ctx_check q = (False, q1)" "block_check env (q_world q) (Server nd) = (blocked, w)"
    and "resolveNode env (q1\<lparr>q_stats := counted (q_stats q), q_world := w\<rparr>) (Server nd) = (cached, ok, q4)"
  shows "processNode env pol filters q nd =
     (let st = counted (q_stats q)
      in if blocked then q1\<lparr>q_stats := st\<lparr>GeoBlockDrop := GeoBlockDrop st + 1\<rparr>, q_world := w\<rparr>
         else if \<not> ok then q4\<lparr>q_stats := st\<lparr>IPv6Drop := IPv6Drop st + 1\<rparr>\<rparr>
         else if cached = [] then q4\<lparr>q_stats := st\<lparr>DNSDrop := DNSDrop st + 1\<rparr>\<rparr>
         else let (ips, st', w') = run_filters (Process env pol) filters (q_world q4) cached st
              in if ips = [] then q4\<lparr>q_world := w', q_stats := st'\<rparr>
                 else q4\<lparr>q_world := w', q_sink := emit (q_sink q4) nd (hd ips),
                         q_stats := st'\<lparr>Kept := Kept st' + 1\<rparr>\<rparr>)"
proof -
  define q2 where "q2 = q1\<lparr>q_stats := (q_stats q1)\<lparr>Total := Total (q_stats q1) + 1\<rparr>\<rparr>"
  define q3 where "q3 = q2\<lparr>q_world := w\<rparr>"
  have q1: "q_stats q1 = q_stats q" "q_world q1 = q_world q" using ctx_checkD [OF assms(1)] by simp_all
  have q3: "q3 = q1\<lparr>q_stats := counted (q_stats q), q_world := w\<rparr>" by (simp add: q3_def q2_def q1 counted_def)
  have q2: "q_world q2 = q_world q" by (simp add: q2_def q1)
  have st: "q_stats q3 = counted (q_stats q)" by (simp add: q3)
  have r: "resolveNode env q3 (Server nd) = (cached, ok, q4)" using assms(3) by (simp only: q3)
  show ?thesis
    unfolding processNode_def Let_def assms(1) prod.case if_False q2_def [symmetric]
      q2 assms(2) [unfolded block_check_def] q3_def [symmetric] r st by (simp add: q3)
qed

lemma processNode_cases:
  assumes "processNode env pol filters q nd = q'"
  obtains
    (cancelled) "q_ctx q = Some 0" "q' = q"
  | (dropped) "one_drop (counted (q_stats q)) (q_stats q')" "q_sink q' = q_sink q" "q_ctx q \<noteq> Some 0"
  | (kept) ip cached q3 q4 where
      "q_stats q' = (counted (q_stats q))\<lparr>Kept := Kept (q_stats q) + 1\<rparr>"
      "q_sink q' = emit (q_sink q) nd ip" "\<forall>f \<in> set filters. filter_admits env pol f ip"
      "resolveNode env q3 (Server nd) = (cached, True, q4)" "ip \<in> set cached"
      "q_Resolved q3 = q_Resolved q" "q_world q3 = snd (block_check env (q_world q) (Server nd))"
      "q_ctx q \<noteq> Some 0"
proof -
  obtain c q1 where c: "ctx_check q = (c, q1)" by (metis surj_pair)
  show thesis
  proof (cases c)
    case True
    with ctx_checkD [OF c] have "q1 = q" and ctx: "q_ctx q = Some 0" by auto
    with c assms True have "q' = q" by (simp add: processNode_def)
    with ctx show thesis by (intro cancelled) simp_all
  next
    case False
    let ?st = "counted (q_stats q)"
    obtain blocked w where b: "block_check env (q_world q) (Server nd) = (blocked, w)" by (metis surj_pair)
    define q3 where "q3 = q1\<lparr>q_stats := ?st, q_world := w\<rparr>"
    obtain cached ok q4 where r: "resolveNode env q3 (Server nd) = (cached, ok, q4)" by (metis prod_cases3)
    have live: "q_ctx q \<noteq> Some 0" and q1: "q_sink q1 = q_sink q" "q_Resolved q1 = q_Resolved q"
      using ctx_checkD [OF c] False by simp_all
    have q3: "q_sink q3 = q_sink q" "q_Resolved q3 = q_Resolved q" "q_world q3 = w" "q_stats q3 = ?st"
      by (simp_all add: q3_def q1)
    from resolveNode_frame [OF r] have q4: "q_stats q4 = ?st" "q_sink q4 = q_sink q" by (simp_all add: q3)
    have eq: "q' = processNode env pol filters q nd" using assms by simp
    note eq = eq [unfolded processNode_eq [OF c [unfolded eq_False [THEN iffD2, OF False]] b r [unfolded q3_def]] Let_def]
    show thesis
    proof (cases "blocked \<or> \<not> ok \<or> cached = []")
      case True
      then have "one_drop ?st (q_stats q')" "q_sink q' = q_sink q"
        unfolding eq by (auto simp: q1 q4)
      with live show thesis by (intro dropped) simp_all
    next
      case no: False
      obtain ips st' w' where run: "run_filters (Process env pol) filters (q_world q4) cached ?st = (ips, st', w')"
        by (metis prod_cases3)
      have e: "q' = (if ips = [] then q4\<lparr>q_world := w', q_stats := st'\<rparr>
                 else q4\<lparr>q_world := w', q_sink := emit (q_sink q4) nd (hd ips),
                         q_stats := st'\<lparr>Kept := Kept st' + 1\<rparr>\<rparr>)"
        using no run unfolding eq by simp
      show thesis
      proof (cases "ips = []")
        case True
        with stage.chain(3) [OF run] no e live q4 show thesis by (intro dropped) simp_all
      next
        case False
        then have "hd ips \<in> set ips" by simp
        with stage.chain(1) [OF run] no have h: "hd ips \<in> set cached" "\<forall>f \<in> set filters. filter_admits env pol f (hd ips)"
          by auto
        have "st' = ?st" using stage.chain(2) [OF run] no False by simp
        with False e have s: "q_stats q' = ?st\<lparr>Kept := Kept (q_stats q) + 1\<rparr>"
          "q_sink q' = emit (q_sink q) nd (hd ips)" by (simp_all add: q4 counted_def)
        have "resolveNode env q3 (Server nd) = (cached, True, q4)" using r no by simp
        from kept [OF s h(2) this h(1) q3(2) _ live] b q3(3) show thesis by simp
      qed
    qed
  qed
qed

section \<open>One body\<close>

lemma parse_loop_inv:
  assumes "\<And>q nd q' go. I q \<Longrightarrow> nd \<in> set (List.map_filter parseNode (filter (\<lambda>l. contains_str l ''://'') ls)) \<Longrightarrow>
      y q nd = (q', go) \<Longrightarrow> I q'"
    and "I q"
  shows "I (fst (parse_loop y q r ls))"
  using assms
proof (induction ls arbitrary: q r)
  case (Cons l ls)
  have IH: "I (fst (parse_loop y q' r' ls))" if "I q'" for q' r'
    by (rule Cons.IH [OF _ that]) (rule Cons.prems(1), auto split: option.splits)
  show ?case
  proof (cases "contains_str l ''://'' \<and> parseNode l \<noteq> None")
    case True
    then obtain nd where nd: "contains_str l ''://''" "parseNode l = Some nd" by auto
    obtain q' go where y: "y q nd = (q', go)" by (metis surj_pair)
    have "I q'" by (rule Cons.prems(1) [OF Cons.prems(2) _ y]) (simp add: nd)
    with nd y IH show ?thesis by simp
  next
    case False
    with IH [OF Cons.prems(2)] show ?thesis by auto
  qed
qed simp

definition node_booked :: "'w env \<Rightarrow> policy \<Rightarrow> ip_filter list \<Rightarrow> Node set \<Rightarrow> 'w request \<Rightarrow> bool" where
  "node_booked env pol filters nds q \<longleftrightarrow>
     Total (q_stats q) = Kept (q_stats q) + drops (q_stats q) \<and>
     Unsupported (q_stats q) = 0 \<and> length (sk_nodes (q_sink q)) = Kept (q_stats q) \<and>
     (\<forall>r \<in> set (sk_nodes (q_sink q)).
        (\<exists>nd \<in> nds. nr_Raw r = Raw nd) \<and> (\<forall>f \<in> set filters. filter_admits env pol f (nr_IP r)))"

lemma node_yield_booked:
  assumes "node_booked env pol filters nds q" "nd \<in> nds" "node_yield env pol filters q nd = (q', go)"
  shows "node_booked env pol filters nds q'"
proof -
  obtain c q1 where c: "ctx_check q = (c, q1)" by (metis surj_pair)
  have b1: "node_booked env pol filters nds q1"
    using assms(1) ctx_checkD [OF c] by (simp add: node_booked_def)
  show ?thesis
  proof (cases c)
    case True
    with c assms(3) b1 show ?thesis by (simp add: node_yield_def)
  next
    case False
    with c assms(3) have "processNode env pol filters q1 nd = q'" by (simp add: node_yield_def)
    then show ?thesis
    proof (cases rule: processNode_cases)
      case cancelled
      with b1 show ?thesis by simp
    next
      case dropped
      with b1 show ?thesis by (simp add: node_booked_def one_drop_def counted_def drops_def)
    next
      case (kept ip cached q3 q4)
      from b1 assms(2) kept(3) show ?thesis
        by (auto simp: node_booked_def kept(1,2) emit_nodes counted_def drops_def)
    qed
  qed
qed

lemma node_yield_total:
  assumes "node_yield env pol filters q nd = (q', go)" "q_ctx q' \<noteq> Some 0"
  shows "go" and "q_ctx q \<noteq> Some 0" and "Total (q_stats q') = Suc (Total (q_stats q))"
proof -
  obtain c q1 where c: "ctx_check q = (c, q1)" by (metis surj_pair)
  note d = ctx_checkD [OF c]
  have "go \<and> q_ctx q \<noteq> Some 0 \<and> Total (q_stats q') = Suc (Total (q_stats q))"
  proof (cases c)
    case True
    with c d assms show ?thesis by (auto simp: node_yield_def)
  next
    case False
    with c assms(1) have go: "go" "processNode env pol filters q1 nd = q'" by (auto simp: node_yield_def)
    from go(2) have "Total (q_stats q') = Suc (Total (q_stats q1))"
      using assms(2) by (cases rule: processNode_cases) (auto simp: one_drop_def counted_def)
    with go d False show ?thesis by simp
  qed
  then show "go" and "q_ctx q \<noteq> Some 0" and "Total (q_stats q') = Suc (Total (q_stats q))" by simp_all
qed

lemma parse_loop_total:
  assumes "parse_loop (node_yield env pol filters) q r ls = (q', r')" "q_ctx q' \<noteq> Some 0"
  shows "q_ctx q \<noteq> Some 0 \<and>
    Total (q_stats q') = Total (q_stats q) + length (List.map_filter parseNode (filter (\<lambda>l. contains_str l ''://'') ls)) \<and>
    r' = r + length (filter (\<lambda>l. parseNode l = None) (filter (\<lambda>l. contains_str l ''://'') ls))"
  using assms
proof (induction ls arbitrary: q r)
  case (Cons l ls)
  show ?case
  proof (cases "contains_str l ''://'' \<and> parseNode l \<noteq> None")
    case True
    then obtain nd where nd: "contains_str l ''://''" "parseNode l = Some nd" by auto
    obtain q1 go where y: "node_yield env pol filters q nd = (q1, go)" by (metis surj_pair)
    have "q_ctx q1 \<noteq> Some 0"
      using Cons.prems nd y Cons.IH [of q1 r] by (cases go) auto
    note t = node_yield_total [OF y this]
    with Cons.prems nd y Cons.IH [of q1 r] show ?thesis by simp
  next
    case False
    with Cons.prems Cons.IH [of q r] Cons.IH [of q "r + 1"] show ?thesis
      by (cases "contains_str l ''://''") auto
  qed
qed simp

section \<open>IPv4 answers\<close>

text \<open>
  What a request asks of its world: an invariant every call keeps, under which DNS answers are
  IPv4.
\<close>

locale v4_world =
  fixes env :: "'w env" and good :: "'w \<Rightarrow> bool"
  assumes dns_good: "good w \<Longrightarrow> e_dns env w h = (ans, w') \<Longrightarrow>
      good w' \<and> (\<forall>ips. ans = Some ips \<longrightarrow> list_all Is4 ips)"
    and asn_good: "good w \<Longrightarrow> e_asn env w ip = (res, w') \<Longrightarrow> good w'"
    and block_good: "good w \<Longrightarrow> block_check env w h = (b, w') \<Longrightarrow> good w'"
    and cidr_good: "good w \<Longrightarrow> e_cidr env w = (cs, w') \<Longrightarrow> good w'"
begin

definition v4_request :: "'w request \<Rightarrow> bool" where
  "v4_request q \<longleftrightarrow> good (q_world q) \<and> (\<forall>h ips. q_Resolved q h = Some ips \<longrightarrow> list_all Is4 ips) \<and>
     (\<forall>r \<in> set (sk_nodes (q_sink q)). Is4 (nr_IP r))"

lemma asn_loop_good:
  "asn_loop env pol pats out a g w ips = (out', a', g', w') \<Longrightarrow> good w \<Longrightarrow> good w'"
proof (induction ips arbitrary: out a g w)
  case (Cons ip ips)
  obtain ans w1 where e: "e_asn env w ip = (ans, w1)" by (metis surj_pair)
  with asn_good Cons.prems have "good w1" by blast
  with Cons e show ?case by (auto split: option.splits if_splits prod.splits)
qed simp

lemma Process_good: "Process env pol f w ips st = (out, st', w') \<Longrightarrow> good w \<Longrightarrow> good w'"
  by (cases f) (auto simp: asn_Process_def Let_def split: prod.splits if_splits dest: asn_loop_good cidr_good)

lemma run_filters_good: "run_filters (Process env pol) fs w ips st = (out, st', w') \<Longrightarrow> good w \<Longrightarrow> good w'"
proof (induction fs arbitrary: w ips st)
  case (Cons f fs)
  obtain ips1 st1 w1 where s: "Process env pol f w ips st = (ips1, st1, w1)" by (metis prod_cases3)
  from Process_good [OF s] Cons s show ?case by (auto split: if_splits)
qed simp

lemma resolveNode_v4:
  assumes "resolveNode env q server = (ips, ok, q')" "v4_request q"
  shows "v4_request q'" and "list_all Is4 ips"
proof -
  have "v4_request q' \<and> list_all Is4 ips"
  proof (cases "q_Resolved q server")
    case None
    obtain ans w where d: "e_dns env (q_world q) server = (ans, w)" by (metis surj_pair)
    with dns_good assms(2) have "good w" "\<And>ips. ans = Some ips \<Longrightarrow> list_all Is4 ips"
      unfolding v4_request_def by blast+
    with assms None d show ?thesis
      by (auto simp: resolveNode_def v4_request_def Let_def split: option.splits if_splits)
  qed (use assms in \<open>auto simp: resolveNode_def v4_request_def\<close>)
  then show "v4_request q'" and "list_all Is4 ips" by simp_all
qed

lemma processNode_v4:
  assumes "v4_request q"
  shows "v4_request (processNode env pol filters q nd)"
proof -
  obtain c q1 where c: "ctx_check q = (c, q1)" by (metis surj_pair)
  show ?thesis
  proof (cases c)
    case True
    with c assms ctx_checkD [OF c] show ?thesis by (simp add: processNode_def)
  next
    case False
    let ?st = "counted (q_stats q)"
    obtain blocked w where b: "block_check env (q_world q) (Server nd) = (blocked, w)" by (metis surj_pair)
    define q3 where "q3 = q1\<lparr>q_stats := ?st, q_world := w\<rparr>"
    obtain cached ok q4 where r: "resolveNode env q3 (Server nd) = (cached, ok, q4)" by (metis prod_cases3)
    have "good w" using b block_good assms unfolding v4_request_def by blast
    then have q3: "v4_request q3" using ctx_checkD [OF c] assms by (simp add: q3_def v4_request_def)
    from resolveNode_v4 [OF r this] have q4: "v4_request q4" "list_all Is4 cached" .
    obtain ips st' w' where run: "run_filters (Process env pol) filters (q_world q4) cached ?st = (ips, st', w')"
      by (metis prod_cases3)
    have w': "good w'" using run_filters_good [OF run] q4 by (simp add: v4_request_def)
    have hd: "Is4 (hd ips)" if "cached \<noteq> []" "ips \<noteq> []"
    proof -
      have "hd ips \<in> set cached" using hd_in_set [OF that(2)] stage.chain(1) [OF run that(1)] by blast
      with q4(2) show ?thesis by (simp add: list_all_iff)
    qed
    show ?thesis
      unfolding processNode_eq [OF c [unfolded eq_False [THEN iffD2, OF False]] b r [unfolded q3_def]] Let_def run
      using q3 q4 w' hd by (auto simp: v4_request_def q3_def emit_nodes)
  qed
qed

lemma node_yield_v4: "v4_request q \<Longrightarrow> node_yield env pol filters q nd = (q', go) \<Longrightarrow> v4_request q'"
proof -
  assume v: "v4_request q" and y: "node_yield env pol filters q nd = (q', go)"
  obtain c q1 where c: "ctx_check q = (c, q1)" by (metis surj_pair)
  with ctx_checkD [OF c] v have "v4_request q1" by (simp add: v4_request_def)
  with processNode_v4 y c show ?thesis by (auto simp: node_yield_def split: if_splits)
qed

end

section \<open>The concrete resolver keeps it\<close>

text \<open>
  A world holding the resolver of \<^verbatim>\<open>resolver.go\<close>: what its calls find outside (map order, clock
  before and after, wire answer, context) is a list, one entry a call; past its end a lookup
  fails. The other backends run on their own part.
\<close>

record outside =
  o_order :: "dns_cache \<Rightarrow> dns_cache"
  o_now :: int
  o_later :: int
  o_query :: "string \<Rightarrow> addr list option"
  o_done :: bool

type_synonym 'w world = "'w \<times> Resolver \<times> outside list"

fun live_dns :: "'w world \<Rightarrow> string \<Rightarrow> addr list option \<times> 'w world" where
  "live_dns (w, r, []) host = (None, (w, r, []))"
| "live_dns (w, r, o1 # os) host =
     (let (ans, r') = Resolve (o_order o1) (o_now o1) (o_later o1) (o_query o1) (o_done o1) r host
      in (ans, (w, r', os)))"

definition lift_world :: "('w \<Rightarrow> 'a \<times> 'w) \<Rightarrow> 'w world \<Rightarrow> 'a \<times> 'w world" where
  "lift_world f ww = (let (a, w) = f (fst ww) in (a, (w, snd ww)))"

definition live_env ::
  "('w \<Rightarrow> addr \<Rightarrow> (string \<times> CountryCode) option \<times> 'w) \<Rightarrow> ('w \<Rightarrow> string \<Rightarrow> bool \<times> 'w) option
   \<Rightarrow> ('w \<Rightarrow> cidr_set \<times> 'w) \<Rightarrow> 'w world env" where
  "live_env asn blocked cidr =
     \<lparr>e_dns = live_dns, e_asn = \<lambda>ww ip. lift_world (\<lambda>w. asn w ip) ww,
      e_blocked = map_option (\<lambda>b ww server. lift_world (\<lambda>w. b w server) ww) blocked,
      e_cidr = lift_world cidr\<rparr>"

definition world_good :: "'w world \<Rightarrow> bool" where
  "world_good ww \<longleftrightarrow> resolver_ok (fst (snd ww)) \<and> (\<forall>o1 \<in> set (snd (snd ww)). rearranges (o_order o1))"

lemma live_dns_good:
  "world_good ww \<Longrightarrow> live_dns ww h = (ans, ww') \<Longrightarrow>
     world_good ww' \<and> (\<forall>ips. ans = Some ips \<longrightarrow> list_all Is4 ips)"
proof (induction ww h rule: live_dns.induct)
  case (2 w r o1 os host)
  have g: "rearranges (o_order o1)" "resolver_ok r" using 2 by (simp_all add: world_good_def)
  from Resolve_ok [OF g, of "o_now o1" "o_later o1" "o_query o1" "o_done o1" host] 2 show ?case
    by (auto simp: world_good_def split: prod.splits)
qed (auto simp: world_good_def)

lemma lift_world_good: "world_good ww \<Longrightarrow> lift_world f ww = (a, ww') \<Longrightarrow> world_good ww'"
  by (auto simp: lift_world_def world_good_def split: prod.splits)

interpretation live: v4_world "live_env asn blocked cidr" world_good for asn blocked cidr
  by unfold_locales
    (auto simp: live_env_def block_check_def split: option.splits dest: live_dns_good lift_world_good)

section \<open>The request\<close>

definition request_body :: "(string \<Rightarrow> string option) \<Rightarrow> string \<Rightarrow> string option \<Rightarrow> string option" where
  "request_body xray inline load = (if inline \<noteq> [] then Some (Normalize xray inline) else load)"

lemma countNodes_min: "countNodes body limit = min (length (body_nodes body)) (Suc limit)"
proof -
  have "fst (parse_loop (\<lambda>count _. (count + 1, count + 1 \<le> limit)) n r ls) =
      min (n + length (List.map_filter parseNode (filter (\<lambda>l. contains_str l ''://'') ls))) (Suc limit)"
    if "n \<le> limit" for n r ls
    using that
  proof (induction ls arbitrary: n r)
    case (Cons l ls)
    show ?case
    proof (cases "contains_str l ''://'' \<and> parseNode l \<noteq> None")
      case True
      then obtain nd where "contains_str l ''://''" "parseNode l = Some nd" by auto
      with Cons.IH [of "n + 1"] Cons.prems show ?thesis by auto
    next
      case False
      with Cons.IH [of n] Cons.prems show ?thesis by (cases "contains_str l ''://''") auto
    qed
  qed simp
  from this [of 0] show ?thesis
    by (simp add: countNodes_def Subscription.Parse_def body_nodes_def uri_lines_def)
qed

lemma too_many_iff:
  "count_list body newline + 1 > maxSubscriptionNodes \<and> countNodes body maxSubscriptionNodes > maxSubscriptionNodes
   \<longleftrightarrow> maxSubscriptionNodes < length (body_nodes body)"
  using length_body_nodes [of body] by (auto simp: countNodes_min)

definition start_request :: "'w \<Rightarrow> nat option \<Rightarrow> 'w request" where
  "start_request w ctx =
     \<lparr>q_world = w, q_ctx = ctx, q_Resolved = Map.empty, q_stats = no_stats, q_sink = empty_sink\<rparr>"

lemma processBody_start:
  assumes "processBody env pol filters body (start_request w ctx) = (err, q)"
  obtains
    (refused) "maxSubscriptionNodes < length (body_nodes body)" "err = Some TooManyNodes" "q = start_request w ctx"
  | (ran) q1 q2 rejected where "length (body_nodes body) \<le> maxSubscriptionNodes"
      "q1 = (start_request w ctx)\<lparr>q_sink := q_sink q1\<rparr>" "sk_nodes (q_sink q1) = []"
      "Subscription.Parse body (node_yield env pol filters) q1 = (q2, rejected)"
      "q_stats q = (q_stats q2)\<lparr>Unsupported := Unsupported (q_stats q2) + rejected\<rparr>" "q_sink q = q_sink q2"
      "err = None \<longrightarrow> q_ctx q2 \<noteq> Some 0" "err \<in> {None, Some Cancelled}"
proof (cases "maxSubscriptionNodes < length (body_nodes body)")
  case True
  then have "count_list body newline + 1 > maxSubscriptionNodes \<and> countNodes body maxSubscriptionNodes > maxSubscriptionNodes"
    by (simp only: too_many_iff)
  with assms True show thesis by (intro refused) (auto simp: processBody_def)
next
  case False
  then have small: "\<not> (count_list body newline + 1 > maxSubscriptionNodes \<and> countNodes body maxSubscriptionNodes > maxSubscriptionNodes)"
    by (simp only: too_many_iff not_False_eq_True)
  define q1 where "q1 = (start_request w ctx)\<lparr>q_sink := reserve (q_sink (start_request w ctx))
     (min (count_list body newline + 1) maxNodeHint) (int (length body) - int (count_list body newline + 1) + 1)\<rparr>"
  obtain q2 rejected where p: "Subscription.Parse body (node_yield env pol filters) q1 = (q2, rejected)"
    by (metis surj_pair)
  define q3 where "q3 = q2\<lparr>q_stats := (q_stats q2)\<lparr>Unsupported := Unsupported (q_stats q2) + rejected\<rparr>\<rparr>"
  obtain c q4 where c: "ctx_check q3 = (c, q4)" by (metis surj_pair)
  have r: "(err, q) = (if c then Some Cancelled else None, q4)"
    unfolding assms [symmetric] processBody_def Let_def if_not_P [OF small] q1_def [symmetric] p prod.case
      q3_def [symmetric] c ..
  have q1: "q1 = (start_request w ctx)\<lparr>q_sink := q_sink q1\<rparr>" "sk_nodes (q_sink q1) = []"
    by (simp_all add: q1_def start_request_def reserve_def empty_sink_def)
  from ctx_checkD [OF c] r False show thesis
    by (intro ran [OF _ q1 p]) (auto simp: q3_def)
qed

lemma processBody_booked:
  assumes "processBody env pol filters body (start_request w ctx) = (err, q)"
  shows "Total (q_stats q) = Kept (q_stats q) + drops (q_stats q) \<and>
     length (sk_nodes (q_sink q)) = Kept (q_stats q) \<and>
     (\<forall>r \<in> set (sk_nodes (q_sink q)).
        (\<exists>nd \<in> set (body_nodes body). nr_Raw r = Raw nd) \<and> (\<forall>f \<in> set filters. filter_admits env pol f (nr_IP r))) \<and>
     (err = None \<longrightarrow> Total (q_stats q) = length (body_nodes body) \<and> Total (q_stats q) \<le> maxSubscriptionNodes \<and>
        Unsupported (q_stats q) = body_rejected body) \<and>
     (err = Some TooManyNodes \<longleftrightarrow> maxSubscriptionNodes < length (body_nodes body))"
  using assms
proof (cases rule: processBody_start)
  case refused
  then show ?thesis by (simp add: start_request_def no_stats_def drops_def empty_sink_def)
next
  case (ran q1 q2 rejected)
  let ?N = "set (body_nodes body)"
  have "q_stats q1 = no_stats" using ran(2) by (metis request.select_convs(4) request.surjective start_request_def
        request.update_convs(5))
  moreover have "node_booked env pol filters ?N q1"
    using ran(3) calculation by (simp add: node_booked_def no_stats_def drops_def)
  then have "node_booked env pol filters ?N q2"
    using parse_loop_inv [of "node_booked env pol filters ?N" "lines body" "node_yield env pol filters" q1 0]
      node_yield_booked ran(4)
    unfolding Subscription.Parse_def body_nodes_def uri_lines_def by (metis fst_conv)
  moreover have "err = None \<longrightarrow> Total (q_stats q2) = Total (q_stats q1) + length (body_nodes body) \<and> rejected = body_rejected body"
    using parse_loop_total [of env pol filters q1 0 "lines body" q2 rejected] ran(4,7)
    unfolding Subscription.Parse_def body_nodes_def uri_lines_def body_rejected_def by simp
  ultimately show ?thesis
    using ran(1,5,6,8) by (auto simp: node_booked_def drops_def no_stats_def)
qed

lemma processBody_v4:
  assumes "world_good ww" "processBody (live_env asn blocked cidr) pol filters body (start_request ww ctx) = (err, q)"
  shows "\<forall>r \<in> set (sk_nodes (q_sink q)). Is4 (nr_IP r)"
  using assms(2)
proof (cases rule: processBody_start)
  case refused
  then show ?thesis by (simp add: start_request_def empty_sink_def)
next
  case (ran q1 q2 rejected)
  have "live.v4_request q1"
    unfolding live.v4_request_def using ran(3) assms(1) by (subst (1 2) ran(2)) (simp add: start_request_def)
  then have "live.v4_request q2"
    using parse_loop_inv [of live.v4_request "lines body" "node_yield (live_env asn blocked cidr) pol filters" q1 0]
      live.node_yield_v4 ran(4)
    unfolding Subscription.Parse_def by (metis fst_conv)
  with ran(6) show ?thesis by (simp add: live.v4_request_def)
qed

lemma fit_id: "fit s = sk_nodes s"
  by (simp add: fit_def)

lemma FilterNodes_cases:
  assumes "FilterNodes env pol filters xray inline load w ctx = (res, st)"
  obtains
    (early) "st = no_stats" "res \<in> {Inl NoAllowedCountries, Inl LoadFailed}"
  | (ran) body err q where "request_body xray inline load = Some body"
      "processBody env pol filters body (start_request w ctx) = (err, q)" "st = q_stats q"
      "res = (case err of Some e \<Rightarrow> Inl (ProcessFailed e)
              | None \<Rightarrow> if Total (q_stats q) = 0 then Inl NoNodes else Inr (sk_nodes (q_sink q)))"
proof (cases "IsEmpty (p_Allowed pol) \<or> request_body xray inline load = None")
  case True
  with assms show thesis by (intro early) (auto simp: FilterNodes_def request_body_def split: if_splits)
next
  case False
  then obtain body where b: "request_body xray inline load = Some body" by auto
  obtain err q where p: "processBody env pol filters body (start_request w ctx) = (err, q)" by (metis surj_pair)
  have "(res, st) = (case processBody env pol filters body (start_request w ctx) of
             (Some e, q) \<Rightarrow> (Inl (ProcessFailed e), q_stats q)
           | (None, q) \<Rightarrow>
               (if Total (q_stats q) = 0 then (Inl NoNodes, q_stats q)
                else (Inr (fit (q_sink q)), q_stats q)))"
    using False b unfolding assms [symmetric] FilterNodes_def request_body_def start_request_def by simp
  with p b show thesis by (intro ran [OF b p]) (auto simp: fit_id split: option.splits if_splits)
qed

section \<open>Properties\<close>

text \<open>
  C1: a request books every node once. However the backends answer and whenever the caller
  cancels, the nodes counted in \<open>Total\<close> are the kept ones plus the six kinds of drop; a request
  that succeeds returns exactly \<open>Kept\<close> results, its \<open>Total\<close> is the number of nodes of the body,
  at most 50,000, and \<open>Unsupported\<close> the URI-shaped lines that are none; the node ceiling refuses
  a body exactly when it has more nodes than that, before any lookup.
\<close>

theorem every_node_booked_once:
  "case FilterNodes env pol filters xray inline load w ctx of (res, st) \<Rightarrow>
     Total st = Kept st + DNSDrop st + GeoDrop st + ASNDrop st + CIDRDrop st + GeoBlockDrop st + IPv6Drop st \<and>
     (case res of
        Inr kept \<Rightarrow>
          (\<exists>body. request_body xray inline load = Some body \<and> length kept = Kept st \<and>
             Total st = length (body_nodes body) \<and> Total st \<le> 50000 \<and> Unsupported st = body_rejected body)
      | Inl (ProcessFailed TooManyNodes) \<Rightarrow>
          st = no_stats \<and> (\<exists>body. request_body xray inline load = Some body \<and> 50000 < length (body_nodes body))
      | Inl _ \<Rightarrow> True)"
proof -
  obtain res st where f: "FilterNodes env pol filters xray inline load w ctx = (res, st)" by (metis surj_pair)
  from f have b: "Total st = Kept st + drops st \<and>
     (case res of
        Inr kept \<Rightarrow>
          (\<exists>body. request_body xray inline load = Some body \<and> length kept = Kept st \<and>
             Total st = length (body_nodes body) \<and> Total st \<le> maxSubscriptionNodes \<and> Unsupported st = body_rejected body)
      | Inl (ProcessFailed TooManyNodes) \<Rightarrow>
          st = no_stats \<and> (\<exists>body. request_body xray inline load = Some body \<and> maxSubscriptionNodes < length (body_nodes body))
      | Inl _ \<Rightarrow> True)"
  proof (cases rule: FilterNodes_cases)
    case early
    then show ?thesis by (auto simp: no_stats_def drops_def)
  next
    case (ran body err q)
    have "st = no_stats" if "err = Some TooManyNodes"
      using ran(2) that by (cases rule: processBody_start) (auto simp: ran(3) start_request_def)
    note b = processBody_booked [OF ran(2)]
    show ?thesis
    proof (cases err)
      case None
      with b ran(1,3,4) show ?thesis by (cases "Total (q_stats q) = 0") simp_all
    next
      case (Some e)
      with b ran(1,3,4) \<open>err = Some TooManyNodes \<Longrightarrow> st = no_stats\<close> show ?thesis by (cases e) simp_all
    qed
  qed
  show ?thesis
    using b unfolding f prod.case drops_def maxSubscriptionNodes_def add.assoc .
qed

text \<open>
  C8: every published node passed every configured filter. Over the caching resolver, whatever
  earlier lookups left in its cache, with any wire answers, clocks and map orders then and now, each
  result of a request is a line of the requested body, with an IPv4 address that every filter of the
  chain admits: a country the policy permits, an AS whose name no deny pattern matches, an address in
  the downloaded allow-list.
\<close>

theorem survivors_admitted:
  assumes "\<forall>c \<in> set earlier. rearranges (dns_order c)" and "\<forall>o1 \<in> set os. rearranges (o_order o1)"
    and "FilterNodes (live_env asn blocked cidr) pol filters xray inline load
           (w, fst (dns_run (newResolver ttl neg) earlier), os) ctx = (Inr kept, st)"
    and "r \<in> set kept"
  shows "Is4 (nr_IP r) \<and> (\<forall>f \<in> set filters. filter_admits (live_env asn blocked cidr) pol f (nr_IP r)) \<and>
    (\<exists>body. request_body xray inline load = Some body \<and> nr_Raw r \<in> Raw ` set (body_nodes body))"
  using assms(3)
proof (cases rule: FilterNodes_cases)
  case (ran body err q)
  then have kept: "kept = sk_nodes (q_sink q)" by (auto split: option.splits if_splits)
  have "resolver_ok (fst (dns_run (newResolver ttl neg) earlier))"
    using dns_run_ok [OF newResolver_ok assms(1)] by blast
  then have "world_good (w, fst (dns_run (newResolver ttl neg) earlier), os)"
    using assms(2) by (simp add: world_good_def)
  from processBody_v4 [OF this ran(2)] processBody_booked [OF ran(2)] assms(4) ran(1) show ?thesis
    by (auto simp: kept)
qed auto

definition sample_line :: string where
  "sample_line = ''vless://u@h:1#x''"

definition sample_outside :: outside where
  "sample_outside = \<lparr>o_order = id, o_now = 0, o_later = 1, o_query = \<lambda>h. None, o_done = False\<rparr>"

text \<open>An earlier lookup has answered; the request's own query would fail.\<close>

definition sample_earlier :: "dns_call list" where
  "sample_earlier = [DnsCall id 0 1 (\<lambda>h. Some [V4 1, V4 1]) False ''h'']"

definition warm_resolver :: Resolver where
  "warm_resolver = fst (dns_run (newResolver 60 5) sample_earlier)"

definition sample_policy :: policy where
  "sample_policy = \<lparr>p_Lookup = None, p_Allowed = All_codes, p_Denied = zero_set\<rparr>"

lemma sample_node:
  "\<exists>nd. parseNode sample_line = Some nd \<and> Server nd = ''h'' \<and> Raw nd = sample_line \<and>
     Scheme nd = ''vless'' \<and> Port nd = ''1''"
proof -
  have v: "validScheme ''vless''" by (simp add: validScheme_def is_lower_def is_upper_def scheme_tail_byte_def)
  have l: "map lower_byte ''vless'' = ''vless''" by (simp add: is_upper_def)
  have i: "index_str ''://'' ''vless://u@h:1#x'' = Some 5" by (simp add: has_prefix_def)
  have sf: "scheme_fields ''vless'' ''u@h:1#x'' = Some (''h'', ''1'')"
    by (simp add: scheme_fields_def portless_scheme_def authority_end_def splitHostPort_def Let_def)
  have t: "take 5 ''vless://u@h:1#x'' = ''vless''" "drop (5 + 3) ''vless://u@h:1#x'' = ''u@h:1#x''" by simp_all
  have "\<exists>nd. generic_node ''vless://u@h:1#x'' 5 = Some nd \<and> Server nd = ''h'' \<and> Raw nd = ''vless://u@h:1#x'' \<and>
      Scheme nd = ''vless'' \<and> Port nd = ''1''"
    unfolding generic_node_def t l sf Let_def by (simp add: port_or_default_def)
  with parseNode_generic [OF i] v show ?thesis unfolding t l sample_line_def by auto
qed

lemma sample_dns:
  "\<exists>r. live_dns (w, warm_resolver, [sample_outside]) ''h'' = (Some [V4 1], (w, r, []))"
proof -
  have "ParseAddr ''h'' = None" by (simp add: ParseAddr_def)
  then show ?thesis
    by (simp add: sample_outside_def warm_resolver_def sample_earlier_def Resolve_def newResolver_def cachedIPs_def
        dedupIPv4_def storeCache_def dns_insert_def maxCacheEntries_def Let_def)
qed

lemma sample_yield:
  assumes "Server nd = ''h''" "Raw nd = sample_line" "q_world q = (w, warm_resolver, [sample_outside])"
    and "q_ctx q = None" "q_Resolved q = Map.empty" "q_stats q = no_stats" "sk_nodes (q_sink q) = []"
  shows "\<exists>q'. node_yield (live_env (\<lambda>w ip. (None, w)) None cidr) pol [ASNFilter True []] q nd = (q', True) \<and>
    Total (q_stats q') = 1 \<and> q_ctx q' = None \<and> sk_nodes (q_sink q') = [\<lparr>nr_Raw = sample_line, nr_IP = V4 1\<rparr>]"
proof -
  let ?env = "live_env (\<lambda>w ip. (None, w)) None cidr"
  obtain r where d: "live_dns (w, warm_resolver, [sample_outside]) ''h'' = (Some [V4 1], (w, r, []))"
    using sample_dns [of w] by (elim exE)
  have c: "ctx_check q = (False, q)" using assms(4) by (simp add: ctx_check_def)
  have b: "block_check ?env (q_world q) (Server nd) = (False, q_world q)"
    by (simp add: block_check_def live_env_def)
  define q3 where "q3 = q\<lparr>q_stats := counted (q_stats q), q_world := q_world q\<rparr>"
  have "\<not> ipLiteralShape ''h''" by (simp add: ipLiteralShape_def is_digit_def)
  then have r: "resolveNode ?env q3 (Server nd) = ([V4 1], True,
      q3\<lparr>q_world := (w, r, []), q_Resolved := [''h'' \<mapsto> [V4 1]]\<rparr>)"
    using d assms(1,3,5) by (simp add: resolveNode_def live_env_def q3_def)
  show ?thesis
    unfolding node_yield_def Let_def c prod.case if_False
      processNode_eq [OF c b r [unfolded q3_def], folded q3_def]
    using assms(2,4,6,7)
    by (simp add: asn_Process_def live_env_def lift_world_def counted_def no_stats_def emit_nodes q3_def)
qed

lemma sample_run:
  "\<exists>st. FilterNodes (live_env (\<lambda>w ip. (None, w)) None (\<lambda>w. undefined)) sample_policy [ASNFilter True []]
     (\<lambda>_. None) [] (Some sample_line) ((), warm_resolver, [sample_outside]) None =
   (Inr [\<lparr>nr_Raw = sample_line, nr_IP = V4 1\<rparr>], st)"
proof -
  let ?env = "live_env (\<lambda>w ip. (None, w)) None (\<lambda>w :: unit. undefined)" and ?w = "((), warm_resolver, [sample_outside])"
  obtain nd where nd: "parseNode sample_line = Some nd" "Server nd = ''h''" "Raw nd = sample_line"
    using sample_node by blast
  have ne: "\<not> IsEmpty All_codes" by (simp add: All_codes_def IsEmpty_zero)
  have l: "lines sample_line = [sample_line]" "contains_str sample_line ''://''" "count_list sample_line newline = 0"
    by (simp_all add: sample_line_def lines_eq_kept kept_lines_def wanted_def contains_str_def has_prefix_def
        trim_space_id graphic_def)
  define q1 where "q1 = (start_request ?w None)\<lparr>q_sink := reserve (q_sink (start_request ?w None))
     (min (count_list sample_line newline + 1) maxNodeHint)
     (int (length sample_line) - int (count_list sample_line newline + 1) + 1)\<rparr>"
  have q1: "q_world q1 = ?w" "q_ctx q1 = None" "q_Resolved q1 = Map.empty" "q_stats q1 = no_stats" "sk_nodes (q_sink q1) = []"
    by (simp_all add: q1_def start_request_def reserve_def empty_sink_def)
  obtain q' where q': "node_yield ?env sample_policy [ASNFilter True []] q1 nd = (q', True)"
      "Total (q_stats q') = 1" "q_ctx q' = None" "sk_nodes (q_sink q') = [\<lparr>nr_Raw = sample_line, nr_IP = V4 1\<rparr>]"
    using sample_yield [OF nd(2,3) q1] by blast
  have p: "Subscription.Parse sample_line (node_yield ?env sample_policy [ASNFilter True []]) q1 = (q', 0)"
    using nd(1) l q'(1) by (simp add: Subscription.Parse_def)
  have small: "\<not> (count_list sample_line newline + 1 > maxSubscriptionNodes \<and>
      countNodes sample_line maxSubscriptionNodes > maxSubscriptionNodes)"
    using l by (simp add: maxSubscriptionNodes_def)
  have "processBody ?env sample_policy [ASNFilter True []] sample_line (start_request ?w None) = (None, q')"
    unfolding processBody_def Let_def if_not_P [OF small] q1_def [symmetric] p prod.case
    using q'(3) by (simp add: ctx_check_def)
  then have "FilterNodes ?env sample_policy [ASNFilter True []] (\<lambda>_. None) [] (Some sample_line) ?w None =
      (Inr (fit (q_sink q')), q_stats q')"
    using ne q'(2) by (simp add: FilterNodes_def sample_policy_def start_request_def)
  then show ?thesis by (simp add: fit_id q'(4))
qed

lemma survivors_admitted_witness:
  "\<exists>st. FilterNodes (live_env (\<lambda>w ip. (None, w)) None (\<lambda>w. undefined)) sample_policy [ASNFilter True []]
     (\<lambda>_. None) [] (Some sample_line) ((), warm_resolver, [sample_outside]) None =
     (Inr [\<lparr>nr_Raw = sample_line, nr_IP = V4 1\<rparr>], st) \<and>
   Is4 (V4 1) \<and>
   (\<forall>f \<in> set [ASNFilter True []]. filter_admits
      (live_env (\<lambda>(w :: unit) ip. (None, w)) None (\<lambda>w. undefined)) sample_policy f (V4 1)) \<and>
   sample_line \<in> Raw ` set (body_nodes sample_line)"
proof -
  obtain st where run: "FilterNodes (live_env (\<lambda>w ip. (None, w)) None (\<lambda>w. undefined)) sample_policy [ASNFilter True []]
     (\<lambda>_. None) [] (Some sample_line) ((), warm_resolver, [sample_outside]) None =
     (Inr [\<lparr>nr_Raw = sample_line, nr_IP = V4 1\<rparr>], st)" using sample_run by blast
  have "\<forall>o1 \<in> set [sample_outside]. rearranges (o_order o1)"
    by (simp add: sample_outside_def rearranges_def)
  moreover have "\<forall>c \<in> set sample_earlier. rearranges (dns_order c)"
    by (simp add: sample_earlier_def rearranges_def)
  ultimately show ?thesis
    using survivors_admitted [OF _ _ run [unfolded warm_resolver_def], of "\<lparr>nr_Raw = sample_line, nr_IP = V4 1\<rparr>"] run
    by (simp add: request_body_def)
qed

end
