(* ===== verification/Trim.thy ===== *)
theory Trim
  imports Prelude
begin

text \<open>
  What \<^verbatim>\<open>TrimSpace\<close> leaves of a string with printable ASCII in it: no space encoding contains such
  a byte, so trimming stops there on either side.
\<close>

lemma space_runes_no_graphic: "\<forall>r \<in> set space_runes. r \<noteq> [] \<and> list_all (\<lambda>c. \<not> graphic c) r"
  by (simp add: space_runes_def graphic_def)

lemma find_SomeD: "find P xs = Some x \<Longrightarrow> x \<in> set xs \<and> P x"
  by (auto simp: find_Some_iff)

lemma skip_runes_before:
  assumes "\<forall>r \<in> set rs. r \<noteq> [] \<and> list_all (\<lambda>c. \<not> graphic c) r" "d \<noteq> []" "graphic (hd d)"
  shows "\<exists>y1 y2. y = y1 @ y2 \<and> skip_runes rs (y @ d) = y2 @ d"
proof (induction y rule: length_induct)
  case (1 y)
  show ?case
  proof (cases "strip_one rs (y @ d)")
    case None
    then show ?thesis by (intro exI [where x = "[]"] exI [where x = y]) (simp add: skip_runes_stop)
  next
    case (Some t)
    then obtain r where r: "r \<in> set rs" "r \<noteq> []" "has_prefix r (y @ d)" "t = drop (length r) (y @ d)"
      by (auto simp del: drop_append simp: strip_one_def split: option.splits dest!: find_SomeD)
    have "length r \<le> length y"
    proof (rule ccontr)
      assume "\<not> length r \<le> length y"
      then have y: "length y < length r" by simp
      obtain u where "y @ d = r @ u" using r(3) by (auto simp: has_prefix_iff)
      then have "(r @ u) ! length y = hd d" using assms(2) by (metis hd_conv_nth nth_append_length append_Nil2 hd_append2 nth_append_right diff_self_eq_0 le_refl)
      with y have "r ! length y = hd d" by (simp add: nth_append)
      with y assms r(1) show False by (metis list_all_length)
    qed
    with r have t: "t = drop (length r) y @ d" by simp
    have "length (drop (length r) y) < length y" using r(2) \<open>length r \<le> length y\<close> by (cases r) auto
    with 1 obtain y1 y2 where y: "drop (length r) y = y1 @ y2" "skip_runes rs (drop (length r) y @ d) = y2 @ d" by blast
    have "skip_runes rs (y @ d) = y2 @ d" using Some y(2) t by (subst skip_runes.simps) simp
    moreover have "y = (take (length r) y @ y1) @ y2"
      using append_take_drop_id [of "length r" y] unfolding y(1) by simp
    ultimately show ?thesis by blast
  qed
qed

lemma skip_runes_at_graphic: "s \<noteq> [] \<Longrightarrow> graphic (hd s) \<Longrightarrow> skip_runes space_runes s = s"
  using space_runes_not_graphic by (intro skip_runes_stop strip_one_graphic) auto

lemma trim_space_keeps_head:
  assumes "d \<noteq> []" "graphic (hd d)" "graphic (last d)"
  shows "\<exists>x1 x2. x = x1 @ x2 \<and> trim_space (d @ x) = d @ x1"
proof -
  have "skip_runes space_runes (d @ x) = d @ x" using assms by (intro skip_runes_at_graphic) (simp_all add: hd_append2)
  moreover obtain y1 y2 where "rev x = y1 @ y2" "skip_runes (map rev space_runes) (rev x @ rev d) = y2 @ rev d"
    using skip_runes_before [of "map rev space_runes" "rev d" "rev x"] space_runes_no_graphic assms
    by (auto simp: hd_rev list_all_iff)
  ultimately have "trim_space (d @ x) = d @ rev y2" "x = rev y2 @ rev y1"
    by (simp_all add: trim_space_def) (metis rev_append rev_rev_ident)
  then show ?thesis by blast
qed

lemma strip_one_blank: "strip_one space_runes (CHR '' '' # s) = Some s" "strip_one (map rev space_runes) (CHR '' '' # s) = Some s"
  by (simp_all add: strip_one_def space_runes_def has_prefix_def)

lemma skip_runes_blank [simp]:
  "skip_runes space_runes (CHR '' '' # s) = skip_runes space_runes s"
  "skip_runes (map rev space_runes) (CHR '' '' # s) = skip_runes (map rev space_runes) s"
  by (simp_all add: skip_runes.simps [of _ "CHR '' '' # s"] strip_one_blank)

lemma trim_space_padded:
  assumes "d \<noteq> []" "graphic (hd d)" "graphic (last d)"
  shows "trim_space (CHR '' '' # d @ '' '') = d"
proof -
  have "trim_space (CHR '' '' # d @ '' '') = rev (skip_runes (map rev space_runes) (rev d))"
    using assms by (simp add: trim_space_def skip_runes_at_graphic)
  also have "rev (skip_runes (map rev space_runes) (rev d)) = trim_space d"
    using assms by (simp add: trim_space_def skip_runes_at_graphic)
  finally show ?thesis using assms by (simp add: trim_space_id)
qed

lemma trim_space_graphic_end:
  assumes "s \<noteq> []" "graphic (last s)"
  shows "trim_space s \<noteq> []"
proof -
  have "\<exists>y1 y2. butlast s = y1 @ y2 \<and> skip_runes space_runes (butlast s @ [last s]) = y2 @ [last s]"
    by (rule skip_runes_before) (use space_runes_no_graphic assms in simp_all)
  then obtain y2 where y: "skip_runes space_runes s = y2 @ [last s]" using assms(1) by auto
  have "skip_runes (map rev space_runes) (last s # rev y2) = last s # rev y2"
    using space_runes_not_graphic assms(2)
    by (intro skip_runes_stop strip_one_graphic) (auto simp: hd_rev)
  then show ?thesis by (simp add: trim_space_def y)
qed

end
