(* ===== verification/Asn.thy ===== *)
theory Asn
  imports BoundedCache GeoLookup Lines Trim
begin

text \<open>
  \<^verbatim>\<open>internal/asn/resolver.go\<close>, without its coalescing: the Team Cymru records, the two-step lookup
  and the two bounded caches. The TXT query and the clock are arguments; \<^verbatim>\<open>strings.ToUpper\<close> of a
  string with non-ASCII bytes is the parameter \<open>upper\<close>. Of an error the code only asks whether a
  cancellation caused it.
\<close>

datatype cause = Canceled | OtherCause

datatype asn_error =
    NotIPv4
  | ResolveCanceled cause
  | OriginLookup cause
  | OriginRecord
  | NameLookup cause

definition is_Canceled :: "asn_error \<Rightarrow> bool" where
  "is_Canceled e \<longleftrightarrow> e \<in> {ResolveCanceled Canceled, OriginLookup Canceled, NameLookup Canceled}"

record Result =
  res_Country :: CountryCode
  res_Name :: string

definition zero_result :: Result where
  "zero_result = \<lparr>res_Country = no_country, res_Name = []\<rparr>"

record cachedResult =
  cr_result :: "asn_error + Result"
  cr_expiresAt :: int

record cachedName =
  cn_name :: "cause + string"
  cn_expiresAt :: int

definition defaultCacheTTL :: int where
  "defaultCacheTTL = 24 * 3600 * 1000000000"

definition negativeCacheTTL :: int where
  "negativeCacheTTL = 5 * 60 * 1000000000"

definition new_cacheTTL :: "int \<Rightarrow> int" where
  "new_cacheTTL ttl = (if ttl \<le> 0 then defaultCacheTTL else ttl)"

section \<open>Records\<close>

definition ToUpper :: "(string \<Rightarrow> string) \<Rightarrow> string \<Rightarrow> string" where
  "ToUpper upper s = (if list_all (\<lambda>c. byte c < 128) s then map upper_byte s else upper s)"

definition parseOriginRecord :: "(string \<Rightarrow> string) \<Rightarrow> string \<Rightarrow> (nat \<times> CountryCode) option" where
  "parseOriginRecord upper txt =
     (let parts = split_byte CHR ''|'' txt;
          asnField = trim_space (parts ! 0);
          asnStr = takeWhile (\<lambda>c. c \<noteq> CHR '' '' \<and> c \<noteq> CHR 0x09) asnField
      in case parse_uint 32 asnStr of
           None \<Rightarrow> None
         | Some asn \<Rightarrow>
             Some (asn,
               if 3 \<le> length parts then
                 (let s = ToUpper upper (trim_space (parts ! 2))
                  in if length s = 2 then (s ! 0, s ! 1) else no_country)
               else no_country))"

fun parseOriginRecords :: "(string \<Rightarrow> string) \<Rightarrow> string list \<Rightarrow> (nat \<times> CountryCode) option" where
  "parseOriginRecords upper [] = None"
| "parseOriginRecords upper (txt # txts) =
     (case parseOriginRecord upper txt of Some r \<Rightarrow> Some r | None \<Rightarrow> parseOriginRecords upper txts)"

definition parseASRecord :: "string \<Rightarrow> string" where
  "parseASRecord txt =
     (let parts = split_byte CHR ''|'' txt
      in if length parts < 5 then [] else trim_space (parts ! 4))"

definition octet :: "32 word \<Rightarrow> nat \<Rightarrow> string" where
  "octet w i = itoa (unat (drop_bit (8 * (3 - i)) w AND 0xFF))"

fun reverseIP :: "addr \<Rightarrow> string" where
  "reverseIP (V4 w) = octet w 3 @ ''.'' @ octet w 2 @ ''.'' @ octet w 1 @ ''.'' @ octet w 0"
| "reverseIP _ = []"

section \<open>Lookups\<close>

fun first_name :: "string list \<Rightarrow> string" where
  "first_name [] = []"
| "first_name (txt # txts) = (let n = parseASRecord txt in if n \<noteq> [] then n else first_name txts)"

definition queryName :: "(string \<Rightarrow> cause + string list) \<Rightarrow> nat \<Rightarrow> cause + string" where
  "queryName txt asn =
     (case txt (''AS'' @ itoa asn @ ''.asn.cymru.com'') of Inl e \<Rightarrow> Inl e | Inr rs \<Rightarrow> Inr (first_name rs))"

text \<open>
  \<open>name_answer\<close> is what \<^verbatim>\<open>lookupName\<close> returned: the expiry (\<open>None\<close> its zero value) with the name or
  the cause it failed for.
\<close>

definition asn_lookup ::
  "(string \<Rightarrow> string) \<Rightarrow> (string \<Rightarrow> cause + string list) \<Rightarrow> (nat \<Rightarrow> int option \<times> (cause + string)) \<Rightarrow> addr
   \<Rightarrow> int option \<times> (asn_error + Result)" where
  "asn_lookup upper txt name_answer ip =
     (case txt (reverseIP ip @ ''.origin.asn.cymru.com'') of
        Inl e \<Rightarrow> (None, Inl (OriginLookup e))
      | Inr originTXT \<Rightarrow>
          (case parseOriginRecords upper originTXT of
             None \<Rightarrow> (None, Inl OriginRecord)
           | Some (asn, country) \<Rightarrow>
               (case name_answer asn of
                  (expires, Inl e) \<Rightarrow> (expires, Inl (NameLookup e))
                | (expires, Inr name) \<Rightarrow> (expires, Inr \<lparr>res_Country = country, res_Name = name\<rparr>))))"

text \<open>What a finished flight commits: \<open>None\<close> when a cancellation ended it.\<close>

definition cap_expiry :: "int \<Rightarrow> int option \<Rightarrow> int" where
  "cap_expiry expiresAt capExpiry =
     (case capExpiry of None \<Rightarrow> expiresAt | Some c \<Rightarrow> if c < expiresAt then c else expiresAt)"

definition runIPFlight :: "int \<Rightarrow> int \<Rightarrow> int option \<times> (asn_error + Result) \<Rightarrow> (asn_error + Result) \<times> cachedResult option" where
  "runIPFlight cacheTTL now answer =
     (case answer of (capExpiry, res) \<Rightarrow>
        (res,
         (case res of
            Inr r \<Rightarrow> Some \<lparr>cr_result = Inr r, cr_expiresAt = cap_expiry (now + cacheTTL) capExpiry\<rparr>
          | Inl e \<Rightarrow>
              (if \<not> is_Canceled e
               then Some \<lparr>cr_result = Inl e, cr_expiresAt = cap_expiry (now + negativeCacheTTL) capExpiry\<rparr>
               else None))))"

definition runNameFlight :: "int \<Rightarrow> int \<Rightarrow> cause + string \<Rightarrow> (int option \<times> (cause + string)) \<times> cachedName option" where
  "runNameFlight cacheTTL now answer =
     (case answer of
        Inr name \<Rightarrow>
          ((Some (now + cacheTTL), answer), Some \<lparr>cn_name = answer, cn_expiresAt = now + cacheTTL\<rparr>)
      | Inl e \<Rightarrow>
          (if e \<noteq> Canceled
           then ((Some (now + negativeCacheTTL), answer), Some \<lparr>cn_name = answer, cn_expiresAt = now + negativeCacheTTL\<rparr>)
           else ((None, answer), None)))"

section \<open>The two caches\<close>

type_synonym ip_cache = "(addr \<times> cachedResult) list"
type_synonym name_cache = "(nat \<times> cachedName) list"

definition asn_cachedResult :: "int \<Rightarrow> ip_cache \<Rightarrow> addr \<Rightarrow> cachedResult option" where
  "asn_cachedResult now c ip =
     (case map_of c ip of
        None \<Rightarrow> None
      | Some e \<Rightarrow> if \<not> now < cr_expiresAt e then None else Some e)"

definition asn_cachedName :: "int \<Rightarrow> name_cache \<Rightarrow> nat \<Rightarrow> cachedName option" where
  "asn_cachedName now c asn =
     (case map_of c asn of
        None \<Rightarrow> None
      | Some e \<Rightarrow> if \<not> now < cn_expiresAt e then None else Some e)"

definition ip_expired :: "int \<Rightarrow> cachedResult \<Rightarrow> bool" where
  "ip_expired now e \<longleftrightarrow> now > cr_expiresAt e"

definition name_expired :: "int \<Rightarrow> cachedName \<Rightarrow> bool" where
  "name_expired now e \<longleftrightarrow> now > cn_expiresAt e"

definition asn_evictExpired :: "(ip_cache \<Rightarrow> ip_cache) \<Rightarrow> int \<Rightarrow> ip_cache \<Rightarrow> ip_cache" where
  "asn_evictExpired order now c =
     (let live = filter (\<lambda>p. \<not> ip_expired now (snd p)) c
      in if length live < maxCacheEntries then live
         else drop (maxCacheEntries div evictFraction) (order live))"

definition asn_evictExpiredNames :: "(name_cache \<Rightarrow> name_cache) \<Rightarrow> int \<Rightarrow> name_cache \<Rightarrow> name_cache" where
  "asn_evictExpiredNames order now c =
     (let live = filter (\<lambda>p. \<not> name_expired now (snd p)) c
      in if length live < maxCacheEntries then live
         else drop (maxCacheEntries div evictFraction) (order live))"

definition asn_storeCache :: "(ip_cache \<Rightarrow> ip_cache) \<Rightarrow> int \<Rightarrow> addr \<Rightarrow> cachedResult \<Rightarrow> ip_cache \<Rightarrow> ip_cache" where
  "asn_storeCache order now ip entry c =
     AList.update ip entry (if maxCacheEntries \<le> length c then asn_evictExpired order now c else c)"

definition asn_storeName :: "(name_cache \<Rightarrow> name_cache) \<Rightarrow> int \<Rightarrow> nat \<Rightarrow> cachedName \<Rightarrow> name_cache \<Rightarrow> name_cache" where
  "asn_storeName order now asn entry c =
     AList.update asn entry (if maxCacheEntries \<le> length c then asn_evictExpiredNames order now c else c)"

interpretation asn_ips: bounded_cache ip_expired asn_evictExpired asn_storeCache
  by unfold_locales (simp_all add: asn_evictExpired_def asn_storeCache_def)

interpretation asn_names: bounded_cache name_expired asn_evictExpiredNames asn_storeName
  by unfold_locales (simp_all add: asn_evictExpiredNames_def asn_storeName_def)

section \<open>Lemmas\<close>

lemma split_byte_cons:
  "b \<notin> set x \<Longrightarrow> split_byte b (x @ b # rest) = x # split_byte b rest"
  by (induction x) auto

lemma cap_le: "cap_expiry e cap \<le> e" "cap = Some c \<Longrightarrow> cap_expiry e cap \<le> c"
  by (auto simp: cap_expiry_def split: option.splits)

section \<open>Properties\<close>

text \<open>
  a Cymru origin record names its first AS and its country whatever follows the number in
  the AS list. For any number below 2^32, alone or first of a list, any prefix field and any
  two-letter country, in either case, the record's parser returns that number and the
  upper-cased country.
\<close>

theorem origin_record_parses:
  assumes "n < 2 ^ 32" and "others = [] \<or> hd others = CHR '' ''"
    and "CHR ''|'' \<notin> set others" "CHR ''|'' \<notin> set prefix"
    and "is_lower a \<or> is_upper a" "is_lower b \<or> is_upper b"
  shows "parseOriginRecord upper (itoa n @ others @ '' |'' @ prefix @ ''| '' @ [a, b] @ '' |'' @ rest) =
    Some (n, (upper_byte a, upper_byte b))"
proof -
  have d: "graphic c" if "is_digit c" for c using that by (simp add: is_digit_def graphic_def)
  have g: "graphic (hd (itoa n))" "graphic (last (itoa n))"
    using itoa_digits [of n] itoa_nonempty [of n] d hd_in_set last_in_set by (metis list_all_iff)+
  have letter: "graphic c \<and> byte c < 128 \<and> c \<noteq> CHR ''|''" if "is_lower c \<or> is_upper c" for c
    using that by (auto simp: is_lower_def is_upper_def graphic_def)
  have "CHR ''|'' \<notin> set (itoa n @ others @ '' '')" using assms(3) by (simp add: not_in_itoa is_digit_def)
  then have split: "split_byte CHR ''|'' (itoa n @ others @ '' |'' @ prefix @ ''| '' @ [a, b] @ '' |'' @ rest) =
      (itoa n @ others @ '' '') # prefix # (CHR '' '' # [a, b] @ '' '') # split_byte CHR ''|'' rest"
    using split_byte_cons [of "CHR ''|''" "itoa n @ others @ '' ''"] split_byte_cons [OF assms(4)]
      split_byte_cons [of "CHR ''|''" "CHR '' '' # [a, b] @ '' ''" rest] letter [OF assms(5)] letter [OF assms(6)]
    by simp
  obtain x1 x2 where x: "others @ '' '' = x1 @ x2" "trim_space (itoa n @ others @ '' '') = itoa n @ x1"
    using trim_space_keeps_head [OF itoa_nonempty g] by blast
  then have x1: "x1 = [] \<or> hd x1 = CHR '' ''" using assms(2) by (cases x1; cases others) auto
  have "takeWhile (\<lambda>c. c \<noteq> CHR '' '' \<and> c \<noteq> CHR 0x09) (itoa n @ x1) = itoa n"
    using x1 not_in_itoa [of "CHR '' ''" n] not_in_itoa [of "CHR 0x09" n]
    by (cases x1) (auto simp: takeWhile_append is_digit_def)
  moreover have "trim_space (CHR '' '' # [a, b] @ '' '') = [a, b]"
    using letter [OF assms(5)] letter [OF assms(6)] by (intro trim_space_padded) simp_all
  moreover have "ToUpper upper [a, b] = [upper_byte a, upper_byte b]"
    using letter [OF assms(5)] letter [OF assms(6)] by (simp add: ToUpper_def)
  ultimately show ?thesis
    unfolding parseOriginRecord_def split Let_def using assms(1) x(2) by simp
qed

lemma origin_record_parses_witness:
  "parseOriginRecord id (itoa 15169 @ '' 43515'' @ '' |'' @ '' 35.212.128.0/17 '' @ ''| '' @ [CHR ''u'', CHR ''S''] @ '' |'' @ '' arin'') =
    Some (15169, (upper_byte CHR ''u'', upper_byte CHR ''S''))"
  by (rule origin_record_parses) (simp_all add: is_lower_def is_upper_def)

end
