(* ===== verification/AsnFlights.thy ===== *)
theory AsnFlights
  imports Asn
begin

text \<open>
  How \<^verbatim>\<open>internal/asn/resolver.go\<close> coalesces lookups. The IP flights and the AS-name flights are
  the same code on two key types; the operations are polymorphic in the key, the result, the
  cache and its entries, and the two instances name them. Each operation is one critical section
  of \<^verbatim>\<open>flightMu\<close>. The step relation interleaves any number of callers with the goroutines
  that run the lookups.
\<close>

record 'r flight =
  fl_result :: "'r option"
  fl_waiters :: int
  fl_finished :: bool
  fl_abandoned :: bool
  fl_cancelled :: bool
  fl_done :: bool

text \<open>Flights are pointers: \<open>registered\<close> maps a key to one, \<open>heap\<close> holds their contents.\<close>

record ('k, 'r, 'c) coalescer =
  registered :: "'k \<rightharpoonup> nat"
  heap :: "nat \<Rightarrow> 'r flight"
  next_flight :: nat
  cache :: 'c

definition fresh_flight :: "'r flight" where
  "fresh_flight = \<lparr>fl_result = None, fl_waiters = 1, fl_finished = False, fl_abandoned = False,
                   fl_cancelled = False, fl_done = False\<rparr>"

text \<open>Join the flight of a key or register a new one; the flag says whether it is new.\<close>

definition joinFlight :: "'k \<Rightarrow> ('k, 'r, 'c) coalescer \<Rightarrow> nat \<times> bool \<times> ('k, 'r, 'c) coalescer" where
  "joinFlight k s =
     (case registered s k of
        Some f \<Rightarrow>
          (f, False, s\<lparr>heap := (heap s)(f := (heap s f)\<lparr>fl_waiters := fl_waiters (heap s f) + 1\<rparr>)\<rparr>)
      | None \<Rightarrow>
          (next_flight s, True,
           s\<lparr>registered := (registered s)(k \<mapsto> next_flight s),
             heap := (heap s)(next_flight s := fresh_flight), next_flight := next_flight s + 1\<rparr>))"

definition dropWaiter :: "'k \<Rightarrow> nat \<Rightarrow> ('k, 'r, 'c) coalescer \<Rightarrow> ('k, 'r, 'c) coalescer" where
  "dropWaiter k f s =
     (let fl = (heap s f)\<lparr>fl_waiters := fl_waiters (heap s f) - 1\<rparr>
      in if fl_waiters fl > 0 \<or> fl_finished fl then s\<lparr>heap := (heap s)(f := fl)\<rparr>
         else s\<lparr>heap := (heap s)(f := fl\<lparr>fl_abandoned := True, fl_cancelled := True\<rparr>),
                registered := (if registered s k = Some f then (registered s)(k := None) else registered s)\<rparr>)"

definition finishFlight ::
  "('k \<Rightarrow> 'e \<Rightarrow> 'c \<Rightarrow> 'c) \<Rightarrow> 'k \<Rightarrow> nat \<Rightarrow> 'r \<Rightarrow> 'e option \<Rightarrow> ('k, 'r, 'c) coalescer \<Rightarrow> ('k, 'r, 'c) coalescer" where
  "finishFlight store k f result entry s =
     (let s1 = s\<lparr>heap := (heap s)(f := (heap s f)\<lparr>fl_result := Some result, fl_finished := True\<rparr>)\<rparr>
      in if registered s1 k = Some f
         then s1\<lparr>registered := (registered s1)(k := None),
                 cache := (case entry of
                             None \<Rightarrow> cache s1
                           | Some e \<Rightarrow> if \<not> fl_abandoned (heap s1 f) then store k e (cache s1) else cache s1)\<rparr>
         else s1)"

text \<open>What follows the critical section of a finish.\<close>

definition closeFlight :: "nat \<Rightarrow> ('k, 'r, 'c) coalescer \<Rightarrow> ('k, 'r, 'c) coalescer" where
  "closeFlight f s = s\<lparr>heap := (heap s)(f := (heap s f)\<lparr>fl_cancelled := True, fl_done := True\<rparr>)\<rparr>"

section \<open>Callers and runners\<close>

text \<open>
  Callers are numbered as they come. One holds a flight it registered and has yet to re-check the
  cache for, or waits on one. \<open>running\<close> are the flights whose goroutine has not finished, \<open>closing\<close>
  those finished but not closed, \<open>answers\<close> what each caller got for its key: a result, or nothing
  for one that was cancelled.
\<close>

datatype 'k phase = Rechecking 'k nat | Waiting 'k nat

fun on_flight :: "nat \<Rightarrow> 'k phase \<Rightarrow> bool" where
  "on_flight f (Rechecking k g) \<longleftrightarrow> g = f"
| "on_flight f (Waiting k g) \<longleftrightarrow> g = f"

record ('k, 'r, 'c) system =
  shared :: "('k, 'r, 'c) coalescer"
  next_caller :: nat
  callers :: "(nat \<times> 'k phase) multiset"
  running :: "nat \<rightharpoonup> 'k"
  closing :: "nat set"
  answers :: "(nat \<times> 'k \<times> 'r option) list"

definition start_system :: "'c \<Rightarrow> ('k, 'r, 'c) system" where
  "start_system c =
     \<lparr>shared = \<lparr>registered = Map.empty, heap = (\<lambda>_. fresh_flight), next_flight = 0, cache = c\<rparr>,
      next_caller = 0, callers = {#}, running = Map.empty, closing = {}, answers = []\<rparr>"

text \<open>
  \<open>ob\<close> is what a step meets outside: clocks, map orders and what the queries answer. \<open>cached\<close>
  is the cache probe, \<open>run\<close> the goroutine's lookup with the entry it commits.
\<close>

inductive flight_step ::
  "('o \<Rightarrow> 'c \<Rightarrow> 'k \<Rightarrow> 'r option) \<Rightarrow> ('o \<Rightarrow> 'k \<Rightarrow> 'e \<Rightarrow> 'c \<Rightarrow> 'c) \<Rightarrow> ('o \<Rightarrow> 'k \<Rightarrow> 'r \<times> 'e option)
   \<Rightarrow> ('k, 'r, 'c) system \<Rightarrow> ('k, 'r, 'c) system \<Rightarrow> bool"
  for cached store run where
  hit: "cached ob (cache (shared s)) k = Some r \<Longrightarrow>
    flight_step cached store run s
      (s\<lparr>next_caller := next_caller s + 1, answers := (next_caller s, k, Some r) # answers s\<rparr>)"
| gone: "flight_step cached store run s
      (s\<lparr>next_caller := next_caller s + 1, answers := (next_caller s, k, None) # answers s\<rparr>)"
| join: "joinFlight k (shared s) = (f, False, sh) \<Longrightarrow>
    flight_step cached store run s
      (s\<lparr>shared := sh, next_caller := next_caller s + 1, callers := add_mset (next_caller s, Waiting k f) (callers s)\<rparr>)"
| start: "joinFlight k (shared s) = (f, True, sh) \<Longrightarrow>
    flight_step cached store run s
      (s\<lparr>shared := sh, next_caller := next_caller s + 1, callers := add_mset (next_caller s, Rechecking k f) (callers s)\<rparr>)"
| warmed: "callers s = add_mset (i, Rechecking k f) cs \<Longrightarrow> cached ob (cache (shared s)) k = Some r \<Longrightarrow>
    flight_step cached store run s
      (s\<lparr>shared := finishFlight (store ob) k f r None (shared s), callers := cs,
         closing := insert f (closing s), answers := (i, k, Some r) # answers s\<rparr>)"
| launch: "callers s = add_mset (i, Rechecking k f) cs \<Longrightarrow> cached ob (cache (shared s)) k = None \<Longrightarrow>
    flight_step cached store run s
      (s\<lparr>callers := add_mset (i, Waiting k f) cs, running := (running s)(f \<mapsto> k)\<rparr>)"
| finish: "running s f = Some k \<Longrightarrow> run ob k = (r, entry) \<Longrightarrow>
    flight_step cached store run s
      (s\<lparr>shared := finishFlight (store ob) k f r entry (shared s), running := (running s)(f := None),
         closing := insert f (closing s)\<rparr>)"
| close: "f \<in> closing s \<Longrightarrow>
    flight_step cached store run s (s\<lparr>shared := closeFlight f (shared s), closing := closing s - {f}\<rparr>)"
| wake: "callers s = add_mset (i, Waiting k f) cs \<Longrightarrow> fl_done (heap (shared s) f) \<Longrightarrow>
    flight_step cached store run s
      (s\<lparr>callers := cs, answers := (i, k, fl_result (heap (shared s) f)) # answers s\<rparr>)"
| leave: "callers s = add_mset (i, Waiting k f) cs \<Longrightarrow>
    flight_step cached store run s
      (s\<lparr>shared := dropWaiter k f (shared s), callers := cs, answers := (i, k, None) # answers s\<rparr>)"

inductive flight_reach ::
  "('o \<Rightarrow> 'c \<Rightarrow> 'k \<Rightarrow> 'r option) \<Rightarrow> ('o \<Rightarrow> 'k \<Rightarrow> 'e \<Rightarrow> 'c \<Rightarrow> 'c) \<Rightarrow> ('o \<Rightarrow> 'k \<Rightarrow> 'r \<times> 'e option)
   \<Rightarrow> ('k, 'r, 'c) system \<Rightarrow> ('k, 'r, 'c) system \<Rightarrow> bool"
  for cached store run where
  here: "flight_reach cached store run s s"
| more: "flight_reach cached store run s t \<Longrightarrow> flight_step cached store run t u \<Longrightarrow> flight_reach cached store run s u"

section \<open>The invariant\<close>

fun re_flight :: "nat \<Rightarrow> 'k phase \<Rightarrow> bool" where
  "re_flight f (Rechecking k g) \<longleftrightarrow> g = f"
| "re_flight f (Waiting k g) \<longleftrightarrow> False"

fun phase_key :: "'k phase \<Rightarrow> 'k" where
  "phase_key (Rechecking k f) = k"
| "phase_key (Waiting k f) = k"

fun phase_flight :: "'k phase \<Rightarrow> nat" where
  "phase_flight (Rechecking k f) = f"
| "phase_flight (Waiting k f) = f"

definition count_on :: "nat \<Rightarrow> 'k phase multiset \<Rightarrow> nat" where
  "count_on f cs = size (filter_mset (on_flight f) cs)"

definition count_re :: "nat \<Rightarrow> 'k phase multiset \<Rightarrow> nat" where
  "count_re f cs = size (filter_mset (re_flight f) cs)"

lemma count_add [simp]:
  "count_on f (add_mset p cs) = (if phase_flight p = f then Suc (count_on f cs) else count_on f cs)"
  "count_re f (add_mset (Rechecking k g) cs) = (if g = f then Suc (count_re f cs) else count_re f cs)"
  "count_re f (add_mset (Waiting k g) cs) = count_re f cs"
  "count_on f {#} = 0" "count_re f {#} = 0"
  by (cases p, simp_all add: count_on_def count_re_def)

lemma count_0: "count_on f cs = 0 \<Longrightarrow> p \<in># cs \<Longrightarrow> phase_flight p \<noteq> f"
  by (cases p) (auto simp: count_on_def)

lemma count_on_none: "(\<And>p. p \<in># cs \<Longrightarrow> phase_flight p \<noteq> f) \<Longrightarrow> count_on f cs = 0"
  by (induction cs) auto

lemma count_on_pos: "p \<in># cs \<Longrightarrow> 0 < count_on (phase_flight p) cs"
  using count_0 by fastforce

lemma count_re_none: "(\<And>k. Rechecking k f \<notin># cs) \<Longrightarrow> count_re f cs = 0"
proof (induction cs)
  case (add p cs)
  then show ?case by (cases p) auto
qed simp

lemma count_re_0: "count_re f cs = 0 \<Longrightarrow> Rechecking k f \<notin># cs"
  by (auto simp: count_re_def)

lemma count_re_le: "count_re f cs \<le> count_on f cs"
proof (induction cs)
  case (add p cs)
  then show ?case by (cases p) auto
qed simp

text \<open>
  Per flight: a registered one is live and has a waiter; the waiters of an unfinished one are
  the callers on it; it has one runner, a goroutine or the caller that registered it.
\<close>

definition flight_inv ::
  "('k \<rightharpoonup> nat) \<Rightarrow> (nat \<Rightarrow> 'r flight) \<Rightarrow> nat \<Rightarrow> 'k phase multiset \<Rightarrow> (nat \<rightharpoonup> 'k) \<Rightarrow> nat set \<Rightarrow> bool" where
  "flight_inv reg hp nx cs ru cl \<longleftrightarrow>
     (\<forall>k f. reg k = Some f \<longrightarrow> f < nx \<and> \<not> fl_finished (hp f) \<and> \<not> fl_abandoned (hp f) \<and> 0 < count_on f cs) \<and>
     (\<forall>k k' f. reg k = Some f \<longrightarrow> reg k' = Some f \<longrightarrow> k = k') \<and>
     (\<forall>f. \<not> fl_finished (hp f) \<longrightarrow> f < nx \<longrightarrow>
        fl_waiters (hp f) = int (count_on f cs) \<and> (ru f = None \<longrightarrow> count_re f cs = 1)) \<and>
     (\<forall>p \<in># cs. phase_flight p < nx \<and>
        (fl_finished (hp (phase_flight p)) \<or> reg (phase_key p) = Some (phase_flight p))) \<and>
     (\<forall>f k. ru f = Some k \<longrightarrow>
        f < nx \<and> \<not> fl_finished (hp f) \<and> count_re f cs = 0 \<and> (\<forall>k'. reg k' = Some f \<longrightarrow> k' = k)) \<and>
     (\<forall>f. fl_finished (hp f) \<longrightarrow> count_re f cs = 0 \<and> fl_result (hp f) \<noteq> None \<and> (fl_done (hp f) \<or> f \<in> cl)) \<and>
     (\<forall>f. f \<in> cl \<or> fl_done (hp f) \<longrightarrow> fl_finished (hp f)) \<and>
     (\<forall>f. fl_cancelled (hp f) \<longrightarrow> fl_finished (hp f) \<or> fl_abandoned (hp f)) \<and>
     (\<forall>f. nx \<le> f \<longrightarrow> \<not> fl_finished (hp f))"

lemma flight_invI:
  assumes "\<And>k f. reg k = Some f \<Longrightarrow> f < nx \<and> \<not> fl_finished (hp f) \<and> \<not> fl_abandoned (hp f) \<and> 0 < count_on f cs"
    and "\<And>k k' f. reg k = Some f \<Longrightarrow> reg k' = Some f \<Longrightarrow> k = k'"
    and "\<And>f. \<not> fl_finished (hp f) \<Longrightarrow> f < nx \<Longrightarrow>
        fl_waiters (hp f) = int (count_on f cs) \<and> (ru f = None \<longrightarrow> count_re f cs = 1)"
    and "\<And>p. p \<in># cs \<Longrightarrow> phase_flight p < nx \<and>
        (fl_finished (hp (phase_flight p)) \<or> reg (phase_key p) = Some (phase_flight p))"
    and "\<And>f k. ru f = Some k \<Longrightarrow>
        f < nx \<and> \<not> fl_finished (hp f) \<and> count_re f cs = 0 \<and> (\<forall>k'. reg k' = Some f \<longrightarrow> k' = k)"
    and "\<And>f. fl_finished (hp f) \<Longrightarrow> count_re f cs = 0 \<and> fl_result (hp f) \<noteq> None \<and> (fl_done (hp f) \<or> f \<in> cl)"
    and "\<And>f. f \<in> cl \<or> fl_done (hp f) \<Longrightarrow> fl_finished (hp f)"
    and "\<And>f. fl_cancelled (hp f) \<Longrightarrow> fl_finished (hp f) \<or> fl_abandoned (hp f)"
    and "\<And>f. nx \<le> f \<Longrightarrow> \<not> fl_finished (hp f)"
  shows "flight_inv reg hp nx cs ru cl"
  unfolding flight_inv_def using assms by blast

lemma flight_invD:
  assumes "flight_inv reg hp nx cs ru cl"
  shows "reg k = Some f \<Longrightarrow> f < nx \<and> \<not> fl_finished (hp f) \<and> \<not> fl_abandoned (hp f) \<and> 0 < count_on f cs"
    and "reg k = Some f \<Longrightarrow> reg k' = Some f \<Longrightarrow> k = k'"
    and "\<not> fl_finished (hp f) \<Longrightarrow> f < nx \<Longrightarrow>
        fl_waiters (hp f) = int (count_on f cs) \<and> (ru f = None \<longrightarrow> count_re f cs = 1)"
    and "p \<in># cs \<Longrightarrow> phase_flight p < nx \<and>
        (fl_finished (hp (phase_flight p)) \<or> reg (phase_key p) = Some (phase_flight p))"
    and "ru f = Some k \<Longrightarrow>
        f < nx \<and> \<not> fl_finished (hp f) \<and> count_re f cs = 0 \<and> (\<forall>k'. reg k' = Some f \<longrightarrow> k' = k)"
    and "fl_finished (hp f) \<Longrightarrow> count_re f cs = 0 \<and> fl_result (hp f) \<noteq> None \<and> (fl_done (hp f) \<or> f \<in> cl)"
    and "f \<in> cl \<or> fl_done (hp f) \<Longrightarrow> fl_finished (hp f)"
    and "fl_cancelled (hp f) \<Longrightarrow> fl_finished (hp f) \<or> fl_abandoned (hp f)"
    and "nx \<le> f \<Longrightarrow> \<not> fl_finished (hp f)"
  using assms unfolding flight_inv_def by blast+

definition system_ok :: "('k, 'r, 'c) system \<Rightarrow> bool" where
  "system_ok s \<longleftrightarrow>
     flight_inv (registered (shared s)) (heap (shared s)) (next_flight (shared s))
       (image_mset snd (callers s)) (running s) (closing s)"

lemma start_ok: "system_ok (start_system c)"
  by (simp add: system_ok_def start_system_def flight_inv_def fresh_flight_def)

lemma inv_join:
  assumes inv: "flight_inv reg hp nx cs ru cl" and r: "reg k = Some f"
  shows "flight_inv reg (hp(f := (hp f)\<lparr>fl_waiters := fl_waiters (hp f) + 1\<rparr>)) nx (add_mset (Waiting k f) cs) ru cl"
proof -
  note D = flight_invD [OF inv]
  show ?thesis
  proof (rule flight_invI, goal_cases)
    case (1 k f) then show ?case using D(1) by auto
  next
    case (2 k k' f) then show ?case using D(2) by blast
  next
    case (3 g) then show ?case using D(3) [of g] by (auto split: if_splits)
  next
    case (4 p) then show ?case using D(4) [of p] D(1) [OF r] r by auto
  next
    case (5 g k) then show ?case using D(5) [of g k] by auto
  next
    case (6 g) then show ?case using D(6) [of g] by (auto split: if_splits)
  next
    case (7 g) then show ?case using D(7) [of g] by (auto split: if_splits)
  next
    case (8 g) then show ?case using D(8) [of g] by (auto split: if_splits)
  next
    case (9 g) then show ?case using D(9) [of g] by auto
  qed
qed

lemma inv_start:
  assumes inv: "flight_inv reg hp nx cs ru cl" and r: "reg k = None"
  shows "flight_inv (reg(k \<mapsto> nx)) (hp(nx := fresh_flight)) (nx + 1) (add_mset (Rechecking k nx) cs) ru cl"
proof -
  note D = flight_invD [OF inv]
  have c0: "count_on nx cs = 0" using D(4) by (intro count_on_none) auto
  have r0: "count_re nx cs = 0" using c0 count_re_le [of nx cs] by simp
  have ru: "ru nx = None" using D(5) [of nx] by (cases "ru nx") auto
  have nx: "nx \<notin> cl" using D(7) [of nx] D(9) [of nx] by auto
  have reg: "reg k' \<noteq> Some nx" for k' using D(1) [of k' nx] by auto
  show ?thesis
  proof (rule flight_invI, goal_cases)
    case (1 k' f) then show ?case using D(1) [of k' f] by (auto simp: fresh_flight_def c0 split: if_splits)
  next
    case (2 k1 k2 f) then show ?case using D(2) [of k1 f k2] reg by (auto split: if_splits)
  next
    case (3 g) then show ?case using D(3) [of g] by (auto simp: fresh_flight_def c0 r0 less_Suc_eq)
  next
    case (4 p)
    show ?case
    proof (cases "p \<in># cs")
      case True
      with D(4) [of p] show ?thesis using r by (auto simp: less_Suc_eq)
    next
      case False
      with 4 show ?thesis by auto
    qed
  next
    case (5 g k') then show ?case using D(5) [of g k'] reg by (auto simp: ru)
  next
    case (6 g) then show ?case using D(6) [of g] by (auto simp: fresh_flight_def split: if_splits)
  next
    case (7 g) then show ?case using D(7) [of g] nx by (auto simp: fresh_flight_def split: if_splits)
  next
    case (8 g) then show ?case using D(8) [of g] by (auto simp: fresh_flight_def split: if_splits)
  next
    case (9 g) then show ?case using D(9) [of g] by auto
  qed
qed

lemma inv_finish:
  assumes inv: "flight_inv reg hp nx cs ru cl" and f: "f < nx" "\<not> fl_finished (hp f)"
    and key: "\<And>k'. reg k' = Some f \<Longrightarrow> k' = k"
    and sub: "set_mset cs' \<subseteq> set_mset cs" and re: "count_re f cs' = 0"
    and same: "\<And>g. g \<noteq> f \<Longrightarrow> count_on g cs' = count_on g cs \<and> count_re g cs' = count_re g cs"
  shows "flight_inv (if reg k = Some f then reg(k := None) else reg)
    (hp(f := (hp f)\<lparr>fl_result := Some r, fl_finished := True\<rparr>)) nx cs' (ru(f := None)) (insert f cl)"
proof -
  note D = flight_invD [OF inv]
  let ?reg = "if reg k = Some f then reg(k := None) else reg"
  have reg: "reg k' = Some g \<and> g \<noteq> f" if a: "?reg k' = Some g" for k' g
  proof
    show g: "reg k' = Some g" using a by (auto split: if_splits)
    show "g \<noteq> f"
    proof
      assume "g = f"
      with g key have "k' = k" "reg k = Some f" by blast+
      with a show False by simp
    qed
  qed
  have reg': "reg k' = Some g \<Longrightarrow> g \<noteq> f \<Longrightarrow> ?reg k' = Some g" for k' g by auto
  show ?thesis
  proof (rule flight_invI, goal_cases)
    case (1 k' g)
    from reg [OF 1] D(1) [of k' g] same [of g] show ?case by auto
  next
    case (2 k1 k2 g) then show ?case using D(2) [of k1 g k2] reg by blast
  next
    case (3 g) then show ?case using D(3) [of g] same [of g] by (auto split: if_splits)
  next
    case (4 p)
    with sub D(4) [of p] reg' [of "phase_key p" "phase_flight p"] show ?case by auto
  next
    case (5 g k')
    then have g: "g \<noteq> f" "ru g = Some k'" by (auto split: if_splits)
    have d: "g < nx" "\<not> fl_finished (hp g)" "count_re g cs = 0" "\<forall>k''. reg k'' = Some g \<longrightarrow> k'' = k'"
      using D(5) [OF g(2)] by simp_all
    have "\<forall>k''. ?reg k'' = Some g \<longrightarrow> k'' = k'" using d(4) reg by blast
    moreover have "count_re g cs' = 0" using same [OF g(1)] d(3) by simp
    ultimately show ?case using g(1) d(1,2) by (intro conjI) (simp_all del: fun_upd_apply split del: if_split add: fun_upd_other)
  next
    case (6 g) then show ?case using D(6) [of g] re same [of g] by (auto split: if_splits)
  next
    case (7 g) then show ?case using D(7) [of g] by auto
  next
    case (8 g) then show ?case using D(8) [of g] by auto
  next
    case (9 g) then show ?case using D(9) [of g] f by auto
  qed
qed

lemma inv_launch:
  assumes inv: "flight_inv reg hp nx (add_mset (Rechecking k f) cs) ru cl"
  shows "flight_inv reg hp nx (add_mset (Waiting k f) cs) (ru(f \<mapsto> k)) cl"
proof -
  note D = flight_invD [OF inv]
  have f: "f < nx" "\<not> fl_finished (hp f)" "reg k = Some f" "ru f = None" "count_re f cs = 0"
    using D(4) [of "Rechecking k f"] D(6) [of f] D(5) [of f] D(3) [of f] by (auto split: if_splits) (cases "ru f"; auto)+
  have uniq: "\<forall>k'. reg k' = Some f \<longrightarrow> k' = k" using D(2) [OF f(3)] by blast
  show ?thesis
  proof (rule flight_invI, goal_cases)
    case (1 k' g) then show ?case using D(1) [of k' g] by auto
  next
    case (2 k1 k2 g) then show ?case using D(2) by blast
  next
    case (3 g) then show ?case using D(3) [of g] by auto
  next
    case (4 p) then show ?case using D(4) [of p] f by auto
  next
    case (5 g k')
    show ?case
    proof (cases "g = f")
      case True
      with 5 have "k' = k" by simp
      with True uniq f(1,2,5) show ?thesis by simp
    next
      case False
      with 5 have "ru g = Some k'" by simp
      from D(5) [OF this] False show ?thesis by simp
    qed
  next
    case (6 g) then show ?case using D(6) [of g] by (auto split: if_splits)
  next
    case (7 g) then show ?case using D(7) [of g] by auto
  next
    case (8 g) then show ?case using D(8) [of g] by auto
  next
    case (9 g) then show ?case using D(9) [of g] by auto
  qed
qed

lemma inv_close:
  assumes inv: "flight_inv reg hp nx cs ru cl" and f: "f \<in> cl"
  shows "flight_inv reg (hp(f := (hp f)\<lparr>fl_cancelled := True, fl_done := True\<rparr>)) nx cs ru (cl - {f})"
proof -
  note D = flight_invD [OF inv]
  have fin: "fl_finished (hp f)" using D(7) [of f] f by simp
  show ?thesis
  proof (rule flight_invI, goal_cases)
    case (1 k' g) then show ?case using D(1) [of k' g] by auto
  next
    case (2 k1 k2 g) then show ?case using D(2) by blast
  next
    case (3 g) then show ?case using D(3) [of g] by (auto split: if_splits)
  next
    case (4 p) then show ?case using D(4) [of p] by auto
  next
    case (5 g k') then show ?case using D(5) [of g k'] by auto
  next
    case (6 g) then show ?case using D(6) [of g] by (auto split: if_splits)
  next
    case (7 g) then show ?case using D(7) [of g] fin by (auto split: if_splits)
  next
    case (8 g) then show ?case using D(8) [of g] fin by (auto split: if_splits)
  next
    case (9 g) then show ?case using D(9) [of g] by (auto split: if_splits)
  qed
qed

text \<open>A caller that goes away from a finished flight, woken or cancelled.\<close>

lemma inv_forget:
  assumes inv: "flight_inv reg hp nx (add_mset (Waiting k f) cs) ru cl" and f: "fl_finished (hp f)"
  shows "flight_inv reg (hp(f := (hp f)\<lparr>fl_waiters := n\<rparr>)) nx cs ru cl"
proof -
  note D = flight_invD [OF inv]
  show ?thesis
  proof (rule flight_invI, goal_cases)
    case (1 k' g) then show ?case using D(1) [of k' g] f by (auto split: if_splits)
  next
    case (2 k1 k2 g) then show ?case using D(2) by blast
  next
    case (3 g) then show ?case using D(3) [of g] f by (auto split: if_splits)
  next
    case (4 p) then show ?case using D(4) [of p] by auto
  next
    case (5 g k') then show ?case using D(5) [of g k'] by auto
  next
    case (6 g) then show ?case using D(6) [of g] by (auto split: if_splits)
  next
    case (7 g) then show ?case using D(7) [of g] by (auto split: if_splits)
  next
    case (8 g) then show ?case using D(8) [of g] by (auto split: if_splits)
  next
    case (9 g) then show ?case using D(9) [of g] by (auto split: if_splits)
  qed
qed

text \<open>A caller that leaves an unfinished flight: another is left, or it was the last.\<close>

lemma inv_leave:
  assumes inv: "flight_inv reg hp nx (add_mset (Waiting k f) cs) ru cl" and f: "\<not> fl_finished (hp f)"
    and rest: "0 < count_on f cs"
  shows "flight_inv reg (hp(f := (hp f)\<lparr>fl_waiters := fl_waiters (hp f) - 1\<rparr>)) nx cs ru cl"
proof -
  note D = flight_invD [OF inv]
  show ?thesis
  proof (rule flight_invI, goal_cases)
    case (1 k' g) then show ?case using D(1) [of k' g] rest by (auto split: if_splits)
  next
    case (2 k1 k2 g) then show ?case using D(2) by blast
  next
    case (3 g) then show ?case using D(3) [of g] by (auto split: if_splits)
  next
    case (4 p) then show ?case using D(4) [of p] by auto
  next
    case (5 g k') then show ?case using D(5) [of g k'] by auto
  next
    case (6 g) then show ?case using D(6) [of g] by (auto split: if_splits)
  next
    case (7 g) then show ?case using D(7) [of g] by (auto split: if_splits)
  next
    case (8 g) then show ?case using D(8) [of g] by (auto split: if_splits)
  next
    case (9 g) then show ?case using D(9) [of g] by (auto split: if_splits)
  qed
qed

lemma inv_abandon:
  assumes inv: "flight_inv reg hp nx (add_mset (Waiting k f) cs) ru cl" and f: "\<not> fl_finished (hp f)"
    and rest: "count_on f cs = 0"
  shows "reg k = Some f"
    and "flight_inv (reg(k := None)) (hp(f := (hp f)\<lparr>fl_waiters := fl_waiters (hp f) - 1, fl_abandoned := True,
      fl_cancelled := True\<rparr>)) nx cs ru cl"
proof -
  note D = flight_invD [OF inv]
  show r: "reg k = Some f" using D(4) [of "Waiting k f"] f by simp
  have none: "p \<in># cs \<Longrightarrow> phase_flight p \<noteq> f" for p using count_0 [OF rest] .
  have reg: "(reg(k := None)) k' = Some g \<Longrightarrow> reg k' = Some g \<and> g \<noteq> f" for k' g
    using D(2) [OF r] by (auto split: if_splits)
  have re: "ru f \<noteq> None" using D(3) [of f] f D(1) [OF r] count_re_le [of f cs] rest by auto
  show "flight_inv (reg(k := None)) (hp(f := (hp f)\<lparr>fl_waiters := fl_waiters (hp f) - 1, fl_abandoned := True,
      fl_cancelled := True\<rparr>)) nx cs ru cl"
  proof (rule flight_invI, goal_cases)
    case (1 k' g) from reg [OF 1] D(1) [of k' g] show ?case by auto
  next
    case (2 k1 k2 g) then show ?case using D(2) [of k1 g k2] reg by blast
  next
    case (3 g) then show ?case using D(3) [of g] re by (auto split: if_splits)
  next
    case (4 p) then show ?case using D(4) [of p] none [of p] r by auto
  next
    case (5 g k') then show ?case using D(5) [of g k'] by (auto split: if_splits)
  next
    case (6 g) then show ?case using D(6) [of g] by (auto split: if_splits)
  next
    case (7 g) then show ?case using D(7) [of g] by (auto split: if_splits)
  next
    case (8 g) then show ?case using D(8) [of g] by (auto split: if_splits)
  next
    case (9 g) then show ?case using D(9) [of g] by (auto split: if_splits)
  qed
qed

lemma system_ok_callers:
  assumes "system_ok s" "callers s = add_mset (i, p) cs"
  shows "flight_inv (registered (shared s)) (heap (shared s)) (next_flight (shared s))
    (add_mset p (image_mset snd cs)) (running s) (closing s)"
  using assms by (simp add: system_ok_def)

lemma finish_shape:
  "registered (finishFlight store k f r e s) =
     (if registered s k = Some f then (registered s)(k := None) else registered s)"
  "heap (finishFlight store k f r e s) = (heap s)(f := (heap s f)\<lparr>fl_result := Some r, fl_finished := True\<rparr>)"
  "next_flight (finishFlight store k f r e s) = next_flight s"
  by (simp_all add: finishFlight_def Let_def)

lemma step_ok:
  assumes "flight_step cached store run s t" "system_ok s"
  shows "system_ok t"
  using assms
proof (cases rule: flight_step.cases)
  case (join k f sh)
  then have "registered (shared s) k = Some f"
    "sh = (shared s)\<lparr>heap := (heap (shared s))(f := (heap (shared s) f)\<lparr>fl_waiters := fl_waiters (heap (shared s) f) + 1\<rparr>)\<rparr>"
    by (auto simp: joinFlight_def split: option.splits)
  with join assms(2) inv_join [OF assms(2) [unfolded system_ok_def]] show ?thesis by (simp add: system_ok_def)
next
  case (start k f sh)
  then have "registered (shared s) k = None" "f = next_flight (shared s)"
    "sh = (shared s)\<lparr>registered := (registered (shared s))(k \<mapsto> next_flight (shared s)),
      heap := (heap (shared s))(next_flight (shared s) := fresh_flight), next_flight := next_flight (shared s) + 1\<rparr>"
    by (auto simp: joinFlight_def split: option.splits)
  with start assms(2) inv_start [OF assms(2) [unfolded system_ok_def]] show ?thesis by (simp add: system_ok_def)
next
  case (warmed i k f cs ob r)
  note inv = system_ok_callers [OF assms(2) warmed(2)]
  note D = flight_invD [OF inv]
  have f: "f < next_flight (shared s)" "\<not> fl_finished (heap (shared s) f)" "registered (shared s) k = Some f"
      "count_re f (image_mset snd cs) = 0" "running s f = None"
    using D(4) [of "Rechecking k f"] D(6) [of f] D(3) [of f] D(5) [of f]
    by (auto split: if_splits) (cases "running s f"; auto)+
  have "(running s)(f := None) = running s" using f(5) by (simp add: fun_upd_idem)
  moreover have "\<And>k'. registered (shared s) k' = Some f \<Longrightarrow> k' = k" using D(2) [OF f(3)] by blast
  moreover have "set_mset (image_mset snd cs) \<subseteq> set_mset (add_mset (Rechecking k f) (image_mset snd cs))" by auto
  ultimately show ?thesis
    using inv_finish [OF inv f(1,2) _ _ f(4), where k = k and r = r] by (simp add: warmed(1) system_ok_def finish_shape)
next
  case (launch i k f cs ob)
  with inv_launch system_ok_callers [OF assms(2) launch(2)] show ?thesis by (simp add: system_ok_def)
next
  case (finish f k ob r entry)
  note inv = assms(2) [unfolded system_ok_def]
  note D = flight_invD [OF inv]
  from D(5) [OF finish(2)] inv_finish [OF inv, of f k "image_mset snd (callers s)" r] show ?thesis
    by (simp add: finish(1) system_ok_def finish_shape)
next
  case (close f)
  with inv_close [OF assms(2) [unfolded system_ok_def] close(2)] show ?thesis
    by (simp add: system_ok_def closeFlight_def)
next
  case (wake i k f cs)
  note inv = system_ok_callers [OF assms(2) wake(2)]
  have "fl_finished (heap (shared s) f)" using flight_invD(7) [OF inv, of f] wake(3) by simp
  from inv_forget [OF inv this, of "fl_waiters (heap (shared s) f)"] show ?thesis
    by (simp add: wake(1) system_ok_def)
next
  case (leave i k f cs)
  note inv = system_ok_callers [OF assms(2) leave(2)]
  show ?thesis
  proof (cases "fl_finished (heap (shared s) f)")
    case True
    with inv_forget [OF inv True] show ?thesis by (simp add: leave(1) system_ok_def dropWaiter_def Let_def)
  next
    case False
    have "f < next_flight (shared s)" using flight_invD(4) [OF inv, of "Waiting k f"] by simp
    with flight_invD(3) [OF inv False] have w: "fl_waiters (heap (shared s) f) = int (Suc (count_on f (image_mset snd cs)))" by simp
    show ?thesis
    proof (cases "count_on f (image_mset snd cs) = 0")
      case True
      with inv_abandon [OF inv False True] False w show ?thesis
        by (simp add: leave(1) system_ok_def dropWaiter_def Let_def)
    next
      case c: False
      with inv_leave [OF inv False] False w show ?thesis
        by (simp add: leave(1) system_ok_def dropWaiter_def Let_def)
    qed
  qed
qed (simp_all add: system_ok_def)

lemma reach_ok: "flight_reach cached store run s t \<Longrightarrow> system_ok s \<Longrightarrow> system_ok t"
  by (induction rule: flight_reach.induct) (auto dest: step_ok)

lemma reach_trans:
  assumes "flight_reach cached store run t u" "flight_reach cached store run s t"
  shows "flight_reach cached store run s u"
  using assms by (induction rule: flight_reach.induct) (auto intro: flight_reach.intros)

text \<open>Every number given out is held by one caller that has no answer yet, or has the one answer.\<close>

definition issued :: "('k, 'r, 'c) system \<Rightarrow> nat multiset" where
  "issued s = image_mset fst (callers s) + mset (map fst (answers s))"

lemma step_issued:
  assumes "flight_step cached store run s t" "issued s = mset [0..<next_caller s]"
  shows "issued t = mset [0..<next_caller t]"
  using assms by (cases rule: flight_step.cases) (auto simp: issued_def)

lemma reach_issued:
  "flight_reach cached store run s t \<Longrightarrow> issued s = mset [0..<next_caller s] \<Longrightarrow> issued t = mset [0..<next_caller t]"
  by (induction rule: flight_reach.induct) (auto dest: step_issued)

lemma waiting_unanswered:
  assumes "flight_reach cached store run (start_system c) s" "(i, p) \<in># callers s"
  shows "i \<notin> fst ` set (answers s)"
proof
  assume "i \<in> fst ` set (answers s)"
  then have "i \<in># mset (map fst (answers s))" by auto
  moreover have "i \<in># image_mset fst (callers s)" using assms(2) by force
  ultimately have "1 \<le> count (image_mset fst (callers s)) i" "1 \<le> count (mset (map fst (answers s))) i"
    by (simp_all only: count_greater_eq_one_iff)
  then have "2 \<le> count (issued s) i" unfolding issued_def count_union by linarith
  moreover have "issued s = mset [0..<next_caller s]"
    using reach_issued [OF assms(1)] by (simp add: issued_def start_system_def)
  ultimately show False using distinct_count_atmost_1 [of "[0..<next_caller s]"] by (auto split: if_splits)
qed

text \<open>
  From a finished flight, its waiter is served in at most two steps. \<open>served\<close> says that a state
  is reached where this caller has what its flight published.
\<close>

definition served ::
  "('o \<Rightarrow> 'c \<Rightarrow> 'k \<Rightarrow> 'r option) \<Rightarrow> ('o \<Rightarrow> 'k \<Rightarrow> 'e \<Rightarrow> 'c \<Rightarrow> 'c) \<Rightarrow> ('o \<Rightarrow> 'k \<Rightarrow> 'r \<times> 'e option)
   \<Rightarrow> nat \<Rightarrow> 'k \<Rightarrow> nat \<Rightarrow> ('k, 'r, 'c) system \<Rightarrow> bool" where
  "served cached store run i k f s \<longleftrightarrow>
     (\<exists>t r. flight_reach cached store run s t \<and> (i, k, Some r) \<in> set (answers t) \<and>
        fl_result (heap (shared t) f) = Some r)"

lemma served_step:
  assumes "flight_step cached store run s t" "served cached store run i k f t"
  shows "served cached store run i k f s"
proof -
  have "flight_reach cached store run s t" using assms(1) by (auto intro: flight_reach.intros)
  with assms(2) reach_trans show ?thesis unfolding served_def by blast
qed

lemma served_done:
  assumes cs: "callers s = add_mset (i, Waiting k f) cs" and d: "fl_done (heap (shared s) f)"
    and r: "fl_result (heap (shared s) f) \<noteq> None"
  shows "served cached store run i k f s"
proof (rule served_step [OF wake [OF cs d]])
  from r show "served cached store run i k f (s\<lparr>callers := cs, answers := (i, k, fl_result (heap (shared s) f)) # answers s\<rparr>)"
    unfolding served_def by (auto intro!: exI flight_reach.here)
qed

lemma served_after_finish:
  assumes "system_ok s" "(i, Waiting k f) \<in># callers s" "fl_finished (heap (shared s) f)"
  shows "served cached store run i k f s"
proof -
  obtain cs where cs: "callers s = add_mset (i, Waiting k f) cs" using assms(2) by (metis multi_member_split)
  note D = flight_invD [OF assms(1) [unfolded system_ok_def]]
  have r: "fl_result (heap (shared s) f) \<noteq> None" using D(6) [OF assms(3)] by simp
  show ?thesis
  proof (cases "fl_done (heap (shared s) f)")
    case False
    with D(6) [OF assms(3)] have "f \<in> closing s" by simp
    then show ?thesis by (rule served_step [OF close]) (rule served_done, use cs r in \<open>simp_all add: closeFlight_def\<close>)
  qed (rule served_done [OF cs _ r])
qed

lemma served_running:
  assumes "system_ok s" "(i, Waiting k f) \<in># callers s" "running s f \<noteq> None"
  shows "served cached store run i k f s"
proof -
  obtain k' where k: "running s f = Some k'" using assms(3) by auto
  fix ob
  obtain r e where o: "run ob k' = (r, e)" by (metis surj_pair)
  note st = finish [where cached = cached and store = store and run = run and ob = ob, OF k o]
  show ?thesis
    by (rule served_step [OF st], rule served_after_finish [OF step_ok [OF st assms(1)]])
      (use assms(2) in \<open>simp_all add: finish_shape\<close>)
qed

lemma waiter_can_be_served:
  assumes "system_ok s" "(i, Waiting k f) \<in># callers s"
  shows "served cached store run i k f s"
proof (cases "fl_finished (heap (shared s) f) \<or> running s f \<noteq> None")
  case True
  with served_after_finish [OF assms] served_running [OF assms] show ?thesis by blast
next
  case False
  note D = flight_invD [OF assms(1) [unfolded system_ok_def]]
  have "Waiting k f \<in># image_mset snd (callers s)" using assms(2) by force
  from D(4) [OF this] have "count_re f (image_mset snd (callers s)) = 1" using D(3) [of f] False by simp
  then obtain k' where "Rechecking k' f \<in># image_mset snd (callers s)"
    by (metis count_re_none One_nat_def zero_neq_one)
  then obtain j where "(j, Rechecking k' f) \<in># callers s" by auto
  then obtain cs where cs: "callers s = add_mset (j, Rechecking k' f) cs" by (metis multi_member_split)
  with assms(2) have w: "(i, Waiting k f) \<in># cs" by auto
  fix ob
  show ?thesis
  proof (cases "cached ob (cache (shared s)) k'")
    case None
    note st = launch [where cached = cached and store = store and run = run and ob = ob, OF cs None]
    show ?thesis
      by (rule served_step [OF st], rule served_running [OF step_ok [OF st assms(1)]]) (use w in simp_all)
  next
    case (Some r0)
    note st = warmed [where cached = cached and store = store and run = run and ob = ob, OF cs Some]
    show ?thesis
      by (rule served_step [OF st], rule served_after_finish [OF step_ok [OF st assms(1)]])
        (use w in \<open>simp_all add: finish_shape\<close>)
  qed
qed

section \<open>The caches\<close>

lemma reach_cache:
  assumes "flight_reach cached store run s t" "P (cache (shared s))"
    and store: "\<And>ob k e c. P c \<Longrightarrow> Q e \<Longrightarrow> P (store ob k e c)"
    and run: "\<And>ob k r e. run ob k = (r, Some e) \<Longrightarrow> Q e"
  shows "P (cache (shared t))"
  using assms(1,2)
proof (induction rule: flight_reach.induct)
  case (more s t u)
  then have t: "P (cache (shared t))" by simp
  have fin: "P (cache (finishFlight (store ob) k f r e (shared t)))" if "e = None \<or> (\<exists>e'. e = Some e' \<and> Q e')" for ob k f r e
    using t store that by (auto simp: finishFlight_def Let_def)
  from more(2) show ?case
  proof (cases rule: flight_step.cases)
    case (finish f k ob r entry)
    with run show ?thesis by (cases entry) (simp_all add: fin)
  qed (use t fin in \<open>auto simp: joinFlight_def dropWaiter_def closeFlight_def Let_def split: option.splits\<close>)
qed

section \<open>The two instances\<close>

text \<open>
  The clock, the map orders, the TXT answers and what \<^verbatim>\<open>lookupName\<close> returned, each as a function
  of the outside a step meets.
\<close>

definition ip_cached :: "('o \<Rightarrow> int) \<Rightarrow> 'o \<Rightarrow> ip_cache \<Rightarrow> addr \<Rightarrow> (asn_error + Result) option" where
  "ip_cached now ob c ip = map_option cr_result (asn_cachedResult (now ob) c ip)"

definition ip_store ::
  "('o \<Rightarrow> int) \<Rightarrow> ('o \<Rightarrow> ip_cache \<Rightarrow> ip_cache) \<Rightarrow> 'o \<Rightarrow> addr \<Rightarrow> cachedResult \<Rightarrow> ip_cache \<Rightarrow> ip_cache" where
  "ip_store now order ob ip e c = asn_storeCache (order ob) (now ob) ip e c"

definition ip_run ::
  "(string \<Rightarrow> string) \<Rightarrow> int \<Rightarrow> ('o \<Rightarrow> int) \<Rightarrow> ('o \<Rightarrow> string \<Rightarrow> cause + string list)
   \<Rightarrow> ('o \<Rightarrow> nat \<Rightarrow> int option \<times> (cause + string)) \<Rightarrow> 'o \<Rightarrow> addr \<Rightarrow> (asn_error + Result) \<times> cachedResult option" where
  "ip_run upper ttl now txt names ob ip =
     runIPFlight ttl (now ob) (asn_lookup upper (txt ob) (names ob) ip)"

definition name_cached :: "('o \<Rightarrow> int) \<Rightarrow> 'o \<Rightarrow> name_cache \<Rightarrow> nat \<Rightarrow> (int option \<times> (cause + string)) option" where
  "name_cached now ob c asn =
     map_option (\<lambda>e. (Some (cn_expiresAt e), cn_name e)) (asn_cachedName (now ob) c asn)"

definition name_store ::
  "('o \<Rightarrow> int) \<Rightarrow> ('o \<Rightarrow> name_cache \<Rightarrow> name_cache) \<Rightarrow> 'o \<Rightarrow> nat \<Rightarrow> cachedName \<Rightarrow> name_cache \<Rightarrow> name_cache" where
  "name_store now order ob asn e c = asn_storeName (order ob) (now ob) asn e c"

definition name_run ::
  "int \<Rightarrow> ('o \<Rightarrow> int) \<Rightarrow> ('o \<Rightarrow> string \<Rightarrow> cause + string list) \<Rightarrow> 'o \<Rightarrow> nat
   \<Rightarrow> (int option \<times> (cause + string)) \<times> cachedName option" where
  "name_run ttl now txt ob asn = runNameFlight ttl (now ob) (queryName (txt ob) asn)"

definition never_cancelled :: "cachedResult \<Rightarrow> bool" where
  "never_cancelled e \<longleftrightarrow> (case cr_result e of Inl err \<Rightarrow> \<not> is_Canceled err | Inr _ \<Rightarrow> True)"

lemma ip_run_entry: "ip_run upper ttl now txt names ob k = (r, Some e) \<Longrightarrow> never_cancelled e"
  by (auto simp: ip_run_def runIPFlight_def never_cancelled_def split: prod.splits sum.splits if_splits)

lemma storeCache_entries:
  assumes "rearranges order" "cache_ok c" "p \<in> set (asn_storeCache order now k e c)"
  shows "p \<in> set c \<or> p = (k, e)"
proof -
  have d: "distinct (map fst (asn_storeCache order now k e c))"
    using asn_ips.insert_ok [OF assms(1,2)] by (simp add: cache_ok_def)
  have m: "map_of (asn_storeCache order now k e c) (fst p) = Some (snd p)" using d assms(3) by simp
  show ?thesis
  proof (cases "fst p = k")
    case True
    with m asn_ips.insert_lookup [of order now k e c] have "snd p = e" by simp
    with True show ?thesis by (cases p) simp
  next
    case False
    from asn_ips.insert_keeps [OF assms(1) False m] assms(2) have "map_of c (fst p) = Some (snd p)"
      by (simp add: cache_ok_def)
    then show ?thesis by (metis map_of_SomeD prod.collapse)
  qed
qed

lemma ip_cache_good:
  assumes "\<And>ob. rearranges (order ob)"
    and "flight_reach (ip_cached now) (ip_store now order) (ip_run upper ttl now txt names) (start_system []) s"
  shows "cache_ok (cache (shared s)) \<and> (\<forall>e \<in> snd ` set (cache (shared s)). never_cancelled e)"
proof (rule reach_cache [OF assms(2), where Q = never_cancelled and
      P = "\<lambda>c. cache_ok c \<and> (\<forall>e \<in> snd ` set c. never_cancelled e)"])
  show "cache_ok (cache (shared (start_system []))) \<and>
      (\<forall>e \<in> snd ` set (cache (shared (start_system []))). never_cancelled e)"
    by (simp add: start_system_def cache_ok_def)
next
  fix ob k e and c :: ip_cache
  assume c: "cache_ok c \<and> (\<forall>e \<in> snd ` set c. never_cancelled e)" and e: "never_cancelled e"
  have "cache_ok (ip_store now order ob k e c)"
    using asn_ips.insert_ok [OF assms(1)] c by (simp add: ip_store_def)
  moreover have "\<forall>p \<in> set (ip_store now order ob k e c). never_cancelled (snd p)"
    using storeCache_entries [OF assms(1), of c _ ob] c e unfolding ip_store_def by fastforce
  ultimately show "cache_ok (ip_store now order ob k e c) \<and>
      (\<forall>e \<in> snd ` set (ip_store now order ob k e c). never_cancelled e)" by (simp add: ball_simps)
qed (rule ip_run_entry)

lemma reached_ok: "flight_reach cached store run (start_system c) s \<Longrightarrow> system_ok s"
  by (rule reach_ok [OF _ start_ok])

section \<open>Properties\<close>

text \<open>
  C31: coalescing never fails a caller on another's account. Whatever callers and lookups have
  done, in any order, a caller that waits has had no answer, and either waits on a finished flight,
  whose answer is published, or on the registered flight of its own key, neither cancelled nor
  abandoned, whose waiter count is the number of callers on it; and from every such state the
  system can go on so that this very caller is answered, with the result its flight publishes.
\<close>

theorem waiter_is_served:
  assumes "flight_reach cached store run (start_system c) s" and "(i, Waiting k f) \<in># callers s"
  shows "(if fl_finished (heap (shared s) f) then fl_result (heap (shared s) f) \<noteq> None
          else registered (shared s) k = Some f \<and> \<not> fl_cancelled (heap (shared s) f) \<and>
            \<not> fl_abandoned (heap (shared s) f) \<and>
            fl_waiters (heap (shared s) f) = int (size (filter_mset (\<lambda>p. on_flight f (snd p)) (callers s)))) \<and>
         i \<notin> fst ` set (answers s) \<and>
         (\<exists>t r. flight_reach cached store run s t \<and> (i, k, Some r) \<in> set (answers t) \<and>
            fl_result (heap (shared t) f) = Some r)"
proof -
  note ok = reached_ok [OF assms(1)]
  note D = flight_invD [OF ok [unfolded system_ok_def]]
  have "Waiting k f \<in># image_mset snd (callers s)" using assms(2) by force
  from D(4) [OF this]
  have "\<not> fl_finished (heap (shared s) f) \<Longrightarrow> registered (shared s) k = Some f \<and> f < next_flight (shared s)" by simp
  then have "\<not> fl_finished (heap (shared s) f) \<Longrightarrow> registered (shared s) k = Some f \<and> \<not> fl_cancelled (heap (shared s) f) \<and>
            \<not> fl_abandoned (heap (shared s) f) \<and>
            fl_waiters (heap (shared s) f) = int (count_on f (image_mset snd (callers s)))"
    using D(1) [of k f] D(3) [of f] D(8) [of f] by blast
  with D(6) [of f] waiter_can_be_served [OF ok assms(2), of cached store run] waiting_unanswered [OF assms]
  show ?thesis by (simp add: count_on_def served_def filter_mset_image_mset)
qed

text \<open>
  work nobody waits for any more is not published. When the goroutine of an abandoned flight
  comes back, whatever it found, neither the cache nor the registration of its key changes - a
  newer flight of the same key keeps both.
\<close>

theorem abandoned_flight_commits_nothing:
  assumes "flight_reach cached store run (start_system c) s"
    and "running s f = Some k" and "fl_abandoned (heap (shared s) f)"
  shows "cache (finishFlight (store ob) k f r entry (shared s)) = cache (shared s) \<and>
         registered (finishFlight (store ob) k f r entry (shared s)) = registered (shared s)"
  using flight_invD(1) [OF reached_ok [OF assms(1), unfolded system_ok_def], of k f] assms(3)
  by (auto simp: finishFlight_def Let_def)

text \<open>
  the ASN cache stays bounded and holds no cancellation. In every state the resolver
  reaches it has at most 16,384 addresses, each once, and no entry is the error of a cancelled
  lookup, which says nothing about Cymru.
\<close>

theorem asn_cache_sound:
  assumes "\<And>ob. rearranges (order ob)"
    and "flight_reach (ip_cached now) (ip_store now order) (ip_run upper ttl now txt names) (start_system []) s"
  shows "distinct (map fst (cache (shared s))) \<and> length (cache (shared s)) \<le> 16384 \<and>
    list_all (\<lambda>p. case cr_result (snd p) of Inl e \<Rightarrow> \<not> is_Canceled e | Inr r \<Rightarrow> True) (cache (shared s))"
  using ip_cache_good [OF assms]
  by (auto simp: cache_ok_def maxCacheEntries_def never_cancelled_def list_all_iff)

section \<open>A run\<close>

text \<open>One caller of \<open>1.2.3.4\<close> whose flight is launched; then it leaves; a lookup that answers.\<close>

abbreviation sample_txt :: "nat \<Rightarrow> string \<Rightarrow> cause + string list" where
  "sample_txt \<equiv> (\<lambda>_ _. Inl OtherCause)"

abbreviation sample_reach :: "(addr, asn_error + Result, ip_cache) system \<Rightarrow> (addr, asn_error + Result, ip_cache) system \<Rightarrow> bool" where
  "sample_reach \<equiv> flight_reach (ip_cached (\<lambda>ob. int ob)) (ip_store (\<lambda>ob. int ob) (\<lambda>_. rev))
     (ip_run id 60 (\<lambda>ob. int ob) sample_txt (\<lambda>_ _. (None, Inl Canceled)))"

lemma sample_waiting:
  "\<exists>s. sample_reach (start_system []) s \<and> callers s = {#(0, Waiting (V4 0x01020304) 0)#} \<and>
     running s 0 = Some (V4 0x01020304) \<and> cache (shared s) = []"
proof -
  let ?ip = "V4 0x01020304" and ?s0 = "start_system [] :: (addr, asn_error + Result, ip_cache) system"
  obtain sh where j: "joinFlight ?ip (shared ?s0) = (0, True, sh)" "cache sh = []"
    by (simp add: joinFlight_def start_system_def)
  let ?s1 = "?s0\<lparr>shared := sh, next_caller := next_caller ?s0 + 1,
     callers := add_mset (next_caller ?s0, Rechecking ?ip 0) (callers ?s0)\<rparr>"
  have r1: "sample_reach ?s0 ?s1" by (rule more [OF here]) (rule start [OF j(1)])
  let ?s2 = "?s1\<lparr>callers := add_mset (0, Waiting ?ip 0) {#}, running := (running ?s1)(0 \<mapsto> ?ip)\<rparr>"
  have "sample_reach ?s0 ?s2"
    by (rule more [OF r1], rule launch [where ob = 0])
      (simp_all add: start_system_def ip_cached_def asn_cachedResult_def j(2))
  then show ?thesis using j(2) by (intro exI [where x = ?s2]) simp
qed

theorem waiter_is_served_witness:
  "\<exists>s. callers s = {#(0, Waiting (V4 0x01020304) 0)#} \<and> (\<exists>t r. sample_reach s t \<and> (0, V4 0x01020304, Some r) \<in> set (answers t))"
proof -
  obtain s where s: "sample_reach (start_system []) s" "callers s = {#(0, Waiting (V4 0x01020304) 0)#}"
    using sample_waiting by blast
  have "(0, Waiting (V4 0x01020304) 0) \<in># callers s" using s(2) by simp
  from waiter_is_served [OF s(1) this] s(2) show ?thesis by blast
qed

theorem asn_cache_sound_witness:
  "\<exists>s. sample_reach (start_system []) s \<and> running s 0 = Some (V4 0x01020304) \<and> distinct (map fst (cache (shared s)))"
proof -
  obtain s where s: "sample_reach (start_system []) s" "running s 0 = Some (V4 0x01020304)"
    using sample_waiting by blast
  have "rearranges rev" by (simp add: rearranges_def)
  from asn_cache_sound [OF this s(1)] s show ?thesis by blast
qed

theorem abandoned_flight_commits_nothing_witness:
  "\<exists>s. sample_reach (start_system []) s \<and> fl_abandoned (heap (shared s) 0) \<and>
     cache (finishFlight (ip_store (\<lambda>ob. int ob) (\<lambda>_. rev) 9) (V4 0x01020304) 0 (Inr zero_result)
       (Some \<lparr>cr_result = Inr zero_result, cr_expiresAt = 99\<rparr>) (shared s)) = []"
proof -
  obtain s where s: "sample_reach (start_system []) s" "callers s = {#(0, Waiting (V4 0x01020304) 0)#}"
      "running s 0 = Some (V4 0x01020304)" "cache (shared s) = []"
    using sample_waiting by blast
  note D = flight_invD [OF reached_ok [OF s(1), unfolded system_ok_def]]
  have f: "\<not> fl_finished (heap (shared s) 0)" "fl_waiters (heap (shared s) 0) = 1"
    using D(5) [OF s(3)] D(3) [of 0] s(2) by simp_all
  let ?t = "s\<lparr>shared := dropWaiter (V4 0x01020304) 0 (shared s), callers := {#},
     answers := (0, V4 0x01020304, None) # answers s\<rparr>"
  have t: "sample_reach (start_system []) ?t" by (rule more [OF s(1)], rule leave) (simp add: s(2))
  have a: "fl_abandoned (heap (shared ?t) 0)" using f by (simp add: dropWaiter_def Let_def)
  have r: "running ?t 0 = Some (V4 0x01020304)" using s(3) by simp
  have "cache (shared ?t) = []" using s(4) by (simp add: dropWaiter_def Let_def)
  with abandoned_flight_commits_nothing [OF t r a] a t show ?thesis by metis
qed

end
