(* ===== verification/Merge.thy ===== *)
theory Merge
  imports PipelineLaws Trim
begin

text \<open>
  \<^verbatim>\<open>internal/stable/merge.go\<close> and \<^verbatim>\<open>label.go\<close>: the survivors of every source merged into one list,
  each endpoint once, each node renamed to its source and number. Capacities, the arena and the
  hint of the dedupe map are modelled next to the entries; a grown slice or map takes the least
  capacity it may. \<open>lower\<close> is \<^verbatim>\<open>strings.ToLower\<close> of a server with non-ASCII bytes.
\<close>

record SourceBody =
  sb_Name :: string
  sb_Nodes :: "NodeResult list"

record Entry =
  en_Label :: string
  en_Raw :: string
  en_Addr :: string
  en_IP :: addr
  en_Country :: string

section \<open>The key arena\<close>

record keyArena =
  ka_buf :: string
  ka_cap :: nat

definition keyArenaBlock :: nat where
  "keyArenaBlock = 1024"

definition key_intern :: "keyArena \<Rightarrow> string \<Rightarrow> string \<times> keyArena" where
  "key_intern a key =
     (let a1 = (if length key > ka_cap a - length (ka_buf a)
                then \<lparr>ka_buf = [], ka_cap = max keyArenaBlock (length key)\<rparr> else a);
          start = length (ka_buf a1);
          a2 = a1\<lparr>ka_buf := ka_buf a1 @ key\<rparr>
      in (UnsafeString (drop start (ka_buf a2)), a2))"

section \<open>Keys and labels\<close>

definition parseOne :: "string \<Rightarrow> Node option" where
  "parseOne line = fst (Subscription.Parse line (\<lambda>st n. (Some n, False)) None)"

definition lowerServerPort :: "(string \<Rightarrow> string) \<Rightarrow> string \<Rightarrow> string \<Rightarrow> string" where
  "lowerServerPort lower server port =
     (if list_ex (\<lambda>c. byte c \<ge> 128) server then lower server else map lower_byte server) @ '':'' @ port"

fun digit_count :: "nat \<Rightarrow> nat" where
  "digit_count n = (if 10 \<le> n then Suc (digit_count (n div 10)) else 1)"

declare digit_count.simps [simp del]

definition appendPad3 :: "string \<Rightarrow> nat \<Rightarrow> string" where
  "appendPad3 b v = b @ replicate (3 - digit_count v) CHR ''0'' @ itoa v"

text \<open>The renamed line, its label and whether the scheme could carry it.\<close>

definition relabelNode :: "Node \<Rightarrow> string \<Rightarrow> keyArena \<Rightarrow> (string \<times> string) option \<times> keyArena" where
  "relabelNode n label keys =
     (if Scheme n = ''vmess'' then
        (let (lbl, keys') = key_intern keys label
         in (case RewriteVmessName (Raw n) lbl of
               Done raw \<Rightarrow> Some (raw, lbl)
             | _ \<Rightarrow> map_option (\<lambda>raw. (raw, lbl)) (RewriteVmessAEADName (Raw n) lbl), keys'))
      else if Scheme n = ''ssr'' then
        (let (lbl, keys') = key_intern keys label
         in (map_option (\<lambda>raw. (raw, lbl)) (RewriteSSRName (Raw n) lbl), keys'))
      else
        (let uri = (case FragmentIdx n of Some i \<Rightarrow> take i (Raw n) | None \<Rightarrow> Raw n);
             raw = UnsafeString (uri @ ''#'' @ label)
         in (Some (raw, drop (length raw - length label) raw), keys)))"

section \<open>Growth\<close>

definition mergeReserveBudget :: nat where
  "mergeReserveBudget = 4096"

text \<open>The entry slice enters with its length and capacity.\<close>

definition mergeGrowTarget :: "nat \<Rightarrow> nat \<Rightarrow> nat \<Rightarrow> nat \<Rightarrow> nat \<Rightarrow> nat \<Rightarrow> nat \<Rightarrow> nat" where
  "mergeGrowTarget len cap tot processed novel prevNodes srcNodes =
     (if len \<noteq> cap \<or> len \<ge> tot then 0
      else let want = len + srcNodes;
               want' = (if prevNodes > 0 \<and> processed > prevNodes
                        then max want (len + (tot - processed) * novel div prevNodes) else want)
           in min want' tot)"

record merge_state =
  ms_entries :: "Entry list"
  ms_cap :: nat
  ms_seen :: "string list"
  ms_seenHint :: nat
  ms_keys :: keyArena

definition growForMerge :: "merge_state \<Rightarrow> nat \<Rightarrow> merge_state" where
  "growForMerge s want =
     (if want \<le> length (ms_entries s) then s
      else let s1 = s\<lparr>ms_cap := max (ms_cap s) want\<rparr>
           in if want > ms_seenHint s1
              then s1\<lparr>ms_seen := foldl (\<lambda>grown k. List.insert k grown) [] (ms_seen s1), ms_seenHint := want\<rparr>
              else s1)"

section \<open>The merge\<close>

text \<open>One node: \<open>k\<close> counts the entries its source has kept, \<open>g\<close> is what growth is computed from.\<close>

definition merge_node ::
  "(string \<Rightarrow> string) \<Rightarrow> (nat \<Rightarrow> nat \<Rightarrow> nat) \<Rightarrow> string \<Rightarrow> nat \<times> merge_state \<Rightarrow> NodeResult \<Rightarrow> nat \<times> merge_state" where
  "merge_node lower g name = (\<lambda>(kept, s) node.
     (case parseOne (nr_Raw node) of
        None \<Rightarrow> (kept, s)
      | Some n \<Rightarrow>
          (if PlaceholderNode (Raw n) (Server n) then (kept, s)
           else let scratch = lowerServerPort lower (Server n) (Port n)
                in if scratch \<in> set (ms_seen s) then (kept, s)
                   else let (relabeled, keys) = relabelNode n (appendPad3 (name @ ''-'') (kept + 1)) (ms_keys s);
                            s1 = s\<lparr>ms_keys := keys\<rparr>
                        in case relabeled of
                             None \<Rightarrow> (kept, s1)
                           | Some (raw, label) \<Rightarrow>
                               (let want = g (length (ms_entries s1)) (ms_cap s1);
                                    s2 = (if want > 0 then growForMerge s1 want else s1);
                                    (key, keys') = key_intern (ms_keys s2) scratch;
                                    entries = ms_entries s2 @
                                      [\<lparr>en_Label = label, en_Raw = raw, en_Addr = key, en_IP = nr_IP node, en_Country = []\<rparr>]
                                in (kept + 1, s2\<lparr>ms_seen := List.insert key (ms_seen s2), ms_entries := entries,
                                      ms_cap := max (ms_cap s2) (length entries), ms_keys := keys'\<rparr>)))))"

fun merge_sources ::
  "(string \<Rightarrow> string) \<Rightarrow> nat \<Rightarrow> nat \<Rightarrow> nat \<Rightarrow> nat \<Rightarrow> merge_state \<Rightarrow> SourceBody list \<Rightarrow> merge_state" where
  "merge_sources lower tot processed novel prevNodes s [] = s"
| "merge_sources lower tot processed novel prevNodes s (src # srcs) =
     (let before = length (ms_entries s);
          g = (\<lambda>len cap. mergeGrowTarget len cap tot processed novel prevNodes (length (sb_Nodes src)));
          (_, s') = foldl (merge_node lower g (sb_Name src)) (0, s) (sb_Nodes src)
      in merge_sources lower tot (processed + length (sb_Nodes src)) (length (ms_entries s') - before)
           (length (sb_Nodes src)) s' srcs)"

definition Merge :: "(string \<Rightarrow> string) \<Rightarrow> SourceBody list \<Rightarrow> Entry list" where
  "Merge lower bodies =
     (let sizes = map (\<lambda>src. length (sb_Nodes src)) bodies;
          tot = sum_list sizes;
          largest = foldl max 0 sizes;
          hint = (if tot \<le> mergeReserveBudget then tot else largest)
      in ms_entries (merge_sources lower tot 0 0 0
           \<lparr>ms_entries = [], ms_cap = hint, ms_seen = [], ms_seenHint = hint,
            ms_keys = \<lparr>ka_buf = [], ka_cap = 0\<rparr>\<rparr> bodies))"

section \<open>Labels of proxies\<close>

definition foldMieruName :: "string \<Rightarrow> bool \<Rightarrow> string" where
  "foldMieruName name mieru =
     (if \<not> mieru then name
      else case last_index_byte CHR '':'' name of
        None \<Rightarrow> name
      | Some i \<Rightarrow> if i = 0 then name else take i name)"

definition mappingLabel :: "string \<Rightarrow> string \<Rightarrow> string" where
  "mappingLabel name typ = foldMieruName name (typ = ''mieru'')"

definition sourceOfLabel :: "string \<Rightarrow> string" where
  "sourceOfLabel label =
     (case last_index_byte CHR ''-'' label of
        None \<Rightarrow> label
      | Some i \<Rightarrow>
          (if i = 0 \<or> i = length label - 1 then label
           else if list_ex (\<lambda>c. \<not> is_digit c) (drop (i + 1) label) then label
           else take i label))"

section \<open>The reference merge\<close>

definition relabel_spec :: "Node \<Rightarrow> string \<Rightarrow> string option" where
  "relabel_spec n label =
     (if Scheme n = ''vmess'' then
        (case RewriteVmessName (Raw n) label of Done raw \<Rightarrow> Some raw | _ \<Rightarrow> RewriteVmessAEADName (Raw n) label)
      else if Scheme n = ''ssr'' then RewriteSSRName (Raw n) label
      else Some ((case FragmentIdx n of Some i \<Rightarrow> take i (Raw n) | None \<Rightarrow> Raw n) @ CHR ''#'' # label))"

definition node_label :: "string \<Rightarrow> nat \<Rightarrow> string" where
  "node_label name k = appendPad3 (name @ ''-'') k"

definition usable_node :: "NodeResult \<Rightarrow> Node option" where
  "usable_node node =
     (case parseOne (nr_Raw node) of
        None \<Rightarrow> None
      | Some n \<Rightarrow> if PlaceholderNode (Raw n) (Server n) then None else Some n)"

text \<open>A node is kept when it is usable, its endpoint is new and its line can carry the label.\<close>

definition ref_node :: "(string \<Rightarrow> string) \<Rightarrow> string \<Rightarrow> nat \<times> Entry list \<Rightarrow> NodeResult \<Rightarrow> nat \<times> Entry list" where
  "ref_node lower name = (\<lambda>(kept, es) node.
     (case usable_node node of
        None \<Rightarrow> (kept, es)
      | Some n \<Rightarrow>
          (let key = lowerServerPort lower (Server n) (Port n); label = node_label name (kept + 1)
           in if key \<in> en_Addr ` set es then (kept, es)
              else case relabel_spec n label of
                None \<Rightarrow> (kept, es)
              | Some raw \<Rightarrow> (kept + 1, es @
                  [\<lparr>en_Label = label, en_Raw = raw, en_Addr = key, en_IP = nr_IP node, en_Country = []\<rparr>]))))"

definition ref_source :: "(string \<Rightarrow> string) \<Rightarrow> Entry list \<Rightarrow> SourceBody \<Rightarrow> Entry list" where
  "ref_source lower es src = snd (foldl (ref_node lower (sb_Name src)) (0, es) (sb_Nodes src))"

definition merge_ref :: "(string \<Rightarrow> string) \<Rightarrow> SourceBody list \<Rightarrow> Entry list" where
  "merge_ref lower bodies = foldl (ref_source lower) [] bodies"

section \<open>The merge implements it\<close>

lemma key_intern_id: "fst (key_intern a key) = key"
  by (simp add: key_intern_def Let_def)

lemma relabelNode_spec: "fst (relabelNode n label keys) = map_option (\<lambda>raw. (raw, label)) (relabel_spec n label)"
proof -
  obtain lbl keys' where k: "key_intern keys label = (lbl, keys')" by (metis surj_pair)
  with key_intern_id [of keys label] have "lbl = label" by simp
  with k show ?thesis
    by (cases "RewriteVmessName (Raw n) label") (simp_all add: relabelNode_def relabel_spec_def Let_def)
qed

lemma foldl_insert_set: "set (foldl (\<lambda>g k. List.insert k g) acc xs) = set acc \<union> set xs"
  by (induction xs arbitrary: acc) auto

lemma grow_keeps:
  "ms_entries (growForMerge s want) = ms_entries s" "set (ms_seen (growForMerge s want)) = set (ms_seen s)"
  by (simp_all add: growForMerge_def Let_def foldl_insert_set)

definition merge_rel :: "merge_state \<Rightarrow> Entry list \<Rightarrow> bool" where
  "merge_rel s es \<longleftrightarrow> ms_entries s = es \<and> set (ms_seen s) = en_Addr ` set es"

lemma merge_node_refines:
  assumes "merge_rel s es" "merge_node lower g name (kept, s) node = (kept', s')"
  shows "\<exists>es'. ref_node lower name (kept, es) node = (kept', es') \<and> merge_rel s' es'"
proof (cases "usable_node node")
  case None
  with assms show ?thesis
    by (auto simp: merge_node_def ref_node_def usable_node_def split: option.splits if_splits)
next
  case (Some n)
  then have n: "parseOne (nr_Raw node) = Some n" "\<not> PlaceholderNode (Raw n) (Server n)"
    by (auto simp: usable_node_def split: option.splits if_splits)
  let ?key = "lowerServerPort lower (Server n) (Port n)"
  show ?thesis
  proof (cases "?key \<in> set (ms_seen s)")
    case True
    with n assms Some show ?thesis by (simp add: merge_node_def ref_node_def merge_rel_def)
  next
    case new: False
    obtain r keys where k: "relabelNode n (appendPad3 (name @ ''-'') (kept + 1)) (ms_keys s) = (r, keys)"
      by (metis surj_pair)
    with relabelNode_spec [of n "appendPad3 (name @ ''-'') (kept + 1)" "ms_keys s"]
    have r: "r = map_option (\<lambda>raw. (raw, node_label name (kept + 1))) (relabel_spec n (node_label name (kept + 1)))"
      by (simp add: node_label_def)
    show ?thesis
    proof (cases "relabel_spec n (node_label name (kept + 1))")
      case None
      with n new k r assms Some show ?thesis by (auto simp: merge_node_def ref_node_def merge_rel_def)
    next
      case (Some raw)
      define s1 where "s1 = s\<lparr>ms_keys := keys\<rparr>"
      define want where "want = g (length (ms_entries s1)) (ms_cap s1)"
      define s2 where "s2 = (if want > 0 then growForMerge s1 want else s1)"
      obtain key keys' where i: "key_intern (ms_keys s2) ?key = (key, keys')" by (metis surj_pair)
      with key_intern_id [of "ms_keys s2" ?key] have key: "key = ?key" by simp
      have s2: "ms_entries s2 = ms_entries s" "set (ms_seen s2) = set (ms_seen s)"
        by (simp_all add: s2_def s1_def grow_keeps)
      define entries where "entries = ms_entries s2 @ [\<lparr>en_Label = node_label name (kept + 1), en_Raw = raw,
          en_Addr = key, en_IP = nr_IP node, en_Country = []\<rparr>]"
      have "(kept', s') = (kept + 1, s2\<lparr>ms_seen := List.insert key (ms_seen s2), ms_entries := entries,
          ms_cap := max (ms_cap s2) (length entries), ms_keys := keys'\<rparr>)"
        unfolding assms(2) [symmetric] merge_node_def prod.case n(1) option.case if_not_P [OF n(2)]
          Let_def if_not_P [OF new] k r Some option.map s1_def [symmetric] want_def [symmetric]
          s2_def [symmetric] i entries_def ..
      moreover have "ref_node lower name (kept, es) node = (kept + 1, es @
          [\<lparr>en_Label = node_label name (kept + 1), en_Raw = raw, en_Addr = ?key, en_IP = nr_IP node, en_Country = []\<rparr>])"
        using \<open>usable_node node = Some n\<close> new assms(1) Some by (simp add: ref_node_def merge_rel_def Let_def)
      ultimately show ?thesis
        using assms(1) s2 by (simp add: merge_rel_def key entries_def insert_commute)
    qed
  qed
qed

lemma merge_nodes_refine:
  assumes "merge_rel s es" "foldl (merge_node lower g name) (kept, s) nodes = (kept', s')"
  shows "\<exists>es'. foldl (ref_node lower name) (kept, es) nodes = (kept', es') \<and> merge_rel s' es'"
  using assms
proof (induction nodes arbitrary: kept s es)
  case (Cons node nodes)
  obtain k1 s1 where s1: "merge_node lower g name (kept, s) node = (k1, s1)" by (metis surj_pair)
  from merge_node_refines [OF Cons.prems(1) s1] obtain e1 where
    "ref_node lower name (kept, es) node = (k1, e1)" "merge_rel s1 e1" by blast
  with Cons.IH [of s1 e1 k1] Cons.prems(2) s1 show ?case by simp
qed simp

lemma merge_sources_refine:
  "merge_rel s es \<Longrightarrow> merge_rel (merge_sources lower tot processed novel prevNodes s srcs) (foldl (ref_source lower) es srcs)"
proof (induction lower tot processed novel prevNodes s srcs arbitrary: es rule: merge_sources.induct)
  case (2 lower tot processed novel prevNodes s src srcs)
  define g where "g = (\<lambda>len cap. mergeGrowTarget len cap tot processed novel prevNodes (length (sb_Nodes src)))"
  obtain k s' where f: "foldl (merge_node lower g (sb_Name src)) (0, s) (sb_Nodes src) = (k, s')" by (metis surj_pair)
  from merge_nodes_refine [OF "2.prems" f] have r: "merge_rel s' (ref_source lower es src)"
    by (auto simp: ref_source_def)
  have "merge_sources lower tot processed novel prevNodes s (src # srcs) =
      merge_sources lower tot (processed + length (sb_Nodes src)) (length (ms_entries s') - length (ms_entries s))
        (length (sb_Nodes src)) s' srcs"
    using f by (simp add: g_def)
  with "2.IH" [OF refl refl f [unfolded g_def, symmetric] refl r] show ?case by simp
qed simp

lemma Merge_ref: "Merge lower bodies = merge_ref lower bodies"
  using merge_sources_refine [of "\<lparr>ms_entries = [], ms_cap = h, ms_seen = [], ms_seenHint = h,
      ms_keys = \<lparr>ka_buf = [], ka_cap = 0\<rparr>\<rparr>" "[]" for h]
  by (simp add: Merge_def merge_ref_def merge_rel_def Let_def)

section \<open>Labels name their source\<close>

lemma last_split_inject:
  fixes xs :: string
  assumes "xs @ b # ys = xs' @ b # ys'" "b \<notin> set ys" "b \<notin> set ys'"
  shows "xs = xs' \<and> ys = ys'"
proof -
  have "length xs = length xs'"
    using last_index_byte_append [OF assms(2), of xs] last_index_byte_append [OF assms(3), of xs'] assms(1) by simp
  with assms(1) show ?thesis by simp
qed

definition pad_digits :: "nat \<Rightarrow> string" where
  "pad_digits k = replicate (3 - digit_count k) CHR ''0'' @ itoa k"

lemma node_label_pad: "node_label name k = name @ CHR ''-'' # pad_digits k"
  by (simp add: node_label_def appendPad3_def pad_digits_def)

lemma pad_digits_digits: "list_all is_digit (pad_digits k)" "pad_digits k \<noteq> []"
proof -
  have "list_all is_digit (replicate m CHR ''0'')" for m by (induction m) (simp_all add: is_digit_def)
  then show "list_all is_digit (pad_digits k)" by (simp add: pad_digits_def)
qed (simp add: pad_digits_def)

lemma dec_value_zeros: "dec_value (replicate m CHR ''0'' @ s) = dec_value s"
proof (induction m)
  case (Suc m)
  have "dec_value (CHR ''0'' # s) = dec_value s" for s by (simp add: dec_value_def)
  with Suc show ?case by simp
qed simp

lemma pad_digits_inject: "pad_digits k = pad_digits k' \<longleftrightarrow> k = k'"
  by (metis dec_value_itoa dec_value_zeros pad_digits_def)

lemma no_dash: "CHR ''-'' \<notin> set (pad_digits k)"
  using pad_digits_digits(1) [of k] by (auto simp: list_all_iff is_digit_def)

lemma node_label_inject: "node_label name k = node_label name' k' \<longleftrightarrow> name = name' \<and> k = k'"
  unfolding node_label_pad using last_split_inject [OF _ no_dash no_dash] pad_digits_inject by blast

lemma sourceOfLabel_node: "name \<noteq> [] \<Longrightarrow> sourceOfLabel (node_label name k) = name"
  using pad_digits_digits [of k]
  by (auto simp: sourceOfLabel_def node_label_pad last_index_byte_append [OF no_dash] list_ex_iff list_all_iff)

section \<open>What the merge keeps\<close>

text \<open>Where an entry comes from: the \<open>k\<close>-th kept node of a source.\<close>

definition entry_from :: "(string \<Rightarrow> string) \<Rightarrow> SourceBody \<Rightarrow> nat \<Rightarrow> Entry \<Rightarrow> bool" where
  "entry_from lower src k e \<longleftrightarrow>
     en_Label e = node_label (sb_Name src) k \<and>
     (\<exists>node \<in> set (sb_Nodes src). \<exists>n. usable_node node = Some n \<and> en_IP e = nr_IP node \<and>
        en_Addr e = lowerServerPort lower (Server n) (Port n) \<and> relabel_spec n (en_Label e) = Some (en_Raw e))"

lemma ref_nodes_entries:
  assumes "foldl (ref_node lower (sb_Name src)) (k, es) nodes = (k', es')" "set nodes \<subseteq> set (sb_Nodes src)"
    and "distinct (map en_Addr es)"
  shows "\<exists>new. es' = es @ new \<and> k' = k + length new \<and> distinct (map en_Addr es') \<and>
      (\<forall>i < length new. entry_from lower src (k + 1 + i) (new ! i)) \<and>
      (\<forall>node \<in> set nodes. \<forall>n. usable_node node = Some n \<longrightarrow>
         lowerServerPort lower (Server n) (Port n) \<in> en_Addr ` set es' \<or> (\<exists>label. relabel_spec n label = None))"
  using assms
proof (induction nodes arbitrary: k es)
  case (Cons node nodes)
  obtain k1 e1 where s: "ref_node lower (sb_Name src) (k, es) node = (k1, e1)" by (metis surj_pair)
  have rest: "foldl (ref_node lower (sb_Name src)) (k1, e1) nodes = (k', es')" "set nodes \<subseteq> set (sb_Nodes src)"
    using Cons.prems s by simp_all
  consider (skip) "k1 = k" "e1 = es" "\<forall>n. usable_node node = Some n \<longrightarrow>
        lowerServerPort lower (Server n) (Port n) \<in> en_Addr ` set es \<or> (\<exists>label. relabel_spec n label = None)"
    | (keep) n raw where "usable_node node = Some n" "lowerServerPort lower (Server n) (Port n) \<notin> en_Addr ` set es"
        "relabel_spec n (node_label (sb_Name src) (k + 1)) = Some raw" "k1 = k + 1"
        "e1 = es @ [\<lparr>en_Label = node_label (sb_Name src) (k + 1), en_Raw = raw,
             en_Addr = lowerServerPort lower (Server n) (Port n), en_IP = nr_IP node, en_Country = []\<rparr>]"
  proof (cases "usable_node node")
    case None
    with s show thesis by (intro skip) (simp_all add: ref_node_def)
  next
    case u: (Some n)
    show thesis
    proof (cases "lowerServerPort lower (Server n) (Port n) \<in> en_Addr ` set es")
      case True
      with s u show thesis by (intro skip) (simp_all add: ref_node_def Let_def)
    next
      case new: False
      show thesis
      proof (cases "relabel_spec n (node_label (sb_Name src) (k + 1))")
        case None
        with s u new have "k1 = k" "e1 = es" by (simp_all add: ref_node_def Let_def)
        with None u show thesis by (intro skip) auto
      next
        case (Some raw)
        with s u new show thesis by (intro keep [OF u new Some]) (auto simp: ref_node_def Let_def)
      qed
    qed
  qed
  then show ?case
  proof cases
    case skip
    obtain new where new: "es' = es @ new" "k' = k + length new" "distinct (map en_Addr es')"
      "\<forall>i < length new. entry_from lower src (k + 1 + i) (new ! i)"
      "\<forall>node \<in> set nodes. \<forall>n. usable_node node = Some n \<longrightarrow>
         lowerServerPort lower (Server n) (Port n) \<in> en_Addr ` set es' \<or> (\<exists>label. relabel_spec n label = None)"
      using Cons.IH [OF rest [unfolded skip(1,2)] Cons.prems(3)] by blast
    have "\<forall>n. usable_node node = Some n \<longrightarrow>
         lowerServerPort lower (Server n) (Port n) \<in> en_Addr ` set es' \<or> (\<exists>label. relabel_spec n label = None)"
      using skip(3) new(1) by auto
    with new show ?thesis by (intro exI [where x = new]) auto
  next
    case keep
    let ?e = "\<lparr>en_Label = node_label (sb_Name src) (k + 1), en_Raw = raw,
             en_Addr = lowerServerPort lower (Server n) (Port n), en_IP = nr_IP node, en_Country = []\<rparr>"
    have origin: "entry_from lower src (k + 1) ?e" using keep(1,3) Cons.prems(2) by (auto simp: entry_from_def)
    have "distinct (map en_Addr e1)" using Cons.prems(3) keep(2,5) by auto
    from Cons.IH [OF rest this] obtain new where new: "es' = e1 @ new" "k' = k1 + length new" "distinct (map en_Addr es')"
      "\<forall>i < length new. entry_from lower src (k1 + 1 + i) (new ! i)"
      "\<forall>node \<in> set nodes. \<forall>n. usable_node node = Some n \<longrightarrow>
         lowerServerPort lower (Server n) (Port n) \<in> en_Addr ` set es' \<or> (\<exists>label. relabel_spec n label = None)" by blast
    have "entry_from lower src (k + 1 + i) ((?e # new) ! i)" if "i < length (?e # new)" for i
      using that new(4) origin keep(4) by (cases i) auto
    moreover have "lowerServerPort lower (Server n) (Port n) \<in> en_Addr ` set es'" using new(1) keep(5) by auto
    ultimately show ?thesis
      using new keep by (intro exI [where x = "?e # new"]) auto
  qed
qed auto

definition merged_ok :: "(string \<Rightarrow> string) \<Rightarrow> SourceBody list \<Rightarrow> Entry list \<Rightarrow> bool" where
  "merged_ok lower bodies es \<longleftrightarrow>
     distinct (map en_Addr es) \<and>
     (distinct (map sb_Name bodies) \<longrightarrow> distinct (map en_Label es)) \<and>
     (\<forall>e \<in> set es. \<exists>src \<in> set bodies. \<exists>k. entry_from lower src k e) \<and>
     (\<forall>src \<in> set bodies. \<forall>node \<in> set (sb_Nodes src). \<forall>n. usable_node node = Some n \<longrightarrow>
        lowerServerPort lower (Server n) (Port n) \<in> en_Addr ` set es \<or> (\<exists>label. relabel_spec n label = None))"

lemma merge_ref_ok: "merged_ok lower bodies (merge_ref lower bodies)"
proof (induction bodies rule: rev_induct)
  case Nil
  then show ?case by (simp add: merged_ok_def merge_ref_def)
next
  case (snoc src bodies)
  let ?es = "merge_ref lower bodies"
  obtain k es' where f: "foldl (ref_node lower (sb_Name src)) (0, ?es) (sb_Nodes src) = (k, es')" by (metis surj_pair)
  have m: "merge_ref lower (bodies @ [src]) = es'" using f by (simp add: merge_ref_def ref_source_def)
  obtain new where new: "es' = ?es @ new" "distinct (map en_Addr es')"
      "\<forall>i < length new. entry_from lower src (1 + i) (new ! i)"
      "\<forall>node \<in> set (sb_Nodes src). \<forall>n. usable_node node = Some n \<longrightarrow>
         lowerServerPort lower (Server n) (Port n) \<in> en_Addr ` set es' \<or> (\<exists>label. relabel_spec n label = None)"
    using ref_nodes_entries [OF f] snoc.IH by (auto simp: merged_ok_def)
  have lbl: "en_Label (new ! i) = node_label (sb_Name src) (1 + i)" if "i < length new" for i
    using new(3) that by (simp add: entry_from_def)
  have dn: "distinct (map en_Label new)"
    by (auto simp: distinct_conv_nth lbl node_label_inject)
  have ln: "\<exists>j. en_Label e = node_label (sb_Name src) j" if "e \<in> set new" for e
    using that lbl by (metis in_set_conv_nth)
  have le: "\<exists>src' \<in> set bodies. \<exists>j. en_Label e = node_label (sb_Name src') j" if "e \<in> set ?es" for e
    using that snoc.IH by (force simp: merged_ok_def entry_from_def)
  have "distinct (map en_Label es')" if d: "distinct (map sb_Name (bodies @ [src]))"
  proof -
    have "en_Label ` set ?es \<inter> en_Label ` set new = {}"
    proof (rule ccontr)
      assume "en_Label ` set ?es \<inter> en_Label ` set new \<noteq> {}"
      then obtain e e' where e: "e \<in> set ?es" "e' \<in> set new" "en_Label e = en_Label e'" by auto
      from le [OF e(1)] ln [OF e(2)] e(3) obtain src' where "src' \<in> set bodies" "sb_Name src' = sb_Name src"
        by (auto simp: node_label_inject)
      with d show False by (auto simp: image_iff)
    qed
    with d dn snoc.IH show ?thesis by (simp add: new(1) merged_ok_def)
  qed
  moreover have "\<forall>e \<in> set es'. \<exists>s \<in> set (bodies @ [src]). \<exists>k. entry_from lower s k e"
  proof
    fix e assume "e \<in> set es'"
    then consider "e \<in> set ?es" | i where "i < length new" "e = new ! i" by (auto simp: new(1) in_set_conv_nth)
    then show "\<exists>s \<in> set (bodies @ [src]). \<exists>k. entry_from lower s k e"
    proof cases
      case 1
      with snoc.IH show ?thesis by (auto simp: merged_ok_def)
    next
      case 2
      with new(3) show ?thesis by auto
    qed
  qed
  moreover have "\<forall>s \<in> set (bodies @ [src]). \<forall>node \<in> set (sb_Nodes s). \<forall>n. usable_node node = Some n \<longrightarrow>
        lowerServerPort lower (Server n) (Port n) \<in> en_Addr ` set es' \<or> (\<exists>label. relabel_spec n label = None)"
  proof (intro ballI allI impI)
    fix s node n assume s: "s \<in> set (bodies @ [src])" "node \<in> set (sb_Nodes s)" "usable_node node = Some n"
    show "lowerServerPort lower (Server n) (Port n) \<in> en_Addr ` set es' \<or> (\<exists>label. relabel_spec n label = None)"
    proof (cases "s \<in> set bodies")
      case True
      with s snoc.IH have "lowerServerPort lower (Server n) (Port n) \<in> en_Addr ` set ?es \<or> (\<exists>label. relabel_spec n label = None)"
        unfolding merged_ok_def by blast
      then show ?thesis by (auto simp: new(1))
    next
      case False
      with s new(4) show ?thesis by auto
    qed
  qed
  ultimately show ?case unfolding m using new(2) by (simp add: merged_ok_def)
qed

lemma parseOne_line:
  assumes "parseOne raw = Some n"
  obtains line where "line \<in> set (lines raw)" "parseNode line = Some n"
proof -
  have "\<exists>line \<in> set ls. parseNode line = Some n"
    if "fst (parse_loop (\<lambda>st n. (Some n, False)) None r ls) = Some n" for r ls
    using that by (induction ls arbitrary: r) (auto split: if_splits option.splits)
  with assms that show thesis by (auto simp: parseOne_def Subscription.Parse_def)
qed

lemma usable_parsed: "usable_node node = Some n \<Longrightarrow> \<exists>line. parseNode line = Some n"
  by (auto simp: usable_node_def split: option.splits if_splits elim: parseOne_line)

lemma node_label_graphic:
  "node_label name k \<noteq> []" "graphic (last (node_label name k))"
proof -
  have "last (node_label name k) = last (pad_digits k)" using pad_digits_digits(2) by (simp add: node_label_pad)
  moreover have "is_digit (last (pad_digits k))" using pad_digits_digits [of k] last_in_set by (metis list_all_iff)
  ultimately show "graphic (last (node_label name k))" by (simp add: is_digit_def graphic_def)
qed (simp add: node_label_pad)

section \<open>Properties\<close>

text \<open>
  C24: the merge's growth projections, its key arena and its rebuilt membership map never show:
  for every input it returns the entries of the reference merge, which walks the sources in
  order and keeps a usable node when its endpoint is not among the entries so far and its line
  can carry the label.
\<close>

theorem merge_implements_reference: "Merge lower bodies = merge_ref lower bodies"
  by (rule Merge_ref)

text \<open>
  C25: probe results map back to entries unambiguously. No two merged entries share an endpoint;
  with distinct source names no two share a label; each label folds back to the name of the
  source its node came from; and no usable endpoint of a fragment scheme is lost.
\<close>

theorem merge_unambiguous:
  assumes "distinct (map sb_Name bodies)" and "[] \<notin> sb_Name ` set bodies"
  shows "distinct (map en_Addr (Merge lower bodies)) \<and> distinct (map en_Label (Merge lower bodies)) \<and>
   (\<forall>e \<in> set (Merge lower bodies). \<exists>src \<in> set bodies. sourceOfLabel (en_Label e) = sb_Name src \<and>
      en_IP e \<in> nr_IP ` set (sb_Nodes src)) \<and>
   (\<forall>src \<in> set bodies. \<forall>node \<in> set (sb_Nodes src). \<forall>n. usable_node node = Some n \<longrightarrow>
      Scheme n \<noteq> ''vmess'' \<longrightarrow> Scheme n \<noteq> ''ssr'' \<longrightarrow>
      lowerServerPort lower (Server n) (Port n) \<in> en_Addr ` set (Merge lower bodies))"
proof -
  note ok = merge_ref_ok [of lower bodies, folded Merge_ref]
  have "\<exists>src \<in> set bodies. sourceOfLabel (en_Label e) = sb_Name src \<and> en_IP e \<in> nr_IP ` set (sb_Nodes src)"
    if e: "e \<in> set (Merge lower bodies)" for e
  proof -
    from ok e obtain src k where s: "src \<in> set bodies" "entry_from lower src k e" unfolding merged_ok_def by blast
    with assms(2) have "sb_Name src \<noteq> []" by force
    with s show ?thesis by (auto simp: entry_from_def sourceOfLabel_node intro!: bexI [of _ src])
  qed
  moreover have "relabel_spec n label \<noteq> None" if "Scheme n \<noteq> ''vmess''" "Scheme n \<noteq> ''ssr''" for n label
    using that by (simp add: relabel_spec_def)
  ultimately show ?thesis using ok assms(1) unfolding merged_ok_def by blast
qed

text \<open>
  a merged line of a fragment scheme carries its label to whoever parses it: its name is the
  label (trimmed, as a source name may start with a space), and its lowercased server and port
  are the entry's key. No entry is a placeholder.
\<close>

theorem merged_line_parses_back:
  assumes "e \<in> set (Merge lower bodies)"
  shows "\<exists>n :: Node. \<not> PlaceholderNode (Raw n) (Server n) \<and> lowerServerPort lower (Server n) (Port n) = en_Addr e \<and>
    (if Scheme n = ''vmess'' \<or> Scheme n = ''ssr'' then True
     else \<exists>n'. parseNode (en_Raw e) = Some n' \<and> Name n' = trim_space (en_Label e) \<and> Scheme n' = Scheme n \<and>
       lowerServerPort lower (Server n') (Port n') = en_Addr e)"
proof -
  obtain src k where "entry_from lower src k e"
    using assms merge_ref_ok [of lower bodies] unfolding Merge_ref merged_ok_def by blast
  then obtain node n where l: "en_Label e = node_label (sb_Name src) k" and n: "usable_node node = Some n"
      "en_Addr e = lowerServerPort lower (Server n) (Port n)" "relabel_spec n (en_Label e) = Some (en_Raw e)"
    by (auto simp: entry_from_def)
  have p: "\<not> PlaceholderNode (Raw n) (Server n)" using n(1) by (auto simp: usable_node_def split: option.splits if_splits)
  have "\<exists>n'. parseNode (en_Raw e) = Some n' \<and> Name n' = trim_space (en_Label e) \<and> Scheme n' = Scheme n \<and>
       lowerServerPort lower (Server n') (Port n') = en_Addr e" if s: "Scheme n \<noteq> ''vmess''" "Scheme n \<noteq> ''ssr''"
  proof -
    obtain line where line: "parseNode line = Some n" using usable_parsed [OF n(1)] by blast
    have raw: "en_Raw e = (case FragmentIdx n of Some i \<Rightarrow> take i (Raw n) | None \<Rightarrow> Raw n) @ CHR ''#'' # en_Label e"
      using n(3) s by (simp add: relabel_spec_def)
    have "trim_space (en_Label e) \<noteq> []"
      unfolding l node_label_pad by (rule trim_space_graphic_end) (use node_label_graphic [of "sb_Name src" k] in \<open>simp_all add: node_label_pad\<close>)
    with generic_rename(1) [OF line s, of "en_Label e"] n(2) show ?thesis by (auto simp: raw)
  qed
  then show ?thesis using p n(2) by (intro exI [where x = n]) simp
qed

section \<open>A small merge\<close>

lemma sample_usable:
  "\<exists>n. usable_node \<lparr>nr_Raw = sample_line, nr_IP = ip\<rparr> = Some n \<and> Server n = ''h'' \<and>
     Scheme n \<noteq> ''vmess'' \<and> Scheme n \<noteq> ''ssr'' \<and> Port n = ''1''"
proof -
  obtain nd where nd: "parseNode sample_line = Some nd" "Server nd = ''h''" "Raw nd = sample_line"
      "Scheme nd = ''vless''" "Port nd = ''1''"
    using sample_node by blast
  have l: "lines sample_line = [sample_line]" "contains_str sample_line ''://''"
    by (simp_all add: sample_line_def lines_eq_kept kept_lines_def wanted_def contains_str_def has_prefix_def
        trim_space_id graphic_def)
  have one: "parseOne sample_line = Some nd" using nd(1) l by (simp add: parseOne_def Subscription.Parse_def)
  have "\<not> PlaceholderNode sample_line ''h''"
    by (simp add: PlaceholderNode_def nilCredential_def localServer_def loopbackName_def sample_line_def
        cut_str_def has_prefix_def Let_def)
  with one nd show ?thesis by (simp add: usable_node_def)
qed

definition sample_bodies :: "SourceBody list" where
  "sample_bodies =
     [\<lparr>sb_Name = ''a-1'', sb_Nodes = [\<lparr>nr_Raw = sample_line, nr_IP = V4 1\<rparr>]\<rparr>,
      \<lparr>sb_Name = ''b'', sb_Nodes = [\<lparr>nr_Raw = sample_line, nr_IP = V4 2\<rparr>]\<rparr>]"

theorem merge_unambiguous_witness:
  "''h:1'' \<in> en_Addr ` set (Merge id sample_bodies) \<and> distinct (map en_Addr (Merge id sample_bodies)) \<and>
   distinct (map en_Label (Merge id sample_bodies))"
proof -
  obtain n where n: "usable_node \<lparr>nr_Raw = sample_line, nr_IP = V4 1\<rparr> = Some n" "Server n = ''h''" "Port n = ''1''"
      "Scheme n \<noteq> ''vmess''" "Scheme n \<noteq> ''ssr''"
    using sample_usable by blast
  have d: "distinct (map sb_Name sample_bodies)" "[] \<notin> sb_Name ` set sample_bodies" by (simp_all add: sample_bodies_def)
  have m: "\<lparr>sb_Name = ''a-1'', sb_Nodes = [\<lparr>nr_Raw = sample_line, nr_IP = V4 1\<rparr>]\<rparr> \<in> set sample_bodies"
    "\<lparr>nr_Raw = sample_line, nr_IP = V4 1\<rparr> \<in> set (sb_Nodes \<lparr>sb_Name = ''a-1'', sb_Nodes = [\<lparr>nr_Raw = sample_line, nr_IP = V4 1\<rparr>]\<rparr>)"
    by (simp_all add: sample_bodies_def)
  from merge_unambiguous [OF d, of id] m n(1,4,5) have "lowerServerPort id (Server n) (Port n) \<in> en_Addr ` set (Merge id sample_bodies)"
    by blast
  moreover have "lowerServerPort id (Server n) (Port n) = ''h:1''"
    by (simp add: n(2,3) lowerServerPort_def model_defs)
  ultimately show ?thesis using merge_unambiguous [OF d, of id] by simp
qed

theorem merged_line_parses_back_witness:
  "\<exists>e \<in> set (Merge id sample_bodies). \<exists>n :: Node. \<not> PlaceholderNode (Raw n) (Server n) \<and>
     lowerServerPort id (Server n) (Port n) = en_Addr e"
proof -
  obtain n where n: "usable_node \<lparr>nr_Raw = sample_line, nr_IP = V4 1\<rparr> = Some n"
      "Scheme n \<noteq> ''vmess''" "Scheme n \<noteq> ''ssr''"
    using sample_usable by blast
  have m: "\<lparr>sb_Name = ''a-1'', sb_Nodes = [\<lparr>nr_Raw = sample_line, nr_IP = V4 1\<rparr>]\<rparr> \<in> set sample_bodies"
    "\<lparr>nr_Raw = sample_line, nr_IP = V4 1\<rparr> \<in> set (sb_Nodes \<lparr>sb_Name = ''a-1'', sb_Nodes = [\<lparr>nr_Raw = sample_line, nr_IP = V4 1\<rparr>]\<rparr>)"
    by (simp_all add: sample_bodies_def)
  have "relabel_spec n label \<noteq> None" for label using n(2,3) by (simp add: relabel_spec_def)
  with merge_ref_ok [of id sample_bodies] m n(1) have "lowerServerPort id (Server n) (Port n) \<in> en_Addr ` set (Merge id sample_bodies)"
    unfolding Merge_ref merged_ok_def by blast
  then obtain e where e: "e \<in> set (Merge id sample_bodies)" by auto
  from merged_line_parses_back [OF e] e show ?thesis by blast
qed

end
