(* ===== verification/Verdicts.thy ===== *)
theory Verdicts
  imports Merge
begin

text \<open>
  The through-node checks of \<^verbatim>\<open>internal/stable\<close> (\<^verbatim>\<open>prober_api.go\<close>, \<^verbatim>\<open>prober_gemini.go\<close>,
  \<^verbatim>\<open>prober_claude.go\<close>, \<^verbatim>\<open>prober_chatgpt.go\<close>, \<^verbatim>\<open>prober_tidal.go\<close>, \<^verbatim>\<open>prober_deepl.go\<close>,
  \<^verbatim>\<open>prober_bandwidth.go\<close>, \<^verbatim>\<open>prober_trace.go\<close>): how a response is classified, and how the outcomes of
  an entry's proxies are folded onto its label.

  The request itself is mihomo's and \<^verbatim>\<open>net/http\<close>'s: the answer of each proxy is an argument. A check
  takes its proxies in the order in which their workers reach the mutex, so a theorem about every
  order is one about every schedule; a worker cancelled before it asked is not in the list.
\<close>

section \<open>Folding outcomes onto labels\<close>

text \<open>\<^verbatim>\<open>if prev, ok := out[label]; !ok || better(o, prev) { out[label] = o }\<close>\<close>

definition fold_label :: "('o \<Rightarrow> 'o \<Rightarrow> bool) \<Rightarrow> (string \<rightharpoonup> 'o) \<Rightarrow> string \<times> 'o \<Rightarrow> (string \<rightharpoonup> 'o)" where
  "fold_label better out = (\<lambda>(label, ob).
     (case out label of
        None \<Rightarrow> out(label \<mapsto> ob)
      | Some prev \<Rightarrow> (if better ob prev then out(label \<mapsto> ob) else out)))"

definition fold_labels :: "('o \<Rightarrow> 'o \<Rightarrow> bool) \<Rightarrow> (string \<times> 'o) list \<Rightarrow> (string \<rightharpoonup> 'o)" where
  "fold_labels better cs = foldl (fold_label better) Map.empty cs"

section \<open>One request\<close>

text \<open>The body the peer delivers, and whether reading on after it fails.\<close>

record http_answer =
  ha_Status :: int
  ha_Body :: string
  ha_Broken :: bool

definition maxAPIBody :: nat where
  "maxAPIBody = 65536"

definition apiProbeOne :: "http_answer option \<Rightarrow> bool \<Rightarrow> bool \<times> int \<times> string \<times> bool" where
  "apiProbeOne answer readBody =
     (case answer of
        None \<Rightarrow> (False, 0, [], False)
      | Some resp \<Rightarrow>
          (if \<not> readBody then (True, ha_Status resp, [], False)
           else let b = take (maxAPIBody + 1) (ha_Body resp);
                    err = length (ha_Body resp) < maxAPIBody + 1 \<and> ha_Broken resp
                in if err then (True, ha_Status resp, b, False)
                   else if length b > maxAPIBody then (True, ha_Status resp, b, False)
                   else (True, ha_Status resp, b, True)))"

section \<open>Classifying a response\<close>

record APIOutcome =
  ao_Server :: string
  ao_Reachable :: bool
  ao_Blocked :: bool
  ao_Verified :: bool

datatype apiVerdict = ApiUnverified | ApiAccepted | ApiBlocked

definition apiOutcomeRank :: "APIOutcome \<Rightarrow> nat" where
  "apiOutcomeRank ob =
     (if ao_Reachable ob \<and> \<not> ao_Blocked ob \<and> ao_Verified ob then 3
      else if ao_Blocked ob then 2
      else if ao_Reachable ob then 1
      else 0)"

definition betterAPIOutcome :: "APIOutcome \<Rightarrow> APIOutcome \<Rightarrow> bool" where
  "betterAPIOutcome a b \<longleftrightarrow> apiOutcomeRank a > apiOutcomeRank b"

definition markerBlocked :: "string \<Rightarrow> string \<Rightarrow> bool" where
  "markerBlocked body marker \<longleftrightarrow> marker \<noteq> [] \<and> contains_str body marker"

definition markerVerdict :: "int \<Rightarrow> string \<Rightarrow> string \<Rightarrow> bool \<Rightarrow> apiVerdict" where
  "markerVerdict status body marker complete =
     (if markerBlocked body marker then ApiBlocked
      else if \<not> complete then ApiUnverified else ApiAccepted)"

definition geminiInconclusive :: "int \<Rightarrow> string \<Rightarrow> string \<Rightarrow> bool" where
  "geminiInconclusive status body marker =
     (if status \<ge> 200 \<and> status < 300 then False
      else if status = 400 \<and> markerBlocked body marker then False else True)"

definition geminiVerdict :: "int \<Rightarrow> string \<Rightarrow> string \<Rightarrow> bool \<Rightarrow> apiVerdict" where
  "geminiVerdict status body marker complete =
     (if markerBlocked body marker then ApiBlocked
      else if \<not> complete \<or> geminiInconclusive status body marker then ApiUnverified else ApiAccepted)"

definition tidalBlocked :: "int \<Rightarrow> bool" where
  "tidalBlocked status \<longleftrightarrow> status < 200 \<or> status \<ge> 300"

definition tidalVerdict :: "int \<Rightarrow> string \<Rightarrow> bool \<Rightarrow> apiVerdict" where
  "tidalVerdict status body complete = (if tidalBlocked status then ApiBlocked else ApiAccepted)"

definition deeplVerdict :: "int \<Rightarrow> apiVerdict" where
  "deeplVerdict status =
     (if status = 451 then ApiBlocked
      else if status \<ge> 200 \<and> status < 300 then ApiAccepted else ApiUnverified)"

section \<open>The API checks\<close>

definition api_outcome ::
  "(int \<Rightarrow> string \<Rightarrow> bool \<Rightarrow> apiVerdict) \<Rightarrow> string \<Rightarrow> bool \<times> int \<times> string \<times> bool \<Rightarrow> APIOutcome" where
  "api_outcome classify host = (\<lambda>(reachable, status, body, complete).
     let ob = \<lparr>ao_Server = host, ao_Reachable = reachable, ao_Blocked = False, ao_Verified = False\<rparr>
     in if reachable
        then (case classify status body complete of
                ApiBlocked \<Rightarrow> ob\<lparr>ao_Blocked := True, ao_Verified := True\<rparr>
              | ApiAccepted \<Rightarrow> ob\<lparr>ao_Verified := True\<rparr>
              | ApiUnverified \<Rightarrow> ob)
        else ob)"

text \<open>What the checks read of a mihomo proxy: its entry's label, its host, its address and name.\<close>

record 'p proxy_view =
  px_label :: "'p \<Rightarrow> string"
  px_host :: "'p \<Rightarrow> string"
  px_addr :: "'p \<Rightarrow> string"
  px_name :: "'p \<Rightarrow> string"

definition apiCheck ::
  "'p proxy_view \<Rightarrow> (int \<Rightarrow> string \<Rightarrow> bool \<Rightarrow> apiVerdict) \<Rightarrow> bool \<Rightarrow> ('p \<Rightarrow> http_answer option)
   \<Rightarrow> 'p list \<Rightarrow> (string \<rightharpoonup> APIOutcome)" where
  "apiCheck v classify readBody answer pxs =
     fold_labels betterAPIOutcome
       (map (\<lambda>px. (px_label v px, api_outcome classify (px_host v px) (apiProbeOne (answer px) readBody))) pxs)"

definition marker_check :: "'p proxy_view \<Rightarrow> string \<Rightarrow> ('p \<Rightarrow> http_answer option) \<Rightarrow> 'p list \<Rightarrow> (string \<rightharpoonup> APIOutcome)" where
  "marker_check v marker = apiCheck v (\<lambda>status body complete. markerVerdict status body marker complete) True"

definition TidalCheck :: "'p proxy_view \<Rightarrow> ('p \<Rightarrow> http_answer option) \<Rightarrow> 'p list \<Rightarrow> (string \<rightharpoonup> APIOutcome)" where
  "TidalCheck v = apiCheck v tidalVerdict False"

text \<open>With the classifier's two counters: the calls, and the inconclusive ones.\<close>

definition GeminiCheck ::
  "'p proxy_view \<Rightarrow> string \<Rightarrow> ('p \<Rightarrow> http_answer option) \<Rightarrow> 'p list \<Rightarrow> (string \<rightharpoonup> APIOutcome) \<times> nat \<times> nat" where
  "GeminiCheck v marker answer pxs =
     (let out = apiCheck v (\<lambda>status body complete. geminiVerdict status body marker complete) True answer pxs;
          classified = filter fst (map (\<lambda>px. apiProbeOne (answer px) True) pxs);
          inconclusive = filter (\<lambda>(_, status, body, _). geminiInconclusive status body marker) classified
      in (out, length classified, length inconclusive))"

definition deepl_outcome :: "string \<Rightarrow> http_answer option \<Rightarrow> int option \<Rightarrow> APIOutcome" where
  "deepl_outcome host tcp udp =
     (let (tcpReachable, tcpStatus, _, _) = apiProbeOne tcp False;
          tcpVerdict = deeplVerdict tcpStatus;
          (udpReachable, udpStatus) =
            (if tcpVerdict \<noteq> ApiBlocked
             then (case udp of None \<Rightarrow> (False, 0) | Some status \<Rightarrow> (True, status)) else (False, 0));
          udpVerdict = deeplVerdict udpStatus;
          isBlocked = (tcpVerdict = ApiBlocked \<or> udpVerdict = ApiBlocked)
      in \<lparr>ao_Server = host, ao_Reachable = tcpReachable \<or> udpReachable, ao_Blocked = isBlocked,
          ao_Verified = isBlocked \<or> tcpVerdict = ApiAccepted \<and> udpVerdict = ApiAccepted\<rparr>)"

definition DeeplCheck ::
  "'p proxy_view \<Rightarrow> ('p \<Rightarrow> http_answer option) \<Rightarrow> ('p \<Rightarrow> int option) \<Rightarrow> 'p list \<Rightarrow> (string \<rightharpoonup> APIOutcome)" where
  "DeeplCheck v tcp udp pxs =
     fold_labels betterAPIOutcome (map (\<lambda>px. (px_label v px, deepl_outcome (px_host v px) (tcp px) (udp px))) pxs)"

text \<open>The endpoints.\<close>

fun trim_right_slash :: "string \<Rightarrow> string" where
  "trim_right_slash s = (if s \<noteq> [] \<and> last s = CHR ''/'' then trim_right_slash (butlast s) else s)"

declare trim_right_slash.simps [simp del]

definition claudeURL :: "string \<Rightarrow> string" where
  "claudeURL endpoint = trim_right_slash endpoint @ ''/v1/models''"

definition chatgptURL :: "string \<Rightarrow> string" where
  "chatgptURL endpoint = trim_right_slash endpoint @ ''/compliance/cookie_requirements''"

definition tidalURL :: "string \<Rightarrow> string" where
  "tidalURL endpoint = trim_right_slash endpoint @ ''/v1/country''"

definition deeplURL :: "string \<Rightarrow> string" where
  "deeplURL endpoint = trim_right_slash endpoint"

definition geminiURL :: "string \<Rightarrow> string \<Rightarrow> string \<Rightarrow> string" where
  "geminiURL endpoint model key =
     trim_right_slash endpoint @ ''/v1beta/models/'' @ model @ ''?key='' @ appendQueryEscape [] key"

section \<open>The bandwidth check\<close>

record BandwidthOutcome =
  bo_Server :: string
  bo_Reachable :: bool
  bo_Mbps :: int

definition betterBandwidthOutcome :: "BandwidthOutcome \<Rightarrow> BandwidthOutcome \<Rightarrow> bool" where
  "betterBandwidthOutcome a b =
     (if bo_Reachable a \<noteq> bo_Reachable b then bo_Reachable a else bo_Mbps a > bo_Mbps b)"

definition maxBandwidthBody :: nat where
  "maxBandwidthBody = 268435456"

text \<open>\<open>rate\<close> is the floating-point quotient of bytes and nanoseconds, truncated.\<close>

definition computeMbps :: "(nat \<Rightarrow> int \<Rightarrow> int) \<Rightarrow> nat \<Rightarrow> int \<Rightarrow> int" where
  "computeMbps rate bytesRead elapsed = (if bytesRead \<le> 0 \<or> elapsed \<le> 0 then 0 else rate bytesRead elapsed)"

text \<open>
  The body of a download: the bytes delivered, how long that took, and how reading ended. A cap
  hit reads no further, so the error behind it is never seen.
\<close>

datatype read_error = DeadlineExceeded | NetTimeout | NetClosed | OtherReadError

record download =
  dl_Status :: int
  dl_Bytes :: nat
  dl_Elapsed :: int
  dl_Error :: "read_error option"
  dl_CtxDone :: bool

definition deadlineTruncated :: "bool \<Rightarrow> read_error \<Rightarrow> bool" where
  "deadlineTruncated ctxDone err =
     (if err = DeadlineExceeded then True
      else if err = NetTimeout then True
      else ctxDone \<and> err = NetClosed)"

definition measure_download :: "download option \<Rightarrow> bool \<times> nat \<times> int" where
  "measure_download resp =
     (case resp of
        None \<Rightarrow> (False, 0, 0)
      | Some r \<Rightarrow>
          (if dl_Status r < 200 \<or> dl_Status r \<ge> 300 then (False, 0, 0)
           else let n = min (dl_Bytes r) maxBandwidthBody;
                    copyErr = (if dl_Bytes r < maxBandwidthBody then dl_Error r else None)
                in case copyErr of
                     None \<Rightarrow> (True, n, dl_Elapsed r)
                   | Some err \<Rightarrow>
                       (if \<not> deadlineTruncated (dl_CtxDone r) err then (False, 0, 0)
                        else (True, n, dl_Elapsed r))))"

definition bandwidthProbeOne :: "(nat \<Rightarrow> int \<Rightarrow> int) \<Rightarrow> download option \<Rightarrow> bool \<times> int" where
  "bandwidthProbeOne rate resp =
     (let (reachable, n, elapsed) = measure_download resp
      in if \<not> reachable then (False, 0) else (True, computeMbps rate n elapsed))"

definition bandwidth_outcome :: "string \<Rightarrow> bool \<times> int \<Rightarrow> BandwidthOutcome" where
  "bandwidth_outcome host = (\<lambda>(reachable, mbps). \<lparr>bo_Server = host, bo_Reachable = reachable, bo_Mbps = mbps\<rparr>)"

definition BandwidthCheck ::
  "'p proxy_view \<Rightarrow> (nat \<Rightarrow> int \<Rightarrow> int) \<Rightarrow> ('p \<Rightarrow> download option) \<Rightarrow> 'p list \<Rightarrow> (string \<rightharpoonup> BandwidthOutcome)" where
  "BandwidthCheck v rate answer pxs =
     fold_labels betterBandwidthOutcome
       (map (\<lambda>px. (px_label v px, bandwidth_outcome (px_host v px) (bandwidthProbeOne rate (answer px)))) pxs)"

definition BandwidthMinMbps :: "int option \<Rightarrow> int" where
  "BandwidthMinMbps minMbps = (case minMbps of None \<Rightarrow> 0 | Some n \<Rightarrow> n)"

section \<open>The egress trace\<close>

record TraceResult =
  tr_IP :: addr
  tr_Country :: CountryCode

definition validCountry :: "string \<Rightarrow> bool" where
  "validCountry c \<longleftrightarrow> length c = 2 \<and> is_upper (c ! 0) \<and> is_upper (c ! 1) \<and> c \<noteq> ''XX''"

definition trace_line :: "string \<Rightarrow> string \<times> string \<Rightarrow> string \<times> string" where
  "trace_line line = (\<lambda>(ip, loc).
     let (key, value, found) = cut_byte CHR ''='' (trim_space line)
     in if \<not> found \<or> value = [] then (ip, loc)
        else if key = ''ip'' then (value, loc)
        else if key = ''loc'' then (ip, value)
        else (ip, loc))"

function trace_loop :: "string \<Rightarrow> string \<times> string \<Rightarrow> string \<times> string" where
  "trace_loop body acc =
     (if body = [] then acc
      else case index_byte CHR 0x0A body of
             Some i \<Rightarrow> trace_loop (drop (i + 1) body) (trace_line (take i body) acc)
           | None \<Rightarrow> trace_line body acc)"
  by pat_completeness auto
termination
  by (relation "measure (\<lambda>(body, acc). length body)") auto

declare trace_loop.simps [simp del]

definition parseTrace :: "string \<Rightarrow> TraceResult option" where
  "parseTrace body =
     (let (ip, loc) = trace_loop body ([], [])
      in case ParseAddr ip of
           None \<Rightarrow> None
         | Some a \<Rightarrow> (if \<not> validCountry loc then None else Some \<lparr>tr_IP = a, tr_Country = (loc ! 0, loc ! 1)\<rparr>))"

record traceOutcome =
  to_addr :: string
  to_name :: string
  to_res :: TraceResult

definition betterTraceOutcome :: "traceOutcome \<Rightarrow> traceOutcome \<Rightarrow> bool" where
  "betterTraceOutcome a b = (if to_addr a \<noteq> to_addr b then to_addr a < to_addr b else to_name a < to_name b)"

text \<open>The answer a proxy contributes, if it has one.\<close>

definition trace_answer :: "http_answer option \<Rightarrow> TraceResult option" where
  "trace_answer answer =
     (let (reachable, status, body, complete) = apiProbeOne answer True
      in case parseTrace body of
           None \<Rightarrow> None
         | Some res \<Rightarrow>
             (if \<not> reachable \<or> status < 200 \<or> status \<ge> 300 \<or> \<not> complete then None else Some res))"

definition trace_candidate ::
  "'p proxy_view \<Rightarrow> ('p \<Rightarrow> http_answer option) \<Rightarrow> 'p \<Rightarrow> (string \<times> traceOutcome) option" where
  "trace_candidate v answer px =
     (case trace_answer (answer px) of
        None \<Rightarrow> None
      | Some res \<Rightarrow> Some (px_label v px, \<lparr>to_addr = px_addr v px, to_name = px_name v px, to_res = res\<rparr>))"

definition trace_winners ::
  "'p proxy_view \<Rightarrow> ('p \<Rightarrow> http_answer option) \<Rightarrow> 'p list \<Rightarrow> (string \<rightharpoonup> traceOutcome)" where
  "trace_winners v answer pxs = fold_labels betterTraceOutcome (List.map_filter (trace_candidate v answer) pxs)"

definition TraceCheck :: "'p proxy_view \<Rightarrow> ('p \<Rightarrow> http_answer option) \<Rightarrow> 'p list \<Rightarrow> (string \<rightharpoonup> TraceResult)" where
  "TraceCheck v answer pxs label = map_option to_res (trace_winners v answer pxs label)"

section \<open>The fold is a minimum\<close>

lemma first_min_set:
  assumes "set xs = set ys" and "\<forall>x \<in> set xs. \<forall>y \<in> set xs. f x = f y \<longrightarrow> x = y"
  shows "first_min f xs = first_min f ys"
proof (cases "first_min f xs")
  case None
  with assms show ?thesis by (metis first_min_None set_empty)
next
  case (Some x)
  then have "ys \<noteq> []" using assms(1) by (auto dest: first_min_Some)
  then obtain y where y: "first_min f ys = Some y" by (metis first_min_None not_Some_eq)
  have "x \<in> set xs" "y \<in> set xs" "f x \<le> f y" "f y \<le> f x"
    using first_min_Some [OF Some] first_min_Some [OF y] assms(1) by auto
  with assms(2) Some y show ?thesis by auto
qed

definition outcomes_of :: "string \<Rightarrow> (string \<times> 'o) list \<Rightarrow> 'o list" where
  "outcomes_of label cs = map snd (filter (\<lambda>c. fst c = label) cs)"

lemma outcomes_of_simps [simp]:
  "outcomes_of l [] = []" "outcomes_of l (cs @ ds) = outcomes_of l cs @ outcomes_of l ds"
  "outcomes_of l (c # cs) = (if fst c = l then snd c # outcomes_of l cs else outcomes_of l cs)"
  by (auto simp: outcomes_of_def)

lemma set_outcomes_of: "set (outcomes_of l cs) = {ob. (l, ob) \<in> set cs}"
  by (force simp: outcomes_of_def)

locale label_fold =
  fixes better :: "'o \<Rightarrow> 'o \<Rightarrow> bool" and key :: "'o \<Rightarrow> 'k::linorder"
  assumes better_iff: "better a b \<longleftrightarrow> key a < key b"
begin

lemma fold_eq: "fold_labels better cs l = first_min key (outcomes_of l cs)"
proof (induction cs rule: rev_induct)
  case (snoc c cs)
  obtain label ob where c: "c = (label, ob)" by fastforce
  show ?case
    using snoc
    by (cases "first_min key (outcomes_of l cs)")
       (auto simp: c fold_labels_def fold_label_def better_iff first_min_snoc not_less split: option.splits)
qed (simp add: fold_labels_def)

lemma fold_best:
  "fold_labels better cs l = Some ob \<Longrightarrow> (l, ob) \<in> set cs \<and> (\<forall>ob'. (l, ob') \<in> set cs \<longrightarrow> key ob \<le> key ob')"
  using first_min_Some [of key "outcomes_of l cs" ob] by (auto simp: fold_eq set_outcomes_of)

lemma fold_None: "fold_labels better cs l = None \<longleftrightarrow> l \<notin> fst ` set cs"
  by (force simp: fold_eq outcomes_of_def filter_empty_conv)

lemma any_order:
  assumes "set cs = set cs'"
    and "\<And>l a b. (l, a) \<in> set cs \<Longrightarrow> (l, b) \<in> set cs \<Longrightarrow> key a = key b \<Longrightarrow> a = b"
  shows "fold_labels better cs = fold_labels better cs'"
proof
  fix l
  show "fold_labels better cs l = fold_labels better cs' l"
    unfolding fold_eq by (rule first_min_set) (use assms in \<open>auto simp: set_outcomes_of\<close>)
qed

lemma map_best:
  assumes "fold_labels better (map (\<lambda>p. (label p, f p)) xs) l = Some ob"
  shows "\<exists>p \<in> set xs. label p = l \<and> ob = f p \<and> (\<forall>q \<in> set xs. label q = l \<longrightarrow> key ob \<le> key (f q))"
proof -
  note b = fold_best [OF assms]
  then obtain p where p: "p \<in> set xs" "label p = l" "ob = f p" by auto
  have "key ob \<le> key (f q)" if "q \<in> set xs" "label q = l" for q
    using b that by (metis (mono_tags, lifting) image_eqI list.set_map)
  with p show ?thesis by blast
qed

lemma map_any_order:
  assumes "set xs = set ys"
    and "\<And>p q. p \<in> set xs \<Longrightarrow> q \<in> set xs \<Longrightarrow> label p = label q \<Longrightarrow> key (f p) = key (f q) \<Longrightarrow> f p = f q"
  shows "fold_labels better (map (\<lambda>p. (label p, f p)) xs) = fold_labels better (map (\<lambda>p. (label p, f p)) ys)"
  by (rule any_order) (use assms in auto)

end

definition api_key :: "APIOutcome \<Rightarrow> nat" where
  "api_key ob = 3 - apiOutcomeRank ob"

definition bandwidth_key :: "BandwidthOutcome \<Rightarrow> bool \<times> int" where
  "bandwidth_key ob = (\<not> bo_Reachable ob, - bo_Mbps ob)"

definition trace_key :: "traceOutcome \<Rightarrow> string \<times> string" where
  "trace_key ob = (to_addr ob, to_name ob)"

interpretation api_fold: label_fold betterAPIOutcome api_key
  by unfold_locales (auto simp: betterAPIOutcome_def api_key_def apiOutcomeRank_def)

interpretation bandwidth_fold: label_fold betterBandwidthOutcome bandwidth_key
  by unfold_locales (auto simp: betterBandwidthOutcome_def bandwidth_key_def)

interpretation trace_fold: label_fold betterTraceOutcome trace_key
  by unfold_locales (auto simp: betterTraceOutcome_def trace_key_def)

section \<open>What an outcome says\<close>

lemma api_outcome_cases:
  "api_outcome classify host (reachable, status, body, complete) =
     \<lparr>ao_Server = host, ao_Reachable = reachable,
      ao_Blocked = (reachable \<and> classify status body complete = ApiBlocked),
      ao_Verified = (reachable \<and> classify status body complete \<noteq> ApiUnverified)\<rparr>"
  by (cases "classify status body complete") (auto simp: api_outcome_def Let_def)

definition outcome_ok :: "APIOutcome \<Rightarrow> bool" where
  "outcome_ok ob \<longleftrightarrow>
     (if ao_Blocked ob then ao_Verified ob \<and> ao_Reachable ob else if ao_Verified ob then ao_Reachable ob else True)"

lemma api_outcome_ok [simp]:
  "outcome_ok (api_outcome classify host a)" "ao_Server (api_outcome classify host a) = host"
  by (cases a; auto simp: api_outcome_cases outcome_ok_def)+

lemma deepl_outcome_ok [simp]:
  "outcome_ok (deepl_outcome host tcp udp)" "ao_Server (deepl_outcome host tcp udp) = host"
  by (auto simp: deepl_outcome_def apiProbeOne_def deeplVerdict_def outcome_ok_def Let_def split: option.splits)

lemma api_key_inject:
  assumes "api_key a = api_key b" "ao_Server a = ao_Server b" "outcome_ok a" "outcome_ok b"
  shows "a = b"
proof (rule APIOutcome.equality)
  have r: "apiOutcomeRank ob \<le> 3" for ob by (simp add: apiOutcomeRank_def)
  have "apiOutcomeRank a = apiOutcomeRank b" using assms(1) r [of a] r [of b] by (simp add: api_key_def)
  then show "ao_Blocked a = ao_Blocked b" "ao_Verified a = ao_Verified b" "ao_Reachable a = ao_Reachable b"
    using assms(3,4) by (auto simp: apiOutcomeRank_def outcome_ok_def split: if_splits)
qed (use assms(2) in simp_all)

lemma bandwidth_outcome_server [simp]: "bo_Server (bandwidth_outcome host a) = host"
  by (cases a) (simp add: bandwidth_outcome_def)

lemma bandwidth_key_inject:
  "bandwidth_key a = bandwidth_key b \<Longrightarrow> bo_Server a = bo_Server b \<Longrightarrow> a = b"
  by (cases a; cases b) (auto simp: bandwidth_key_def)

text \<open>
  Whatever order the concurrent workers finish in, a through-node check returns the same map:
  the API checks, DeepL's two-transport check and the bandwidth check where the proxies of a label
  share a host (they come from one link), the trace where a proxy is named by its address and name.
\<close>

theorem check_schedule_free:
  assumes "mset finished = mset finished'"
    and hosts: "\<forall>p \<in> set finished. \<forall>q \<in> set finished. px_label v p = px_label v q \<longrightarrow> px_host v p = px_host v q"
    and names: "\<forall>p \<in> set finished. \<forall>q \<in> set finished.
      px_addr v p = px_addr v q \<and> px_name v p = px_name v q \<longrightarrow> p = q"
  shows "apiCheck v classify readBody answer finished = apiCheck v classify readBody answer finished' \<and>
     DeeplCheck v answer udp finished = DeeplCheck v answer udp finished' \<and>
     BandwidthCheck v rate dl finished = BandwidthCheck v rate dl finished' \<and>
     TraceCheck v answer finished = TraceCheck v answer finished'"
proof (intro conjI)
  have set: "set finished = set finished'" using assms(1) by (rule mset_eq_setD)
  have host: "px_host v p = px_host v q"
    if "p \<in> set finished" "q \<in> set finished" "px_label v p = px_label v q" for p q
    by (rule hosts [rule_format, OF that])
  show "apiCheck v classify readBody answer finished = apiCheck v classify readBody answer finished'"
    unfolding apiCheck_def
    by (rule api_fold.map_any_order [OF set], rule api_key_inject) (assumption | rule api_outcome_ok deepl_outcome_ok | simp only: api_outcome_ok deepl_outcome_ok, rule host)+
  show "DeeplCheck v answer udp finished = DeeplCheck v answer udp finished'"
    unfolding DeeplCheck_def
    by (rule api_fold.map_any_order [OF set], rule api_key_inject) (assumption | rule api_outcome_ok deepl_outcome_ok | simp only: api_outcome_ok deepl_outcome_ok, rule host)+
  show "BandwidthCheck v rate dl finished = BandwidthCheck v rate dl finished'"
    unfolding BandwidthCheck_def
    by (rule bandwidth_fold.map_any_order [OF set], rule bandwidth_key_inject)
       (assumption | simp only: bandwidth_outcome_server, rule host)+
  have "trace_winners v answer finished = trace_winners v answer finished'"
    unfolding trace_winners_def
  proof (rule trace_fold.any_order)
    show "set (List.map_filter (trace_candidate v answer) finished) = set (List.map_filter (trace_candidate v answer) finished')"
      using set by (auto simp: in_map_filter)
  next
    fix l a b
    assume "(l, a) \<in> set (List.map_filter (trace_candidate v answer) finished)"
      and "(l, b) \<in> set (List.map_filter (trace_candidate v answer) finished)"
    then obtain p q where p: "p \<in> set finished" "trace_candidate v answer p = Some (l, a)"
      and q: "q \<in> set finished" "trace_candidate v answer q = Some (l, b)"
      by (auto simp: in_map_filter)
    assume "trace_key a = trace_key b"
    with p(2) q(2) have "px_addr v p = px_addr v q \<and> px_name v p = px_name v q"
      by (auto simp: trace_key_def trace_candidate_def split: option.splits)
    with p(1) q(1) names have "p = q" by blast
    with p q show "a = b" by simp
  qed
  then show "TraceCheck v answer finished = TraceCheck v answer finished'" by (simp add: TraceCheck_def fun_eq_iff)
qed

definition sample_view :: "nat proxy_view" where
  "sample_view = \<lparr>px_label = (\<lambda>_. ''a-001''), px_host = (\<lambda>_. ''h''), px_addr = (\<lambda>_. ''h:1''), px_name = itoa\<rparr>"

lemma check_schedule_free_witness:
  "apiCheck sample_view tidalVerdict False (\<lambda>p. Some \<lparr>ha_Status = 200 + int p, ha_Body = [], ha_Broken = False\<rparr>)
       [1, 100, 2] =
   apiCheck sample_view tidalVerdict False (\<lambda>p. Some \<lparr>ha_Status = 200 + int p, ha_Body = [], ha_Broken = False\<rparr>)
       [100, 2, 1]"
  by (rule conjunct1 [OF check_schedule_free]) (simp_all add: sample_view_def)

section \<open>What the Gemini gate's verdict rests on\<close>

text \<open>The bytes of an answer the check reads, and an answer read to its end.\<close>

definition seen_body :: "http_answer \<Rightarrow> string" where
  "seen_body resp = take (maxAPIBody + 1) (ha_Body resp)"

definition read_whole :: "http_answer \<Rightarrow> bool" where
  "read_whole resp \<longleftrightarrow> length (ha_Body resp) \<le> maxAPIBody \<and> \<not> ha_Broken resp"

lemma apiProbeOne_Some:
  "apiProbeOne (Some resp) True = (True, ha_Status resp, seen_body resp, read_whole resp)"
  by (auto simp: apiProbeOne_def seen_body_def read_whole_def Let_def)

lemma gemini_verdict_cases:
  "geminiVerdict status body marker complete = ApiBlocked \<longleftrightarrow> markerBlocked body marker"
  "geminiVerdict status body marker complete = ApiAccepted \<longleftrightarrow>
     \<not> markerBlocked body marker \<and> complete \<and> 200 \<le> status \<and> status < 300"
  by (auto simp: geminiVerdict_def geminiInconclusive_def)

definition gemini_passed :: "string \<Rightarrow> http_answer \<Rightarrow> bool" where
  "gemini_passed marker r \<longleftrightarrow>
     200 \<le> ha_Status r \<and> ha_Status r < 300 \<and> read_whole r \<and> \<not> markerBlocked (seen_body r) marker"

lemma gemini_outcome:
  "api_outcome (\<lambda>status body complete. geminiVerdict status body marker complete) host (apiProbeOne answer True) =
     \<lparr>ao_Server = host, ao_Reachable = (answer \<noteq> None),
      ao_Blocked = (case answer of None \<Rightarrow> False | Some r \<Rightarrow> markerBlocked (seen_body r) marker),
      ao_Verified = (case answer of None \<Rightarrow> False
         | Some r \<Rightarrow> markerBlocked (seen_body r) marker \<or> gemini_passed marker r)\<rparr>"
proof (cases answer)
  case None
  then show ?thesis by (simp add: apiProbeOne_def api_outcome_cases)
next
  case (Some r)
  have "v \<noteq> ApiUnverified \<longleftrightarrow> v = ApiBlocked \<or> v = ApiAccepted" for v by (cases v) auto
  with Some show ?thesis
    by (auto simp: apiProbeOne_Some api_outcome_cases gemini_verdict_cases gemini_passed_def)
qed

definition gemini_score :: "string \<Rightarrow> http_answer option \<Rightarrow> nat" where
  "gemini_score marker answer =
     (case answer of
        None \<Rightarrow> 0
      | Some r \<Rightarrow> if markerBlocked (seen_body r) marker then 2 else if gemini_passed marker r then 3 else 1)"

definition gemini_outcome_of :: "'p proxy_view \<Rightarrow> string \<Rightarrow> ('p \<Rightarrow> http_answer option) \<Rightarrow> 'p \<Rightarrow> APIOutcome" where
  "gemini_outcome_of v marker answer p =
     api_outcome (\<lambda>status body complete. geminiVerdict status body marker complete) (px_host v p) (apiProbeOne (answer p) True)"

lemma gemini_rank: "apiOutcomeRank (gemini_outcome_of v marker answer p) = gemini_score marker (answer p)"
  unfolding gemini_outcome_of_def gemini_outcome gemini_score_def
  by (auto simp: apiOutcomeRank_def gemini_passed_def split: option.splits)

lemma GeminiCheck_fold:
  "fst (GeminiCheck v marker answer pxs) =
     fold_labels betterAPIOutcome (map (\<lambda>p. (px_label v p, gemini_outcome_of v marker answer p)) pxs)"
  by (simp add: GeminiCheck_def apiCheck_def gemini_outcome_of_def)

lemma gemini_best:
  assumes "fst (GeminiCheck v marker answer pxs) label = Some ob"
  shows "\<exists>p \<in> set pxs. px_label v p = label \<and> ob = gemini_outcome_of v marker answer p \<and>
     (\<forall>q \<in> set pxs. px_label v q = label \<longrightarrow> gemini_score marker (answer q) \<le> gemini_score marker (answer p))"
proof -
  have key: "gemini_score marker (answer q) \<le> gemini_score marker (answer p)"
    if "api_key (gemini_outcome_of v marker answer p) \<le> api_key (gemini_outcome_of v marker answer q)" for p q
  proof -
    have "gemini_score marker a \<le> 3" for a by (simp add: gemini_score_def split: option.split)
    from this [of "answer p"] this [of "answer q"] show ?thesis using that by (simp add: api_key_def gemini_rank)
  qed
  show ?thesis
    using api_fold.map_best [OF assms [unfolded GeminiCheck_fold]] key by blast
qed

lemma gemini_none:
  "fst (GeminiCheck v marker answer pxs) label = None \<longleftrightarrow> \<not> list_ex (\<lambda>p. px_label v p = label) pxs"
  unfolding GeminiCheck_fold api_fold.fold_None by (auto simp: list_ex_iff image_iff)

text \<open>The answers of a label's ports.\<close>

definition label_replies :: "'p proxy_view \<Rightarrow> ('p \<Rightarrow> http_answer option) \<Rightarrow> 'p list \<Rightarrow> string \<Rightarrow> http_answer list" where
  "label_replies v answer pxs label = List.map_filter answer (filter (\<lambda>p. px_label v p = label) pxs)"

lemma set_label_replies:
  "r \<in> set (label_replies v answer pxs label) \<longleftrightarrow> (\<exists>p \<in> set pxs. px_label v p = label \<and> answer p = Some r)"
  unfolding label_replies_def in_map_filter by force

text \<open>
  What the Gemini gate says of an entry rests on its ports' answers. Blocked: no port was
  accepted and the marker is in the bytes read from one of them. Passed: one port's 2xx answer was
  read to its end without the marker. Unverified: a port answered, none showed the marker, none was
  accepted. Unreachable: no port answered. An entry without a proxy has no outcome.
\<close>

theorem gemini_verdict_evidence:
  "(case fst (GeminiCheck v marker answer pxs) label of
      None \<Rightarrow> \<not> list_ex (\<lambda>p. px_label v p = label) pxs
    | Some ob \<Rightarrow>
        (let replies = label_replies v answer pxs label;
             passed = list_ex (gemini_passed marker) replies;
             refused = list_ex (\<lambda>r. markerBlocked (seen_body r) marker) replies
         in if ao_Blocked ob then refused \<and> \<not> passed
            else if ao_Verified ob then passed
            else if ao_Reachable ob then replies \<noteq> [] \<and> \<not> refused \<and> \<not> passed
            else replies = []))"
proof (cases "fst (GeminiCheck v marker answer pxs) label")
  case None
  then show ?thesis using gemini_none [of v marker answer pxs label] by simp
next
  case (Some ob)
  obtain p where p: "p \<in> set pxs" "px_label v p = label" "ob = gemini_outcome_of v marker answer p"
    and best: "\<And>q. q \<in> set pxs \<Longrightarrow> px_label v q = label \<Longrightarrow> gemini_score marker (answer q) \<le> gemini_score marker (answer p)"
    using gemini_best [OF Some] by blast
  define rs where "rs = label_replies v answer pxs label"
  have score: "(if markerBlocked (seen_body r) marker then 2 else if gemini_passed marker r then 3 else 1) \<le>
      gemini_score marker (answer p)" if heard: "r \<in> set rs" for r
  proof -
    obtain q where "q \<in> set pxs" "px_label v q = label" "answer q = Some r"
      using heard unfolding rs_def set_label_replies by blast
    with best [of q] show ?thesis by (simp add: gemini_score_def)
  qed
  have clean: "\<not> markerBlocked (seen_body r) marker" if "r \<in> set rs" "gemini_score marker (answer p) \<le> 1" for r
    using score [OF that(1)] that(2) by (auto split: if_splits)
  have nopass: "\<not> gemini_passed marker r" if "r \<in> set rs" "gemini_score marker (answer p) \<le> 2" for r
    using score [OF that(1)] that(2) by (auto simp: gemini_passed_def split: if_splits)
  note flags = p(3) gemini_outcome_of_def gemini_outcome
  show ?thesis
  proof (cases "answer p")
    case None
    then have "False" if "r \<in> set rs" for r
      using score [OF that] by (simp add: gemini_score_def split: if_splits)
    then have "rs = []" by (metis list.set_intros(1) neq_Nil_conv)
    then show ?thesis by (simp add: Some flags None rs_def)
  next
    case (Some r)
    then have r: "r \<in> set rs" unfolding rs_def set_label_replies using p(1,2) by blast
    define R where "R \<longleftrightarrow> list_ex (\<lambda>r. markerBlocked (seen_body r) marker) rs"
    define P where "P \<longleftrightarrow> list_ex (gemini_passed marker) rs"
    have s: "gemini_score marker (answer p) =
        (if markerBlocked (seen_body r) marker then 2 else if gemini_passed marker r then 3 else 1)"
      by (simp add: Some gemini_score_def)
    have "\<not> P" if "gemini_score marker (answer p) \<le> 2" unfolding P_def list_ex_iff using nopass that by blast
    moreover have "\<not> R" if "gemini_score marker (answer p) \<le> 1" unfolding R_def list_ex_iff using clean that by blast
    moreover have R if "markerBlocked (seen_body r) marker" unfolding R_def list_ex_iff using that r by blast
    moreover have P if "gemini_passed marker r" unfolding P_def list_ex_iff using that r by blast
    ultimately have "(if markerBlocked (seen_body r) marker then R \<and> \<not> P
           else if gemini_passed marker r then P else \<not> R \<and> \<not> P)" using s by simp
    moreover have "rs \<noteq> []" using r by auto
    ultimately show ?thesis
      unfolding \<open>fst (GeminiCheck v marker answer pxs) label = Some ob\<close> option.case Let_def
        rs_def [symmetric] R_def [symmetric] P_def [symmetric]
      by (simp add: flags Some split: if_splits)
  qed
qed

end
