(* ===== verification/HostPort.thy ===== *)
theory HostPort
  imports Asn
begin

text \<open>
  What the prober uses of Go's \<^verbatim>\<open>net\<close>, \<^verbatim>\<open>net/netip\<close> and \<^verbatim>\<open>strconv\<close>: splitting and joining
  \<^verbatim>\<open>host:port\<close>, the text of an address, and \<^verbatim>\<open>ParseInt\<close> with the base read off the prefix.
\<close>

section \<open>Host and port\<close>

definition SplitHostPort :: "string \<Rightarrow> (string \<times> string) option" where
  "SplitHostPort hostport =
     (case last_index_byte CHR '':'' hostport of
        None \<Rightarrow> None
      | Some i \<Rightarrow>
          (if hd hostport = CHR ''['' then
             (case index_byte CHR '']'' hostport of
                None \<Rightarrow> None
              | Some end \<Rightarrow>
                  (if end + 1 \<noteq> i then None
                   else if CHR ''['' \<in> set (drop 1 hostport) \<or> CHR '']'' \<in> set (drop (end + 1) hostport) then None
                   else Some (drop 1 (take end hostport), drop (i + 1) hostport)))
           else if CHR '':'' \<in> set (take i hostport) then None
           else if CHR ''['' \<in> set hostport \<or> CHR '']'' \<in> set hostport then None
           else Some (take i hostport, drop (i + 1) hostport)))"

definition JoinHostPort :: "string \<Rightarrow> string \<Rightarrow> string" where
  "JoinHostPort host port =
     (if CHR '':'' \<in> set host then ''['' @ host @ '']:'' @ port else host @ '':'' @ port)"

lemma last_byte_append:
  "c \<notin> set b \<Longrightarrow> last_index_byte c (a @ c # b) = Some (length a)"
proof (induction a)
  case Nil
  then have "last_index_byte c b = None" by (induction b) auto
  then show ?case by simp
qed simp

lemma SplitHostPort_plain:
  assumes "list_all (\<lambda>c. c \<noteq> CHR '':'' \<and> c \<noteq> CHR ''['' \<and> c \<noteq> CHR '']'') (host @ port)"
  shows "SplitHostPort (host @ '':'' @ port) = Some (host, port)"
proof -
  have "last_index_byte CHR '':'' (host @ CHR '':'' # port) = Some (length host)"
    using assms by (intro last_byte_append) (auto simp: list_all_iff)
  moreover have "hd (host @ CHR '':'' # port) \<noteq> CHR ''[''" using assms by (cases host) auto
  ultimately show ?thesis using assms by (auto simp: SplitHostPort_def list_all_iff)
qed

section \<open>The text of an address\<close>

definition hex_char :: "nat \<Rightarrow> char" where
  "hex_char d = ''0123456789abcdef'' ! d"

fun hex_digits :: "nat \<Rightarrow> string" where
  "hex_digits n = (if n < 16 then [hex_char n] else hex_digits (n div 16) @ [hex_char (n mod 16)])"

declare hex_digits.simps [simp del]

definition v4_text :: "32 word \<Rightarrow> string" where
  "v4_text w = octet w 0 @ ''.'' @ octet w 1 @ ''.'' @ octet w 2 @ ''.'' @ octet w 3"

definition v6_groups :: "addr \<Rightarrow> nat list" where
  "v6_groups a =
     (let (hi, lo) = As16 a
      in map (\<lambda>i. unat (drop_bit (48 - 16 * i) hi AND 0xFFFF)) [0..<4] @
         map (\<lambda>i. unat (drop_bit (48 - 16 * i) lo AND 0xFFFF)) [0..<4])"

text \<open>The first of the longest runs of at least two zero groups, as its start and end.\<close>

definition zero_run :: "nat list \<Rightarrow> nat \<times> nat" where
  "zero_run gs =
     foldl (\<lambda>(s, e) i. let j = i + length (takeWhile (\<lambda>g. g = 0) (drop i gs))
        in if j - i \<ge> 2 \<and> j - i > e - s then (i, j) else (s, e)) (255, 255) [0..<8]"

fun groups_text :: "nat \<Rightarrow> nat \<Rightarrow> nat \<Rightarrow> nat list \<Rightarrow> string" where
  "groups_text zs ze i [] = []"
| "groups_text zs ze i (g # gs) =
     (if i = zs then ''::'' @ groups_text zs ze (i + 1) gs
      else if zs < i \<and> i < ze then groups_text zs ze (i + 1) gs
      else (if i > 0 \<and> i \<noteq> ze then '':'' else []) @ hex_digits g @ groups_text zs ze (i + 1) gs)"

definition addr_String :: "addr \<Rightarrow> string" where
  "addr_String a =
     (case a of
        NoAddr \<Rightarrow> ''invalid IP''
      | V4 w \<Rightarrow> v4_text w
      | _ \<Rightarrow>
          (let body = (if Is4In6 a then ''::ffff:'' @ (case Unmap a of V4 w \<Rightarrow> v4_text w | _ \<Rightarrow> [])
                       else let gs = v6_groups a; (zs, ze) = zero_run gs in groups_text zs ze 0 gs)
           in body @ (if Zone a = [] then [] else ''%'' @ Zone a)))"

section \<open>Integers with a base prefix\<close>

definition lower_or :: "char \<Rightarrow> nat" where
  "lower_or c = or (byte c) 32"

definition base_digit :: "char \<Rightarrow> nat option" where
  "base_digit c =
     (if is_digit c then Some (byte c - 48)
      else if 97 \<le> lower_or c \<and> lower_or c \<le> 122 then Some (lower_or c - 97 + 10) else None)"

fun base_value :: "nat \<Rightarrow> nat \<Rightarrow> string \<Rightarrow> nat option" where
  "base_value base n [] = Some n"
| "base_value base n (c # s) =
     (if c = CHR ''_'' then base_value base n s
      else case base_digit c of
        None \<Rightarrow> None
      | Some d \<Rightarrow>
          (if d \<ge> base \<or> n * base + d \<ge> 2 ^ 64 then None else base_value base (n * base + d) s))"

text \<open>\<open>saw\<close> is the class of the last character: \<open>^\<close> none, \<open>0\<close> a digit, \<open>_\<close>, \<open>!\<close> another.\<close>

fun underscore_loop :: "bool \<Rightarrow> char \<Rightarrow> string \<Rightarrow> bool" where
  "underscore_loop hex saw [] \<longleftrightarrow> saw \<noteq> CHR ''_''"
| "underscore_loop hex saw (c # s) \<longleftrightarrow>
     (if is_digit c \<or> hex \<and> 97 \<le> lower_or c \<and> lower_or c \<le> 102 then underscore_loop hex CHR ''0'' s
      else if c = CHR ''_'' then (if saw \<noteq> CHR ''0'' then False else underscore_loop hex CHR ''_'' s)
      else if saw = CHR ''_'' then False
      else underscore_loop hex CHR ''!'' s)"

definition base_prefix :: "string \<Rightarrow> nat \<Rightarrow> char option" where
  "base_prefix s n =
     (if length s \<ge> n \<and> s \<noteq> [] \<and> hd s = CHR ''0'' \<and> lower_or (s ! 1) \<in> {98, 111, 120}
      then Some (char_of (lower_or (s ! 1))) else None)"

definition underscoreOK :: "string \<Rightarrow> bool" where
  "underscoreOK s0 =
     (let s = (if s0 \<noteq> [] \<and> (hd s0 = CHR ''-'' \<or> hd s0 = CHR ''+'') then tl s0 else s0)
      in case base_prefix s 2 of
           Some b \<Rightarrow> underscore_loop (b = CHR ''x'') CHR ''0'' (drop 2 s)
         | None \<Rightarrow> underscore_loop False CHR ''^'' s)"

definition parse_uint_base0 :: "string \<Rightarrow> nat option" where
  "parse_uint_base0 s =
     (if s = [] then None
      else let (base, digits) =
             (if hd s \<noteq> CHR ''0'' then (10, s)
              else case base_prefix s 3 of
                     Some b \<Rightarrow> (if b = CHR ''b'' then 2 else if b = CHR ''o'' then 8 else 16, drop 2 s)
                   | None \<Rightarrow> (8, drop 1 s))
           in case base_value base 0 digits of
                None \<Rightarrow> None
              | Some n \<Rightarrow> (if CHR ''_'' \<in> set digits \<and> \<not> underscoreOK s then None else Some n))"

text \<open>\<^verbatim>\<open>strconv.ParseInt(s, 0, 64)\<close>\<close>

definition ParseInt0 :: "string \<Rightarrow> int option" where
  "ParseInt0 s0 =
     (if s0 = [] then None
      else let neg = (hd s0 = CHR ''-''); s = (if hd s0 = CHR ''+'' \<or> neg then tl s0 else s0)
           in case parse_uint_base0 s of
                None \<Rightarrow> None
              | Some un \<Rightarrow>
                  (if \<not> neg \<and> un \<ge> 2 ^ 63 then None
                   else if neg \<and> un > 2 ^ 63 then None
                   else Some (if neg then - int un else int un)))"

end
