(* ===== verification/TtlCaches.thy ===== *)
theory TtlCaches
  imports Netip
begin

text \<open>
  The two blocklists with an expiry: \<^verbatim>\<open>internal/stable/deadset.go\<close> (endpoints that failed a
  probe, in memory) and \<^verbatim>\<open>internal/geoblock/store.go\<close> (hosts that failed an API check, in
  memory and in a table that survives a restart). Times are nanoseconds. The locale
  \<open>ttl_blocklist\<close> is what the pipeline relies on in both: a key is blocked exactly until the
  expiry its last block gave it, other keys are untouched, and pruning is invisible.
\<close>

section \<open>The dead set\<close>

type_synonym deadKey = "string \<times> addr"

record DeadSet =
  dead_ttl :: int
  dead_m :: "deadKey \<rightharpoonup> int"

definition NewDeadSet :: "int \<Rightarrow> DeadSet" where
  "NewDeadSet ttl = \<lparr>dead_ttl = ttl, dead_m = Map.empty\<rparr>"

definition dead_Blocked :: "DeadSet \<Rightarrow> deadKey \<Rightarrow> int \<Rightarrow> bool" where
  "dead_Blocked d k now = (case dead_m d k of None \<Rightarrow> False | Some exp \<Rightarrow> exp > now)"

text \<open>\<open>draw\<close> is the random part, \<^verbatim>\<open>rand.Float64()*0.5*float64(ttl)\<close> truncated.\<close>

definition jitteredTTL :: "int \<Rightarrow> int \<Rightarrow> int" where
  "jitteredTTL draw ttl = (if ttl \<le> 0 then ttl else ttl + draw)"

definition dead_Block :: "deadKey \<times> int \<Rightarrow> int \<Rightarrow> DeadSet \<Rightarrow> DeadSet" where
  "dead_Block a now d =
     (let exp = now + jitteredTTL (snd a) (dead_ttl d)
      in d\<lparr>dead_m := (dead_m d)(fst a \<mapsto> exp)\<rparr>)"

definition drop_expired :: "int \<Rightarrow> ('k \<rightharpoonup> int) \<Rightarrow> ('k \<rightharpoonup> int)" where
  "drop_expired now m k =
     (case m k of None \<Rightarrow> None | Some e \<Rightarrow> (if e \<le> now then None else Some e))"

definition dead_Prune :: "int \<Rightarrow> DeadSet \<Rightarrow> DeadSet" where
  "dead_Prune now d = d\<lparr>dead_m := drop_expired now (dead_m d)\<rparr>"

section \<open>The geoblock store\<close>

text \<open>
  The table is the list of its rows, its host column the primary key. \<open>uni\<close> is the Unicode
  part of \<^verbatim>\<open>strings.ToLower\<close>; a failing SQL statement is \<open>db_ok = False\<close>.
\<close>

record Store =
  db :: "(string \<times> int) list"
  store_ttl :: int
  blocked :: "string \<rightharpoonup> int"

definition trim_suffix_dot :: "string \<Rightarrow> string" where
  "trim_suffix_dot s = (if s \<noteq> [] \<and> last s = CHR ''.'' then butlast s else s)"

definition hostKey :: "(string \<Rightarrow> string) \<Rightarrow> string \<Rightarrow> string" where
  "hostKey uni host = trim_suffix_dot (to_lower uni host)"

text \<open>The statements: delete the expired rows, and the upsert.\<close>

definition delete_expired :: "int \<Rightarrow> (string \<times> int) list \<Rightarrow> (string \<times> int) list" where
  "delete_expired now rows = filter (\<lambda>r. \<not> snd r \<le> now) rows"

definition upsert :: "string \<Rightarrow> int \<Rightarrow> (string \<times> int) list \<Rightarrow> (string \<times> int) list" where
  "upsert host exp rows =
     (if host \<in> set (map fst rows)
      then map (\<lambda>r. if fst r = host then (host, exp) else r) rows
      else rows @ [(host, exp)])"

definition load_row :: "(string \<Rightarrow> string) \<Rightarrow> (string \<rightharpoonup> int) \<Rightarrow> string \<times> int \<Rightarrow> (string \<rightharpoonup> int)" where
  "load_row uni m row =
     (let key = hostKey uni (fst row); exp = snd row
      in if exp > (case m key of None \<Rightarrow> 0 | Some e \<Rightarrow> e) then m(key \<mapsto> exp) else m)"

definition store_load :: "(string \<Rightarrow> string) \<Rightarrow> int \<Rightarrow> Store \<Rightarrow> Store" where
  "store_load uni now s =
     (let rows = delete_expired now (db s)
      in s\<lparr>db := rows,
           blocked := foldl (load_row uni) (blocked s) (filter (\<lambda>r. snd r > now) rows)\<rparr>)"

definition Open :: "(string \<Rightarrow> string) \<Rightarrow> int \<Rightarrow> (string \<times> int) list \<Rightarrow> int \<Rightarrow> Store" where
  "Open uni now rows ttl = store_load uni now \<lparr>db = rows, store_ttl = ttl, blocked = Map.empty\<rparr>"

definition store_Blocked :: "(string \<Rightarrow> string) \<Rightarrow> Store \<Rightarrow> string \<Rightarrow> int \<Rightarrow> bool" where
  "store_Blocked uni s host now =
     (if host = [] then False
      else case blocked s (hostKey uni host) of None \<Rightarrow> False | Some exp \<Rightarrow> exp > now)"

definition store_Block :: "(string \<Rightarrow> string) \<Rightarrow> string \<times> bool \<Rightarrow> int \<Rightarrow> Store \<Rightarrow> Store \<times> string option" where
  "store_Block uni a now s =
     (let (host, db_ok) = a
      in if host = [] then (s, None)
         else let key = hostKey uni host; exp = now + store_ttl s;
                  s' = s\<lparr>blocked := (blocked s)(key \<mapsto> exp)\<rparr>
              in if db_ok then (s'\<lparr>db := upsert key exp (db s')\<rparr>, None) else (s', Some key))"

definition store_Prune :: "bool \<Rightarrow> int \<Rightarrow> Store \<Rightarrow> Store" where
  "store_Prune db_ok now s =
     (let s' = s\<lparr>blocked := drop_expired now (blocked s)\<rparr>
      in if db_ok then s'\<lparr>db := delete_expired now (db s')\<rparr> else s')"

definition Count :: "Store \<Rightarrow> nat" where
  "Count s = card (dom (blocked s))"

section \<open>The contract of a blocklist\<close>

datatype 'a ttl_event = BlockAt 'a int | PruneAt int

locale ttl_blocklist =
  fixes is_blocked :: "'s \<Rightarrow> 'k \<Rightarrow> int \<Rightarrow> bool"
    and block :: "'a \<Rightarrow> int \<Rightarrow> 's \<Rightarrow> 's"
    and prune :: "int \<Rightarrow> 's \<Rightarrow> 's"
    and ttl_of :: "'s \<Rightarrow> int"
    and key_arg :: "'a \<Rightarrow> 'c option"
    and key_of :: "'k \<Rightarrow> 'c option"
    and life :: "'a \<Rightarrow> int \<Rightarrow> int"
  assumes blocked_block: "is_blocked (block a now s) k t \<longleftrightarrow>
      (if key_arg a \<noteq> None \<and> key_arg a = key_of k then t < now + life a (ttl_of s)
       else is_blocked s k t)"
    and blocked_prune: "now \<le> t \<Longrightarrow> is_blocked (prune now s) k t \<longleftrightarrow> is_blocked s k t"
    and ttl_block [simp]: "ttl_of (block a now s) = ttl_of s"
    and ttl_prune [simp]: "ttl_of (prune now s) = ttl_of s"
begin

fun apply_event :: "'a ttl_event \<Rightarrow> 's \<Rightarrow> 's" where
  "apply_event (BlockAt a now) s = block a now s"
| "apply_event (PruneAt now) s = prune now s"

fun event_time :: "'a ttl_event \<Rightarrow> int" where
  "event_time (BlockAt a now) = now"
| "event_time (PruneAt now) = now"

text \<open>The expiry the latest block of a key in a history gave it.\<close>

fun last_expiry :: "int \<Rightarrow> 'k \<Rightarrow> 'a ttl_event list \<Rightarrow> int option" where
  "last_expiry ttl k [] = None"
| "last_expiry ttl k (e # es) =
     (case last_expiry ttl k es of
        Some x \<Rightarrow> Some x
      | None \<Rightarrow>
          (case e of
             PruneAt now \<Rightarrow> None
           | BlockAt a now \<Rightarrow>
               (if key_arg a \<noteq> None \<and> key_arg a = key_of k then Some (now + life a ttl) else None)))"

lemma history:
  assumes "\<forall>e \<in> set es. event_time e \<le> t"
  shows "is_blocked (fold apply_event es s) k t \<longleftrightarrow>
     (case last_expiry (ttl_of s) k es of Some x \<Rightarrow> t < x | None \<Rightarrow> is_blocked s k t)"
  using assms
proof (induction es arbitrary: s)
  case (Cons e es)
  then show ?case
    by (cases e) (auto simp: blocked_block blocked_prune split: option.splits)
qed simp

end

lemma drop_expired_live:
  "now \<le> t \<Longrightarrow>
     (case drop_expired now m k of None \<Rightarrow> False | Some e \<Rightarrow> t < e) \<longleftrightarrow>
     (case m k of None \<Rightarrow> False | Some e \<Rightarrow> t < e)"
  by (auto simp: drop_expired_def split: option.splits)

interpretation dead_list: ttl_blocklist dead_Blocked dead_Block dead_Prune dead_ttl
  "\<lambda>a. Some (fst a)" "Some" "\<lambda>a. jitteredTTL (snd a)"
proof
  show "dead_Blocked (dead_Prune now s) k t \<longleftrightarrow> dead_Blocked s k t" if "now \<le> t" for now t s k
    using drop_expired_live [OF that] by (simp add: dead_Blocked_def dead_Prune_def)
qed (auto simp: dead_Blocked_def dead_Block_def dead_Prune_def Let_def)

definition store_key :: "(string \<Rightarrow> string) \<Rightarrow> string \<Rightarrow> string option" where
  "store_key uni h = (if h = [] then None else Some (hostKey uni h))"

interpretation store_list: ttl_blocklist "store_Blocked uni" "\<lambda>a now s. fst (store_Block uni a now s)"
  "store_Prune ok" store_ttl "\<lambda>a. store_key uni (fst a)" "store_key uni" "\<lambda>a ttl. ttl"
  for uni ok
proof
  show "store_Blocked uni (store_Prune ok now s) k t \<longleftrightarrow> store_Blocked uni s k t"
    if "now \<le> t" for now t s k
    by (simp add: store_Blocked_def store_Prune_def Let_def drop_expired_live [OF that])
qed (auto simp: store_Blocked_def store_Block_def store_Prune_def store_key_def Let_def
    split: prod.splits)

section \<open>Loading the table\<close>

definition latest :: "(string \<Rightarrow> string) \<Rightarrow> string \<Rightarrow> int \<Rightarrow> (string \<times> int) list \<Rightarrow> bool" where
  "latest uni key t rows \<longleftrightarrow> (\<exists>r \<in> set rows. hostKey uni (fst r) = key \<and> snd r > t)"

lemma foldl_load_row:
  assumes "0 \<le> t"
  shows "(case foldl (load_row uni) m rows key of None \<Rightarrow> False | Some e \<Rightarrow> e > t) \<longleftrightarrow>
     (case m key of None \<Rightarrow> False | Some e \<Rightarrow> e > t) \<or> latest uni key t rows"
proof (induction rows arbitrary: m)
  case (Cons r rows)
  have "(case load_row uni m r key of None \<Rightarrow> False | Some e \<Rightarrow> e > t) \<longleftrightarrow>
      (case m key of None \<Rightarrow> False | Some e \<Rightarrow> e > t) \<or> (hostKey uni (fst r) = key \<and> snd r > t)"
    using assms by (auto simp: load_row_def Let_def split: option.splits)
  with Cons show ?case by (auto simp: latest_def)
qed (simp add: latest_def)

lemma Open_Blocked:
  assumes "0 \<le> now" "now \<le> t"
  shows "store_Blocked uni (Open uni now rows ttl) host t \<longleftrightarrow>
     host \<noteq> [] \<and> (\<exists>r \<in> set rows. hostKey uni (fst r) = hostKey uni host \<and> snd r > t)"
proof -
  have "latest uni key t (filter (\<lambda>r. snd r > now) (delete_expired now rows)) \<longleftrightarrow> latest uni key t rows"
    for key
    using assms by (force simp: latest_def delete_expired_def)
  then show ?thesis
    using foldl_load_row [of t uni Map.empty] assms
    by (simp add: store_Blocked_def Open_def store_load_def Let_def latest_def)
qed

lemma upsert_in: "(key, exp) \<in> set (upsert key exp rows)"
  by (force simp: upsert_def)

section \<open>Properties\<close>

text \<open>
  the dead set after any history of blocks and prunes, up to the time of the question: a
  key is blocked exactly when the expiry its latest block drew lies ahead, or it was never
  blocked in the history and was blocked before. Pruning never changes an answer.
\<close>

theorem dead_set_history:
  assumes "\<forall>e \<in> set es. dead_list.event_time e \<le> t"
  shows "dead_Blocked (fold dead_list.apply_event es d) k t \<longleftrightarrow>
     (case dead_list.last_expiry (dead_ttl d) k es of
        Some x \<Rightarrow> t < x | None \<Rightarrow> dead_Blocked d k t)"
  using assms by (rule dead_list.history)

theorem dead_set_history_witness:
  "dead_Blocked (fold dead_list.apply_event
      [BlockAt ((''h:1'', V4 7), 3) 100, PruneAt 104] (NewDeadSet 10)) (''h:1'', V4 7) 112"
  using dead_set_history [of "[BlockAt ((''h:1'', V4 7), 3) 100, PruneAt 104]" 112 "NewDeadSet 10"
      "(''h:1'', V4 7)"]
  by (simp add: NewDeadSet_def jitteredTTL_def)

lemmas host_eval =
  hostKey_def to_lower_def trim_suffix_dot_def is_ascii_def lower_byte_Char is_upper_def

lemma store_key_examples:
  "store_key id ''A.b.'' = Some ''a.b''" "store_key id ''a.B'' = Some ''a.b''"
  by (simp_all add: store_key_def host_eval)

text \<open>
  the same for the geoblock store, whose keys fold case and one trailing dot: blocking a
  host under one spelling blocks it under every other, until the latest expiry given to any
  of them, whether or not the database accepted the writes.
\<close>

theorem geoblock_history:
  assumes "\<forall>e \<in> set es. store_list.event_time e \<le> t"
  shows "store_Blocked uni (fold (store_list.apply_event uni ok) es s) host t \<longleftrightarrow>
     (case store_list.last_expiry uni (store_ttl s) host es of
        Some x \<Rightarrow> t < x | None \<Rightarrow> store_Blocked uni s host t)"
  using assms by (rule store_list.history)

theorem geoblock_history_witness:
  "store_Blocked id (fold (store_list.apply_event id True)
      [BlockAt (''A.b.'', False) 5, PruneAt 6] (Open id 0 [] 10)) ''a.B'' 14"
  using geoblock_history [of "[BlockAt (''A.b.'', False) 5, PruneAt 6]" 14 id True
      "Open id 0 [] 10" "''a.B''"]
  by (simp add: Open_def store_load_def delete_expired_def store_key_examples)

text \<open>
  opening the table blocks a host exactly when some row that folds to its key expires
  later than the question, in whatever order the rows come: old spellings of one name merge
  to their latest expiry.
\<close>

theorem geoblock_open:
  assumes "0 \<le> now" and "now \<le> t"
  shows "store_Blocked uni (Open uni now rows ttl) host t \<longleftrightarrow>
     host \<noteq> [] \<and> (\<exists>r \<in> set rows. hostKey uni (fst r) = hostKey uni host \<and> snd r > t)"
  using assms by (rule Open_Blocked)

theorem geoblock_open_witness:
  "store_Blocked id (Open id 3 [(''a.'', 4), (''A'', 9), (''a'', 5)] 1) ''a'' 8 \<longleftrightarrow>
     ''a'' \<noteq> [] \<and> (\<exists>r \<in> set [(''a.'', 4 :: int), (''A'', 9), (''a'', 5)].
        hostKey id (fst r) = hostKey id ''a'' \<and> snd r > 8)"
  by (rule geoblock_open) simp_all

text \<open>
  a block the database accepted survives a restart: reopened at any time before its
  expiry, the store still blocks the host. The key must fold to itself, which fails only for
  a name with two trailing dots.
\<close>

theorem geoblock_survives_restart:
  assumes "host \<noteq> []" and "hostKey uni (hostKey uni host) = hostKey uni host"
    and "0 \<le> start" and "start \<le> t" and "t < now + store_ttl s"
  shows "store_Blocked uni
     (Open uni start (db (fst (store_Block uni (host, True) now s))) ttl) host t"
  using assms upsert_in [of "hostKey uni host" "now + store_ttl s" "db s"]
  by (force simp: Open_Blocked store_Block_def Let_def)

theorem geoblock_survives_restart_witness:
  "store_Blocked id (Open id 7
     (db (fst (store_Block id (''x.y.'', True) 5 (Open id 0 [(''k'', 50)] 10)))) 99) ''x.y.'' 14"
  by (rule geoblock_survives_restart)
     (simp_all add: host_eval Open_def store_load_def Let_def)

end
