(* ===== verification/Prober.thy ===== *)
theory Prober
  imports Verdicts HostPort TtlCaches "HOL-Library.Signed_Division"
begin

text \<open>
  \<^verbatim>\<open>internal/stable/prober.go\<close>: the reachability pre-check, the binding of dials to the address the
  IP stage selected, the URL-test rounds and the fold of their results. mihomo is a parameter: its
  converter yields the mappings of a payload, its adapter constructor accepts or refuses a mapping,
  and dials and URL tests answer as arguments of the definitions say.
\<close>

section \<open>Mappings\<close>

text \<open>The dynamic values of a mapping; a float as its value truncated to an integer.\<close>

datatype gv =
    GString string
  | GStrings "string list"
  | GList "gv list"
  | GBool bool
  | GInt int
  | GFloat int
  | GMap "string \<Rightarrow> gv option"
  | GOther

type_synonym mapping = "string \<rightharpoonup> gv"

definition get_string :: "mapping \<Rightarrow> string \<Rightarrow> string" where
  "get_string m k = (case m k of Some (GString s) \<Rightarrow> s | _ \<Rightarrow> [])"

definition get_map :: "mapping \<Rightarrow> string \<Rightarrow> mapping" where
  "get_map m k = (case m k of Some (GMap x) \<Rightarrow> x | _ \<Rightarrow> Map.empty)"

definition mappingPort :: "gv option \<Rightarrow> int option" where
  "mappingPort v =
     (case v of
        Some (GString p) \<Rightarrow> ParseInt0 p
      | Some (GInt p) \<Rightarrow> Some p
      | Some (GFloat p) \<Rightarrow> Some p
      | _ \<Rightarrow> None)"

definition dialsServerOverQUIC :: "mapping \<Rightarrow> bool" where
  "dialsServerOverQUIC m =
     (if get_string m ''network'' \<noteq> ''xhttp'' then False
      else case m ''alpn'' of
             None \<Rightarrow> False
           | Some (GStrings list) \<Rightarrow> list = [''h3'']
           | Some _ \<Rightarrow> True)"

definition dialsServerOverTCP :: "string \<Rightarrow> mapping \<Rightarrow> bool" where
  "dialsServerOverTCP typ m =
     (if typ \<in> set [''vless'', ''vmess'', ''trojan'', ''ss'', ''ssr'', ''socks5'', ''http'', ''anytls'']
      then \<not> dialsServerOverQUIC m else False)"

section \<open>The binding\<close>

definition pinKey :: "(string \<Rightarrow> string) \<Rightarrow> string \<Rightarrow> string" where
  "pinKey uni host = trim_suffix_dot (to_lower uni host)"

record binding =
  bd_byAddr :: "(string \<times> addr) list"
  bd_hosts :: "(string \<times> addr) list"
  bd_unbound :: "string list"
  bd_addrUnbound :: "string list"

text \<open>Two selections for one key: the key is dropped for good.\<close>

definition select_addr ::
  "string \<Rightarrow> addr \<Rightarrow> (string \<times> addr) list \<times> string list \<Rightarrow> (string \<times> addr) list \<times> string list" where
  "select_addr key ip = (\<lambda>(m, conflicts).
     (case map_of m key of
        Some prev \<Rightarrow>
          (if prev \<noteq> ip then (AList.delete key m, List.insert key conflicts) else (m, conflicts))
      | None \<Rightarrow> (if key \<notin> set conflicts then (AList.update key ip m, conflicts) else (m, conflicts))))"

definition bind_entry :: "(string \<Rightarrow> string) \<Rightarrow> binding \<Rightarrow> Entry \<Rightarrow> binding" where
  "bind_entry uni b e =
     (case SplitHostPort (en_Addr e) of
        None \<Rightarrow> b
      | Some (host, port) \<Rightarrow>
          (if \<not> IsValid (en_IP e) then b
           else let key = pinKey uni host;
                    addrKey = JoinHostPort key port;
                    (byAddr, addrUnbound) = select_addr addrKey (en_IP e) (bd_byAddr b, bd_addrUnbound b);
                    b1 = b\<lparr>bd_byAddr := byAddr, bd_addrUnbound := addrUnbound\<rparr>
                in if ParseAddr host \<noteq> None then b1
                   else let (hosts, unbound) = select_addr key (en_IP e) (bd_hosts b1, bd_unbound b1)
                        in b1\<lparr>bd_hosts := hosts, bd_unbound := unbound\<rparr>))"

definition newBinding :: "(string \<Rightarrow> string) \<Rightarrow> Entry list \<Rightarrow> binding" where
  "newBinding uni entries =
     foldl (bind_entry uni)
       \<lparr>bd_byAddr = [], bd_hosts = [], bd_unbound = [], bd_addrUnbound = []\<rparr> entries"

definition int_text :: "int \<Rightarrow> string" where
  "int_text n = (if n < 0 then ''-'' @ itoa (nat (- n)) else itoa (nat n))"

definition precheckAddr :: "(string \<Rightarrow> string) \<Rightarrow> binding option \<Rightarrow> string \<Rightarrow> int \<Rightarrow> string \<times> bool" where
  "precheckAddr uni b server port =
     (case b of
        None \<Rightarrow> (JoinHostPort server (int_text port), False)
      | Some b \<Rightarrow>
          (let portStr = int_text port;
               addrKey = JoinHostPort (pinKey uni server) portStr
           in if addrKey \<in> set (bd_addrUnbound b) then (JoinHostPort server portStr, False)
              else case map_of (bd_byAddr b) addrKey of
                     Some ip \<Rightarrow> (JoinHostPort (addr_String ip) portStr, True)
                   | None \<Rightarrow> (JoinHostPort server portStr, False)))"

definition urlBound :: "(string \<Rightarrow> string) \<Rightarrow> binding option \<Rightarrow> string \<Rightarrow> bool" where
  "urlBound uni b server =
     (case b of
        None \<Rightarrow> True
      | Some b \<Rightarrow> (if ParseAddr server \<noteq> None then True else map_of (bd_hosts b) (pinKey uni server) \<noteq> None))"

section \<open>Positions\<close>

record 'p probeNode =
  pn_label :: string
  pn_addr :: string
  pn_proxy :: "'p option"
  pn_tcpServer :: bool
  pn_bound :: bool
  pn_precheckBound :: bool

definition probeAddr :: "(string \<Rightarrow> string) \<Rightarrow> binding option \<Rightarrow> mapping \<Rightarrow> string \<times> bool \<times> bool" where
  "probeAddr uni b m =
     (case m ''server'' of
        Some (GString server) \<Rightarrow>
          (case mappingPort (m ''port'') of
             None \<Rightarrow> ([], False, False)
           | Some port \<Rightarrow> (let (addr, bound) = precheckAddr uni b server port in (addr, True, bound)))
      | _ \<Rightarrow> ([], False, False))"

definition is_string :: "gv option \<Rightarrow> bool" where
  "is_string v = (case v of Some (GString _) \<Rightarrow> True | _ \<Rightarrow> False)"

definition probe_node :: "(string \<Rightarrow> string) \<Rightarrow> binding option \<Rightarrow> mapping \<Rightarrow> 'p probeNode" where
  "probe_node uni b m =
     (let typ = get_string m ''type'';
          named = is_string (m ''name'');
          bound = (if named then b = None \<or> urlBound uni b (get_string m ''server'') else False);
          (addr, tcp, pre) = (if \<not> named \<or> \<not> dialsServerOverTCP typ m then ([], False, False) else probeAddr uni b m)
      in \<lparr>pn_label = [], pn_addr = addr, pn_proxy = None, pn_tcpServer = tcp, pn_bound = bound, pn_precheckBound = pre\<rparr>)"

definition probeNodes :: "(string \<Rightarrow> string) \<Rightarrow> mapping list \<Rightarrow> binding option \<Rightarrow> 'p probeNode list" where
  "probeNodes uni mappings b = map (probe_node uni b) mappings"

section \<open>The breaker\<close>

definition precheckBreakerPercent :: nat where
  "precheckBreakerPercent = 95"

definition precheckBreakerMin :: nat where
  "precheckBreakerMin = 100"

definition breakerTrips :: "nat \<Rightarrow> nat \<Rightarrow> bool" where
  "breakerTrips failed tot \<longleftrightarrow>
     failed = tot \<and> tot > 0 \<or>
     tot \<ge> precheckBreakerMin \<and> failed * 100 \<ge> tot * precheckBreakerPercent"

section \<open>The pre-check\<close>

datatype precheckVerdict = VerdictUnresolved | VerdictRefused | VerdictReachable

datatype dial_result = DialConnected | DialNoName | DialFailed

definition precheckAttempts :: nat where
  "precheckAttempts = 2"

text \<open>The attempts' results, each with whether the cycle's context was done after it.\<close>

fun reach_loop :: "precheckVerdict \<Rightarrow> (dial_result \<times> bool) list \<Rightarrow> precheckVerdict" where
  "reach_loop verdict [] = verdict"
| "reach_loop verdict ((r, ctxDone) # rs) =
     (if r = DialConnected then VerdictReachable
      else let verdict' = (if r = DialNoName then VerdictUnresolved else VerdictRefused)
           in if ctxDone then VerdictUnresolved else reach_loop verdict' rs)"

definition reachableTCP :: "(nat \<Rightarrow> dial_result \<times> bool) \<Rightarrow> precheckVerdict" where
  "reachableTCP attempt = reach_loop VerdictRefused (map attempt [0..<precheckAttempts])"

definition precheckDialBudget :: "int \<Rightarrow> int" where
  "precheckDialBudget timeout = timeout div int precheckAttempts"

datatype PrecheckState = PrecheckAbsent | PrecheckTripped | PrecheckRan

record PrecheckReport =
  pc_State :: PrecheckState
  pc_Dialled :: nat
  pc_Refused :: nat
  pc_Unresolved :: nat

definition no_precheck :: PrecheckReport where
  "no_precheck = \<lparr>pc_State = PrecheckAbsent, pc_Dialled = 0, pc_Refused = 0, pc_Unresolved = 0\<rparr>"

definition endpoint_addrs :: "'p probeNode list \<Rightarrow> string list" where
  "endpoint_addrs nodes =
     foldl (\<lambda>addrs n. if \<not> pn_tcpServer n then addrs
                       else if pn_addr n \<in> set addrs then addrs else addrs @ [pn_addr n]) [] nodes"

text \<open>The live positions, the condemned ones and the report; \<open>verdict\<close> is the dial of one endpoint.\<close>

definition filterReachable ::
  "(string \<Rightarrow> precheckVerdict) \<Rightarrow> 'p probeNode list \<Rightarrow> nat list \<times> nat list \<times> PrecheckReport" where
  "filterReachable verdict nodes =
     (let addrs = endpoint_addrs nodes; all = [0..<length nodes]
      in if addrs = [] then (all, [], no_precheck\<lparr>pc_State := PrecheckRan\<rparr>)
         else let refused = length (filter (\<lambda>a. verdict a = VerdictRefused) addrs);
                  unresolved = length (filter (\<lambda>a. verdict a = VerdictUnresolved) addrs);
                  decided = length addrs - unresolved;
                  rep = \<lparr>pc_State = PrecheckRan, pc_Dialled = length addrs, pc_Refused = refused,
                         pc_Unresolved = unresolved\<rparr>
              in if breakerTrips refused decided then (all, [], rep\<lparr>pc_State := PrecheckTripped\<rparr>)
                 else let spared = (\<lambda>i. \<not> pn_tcpServer (nodes ! i) \<or> verdict (pn_addr (nodes ! i)) \<noteq> VerdictRefused)
                      in (filter spared all, filter (\<lambda>i. \<not> spared i) all, rep))"

section \<open>A server that lost its trailing dot\<close>

text \<open>The three header shapes a converter emits.\<close>

definition headerString :: "gv option \<Rightarrow> string option" where
  "headerString v =
     (case v of
        Some (GString s) \<Rightarrow> (if s \<noteq> [] then Some s else None)
      | Some (GStrings (s # _)) \<Rightarrow> (if s \<noteq> [] then Some s else None)
      | Some (GList (GString s # _)) \<Rightarrow> (if s \<noteq> [] then Some s else None)
      | _ \<Rightarrow> None)"

definition wsHeaderHost :: "mapping \<Rightarrow> string option" where
  "wsHeaderHost m = headerString (get_map (get_map m ''ws-opts'') ''headers'' ''Host'')"

definition httpHeaderHostPresent :: "mapping \<Rightarrow> bool" where
  "httpHeaderHostPresent m \<longleftrightarrow> headerString (get_map (get_map m ''http-opts'') ''headers'' ''Host'') \<noteq> None"

definition set_header_host :: "string \<Rightarrow> gv \<Rightarrow> mapping \<Rightarrow> mapping" where
  "set_header_host opts host m =
     (let headers = (get_map (get_map m opts) ''headers'')(''Host'' \<mapsto> host)
      in m(opts \<mapsto> GMap ((get_map m opts)(''headers'' \<mapsto> GMap headers))))"

definition setWSHeaderHost :: "mapping \<Rightarrow> string \<Rightarrow> mapping" where
  "setWSHeaderHost m host = set_header_host ''ws-opts'' (GString host) m"

definition setHTTPHeaderHost :: "mapping \<Rightarrow> string \<Rightarrow> mapping" where
  "setHTTPHeaderHost m host = set_header_host ''http-opts'' (GStrings [host]) m"

definition mappingHasTLS :: "mapping \<Rightarrow> bool" where
  "mappingHasTLS m \<longleftrightarrow> m ''tls'' = Some (GBool True)"

definition set_absent :: "string \<Rightarrow> string \<Rightarrow> mapping \<Rightarrow> mapping" where
  "set_absent k s m = (if m k = None then m(k \<mapsto> GString s) else m)"

definition preserveDerivedHost :: "mapping \<Rightarrow> string \<Rightarrow> mapping" where
  "preserveDerivedHost m original =
     (let typ = get_string m ''type''; network = get_string m ''network'';
          named = (\<lambda>m. set_absent ''sni'' original (set_absent ''servername'' original m))
      in if typ = ''vless'' \<or> typ = ''vmess'' then
           (if network = ''ws'' \<or> network = ''httpupgrade'' then
              (if wsHeaderHost m \<noteq> None then m
               else if typ = ''vmess'' \<or> mappingHasTLS m then setWSHeaderHost m original else m)
            else if network = ''http'' then
              named (if \<not> httpHeaderHostPresent m then setHTTPHeaderHost m original else m)
            else named m)
         else named m)"

definition has_suffix_dot :: "string \<Rightarrow> bool" where
  "has_suffix_dot s \<longleftrightarrow> s \<noteq> [] \<and> last s = CHR ''.''"

definition normalise_server :: "(string \<Rightarrow> string) \<Rightarrow> binding \<Rightarrow> mapping \<Rightarrow> mapping" where
  "normalise_server uni b m =
     (case m ''server'' of
        Some (GString server) \<Rightarrow>
          (if \<not> has_suffix_dot server then m
           else if map_of (bd_hosts b) (pinKey uni server) = None then m
           else preserveDerivedHost (m(''server'' \<mapsto> GString (trim_suffix_dot server))) server)
      | _ \<Rightarrow> m)"

definition normalisePinnedServers :: "(string \<Rightarrow> string) \<Rightarrow> mapping list \<Rightarrow> nat list \<Rightarrow> binding option \<Rightarrow> mapping list" where
  "normalisePinnedServers uni mappings live b =
     (case b of
        None \<Rightarrow> mappings
      | Some b \<Rightarrow>
          if bd_hosts b = [] then mappings
          else foldl (\<lambda>ms i. ms[i := normalise_server uni b (ms ! i)]) mappings live)"

section \<open>Rounds and results\<close>

text \<open>The account of refused mappings; \<open>rf_refused\<close> holds the labels.\<close>

datatype RefusalState = RefusalAbsent | RefusalRan

record RefusalReport =
  rf_State :: RefusalState
  rf_Unparsable :: nat
  rf_Unconvertible :: nat
  rf_refused :: "string list"

definition no_refusals :: RefusalReport where
  "no_refusals = \<lparr>rf_State = RefusalAbsent, rf_Unparsable = 0, rf_Unconvertible = 0, rf_refused = []\<rparr>"

definition mapping_label :: "mapping \<Rightarrow> string" where
  "mapping_label m = mappingLabel (get_string m ''name'') (get_string m ''type'')"

text \<open>The parsed live positions: the nodes with their adapters, the positions kept, the account.\<close>

fun parse_live ::
  "(mapping \<Rightarrow> 'p option) \<Rightarrow> mapping list \<Rightarrow> nat list \<Rightarrow> 'p probeNode list \<Rightarrow> RefusalReport
   \<Rightarrow> 'p probeNode list \<times> nat list \<times> RefusalReport" where
  "parse_live parse ms [] nodes rf = (nodes, [], rf\<lparr>rf_State := RefusalRan\<rparr>)"
| "parse_live parse ms (i # live) nodes rf =
     (case parse (ms ! i) of
        None \<Rightarrow> parse_live parse ms live nodes (rf\<lparr>rf_refused := List.insert (mapping_label (ms ! i)) (rf_refused rf)\<rparr>)
      | Some px \<Rightarrow>
          (let (nodes', kept, rf') = parse_live parse ms live (nodes[i := (nodes ! i)\<lparr>pn_proxy := Some px\<rparr>]) rf
           in (nodes', i # kept, rf')))"

datatype ProbeStage = StageUnknown | StageCondemned | StageConnect | StageFetch | StagePassed

definition stage_rank :: "ProbeStage \<Rightarrow> nat" where
  "stage_rank s =
     (case s of StageUnknown \<Rightarrow> 0 | StageCondemned \<Rightarrow> 1 | StageConnect \<Rightarrow> 2 | StageFetch \<Rightarrow> 3 | StagePassed \<Rightarrow> 4)"

text \<open>The stages are ordered by progress.\<close>

instantiation ProbeStage :: linorder
begin

definition less_ProbeStage :: "ProbeStage \<Rightarrow> ProbeStage \<Rightarrow> bool" where
  "less_ProbeStage a b \<longleftrightarrow> stage_rank a < stage_rank b"

definition less_eq_ProbeStage :: "ProbeStage \<Rightarrow> ProbeStage \<Rightarrow> bool" where
  "less_eq_ProbeStage a b \<longleftrightarrow> stage_rank a \<le> stage_rank b"

instance
proof
  fix a b :: ProbeStage
  assume "a \<le> b" "b \<le> a"
  then show "a = b"
    by (auto simp: less_eq_ProbeStage_def stage_rank_def split: ProbeStage.splits)
qed (auto simp: less_ProbeStage_def less_eq_ProbeStage_def)

end

definition stage_String :: "ProbeStage \<Rightarrow> string" where
  "stage_String s =
     (case s of StageCondemned \<Rightarrow> ''condemned'' | StageConnect \<Rightarrow> ''connect'' | StageFetch \<Rightarrow> ''fetch''
      | StagePassed \<Rightarrow> ''passed'' | StageUnknown \<Rightarrow> ''unknown'')"

text \<open>One URL test: its delay, or an error that is a \<^verbatim>\<open>*url.Error\<close> or not.\<close>

datatype url_test = Delay "16 word" | TestError bool

definition probeStage :: "bool \<Rightarrow> ProbeStage" where
  "probeStage isURLError = (if isURLError then StageFetch else StageConnect)"

record delayAcc =
  da_succ :: "32 word"
  da_sum :: "32 word"
  da_stage :: ProbeStage

definition test_stage :: "url_test \<Rightarrow> ProbeStage" where
  "test_stage t = (case t of Delay _ \<Rightarrow> StagePassed | TestError u \<Rightarrow> probeStage u)"

definition record_test :: "delayAcc \<Rightarrow> url_test \<Rightarrow> delayAcc" where
  "record_test a t =
     (let a1 = (if test_stage t > da_stage a then a\<lparr>da_stage := test_stage t\<rparr> else a)
      in case t of
           TestError _ \<Rightarrow> a1
         | Delay d \<Rightarrow> a1\<lparr>da_succ := da_succ a1 + 1, da_sum := da_sum a1 + ucast d\<rparr>)"

record ProbeResult =
  pr_Successes :: int
  pr_MeanMs :: int
  pr_Stage :: ProbeStage
  pr_Unbound :: bool

definition betterProbe :: "ProbeResult \<Rightarrow> ProbeResult \<Rightarrow> bool" where
  "betterProbe a b =
     (if pr_Successes a \<noteq> pr_Successes b then pr_Successes a > pr_Successes b
      else if pr_MeanMs a \<noteq> pr_MeanMs b then pr_MeanMs a < pr_MeanMs b
      else pr_Stage a > pr_Stage b)"

definition acc_result :: "bool \<Rightarrow> delayAcc \<Rightarrow> ProbeResult" where
  "acc_result bound a =
     \<lparr>pr_Successes = sint (da_succ a),
      pr_MeanMs = (if sint (da_succ a) > 0 then sint (da_sum a) sdiv sint (da_succ a) else 0),
      pr_Stage = da_stage a, pr_Unbound = (\<not> bound)\<rparr>"

definition position_label :: "('p \<Rightarrow> string) \<Rightarrow> 'p probeNode \<Rightarrow> delayAcc \<Rightarrow> string option" where
  "position_label entryLabel n a =
     (case pn_proxy n of
        Some px \<Rightarrow> Some (entryLabel px)
      | None \<Rightarrow> (if da_stage a = StageCondemned then Some (pn_label n) else None))"

definition foldProbeResults :: "('p \<Rightarrow> string) \<Rightarrow> 'p probeNode list \<Rightarrow> delayAcc list \<Rightarrow> (string \<rightharpoonup> ProbeResult)" where
  "foldProbeResults entryLabel nodes accs =
     fold_labels betterProbe
       (List.map_filter (\<lambda>(n, a). map_option (\<lambda>label. (label, acc_result (pn_bound n) a)) (position_label entryLabel n a))
          (zip nodes accs))"

section \<open>The prober\<close>

text \<open>
  The state of a prober, with the process-wide resolver table it rebinds and, as a log, the
  adapters built and closed. \<open>mp_bindings\<close> is the pending restore function; one of no pins restores nothing.
\<close>

datatype 't restore = RestoreNothing | RestoreTable 't

record ('p, 't) MihomoProber =
  mp_precheck :: PrecheckReport
  mp_parseRefusal :: RefusalReport
  mp_probed :: "'p list option"
  mp_bindings :: "'t restore option"
  mp_table :: 't
  mp_built :: "'p list"
  mp_closed :: "'p list"

text \<open>
  What a probe meets: the converter, the adapter constructor, the verdict of dialling an endpoint,
  the label of an adapter, the test of a position in a round, the order in which the tests finish,
  whether the context is done at the end, and the table with pins added.
\<close>

record ('p, 't) probe_env =
  pe_converts :: "string \<Rightarrow> mapping list option"
  pe_parse :: "mapping \<Rightarrow> 'p option"
  pe_dial :: "string \<Rightarrow> precheckVerdict"
  pe_label :: "'p \<Rightarrow> string"
  pe_test :: "nat \<Rightarrow> nat \<Rightarrow> url_test"
  pe_order :: "(nat \<times> nat) list \<Rightarrow> (nat \<times> nat) list"
  pe_done :: bool
  pe_pin :: "'t \<Rightarrow> (string \<times> addr) list \<Rightarrow> 't"

datatype probe_error = ErrConvert | ErrNoParsableProxies | ErrInterrupted

definition releaseBindings :: "('p, 't) MihomoProber \<Rightarrow> ('p, 't) MihomoProber" where
  "releaseBindings m =
     (case mp_bindings m of
        None \<Rightarrow> m
      | Some RestoreNothing \<Rightarrow> m\<lparr>mp_bindings := None\<rparr>
      | Some (RestoreTable previous) \<Rightarrow> m\<lparr>mp_table := previous, mp_bindings := None\<rparr>)"

definition pinHosts :: "('t \<Rightarrow> (string \<times> addr) list \<Rightarrow> 't) \<Rightarrow> (string \<times> addr) list \<Rightarrow> ('p, 't) MihomoProber \<Rightarrow> ('p, 't) MihomoProber" where
  "pinHosts pin pins m =
     (if pins = [] then m\<lparr>mp_bindings := Some RestoreNothing\<rparr>
      else m\<lparr>mp_table := pin (mp_table m) pins, mp_bindings := Some (RestoreTable (mp_table m))\<rparr>)"

definition releaseProbed :: "('p, 't) MihomoProber \<Rightarrow> ('p, 't) MihomoProber" where
  "releaseProbed m =
     (case mp_probed m of
        None \<Rightarrow> m
      | Some pxs \<Rightarrow> m\<lparr>mp_closed := mp_closed m @ pxs, mp_probed := None\<rparr>)"

definition TakeProbedAdapters :: "('p, 't) MihomoProber \<Rightarrow> 'p list option \<times> ('p, 't) MihomoProber" where
  "TakeProbedAdapters m = (mp_probed m, m\<lparr>mp_probed := None\<rparr>)"

definition mark_condemned :: "binding option \<Rightarrow> mapping list \<Rightarrow> nat list \<Rightarrow> 'p probeNode list \<Rightarrow> 'p probeNode list" where
  "mark_condemned b mappings condemned nodes =
     foldl (\<lambda>ns i.
       let n = ns ! i; n1 = (if b \<noteq> None then n\<lparr>pn_bound := pn_precheckBound n\<rparr> else n)
       in ns[i := n1\<lparr>pn_label := mapping_label (mappings ! i)\<rparr>]) nodes condemned"

definition probeSet ::
  "('p, 't) probe_env \<Rightarrow> (string \<Rightarrow> string) \<Rightarrow> string \<Rightarrow> binding option \<Rightarrow> ('p, 't) MihomoProber
   \<Rightarrow> (probe_error + 'p probeNode list \<times> nat list \<times> nat list) \<times> ('p, 't) MihomoProber" where
  "probeSet env uni payload b m =
     (case pe_converts env payload of
        None \<Rightarrow> (Inl ErrConvert, m)
      | Some mappings \<Rightarrow>
          (let nodes = probeNodes uni mappings b;
               (live, condemned, rep) = filterReachable (pe_dial env) nodes;
               m1 = m\<lparr>mp_precheck := rep\<rparr>;
               nodes1 = mark_condemned b mappings condemned nodes;
               mappings1 = normalisePinnedServers uni mappings live b;
               (nodes2, live2, rf) = parse_live (pe_parse env) mappings1 live nodes1 (mp_parseRefusal m1);
               m2 = m1\<lparr>mp_parseRefusal := rf,
                       mp_built := mp_built m1 @ List.map_filter (\<lambda>i. pn_proxy (nodes2 ! i)) live2\<rparr>
           in if live2 = [] \<and> condemned = [] then (Inl ErrNoParsableProxies, m2\<lparr>mp_precheck := no_precheck\<rparr>)
              else (Inr (nodes2, live2, condemned), m2)))"

definition round_tasks :: "nat \<Rightarrow> nat list \<Rightarrow> (nat \<times> nat) list" where
  "round_tasks rounds live = concat (map (\<lambda>r. map (\<lambda>i. (r, i)) live) [0..<rounds])"

definition run_tests :: "(nat \<Rightarrow> nat \<Rightarrow> url_test) \<Rightarrow> (nat \<times> nat) list \<Rightarrow> delayAcc list \<Rightarrow> delayAcc list" where
  "run_tests test tasks accs = foldl (\<lambda>accs (r, i). accs[i := record_test (accs ! i) (test r i)]) accs tasks"

definition seed_accs :: "nat \<Rightarrow> nat list \<Rightarrow> delayAcc list" where
  "seed_accs n condemned =
     foldl (\<lambda>accs i. accs[i := (accs ! i)\<lparr>da_stage := StageCondemned\<rparr>])
       (replicate n \<lparr>da_succ = 0, da_sum = 0, da_stage = StageUnknown\<rparr>) condemned"

definition probe ::
  "('p, 't) probe_env \<Rightarrow> (string \<Rightarrow> string) \<Rightarrow> nat \<Rightarrow> string \<Rightarrow> binding option \<Rightarrow> ('p, 't) MihomoProber
   \<Rightarrow> (probe_error + (string \<rightharpoonup> ProbeResult)) \<times> ('p, 't) MihomoProber" where
  "probe env uni rounds payload b m =
     (let m1 = releaseProbed (m\<lparr>mp_precheck := no_precheck, mp_parseRefusal := no_refusals\<rparr>)
      in case probeSet env uni payload b m1 of
           (Inl e, m2) \<Rightarrow> (Inl e, m2)
         | (Inr (nodes, live, condemned), m2) \<Rightarrow>
             (let m3 = m2\<lparr>mp_probed := Some (List.map_filter (\<lambda>i. pn_proxy (nodes ! i)) live)\<rparr>;
                  accs = run_tests (pe_test env) (pe_order env (round_tasks rounds live))
                           (seed_accs (length nodes) condemned)
              in if pe_done env then (Inl ErrInterrupted, releaseProbed m3)
                 else (Inr (foldProbeResults (pe_label env) nodes accs), m3)))"

definition Probe ::
  "('p, 't) probe_env \<Rightarrow> (string \<Rightarrow> string) \<Rightarrow> nat \<Rightarrow> string \<Rightarrow> ('p, 't) MihomoProber
   \<Rightarrow> (probe_error + (string \<rightharpoonup> ProbeResult)) \<times> ('p, 't) MihomoProber" where
  "Probe env uni rounds payload m = probe env uni rounds payload None (releaseBindings m)"

definition entriesPayload :: "Entry list \<Rightarrow> string" where
  "entriesPayload entries = concat (map (\<lambda>e. en_Raw e @ [CHR 0x0A]) entries)"

definition ProbeBound ::
  "('p, 't) probe_env \<Rightarrow> (string \<Rightarrow> string) \<Rightarrow> nat \<Rightarrow> Entry list \<Rightarrow> ('p, 't) MihomoProber
   \<Rightarrow> (probe_error + (string \<rightharpoonup> ProbeResult)) \<times> ('p, 't) MihomoProber" where
  "ProbeBound env uni rounds entries m =
     (let b = newBinding uni entries; m1 = pinHosts (pe_pin env) (bd_hosts b) (releaseBindings m)
      in case probe env uni rounds (entriesPayload entries) (Some b) m1 of
           (Inl e, m2) \<Rightarrow> (Inl e, releaseBindings m2)
         | (Inr res, m2) \<Rightarrow> (Inr res, m2))"

text \<open>The parse of a whole payload, for a prober that retained nothing.\<close>

definition ParseProxies :: "('p, 't) probe_env \<Rightarrow> string \<Rightarrow> probe_error + 'p list" where
  "ParseProxies env payload =
     (case pe_converts env payload of
        None \<Rightarrow> Inl ErrConvert
      | Some mappings \<Rightarrow>
          (let proxies = List.map_filter (pe_parse env) mappings
           in if proxies = [] then Inl ErrNoParsableProxies else Inr proxies))"

end
