(* ===== verification/ProberLaws.thy ===== *)
theory ProberLaws
  imports Prober
begin

text \<open>
  What the prober promises: the binding represents exactly the selections its entries agree on, the
  pre-check condemns only endpoints that refused, the results do not depend on the order in which
  concurrent tests finish and their means do not overflow, and a server that lost its dot keeps
  every name its link spelled out.
\<close>

section \<open>Selections\<close>

definition select_all :: "(string \<times> addr) list \<Rightarrow> (string \<times> addr) list \<times> string list" where
  "select_all xs = foldl (\<lambda>s x. select_addr (fst x) (snd x) s) ([], []) xs"

definition selected :: "(string \<times> addr) list \<Rightarrow> string \<Rightarrow> addr set" where
  "selected xs k = snd ` {x \<in> set xs. fst x = k}"

lemma selected_snoc: "selected (xs @ [x]) k = (if fst x = k then insert (snd x) (selected xs k) else selected xs k)"
  by (auto simp: selected_def)

lemma finite_selected [simp]: "finite (selected xs k)"
  by (simp add: selected_def)

lemma select_all_spec:
  "(map_of (fst (select_all xs)) k = Some ip \<longleftrightarrow> selected xs k = {ip}) \<and>
   (k \<in> set (snd (select_all xs)) \<longleftrightarrow> card (selected xs k) > 1)"
proof (induction xs arbitrary: ip rule: rev_induct)
  case Nil
  then show ?case by (simp add: select_all_def selected_def)
next
  case (snoc x xs)
  obtain key a where x: "x = (key, a)" by fastforce
  obtain m cs where mc: "select_all xs = (m, cs)" by fastforce
  have step: "select_all (xs @ [x]) = select_addr key a (m, cs)"
    using mc by (simp add: select_all_def x)
  have ih: "map_of m k = Some ip \<longleftrightarrow> selected xs k = {ip}" "k \<in> set cs \<longleftrightarrow> card (selected xs k) > 1" for ip
    using snoc.IH [of ip] mc by simp_all
  show ?case
  proof (cases "key = k")
    case False
    then have "map_of (fst (select_addr key a (m, cs))) k = map_of m k"
      "k \<in> set (snd (select_addr key a (m, cs))) \<longleftrightarrow> k \<in> set cs"
      by (auto simp: select_addr_def AList.delete_conv' AList.update_conv' split: option.splits)
    with False ih show ?thesis unfolding step by (simp add: selected_snoc x)
  next
    case True
    show ?thesis
    proof (cases "map_of m k")
      case None
      have "selected xs k = {} \<or> card (selected xs k) > 1"
      proof (cases "card (selected xs k) = 1")
        case True
        then obtain ip where "selected xs k = {ip}" by (auto simp: card_1_singleton_iff)
        with ih(1) [of ip] None show ?thesis by simp
      next
        case False
        then have "card (selected xs k) = 0 \<or> card (selected xs k) > 1" by linarith
        then show ?thesis by simp
      qed
      then show ?thesis
      proof
        assume e: "selected xs k = {}"
        with ih(2) have "k \<notin> set cs" by simp
        with None True e show ?thesis
          unfolding step by (auto simp: select_addr_def selected_snoc x AList.update_conv' ih(2))
      next
        assume c: "card (selected xs k) > 1"
        then have k: "k \<in> set cs" using ih(2) by simp
        have big: "card (insert a (selected xs k)) > 1"
          using c card_insert_le [of "selected xs k" a] by linarith
        then have "insert a (selected xs k) \<noteq> {ip}" for ip by (metis card.empty card.insert empty_iff finite.emptyI less_irrefl One_nat_def)
        with None True k big show ?thesis
          unfolding step by (auto simp: select_addr_def selected_snoc x)
      qed
    next
      case (Some prev)
      then have s: "selected xs k = {prev}" using ih(1) by simp
      then have nk: "k \<notin> set cs" using ih(2) by simp
      show ?thesis
      proof (cases "prev = a")
        case True
        with Some s nk \<open>key = k\<close> show ?thesis
          unfolding step by (auto simp: select_addr_def selected_snoc x)
      next
        case False
        then have c: "card {a, prev} = 2" by (metis card_2_iff)
        then have "{a, prev} \<noteq> {ip}" for ip by (metis card_1_singleton_iff n_not_Suc_n numeral_2_eq_2 One_nat_def)
        moreover have "map_of (fst (select_addr key a (m, cs))) k = None" "k \<in> set (snd (select_addr key a (m, cs)))"
          using False Some \<open>key = k\<close> by (auto simp: select_addr_def AList.delete_conv')
        ultimately show ?thesis
          unfolding step using c s \<open>key = k\<close> by (simp add: selected_snoc x)
      qed
    qed
  qed
qed

text \<open>The selections of the entries for host-port keys and for host names.\<close>

definition addr_selection :: "(string \<Rightarrow> string) \<Rightarrow> Entry \<Rightarrow> (string \<times> addr) option" where
  "addr_selection uni e =
     (case SplitHostPort (en_Addr e) of
        None \<Rightarrow> None
      | Some (host, port) \<Rightarrow>
          (if IsValid (en_IP e) then Some (JoinHostPort (pinKey uni host) port, en_IP e) else None))"

definition host_selection :: "(string \<Rightarrow> string) \<Rightarrow> Entry \<Rightarrow> (string \<times> addr) option" where
  "host_selection uni e =
     (case SplitHostPort (en_Addr e) of
        None \<Rightarrow> None
      | Some (host, port) \<Rightarrow>
          (if IsValid (en_IP e) \<and> ParseAddr host = None then Some (pinKey uni host, en_IP e) else None))"

lemma newBinding_eq:
  "newBinding uni es =
     \<lparr>bd_byAddr = fst (select_all (List.map_filter (addr_selection uni) es)),
      bd_hosts = fst (select_all (List.map_filter (host_selection uni) es)),
      bd_unbound = snd (select_all (List.map_filter (host_selection uni) es)),
      bd_addrUnbound = snd (select_all (List.map_filter (addr_selection uni) es))\<rparr>"
proof (induction es rule: rev_induct)
  case Nil
  then show ?case by (simp add: newBinding_def select_all_def map_filter_simps)
next
  case (snoc e es)
  have mf: "List.map_filter f (xs @ [y]) = List.map_filter f xs @ (case f y of None \<Rightarrow> [] | Some z \<Rightarrow> [z])" for f :: "Entry \<Rightarrow> (string \<times> addr) option" and xs y
    by (induction xs) (auto simp: map_filter_simps split: option.splits)
  have sa: "select_all (xs @ [x]) = select_addr (fst x) (snd x) (select_all xs)" for xs x
    by (simp add: select_all_def)
  have "newBinding uni (es @ [e]) = bind_entry uni (newBinding uni es) e" by (simp add: newBinding_def)
  also have "\<dots> = \<lparr>bd_byAddr = fst (select_all (List.map_filter (addr_selection uni) (es @ [e]))),
      bd_hosts = fst (select_all (List.map_filter (host_selection uni) (es @ [e]))),
      bd_unbound = snd (select_all (List.map_filter (host_selection uni) (es @ [e]))),
      bd_addrUnbound = snd (select_all (List.map_filter (addr_selection uni) (es @ [e])))\<rparr>"
    unfolding snoc mf bind_entry_def
    by (auto simp: addr_selection_def host_selection_def sa Let_def split: option.splits prod.splits)
  finally show ?case .
qed

text \<open>
  The binding of a probe is what its entries agree on. A host is pinned to an address exactly
  when that is the only one selected by the entries on that name; it is unbound exactly when two
  entries differ, however many follow; and the same holds of the host-port keys the pre-check dials by.
\<close>

theorem binding_is_agreement:
  "(map_of (bd_hosts (newBinding uni es)) k = Some ip \<longleftrightarrow>
      selected (List.map_filter (host_selection uni) es) k = {ip}) \<and>
   (k \<in> set (bd_unbound (newBinding uni es)) \<longleftrightarrow>
      card (selected (List.map_filter (host_selection uni) es) k) > 1) \<and>
   (map_of (bd_byAddr (newBinding uni es)) k = Some ip \<longleftrightarrow>
      selected (List.map_filter (addr_selection uni) es) k = {ip}) \<and>
   (k \<in> set (bd_addrUnbound (newBinding uni es)) \<longleftrightarrow>
      card (selected (List.map_filter (addr_selection uni) es) k) > 1)"
  using select_all_spec [of "List.map_filter (host_selection uni) es" k ip]
    select_all_spec [of "List.map_filter (addr_selection uni) es" k ip]
  by (simp add: newBinding_eq)

lemma selection_bound:
  assumes "e \<in> set es" "SplitHostPort (en_Addr e) = Some (host, port)" "IsValid (en_IP e)"
  shows "map_of (bd_byAddr (newBinding uni es)) (JoinHostPort (pinKey uni host) port) = Some ip \<Longrightarrow> ip = en_IP e"
    and "ParseAddr host = None \<Longrightarrow> map_of (bd_hosts (newBinding uni es)) (pinKey uni host) = Some ip \<Longrightarrow> ip = en_IP e"
proof -
  have a: "en_IP e \<in> selected (List.map_filter (addr_selection uni) es) (JoinHostPort (pinKey uni host) port)"
    unfolding selected_def
    by (rule image_eqI [where x = "(JoinHostPort (pinKey uni host) port, en_IP e)"])
       (use assms in \<open>auto simp: in_map_filter addr_selection_def intro!: bexI [where x = e]\<close>)
  show "map_of (bd_byAddr (newBinding uni es)) (JoinHostPort (pinKey uni host) port) = Some ip \<Longrightarrow> ip = en_IP e"
    using a select_all_spec [of "List.map_filter (addr_selection uni) es"] by (simp add: newBinding_eq)
  assume p: "ParseAddr host = None"
  have h: "en_IP e \<in> selected (List.map_filter (host_selection uni) es) (pinKey uni host)"
    unfolding selected_def
    by (rule image_eqI [where x = "(pinKey uni host, en_IP e)"])
       (use assms p in \<open>auto simp: in_map_filter host_selection_def intro!: bexI [where x = e]\<close>)
  show "map_of (bd_hosts (newBinding uni es)) (pinKey uni host) = Some ip \<Longrightarrow> ip = en_IP e"
    using h select_all_spec [of "List.map_filter (host_selection uni) es"] by (simp add: newBinding_eq)
qed

text \<open>
  A bound probe attributes a position's failure to an entry's address only where that address
  is what it dials: a pre-check counted as bound dials the entry's selected address on its port, and
  a URL test counted as bound goes to a literal server or to a host name pinned to that address.
\<close>

theorem bound_dials_selected_address:
  assumes e: "e \<in> set es" "SplitHostPort (en_Addr e) = Some (host, port)" "IsValid (en_IP e)" "ParseAddr host = None"
    and m: "m ''server'' = Some (GString server)" "pinKey uni server = pinKey uni host"
      "mappingPort (m ''port'') = Some p" "int_text p = port"
    and n: "n = (probe_node uni (Some (newBinding uni es)) m :: 'p probeNode)"
  shows "(if pn_precheckBound n then pn_addr n = JoinHostPort (addr_String (en_IP e)) port else True) \<and>
     (if pn_bound n then ParseAddr server \<noteq> None \<or>
        map_of (bd_hosts (newBinding uni es)) (pinKey uni server) = Some (en_IP e) else True)"
proof
  note sel = selection_bound [OF e(1,2,3), of uni]
  show "if pn_precheckBound n then pn_addr n = JoinHostPort (addr_String (en_IP e)) port else True"
    using m sel(1)
    by (auto simp: n probe_node_def probeAddr_def precheckAddr_def Let_def split: option.splits if_splits)
  show "if pn_bound n then ParseAddr server \<noteq> None \<or>
        map_of (bd_hosts (newBinding uni es)) (pinKey uni server) = Some (en_IP e) else True"
    using m sel(2) [OF e(4)]
    by (auto simp: n probe_node_def urlBound_def get_string_def Let_def split: prod.splits if_splits)
qed

definition sample_entry :: Entry where
  "sample_entry = \<lparr>en_Label = ''a-001'', en_Raw = [], en_Addr = ''ex.com:443'', en_IP = V4 16909060, en_Country = []\<rparr>"

definition sample_mapping :: mapping where
  "sample_mapping = [''type'' \<mapsto> GString ''vless'', ''name'' \<mapsto> GString ''a-001'', ''server'' \<mapsto> GString ''EX.com'',
     ''port'' \<mapsto> GInt 443]"

lemma bound_dials_selected_address_witness:
  "let n = (probe_node id (Some (newBinding id [sample_entry])) sample_mapping :: unit probeNode)
   in (if pn_precheckBound n then pn_addr n = JoinHostPort (addr_String (V4 16909060)) ''443'' else True) \<and>
     (if pn_bound n then ParseAddr ''EX.com'' \<noteq> None \<or>
        map_of (bd_hosts (newBinding id [sample_entry])) (pinKey id ''EX.com'') = Some (V4 16909060) else True)"
proof -
  have split: "SplitHostPort ''ex.com:443'' = Some (''ex.com'', ''443'')"
    using SplitHostPort_plain [of "''ex.com''" "''443''"] by simp
  have lower: "pinKey id ''EX.com'' = pinKey id ''ex.com''"
    by (simp add: pinKey_def to_lower_def is_ascii_def model_defs is_upper_def)
  have num: "int_text 443 = ''443''"
    by (simp add: int_text_def itoa.simps char_of_eq_iff)
  have lit: "ParseAddr ''ex.com'' = None"
    by (simp add: ParseAddr_def model_defs)
  have ip: "en_IP sample_entry = V4 16909060" by (simp add: sample_entry_def)
  show ?thesis
    unfolding Let_def ip [symmetric]
    by (rule bound_dials_selected_address [OF _ _ _ lit _ lower _ num refl])
       (simp_all add: sample_entry_def sample_mapping_def mappingPort_def IsValid_def split)
qed

section \<open>The pre-check\<close>

lemma endpoint_addrs_spec:
  "distinct (endpoint_addrs nodes) \<and> set (endpoint_addrs nodes) = {pn_addr n | n. n \<in> set nodes \<and> pn_tcpServer n}"
  by (induction nodes rule: rev_induct) (auto simp: endpoint_addrs_def)

text \<open>
  The pre-check splits the positions in two, keeping the order. It condemns only a position
  whose server mihomo reaches over TCP and whose endpoint refused; where no endpoint it judged was
  reachable it condemns nothing; and its report counts each distinct endpoint once.
\<close>

theorem precheck_condemns_only_refused:
  "case filterReachable verdict nodes of (live, condemned, rep) \<Rightarrow>
     set live \<union> set condemned = {..<length nodes} \<and> set live \<inter> set condemned = {} \<and> sorted live \<and> distinct live \<and>
     list_all (\<lambda>i. pn_tcpServer (nodes ! i) \<and> verdict (pn_addr (nodes ! i)) = VerdictRefused) condemned \<and>
     (if list_all (\<lambda>a. verdict a \<noteq> VerdictReachable) (endpoint_addrs nodes) then condemned = [] else True) \<and>
     pc_Dialled rep = card {pn_addr n | n. n \<in> set nodes \<and> pn_tcpServer n} \<and>
     pc_State rep = (if breakerTrips (pc_Refused rep) (pc_Dialled rep - pc_Unresolved rep) then PrecheckTripped else PrecheckRan)"
proof -
  let ?addrs = "endpoint_addrs nodes"
  let ?refused = "filter (\<lambda>a. verdict a = VerdictRefused) ?addrs"
  let ?unresolved = "filter (\<lambda>a. verdict a = VerdictUnresolved) ?addrs"
  let ?spared = "\<lambda>i. \<not> pn_tcpServer (nodes ! i) \<or> verdict (pn_addr (nodes ! i)) \<noteq> VerdictRefused"
  have card: "card {pn_addr n | n. n \<in> set nodes \<and> pn_tcpServer n} = length ?addrs"
    using endpoint_addrs_spec [of nodes] distinct_card [of ?addrs] by simp
  have none: "filter (\<lambda>i. \<not> ?spared i) [0..<length nodes] = []" if "?refused = []"
  proof -
    have "verdict (pn_addr (nodes ! i)) \<noteq> VerdictRefused" if "i < length nodes" "pn_tcpServer (nodes ! i)" for i
    proof -
      have "pn_addr (nodes ! i) \<in> set ?addrs"
        using that endpoint_addrs_spec [of nodes] nth_mem [OF that(1)] by blast
      with \<open>?refused = []\<close> show ?thesis by (auto simp: filter_empty_conv)
    qed
    then show ?thesis by (simp add: filter_empty_conv)
  qed
  have judged: "length ?addrs - length ?unresolved = length ?refused"
    if "list_all (\<lambda>a. verdict a \<noteq> VerdictReachable) ?addrs"
  proof -
    have "\<not> verdict a = VerdictUnresolved \<longleftrightarrow> verdict a = VerdictRefused" if "a \<in> set ?addrs" for a
      using \<open>list_all _ _\<close> that by (cases "verdict a") (auto simp: list_all_iff)
    then have "filter (\<lambda>a. \<not> verdict a = VerdictUnresolved) ?addrs = ?refused" by (rule filter_cong [OF refl])
    then show ?thesis
      using sum_length_filter_compl [of "\<lambda>a. verdict a = VerdictUnresolved" ?addrs] by simp
  qed
  show ?thesis
  proof (cases "?addrs = []")
    case True
    then show ?thesis
      using card by (auto simp: filterReachable_def no_precheck_def breakerTrips_def precheckBreakerMin_def Let_def)
  next
    case False
    show ?thesis
    proof (cases "breakerTrips (length ?refused) (length ?addrs - length ?unresolved)")
      case True
      with False show ?thesis using card by (auto simp: filterReachable_def Let_def)
    next
      case calm: False
      have "?refused = []" if "list_all (\<lambda>a. verdict a \<noteq> VerdictReachable) ?addrs"
        using calm judged [OF that] by (auto simp: breakerTrips_def)
      then have quiet: "filter (\<lambda>i. \<not> ?spared i) [0..<length nodes] = []"
        if "list_all (\<lambda>a. verdict a \<noteq> VerdictReachable) ?addrs" using that none by blast
      have "filterReachable verdict nodes =
          (filter ?spared [0..<length nodes], filter (\<lambda>i. \<not> ?spared i) [0..<length nodes],
           \<lparr>pc_State = PrecheckRan, pc_Dialled = length ?addrs, pc_Refused = length ?refused,
            pc_Unresolved = length ?unresolved\<rparr>)"
        using False calm by (simp add: filterReachable_def Let_def)
      then show ?thesis
        using calm card quiet by (auto simp: list_all_iff sorted_wrt_filter)
    qed
  qed
qed

section \<open>The rounds\<close>

definition delays :: "url_test list \<Rightarrow> nat list" where
  "delays ts = List.map_filter (\<lambda>t. case t of Delay d \<Rightarrow> Some (unat d) | TestError _ \<Rightarrow> None) ts"

lemma delays_simps [simp]:
  "delays [] = []" "delays (t # ts) = (case t of Delay d \<Rightarrow> unat d # delays ts | TestError _ \<Rightarrow> delays ts)"
  by (simp_all add: delays_def map_filter_simps split: url_test.split)

lemma record_tests:
  "foldl record_test a ts =
     \<lparr>da_succ = da_succ a + of_nat (length (delays ts)), da_sum = da_sum a + of_nat (sum_list (delays ts)),
      da_stage = foldl max (da_stage a) (map test_stage ts)\<rparr>"
proof (induction ts arbitrary: a)
  case (Cons t ts)
  then show ?case
    by (cases t) (auto simp: record_test_def Let_def max_def le_less not_less)
qed simp

lemma run_tests_nth:
  "i < length accs \<Longrightarrow> run_tests test tasks accs ! i =
     foldl record_test (accs ! i) (map (\<lambda>t. test (fst t) i) (filter (\<lambda>t. snd t = i) tasks))"
proof (induction tasks arbitrary: accs)
  case (Cons t tasks)
  have "run_tests test (t # tasks) accs =
      run_tests test tasks (accs[snd t := record_test (accs ! snd t) (test (fst t) (snd t))])"
    by (simp add: run_tests_def split: prod.split)
  with Cons show ?case by (cases "snd t = i") auto
qed (simp add: run_tests_def)

lemma length_run_tests [simp]: "length (run_tests test tasks accs) = length accs"
  unfolding run_tests_def by (induction tasks arbitrary: accs) (auto split: prod.splits)

lemma seed_accs_spec:
  "length (seed_accs n condemned) = n \<and>
   (\<forall>i < n. seed_accs n condemned ! i = \<lparr>da_succ = 0, da_sum = 0,
      da_stage = (if i \<in> set condemned then StageCondemned else StageUnknown)\<rparr>)"
proof (induction condemned rule: rev_induct)
  case (snoc x xs)
  have "seed_accs n (xs @ [x]) = (seed_accs n xs)[x := (seed_accs n xs ! x)\<lparr>da_stage := StageCondemned\<rparr>]"
    by (simp add: seed_accs_def)
  with snoc show ?case by (cases "x < n") (auto simp: nth_list_update list_update_beyond)
qed (simp add: seed_accs_def)

lemma foldl_max: "foldl max a xs = Max (insert a (set xs))" for a :: "'a::linorder"
proof -
  have "Max (insert a (set xs)) = fold max xs a" by (metis Max.set_eq_fold list.simps(15))
  then show ?thesis by (simp add: foldl_conv_fold max.commute)
qed

lemma tasks_of_position:
  "distinct live \<Longrightarrow> i \<in> set live \<Longrightarrow> filter (\<lambda>t. snd t = i) (round_tasks rounds live) = map (\<lambda>r. (r, i)) [0..<rounds]"
proof -
  assume live: "distinct live" "i \<in> set live"
  have "filter (\<lambda>t. snd t = i) (map (\<lambda>j. (r, j)) live) = [(r, i)]" for r :: nat
    using live
  proof (induction live)
    case (Cons j live)
    then show ?case by (cases "j = i") (auto simp: filter_empty_conv)
  qed simp
  then show ?thesis
    by (induction rounds) (auto simp: round_tasks_def filter_concat)
qed

definition furthest :: "url_test list \<Rightarrow> ProbeStage" where
  "furthest ts = Max (insert StageUnknown (set (map test_stage ts)))"

lemma sint_of_nat: "n < 2 ^ 31 \<Longrightarrow> sint (of_nat n :: 32 word) = int n"
  by (simp add: signed_of_nat signed_take_bit_int_eq_self)

text \<open>
  Whatever order the concurrent URL tests finish in, a live position's result counts its successful
  rounds, its mean is their delays' sum over that count, rounded down, and its stage the furthest any
  round got. The 32-bit accumulators do not overflow while rounds times the largest delay stay below
  2 to the 31st, which is what the check of rounds times timeout against the interval keeps.
\<close>

theorem probe_rounds_exact:
  assumes order: "mset tasks = mset (round_tasks rounds live)"
    and live: "distinct live" "i \<in> set live" "i < n" "i \<notin> set condemned"
    and delay: "\<forall>r < rounds. \<forall>d. test r i = Delay d \<longrightarrow> unat d \<le> t"
    and bounds: "rounds * t < 2 ^ 31" "rounds < 2 ^ 31"
    and ts: "ts = map (\<lambda>r. test r i) [0..<rounds]"
  shows "acc_result bound (run_tests test tasks (seed_accs n condemned) ! i) =
     \<lparr>pr_Successes = int (length (delays ts)),
      pr_MeanMs = int (sum_list (delays ts) div length (delays ts)),
      pr_Stage = furthest ts, pr_Unbound = (\<not> bound)\<rparr>"
proof -
  define ts' where "ts' = map (\<lambda>t. test (fst t) i) (filter (\<lambda>t. snd t = i) tasks)"
  have perm: "mset ts' = mset ts"
  proof -
    have "mset (filter (\<lambda>t. snd t = i) tasks) = mset (map (\<lambda>r. (r, i)) [0..<rounds])"
      using order tasks_of_position [OF live(1,2), of rounds] by (metis mset_filter)
    then have "mset ts' = mset (map (\<lambda>t. test (fst t) i) (map (\<lambda>r. (r, i)) [0..<rounds]))"
      unfolding ts'_def by (metis mset_map)
    then show ?thesis by (simp add: ts comp_def)
  qed
  have "mset (delays ts') = mset (delays ts)"
    using perm by (simp add: delays_def List.map_filter_def)
  then have d: "length (delays ts') = length (delays ts)" "sum_list (delays ts') = sum_list (delays ts)"
    by (metis size_mset, metis sum_mset_sum_list)
  have stage: "foldl max StageUnknown (map test_stage ts') = furthest ts"
    unfolding foldl_max furthest_def using mset_eq_setD [OF perm] by simp
  have len: "length (delays ts) \<le> rounds"
    by (simp add: ts delays_def List.map_filter_def le_trans [OF length_filter_le])
  have each: "x \<le> t" if x: "x \<in> set (delays ts)" for x
  proof -
    obtain r where "r < rounds" "(case test r i of Delay d \<Rightarrow> Some (unat d) | TestError _ \<Rightarrow> None) = Some x"
      using x by (auto simp: delays_def in_map_filter ts)
    then show ?thesis using delay by (cases "test r i") auto
  qed
  have "sum_list xs \<le> length xs * t" if "\<And>x. x \<in> set xs \<Longrightarrow> x \<le> t" for xs
    using that by (induction xs) (auto simp: add_mono)
  then have "sum_list (delays ts) \<le> length (delays ts) * t" using each by blast
  also have "\<dots> \<le> rounds * t" using len by simp
  finally have small: "sum_list (delays ts) < 2 ^ 31" "length (delays ts) < 2 ^ 31" using bounds len by linarith+
  have acc: "run_tests test tasks (seed_accs n condemned) ! i =
      \<lparr>da_succ = of_nat (length (delays ts)), da_sum = of_nat (sum_list (delays ts)), da_stage = furthest ts\<rparr>"
    using run_tests_nth [of i "seed_accs n condemned" test tasks] seed_accs_spec [of n condemned] live
    by (simp add: record_tests ts'_def [symmetric] d stage)
  show ?thesis
  proof (cases "delays ts = []")
    case True
    then show ?thesis by (simp add: acc_result_def acc)
  next
    case False
    then have "sgn (int (length (delays ts))) = 1" by simp
    moreover have "sgn (int k) * (int k div j) = int k div j" for k j by (cases "k = 0") simp_all
    ultimately have "int (sum_list (delays ts)) sdiv int (length (delays ts)) =
        int (sum_list (delays ts) div length (delays ts))"
      by (simp only: signed_divide_int_def abs_of_nat zdiv_int mult_1_right)
    then show ?thesis
      using False by (simp add: acc_result_def acc sint_of_nat [OF small(1)] sint_of_nat [OF small(2)])
  qed
qed

lemma probe_rounds_exact_witness:
  "acc_result True (run_tests (\<lambda>r i. [Delay 100, TestError True, Delay 102] ! r) [(2, 0), (0, 0), (1, 0)] (seed_accs 2 [1]) ! 0) =
     \<lparr>pr_Successes = 2, pr_MeanMs = 101, pr_Stage = StagePassed, pr_Unbound = False\<rparr>"
proof -
  let ?ts = "[Delay 100, TestError True, Delay 102]"
  have small: "\<forall>r < 3. \<forall>d. ?ts ! r = Delay d \<longrightarrow> unat d \<le> 102"
    by (auto simp: less_Suc_eq numeral_3_eq_3)
  have "acc_result True (run_tests (\<lambda>r i. ?ts ! r) [(2, 0), (0, 0), (1, 0)] (seed_accs 2 [1]) ! 0) =
     \<lparr>pr_Successes = int (length (delays ?ts)), pr_MeanMs = int (sum_list (delays ?ts) div length (delays ?ts)),
      pr_Stage = furthest ?ts, pr_Unbound = (\<not> True)\<rparr>"
    by (rule probe_rounds_exact [OF _ _ _ _ _ small, where live = "[0]"])
       (simp_all add: round_tasks_def upt_rec)
  moreover have "furthest ?ts = StagePassed"
    by (simp add: furthest_def test_stage_def probeStage_def max_def less_eq_ProbeStage_def stage_rank_def)
  ultimately show ?thesis by (simp flip: numeral_2_eq_2)
qed

section \<open>The server that lost its dot\<close>

lemma set_absent_apply:
  "set_absent k v m j = (if j = k then (case m k of None \<Rightarrow> Some (GString v) | Some x \<Rightarrow> Some x) else m j)"
  by (auto simp: set_absent_def split: option.splits)

lemma set_header_host_other [simp]: "j \<noteq> opts \<Longrightarrow> set_header_host opts host m j = m j"
  by (simp add: set_header_host_def Let_def)

lemma get_string_cong: "m k = m' k \<Longrightarrow> get_string m k = get_string m' k"
  by (simp add: get_string_def)

lemma wsHeaderHost_cong: "m ''ws-opts'' = m' ''ws-opts'' \<Longrightarrow> wsHeaderHost m = wsHeaderHost m'"
  by (simp add: wsHeaderHost_def get_map_def)

text \<open>The keys a mapping may gain, and what it keeps.\<close>

lemma preserve_frame:
  "preserveDerivedHost m original j =
     (if j = ''servername'' \<or> j = ''sni'' then
        (if get_string m ''network'' \<in> {''ws'', ''httpupgrade''} \<and> get_string m ''type'' \<in> {''vless'', ''vmess''}
         then m j else (case m j of None \<Rightarrow> Some (GString original) | Some x \<Rightarrow> Some x))
      else if j = ''ws-opts'' \<or> j = ''http-opts'' then preserveDerivedHost m original j
      else m j)"
  by (auto simp: preserveDerivedHost_def set_absent_apply setWSHeaderHost_def setHTTPHeaderHost_def Let_def split: option.splits)

lemma preserve_explicit_host:
  assumes "wsHeaderHost m = Some h"
  shows "wsHeaderHost (preserveDerivedHost m original) = Some h"
proof -
  have "preserveDerivedHost m original ''ws-opts'' = m ''ws-opts''"
    using assms by (auto simp: preserveDerivedHost_def set_absent_apply setHTTPHeaderHost_def Let_def)
  then show ?thesis using assms wsHeaderHost_cong by metis
qed

text \<open>
  Stripping a pinned server's trailing dot takes exactly the dot off it and touches no other key
  but the names derived from it: a server name, SNI or transport Host the link spelled out stays, an
  absent server name and SNI become the original spelling unless the transport carries them in its Host.
\<close>

theorem dot_trim_keeps_names:
  "(let m' = normalise_server uni b m in
     (if \<exists>server. m ''server'' = Some (GString server) \<and> has_suffix_dot server \<and> map_of (bd_hosts b) (pinKey uni server) \<noteq> None
      then get_string m' ''server'' = trim_suffix_dot (get_string m ''server'') \<and>
           (case wsHeaderHost m of Some h \<Rightarrow> wsHeaderHost m' = Some h | None \<Rightarrow> True) \<and>
           (case m ''servername'' of Some v \<Rightarrow> m' ''servername'' = Some v
            | None \<Rightarrow> m' ''servername'' \<in> {None, m ''server''}) \<and>
           (case m ''sni'' of Some v \<Rightarrow> m' ''sni'' = Some v | None \<Rightarrow> m' ''sni'' \<in> {None, m ''server''}) \<and>
           (if get_string m ''network'' \<in> {''ws'', ''httpupgrade''} \<and> get_string m ''type'' \<in> {''vless'', ''vmess''}
            then True else m' ''servername'' \<noteq> None \<and> m' ''sni'' \<noteq> None) \<and>
           m' |` (- {''server'', ''servername'', ''sni'', ''ws-opts'', ''http-opts''}) =
             m |` (- {''server'', ''servername'', ''sni'', ''ws-opts'', ''http-opts''})
      else m' = m))"
proof (cases "\<exists>server. m ''server'' = Some (GString server) \<and> has_suffix_dot server \<and> map_of (bd_hosts b) (pinKey uni server) \<noteq> None")
  case False
  then have "normalise_server uni b m = m"
    by (auto simp: normalise_server_def split: option.splits gv.splits)
  with False show ?thesis by (simp only: Let_def if_False)
next
  case True
  then obtain server where s: "m ''server'' = Some (GString server)" "has_suffix_dot server"
    "map_of (bd_hosts b) (pinKey uni server) \<noteq> None" by blast
  define m1 where "m1 = m(''server'' \<mapsto> GString (trim_suffix_dot server))"
  define m' where "m' = preserveDerivedHost m1 server"
  have n: "normalise_server uni b m = m'" using s by (auto simp: normalise_server_def m'_def m1_def)
  have keep: "get_string m1 ''network'' = get_string m ''network''" "get_string m1 ''type'' = get_string m ''type''"
    by (rule get_string_cong, simp add: m1_def)+
  note frame = preserve_frame [of m1 server, folded m'_def, unfolded keep]
  have "get_string m' ''server'' = trim_suffix_dot (get_string m ''server'')"
    by (simp add: get_string_def frame [of "''server''"] m1_def s(1))
  moreover have "(case wsHeaderHost m of Some h \<Rightarrow> wsHeaderHost m' = Some h | None \<Rightarrow> True)"
    using preserve_explicit_host [of m1 _ server, folded m'_def] wsHeaderHost_cong [of m m1]
    by (simp add: m1_def split: option.split)
  moreover have "(case m ''servername'' of Some v \<Rightarrow> m' ''servername'' = Some v
            | None \<Rightarrow> m' ''servername'' \<in> {None, m ''server''})"
    by (simp add: frame [of "''servername''"] m1_def s(1) split: option.split)
  moreover have "(case m ''sni'' of Some v \<Rightarrow> m' ''sni'' = Some v | None \<Rightarrow> m' ''sni'' \<in> {None, m ''server''})"
    by (simp add: frame [of "''sni''"] m1_def s(1) split: option.split)
  moreover have "(if get_string m ''network'' \<in> {''ws'', ''httpupgrade''} \<and> get_string m ''type'' \<in> {''vless'', ''vmess''}
            then True else m' ''servername'' \<noteq> None \<and> m' ''sni'' \<noteq> None)"
    by (simp add: frame [of "''sni''"] frame [of "''servername''"] split: option.split)
  moreover have "m' |` (- {''server'', ''servername'', ''sni'', ''ws-opts'', ''http-opts''}) =
             m |` (- {''server'', ''servername'', ''sni'', ''ws-opts'', ''http-opts''})"
    by (rule ext) (simp add: restrict_map_def frame m1_def)
  ultimately show ?thesis using True unfolding n Let_def by (simp only: if_True simp_thms)
qed

end
