(* ===== verification/Annotator.thy ===== *)
theory Annotator
  imports Rewrite Refresh
begin

text \<open>
  \<^verbatim>\<open>internal/geo/geo.go\<close> and \<^verbatim>\<open>internal/preprocess/annotator.go\<close>: the providers a tag's chain names,
  and the tags written in front of a survivor's name. The ASN resolver answers in a world \<open>'w\<close>
  each call may change.
\<close>

section \<open>Providers\<close>

record Info =
  in_Country :: CountryCode
  in_ASN :: string

text \<open>A local database is read through a getter, so it follows background reloads.\<close>

datatype 'w provider =
    LookupProvider string "'w \<Rightarrow> country_lookup"
  | AsnProvider "'w \<Rightarrow> addr \<Rightarrow> (string \<times> CountryCode) option \<times> 'w"

fun provider_Name :: "'w provider \<Rightarrow> string" where
  "provider_Name (LookupProvider name current) = name"
| "provider_Name (AsnProvider resolve) = ''asn''"

fun provider_Lookup :: "'w provider \<Rightarrow> 'w \<Rightarrow> addr \<Rightarrow> Info \<times> 'w" where
  "provider_Lookup (LookupProvider name current) w ip =
     (\<lparr>in_Country = lookup_country (current w) ip, in_ASN = []\<rparr>, w)"
| "provider_Lookup (AsnProvider resolve) w ip =
     (case resolve w ip of
        (None, w') \<Rightarrow> (\<lparr>in_Country = no_country, in_ASN = []\<rparr>, w')
      | (Some (name, country), w') \<Rightarrow> (\<lparr>in_Country = country, in_ASN = name\<rparr>, w'))"

section \<open>The annotator\<close>

text \<open>A step without provider is the cloudflare step.\<close>

type_synonym 'w annotStep = "'w provider option"

record 'w annotTag =
  at_key :: string
  at_chain :: "'w annotStep list"

type_synonym 'w annotator = "'w annotTag list"

record Egress =
  eg_IP :: addr
  eg_Country :: CountryCode

definition Egress_Valid :: "Egress \<Rightarrow> bool" where
  "Egress_Valid e = IsValid (eg_IP e)"

record AnnotateRequest =
  ar_Node :: Node
  ar_IP :: addr
  ar_Egress :: Egress
  ar_Prefix :: string

fun tag_chain :: "(string \<rightharpoonup> 'w provider) \<Rightarrow> 'w annotStep list \<Rightarrow> string list \<Rightarrow> 'w annotStep list" where
  "tag_chain providers chain [] = chain"
| "tag_chain providers chain (name # names) =
     (if name = ''cloudflare'' then tag_chain providers (chain @ [None]) names
      else case providers name of
        None \<Rightarrow> tag_chain providers chain names
      | Some prov \<Rightarrow> tag_chain providers (chain @ [Some prov]) names)"

text \<open>\<open>None\<close> is the nil annotator of a config without tags.\<close>

definition newAnnotator :: "AnnotateSpec list \<Rightarrow> (string \<rightharpoonup> 'w provider) \<Rightarrow> 'w annotator option" where
  "newAnnotator specs providers =
     (if specs = [] then None
      else Some (map (\<lambda>s. \<lparr>at_key = Tag s, at_chain = tag_chain providers [] (Providers s)\<rparr>) specs))"

fun tag_lookup :: "'w annotStep list \<Rightarrow> 'w \<Rightarrow> AnnotateRequest \<Rightarrow> CountryCode \<times> 'w" where
  "tag_lookup [] w req = (no_country, w)"
| "tag_lookup (None # chain) w req =
     (if Egress_Valid (ar_Egress req) then (eg_Country (ar_Egress req), w) else tag_lookup chain w req)"
| "tag_lookup (Some prov # chain) w req =
     (let (info, w') = provider_Lookup prov w (ar_IP req)
      in if in_Country info \<noteq> no_country then (in_Country info, w') else tag_lookup chain w' req)"

definition annot_lookupCountry :: "'w annotTag \<Rightarrow> 'w \<Rightarrow> AnnotateRequest \<Rightarrow> CountryCode \<times> 'w" where
  "annot_lookupCountry t w req = tag_lookup (at_chain t) w req"

text \<open>The loop over the tags: the scratch buffer, the lead country and whether it was taken.\<close>

fun annotate_loop ::
  "AnnotateRequest \<Rightarrow> string \<Rightarrow> CountryCode \<Rightarrow> bool \<Rightarrow> 'w \<Rightarrow> 'w annotTag list \<Rightarrow> string \<times> CountryCode \<times> 'w" where
  "annotate_loop req scratch country tookLead w [] = (scratch, country, w)"
| "annotate_loop req scratch country tookLead w (t # tags) =
     (if at_key t \<noteq> ''GEO'' then annotate_loop req scratch country tookLead w tags
      else let (c, w') = annot_lookupCountry t w req
           in annotate_loop req
                (scratch @ ''[GEO:'' @ (if c = no_country then ''??'' else [fst c, snd c]) @ '']'')
                (if \<not> tookLead then c else country) True w' tags)"

definition Annotate ::
  "'w annotator \<Rightarrow> 'w \<Rightarrow> string \<Rightarrow> AnnotateRequest \<Rightarrow> CountryCode \<times> string \<times> 'w" where
  "Annotate a w dst req =
     (let (scratch, country, w') = annotate_loop req (ar_Prefix req) no_country False w a
      in (country, NodeName_buf dst (ar_Node req) scratch, w'))"

text \<open>The provider map \<^verbatim>\<open>NewProcessor\<close> hands to \<open>newAnnotator\<close>.\<close>

definition processor_providers ::
  "('w \<Rightarrow> country_lookup) \<Rightarrow> ('w \<Rightarrow> addr \<Rightarrow> (string \<times> CountryCode) option \<times> 'w) option
   \<Rightarrow> ('w \<Rightarrow> country_lookup) option \<Rightarrow> ('w \<Rightarrow> country_lookup) option \<Rightarrow> string \<rightharpoonup> 'w provider" where
  "processor_providers geofeed asn dbip registry name =
     (if name = ''geofeed'' then Some (LookupProvider ''geofeed'' geofeed)
      else if name = ''asn'' then map_option AsnProvider asn
      else if name = ''dbip'' then map_option (LookupProvider ''dbip'') dbip
      else if name = ''registry'' then map_option (LookupProvider ''registry'') registry
      else None)"

section \<open>The tags\<close>

definition geo_tag :: "CountryCode \<Rightarrow> string" where
  "geo_tag c = ''[GEO:'' @ (if c = no_country then ''??'' else [fst c, snd c]) @ '']''"

text \<open>The countries the GEO tags resolve to, in order.\<close>

fun geo_answers :: "AnnotateRequest \<Rightarrow> 'w \<Rightarrow> 'w annotTag list \<Rightarrow> CountryCode list \<times> 'w" where
  "geo_answers req w [] = ([], w)"
| "geo_answers req w (t # tags) =
     (if at_key t \<noteq> ''GEO'' then geo_answers req w tags
      else let (c, w1) = annot_lookupCountry t w req; (cs, w2) = geo_answers req w1 tags in (c # cs, w2))"

lemma annotate_loop_eq:
  "annotate_loop req scratch country took w tags =
     (let (cs, w') = geo_answers req w tags
      in (scratch @ concat (map geo_tag cs), if took \<or> cs = [] then country else hd cs, w'))"
  by (induction tags arbitrary: scratch country took w) (auto simp: Let_def geo_tag_def split: prod.splits)

lemma Annotate_eq:
  "Annotate a w dst req =
     (let (cs, w') = geo_answers req w a
      in (if cs = [] then no_country else hd cs,
          dst @ NodeName (ar_Node req) (ar_Prefix req @ concat (map geo_tag cs)), w'))"
  by (simp add: Annotate_def annotate_loop_eq NodeName_buf_def split: prod.splits)

section \<open>A rendered tag is a known tag\<close>

lemma strip_tag:
  assumes "isKnownTag t" "CHR '']'' \<notin> set t"
  shows "StripKnownTags (CHR ''['' # t @ CHR '']'' # rest) = StripKnownTags rest"
proof -
  have "index_byte CHR '']'' (CHR ''['' # t @ CHR '']'' # rest) = Some (Suc (length t))"
    using assms(2) by (simp add: index_byte_append)
  with assms(1) show ?thesis
    by (subst StripKnownTags.simps) (simp add: is_blank_byte_def Let_def)
qed

lemma strip_blank: "is_blank_byte b \<Longrightarrow> s \<noteq> [] \<Longrightarrow> StripKnownTags (b # s) = StripKnownTags s"
  by (subst (1 2) StripKnownTags.simps) (simp add: Let_def)

lemma strip_geo_tag:
  assumes "CHR '']'' \<noteq> fst c" "CHR '']'' \<noteq> snd c"
  shows "StripKnownTags (geo_tag c @ rest) = StripKnownTags rest"
proof -
  have "StripKnownTags (CHR ''['' # (''GEO:'' @ (if c = no_country then ''??'' else [fst c, snd c])) @ CHR '']'' # rest)
      = StripKnownTags rest"
    by (rule strip_tag) (use assms in \<open>auto simp: isKnownTag_def has_prefix_def\<close>)
  then show ?thesis by (simp add: geo_tag_def)
qed

lemma strip_geo_tags:
  "list_all (\<lambda>c. CHR '']'' \<noteq> fst c \<and> CHR '']'' \<noteq> snd c) cs \<Longrightarrow>
   StripKnownTags (concat (map geo_tag cs) @ rest) = StripKnownTags rest"
  by (induction cs) (auto simp: strip_geo_tag)

section \<open>The local chain\<close>

lemma first_seen: "rev (remdups (rev (x # xs))) = x # rev (remdups (rev (filter (\<lambda>y. y \<noteq> x) xs)))"
proof -
  have "remdups (ys @ [x]) = remdups (filter (\<lambda>y. y \<noteq> x) ys) @ [x]" for ys
    by (induction ys) auto
  from this [of "rev xs"] show ?thesis by (simp add: rev_filter)
qed

lemma find_first_seen: "find P (rev (remdups (rev xs))) = find P xs"
proof (induction xs rule: length_induct)
  case (1 xs)
  show ?case
  proof (cases xs)
    case (Cons x ys)
    have "length (filter (\<lambda>y. y \<noteq> x) ys) < length xs" using Cons by (simp add: le_imp_less_Suc)
    with 1 have IH: "find P (rev (remdups (rev (filter (\<lambda>y. y \<noteq> x) ys)))) = find P (filter (\<lambda>y. y \<noteq> x) ys)" by blast
    have "\<not> P x \<Longrightarrow> find P (filter (\<lambda>y. y \<noteq> x) ys) = find P ys" by (induction ys) auto
    with IH show ?thesis unfolding Cons first_seen by simp
  qed simp
qed

lemma find_prefix: "find P xs = Some x \<Longrightarrow> find P (xs @ ys) = Some x"
  by (induction xs) auto

lemma find_map_answer:
  "(case find (\<lambda>l. lookup_country l ip \<noteq> no_country) (map pick xs) of
      None \<Rightarrow> no_country | Some l \<Rightarrow> lookup_country l ip) =
   (case find (\<lambda>x. lookup_country (pick x) ip \<noteq> no_country) xs of
      None \<Rightarrow> no_country | Some x \<Rightarrow> lookup_country (pick x) ip)"
  by (induction xs) auto

definition snapshot :: "'w \<Rightarrow> ('w \<Rightarrow> country_lookup) option \<Rightarrow> country_lookup" where
  "snapshot w g = (case g of None \<Rightarrow> NilLookup | Some current \<Rightarrow> current w)"

abbreviation db_pick :: "country_lookup \<Rightarrow> country_lookup \<Rightarrow> country_lookup \<Rightarrow> string \<Rightarrow> country_lookup" where
  "db_pick geofeed dbip registry \<equiv>
     (\<lambda>name. if name = ''dbip'' then dbip else if name = ''registry'' then registry else geofeed)"

lemma chain_prefix:
  assumes "find (\<lambda>x. lookup_country (db_pick g d r x) ip \<noteq> no_country)
      (filter (\<lambda>p. localCountryProvider p b1 b2) (concat (map Providers (filter (\<lambda>a. Tag a = ''GEO'') specs)))) = Some x"
  shows "lookup_country (countryChain (countryChainOrder specs b1 b2) g d r) ip = lookup_country (db_pick g d r x) ip"
proof -
  let ?ns = "filter (\<lambda>p. localCountryProvider p b1 b2) (concat (map Providers (filter (\<lambda>a. Tag a = ''GEO'') specs)))"
  have "?ns \<noteq> []" using assms by auto
  then have "rev (remdups (rev ?ns)) \<noteq> []" by simp
  then show ?thesis
    unfolding country_chain_eq Let_def find_map_answer by (simp only: if_False find_first_seen assms option.case)
qed

lemma tag_chain_eq:
  "tag_chain providers chain names = chain @ List.map_filter
     (\<lambda>name. if name = ''cloudflare'' then Some None else map_option Some (providers name)) names"
  by (induction names arbitrary: chain) (auto simp: map_filter_simps split: option.splits)

lemma local_tag_lookup:
  assumes "list_all (\<lambda>p. localCountryProvider p (dbip \<noteq> None) (registry \<noteq> None)) names"
  shows "tag_lookup (tag_chain (processor_providers geofeed asn dbip registry) [] names) w req =
    (case find (\<lambda>x. lookup_country (db_pick (geofeed w) (snapshot w dbip) (snapshot w registry) x) (ar_IP req) \<noteq> no_country) names of
       None \<Rightarrow> no_country
     | Some x \<Rightarrow> lookup_country (db_pick (geofeed w) (snapshot w dbip) (snapshot w registry) x) (ar_IP req), w)"
  using assms
proof (induction names)
  case (Cons n ns)
  let ?look = "\<lambda>x. lookup_country (db_pick (geofeed w) (snapshot w dbip) (snapshot w registry) x) (ar_IP req)"
  have l: "localCountryProvider n (dbip \<noteq> None) (registry \<noteq> None)" using Cons.prems by simp
  then obtain prov where p: "processor_providers geofeed asn dbip registry n = Some prov"
      "provider_Lookup prov w (ar_IP req) = (\<lparr>in_Country = ?look n, in_ASN = []\<rparr>, w)"
    by (auto simp: localCountryProvider_def processor_providers_def snapshot_def split: if_splits)
  have "n \<noteq> ''cloudflare''" using l by (auto simp: localCountryProvider_def split: if_splits)
  then have "tag_chain (processor_providers geofeed asn dbip registry) [] (n # ns) =
      Some prov # tag_chain (processor_providers geofeed asn dbip registry) [] ns"
    by (simp add: tag_chain_eq map_filter_simps p(1))
  with Cons p(2) show ?case by simp
qed simp

lemma geo_answers_lead:
  assumes "newAnnotator specs providers = Some a" "filter (\<lambda>s. Tag s = ''GEO'') specs = lead # later"
  shows "\<exists>cs. fst (geo_answers req w a) = fst (tag_lookup (tag_chain providers [] (Providers lead)) w req) # cs"
proof -
  have a: "a = map (\<lambda>s. \<lparr>at_key = Tag s, at_chain = tag_chain providers [] (Providers s)\<rparr>) specs"
    using assms(1) by (simp add: newAnnotator_def split: if_splits)
  show ?thesis
    unfolding a using assms(2)
    by (induction specs) (auto simp: annot_lookupCountry_def Let_def split: if_splits prod.splits)
qed

section \<open>Properties\<close>

text \<open>
  the annotator publishes what it returns. Whatever the providers answer, the line is the
  node renamed with the prefix followed by one tag per GEO entry, each showing its country or
  \<open>??\<close>; the returned country is the one the first tag shows, none for \<open>[GEO:??]\<close> or no tag; and
  when a later run strips that name again, none of these tags is left in front of it.
\<close>

theorem annotate_returns_lead_tag:
  "case Annotate a w dst req of (country, out, w') \<Rightarrow>
     \<exists>cs. out = dst @ NodeName (ar_Node req) (ar_Prefix req @ concat (map geo_tag cs)) \<and>
       length cs = length (filter (\<lambda>t. at_key t = ''GEO'') a) \<and>
       country = (case cs of [] \<Rightarrow> no_country | c # _ \<Rightarrow> c) \<and>
       (if list_all (\<lambda>c. CHR '']'' \<noteq> fst c \<and> CHR '']'' \<noteq> snd c) cs
        then StripKnownTags (concat (map geo_tag cs) @ name) = StripKnownTags name else True)"
proof -
  obtain cs w' where g: "geo_answers req w a = (cs, w')" by (metis surj_pair)
  have "length (fst (geo_answers req w a)) = length (filter (\<lambda>t. at_key t = ''GEO'') a)"
    by (induction a arbitrary: w) (auto simp: Let_def split: prod.splits, metis fst_conv)
  with g strip_geo_tags show ?thesis
    by (auto simp: Annotate_eq intro!: exI [where x = cs] split: list.splits)
qed

text \<open>
  the country filter and the published tag agree. When the first GEO entry names only
  local databases that were built and its tag shows a country, the filter's chain over the same
  databases resolves the address to that country, so the filter judged the node by the very
  country its name shows.
\<close>

theorem verdict_matches_tag:
  assumes "filter (\<lambda>s. Tag s = ''GEO'') specs = lead # later"
    and "list_all (\<lambda>p. localCountryProvider p (dbip \<noteq> None) (registry \<noteq> None)) (Providers lead)"
    and "newAnnotator specs (processor_providers geofeed asn dbip registry) = Some a"
    and "Annotate a w dst req = (country, out, w')" and "country \<noteq> no_country"
  shows "lookup_country (countryChain (countryChainOrder specs (dbip \<noteq> None) (registry \<noteq> None))
           (geofeed w) (snapshot w dbip) (snapshot w registry)) (ar_IP req) = country"
proof -
  let ?look = "\<lambda>x. lookup_country (db_pick (geofeed w) (snapshot w dbip) (snapshot w registry) x) (ar_IP req)"
  from geo_answers_lead [OF assms(3,1), of req w] obtain cs where
    "fst (geo_answers req w a) =
       (case find (\<lambda>x. ?look x \<noteq> no_country) (Providers lead) of None \<Rightarrow> no_country | Some x \<Rightarrow> ?look x) # cs"
    unfolding local_tag_lookup [OF assms(2)] by auto
  with assms(4) have c: "country =
      (case find (\<lambda>x. ?look x \<noteq> no_country) (Providers lead) of None \<Rightarrow> no_country | Some x \<Rightarrow> ?look x)"
    by (auto simp: Annotate_eq split: prod.splits)
  with assms(5) obtain x where x: "find (\<lambda>x. ?look x \<noteq> no_country) (Providers lead) = Some x" "country = ?look x"
    by (auto split: option.splits)
  have "filter (\<lambda>p. localCountryProvider p (dbip \<noteq> None) (registry \<noteq> None)) (Providers lead) = Providers lead"
    using assms(2) by (simp add: list_all_iff)
  with x(1) have "find (\<lambda>x. ?look x \<noteq> no_country)
      (filter (\<lambda>p. localCountryProvider p (dbip \<noteq> None) (registry \<noteq> None))
        (concat (map Providers (filter (\<lambda>a. Tag a = ''GEO'') specs)))) = Some x"
    unfolding assms(1) by (simp add: find_prefix)
  from chain_prefix [OF this] show ?thesis unfolding x(2) .
qed

definition sample_db :: country_lookup where
  "sample_db = Indexed (newIndexedLookup
     [\<lparr>Start = V4 5, End = V4 15, Country = (CHR ''U'', CHR ''S'')\<rparr>,
      \<lparr>Start = V4 0, End = V4 10, Country = (CHR ''D'', CHR ''E'')\<rparr>])"

lemma sample_db_7: "lookup_country sample_db (V4 7) = (CHR ''D'', CHR ''E'')"
  by (simp add: sample_db_def equal_span_tie_by_start)

lemma verdict_matches_tag_witness:
  "lookup_country (countryChain (countryChainOrder
       [\<lparr>Tag = ''GEO'', Providers = [''geofeed'', ''dbip'']\<rparr>] True False) NilLookup sample_db NilLookup) (V4 7)
     = (CHR ''D'', CHR ''E'')"
proof -
  let ?specs = "[\<lparr>Tag = ''GEO'', Providers = [''geofeed'', ''dbip'']\<rparr>]"
  let ?db = "Some (\<lambda>_ :: unit. sample_db)" and ?no = "None :: (unit \<Rightarrow> country_lookup) option"
  let ?prov = "processor_providers (\<lambda>_. NilLookup) None ?db ?no"
  let ?req = "\<lparr>ar_Node = \<lparr>Raw = [], Scheme = [], Name = [], Server = [], Port = [], FragmentIdx = None\<rparr>, ar_IP = V4 7,
      ar_Egress = \<lparr>eg_IP = NoAddr, eg_Country = no_country\<rparr>, ar_Prefix = []\<rparr>"
  let ?a = "[\<lparr>at_key = ''GEO'', at_chain = tag_chain ?prov [] [''geofeed'', ''dbip'']\<rparr>]"
  have loc: "list_all (\<lambda>p. localCountryProvider p (?db \<noteq> None) (?no \<noteq> None)) [''geofeed'', ''dbip'']"
    by (simp add: localCountryProvider_def)
  have geo: "filter (\<lambda>s. Tag s = ''GEO'') ?specs = \<lparr>Tag = ''GEO'', Providers = [''geofeed'', ''dbip'']\<rparr> # []" by simp
  have new: "newAnnotator ?specs ?prov = Some ?a" by (simp add: newAnnotator_def)
  have "tag_lookup (tag_chain ?prov [] [''geofeed'', ''dbip'']) () ?req = ((CHR ''D'', CHR ''E''), ())"
    unfolding local_tag_lookup [OF loc] by (simp add: snapshot_def sample_db_7)
  then have "geo_answers ?req () ?a = ([(CHR ''D'', CHR ''E'')], ())"
    by (simp add: annot_lookupCountry_def del: tag_chain.simps)
  then obtain out where ann: "Annotate ?a () [] ?req = ((CHR ''D'', CHR ''E''), out, ())"
    by (simp add: Annotate_eq)
  from verdict_matches_tag [OF geo _ new ann] loc show ?thesis by (simp add: snapshot_def)
qed

end
