(* ===== verification/Select.thy ===== *)
theory Select
  imports ProberLaws Annotator
begin

text \<open>
  \<^verbatim>\<open>internal/stable/select.go\<close>: the entries that pass the latency gate, and the payload they are
  published as, each line renamed with the tags of its speed and its country. A survivor extends the
  entry it was; the annotator may change its world.
\<close>

section \<open>Selection\<close>

record Survivor = Merge.Entry +
  sv_MeanMs :: int
  sv_Mbps :: int
  sv_Egress :: Egress

definition no_egress :: Egress where
  "no_egress = \<lparr>eg_IP = NoAddr, eg_Country = no_country\<rparr>"

definition survivor_of :: "Entry \<Rightarrow> int \<Rightarrow> Survivor" where
  "survivor_of e mean = Merge.Entry.extend e \<lparr>sv_MeanMs = mean, sv_Mbps = 0, sv_Egress = no_egress\<rparr>"

definition select_entry :: "(string \<rightharpoonup> ProbeResult) \<Rightarrow> int \<Rightarrow> int \<Rightarrow> int \<Rightarrow> Entry \<Rightarrow> Survivor option" where
  "select_entry res rounds maxFail maxAvgMs e =
     (case res (en_Label e) of
        None \<Rightarrow> None
      | Some r \<Rightarrow>
          (if rounds - pr_Successes r > maxFail \<or> pr_MeanMs r > maxAvgMs then None
           else Some (survivor_of e (pr_MeanMs r))))"

text \<open>\<^verbatim>\<open>slices.SortStableFunc\<close> by the mean is a stable sort by key.\<close>

definition SelectSurvivors :: "Entry list \<Rightarrow> (string \<rightharpoonup> ProbeResult) \<Rightarrow> int \<Rightarrow> int \<Rightarrow> int \<Rightarrow> Survivor list" where
  "SelectSurvivors entries res rounds maxFail maxAvgMs =
     sort_key sv_MeanMs (List.map_filter (select_entry res rounds maxFail maxAvgMs) entries)"

section \<open>Rendering\<close>

definition alphaLetters :: nat where
  "alphaLetters = 26"

definition countryCodes :: string where
  "countryCodes = concat (map (\<lambda>i. [char_of (65 + i div alphaLetters), char_of (65 + i mod alphaLetters)])
     [0..<alphaLetters * alphaLetters])"

definition countryString :: "CountryCode \<Rightarrow> string" where
  "countryString c =
     (if c = no_country then ''??''
      else let hi = int (byte (fst c)) - 65; lo = int (byte (snd c)) - 65
           in if hi < 0 \<or> hi \<ge> int alphaLetters \<or> lo < 0 \<or> lo \<ge> int alphaLetters then [fst c, snd c]
              else let i = 2 * (nat hi * alphaLetters + nat lo) in take 2 (drop i countryCodes))"

definition annotatedIP :: "Survivor \<Rightarrow> addr" where
  "annotatedIP s = (if Egress_Valid (sv_Egress s) then eg_IP (sv_Egress s) else en_IP s)"

definition speedPrefix :: "int \<Rightarrow> string" where
  "speedPrefix mbps = (if mbps \<le> 0 then [] else ''[SPD:'' @ int_text mbps @ ''M] '')"

definition render ::
  "'w annotator \<Rightarrow> 'w \<Rightarrow> string \<Rightarrow> addr \<Rightarrow> Egress \<Rightarrow> string \<Rightarrow> (string \<times> CountryCode) option \<times> 'w" where
  "render ann w raw ip egress prefix =
     (case parseOne raw of
        None \<Rightarrow> (None, w)
      | Some n \<Rightarrow>
          (let (country, line, w') =
             Annotate ann w [] \<lparr>ar_Node = n, ar_IP = ip, ar_Egress = egress, ar_Prefix = prefix\<rparr>
           in (Some (line, country), w')))"

fun payload_loop :: "'w annotator \<Rightarrow> 'w \<Rightarrow> string \<Rightarrow> Survivor list \<Rightarrow> string \<times> Survivor list \<times> 'w" where
  "payload_loop ann w out [] = (out, [], w)"
| "payload_loop ann w out (s # ss) =
     (let (r, w1) = render ann w (en_Raw s) (annotatedIP s) (sv_Egress s) (speedPrefix (sv_Mbps s));
          (line, s') = (case r of
             None \<Rightarrow> (en_Raw s, s)
           | Some (line, country) \<Rightarrow> (line, s\<lparr>en_Country := countryString country\<rparr>));
          (out', ss', w') = payload_loop ann w1 (out @ line @ [CHR 0x0A]) ss
      in (out', s' # ss', w'))"

definition BuildPayload :: "'w annotator option \<Rightarrow> 'w \<Rightarrow> Survivor list \<Rightarrow> string \<times> Survivor list \<times> 'w" where
  "BuildPayload ann w survivors =
     (case ann of
        None \<Rightarrow> (concat (map (\<lambda>s. en_Raw s @ [CHR 0x0A]) survivors), survivors, w)
      | Some a \<Rightarrow> payload_loop a w [] survivors)"

text \<open>The gauges read from the published survivors.\<close>

definition geoUnknownCount :: "Survivor list \<Rightarrow> nat" where
  "geoUnknownCount survivors = length (filter (\<lambda>s. en_Country s = ''??'') survivors)"

definition keptCountries :: "Survivor list \<Rightarrow> (string \<rightharpoonup> nat)" where
  "keptCountries survivors =
     foldl (\<lambda>m s. if en_Country s \<noteq> [] \<and> en_Country s \<noteq> ''??''
                   then m(en_Country s \<mapsto> (case m (en_Country s) of None \<Rightarrow> 0 | Some n \<Rightarrow> n) + 1) else m)
       Map.empty survivors"

definition keptSpeeds :: "Survivor list \<Rightarrow> int list" where
  "keptSpeeds survivors = map sv_Mbps (filter (\<lambda>s. sv_Mbps s > 0) survivors)"

definition keptLatencies :: "Survivor list \<Rightarrow> int list" where
  "keptLatencies survivors = map sv_MeanMs survivors"

fun moved_loop :: "'w annotator \<Rightarrow> 'w \<Rightarrow> nat \<Rightarrow> Survivor list \<Rightarrow> nat \<times> 'w" where
  "moved_loop ann w moved [] = (moved, w)"
| "moved_loop ann w moved (s # ss) =
     (if \<not> Egress_Valid (sv_Egress s) then moved_loop ann w moved ss
      else let (r, w1) = render ann w (en_Raw s) (en_IP s) no_egress []
           in case r of
                None \<Rightarrow> moved_loop ann w1 moved ss
              | Some (_, offline) \<Rightarrow>
                  moved_loop ann w1 (if countryString offline \<noteq> en_Country s then moved + 1 else moved) ss)"

definition movedCount :: "'w annotator option \<Rightarrow> 'w \<Rightarrow> Survivor list \<Rightarrow> nat \<times> 'w" where
  "movedCount ann w survivors = (case ann of None \<Rightarrow> (0, w) | Some a \<Rightarrow> moved_loop a w 0 survivors)"

section \<open>Selection is a stable filter\<close>

lemma survivor_of_fields [simp]:
  "en_Label (survivor_of e m) = en_Label e" "en_Raw (survivor_of e m) = en_Raw e" "en_Addr (survivor_of e m) = en_Addr e"
  "en_IP (survivor_of e m) = en_IP e" "sv_MeanMs (survivor_of e m) = m" "en_Country (survivor_of e m) = en_Country e"
  "sv_Mbps (survivor_of e m) = 0" "sv_Egress (survivor_of e m) = no_egress"
  by (simp_all add: survivor_of_def Merge.Entry.defs)

lemma select_entry_Some:
  "select_entry res rounds maxFail maxAvgMs e = Some s \<longleftrightarrow>
     (\<exists>r. res (en_Label e) = Some r \<and> rounds - pr_Successes r \<le> maxFail \<and> pr_MeanMs r \<le> maxAvgMs \<and>
        s = survivor_of e (pr_MeanMs r))"
  by (auto simp: select_entry_def split: option.splits)

text \<open>
  The survivors are exactly the entries whose probe lost at most \<^verbatim>\<open>maxFail\<close> rounds and whose
  mean is within the bound, by ascending mean; those of one mean are in the order they were merged.
\<close>

theorem survivors_are_stable_filter:
  "sorted (map sv_MeanMs (SelectSurvivors entries res rounds maxFail maxAvgMs)) \<and>
   mset (map en_Label (SelectSurvivors entries res rounds maxFail maxAvgMs)) =
     mset (map en_Label (filter (\<lambda>e. case res (en_Label e) of None \<Rightarrow> False
        | Some r \<Rightarrow> rounds - pr_Successes r \<le> maxFail \<and> pr_MeanMs r \<le> maxAvgMs) entries)) \<and>
   map en_Raw (filter (\<lambda>s. sv_MeanMs s = m) (SelectSurvivors entries res rounds maxFail maxAvgMs)) =
     map en_Raw (filter (\<lambda>e. case res (en_Label e) of None \<Rightarrow> False
        | Some r \<Rightarrow> rounds - pr_Successes r \<le> maxFail \<and> pr_MeanMs r \<le> maxAvgMs \<and> pr_MeanMs r = m) entries)"
proof (intro conjI)
  let ?sel = "List.map_filter (select_entry res rounds maxFail maxAvgMs)"
  show "sorted (map sv_MeanMs (SelectSurvivors entries res rounds maxFail maxAvgMs))"
    by (simp add: SelectSurvivors_def)
  have "map en_Label (?sel es) = map en_Label (filter (\<lambda>e. case res (en_Label e) of None \<Rightarrow> False
        | Some r \<Rightarrow> rounds - pr_Successes r \<le> maxFail \<and> pr_MeanMs r \<le> maxAvgMs) es)" for es
    by (induction es) (auto simp: map_filter_simps select_entry_def split: option.splits)
  then show "mset (map en_Label (SelectSurvivors entries res rounds maxFail maxAvgMs)) =
     mset (map en_Label (filter (\<lambda>e. case res (en_Label e) of None \<Rightarrow> False
        | Some r \<Rightarrow> rounds - pr_Successes r \<le> maxFail \<and> pr_MeanMs r \<le> maxAvgMs) entries))"
    by (metis SelectSurvivors_def mset_map mset_sort)
  have "map en_Raw (filter (\<lambda>s. sv_MeanMs s = m) (?sel es)) = map en_Raw (filter (\<lambda>e. case res (en_Label e) of None \<Rightarrow> False
        | Some r \<Rightarrow> rounds - pr_Successes r \<le> maxFail \<and> pr_MeanMs r \<le> maxAvgMs \<and> pr_MeanMs r = m) es)" for es
    by (induction es) (auto simp: map_filter_simps select_entry_def split: option.splits)
  then show "map en_Raw (filter (\<lambda>s. sv_MeanMs s = m) (SelectSurvivors entries res rounds maxFail maxAvgMs)) =
     map en_Raw (filter (\<lambda>e. case res (en_Label e) of None \<Rightarrow> False
        | Some r \<Rightarrow> rounds - pr_Successes r \<le> maxFail \<and> pr_MeanMs r \<le> maxAvgMs \<and> pr_MeanMs r = m) entries)"
    by (simp add: SelectSurvivors_def sort_key_stable)
qed

section \<open>The table of country codes\<close>

lemma chunk_concat:
  "\<forall>x \<in> set xs. length (f x) = k \<Longrightarrow> i < length xs \<Longrightarrow> take k (drop (k * i) (concat (map f xs))) = f (xs ! i)"
  by (induction xs arbitrary: i) (auto simp: less_Suc_eq_0_disj)

lemma countryString_eq: "countryString c = (if c = no_country then ''??'' else [fst c, snd c])"
proof -
  have tab: "take 2 (drop (2 * (h * alphaLetters + l)) countryCodes) = [char_of (65 + h), char_of (65 + l)]"
    if "h < alphaLetters" "l < alphaLetters" for h l
  proof -
    have lt: "h * alphaLetters + l < alphaLetters * alphaLetters" using that by (auto simp: alphaLetters_def)
    have "(h * alphaLetters + l) div alphaLetters = h" "(h * alphaLetters + l) mod alphaLetters = l"
      using that by (simp_all add: alphaLetters_def)
    then show ?thesis
      unfolding countryCodes_def using lt by (subst chunk_concat) (simp_all add: numeral_2_eq_2)
  qed
  obtain a b where c: "c = (a, b)" by fastforce
  show ?thesis
  proof (cases "65 \<le> byte a \<and> byte a < 91 \<and> 65 \<le> byte b \<and> byte b < 91")
    case True
    then have "nat (int (byte a) - 65) = byte a - 65" "nat (int (byte b) - 65) = byte b - 65" by auto
    moreover have "[char_of (65 + (byte a - 65)), char_of (65 + (byte b - 65))] = [a, b]" using True by simp
    moreover have "byte a - 65 < alphaLetters" "byte b - 65 < alphaLetters" using True by (auto simp: alphaLetters_def)
    ultimately show ?thesis
      using tab [of "byte a - 65" "byte b - 65"] True by (simp add: c countryString_def Let_def)
  next
    case False
    then show ?thesis by (auto simp: c countryString_def Let_def alphaLetters_def)
  qed
qed

section \<open>What is published\<close>

text \<open>The published form of a survivor: its line, and the survivor with its country.\<close>

definition country_tag :: "CountryCode \<Rightarrow> string" where
  "country_tag c = ''[GEO:'' @ countryString c @ '']''"

definition published_as :: "Survivor \<Rightarrow> Survivor \<Rightarrow> string \<Rightarrow> bool" where
  "published_as s s' line \<longleftrightarrow>
     (case parseOne (en_Raw s) of
        None \<Rightarrow> line = en_Raw s \<and> s' = s
      | Some n \<Rightarrow>
          (\<exists>cs. s' = s\<lparr>en_Country := (case cs of [] \<Rightarrow> ''??'' | c # _ \<Rightarrow> countryString c)\<rparr> \<and>
             (let tags = speedPrefix (sv_Mbps s) @ concat (map country_tag cs)
              in line = NodeName n tags \<and>
                 (if Scheme n = ''vmess'' \<or> Scheme n = ''ssr'' then True
                  else \<exists>n'. parseNode line = Some n' \<and> Scheme n' = Scheme n \<and> Server n' = Server n \<and>
                     Port n' = Port n \<and> Name n' = published_name n tags))))"

lemma geo_tag_country: "geo_tag = country_tag"
  by (simp add: fun_eq_iff geo_tag_def country_tag_def countryString_eq)

lemma renamed_endpoint:
  assumes "parseOne raw = Some n" "Scheme n \<noteq> ''vmess''" "Scheme n \<noteq> ''ssr''"
  shows "\<exists>n'. parseNode (NodeName n tags) = Some n' \<and> Scheme n' = Scheme n \<and> Server n' = Server n \<and>
     Port n' = Port n \<and> Name n' = published_name n tags"
proof -
  obtain line where line: "parseNode line = Some n" using assms(1) by (auto elim: parseOne_line)
  have "NodeName n tags = (case FragmentIdx n of Some i \<Rightarrow> take i (Raw n) | None \<Rightarrow> Raw n) @ CHR ''#'' # compose_name tags (cleanName n)"
    using assms(2,3) generic_rename(2) [OF line assms(2,3)]
    by (simp add: NodeName_def supportsFragmentRewrite_def compose_name_def)
  with generic_rename(1) [OF line assms(2,3), of "compose_name tags (cleanName n)"]
  show ?thesis by (auto simp: published_name_def Let_def)
qed

lemma render_published:
  assumes "render ann w (en_Raw s) ip egress (speedPrefix (sv_Mbps s)) = (r, w1)"
  shows "published_as s (case r of None \<Rightarrow> s | Some (line, country) \<Rightarrow> s\<lparr>en_Country := countryString country\<rparr>)
     (case r of None \<Rightarrow> en_Raw s | Some (line, country) \<Rightarrow> line)"
proof (cases "parseOne (en_Raw s)")
  case None
  with assms show ?thesis by (auto simp: published_as_def render_def)
next
  case (Some n)
  let ?req = "\<lparr>ar_Node = n, ar_IP = ip, ar_Egress = egress, ar_Prefix = speedPrefix (sv_Mbps s)\<rparr>"
  obtain cs w' where cs: "geo_answers ?req w ann = (cs, w')" by fastforce
  then have r: "r = Some (NodeName n (speedPrefix (sv_Mbps s) @ concat (map geo_tag cs)), if cs = [] then no_country else hd cs)"
    using assms Some by (auto simp: render_def Annotate_eq)
  note r = r [unfolded geo_tag_country]
  have "countryString (if cs = [] then no_country else hd cs) = (case cs of [] \<Rightarrow> ''??'' | c # _ \<Rightarrow> countryString c)"
    by (simp add: countryString_eq split: list.split)
  then show ?thesis
    unfolding published_as_def Some r option.case prod.case Let_def
    using renamed_endpoint [OF Some] by (intro exI [where x = cs]) simp
qed

lemma payload_loop_published:
  "payload_loop ann w out ss = (payload, svs, w') \<Longrightarrow>
     \<exists>ls. payload = out @ concat (map (\<lambda>l. l @ [CHR 0x0A]) ls) \<and> length ls = length ss \<and> length svs = length ss \<and>
       list_all (\<lambda>(s, s', l). published_as s s' l) (zip ss (zip svs ls))"
proof (induction ss arbitrary: w out payload svs w')
  case (Cons s ss)
  obtain r w1 where r: "render ann w (en_Raw s) (annotatedIP s) (sv_Egress s) (speedPrefix (sv_Mbps s)) = (r, w1)" by fastforce
  define line where "line = (case r of None \<Rightarrow> en_Raw s | Some (line, country) \<Rightarrow> line)"
  define s' where "s' = (case r of None \<Rightarrow> s | Some (line, country) \<Rightarrow> s\<lparr>en_Country := countryString country\<rparr>)"
  obtain out' ss' w2 where rest: "payload_loop ann w1 (out @ line @ [CHR 0x0A]) ss = (out', ss', w2)" by (metis prod_cases3)
  have "payload = out'" "svs = s' # ss'"
    using Cons.prems r rest by (auto simp: Let_def line_def s'_def split: option.splits prod.splits)
  moreover obtain ls where "out' = (out @ line @ [CHR 0x0A]) @ concat (map (\<lambda>l. l @ [CHR 0x0A]) ls)" "length ls = length ss"
      "length ss' = length ss" "list_all (\<lambda>(s, s', l). published_as s s' l) (zip ss (zip ss' ls))"
    using Cons.IH [OF rest] by blast
  moreover have "published_as s s' line" using render_published [OF r] by (simp add: line_def s'_def)
  ultimately show ?case by (intro exI [where x = "line # ls"]) simp
qed simp

text \<open>
  The published list has one line per survivor, in their order. A line that does not parse is
  published as it stands; any other is the node renamed with its speed tag and the GEO tags, the
  country the gauges read is the one in the lead tag, and a line of a fragment scheme still dials the
  survivor's server and port.
\<close>

theorem published_lines:
  "case BuildPayload (Some ann) w survivors of (payload, svs, w') \<Rightarrow>
     \<exists>ls. payload = concat (map (\<lambda>l. l @ [CHR 0x0A]) ls) \<and> length ls = length survivors \<and> length svs = length survivors \<and>
       list_all (\<lambda>(s, s', l). published_as s s' l) (zip survivors (zip svs ls))"
  using payload_loop_published [of ann w "[]" survivors] by (auto simp: BuildPayload_def)

end
