(* ===== verification/NodeFilters.thy ===== *)
theory NodeFilters
  imports Select "HOL-Library.Sublist"
begin

text \<open>
  \<^verbatim>\<open>internal/stable/nodefilter.go\<close>: the through-node filters a cycle runs on its survivors, the
  breaker that disbelieves a verdict on the whole batch, and the hosts a filter writes to the
  geoblock store. The store is any state \<open>'s\<close> with a \<^verbatim>\<open>Block\<close>; \<open>done k\<close> is the k-th reading of the
  context's error by one filter: after its check (\<open>0\<close>), then at the turn of the k-th survivor.
\<close>

section \<open>Reports\<close>

datatype FilterState = FilterAbsent | FilterTripped | FilterRan

record FilterCoverage =
  fc_Verified :: nat
  fc_Unverified :: nat
  fc_Measured :: bool

record FilterReport =
  fr_Name :: string
  fr_In :: nat
  fr_Kept :: nat
  fr_Dropped :: "(string \<times> nat) list"
  fr_State :: FilterState
  fr_Coverage :: FilterCoverage

definition start_report :: "string \<Rightarrow> nat \<Rightarrow> FilterReport" where
  "start_report name n =
     \<lparr>fr_Name = name, fr_In = n, fr_Kept = n, fr_Dropped = [], fr_State = FilterAbsent,
      fr_Coverage = \<lparr>fc_Verified = 0, fc_Unverified = 0, fc_Measured = False\<rparr>\<rparr>"

section \<open>The API filter\<close>

text \<open>\<open>af_enabled\<close> is the answer of the enabled hook, if there is one.\<close>

record 'p apiFilter =
  af_filterName :: string
  af_requireVerified :: bool
  af_enabled :: "bool option"
  af_check :: "'p list \<Rightarrow> (string \<rightharpoonup> APIOutcome)"
  af_store :: bool

text \<open>A label without an outcome reads as the zero outcome.\<close>

definition outcome_at :: "(string \<rightharpoonup> APIOutcome) \<Rightarrow> string \<Rightarrow> APIOutcome" where
  "outcome_at outcomes label =
     (case outcomes label of
        None \<Rightarrow> \<lparr>ao_Server = [], ao_Reachable = False, ao_Blocked = False, ao_Verified = False\<rparr>
      | Some ob \<Rightarrow> ob)"

definition filterSubset :: "Survivor list \<Rightarrow> (string \<Rightarrow> 'p list) \<Rightarrow> 'p list" where
  "filterSubset survivors proxies = concat (map (\<lambda>s. proxies (en_Label s)) survivors)"

text \<open>The counts: blocked, unreachable, unverified, verified.\<close>

definition count_outcome :: "(string \<rightharpoonup> APIOutcome) \<Rightarrow> nat \<times> nat \<times> nat \<times> nat \<Rightarrow> Survivor \<Rightarrow> nat \<times> nat \<times> nat \<times> nat" where
  "count_outcome outcomes = (\<lambda>(blk, unreach, unver, ver) s.
     let ob = outcome_at outcomes (en_Label s)
     in if ao_Blocked ob then (blk + 1, unreach, unver, ver + 1)
        else if \<not> ao_Reachable ob then (blk, unreach + 1, unver, ver)
        else if ao_Verified ob then (blk, unreach, unver, ver + 1)
        else (blk, unreach, unver + 1, ver))"

fun keep_loop ::
  "'p apiFilter \<Rightarrow> (string \<Rightarrow> 's \<Rightarrow> 's) \<Rightarrow> (nat \<Rightarrow> bool) \<Rightarrow> (string \<rightharpoonup> APIOutcome) \<Rightarrow> bool \<Rightarrow> nat \<Rightarrow> 's
   \<Rightarrow> Survivor list \<Rightarrow> Survivor list \<times> 's" where
  "keep_loop f block done outcomes trusted k st [] = ([], st)"
| "keep_loop f block done outcomes trusted k st (s # ss) =
     (let ob = outcome_at outcomes (en_Label s)
      in if ao_Blocked ob then
           keep_loop f block done outcomes trusted (k + 1)
             (if af_store f \<and> trusted \<and> \<not> done k then block (ao_Server ob) st else st) ss
         else let (kept, st') = keep_loop f block done outcomes trusted (k + 1) st ss
              in (if ao_Reachable ob \<and> (ao_Verified ob \<or> \<not> af_requireVerified f) then s # kept else kept, st'))"

definition keepOutcomes ::
  "'p apiFilter \<Rightarrow> (string \<Rightarrow> 's \<Rightarrow> 's) \<Rightarrow> (nat \<Rightarrow> bool) \<Rightarrow> Survivor list \<Rightarrow> (string \<rightharpoonup> APIOutcome) \<Rightarrow> bool \<Rightarrow> 's
   \<Rightarrow> Survivor list \<times> 's" where
  "keepOutcomes f block done survivors outcomes trusted st = keep_loop f block done outcomes trusted 1 st survivors"

definition api_apply ::
  "'p apiFilter \<Rightarrow> (string \<Rightarrow> 's \<Rightarrow> 's) \<Rightarrow> (nat \<Rightarrow> bool) \<Rightarrow> Survivor list \<Rightarrow> (string \<Rightarrow> 'p list) \<Rightarrow> 's
   \<Rightarrow> Survivor list \<times> FilterReport \<times> 's" where
  "api_apply f block done survivors proxies st =
     (let rep = start_report (af_filterName f) (length survivors)
      in if af_enabled f = Some False then (survivors, rep, st)
         else let outcomes = af_check f (filterSubset survivors proxies)
              in if done 0 \<and> \<not> af_requireVerified f then (survivors, rep, st)
                 else let (blk, unreach, unver, ver) = foldl (count_outcome outcomes) (0, 0, 0, 0) survivors;
                          rep1 = rep\<lparr>fr_Coverage := \<lparr>fc_Verified = ver, fc_Unverified = unver, fc_Measured = True\<rparr>\<rparr>;
                          failed = blk + unreach + (if af_requireVerified f then unver else 0);
                          tripped = breakerTrips failed (length survivors)
                      in if tripped \<and> \<not> af_requireVerified f then
                           (survivors, rep1\<lparr>fr_Dropped := [(''blocked'', 0), (''unreachable'', 0)], fr_State := FilterTripped\<rparr>, st)
                         else let (kept, st') = keepOutcomes f block done survivors outcomes (\<not> tripped) st;
                                  rep2 = rep1\<lparr>fr_Kept := length kept,
                                    fr_Dropped := [(''blocked'', blk), (''unreachable'', unreach)], fr_State := FilterRan\<rparr>;
                                  rep3 = (if af_requireVerified f
                                    then rep2\<lparr>fr_Dropped := fr_Dropped rep2 @ [(''unverified'', unver)],
                                              fr_State := (if tripped then FilterTripped else FilterRan)\<rparr>
                                    else rep2)
                              in (kept, rep3, st'))"

section \<open>The bandwidth filter\<close>

record 'p bandwidthFilter =
  bf_minMbps :: int
  bf_check :: "'p list \<Rightarrow> (string \<rightharpoonup> BandwidthOutcome)"

definition speed_at :: "(string \<rightharpoonup> BandwidthOutcome) \<Rightarrow> string \<Rightarrow> BandwidthOutcome" where
  "speed_at outcomes label =
     (case outcomes label of None \<Rightarrow> \<lparr>bo_Server = [], bo_Reachable = False, bo_Mbps = 0\<rparr> | Some ob \<Rightarrow> ob)"

definition too_slow :: "int \<Rightarrow> BandwidthOutcome \<Rightarrow> bool" where
  "too_slow minMbps ob \<longleftrightarrow> minMbps > 0 \<and> bo_Mbps ob < minMbps"

definition count_speed :: "int \<Rightarrow> (string \<rightharpoonup> BandwidthOutcome) \<Rightarrow> nat \<times> nat \<Rightarrow> Survivor \<Rightarrow> nat \<times> nat" where
  "count_speed minMbps outcomes = (\<lambda>(slow, unreach) s.
     let ob = speed_at outcomes (en_Label s)
     in if \<not> bo_Reachable ob then (slow, unreach + 1)
        else if too_slow minMbps ob then (slow + 1, unreach) else (slow, unreach))"

definition keep_speed :: "int \<Rightarrow> (string \<rightharpoonup> BandwidthOutcome) \<Rightarrow> Survivor \<Rightarrow> Survivor option" where
  "keep_speed minMbps outcomes s =
     (let ob = speed_at outcomes (en_Label s)
      in if \<not> bo_Reachable ob then None
         else if too_slow minMbps ob then None
         else Some (s\<lparr>sv_Mbps := bo_Mbps ob\<rparr>))"

definition bandwidth_apply ::
  "'p bandwidthFilter \<Rightarrow> (nat \<Rightarrow> bool) \<Rightarrow> Survivor list \<Rightarrow> (string \<Rightarrow> 'p list) \<Rightarrow> Survivor list \<times> FilterReport" where
  "bandwidth_apply f done survivors proxies =
     (let rep = start_report ''bandwidth'' (length survivors);
          outcomes = bf_check f (filterSubset survivors proxies)
      in if done 0 then (survivors, rep)
         else let (slow, unreach) = foldl (count_speed (bf_minMbps f) outcomes) (0, 0) survivors
              in if breakerTrips (slow + unreach) (length survivors) then
                   (survivors, rep\<lparr>fr_Dropped := [(''slow'', 0), (''unreachable'', 0)], fr_State := FilterTripped\<rparr>)
                 else let kept = List.map_filter (keep_speed (bf_minMbps f) outcomes) survivors
                      in (kept, rep\<lparr>fr_Kept := length kept,
                            fr_Dropped := [(''slow'', slow), (''unreachable'', unreach)], fr_State := FilterRan\<rparr>))"

section \<open>The chain\<close>

datatype 'p node_filter = APIFilter "'p apiFilter" | SpeedFilter "'p bandwidthFilter"

fun apply_filter ::
  "'p node_filter \<Rightarrow> (string \<Rightarrow> 's \<Rightarrow> 's) \<Rightarrow> (nat \<Rightarrow> bool) \<Rightarrow> Survivor list \<Rightarrow> (string \<Rightarrow> 'p list) \<Rightarrow> 's
   \<Rightarrow> Survivor list \<times> FilterReport \<times> 's" where
  "apply_filter (APIFilter f) block done survivors proxies st = api_apply f block done survivors proxies st"
| "apply_filter (SpeedFilter f) block done survivors proxies st =
     (let (kept, rep) = bandwidth_apply f done survivors proxies in (kept, rep, st))"

text \<open>What a prober can check; a check it cannot run is \<open>None\<close>, and Gemini's comes with its hook's answer.\<close>

record 'p checkers =
  ck_gemini :: "(bool \<times> ('p list \<Rightarrow> (string \<rightharpoonup> APIOutcome))) option"
  ck_claude :: "('p list \<Rightarrow> (string \<rightharpoonup> APIOutcome)) option"
  ck_chatgpt :: "('p list \<Rightarrow> (string \<rightharpoonup> APIOutcome)) option"
  ck_tidal :: "('p list \<Rightarrow> (string \<rightharpoonup> APIOutcome)) option"
  ck_deepl :: "('p list \<Rightarrow> (string \<rightharpoonup> APIOutcome)) option"
  ck_bandwidth :: "(int \<times> ('p list \<Rightarrow> (string \<rightharpoonup> BandwidthOutcome))) option"

definition appendBandwidthFilter :: "'p node_filter list \<Rightarrow> 'p checkers \<Rightarrow> 'p node_filter list" where
  "appendBandwidthFilter dst prober =
     (case ck_bandwidth prober of
        None \<Rightarrow> dst
      | Some (minMbps, check) \<Rightarrow> dst @ [SpeedFilter \<lparr>bf_minMbps = minMbps, bf_check = check\<rparr>])"

definition plain_api :: "string \<Rightarrow> bool \<Rightarrow> ('p list \<Rightarrow> (string \<rightharpoonup> APIOutcome)) \<Rightarrow> 'p node_filter" where
  "plain_api name store check =
     APIFilter \<lparr>af_filterName = name, af_requireVerified = False, af_enabled = None, af_check = check, af_store = store\<rparr>"

definition add_node_filter :: "'p checkers \<Rightarrow> bool \<Rightarrow> 'p node_filter list \<Rightarrow> string \<Rightarrow> 'p node_filter list" where
  "add_node_filter prober store fs n =
     (if n = ''gemini'' then
        (case ck_gemini prober of
           None \<Rightarrow> fs
         | Some (enabled, check) \<Rightarrow>
             fs @ [APIFilter \<lparr>af_filterName = n, af_requireVerified = False, af_enabled = Some enabled,
                     af_check = check, af_store = store\<rparr>])
      else if n = ''claude'' then (case ck_claude prober of None \<Rightarrow> fs | Some c \<Rightarrow> fs @ [plain_api n store c])
      else if n = ''chatgpt'' then (case ck_chatgpt prober of None \<Rightarrow> fs | Some c \<Rightarrow> fs @ [plain_api n store c])
      else if n = ''tidal'' then (case ck_tidal prober of None \<Rightarrow> fs | Some c \<Rightarrow> fs @ [plain_api n False c])
      else if n = ''bandwidth'' then appendBandwidthFilter fs prober
      else if n = ''deepl'' then
        (case ck_deepl prober of
           None \<Rightarrow> fs
         | Some c \<Rightarrow> fs @ [APIFilter \<lparr>af_filterName = n, af_requireVerified = True, af_enabled = None,
                     af_check = c, af_store = store\<rparr>])
      else fs)"

definition buildNodeFilters :: "string list \<Rightarrow> 'p checkers \<Rightarrow> bool \<Rightarrow> 'p node_filter list" where
  "buildNodeFilters names prober store = foldl (add_node_filter prober store) [] names"

fun run_node_filters ::
  "(string \<Rightarrow> 's \<Rightarrow> 's) \<Rightarrow> (nat \<Rightarrow> nat \<Rightarrow> bool) \<Rightarrow> nat \<Rightarrow> 'p node_filter list \<Rightarrow> Survivor list \<Rightarrow> (string \<Rightarrow> 'p list) \<Rightarrow> 's
   \<Rightarrow> Survivor list \<times> FilterReport list \<times> 's" where
  "run_node_filters block done k [] survivors proxies st = (survivors, [], st)"
| "run_node_filters block done k (f # fs) survivors proxies st =
     (let (kept, rep, st1) = apply_filter f block (done k) survivors proxies st;
          (kept', reps, st2) = run_node_filters block done (k + 1) fs kept proxies st1
      in (kept', rep # reps, st2))"

section \<open>Counting\<close>

abbreviation blocked_at :: "(string \<rightharpoonup> APIOutcome) \<Rightarrow> Survivor \<Rightarrow> bool" where
  "blocked_at outcomes s \<equiv> ao_Blocked (outcome_at outcomes (en_Label s))"

abbreviation reached_at :: "(string \<rightharpoonup> APIOutcome) \<Rightarrow> Survivor \<Rightarrow> bool" where
  "reached_at outcomes s \<equiv> ao_Reachable (outcome_at outcomes (en_Label s))"

abbreviation verified_at :: "(string \<rightharpoonup> APIOutcome) \<Rightarrow> Survivor \<Rightarrow> bool" where
  "verified_at outcomes s \<equiv> ao_Verified (outcome_at outcomes (en_Label s))"

lemma count_outcomes:
  "foldl (count_outcome outcomes) (a, b, c, d) ss =
     (a + length (filter (blocked_at outcomes) ss),
      b + length (filter (\<lambda>s. \<not> blocked_at outcomes s \<and> \<not> reached_at outcomes s) ss),
      c + length (filter (\<lambda>s. \<not> blocked_at outcomes s \<and> reached_at outcomes s \<and> \<not> verified_at outcomes s) ss),
      d + length (filter (\<lambda>s. blocked_at outcomes s \<or> reached_at outcomes s \<and> verified_at outcomes s) ss))"
  by (induction ss arbitrary: a b c d) (simp_all add: count_outcome_def Let_def)

lemma count_speeds:
  "foldl (count_speed m outcomes) (a, b) ss =
     (a + length (filter (\<lambda>s. bo_Reachable (speed_at outcomes (en_Label s)) \<and> too_slow m (speed_at outcomes (en_Label s))) ss),
      b + length (filter (\<lambda>s. \<not> bo_Reachable (speed_at outcomes (en_Label s))) ss))"
  by (induction ss arbitrary: a b) (simp_all add: count_speed_def Let_def)

definition api_keeps :: "'p apiFilter \<Rightarrow> (string \<rightharpoonup> APIOutcome) \<Rightarrow> Survivor \<Rightarrow> bool" where
  "api_keeps f outcomes s \<longleftrightarrow>
     \<not> blocked_at outcomes s \<and> reached_at outcomes s \<and> (verified_at outcomes s \<or> \<not> af_requireVerified f)"

lemma keep_loop_kept: "fst (keep_loop f block done outcomes trusted k st ss) = filter (api_keeps f outcomes) ss"
proof (induction ss arbitrary: k st)
  case (Cons s ss)
  obtain kept st1 where r: "keep_loop f block done outcomes trusted (k + 1) st ss = (kept, st1)" by fastforce
  then have "kept = filter (api_keeps f outcomes) ss" using Cons.IH [of "k + 1" st] by simp
  moreover have "fst (keep_loop f block done outcomes trusted k st (s # ss)) =
      (if api_keeps f outcomes s then s # kept else if blocked_at outcomes s
       then fst (keep_loop f block done outcomes trusted (k + 1)
         (if af_store f \<and> trusted \<and> \<not> done k then block (ao_Server (outcome_at outcomes (en_Label s))) st else st) ss)
       else kept)"
    using r by (simp add: Let_def api_keeps_def)
  ultimately show ?case unfolding Cons.IH by simp
qed simp

text \<open>The host a survivor's refusal gives up to the store, at the turn the context is still live.\<close>

definition refused_host :: "(string \<rightharpoonup> APIOutcome) \<Rightarrow> (nat \<Rightarrow> bool) \<Rightarrow> nat \<times> Survivor \<Rightarrow> string option" where
  "refused_host outcomes done = (\<lambda>(k, s).
     case outcomes (en_Label s) of
       None \<Rightarrow> None
     | Some ob \<Rightarrow> if ao_Blocked ob \<and> \<not> done k then Some (ao_Server ob) else None)"

lemma refused_host_outcome:
  "refused_host outcomes done (k, s) =
     (if blocked_at outcomes s \<and> \<not> done k then Some (ao_Server (outcome_at outcomes (en_Label s))) else None)"
  by (simp add: refused_host_def outcome_at_def split: option.split)

lemma keep_loop_writes:
  "snd (keep_loop f block done outcomes trusted k st ss) =
     foldl (\<lambda>st h. block h st) st
       (if af_store f \<and> trusted then List.map_filter (refused_host outcomes done) (enumerate k ss) else [])"
proof (induction ss arbitrary: k st)
  case (Cons s ss)
  let ?h = "ao_Server (outcome_at outcomes (en_Label s))"
  let ?w = "blocked_at outcomes s \<and> af_store f \<and> trusted \<and> \<not> done k"
  have "snd (keep_loop f block done outcomes trusted k st (s # ss)) =
      snd (keep_loop f block done outcomes trusted (Suc k) (if ?w then block ?h st else st) ss)"
    by (auto simp: Let_def split: prod.splits)
  also have "\<dots> = foldl (\<lambda>st h. block h st) (if ?w then block ?h st else st)
       (if af_store f \<and> trusted then List.map_filter (refused_host outcomes done) (enumerate (Suc k) ss) else [])"
    by (rule Cons.IH)
  finally show ?case
    by (cases ?w) (auto simp: map_filter_simps refused_host_outcome)
qed (simp add: map_filter_simps)

lemma keep_speed_labels: "keep_speed m outcomes s = Some s' \<Longrightarrow> en_Label s' = en_Label s \<and> en_Raw s' = en_Raw s"
  by (auto simp: keep_speed_def Let_def split: if_splits)

lemma length_keep_speed:
  "length (List.map_filter (keep_speed m outcomes) ss) =
     length (filter (\<lambda>s. bo_Reachable (speed_at outcomes (en_Label s)) \<and> \<not> too_slow m (speed_at outcomes (en_Label s))) ss)"
  by (induction ss) (simp_all add: map_filter_simps keep_speed_def Let_def)

lemma map_filter_subseq:
  "(\<And>x y. f x = Some y \<Longrightarrow> g y = g x) \<Longrightarrow> subseq (map g (List.map_filter f xs)) (map g xs)"
  by (induction xs) (auto simp: map_filter_simps split: option.splits)

section \<open>The books of a filter\<close>

definition booked :: "FilterReport \<Rightarrow> nat" where
  "booked rep = sum_list (map snd (fr_Dropped rep))"

definition filter_books :: "Survivor list \<Rightarrow> Survivor list \<Rightarrow> FilterReport \<Rightarrow> bool" where
  "filter_books survivors kept rep \<longleftrightarrow>
     fr_In rep = length survivors \<and> fr_Kept rep = length kept \<and> fr_In rep = fr_Kept rep + booked rep \<and>
     subseq (map en_Label kept) (map en_Label survivors) \<and>
     (if fr_State rep = FilterAbsent then kept = survivors else True) \<and>
     (if fc_Measured (fr_Coverage rep) then fc_Verified (fr_Coverage rep) + fc_Unverified (fr_Coverage rep) \<le> fr_In rep else True)"

lemma length_partition3:
  "length (filter P ss) + length (filter (\<lambda>s. \<not> P s \<and> \<not> Q s) ss) + length (filter (\<lambda>s. \<not> P s \<and> Q s \<and> \<not> R s) ss)
     + length (filter (\<lambda>s. \<not> P s \<and> Q s \<and> R s) ss) = length ss"
  by (induction ss) auto

lemma length_partition2:
  "length (filter (\<lambda>s. Q s \<and> S s) ss) + length (filter (\<lambda>s. \<not> Q s) ss) + length (filter (\<lambda>s. Q s \<and> \<not> S s) ss) = length ss"
  by (induction ss) auto

lemma filter_split: "length (filter (\<lambda>s. \<not> P s \<and> Q s) ss) =
    length (filter (\<lambda>s. \<not> P s \<and> Q s \<and> \<not> R s) ss) + length (filter (\<lambda>s. \<not> P s \<and> Q s \<and> R s) ss)"
  by (induction ss) auto

lemma verified_split: "length (filter (\<lambda>s. P s \<or> Q s \<and> R s) ss) =
    length (filter P ss) + length (filter (\<lambda>s. \<not> P s \<and> Q s \<and> R s) ss)"
  by (induction ss) auto

lemma api_books:
  assumes "api_apply f block done survivors proxies st = (kept, rep, st')"
  shows "filter_books survivors kept rep"
    and "\<not> af_requireVerified f \<Longrightarrow> survivors \<noteq> [] \<Longrightarrow> kept \<noteq> []"
proof -
  define outcomes where "outcomes = af_check f (filterSubset survivors proxies)"
  define blk where "blk = length (filter (blocked_at outcomes) survivors)"
  define unreach where "unreach = length (filter (\<lambda>s. \<not> blocked_at outcomes s \<and> \<not> reached_at outcomes s) survivors)"
  define unver where "unver = length (filter (\<lambda>s. \<not> blocked_at outcomes s \<and> reached_at outcomes s \<and> \<not> verified_at outcomes s) survivors)"
  define pass where "pass = length (filter (\<lambda>s. \<not> blocked_at outcomes s \<and> reached_at outcomes s \<and> verified_at outcomes s) survivors)"
  have tot: "blk + unreach + unver + pass = length survivors"
    unfolding blk_def unreach_def unver_def pass_def by (rule length_partition3)
  have ver: "length (filter (\<lambda>s. blocked_at outcomes s \<or> reached_at outcomes s \<and> verified_at outcomes s) survivors) = blk + pass"
    unfolding blk_def pass_def by (rule verified_split)
  have counts: "foldl (count_outcome outcomes) (0, 0, 0, 0) survivors = (blk, unreach, unver, blk + pass)"
    by (simp add: count_outcomes ver blk_def unreach_def unver_def)
  have keeps: "length (filter (api_keeps f outcomes) survivors) = (if af_requireVerified f then pass else unver + pass)"
    using filter_split [of "blocked_at outcomes" "reached_at outcomes" survivors "verified_at outcomes"]
    by (simp add: api_keeps_def [abs_def] pass_def unver_def)
  let ?failed = "blk + unreach + (if af_requireVerified f then unver else 0)"
  let ?tripped = "breakerTrips ?failed (length survivors)"
  note def = api_apply_def Let_def outcomes_def [symmetric] counts prod.case
  have kept_eq: "fst (keepOutcomes f block done survivors outcomes tr st) = filter (api_keeps f outcomes) survivors" for tr
    by (simp add: keepOutcomes_def keep_loop_kept)
  consider (off) "af_enabled f = Some False"
    | (cancelled) "af_enabled f \<noteq> Some False" "done 0 \<and> \<not> af_requireVerified f"
    | (spared) "af_enabled f \<noteq> Some False" "\<not> (done 0 \<and> \<not> af_requireVerified f)" "?tripped \<and> \<not> af_requireVerified f"
    | (ran) "af_enabled f \<noteq> Some False" "\<not> (done 0 \<and> \<not> af_requireVerified f)" "\<not> (?tripped \<and> \<not> af_requireVerified f)"
    by blast
  then have "filter_books survivors kept rep \<and> (\<not> af_requireVerified f \<and> survivors \<noteq> [] \<longrightarrow> kept \<noteq> [])"
  proof cases
    case off
    with assms have "kept = survivors" "rep = start_report (af_filterName f) (length survivors)"
      by (auto simp: api_apply_def)
    then show ?thesis by (simp add: filter_books_def start_report_def booked_def)
  next
    case cancelled
    then have "kept = survivors" "rep = start_report (af_filterName f) (length survivors)"
      using assms unfolding def by auto
    then show ?thesis by (simp add: filter_books_def start_report_def booked_def)
  next
    case spared
    then have "kept = survivors" "fr_In rep = length survivors" "fr_Kept rep = length survivors" "booked rep = 0"
        "fr_State rep = FilterTripped" "fr_Coverage rep = \<lparr>fc_Verified = blk + pass, fc_Unverified = unver, fc_Measured = True\<rparr>"
      using assms unfolding def by (auto simp: start_report_def booked_def)
    then show ?thesis using tot by (simp add: filter_books_def)
  next
    case ran
    obtain k st1 where ks: "keepOutcomes f block done survivors outcomes (\<not> ?tripped) st = (k, st1)" by fastforce
    then have k: "k = filter (api_keeps f outcomes) survivors" using kept_eq [of "\<not> ?tripped"] by simp
    have r: "kept = k" "fr_In rep = length survivors" "fr_Kept rep = length k" "fr_State rep \<noteq> FilterAbsent"
        "booked rep = ?failed" "fr_Coverage rep = \<lparr>fc_Verified = blk + pass, fc_Unverified = unver, fc_Measured = True\<rparr>"
      using assms ran ks unfolding def by (auto simp: start_report_def booked_def split: if_splits)
    have len: "length k = (if af_requireVerified f then pass else unver + pass)" using k keeps by simp
    have "k \<noteq> []" if "\<not> af_requireVerified f" "survivors \<noteq> []"
    proof
      assume "k = []"
      with len that have "blk + unreach = length survivors" using tot by simp
      with that ran(3) show False by (simp add: breakerTrips_def)
    qed
    moreover have "subseq (map en_Label k) (map en_Label survivors)" unfolding k by (rule subseq_map) simp
    ultimately show ?thesis using r len tot by (simp add: filter_books_def)
  qed
  then show "filter_books survivors kept rep"
    and "\<not> af_requireVerified f \<Longrightarrow> survivors \<noteq> [] \<Longrightarrow> kept \<noteq> []" by blast+
qed

lemma bandwidth_books:
  assumes "bandwidth_apply f done survivors proxies = (kept, rep)"
  shows "filter_books survivors kept rep" and "survivors \<noteq> [] \<Longrightarrow> kept \<noteq> []"
proof -
  define outcomes where "outcomes = bf_check f (filterSubset survivors proxies)"
  define slow where "slow = length (filter (\<lambda>s. bo_Reachable (speed_at outcomes (en_Label s)) \<and> too_slow (bf_minMbps f) (speed_at outcomes (en_Label s))) survivors)"
  define unreach where "unreach = length (filter (\<lambda>s. \<not> bo_Reachable (speed_at outcomes (en_Label s))) survivors)"
  have counts: "foldl (count_speed (bf_minMbps f) outcomes) (0, 0) survivors = (slow, unreach)"
    by (simp add: count_speeds slow_def unreach_def)
  let ?kept = "List.map_filter (keep_speed (bf_minMbps f) outcomes) survivors"
  have tot: "slow + unreach + length ?kept = length survivors"
    using length_partition2 [of "\<lambda>s. bo_Reachable (speed_at outcomes (en_Label s))" "\<lambda>s. too_slow (bf_minMbps f) (speed_at outcomes (en_Label s))" survivors]
    by (simp add: slow_def unreach_def length_keep_speed)
  note def = bandwidth_apply_def Let_def outcomes_def [symmetric] counts prod.case
  have "filter_books survivors kept rep \<and> (survivors \<noteq> [] \<longrightarrow> kept \<noteq> [])"
  proof (cases "done 0")
    case True
    then have "kept = survivors" "rep = start_report ''bandwidth'' (length survivors)" using assms unfolding def by auto
    then show ?thesis by (simp add: filter_books_def start_report_def booked_def)
  next
    case go: False
    show ?thesis
    proof (cases "breakerTrips (slow + unreach) (length survivors)")
      case True
      then have "kept = survivors" "fr_In rep = length survivors" "fr_Kept rep = length survivors" "booked rep = 0"
          "fr_State rep = FilterTripped" "\<not> fc_Measured (fr_Coverage rep)"
        using assms go unfolding def by (auto simp: start_report_def booked_def)
      then show ?thesis by (simp add: filter_books_def)
    next
      case False
      then have r: "kept = ?kept" "fr_In rep = length survivors" "fr_Kept rep = length ?kept" "booked rep = slow + unreach"
          "fr_State rep = FilterRan" "\<not> fc_Measured (fr_Coverage rep)"
        using assms go unfolding def by (auto simp: start_report_def booked_def)
      have "?kept \<noteq> []" if "survivors \<noteq> []"
      proof
        assume "?kept = []"
        then have "slow + unreach = length survivors" using tot by simp
        with that False show "False" by (simp add: breakerTrips_def)
      qed
      moreover have "subseq (map en_Label ?kept) (map en_Label survivors)"
        by (rule map_filter_subseq) (use keep_speed_labels in blast)
      ultimately show ?thesis using r tot by (simp add: filter_books_def)
    qed
  qed
  then show "filter_books survivors kept rep" and "survivors \<noteq> [] \<Longrightarrow> kept \<noteq> []" by blast+
qed

definition strict :: "'p node_filter \<Rightarrow> bool" where
  "strict f = (case f of APIFilter a \<Rightarrow> af_requireVerified a | SpeedFilter _ \<Rightarrow> False)"

lemma filter_step:
  assumes "apply_filter f block done survivors proxies st = (kept, rep, st')"
  shows "filter_books survivors kept rep" and "\<not> strict f \<Longrightarrow> survivors \<noteq> [] \<Longrightarrow> kept \<noteq> []"
  using assms api_books bandwidth_books
  by (cases f; fastforce simp: strict_def split: prod.splits)+

section \<open>Properties\<close>

text \<open>The reports of a chain follow on each other, from the count that enters to the one that leaves.\<close>

fun chained :: "nat \<Rightarrow> FilterReport list \<Rightarrow> nat \<Rightarrow> bool" where
  "chained n [] m \<longleftrightarrow> n = m"
| "chained n (r # rs) m \<longleftrightarrow> fr_In r = n \<and> n = fr_Kept r + booked r \<and> chained (fr_Kept r) rs m"

lemma chain_books:
  "run_node_filters block done k fs survivors proxies st = (kept, reps, st') \<Longrightarrow>
     chained (length survivors) reps (length kept) \<and> length reps = length fs \<and>
     length survivors = length kept + sum_list (map booked reps) \<and>
     subseq (map en_Label kept) (map en_Label survivors) \<and>
     (list_all (\<lambda>f. \<not> strict f) fs \<and> survivors \<noteq> [] \<longrightarrow> kept \<noteq> [])"
proof (induction fs arbitrary: k survivors st kept reps st')
  case (Cons f fs)
  obtain k1 rep st1 where f: "apply_filter f block (done k) survivors proxies st = (k1, rep, st1)" by (metis prod_cases3)
  obtain k2 reps2 st2 where r: "run_node_filters block done (k + 1) fs k1 proxies st1 = (k2, reps2, st2)" by (metis prod_cases3)
  have e: "kept = k2" "reps = rep # reps2" using Cons.prems f r by auto
  note b = filter_step(1) [OF f, unfolded filter_books_def]
  note ih = Cons.IH [OF r]
  have "subseq (map en_Label kept) (map en_Label survivors)"
    using b ih unfolding e by (blast intro: subseq_order.trans)
  moreover have "list_all (\<lambda>f. \<not> strict f) (f # fs) \<and> survivors \<noteq> [] \<longrightarrow> kept \<noteq> []"
    using ih filter_step(2) [OF f] unfolding e by simp
  moreover have "chained (length survivors) reps (length kept)"
    unfolding e chained.simps using b ih by metis
  moreover have "length survivors = length kept + sum_list (map booked reps)" "length reps = length (f # fs)"
    using b ih unfolding e by simp_all
  ultimately show ?case by blast
qed simp

text \<open>
  C37: The filter chain's books add up. Each report enters with what the last one kept and accounts
  for every survivor it dropped, the drops of all reports are what the chain lost, and what is left
  is in the probe's order. A chain without a strict filter never empties a batch: a verdict against
  every survivor is taken for the endpoint's or our uplink's fault.
\<close>

theorem filter_chain_accounts:
  "case run_node_filters block done k fs survivors proxies st of (kept, reps, st') \<Rightarrow>
     chained (length survivors) reps (length kept) \<and> length reps = length fs \<and>
     length survivors = length kept + sum_list (map booked reps) \<and>
     subseq (map en_Label kept) (map en_Label survivors) \<and>
     (if list_all (\<lambda>f. \<not> strict f) fs \<and> survivors \<noteq> [] then kept \<noteq> [] else True)"
proof -
  obtain kept reps st' where r: "run_node_filters block done k fs survivors proxies st = (kept, reps, st')" by (metis prod_cases3)
  show ?thesis unfolding r prod.case using chain_books [OF r] by (metis (full_types))
qed

text \<open>
  C32: What a filter writes to the month-long store is, in the order of the batch, the hosts its own
  check saw refused, each only if the context is still live when its turn comes: none once the cycle
  is cancelled. It writes none where it keeps no store, was skipped, or disbelieved the batch's verdict.
\<close>

theorem only_refused_hosts_banned:
  "case api_apply f block done survivors proxies st of (kept, rep, st') \<Rightarrow>
     st' = foldl (\<lambda>st h. block h st) st
       (if af_store f \<and> fr_State rep = FilterRan then
          List.map_filter
            (\<lambda>(k, s). case af_check f (filterSubset survivors proxies) (en_Label s) of
                None \<Rightarrow> None
              | Some ob \<Rightarrow> if ao_Blocked ob \<and> \<not> done k then Some (ao_Server ob) else None)
            (enumerate 1 survivors)
        else [])"
proof -
  define outcomes where "outcomes = af_check f (filterSubset survivors proxies)"
  obtain blk unreach unver ver where counts: "foldl (count_outcome outcomes) (0, 0, 0, 0) survivors = (blk, unreach, unver, ver)"
    by (metis prod_cases4)
  let ?failed = "blk + unreach + (if af_requireVerified f then unver else 0)"
  let ?tripped = "breakerTrips ?failed (length survivors)"
  obtain kept st1 where k: "keepOutcomes f block done survivors outcomes (\<not> ?tripped) st = (kept, st1)" by fastforce
  have hs: "st1 = foldl (\<lambda>st h. block h st) st
      (if af_store f \<and> \<not> ?tripped then List.map_filter (refused_host outcomes done) (enumerate 1 survivors) else [])"
    using keep_loop_writes [of f block "done" outcomes "\<not> ?tripped" 1 st survivors] k by (simp add: keepOutcomes_def)
  note def = api_apply_def Let_def outcomes_def [symmetric] counts prod.case k
  show ?thesis
    unfolding refused_host_def [symmetric]
  proof (cases "af_enabled f = Some False \<or> done 0 \<and> \<not> af_requireVerified f \<or> ?tripped \<and> \<not> af_requireVerified f")
    case True
    then show "case api_apply f block done survivors proxies st of (kept, rep, st') \<Rightarrow>
       st' = foldl (\<lambda>st h. block h st) st
         (if af_store f \<and> fr_State rep = FilterRan
          then List.map_filter (refused_host (af_check f (filterSubset survivors proxies)) done) (enumerate 1 survivors) else [])"
      unfolding def by (auto simp: start_report_def)
  next
    case False
    then show "case api_apply f block done survivors proxies st of (kept, rep, st') \<Rightarrow>
       st' = foldl (\<lambda>st h. block h st) st
         (if af_store f \<and> fr_State rep = FilterRan
          then List.map_filter (refused_host (af_check f (filterSubset survivors proxies)) done) (enumerate 1 survivors) else [])"
      unfolding def using hs by (auto simp: start_report_def)
  qed
qed

end
