(* ===== verification/Snapshot.thy ===== *)
theory Snapshot
  imports GoJson Strconv
begin

text \<open>
  \<^verbatim>\<open>internal/stable/snapshot.go\<close> and \<^verbatim>\<open>stable.go\<close>: the published list, held in memory and written to
  disk. A file system is a map from names to contents; an operation on it fails where the argument
  \<open>fails\<close> says so, a failed write after some of its bytes. \<open>time_json\<close> is the JSON text of a time and
  \<open>unmarshal\<close> the decoding of a whole document, both of Go's library.
\<close>

section \<open>The snapshot\<close>

record stable_Stats =
  ss_SourcesOK :: nat
  ss_SourcesTotal :: nat
  ss_Merged :: nat
  ss_Tested :: nat
  ss_Kept :: nat

record Snapshot =
  sn_Payload :: string
  sn_UpdatedAt :: int
  sn_Stats :: stable_Stats

text \<open>The holder is the latest snapshot, if there is one.\<close>

type_synonym Holder = "Snapshot option"

section \<open>Escaping\<close>

text \<open>The escape of a byte, or \<open>None\<close> where it may be written raw.\<close>

definition jsonEscape :: "char \<Rightarrow> string option" where
  "jsonEscape b =
     (if b = CHR 0x22 \<or> b = CHR 0x5C then Some [CHR 0x5C, b]
      else if b = CHR 0x08 then Some [CHR 0x5C, CHR ''b'']
      else if b = CHR 0x0C then Some [CHR 0x5C, CHR ''f'']
      else if b = CHR 0x0A then Some [CHR 0x5C, CHR ''n'']
      else if b = CHR 0x0D then Some [CHR 0x5C, CHR ''r'']
      else if b = CHR 0x09 then Some [CHR 0x5C, CHR ''t'']
      else if byte b > 31 then None
      else Some [CHR 0x5C, CHR ''u'', CHR ''0'', CHR ''0'', lowerhex ! (byte b div 16), lowerhex ! (byte b mod 16)])"

section \<open>Streaming the payload\<close>

text \<open>The writes issued so far and the pending buffer.\<close>

type_synonym stream = "string list \<times> string"

definition maxScratch :: nat where
  "maxScratch = 65536"

definition flushPayload :: "stream \<Rightarrow> stream" where
  "flushPayload = (\<lambda>(writes, scratch). if scratch = [] then (writes, scratch) else (writes @ [scratch], []))"

definition writePayloadChunk :: "stream \<Rightarrow> string \<Rightarrow> stream" where
  "writePayloadChunk st b =
     (if length b \<ge> maxScratch then (let (writes, scratch) = flushPayload st in (writes @ [b], scratch))
      else let (writes, scratch) = (if length (snd st) + length b > maxScratch then flushPayload st else st)
           in (writes, scratch @ b))"

text \<open>\<open>i\<close> is the position of the loop, \<open>run\<close> where the pending raw run starts.\<close>

function payload_stream :: "string \<Rightarrow> nat \<Rightarrow> nat \<Rightarrow> stream \<Rightarrow> stream" where
  "payload_stream payload i run st =
     (if i < length payload then
        (case jsonEscape (payload ! i) of
           None \<Rightarrow> payload_stream payload (i + 1) run st
         | Some esc \<Rightarrow>
             payload_stream payload (i + 1) (i + 1)
               (writePayloadChunk (writePayloadChunk st (take (i - run) (drop run payload))) esc))
      else flushPayload (writePayloadChunk st (drop run payload)))"
  by pat_completeness auto
termination
  by (relation "measure (\<lambda>(payload, i, run, st). length payload - i)") auto

declare payload_stream.simps [simp del]

definition writeSnapshotPayload :: "string \<Rightarrow> string list" where
  "writeSnapshotPayload payload = fst (payload_stream payload 0 0 ([], []))"

definition json_field :: "string \<Rightarrow> nat \<Rightarrow> string" where
  "json_field name n = [CHR 0x22] @ name @ [CHR 0x22, CHR '':''] @ itoa n"

definition stats_json :: "stable_Stats \<Rightarrow> string" where
  "stats_json s =
     [CHR 0x7B] @ json_field ''sources_ok'' (ss_SourcesOK s) @ '','' @ json_field ''sources_total'' (ss_SourcesTotal s) @ '','' @
     json_field ''merged'' (ss_Merged s) @ '','' @ json_field ''tested'' (ss_Tested s) @ '','' @
     json_field ''kept'' (ss_Kept s) @ [CHR 0x7D]"

definition snapshotTail :: "(int \<Rightarrow> string option) \<Rightarrow> Snapshot \<Rightarrow> string option" where
  "snapshotTail time_json s =
     map_option (\<lambda>t. [CHR 0x7B, CHR 0x22] @ ''updated_at'' @ [CHR 0x22, CHR '':''] @ t @ '','' @ [CHR 0x22] @ ''stats'' @
       [CHR 0x22, CHR '':''] @ stats_json (sn_Stats s) @ [CHR 0x7D]) (time_json (sn_UpdatedAt s))"

text \<open>The writes of a document.\<close>

definition writeSnapshotDoc :: "Snapshot \<Rightarrow> string \<Rightarrow> string list" where
  "writeSnapshotDoc s tail =
     [[CHR 0x7B, CHR 0x22] @ ''payload'' @ [CHR 0x22, CHR '':'', CHR 0x22]] @ writeSnapshotPayload (sn_Payload s) @
     [[CHR 0x22, CHR '','']] @ [drop 1 tail]"

section \<open>The file\<close>

type_synonym file_system = "string \<rightharpoonup> string"

datatype file_op = OpenTrunc string | WriteTo string string | SyncFile string | CloseFile string | RenameFile string string | RemoveFile string

fun op_done :: "file_op \<Rightarrow> file_system \<Rightarrow> file_system" where
  "op_done (OpenTrunc p) fs = fs(p \<mapsto> [])"
| "op_done (WriteTo p s) fs = fs(p \<mapsto> (case fs p of None \<Rightarrow> s | Some c \<Rightarrow> c @ s))"
| "op_done (RenameFile p q) fs = (case fs p of None \<Rightarrow> fs | Some c \<Rightarrow> fs(q \<mapsto> c, p := None))"
| "op_done (RemoveFile p) fs = fs(p := None)"
| "op_done _ fs = fs"

text \<open>What a failed operation leaves: a write may have written some of its bytes.\<close>

fun op_failed :: "nat \<Rightarrow> file_op \<Rightarrow> file_system \<Rightarrow> file_system" where
  "op_failed n (WriteTo p s) fs = op_done (WriteTo p (take n s)) fs"
| "op_failed n _ fs = fs"

text \<open>Operations until one fails, with the states passed through; \<open>fails k\<close> is the k-th one's fate.\<close>

fun run_ops :: "(nat \<Rightarrow> nat option) \<Rightarrow> nat \<Rightarrow> file_op list \<Rightarrow> file_system \<Rightarrow> bool \<times> file_system list" where
  "run_ops fails k [] fs = (True, [fs])"
| "run_ops fails k (a # ops) fs =
     (case fails k of
        Some n \<Rightarrow> (False, [fs, op_failed n a fs])
      | None \<Rightarrow> (let (ok, trace) = run_ops fails (k + 1) ops (op_done a fs) in (ok, fs # trace)))"

text \<open>The deferred removal runs once the temporary file was opened; its own failure is ignored.\<close>

definition writeSnapshotAtomic ::
  "(nat \<Rightarrow> nat option) \<Rightarrow> string \<Rightarrow> string list \<Rightarrow> file_system \<Rightarrow> bool \<times> file_system list" where
  "writeSnapshotAtomic fails path chunks fs =
     (let tmp = path @ ''.tmp'';
          ops = OpenTrunc tmp # map (WriteTo tmp) chunks @ [SyncFile tmp, CloseFile tmp, RenameFile tmp path];
          (ok, trace) = run_ops fails 0 ops fs
      in if fails 0 \<noteq> None then (ok, trace)
         else (ok, trace @ [if fails (length ops) = None then op_done (RemoveFile tmp) (last trace) else last trace]))"

definition SaveSnapshot ::
  "(int \<Rightarrow> string option) \<Rightarrow> (nat \<Rightarrow> nat option) \<Rightarrow> string \<Rightarrow> Snapshot \<Rightarrow> file_system \<Rightarrow> bool \<times> file_system list" where
  "SaveSnapshot time_json fails path s fs =
     (if path = [] then (True, [fs])
      else case snapshotTail time_json s of
             None \<Rightarrow> (False, [fs])
           | Some tail \<Rightarrow> writeSnapshotAtomic fails path (writeSnapshotDoc s tail) fs)"

definition LoadSnapshot :: "(string \<Rightarrow> Snapshot option) \<Rightarrow> string \<Rightarrow> file_system \<Rightarrow> Snapshot option" where
  "LoadSnapshot unmarshal path fs =
     (if path = [] then None
      else case fs path of
             None \<Rightarrow> None
           | Some b \<Rightarrow>
               (case unmarshal b of
                  None \<Rightarrow> None
                | Some f \<Rightarrow> (if sn_Payload f = [] then None else Some f)))"

section \<open>The stream is the escaped payload\<close>

definition escape_byte_json :: "char \<Rightarrow> string" where
  "escape_byte_json b = (case jsonEscape b of None \<Rightarrow> [b] | Some esc \<Rightarrow> esc)"

definition escape_payload :: "string \<Rightarrow> string" where
  "escape_payload s = concat (map escape_byte_json s)"

definition stream_text :: "stream \<Rightarrow> string" where
  "stream_text st = concat (fst st) @ snd st"

definition stream_ok :: "stream \<Rightarrow> bool" where
  "stream_ok st \<longleftrightarrow> length (snd st) \<le> maxScratch"

lemma flush_text: "stream_text (flushPayload st) = stream_text st" "snd (flushPayload st) = []"
  by (auto simp: flushPayload_def stream_text_def split: prod.splits)

lemma chunk_text: "stream_text (writePayloadChunk st b) = stream_text st @ b"
  using flush_text [of st]
  by (auto simp: writePayloadChunk_def stream_text_def Let_def split: prod.splits if_splits)

lemma chunk_ok: "stream_ok st \<Longrightarrow> stream_ok (writePayloadChunk st b)"
  using flush_text(2) [of st]
  by (auto simp: writePayloadChunk_def stream_ok_def Let_def split: prod.splits if_splits)

lemma escape_raw: "list_all (\<lambda>b. jsonEscape b = None) s \<Longrightarrow> escape_payload s = s"
  by (induction s) (auto simp: escape_payload_def escape_byte_json_def)

lemma payload_stream_text:
  "run \<le> i \<Longrightarrow> i \<le> length payload \<Longrightarrow> list_all (\<lambda>b. jsonEscape b = None) (take (i - run) (drop run payload)) \<Longrightarrow>
     stream_text (payload_stream payload i run st) = stream_text st @ escape_payload (drop run payload)"
proof (induction payload i run st rule: payload_stream.induct)
  case (1 payload i run st)
  show ?case
  proof (cases "i < length payload")
    case False
    with "1.prems" have "escape_payload (drop run payload) = drop run payload" by (intro escape_raw) simp
    with False show ?thesis by (subst payload_stream.simps) (simp add: flush_text chunk_text)
  next
    case True
    have split: "take (i + 1 - run) (drop run payload) = take (i - run) (drop run payload) @ [payload ! i]"
      using True "1.prems"(1) by (simp add: Suc_diff_le take_Suc_conv_app_nth)
    show ?thesis
    proof (cases "jsonEscape (payload ! i)")
      case None
      then have "list_all (\<lambda>b. jsonEscape b = None) (take (i + 1 - run) (drop run payload))"
        using "1.prems"(3) split by simp
      with "1.IH"(1) [OF True None] "1.prems" True None show ?thesis by (subst payload_stream.simps) simp
    next
      case (Some esc)
      have "drop run payload = take (i - run) (drop run payload) @ payload ! i # drop (i + 1) payload"
        using True "1.prems"(1) id_take_nth_drop [of "i - run" "drop run payload"] by simp
      then have "escape_payload (drop run payload) =
          escape_payload (take (i - run) (drop run payload)) @ escape_byte_json (payload ! i) @ escape_payload (drop (i + 1) payload)"
        by (metis (no_types, lifting) concat.simps(2) concat_append escape_payload_def list.simps(9) map_append)
      moreover have "escape_payload (take (i - run) (drop run payload)) = take (i - run) (drop run payload)"
        by (rule escape_raw) (rule "1.prems"(3))
      ultimately show ?thesis
        using "1.IH"(2) [OF True Some] True Some
        by (subst payload_stream.simps) (simp add: chunk_text escape_byte_json_def)
    qed
  qed
qed

definition write_ok :: "string \<Rightarrow> string \<Rightarrow> bool" where
  "write_ok payload w \<longleftrightarrow> length w \<le> maxScratch \<or> (\<exists>i n. w = take n (drop i payload))"

lemma chunk_writes:
  assumes "list_all (write_ok p) (fst st)" "stream_ok st" "write_ok p b"
  shows "list_all (write_ok p) (fst (writePayloadChunk st b))"
  using assms
  by (auto simp: writePayloadChunk_def flushPayload_def stream_ok_def write_ok_def Let_def split: prod.splits if_splits)

lemma escape_short: "jsonEscape b = Some esc \<Longrightarrow> length esc \<le> 6"
  by (auto simp: jsonEscape_def split: if_splits)

lemma payload_stream_writes:
  "list_all (write_ok payload) (fst st) \<Longrightarrow> stream_ok st \<Longrightarrow>
     list_all (write_ok payload) (fst (payload_stream payload i run st))"
proof (induction payload i run st rule: payload_stream.induct)
  case (1 payload i run st)
  have raw: "write_ok payload (take n (drop run payload))" "write_ok payload (drop run payload)" for n
    unfolding write_ok_def by (blast, metis append_Nil2 drop_eq_Nil2 le_refl take_all_iff)
  show ?case
  proof (cases "i < length payload")
    case False
    have "list_all (write_ok payload) (fst (writePayloadChunk st (drop run payload)))" "stream_ok (writePayloadChunk st (drop run payload))"
      using chunk_writes [OF "1.prems" raw(2)] chunk_ok [OF "1.prems"(2)] by auto
    with False show ?thesis
      by (subst payload_stream.simps) (auto simp: flushPayload_def stream_ok_def write_ok_def split: prod.splits)
  next
    case True
    show ?thesis
    proof (cases "jsonEscape (payload ! i)")
      case None
      with "1.IH"(1) [OF True None "1.prems"] True show ?thesis by (subst payload_stream.simps) simp
    next
      case (Some esc)
      let ?st = "writePayloadChunk st (take (i - run) (drop run payload))"
      have e: "write_ok payload esc" using escape_short [OF Some] by (simp add: write_ok_def maxScratch_def)
      have st: "list_all (write_ok payload) (fst ?st)" "stream_ok ?st"
        using chunk_writes [OF "1.prems" raw(1)] chunk_ok [OF "1.prems"(2)] by auto
      with "1.IH"(2) [OF True Some chunk_writes [OF st e] chunk_ok [OF st(2)]] True Some
      show ?thesis by (subst payload_stream.simps) simp
    qed
  qed
qed

lemma payload_stream_flushed: "snd (payload_stream payload i run st) = []"
proof (induction payload i run st rule: payload_stream.induct)
  case (1 payload i run st)
  show ?case
  proof (cases "i < length payload")
    case False
    then show ?thesis by (subst payload_stream.simps) (simp add: flush_text)
  next
    case True
    with 1 show ?thesis
      by (cases "jsonEscape (payload ! i)") (subst payload_stream.simps, simp)+
  qed
qed

text \<open>
  Streaming the payload through the bounded buffer writes exactly the payload with each byte
  escaped as the grammar requires, and no write is larger than the buffer unless it is a run of the
  payload itself.
\<close>

theorem payload_stream_is_escape:
  "concat (writeSnapshotPayload payload) = escape_payload payload \<and>
   list_all (\<lambda>w. length w \<le> maxScratch \<or> (\<exists>i n. w = take n (drop i payload))) (writeSnapshotPayload payload)"
proof -
  have "snd (payload_stream payload 0 0 ([], [])) = []" by (rule payload_stream_flushed)
  then have "concat (writeSnapshotPayload payload) = escape_payload payload"
    using payload_stream_text [of 0 0 payload "([], [])"] by (simp add: writeSnapshotPayload_def stream_text_def)
  moreover have "list_all (write_ok payload) (writeSnapshotPayload payload)"
    using payload_stream_writes [of payload "([], [])" 0 0] by (simp add: writeSnapshotPayload_def stream_ok_def)
  ultimately show ?thesis by (simp add: write_ok_def [abs_def])
qed

section \<open>Reading it back\<close>

text \<open>What a JSON reader makes of the bytes of a string: an invalid sequence becomes U+FFFD.\<close>

function to_valid_utf8 :: "string \<Rightarrow> string" where
  "to_valid_utf8 s =
     (if s = [] then []
      else let (r, size) = decode_rune s in encode_rune r @ to_valid_utf8 (drop size s))"
  by pat_completeness auto
termination
proof (relation "measure length", goal_cases)
  case (2 s p r size)
  then show ?case using decode_rune_size [of s] by (cases "decode_rune s") auto
qed simp

declare to_valid_utf8.simps [simp del]

lemma to_valid_ascii: "list_all is_ascii s \<Longrightarrow> to_valid_utf8 s = s"
proof (induction s)
  case (Cons c s)
  then show ?case
    by (subst to_valid_utf8.simps) (simp add: decode_rune_def encode_rune_def is_ascii_def)
qed (simp add: to_valid_utf8.simps)

lemma high_raw: "byte b > 127 \<Longrightarrow> jsonEscape b = None"
proof -
  assume b: "byte b > 127"
  then have "b \<noteq> c" if "byte c \<le> 127" for c using that by auto
  with b show ?thesis by (simp add: jsonEscape_def)
qed

lemma escape_Cons: "escape_payload (b # s) = escape_byte_json b @ escape_payload s"
  by (simp add: escape_payload_def)

lemma escape_high: "byte b > 127 \<Longrightarrow> escape_payload (b # s) = b # escape_payload s"
  by (simp add: escape_Cons escape_byte_json_def high_raw)

lemma escape_backslash: "jsonEscape b = Some esc \<Longrightarrow> \<exists>t. esc = CHR 0x5C # t"
  by (auto simp: jsonEscape_def split: if_splits)

lemma escape_low: "byte b \<le> 127 \<Longrightarrow> \<exists>d t. escape_payload (b # s) = d # t \<and> byte d \<le> 127"
  unfolding escape_Cons escape_byte_json_def by (cases "jsonEscape b") (auto dest: escape_backslash)

text \<open>A rune with its bytes at or above 128 is decoded from the escaped text as from the text.\<close>

fun agree :: "nat \<Rightarrow> string \<Rightarrow> string \<Rightarrow> bool" where
  "agree 0 s t \<longleftrightarrow> True"
| "agree (Suc n) [] [] \<longleftrightarrow> True"
| "agree (Suc n) (b # s) (d # t) \<longleftrightarrow> (if cont b then d = b \<and> agree n s t else \<not> cont d)"
| "agree (Suc n) _ _ \<longleftrightarrow> False"

lemma agree_escape: "agree n s (escape_payload s)"
proof (induction n arbitrary: s)
  case (Suc n)
  show ?case
  proof (cases s)
    case Nil
    then show ?thesis by (simp add: escape_payload_def)
  next
    case (Cons b u)
    show ?thesis
    proof (cases "byte b > 127")
      case True
      with Suc Cons show ?thesis by (simp add: escape_high)
    next
      case False
      then obtain d t where "escape_payload (b # u) = d # t" "byte d \<le> 127" using escape_low [of b u] by auto
      with False Cons show ?thesis by (simp add: cont_def)
    qed
  qed
qed simp

lemma decode_agree:
  assumes "agree 3 s t"
  shows "decode_rune (a # s) = decode_rune (a # t)"
proof -
  consider "s = []" "t = []" | b u d v where "s = b # u" "t = d # v" "\<not> cont b" "\<not> cont d"
    | b where "s = [b]" "t = [b]" "cont b" | b c u d v where "s = b # c # u" "t = b # d # v" "cont b" "\<not> cont c" "\<not> cont d"
    | b c where "s = [b, c]" "t = [b, c]" "cont b" "cont c"
    | b c d u e v where "s = b # c # d # u" "t = b # c # e # v" "cont b" "cont c" "cont d \<and> e = d \<or> \<not> cont d \<and> \<not> cont e"
    using assms
    by (cases s; cases t; cases "tl s"; cases "tl t"; cases "tl (tl s)"; cases "tl (tl t)")
       (auto simp: numeral_3_eq_3 split: if_splits)
  then show ?thesis
    by cases (simp_all add: decode_rune_def Let_def, auto simp: Let_def split: list.split)
qed

lemma escape_take:
  "list_all cont (take n s) \<Longrightarrow> n \<le> length s \<Longrightarrow> drop n (escape_payload s) = escape_payload (drop n s)"
proof (induction n arbitrary: s)
  case (Suc n)
  then obtain b u where s: "s = b # u" by (cases s) auto
  with Suc.prems have "byte b > 127" by (simp add: cont_def)
  with Suc s show ?case by (simp add: escape_high)
qed simp

lemma decode_conts:
  "decode_rune (a # s) = (r, Suc n) \<Longrightarrow> list_all cont (take n s) \<and> n \<le> length s"
  by (auto simp: decode_rune_def Let_def split: if_splits list.splits)

lemma hex_digit_lowerhex: "k < 16 \<Longrightarrow> hex_digit (lowerhex ! k) = Some k"
proof -
  have "list_all (\<lambda>k. hex_digit (lowerhex ! k) = Some k) [0..<16]"
    by (simp add: upt_rec lowerhex_def hex_digit_def is_digit_def)
  then show "k < 16 \<Longrightarrow> hex_digit (lowerhex ! k) = Some k" by (simp add: list_all_iff)
qed

lemma jsonEscape_cases:
  assumes "jsonEscape a = Some esc"
  obtains (quote) "a = CHR 0x22 \<or> a = CHR 0x5C" "esc = [CHR 0x5C, a]"
    | (short) d where "(a, d) \<in> {(CHR 0x08, CHR ''b''), (CHR 0x0C, CHR ''f''), (CHR 0x0A, CHR ''n''), (CHR 0x0D, CHR ''r''), (CHR 0x09, CHR ''t'')}"
        "esc = [CHR 0x5C, d]"
    | (hex) "byte a < 32" "esc = [CHR 0x5C, CHR ''u'', CHR ''0'', CHR ''0'', lowerhex ! (byte a div 16), lowerhex ! (byte a mod 16)]"
  using assms by (auto simp: jsonEscape_def split: if_splits)

lemma unquote_escape_low:
  assumes "byte a \<le> 127"
  shows "unquote_body (escape_byte_json a @ s) = map_option ((#) a) (unquote_body s)"
proof (cases "jsonEscape a")
  case None
  then have "a \<noteq> CHR 0x5C" "a \<noteq> CHR 0x22" "\<not> byte a < 32" by (auto simp: jsonEscape_def split: if_splits)
  with None assms show ?thesis by (subst unquote_body.simps) (simp add: escape_byte_json_def)
next
  case (Some esc)
  from Some show ?thesis
  proof (cases rule: jsonEscape_cases)
    case quote
    then show ?thesis by (subst unquote_body.simps) (auto simp: Some escape_byte_json_def simple_escape_def)
  next
    case short
    then show ?thesis by (subst unquote_body.simps) (auto simp: Some escape_byte_json_def simple_escape_def)
  next
    case hex
    have "byte a div 16 < 16" using hex(1) by simp
    moreover have "((0 * 16 + 0) * 16 + byte a div 16) * 16 + byte a mod 16 = byte a" by simp
    ultimately have u: "getu4 (esc @ s) = Some (byte a)"
      by (simp add: hex(2) getu4_def hex_digit_lowerhex hex_digit_def [of "CHR ''0''"] is_digit_def)
    have "unquote_body (esc @ s) = map_option ((@) (encode_rune (byte a))) (unquote_body s)"
      using hex(1) by (subst unquote_body.simps) (simp add: hex(2) u [unfolded hex(2), simplified] surrogate_def)
    moreover have "encode_rune (byte a) = [a]" using hex(1) by (simp add: encode_rune_def)
    moreover have "(@) [a] = (#) a" by (simp add: fun_eq_iff)
    ultimately show ?thesis by (simp add: Some escape_byte_json_def)
  qed
qed

lemma unquote_escape: "unquote_body (escape_payload s) = Some (to_valid_utf8 s)"
proof (induction s rule: to_valid_utf8.induct)
  case (1 s)
  show ?case
  proof (cases s)
    case Nil
    then show ?thesis by (simp add: escape_payload_def unquote_body.simps to_valid_utf8.simps)
  next
    case (Cons a t)
    obtain r size where d: "decode_rune s = (r, size)" by fastforce
    have ih: "unquote_body (escape_payload (drop size s)) = Some (to_valid_utf8 (drop size s))"
      using 1 Cons d by simp
    have v: "to_valid_utf8 s = encode_rune r @ to_valid_utf8 (drop size s)"
      using Cons d by (subst to_valid_utf8.simps) simp
    show ?thesis
    proof (cases "byte a \<le> 127")
      case True
      then have "r = byte a" "size = 1" using d by (auto simp: Cons decode_rune_def)
      moreover have "encode_rune (byte a) = [a]" using True by (simp add: encode_rune_def)
      ultimately show ?thesis
        using unquote_escape_low [OF True] ih v by (simp add: Cons escape_Cons)
    next
      case False
      then have e: "escape_payload s = a # escape_payload t" by (simp add: Cons escape_high)
      have dec: "decode_rune (a # escape_payload t) = (r, size)"
        using decode_agree [OF agree_escape [of 3 t]] d by (simp add: Cons)
      obtain n where n: "size = Suc n" using decode_rune_size [of s] d Cons by (cases size) auto
      have "drop n (escape_payload t) = escape_payload (drop n t)"
        using decode_conts [of a t r n] d by (intro escape_take) (simp_all add: Cons n)
      then have rest: "drop size (escape_payload s) = escape_payload (drop size s)"
        unfolding e n by (simp add: Cons)
      have "a \<noteq> CHR 0x5C" "a \<noteq> CHR 0x22" using False by auto
      then have "unquote_body (escape_payload s) = map_option ((@) (encode_rune r)) (unquote_body (drop size (escape_payload s)))"
        unfolding e using False dec by (subst unquote_body.simps) simp
      then show ?thesis unfolding rest ih v by simp
    qed
  qed
qed

lemma scan_escape: "scan_all (InString, st) (escape_payload s @ rest) = scan_all (InString, st) rest"
proof (induction s)
  case (Cons b s)
  have "scan_all (InString, st) (escape_byte_json b @ u) = scan_all (InString, st) u" for u
  proof (cases "jsonEscape b")
    case None
    then have "b \<noteq> CHR 0x5C" "b \<noteq> CHR 0x22" "\<not> byte b < 32" by (auto simp: jsonEscape_def split: if_splits)
    with None show ?thesis by (simp add: escape_byte_json_def)
  next
    case (Some esc)
    have hexes: "is_hex (lowerhex ! k)" if "k < 16" for k
    proof -
      have "list_all (\<lambda>k. is_hex (lowerhex ! k)) [0..<16]" by (simp add: upt_rec lowerhex_def is_hex_def is_digit_def)
      then show ?thesis using that by (simp add: list_all_iff)
    qed
    have zero: "is_hex CHR ''0''" by (simp add: is_hex_def is_digit_def)
    have div16: "byte b div 16 < 16" by (simp add: less_mult_imp_div_less)
    from Some show ?thesis
    proof (cases rule: jsonEscape_cases)
      case hex
      then show ?thesis by (simp add: Some escape_byte_json_def zero hexes div16 numeral_3_eq_3)
    qed (auto simp: Some escape_byte_json_def)
  qed
  then show ?case using Cons by (simp add: escape_Cons)
qed (simp add: escape_payload_def)

text \<open>
  The payload survives the file: what the streaming writer puts between the quotes is a valid JSON
  string, and reading it back gives the payload with any invalid UTF-8 replaced, so the payload itself
  where it is ASCII, as percent-encoded links are.
\<close>

theorem snapshot_payload_round_trip:
  "unmarshal_string ([CHR 0x22] @ concat (writeSnapshotPayload payload) @ [CHR 0x22]) = Some (to_valid_utf8 payload) \<and>
   (if list_all is_ascii payload then to_valid_utf8 payload = payload else True)"
proof -
  have w: "concat (writeSnapshotPayload payload) = escape_payload payload"
    using payload_stream_text [of 0 0 payload "([], [])"] payload_stream_flushed [of payload 0 0 "([], [])"]
    by (simp add: writeSnapshotPayload_def stream_text_def)
  let ?tok = "CHR 0x22 # escape_payload payload @ [CHR 0x22]"
  have "scan_all (BeginValue, []) ?tok = Some (EndValue, [])"
    by (simp add: begin_value_def json_space_def scan_escape)
  then have "json_valid ?tok" by (simp add: json_valid_def at_end_def end_value_def json_space_def)
  then have "unmarshal_string ?tok = Some (to_valid_utf8 payload)"
    by (simp add: unmarshal_string_def unquote_escape)
  then show ?thesis by (simp add: w to_valid_ascii)
qed

section \<open>The file is old or new\<close>

fun op_on :: "string \<Rightarrow> file_op \<Rightarrow> bool" where
  "op_on t (OpenTrunc p) \<longleftrightarrow> p = t"
| "op_on t (WriteTo p s) \<longleftrightarrow> p = t"
| "op_on t (SyncFile p) \<longleftrightarrow> p = t"
| "op_on t (CloseFile p) \<longleftrightarrow> p = t"
| "op_on t _ \<longleftrightarrow> False"

definition same_but :: "string set \<Rightarrow> file_system \<Rightarrow> file_system \<Rightarrow> bool" where
  "same_but ps fs fs' \<longleftrightarrow> fs' |` (- ps) = fs |` (- ps)"

lemma same_but_refl [simp]: "same_but ps fs fs"
  by (simp add: same_but_def)

lemma same_but_trans: "same_but ps a b \<Longrightarrow> same_but ps b c \<Longrightarrow> same_but ps a c"
  by (simp add: same_but_def)

lemma same_but_upd: "p \<in> ps \<Longrightarrow> same_but ps fs (fs(p := x))"
  by (auto simp: same_but_def restrict_map_def fun_eq_iff)

lemma op_on_keeps:
  assumes "op_on t a" "q \<noteq> t"
  shows "op_done a fs q = fs q" "op_failed n a fs q = fs q"
    "same_but {q, t} fs (op_done a fs)" "same_but {q, t} fs (op_failed n a fs)"
  using assms by (cases a; auto intro: same_but_upd)+

lemma rename_trace:
  assumes "list_all (op_on t) ops" "q \<noteq> t" "fold op_done ops fs t = Some c"
    "run_ops fails k (ops @ [RenameFile t q]) fs = (ok, trace)"
  shows "trace \<noteq> [] \<and> list_all (\<lambda>fs'. (fs' q = fs q \<or> fs' q = Some c) \<and> same_but {q, t} fs fs') trace \<and>
    last trace q = (if ok then Some c else fs q)"
  using assms
proof (induction ops arbitrary: fs k ok trace)
  case Nil
  then show ?case
    by (auto split: option.splits intro: same_but_trans [OF same_but_upd same_but_upd])
next
  case (Cons a ops)
  note keeps = op_on_keeps [of t a q, OF _ Cons.prems(2)]
  show ?case
  proof (cases "fails k")
    case (Some n)
    with Cons.prems keeps show ?thesis by auto
  next
    case None
    then obtain tr where tr: "run_ops fails (k + 1) (ops @ [RenameFile t q]) (op_done a fs) = (ok, tr)" "trace = fs # tr"
      using Cons.prems(4) by (auto split: prod.splits)
    have on: "op_on t a" "list_all (op_on t) ops" using Cons.prems(1) by simp_all
    have step: "same_but {q, t} fs fs' \<longleftrightarrow> same_but {q, t} (op_done a fs) fs'" for fs'
      using keeps(3) [OF on(1), of fs] by (simp add: same_but_def)
    from Cons.IH [OF on(2) Cons.prems(2) _ tr(1)] Cons.prems(3) keeps(1) [OF on(1), of fs] show ?thesis
      by (simp add: tr(2) step) (simp flip: step)
  qed
qed

lemma fold_writes: "fs t = Some c \<Longrightarrow> fold op_done (map (WriteTo t) chunks) fs t = Some (c @ concat chunks)"
  by (induction chunks arbitrary: fs c) auto

lemma atomic_trace:
  assumes "writeSnapshotAtomic fails path chunks fs = (ok, trace)"
  shows "trace \<noteq> [] \<and>
    list_all (\<lambda>fs'. (fs' path = fs path \<or> fs' path = Some (concat chunks)) \<and> same_but {path, path @ ''.tmp''} fs fs') trace \<and>
    last trace path = (if ok then Some (concat chunks) else fs path)"
proof -
  define t where "t = path @ ''.tmp''"
  define ops where "ops = OpenTrunc t # map (WriteTo t) chunks @ [SyncFile t, CloseFile t]"
  have neq: "path \<noteq> t" by (simp add: t_def)
  have "list_all (op_on t) ops" by (simp add: ops_def list_all_iff)
  moreover have "fold op_done ops fs t = Some (concat chunks)"
    using fold_writes [of "fs(t \<mapsto> [])" t "[]" chunks] by (simp add: ops_def)
  moreover obtain ok' tr where tr: "run_ops fails 0 (ops @ [RenameFile t path]) fs = (ok', tr)" by fastforce
  ultimately have facts: "tr \<noteq> []" "list_all (\<lambda>fs'. (fs' path = fs path \<or> fs' path = Some (concat chunks)) \<and> same_but {path, t} fs fs') tr"
    "last tr path = (if ok' then Some (concat chunks) else fs path)"
    using rename_trace [of t ops path fs "concat chunks" fails 0] neq by blast+
  have "(ok, trace) = (if fails 0 \<noteq> None then (ok', tr)
      else (ok', tr @ [if fails (length (ops @ [RenameFile t path])) = None then op_done (RemoveFile t) (last tr) else last tr]))"
    using assms tr unfolding writeSnapshotAtomic_def Let_def by (simp only: ops_def t_def append.simps append_assoc prod.case split: if_splits)
  then consider "ok = ok'" "trace = tr" | x where "ok = ok'" "trace = tr @ [x]" "x = last tr \<or> x = (last tr)(t := None)"
    by (auto split: if_splits)
  then show ?thesis
  proof cases
    case 1
    with facts show ?thesis by (simp add: t_def)
  next
    case 2
    have "last tr \<in> set tr" using facts(1) by simp
    then have "(last tr path = fs path \<or> last tr path = Some (concat chunks)) \<and> same_but {path, t} fs (last tr)"
      using facts(2) by (simp only: list_all_iff)
    moreover have "x path = last tr path" "same_but {path, t} (last tr) x"
      using 2(3) neq by (auto intro: same_but_upd)
    ultimately have "(x path = fs path \<or> x path = Some (concat chunks)) \<and> same_but {path, t} fs x"
      by (auto intro: same_but_trans)
    with 2 facts \<open>x path = last tr path\<close> show ?thesis by (simp add: t_def)
  qed
qed

text \<open>
  C26: A save never exposes a partial document. In every state it passes through, wherever it fails or
  is cut off, the path holds the previous content or the whole new document; it holds the new one
  exactly when the save succeeds, and no file but the path and its temporary sibling is touched.
\<close>

theorem save_is_atomic:
  "case SaveSnapshot time_json fails path s fs of (ok, trace) \<Rightarrow>
     trace \<noteq> [] \<and>
     (case snapshotTail time_json s of
        None \<Rightarrow> trace = [fs]
      | Some tail \<Rightarrow>
          list_all (\<lambda>fs'. (fs' path = fs path \<or> fs' path = Some (concat (writeSnapshotDoc s tail))) \<and>
            fs' |` (- {path, path @ ''.tmp''}) = fs |` (- {path, path @ ''.tmp''})) trace \<and>
          (if path = [] then True
           else if ok then last trace path = Some (concat (writeSnapshotDoc s tail)) else last trace path = fs path))"
proof (cases "snapshotTail time_json s")
  case None
  then show ?thesis by (simp add: SaveSnapshot_def)
next
  case (Some tail)
  obtain ok trace where r: "SaveSnapshot time_json fails path s fs = (ok, trace)" by fastforce
  show ?thesis
  proof (cases "path = []")
    case True
    then show ?thesis by (simp add: SaveSnapshot_def Some)
  next
    case False
    then have "writeSnapshotAtomic fails path (writeSnapshotDoc s tail) fs = (ok, trace)"
      using r by (simp add: SaveSnapshot_def Some)
    from atomic_trace [OF this] show ?thesis by (simp add: r Some same_but_def)
  qed
qed

end
