(* ===== verification/Cycle.thy ===== *)
theory Cycle
  imports NodeFilters Snapshot
begin

text \<open>
  \<^verbatim>\<open>internal/stable/checker.go\<close> and the reports of \<^verbatim>\<open>internal/stable/report.go\<close>: one check cycle. The
  sources are fetched and merged, the endpoints that recently failed are skipped, the rest probed, the
  failures remembered, the survivors run through the node filters and the egress trace, annotated and
  published. A prober's optional halves are the fields of \<open>capabilities\<close>; what the cycle meets outside
  the code (the probe's network, the clock, the fate of the file writes, cancellation) is \<open>cycle_env\<close>.
\<close>

section \<open>Reports\<close>

datatype TraceState = TraceAbsent | TraceRan

record TraceReport =
  tp_State :: TraceState
  tp_Answered :: nat
  tp_Unanswered :: nat
  tp_Moved :: nat

definition no_trace :: TraceReport where
  "no_trace = \<lparr>tp_State = TraceAbsent, tp_Answered = 0, tp_Unanswered = 0, tp_Moved = 0\<rparr>"

record SourceReport =
  so_Name :: string
  so_Managed :: bool
  so_Feed :: string
  so_Total :: nat
  so_Valid :: nat
  so_Tested :: nat
  so_Filtered :: nat
  so_DNSDrop :: nat
  so_GeoDrop :: nat
  so_CIDRDrop :: nat
  so_ASNDrop :: nat
  so_GeoBlockDrop :: nat
  so_IPv6Drop :: nat
  so_Unsupported :: nat

record CyclePhases =
  ph_Fetch :: int
  ph_Merge :: int
  ph_DeadFilter :: int
  ph_Probe :: int
  ph_Egress :: int
  ph_Publish :: int

record CycleReport =
  cr_SourcesOK :: nat
  cr_SourcesTotal :: nat
  cr_Merged :: nat
  cr_DeadSkipped :: nat
  cr_Probed :: nat
  cr_Kept :: nat
  cr_ProbeStages :: "ProbeStage \<Rightarrow> nat"
  cr_Refusals :: RefusalReport
  cr_Precheck :: PrecheckReport
  cr_GeoUnknown :: nat
  cr_KeptCountries :: "string \<rightharpoonup> nat"
  cr_Duration :: int
  cr_Phases :: CyclePhases
  cr_Sources :: "SourceReport list"
  cr_Filters :: "FilterReport list"
  cr_KeptSpeeds :: "int list"
  cr_KeptLatenciesMs :: "int list"
  cr_Trace :: TraceReport

section \<open>What a cycle is configured with\<close>

record SubscriptionSource =
  su_Name :: string
  su_URL :: string
  su_Body :: string
  su_Managed :: bool
  su_Feed :: string
  su_HWID :: string

record FilterRequest =
  fq_SubscriptionURL :: string
  fq_AllowedCountries :: CountrySet
  fq_DeniedCountries :: CountrySet
  fq_Body :: string
  fq_HWID :: string

text \<open>The pipeline's answer, within a timeout, to the request of the i-th source, and its annotator.\<close>

record 'w Filterer =
  fl_FilterNodes :: "int \<Rightarrow> nat \<Rightarrow> FilterRequest \<Rightarrow> (NodeResult list \<times> Stats) option"
  fl_Annotator :: "'w annotator option"

record 'p capabilities =
  cp_boundProber :: bool
  cp_bindingReleaser :: bool
  cp_probedAdapterSource :: bool
  cp_precheckReporter :: bool
  cp_parseRefusalReporter :: bool
  cp_traceChecker :: "('p list \<Rightarrow> (string \<rightharpoonup> TraceResult)) option"

record ('p, 'w) CheckerSpec =
  sp_Filterer :: "'w Filterer"
  sp_Sources :: "SubscriptionSource list"
  sp_Denied :: CountrySet
  sp_Interval :: int
  sp_Rounds :: nat
  sp_MaxFail :: int
  sp_MaxAvgMs :: int
  sp_SourceTimeout :: int
  sp_Prober :: "'p capabilities"
  sp_Filters :: "'p node_filter list"
  sp_Trace :: bool

text \<open>
  The checker with what it shares: the prober, the two blocklists (a nil one is \<open>None\<close>), the holder,
  the files, the annotator's world, and what the reporter was told.
\<close>

record ('p, 't, 'w, 's) Checker =
  cy_prober :: "('p, 't) MihomoProber"
  cy_dead :: "DeadSet option"
  cy_store :: "'s option"
  cy_holder :: Holder
  cy_files :: file_system
  cy_world :: 'w
  cy_observed :: "CycleReport list"
  cy_errors :: nat

text \<open>
  The readings of the clock are numbered in program order; the k-th entry's look into the dead set
  and its block (with the jitter's draw) have their own. \<open>ce_done\<close> are the context's readings: after
  the probe, after the filters, after rendering.
\<close>

record ('p, 't, 's) cycle_env =
  ce_probe :: "('p, 't) probe_env"
  ce_uni :: "string \<Rightarrow> string"
  ce_clock :: "nat \<Rightarrow> int"
  ce_blockedAt :: "nat \<Rightarrow> int"
  ce_blockAt :: "nat \<Rightarrow> int \<times> int"
  ce_pruneAt :: int
  ce_block :: "string \<Rightarrow> 's \<Rightarrow> 's"
  ce_prune :: "'s \<Rightarrow> 's"
  ce_filterDone :: "nat \<Rightarrow> nat \<Rightarrow> bool"
  ce_doneAfterProbe :: bool
  ce_doneAfterFilters :: bool
  ce_doneInPublish :: bool
  ce_publishedAt :: int
  ce_path :: string
  ce_time_json :: "int \<Rightarrow> string option"
  ce_fails :: "nat \<Rightarrow> nat option"

section \<open>Fetching\<close>

definition fetch_request :: "CountrySet \<Rightarrow> SubscriptionSource \<Rightarrow> FilterRequest" where
  "fetch_request denied src =
     (let req = \<lparr>fq_SubscriptionURL = su_URL src, fq_AllowedCountries = All_codes, fq_DeniedCountries = denied,
                 fq_Body = [], fq_HWID = su_HWID src\<rparr>
      in if su_Body src \<noteq> [] then req\<lparr>fq_SubscriptionURL := [], fq_HWID := [], fq_Body := su_Body src\<rparr> else req)"

definition source_report :: "SubscriptionSource \<Rightarrow> Stats \<Rightarrow> SourceReport" where
  "source_report src stats =
     \<lparr>so_Name = su_Name src, so_Managed = su_Managed src, so_Feed = su_Feed src, so_Total = Total stats,
      so_Valid = Kept stats, so_Tested = 0, so_Filtered = 0, so_DNSDrop = DNSDrop stats, so_GeoDrop = GeoDrop stats,
      so_CIDRDrop = CIDRDrop stats, so_ASNDrop = ASNDrop stats, so_GeoBlockDrop = GeoBlockDrop stats,
      so_IPv6Drop = IPv6Drop stats, so_Unsupported = Unsupported stats\<rparr>"

text \<open>The results in configuration order, whatever order the fetches finished in; a failed one is left out.\<close>

fun collect_results ::
  "(nat \<Rightarrow> FilterRequest \<Rightarrow> (NodeResult list \<times> Stats) option) \<Rightarrow> CountrySet \<Rightarrow> nat \<Rightarrow> SubscriptionSource list
   \<Rightarrow> SourceBody list \<times> SourceReport list" where
  "collect_results svc denied i [] = ([], [])"
| "collect_results svc denied i (src # srcs) =
     (let (bodies, reports) = collect_results svc denied (i + 1) srcs
      in case svc i (fetch_request denied src) of
           None \<Rightarrow> (bodies, reports)
         | Some (nodes, stats) \<Rightarrow>
             (\<lparr>sb_Name = su_Name src, sb_Nodes = nodes\<rparr> # bodies, source_report src stats # reports))"

definition fetchSources :: "('p, 'w) CheckerSpec \<Rightarrow> SourceBody list \<times> SourceReport list" where
  "fetchSources spec =
     collect_results (fl_FilterNodes (sp_Filterer spec) (sp_SourceTimeout spec)) (sp_Denied spec) 0 (sp_Sources spec)"

section \<open>The dead set\<close>

fun dead_loop :: "DeadSet option \<Rightarrow> (nat \<Rightarrow> int) \<Rightarrow> nat \<Rightarrow> Entry list \<Rightarrow> Entry list \<times> nat" where
  "dead_loop dead now k [] = ([], 0)"
| "dead_loop dead now k (e # es) =
     (let (probe, skipped) = dead_loop dead now (k + 1) es
      in if (case dead of None \<Rightarrow> False | Some d \<Rightarrow> dead_Blocked d (en_Addr e, en_IP e) (now k))
         then (probe, skipped + 1) else (e # probe, skipped))"

definition filterDead :: "DeadSet option \<Rightarrow> (nat \<Rightarrow> int) \<Rightarrow> Entry list \<Rightarrow> Entry list \<times> nat \<times> bool" where
  "filterDead dead now entries =
     (let (probe, skipped) = dead_loop dead now 0 entries
      in if probe = [] then ([], skipped, False) else (probe, skipped, True))"

text \<open>Whether an entry's result is recorded as a death.\<close>

definition dead_verdict :: "(string \<rightharpoonup> ProbeResult) \<Rightarrow> RefusalReport \<Rightarrow> Entry \<Rightarrow> bool" where
  "dead_verdict res refusals e =
     (case res (en_Label e) of
        None \<Rightarrow> rf_State refusals \<noteq> RefusalRan
      | Some r \<Rightarrow> (if pr_Successes r = 0 then \<not> pr_Unbound r else False))"

fun record_loop ::
  "(nat \<Rightarrow> int \<times> int) \<Rightarrow> (string \<rightharpoonup> ProbeResult) \<Rightarrow> RefusalReport \<Rightarrow> nat \<Rightarrow> Entry list \<Rightarrow> DeadSet \<Rightarrow> DeadSet" where
  "record_loop at res refusals k [] d = d"
| "record_loop at res refusals k (e # es) d =
     record_loop at res refusals (k + 1) es
       (if dead_verdict res refusals e then dead_Block ((en_Addr e, en_IP e), fst (at k)) (snd (at k)) d else d)"

definition recordDead ::
  "(nat \<Rightarrow> int \<times> int) \<Rightarrow> Entry list \<Rightarrow> (string \<rightharpoonup> ProbeResult) \<Rightarrow> RefusalReport \<Rightarrow> PrecheckReport
   \<Rightarrow> DeadSet option \<Rightarrow> DeadSet option" where
  "recordDead at probed res refusals precheck dead =
     (case dead of
        None \<Rightarrow> None
      | Some d \<Rightarrow>
          (if pc_State precheck = PrecheckTripped then Some d
           else Some (record_loop at res refusals 0 probed d)))"

section \<open>The prober's halves\<close>

definition probeEntries ::
  "'p capabilities \<Rightarrow> ('p, 't) probe_env \<Rightarrow> (string \<Rightarrow> string) \<Rightarrow> nat \<Rightarrow> Entry list \<Rightarrow> ('p, 't) MihomoProber
   \<Rightarrow> (probe_error + (string \<rightharpoonup> ProbeResult)) \<times> ('p, 't) MihomoProber" where
  "probeEntries caps env uni rounds entries m =
     (if cp_boundProber caps then ProbeBound env uni rounds entries m
      else Probe env uni rounds (entriesPayload entries) m)"

definition cycle_takeProbedAdapters ::
  "'p capabilities \<Rightarrow> ('p, 't) MihomoProber \<Rightarrow> 'p list option \<times> ('p, 't) MihomoProber" where
  "cycle_takeProbedAdapters caps m = (if \<not> cp_probedAdapterSource caps then (None, m) else TakeProbedAdapters m)"

definition closeProxies :: "'p list \<Rightarrow> ('p, 't) MihomoProber \<Rightarrow> ('p, 't) MihomoProber" where
  "closeProxies proxies m = m\<lparr>mp_closed := mp_closed m @ proxies\<rparr>"

definition closeProbed :: "'p capabilities \<Rightarrow> 'p list option \<Rightarrow> ('p, 't) MihomoProber \<Rightarrow> ('p, 't) MihomoProber" where
  "closeProbed caps proxies m =
     (let m1 = closeProxies (case proxies of None \<Rightarrow> [] | Some pxs \<Rightarrow> pxs) m
      in if cp_bindingReleaser caps then releaseBindings m1 else m1)"

definition precheckReportOf :: "'p capabilities \<Rightarrow> ('p, 't) MihomoProber \<Rightarrow> PrecheckReport" where
  "precheckReportOf caps m = (if \<not> cp_precheckReporter caps then no_precheck else mp_precheck m)"

definition refusalReportOf :: "'p capabilities \<Rightarrow> ('p, 't) MihomoProber \<Rightarrow> RefusalReport" where
  "refusalReportOf caps m = (if \<not> cp_parseRefusalReporter caps then no_refusals else mp_parseRefusal m)"

definition attribute_refusal :: "(string \<rightharpoonup> ProbeResult) \<Rightarrow> RefusalReport \<Rightarrow> Entry \<Rightarrow> RefusalReport" where
  "attribute_refusal res r e =
     (if res (en_Label e) \<noteq> None then r
      else if en_Label e \<in> set (rf_refused r) then r\<lparr>rf_Unparsable := rf_Unparsable r + 1\<rparr>
      else r\<lparr>rf_Unconvertible := rf_Unconvertible r + 1\<rparr>)"

definition attributeRefusals :: "Entry list \<Rightarrow> (string \<rightharpoonup> ProbeResult) \<Rightarrow> RefusalReport \<Rightarrow> RefusalReport" where
  "attributeRefusals probed res r =
     (if rf_State r \<noteq> RefusalRan then r else foldl (attribute_refusal res) r probed)"

definition count_stage ::
  "(string \<rightharpoonup> ProbeResult) \<Rightarrow> RefusalReport \<Rightarrow> (ProbeStage \<Rightarrow> nat) \<Rightarrow> Entry \<Rightarrow> (ProbeStage \<Rightarrow> nat)" where
  "count_stage res refusals stages e =
     (case res (en_Label e) of
        None \<Rightarrow> (if rf_State refusals \<noteq> RefusalRan then stages(StageUnknown := stages StageUnknown + 1) else stages)
      | Some r \<Rightarrow> stages(pr_Stage r := stages (pr_Stage r) + 1))"

definition probeStages :: "Entry list \<Rightarrow> (string \<rightharpoonup> ProbeResult) \<Rightarrow> RefusalReport \<Rightarrow> (ProbeStage \<Rightarrow> nat)" where
  "probeStages probed res refusals = foldl (count_stage res refusals) (\<lambda>_. 0) probed"

section \<open>Filters and trace\<close>

definition proxiesByLabel :: "('p \<Rightarrow> string) \<Rightarrow> Survivor list \<Rightarrow> 'p list \<Rightarrow> (string \<Rightarrow> 'p list)" where
  "proxiesByLabel entryLabel survivors proxies label =
     (if label \<in> set (map en_Label survivors) then filter (\<lambda>px. entryLabel px = label) proxies else [])"

fun trace_survivors :: "(string \<rightharpoonup> TraceResult) \<Rightarrow> TraceReport \<Rightarrow> Survivor list \<Rightarrow> Survivor list \<times> TraceReport" where
  "trace_survivors traced rep [] = ([], rep)"
| "trace_survivors traced rep (s # ss) =
     (case traced (en_Label s) of
        None \<Rightarrow>
          (let (ss', rep') = trace_survivors traced (rep\<lparr>tp_Unanswered := tp_Unanswered rep + 1\<rparr>) ss in (s # ss', rep'))
      | Some r \<Rightarrow>
          (let (ss', rep') = trace_survivors traced (rep\<lparr>tp_Answered := tp_Answered rep + 1\<rparr>) ss
           in (s\<lparr>sv_Egress := \<lparr>eg_IP = tr_IP r, eg_Country = tr_Country r\<rparr>\<rparr> # ss', rep')))"

definition applyTrace ::
  "('p list \<Rightarrow> (string \<rightharpoonup> TraceResult)) \<Rightarrow> Survivor list \<Rightarrow> (string \<Rightarrow> 'p list) \<Rightarrow> Survivor list \<times> TraceReport" where
  "applyTrace tracer survivors byLabel =
     trace_survivors (tracer (filterSubset survivors byLabel)) (no_trace\<lparr>tp_State := TraceRan\<rparr>) survivors"

definition source_index :: "SourceReport list \<Rightarrow> (string \<rightharpoonup> nat)" where
  "source_index reports = foldl (\<lambda>m i. m(so_Name (reports ! i) \<mapsto> i)) Map.empty [0..<length reports]"

definition count_tested :: "(string \<rightharpoonup> nat) \<Rightarrow> SourceReport list \<Rightarrow> Survivor \<Rightarrow> SourceReport list" where
  "count_tested byName reports s =
     (case byName (sourceOfLabel (en_Label s)) of
        None \<Rightarrow> reports
      | Some i \<Rightarrow> reports[i := (reports ! i)\<lparr>so_Tested := so_Tested (reports ! i) + 1\<rparr>])"

definition count_filtered :: "(string \<rightharpoonup> nat) \<Rightarrow> SourceReport list \<Rightarrow> Survivor \<Rightarrow> SourceReport list" where
  "count_filtered byName reports s =
     (case byName (sourceOfLabel (en_Label s)) of
        None \<Rightarrow> reports
      | Some i \<Rightarrow> reports[i := (reports ! i)\<lparr>so_Filtered := so_Filtered (reports ! i) + 1\<rparr>])"

definition countSourceStages :: "SourceReport list \<Rightarrow> Survivor list \<Rightarrow> Survivor list \<Rightarrow> SourceReport list" where
  "countSourceStages reports tested filtered =
     (let byName = source_index reports
      in foldl (count_filtered byName) (foldl (count_tested byName) reports tested) filtered)"

text \<open>The adapters the filters run on, and whether this stage built them and so closes them.\<close>

definition parseEgressProxies :: "('p, 't) probe_env \<Rightarrow> Survivor list \<Rightarrow> probe_error + 'p list" where
  "parseEgressProxies env kept = ParseProxies env (entriesPayload (map Merge.Entry.truncate kept))"

definition egress_proxies ::
  "('p, 't) probe_env \<Rightarrow> 'p list option \<Rightarrow> Survivor list \<Rightarrow> ('p list \<times> bool) option" where
  "egress_proxies env probed tested =
     (case probed of
        Some pxs \<Rightarrow> Some (pxs, False)
      | None \<Rightarrow> (case parseEgressProxies env tested of Inl _ \<Rightarrow> None | Inr pxs \<Rightarrow> Some (pxs, True)))"

definition run_trace ::
  "('p, 'w) CheckerSpec \<Rightarrow> Survivor list \<Rightarrow> (string \<Rightarrow> 'p list) \<Rightarrow> Survivor list \<times> TraceReport" where
  "run_trace spec kept byLabel =
     (if \<not> sp_Trace spec then (kept, no_trace)
      else case cp_traceChecker (sp_Prober spec) of
             None \<Rightarrow> (kept, no_trace)
           | Some tracer \<Rightarrow> applyTrace tracer kept byLabel)"

definition egress_stage ::
  "('p, 't, 's) cycle_env \<Rightarrow> ('p, 'w) CheckerSpec \<Rightarrow> Survivor list \<Rightarrow> 'p list option \<Rightarrow> ('p, 't, 'w, 's) Checker
   \<Rightarrow> Survivor list \<times> FilterReport list \<times> TraceReport \<times> ('p, 't, 'w, 's) Checker" where
  "egress_stage env spec tested probed c =
     (if sp_Filters spec = [] \<and> \<not> (sp_Trace spec \<and> cp_traceChecker (sp_Prober spec) \<noteq> None) \<or> tested = []
      then (tested, [], no_trace, c)
      else case egress_proxies (ce_probe env) probed tested of
             None \<Rightarrow> (tested, [], no_trace, c)
           | Some (proxies, owned) \<Rightarrow>
               (let byLabel = proxiesByLabel (pe_label (ce_probe env)) tested proxies;
                    (kept, reports, st) = run_node_filters (\<lambda>h. map_option (ce_block env h)) (ce_filterDone env) 0
                      (sp_Filters spec) tested byLabel (cy_store c);
                    (kept', tr) = run_trace spec kept byLabel;
                    m = cy_prober c;
                    m' = (if owned then closeProxies proxies (m\<lparr>mp_built := mp_built m @ proxies\<rparr>) else m)
                in (kept', reports, tr, c\<lparr>cy_store := st, cy_prober := m'\<rparr>)))"

text \<open>The per-source counts are taken on every exit.\<close>

definition filterAndMeasureEgress ::
  "('p, 't, 's) cycle_env \<Rightarrow> ('p, 'w) CheckerSpec \<Rightarrow> Survivor list \<Rightarrow> SourceReport list \<Rightarrow> 'p list option
   \<Rightarrow> ('p, 't, 'w, 's) Checker
   \<Rightarrow> Survivor list \<times> FilterReport list \<times> TraceReport \<times> SourceReport list \<times> ('p, 't, 'w, 's) Checker" where
  "filterAndMeasureEgress env spec tested sources probed c =
     (let (kept, reports, tr, c') = egress_stage env spec tested probed c
      in (kept, reports, tr, countSourceStages sources tested kept, c'))"

section \<open>The cycle\<close>

datatype cycle_error = ErrProbe probe_error | ErrAfterProbe | ErrDuringFilters | ErrDuringPublish

definition reportError :: "('p, 't, 'w, 's) Checker \<Rightarrow> ('p, 't, 'w, 's) Checker" where
  "reportError c = c\<lparr>cy_errors := cy_errors c + 1\<rparr>"

definition observe :: "CycleReport \<Rightarrow> ('p, 't, 'w, 's) Checker \<Rightarrow> ('p, 't, 'w, 's) Checker" where
  "observe r c = c\<lparr>cy_observed := cy_observed c @ [r]\<rparr>"

definition pruneCaches :: "('p, 't, 's) cycle_env \<Rightarrow> ('p, 't, 'w, 's) Checker \<Rightarrow> ('p, 't, 'w, 's) Checker" where
  "pruneCaches env c =
     c\<lparr>cy_dead := map_option (dead_Prune (ce_pruneAt env)) (cy_dead c),
       cy_store := map_option (ce_prune env) (cy_store c)\<rparr>"

definition publish ::
  "('p, 't, 's) cycle_env \<Rightarrow> string \<Rightarrow> stable_Stats \<Rightarrow> ('p, 't, 'w, 's) Checker \<Rightarrow> ('p, 't, 'w, 's) Checker" where
  "publish env payload stats c =
     (let snap = \<lparr>sn_Payload = payload, sn_UpdatedAt = ce_publishedAt env, sn_Stats = stats\<rparr>;
          (ok, trace) = SaveSnapshot (ce_time_json env) (ce_fails env) (ce_path env) snap (cy_files c)
      in c\<lparr>cy_holder := Some snap, cy_files := last trace\<rparr>)"

definition annotateAndPublish ::
  "('p, 't, 's) cycle_env \<Rightarrow> ('p, 'w) CheckerSpec \<Rightarrow> Survivor list \<Rightarrow> nat \<Rightarrow> nat \<Rightarrow> nat \<Rightarrow> TraceReport
   \<Rightarrow> ('p, 't, 'w, 's) Checker
   \<Rightarrow> cycle_error option \<times> TraceReport \<times> Survivor list \<times> ('p, 't, 'w, 's) Checker" where
  "annotateAndPublish env spec survivors sourcesOK merged tested tr c =
     (let ann = fl_Annotator (sp_Filterer spec);
          (payload, svs, w) = BuildPayload ann (cy_world c) survivors
      in if ce_doneInPublish env then (Some ErrDuringPublish, tr, svs, reportError (c\<lparr>cy_world := w\<rparr>))
         else let (moved, w') = movedCount ann w svs;
                  stats = \<lparr>ss_SourcesOK = sourcesOK, ss_SourcesTotal = length (sp_Sources spec), ss_Merged = merged,
                           ss_Tested = tested, ss_Kept = length svs\<rparr>
              in (None, tr\<lparr>tp_Moved := moved\<rparr>, svs, publish env payload stats (c\<lparr>cy_world := w'\<rparr>)))"

definition cycle_phases :: "(nat \<Rightarrow> int) \<Rightarrow> CyclePhases" where
  "cycle_phases t =
     \<lparr>ph_Fetch = t 1 - t 0, ph_Merge = t 2 - t 1, ph_DeadFilter = t 3 - t 2, ph_Probe = t 4 - t 3,
      ph_Egress = t 6 - t 5, ph_Publish = t 8 - t 7\<rparr>"

text \<open>From the taken adapters on: everything the deferred close follows.\<close>

definition after_probe ::
  "('p, 't, 's) cycle_env \<Rightarrow> ('p, 'w) CheckerSpec \<Rightarrow> SourceBody list \<Rightarrow> SourceReport list \<Rightarrow> Entry list \<Rightarrow> Entry list \<Rightarrow> nat
   \<Rightarrow> (string \<rightharpoonup> ProbeResult) \<Rightarrow> 'p list option \<Rightarrow> ('p, 't, 'w, 's) Checker
   \<Rightarrow> cycle_error option \<times> ('p, 't, 'w, 's) Checker" where
  "after_probe env spec bodies sources entries probed skipped res adapters c =
     (if ce_doneAfterProbe env then (Some ErrAfterProbe, reportError c)
      else let precheck = precheckReportOf (sp_Prober spec) (cy_prober c);
               refusals = refusalReportOf (sp_Prober spec) (cy_prober c);
               c1 = c\<lparr>cy_dead := recordDead (ce_blockAt env) probed res refusals precheck (cy_dead c)\<rparr>;
               selected = SelectSurvivors probed res (int (sp_Rounds spec)) (sp_MaxFail spec) (sp_MaxAvgMs spec);
               (kept, filters, tr, sources', c2) = filterAndMeasureEgress env spec selected sources adapters c1;
               c3 = pruneCaches env c2
           in if ce_doneAfterFilters env then (Some ErrDuringFilters, reportError c3)
              else if kept = [] then (None, reportError c3)
              else case annotateAndPublish env spec kept (length bodies) (length entries) (length probed) tr c3 of
                     (Some e, _, _, c4) \<Rightarrow> (Some e, c4)
                   | (None, tr', svs, c4) \<Rightarrow>
                       (None, observe
                         \<lparr>cr_SourcesOK = length bodies, cr_SourcesTotal = length (sp_Sources spec),
                          cr_Merged = length entries, cr_DeadSkipped = skipped, cr_Probed = length probed,
                          cr_Kept = length svs, cr_ProbeStages = probeStages probed res refusals,
                          cr_Refusals = attributeRefusals probed res refusals, cr_Precheck = precheck,
                          cr_GeoUnknown = geoUnknownCount svs, cr_KeptCountries = keptCountries svs,
                          cr_Duration = ce_clock env 9 - ce_clock env 0, cr_Phases = cycle_phases (ce_clock env),
                          cr_Sources = sources', cr_Filters = filters, cr_KeptSpeeds = keptSpeeds svs,
                          cr_KeptLatenciesMs = keptLatencies svs, cr_Trace = tr'\<rparr> c4))"

definition RunOnce ::
  "('p, 't, 's) cycle_env \<Rightarrow> ('p, 'w) CheckerSpec \<Rightarrow> ('p, 't, 'w, 's) Checker
   \<Rightarrow> cycle_error option \<times> ('p, 't, 'w, 's) Checker" where
  "RunOnce env spec c =
     (let (bodies, sources) = fetchSources spec;
          entries = Merge (ce_uni env) bodies
      in if entries = [] then (None, reportError c)
         else let (probed, skipped, ok) = filterDead (cy_dead c) (ce_blockedAt env) entries
              in if \<not> ok then (None, reportError c)
                 else case probeEntries (sp_Prober spec) (ce_probe env) (ce_uni env) (sp_Rounds spec) probed (cy_prober c) of
                        (Inl e, m) \<Rightarrow> (Some (ErrProbe e), reportError (c\<lparr>cy_prober := m\<rparr>))
                      | (Inr res, m) \<Rightarrow>
                          (let (adapters, m1) = cycle_takeProbedAdapters (sp_Prober spec) m;
                               (err, c') = after_probe env spec bodies sources entries probed skipped res adapters
                                 (c\<lparr>cy_prober := m1\<rparr>)
                           in (err, c'\<lparr>cy_prober := closeProbed (sp_Prober spec) adapters (cy_prober c')\<rparr>)))"

end
