(* ===== verification/Config.thy ===== *)
theory Config
  imports Refresh Cycle
begin

text \<open>
  \<^verbatim>\<open>internal/config/config.go\<close>: the configuration as the service holds it once decoded, the defaults
  it fills in, and what the components read out of it. A duration is its count of nanoseconds; a
  pointer to one is an option. A YAML map of groups is an association list with distinct keys, in
  whatever order the run iterates it. A nil list and an empty one are the same.
\<close>

section \<open>The configuration\<close>

record ASNConfig =
  asn_Timeout :: int
  asn_CacheTTL :: int

record CloudflareConfig =
  cfl_Timeout :: int
  cfl_Concurrency :: int

record GeofeedConfig =
  gfd_Sources :: "Source list"
  gfd_RefreshInterval :: "int option"

record DBIPConfig =
  dbi_URL :: string
  dbi_RefreshInterval :: "int option"

record RegistryConfig =
  reg_URLs :: "string list"
  reg_RefreshInterval :: "int option"

record GeoConfig =
  geo_Geofeed :: GeofeedConfig
  geo_DBIP :: DBIPConfig
  geo_Registry :: RegistryConfig
  geo_ASN :: ASNConfig
  geo_Cloudflare :: CloudflareConfig

record ResolverConfig =
  rsv_Address :: string
  rsv_Timeout :: int
  rsv_CacheTTL :: "int option"
  rsv_CacheNegativeTTL :: "int option"

record FilterConfig =
  flt_Type :: string
  flt_Provider :: string
  flt_ExcludeGroups :: "string list"
  flt_ExcludeCountries :: "string list"
  flt_DenyPatterns :: "string list"
  flt_URLs :: "string list"
  flt_FileType :: string
  flt_RefreshInterval :: "int option"
  flt_MinMbps :: "int option"
  flt_TestURL :: string
  flt_Timeout :: int
  flt_Concurrency :: int
  flt_Marker :: string
  flt_Model :: string
  flt_Endpoint :: string
  flt_APIKey :: string
  flt_KeyFile :: string
  flt_KeyVar :: string
  flt_RateLimit :: int
  flt_Version :: string

record GeminiConfig =
  gem_Endpoint :: string
  gem_Model :: string
  gem_Marker :: string
  gem_APIKey :: string
  gem_KeyFile :: string
  gem_KeyVar :: string
  gem_Timeout :: int
  gem_Concurrency :: int
  gem_RateLimit :: int

record ClaudeConfig =
  cla_Endpoint :: string
  cla_Marker :: string
  cla_Version :: string
  cla_Timeout :: int
  cla_Concurrency :: int

record ChatGPTConfig =
  gpt_Endpoint :: string
  gpt_Marker :: string
  gpt_Timeout :: int
  gpt_Concurrency :: int

record TidalConfig =
  tid_Endpoint :: string
  tid_Timeout :: int
  tid_Concurrency :: int

record DeeplConfig =
  dpl_Endpoint :: string
  dpl_Timeout :: int
  dpl_Concurrency :: int

record GeoBlockConfig =
  gbk_DBPath :: string
  gbk_TTL :: int
  gbk_Gemini :: GeminiConfig
  gbk_Claude :: ClaudeConfig
  gbk_ChatGPT :: ChatGPTConfig
  gbk_Tidal :: TidalConfig
  gbk_Deepl :: DeeplConfig

record BandwidthConfig =
  bwd_TestURL :: string
  bwd_MinMbps :: "int option"
  bwd_Timeout :: int
  bwd_Concurrency :: int

record CheckConfig =
  chk_Rounds :: int
  chk_Timeout :: int
  chk_TestURL :: string
  chk_ExpectedStatus :: string
  chk_MaxFail :: int
  chk_MaxAvgMs :: int
  chk_SourceTimeout :: int
  chk_Concurrency :: int

record SubscriptionsConfig =
  sub_Interval :: int
  sub_Check :: CheckConfig
  sub_Sources :: "SubscriptionSource list"
  sub_SnapshotPath :: string

type_synonym Groups = "(string \<times> string list) list"

record Config =
  cfg_LogLevel :: string
  cfg_Listen :: string
  cfg_MetricsListen :: string
  cfg_Geo :: GeoConfig
  cfg_Resolver :: ResolverConfig
  cfg_Filters :: "FilterConfig list"
  cfg_Annotate :: "AnnotateSpec list"
  cfg_Groups :: Groups
  cfg_Subscriptions :: SubscriptionsConfig
  cfg_GeoBlock :: GeoBlockConfig
  cfg_DeadCacheTTL :: "int option"
  cfg_FetchTimeout :: int

section \<open>Constants\<close>

definition second :: int where
  "second = 1000000000"

definition minute :: int where
  "minute = 60 * second"

definition hour :: int where
  "hour = 60 * minute"

definition defaultTimeout :: int where "defaultTimeout = 5 * second"
definition defaultDNSCacheTTL :: int where "defaultDNSCacheTTL = 30 * minute"
definition defaultDNSNegativeCache :: int where "defaultDNSNegativeCache = 10 * minute"
definition defaultASNCacheTTL :: int where "defaultASNCacheTTL = 24 * hour"
definition defaultSubsInterval :: int where "defaultSubsInterval = 30 * minute"
definition minSubsInterval :: int where "minSubsInterval = minute"
definition defaultCheckRounds :: int where "defaultCheckRounds = 5"
definition defaultCheckTimeout :: int where "defaultCheckTimeout = 2 * second"
definition defaultCheckTestURL :: string where "defaultCheckTestURL = ''https://www.gstatic.com/generate_204''"
definition defaultCheckStatus :: string where "defaultCheckStatus = ''204''"
definition defaultCheckMaxAvgMs :: int where "defaultCheckMaxAvgMs = 1000"
definition defaultCheckConcurr :: int where "defaultCheckConcurr = 16"
definition defaultBandwidthTestURL :: string where
  "defaultBandwidthTestURL = ''https://speed.cloudflare.com/__down?bytes=2000000''"
definition defaultBandwidthMinMbps :: int where "defaultBandwidthMinMbps = 5"
definition defaultBandwidthTimeout :: int where "defaultBandwidthTimeout = 20 * second"
definition defaultBandwidthConcurr :: int where "defaultBandwidthConcurr = 4"
definition defaultSourceTimeout :: int where "defaultSourceTimeout = 120 * second"
definition defaultDeadCacheTTL :: int where "defaultDeadCacheTTL = 2 * hour"
definition defaultFetchTimeout :: int where "defaultFetchTimeout = 3 * second"
definition defaultGeoBlockTTL :: int where "defaultGeoBlockTTL = 720 * hour"
definition defaultGeoDBRefresh :: int where "defaultGeoDBRefresh = 24 * hour"
definition defaultDBIPURL :: string where
  "defaultDBIPURL = ''https://download.db-ip.com/free/dbip-country-lite-{yyyy-mm}.csv.gz''"
definition defaultGeminiTimeout :: int where "defaultGeminiTimeout = 15 * second"
definition defaultGeminiConcurrency :: int where "defaultGeminiConcurrency = 8"
definition defaultClaudeTimeout :: int where "defaultClaudeTimeout = 15 * second"
definition defaultClaudeConcurrency :: int where "defaultClaudeConcurrency = 8"
definition defaultChatGPTTimeout :: int where "defaultChatGPTTimeout = 15 * second"
definition defaultChatGPTConcurrency :: int where "defaultChatGPTConcurrency = 8"
definition defaultTidalTimeout :: int where "defaultTidalTimeout = 15 * second"
definition defaultTidalConcurrency :: int where "defaultTidalConcurrency = 8"
definition defaultDeeplTimeout :: int where "defaultDeeplTimeout = 15 * second"
definition defaultDeeplConcurrency :: int where "defaultDeeplConcurrency = 8"
definition defaultCloudflareTimeout :: int where "defaultCloudflareTimeout = 15 * second"
definition defaultCloudflareConcurrency :: int where "defaultCloudflareConcurrency = 8"
definition defaultGeminiEndpoint :: string where "defaultGeminiEndpoint = ''https://generativelanguage.googleapis.com''"
definition defaultGeminiModel :: string where "defaultGeminiModel = ''gemini-2.0-flash''"
definition defaultGeminiMarker :: string where "defaultGeminiMarker = ''User location is not supported for the API use''"
definition defaultGeminiKeyVar :: string where "defaultGeminiKeyVar = ''LITELLM_GOOGLE_API_KEY''"
definition defaultGeminiRateLimit :: int where "defaultGeminiRateLimit = 150"
definition defaultClaudeEndpoint :: string where "defaultClaudeEndpoint = ''https://api.anthropic.com''"
definition defaultClaudeMarker :: string where "defaultClaudeMarker = ''Request not allowed''"
definition defaultClaudeVersion :: string where "defaultClaudeVersion = ''2023-06-01''"
definition defaultChatGPTEndpoint :: string where "defaultChatGPTEndpoint = ''https://api.openai.com''"
definition defaultChatGPTMarker :: string where "defaultChatGPTMarker = ''unsupported_country''"
definition defaultTidalEndpoint :: string where "defaultTidalEndpoint = ''https://api.tidal.com''"
definition defaultDeeplEndpoint :: string where "defaultDeeplEndpoint = ''https://www.deepl.com/ru/translator''"

definition defaultRegistryURLs :: "string list" where
  "defaultRegistryURLs =
     [''https://ftp.ripe.net/pub/stats/ripencc/delegated-ripencc-extended-latest'',
      ''https://ftp.lacnic.net/pub/stats/apnic/delegated-apnic-extended-latest'',
      ''https://ftp.arin.net/pub/stats/arin/delegated-arin-extended-latest'',
      ''https://ftp.lacnic.net/pub/stats/lacnic/delegated-lacnic-extended-latest'',
      ''https://ftp.afrinic.net/stats/afrinic/delegated-afrinic-extended-latest'']"

definition throughNodeTypes :: "string list" where
  "throughNodeTypes = [''gemini'', ''claude'', ''chatgpt'', ''tidal'', ''deepl'', ''bandwidth'']"

section \<open>Defaults\<close>

text \<open>The three shapes of a default: for a zero number, an empty text, and a missing pointer.\<close>

definition num_or :: "int \<Rightarrow> int \<Rightarrow> int" where
  "num_or d n = (if n = 0 then d else n)"

definition text_or :: "string \<Rightarrow> string \<Rightarrow> string" where
  "text_or d s = (if s = [] then d else s)"

definition ptr_or :: "int \<Rightarrow> int option \<Rightarrow> int option" where
  "ptr_or d p = (case p of None \<Rightarrow> Some d | Some v \<Rightarrow> Some v)"

definition ptr_nonzero_or :: "int \<Rightarrow> int option \<Rightarrow> int option" where
  "ptr_nonzero_or d p = (case p of None \<Rightarrow> Some d | Some v \<Rightarrow> if v = 0 then Some d else Some v)"

definition geofeed_applyDefaults :: "GeofeedConfig \<Rightarrow> GeofeedConfig" where
  "geofeed_applyDefaults g =
     g\<lparr>gfd_RefreshInterval := ptr_or defaultGeoDBRefresh (gfd_RefreshInterval g),
       gfd_Sources := map (\<lambda>s. s\<lparr>URL := trim_space (URL s)\<rparr>) (gfd_Sources g)\<rparr>"

definition dbip_applyDefaults :: "DBIPConfig \<Rightarrow> DBIPConfig" where
  "dbip_applyDefaults d =
     d\<lparr>dbi_URL := text_or defaultDBIPURL (dbi_URL d),
       dbi_RefreshInterval := ptr_nonzero_or defaultGeoDBRefresh (dbi_RefreshInterval d)\<rparr>"

definition registry_applyDefaults :: "RegistryConfig \<Rightarrow> RegistryConfig" where
  "registry_applyDefaults r =
     r\<lparr>reg_URLs := (if reg_URLs r = [] then defaultRegistryURLs else reg_URLs r),
       reg_RefreshInterval := ptr_nonzero_or defaultGeoDBRefresh (reg_RefreshInterval r)\<rparr>"

definition cloudflare_applyDefaults :: "CloudflareConfig \<Rightarrow> CloudflareConfig" where
  "cloudflare_applyDefaults c =
     c\<lparr>cfl_Timeout := num_or defaultCloudflareTimeout (cfl_Timeout c),
       cfl_Concurrency := num_or defaultCloudflareConcurrency (cfl_Concurrency c)\<rparr>"

definition geo_applyDefaults :: "GeoConfig \<Rightarrow> GeoConfig" where
  "geo_applyDefaults g =
     g\<lparr>geo_ASN := (geo_ASN g)\<lparr>asn_Timeout := num_or defaultTimeout (asn_Timeout (geo_ASN g)),
                              asn_CacheTTL := num_or defaultASNCacheTTL (asn_CacheTTL (geo_ASN g))\<rparr>,
       geo_Geofeed := geofeed_applyDefaults (geo_Geofeed g),
       geo_DBIP := dbip_applyDefaults (geo_DBIP g),
       geo_Registry := registry_applyDefaults (geo_Registry g),
       geo_Cloudflare := cloudflare_applyDefaults (geo_Cloudflare g)\<rparr>"

definition applyGeminiDefaults :: "GeminiConfig \<Rightarrow> GeminiConfig" where
  "applyGeminiDefaults gm =
     gm\<lparr>gem_Endpoint := text_or defaultGeminiEndpoint (gem_Endpoint gm),
        gem_Model := text_or defaultGeminiModel (gem_Model gm),
        gem_Marker := text_or defaultGeminiMarker (gem_Marker gm),
        gem_KeyVar := text_or defaultGeminiKeyVar (gem_KeyVar gm),
        gem_Timeout := num_or defaultGeminiTimeout (gem_Timeout gm),
        gem_Concurrency := num_or defaultGeminiConcurrency (gem_Concurrency gm),
        gem_RateLimit := num_or defaultGeminiRateLimit (gem_RateLimit gm)\<rparr>"

definition applyClaudeDefaults :: "ClaudeConfig \<Rightarrow> ClaudeConfig" where
  "applyClaudeDefaults cl =
     cl\<lparr>cla_Endpoint := text_or defaultClaudeEndpoint (cla_Endpoint cl),
        cla_Marker := text_or defaultClaudeMarker (cla_Marker cl),
        cla_Version := text_or defaultClaudeVersion (cla_Version cl),
        cla_Timeout := num_or defaultClaudeTimeout (cla_Timeout cl),
        cla_Concurrency := num_or defaultClaudeConcurrency (cla_Concurrency cl)\<rparr>"

definition applyChatGPTDefaults :: "ChatGPTConfig \<Rightarrow> ChatGPTConfig" where
  "applyChatGPTDefaults cg =
     cg\<lparr>gpt_Endpoint := text_or defaultChatGPTEndpoint (gpt_Endpoint cg),
        gpt_Marker := text_or defaultChatGPTMarker (gpt_Marker cg),
        gpt_Timeout := num_or defaultChatGPTTimeout (gpt_Timeout cg),
        gpt_Concurrency := num_or defaultChatGPTConcurrency (gpt_Concurrency cg)\<rparr>"

definition applyTidalDefaults :: "TidalConfig \<Rightarrow> TidalConfig" where
  "applyTidalDefaults td =
     td\<lparr>tid_Endpoint := text_or defaultTidalEndpoint (tid_Endpoint td),
        tid_Timeout := num_or defaultTidalTimeout (tid_Timeout td),
        tid_Concurrency := num_or defaultTidalConcurrency (tid_Concurrency td)\<rparr>"

definition applyDeeplDefaults :: "DeeplConfig \<Rightarrow> DeeplConfig" where
  "applyDeeplDefaults dl =
     dl\<lparr>dpl_Endpoint := text_or defaultDeeplEndpoint (dpl_Endpoint dl),
        dpl_Timeout := num_or defaultDeeplTimeout (dpl_Timeout dl),
        dpl_Concurrency := num_or defaultDeeplConcurrency (dpl_Concurrency dl)\<rparr>"

definition geoblock_applyDefaults :: "GeoBlockConfig \<Rightarrow> GeoBlockConfig" where
  "geoblock_applyDefaults g =
     g\<lparr>gbk_TTL := num_or defaultGeoBlockTTL (gbk_TTL g),
       gbk_Gemini := applyGeminiDefaults (gbk_Gemini g),
       gbk_Claude := applyClaudeDefaults (gbk_Claude g),
       gbk_ChatGPT := applyChatGPTDefaults (gbk_ChatGPT g),
       gbk_Tidal := applyTidalDefaults (gbk_Tidal g),
       gbk_Deepl := applyDeeplDefaults (gbk_Deepl g)\<rparr>"

definition subscriptions_applyDefaults :: "SubscriptionsConfig \<Rightarrow> SubscriptionsConfig" where
  "subscriptions_applyDefaults s =
     s\<lparr>sub_Interval := num_or defaultSubsInterval (sub_Interval s),
       sub_Check := (sub_Check s)
         \<lparr>chk_Rounds := num_or defaultCheckRounds (chk_Rounds (sub_Check s)),
          chk_Timeout := num_or defaultCheckTimeout (chk_Timeout (sub_Check s)),
          chk_TestURL := text_or defaultCheckTestURL (chk_TestURL (sub_Check s)),
          chk_ExpectedStatus := text_or defaultCheckStatus (chk_ExpectedStatus (sub_Check s)),
          chk_SourceTimeout := num_or defaultSourceTimeout (chk_SourceTimeout (sub_Check s)),
          chk_MaxAvgMs := num_or defaultCheckMaxAvgMs (chk_MaxAvgMs (sub_Check s)),
          chk_Concurrency := num_or defaultCheckConcurr (chk_Concurrency (sub_Check s))\<rparr>\<rparr>"

definition applyCIDRDefaults :: "FilterConfig \<Rightarrow> FilterConfig" where
  "applyCIDRDefaults f =
     f\<lparr>flt_FileType := text_or ''raw'' (flt_FileType f),
       flt_RefreshInterval := ptr_nonzero_or defaultGeoDBRefresh (flt_RefreshInterval f)\<rparr>"

definition applyBandwidthDefaults :: "FilterConfig \<Rightarrow> FilterConfig" where
  "applyBandwidthDefaults f =
     f\<lparr>flt_TestURL := text_or defaultBandwidthTestURL (flt_TestURL f),
       flt_MinMbps := ptr_or defaultBandwidthMinMbps (flt_MinMbps f),
       flt_Timeout := num_or defaultBandwidthTimeout (flt_Timeout f),
       flt_Concurrency := num_or defaultBandwidthConcurr (flt_Concurrency f)\<rparr>"

definition applyAnnotateDefaults :: "AnnotateSpec \<Rightarrow> AnnotateSpec" where
  "applyAnnotateDefaults a =
     (if Providers a = [] \<and> Tag a = ''GEO'' then a\<lparr>Providers := [''geofeed'']\<rparr> else a)"

definition filter_defaults :: "FilterConfig \<Rightarrow> FilterConfig" where
  "filter_defaults f =
     (if flt_Type f = ''country'' then f\<lparr>flt_Provider := text_or ''geofeed'' (flt_Provider f)\<rparr>
      else if flt_Type f = ''cidr'' then applyCIDRDefaults f
      else if flt_Type f = ''bandwidth'' then applyBandwidthDefaults f
      else f)"

definition applyFilterDefaults :: "Config \<Rightarrow> Config" where
  "applyFilterDefaults cfg =
     cfg\<lparr>cfg_Filters := map filter_defaults (cfg_Filters cfg),
         cfg_Annotate := map applyAnnotateDefaults (cfg_Annotate cfg)\<rparr>"

text \<open>The defaults of \<^verbatim>\<open>Load\<close>, in its order.\<close>

definition load_defaults :: "Config \<Rightarrow> Config" where
  "load_defaults cfg =
     (let cfg1 = cfg\<lparr>cfg_LogLevel := text_or ''info'' (cfg_LogLevel cfg),
                     cfg_Listen := text_or '':8080'' (cfg_Listen cfg),
                     cfg_MetricsListen := text_or '':9090'' (cfg_MetricsListen cfg),
                     cfg_Resolver := (cfg_Resolver cfg)
                       \<lparr>rsv_Timeout := num_or defaultTimeout (rsv_Timeout (cfg_Resolver cfg)),
                        rsv_CacheTTL := ptr_or defaultDNSCacheTTL (rsv_CacheTTL (cfg_Resolver cfg)),
                        rsv_CacheNegativeTTL := ptr_or defaultDNSNegativeCache (rsv_CacheNegativeTTL (cfg_Resolver cfg))\<rparr>,
                     cfg_Geo := geo_applyDefaults (cfg_Geo cfg)\<rparr>;
          cfg2 = applyFilterDefaults cfg1
      in cfg2\<lparr>cfg_Subscriptions := subscriptions_applyDefaults (cfg_Subscriptions cfg2),
              cfg_GeoBlock := geoblock_applyDefaults (cfg_GeoBlock cfg2),
              cfg_DeadCacheTTL := ptr_or defaultDeadCacheTTL (cfg_DeadCacheTTL cfg2),
              cfg_FetchTimeout := num_or defaultFetchTimeout (cfg_FetchTimeout cfg2)\<rparr>)"


section \<open>What the components read\<close>

text \<open>The specification of an IP filter as the configuration gives it.\<close>

record IPSpec =
  ips_Type :: string
  ips_Provider :: string
  ips_DenyPatterns :: "string list"
  ips_URLs :: "string list"
  ips_FileType :: string
  ips_RefreshInterval :: int

definition flt_refreshInterval :: "FilterConfig \<Rightarrow> int" where
  "flt_refreshInterval f = (case flt_RefreshInterval f of None \<Rightarrow> 0 | Some d \<Rightarrow> d)"

definition ip_filter_spec :: "FilterConfig \<Rightarrow> IPSpec option" where
  "ip_filter_spec f =
     (if flt_Type f = ''country'' then
        Some \<lparr>ips_Type = ''country'', ips_Provider = flt_Provider f, ips_DenyPatterns = [], ips_URLs = [],
              ips_FileType = [], ips_RefreshInterval = 0\<rparr>
      else if flt_Type f = ''asn'' then
        Some \<lparr>ips_Type = ''asn'', ips_Provider = ''asn'', ips_DenyPatterns = flt_DenyPatterns f, ips_URLs = [],
              ips_FileType = [], ips_RefreshInterval = 0\<rparr>
      else if flt_Type f = ''cidr'' then
        Some \<lparr>ips_Type = ''cidr'', ips_Provider = [], ips_DenyPatterns = [], ips_URLs = flt_URLs f,
              ips_FileType = flt_FileType f, ips_RefreshInterval = flt_refreshInterval f\<rparr>
      else None)"

definition IPFilterSpecs :: "Config \<Rightarrow> IPSpec list" where
  "IPFilterSpecs cfg = List.map_filter ip_filter_spec (cfg_Filters cfg)"

definition cidrSpecs :: "Config \<Rightarrow> IPSpec list" where
  "cidrSpecs cfg = filter (\<lambda>s. ips_Type s = ''cidr'') (IPFilterSpecs cfg)"

definition group_codes :: "Config \<Rightarrow> string \<Rightarrow> string list" where
  "group_codes cfg g = (case map_of (cfg_Groups cfg) g of None \<Rightarrow> [] | Some codes \<Rightarrow> codes)"

definition deny_codes :: "CountrySet \<Rightarrow> string list \<Rightarrow> CountrySet" where
  "deny_codes denied codes = foldl (\<lambda>cs code. fst (Add cs code)) denied codes"

definition deny_filter :: "Config \<Rightarrow> CountrySet \<Rightarrow> FilterConfig \<Rightarrow> CountrySet" where
  "deny_filter cfg denied f =
     (if flt_Type f \<noteq> ''country'' then denied
      else foldl (\<lambda>cs g. deny_codes cs (group_codes cfg g)) (deny_codes denied (flt_ExcludeCountries f)) (flt_ExcludeGroups f))"

definition DeniedCountries :: "Config \<Rightarrow> CountrySet" where
  "DeniedCountries cfg = foldl (deny_filter cfg) zero_set (cfg_Filters cfg)"

definition AnnotateUsesProvider :: "Config \<Rightarrow> string \<Rightarrow> bool" where
  "AnnotateUsesProvider cfg name = list_ex (\<lambda>a. name \<in> set (Providers a)) (cfg_Annotate cfg)"

definition SubscriptionsEnabled :: "Config \<Rightarrow> bool" where
  "SubscriptionsEnabled cfg = (length (sub_Sources (cfg_Subscriptions cfg)) > 0)"

section \<open>Per-entry overrides\<close>

definition mergedGemini :: "FilterConfig \<Rightarrow> GeminiConfig \<Rightarrow> GeminiConfig" where
  "mergedGemini f base =
     base\<lparr>gem_Endpoint := text_or (gem_Endpoint base) (flt_Endpoint f),
          gem_Model := text_or (gem_Model base) (flt_Model f),
          gem_Marker := text_or (gem_Marker base) (flt_Marker f),
          gem_APIKey := text_or (gem_APIKey base) (flt_APIKey f),
          gem_KeyFile := text_or (gem_KeyFile base) (flt_KeyFile f),
          gem_KeyVar := text_or (gem_KeyVar base) (flt_KeyVar f),
          gem_Timeout := num_or (gem_Timeout base) (flt_Timeout f),
          gem_Concurrency := num_or (gem_Concurrency base) (flt_Concurrency f),
          gem_RateLimit := (if flt_RateLimit f > 0 then flt_RateLimit f else gem_RateLimit base)\<rparr>"

definition mergedClaude :: "FilterConfig \<Rightarrow> ClaudeConfig \<Rightarrow> ClaudeConfig" where
  "mergedClaude f base =
     base\<lparr>cla_Endpoint := text_or (cla_Endpoint base) (flt_Endpoint f),
          cla_Marker := text_or (cla_Marker base) (flt_Marker f),
          cla_Version := text_or (cla_Version base) (flt_Version f),
          cla_Timeout := num_or (cla_Timeout base) (flt_Timeout f),
          cla_Concurrency := num_or (cla_Concurrency base) (flt_Concurrency f)\<rparr>"

definition mergedChatGPT :: "FilterConfig \<Rightarrow> ChatGPTConfig \<Rightarrow> ChatGPTConfig" where
  "mergedChatGPT f base =
     base\<lparr>gpt_Endpoint := text_or (gpt_Endpoint base) (flt_Endpoint f),
          gpt_Marker := text_or (gpt_Marker base) (flt_Marker f),
          gpt_Timeout := num_or (gpt_Timeout base) (flt_Timeout f),
          gpt_Concurrency := num_or (gpt_Concurrency base) (flt_Concurrency f)\<rparr>"

definition mergedTidal :: "FilterConfig \<Rightarrow> TidalConfig \<Rightarrow> TidalConfig" where
  "mergedTidal f base =
     base\<lparr>tid_Endpoint := text_or (tid_Endpoint base) (flt_Endpoint f),
          tid_Timeout := num_or (tid_Timeout base) (flt_Timeout f),
          tid_Concurrency := num_or (tid_Concurrency base) (flt_Concurrency f)\<rparr>"

definition mergedDeepl :: "FilterConfig \<Rightarrow> DeeplConfig \<Rightarrow> DeeplConfig" where
  "mergedDeepl f base =
     base\<lparr>dpl_Endpoint := text_or (dpl_Endpoint base) (flt_Endpoint f),
          dpl_Timeout := num_or (dpl_Timeout base) (flt_Timeout f),
          dpl_Concurrency := num_or (dpl_Concurrency base) (flt_Concurrency f)\<rparr>"

definition bandwidthConfig :: "FilterConfig \<Rightarrow> BandwidthConfig" where
  "bandwidthConfig f =
     \<lparr>bwd_TestURL = flt_TestURL f, bwd_MinMbps = flt_MinMbps f, bwd_Timeout = flt_Timeout f,
      bwd_Concurrency = flt_Concurrency f\<rparr>"

text \<open>A node filter's type with the settings of that type; the zero values of the others are left out.\<close>

datatype NodeFilterSpec =
    GeminiSpec GeminiConfig
  | ClaudeSpec ClaudeConfig
  | ChatGPTSpec ChatGPTConfig
  | TidalSpec TidalConfig
  | DeeplSpec DeeplConfig
  | BandwidthSpec BandwidthConfig

fun nodespec_Type :: "NodeFilterSpec \<Rightarrow> string" where
  "nodespec_Type (GeminiSpec c) = ''gemini''"
| "nodespec_Type (ClaudeSpec c) = ''claude''"
| "nodespec_Type (ChatGPTSpec c) = ''chatgpt''"
| "nodespec_Type (TidalSpec c) = ''tidal''"
| "nodespec_Type (DeeplSpec c) = ''deepl''"
| "nodespec_Type (BandwidthSpec c) = ''bandwidth''"

definition node_filter_spec :: "GeoBlockConfig \<Rightarrow> FilterConfig \<Rightarrow> NodeFilterSpec option" where
  "node_filter_spec gb f =
     (if flt_Type f = ''gemini'' then Some (GeminiSpec (mergedGemini f (gbk_Gemini gb)))
      else if flt_Type f = ''claude'' then Some (ClaudeSpec (mergedClaude f (gbk_Claude gb)))
      else if flt_Type f = ''chatgpt'' then Some (ChatGPTSpec (mergedChatGPT f (gbk_ChatGPT gb)))
      else if flt_Type f = ''tidal'' then Some (TidalSpec (mergedTidal f (gbk_Tidal gb)))
      else if flt_Type f = ''deepl'' then Some (DeeplSpec (mergedDeepl f (gbk_Deepl gb)))
      else if flt_Type f = ''bandwidth'' then Some (BandwidthSpec (bandwidthConfig f))
      else None)"

definition NodeFilterSpecs :: "Config \<Rightarrow> NodeFilterSpec list" where
  "NodeFilterSpecs cfg = List.map_filter (node_filter_spec (cfg_GeoBlock cfg)) (cfg_Filters cfg)"

section \<open>The Gemini key\<close>

datatype key_error = KeyFileUnreadable | KeyVarMissing

fun key_in_lines :: "string \<Rightarrow> string list \<Rightarrow> string option" where
  "key_in_lines pre [] = None"
| "key_in_lines pre (l # ls) =
     (let t = trim_space l
      in if has_prefix pre t then Some (trim_space (drop (length pre) t)) else key_in_lines pre ls)"

definition APIKeyResolved :: "(string \<Rightarrow> string option) \<Rightarrow> GeminiConfig \<Rightarrow> key_error + string" where
  "APIKeyResolved ReadFile g =
     (if gem_APIKey g \<noteq> [] then Inr (gem_APIKey g)
      else if gem_KeyFile g = [] then Inr []
      else case ReadFile (gem_KeyFile g) of
        None \<Rightarrow> Inl KeyFileUnreadable
      | Some b \<Rightarrow>
          (case key_in_lines (gem_KeyVar g @ ''='') (split_byte newline b) of
             Some key \<Rightarrow> Inr key
           | None \<Rightarrow> Inl KeyVarMissing))"

section \<open>What a reload compares\<close>

definition SubscriptionsChanged :: "Config \<Rightarrow> Config \<Rightarrow> bool" where
  "SubscriptionsChanged old new =
     ((cfg_Subscriptions old)\<lparr>sub_SnapshotPath := []\<rparr> \<noteq> (cfg_Subscriptions new)\<lparr>sub_SnapshotPath := []\<rparr>)"

text \<open>\<^verbatim>\<open>DeepEqual\<close> of the groups: two maps, so the order of their entries does not count.\<close>

definition GroupsChanged :: "Config \<Rightarrow> Config \<Rightarrow> bool" where
  "GroupsChanged old new =
     (\<not> list_all (\<lambda>g. map_of (cfg_Groups old) g = map_of (cfg_Groups new) g)
        (map fst (cfg_Groups old) @ map fst (cfg_Groups new)))"

definition FiltersChanged :: "Config \<Rightarrow> Config \<Rightarrow> bool" where
  "FiltersChanged old new = (cfg_Filters old \<noteq> cfg_Filters new)"

definition CIDRFiltersChanged :: "Config \<Rightarrow> Config \<Rightarrow> bool" where
  "CIDRFiltersChanged old new = (cidrSpecs old \<noteq> cidrSpecs new)"

definition ProberChanged :: "Config \<Rightarrow> Config \<Rightarrow> bool" where
  "ProberChanged old new =
     (gbk_Gemini (cfg_GeoBlock old) \<noteq> gbk_Gemini (cfg_GeoBlock new) \<or>
      gbk_Claude (cfg_GeoBlock old) \<noteq> gbk_Claude (cfg_GeoBlock new) \<or>
      gbk_ChatGPT (cfg_GeoBlock old) \<noteq> gbk_ChatGPT (cfg_GeoBlock new) \<or>
      gbk_Tidal (cfg_GeoBlock old) \<noteq> gbk_Tidal (cfg_GeoBlock new) \<or>
      gbk_Deepl (cfg_GeoBlock old) \<noteq> gbk_Deepl (cfg_GeoBlock new) \<or>
      geo_Cloudflare (cfg_Geo old) \<noteq> geo_Cloudflare (cfg_Geo new))"

definition StoresChanged :: "Config \<Rightarrow> Config \<Rightarrow> bool" where
  "StoresChanged old new =
     (gbk_DBPath (cfg_GeoBlock old) \<noteq> gbk_DBPath (cfg_GeoBlock new) \<or>
      gbk_TTL (cfg_GeoBlock old) \<noteq> gbk_TTL (cfg_GeoBlock new) \<or>
      sub_SnapshotPath (cfg_Subscriptions old) \<noteq> sub_SnapshotPath (cfg_Subscriptions new) \<or>
      cfg_DeadCacheTTL old \<noteq> cfg_DeadCacheTTL new)"

definition AnnotateChanged :: "Config \<Rightarrow> Config \<Rightarrow> bool" where
  "AnnotateChanged old new = (cfg_Annotate old \<noteq> cfg_Annotate new)"

definition config_Equal :: "Config \<Rightarrow> Config \<Rightarrow> bool" where
  "config_Equal a b = (a\<lparr>cfg_Groups := []\<rparr> = b\<lparr>cfg_Groups := []\<rparr> \<and> \<not> GroupsChanged a b)"

definition GeofeedSourcesChanged :: "Config \<Rightarrow> Config \<Rightarrow> bool" where
  "GeofeedSourcesChanged old new = (gfd_Sources (geo_Geofeed (cfg_Geo old)) \<noteq> gfd_Sources (geo_Geofeed (cfg_Geo new)))"

definition DBIPChanged :: "Config \<Rightarrow> Config \<Rightarrow> bool" where
  "DBIPChanged old new = (geo_DBIP (cfg_Geo old) \<noteq> geo_DBIP (cfg_Geo new))"

definition RegistryChanged :: "Config \<Rightarrow> Config \<Rightarrow> bool" where
  "RegistryChanged old new = (geo_Registry (cfg_Geo old) \<noteq> geo_Registry (cfg_Geo new))"

definition ResolverChanged :: "Config \<Rightarrow> Config \<Rightarrow> bool" where
  "ResolverChanged old new = (cfg_Resolver old \<noteq> cfg_Resolver new)"

definition ASNChanged :: "Config \<Rightarrow> Config \<Rightarrow> bool" where
  "ASNChanged old new = (geo_ASN (cfg_Geo old) \<noteq> geo_ASN (cfg_Geo new))"

definition ListenChanged :: "Config \<Rightarrow> Config \<Rightarrow> bool" where
  "ListenChanged old new = (cfg_Listen old \<noteq> cfg_Listen new)"

definition MetricsListenChanged :: "Config \<Rightarrow> Config \<Rightarrow> bool" where
  "MetricsListenChanged old new = (cfg_MetricsListen old \<noteq> cfg_MetricsListen new)"

lemma groups_unchanged: "\<not> GroupsChanged old new \<Longrightarrow> map_of (cfg_Groups old) = map_of (cfg_Groups new)"
proof
  fix g
  assume u: "\<not> GroupsChanged old new"
  show "map_of (cfg_Groups old) g = map_of (cfg_Groups new) g"
  proof (cases "g \<in> fst ` set (cfg_Groups old) \<union> fst ` set (cfg_Groups new)")
    case True
    then show ?thesis using u by (auto simp: GroupsChanged_def list_all_iff)
  next
    case False
    then have "map_of (cfg_Groups old) g = None" "map_of (cfg_Groups new) g = None"
      by (simp_all add: map_of_eq_None_iff)
    then show ?thesis by simp
  qed
qed

section \<open>The denied set\<close>

lemma deny_codes_spec:
  assumes "set_ok s"
  shows "set_ok (deny_codes s codes)"
    and "Has (deny_codes s codes) c \<longleftrightarrow> Has s c \<or> (\<exists>x \<in> set codes. part_code x = Some c)"
  using foldl_Add [OF assms, of codes] by (auto simp: deny_codes_def)

lemma deny_groups_spec:
  assumes "set_ok s"
  shows "set_ok (foldl (\<lambda>cs g. deny_codes cs (group_codes cfg g)) s gs) \<and>
    (Has (foldl (\<lambda>cs g. deny_codes cs (group_codes cfg g)) s gs) c \<longleftrightarrow>
       Has s c \<or> (\<exists>x \<in> (\<Union>g \<in> set gs. set (group_codes cfg g)). part_code x = Some c))"
  using assms by (induction gs arbitrary: s) (auto simp: deny_codes_spec)

text \<open>The codes a country filter lists, directly and through its groups.\<close>

definition listed_codes :: "Config \<Rightarrow> FilterConfig \<Rightarrow> string set" where
  "listed_codes cfg f =
     (if flt_Type f = ''country''
      then set (flt_ExcludeCountries f) \<union> (\<Union>g \<in> set (flt_ExcludeGroups f). set (group_codes cfg g)) else {})"

lemma deny_filter_spec:
  assumes "set_ok s"
  shows "set_ok (deny_filter cfg s f) \<and>
    (Has (deny_filter cfg s f) c \<longleftrightarrow> Has s c \<or> (\<exists>x \<in> listed_codes cfg f. part_code x = Some c))"
  using assms deny_groups_spec [OF deny_codes_spec(1) [OF assms]]
  by (auto simp: deny_filter_def listed_codes_def deny_codes_spec)

lemma DeniedCountries_spec:
  "set_ok (DeniedCountries cfg) \<and>
   (Has (DeniedCountries cfg) c \<longleftrightarrow> (\<exists>f \<in> set (cfg_Filters cfg). (\<exists>x \<in> listed_codes cfg f. part_code x = Some c)))"
proof -
  have "set_ok (foldl (deny_filter cfg) s fs) \<and>
     (Has (foldl (deny_filter cfg) s fs) c \<longleftrightarrow> Has s c \<or> (\<exists>f \<in> set fs. (\<exists>x \<in> listed_codes cfg f. part_code x = Some c)))"
    if "set_ok s" for s fs
    using that by (induction fs arbitrary: s) (auto simp: deny_filter_spec)
  then show ?thesis using set_ok_zero by (simp add: DeniedCountries_def)
qed

section \<open>Defaults settle in one pass\<close>

lemma or_idem [simp]:
  "num_or d (num_or d n) = num_or d n" "text_or t (text_or t s) = text_or t s"
  "ptr_or d (ptr_or d p) = ptr_or d p" "ptr_nonzero_or d (ptr_nonzero_or d p) = ptr_nonzero_or d p"
  by (auto simp: num_or_def text_or_def ptr_or_def ptr_nonzero_or_def split: option.splits)

end
