(* ===== verification/HttpGuard.thy ===== *)
theory HttpGuard
  imports HostPort Words Lines
begin

text \<open>
  \<^verbatim>\<open>internal/fetch/fetch.go\<close>, the guarding half: which urls and addresses a download may reach. An
  address is public unless a class of \<^verbatim>\<open>net/netip\<close> or a reserved prefix claims it; a url is accepted
  when it is https with a host, without userinfo, and its host is not a literal of a non-public
  address in any spelling; the dialer of the guarded client connects to public addresses only.
  \<^verbatim>\<open>url.Parse\<close>, the resolver and the dialer are parameters.
\<close>

unbundle bit_operations_syntax

section \<open>Address classes of net/netip\<close>

fun IsLoopback :: "addr \<Rightarrow> bool" where
  "IsLoopback (V4 w) \<longleftrightarrow> drop_bit 24 w = 127"
| "IsLoopback (V6 h l z) \<longleftrightarrow> h = 0 \<and> l = 1"
| "IsLoopback NoAddr \<longleftrightarrow> False"

fun IsPrivate :: "addr \<Rightarrow> bool" where
  "IsPrivate (V4 w) \<longleftrightarrow>
     drop_bit 24 w = 10 \<or> drop_bit 20 w = 0xAC1 \<or> drop_bit 16 w = 0xC0A8"
| "IsPrivate (V6 h l z) \<longleftrightarrow> drop_bit 57 h = 0x7E"
| "IsPrivate NoAddr \<longleftrightarrow> False"

fun IsMulticast :: "addr \<Rightarrow> bool" where
  "IsMulticast (V4 w) \<longleftrightarrow> drop_bit 28 w = 0xE"
| "IsMulticast (V6 h l z) \<longleftrightarrow> drop_bit 56 h = 0xFF"
| "IsMulticast NoAddr \<longleftrightarrow> False"

fun IsLinkLocalUnicast :: "addr \<Rightarrow> bool" where
  "IsLinkLocalUnicast (V4 w) \<longleftrightarrow> drop_bit 16 w = 0xA9FE"
| "IsLinkLocalUnicast (V6 h l z) \<longleftrightarrow> drop_bit 54 h = 0x3FA"
| "IsLinkLocalUnicast NoAddr \<longleftrightarrow> False"

fun IsLinkLocalMulticast :: "addr \<Rightarrow> bool" where
  "IsLinkLocalMulticast (V4 w) \<longleftrightarrow> drop_bit 8 w = 0xE00000"
| "IsLinkLocalMulticast (V6 h l z) \<longleftrightarrow> drop_bit 48 h AND 0xFF0F = 0xFF02"
| "IsLinkLocalMulticast NoAddr \<longleftrightarrow> False"

definition IsUnspecified :: "addr \<Rightarrow> bool" where
  "IsUnspecified a \<longleftrightarrow> a = V4 0 \<or> a = V6 0 0 []"

text \<open>\<^verbatim>\<open>Prefix.Contains\<close>: an address with a zone is in no prefix.\<close>

definition prefix_Contains :: "prefix \<Rightarrow> addr \<Rightarrow> bool" where
  "prefix_Contains p ip =
     (case (paddr p, ip) of
        (V4 a, V4 w) \<Rightarrow> (w XOR a) AND mask32 (pbits p) = 0
      | (V6 ah al az, V6 h l z) \<Rightarrow>
          z = [] \<and> (h XOR ah) AND mask_hi (pbits p) = 0 \<and> (l XOR al) AND mask_lo (pbits p) = 0
      | _ \<Rightarrow> False)"

section \<open>Public addresses\<close>

definition reservedPrefixes :: "prefix list" where
  "reservedPrefixes = map (\<lambda>s. the (ParsePrefix s))
     [''100.64.0.0/10'', ''192.0.0.0/24'', ''198.18.0.0/15'', ''240.0.0.0/4'',
      ''::/96'', ''64:ff9b::/96'', ''64:ff9b:1::/48'', ''100::/64'', ''2001::/32'',
      ''2001:db8::/32'', ''2002::/16'', ''fec0::/10'']"

definition isPublicIP :: "addr \<Rightarrow> bool" where
  "isPublicIP ip0 =
     (let ip = Unmap ip0
      in if \<not> IsValid ip then False
         else if IsLoopback ip \<or> IsPrivate ip \<or> IsMulticast ip \<or> IsLinkLocalUnicast ip \<or>
                 IsLinkLocalMulticast ip \<or> IsUnspecified ip then False
         else \<not> list_ex (\<lambda>p. prefix_Contains p ip) reservedPrefixes)"

lemma reservedPrefixes_values:
  "reservedPrefixes =
     [\<lparr>paddr = V4 0x64400000, pbits = 10\<rparr>, \<lparr>paddr = V4 0xC0000000, pbits = 24\<rparr>,
      \<lparr>paddr = V4 0xC6120000, pbits = 15\<rparr>, \<lparr>paddr = V4 0xF0000000, pbits = 4\<rparr>,
      \<lparr>paddr = V6 0 0 [], pbits = 96\<rparr>, \<lparr>paddr = V6 0x0064FF9B00000000 0 [], pbits = 96\<rparr>,
      \<lparr>paddr = V6 0x0064FF9B00010000 0 [], pbits = 48\<rparr>, \<lparr>paddr = V6 0x0100000000000000 0 [], pbits = 64\<rparr>,
      \<lparr>paddr = V6 0x2001000000000000 0 [], pbits = 32\<rparr>, \<lparr>paddr = V6 0x20010DB800000000 0 [], pbits = 32\<rparr>,
      \<lparr>paddr = V6 0x2002000000000000 0 [], pbits = 16\<rparr>, \<lparr>paddr = V6 0xFEC0000000000000 0 [], pbits = 10\<rparr>]"
  by (simp add: reservedPrefixes_def model_defs)


lemma xor_mask_zero: "((w :: 'a::len word) XOR a) AND push_bit k (- 1) = 0 \<longleftrightarrow> drop_bit k w = drop_bit k a"
proof
  assume l: "(w XOR a) AND push_bit k (- 1) = 0"
  have "bit w (k + n) = bit a (k + n)" if "k + n < LENGTH('a)" for n
    using l that by (auto simp: bit_eq_iff bit_simps dest: spec [of _ "k + n"])
  then show "drop_bit k w = drop_bit k a"
    by (auto simp: bit_eq_iff bit_simps) (metis bit_imp_le_length)+
next
  assume r: "drop_bit k w = drop_bit k a"
  have "bit w n = bit a n" if "k \<le> n" for n
    using arg_cong [OF r, of "\<lambda>x. bit x (n - k)"] that by (simp add: bit_simps)
  then show "(w XOR a) AND push_bit k (- 1) = 0"
    by (auto simp: bit_eq_iff bit_simps)
qed

lemmas xor_not_mask_zero = xor_mask_zero [unfolded push_bit_top]

lemma drop_bit_range:
  "drop_bit k (w :: 'a::len word) = c \<longleftrightarrow> unat c * 2 ^ k \<le> unat w \<and> unat w \<le> unat c * 2 ^ k + 2 ^ k - 1"
proof -
  have "n div 2 ^ k = m \<longleftrightarrow> m * 2 ^ k \<le> n \<and> n \<le> m * 2 ^ k + 2 ^ k - 1" for n m :: nat
  proof
    assume "n div 2 ^ k = m"
    then have "n = m * 2 ^ k + n mod 2 ^ k" using div_mult_mod_eq [of n "2 ^ k"] by simp
    then show "m * 2 ^ k \<le> n \<and> n \<le> m * 2 ^ k + 2 ^ k - 1"
      using mod_less_divisor [of "2 ^ k" n] zero_less_power [of "2 :: nat" k] by (intro conjI) linarith+
  next
    assume "m * 2 ^ k \<le> n \<and> n \<le> m * 2 ^ k + 2 ^ k - 1"
    moreover have "0 < (2::nat) ^ k" by simp
    ultimately have "m * 2 ^ k \<le> n" "n < m * 2 ^ k + 2 ^ k" by linarith+
    then show "n div 2 ^ k = m" by (intro div_nat_eqI) (simp_all add: mult.commute)
  qed
  then show ?thesis
    by (simp only: word_unat_eq_iff unat_drop_bit_eq drop_bit_eq_div [of k "unat w"])
qed

text \<open>The IPv4 ranges no download may reach, as first and last address.\<close>

definition v4_forbidden :: "(nat \<times> nat) list" where
  "v4_forbidden =
     [(0, 0), (0x0A000000, 0x0AFFFFFF), (0x64400000, 0x647FFFFF), (0x7F000000, 0x7FFFFFFF),
      (0xA9FE0000, 0xA9FEFFFF), (0xAC100000, 0xAC1FFFFF), (0xC0000000, 0xC00000FF),
      (0xC0A80000, 0xC0A8FFFF), (0xC6120000, 0xC613FFFF), (0xE0000000, 0xFFFFFFFF)]"

lemma isPublicIP_V4:
  "isPublicIP (V4 w) \<longleftrightarrow> \<not> list_ex (\<lambda>(lo, hi). lo \<le> unat w \<and> unat w \<le> hi) v4_forbidden"
proof -
  define n where "n = unat w"
  have b: "n \<le> 0xFFFFFFFF" using unat_bound [of w] by (simp add: n_def)
  have z: "V4 w = V4 0 \<longleftrightarrow> n = 0" by (simp add: n_def unat_eq_0)
  have res: "list_ex (\<lambda>p. prefix_Contains p (V4 w)) reservedPrefixes \<longleftrightarrow>
     0x64400000 \<le> n \<and> n \<le> 0x647FFFFF \<or> 0xC0000000 \<le> n \<and> n \<le> 0xC00000FF \<or>
     0xC6120000 \<le> n \<and> n \<le> 0xC613FFFF \<or> 0xF0000000 \<le> n \<and> n \<le> 0xFFFFFFFF"
    by (simp add: reservedPrefixes_values prefix_Contains_def mask32_def xor_not_mask_zero drop_bit_range n_def)
  have cls: "IsLoopback (V4 w) \<longleftrightarrow> 0x7F000000 \<le> n \<and> n \<le> 0x7FFFFFFF"
    "IsPrivate (V4 w) \<longleftrightarrow> 0x0A000000 \<le> n \<and> n \<le> 0x0AFFFFFF \<or> 0xAC100000 \<le> n \<and> n \<le> 0xAC1FFFFF \<or> 0xC0A80000 \<le> n \<and> n \<le> 0xC0A8FFFF"
    "IsMulticast (V4 w) \<longleftrightarrow> 0xE0000000 \<le> n \<and> n \<le> 0xEFFFFFFF"
    "IsLinkLocalUnicast (V4 w) \<longleftrightarrow> 0xA9FE0000 \<le> n \<and> n \<le> 0xA9FEFFFF"
    "IsLinkLocalMulticast (V4 w) \<longleftrightarrow> 0xE0000000 \<le> n \<and> n \<le> 0xE00000FF"
    by (simp_all add: drop_bit_range n_def)
  have "0xE0000000 \<le> n \<and> n \<le> 0xFFFFFFFF \<longleftrightarrow> 0xE0000000 \<le> n \<and> n \<le> 0xEFFFFFFF \<or> 0xE0000000 \<le> n \<and> n \<le> 0xE00000FF \<or> 0xF0000000 \<le> n \<and> n \<le> 0xFFFFFFFF"
    using b by auto
  then show ?thesis
    unfolding isPublicIP_def Let_def Unmap.simps res cls IsUnspecified_def IsValid_def v4_forbidden_def n_def [symmetric]
    using z by simp
qed


text \<open>
  The IPv6 ranges, as first and last 128-bit value: compatible and unspecified, NAT64, discard-only,
  Teredo, documentation, 6to4, unique local, link and site local, multicast. An address with a zone is
  in no prefix, which leaves it the classes of \<^verbatim>\<open>net/netip\<close> alone.
\<close>

definition v6_forbidden :: "(nat \<times> nat) list" where
  "v6_forbidden =
     [(0x0, 0xFFFFFFFF),
      (0x0064FF9B000000000000000000000000, 0x0064FF9B0000000000000000FFFFFFFF),
      (0x0064FF9B000100000000000000000000, 0x0064FF9B0001FFFFFFFFFFFFFFFFFFFF),
      (0x01000000000000000000000000000000, 0x0100000000000000FFFFFFFFFFFFFFFF),
      (0x20010000000000000000000000000000, 0x20010000FFFFFFFFFFFFFFFFFFFFFFFF),
      (0x20010DB8000000000000000000000000, 0x20010DB8FFFFFFFFFFFFFFFFFFFFFFFF),
      (0x20020000000000000000000000000000, 0x2002FFFFFFFFFFFFFFFFFFFFFFFFFFFF),
      (0xFC000000000000000000000000000000, 0xFDFFFFFFFFFFFFFFFFFFFFFFFFFFFFFF),
      (0xFE800000000000000000000000000000, 0xFEFFFFFFFFFFFFFFFFFFFFFFFFFFFFFF),
      (0xFF000000000000000000000000000000, 0xFFFFFFFFFFFFFFFFFFFFFFFFFFFFFFFF)]"

definition v6_zoned_forbidden :: "(nat \<times> nat) list" where
  "v6_zoned_forbidden =
     [(0x1, 0x1),
      (0xFC000000000000000000000000000000, 0xFDFFFFFFFFFFFFFFFFFFFFFFFFFFFFFF),
      (0xFE800000000000000000000000000000, 0xFEBFFFFFFFFFFFFFFFFFFFFFFFFFFFFF),
      (0xFF000000000000000000000000000000, 0xFFFFFFFFFFFFFFFFFFFFFFFFFFFFFFFF)]"

definition within :: "(nat \<times> nat) list \<Rightarrow> nat \<Rightarrow> bool" where
  "within ranges n = list_ex (\<lambda>(lo, hi). lo \<le> n \<and> n \<le> hi) ranges"

fun forbidden_addr :: "addr \<Rightarrow> bool" where
  "forbidden_addr NoAddr = True"
| "forbidden_addr (V4 w) = within v4_forbidden (unat w)"
| "forbidden_addr (V6 h l z) =
     (let n = unat h * 0x10000000000000000 + unat l
      in if 0xFFFF00000000 \<le> n \<and> n \<le> 0xFFFFFFFFFFFF then within v4_forbidden (n - 0xFFFF00000000)
         else within (if z = [] then v6_forbidden else v6_zoned_forbidden) n)"

lemma high_range:
  fixes H L a b :: nat
  assumes "L < 0x10000000000000000"
  shows "a * 0x10000000000000000 \<le> H * 0x10000000000000000 + L \<and> H * 0x10000000000000000 + L \<le> b * 0x10000000000000000 + 0xFFFFFFFFFFFFFFFF \<longleftrightarrow> a \<le> H \<and> H \<le> b"
  using assms by auto

lemma low_range:
  fixes H L a b :: nat
  assumes "L < 0x10000000000000000" "b < 0x10000000000000000"
  shows "H = a \<and> L \<le> b \<longleftrightarrow> a * 0x10000000000000000 \<le> H * 0x10000000000000000 + L \<and> H * 0x10000000000000000 + L \<le> a * 0x10000000000000000 + b"
proof
  assume r: "a * 0x10000000000000000 \<le> H * 0x10000000000000000 + L \<and> H * 0x10000000000000000 + L \<le> a * 0x10000000000000000 + b"
  have "a \<le> H" "H \<le> a" using r assms by linarith+
  then show "H = a \<and> L \<le> b" using r by simp
qed auto

lemma list_ex_Cons_Nil: "list_ex P (x # xs) \<longleftrightarrow> P x \<or> list_ex P xs" "list_ex P [] \<longleftrightarrow> False"
  by simp_all

lemma word_xor_zero: "x XOR c = 0 \<longleftrightarrow> x = c" for x c :: "'a::len word"
proof
  assume "x XOR c = 0"
  then have "(x XOR c) XOR c = c" by simp
  then show "x = c" by (simp add: xor.assoc)
qed simp

lemma IsLinkLocalMulticast_IsMulticast:
  "IsLinkLocalMulticast (V6 h l z) \<Longrightarrow> IsMulticast (V6 h l z)"
proof -
  assume "IsLinkLocalMulticast (V6 h l z)"
  then have "drop_bit 8 (drop_bit 48 h AND 0xFF0F) = drop_bit 8 (0xFF02 :: 64 word)" by simp
  then have "drop_bit 56 h AND mask 8 = (0xFF :: 64 word)" by (simp add: mask_eq_exp_minus_1)
  moreover have "drop_bit 56 h AND mask 8 = drop_bit 56 h"
    by (auto simp: bit_eq_iff bit_simps dest: bit_imp_le_length)
  ultimately show ?thesis by simp
qed

text \<open>What the guard calls public is what lies outside those ranges.\<close>

lemma isPublicIP_forbidden: "isPublicIP a \<longleftrightarrow> \<not> forbidden_addr a"
proof (cases a)
  case NoAddr
  then show ?thesis by (simp add: isPublicIP_def IsValid_def)
next
  case (V4 w)
  then show ?thesis by (simp add: isPublicIP_V4 within_def)
next
  case (V6 h l z)
  define H where "H = unat h"
  define L where "L = unat l"
  define n where "n = H * 0x10000000000000000 + L"
  have L: "L < 0x10000000000000000" using unat_bound [of l] by (simp add: L_def)
  note hi = high_range [OF L, where H = H, folded n_def] and lo = low_range [OF L, where H = H, folded n_def]
  have h: "h = c \<longleftrightarrow> H = unat c" and l: "l = c \<longleftrightarrow> L = unat c" for c by (simp_all add: H_def L_def word_unat_eq_iff)
  have mapped: "Is4In6 a \<longleftrightarrow> 0xFFFF00000000 \<le> n \<and> n \<le> 0xFFFFFFFFFFFF"
  proof -
    have "Is4In6 a \<longleftrightarrow> H = 0 \<and> 0xFFFF00000000 \<le> L \<and> L \<le> 0xFFFFFFFFFFFF"
      by (simp add: V6 h drop_bit_range L_def [symmetric])
    then show ?thesis using L by (cases "H = 0") (auto simp: n_def)
  qed
  show ?thesis
  proof (cases "Is4In6 a")
    case True
    then have "H = 0" "0xFFFF00000000 \<le> L" "L \<le> 0xFFFFFFFFFFFF" using mapped L by (simp_all add: V6 H_def n_def)
    then obtain k where k: "L = k + 0xFFFF * 0x100000000" "k < 0x100000000"
      by (intro that [of "L - 0xFFFF00000000"]) simp_all
    have "L mod 0x100000000 = k" unfolding k(1) mod_mult_self1 using k(2) by simp
    then have "unat (ucast l :: 32 word) = n - 0xFFFF00000000"
      using k \<open>H = 0\<close> by (simp add: unsigned_ucast_eq take_bit_eq_mod L_def [symmetric] n_def)
    moreover have "isPublicIP a \<longleftrightarrow> \<not> within v4_forbidden (unat (ucast l :: 32 word))"
      using True isPublicIP_V4 [of "ucast l"] by (simp add: V6 isPublicIP_def within_def)
    moreover have "forbidden_addr a = within v4_forbidden (n - 0xFFFF00000000)"
      using True mapped
      by (simp only: V6 forbidden_addr.simps H_def [symmetric] L_def [symmetric] n_def [symmetric] Let_def if_True simp_thms)
    ultimately show ?thesis by simp
  next
    case False
    have fb: "forbidden_addr a = within (if z = [] then v6_forbidden else v6_zoned_forbidden) n"
      using False mapped
      by (simp only: V6 forbidden_addr.simps H_def [symmetric] L_def [symmetric] n_def [symmetric] Let_def if_False)
    have loop: "IsLoopback a \<longleftrightarrow> n = 1" by (cases "H = 0") (auto simp: V6 h l n_def)
    have unspec: "IsUnspecified a \<longleftrightarrow> z = [] \<and> n = 0" by (auto simp: V6 h l n_def IsUnspecified_def)
    have cls: "IsPrivate a \<longleftrightarrow> 0xFC000000000000000000000000000000 \<le> n \<and> n \<le> 0xFDFFFFFFFFFFFFFFFFFFFFFFFFFFFFFF"
      "IsLinkLocalUnicast a \<longleftrightarrow> 0xFE800000000000000000000000000000 \<le> n \<and> n \<le> 0xFEBFFFFFFFFFFFFFFFFFFFFFFFFFFFFF"
      "IsMulticast a \<longleftrightarrow> 0xFF000000000000000000000000000000 \<le> n \<and> n \<le> 0xFFFFFFFFFFFFFFFFFFFFFFFFFFFFFFFF"
      using hi [where a = "0xFC00000000000000" and b = "0xFDFFFFFFFFFFFFFF"] hi [where a = "0xFE80000000000000" and b = "0xFEBFFFFFFFFFFFFF"]
        hi [where a = "0xFF00000000000000" and b = "0xFFFFFFFFFFFFFFFF"]
      by (simp_all add: V6 drop_bit_range H_def [symmetric])
    note pc = V6 prefix_Contains_def mask_lo_def mask_hi_def xor_not_mask_zero xor_not_mask_zero [where a = 0, simplified] drop_bit_top drop_bit_range word_xor_zero h l
      H_def [symmetric] L_def [symmetric]
    have p0: "prefix_Contains \<lparr>paddr = V6 0 0 [], pbits = 96\<rparr> a \<longleftrightarrow> z = [] \<and>
        (0x0 \<le> n \<and> n \<le> 0xFFFFFFFF)"
      using lo [where b = "0xFFFFFFFF" and a = "0"] by (cases "z = []") (simp_all add: pc)
    have p1: "prefix_Contains \<lparr>paddr = V6 0x0064FF9B00000000 0 [], pbits = 96\<rparr> a \<longleftrightarrow> z = [] \<and>
        (0x0064FF9B000000000000000000000000 \<le> n \<and> n \<le> 0x0064FF9B0000000000000000FFFFFFFF)"
      using lo [where b = "0xFFFFFFFF" and a = "0x0064FF9B00000000"] by (cases "z = []") (simp_all add: pc)
    have p2: "prefix_Contains \<lparr>paddr = V6 0x0064FF9B00010000 0 [], pbits = 48\<rparr> a \<longleftrightarrow> z = [] \<and>
        (0x0064FF9B000100000000000000000000 \<le> n \<and> n \<le> 0x0064FF9B0001FFFFFFFFFFFFFFFFFFFF)"
      using hi [where a = "0x0064FF9B00010000" and b = "0x0064FF9B0001FFFF"] by (cases "z = []") (simp_all add: pc)
    have p3: "prefix_Contains \<lparr>paddr = V6 0x0100000000000000 0 [], pbits = 64\<rparr> a \<longleftrightarrow> z = [] \<and>
        (0x01000000000000000000000000000000 \<le> n \<and> n \<le> 0x0100000000000000FFFFFFFFFFFFFFFF)"
      using hi [where a = "0x0100000000000000" and b = "0x0100000000000000"] by (cases "z = []") (auto simp: pc)
    have p4: "prefix_Contains \<lparr>paddr = V6 0x2001000000000000 0 [], pbits = 32\<rparr> a \<longleftrightarrow> z = [] \<and>
        (0x20010000000000000000000000000000 \<le> n \<and> n \<le> 0x20010000FFFFFFFFFFFFFFFFFFFFFFFF)"
      using hi [where a = "0x2001000000000000" and b = "0x20010000FFFFFFFF"] by (cases "z = []") (simp_all add: pc)
    have p5: "prefix_Contains \<lparr>paddr = V6 0x20010DB800000000 0 [], pbits = 32\<rparr> a \<longleftrightarrow> z = [] \<and>
        (0x20010DB8000000000000000000000000 \<le> n \<and> n \<le> 0x20010DB8FFFFFFFFFFFFFFFFFFFFFFFF)"
      using hi [where a = "0x20010DB800000000" and b = "0x20010DB8FFFFFFFF"] by (cases "z = []") (simp_all add: pc)
    have p6: "prefix_Contains \<lparr>paddr = V6 0x2002000000000000 0 [], pbits = 16\<rparr> a \<longleftrightarrow> z = [] \<and>
        (0x20020000000000000000000000000000 \<le> n \<and> n \<le> 0x2002FFFFFFFFFFFFFFFFFFFFFFFFFFFF)"
      using hi [where a = "0x2002000000000000" and b = "0x2002FFFFFFFFFFFF"] by (cases "z = []") (simp_all add: pc)
    have p7: "prefix_Contains \<lparr>paddr = V6 0xFEC0000000000000 0 [], pbits = 10\<rparr> a \<longleftrightarrow> z = [] \<and>
        (0xFEC00000000000000000000000000000 \<le> n \<and> n \<le> 0xFEFFFFFFFFFFFFFFFFFFFFFFFFFFFFFF)"
      using hi [where a = "0xFEC0000000000000" and b = "0xFEFFFFFFFFFFFFFF"] by (cases "z = []") (simp_all add: pc)
    have p: "\<not> prefix_Contains \<lparr>paddr = V4 w, pbits = k\<rparr> a" for w k by (simp add: V6 prefix_Contains_def)
    have res: "list_ex (\<lambda>p. prefix_Contains p a) reservedPrefixes \<longleftrightarrow> z = [] \<and>
       (0x0 \<le> n \<and> n \<le> 0xFFFFFFFF \<or>
        0x0064FF9B000000000000000000000000 \<le> n \<and> n \<le> 0x0064FF9B0000000000000000FFFFFFFF \<or>
        0x0064FF9B000100000000000000000000 \<le> n \<and> n \<le> 0x0064FF9B0001FFFFFFFFFFFFFFFFFFFF \<or>
        0x01000000000000000000000000000000 \<le> n \<and> n \<le> 0x0100000000000000FFFFFFFFFFFFFFFF \<or>
        0x20010000000000000000000000000000 \<le> n \<and> n \<le> 0x20010000FFFFFFFFFFFFFFFFFFFFFFFF \<or>
        0x20010DB8000000000000000000000000 \<le> n \<and> n \<le> 0x20010DB8FFFFFFFFFFFFFFFFFFFFFFFF \<or>
        0x20020000000000000000000000000000 \<le> n \<and> n \<le> 0x2002FFFFFFFFFFFFFFFFFFFFFFFFFFFF \<or>
        0xFEC00000000000000000000000000000 \<le> n \<and> n \<le> 0xFEFFFFFFFFFFFFFFFFFFFFFFFFFFFFFF)"
      unfolding reservedPrefixes_values list_ex_Cons_Nil p0 p1 p2 p3 p4 p5 p6 p7 using p by blast
    have iso: "isPublicIP a \<longleftrightarrow> \<not> (IsLoopback a \<or> IsPrivate a \<or> IsMulticast a \<or> IsLinkLocalUnicast a \<or> IsUnspecified a \<or>
        list_ex (\<lambda>p. prefix_Contains p a) reservedPrefixes)"
      using False IsLinkLocalMulticast_IsMulticast [of h l z] by (auto simp: V6 isPublicIP_def IsValid_def Let_def)
    have loc: "0xFE800000000000000000000000000000 \<le> n \<and> n \<le> 0xFEFFFFFFFFFFFFFFFFFFFFFFFFFFFFFF \<longleftrightarrow>
        (0xFE800000000000000000000000000000 \<le> n \<and> n \<le> 0xFEBFFFFFFFFFFFFFFFFFFFFFFFFFFFFF) \<or>
        (0xFEC00000000000000000000000000000 \<le> n \<and> n \<le> 0xFEFFFFFFFFFFFFFFFFFFFFFFFFFFFFFF)"
      by linarith
    have one: "n = 1 \<Longrightarrow> n \<le> 0xFFFFFFFF" "n = 0 \<Longrightarrow> n \<le> 0xFFFFFFFF" "(0x1 \<le> n \<and> n \<le> 0x1) = (n = 1)" "0x0 \<le> n"
      by linarith+
    have v6: "within v6_forbidden n \<longleftrightarrow> 0x0 \<le> n \<and> n \<le> 0xFFFFFFFF \<or>
        0x0064FF9B000000000000000000000000 \<le> n \<and> n \<le> 0x0064FF9B0000000000000000FFFFFFFF \<or>
        0x0064FF9B000100000000000000000000 \<le> n \<and> n \<le> 0x0064FF9B0001FFFFFFFFFFFFFFFFFFFF \<or>
        0x01000000000000000000000000000000 \<le> n \<and> n \<le> 0x0100000000000000FFFFFFFFFFFFFFFF \<or>
        0x20010000000000000000000000000000 \<le> n \<and> n \<le> 0x20010000FFFFFFFFFFFFFFFFFFFFFFFF \<or>
        0x20010DB8000000000000000000000000 \<le> n \<and> n \<le> 0x20010DB8FFFFFFFFFFFFFFFFFFFFFFFF \<or>
        0x20020000000000000000000000000000 \<le> n \<and> n \<le> 0x2002FFFFFFFFFFFFFFFFFFFFFFFFFFFF \<or>
        0xFC000000000000000000000000000000 \<le> n \<and> n \<le> 0xFDFFFFFFFFFFFFFFFFFFFFFFFFFFFFFF \<or>
        0xFE800000000000000000000000000000 \<le> n \<and> n \<le> 0xFEFFFFFFFFFFFFFFFFFFFFFFFFFFFFFF \<or>
        0xFF000000000000000000000000000000 \<le> n \<and> n \<le> 0xFFFFFFFFFFFFFFFFFFFFFFFFFFFFFFFF"
      by (simp only: within_def v6_forbidden_def list_ex_Cons_Nil prod.case simp_thms)
    have zoned: "within v6_zoned_forbidden n \<longleftrightarrow> 0x1 \<le> n \<and> n \<le> 0x1 \<or>
        0xFC000000000000000000000000000000 \<le> n \<and> n \<le> 0xFDFFFFFFFFFFFFFFFFFFFFFFFFFFFFFF \<or>
        0xFE800000000000000000000000000000 \<le> n \<and> n \<le> 0xFEBFFFFFFFFFFFFFFFFFFFFFFFFFFFFF \<or>
        0xFF000000000000000000000000000000 \<le> n \<and> n \<le> 0xFFFFFFFFFFFFFFFFFFFFFFFFFFFFFFFF"
      by (simp only: within_def v6_zoned_forbidden_def list_ex_Cons_Nil prod.case simp_thms)
    show ?thesis
    proof (cases "z = []")
      case True
      then show ?thesis unfolding fb if_P [OF True] iso loop unspec cls res v6 loc using one(1,2,4) by blast
    next
      case False
      then show ?thesis unfolding fb if_not_P [OF False] iso loop unspec cls res zoned one(3) by blast
    qed
  qed
qed

text \<open>
  An IPv6 address that carries an IPv4 target (mapped, compatible, NAT64, 6to4) is no way around:
  the mapped form is judged as its target, the others are never public.
\<close>

lemma embedded_v4:
  fixes w :: "32 word" and x :: "16 word" and l :: "64 word"
  shows "isPublicIP (V6 0 (0xFFFF00000000 OR ucast w) z) = isPublicIP (V4 w)"
    and "\<not> isPublicIP (V6 0 (ucast w) [])"
    and "\<not> isPublicIP (V6 0x0064FF9B00000000 (ucast w) [])"
    and "\<not> isPublicIP (V6 (push_bit 48 0x2002 OR push_bit 16 (ucast w) OR ucast x) l [])"
proof -
  have m: "(0xFFFF00000000 :: 64 word) = push_bit 32 (mask 16)" "(0xFFFF :: 64 word) = mask 16"
    by (simp_all add: mask_eq_exp_minus_1 push_bit_eq_mult)
  have "drop_bit 32 (push_bit 32 (mask 16) OR ucast w :: 64 word) = mask 16"
    "ucast (push_bit 32 (mask 16) OR ucast w :: 64 word) = w"
    by (auto simp: bit_eq_iff bit_simps dest: bit_imp_le_length)
  then have "Is4In6 (V6 0 (0xFFFF00000000 OR ucast w) z)" "ucast (0xFFFF00000000 OR ucast w :: 64 word) = w"
    by (simp_all only: m Is4In6.simps)
  then show "isPublicIP (V6 0 (0xFFFF00000000 OR ucast w) z) = isPublicIP (V4 w)"
    by (simp only: isPublicIP_def Unmap.simps if_True)
  have low: "drop_bit 32 (ucast w :: 64 word) = 0" "(ucast w :: 64 word) AND NOT (mask 32) = 0" by (auto simp: bit_eq_iff bit_simps dest: bit_imp_le_length)
  show "\<not> isPublicIP (V6 0 (ucast w) [])" "\<not> isPublicIP (V6 0x0064FF9B00000000 (ucast w) [])"
    by (simp_all add: isPublicIP_def Let_def low reservedPrefixes_values prefix_Contains_def mask_lo_def mask_hi_def xor_not_mask_zero)
  define h :: "64 word" where "h = push_bit 48 0x2002 OR push_bit 16 (ucast w) OR ucast x"
  have "drop_bit 48 (push_bit 16 (ucast w) :: 64 word) = 0" "drop_bit 48 (ucast x :: 64 word) = 0"
    by (auto simp: bit_eq_iff bit_simps dest: bit_imp_le_length)
  then have h48: "drop_bit 48 h = 0x2002" by (simp add: h_def)
  then have "h \<noteq> 0" by auto
  then show "\<not> isPublicIP (V6 (push_bit 48 0x2002 OR push_bit 16 (ucast w) OR ucast x) l [])"
    unfolding h_def [symmetric]
    by (simp add: isPublicIP_def Let_def reservedPrefixes_values prefix_Contains_def mask_lo_def mask_hi_def xor_not_mask_zero h48
        drop_bit_top)
qed

section \<open>Literal hosts\<close>

definition ipv4Shape :: "string \<Rightarrow> bool" where
  "ipv4Shape host = (list_all (\<lambda>c. c = CHR ''.'' \<or> is_digit c) host \<and> CHR ''.'' \<in> set host)"

definition parseIPHost :: "string \<Rightarrow> addr option" where
  "parseIPHost host = (if CHR '':'' \<notin> set host \<and> \<not> ipv4Shape host then None else ParseAddr host)"

definition baseHex :: nat where
  "baseHex = 16"

definition hexDigitValue :: "char \<Rightarrow> nat" where
  "hexDigitValue c =
     (if is_digit c then byte c - 48
      else if 97 \<le> byte c \<and> byte c \<le> 102 then byte c - 97 + 10
      else if 65 \<le> byte c \<and> byte c \<le> 70 then byte c - 65 + 10
      else baseHex)"

definition inetAtonPart :: "string \<Rightarrow> bool" where
  "inetAtonPart s =
     (if s = [] then False
      else if hd s = CHR ''0'' then
        (if length s > 1 \<and> (s ! 1 = CHR ''x'' \<or> s ! 1 = CHR ''X'') then
           (if drop 2 s = [] then False else list_all (\<lambda>c. hexDigitValue c < baseHex) (drop 2 s))
         else list_all (\<lambda>c. hexDigitValue c < 8) (drop 1 s))
      else list_all (\<lambda>c. hexDigitValue c < 10) s)"

definition maxIPv4Parts :: nat where
  "maxIPv4Parts = 4"

text \<open>The loop of \<^verbatim>\<open>numericIPHost\<close>: \<open>parts\<close> counts the part being read.\<close>

function numeric_parts :: "nat \<Rightarrow> string \<Rightarrow> bool" where
  "numeric_parts parts host =
     (case index_byte CHR ''.'' host of
        None \<Rightarrow> (if parts > maxIPv4Parts \<or> \<not> inetAtonPart host then False else True)
      | Some dot \<Rightarrow>
          (if parts > maxIPv4Parts \<or> \<not> inetAtonPart (take dot host) then False
           else numeric_parts (parts + 1) (drop (Suc dot) host)))"
  by pat_completeness auto
termination
  by (relation "measure (\<lambda>(p, h). length h)") (auto dest!: index_byte_Some)

declare numeric_parts.simps [simp del]

definition numericIPHost :: "string \<Rightarrow> bool" where
  "numericIPHost host = numeric_parts 1 host"


section \<open>What a literal host means\<close>

text \<open>
  The meaning a C library gives a host that reads as an IPv4 address: one to four parts in hex, octal
  or decimal, all but the last below 256 and the last filling what is left of the 32 bits.
\<close>

definition aton_value :: "nat \<Rightarrow> string \<Rightarrow> nat option" where
  "aton_value base s =
     (if s \<noteq> [] \<and> list_all (\<lambda>c. hexDigitValue c < base) s
      then Some (foldl (\<lambda>n c. n * base + hexDigitValue c) 0 s) else None)"

definition aton_part :: "string \<Rightarrow> nat option" where
  "aton_part s =
     (if has_prefix ''0x'' s \<or> has_prefix ''0X'' s then aton_value 16 (drop 2 s)
      else if has_prefix ''0'' s then aton_value 8 s
      else aton_value 10 s)"

definition inet_aton :: "string \<Rightarrow> nat option" where
  "inet_aton s =
     (case those (map aton_part (split_byte CHR ''.'' s)) of
        None \<Rightarrow> None
      | Some vs \<Rightarrow>
          (if length vs \<le> 4 \<and> list_all (\<lambda>v. v < 256) (butlast vs) \<and> last vs < 256 ^ (5 - length vs)
           then Some (foldl (\<lambda>n v. n * 256 + v) 0 (butlast vs) * 256 ^ (5 - length vs) + last vs)
           else None))"

lemma numeric_parts_split:
  "numeric_parts p host \<longleftrightarrow>
     p + length (split_byte CHR ''.'' host) \<le> maxIPv4Parts + 1 \<and> list_all inetAtonPart (split_byte CHR ''.'' host)"
proof (induction p host rule: numeric_parts.induct)
  case (1 p host)
  show ?case
  proof (cases "index_byte CHR ''.'' host")
    case None
    then have "CHR ''.'' \<notin> set host" by (simp add: index_byte_None)
    then show ?thesis by (subst numeric_parts.simps) (simp add: None)
  next
    case (Some i)
    then show ?thesis
      using 1 [OF Some] by (subst numeric_parts.simps) (auto simp: Some split_byte_index [OF Some])
  qed
qed

lemma aton_part_numeric: "aton_part s = Some v \<Longrightarrow> inetAtonPart s"
proof (cases s)
  case (Cons c r)
  assume a: "aton_part s = Some v"
  have "hexDigitValue CHR ''0'' = 0" by (simp add: hexDigitValue_def is_digit_def)
  with a Cons show ?thesis
    by (cases r) (auto simp: aton_part_def aton_value_def inetAtonPart_def baseHex_def has_prefix_def split: if_splits)
qed (simp add: aton_part_def aton_value_def)

lemma those_SomeD: "those (map f xs) = Some vs \<Longrightarrow> length vs = length xs \<and> list_all (\<lambda>x. f x \<noteq> None) xs"
  by (induction xs arbitrary: vs) (auto split: option.splits)

lemma inet_aton_numeric: "inet_aton s = Some v \<Longrightarrow> numericIPHost s"
proof -
  assume a: "inet_aton s = Some v"
  then obtain vs where vs: "those (map aton_part (split_byte CHR ''.'' s)) = Some vs" "length vs \<le> 4"
    by (auto simp: inet_aton_def split: option.splits if_splits)
  note t = those_SomeD [OF vs(1)]
  then have "list_all inetAtonPart (split_byte CHR ''.'' s)"
    by (auto simp: list_all_iff dest: aton_part_numeric)
  then show ?thesis
    using t vs(2) by (simp add: numericIPHost_def numeric_parts_split maxIPv4Parts_def)
qed

text \<open>The canonical parser agrees where both read a host.\<close>

definition canonical_part :: "string \<Rightarrow> bool" where
  "canonical_part q = (q \<noteq> [] \<and> list_all is_digit q \<and> (if hd q = CHR ''0'' then length q = 1 else True))"

lemma parseIPv4Fields_parts:
  assumes "parseIPv4Fields prev val dl fs s = Some out" "dl = 0 \<Longrightarrow> val = 0" "length fs \<le> 3"
  shows "\<exists>p ps. split_byte CHR ''.'' s = p # ps \<and> list_all is_digit p \<and> list_all canonical_part ps \<and>
           out = fs @ foldl (\<lambda>n c. n * 10 + (byte c - 48)) val p # map dec_value ps \<and> length out = 4 \<and>
           (dl = 1 \<and> val = 0 \<longrightarrow> p = []) \<and> (dl = 0 \<and> p \<noteq> [] \<longrightarrow> canonical_part p) \<and>
           (s \<noteq> [] \<and> (prev = None \<or> prev = Some CHR ''.'') \<longrightarrow> p \<noteq> [])"
  using assms
proof (induction prev val dl fs s rule: parseIPv4Fields.induct)
  case (1 prev val dl fs)
  then show ?case by (auto split: if_splits)
next
  case (2 prev val dl fs c cs)
  show ?case
  proof (cases "is_digit c")
    case True
    have dot: "c \<noteq> CHR ''.''" using True by (auto simp: is_digit_def)
    have rec: "parseIPv4Fields (Some c) (val * 10 + (byte c - 48)) (dl + 1) fs cs = Some out"
      and nz: "\<not> (dl = 1 \<and> val = 0)"
      using 2(3) True by (auto simp: Let_def split: if_splits)
    have le: "val * 10 + (byte c - 48) \<le> 255" using 2(3) True by (auto simp: Let_def split: if_splits)
    have "\<exists>p ps. split_byte CHR ''.'' cs = p # ps \<and> list_all is_digit p \<and> list_all canonical_part ps \<and>
           out = fs @ foldl (\<lambda>n c. n * 10 + (byte c - 48)) (val * 10 + (byte c - 48)) p # map dec_value ps \<and> length out = 4 \<and>
           (dl + 1 = 1 \<and> val * 10 + (byte c - 48) = 0 \<longrightarrow> p = [])"
      using 2(1) [OF True nz refl] rec 2(5) le by auto
    then obtain p ps where p: "split_byte CHR ''.'' cs = p # ps" "list_all is_digit p" "list_all canonical_part ps"
        "out = fs @ foldl (\<lambda>n c. n * 10 + (byte c - 48)) (val * 10 + (byte c - 48)) p # map dec_value ps" "length out = 4"
        "dl + 1 = 1 \<and> val * 10 + (byte c - 48) = 0 \<longrightarrow> p = []"
      by blast
    have "canonical_part (c # p)" if "dl = 0"
    proof -
      have "byte c - 48 = 0" if "c = CHR ''0''" using that by simp
      then show ?thesis using that p(2,6) 2(4) True by (auto simp: canonical_part_def)
    qed
    then show ?thesis using p True dot nz by (intro exI [of _ "c # p"] exI [of _ ps]) auto
  next
    case False
    with 2(3) have c: "c = CHR ''.''" "prev \<noteq> None" "cs \<noteq> []" "prev \<noteq> Some CHR ''.''" "length fs \<noteq> 3"
      "parseIPv4Fields (Some c) 0 0 (fs @ [val]) cs = Some out"
      by (auto split: if_splits)
    have "\<exists>p ps. split_byte CHR ''.'' cs = p # ps \<and> list_all is_digit p \<and> list_all canonical_part ps \<and>
           out = (fs @ [val]) @ foldl (\<lambda>n c. n * 10 + (byte c - 48)) 0 p # map dec_value ps \<and> length out = 4 \<and>
           canonical_part p"
      using 2(2) [OF False c(1)] c 2(5) by auto
    then obtain p ps where p: "split_byte CHR ''.'' cs = p # ps" "list_all canonical_part ps" "canonical_part p"
        "out = (fs @ [val]) @ foldl (\<lambda>n c. n * 10 + (byte c - 48)) 0 p # map dec_value ps" "length out = 4"
      by blast
    then show ?thesis using c by (intro exI [of _ "[]"] exI [of _ "p # ps"]) (auto simp: dec_value_def)
  qed
qed


lemma hexDigitValue_digit: "is_digit c \<Longrightarrow> hexDigitValue c = byte c - 48 \<and> byte c - 48 < 10"
  by (auto simp: hexDigitValue_def is_digit_def)

lemma foldl_hexDigitValue:
  "list_all is_digit q \<Longrightarrow> foldl (\<lambda>n c. n * 10 + hexDigitValue c) a q = foldl (\<lambda>n c. n * 10 + (byte c - 48)) a q"
  by (induction q arbitrary: a) (auto simp: hexDigitValue_digit)

lemma aton_part_canonical: "canonical_part q \<Longrightarrow> aton_part q = Some (dec_value q)"
proof (cases q)
  case (Cons c r)
  assume a: "canonical_part q"
  show ?thesis
  proof (cases "c = CHR ''0''")
    case True
    with a Cons have "q = ''0''" by (simp add: canonical_part_def)
    then show ?thesis by (simp add: aton_part_def aton_value_def hexDigitValue_def is_digit_def dec_value_def has_prefix_def)
  next
    case False
    have "list_all (\<lambda>c. hexDigitValue c < 10) q"
      using a by (auto simp: canonical_part_def list_all_iff hexDigitValue_digit)
    then show ?thesis using a Cons False foldl_hexDigitValue [of q 0]
      by (simp add: aton_part_def aton_value_def dec_value_def canonical_part_def has_prefix_def del: foldl_Cons)
  qed
qed (simp add: canonical_part_def)

lemma those_map_Some: "list_all (\<lambda>x. f x = Some (g x)) xs \<Longrightarrow> those (map f xs) = Some (map g xs)"
  by (induction xs) auto

lemma parseIPv4_inet_aton:
  assumes "parseIPv4 s = Some a" "inet_aton s = Some v"
  shows "a = V4 (word_of_nat v)"
proof -
  obtain out where out: "parseIPv4Fields None 0 0 [] s = Some out" "a = V4 (word_of_nat (be_value out))"
    using assms(1) by (auto simp: parseIPv4_def split: option.splits)
  have ne: "s \<noteq> []" using out(1) by auto
  obtain p ps where p: "split_byte CHR ''.'' s = p # ps" "list_all canonical_part ps" "canonical_part p"
      "out = dec_value p # map dec_value ps" "length out = 4"
    using parseIPv4Fields_parts [OF out(1)] ne by (auto simp: dec_value_def)
  have "those (map aton_part (split_byte CHR ''.'' s)) = Some out"
    using those_map_Some [of aton_part dec_value "p # ps"] p(2-4) aton_part_canonical
    by (simp add: p(1) list_all_iff)
  then have v: "v = foldl (\<lambda>n v. n * 256 + v) 0 (butlast out) * 256 + last out"
    using assms(2) p(5) by (simp add: inet_aton_def split: if_splits)
  obtain b0 b1 b2 b3 where "out = [b0, b1, b2, b3]"
    using p(5) by (auto simp: length_Suc_conv numeral_eq_Suc)
  then show ?thesis using out(2) v by (simp add: be_value_def)
qed

lemma parseIPv4_shape: "parseIPv4Fields prev val dl fs s = Some out \<Longrightarrow> list_all (\<lambda>c. c = CHR ''.'' \<or> is_digit c) s"
  by (induction prev val dl fs s rule: parseIPv4Fields.induct) (auto simp: Let_def split: if_splits)

lemma addr_kind_member: "addr_kind s = Some c \<Longrightarrow> c \<in> set s"
  by (induction s) (auto split: if_splits)

lemma parseIPHost_ParseAddr: "parseIPHost host = ParseAddr host"
proof (cases "CHR '':'' \<notin> set host \<and> \<not> ipv4Shape host")
  case True
  have "parseIPv4 host = None" if "CHR ''.'' \<in> set host"
    using True that parseIPv4_shape [of None 0 0 "[]" host]
    by (cases "parseIPv4Fields None 0 0 [] host") (auto simp: parseIPv4_def ipv4Shape_def)
  then show ?thesis
    using True addr_kind_member [of host] by (auto simp: parseIPHost_def ParseAddr_def split: option.splits)
qed (auto simp: parseIPHost_def)

lemma inet_aton_no_colon: "inet_aton s = Some v \<Longrightarrow> CHR '':'' \<notin> set s"
proof -
  assume "inet_aton s = Some v"
  then have n: "list_all inetAtonPart (split_byte CHR ''.'' s)"
    using inet_aton_numeric [of s v] by (simp add: numericIPHost_def numeric_parts_split)
  have h: "hexDigitValue CHR '':'' = 16" by (simp add: hexDigitValue_def is_digit_def baseHex_def)
  have part: "CHR '':'' \<notin> set q" if "inetAtonPart q" for q
  proof
    assume m: "CHR '':'' \<in> set q"
    show False
    proof (cases "q ! 0 = CHR ''0''")
      case False
      then show False using that m h by (cases q) (auto simp: inetAtonPart_def list_all_iff)
    next
      case True
      then obtain r where r: "q = CHR ''0'' # r" using m by (cases q) auto
      then have "CHR '':'' \<in> set r" using m by auto
      then show False using that r h
        by (cases r) (auto simp: inetAtonPart_def list_all_iff baseHex_def split: if_splits)
    qed
  qed
  have "x \<in> set s \<Longrightarrow> x \<noteq> CHR ''.'' \<Longrightarrow> \<exists>q \<in> set (split_byte CHR ''.'' s). x \<in> set q" for x
    by (induction s) (auto split: list.splits)
  then show ?thesis using n part by (fastforce simp: list_all_iff)
qed

section \<open>Urls\<close>

text \<open>What \<^verbatim>\<open>url.Parse\<close> says of a url, as far as it is used.\<close>

record URL =
  u_Scheme :: string
  u_Host :: string
  u_HasUser :: bool

definition validOptionalPort :: "string \<Rightarrow> bool" where
  "validOptionalPort port =
     (case port of [] \<Rightarrow> True | c # ds \<Rightarrow> c = CHR '':'' \<and> list_all is_digit ds)"

definition Hostname :: "URL \<Rightarrow> string" where
  "Hostname u =
     (let host = u_Host u;
          host1 = (case last_index_byte CHR '':'' host of
                     None \<Rightarrow> host
                   | Some colon \<Rightarrow> if validOptionalPort (drop colon host) then take colon host else host)
      in if host1 \<noteq> [] \<and> hd host1 = CHR ''['' \<and> last host1 = CHR '']'' then butlast (tl host1) else host1)"

text \<open>\<^verbatim>\<open>strings.EqualFold\<close> against \<open>https\<close>: the long s folds to s too.\<close>

definition fold_https :: "string \<Rightarrow> bool" where
  "fold_https s = (map lower_byte s = ''https'' \<or> map lower_byte s = ''http'' @ [CHR 0xC5, CHR 0xBF])"

datatype url_error = InvalidURL | OnlyHTTPS | HostRequired | HasUserinfo | NonPublicTarget | NonCanonicalIPHost

definition checkHTTPSURL :: "URL \<Rightarrow> url_error option" where
  "checkHTTPSURL u =
     (if \<not> fold_https (u_Scheme u) then Some OnlyHTTPS
      else if Hostname u = [] then Some HostRequired
      else if u_HasUser u then Some HasUserinfo
      else None)"

definition parseHTTPSURL :: "(string \<Rightarrow> URL option) \<Rightarrow> string \<Rightarrow> url_error + URL" where
  "parseHTTPSURL url_Parse rawURL =
     (case url_Parse rawURL of
        None \<Rightarrow> Inl InvalidURL
      | Some u \<Rightarrow> (case checkHTTPSURL u of Some e \<Rightarrow> Inl e | None \<Rightarrow> Inr u))"

definition ValidateHTTPSURL :: "(string \<Rightarrow> URL option) \<Rightarrow> string \<Rightarrow> url_error option" where
  "ValidateHTTPSURL url_Parse rawURL =
     (case parseHTTPSURL url_Parse rawURL of Inl e \<Rightarrow> Some e | Inr u \<Rightarrow> None)"

definition ValidatePublicParsedHTTPSURL :: "URL \<Rightarrow> url_error option" where
  "ValidatePublicParsedHTTPSURL u =
     (case checkHTTPSURL u of
        Some e \<Rightarrow> Some e
      | None \<Rightarrow>
          (case parseIPHost (Hostname u) of
             Some addr \<Rightarrow> (if \<not> isPublicIP addr then Some NonPublicTarget else None)
           | None \<Rightarrow> (if numericIPHost (Hostname u) then Some NonCanonicalIPHost else None)))"

definition ValidatePublicHTTPSURL :: "(string \<Rightarrow> URL option) \<Rightarrow> string \<Rightarrow> url_error option" where
  "ValidatePublicHTTPSURL url_Parse rawURL =
     (case url_Parse rawURL of None \<Rightarrow> Some InvalidURL | Some u \<Rightarrow> ValidatePublicParsedHTTPSURL u)"

definition validateHTTPSURLParsed :: "URL \<Rightarrow> url_error option" where
  "validateHTTPSURLParsed u = checkHTTPSURL u"

section \<open>The client\<close>

definition maxRedirects :: nat where
  "maxRedirects = 10"

datatype redirect_error = StoppedRedirects | BadRedirect url_error

text \<open>\<^verbatim>\<open>CheckRedirect\<close> of a client, \<open>via\<close> the number of requests already made.\<close>

definition CheckRedirect :: "bool \<Rightarrow> URL \<Rightarrow> nat \<Rightarrow> redirect_error option" where
  "CheckRedirect guardIPs u via =
     (if via \<ge> maxRedirects then Some StoppedRedirects
      else map_option BadRedirect (if guardIPs then ValidatePublicParsedHTTPSURL u else validateHTTPSURLParsed u))"

datatype 'e dial_error = SplitFailed | LookupFailed | DialNonPublic | DialError 'e

text \<open>
  The loop of \<^verbatim>\<open>dialPublicAddrs\<close>: the last dial error, the addresses to try; the result and the
  targets dialled, in order.
\<close>

fun dial_each :: "(string \<Rightarrow> 'e + 'c) \<Rightarrow> string \<Rightarrow> 'e option \<Rightarrow> addr list \<Rightarrow> ('e dial_error + 'c) \<times> string list" where
  "dial_each dial port lastErr [] =
     ((case lastErr of None \<Rightarrow> Inl DialNonPublic | Some e \<Rightarrow> Inl (DialError e)), [])"
| "dial_each dial port lastErr (ip # ips) =
     (if \<not> isPublicIP ip then dial_each dial port lastErr ips
      else let target = JoinHostPort (addr_String ip) port
           in case dial target of
                Inr conn \<Rightarrow> (Inr conn, [target])
              | Inl e \<Rightarrow> (let (res, ts) = dial_each dial port (Some e) ips in (res, target # ts)))"

definition dialPublicAddrs :: "(string \<Rightarrow> 'e + 'c) \<Rightarrow> string \<Rightarrow> addr list \<Rightarrow> ('e dial_error + 'c) \<times> string list" where
  "dialPublicAddrs dial port ips = dial_each dial port None ips"

text \<open>The \<^verbatim>\<open>DialContext\<close> of \<^verbatim>\<open>newHTTPClient\<close>.\<close>

definition DialContext ::
  "(string \<Rightarrow> 'e + 'c) \<Rightarrow> (string \<Rightarrow> addr list option) \<Rightarrow> bool \<Rightarrow> string \<Rightarrow> ('e dial_error + 'c) \<times> string list" where
  "DialContext dial lookup guardIPs addr =
     (let direct = ((case dial addr of Inl e \<Rightarrow> Inl (DialError e) | Inr c \<Rightarrow> Inr c), [addr])
      in if \<not> guardIPs then direct
         else case SplitHostPort addr of
           None \<Rightarrow> (Inl SplitFailed, [])
         | Some (host, port) \<Rightarrow>
             (case parseIPHost host of
                Some ip \<Rightarrow> (if \<not> isPublicIP ip then (Inl DialNonPublic, []) else direct)
              | None \<Rightarrow>
                  (case lookup host of
                     None \<Rightarrow> (Inl LookupFailed, [])
                   | Some ips \<Rightarrow> dialPublicAddrs dial port ips)))"


section \<open>No download leaves the public network\<close>

lemma foldl_256: "list_all (\<lambda>v. v < 256) vs \<Longrightarrow> foldl (\<lambda>n v. n * 256 + v) (a :: nat) vs < (a + 1) * 256 ^ length vs"
proof (induction vs arbitrary: a)
  case (Cons v vs)
  then have "foldl (\<lambda>n v. n * 256 + v) (a * 256 + v) vs < (a * 256 + v + 1) * 256 ^ length vs" "v < 256" by auto
  moreover have "(a * 256 + v + 1) * 256 ^ length vs \<le> (a * 256 + 256) * 256 ^ length vs"
    using \<open>v < 256\<close> by (intro mult_right_mono) auto
  ultimately have "foldl (\<lambda>n v. n * 256 + v) (a * 256 + v) vs < (a * 256 + 256) * 256 ^ length vs"
    by linarith
  moreover have "(a * 256 + 256) * 256 ^ length vs = (a + 1) * 256 ^ length (v # vs)" by (simp add: algebra_simps)
  ultimately show ?case by simp
qed simp

lemma inet_aton_bound: "inet_aton s = Some v \<Longrightarrow> v < 2 ^ 32"
proof -
  assume "inet_aton s = Some v"
  then obtain vs where vs: "those (map aton_part (split_byte CHR ''.'' s)) = Some vs" "length vs \<le> 4"
      "list_all (\<lambda>v. v < 256) (butlast vs)" "last vs < 256 ^ (5 - length vs)"
      "v = foldl (\<lambda>n v. n * 256 + v) 0 (butlast vs) * 256 ^ (5 - length vs) + last vs"
    by (auto simp: inet_aton_def split: option.splits if_splits)
  have "length vs \<noteq> 0" using those_SomeD [OF vs(1)] split_byte_nonempty [of "CHR ''.''" s] by auto
  then have "length vs - 1 + (5 - length vs) = 4" using vs(2) by linarith
  then have e: "256 ^ (length vs - 1) * 256 ^ (5 - length vs) = (256::nat) ^ 4"
    unfolding power_add [symmetric] by (rule arg_cong)
  have "foldl (\<lambda>n v. n * 256 + v) 0 (butlast vs) + 1 \<le> 256 ^ (length vs - 1)"
    using foldl_256 [OF vs(3), of 0] by simp
  then have "(foldl (\<lambda>n v. n * 256 + v) 0 (butlast vs) + 1) * 256 ^ (5 - length vs) \<le> 256 ^ 4"
    unfolding e [symmetric] by (rule mult_right_mono) simp
  then show ?thesis using vs(4,5) by simp
qed

lemma public_aton:
  assumes "inet_aton s = Some v"
  shows "isPublicIP (V4 (word_of_nat v)) \<longleftrightarrow> \<not> list_ex (\<lambda>(lo, hi). lo \<le> v \<and> v \<le> hi) v4_forbidden"
  using inet_aton_bound [OF assms] by (simp add: isPublicIP_V4 unsigned_of_nat take_bit_nat_eq_self)

text \<open>
  C4: A url the validator accepts has a host and no userinfo. If \<^verbatim>\<open>net/netip\<close> reads its host as an
  address, that is an IPv4 address outside the ten forbidden ranges, a mapped one whose target is, or
  another IPv6 address outside the ten forbidden IPv6 ranges; one with a zone is held to loopback,
  unique local, link local and multicast alone. If a C library reads it as an IPv4 address in any of
  its spellings (hex, octal, fewer parts), that one is outside the ten ranges too.
\<close>

theorem accepted_url_is_public:
  assumes "ValidatePublicHTTPSURL url_Parse raw = None"
  shows "\<exists>u. url_Parse raw = Some u \<and> Hostname u \<noteq> [] \<and> \<not> u_HasUser u \<and>
           (case ParseAddr (Hostname u) of Some a \<Rightarrow> \<not> forbidden_addr a | None \<Rightarrow> True) \<and>
           (case inet_aton (Hostname u) of
              Some v \<Rightarrow> \<not> within v4_forbidden v
            | None \<Rightarrow> True)"
proof -
  obtain u where u: "url_Parse raw = Some u" "ValidatePublicParsedHTTPSURL u = None"
    using assms by (auto simp: ValidatePublicHTTPSURL_def split: option.splits)
  have c: "Hostname u \<noteq> []" "\<not> u_HasUser u"
    using u(2) by (auto simp: ValidatePublicParsedHTTPSURL_def checkHTTPSURL_def split: if_splits)
  have pub: "case ParseAddr (Hostname u) of Some a \<Rightarrow> isPublicIP a | None \<Rightarrow> \<not> numericIPHost (Hostname u)"
    using u(2) by (auto simp: ValidatePublicParsedHTTPSURL_def parseIPHost_ParseAddr split: option.splits if_splits)
  have "\<not> list_ex (\<lambda>(lo, hi). lo \<le> v \<and> v \<le> hi) v4_forbidden" if v: "inet_aton (Hostname u) = Some v" for v
  proof -
    obtain a where a: "ParseAddr (Hostname u) = Some a" "isPublicIP a"
      using pub inet_aton_numeric [OF v] by (auto split: option.splits)
    have "parseIPv4 (Hostname u) = Some a"
      using a(1) inet_aton_no_colon [OF v] addr_kind_member [of "Hostname u"]
      by (auto simp: ParseAddr_def split: option.splits if_splits)
    then show ?thesis
      using parseIPv4_inet_aton [OF _ v] a(2) public_aton [OF v] by simp
  qed
  then show ?thesis
    using u(1) c pub by (intro exI [of _ u]) (auto simp: isPublicIP_forbidden within_def split: option.splits)
qed

theorem accepted_url_is_public_witness:
  "\<exists>u. (\<lambda>raw. Some \<lparr>u_Scheme = ''https'', u_Host = raw, u_HasUser = False\<rparr>) ''8.8.8.8:443'' = Some u \<and> Hostname u \<noteq> [] \<and> \<not> u_HasUser u \<and>
           (case ParseAddr (Hostname u) of Some a \<Rightarrow> \<not> forbidden_addr a | None \<Rightarrow> True) \<and>
           (case inet_aton (Hostname u) of
              Some v \<Rightarrow> \<not> within v4_forbidden v
            | None \<Rightarrow> True)"
proof (rule accepted_url_is_public)
  have "Hostname \<lparr>u_Scheme = ''https'', u_Host = ''8.8.8.8:443'', u_HasUser = False\<rparr> = ''8.8.8.8''"
    by (simp add: Hostname_def validOptionalPort_def is_digit_def)
  moreover have "parseIPHost ''8.8.8.8'' = Some (V4 0x08080808)"
    by (simp add: parseIPHost_ParseAddr model_defs)
  moreover have "isPublicIP (V4 0x08080808)" by (simp add: isPublicIP_V4 v4_forbidden_def)
  ultimately show "ValidatePublicHTTPSURL (\<lambda>raw. Some \<lparr>u_Scheme = ''https'', u_Host = raw, u_HasUser = False\<rparr>) ''8.8.8.8:443'' = None"
    by (simp add: ValidatePublicHTTPSURL_def ValidatePublicParsedHTTPSURL_def checkHTTPSURL_def fold_https_def lower_byte_def is_upper_def)
qed

text \<open>The reserved IPv6 prefixes hold no zoned address, so a zone takes an address out of them.\<close>

lemma zoned_unspecified_accepted:
  "ValidatePublicParsedHTTPSURL \<lparr>u_Scheme = ''https'', u_Host = ''[::%lo]'', u_HasUser = False\<rparr> = None"
  "ValidatePublicParsedHTTPSURL \<lparr>u_Scheme = ''https'', u_Host = ''[::]'', u_HasUser = False\<rparr> = Some NonPublicTarget"
proof -
  have h: "Hostname \<lparr>u_Scheme = ''https'', u_Host = ''[::%lo]'', u_HasUser = False\<rparr> = ''::%lo''"
    "Hostname \<lparr>u_Scheme = ''https'', u_Host = ''[::]'', u_HasUser = False\<rparr> = ''::''"
    by (simp_all add: Hostname_def validOptionalPort_def is_digit_def)
  have "parseIPHost ''::%lo'' = Some (V6 0 0 ''lo'')" "parseIPHost ''::'' = Some (V6 0 0 [])"
    by (simp_all add: parseIPHost_ParseAddr model_defs)
  moreover have "isPublicIP (V6 0 0 ''lo'')" "\<not> isPublicIP (V6 0 0 [])"
    by (simp_all add: isPublicIP_def IsUnspecified_def IsValid_def reservedPrefixes_values prefix_Contains_def)
  ultimately show "ValidatePublicParsedHTTPSURL \<lparr>u_Scheme = ''https'', u_Host = ''[::%lo]'', u_HasUser = False\<rparr> = None"
    "ValidatePublicParsedHTTPSURL \<lparr>u_Scheme = ''https'', u_Host = ''[::]'', u_HasUser = False\<rparr> = Some NonPublicTarget"
    using h by (simp_all add: ValidatePublicParsedHTTPSURL_def checkHTTPSURL_def fold_https_def lower_byte_def is_upper_def)
qed

text \<open>The dialer tries the public answers in order and stops at the first that connects.\<close>

fun upto_live :: "(string \<Rightarrow> 'e + 'c) \<Rightarrow> string list \<Rightarrow> string list" where
  "upto_live dial [] = []"
| "upto_live dial (t # ts) = (case dial t of Inr c \<Rightarrow> [t] | Inl e \<Rightarrow> t # upto_live dial ts)"

definition public_targets :: "string \<Rightarrow> addr list \<Rightarrow> string list" where
  "public_targets port ips = map (\<lambda>ip. JoinHostPort (addr_String ip) port) (filter isPublicIP ips)"

lemma public_targets_simps [simp]:
  "public_targets port [] = []"
  "public_targets port (ip # ips) =
     (if isPublicIP ip then JoinHostPort (addr_String ip) port # public_targets port ips else public_targets port ips)"
  by (simp_all add: public_targets_def)

lemma dial_each_targets:
  "snd (dial_each dial port err ips) = upto_live dial (public_targets port ips)"
proof (induction dial port err ips rule: dial_each.induct)
  case (2 dial port err ip ips)
  show ?case
    using 2(1) 2(2) [OF _ refl]
    by (cases "dial (JoinHostPort (addr_String ip) port)") (auto simp: Let_def split: prod.splits)
qed simp

lemma dial_each_result:
  "fst (dial_each dial port err ips) =
     (let ts = public_targets port ips
      in if ts = [] then (case err of None \<Rightarrow> Inl DialNonPublic | Some e \<Rightarrow> Inl (DialError e))
         else (case dial (last (upto_live dial ts)) of Inr c \<Rightarrow> Inr c | Inl e \<Rightarrow> Inl (DialError e)))"
proof (induction dial port err ips rule: dial_each.induct)
  case (2 dial port err ip ips)
  have ne: "ts \<noteq> [] \<Longrightarrow> upto_live dial ts \<noteq> []" for ts
    by (cases ts) (auto split: sum.splits)
  show ?case
  proof (cases "isPublicIP ip")
    case True
    let ?t = "JoinHostPort (addr_String ip) port"
    show ?thesis
    proof (cases "dial ?t")
      case (Inl e)
      then show ?thesis
        using 2(2) [OF _ refl Inl] True ne [of "public_targets port ips"]
        by (auto simp: Let_def split: prod.splits)
    next
      case (Inr c)
      then show ?thesis using True by (simp add: Let_def)
    qed
  next
    case False
    then show ?thesis using 2(1) by simp
  qed
qed (simp add: Let_def)

text \<open>
  C19: The dialer of the guarded client. A name is dialled at its public addresses only, in the order
  of the answer and up to the first that connects; the outcome is that of the last dial, and a name
  without a public address is refused without one. A literal host is dialled iff it is public.
\<close>

theorem guarded_dial_public_only:
  "DialContext dial lookup True addr =
     (case SplitHostPort addr of
        None \<Rightarrow> (Inl SplitFailed, [])
      | Some (host, port) \<Rightarrow>
          let targets =
            (case ParseAddr host of
               Some ip \<Rightarrow> if isPublicIP ip then [addr] else []
             | None \<Rightarrow> (case lookup host of None \<Rightarrow> [] | Some ips \<Rightarrow> public_targets port ips))
          in (if targets = []
              then Inl (if ParseAddr host = None then if lookup host = None then LookupFailed else DialNonPublic
                        else DialNonPublic)
              else case dial (last (upto_live dial targets)) of Inr c \<Rightarrow> Inr c | Inl e \<Rightarrow> Inl (DialError e),
              upto_live dial targets))"
proof (cases "SplitHostPort addr")
  case (Some hp)
  obtain host port where hp: "hp = (host, port)" by (cases hp)
  have d: "dialPublicAddrs dial port ips =
     (let ts = public_targets port ips
      in (if ts = [] then Inl DialNonPublic
          else (case dial (last (upto_live dial ts)) of Inr c \<Rightarrow> Inr c | Inl e \<Rightarrow> Inl (DialError e)),
          upto_live dial ts))" for ips
    using dial_each_result [of dial port None ips] dial_each_targets [of dial port None ips]
    by (simp add: dialPublicAddrs_def Let_def prod_eq_iff)
  show ?thesis
    by (auto simp: DialContext_def Some hp parseIPHost_ParseAddr d Let_def split: option.splits sum.splits)
qed (simp add: DialContext_def Let_def)

end
