(* ===== verification/FetchBody.thy ===== *)
theory FetchBody
  imports GeoSources HttpGuard
begin

text \<open>
  \<^verbatim>\<open>internal/fetch/fetch.go\<close>, the reading half: a download is read under a byte limit, either into a
  buffer that starts at the announced length or into a chain of chunks, and a gzip stream is cut off
  when it inflates too far. A reader is its \<open>Read\<close> function: the state and the room in the buffer give
  the bytes, the error and the next state. The loops run as long as the reader makes them, so they
  are partial functions, and the first theorems say that they return. Lengths are natural numbers:
  none exceeds twice \<open>limit + 1\<close>, far below \<open>2 ^ 63\<close> for every limit of the service. The HTTP exchange
  and \<^verbatim>\<open>gzip.NewReader\<close> are parameters.
\<close>

section \<open>Readers\<close>

text \<open>The error of a \<open>Read\<close>: nil, \<open>io.EOF\<close>, or another one.\<close>

datatype rd_err = NoErr | EOF | RdFail

text \<open>
  The contract of \<open>io.Reader\<close>, for a reader with a finite stream: \<open>rest\<close> is what it has yet to deliver
  and \<open>fate\<close> the error it ends with. A call with room either ends or delivers something.
\<close>

locale io_reader =
  fixes Read :: "'r \<Rightarrow> nat \<Rightarrow> string \<times> rd_err \<times> 'r"
    and rest :: "'r \<Rightarrow> string"
    and fate :: "'r \<Rightarrow> rd_err"
  assumes takes: "Read r k = (d, e, r') \<Longrightarrow> rest r = d @ rest r' \<and> length d \<le> k"
    and ends: "Read r k = (d, e, r') \<Longrightarrow> e \<noteq> NoErr \<Longrightarrow> rest r' = [] \<and> e = fate r"
    and keeps: "Read r k = (d, NoErr, r') \<Longrightarrow> fate r' = fate r"
    and progress: "Read r k = (d, NoErr, r') \<Longrightarrow> 0 < k \<Longrightarrow> d \<noteq> []"

text \<open>
  The body of an identity-coded response: the segments the network delivers, the error at their end,
  and whether that error comes with the last bytes or in a call of its own.
\<close>

datatype body = Body (bd_segments: "string list") (bd_end: rd_err) (bd_eager: bool)

function body_Read :: "body \<Rightarrow> nat \<Rightarrow> string \<times> rd_err \<times> body" where
  "body_Read (Body [] f eager) k = ([], if f = NoErr then EOF else f, Body [] f eager)"
| "body_Read (Body ([] # ss) f eager) k = body_Read (Body ss f eager) k"
| "body_Read (Body ((c # s) # ss) f eager) k =
     (let ss' = drop k (c # s) # ss
      in (take k (c # s),
          if eager \<and> concat ss' = [] then (if f = NoErr then EOF else f) else NoErr,
          Body ss' f eager))"
  by pat_completeness auto
termination
  by (relation "measure (\<lambda>(b, k). length (bd_segments b))") auto

definition body_rest :: "body \<Rightarrow> string" where
  "body_rest b = concat (bd_segments b)"

definition body_fate :: "body \<Rightarrow> rd_err" where
  "body_fate b = (if bd_end b = NoErr then EOF else bd_end b)"

lemma body_Read_laws:
  "body_Read b k = (d, e, b') \<Longrightarrow>
     body_rest b = d @ body_rest b' \<and> length d \<le> k \<and> (e \<noteq> NoErr \<longrightarrow> body_rest b' = [] \<and> e = body_fate b) \<and>
     body_fate b' = body_fate b \<and> (e = NoErr \<longrightarrow> 0 < k \<longrightarrow> d \<noteq> [])"
  by (induction b k rule: body_Read.induct)
    (auto simp: body_rest_def body_fate_def Let_def split: if_splits)

section \<open>Reading under a limit\<close>

definition maxEagerBody :: nat where
  "maxEagerBody = 256 * 1024"

definition unannouncedChunk :: nat where
  "unannouncedChunk = 48 * 1024"

text \<open>\<^verbatim>\<open>growBody\<close>: the length of the next buffer; the old one is full and is copied to its front.\<close>

definition growBody :: "nat \<Rightarrow> nat \<Rightarrow> nat \<Rightarrow> nat" where
  "growBody sz hint limit =
     (let ceiling = limit + 1;
          half = (ceiling + 1) div 2;
          nxt = min (sz + sz) ceiling
      in if hint + 1 \<le> half \<and> sz < hint + 1 then min nxt (hint + 1)
         else if nxt < ceiling then min nxt half
         else nxt)"

text \<open>The announced loop: \<open>buf\<close> is the part read so far of a buffer of length \<open>sz\<close>.\<close>

partial_function (option) announced_loop ::
  "('r \<Rightarrow> nat \<Rightarrow> string \<times> rd_err \<times> 'r) \<Rightarrow> nat \<Rightarrow> nat \<Rightarrow> string \<Rightarrow> nat \<Rightarrow> 'r \<Rightarrow> ((unit + string) \<times> 'r) option" where
  "announced_loop Read limit hint buf sz r =
     (case Read r (sz - length buf) of (d, e, r') \<Rightarrow>
        (if e = EOF then Some (Inr (buf @ d), r')
         else if e \<noteq> NoErr then Some (Inl (), r')
         else if length (buf @ d) < sz then announced_loop Read limit hint (buf @ d) sz r'
         else if length (buf @ d) > limit then Some (Inr (buf @ d), r')
         else announced_loop Read limit hint (buf @ d) (growBody sz hint limit) r'))"

text \<open>One chunk of the chain: filled, or cut short by the error that ended it.\<close>

partial_function (option) fill_chunk ::
  "('r \<Rightarrow> nat \<Rightarrow> string \<times> rd_err \<times> 'r) \<Rightarrow> nat \<Rightarrow> string \<Rightarrow> 'r \<Rightarrow> (string \<times> rd_err \<times> 'r) option" where
  "fill_chunk Read sz chunk r =
     (if length chunk < sz then
        (case Read r (sz - length chunk) of (d, e, r') \<Rightarrow>
           (if e \<noteq> NoErr then Some (chunk @ d, e, r') else fill_chunk Read sz (chunk @ d) r'))
      else Some (chunk, NoErr, r))"

definition joinChunks :: "string list \<Rightarrow> string" where
  "joinChunks chunks = (if length chunks = 1 then hd chunks else concat chunks)"

partial_function (option) chunk_loop ::
  "('r \<Rightarrow> nat \<Rightarrow> string \<times> rd_err \<times> 'r) \<Rightarrow> nat \<Rightarrow> string list \<Rightarrow> nat \<Rightarrow> nat \<Rightarrow> 'r \<Rightarrow> ((unit + string) \<times> 'r) option" where
  "chunk_loop Read ceiling chunks total_n sz r =
     Option.bind (fill_chunk Read sz [] r) (\<lambda>(chunk, e, r').
       (if e = EOF then Some (Inr (joinChunks (chunks @ [chunk])), r')
        else if e \<noteq> NoErr then Some (Inl (), r')
        else if total_n + length chunk \<ge> ceiling then Some (Inr (joinChunks (chunks @ [chunk])), r')
        else chunk_loop Read ceiling (chunks @ [chunk]) (total_n + length chunk)
               (min (sz + sz div 2) (ceiling - (total_n + length chunk))) r'))"

definition readChunked ::
  "('r \<Rightarrow> nat \<Rightarrow> string \<times> rd_err \<times> 'r) \<Rightarrow> nat \<Rightarrow> 'r \<Rightarrow> ((unit + string) \<times> 'r) option" where
  "readChunked Read limit r = chunk_loop Read (limit + 1) [] 0 (min unannouncedChunk (limit + 1)) r"

definition readBody ::
  "('r \<Rightarrow> nat \<Rightarrow> string \<times> rd_err \<times> 'r) \<Rightarrow> nat \<Rightarrow> int \<Rightarrow> 'r \<Rightarrow> ((unit + string) \<times> 'r) option" where
  "readBody Read limit hint r =
     (if hint \<le> 0 \<or> hint > int limit then readChunked Read limit r
      else announced_loop Read limit (nat hint) [] (min (nat hint) maxEagerBody + 1) r)"

lemma growBody_bounds:
  assumes "0 < sz" "sz \<le> limit"
  shows "sz < growBody sz hint limit" "growBody sz hint limit \<le> 2 * sz"
    "growBody sz hint limit \<le> limit + 1"
    "growBody sz hint limit < limit + 1 \<Longrightarrow> growBody sz hint limit \<le> (limit + 2) div 2"
  using assms by (auto simp: growBody_def Let_def min_def split: if_splits)

lemma joinChunks_concat [simp]: "joinChunks (chunks @ [c]) = concat chunks @ c"
  by (cases chunks) (auto simp: joinChunks_def)

text \<open>What a read under a limit owes its caller: the stream up to one byte past the limit.\<close>

definition capped :: "nat \<Rightarrow> string \<Rightarrow> rd_err \<Rightarrow> unit + string \<Rightarrow> bool" where
  "capped limit stream f res =
     (case res of
        Inr out \<Rightarrow> out = take (limit + 1) stream \<and> (limit < length stream \<or> f = EOF)
      | Inl u \<Rightarrow> f \<noteq> EOF \<and> length stream \<le> limit + 1)"

context io_reader
begin

lemma shrinks: "Read r k = (d, NoErr, r') \<Longrightarrow> 0 < k \<Longrightarrow> length (rest r') < length (rest r)"
  using takes [of r k d NoErr r'] progress [of r k d r'] by auto

lemma announced_loop_capped:
  "length buf < sz \<Longrightarrow> sz \<le> limit + 1 \<Longrightarrow>
     \<exists>res r'. announced_loop Read limit hint buf sz r = Some (res, r') \<and> capped limit (buf @ rest r) (fate r) res"
proof (induction "length (rest r)" arbitrary: buf sz r rule: less_induct)
  case less
  obtain d e r' where rd: "Read r (sz - length buf) = (d, e, r')" by (cases "Read r (sz - length buf)")
  note t = takes [OF rd]
  have len: "length (buf @ d) \<le> sz" using t less.prems by auto
  show ?case
  proof (cases "e = NoErr")
    case False
    then have "rest r' = []" "e = fate r" using ends [OF rd] by auto
    then show ?thesis using False t len less.prems
      by (subst announced_loop.simps) (auto simp: rd capped_def)
  next
    case True
    then have sh: "length (rest r') < length (rest r)" and ft: "fate r' = fate r"
      using shrinks rd less.prems keeps by auto
    have go: "\<exists>res r''. announced_loop Read limit hint (buf @ d) s r' = Some (res, r'') \<and> capped limit (buf @ rest r) (fate r) res"
      if "length (buf @ d) < s" "s \<le> limit + 1" for s
      using less.hyps [OF sh, of "buf @ d" s] that ft t by auto
    consider "length (buf @ d) < sz" | "length (buf @ d) = sz" "length (buf @ d) > limit"
      | "length (buf @ d) = sz" "length (buf @ d) \<le> limit"
      using len by linarith
    then show ?thesis
    proof cases
      case 1
      then show ?thesis using go [of sz] less.prems True by (subst announced_loop.simps) (simp add: rd)
    next
      case 2
      then show ?thesis using less.prems True t
        by (subst announced_loop.simps) (auto simp: rd capped_def)
    next
      case 3
      then have "0 < sz" "sz \<le> limit" using less.prems by auto
      note g = growBody_bounds [OF this, of hint]
      show ?thesis using go [of "growBody sz hint limit"] g 3 True
        by (subst announced_loop.simps) (simp add: rd)
    qed
  qed
qed

lemma fill_chunk_spec:
  "length chunk \<le> sz \<Longrightarrow>
     \<exists>out e r'. fill_chunk Read sz chunk r = Some (out, e, r') \<and> chunk @ rest r = out @ rest r' \<and> length out \<le> sz \<and>
       (if e = NoErr then length out = sz \<and> fate r' = fate r else rest r' = [] \<and> e = fate r)"
proof (induction "length (rest r)" arbitrary: chunk r rule: less_induct)
  case less
  show ?case
  proof (cases "length chunk < sz")
    case False
    then show ?thesis using less.prems by (subst fill_chunk.simps) auto
  next
    case room: True
    obtain d e r' where rd: "Read r (sz - length chunk) = (d, e, r')" by (cases "Read r (sz - length chunk)")
    note t = takes [OF rd]
    show ?thesis
    proof (cases "e = NoErr")
      case False
      then show ?thesis using room t ends [OF rd] by (subst fill_chunk.simps) (auto simp: rd)
    next
      case True
      then have ft: "fate r' = fate r" and "length (rest r') < length (rest r)" "length (chunk @ d) \<le> sz"
        using shrinks [of r "sz - length chunk" d r'] keeps [of r "sz - length chunk" d r'] rd room t by auto
      note IH = less.hyps [OF \<open>length (rest r') < length (rest r)\<close> \<open>length (chunk @ d) \<le> sz\<close>]
      then obtain out e2 r2 where o: "fill_chunk Read sz (chunk @ d) r' = Some (out, e2, r2)"
          "(chunk @ d) @ rest r' = out @ rest r2" "length out \<le> sz"
          "if e2 = NoErr then length out = sz \<and> fate r2 = fate r' else rest r2 = [] \<and> e2 = fate r'"
        by blast
      show ?thesis using o room True t ft
        by (subst fill_chunk.simps) (auto simp: rd)
    qed
  qed
qed

lemma chunk_loop_capped:
  assumes "length (concat chunks) = total_n" "0 < sz" "total_n + sz \<le> limit + 1"
  shows "\<exists>res r'. chunk_loop Read (limit + 1) chunks total_n sz r = Some (res, r') \<and>
           capped limit (concat chunks @ rest r) (fate r) res"
  using assms
proof (induction "limit + 1 - total_n" arbitrary: chunks total_n sz r rule: less_induct)
  case less
  obtain c e r' where fc: "fill_chunk Read sz [] r = Some (c, e, r')" and sp: "rest r = c @ rest r'" "length c \<le> sz"
      "if e = NoErr then length c = sz \<and> fate r' = fate r else rest r' = [] \<and> e = fate r"
    using fill_chunk_spec [of "[]" sz r] by auto
  show ?case
  proof (cases "e = NoErr \<and> total_n + length c < limit + 1")
    case True
    define s where "s = min (sz + sz div 2) (limit + 1 - (total_n + length c))"
    have "\<exists>res r''. chunk_loop Read (limit + 1) (chunks @ [c]) (total_n + length c) s r' = Some (res, r'') \<and>
            capped limit (concat (chunks @ [c]) @ rest r') (fate r') res"
      by (rule less.hyps) (use less.prems sp True in \<open>auto simp: s_def intro: diff_less_mono2\<close>)
    then show ?thesis using True sp by (subst chunk_loop.simps) (auto simp: fc s_def)
  next
    case False
    then show ?thesis using sp less.prems
      by (subst chunk_loop.simps) (auto simp: fc capped_def split: if_splits)
  qed
qed

lemma readBody_capped:
  "\<exists>res r'. readBody Read limit hint r = Some (res, r') \<and> capped limit (rest r) (fate r) res"
proof (cases "hint \<le> 0 \<or> hint > int limit")
  case True
  have "unannouncedChunk > 0" by (simp add: unannouncedChunk_def)
  then show ?thesis using True chunk_loop_capped [of "[]" 0 "min unannouncedChunk (limit + 1)" limit r]
    by (simp add: readBody_def readChunked_def)
next
  case False
  then have "min (nat hint) maxEagerBody + 1 \<le> limit + 1" by linarith
  then show ?thesis using False announced_loop_capped [of "[]" "min (nat hint) maxEagerBody + 1" limit "nat hint" r]
    by (simp add: readBody_def)
qed

end

interpretation body: io_reader body_Read body_rest body_fate
  by unfold_locales (use body_Read_laws in blast)+


section \<open>Decoding\<close>

definition FileTypeRaw :: string where
  "FileTypeRaw = ''raw''"

definition FileTypeGzip :: string where
  "FileTypeGzip = ''gzip''"

definition ValidateFileType :: "string \<Rightarrow> bool" where
  "ValidateFileType fileType = (fileType = FileTypeRaw \<or> fileType = FileTypeGzip)"

definition maxWireExpansion :: nat where
  "maxWireExpansion = 100"

definition expansionFloor :: nat where
  "expansionFloor = 1024 * 1024"

text \<open>The wire counter: a reader and the bytes it has delivered.\<close>

fun wireCounter_Read ::
  "('r \<Rightarrow> nat \<Rightarrow> string \<times> rd_err \<times> 'r) \<Rightarrow> 'r \<times> nat \<Rightarrow> nat \<Rightarrow> string \<times> rd_err \<times> 'r \<times> nat" where
  "wireCounter_Read Read (r, n) k = (case Read r k of (d, e, r') \<Rightarrow> (d, e, r', n + length d))"

interpretation wire: io_reader "wireCounter_Read body_Read" "\<lambda>(r, n). body_rest r" "\<lambda>(r, n). body_fate r"
  by unfold_locales (auto split: prod.splits dest!: body_Read_laws)

text \<open>
  The gzip reader is a parameter: a program that reads its source any number of times, whatever it gets,
  and then returns. \<open>run_pulls\<close> runs it over a source reader, and threads the source's state through it.
\<close>

datatype 'a pulls = Return 'a | Pull nat "string \<times> rd_err \<Rightarrow> 'a pulls"

primrec run_pulls :: "('s \<Rightarrow> nat \<Rightarrow> string \<times> rd_err \<times> 's) \<Rightarrow> 'a pulls \<Rightarrow> 's \<Rightarrow> 'a \<times> 's" where
  "run_pulls Read (Return a) s = (a, s)"
| "run_pulls Read (Pull k f) s = (case Read s k of (d, e, s') \<Rightarrow> run_pulls Read (f (d, e)) s')"

text \<open>The guard: the gzip reader's state, the wire counter it reads from, and what it put out.\<close>

record ('r, 'z) expansionGuard =
  g_zr :: 'z
  g_wire :: "'r \<times> nat"
  g_out :: nat

definition expansionGuard_Read ::
  "('r \<Rightarrow> nat \<Rightarrow> string \<times> rd_err \<times> 'r) \<Rightarrow> ('z \<Rightarrow> nat \<Rightarrow> (string \<times> rd_err \<times> 'z) pulls) \<Rightarrow> ('r, 'z) expansionGuard \<Rightarrow> nat \<Rightarrow>
     string \<times> rd_err \<times> ('r, 'z) expansionGuard" where
  "expansionGuard_Read Read gz_Read g k =
     (case run_pulls (wireCounter_Read Read) (gz_Read (g_zr g) k) (g_wire g) of ((d, e, z), wire) \<Rightarrow>
        let g' = \<lparr>g_zr = z, g_wire = wire, g_out = g_out g + length d\<rparr>
        in (d, if g_out g' > expansionFloor \<and> g_out g' > snd (g_wire g') * maxWireExpansion then RdFail else e, g'))"

datatype ('r, 'z) decoded = Plain 'r | Guarded "('r, 'z) expansionGuard"

definition MaybeDecode ::
  "('r \<Rightarrow> nat \<Rightarrow> string \<times> rd_err \<times> 'r) \<Rightarrow> 'z option pulls \<Rightarrow> 'r \<Rightarrow> string \<Rightarrow> ('r, 'z) decoded option" where
  "MaybeDecode Read gz_New body fileType =
     (if fileType = FileTypeRaw then Some (Plain body)
      else case run_pulls (wireCounter_Read Read) gz_New (body, 0) of
        (None, wire) \<Rightarrow> None
      | (Some z, wire) \<Rightarrow> Some (Guarded \<lparr>g_zr = z, g_wire = wire, g_out = 0\<rparr>))"

section \<open>A download\<close>

definition userAgents :: "string list" where
  "userAgents =
     [''Happ/4.7.0'', ''v2rayNG/2.3.5'', ''v2rayN/7.24.8'',
      ''Shadowrocket/2701 CFNetwork/1399 Darwin/22.1.0 iPhone11,8'',
      ''HiddifyNext/4.1.2 (android) like ClashMeta v2ray sing-box'', ''ClashMetaForAndroid/2.11.33'']"

text \<open>The draw is an argument, below \<open>length userAgents\<close>.\<close>

definition UserAgent :: "nat \<Rightarrow> string" where
  "UserAgent draw = userAgents ! draw"

record request =
  rq_URL :: string
  rq_Headers :: "(string \<times> string) list"

record 'r response =
  rp_Status :: int
  rp_ContentLength :: int
  rp_Body :: 'r

definition download_request :: "nat \<Rightarrow> string \<Rightarrow> string \<Rightarrow> request" where
  "download_request draw rawURL hwid =
     \<lparr>rq_URL = rawURL,
      rq_Headers = (''User-Agent'', UserAgent draw) # (if hwid \<noteq> [] then [(''X-Hwid'', hwid)] else [])\<rparr>"

definition read_verdict :: "nat \<Rightarrow> unit + string \<Rightarrow> fetch_error + string" where
  "read_verdict limit res =
     (case res of
        Inl u \<Rightarrow> Inl (OtherError ''read response'')
      | Inr body \<Rightarrow> if length body > limit then Inl (OtherError ''response too large'') else Inr body)"

definition BytesWithTypeHWID ::
  "(string \<Rightarrow> URL option) \<Rightarrow> (request \<Rightarrow> 'r response option) \<Rightarrow> ('r \<Rightarrow> nat \<Rightarrow> string \<times> rd_err \<times> 'r) \<Rightarrow>
   'z option pulls \<Rightarrow> ('z \<Rightarrow> nat \<Rightarrow> (string \<times> rd_err \<times> 'z) pulls) \<Rightarrow> nat \<Rightarrow>
   string \<Rightarrow> nat \<Rightarrow> string \<Rightarrow> string \<Rightarrow> (fetch_error + string) option" where
  "BytesWithTypeHWID url_Parse client Read gz_New gz_Read draw rawURL limit fileType hwid =
     (if ValidatePublicHTTPSURL url_Parse rawURL \<noteq> None then Some (Inl (OtherError ''url''))
      else if \<not> ValidateFileType fileType then Some (Inl (OtherError ''unsupported file type''))
      else case url_Parse rawURL of
        None \<Rightarrow> Some (Inl (OtherError ''create request''))
      | Some u \<Rightarrow>
          (case client (download_request draw rawURL hwid) of
             None \<Rightarrow> Some (Inl (OtherError ''do request''))
           | Some resp \<Rightarrow>
               (if rp_Status resp < 200 \<or> rp_Status resp \<ge> 300 then Some (Inl (StatusError (nat (rp_Status resp))))
                else case MaybeDecode Read gz_New (rp_Body resp) fileType of
                  None \<Rightarrow> Some (Inl (OtherError ''decode response''))
                | Some reader \<Rightarrow>
                    (let hint = (if fileType = FileTypeRaw then rp_ContentLength resp else 0)
                     in map_option (read_verdict limit)
                          (case reader of
                             Plain r \<Rightarrow> map_option fst (readBody Read limit hint r)
                           | Guarded g \<Rightarrow> map_option fst (readBody (expansionGuard_Read Read gz_Read) limit hint g))))))"

definition BytesWithType ::
  "(string \<Rightarrow> URL option) \<Rightarrow> (request \<Rightarrow> 'r response option) \<Rightarrow> ('r \<Rightarrow> nat \<Rightarrow> string \<times> rd_err \<times> 'r) \<Rightarrow>
   'z option pulls \<Rightarrow> ('z \<Rightarrow> nat \<Rightarrow> (string \<times> rd_err \<times> 'z) pulls) \<Rightarrow> nat \<Rightarrow>
   string \<Rightarrow> nat \<Rightarrow> string \<Rightarrow> (fetch_error + string) option" where
  "BytesWithType url_Parse client Read gz_New gz_Read draw rawURL limit fileType =
     BytesWithTypeHWID url_Parse client Read gz_New gz_Read draw rawURL limit fileType []"

text \<open>
  C5: A raw download returns, whatever length the response announces and however the network cuts
  it up, and it returns a body exactly when the url is acceptable, the status is in the 200s and the
  stream ends cleanly within the limit; the body is then the whole stream.
\<close>

theorem raw_download_exact:
  "\<exists>res. BytesWithTypeHWID url_Parse client body_Read gz_New gz_Read draw rawURL limit FileTypeRaw hwid = Some res \<and>
     (res = Inr out \<longleftrightarrow>
        ValidatePublicHTTPSURL url_Parse rawURL = None \<and>
        (\<exists>resp. client (download_request draw rawURL hwid) = Some resp \<and> 200 \<le> rp_Status resp \<and> rp_Status resp < 300 \<and>
           body_rest (rp_Body resp) = out \<and> body_fate (rp_Body resp) = EOF \<and> length out \<le> limit))"
proof (cases "ValidatePublicHTTPSURL url_Parse rawURL = None \<and> client (download_request draw rawURL hwid) \<noteq> None")
  case False
  then show ?thesis
    by (auto simp: BytesWithTypeHWID_def ValidateFileType_def ValidatePublicHTTPSURL_def split: option.splits)
next
  case True
  then obtain resp u where r: "client (download_request draw rawURL hwid) = Some resp" "url_Parse rawURL = Some u"
    by (auto simp: ValidatePublicHTTPSURL_def split: option.splits)
  obtain res r' where b: "readBody body_Read limit (rp_ContentLength resp) (rp_Body resp) = Some (res, r')"
      "capped limit (body_rest (rp_Body resp)) (body_fate (rp_Body resp)) res"
    using body.readBody_capped by blast
  have "read_verdict limit res = Inr out \<longleftrightarrow>
          body_rest (rp_Body resp) = out \<and> body_fate (rp_Body resp) = EOF \<and> length out \<le> limit"
    using b(2) by (cases res) (auto simp: read_verdict_def capped_def)
  then show ?thesis
    using True r b(1)
    by (auto simp: BytesWithTypeHWID_def ValidateFileType_def MaybeDecode_def Let_def)
qed

section \<open>Compression bombs\<close>

text \<open>
  The counter is right: what it counted and what the body has yet to deliver is the body. So the guard
  measures its output against bytes that did arrive.
\<close>

definition wire_counts :: "body \<Rightarrow> body \<times> nat \<Rightarrow> bool" where
  "wire_counts body wire \<longleftrightarrow> snd wire + length (body_rest (fst wire)) = length (body_rest body)"

lemma wire_counts_step:
  assumes "wireCounter_Read body_Read wire k = (d, e, wire')" "wire_counts body wire"
  shows "wire_counts body wire'"
proof -
  obtain r n where w: "wire = (r, n)" by (cases wire)
  obtain d' e' r' where r: "body_Read r k = (d', e', r')" by (metis prod_cases3)
  show ?thesis using assms body_Read_laws [OF r] by (auto simp: w r wire_counts_def)
qed

lemma run_pulls_counts:
  "run_pulls (wireCounter_Read body_Read) p wire = (a, wire') \<Longrightarrow> wire_counts body wire \<Longrightarrow> wire_counts body wire'"
proof (induction p arbitrary: wire)
  case (Pull k f)
  obtain d e w1 where r: "wireCounter_Read body_Read wire k = (d, e, w1)" by (metis prod_cases3)
  show ?case using Pull.IH [of "f (d, e)" w1] Pull.prems wire_counts_step [OF r] by (simp add: r)
qed simp

definition within_expansion :: "body \<Rightarrow> (body, 'z) expansionGuard \<Rightarrow> bool" where
  "within_expansion body g \<longleftrightarrow>
     g_out g \<le> expansionFloor \<or> g_out g \<le> length (body_rest body) * maxWireExpansion"

lemma guard_step:
  assumes "expansionGuard_Read body_Read gz_Read g k = (d, e, g')"
  shows "g_out g' = g_out g + length d"
    and "wire_counts body (g_wire g) \<Longrightarrow> wire_counts body (g_wire g')"
    and "wire_counts body (g_wire g) \<Longrightarrow> e \<noteq> RdFail \<Longrightarrow> within_expansion body g'"
proof -
  obtain d1 e1 z wire where r: "run_pulls (wireCounter_Read body_Read) (gz_Read (g_zr g) k) (g_wire g) = ((d1, e1, z), wire)"
    by (metis prod.collapse)
  note def = assms [unfolded expansionGuard_Read_def r Let_def, simplified]
  show "g_out g' = g_out g + length d" using def by auto
  show counts: "wire_counts body (g_wire g')" if "wire_counts body (g_wire g)"
    using run_pulls_counts [OF r that] def by auto
  assume c: "wire_counts body (g_wire g)" and "e \<noteq> RdFail"
  then have "g_out g' \<le> expansionFloor \<or> g_out g' \<le> snd (g_wire g') * maxWireExpansion"
    using def by (auto split: if_splits)
  moreover have "snd (g_wire g') * maxWireExpansion \<le> length (body_rest body) * maxWireExpansion"
    using counts [OF c] by (simp add: wire_counts_def)
  ultimately show "within_expansion body g'" unfolding within_expansion_def by linarith
qed

text \<open>The loops keep an invariant of the reader that counts what it has delivered.\<close>

locale counted_reader =
  fixes Read :: "'r \<Rightarrow> nat \<Rightarrow> string \<times> rd_err \<times> 'r"
    and delivered :: "'r \<Rightarrow> nat"
    and ok :: "'r \<Rightarrow> bool"
  assumes counts: "Read r k = (d, e, r') \<Longrightarrow> delivered r' = delivered r + length d"
    and kept: "Read r k = (d, e, r') \<Longrightarrow> ok r \<Longrightarrow> e \<noteq> RdFail \<Longrightarrow> ok r'"
begin

lemma fill_chunk_counts:
  assumes ret: "fill_chunk Read sz chunk r = Some (out, e, r')"
    and start: "delivered r = n + length chunk" "ok r"
  shows "delivered r' = n + length out \<and> (e = RdFail \<or> ok r')"
proof -
  have "R = Read \<longrightarrow> delivered r = n + length chunk \<longrightarrow> ok r \<longrightarrow>
      delivered r' = n + length out \<and> (e = RdFail \<or> ok r')"
    if "fill_chunk R sz chunk r = Some (out, e, r')" for R sz chunk r
  proof (rule fill_chunk.raw_induct [where P = "\<lambda>R sz chunk r y. R = Read \<longrightarrow> delivered r = n + length chunk \<longrightarrow> ok r \<longrightarrow>
      delivered (snd (snd y)) = n + length (fst y) \<and> (fst (snd y) = RdFail \<or> ok (snd (snd y)))", OF _ that, unfolded fst_conv snd_conv])
    fix f :: "('r \<Rightarrow> nat \<Rightarrow> string \<times> rd_err \<times> 'r) \<Rightarrow> nat \<Rightarrow> string \<Rightarrow> 'r \<Rightarrow> (string \<times> rd_err \<times> 'r) option"
    fix R sz chunk r y
    assume IH: "\<And>R sz chunk r y. f R sz chunk r = Some y \<Longrightarrow> R = Read \<longrightarrow> delivered r = n + length chunk \<longrightarrow> ok r \<longrightarrow>
        delivered (snd (snd y)) = n + length (fst y) \<and> (fst (snd y) = RdFail \<or> ok (snd (snd y)))"
      and eq: "(if length chunk < sz then
        (case R r (sz - length chunk) of (d, e, r') \<Rightarrow>
           (if e \<noteq> NoErr then Some (chunk @ d, e, r') else f R sz (chunk @ d) r'))
        else Some (chunk, NoErr, r)) = Some y"
    obtain d e r' where rd: "R r (sz - length chunk) = (d, e, r')" by (cases "R r (sz - length chunk)")
    show "R = Read \<longrightarrow> delivered r = n + length chunk \<longrightarrow> ok r \<longrightarrow>
        delivered (snd (snd y)) = n + length (fst y) \<and> (fst (snd y) = RdFail \<or> ok (snd (snd y)))"
      using eq rd counts [of r "sz - length chunk" d e r'] kept [of r "sz - length chunk" d e r'] IH [of R sz "chunk @ d" r' y]
      by (cases "e = RdFail") (auto split: if_splits)
  qed
  then show ?thesis using assms by blast
qed

lemma announced_loop_counts:
  assumes ret: "announced_loop Read limit hint buf sz r = Some (Inr out, r')"
    and start: "delivered r = length buf" "ok r"
  shows "delivered r' = length out \<and> ok r'"
proof -
  have "R = Read \<longrightarrow> delivered r = length buf \<longrightarrow> ok r \<longrightarrow>
      (case fst y of Inr out \<Rightarrow> delivered (snd y) = length out \<and> ok (snd y) | Inl u \<Rightarrow> True)"
    if "announced_loop R limit hint buf sz r = Some y" for R limit hint buf sz r y
  proof (rule announced_loop.raw_induct [where P = "\<lambda>R limit hint buf sz r y. R = Read \<longrightarrow> delivered r = length buf \<longrightarrow> ok r \<longrightarrow>
      (case fst y of Inr out \<Rightarrow> delivered (snd y) = length out \<and> ok (snd y) | Inl u \<Rightarrow> True)", OF _ that])
    fix f :: "('r \<Rightarrow> nat \<Rightarrow> string \<times> rd_err \<times> 'r) \<Rightarrow> nat \<Rightarrow> nat \<Rightarrow> string \<Rightarrow> nat \<Rightarrow> 'r \<Rightarrow> ((unit + string) \<times> 'r) option"
    fix R limit hint buf sz r y
    assume IH: "\<And>R limit hint buf sz r y. f R limit hint buf sz r = Some y \<Longrightarrow> R = Read \<longrightarrow> delivered r = length buf \<longrightarrow> ok r \<longrightarrow>
        (case fst y of Inr out \<Rightarrow> delivered (snd y) = length out \<and> ok (snd y) | Inl u \<Rightarrow> True)"
      and eq: "(case R r (sz - length buf) of (d, e, r') \<Rightarrow>
        (if e = EOF then Some (Inr (buf @ d), r')
         else if e \<noteq> NoErr then Some (Inl (), r')
         else if length (buf @ d) < sz then f R limit hint (buf @ d) sz r'
         else if length (buf @ d) > limit then Some (Inr (buf @ d), r')
         else f R limit hint (buf @ d) (growBody sz hint limit) r')) = Some y"
    obtain d e r' where rd: "R r (sz - length buf) = (d, e, r')" by (cases "R r (sz - length buf)")
    show "R = Read \<longrightarrow> delivered r = length buf \<longrightarrow> ok r \<longrightarrow>
        (case fst y of Inr out \<Rightarrow> delivered (snd y) = length out \<and> ok (snd y) | Inl u \<Rightarrow> True)"
      using eq rd counts [of r "sz - length buf" d e r'] kept [of r "sz - length buf" d e r'] IH [of R limit hint "buf @ d" _ r' y]
      by (auto split: if_splits)
  qed
  then show ?thesis using assms by fastforce
qed

lemma chunk_loop_counts:
  assumes ret: "chunk_loop Read ceiling chunks total_n sz r = Some (Inr out, r')"
    and start: "delivered r = length (concat chunks)" "ok r"
  shows "delivered r' = length out \<and> ok r'"
proof -
  have "R = Read \<longrightarrow> delivered r = length (concat chunks) \<longrightarrow> ok r \<longrightarrow>
      (case fst y of Inr out \<Rightarrow> delivered (snd y) = length out \<and> ok (snd y) | Inl u \<Rightarrow> True)"
    if "chunk_loop R ceiling chunks total_n sz r = Some y" for R ceiling chunks total_n sz r y
  proof (rule chunk_loop.raw_induct [where P = "\<lambda>R ceiling chunks total_n sz r y. R = Read \<longrightarrow>
      delivered r = length (concat chunks) \<longrightarrow> ok r \<longrightarrow>
      (case fst y of Inr out \<Rightarrow> delivered (snd y) = length out \<and> ok (snd y) | Inl u \<Rightarrow> True)", OF _ that])
    fix f :: "('r \<Rightarrow> nat \<Rightarrow> string \<times> rd_err \<times> 'r) \<Rightarrow> nat \<Rightarrow> string list \<Rightarrow> nat \<Rightarrow> nat \<Rightarrow> 'r \<Rightarrow> ((unit + string) \<times> 'r) option"
    fix R ceiling chunks total_n sz r y
    assume IH: "\<And>R ceiling chunks total_n sz r y. f R ceiling chunks total_n sz r = Some y \<Longrightarrow> R = Read \<longrightarrow>
        delivered r = length (concat chunks) \<longrightarrow> ok r \<longrightarrow>
        (case fst y of Inr out \<Rightarrow> delivered (snd y) = length out \<and> ok (snd y) | Inl u \<Rightarrow> True)"
      and eq: "Option.bind (fill_chunk R sz [] r) (\<lambda>(chunk, e, r').
       (if e = EOF then Some (Inr (joinChunks (chunks @ [chunk])), r')
        else if e \<noteq> NoErr then Some (Inl (), r')
        else if total_n + length chunk \<ge> ceiling then Some (Inr (joinChunks (chunks @ [chunk])), r')
        else f R ceiling (chunks @ [chunk]) (total_n + length chunk)
               (min (sz + sz div 2) (ceiling - (total_n + length chunk))) r')) = Some y"
    obtain c e r' where fc: "fill_chunk R sz [] r = Some (c, e, r')"
      using eq by (cases "fill_chunk R sz [] r") auto
    show "R = Read \<longrightarrow> delivered r = length (concat chunks) \<longrightarrow> ok r \<longrightarrow>
        (case fst y of Inr out \<Rightarrow> delivered (snd y) = length out \<and> ok (snd y) | Inl u \<Rightarrow> True)"
      using eq fc fill_chunk_counts [of sz "[]" r c e r' "length (concat chunks)"]
        IH [of R ceiling "chunks @ [c]" "total_n + length c" "min (sz + sz div 2) (ceiling - (total_n + length c))" r' y]
      by (auto split: if_splits)
  qed
  then show ?thesis using assms by fastforce
qed

lemma readBody_counts:
  assumes "readBody Read limit hint r = Some (Inr out, r')" "delivered r = 0" "ok r"
  shows "delivered r' = length out \<and> ok r'"
  using assms announced_loop_counts [of limit "nat hint" "[]" _ r out r'] chunk_loop_counts [of _ "[]" 0 _ r out r']
  by (auto simp: readBody_def readChunked_def split: if_splits)

end

text \<open>Over a body whose bytes the counter has counted so far.\<close>

definition guard_ok :: "body \<Rightarrow> (body, 'z) expansionGuard \<Rightarrow> bool" where
  "guard_ok body g \<longleftrightarrow> wire_counts body (g_wire g) \<and> within_expansion body g"

interpretation guard: counted_reader "expansionGuard_Read body_Read gz_Read" g_out "guard_ok body"
  for gz_Read :: "'z \<Rightarrow> nat \<Rightarrow> (string \<times> rd_err \<times> 'z) pulls" and body
  by unfold_locales (auto simp: guard_ok_def dest: guard_step)

text \<open>
  C11: However the gzip reader reads its source, a compressed download is never accepted past its
  limit, nor, past the first MiB, past a hundred times the bytes the body of the response holds.
\<close>

theorem gzip_bomb_refused:
  assumes "BytesWithTypeHWID url_Parse client body_Read gz_New gz_Read draw rawURL limit FileTypeGzip hwid = Some (Inr out)"
  shows "\<exists>resp. client (download_request draw rawURL hwid) = Some resp \<and> length out \<le> limit \<and>
    (length out \<le> 1048576 \<or> length out \<le> 100 * length (body_rest (rp_Body resp)))"
proof -
  obtain resp z wire res g' where b: "client (download_request draw rawURL hwid) = Some resp"
      "run_pulls (wireCounter_Read body_Read) gz_New (rp_Body resp, 0) = (Some z, wire)"
      "readBody (expansionGuard_Read body_Read gz_Read) limit 0 \<lparr>g_zr = z, g_wire = wire, g_out = 0\<rparr> = Some (res, g')"
      "read_verdict limit res = Inr out"
    using assms
    by (auto simp: BytesWithTypeHWID_def MaybeDecode_def FileTypeRaw_def FileTypeGzip_def Let_def
        split: option.splits if_splits prod.splits)
  then have r: "res = Inr out" "length out \<le> limit"
    by (auto simp: read_verdict_def split: sum.splits if_splits)
  have "wire_counts (rp_Body resp) wire"
    using run_pulls_counts [OF b(2)] by (simp add: wire_counts_def)
  then have "guard_ok (rp_Body resp) \<lparr>g_zr = z, g_wire = wire, g_out = 0\<rparr>"
    by (simp add: guard_ok_def within_expansion_def)
  then have "g_out g' = length out" "within_expansion (rp_Body resp) g'"
    using guard.readBody_counts [OF b(3) [unfolded r(1)]] by (simp_all add: guard_ok_def)
  then have "length out \<le> 1048576 \<or> length out \<le> 100 * length (body_rest (rp_Body resp))"
    by (simp add: within_expansion_def expansionFloor_def maxWireExpansion_def mult.commute)
  then show ?thesis using r(2) b(1) by blast
qed

text \<open>A gzip reader of one byte of header that then doubles every byte of its source.\<close>

definition doubling_New :: "unit option pulls" where
  "doubling_New = Pull 1 (\<lambda>(d, e). Return (if d = [] then None else Some ()))"

definition doubling_Read :: "unit \<Rightarrow> nat \<Rightarrow> (string \<times> rd_err \<times> unit) pulls" where
  "doubling_Read z k = Pull (k div 2) (\<lambda>(d, e). Return (concat (map (\<lambda>c. [c, c]) d), e, ()))"

theorem gzip_bomb_refused_witness:
  "length ''aabb'' \<le> 10 \<and> (length ''aabb'' \<le> 1048576 \<or> length ''aabb'' \<le> 100 * length (body_rest (Body [''zab''] NoErr True)))"
proof -
  let ?u = "\<lparr>u_Scheme = ''https'', u_Host = ''a.b'', u_HasUser = False\<rparr>"
  let ?body = "Body [''zab''] NoErr True"
  have h: "Hostname ?u = ''a.b''" "parseIPHost ''a.b'' = None" "\<not> numericIPHost ''a.b''"
    by (simp_all add: Hostname_def parseIPHost_def ipv4Shape_def numericIPHost_def numeric_parts_split inetAtonPart_def
        hexDigitValue_def is_digit_def)
  have "run_pulls (wireCounter_Read body_Read) doubling_New (?body, 0) = (Some (), Body [''ab''] NoErr True, 1)"
    by (simp add: doubling_New_def Let_def)
  moreover have "readBody (expansionGuard_Read body_Read doubling_Read) 10 0
      \<lparr>g_zr = (), g_wire = (Body [''ab''] NoErr True, 1), g_out = 0\<rparr> =
          Some (Inr ''aabb'', \<lparr>g_zr = (), g_wire = (Body [[]] NoErr True, 3), g_out = 4\<rparr>)"
    by (simp add: readBody_def readChunked_def chunk_loop.simps fill_chunk.simps expansionGuard_Read_def doubling_Read_def
        unannouncedChunk_def expansionFloor_def joinChunks_def Let_def)
  ultimately have "BytesWithTypeHWID (\<lambda>s. Some ?u) (\<lambda>q. Some \<lparr>rp_Status = 200, rp_ContentLength = -1, rp_Body = ?body\<rparr>)
      body_Read doubling_New doubling_Read 0 [] 10 FileTypeGzip [] = Some (Inr ''aabb'')"
    using h
    by (simp add: BytesWithTypeHWID_def MaybeDecode_def FileTypeRaw_def FileTypeGzip_def ValidateFileType_def read_verdict_def
        ValidatePublicHTTPSURL_def ValidatePublicParsedHTTPSURL_def checkHTTPSURL_def fold_https_def lower_byte_def is_upper_def)
  from gzip_bomb_refused [OF this] show ?thesis by simp
qed

end
