(* ===== verification/ConfigCheck.thy ===== *)
theory ConfigCheck
  imports Config FetchBody
begin

text \<open>
  \<^verbatim>\<open>internal/config/config.go\<close>: validation and loading. An error is the head of its message, the
  setting it names; \<open>None\<close> is nil. The logger's level parser, the regexp compiler, the status-range
  parser, \<^verbatim>\<open>url.Parse\<close>, the strict YAML decoder and the reading of files are parameters.
\<close>

section \<open>Errors\<close>

text \<open>A sequence of checks, each returning its error at once; and \<^verbatim>\<open>errors.Join\<close>.\<close>

fun first_error :: "string option list \<Rightarrow> string option" where
  "first_error [] = None"
| "first_error (None # es) = first_error es"
| "first_error (Some e # es) = Some e"

fun join_lines :: "string list \<Rightarrow> string" where
  "join_lines [] = []"
| "join_lines [m] = m"
| "join_lines (m # ms) = m @ [newline] @ join_lines ms"

definition errors_Join :: "string option list \<Rightarrow> string option" where
  "errors_Join es =
     (case List.map_filter (\<lambda>e. e) es of [] \<Rightarrow> None | m # ms \<Rightarrow> Some (join_lines (m # ms)))"

definition fail_if :: "bool \<Rightarrow> string \<Rightarrow> string option" where
  "fail_if b msg = (if b then Some msg else None)"

definition filter_path :: "nat \<Rightarrow> string \<Rightarrow> string" where
  "filter_path i s = ''filters['' @ itoa i @ '']'' @ s"

record validation_env =
  ve_url_Parse :: "string \<Rightarrow> URL option"
  ve_level_ok :: "string \<Rightarrow> bool"
  ve_pattern_ok :: "string \<Rightarrow> bool"
  ve_ranges_ok :: "string \<Rightarrow> bool"

section \<open>Single settings\<close>

definition rejectNegativeDur :: "string \<Rightarrow> int option \<Rightarrow> string option" where
  "rejectNegativeDur path d = (case d of None \<Rightarrow> None | Some v \<Rightarrow> fail_if (v < 0) path)"

definition rejectNegativeInt :: "string \<Rightarrow> int option \<Rightarrow> string option" where
  "rejectNegativeInt path n = (case n of None \<Rightarrow> None | Some v \<Rightarrow> fail_if (v < 0) path)"

definition validateDownloadURL :: "validation_env \<Rightarrow> string \<Rightarrow> string \<Rightarrow> string option" where
  "validateDownloadURL env name raw =
     (case ve_url_Parse env (replace_all ''{yyyy-mm}'' ''2000-01'' raw) of
        None \<Rightarrow> Some name
      | Some u \<Rightarrow> fail_if (u_Scheme u \<noteq> ''https'' \<or> u_Host u = []) name)"

definition validateAPIEndpoint :: "validation_env \<Rightarrow> string \<Rightarrow> string \<Rightarrow> string option" where
  "validateAPIEndpoint env name raw =
     (case ve_url_Parse env raw of
        None \<Rightarrow> Some name
      | Some u \<Rightarrow> fail_if (u_Scheme u \<noteq> ''http'' \<and> u_Scheme u \<noteq> ''https'' \<or> u_Host u = []) name)"

definition isASCIILetter :: "char \<Rightarrow> bool" where
  "isASCIILetter b = (is_upper b \<or> is_lower b)"

definition validateCountryCode :: "string \<Rightarrow> string \<Rightarrow> string option" where
  "validateCountryCode name c0 =
     (let c = trim_space c0
      in if length c \<noteq> 2 then Some name
         else fail_if (\<not> isASCIILetter (c ! 0) \<or> \<not> isASCIILetter (c ! 1)) name)"

definition validateCountryList :: "string \<Rightarrow> string list \<Rightarrow> string option" where
  "validateCountryList name codes = first_error (map (validateCountryCode name) codes)"

definition validateResolverAddress :: "string \<Rightarrow> string option" where
  "validateResolverAddress addr =
     (if addr = [] then None
      else case SplitHostPort addr of
        None \<Rightarrow> Some ''resolver.address''
      | Some (host, port) \<Rightarrow>
          (if host = [] \<or> port = [] then Some ''resolver.address''
           else case atoi port of
             None \<Rightarrow> Some ''resolver.address''
           | Some n \<Rightarrow> fail_if (n < 1 \<or> n > 65535) ''resolver.address''))"

section \<open>Sections of the file\<close>

definition registry_validate :: "validation_env \<Rightarrow> RegistryConfig \<Rightarrow> string option" where
  "registry_validate env r = first_error (map (validateDownloadURL env ''geo.registry.urls'') (reg_URLs r))"

definition dbip_validate :: "validation_env \<Rightarrow> DBIPConfig \<Rightarrow> string option" where
  "dbip_validate env d = validateDownloadURL env ''geo.dbip.url'' (dbi_URL d)"

definition cloudflare_validate :: "CloudflareConfig \<Rightarrow> string option" where
  "cloudflare_validate c =
     errors_Join
       [rejectNegativeDur ''geo.cloudflare.timeout'' (Some (cfl_Timeout c)),
        rejectNegativeInt ''geo.cloudflare.concurrency'' (Some (cfl_Concurrency c))]"

definition validateNonNegative :: "Config \<Rightarrow> string option" where
  "validateNonNegative cfg =
     errors_Join
       [rejectNegativeDur ''resolver.timeout'' (Some (rsv_Timeout (cfg_Resolver cfg))),
        rejectNegativeDur ''resolver.cache_ttl'' (rsv_CacheTTL (cfg_Resolver cfg)),
        rejectNegativeDur ''resolver.cache_negative_ttl'' (rsv_CacheNegativeTTL (cfg_Resolver cfg)),
        rejectNegativeDur ''geo.asn.timeout'' (Some (asn_Timeout (geo_ASN (cfg_Geo cfg)))),
        rejectNegativeDur ''geo.asn.cache_ttl'' (Some (asn_CacheTTL (geo_ASN (cfg_Geo cfg)))),
        rejectNegativeDur ''fetch.timeout'' (Some (cfg_FetchTimeout cfg)),
        rejectNegativeDur ''deadcache.ttl'' (cfg_DeadCacheTTL cfg),
        rejectNegativeDur ''geo.geofeed.refresh_interval'' (gfd_RefreshInterval (geo_Geofeed (cfg_Geo cfg))),
        rejectNegativeDur ''geo.dbip.refresh_interval'' (dbi_RefreshInterval (geo_DBIP (cfg_Geo cfg))),
        rejectNegativeDur ''geo.registry.refresh_interval'' (reg_RefreshInterval (geo_Registry (cfg_Geo cfg))),
        rejectNegativeDur ''subscriptions.interval'' (Some (sub_Interval (cfg_Subscriptions cfg))),
        rejectNegativeDur ''subscriptions.check.timeout'' (Some (chk_Timeout (sub_Check (cfg_Subscriptions cfg)))),
        rejectNegativeDur ''subscriptions.check.source_timeout''
          (Some (chk_SourceTimeout (sub_Check (cfg_Subscriptions cfg))))]"

definition geoblock_endpoint :: "validation_env \<Rightarrow> string \<Rightarrow> string \<Rightarrow> string option" where
  "geoblock_endpoint env name raw = (if raw = [] then None else validateAPIEndpoint env name raw)"

definition geoblock_validate :: "validation_env \<Rightarrow> GeoBlockConfig \<Rightarrow> string option" where
  "geoblock_validate env g =
     errors_Join
       [rejectNegativeDur ''geoblock.ttl'' (Some (gbk_TTL g)),
        rejectNegativeDur ''geoblock.gemini.timeout'' (Some (gem_Timeout (gbk_Gemini g))),
        rejectNegativeInt ''geoblock.gemini.concurrency'' (Some (gem_Concurrency (gbk_Gemini g))),
        rejectNegativeInt ''geoblock.gemini.rate_limit'' (Some (gem_RateLimit (gbk_Gemini g))),
        geoblock_endpoint env ''geoblock.gemini.endpoint'' (gem_Endpoint (gbk_Gemini g)),
        rejectNegativeDur ''geoblock.claude.timeout'' (Some (cla_Timeout (gbk_Claude g))),
        rejectNegativeInt ''geoblock.claude.concurrency'' (Some (cla_Concurrency (gbk_Claude g))),
        geoblock_endpoint env ''geoblock.claude.endpoint'' (cla_Endpoint (gbk_Claude g)),
        rejectNegativeDur ''geoblock.chatgpt.timeout'' (Some (gpt_Timeout (gbk_ChatGPT g))),
        rejectNegativeInt ''geoblock.chatgpt.concurrency'' (Some (gpt_Concurrency (gbk_ChatGPT g))),
        geoblock_endpoint env ''geoblock.chatgpt.endpoint'' (gpt_Endpoint (gbk_ChatGPT g)),
        rejectNegativeDur ''geoblock.tidal.timeout'' (Some (tid_Timeout (gbk_Tidal g))),
        rejectNegativeInt ''geoblock.tidal.concurrency'' (Some (tid_Concurrency (gbk_Tidal g))),
        geoblock_endpoint env ''geoblock.tidal.endpoint'' (tid_Endpoint (gbk_Tidal g)),
        rejectNegativeDur ''geoblock.deepl.timeout'' (Some (dpl_Timeout (gbk_Deepl g))),
        rejectNegativeInt ''geoblock.deepl.concurrency'' (Some (dpl_Concurrency (gbk_Deepl g))),
        geoblock_endpoint env ''geoblock.deepl.endpoint'' (dpl_Endpoint (gbk_Deepl g))]"

definition geofeed_source_validate :: "Source \<Rightarrow> string option" where
  "geofeed_source_validate src =
     (if trim_space (URL src) = [] then Some ''geo.geofeed.sources.url''
      else if file_type src = [] then Some ''geo.geofeed.sources.type''
      else fail_if (\<not> ValidateFileType (file_type src)) ''validate source type'')"

definition geofeed_Validate :: "GeofeedConfig \<Rightarrow> string option" where
  "geofeed_Validate g = first_error (map geofeed_source_validate (gfd_Sources g))"

definition referencesGeofeed :: "Config \<Rightarrow> bool" where
  "referencesGeofeed cfg =
     (if list_ex (\<lambda>f. flt_Type f = ''country'' \<and> flt_Provider f = ''geofeed'') (cfg_Filters cfg) then True
      else AnnotateUsesProvider cfg ''geofeed'')"

definition validateGeofeed :: "Config \<Rightarrow> string option" where
  "validateGeofeed cfg =
     (case geofeed_Validate (geo_Geofeed (cfg_Geo cfg)) of
        Some e \<Rightarrow> Some e
      | None \<Rightarrow>
          (if length (gfd_Sources (geo_Geofeed (cfg_Geo cfg))) > 0 \<or> \<not> referencesGeofeed cfg then None
           else Some ''geo.geofeed.sources''))"

definition groups_Validate :: "Groups \<Rightarrow> string option" where
  "groups_Validate gs =
     first_error (map (\<lambda>(name, countries).
       if name = [] then Some ''groups''
       else if countries = [] then Some (''groups.'' @ name)
       else validateCountryList (''groups.'' @ name) countries) gs)"

section \<open>Filters\<close>

definition validateCountryFilter :: "Config \<Rightarrow> nat \<Rightarrow> FilterConfig \<Rightarrow> string option" where
  "validateCountryFilter cfg i f =
     (if flt_Provider f \<noteq> ''geofeed'' \<and> flt_Provider f \<noteq> ''asn'' then Some (filter_path i []) 
      else case validateCountryList (filter_path i ''.exclude_countries'') (flt_ExcludeCountries f) of
        Some e \<Rightarrow> Some e
      | None \<Rightarrow>
          first_error (map (\<lambda>g. fail_if (map_of (cfg_Groups cfg) g = None) (filter_path i ''.exclude_groups''))
            (flt_ExcludeGroups f)))"

definition validateASNFilter :: "validation_env \<Rightarrow> nat \<Rightarrow> FilterConfig \<Rightarrow> string option" where
  "validateASNFilter env i f =
     first_error (map (\<lambda>p. fail_if (\<not> ve_pattern_ok env p) (filter_path i ''.deny_patterns'')) (flt_DenyPatterns f))"

definition validateCIDRFilter :: "validation_env \<Rightarrow> nat \<Rightarrow> FilterConfig \<Rightarrow> string option" where
  "validateCIDRFilter env i f =
     (if flt_URLs f = [] then Some (filter_path i ''.urls'')
      else first_error
        (map (\<lambda>u. fail_if (ValidatePublicHTTPSURL (ve_url_Parse env) u \<noteq> None) (filter_path i ''.urls'')) (flt_URLs f) @
         [fail_if (\<not> ValidateFileType (flt_FileType f)) (filter_path i ''.file_type''),
          rejectNegativeDur (filter_path i ''.refresh_interval'') (flt_RefreshInterval f)]))"

definition validateAPIFilter :: "validation_env \<Rightarrow> nat \<Rightarrow> FilterConfig \<Rightarrow> string option" where
  "validateAPIFilter env i f =
     (if flt_Timeout f < 0 then Some (filter_path i ''.timeout'')
      else if flt_Concurrency f < 0 then Some (filter_path i ''.concurrency'')
      else if flt_Endpoint f \<noteq> [] then validateAPIEndpoint env (filter_path i ''.endpoint'') (flt_Endpoint f)
      else None)"

definition validateBandwidth :: "validation_env \<Rightarrow> nat \<Rightarrow> FilterConfig \<Rightarrow> string option" where
  "validateBandwidth env i f =
     (if (case flt_MinMbps f of None \<Rightarrow> False | Some n \<Rightarrow> n < 0) then Some (filter_path i ''.min_mbps'')
      else if flt_Timeout f \<le> 0 then Some (filter_path i ''.timeout'')
      else if flt_Concurrency f < 1 then Some (filter_path i ''.concurrency'')
      else if flt_TestURL f \<noteq> [] then validateAPIEndpoint env (filter_path i ''.test_url'') (flt_TestURL f)
      else None)"

definition validateFilter :: "validation_env \<Rightarrow> Config \<Rightarrow> nat \<Rightarrow> FilterConfig \<Rightarrow> string option" where
  "validateFilter env cfg i f =
     (if flt_Type f = ''country'' then validateCountryFilter cfg i f
      else if flt_Type f = ''asn'' then validateASNFilter env i f
      else if flt_Type f = ''cidr'' then validateCIDRFilter env i f
      else if flt_Type f = ''gemini'' then
        (if flt_RateLimit f < 0 then Some (filter_path i ''.rate_limit'')
         else case validateAPIFilter env i f of
           Some e \<Rightarrow> Some e
         | None \<Rightarrow>
             (let merged = mergedGemini f (gbk_Gemini (cfg_GeoBlock cfg))
              in fail_if (gem_APIKey merged = [] \<and> gem_KeyFile merged = []) (filter_path i '' (type gemini)'')))
      else if flt_Type f = ''claude'' \<or> flt_Type f = ''chatgpt'' \<or> flt_Type f = ''tidal'' \<or> flt_Type f = ''deepl''
        then validateAPIFilter env i f
      else if flt_Type f = ''bandwidth'' then validateBandwidth env i f
      else Some (filter_path i []))"

text \<open>The loop over the filters: whether a cidr one was seen, and the through-node types seen.\<close>

fun validate_filters_loop ::
  "validation_env \<Rightarrow> Config \<Rightarrow> nat \<Rightarrow> bool \<Rightarrow> string list \<Rightarrow> FilterConfig list \<Rightarrow> string option" where
  "validate_filters_loop env cfg i seenCIDR seen [] = None"
| "validate_filters_loop env cfg i seenCIDR seen (f # fs) =
     (if flt_Type f = ''cidr'' \<and> seenCIDR then Some (filter_path i [])
      else if flt_Type f \<in> set throughNodeTypes \<and> flt_Type f \<in> set seen then Some (filter_path i [])
      else case validateFilter env cfg i f of
        Some e \<Rightarrow> Some e
      | None \<Rightarrow>
          validate_filters_loop env cfg (i + 1) (flt_Type f = ''cidr'' \<or> seenCIDR)
            (if flt_Type f \<in> set throughNodeTypes then flt_Type f # seen else seen) fs)"

definition validateFilters :: "validation_env \<Rightarrow> Config \<Rightarrow> string option" where
  "validateFilters env cfg = validate_filters_loop env cfg 0 False [] (cfg_Filters cfg)"

fun validateProviderChain :: "string list \<Rightarrow> string list \<Rightarrow> string option" where
  "validateProviderChain before [] = None"
| "validateProviderChain before (p # ps) =
     (if p \<notin> {''cloudflare'', ''geofeed'', ''dbip'', ''registry'', ''asn''} then Some ''annotate''
      else if p \<in> set before then Some ''annotate''
      else validateProviderChain (before @ [p]) ps)"

definition validateAnnotate :: "Config \<Rightarrow> string option" where
  "validateAnnotate cfg =
     first_error (map (\<lambda>a.
       if Tag a \<noteq> ''GEO'' then Some ''annotate''
       else if Providers a = [] then Some ''annotate''
       else validateProviderChain [] (Providers a)) (cfg_Annotate cfg))"

section \<open>Subscriptions\<close>

definition check_validate :: "validation_env \<Rightarrow> CheckConfig \<Rightarrow> string option" where
  "check_validate env c =
     (if chk_Rounds c < 1 then Some ''subscriptions.check.rounds''
      else if chk_Concurrency c < 1 then Some ''subscriptions.check.concurrency''
      else if chk_Timeout c \<le> 0 then Some ''subscriptions.check.timeout''
      else if chk_SourceTimeout c \<le> 0 then Some ''subscriptions.check.source_timeout''
      else if chk_MaxFail c < 0 \<or> chk_MaxFail c \<ge> chk_Rounds c then Some ''subscriptions.check.max_fail''
      else if chk_MaxAvgMs c < 1 then Some ''subscriptions.check.max_avg_ms''
      else if \<not> ve_ranges_ok env (chk_ExpectedStatus c) then Some ''subscriptions.check.expected_status''
      else if chk_TestURL c \<noteq> [] then validateAPIEndpoint env ''subscriptions.check.test_url'' (chk_TestURL c)
      else None)"

definition checkCycleBudget :: "SubscriptionsConfig \<Rightarrow> string option" where
  "checkCycleBudget s =
     (if chk_Rounds (sub_Check s) > sub_Interval s div chk_Timeout (sub_Check s) then Some ''subscriptions.check.rounds''
      else fail_if (chk_SourceTimeout (sub_Check s) > sub_Interval s) ''subscriptions.check.source_timeout'')"

definition sourceName_ok :: "string \<Rightarrow> bool" where
  "sourceName_ok s = (s \<noteq> [] \<and> list_all (\<lambda>c. is_lower c \<or> is_digit c \<or> c = CHR ''-'') s)"

definition sourceHWID_ok :: "string \<Rightarrow> bool" where
  "sourceHWID_ok s =
     (10 \<le> length s \<and> length s \<le> 64 \<and>
      list_all (\<lambda>c. is_lower c \<or> is_upper c \<or> is_digit c \<or> c = CHR ''='' \<or> c = CHR ''-'') s)"

definition errManagedInCuratedFile :: "string \<Rightarrow> string \<Rightarrow> string" where
  "errManagedInCuratedFile file name = ''subscriptions.sources.'' @ name @ '': managed: true; '' @ file"

definition validateSourceHWID :: "SubscriptionSource \<Rightarrow> string option" where
  "validateSourceHWID src =
     (if su_HWID src = [] then None
      else if \<not> sourceHWID_ok (su_HWID src) then Some (''subscriptions.sources.'' @ su_Name src)
      else fail_if (trim_space (su_URL src) = []) (''subscriptions.sources.'' @ su_Name src))"

text \<open>The loop over the sources: the names seen, and the owner of each fetched url and hwid.\<close>

fun validate_sources_loop ::
  "validation_env \<Rightarrow> string \<Rightarrow> string list \<Rightarrow> ((string \<times> string) \<times> string) list \<Rightarrow> SubscriptionSource list \<Rightarrow> string option" where
  "validate_sources_loop env curatedFile seen urlOwner [] = None"
| "validate_sources_loop env curatedFile seen urlOwner (src # ss) =
     (if curatedFile \<noteq> [] \<and> su_Managed src then Some (errManagedInCuratedFile curatedFile (su_Name src))
      else if \<not> sourceName_ok (su_Name src) then Some ''subscriptions.sources: invalid name''
      else if su_Name src \<in> set seen then Some ''subscriptions.sources: duplicate name''
      else if trim_space (su_Body src) = [] \<and> ValidatePublicHTTPSURL (ve_url_Parse env) (su_URL src) \<noteq> None
        then Some (''subscriptions.sources.'' @ su_Name src)
      else
        (let url = trim_space (su_URL src);
             key = (url, su_HWID src)
         in if url \<noteq> [] \<and> map_of urlOwner key \<noteq> None then Some (''subscriptions.sources.'' @ su_Name src)
            else case validateSourceHWID src of
              Some e \<Rightarrow> Some e
            | None \<Rightarrow>
                validate_sources_loop env curatedFile (su_Name src # seen)
                  (if url \<noteq> [] then (key, su_Name src) # urlOwner else urlOwner) ss))"

definition validateSources :: "validation_env \<Rightarrow> string \<Rightarrow> SubscriptionSource list \<Rightarrow> string option" where
  "validateSources env curatedFile ss = validate_sources_loop env curatedFile [] [] ss"

definition subscriptions_Validate :: "validation_env \<Rightarrow> SubscriptionsConfig \<Rightarrow> string option" where
  "subscriptions_Validate env s =
     (if sub_Interval s < minSubsInterval then Some ''subscriptions.interval''
      else case check_validate env (sub_Check s) of
        Some e \<Rightarrow> Some e
      | None \<Rightarrow>
          (case checkCycleBudget s of
             Some e \<Rightarrow> Some e
           | None \<Rightarrow> validateSources env ''sources.yaml'' (sub_Sources s)))"

section \<open>The whole file\<close>

definition Validate :: "validation_env \<Rightarrow> Config \<Rightarrow> string option" where
  "Validate env cfg =
     first_error
       [fail_if (cfg_LogLevel cfg \<noteq> [] \<and> \<not> ve_level_ok env (cfg_LogLevel cfg)) ''log.level'',
        validateResolverAddress (rsv_Address (cfg_Resolver cfg)),
        validateNonNegative cfg,
        geoblock_validate env (cfg_GeoBlock cfg),
        validateGeofeed cfg,
        dbip_validate env (geo_DBIP (cfg_Geo cfg)),
        registry_validate env (geo_Registry (cfg_Geo cfg)),
        cloudflare_validate (geo_Cloudflare (cfg_Geo cfg)),
        groups_Validate (cfg_Groups cfg),
        validateFilters env cfg,
        validateAnnotate cfg,
        subscriptions_Validate env (cfg_Subscriptions cfg)]"

datatype file_read = FileBytes string | FileAbsent | FileError

definition readOverlay :: "(string \<Rightarrow> file_read) \<Rightarrow> string \<Rightarrow> string + string option" where
  "readOverlay read name =
     (case read name of
        FileAbsent \<Rightarrow> Inr None
      | FileError \<Rightarrow> Inl (''read overlay '' @ name)
      | FileBytes b \<Rightarrow> Inr (Some b))"

definition OverlayFiles :: "string list" where
  "OverlayFiles = [''private.yaml'', ''sources.yaml'']"

definition add_sources :: "SubscriptionSource list \<Rightarrow> Config \<Rightarrow> Config" where
  "add_sources ss cfg =
     cfg\<lparr>cfg_Subscriptions := (cfg_Subscriptions cfg)\<lparr>sub_Sources := sub_Sources (cfg_Subscriptions cfg) @ ss\<rparr>\<rparr>"

definition mergeSourcesOverlay ::
  "(string \<Rightarrow> SubscriptionSource list option) \<Rightarrow> (string \<Rightarrow> file_read) \<Rightarrow> Config \<Rightarrow> string + Config" where
  "mergeSourcesOverlay decode_private read cfg =
     (case readOverlay read ''sources.yaml'' of
        Inl e \<Rightarrow> Inl (''read sources config: '' @ e)
      | Inr None \<Rightarrow> Inr cfg
      | Inr (Some b) \<Rightarrow>
          (case decode_private b of
             None \<Rightarrow> Inl ''unmarshal sources config''
           | Some ss \<Rightarrow>
               (case find su_Managed ss of
                  Some src \<Rightarrow> Inl (errManagedInCuratedFile ''sources.yaml'' (su_Name src))
                | None \<Rightarrow> Inr (add_sources ss cfg))))"

text \<open>\<open>base\<close> is the file's base name; the overlays lie beside it.\<close>

definition Load ::
  "validation_env \<Rightarrow> (string \<Rightarrow> Config option) \<Rightarrow> (string \<Rightarrow> SubscriptionSource list option) \<Rightarrow>
   (string \<Rightarrow> file_read) \<Rightarrow> string \<Rightarrow> string + Config" where
  "Load env decode_config decode_private read base =
     (case read base of
        FileAbsent \<Rightarrow> Inl ''read config file''
      | FileError \<Rightarrow> Inl ''read config file''
      | FileBytes b \<Rightarrow>
          (case decode_config b of
             None \<Rightarrow> Inl ''unmarshal config''
           | Some cfg0 \<Rightarrow>
               (let cfg = load_defaults cfg0
                in case validateSources env base (sub_Sources (cfg_Subscriptions cfg)) of
                  Some e \<Rightarrow> Inl e
                | None \<Rightarrow>
                    (case mergeSourcesOverlay decode_private read cfg of
                       Inl e \<Rightarrow> Inl e
                     | Inr cfg1 \<Rightarrow>
                         (case Validate env cfg1 of
                            Some e \<Rightarrow> Inl e
                          | None \<Rightarrow>
                              (case readOverlay read ''private.yaml'' of
                                 Inl e \<Rightarrow> Inl (''read private config: '' @ e)
                               | Inr None \<Rightarrow> Inr cfg1
                               | Inr (Some p) \<Rightarrow>
                                   (case decode_private p of
                                      None \<Rightarrow> Inl ''unmarshal private config''
                                    | Some ss \<Rightarrow>
                                        (let cfg2 = add_sources ss cfg1
                                         in case validateSources env [] (sub_Sources (cfg_Subscriptions cfg2)) of
                                           Some e \<Rightarrow> Inl (''private config: '' @ e)
                                         | None \<Rightarrow> Inr cfg2))))))))"


section \<open>What the checks establish\<close>

lemma first_error_None: "first_error es = None \<longleftrightarrow> list_all (\<lambda>e. e = None) es"
  by (induction es rule: first_error.induct) auto

lemma errors_Join_None: "errors_Join es = None \<longleftrightarrow> list_all (\<lambda>e. e = None) es"
proof -
  have "List.map_filter (\<lambda>e. e) es = [] \<longleftrightarrow> list_all (\<lambda>e. e = None) es"
    by (induction es) (auto simp: List.map_filter_simps split: option.splits)
  then show ?thesis by (auto simp: errors_Join_def split: list.splits)
qed

lemma fail_if_None [simp]: "fail_if b msg = None \<longleftrightarrow> \<not> b"
  by (simp add: fail_if_def)

text \<open>A source that is acceptable alone, and the key it is fetched under.\<close>

definition source_ok :: "validation_env \<Rightarrow> string \<Rightarrow> SubscriptionSource \<Rightarrow> bool" where
  "source_ok env curatedFile src =
     ((curatedFile = [] \<or> \<not> su_Managed src) \<and> sourceName_ok (su_Name src) \<and>
      (trim_space (su_Body src) \<noteq> [] \<or> ValidatePublicHTTPSURL (ve_url_Parse env) (su_URL src) = None) \<and>
      validateSourceHWID src = None)"

definition fetch_keys :: "SubscriptionSource list \<Rightarrow> (string \<times> string) list" where
  "fetch_keys ss = map (\<lambda>s. (trim_space (su_URL s), su_HWID s)) (filter (\<lambda>s. trim_space (su_URL s) \<noteq> []) ss)"

lemma validate_sources_loop_None:
  "validate_sources_loop env curatedFile seen urlOwner ss = None \<longleftrightarrow>
     list_all (source_ok env curatedFile) ss \<and> distinct (map su_Name ss) \<and> su_Name ` set ss \<inter> set seen = {} \<and>
     distinct (fetch_keys ss) \<and> set (fetch_keys ss) \<inter> fst ` set urlOwner = {}"
proof (induction env curatedFile seen urlOwner ss rule: validate_sources_loop.induct)
  case (2 env curatedFile seen urlOwner src ss)
  have m: "map_of urlOwner k \<noteq> None \<longleftrightarrow> k \<in> fst ` set urlOwner" for k
    by (metis map_of_eq_None_iff)
  show ?case
  proof (cases "source_ok env curatedFile src \<and> su_Name src \<notin> set seen \<and>
      (trim_space (su_URL src) = [] \<or> map_of urlOwner (trim_space (su_URL src), su_HWID src) = None)")
    case True
    then have ok: "\<not> (curatedFile \<noteq> [] \<and> su_Managed src)" "\<not> \<not> sourceName_ok (su_Name src)" "su_Name src \<notin> set seen"
      "\<not> (trim_space (su_Body src) = [] \<and> ValidatePublicHTTPSURL (ve_url_Parse env) (su_URL src) \<noteq> None)"
      "validateSourceHWID src = None"
      "\<not> (trim_space (su_URL src) \<noteq> [] \<and> map_of urlOwner (trim_space (su_URL src), su_HWID src) \<noteq> None)"
      by (auto simp: source_ok_def)
    note IH = 2 [OF ok(1-4) refl refl ok(6,5)]
    show ?thesis
    proof (cases "trim_space (su_URL src) = []")
      case empty: True
      have "validate_sources_loop env curatedFile seen urlOwner (src # ss) =
          validate_sources_loop env curatedFile (su_Name src # seen) urlOwner ss"
        using ok empty by (auto simp: Let_def)
      then show ?thesis using IH True empty by (auto simp: fetch_keys_def)
    next
      case full: False
      have "validate_sources_loop env curatedFile seen urlOwner (src # ss) =
          validate_sources_loop env curatedFile (su_Name src # seen)
            (((trim_space (su_URL src), su_HWID src), su_Name src) # urlOwner) ss"
        using ok full by (auto simp: Let_def)
      moreover have "(trim_space (su_URL src), su_HWID src) \<notin> fst ` set urlOwner" using ok(6) full m by blast
      ultimately show ?thesis using IH True full by (auto simp: fetch_keys_def)
    qed
  next
    case False
    then have "validate_sources_loop env curatedFile seen urlOwner (src # ss) \<noteq> None"
      by (auto simp: source_ok_def Let_def split: option.splits)
    moreover have "\<not> (source_ok env curatedFile src \<and> su_Name src \<notin> set seen \<and>
        (trim_space (su_URL src), su_HWID src) \<notin> (if trim_space (su_URL src) = [] then {} else fst ` set urlOwner))"
      using False m by (auto split: if_splits)
    ultimately show ?thesis by (auto simp: fetch_keys_def split: if_splits)
  qed
qed (simp add: fetch_keys_def)

text \<open>
  The checks on the subscription sources accept a list exactly when every source is acceptable
  on its own, no two share a name, and no two fetch the same url with the same hwid.
\<close>

theorem validateSources_exact:
  "validateSources env curatedFile ss = None \<longleftrightarrow>
     list_all (source_ok env curatedFile) ss \<and> distinct (map su_Name ss) \<and> distinct (fetch_keys ss)"
  by (simp add: validateSources_def validate_sources_loop_None)


lemma validate_filters_loop_None:
  "validate_filters_loop env cfg i seenCIDR seen fs = None \<Longrightarrow>
     (\<forall>k < length fs. validateFilter env cfg (i + k) (fs ! k) = None) \<and>
     length (filter (\<lambda>f. flt_Type f = ''cidr'') fs) \<le> (if seenCIDR then 0 else 1) \<and>
     distinct (filter (\<lambda>t. t \<in> set throughNodeTypes) (map flt_Type fs)) \<and>
     set (filter (\<lambda>t. t \<in> set throughNodeTypes) (map flt_Type fs)) \<inter> set seen = {}"
proof (induction env cfg i seenCIDR seen fs rule: validate_filters_loop.induct)
  case (2 env cfg i seenCIDR seen f fs)
  have a: "\<not> (flt_Type f = ''cidr'' \<and> seenCIDR)" "\<not> (flt_Type f \<in> set throughNodeTypes \<and> flt_Type f \<in> set seen)"
    "validateFilter env cfg i f = None"
    using 2(2) by (auto split: if_splits option.splits)
  have rest: "validate_filters_loop env cfg (i + 1) (flt_Type f = ''cidr'' \<or> seenCIDR)
      (if flt_Type f \<in> set throughNodeTypes then flt_Type f # seen else seen) fs = None"
    using 2(2) a by (auto split: if_splits)
  note IH = 2(1) [OF a rest]
  have "validateFilter env cfg (i + k) ((f # fs) ! k) = None" if "k < length (f # fs)" for k
    using that IH a(3) by (cases k) auto
  moreover have "''cidr'' \<notin> set throughNodeTypes" by (simp add: throughNodeTypes_def)
  ultimately show ?case using IH a(1,2) by (auto split: if_splits)
qed simp

lemma nodespec_types:
  "map nodespec_Type (List.map_filter (node_filter_spec gb) fs) = filter (\<lambda>t. t \<in> set throughNodeTypes) (map flt_Type fs)"
  by (induction fs) (auto simp: List.map_filter_simps node_filter_spec_def throughNodeTypes_def)

lemma cidr_specs_length:
  "length (filter (\<lambda>s. ips_Type s = ''cidr'') (List.map_filter ip_filter_spec fs)) = length (filter (\<lambda>f. flt_Type f = ''cidr'') fs)"
  by (induction fs) (auto simp: List.map_filter_simps ip_filter_spec_def)

text \<open>The configuration a service can run on.\<close>

definition config_runnable :: "validation_env \<Rightarrow> Config \<Rightarrow> bool" where
  "config_runnable env cfg \<longleftrightarrow>
     (let s = cfg_Subscriptions cfg; c = sub_Check s
      in minSubsInterval \<le> sub_Interval s \<and>
         1 \<le> chk_Rounds c \<and> 0 \<le> chk_MaxFail c \<and> chk_MaxFail c < chk_Rounds c \<and>
         1 \<le> chk_Concurrency c \<and> 1 \<le> chk_MaxAvgMs c \<and> 0 < chk_Timeout c \<and>
         chk_Rounds c * chk_Timeout c \<le> sub_Interval s \<and>
         0 < chk_SourceTimeout c \<and> chk_SourceTimeout c \<le> sub_Interval s \<and>
         ve_ranges_ok env (chk_ExpectedStatus c) \<and>
         list_all (source_ok env []) (sub_Sources s) \<and> distinct (map su_Name (sub_Sources s)) \<and>
         distinct (fetch_keys (sub_Sources s)) \<and>
         distinct (map nodespec_Type (NodeFilterSpecs cfg)) \<and> length (cidrSpecs cfg) \<le> 1 \<and>
         list_all (\<lambda>n. case n of
             GeminiSpec g \<Rightarrow> gem_APIKey g \<noteq> [] \<or> gem_KeyFile g \<noteq> []
           | BandwidthSpec b \<Rightarrow> 0 < bwd_Timeout b \<and> 1 \<le> bwd_Concurrency b
           | _ \<Rightarrow> True) (NodeFilterSpecs cfg))"

lemma node_specs_checked:
  assumes "n \<in> set (NodeFilterSpecs cfg)" "\<And>f. f \<in> set (cfg_Filters cfg) \<Longrightarrow> \<exists>i. validateFilter env cfg i f = None"
  shows "case n of
      GeminiSpec g \<Rightarrow> gem_APIKey g \<noteq> [] \<or> gem_KeyFile g \<noteq> []
    | BandwidthSpec b \<Rightarrow> 0 < bwd_Timeout b \<and> 1 \<le> bwd_Concurrency b
    | _ \<Rightarrow> True"
proof -
  have mem: "x \<in> set (List.map_filter g xs) \<Longrightarrow> \<exists>y \<in> set xs. g y = Some x" for x g and xs :: "FilterConfig list"
    by (induction xs) (auto simp: List.map_filter_simps split: option.splits)
  obtain f where f: "f \<in> set (cfg_Filters cfg)" "node_filter_spec (cfg_GeoBlock cfg) f = Some n"
    using mem [of n "node_filter_spec (cfg_GeoBlock cfg)" "cfg_Filters cfg"] assms(1) by (auto simp: NodeFilterSpecs_def)
  obtain i where v: "validateFilter env cfg i f = None" using assms(2) f(1) by blast
  show ?thesis
    using f(2) v
    by (auto simp: node_filter_spec_def validateFilter_def validateBandwidth_def bandwidthConfig_def Let_def
        split: if_splits option.splits)
qed

lemma Validate_runnable:
  assumes "Validate env cfg = None"
  shows "config_runnable env cfg"
proof -
  have subs: "subscriptions_Validate env (cfg_Subscriptions cfg) = None" and flt: "validateFilters env cfg = None"
    using assms by (auto simp: Validate_def first_error_None)
  have s: "minSubsInterval \<le> sub_Interval (cfg_Subscriptions cfg)"
    and chk: "check_validate env (sub_Check (cfg_Subscriptions cfg)) = None"
    and bud: "checkCycleBudget (cfg_Subscriptions cfg) = None"
    and src: "validateSources env ''sources.yaml'' (sub_Sources (cfg_Subscriptions cfg)) = None"
    using subs by (auto simp: subscriptions_Validate_def split: if_splits option.splits)
  define c where "c = sub_Check (cfg_Subscriptions cfg)"
  have c: "1 \<le> chk_Rounds c" "0 \<le> chk_MaxFail c" "chk_MaxFail c < chk_Rounds c" "1 \<le> chk_Concurrency c"
    "1 \<le> chk_MaxAvgMs c" "0 < chk_Timeout c" "0 < chk_SourceTimeout c" "ve_ranges_ok env (chk_ExpectedStatus c)"
    using chk by (auto simp: check_validate_def c_def split: if_splits)
  have b: "chk_Rounds c \<le> sub_Interval (cfg_Subscriptions cfg) div chk_Timeout c"
    "chk_SourceTimeout c \<le> sub_Interval (cfg_Subscriptions cfg)"
    using bud by (auto simp: checkCycleBudget_def c_def split: if_splits)
  have "chk_Rounds c * chk_Timeout c \<le> sub_Interval (cfg_Subscriptions cfg) div chk_Timeout c * chk_Timeout c"
    using b(1) c(6) by (intro mult_right_mono) simp_all
  also have "\<dots> \<le> sub_Interval (cfg_Subscriptions cfg)"
    using div_mult_mod_eq [of "sub_Interval (cfg_Subscriptions cfg)" "chk_Timeout c"] c(6)
      pos_mod_sign [of "chk_Timeout c" "sub_Interval (cfg_Subscriptions cfg)"] by linarith
  finally have bt: "chk_Rounds c * chk_Timeout c \<le> sub_Interval (cfg_Subscriptions cfg)" .
  have so: "list_all (source_ok env []) (sub_Sources (cfg_Subscriptions cfg))"
    "distinct (map su_Name (sub_Sources (cfg_Subscriptions cfg)))"
    "distinct (fetch_keys (sub_Sources (cfg_Subscriptions cfg)))"
    using src by (auto simp: validateSources_def validate_sources_loop_None source_ok_def list_all_iff)
  note fl = validate_filters_loop_None [OF flt [unfolded validateFilters_def]]
  then have each: "\<exists>i. validateFilter env cfg i f = None" if "f \<in> set (cfg_Filters cfg)" for f
    using that by (auto simp: in_set_conv_nth)
  have ns: "distinct (map nodespec_Type (NodeFilterSpecs cfg))" "length (cidrSpecs cfg) \<le> 1"
    using fl by (simp_all add: NodeFilterSpecs_def nodespec_types cidrSpecs_def IPFilterSpecs_def cidr_specs_length)
  have nk: "list_all (\<lambda>n. case n of
             GeminiSpec g \<Rightarrow> gem_APIKey g \<noteq> [] \<or> gem_KeyFile g \<noteq> []
           | BandwidthSpec b \<Rightarrow> 0 < bwd_Timeout b \<and> 1 \<le> bwd_Concurrency b
           | _ \<Rightarrow> True) (NodeFilterSpecs cfg)"
    unfolding list_all_iff using node_specs_checked each by blast
  show ?thesis
    unfolding config_runnable_def Let_def c_def [symmetric] using s c b(2) bt so ns nk by blast
qed

lemma add_sources_fields [simp]:
  "cfg_Filters (add_sources ss cfg) = cfg_Filters cfg" "cfg_GeoBlock (add_sources ss cfg) = cfg_GeoBlock cfg"
  "cfg_Geo (add_sources ss cfg) = cfg_Geo cfg" "cfg_Groups (add_sources ss cfg) = cfg_Groups cfg"
  "cfg_Resolver (add_sources ss cfg) = cfg_Resolver cfg" "cfg_DeadCacheTTL (add_sources ss cfg) = cfg_DeadCacheTTL cfg"
  "sub_Interval (cfg_Subscriptions (add_sources ss cfg)) = sub_Interval (cfg_Subscriptions cfg)"
  "sub_Check (cfg_Subscriptions (add_sources ss cfg)) = sub_Check (cfg_Subscriptions cfg)"
  "sub_Sources (cfg_Subscriptions (add_sources ss cfg)) = sub_Sources (cfg_Subscriptions cfg) @ ss"
  by (simp_all add: add_sources_def)

lemma add_no_sources [simp]: "add_sources [] cfg = cfg"
  by (simp add: add_sources_def)

text \<open>The sources an overlay contributes; \<open>None\<close> when it cannot be read or decoded.\<close>

definition overlay_sources ::
  "(string \<Rightarrow> SubscriptionSource list option) \<Rightarrow> (string \<Rightarrow> file_read) \<Rightarrow> string \<Rightarrow> SubscriptionSource list option" where
  "overlay_sources decode_private read name =
     (case read name of FileAbsent \<Rightarrow> Some [] | FileError \<Rightarrow> None | FileBytes b \<Rightarrow> decode_private b)"

lemma validateSources_prefix:
  "validateSources env curatedFile (ss @ ts) = None \<Longrightarrow> validateSources env curatedFile ss = None"
  by (auto simp: validateSources_def validate_sources_loop_None fetch_keys_def)

lemma validateSources_any:
  "validateSources env curatedFile ss = None \<Longrightarrow> f = [] \<or> curatedFile \<noteq> [] \<Longrightarrow> validateSources env f ss = None"
  by (auto simp: validateSources_def validate_sources_loop_None source_ok_def list_all_iff)

lemma validateSources_managed:
  "validateSources env curatedFile ss = None \<Longrightarrow> curatedFile \<noteq> [] \<Longrightarrow> find su_Managed ss = None"
  by (auto simp: validateSources_def validate_sources_loop_None source_ok_def list_all_iff find_None_iff)

lemma Validate_sources:
  "Validate env cfg = None \<Longrightarrow> validateSources env ''sources.yaml'' (sub_Sources (cfg_Subscriptions cfg)) = None"
  by (auto simp: Validate_def first_error_None subscriptions_Validate_def split: if_splits option.splits)

text \<open>\<open>Load\<close> without the checks that later ones repeat.\<close>

lemma Load_Inr:
  "Load env decode_config decode_private read base = Inr cfg \<longleftrightarrow>
     (\<exists>b cfg0 ss ps. read base = FileBytes b \<and> decode_config b = Some cfg0 \<and>
        overlay_sources decode_private read ''sources.yaml'' = Some ss \<and>
        overlay_sources decode_private read ''private.yaml'' = Some ps \<and>
        Validate env (add_sources ss (load_defaults cfg0)) = None \<and>
        cfg = add_sources ps (add_sources ss (load_defaults cfg0)) \<and>
        validateSources env [] (sub_Sources (cfg_Subscriptions cfg)) = None)"
  (is "?L \<longleftrightarrow> ?R")
proof
  assume l: ?L
  then obtain b cfg0 where b: "read base = FileBytes b" "decode_config b = Some cfg0"
    by (auto simp: Load_def split: file_read.splits option.splits)
  obtain cfg1 where c: "mergeSourcesOverlay decode_private read (load_defaults cfg0) = Inr cfg1" "Validate env cfg1 = None"
    using l b by (auto simp: Load_def Let_def split: option.splits sum.splits)
  obtain ss where ss: "overlay_sources decode_private read ''sources.yaml'' = Some ss" "cfg1 = add_sources ss (load_defaults cfg0)"
    using c(1) by (auto simp: mergeSourcesOverlay_def readOverlay_def overlay_sources_def split: file_read.splits option.splits)
  have v1: "validateSources env [] (sub_Sources (cfg_Subscriptions cfg1)) = None"
    using Validate_sources [OF c(2)] by (rule validateSources_any) simp
  show ?R
  proof (cases "read ''private.yaml''")
    case (FileBytes p)
    then obtain ps where ps: "decode_private p = Some ps" "cfg = add_sources ps cfg1"
        "validateSources env [] (sub_Sources (cfg_Subscriptions (add_sources ps cfg1))) = None"
      using l b c by (auto simp: Load_def Let_def readOverlay_def split: option.splits)
    then have "overlay_sources decode_private read ''private.yaml'' = Some ps" using FileBytes by (simp add: overlay_sources_def)
    with b ss c(2) ps(2,3) show ?thesis by blast
  next
    case FileAbsent
    then have "cfg = cfg1" using l b c by (auto simp: Load_def Let_def readOverlay_def split: option.splits)
    moreover have "overlay_sources decode_private read ''private.yaml'' = Some []" using FileAbsent by (simp add: overlay_sources_def)
    ultimately show ?thesis using b ss c(2) v1 by (intro exI conjI) (assumption | simp)+
  next
    case FileError
    then show ?thesis using l b c by (auto simp: Load_def Let_def readOverlay_def split: option.splits)
  qed
next
  assume ?R
  then obtain b cfg0 ss ps where r: "read base = FileBytes b" "decode_config b = Some cfg0"
      "overlay_sources decode_private read ''sources.yaml'' = Some ss"
      "overlay_sources decode_private read ''private.yaml'' = Some ps"
      "Validate env (add_sources ss (load_defaults cfg0)) = None"
      "cfg = add_sources ps (add_sources ss (load_defaults cfg0))"
      "validateSources env [] (sub_Sources (cfg_Subscriptions cfg)) = None"
    by blast
  have cur: "validateSources env ''sources.yaml'' (sub_Sources (cfg_Subscriptions (load_defaults cfg0)) @ ss) = None"
    using Validate_sources [OF r(5)] by simp
  then have v0: "validateSources env base (sub_Sources (cfg_Subscriptions (load_defaults cfg0))) = None"
    by (rule validateSources_any [OF validateSources_prefix]) simp
  have "find su_Managed (sub_Sources (cfg_Subscriptions (load_defaults cfg0)) @ ss) = None"
    using cur by (rule validateSources_managed) simp
  then have nm: "find su_Managed ss = None" by (auto simp: find_None_iff)
  have m: "mergeSourcesOverlay decode_private read (load_defaults cfg0) = Inr (add_sources ss (load_defaults cfg0))"
    using r(3) nm by (auto simp: mergeSourcesOverlay_def readOverlay_def overlay_sources_def split: file_read.splits)
  show ?L
    using r m v0 by (auto simp: Load_def Let_def readOverlay_def overlay_sources_def split: file_read.splits)
qed


section \<open>Loading\<close>

lemma add_sources_specs [simp]:
  "NodeFilterSpecs (add_sources ss cfg) = NodeFilterSpecs cfg" "cidrSpecs (add_sources ss cfg) = cidrSpecs cfg"
  by (simp_all add: NodeFilterSpecs_def cidrSpecs_def IPFilterSpecs_def)

lemma Load_runnable:
  assumes "Load env decode_config decode_private read base = Inr cfg"
  shows "config_runnable env cfg"
proof -
  obtain cur ps where "Validate env cur = None" and cfg: "cfg = add_sources ps cur"
      and v: "validateSources env [] (sub_Sources (cfg_Subscriptions cfg)) = None"
    using assms unfolding Load_Inr by blast
  then have r: "config_runnable env cur" by (intro Validate_runnable)
  have "list_all (source_ok env []) (sub_Sources (cfg_Subscriptions cfg))"
    "distinct (map su_Name (sub_Sources (cfg_Subscriptions cfg)))" "distinct (fetch_keys (sub_Sources (cfg_Subscriptions cfg)))"
    using v by (simp_all add: validateSources_def validate_sources_loop_None)
  moreover have "sub_Interval (cfg_Subscriptions cfg) = sub_Interval (cfg_Subscriptions cur)"
    "sub_Check (cfg_Subscriptions cfg) = sub_Check (cfg_Subscriptions cur)"
    "NodeFilterSpecs cfg = NodeFilterSpecs cur" "cidrSpecs cfg = cidrSpecs cur"
    by (simp_all add: cfg)
  ultimately show ?thesis using r by (simp add: config_runnable_def Let_def)
qed

text \<open>
  C12: A configuration that loads is one the service can run on: the interval is at least a minute and
  holds all the rounds of a check and a source fetch, the failure limit lies below the rounds, every
  pool has a worker, the sources are acceptable with distinct names and fetch keys, each through-node
  filter occurs once and the cidr one at most once, and an armed Gemini gate declares key material.
\<close>

theorem loaded_config_runnable:
  assumes "Load env decode_config decode_private read base = Inr cfg"
  shows "config_runnable env cfg"
  using assms by (rule Load_runnable)

text \<open>
  C20: Loading fails exactly when a part cannot be read or decoded -- an absent overlay is an empty
  one -- or the curated configuration does not validate, or the sources of all three files together
  are not acceptable. The checks before the first overlay is merged refuse nothing the later ones
  would accept.
\<close>

theorem load_refuses_exactly:
  "(\<exists>e. Load env decode_config decode_private read base = Inl e) \<longleftrightarrow>
     (case read base of
        FileAbsent \<Rightarrow> True
      | FileError \<Rightarrow> True
      | FileBytes b \<Rightarrow>
          (case (decode_config b, overlay_sources decode_private read ''sources.yaml'',
                 overlay_sources decode_private read ''private.yaml'') of
             (Some cfg0, Some ss, Some ps) \<Rightarrow>
               \<not> (Validate env (add_sources ss (load_defaults cfg0)) = None \<and>
                  validateSources env [] (sub_Sources (cfg_Subscriptions (add_sources ps (add_sources ss (load_defaults cfg0))))) = None)
           | _ \<Rightarrow> True))"
proof -
  have e: "(\<exists>e. Load env decode_config decode_private read base = Inl e) \<longleftrightarrow>
      \<not> (\<exists>cfg. Load env decode_config decode_private read base = Inr cfg)"
    by (cases "Load env decode_config decode_private read base") auto
  show ?thesis
    unfolding e Load_Inr by (auto split: file_read.splits option.splits)
qed

text \<open>
  C33: The crawler's mark comes from its own file only: the sources of a loaded configuration are the
  curated ones, none of them managed, followed by those \<^verbatim>\<open>private.yaml\<close> decodes to.
\<close>

theorem managed_sources_are_private:
  assumes "Load env decode_config decode_private read base = Inr cfg"
  shows "\<exists>curated private. sub_Sources (cfg_Subscriptions cfg) = curated @ private \<and>
           list_all (\<lambda>s. \<not> su_Managed s) curated \<and> overlay_sources decode_private read ''private.yaml'' = Some private"
proof -
  obtain cur ps where v: "Validate env cur = None" and cfg: "cfg = add_sources ps cur"
      and p: "overlay_sources decode_private read ''private.yaml'' = Some ps"
    using assms unfolding Load_Inr by blast
  have "find su_Managed (sub_Sources (cfg_Subscriptions cur)) = None"
    by (rule validateSources_managed [OF Validate_sources [OF v]]) simp
  then show ?thesis
    using p by (intro exI [of _ "sub_Sources (cfg_Subscriptions cur)"] exI [of _ ps])
      (auto simp: cfg find_None_iff list_all_iff)
qed

text \<open>
  C27: The denied set holds exactly the codes that some country filter lists, by itself or through one
  of its groups, as far as the set's own parser reads them as codes.
\<close>

theorem denied_countries_exact:
  "Has (DeniedCountries cfg) c =
     (\<exists>f \<in> set (cfg_Filters cfg). flt_Type f = ''country'' \<and>
        (\<exists>x \<in> set (flt_ExcludeCountries f) \<union> (\<Union>g \<in> set (flt_ExcludeGroups f). set (group_codes cfg g)). part_code x = Some c))"
  using DeniedCountries_spec [of cfg c] by (auto simp: listed_codes_def split: if_splits)

text \<open>Validation strips more than the set's parser: a no-break space in front makes a listed code deny nothing.\<close>

lemma padded_code_validates_unread:
  "validateCountryCode name [CHR 0xC2, CHR 0xA0, CHR ''R'', CHR ''U''] = None"
  "part_code [CHR 0xC2, CHR 0xA0, CHR ''R'', CHR ''U''] = None"
proof -
  have "trim_space [CHR 0xC2, CHR 0xA0, CHR ''R'', CHR ''U''] = ''RU''"
    by (simp add: trim_space_def skip_runes.simps strip_one_def space_runes_def has_prefix_def)
  then show "validateCountryCode name [CHR 0xC2, CHR 0xA0, CHR ''R'', CHR ''U''] = None"
    by (simp add: validateCountryCode_def isASCIILetter_def is_upper_def)
  show "part_code [CHR 0xC2, CHR 0xA0, CHR ''R'', CHR ''U''] = None"
    by (simp add: part_code_def trim_blank_def is_blank_def)
qed

section \<open>A file with one source\<close>

definition empty_config :: Config where
  "empty_config =
     \<lparr>cfg_LogLevel = [], cfg_Listen = [], cfg_MetricsListen = [],
      cfg_Geo = \<lparr>geo_Geofeed = \<lparr>gfd_Sources = [], gfd_RefreshInterval = None\<rparr>,
        geo_DBIP = \<lparr>dbi_URL = [], dbi_RefreshInterval = None\<rparr>, geo_Registry = \<lparr>reg_URLs = [], reg_RefreshInterval = None\<rparr>,
        geo_ASN = \<lparr>asn_Timeout = 0, asn_CacheTTL = 0\<rparr>, geo_Cloudflare = \<lparr>cfl_Timeout = 0, cfl_Concurrency = 0\<rparr>\<rparr>,
      cfg_Resolver = \<lparr>rsv_Address = [], rsv_Timeout = 0, rsv_CacheTTL = None, rsv_CacheNegativeTTL = None\<rparr>,
      cfg_Filters = [], cfg_Annotate = [], cfg_Groups = [],
      cfg_Subscriptions = \<lparr>sub_Interval = 0,
        sub_Check = \<lparr>chk_Rounds = 0, chk_Timeout = 0, chk_TestURL = [], chk_ExpectedStatus = [], chk_MaxFail = 0,
          chk_MaxAvgMs = 0, chk_SourceTimeout = 0, chk_Concurrency = 0\<rparr>,
        sub_Sources = [], sub_SnapshotPath = []\<rparr>,
      cfg_GeoBlock = \<lparr>gbk_DBPath = [], gbk_TTL = 0,
        gbk_Gemini = \<lparr>gem_Endpoint = [], gem_Model = [], gem_Marker = [], gem_APIKey = [], gem_KeyFile = [], gem_KeyVar = [],
          gem_Timeout = 0, gem_Concurrency = 0, gem_RateLimit = 0\<rparr>,
        gbk_Claude = \<lparr>cla_Endpoint = [], cla_Marker = [], cla_Version = [], cla_Timeout = 0, cla_Concurrency = 0\<rparr>,
        gbk_ChatGPT = \<lparr>gpt_Endpoint = [], gpt_Marker = [], gpt_Timeout = 0, gpt_Concurrency = 0\<rparr>,
        gbk_Tidal = \<lparr>tid_Endpoint = [], tid_Timeout = 0, tid_Concurrency = 0\<rparr>,
        gbk_Deepl = \<lparr>dpl_Endpoint = [], dpl_Timeout = 0, dpl_Concurrency = 0\<rparr>\<rparr>,
      cfg_DeadCacheTTL = None, cfg_FetchTimeout = 0\<rparr>"

definition one_source :: "SubscriptionSource list" where
  "one_source = [\<lparr>su_Name = ''a-1'', su_URL = [], su_Body = ''x'', su_Managed = True, su_Feed = [], su_HWID = []\<rparr>]"

definition sample_env :: validation_env where
  "sample_env =
     \<lparr>ve_url_Parse = (\<lambda>s. Some \<lparr>u_Scheme = ''https'', u_Host = ''h'', u_HasUser = False\<rparr>),
      ve_level_ok = (\<lambda>s. True), ve_pattern_ok = (\<lambda>s. True), ve_ranges_ok = (\<lambda>s. True)\<rparr>"

definition sample_read :: "string \<Rightarrow> file_read" where
  "sample_read f = (if f = ''sources.yaml'' then FileAbsent else FileBytes f)"

lemmas setting_defs =
  second_def minute_def hour_def defaultTimeout_def defaultDNSCacheTTL_def defaultDNSNegativeCache_def defaultASNCacheTTL_def
  defaultSubsInterval_def minSubsInterval_def defaultCheckRounds_def defaultCheckTimeout_def defaultCheckTestURL_def
  defaultCheckStatus_def defaultCheckMaxAvgMs_def defaultCheckConcurr_def defaultSourceTimeout_def defaultDeadCacheTTL_def
  defaultFetchTimeout_def defaultGeoBlockTTL_def defaultGeoDBRefresh_def defaultGeminiTimeout_def defaultGeminiConcurrency_def
  defaultClaudeTimeout_def defaultClaudeConcurrency_def defaultChatGPTTimeout_def defaultChatGPTConcurrency_def
  defaultTidalTimeout_def defaultTidalConcurrency_def defaultDeeplTimeout_def defaultDeeplConcurrency_def
  defaultCloudflareTimeout_def defaultCloudflareConcurrency_def defaultGeminiRateLimit_def
  num_or_def text_or_def ptr_or_def ptr_nonzero_or_def

lemma sample_loads:
  "Load sample_env (\<lambda>b. Some empty_config) (\<lambda>b. Some one_source) sample_read ''config.yaml'' =
     Inr (add_sources one_source (load_defaults empty_config))"
proof -
  have u: "validateAPIEndpoint sample_env name raw = None" "validateDownloadURL sample_env name raw = None" for name raw
    by (simp_all add: validateAPIEndpoint_def validateDownloadURL_def sample_env_def)
  define d where "d = load_defaults empty_config"
  have "cfg_Filters d = []" "cfg_Annotate d = []" "cfg_Groups d = []" "rsv_Address (cfg_Resolver d) = []"
    "sub_Sources (cfg_Subscriptions d) = []" "gfd_Sources (geo_Geofeed (cfg_Geo d)) = []" "ve_level_ok sample_env = (\<lambda>s. True)"
    by (simp_all add: d_def load_defaults_def applyFilterDefaults_def empty_config_def subscriptions_applyDefaults_def
        geo_applyDefaults_def geofeed_applyDefaults_def sample_env_def Let_def)
  note flat = this
  have "validateNonNegative d = None"
    by (simp add: validateNonNegative_def errors_Join_None rejectNegativeDur_def d_def load_defaults_def
        applyFilterDefaults_def empty_config_def subscriptions_applyDefaults_def geo_applyDefaults_def geofeed_applyDefaults_def
        dbip_applyDefaults_def registry_applyDefaults_def setting_defs Let_def)
  moreover have "geoblock_validate sample_env (cfg_GeoBlock d) = None"
    by (simp add: geoblock_validate_def errors_Join_None rejectNegativeDur_def rejectNegativeInt_def
        geoblock_endpoint_def u d_def load_defaults_def applyFilterDefaults_def empty_config_def geoblock_applyDefaults_def
        applyGeminiDefaults_def applyClaudeDefaults_def applyChatGPTDefaults_def applyTidalDefaults_def applyDeeplDefaults_def
        setting_defs Let_def)
  moreover have "cloudflare_validate (geo_Cloudflare (cfg_Geo d)) = None"
    by (simp add: cloudflare_validate_def errors_Join_None rejectNegativeDur_def rejectNegativeInt_def
        d_def load_defaults_def applyFilterDefaults_def empty_config_def geo_applyDefaults_def cloudflare_applyDefaults_def
        setting_defs Let_def)
  moreover have "subscriptions_Validate sample_env (cfg_Subscriptions d) = None"
    by (simp add: subscriptions_Validate_def check_validate_def checkCycleBudget_def fail_if_def validateSources_def u d_def load_defaults_def
        applyFilterDefaults_def empty_config_def subscriptions_applyDefaults_def setting_defs Let_def) (simp add: sample_env_def)
  ultimately have v: "Validate sample_env d = None"
    using flat u by (simp add: Validate_def validateResolverAddress_def validateGeofeed_def geofeed_Validate_def
        referencesGeofeed_def AnnotateUsesProvider_def dbip_validate_def registry_validate_def groups_Validate_def
        validateFilters_def validateAnnotate_def first_error_None list_all_iff)
  have "trim_space ''x'' = ''x''" by (rule trim_space_id) (simp add: graphic_def)
  then have o: "validateSources sample_env [] one_source = None"
    by (simp add: validateSources_def validate_sources_loop_None one_source_def source_ok_def sourceName_ok_def
        validateSourceHWID_def fetch_keys_def is_lower_def is_digit_def)
  show ?thesis
    unfolding Load_Inr d_def [symmetric]
    by (intro exI [of _ "''config.yaml''"] exI [of _ empty_config] exI [of _ "[]"] exI [of _ one_source])
      (use v o flat in \<open>simp add: sample_read_def overlay_sources_def d_def [symmetric]\<close>)
qed

theorem loaded_config_runnable_witness:
  "config_runnable sample_env (add_sources one_source (load_defaults empty_config))"
  by (rule loaded_config_runnable [OF sample_loads])

theorem managed_sources_are_private_witness:
  "\<exists>curated private. sub_Sources (cfg_Subscriptions (add_sources one_source (load_defaults empty_config))) = curated @ private \<and>
     list_all (\<lambda>s. \<not> su_Managed s) curated \<and>
     overlay_sources (\<lambda>b. Some one_source) sample_read ''private.yaml'' = Some private"
  by (rule managed_sources_are_private [OF sample_loads])

end
