(* ===== verification/CycleLaws.thy ===== *)
theory CycleLaws
  imports Cycle
begin

text \<open>
  The phases of a check cycle, one by one: what the filter chain and the trace do to the survivors, and
  what each phase does to the account of the adapters and of the resolver table.
\<close>

section \<open>The chain only narrows\<close>

text \<open>A survivor but for its measured speed.\<close>

abbreviation forget_speed :: "Survivor \<Rightarrow> Survivor" where
  "forget_speed s \<equiv> s\<lparr>sv_Mbps := 0\<rparr>"

lemma api_narrows:
  assumes "api_apply f block done survivors proxies st = (kept, rep, st')"
  shows "subseq (map forget_speed kept) (map forget_speed survivors)"
proof -
  let ?outcomes = "af_check f (filterSubset survivors proxies)"
  obtain blk unreach unver ver where c: "foldl (count_outcome ?outcomes) (0, 0, 0, 0) survivors = (blk, unreach, unver, ver)"
    by (metis prod_cases4)
  obtain k1 s1 where k: "keepOutcomes f block done survivors ?outcomes
      (\<not> breakerTrips (blk + unreach + (if af_requireVerified f then unver else 0)) (length survivors)) st = (k1, s1)"
    by fastforce
  have "k1 = filter (api_keeps f ?outcomes) survivors"
    using k keep_loop_kept by (metis fst_conv keepOutcomes_def)
  moreover have "kept = survivors \<or> kept = k1"
    using assms unfolding api_apply_def Let_def c prod.case k by (auto split: if_splits)
  ultimately show ?thesis by (auto intro: subseq_map)
qed

lemma bandwidth_narrows:
  assumes "bandwidth_apply f done survivors proxies = (kept, rep)"
  shows "subseq (map forget_speed kept) (map forget_speed survivors)"
proof -
  let ?outcomes = "bf_check f (filterSubset survivors proxies)"
  have "subseq (map forget_speed (List.map_filter (keep_speed (bf_minMbps f) ?outcomes) survivors)) (map forget_speed survivors)"
    by (rule map_filter_subseq) (auto simp: keep_speed_def Let_def split: if_splits)
  moreover have "kept = survivors \<or> kept = List.map_filter (keep_speed (bf_minMbps f) ?outcomes) survivors"
    using assms by (auto simp: bandwidth_apply_def Let_def split: if_splits prod.splits)
  ultimately show ?thesis by auto
qed

lemma chain_narrows:
  "run_node_filters block done k fs survivors proxies st = (kept, reps, st') \<Longrightarrow>
     subseq (map forget_speed kept) (map forget_speed survivors)"
proof (induction fs arbitrary: k survivors st kept reps st')
  case (Cons f fs)
  obtain k1 rep st1 where f: "apply_filter f block (done k) survivors proxies st = (k1, rep, st1)" by (metis prod_cases3)
  obtain k2 reps2 st2 where r: "run_node_filters block done (k + 1) fs k1 proxies st1 = (k2, reps2, st2)" by (metis prod_cases3)
  have "subseq (map forget_speed k1) (map forget_speed survivors)"
    using f by (cases f) (auto split: prod.splits intro: api_narrows bandwidth_narrows)
  moreover have "kept = k2" using Cons.prems f r by simp
  ultimately show ?case using Cons.IH [OF r] by (auto intro: subseq_order.trans)
qed simp

section \<open>The egress stage\<close>

lemma trace_books:
  "trace_survivors traced rep ss = (ss', rep') \<Longrightarrow>
     length ss' = length ss \<and> map en_Label ss' = map en_Label ss \<and> map en_Raw ss' = map en_Raw ss \<and>
     tp_State rep' = tp_State rep \<and> tp_Moved rep' = tp_Moved rep \<and>
     tp_Answered rep' = tp_Answered rep + length (filter (\<lambda>s. traced (en_Label s) \<noteq> None) ss) \<and>
     tp_Unanswered rep' = tp_Unanswered rep + length (filter (\<lambda>s. traced (en_Label s) = None) ss)"
  by (induction ss arbitrary: rep ss' rep') (auto split: option.splits prod.splits)

section \<open>The prober's accounts\<close>

text \<open>
  What a prober's log owes: the adapters built, less those closed or retained; and the resolver table
  it leaves once its pins are released.
\<close>

definition retained :: "('p, 't) MihomoProber \<Rightarrow> 'p list" where
  "retained m = (case mp_probed m of None \<Rightarrow> [] | Some pxs \<Rightarrow> pxs)"

definition adapter_debt :: "('p, 't) MihomoProber \<Rightarrow> 'p \<Rightarrow> int" where
  "adapter_debt m px =
     int (count (mset (mp_built m)) px) - int (count (mset (mp_closed m)) px) - int (count (mset (retained m)) px)"

definition home_table :: "('p, 't) MihomoProber \<Rightarrow> 't" where
  "home_table m = (case mp_bindings m of Some (RestoreTable t) \<Rightarrow> t | _ \<Rightarrow> mp_table m)"

definition same_accounts :: "('p, 't) MihomoProber \<Rightarrow> ('p, 't) MihomoProber \<Rightarrow> bool" where
  "same_accounts m m' \<longleftrightarrow> adapter_debt m' = adapter_debt m \<and> home_table m' = home_table m"

lemma same_accounts_refl [simp]: "same_accounts m m"
  by (simp add: same_accounts_def)

lemma same_accounts_trans [trans]: "same_accounts a b \<Longrightarrow> same_accounts b c \<Longrightarrow> same_accounts a c"
  by (simp add: same_accounts_def)

lemmas account_defs = same_accounts_def adapter_debt_def retained_def home_table_def

lemma release_bindings_accounts:
  "same_accounts m (releaseBindings m)" "mp_bindings (releaseBindings m) = None"
  "mp_probed (releaseBindings m) = mp_probed m"
  by (auto simp: releaseBindings_def account_defs fun_eq_iff split: option.splits restore.splits)

lemma pin_hosts_accounts:
  assumes "mp_bindings m = None"
  shows "same_accounts m (pinHosts pin pins m)" "mp_probed (pinHosts pin pins m) = mp_probed m"
  using assms by (auto simp: pinHosts_def account_defs fun_eq_iff)

lemma release_probed_accounts:
  "same_accounts m (releaseProbed m)" "mp_probed (releaseProbed m) = None" "mp_bindings (releaseProbed m) = mp_bindings m"
  by (auto simp: releaseProbed_def account_defs fun_eq_iff split: option.splits restore.splits)

lemma parse_live_refusals:
  "parse_live parse ms live nodes rf = (nodes', kept, rf') \<Longrightarrow>
     rf_State rf' = RefusalRan \<and> rf_Unparsable rf' = rf_Unparsable rf \<and> rf_Unconvertible rf' = rf_Unconvertible rf"
  by (induction live arbitrary: nodes rf nodes' kept rf') (auto split: option.splits prod.splits)

lemma probe_set_facts:
  assumes "probeSet env uni payload b m = (r, m')"
  shows "mp_probed m' = mp_probed m \<and> mp_bindings m' = mp_bindings m \<and> mp_table m' = mp_table m \<and> mp_closed m' = mp_closed m \<and>
    (case r of
       Inl _ \<Rightarrow> mp_built m' = mp_built m
     | Inr (nodes, live, condemned) \<Rightarrow>
         mp_built m' = mp_built m @ List.map_filter (\<lambda>i. pn_proxy (nodes ! i)) live \<and>
         rf_State (mp_parseRefusal m') = RefusalRan \<and>
         rf_Unparsable (mp_parseRefusal m') = rf_Unparsable (mp_parseRefusal m) \<and>
         rf_Unconvertible (mp_parseRefusal m') = rf_Unconvertible (mp_parseRefusal m))"
proof (cases "pe_converts env payload")
  case None
  then show ?thesis using assms by (auto simp: probeSet_def)
next
  case (Some mappings)
  obtain live condemned rep where f: "filterReachable (pe_dial env) (probeNodes uni mappings b :: 'a probeNode list) = (live, condemned, rep)"
    by (metis prod_cases3)
  define nodes1 where "nodes1 = mark_condemned b mappings condemned (probeNodes uni mappings b :: 'a probeNode list)"
  obtain nodes2 live2 rf where p: "parse_live (pe_parse env) (normalisePinnedServers uni mappings live b) live nodes1
      (mp_parseRefusal m) = (nodes2, live2, rf)"
    by (metis prod_cases3)
  show ?thesis
    using assms parse_live_refusals [OF p]
    by (auto simp: probeSet_def Some f p Let_def nodes1_def [symmetric] split: if_splits)
qed

lemma probe_accounts:
  assumes "probe env uni rounds payload b m = (r, m')"
  shows "same_accounts m m' \<and> mp_bindings m' = mp_bindings m \<and>
    (case r of
       Inl _ \<Rightarrow> mp_probed m' = None
     | Inr _ \<Rightarrow> rf_State (mp_parseRefusal m') = RefusalRan \<and> rf_Unparsable (mp_parseRefusal m') = 0 \<and>
         rf_Unconvertible (mp_parseRefusal m') = 0)"
proof -
  define m0 where "m0 = m\<lparr>mp_precheck := no_precheck, mp_parseRefusal := no_refusals\<rparr>"
  have m0: "same_accounts m m0" "mp_bindings m0 = mp_bindings m" by (auto simp: m0_def account_defs split: option.splits restore.splits)
  note rel = release_probed_accounts [of m0]
  have acc1: "same_accounts m (releaseProbed m0)" by (rule same_accounts_trans [OF m0(1) rel(1)])
  have rf: "rf_Unparsable (mp_parseRefusal (releaseProbed m0)) = 0" "rf_Unconvertible (mp_parseRefusal (releaseProbed m0)) = 0"
    by (auto simp: releaseProbed_def m0_def no_refusals_def split: option.splits)
  obtain r2 m2 where s: "probeSet env uni payload b (releaseProbed m0) = (r2, m2)" by fastforce
  note facts = probe_set_facts [OF s]
  show ?thesis
  proof (cases r2)
    case (Inl e)
    then have "m' = m2" "r = Inl e" using assms s by (simp_all add: probe_def m0_def [symmetric])
    moreover have "same_accounts (releaseProbed m0) m2" using facts Inl rel(2) by (auto simp: account_defs split: option.splits restore.splits)
    ultimately show ?thesis using facts rel acc1 m0(2) by (auto intro: same_accounts_trans)
  next
    case (Inr x)
    then obtain nodes live condemned where x: "r2 = Inr (nodes, live, condemned)" by (cases x) auto
    define m3 where "m3 = m2\<lparr>mp_probed := Some (List.map_filter (\<lambda>i. pn_proxy (nodes ! i)) live)\<rparr>"
    have acc3: "same_accounts m m3"
      using facts x rel(2) by (intro same_accounts_trans [OF acc1]) (auto simp: m3_def account_defs fun_eq_iff split: option.splits restore.splits)
    have b3: "mp_bindings m3 = mp_bindings m" using facts rel(3) m0(2) by (simp add: m3_def)
    show ?thesis
    proof (cases "pe_done env")
      case True
      then have "m' = releaseProbed m3" "r = Inl ErrInterrupted"
        using assms s x by (simp_all add: probe_def m0_def [symmetric] m3_def Let_def)
      then show ?thesis using release_probed_accounts [of m3] acc3 b3 by (auto intro: same_accounts_trans)
    next
      case False
      then have "m' = m3" "\<exists>res. r = Inr res"
        using assms s x by (auto simp: probe_def m0_def [symmetric] m3_def Let_def)
      then show ?thesis using acc3 b3 facts x rf by (auto simp: m3_def)
    qed
  qed
qed

lemma probe_entries_accounts:
  assumes "probeEntries caps env uni rounds es m = (r, m')"
  shows "same_accounts m m' \<and>
    (case r of
       Inl _ \<Rightarrow> mp_probed m' = None \<and> mp_bindings m' = None
     | Inr _ \<Rightarrow> rf_State (mp_parseRefusal m') = RefusalRan \<and> rf_Unparsable (mp_parseRefusal m') = 0 \<and>
         rf_Unconvertible (mp_parseRefusal m') = 0)"
proof (cases "cp_boundProber caps")
  case False
  then have "probe env uni rounds (entriesPayload es) None (releaseBindings m) = (r, m')"
    using assms by (simp add: probeEntries_def Probe_def)
  from probe_accounts [OF this] show ?thesis
    using release_bindings_accounts [of m] by (auto intro: same_accounts_trans split: sum.splits)
next
  case True
  let ?b = "newBinding uni es"
  define m1 where "m1 = pinHosts (pe_pin env) (bd_hosts ?b) (releaseBindings m)"
  note rb = release_bindings_accounts [of m]
  note pin = pin_hosts_accounts [OF rb(2), of "pe_pin env" "bd_hosts ?b", folded m1_def]
  obtain r2 m2 where p: "probe env uni rounds (entriesPayload es) (Some ?b) m1 = (r2, m2)" by fastforce
  note acc = probe_accounts [OF p]
  have all: "same_accounts m m2" using rb(1) pin(1) acc by (blast intro: same_accounts_trans)
  show ?thesis
  proof (cases r2)
    case (Inl e)
    then have "r = Inl e" "m' = releaseBindings m2"
      using assms True p by (simp_all add: probeEntries_def ProbeBound_def m1_def [symmetric] Let_def)
    then show ?thesis using release_bindings_accounts [of m2] all acc Inl by (auto intro: same_accounts_trans)
  next
    case (Inr res)
    then have "r = Inr res" "m' = m2"
      using assms True p by (simp_all add: probeEntries_def ProbeBound_def m1_def [symmetric] Let_def)
    then show ?thesis using all acc Inr by auto
  qed
qed

end
