(* ===== verification/CycleRuns.thy ===== *)
theory CycleRuns
  imports CycleLaws
begin

text \<open>
  What a check cycle keeps: the published list on every failure, the sums of its report, the account
  of the adapters and of the resolver table, and what it may write to the dead set.
\<close>

section \<open>Fetching, skipping, recording\<close>

lemma collect_names:
  "collect_results svc denied i srcs = (bodies, reports) \<Longrightarrow>
     map so_Name reports = map sb_Name bodies \<and> list_all (\<lambda>r. so_Tested r = 0 \<and> so_Filtered r = 0) reports \<and>
     subseq (map sb_Name bodies) (map su_Name srcs)"
  by (induction srcs arbitrary: i bodies reports)
    (auto simp: source_report_def split: option.splits prod.splits)

lemma dead_loop_split:
  "dead_loop dead now k es = (probed, skipped) \<Longrightarrow>
     subseq probed es \<and> length probed + skipped = length es \<and>
     (\<forall>e \<in> set probed. \<exists>i. case dead of None \<Rightarrow> True | Some d \<Rightarrow> \<not> dead_Blocked d (en_Addr e, en_IP e) (now i))"
  by (induction es arbitrary: k probed skipped) (fastforce split: if_splits prod.splits option.splits)+

lemma record_loop_writes:
  "dead_m (record_loop at res refusals k es d) key = dead_m d key \<or>
     (\<exists>e \<in> set es. (en_Addr e, en_IP e) = key \<and> dead_verdict res refusals e)"
proof (induction es arbitrary: k d)
  case (Cons e es)
  show ?case
  proof (cases "dead_verdict res refusals e \<and> (en_Addr e, en_IP e) = key")
    case False
    then have "dead_m (if dead_verdict res refusals e then dead_Block ((en_Addr e, en_IP e), fst (at k)) (snd (at k)) d else d) key = dead_m d key"
      by (auto simp: dead_Block_def Let_def)
    with Cons.IH show ?thesis by (metis list.set_intros(2) record_loop.simps(2))
  qed auto
qed simp

text \<open>A survivor but for what the filters and the trace measure.\<close>

definition core :: "Survivor \<Rightarrow> Survivor" where
  "core s = s\<lparr>sv_Mbps := 0, sv_Egress := no_egress\<rparr>"

lemma trace_core: "trace_survivors traced rep ss = (ss', rep') \<Longrightarrow> map core ss' = map core ss"
  by (induction ss arbitrary: rep ss' rep') (auto simp: core_def split: option.splits prod.splits)

lemma chain_core:
  "run_node_filters block done k fs survivors proxies st = (kept, reps, st') \<Longrightarrow> subseq (map core kept) (map core survivors)"
  using subseq_map [OF chain_narrows, of block "done" k fs survivors proxies st kept reps st' "\<lambda>s. s\<lparr>sv_Egress := no_egress\<rparr>"]
  by (simp add: core_def [abs_def] comp_def)

lemma egress_facts:
  assumes "egress_stage env spec tested adapters c = (kept, reports, tr, c')"
  shows "(\<exists>st m. c' = c\<lparr>cy_store := st, cy_prober := m\<rparr> \<and> same_accounts (cy_prober c) m \<and>
      mp_probed m = mp_probed (cy_prober c) \<and> mp_bindings m = mp_bindings (cy_prober c)) \<and>
    chained (length tested) reports (length kept) \<and> subseq (map core kept) (map core tested) \<and>
    tp_Moved tr = 0 \<and> (tp_State tr = TraceRan \<longrightarrow> tp_Answered tr + tp_Unanswered tr = length kept)"
proof (cases "sp_Filters spec = [] \<and> \<not> (sp_Trace spec \<and> cp_traceChecker (sp_Prober spec) \<noteq> None) \<or> tested = [] \<or>
    egress_proxies (ce_probe env) adapters tested = None")
  case True
  then have "kept = tested" "reports = []" "tr = no_trace" "c' = c"
    using assms by (auto simp: egress_stage_def split: if_splits)
  moreover have "c = c\<lparr>cy_store := cy_store c, cy_prober := cy_prober c\<rparr>" by simp
  ultimately show ?thesis by (auto simp: no_trace_def intro!: exI [of _ "cy_store c"] exI [of _ "cy_prober c"])
next
  case False
  then obtain proxies owned where p: "egress_proxies (ce_probe env) adapters tested = Some (proxies, owned)" by auto
  define byLabel where "byLabel = proxiesByLabel (pe_label (ce_probe env)) tested proxies"
  obtain kept1 reports1 st where f: "run_node_filters (\<lambda>h. map_option (ce_block env h)) (ce_filterDone env) 0
      (sp_Filters spec) tested byLabel (cy_store c) = (kept1, reports1, st)"
    by (metis prod_cases3)
  obtain kept2 tr2 where t: "run_trace spec kept1 byLabel = (kept2, tr2)" by fastforce
  define m' where "m' = (if owned then closeProxies proxies ((cy_prober c)\<lparr>mp_built := mp_built (cy_prober c) @ proxies\<rparr>) else cy_prober c)"
  have e: "kept = kept2" "reports = reports1" "tr = tr2" "c' = c\<lparr>cy_store := st, cy_prober := m'\<rparr>"
    using assms False unfolding egress_stage_def
    by (auto simp: p f t Let_def byLabel_def [symmetric] m'_def split: if_splits)
  have "same_accounts (cy_prober c) m' \<and> mp_probed m' = mp_probed (cy_prober c) \<and> mp_bindings m' = mp_bindings (cy_prober c)"
    by (auto simp: m'_def closeProxies_def account_defs fun_eq_iff split: option.splits restore.splits)
  moreover have "map core kept2 = map core kept1 \<and> tp_Moved tr2 = 0 \<and>
      (tp_State tr2 = TraceRan \<longrightarrow> tp_Answered tr2 + tp_Unanswered tr2 = length kept2)"
  proof (cases "sp_Trace spec \<and> cp_traceChecker (sp_Prober spec) \<noteq> None")
    case True
    then obtain tracer where "trace_survivors (tracer (filterSubset kept1 byLabel)) (no_trace\<lparr>tp_State := TraceRan\<rparr>) kept1 = (kept2, tr2)"
      using t by (auto simp: run_trace_def applyTrace_def)
    from trace_core [OF this] trace_books [OF this] sum_length_filter_compl [of "\<lambda>s. tracer (filterSubset kept1 byLabel) (en_Label s) \<noteq> None" kept1]
    show ?thesis by (simp add: no_trace_def)
  next
    case False
    then have "kept2 = kept1" "tr2 = no_trace" using t by (auto simp: run_trace_def split: option.splits if_splits)
    then show ?thesis by (simp add: no_trace_def)
  qed
  moreover have "length kept2 = length kept1" using calculation by (metis length_map)
  ultimately show ?thesis
    using chain_books [OF f] chain_core [OF f] unfolding e by metis
qed

section \<open>The end of a cycle\<close>

definition published_line :: "bool \<Rightarrow> Survivor \<Rightarrow> Survivor \<Rightarrow> string \<Rightarrow> bool" where
  "published_line annotated s s' line \<longleftrightarrow> (if annotated then published_as s s' line else line = en_Raw s \<and> s' = s)"

lemma build_payload_lines:
  "BuildPayload ann w ss = (payload, svs, w') \<Longrightarrow>
     \<exists>ls. payload = concat (map (\<lambda>l. l @ [CHR 0x0A]) ls) \<and> length ls = length ss \<and> length svs = length ss \<and>
       list_all (\<lambda>(s, s', l). published_line (ann \<noteq> None) s s' l) (zip ss (zip svs ls))"
proof (cases ann)
  case None
  assume "BuildPayload ann w ss = (payload, svs, w')"
  with None show ?thesis
    by (intro exI [of _ "map en_Raw ss"])
      (auto simp: BuildPayload_def published_line_def comp_def zip_map2 zip_same_conv_map list_all_iff)
next
  case (Some a)
  assume "BuildPayload ann w ss = (payload, svs, w')"
  with Some payload_loop_published [of a w "[]" ss payload svs w'] show ?thesis
    by (simp add: BuildPayload_def published_line_def)
qed

text \<open>The dead set after a cycle that came past its probe.\<close>

definition dead_after ::
  "('p, 't, 's) cycle_env \<Rightarrow> ('p, 'w) CheckerSpec \<Rightarrow> Entry list \<Rightarrow> (string \<rightharpoonup> ProbeResult) \<Rightarrow> ('p, 't, 'w, 's) Checker \<Rightarrow> DeadSet option" where
  "dead_after env spec probed res c =
     map_option (dead_Prune (ce_pruneAt env))
       (recordDead (ce_blockAt env) probed res (refusalReportOf (sp_Prober spec) (cy_prober c))
         (precheckReportOf (sp_Prober spec) (cy_prober c)) (cy_dead c))"

definition unpublished :: "('p, 't, 'w, 's) Checker \<Rightarrow> ('p, 't, 'w, 's) Checker \<Rightarrow> bool" where
  "unpublished c c' \<longleftrightarrow> cy_observed c' = cy_observed c \<and> cy_errors c' = cy_errors c + 1 \<and>
     cy_holder c' = cy_holder c \<and> cy_files c' = cy_files c"

abbreviation selected_by :: "('p, 'w) CheckerSpec \<Rightarrow> Entry list \<Rightarrow> (string \<rightharpoonup> ProbeResult) \<Rightarrow> Survivor list" where
  "selected_by spec probed res \<equiv> SelectSurvivors probed res (int (sp_Rounds spec)) (sp_MaxFail spec) (sp_MaxAvgMs spec)"

definition published_cycle ::
  "('p, 't, 's) cycle_env \<Rightarrow> ('p, 'w) CheckerSpec \<Rightarrow> SourceBody list \<Rightarrow> SourceReport list \<Rightarrow> Entry list \<Rightarrow> Entry list \<Rightarrow> nat
   \<Rightarrow> (string \<rightharpoonup> ProbeResult) \<Rightarrow> ('p, 't, 'w, 's) Checker \<Rightarrow> ('p, 't, 'w, 's) Checker \<Rightarrow> bool" where
  "published_cycle env spec bodies sources entries probed skipped res c c' \<longleftrightarrow>
     (\<exists>kept svs ls r snap.
        kept \<noteq> [] \<and> subseq (map core kept) (map core (selected_by spec probed res)) \<and>
        length ls = length kept \<and> length svs = length kept \<and>
        list_all (\<lambda>(s, s', l). published_line (fl_Annotator (sp_Filterer spec) \<noteq> None) s s' l) (zip kept (zip svs ls)) \<and>
        sn_Payload snap = concat (map (\<lambda>l. l @ [CHR 0x0A]) ls) \<and>
        sn_Stats snap = \<lparr>ss_SourcesOK = length bodies, ss_SourcesTotal = length (sp_Sources spec),
          ss_Merged = length entries, ss_Tested = length probed, ss_Kept = length kept\<rparr> \<and>
        cy_holder c' = Some snap \<and>
        cy_files c' = last (snd (SaveSnapshot (ce_time_json env) (ce_fails env) (ce_path env) snap (cy_files c))) \<and>
        cy_observed c' = cy_observed c @ [r] \<and> cy_errors c' = cy_errors c \<and>
        cr_Merged r = length entries \<and> cr_DeadSkipped r = skipped \<and> cr_Probed r = length probed \<and> cr_Kept r = length kept \<and>
        cr_ProbeStages r = probeStages probed res (refusalReportOf (sp_Prober spec) (cy_prober c)) \<and>
        cr_Refusals r = attributeRefusals probed res (refusalReportOf (sp_Prober spec) (cy_prober c)) \<and>
        chained (length (selected_by spec probed res)) (cr_Filters r) (length kept) \<and>
        cr_Sources r = countSourceStages sources (selected_by spec probed res) kept \<and>
        (tp_State (cr_Trace r) = TraceRan \<longrightarrow> tp_Answered (cr_Trace r) + tp_Unanswered (cr_Trace r) = length kept))"

lemma published_cycleE:
  assumes "published_cycle env spec bodies sources entries probed skipped res c c'"
  obtains kept svs ls r snap where "kept \<noteq> []" "subseq (map core kept) (map core (selected_by spec probed res))"
    "length ls = length kept" "length svs = length kept"
    "list_all (\<lambda>(s, s', l). published_line (fl_Annotator (sp_Filterer spec) \<noteq> None) s s' l) (zip kept (zip svs ls))"
    "sn_Payload snap = concat (map (\<lambda>l. l @ [CHR 0x0A]) ls)"
    "sn_Stats snap = \<lparr>ss_SourcesOK = length bodies, ss_SourcesTotal = length (sp_Sources spec),
      ss_Merged = length entries, ss_Tested = length probed, ss_Kept = length kept\<rparr>"
    "cy_holder c' = Some snap"
    "cy_files c' = last (snd (SaveSnapshot (ce_time_json env) (ce_fails env) (ce_path env) snap (cy_files c)))"
    "cy_observed c' = cy_observed c @ [r]" "cy_errors c' = cy_errors c"
    "cr_Merged r = length entries" "cr_DeadSkipped r = skipped" "cr_Probed r = length probed" "cr_Kept r = length kept"
    "cr_ProbeStages r = probeStages probed res (refusalReportOf (sp_Prober spec) (cy_prober c))"
    "cr_Refusals r = attributeRefusals probed res (refusalReportOf (sp_Prober spec) (cy_prober c))"
    "chained (length (selected_by spec probed res)) (cr_Filters r) (length kept)"
    "cr_Sources r = countSourceStages sources (selected_by spec probed res) kept"
    "tp_State (cr_Trace r) = TraceRan \<longrightarrow> tp_Answered (cr_Trace r) + tp_Unanswered (cr_Trace r) = length kept"
  using assms unfolding published_cycle_def by (elim exE conjE) (rule that)

lemma after_probe_facts:
  assumes "after_probe env spec bodies sources entries probed skipped res adapters c = (err, c')"
  shows "same_accounts (cy_prober c) (cy_prober c') \<and> mp_probed (cy_prober c') = mp_probed (cy_prober c) \<and>
    mp_bindings (cy_prober c') = mp_bindings (cy_prober c) \<and>
    cy_dead c' = (if ce_doneAfterProbe env then cy_dead c else dead_after env spec probed res c) \<and>
    (unpublished c c' \<or> err = None \<and> published_cycle env spec bodies sources entries probed skipped res c c')"
proof (cases "ce_doneAfterProbe env")
  case True
  then show ?thesis using assms by (auto simp: after_probe_def reportError_def unpublished_def)
next
  case go: False
  define rf where "rf = refusalReportOf (sp_Prober spec) (cy_prober c)"
  define pc where "pc = precheckReportOf (sp_Prober spec) (cy_prober c)"
  define c1 where "c1 = c\<lparr>cy_dead := recordDead (ce_blockAt env) probed res rf pc (cy_dead c)\<rparr>"
  define sel where "sel = selected_by spec probed res"
  obtain kept filters tr c2 where e: "egress_stage env spec sel adapters c1 = (kept, filters, tr, c2)" by (metis prod_cases4)
  define c3 where "c3 = pruneCaches env c2"
  note facts = egress_facts [OF e]
  obtain st m where c2: "c2 = c1\<lparr>cy_store := st, cy_prober := m\<rparr>" and m: "same_accounts (cy_prober c) m"
      "mp_probed m = mp_probed (cy_prober c)" "mp_bindings m = mp_bindings (cy_prober c)"
    using facts by (auto simp: c1_def)
  have c3: "cy_prober c3 = m" "cy_dead c3 = dead_after env spec probed res c" "cy_holder c3 = cy_holder c" "cy_files c3 = cy_files c"
      "cy_observed c3 = cy_observed c" "cy_errors c3 = cy_errors c" "cy_world c3 = cy_world c"
    by (simp_all add: c3_def pruneCaches_def c2 c1_def dead_after_def rf_def pc_def)
  note step = assms [unfolded after_probe_def filterAndMeasureEgress_def Let_def, folded rf_def pc_def, folded c1_def sel_def,
    unfolded e prod.case, folded c3_def]
  show ?thesis
  proof (cases "ce_doneAfterFilters env \<or> kept = []")
    case True
    then have "c' = reportError c3" using step go by (auto split: if_splits)
    then show ?thesis using c3 m go by (simp add: reportError_def unpublished_def)
  next
    case live: False
    obtain payload svs w1 where b: "BuildPayload (fl_Annotator (sp_Filterer spec)) (cy_world c3) kept = (payload, svs, w1)"
      by (metis prod_cases3)
    obtain moved w2 where mv: "movedCount (fl_Annotator (sp_Filterer spec)) w1 svs = (moved, w2)" by fastforce
    obtain ls where ls: "payload = concat (map (\<lambda>l. l @ [CHR 0x0A]) ls)" "length ls = length kept" "length svs = length kept"
        "list_all (\<lambda>(s, s', l). published_line (fl_Annotator (sp_Filterer spec) \<noteq> None) s s' l) (zip kept (zip svs ls))"
      using build_payload_lines [OF b] by blast
    show ?thesis
    proof (cases "ce_doneInPublish env")
      case True
      then have "c' = reportError (c3\<lparr>cy_world := w1\<rparr>)"
        using step go live by (auto simp: annotateAndPublish_def b Let_def split: if_splits)
      then show ?thesis using c3 m go by (simp add: reportError_def unpublished_def)
    next
      case False
      let ?stats = "\<lparr>ss_SourcesOK = length bodies, ss_SourcesTotal = length (sp_Sources spec), ss_Merged = length entries,
        ss_Tested = length probed, ss_Kept = length svs\<rparr>"
      obtain r where r: "err = None" "c' = observe r (publish env payload ?stats (c3\<lparr>cy_world := w2\<rparr>))"
          "cr_Merged r = length entries" "cr_DeadSkipped r = skipped" "cr_Probed r = length probed" "cr_Kept r = length svs"
          "cr_ProbeStages r = probeStages probed res rf" "cr_Refusals r = attributeRefusals probed res rf"
          "cr_Filters r = filters" "cr_Sources r = countSourceStages sources sel kept" "cr_Trace r = tr\<lparr>tp_Moved := moved\<rparr>"
        using step go live False by (auto simp: annotateAndPublish_def b mv Let_def)
      define snap where "snap = \<lparr>sn_Payload = payload, sn_UpdatedAt = ce_publishedAt env, sn_Stats = ?stats\<rparr>"
      have c': "cy_prober c' = m" "cy_dead c' = dead_after env spec probed res c" "cy_holder c' = Some snap"
          "cy_files c' = last (snd (SaveSnapshot (ce_time_json env) (ce_fails env) (ce_path env) snap (cy_files c)))"
          "cy_observed c' = cy_observed c @ [r]" "cy_errors c' = cy_errors c"
        by (simp_all add: r(2) observe_def publish_def Let_def snap_def c3 split: prod.split)
      have "published_cycle env spec bodies sources entries probed skipped res c c'"
        unfolding published_cycle_def sel_def [symmetric] rf_def [symmetric]
        using live facts ls r c'
        by (intro exI [of _ kept] exI [of _ svs] exI [of _ ls] exI [of _ r] exI [of _ snap]) (simp add: snap_def)
      then show ?thesis using c' m go r(1) by simp
    qed
  qed
qed

section \<open>The sums of a report\<close>

abbreviation all_stages :: "ProbeStage list" where
  "all_stages \<equiv> [StageUnknown, StageCondemned, StageConnect, StageFetch, StagePassed]"

lemma stage_sum:
  "sum_list (map (foldl (count_stage res rf) st es) all_stages) =
     sum_list (map st all_stages) + length (filter (\<lambda>e. res (en_Label e) \<noteq> None \<or> rf_State rf \<noteq> RefusalRan) es)"
proof (induction es arbitrary: st)
  case (Cons e es)
  have bump: "sum_list (map (st(s := st s + 1)) all_stages) = sum_list (map st all_stages) + 1" for s
    by (cases s) simp_all
  show ?case
    using Cons.IH [of "count_stage res rf st e"] bump
    by (auto simp: count_stage_def split: option.splits)
qed simp

lemma refusal_sum:
  "rf_State (foldl (attribute_refusal res) r es) = rf_State r \<and>
   rf_Unparsable (foldl (attribute_refusal res) r es) + rf_Unconvertible (foldl (attribute_refusal res) r es) =
     rf_Unparsable r + rf_Unconvertible r + length (filter (\<lambda>e. res (en_Label e) = None) es)"
  by (induction es arbitrary: r) (auto simp: attribute_refusal_def)

lemma stages_and_refusals:
  assumes "rf_Unparsable rf = 0" "rf_Unconvertible rf = 0"
  shows "sum_list (map (probeStages probed res rf) all_stages) +
     rf_Unparsable (attributeRefusals probed res rf) + rf_Unconvertible (attributeRefusals probed res rf) = length probed"
proof (cases "rf_State rf = RefusalRan")
  case True
  have "length (filter (\<lambda>e. res (en_Label e) \<noteq> None) probed) + length (filter (\<lambda>e. res (en_Label e) = None) probed) = length probed"
    using sum_length_filter_compl [of "\<lambda>e. res (en_Label e) \<noteq> None" probed] by simp
  then show ?thesis
    using stage_sum [of res rf "\<lambda>_. 0" probed] refusal_sum [of res rf probed] True assms
    by (simp add: probeStages_def attributeRefusals_def)
next
  case False
  then show ?thesis
    using stage_sum [of res rf "\<lambda>_. 0" probed] assms by (simp add: probeStages_def attributeRefusals_def)
qed

lemma source_index_spec:
  "(case source_index reports name of
      None \<Rightarrow> name \<notin> set (map so_Name reports)
    | Some i \<Rightarrow> i < length reports \<and> so_Name (reports ! i) = name)"
proof -
  have "case foldl (\<lambda>m i. m(so_Name (reports ! i) \<mapsto> i)) Map.empty [0..<n] name of
      None \<Rightarrow> name \<notin> set (map so_Name (take n reports))
    | Some i \<Rightarrow> i < n \<and> so_Name (reports ! i) = name" if "n \<le> length reports" for n
    using that by (induction n) (auto simp: take_Suc_conv_app_nth split: option.splits if_splits)
  from this [of "length reports"] show ?thesis by (simp only: source_index_def take_all order_refl)
qed

lemma map_same:
  "f (g (rs ! i)) = f (rs ! i) \<Longrightarrow> map f (rs[i := g (rs ! i)]) = map f rs"
proof (cases "i < length rs")
  case True
  assume "f (g (rs ! i)) = f (rs ! i)"
  with True show ?thesis by (simp add: map_update) (metis list_update_id nth_map)
qed (simp add: list_update_beyond)

lemma sum_bump:
  "i < length rs \<Longrightarrow> f (g (rs ! i)) = f (rs ! i) + (k :: nat) \<Longrightarrow> sum_list (map f (rs[i := g (rs ! i)])) = sum_list (map f rs) + k"
  by (induction rs arbitrary: i) (auto split: nat.splits simp: nth_Cons')

lemma count_tested_sum:
  assumes "\<And>s i. s \<in> set ss \<Longrightarrow> byName (sourceOfLabel (en_Label s)) \<noteq> None"
    and "\<And>n i. byName n = Some i \<Longrightarrow> i < length rs"
  shows "sum_list (map so_Tested (foldl (count_tested byName) rs ss)) = sum_list (map so_Tested rs) + length ss \<and>
    map so_Filtered (foldl (count_tested byName) rs ss) = map so_Filtered rs \<and>
    length (foldl (count_tested byName) rs ss) = length rs"
  using assms
proof (induction ss arbitrary: rs)
  case (Cons s ss)
  from Cons.prems(1) [of s] obtain i where i: "byName (sourceOfLabel (en_Label s)) = Some i" by auto
  define rs' where "rs' = rs[i := (rs ! i)\<lparr>so_Tested := so_Tested (rs ! i) + 1\<rparr>]"
  have len: "length rs' = length rs" by (simp add: rs'_def)
  have "i < length rs" using Cons.prems(2) i by blast
  then have "sum_list (map so_Tested rs') = sum_list (map so_Tested rs) + 1"
    using sum_bump [of i rs so_Tested "\<lambda>r. r\<lparr>so_Tested := so_Tested r + 1\<rparr>" 1] by (simp add: rs'_def)
  moreover have "map so_Filtered rs' = map so_Filtered rs"
    unfolding rs'_def by (rule map_same [of so_Filtered "\<lambda>r. r\<lparr>so_Tested := so_Tested r + 1\<rparr>"]) simp
  ultimately show ?case
    using Cons.IH [of rs'] Cons.prems len i by (simp add: count_tested_def rs'_def)
qed simp

lemma count_filtered_sum:
  assumes "\<And>s i. s \<in> set ss \<Longrightarrow> byName (sourceOfLabel (en_Label s)) \<noteq> None"
    and "\<And>n i. byName n = Some i \<Longrightarrow> i < length rs"
  shows "sum_list (map so_Filtered (foldl (count_filtered byName) rs ss)) = sum_list (map so_Filtered rs) + length ss \<and>
    map so_Tested (foldl (count_filtered byName) rs ss) = map so_Tested rs"
  using assms
proof (induction ss arbitrary: rs)
  case (Cons s ss)
  from Cons.prems(1) [of s] obtain i where i: "byName (sourceOfLabel (en_Label s)) = Some i" by auto
  define rs' where "rs' = rs[i := (rs ! i)\<lparr>so_Filtered := so_Filtered (rs ! i) + 1\<rparr>]"
  have len: "length rs' = length rs" by (simp add: rs'_def)
  have "i < length rs" using Cons.prems(2) i by blast
  then have "sum_list (map so_Filtered rs') = sum_list (map so_Filtered rs) + 1"
    using sum_bump [of i rs so_Filtered "\<lambda>r. r\<lparr>so_Filtered := so_Filtered r + 1\<rparr>" 1] by (simp add: rs'_def)
  moreover have "map so_Tested rs' = map so_Tested rs"
    unfolding rs'_def by (rule map_same [of so_Tested "\<lambda>r. r\<lparr>so_Filtered := so_Filtered r + 1\<rparr>"]) simp
  ultimately show ?case
    using Cons.IH [of rs'] Cons.prems len i by (simp add: count_filtered_def rs'_def)
qed simp

lemma source_stage_sums:
  assumes "list_all (\<lambda>r. so_Tested r = 0 \<and> so_Filtered r = 0) reports"
    and "\<And>s. s \<in> set tested \<union> set kept \<Longrightarrow> sourceOfLabel (en_Label s) \<in> set (map so_Name reports)"
  shows "sum_list (map so_Tested (countSourceStages reports tested kept)) = length tested \<and>
    sum_list (map so_Filtered (countSourceStages reports tested kept)) = length kept"
proof -
  let ?byName = "source_index reports"
  have i: "?byName n = Some i \<Longrightarrow> i < length reports" for n i
    using source_index_spec [where reports = reports and name = n] by simp
  have "n \<in> set (map so_Name reports) \<Longrightarrow> ?byName n \<noteq> None" for n
    using source_index_spec [where reports = reports and name = n] by (cases "?byName n") auto
  then have s: "s \<in> set tested \<union> set kept \<Longrightarrow> ?byName (sourceOfLabel (en_Label s)) \<noteq> None" for s
    using assms(2) by blast
  have zero: "sum_list (map so_Tested reports) = 0" "sum_list (map so_Filtered reports) = 0"
    using assms(1) by (auto simp: list_all_iff)
  have t: "sum_list (map so_Tested (foldl (count_tested ?byName) reports tested)) = length tested"
      "map so_Filtered (foldl (count_tested ?byName) reports tested) = map so_Filtered reports"
      "length (foldl (count_tested ?byName) reports tested) = length reports"
    using count_tested_sum [of tested ?byName reports] s i zero by auto
  have f: "sum_list (map so_Filtered (foldl (count_filtered ?byName) (foldl (count_tested ?byName) reports tested) kept)) = length kept"
      "map so_Tested (foldl (count_filtered ?byName) (foldl (count_tested ?byName) reports tested) kept) =
        map so_Tested (foldl (count_tested ?byName) reports tested)"
    using count_filtered_sum [of kept ?byName "foldl (count_tested ?byName) reports tested"] s i t zero by auto
  show ?thesis unfolding countSourceStages_def Let_def using t f by simp
qed

section \<open>The ways a cycle goes\<close>

lemma run_once_cases:
  assumes "RunOnce env spec c = (err, c')"
  obtains (early) "err = None" "c' = reportError c"
    | (failed) e m es where "probeEntries (sp_Prober spec) (ce_probe env) (ce_uni env) (sp_Rounds spec) es (cy_prober c) = (Inl e, m)"
        "err = Some (ErrProbe e)" "c' = reportError (c\<lparr>cy_prober := m\<rparr>)"
    | (ran) bodies sources probed skipped res m adapters m1 c1 where
        "fetchSources spec = (bodies, sources)"
        "filterDead (cy_dead c) (ce_blockedAt env) (Merge (ce_uni env) bodies) = (probed, skipped, True)"
        "probeEntries (sp_Prober spec) (ce_probe env) (ce_uni env) (sp_Rounds spec) probed (cy_prober c) = (Inr res, m)"
        "cycle_takeProbedAdapters (sp_Prober spec) m = (adapters, m1)"
        "after_probe env spec bodies sources (Merge (ce_uni env) bodies) probed skipped res adapters (c\<lparr>cy_prober := m1\<rparr>) = (err, c1)"
        "c' = c1\<lparr>cy_prober := closeProbed (sp_Prober spec) adapters (cy_prober c1)\<rparr>"
proof -
  obtain bodies sources where f: "fetchSources spec = (bodies, sources)" by fastforce
  obtain probed skipped ok where d: "filterDead (cy_dead c) (ce_blockedAt env) (Merge (ce_uni env) bodies) = (probed, skipped, ok)"
    by (metis prod_cases3)
  note step = assms [unfolded RunOnce_def Let_def f prod.case d]
  show ?thesis
  proof (cases "Merge (ce_uni env) bodies = [] \<or> \<not> ok")
    case True
    then show ?thesis using step early by (auto split: if_splits)
  next
    case False
    obtain r m where p: "probeEntries (sp_Prober spec) (ce_probe env) (ce_uni env) (sp_Rounds spec) probed (cy_prober c) = (r, m)"
      by fastforce
    show ?thesis
    proof (cases r)
      case (Inl e)
      then show ?thesis using step False p failed [of probed e m] by simp
    next
      case (Inr res)
      obtain adapters m1 where t: "cycle_takeProbedAdapters (sp_Prober spec) m = (adapters, m1)" by fastforce
      obtain err1 c1 where a: "after_probe env spec bodies sources (Merge (ce_uni env) bodies) probed skipped res adapters (c\<lparr>cy_prober := m1\<rparr>) = (err1, c1)"
        by fastforce
      have "err = err1" "c' = c1\<lparr>cy_prober := closeProbed (sp_Prober spec) adapters (cy_prober c1)\<rparr>"
        using step False p Inr t a by simp_all
      then show ?thesis using ran [OF f _ _ t] d p Inr a False by simp
    qed
  qed
qed

lemma close_probed_accounts:
  assumes "mp_probed m = None"
  shows "adapter_debt (closeProbed caps adapters m) px = adapter_debt m px - int (count (mset (case adapters of None \<Rightarrow> [] | Some pxs \<Rightarrow> pxs)) px)"
    "home_table (closeProbed caps adapters m) = home_table m"
    "mp_probed (closeProbed caps adapters m) = None"
    "cp_bindingReleaser caps \<Longrightarrow> mp_bindings (closeProbed caps adapters m) = None"
  using assms
  by (auto simp: closeProbed_def closeProxies_def releaseBindings_def account_defs Let_def split: option.splits restore.splits)

section \<open>Properties\<close>

text \<open>
  C2: A cycle that does not publish leaves the published list and its file as they were and is
  reported as one error, whether it found nothing, failed or was cancelled; a cycle that publishes is
  observed once, returns no error, and publishes a list that is not empty and counts as its report does.
\<close>

theorem failed_cycle_keeps_list:
  "case RunOnce env spec c of (err, c') \<Rightarrow>
     if cy_observed c' = cy_observed c
     then cy_holder c' = cy_holder c \<and> cy_files c' = cy_files c \<and> cy_errors c' = cy_errors c + 1
     else err = None \<and> cy_errors c' = cy_errors c \<and>
       (\<exists>r snap. cy_observed c' = cy_observed c @ [r] \<and> cy_holder c' = Some snap \<and>
          cy_files c' = last (snd (SaveSnapshot (ce_time_json env) (ce_fails env) (ce_path env) snap (cy_files c))) \<and>
          sn_Payload snap \<noteq> [] \<and> cr_Kept r > 0 \<and> ss_Kept (sn_Stats snap) = cr_Kept r \<and>
          ss_Tested (sn_Stats snap) = cr_Probed r \<and> ss_Merged (sn_Stats snap) = cr_Merged r)"
proof -
  obtain err c' where r: "RunOnce env spec c = (err, c')" by fastforce
  have "?thesis" if "unpublished c c'"
    unfolding r prod.case using that by (simp add: unpublished_def)
  moreover from r have "unpublished c c' \<or> err = None \<and> cy_errors c' = cy_errors c \<and> (\<exists>r snap. cy_observed c' = cy_observed c @ [r] \<and>
      cy_holder c' = Some snap \<and>
      cy_files c' = last (snd (SaveSnapshot (ce_time_json env) (ce_fails env) (ce_path env) snap (cy_files c))) \<and>
      sn_Payload snap \<noteq> [] \<and> cr_Kept r > 0 \<and> ss_Kept (sn_Stats snap) = cr_Kept r \<and>
      ss_Tested (sn_Stats snap) = cr_Probed r \<and> ss_Merged (sn_Stats snap) = cr_Merged r)"
  proof (cases rule: run_once_cases)
    case (ran bodies sources probed skipped res m adapters m1 c1)
    let ?c1 = "c\<lparr>cy_prober := m1\<rparr>"
    from after_probe_facts [OF ran(5)] show ?thesis
    proof (elim conjE disjE)
      assume "unpublished ?c1 c1"
      then show ?thesis by (simp add: unpublished_def ran(6))
    next
      assume "err = None" and pub: "published_cycle env spec bodies sources (Merge (ce_uni env) bodies) probed skipped res ?c1 c1"
      from pub show ?thesis
      proof (rule published_cycleE)
        fix kept svs ls r snap
        assume f: "kept \<noteq> []" "length ls = length kept" "sn_Payload snap = concat (map (\<lambda>l. l @ [CHR 0x0A]) ls)"
          "sn_Stats snap = \<lparr>ss_SourcesOK = length bodies, ss_SourcesTotal = length (sp_Sources spec),
             ss_Merged = length (Merge (ce_uni env) bodies), ss_Tested = length probed, ss_Kept = length kept\<rparr>"
          "cy_holder c1 = Some snap"
          "cy_files c1 = last (snd (SaveSnapshot (ce_time_json env) (ce_fails env) (ce_path env) snap (cy_files ?c1)))"
          "cy_observed c1 = cy_observed ?c1 @ [r]" "cy_errors c1 = cy_errors ?c1"
          "cr_Merged r = length (Merge (ce_uni env) bodies)" "cr_Probed r = length probed" "cr_Kept r = length kept"
        have "sn_Payload snap \<noteq> []" using f(1,2,3) by (cases ls) auto
        with f \<open>err = None\<close> show ?thesis
          by (intro disjI2 conjI exI [of _ r] exI [of _ snap]) (simp_all add: ran(6))
      qed
    qed
  qed (simp_all add: reportError_def unpublished_def)
  ultimately show ?thesis unfolding r prod.case by auto
qed

text \<open>
  C9: A cycle closes every adapter it builds exactly once and leaves the resolver table as it found it,
  on every path through it. In general it keeps the account of adapters built, closed and retained, and
  the table underneath the pins; a prober that hands over its adapters retains none.
\<close>

theorem adapters_closed_once:
  "case RunOnce env spec c of (err, c') \<Rightarrow>
     adapter_debt (cy_prober c') = adapter_debt (cy_prober c) \<and> home_table (cy_prober c') = home_table (cy_prober c) \<and>
     (if cp_probedAdapterSource (sp_Prober spec) \<and> cp_bindingReleaser (sp_Prober spec) \<and>
         mp_probed (cy_prober c) = None \<and> mp_bindings (cy_prober c) = None \<and>
         mset (mp_built (cy_prober c)) = mset (mp_closed (cy_prober c))
      then mset (mp_built (cy_prober c')) = mset (mp_closed (cy_prober c')) \<and> mp_probed (cy_prober c') = None \<and>
        mp_bindings (cy_prober c') = None \<and> mp_table (cy_prober c') = mp_table (cy_prober c)
      else True)"
proof -
  obtain err c' where r: "RunOnce env spec c = (err, c')" by fastforce
  let ?m = "cy_prober c" and ?m' = "cy_prober c'" and ?caps = "sp_Prober spec"
  from r have main: "same_accounts ?m ?m' \<and>
      (cp_probedAdapterSource ?caps \<and> cp_bindingReleaser ?caps \<and> mp_probed ?m = None \<and> mp_bindings ?m = None \<longrightarrow>
        mp_probed ?m' = None \<and> mp_bindings ?m' = None)"
  proof (cases rule: run_once_cases)
    case early
    then show ?thesis by (simp add: reportError_def)
  next
    case (failed e m es)
    then show ?thesis using probe_entries_accounts [OF failed(1)] by (simp add: reportError_def)
  next
    case (ran bodies sources probed skipped res m adapters m1 c1)
    have p: "same_accounts ?m m" using probe_entries_accounts [OF ran(3)] by simp
    note after = after_probe_facts [OF ran(5)]
    show ?thesis
    proof (cases "cp_probedAdapterSource ?caps")
      case True
      then have t: "adapters = mp_probed m" "m1 = m\<lparr>mp_probed := None\<rparr>"
        using ran(4) by (simp_all add: cycle_takeProbedAdapters_def TakeProbedAdapters_def)
      have "mp_probed (cy_prober c1) = None" using after t by simp
      note close = close_probed_accounts [OF this]
      have "adapter_debt ?m' px = adapter_debt ?m px" for px
      proof -
        have "adapter_debt ?m' px = adapter_debt m1 px - int (count (mset (retained m)) px)"
          using close(1) after by (simp add: ran(6) t(1) same_accounts_def retained_def)
        also have "adapter_debt m1 px = adapter_debt m px + int (count (mset (retained m)) px)"
          by (simp add: t(2) adapter_debt_def retained_def)
        finally show ?thesis using p by (simp add: same_accounts_def)
      qed
      moreover have "home_table m1 = home_table m" by (simp add: t(2) home_table_def split: option.splits restore.splits)
      ultimately show ?thesis
        using close p after by (simp add: ran(6) same_accounts_def fun_eq_iff)
    next
      case False
      then have t: "adapters = None" "m1 = m" using ran(4) by (simp_all add: cycle_takeProbedAdapters_def)
      have "same_accounts (cy_prober c1) (closeProbed ?caps None (cy_prober c1))"
        by (auto simp: closeProbed_def closeProxies_def releaseBindings_def account_defs Let_def split: option.splits restore.splits)
      then have "same_accounts ?m ?m'"
        using p after unfolding t ran(6) by (auto intro: same_accounts_trans)
      with False show ?thesis by simp
    qed
  qed
  moreover have "mset (mp_built ?m') = mset (mp_closed ?m')"
    if h: "mset (mp_built ?m) = mset (mp_closed ?m)" "mp_probed ?m = None" "mp_probed ?m' = None" "adapter_debt ?m' = adapter_debt ?m"
  proof (rule multiset_eqI)
    fix px
    from fun_cong [OF h(4), of px] h(1-3) show "count (mset (mp_built ?m')) px = count (mset (mp_closed ?m')) px"
      by (simp add: adapter_debt_def retained_def)
  qed
  moreover have "mp_table ?m' = mp_table ?m" if "mp_bindings ?m = None" "mp_bindings ?m' = None" "home_table ?m' = home_table ?m"
    using that by (simp add: home_table_def)
  ultimately show ?thesis unfolding r prod.case same_accounts_def by auto
qed

end
