(* ===== verification/CycleBooks.thy ===== *)
theory CycleBooks
  imports CycleRuns
begin

text \<open>
  The books of a published cycle, what it may write to the dead set, and where its lines come from.
\<close>

section \<open>Labels\<close>

lemma selected_from:
  "s \<in> set (SelectSurvivors es res rounds maxFail maxAvg) \<longleftrightarrow>
     (\<exists>e r. e \<in> set es \<and> res (en_Label e) = Some r \<and> rounds - pr_Successes r \<le> maxFail \<and> pr_MeanMs r \<le> maxAvg \<and>
        s = survivor_of e (pr_MeanMs r))"
  by (auto simp: SelectSurvivors_def in_map_filter select_entry_Some)

lemma length_selected: "length (SelectSurvivors es res rounds maxFail maxAvg) \<le> length es"
  by (simp add: SelectSurvivors_def List.map_filter_def)

lemma core_fields: "core s = core s' \<Longrightarrow> en_Label s = en_Label s' \<and> en_Raw s = en_Raw s' \<and> en_IP s = en_IP s' \<and> en_Addr s = en_Addr s'"
  by (cases s; cases s') (simp add: core_def)

lemma kept_from_selected:
  assumes "subseq (map core kept) (map core sel)" "s \<in> set kept"
  obtains s' where "s' \<in> set sel" "core s = core s'"
proof -
  have "core s \<in> set (map core sel)" using assms list_emb_set [of "(=)" "map core kept" "map core sel" "core s"] by auto
  then show ?thesis using that by auto
qed

lemma filter_dead_facts:
  assumes "filterDead dead now es = (probed, skipped, True)"
  shows "subseq probed es \<and> length probed + skipped = length es \<and>
    (\<forall>e \<in> set probed. \<exists>i. case dead of None \<Rightarrow> True | Some d \<Rightarrow> \<not> dead_Blocked d (en_Addr e, en_IP e) (now i))"
proof -
  have "dead_loop dead now 0 es = (probed, skipped)"
    using assms by (auto simp: filterDead_def Let_def split: prod.splits if_splits)
  from dead_loop_split [OF this] show ?thesis .
qed

lemma merged_labels:
  assumes "e \<in> set (Merge lower bodies)" "[] \<notin> sb_Name ` set bodies"
  shows "sourceOfLabel (en_Label e) \<in> sb_Name ` set bodies"
proof -
  obtain src k where "src \<in> set bodies" "entry_from lower src k e"
    using merge_ref_ok [of lower bodies] assms(1) by (auto simp: Merge_ref merged_ok_def)
  moreover have "sb_Name src \<noteq> []" using assms(2) calculation(1) by (metis image_eqI)
  ultimately show ?thesis using sourceOfLabel_node [of "sb_Name src" k] by (simp add: entry_from_def)
qed

lemma refusal_counts_zero:
  assumes "rf_Unparsable (mp_parseRefusal m) = 0" "rf_Unconvertible (mp_parseRefusal m) = 0"
  shows "rf_Unparsable (refusalReportOf caps m) = 0" "rf_Unconvertible (refusalReportOf caps m) = 0"
  using assms by (simp_all add: refusalReportOf_def no_refusals_def)

lemma take_keeps_refusals:
  "cycle_takeProbedAdapters caps m = (adapters, m1) \<Longrightarrow> mp_parseRefusal m1 = mp_parseRefusal m \<and> mp_precheck m1 = mp_precheck m"
  by (auto simp: cycle_takeProbedAdapters_def TakeProbedAdapters_def split: if_splits)

section \<open>Properties\<close>

lemma published_books:
  assumes ran: "fetchSources spec = (bodies, sources)"
      "filterDead (cy_dead c) (ce_blockedAt env) (Merge (ce_uni env) bodies) = (probed, skipped, True)"
      "probeEntries (sp_Prober spec) (ce_probe env) (ce_uni env) (sp_Rounds spec) probed (cy_prober c) = (Inr res, m)"
      "cycle_takeProbedAdapters (sp_Prober spec) m = (adapters, m1)"
    and pub: "published_cycle env spec bodies sources (Merge (ce_uni env) bodies) probed skipped res (c\<lparr>cy_prober := m1\<rparr>) c1"
  shows "\<exists>r n. cy_observed c1 = cy_observed c @ [r] \<and> cr_Merged r = cr_DeadSkipped r + cr_Probed r \<and>
    sum_list (map (cr_ProbeStages r) all_stages) + rf_Unparsable (cr_Refusals r) + rf_Unconvertible (cr_Refusals r) = cr_Probed r \<and>
    n \<le> cr_Probed r \<and> chained n (cr_Filters r) (cr_Kept r) \<and>
    ([] \<notin> su_Name ` set (sp_Sources spec) \<longrightarrow>
      sum_list (map so_Tested (cr_Sources r)) = n \<and> sum_list (map so_Filtered (cr_Sources r)) = cr_Kept r) \<and>
    (tp_State (cr_Trace r) = TraceRan \<longrightarrow> tp_Answered (cr_Trace r) + tp_Unanswered (cr_Trace r) = cr_Kept r)"
  using pub
proof (rule published_cycleE)
  fix kept svs ls r snap
  let ?sel = "selected_by spec probed res" and ?c = "c\<lparr>cy_prober := m1\<rparr>"
  let ?rf = "refusalReportOf (sp_Prober spec) (cy_prober ?c)"
  assume sub: "subseq (map core kept) (map core ?sel)" and obs: "cy_observed c1 = cy_observed ?c @ [r]"
    and cr: "cr_Merged r = length (Merge (ce_uni env) bodies)" "cr_DeadSkipped r = skipped" "cr_Probed r = length probed"
      "cr_Kept r = length kept" "cr_ProbeStages r = probeStages probed res ?rf" "cr_Refusals r = attributeRefusals probed res ?rf"
      "chained (length ?sel) (cr_Filters r) (length kept)" "cr_Sources r = countSourceStages sources ?sel kept"
      "tp_State (cr_Trace r) = TraceRan \<longrightarrow> tp_Answered (cr_Trace r) + tp_Unanswered (cr_Trace r) = length kept"
  note dead = filter_dead_facts [OF ran(2)]
  have rf: "rf_Unparsable ?rf = 0" "rf_Unconvertible ?rf = 0"
    using probe_entries_accounts [OF ran(3)] take_keeps_refusals [OF ran(4)] refusal_counts_zero [of m1] by simp_all
  have names: "map so_Name sources = map sb_Name bodies" "list_all (\<lambda>r. so_Tested r = 0 \<and> so_Filtered r = 0) sources"
      "set (map sb_Name bodies) \<subseteq> set (map su_Name (sp_Sources spec))"
    using collect_names [of "fl_FilterNodes (sp_Filterer spec) (sp_SourceTimeout spec)" "sp_Denied spec" 0 "sp_Sources spec" bodies sources] ran(1)
      list_emb_set [of "(=)" "map sb_Name bodies" "map su_Name (sp_Sources spec)"]
    by (auto simp: fetchSources_def)
  have "sum_list (map so_Tested (cr_Sources r)) = length ?sel \<and> sum_list (map so_Filtered (cr_Sources r)) = cr_Kept r"
    if named: "[] \<notin> su_Name ` set (sp_Sources spec)"
  proof -
    have "sourceOfLabel (en_Label s) \<in> set (map so_Name sources)" if "s \<in> set ?sel \<union> set kept" for s
    proof -
      obtain s' where "s' \<in> set ?sel" "en_Label s' = en_Label s"
        using \<open>s \<in> set ?sel \<union> set kept\<close> kept_from_selected [OF sub] core_fields by (metis UnE)
      then obtain e where "e \<in> set probed" "en_Label s = en_Label e" by (auto simp: selected_from)
      moreover have "set probed \<subseteq> set (Merge (ce_uni env) bodies)" using dead list_emb_set [of "(=)" probed] by auto
      ultimately have "sourceOfLabel (en_Label s) \<in> sb_Name ` set bodies"
        using merged_labels [of e "ce_uni env" bodies] named names(3) by (metis (no_types, lifting) in_mono list.set_map)
      then show ?thesis using names(1) by simp
    qed
    from source_stage_sums [OF names(2) this] cr show ?thesis by simp
  qed
  then show ?thesis
    using obs cr dead stages_and_refusals [OF rf, of probed res] length_selected [of probed res]
    by (intro exI [of _ r] exI [of _ "length ?sel"]) simp
qed

text \<open>
  C18: The books of a published cycle balance. Every merged node was skipped as dead or probed; every
  probed one has a stage or is counted as refused; from the probe's survivors each filter's report
  follows on the last down to the published count; the per-source counts add up to the survivors before
  and after the filters where every source has a name; the trace accounts for every published node.
\<close>

theorem cycle_books_balance:
  "case RunOnce env spec c of (err, c') \<Rightarrow>
     if cy_observed c' = cy_observed c then True
     else (let r = last (cy_observed c') in
       cr_Merged r = cr_DeadSkipped r + cr_Probed r \<and>
       sum_list (map (cr_ProbeStages r) all_stages) + rf_Unparsable (cr_Refusals r) + rf_Unconvertible (cr_Refusals r) = cr_Probed r \<and>
       (\<exists>n. n \<le> cr_Probed r \<and> chained n (cr_Filters r) (cr_Kept r) \<and>
         (if [] \<notin> su_Name ` set (sp_Sources spec)
          then sum_list (map so_Tested (cr_Sources r)) = n \<and> sum_list (map so_Filtered (cr_Sources r)) = cr_Kept r
          else True)) \<and>
       (if tp_State (cr_Trace r) = TraceRan
        then tp_Answered (cr_Trace r) + tp_Unanswered (cr_Trace r) = cr_Kept r else True))"
proof -
  obtain err c' where r: "RunOnce env spec c = (err, c')" by fastforce
  then show ?thesis
  proof (cases rule: run_once_cases)
    case (ran bodies sources probed skipped res m adapters m1 c1)
    let ?c1 = "c\<lparr>cy_prober := m1\<rparr>"
    have obs: "cy_observed c' = cy_observed c1" by (simp add: ran(6))
    from after_probe_facts [OF ran(5)] consider "unpublished ?c1 c1"
      | "published_cycle env spec bodies sources (Merge (ce_uni env) bodies) probed skipped res ?c1 c1" by blast
    then show ?thesis
    proof cases
      case 1
      then show ?thesis by (simp add: r obs unpublished_def)
    next
      case 2
      obtain rep n where b: "cy_observed c1 = cy_observed c @ [rep]" "cr_Merged rep = cr_DeadSkipped rep + cr_Probed rep"
          "sum_list (map (cr_ProbeStages rep) all_stages) + rf_Unparsable (cr_Refusals rep) + rf_Unconvertible (cr_Refusals rep) = cr_Probed rep"
          "n \<le> cr_Probed rep" "chained n (cr_Filters rep) (cr_Kept rep)"
          "[] \<notin> su_Name ` set (sp_Sources spec) \<longrightarrow>
            sum_list (map so_Tested (cr_Sources rep)) = n \<and> sum_list (map so_Filtered (cr_Sources rep)) = cr_Kept rep"
          "tp_State (cr_Trace rep) = TraceRan \<longrightarrow> tp_Answered (cr_Trace rep) + tp_Unanswered (cr_Trace rep) = cr_Kept rep"
        using published_books [OF ran(1-4) 2] by blast
      have "last (cy_observed c') = rep" "cy_observed c' \<noteq> cy_observed c" using b(1) obs by simp_all
      with b show ?thesis unfolding r prod.case Let_def by (simp del: list.map sum_list.Cons) blast
    qed
  qed (simp_all add: r reportError_def)
qed

text \<open>What a cycle probes, and with what result.\<close>

abbreviation cycle_merged :: "('p, 't, 's) cycle_env \<Rightarrow> ('p, 'w) CheckerSpec \<Rightarrow> Entry list" where
  "cycle_merged env spec \<equiv> Merge (ce_uni env) (fst (fetchSources spec))"

abbreviation cycle_probed :: "('p, 't, 's) cycle_env \<Rightarrow> ('p, 'w) CheckerSpec \<Rightarrow> ('p, 't, 'w, 's) Checker \<Rightarrow> Entry list" where
  "cycle_probed env spec c \<equiv> fst (filterDead (cy_dead c) (ce_blockedAt env) (cycle_merged env spec))"

abbreviation cycle_probe ::
  "('p, 't, 's) cycle_env \<Rightarrow> ('p, 'w) CheckerSpec \<Rightarrow> ('p, 't, 'w, 's) Checker
   \<Rightarrow> (probe_error + (string \<rightharpoonup> ProbeResult)) \<times> ('p, 't) MihomoProber" where
  "cycle_probe env spec c \<equiv>
     probeEntries (sp_Prober spec) (ce_probe env) (ce_uni env) (sp_Rounds spec) (cycle_probed env spec c) (cy_prober c)"

lemma dead_after_writes:
  assumes "dead_after env spec probed res c = Some d'" "cy_dead c = Some d"
  shows "dead_m d' k = dead_m d k \<or> (\<exists>x. dead_m d k = Some x \<and> x \<le> ce_pruneAt env \<and> dead_m d' k = None) \<or>
    (\<exists>e \<in> set probed. k = (en_Addr e, en_IP e) \<and> dead_verdict res (refusalReportOf (sp_Prober spec) (cy_prober c)) e \<and>
      pc_State (precheckReportOf (sp_Prober spec) (cy_prober c)) \<noteq> PrecheckTripped)"
proof -
  let ?rf = "refusalReportOf (sp_Prober spec) (cy_prober c)"
  define d1 where "d1 = (if pc_State (precheckReportOf (sp_Prober spec) (cy_prober c)) = PrecheckTripped then d
    else record_loop (ce_blockAt env) res ?rf 0 probed d)"
  have d': "d' = dead_Prune (ce_pruneAt env) d1"
    using assms by (auto simp: dead_after_def recordDead_def d1_def)
  have pruned: "dead_m d' k = dead_m d1 k \<or> (\<exists>x. dead_m d1 k = Some x \<and> x \<le> ce_pruneAt env \<and> dead_m d' k = None)"
    by (auto simp: d' dead_Prune_def drop_expired_def split: option.splits)
  show ?thesis
  proof (cases "dead_m d1 k = dead_m d k")
    case True
    with pruned show ?thesis by auto
  next
    case False
    then show ?thesis
      using record_loop_writes [of "ce_blockAt env" res ?rf 0 probed d k] by (auto simp: d1_def split: if_splits)
  qed
qed

text \<open>
  C10: What a cycle may write to the dead set. An expired row may go; any other change is to the endpoint
  and address of an entry this cycle probed, whose every test failed at its own selected address (for a
  prober that does not account for refused mappings, also an entry it never named), and there is none
  when the probe failed or its pre-check disbelieved itself.
\<close>

theorem dead_set_only_attributable:
  "case RunOnce env spec c of (err, c') \<Rightarrow>
     (case cy_dead c of
        None \<Rightarrow> cy_dead c' = None
      | Some d \<Rightarrow>
          (\<exists>d'. cy_dead c' = Some d' \<and>
            (\<forall>k. dead_m d' k = dead_m d k \<or> (\<exists>x. dead_m d k = Some x \<and> x \<le> ce_pruneAt env \<and> dead_m d' k = None) \<or>
               (\<exists>e res m. e \<in> set (cycle_probed env spec c) \<and> k = (en_Addr e, en_IP e) \<and> cycle_probe env spec c = (Inr res, m) \<and>
                  pc_State (precheckReportOf (sp_Prober spec) m) \<noteq> PrecheckTripped \<and>
                  (case res (en_Label e) of
                     None \<Rightarrow> \<not> cp_parseRefusalReporter (sp_Prober spec)
                   | Some x \<Rightarrow> pr_Successes x = 0 \<and> \<not> pr_Unbound x)))))"
proof -
  obtain err c' where r: "RunOnce env spec c = (err, c')" by fastforce
  then show ?thesis
  proof (cases rule: run_once_cases)
    case early
    then show ?thesis by (simp add: r reportError_def split: option.split)
  next
    case (failed e m es)
    then show ?thesis by (simp add: r reportError_def split: option.split)
  next
    case (ran bodies sources probed skipped res m adapters m1 c1)
    let ?c1 = "c\<lparr>cy_prober := m1\<rparr>"
    have here: "cycle_probed env spec c = probed" "cycle_probe env spec c = (Inr res, m)" using ran(1-3) by simp_all
    have dead: "cy_dead c' = (if ce_doneAfterProbe env then cy_dead c else dead_after env spec probed res ?c1)"
      using after_probe_facts [OF ran(5)] by (simp add: ran(6))
    show ?thesis
    proof (cases "cy_dead c")
      case None
      then show ?thesis using dead by (simp add: r dead_after_def recordDead_def)
    next
      case (Some d)
      obtain d' where d': "cy_dead c' = Some d'" using dead Some by (auto simp: dead_after_def recordDead_def split: if_splits)
      have state: "rf_State (mp_parseRefusal m1) = RefusalRan" "mp_precheck m1 = mp_precheck m"
        using probe_entries_accounts [OF ran(3)] take_keeps_refusals [OF ran(4)] by simp_all
      have verdict: "case res (en_Label e) of None \<Rightarrow> \<not> cp_parseRefusalReporter (sp_Prober spec) | Some x \<Rightarrow> pr_Successes x = 0 \<and> \<not> pr_Unbound x"
        if "dead_verdict res (refusalReportOf (sp_Prober spec) m1) e" for e
        using that state(1) by (auto simp: dead_verdict_def refusalReportOf_def split: option.splits if_splits)
      have pre: "precheckReportOf (sp_Prober spec) m1 = precheckReportOf (sp_Prober spec) m"
        by (simp add: precheckReportOf_def state(2))
      have "dead_m d' k = dead_m d k \<or> (\<exists>x. dead_m d k = Some x \<and> x \<le> ce_pruneAt env \<and> dead_m d' k = None) \<or>
          (\<exists>e \<in> set probed. k = (en_Addr e, en_IP e) \<and> dead_verdict res (refusalReportOf (sp_Prober spec) m1) e \<and>
            pc_State (precheckReportOf (sp_Prober spec) m1) \<noteq> PrecheckTripped)" for k
      proof (cases "ce_doneAfterProbe env")
        case True
        then show ?thesis using dead d' Some by simp
      next
        case False
        then show ?thesis using dead d' Some dead_after_writes [of env spec probed res ?c1 d' d k] by simp
      qed
      then have "\<forall>k. dead_m d' k = dead_m d k \<or> (\<exists>x. dead_m d k = Some x \<and> x \<le> ce_pruneAt env \<and> dead_m d' k = None) \<or>
          (\<exists>e res' m'. e \<in> set probed \<and> k = (en_Addr e, en_IP e) \<and> (Inr res, m) = (Inr res', m') \<and>
             pc_State (precheckReportOf (sp_Prober spec) m') \<noteq> PrecheckTripped \<and>
             (case res' (en_Label e) of
                None \<Rightarrow> \<not> cp_parseRefusalReporter (sp_Prober spec)
              | Some x \<Rightarrow> pr_Successes x = 0 \<and> \<not> pr_Unbound x))"
        using verdict unfolding pre by blast
      then show ?thesis unfolding r prod.case here ran(3) unfolding Some option.case by (intro exI [of _ d'] conjI d')
    qed
  qed
qed

text \<open>
  C3: Every published line is earned in its own cycle: it is the line of a merged node that the dead set
  did not hold, whose probe stayed within the configured failures and mean latency, renamed only by the
  annotation.
\<close>

theorem published_nodes_passed_probe:
  "case RunOnce env spec c of (err, c') \<Rightarrow>
     if cy_observed c' = cy_observed c then cy_holder c' = cy_holder c
     else (\<exists>res m snap ls. cycle_probe env spec c = (Inr res, m) \<and> cy_holder c' = Some snap \<and>
       sn_Payload snap = concat (map (\<lambda>l. l @ [CHR 0x0A]) ls) \<and>
       list_all (\<lambda>l. \<exists>e s s' r. e \<in> set (cycle_merged env spec) \<and> e \<in> set (cycle_probed env spec c) \<and>
         (\<exists>i. case cy_dead c of None \<Rightarrow> True | Some d \<Rightarrow> \<not> dead_Blocked d (en_Addr e, en_IP e) (ce_blockedAt env i)) \<and>
         res (en_Label e) = Some r \<and> int (sp_Rounds spec) - pr_Successes r \<le> sp_MaxFail spec \<and> pr_MeanMs r \<le> sp_MaxAvgMs spec \<and>
         en_Raw s = en_Raw e \<and> en_Label s = en_Label e \<and>
         published_line (fl_Annotator (sp_Filterer spec) \<noteq> None) s s' l) ls)"
proof -
  obtain err c' where r: "RunOnce env spec c = (err, c')" by fastforce
  then show ?thesis
  proof (cases rule: run_once_cases)
    case (ran bodies sources probed skipped res m adapters m1 c1)
    let ?c1 = "c\<lparr>cy_prober := m1\<rparr>"
    let ?earned = "\<lambda>l. \<exists>e s s' r. e \<in> set (cycle_merged env spec) \<and> e \<in> set probed \<and>
         (\<exists>i. case cy_dead c of None \<Rightarrow> True | Some d \<Rightarrow> \<not> dead_Blocked d (en_Addr e, en_IP e) (ce_blockedAt env i)) \<and>
         res (en_Label e) = Some r \<and> int (sp_Rounds spec) - pr_Successes r \<le> sp_MaxFail spec \<and> pr_MeanMs r \<le> sp_MaxAvgMs spec \<and>
         en_Raw s = en_Raw e \<and> en_Label s = en_Label e \<and>
         published_line (fl_Annotator (sp_Filterer spec) \<noteq> None) s s' l"
    have here: "cycle_probed env spec c = probed" "cycle_probe env spec c = (Inr res, m)" using ran(1-3) by simp_all
    have fields: "cy_observed c' = cy_observed c1" "cy_holder c' = cy_holder c1" by (simp_all add: ran(6))
    from after_probe_facts [OF ran(5)] consider "unpublished ?c1 c1"
      | "published_cycle env spec bodies sources (Merge (ce_uni env) bodies) probed skipped res ?c1 c1" by blast
    then show ?thesis
    proof cases
      case 1
      then show ?thesis by (simp add: r fields unpublished_def)
    next
      case 2
      then show ?thesis
      proof (rule published_cycleE)
        fix kept svs ls rep snap
        assume sub: "subseq (map core kept) (map core (selected_by spec probed res))"
          and len: "length ls = length kept" "length svs = length kept"
          and lines: "list_all (\<lambda>(s, s', l). published_line (fl_Annotator (sp_Filterer spec) \<noteq> None) s s' l) (zip kept (zip svs ls))"
          and snap: "sn_Payload snap = concat (map (\<lambda>l. l @ [CHR 0x0A]) ls)" "cy_holder c1 = Some snap"
          and obs: "cy_observed c1 = cy_observed ?c1 @ [rep]"
        have "?earned (ls ! i)" if i: "i < length ls" for i
        proof -
          have "published_line (fl_Annotator (sp_Filterer spec) \<noteq> None) (kept ! i) (svs ! i) (ls ! i)"
            using lines i len by (auto simp: list_all_length)
          moreover have "kept ! i \<in> set kept" using i len by simp
          then obtain s' where s': "s' \<in> set (selected_by spec probed res)" "core (kept ! i) = core s'"
            using kept_from_selected [OF sub] by blast
          then obtain e x where e: "e \<in> set probed" "res (en_Label e) = Some x" "int (sp_Rounds spec) - pr_Successes x \<le> sp_MaxFail spec"
              "pr_MeanMs x \<le> sp_MaxAvgMs spec" "s' = survivor_of e (pr_MeanMs x)"
            unfolding selected_from by blast
          moreover have "e \<in> set (cycle_merged env spec)" "\<exists>i. case cy_dead c of None \<Rightarrow> True | Some d \<Rightarrow> \<not> dead_Blocked d (en_Addr e, en_IP e) (ce_blockedAt env i)"
            using filter_dead_facts [OF ran(2)] e(1) list_emb_set [of "(=)" probed] ran(1) by auto
          moreover have "en_Raw (kept ! i) = en_Raw e" "en_Label (kept ! i) = en_Label e"
            using core_fields [OF s'(2)] e(5) by simp_all
          ultimately show ?thesis by blast
        qed
        then have "list_all ?earned ls" by (simp add: list_all_length)
        moreover have "cy_observed c' \<noteq> cy_observed c" "cy_holder c' = Some snap" using obs snap(2) fields by simp_all
        ultimately show ?thesis
          unfolding r prod.case here using snap(1) ran(3)
          by (simp only: if_False) (intro exI [of _ res] exI [of _ m] exI [of _ snap] exI [of _ ls] conjI refl)
      qed
    qed
  qed (simp_all add: r reportError_def)
qed

end
