(* ===== verification/Worker.thy ===== *)
theory Worker
  imports CycleBooks
begin

text \<open>
  The worker around the cycle (\<^verbatim>\<open>Checker.Run\<close>, \<^verbatim>\<open>Reconfigure\<close>, \<^verbatim>\<open>UseFilterer\<close> of
  \<^verbatim>\<open>internal/stable/checker.go\<close>) as a step relation: the loop that runs cycles and re-reads its
  interval, and the reloads that publish a spec while it does. A \<^verbatim>\<open>Reconfigure\<close> is two atomic
  actions, the store and the poke, and any step may come between them. \<open>wk_gen\<close> is the identity of the
  published pointer, so a compare-and-swap succeeds exactly when it is the one that was loaded.
\<close>

section \<open>State and steps\<close>

text \<open>
  Before the first cycle, in a cycle (with the spec it read), woken and about to re-read the interval,
  waiting, and returned. \<open>wk_period\<close> is the ticker's, once there is one; \<open>wk_cycles\<close> the specs cycles
  ran with; \<open>wk_calls\<close> what each \<^verbatim>\<open>Reconfigure\<close> call has yet to do; \<open>wk_swaps\<close> the
  \<^verbatim>\<open>UseFilterer\<close> calls between their load and their swap; \<open>wk_policy\<close> the spec a \<^verbatim>\<open>Reconfigure\<close>
  last stored.
\<close>

datatype 'c wk_phase = Starting | Cycling 'c | Woken | Waiting | Returned

datatype 'c action = StoreSpec 'c | Poke

record ('p, 'w) worker =
  wk_spec :: "('p, 'w) CheckerSpec"
  wk_gen :: nat
  wk_poke :: bool
  wk_phase :: "('p, 'w) CheckerSpec wk_phase"
  wk_period :: "int option"
  wk_cycles :: "('p, 'w) CheckerSpec list"
  wk_calls :: "('p, 'w) CheckerSpec action list list"
  wk_swaps :: "('w Filterer \<times> nat \<times> ('p, 'w) CheckerSpec) list"
  wk_policy :: "('p, 'w) CheckerSpec"

definition NewChecker :: "('p, 'w) CheckerSpec \<Rightarrow> 'w Filterer \<Rightarrow> ('p, 'w) worker" where
  "NewChecker spec f =
     \<lparr>wk_spec = spec\<lparr>sp_Filterer := f\<rparr>, wk_gen = 0, wk_poke = False, wk_phase = Starting, wk_period = None,
      wk_cycles = [], wk_calls = [], wk_swaps = [], wk_policy = spec\<rparr>"

definition Reconfigure :: "('p, 'w) CheckerSpec \<Rightarrow> 'w Filterer \<Rightarrow> ('p, 'w) CheckerSpec action list" where
  "Reconfigure spec f = [StoreSpec (spec\<lparr>sp_Filterer := f\<rparr>), Poke]"

definition start_call :: "('p, 'w) CheckerSpec \<Rightarrow> 'w Filterer \<Rightarrow> ('p, 'w) worker \<Rightarrow> ('p, 'w) worker" where
  "start_call spec f w = w\<lparr>wk_calls := Reconfigure spec f # wk_calls w\<rparr>"

text \<open>The channel holds one poke: a second is dropped.\<close>

fun do_action :: "('p, 'w) CheckerSpec action \<Rightarrow> ('p, 'w) worker \<Rightarrow> ('p, 'w) worker" where
  "do_action (StoreSpec spec) w = w\<lparr>wk_spec := spec, wk_gen := wk_gen w + 1, wk_policy := spec\<rparr>"
| "do_action Poke w = w\<lparr>wk_poke := True\<rparr>"

lemma do_action_keeps [simp]:
  "wk_cycles (do_action a w) = wk_cycles w" "wk_swaps (do_action a w) = wk_swaps w"
  "wk_calls (do_action a w) = wk_calls w" "wk_phase (do_action a w) = wk_phase w"
  "wk_period (do_action a w) = wk_period w"
  by (cases a, simp_all)+

text \<open>The next action of the i-th call.\<close>

definition run_call :: "nat \<Rightarrow> ('p, 'w) worker \<Rightarrow> ('p, 'w) worker" where
  "run_call i w =
     (case wk_calls w ! i of
        [] \<Rightarrow> w
      | a # rest \<Rightarrow> do_action a (w\<lparr>wk_calls := (wk_calls w)[i := rest]\<rparr>))"

definition use_load :: "'w Filterer \<Rightarrow> ('p, 'w) worker \<Rightarrow> ('p, 'w) worker" where
  "use_load f w = w\<lparr>wk_swaps := (f, wk_gen w, wk_spec w) # wk_swaps w\<rparr>"

text \<open>The i-th pending swap: done when the pointer is still the loaded one, else loaded again.\<close>

definition use_swap :: "nat \<Rightarrow> ('p, 'w) worker \<Rightarrow> ('p, 'w) worker" where
  "use_swap i w =
     (let (f, g, cur) = wk_swaps w ! i
      in if g = wk_gen w
         then w\<lparr>wk_spec := cur\<lparr>sp_Filterer := f\<rparr>, wk_gen := wk_gen w + 1,
                wk_swaps := take i (wk_swaps w) @ drop (i + 1) (wk_swaps w)\<rparr>
         else w\<lparr>wk_swaps := (wk_swaps w)[i := (f, wk_gen w, wk_spec w)]\<rparr>)"

definition begin_cycle :: "('p, 'w) worker \<Rightarrow> ('p, 'w) worker" where
  "begin_cycle w = w\<lparr>wk_phase := Cycling (wk_spec w), wk_cycles := wk_cycles w @ [wk_spec w]\<rparr>"

definition reread_interval :: "('p, 'w) worker \<Rightarrow> ('p, 'w) worker" where
  "reread_interval w = w\<lparr>wk_phase := Waiting, wk_period := Some (sp_Interval (wk_spec w))\<rparr>"

inductive worker_step :: "('p, 'w) worker \<Rightarrow> ('p, 'w) worker \<Rightarrow> bool" where
  first_cycle: "wk_phase w = Starting \<Longrightarrow> worker_step w (begin_cycle w)"
| cycle_ends: "wk_phase w = Cycling spec \<Longrightarrow> worker_step w (w\<lparr>wk_phase := Woken\<rparr>)"
| rereads: "wk_phase w = Woken \<Longrightarrow> worker_step w (reread_interval w)"
| ticks: "wk_phase w = Waiting \<Longrightarrow> worker_step w (begin_cycle w)"
| poked: "wk_phase w = Waiting \<Longrightarrow> wk_poke w \<Longrightarrow> worker_step w (w\<lparr>wk_poke := False, wk_phase := Woken\<rparr>)"
| cancelled: "wk_phase w = Waiting \<Longrightarrow> worker_step w (w\<lparr>wk_phase := Returned\<rparr>)"
| calls: "worker_step w (start_call spec f w)"
| acts: "i < length (wk_calls w) \<Longrightarrow> worker_step w (run_call i w)"
| use_loads: "worker_step w (use_load f w)"
| use_swaps: "i < length (wk_swaps w) \<Longrightarrow> worker_step w (use_swap i w)"

inductive_cases worker_stepE: "worker_step w w'"

section \<open>The invariant\<close>

definition same_policy :: "('p, 'w) CheckerSpec \<Rightarrow> ('p, 'w) CheckerSpec \<Rightarrow> bool" where
  "same_policy s s' \<longleftrightarrow> s\<lparr>sp_Filterer := sp_Filterer s'\<rparr> = s'"

text \<open>A call stores before it pokes.\<close>

fun call_ok :: "'c action list \<Rightarrow> bool" where
  "call_ok [StoreSpec c, Poke] \<longleftrightarrow> True"
| "call_ok [Poke] \<longleftrightarrow> True"
| "call_ok as \<longleftrightarrow> as = []"

definition worker_ok :: "('p, 'w) worker \<Rightarrow> bool" where
  "worker_ok w \<longleftrightarrow>
     same_policy (wk_policy w) (wk_spec w) \<and>
     list_all (\<lambda>(f, g, cur). g \<le> wk_gen w \<and> (g = wk_gen w \<longrightarrow> cur = wk_spec w)) (wk_swaps w) \<and>
     list_all call_ok (wk_calls w) \<and>
     (wk_phase w = Waiting \<longrightarrow> wk_poke w \<or> [Poke] \<in> set (wk_calls w) \<or> wk_period w = Some (sp_Interval (wk_spec w)))"

lemma same_policy_update [simp]: "same_policy s s" "same_policy s (s\<lparr>sp_Filterer := f\<rparr>)"
  by (simp_all add: same_policy_def)

lemma same_policy_swap: "same_policy s s' \<Longrightarrow> same_policy s (s'\<lparr>sp_Filterer := f\<rparr>)"
  by (cases s; cases s') (simp add: same_policy_def)

lemma list_all_update: "list_all P xs \<Longrightarrow> P x \<Longrightarrow> list_all P (xs[i := x])"
  by (auto simp: list_all_iff dest!: set_update_subset_insert [THEN subsetD])

lemma worker_step_ok:
  assumes "worker_step w w'" "worker_ok w"
  shows "worker_ok w'"
  using assms
proof (cases rule: worker_step.cases)
  case (calls spec f)
  with assms(2) show ?thesis by (auto simp: worker_ok_def start_call_def Reconfigure_def)
next
  case (acts i)
  then have mem: "wk_calls w ! i \<in> set (wk_calls w)" and ok: "call_ok (wk_calls w ! i)"
    using assms(2) by (simp_all add: worker_ok_def list_all_length)
  show ?thesis
  proof (cases "wk_calls w ! i" rule: call_ok.cases)
    case (1 c)
    have "[Poke] \<in> set ((wk_calls w)[i := [Poke]])" using acts(2) by (rule set_update_memI)
    moreover have "list_all call_ok ((wk_calls w)[i := [Poke]])"
      using assms(2) by (simp add: worker_ok_def list_all_update)
    ultimately show ?thesis using 1 acts(1) assms(2) by (auto simp: worker_ok_def run_call_def list_all_iff)
  next
    case 2
    have "list_all call_ok ((wk_calls w)[i := []])" using assms(2) by (simp add: worker_ok_def list_all_update)
    with 2 acts(1) assms(2) show ?thesis by (simp add: worker_ok_def run_call_def)
  qed (use ok acts(1) assms(2) in \<open>simp_all add: run_call_def\<close>)
next
  case (use_loads f)
  with assms(2) show ?thesis by (auto simp: worker_ok_def use_load_def)
next
  case (use_swaps i)
  obtain f g cur where s: "wk_swaps w ! i = (f, g, cur)" by (metis prod_cases3)
  then have mem: "(f, g, cur) \<in> set (wk_swaps w)" using use_swaps(2) by (metis nth_mem)
  show ?thesis
  proof (cases "g = wk_gen w")
    case True
    then have cur: "cur = wk_spec w" using mem assms(2) by (auto simp: worker_ok_def list_all_iff)
    have "w' = w\<lparr>wk_spec := (wk_spec w)\<lparr>sp_Filterer := f\<rparr>, wk_gen := wk_gen w + 1,
        wk_swaps := take i (wk_swaps w) @ drop (i + 1) (wk_swaps w)\<rparr>"
      using True by (simp add: use_swaps(1) use_swap_def s cur)
    then show ?thesis
      using assms(2) by (auto simp: worker_ok_def list_all_iff same_policy_swap dest!: in_set_takeD in_set_dropD)
  next
    case False
    then have "w' = w\<lparr>wk_swaps := (wk_swaps w)[i := (f, wk_gen w, wk_spec w)]\<rparr>"
      by (simp add: use_swaps(1) use_swap_def s)
    then show ?thesis using assms(2) by (simp add: worker_ok_def list_all_update)
  qed
qed (auto simp: worker_ok_def begin_cycle_def reread_interval_def)

lemma new_checker_ok: "worker_ok (NewChecker spec f)"
  by (simp add: worker_ok_def NewChecker_def)

text \<open>The specs a run has published: each with the policy of one configuration.\<close>

inductive worker_run :: "('p, 'w) worker \<Rightarrow> ('p, 'w) CheckerSpec list \<Rightarrow> ('p, 'w) worker \<Rightarrow> bool" where
  run_refl: "worker_run w [wk_policy w] w"
| run_step: "worker_run w ps w1 \<Longrightarrow> worker_step w1 w2 \<Longrightarrow> worker_run w (ps @ [wk_policy w2]) w2"

lemma worker_run_ok: "worker_run w ps w' \<Longrightarrow> worker_ok w \<Longrightarrow> worker_ok w'"
  by (induction rule: worker_run.induct) (auto intro: worker_step_ok)

lemma step_cycles:
  "worker_step w w' \<Longrightarrow> wk_cycles w' = wk_cycles w \<or> wk_cycles w' = wk_cycles w @ [wk_spec w] \<and> wk_policy w' = wk_policy w"
  by (erule worker_stepE)
    (auto simp: begin_cycle_def reread_interval_def start_call_def run_call_def use_load_def use_swap_def Let_def
      split: prod.splits list.splits)

text \<open>
  C38: Whatever reloads land while the worker runs, a cycle runs with the policy of one configuration as
  the last store left it: a concurrent processor swap never brings an older policy back. A worker that
  waits, with no poke in the channel and no call that has stored and is about to poke, ticks at the
  interval of the live spec: a reload cannot slip in between unnoticed.
\<close>

theorem worker_follows_reloads:
  assumes "worker_run (NewChecker spec f) ps w"
  shows "same_policy (wk_policy w) (wk_spec w) \<and> list_all (\<lambda>s. \<exists>p \<in> set ps. same_policy p s) (wk_cycles w) \<and>
    (if wk_phase w = Waiting \<and> \<not> wk_poke w \<and> [Poke] \<notin> set (wk_calls w)
     then wk_period w = Some (sp_Interval (wk_spec w)) else True)"
proof -
  have "worker_ok w" using worker_run_ok [OF assms new_checker_ok] .
  moreover have "list_all (\<lambda>s. \<exists>p \<in> set ps. same_policy p s) (wk_cycles w) \<and> wk_policy w \<in> set ps"
    using assms
  proof (induction "NewChecker spec f" ps w rule: worker_run.induct)
    case run_refl
    then show ?case by (simp add: NewChecker_def)
  next
    case (run_step ps w1 w2)
    have "worker_ok w1" using worker_run_ok [OF run_step(1) new_checker_ok] .
    then have "same_policy (wk_policy w1) (wk_spec w1)" by (simp add: worker_ok_def)
    with run_step(2) step_cycles [OF run_step(3)] show ?case by (auto simp: list_all_iff)
  qed
  ultimately show ?thesis by (auto simp: worker_ok_def)
qed

text \<open>A worker reconfigured while a processor swap is pending.\<close>

definition idle_filterer :: "unit Filterer" where
  "idle_filterer = \<lparr>fl_FilterNodes = \<lambda>_ _ _. None, fl_Annotator = None\<rparr>"

definition sample_spec :: "int \<Rightarrow> (nat, unit) CheckerSpec" where
  "sample_spec ivl =
     \<lparr>sp_Filterer = idle_filterer, sp_Sources = [], sp_Denied = All_codes, sp_Interval = ivl, sp_Rounds = 1,
      sp_MaxFail = 0, sp_MaxAvgMs = 1, sp_SourceTimeout = 1, sp_Prober = \<lparr>cp_boundProber = True, cp_bindingReleaser = True,
        cp_probedAdapterSource = True, cp_precheckReporter = True, cp_parseRefusalReporter = True, cp_traceChecker = None\<rparr>,
      sp_Filters = [], sp_Trace = False\<rparr>"

lemma worker_follows_reloads_witness:
  "sp_Interval (wk_spec (use_swap 0 (use_swap 0 (run_call 0 (start_call (sample_spec 2) idle_filterer
     (use_load idle_filterer (NewChecker (sample_spec 1) idle_filterer))))))) = 2"
proof -
  let ?w0 = "NewChecker (sample_spec 1) idle_filterer"
  let ?w1 = "use_load idle_filterer ?w0"
  let ?w2 = "start_call (sample_spec 2) idle_filterer ?w1"
  let ?w3 = "run_call 0 ?w2"
  let ?w4 = "use_swap 0 ?w3"
  let ?w5 = "use_swap 0 ?w4"
  note defs = use_load_def start_call_def Reconfigure_def run_call_def use_swap_def NewChecker_def
  have "worker_step ?w0 ?w1" "worker_step ?w1 ?w2" by (rule use_loads calls)+
  moreover have "worker_step ?w2 ?w3" by (rule acts) (simp add: start_call_def)
  moreover have "worker_step ?w3 ?w4" "worker_step ?w4 ?w5" by (rule use_swaps, simp add: defs)+
  ultimately obtain ps where "worker_run ?w0 ps ?w5" using run_refl run_step by metis
  from worker_follows_reloads [OF this] have "same_policy (wk_policy ?w5) (wk_spec ?w5)" by simp
  moreover have "wk_policy ?w5 = sample_spec 2\<lparr>sp_Filterer := idle_filterer\<rparr>" by (simp add: defs)
  ultimately show ?thesis by (simp add: same_policy_def sample_spec_def) (metis CheckerSpec.select_convs(4))
qed

end
