(* ===== verification/Reload.thy ===== *)
theory Reload
  imports ConfigCheck Worker
begin

text \<open>
  \<^verbatim>\<open>internal/stable/controller.go\<close> and \<^verbatim>\<open>internal/reload\<close> (\<^verbatim>\<open>options.go\<close>, \<^verbatim>\<open>holder.go\<close>,
  \<^verbatim>\<open>reloader.go\<close>): how a configuration becomes the worker's policy, and how a reload replaces the
  policy and the processor. A processor is an opaque value that the build of a set of options gives,
  with a view as the worker's filterer and the states it hands on. The prober is represented by the
  settings its methods read.
\<close>

section \<open>The controller\<close>

record prober_settings =
  prb_Check :: CheckConfig
  prb_Bandwidth :: BandwidthConfig
  prb_GeoBlock :: GeoBlockConfig
  prb_Cloudflare :: CloudflareConfig
  prb_GeminiKey :: string

definition NewMihomoProber ::
  "(string \<Rightarrow> bool) \<Rightarrow> CheckConfig \<Rightarrow> BandwidthConfig \<Rightarrow> GeoBlockConfig \<Rightarrow> CloudflareConfig \<Rightarrow> string \<Rightarrow> prober_settings option" where
  "NewMihomoProber ranges_ok chk bw geo cf key =
     (if \<not> ranges_ok (chk_ExpectedStatus chk) then None
      else Some \<lparr>prb_Check = chk, prb_Bandwidth = bw, prb_GeoBlock = geo, prb_Cloudflare = cf, prb_GeminiKey = key\<rparr>)"

text \<open>The stores' settings lie in the same block but no method of the prober reads them.\<close>

definition prober_view :: "prober_settings \<Rightarrow> prober_settings" where
  "prober_view s = s\<lparr>prb_GeoBlock := (prb_GeoBlock s)\<lparr>gbk_DBPath := [], gbk_TTL := 0\<rparr>\<rparr>"

text \<open>What a prober can do and check, given what it reads; and whether there is a geoblock store.\<close>

record 'p prober_world =
  pw_caps :: "prober_settings \<Rightarrow> 'p capabilities"
  pw_checks :: "prober_settings \<Rightarrow> 'p checkers"
  pw_store :: bool

datatype apply_error = KeyUnresolved key_error | NoKey | CreateProber

definition resolveGeminiKey :: "(string \<Rightarrow> string option) \<Rightarrow> GeminiConfig \<Rightarrow> bool \<Rightarrow> apply_error + string" where
  "resolveGeminiKey ReadFile g armed =
     (if \<not> armed then Inr []
      else case APIKeyResolved ReadFile g of
        Inl e \<Rightarrow> Inl (KeyUnresolved e)
      | Inr key \<Rightarrow> (if key = [] then Inl NoKey else Inr key))"

text \<open>The loop of \<^verbatim>\<open>Apply\<close> over the node filters: the block, the bandwidth settings, the names, the armed flag.\<close>

definition no_bandwidth :: BandwidthConfig where
  "no_bandwidth = \<lparr>bwd_TestURL = [], bwd_MinMbps = None, bwd_Timeout = 0, bwd_Concurrency = 0\<rparr>"

fun take_node_spec ::
  "GeoBlockConfig \<times> BandwidthConfig \<times> string list \<times> bool \<Rightarrow> NodeFilterSpec \<Rightarrow> GeoBlockConfig \<times> BandwidthConfig \<times> string list \<times> bool" where
  "take_node_spec (geo, bw, names, armed) (GeminiSpec c) = (geo\<lparr>gbk_Gemini := c\<rparr>, bw, names @ [''gemini''], True)"
| "take_node_spec (geo, bw, names, armed) (ClaudeSpec c) = (geo\<lparr>gbk_Claude := c\<rparr>, bw, names @ [''claude''], armed)"
| "take_node_spec (geo, bw, names, armed) (ChatGPTSpec c) = (geo\<lparr>gbk_ChatGPT := c\<rparr>, bw, names @ [''chatgpt''], armed)"
| "take_node_spec (geo, bw, names, armed) (TidalSpec c) = (geo\<lparr>gbk_Tidal := c\<rparr>, bw, names @ [''tidal''], armed)"
| "take_node_spec (geo, bw, names, armed) (DeeplSpec c) = (geo\<lparr>gbk_Deepl := c\<rparr>, bw, names @ [''deepl''], armed)"
| "take_node_spec (geo, bw, names, armed) (BandwidthSpec c) = (geo, c, names @ [''bandwidth''], armed)"

definition worker_policy ::
  "'p prober_world \<Rightarrow> (string \<Rightarrow> bool) \<Rightarrow> (string \<Rightarrow> string option) \<Rightarrow> Config \<Rightarrow> 'w Filterer \<Rightarrow> apply_error + ('p, 'w) CheckerSpec" where
  "worker_policy pw ranges_ok ReadFile cfg f =
     (let subs = cfg_Subscriptions cfg;
          (geo, bandwidth, names, geminiArmed) =
            foldl take_node_spec (cfg_GeoBlock cfg, no_bandwidth, [], False) (NodeFilterSpecs cfg)
      in case resolveGeminiKey ReadFile (gbk_Gemini geo) geminiArmed of
        Inl e \<Rightarrow> Inl e
      | Inr geminiKey \<Rightarrow>
          (case NewMihomoProber ranges_ok (sub_Check subs) bandwidth geo (geo_Cloudflare (cfg_Geo cfg)) geminiKey of
             None \<Rightarrow> Inl CreateProber
           | Some prober \<Rightarrow>
               Inr \<lparr>sp_Filterer = f, sp_Sources = sub_Sources subs, sp_Denied = DeniedCountries cfg,
                    sp_Interval = sub_Interval subs, sp_Rounds = nat (chk_Rounds (sub_Check subs)),
                    sp_MaxFail = chk_MaxFail (sub_Check subs), sp_MaxAvgMs = chk_MaxAvgMs (sub_Check subs),
                    sp_SourceTimeout = chk_SourceTimeout (sub_Check subs),
                    sp_Prober = pw_caps pw (prober_view prober),
                    sp_Filters = buildNodeFilters names (pw_checks pw (prober_view prober)) (pw_store pw),
                    sp_Trace = AnnotateUsesProvider cfg ''cloudflare''\<rparr>))"

text \<open>
  The answer of \<open>Apply\<close> -- staged, or an error, or neither: refused -- and the checker. A running one is
  reconfigured: the spec is stored here, and the poke that follows is a step among the worker's own,
  any of which may come before it.
\<close>

definition controller_Apply ::
  "'p prober_world \<Rightarrow> (string \<Rightarrow> bool) \<Rightarrow> (string \<Rightarrow> string option) \<Rightarrow> Config \<Rightarrow> 'w Filterer \<Rightarrow> ('p, 'w) worker option \<Rightarrow>
     bool \<times> apply_error option \<times> ('p, 'w) worker option" where
  "controller_Apply pw ranges_ok ReadFile cfg f checker =
     (if \<not> SubscriptionsEnabled cfg then (False, None, checker)
      else case worker_policy pw ranges_ok ReadFile cfg f of
        Inl e \<Rightarrow> (False, Some e, checker)
      | Inr spec \<Rightarrow>
          (case checker of
             Some w \<Rightarrow> (True, None, Some (run_call 0 (start_call spec f w)))
           | None \<Rightarrow> (True, None, Some (NewChecker spec f))))"

text \<open>\<^verbatim>\<open>UseProcessor\<close>: one load and one swap, since every caller is the watcher's thread.\<close>

definition UseProcessor :: "'w Filterer \<Rightarrow> ('p, 'w) worker option \<Rightarrow> ('p, 'w) worker option" where
  "UseProcessor f checker = (case checker of None \<Rightarrow> None | Some w \<Rightarrow> Some (use_swap 0 (use_load f w)))"

section \<open>Options\<close>

record 's Options =
  opt_GeofeedSources :: "Source list"
  opt_RefreshInterval :: int
  opt_DNSTimeout :: int
  opt_DNSAddress :: string
  opt_DNSCacheTTL :: int
  opt_DNSCacheNegativeTTL :: int
  opt_ASNTimeout :: int
  opt_ASNCacheTTL :: int
  opt_IPFilters :: "IPSpec list"
  opt_Annotate :: "AnnotateSpec list"
  opt_DBIP :: DBIPConfig
  opt_Registry :: RegistryConfig
  opt_FetchTimeout :: int
  opt_PreloadedGeofeed :: "'s option"
  opt_PreloadedDBIP :: "'s option"
  opt_PreloadedRegistry :: "'s option"
  opt_PreloadedCIDR :: "'s option"
  opt_PreloadedResolver :: "'s option"
  opt_PreloadedASN :: "'s option"

text \<open>\<open>None\<close> is the panic of reading a pointer that is nil.\<close>

definition OptionsFromConfig :: "Config \<Rightarrow> 's Options option" where
  "OptionsFromConfig cfg =
     (case (gfd_RefreshInterval (geo_Geofeed (cfg_Geo cfg)), rsv_CacheTTL (cfg_Resolver cfg), rsv_CacheNegativeTTL (cfg_Resolver cfg)) of
        (Some refresh, Some ttl, Some negative) \<Rightarrow>
          Some \<lparr>opt_GeofeedSources = gfd_Sources (geo_Geofeed (cfg_Geo cfg)), opt_RefreshInterval = refresh,
                opt_DNSTimeout = rsv_Timeout (cfg_Resolver cfg), opt_DNSAddress = rsv_Address (cfg_Resolver cfg),
                opt_DNSCacheTTL = ttl, opt_DNSCacheNegativeTTL = negative,
                opt_ASNTimeout = asn_Timeout (geo_ASN (cfg_Geo cfg)), opt_ASNCacheTTL = asn_CacheTTL (geo_ASN (cfg_Geo cfg)),
                opt_IPFilters = IPFilterSpecs cfg, opt_Annotate = cfg_Annotate cfg,
                opt_DBIP = geo_DBIP (cfg_Geo cfg), opt_Registry = geo_Registry (cfg_Geo cfg),
                opt_FetchTimeout = cfg_FetchTimeout cfg,
                opt_PreloadedGeofeed = None, opt_PreloadedDBIP = None, opt_PreloadedRegistry = None,
                opt_PreloadedCIDR = None, opt_PreloadedResolver = None, opt_PreloadedASN = None\<rparr>
      | _ \<Rightarrow> None)"

text \<open>What a processor hands on.\<close>

record ('c, 's) handover =
  ho_GeofeedState :: "'c \<Rightarrow> 's"
  ho_DBIPState :: "'c \<Rightarrow> 's"
  ho_RegistryState :: "'c \<Rightarrow> 's"
  ho_CIDRState :: "'c \<Rightarrow> 's"
  ho_ResolverState :: "'c \<Rightarrow> 's"
  ho_ASNState :: "'c \<Rightarrow> 's"

section \<open>The reloader\<close>

text \<open>The reloader's fields, the holder, the log level and the controller's checker.\<close>

record ('p, 'w, 'c) service =
  rl_currentCfg :: Config
  rl_currentProc :: 'c
  rl_currentProcCfg :: Config
  rl_holder :: 'c
  rl_level :: string
  rl_checker :: "('p, 'w) worker option"

definition carryLoadedState ::
  "('c, 's) handover \<Rightarrow> ('p, 'w, 'c) service \<Rightarrow> 's Options \<Rightarrow> Config \<Rightarrow> 's Options" where
  "carryLoadedState ho r opts newCfg =
     (let old = rl_currentProcCfg r; p = rl_currentProc r;
          o1 = (if \<not> GeofeedSourcesChanged old newCfg then opts\<lparr>opt_PreloadedGeofeed := Some (ho_GeofeedState ho p)\<rparr> else opts);
          o2 = (if \<not> DBIPChanged old newCfg then o1\<lparr>opt_PreloadedDBIP := Some (ho_DBIPState ho p)\<rparr> else o1);
          o3 = (if \<not> RegistryChanged old newCfg then o2\<lparr>opt_PreloadedRegistry := Some (ho_RegistryState ho p)\<rparr> else o2);
          o4 = (if \<not> CIDRFiltersChanged old newCfg then o3\<lparr>opt_PreloadedCIDR := Some (ho_CIDRState ho p)\<rparr> else o3);
          o5 = (if \<not> ResolverChanged old newCfg then o4\<lparr>opt_PreloadedResolver := Some (ho_ResolverState ho p)\<rparr> else o4)
      in if \<not> ASNChanged old newCfg then o5\<lparr>opt_PreloadedASN := Some (ho_ASNState ho p)\<rparr> else o5)"

definition subsAffected :: "Config \<Rightarrow> Config \<Rightarrow> bool" where
  "subsAffected old new =
     (SubscriptionsChanged old new \<or> GroupsChanged old new \<or> FiltersChanged old new \<or> ProberChanged old new \<or>
      AnnotateChanged old new)"

text \<open>
  A reload, given what \<open>Load\<close> returned and what the build of the options gives; the outer \<open>None\<close>
  is a panic.
\<close>

definition Reload ::
  "'p prober_world \<Rightarrow> (string \<Rightarrow> bool) \<Rightarrow> ('c \<Rightarrow> 'w Filterer) \<Rightarrow> ('c, 's) handover \<Rightarrow> (string \<Rightarrow> string option) \<Rightarrow>
   ('s Options \<Rightarrow> 'c option) \<Rightarrow> string + Config \<Rightarrow> ('p, 'w, 'c) service \<Rightarrow> ('p, 'w, 'c) service option" where
  "Reload pw ranges_ok as_filterer ho ReadFile NewProcessor loaded r =
     (case loaded of
        Inl err \<Rightarrow> Some r
      | Inr newCfg \<Rightarrow>
          (if config_Equal (rl_currentCfg r) newCfg \<and> config_Equal (rl_currentProcCfg r) newCfg then Some r
           else case OptionsFromConfig newCfg of
             None \<Rightarrow> None
           | Some opts \<Rightarrow>
               (case NewProcessor (carryLoadedState ho r opts newCfg) of
                  None \<Rightarrow> Some r
                | Some newProc \<Rightarrow>
                    (let f = as_filterer newProc;
                         r1 = r\<lparr>rl_level := cfg_LogLevel newCfg, rl_holder := newProc\<rparr>;
                         (applied, checker) =
                           (if \<not> subsAffected (rl_currentCfg r) newCfg then (True, UseProcessor f (rl_checker r))
                            else case controller_Apply pw ranges_ok ReadFile newCfg f (rl_checker r) of
                                (staged, Some err, chk) \<Rightarrow> (False, UseProcessor f chk)
                              | (staged, None, chk) \<Rightarrow> (staged, chk));
                         r2 = r1\<lparr>rl_checker := checker, rl_currentProc := newProc, rl_currentProcCfg := newCfg\<rparr>
                     in Some (if \<not> applied then r2 else r2\<lparr>rl_currentCfg := newCfg\<rparr>)))))"

text \<open>The first \<open>Apply\<close> of \<^verbatim>\<open>app.Run\<close>; \<open>None\<close> ends the process.\<close>

definition service_start ::
  "'p prober_world \<Rightarrow> (string \<Rightarrow> bool) \<Rightarrow> ('c \<Rightarrow> 'w Filterer) \<Rightarrow> (string \<Rightarrow> string option) \<Rightarrow> Config \<Rightarrow> 'c \<Rightarrow> ('p, 'w, 'c) service option" where
  "service_start pw ranges_ok as_filterer ReadFile cfg svc =
     (case controller_Apply pw ranges_ok ReadFile cfg (as_filterer svc) None of
        (staged, Some err, chk) \<Rightarrow> None
      | (staged, None, chk) \<Rightarrow>
          Some \<lparr>rl_currentCfg = cfg, rl_currentProc = svc, rl_currentProcCfg = cfg, rl_holder = svc,
                rl_level = cfg_LogLevel cfg, rl_checker = chk\<rparr>)"

section \<open>What decides the policy\<close>

lemma take_node_specs_stores:
  "foldl take_node_spec (geo\<lparr>gbk_DBPath := p, gbk_TTL := t\<rparr>, bw, names, armed) ns =
     (let (geo', rest) = foldl take_node_spec (geo, bw, names, armed) ns
      in (geo'\<lparr>gbk_DBPath := p, gbk_TTL := t\<rparr>, rest))"
proof (induction ns arbitrary: geo bw names armed)
  case (Cons n ns)
  show ?case
  proof (cases n)
    case (GeminiSpec c)
    have e: "geo\<lparr>gbk_DBPath := p, gbk_TTL := t, gbk_Gemini := c\<rparr> = geo\<lparr>gbk_Gemini := c\<rparr>\<lparr>gbk_DBPath := p, gbk_TTL := t\<rparr>" by simp
    show ?thesis using Cons [of "geo\<lparr>gbk_Gemini := c\<rparr>"] by (simp only: GeminiSpec foldl_Cons take_node_spec.simps e)
  next
    case (ClaudeSpec c)
    have e: "geo\<lparr>gbk_DBPath := p, gbk_TTL := t, gbk_Claude := c\<rparr> = geo\<lparr>gbk_Claude := c\<rparr>\<lparr>gbk_DBPath := p, gbk_TTL := t\<rparr>" by simp
    show ?thesis using Cons [of "geo\<lparr>gbk_Claude := c\<rparr>"] by (simp only: ClaudeSpec foldl_Cons take_node_spec.simps e)
  next
    case (ChatGPTSpec c)
    have e: "geo\<lparr>gbk_DBPath := p, gbk_TTL := t, gbk_ChatGPT := c\<rparr> = geo\<lparr>gbk_ChatGPT := c\<rparr>\<lparr>gbk_DBPath := p, gbk_TTL := t\<rparr>" by simp
    show ?thesis using Cons [of "geo\<lparr>gbk_ChatGPT := c\<rparr>"] by (simp only: ChatGPTSpec foldl_Cons take_node_spec.simps e)
  next
    case (TidalSpec c)
    have e: "geo\<lparr>gbk_DBPath := p, gbk_TTL := t, gbk_Tidal := c\<rparr> = geo\<lparr>gbk_Tidal := c\<rparr>\<lparr>gbk_DBPath := p, gbk_TTL := t\<rparr>" by simp
    show ?thesis using Cons [of "geo\<lparr>gbk_Tidal := c\<rparr>"] by (simp only: TidalSpec foldl_Cons take_node_spec.simps e)
  next
    case (DeeplSpec c)
    have e: "geo\<lparr>gbk_DBPath := p, gbk_TTL := t, gbk_Deepl := c\<rparr> = geo\<lparr>gbk_Deepl := c\<rparr>\<lparr>gbk_DBPath := p, gbk_TTL := t\<rparr>" by simp
    show ?thesis using Cons [of "geo\<lparr>gbk_Deepl := c\<rparr>"] by (simp only: DeeplSpec foldl_Cons take_node_spec.simps e)
  next
    case (BandwidthSpec c)
    then show ?thesis using Cons [of geo] by simp
  qed
qed simp

lemma NodeFilterSpecs_cong:
  assumes "cfg_Filters old = cfg_Filters new" "\<not> ProberChanged old new"
  shows "NodeFilterSpecs old = NodeFilterSpecs new"
proof -
  have "node_filter_spec (cfg_GeoBlock old) = node_filter_spec (cfg_GeoBlock new)"
    using assms(2) by (simp add: node_filter_spec_def ProberChanged_def fun_eq_iff)
  then show ?thesis by (simp add: NodeFilterSpecs_def assms(1))
qed

lemma DeniedCountries_cong:
  assumes "cfg_Filters old = cfg_Filters new" "\<not> GroupsChanged old new"
  shows "DeniedCountries old = DeniedCountries new"
proof -
  have "group_codes old = group_codes new"
    using groups_unchanged [OF assms(2)] by (simp add: group_codes_def fun_eq_iff)
  then have "deny_filter old = deny_filter new" by (simp add: deny_filter_def fun_eq_iff)
  then show ?thesis by (simp add: DeniedCountries_def assms(1))
qed

lemma policy_cong:
  assumes "\<not> subsAffected old new"
  shows "worker_policy pw ranges_ok ReadFile old f = worker_policy pw ranges_ok ReadFile new f"
proof -
  have ch: "\<not> SubscriptionsChanged old new" "\<not> GroupsChanged old new" "cfg_Filters old = cfg_Filters new"
    "\<not> ProberChanged old new" "cfg_Annotate old = cfg_Annotate new"
    using assms by (auto simp: subsAffected_def FiltersChanged_def AnnotateChanged_def)
  have subs: "sub_Check (cfg_Subscriptions old) = sub_Check (cfg_Subscriptions new)"
    "sub_Sources (cfg_Subscriptions old) = sub_Sources (cfg_Subscriptions new)"
    "sub_Interval (cfg_Subscriptions old) = sub_Interval (cfg_Subscriptions new)"
    using ch(1) by (cases "cfg_Subscriptions old"; cases "cfg_Subscriptions new"; simp add: SubscriptionsChanged_def)+
  have cf: "geo_Cloudflare (cfg_Geo old) = geo_Cloudflare (cfg_Geo new)" using ch(4) by (simp add: ProberChanged_def)
  have gb: "cfg_GeoBlock old = (cfg_GeoBlock new)\<lparr>gbk_DBPath := gbk_DBPath (cfg_GeoBlock old), gbk_TTL := gbk_TTL (cfg_GeoBlock old)\<rparr>"
    using ch(4) by (cases "cfg_GeoBlock old"; cases "cfg_GeoBlock new") (simp add: ProberChanged_def)
  obtain geo bw names armed where n: "foldl take_node_spec (cfg_GeoBlock new, no_bandwidth, [], False) (NodeFilterSpecs new) = (geo, bw, names, armed)"
    by (metis prod_cases4)
  have o: "foldl take_node_spec (cfg_GeoBlock old, no_bandwidth, [], False) (NodeFilterSpecs old) =
      (geo\<lparr>gbk_DBPath := gbk_DBPath (cfg_GeoBlock old), gbk_TTL := gbk_TTL (cfg_GeoBlock old)\<rparr>, bw, names, armed)"
    unfolding NodeFilterSpecs_cong [OF ch(3,4)]
    by (subst gb) (simp add: take_node_specs_stores n)
  have ann: "AnnotateUsesProvider old = AnnotateUsesProvider new" by (simp add: AnnotateUsesProvider_def ch(5) fun_eq_iff)
  show ?thesis
    unfolding worker_policy_def Let_def n o prod.case subs cf ann DeniedCountries_cong [OF ch(3,2)]
    by (simp add: NewMihomoProber_def prober_view_def split: sum.splits)
qed


text \<open>
  C13: A reload that finds none of the policy's settings changed need not rebuild the policy: the
  comparisons cover everything \<open>Apply\<close> reads, up to the stores' settings and the snapshot path,
  which no policy depends on.
\<close>

theorem unaffected_policy_unchanged:
  assumes "\<not> subsAffected old new"
  shows "worker_policy pw ranges_ok ReadFile old f = worker_policy pw ranges_ok ReadFile new f"
  using assms by (rule policy_cong)

theorem unaffected_policy_unchanged_witness:
  "worker_policy \<lparr>pw_caps = (\<lambda>s. \<lparr>cp_boundProber = True, cp_bindingReleaser = True, cp_probedAdapterSource = True,
       cp_precheckReporter = True, cp_parseRefusalReporter = True, cp_traceChecker = None\<rparr>),
     pw_checks = (\<lambda>s. \<lparr>ck_gemini = None, ck_claude = None, ck_chatgpt = None, ck_tidal = None, ck_deepl = None, ck_bandwidth = None\<rparr>),
     pw_store = False\<rparr> (\<lambda>s. True) (\<lambda>f. None) empty_config idle_filterer =
   worker_policy \<lparr>pw_caps = (\<lambda>s. \<lparr>cp_boundProber = True, cp_bindingReleaser = True, cp_probedAdapterSource = True,
       cp_precheckReporter = True, cp_parseRefusalReporter = True, cp_traceChecker = None\<rparr>),
     pw_checks = (\<lambda>s. \<lparr>ck_gemini = None, ck_claude = None, ck_chatgpt = None, ck_tidal = None, ck_deepl = None, ck_bandwidth = None\<rparr>),
     pw_store = False\<rparr> (\<lambda>s. True) (\<lambda>f. None)
     (empty_config\<lparr>cfg_Listen := ''x'', cfg_GeoBlock := (cfg_GeoBlock empty_config)\<lparr>gbk_DBPath := ''db''\<rparr>\<rparr>) idle_filterer"
  by (rule unaffected_policy_unchanged)
    (simp add: subsAffected_def SubscriptionsChanged_def GroupsChanged_def FiltersChanged_def ProberChanged_def AnnotateChanged_def
      list_all_iff)

section \<open>The service's invariant\<close>

definition runnable_spec :: "('p, 'w) CheckerSpec \<Rightarrow> bool" where
  "runnable_spec s \<longleftrightarrow>
     minSubsInterval \<le> sp_Interval s \<and> 1 \<le> sp_Rounds s \<and> 0 \<le> sp_MaxFail s \<and> sp_MaxFail s < int (sp_Rounds s) \<and>
     1 \<le> sp_MaxAvgMs s \<and> sp_Sources s \<noteq> [] \<and> distinct (map su_Name (sp_Sources s)) \<and>
     list_all (\<lambda>src. su_Name src \<noteq> []) (sp_Sources s)"

lemma policy_runnable:
  assumes "config_runnable ve cfg" "SubscriptionsEnabled cfg" "worker_policy pw ranges_ok ReadFile cfg f = Inr spec"
  shows "runnable_spec spec"
proof -
  obtain geo bw names armed where n: "foldl take_node_spec (cfg_GeoBlock cfg, no_bandwidth, [], False) (NodeFilterSpecs cfg) = (geo, bw, names, armed)"
    by (metis prod_cases4)
  have "sp_Sources spec = sub_Sources (cfg_Subscriptions cfg)" "sp_Interval spec = sub_Interval (cfg_Subscriptions cfg)"
    "sp_Rounds spec = nat (chk_Rounds (sub_Check (cfg_Subscriptions cfg)))"
    "sp_MaxFail spec = chk_MaxFail (sub_Check (cfg_Subscriptions cfg))" "sp_MaxAvgMs spec = chk_MaxAvgMs (sub_Check (cfg_Subscriptions cfg))"
    using assms(3) by (auto simp: worker_policy_def Let_def n split: sum.splits option.splits)
  then show ?thesis
    using assms(1,2)
    by (auto simp: runnable_spec_def config_runnable_def Let_def SubscriptionsEnabled_def source_ok_def sourceName_ok_def list_all_iff)
qed

lemma runnable_same_policy: "same_policy s s' \<Longrightarrow> runnable_spec s \<Longrightarrow> runnable_spec s'"
  by (cases s; cases s') (simp add: same_policy_def runnable_spec_def)

definition policy_from ::
  "'p prober_world \<Rightarrow> validation_env \<Rightarrow> Config \<Rightarrow> ('p, 'w) CheckerSpec \<Rightarrow> bool" where
  "policy_from pw ve cfg live \<longleftrightarrow>
     (\<exists>ReadFile f spec. worker_policy pw (ve_ranges_ok ve) ReadFile cfg f = Inr spec \<and> same_policy spec live)"

text \<open>
  A worker at rest between the watcher's calls: no swap is pending, its spec carries the policy of a
  configuration that can run, and so did the specs of its cycles.
\<close>

definition worker_fits :: "'p prober_world \<Rightarrow> validation_env \<Rightarrow> Config \<Rightarrow> ('p, 'w) worker \<Rightarrow> bool" where
  "worker_fits pw ve cfg w \<longleftrightarrow>
     worker_ok w \<and> wk_swaps w = [] \<and> SubscriptionsEnabled cfg \<and> policy_from pw ve cfg (wk_spec w) \<and>
     list_all runnable_spec (wk_cycles w)"

definition checker_fits :: "'p prober_world \<Rightarrow> validation_env \<Rightarrow> Config \<Rightarrow> ('p, 'w) worker option \<Rightarrow> bool" where
  "checker_fits pw ve cfg checker \<longleftrightarrow> (case checker of None \<Rightarrow> True | Some w \<Rightarrow> worker_fits pw ve cfg w)"

lemma checker_fits_simps [simp]:
  "checker_fits pw ve cfg None" "checker_fits pw ve cfg (Some w) \<longleftrightarrow> worker_fits pw ve cfg w"
  by (simp_all add: checker_fits_def)

definition service_ok :: "'p prober_world \<Rightarrow> validation_env \<Rightarrow> ('p, 'w, 'c) service \<Rightarrow> bool" where
  "service_ok pw ve st \<longleftrightarrow>
     config_runnable ve (rl_currentCfg st) \<and> rl_holder st = rl_currentProc st \<and>
     checker_fits pw ve (rl_currentCfg st) (rl_checker st)"

inductive service_reach ::
  "'p prober_world \<Rightarrow> validation_env \<Rightarrow> ('c \<Rightarrow> 'w Filterer) \<Rightarrow> ('c, 's) handover \<Rightarrow> ('p, 'w, 'c) service \<Rightarrow> bool"
  for pw ve as_filterer ho where
  starts: "Load ve decode_config decode_private read base = Inr cfg \<Longrightarrow>
     service_start pw (ve_ranges_ok ve) as_filterer ReadFile cfg svc = Some st \<Longrightarrow> service_reach pw ve as_filterer ho st"
| reloads: "service_reach pw ve as_filterer ho st \<Longrightarrow>
     Reload pw (ve_ranges_ok ve) as_filterer ho ReadFile NewProcessor (Load ve decode_config decode_private read base) st = Some st' \<Longrightarrow>
     service_reach pw ve as_filterer ho st'"
| works: "service_reach pw ve as_filterer ho st \<Longrightarrow> rl_checker st = Some w \<Longrightarrow> worker_step w w' \<Longrightarrow>
     wk_gen w' = wk_gen w \<Longrightarrow> wk_swaps w' = wk_swaps w \<Longrightarrow> service_reach pw ve as_filterer ho (st\<lparr>rl_checker := Some w'\<rparr>)"

lemma policy_from_runnable:
  "config_runnable ve cfg \<Longrightarrow> SubscriptionsEnabled cfg \<Longrightarrow> policy_from pw ve cfg live \<Longrightarrow> runnable_spec live"
  unfolding policy_from_def by (metis policy_runnable runnable_same_policy)

lemma policy_from_filterer: "policy_from pw ve cfg live \<Longrightarrow> policy_from pw ve cfg (live\<lparr>sp_Filterer := f\<rparr>)"
  unfolding policy_from_def by (metis same_policy_swap)

lemma UseProcessor_fits:
  assumes "worker_fits pw ve cfg w"
  shows "\<exists>w'. UseProcessor f (Some w) = Some w' \<and> worker_fits pw ve cfg w' \<and> wk_spec w' = (wk_spec w)\<lparr>sp_Filterer := f\<rparr>"
proof -
  let ?w = "use_swap 0 (use_load f w)"
  have ns: "wk_swaps w = []" "worker_ok w" using assms by (simp_all add: worker_fits_def)
  have "worker_ok ?w"
    using worker_step_ok [OF use_loads ns(2), of f] worker_step_ok [OF use_swaps [of 0 "use_load f w"]]
    by (simp add: use_load_def)
  moreover have "wk_spec ?w = (wk_spec w)\<lparr>sp_Filterer := f\<rparr>" "wk_swaps ?w = []" "wk_cycles ?w = wk_cycles w"
    by (simp_all add: use_swap_def use_load_def ns)
  ultimately show ?thesis
    using assms by (auto simp: UseProcessor_def worker_fits_def policy_from_filterer)
qed

lemma staged_fits:
  assumes "worker_policy pw (ve_ranges_ok ve) ReadFile cfg f = Inr spec" "SubscriptionsEnabled cfg"
  shows "worker_fits pw ve cfg (NewChecker spec f)"
    and "worker_fits pw ve old w \<Longrightarrow> worker_fits pw ve cfg (run_call 0 (start_call spec f w))"
proof -
  have p: "policy_from pw ve cfg (spec\<lparr>sp_Filterer := f\<rparr>)"
    using assms(1) unfolding policy_from_def by (intro exI conjI) (assumption, simp)
  then show "worker_fits pw ve cfg (NewChecker spec f)"
    using assms(2) by (simp add: worker_fits_def NewChecker_def worker_ok_def)
  assume w: "worker_fits pw ve old w"
  then have "worker_ok (start_call spec f w)" by (intro worker_step_ok [OF calls]) (simp add: worker_fits_def)
  then have "worker_ok (run_call 0 (start_call spec f w))"
    by (intro worker_step_ok [OF acts [of 0]]) (simp_all add: start_call_def)
  then show "worker_fits pw ve cfg (run_call 0 (start_call spec f w))"
    using w p assms(2) by (simp add: worker_fits_def start_call_def run_call_def Reconfigure_def)
qed

lemma Apply_cases:
  assumes "controller_Apply pw ranges_ok ReadFile cfg f checker = (staged, err, chk)"
  obtains (rejected) "\<not> staged" "chk = checker"
  | (started) spec where "staged" "err = None" "SubscriptionsEnabled cfg" "worker_policy pw ranges_ok ReadFile cfg f = Inr spec"
      "checker = None" "chk = Some (NewChecker spec f)"
  | (reconfigured) spec w where "staged" "err = None" "SubscriptionsEnabled cfg" "worker_policy pw ranges_ok ReadFile cfg f = Inr spec"
      "checker = Some w" "chk = Some (run_call 0 (start_call spec f w))"
  using assms by (auto simp: controller_Apply_def split: if_splits sum.splits option.splits)

lemma Apply_fits:
  assumes "controller_Apply pw (ve_ranges_ok ve) ReadFile cfg f checker = (staged, err, chk)" "staged"
    and "checker_fits pw ve old checker"
  shows "checker_fits pw ve cfg chk"
  using assms(1)
proof (cases rule: Apply_cases)
  case rejected
  with assms(2) show ?thesis by simp
next
  case (started spec)
  then show ?thesis by (simp add: staged_fits)
next
  case (reconfigured spec w)
  then show ?thesis using assms(3) by (simp add: staged_fits)
qed

lemma unaffected_enabled: "\<not> subsAffected old new \<Longrightarrow> SubscriptionsEnabled old \<Longrightarrow> SubscriptionsEnabled new"
  by (cases "cfg_Subscriptions old"; cases "cfg_Subscriptions new")
    (simp add: subsAffected_def SubscriptionsChanged_def SubscriptionsEnabled_def)

lemma worker_fits_unaffected:
  assumes "worker_fits pw ve old w" "\<not> subsAffected old new"
  shows "worker_fits pw ve new w"
proof -
  have "policy_from pw ve old = (policy_from pw ve new :: ('a, 'b) CheckerSpec \<Rightarrow> bool)"
    by (simp add: policy_from_def fun_eq_iff policy_cong [OF assms(2)])
  then show ?thesis
    using assms(1) unaffected_enabled [OF assms(2)] by (simp add: worker_fits_def)
qed

lemma Reload_cases:
  assumes "Reload pw ranges_ok as_filterer ho ReadFile NewProcessor loaded r = Some r'"
  obtains (same) "r' = r"
  | (unaffected) newCfg p where "loaded = Inr newCfg" "\<not> subsAffected (rl_currentCfg r) newCfg"
      "r' = r\<lparr>rl_level := cfg_LogLevel newCfg, rl_holder := p, rl_checker := UseProcessor (as_filterer p) (rl_checker r),
              rl_currentProc := p, rl_currentProcCfg := newCfg, rl_currentCfg := newCfg\<rparr>"
  | (failed) newCfg p staged err chk where "loaded = Inr newCfg" "subsAffected (rl_currentCfg r) newCfg"
      "controller_Apply pw ranges_ok ReadFile newCfg (as_filterer p) (rl_checker r) = (staged, Some err, chk)"
      "r' = r\<lparr>rl_level := cfg_LogLevel newCfg, rl_holder := p, rl_checker := UseProcessor (as_filterer p) chk,
              rl_currentProc := p, rl_currentProcCfg := newCfg\<rparr>"
  | (refused) newCfg p chk where "loaded = Inr newCfg" "subsAffected (rl_currentCfg r) newCfg"
      "controller_Apply pw ranges_ok ReadFile newCfg (as_filterer p) (rl_checker r) = (False, None, chk)"
      "r' = r\<lparr>rl_level := cfg_LogLevel newCfg, rl_holder := p, rl_checker := chk,
              rl_currentProc := p, rl_currentProcCfg := newCfg\<rparr>"
  | (staged) newCfg p chk where "loaded = Inr newCfg" "subsAffected (rl_currentCfg r) newCfg"
      "controller_Apply pw ranges_ok ReadFile newCfg (as_filterer p) (rl_checker r) = (True, None, chk)"
      "r' = r\<lparr>rl_level := cfg_LogLevel newCfg, rl_holder := p, rl_checker := chk,
              rl_currentProc := p, rl_currentProcCfg := newCfg, rl_currentCfg := newCfg\<rparr>"
proof (cases "r' = r")
  case False
  then obtain newCfg opts p where l: "loaded = Inr newCfg" "OptionsFromConfig newCfg = Some opts"
      "NewProcessor (carryLoadedState ho r opts newCfg) = Some p"
      "\<not> (config_Equal (rl_currentCfg r) newCfg \<and> config_Equal (rl_currentProcCfg r) newCfg)"
    using assms by (auto simp: Reload_def split: sum.splits if_splits option.splits)
  show ?thesis
  proof (cases "subsAffected (rl_currentCfg r) newCfg")
    case aff: True
    obtain stg err chk where a: "controller_Apply pw ranges_ok ReadFile newCfg (as_filterer p) (rl_checker r) = (stg, err, chk)"
      by (metis prod_cases3)
    show ?thesis
    proof (cases err)
      case (Some e)
      have "r' = r\<lparr>rl_level := cfg_LogLevel newCfg, rl_holder := p, rl_checker := UseProcessor (as_filterer p) chk,
              rl_currentProc := p, rl_currentProcCfg := newCfg\<rparr>"
        using assms l(4) aff by (simp add: Reload_def l(1-3) a Some Let_def split: if_splits)
      then show ?thesis using failed [OF l(1) aff] a Some by simp
    next
      case None
      show ?thesis
      proof (cases stg)
        case True
        have "r' = r\<lparr>rl_level := cfg_LogLevel newCfg, rl_holder := p, rl_checker := chk,
              rl_currentProc := p, rl_currentProcCfg := newCfg, rl_currentCfg := newCfg\<rparr>"
          using assms l(4) aff by (simp add: Reload_def l(1-3) a None True Let_def split: if_splits)
        then show ?thesis using staged [OF l(1) aff] a None True by simp
      next
        case False
        have "r' = r\<lparr>rl_level := cfg_LogLevel newCfg, rl_holder := p, rl_checker := chk,
              rl_currentProc := p, rl_currentProcCfg := newCfg\<rparr>"
          using assms l(4) aff by (simp add: Reload_def l(1-3) a None False Let_def split: if_splits)
        then show ?thesis using refused [OF l(1) aff] a None False by simp
      qed
    qed
  next
    case aff: False
    have "r' = r\<lparr>rl_level := cfg_LogLevel newCfg, rl_holder := p, rl_checker := UseProcessor (as_filterer p) (rl_checker r),
              rl_currentProc := p, rl_currentProcCfg := newCfg, rl_currentCfg := newCfg\<rparr>"
      using assms l(4) aff by (simp add: Reload_def l(1-3) Let_def split: if_splits)
    then show ?thesis using unaffected l(1) aff by blast
  qed
qed (use same in blast)

lemma UseProcessor_checker_fits:
  assumes "checker_fits pw ve cfg checker"
  shows "checker_fits pw ve cfg (UseProcessor f checker)"
proof (cases checker)
  case None
  then show ?thesis by (simp add: UseProcessor_def)
next
  case (Some w)
  then show ?thesis using UseProcessor_fits [of pw ve cfg w f] assms by auto
qed

lemma Reload_ok:
  assumes "Reload pw (ve_ranges_ok ve) as_filterer ho ReadFile NewProcessor loaded r = Some r'" "service_ok pw ve r"
    and "\<And>cfg. loaded = Inr cfg \<Longrightarrow> config_runnable ve cfg"
  shows "service_ok pw ve r'"
  using assms(1)
proof (cases rule: Reload_cases)
  case same
  with assms(2) show ?thesis by simp
next
  case (unaffected newCfg p)
  have "checker_fits pw ve newCfg (rl_checker r)"
    using assms(2) worker_fits_unaffected [OF _ unaffected(2)] by (auto simp: service_ok_def checker_fits_def split: option.splits)
  then show ?thesis
    using UseProcessor_checker_fits assms(3) unaffected(1,3) by (simp add: service_ok_def)
next
  case (failed newCfg p staged err chk)
  have "chk = rl_checker r" using failed(3) by (cases rule: Apply_cases) auto
  then show ?thesis
    using UseProcessor_checker_fits [where pw = pw and ve = ve and cfg = "rl_currentCfg r" and checker = "rl_checker r" and f = "as_filterer p"] assms(2) failed(4)
    by (simp add: service_ok_def)
next
  case (refused newCfg p chk)
  have "chk = rl_checker r" using refused(3) by (cases rule: Apply_cases) auto
  then show ?thesis using assms(2) refused(4) by (simp add: service_ok_def)
next
  case (staged newCfg p chk)
  have "checker_fits pw ve newCfg chk"
    using Apply_fits [OF staged(3) TrueI] assms(2) by (auto simp: service_ok_def)
  then show ?thesis using assms(3) staged(1,4) by (simp add: service_ok_def)
qed

lemma service_start_ok:
  assumes "service_start pw (ve_ranges_ok ve) as_filterer ReadFile cfg svc = Some st" "config_runnable ve cfg"
  shows "service_ok pw ve st"
proof -
  obtain stg chk where a: "controller_Apply pw (ve_ranges_ok ve) ReadFile cfg (as_filterer svc) None = (stg, None, chk)"
      "st = \<lparr>rl_currentCfg = cfg, rl_currentProc = svc, rl_currentProcCfg = cfg, rl_holder = svc,
             rl_level = cfg_LogLevel cfg, rl_checker = chk\<rparr>"
    using assms(1) by (auto simp: service_start_def split: prod.splits option.splits)
  have "checker_fits pw ve cfg chk"
    using a(1) by (cases rule: Apply_cases) (simp_all add: staged_fits)
  then show ?thesis using assms(2) a(2) by (simp add: service_ok_def)
qed

lemma own_action: "wk_gen (do_action a w) = wk_gen w \<Longrightarrow> wk_spec (do_action a w) = wk_spec w"
  by (cases a) simp_all

lemma worker_own_step:
  assumes "worker_step w w'" "wk_gen w' = wk_gen w" "wk_swaps w' = wk_swaps w"
  shows "wk_spec w' = wk_spec w" "wk_cycles w' = wk_cycles w \<or> wk_cycles w' = wk_cycles w @ [wk_spec w]"
  using assms
  by (auto elim!: worker_stepE simp: begin_cycle_def reread_interval_def start_call_def run_call_def use_load_def use_swap_def
      Let_def own_action split: prod.splits list.splits if_splits)

lemma service_reach_ok: "service_reach pw ve as_filterer ho st \<Longrightarrow> service_ok pw ve st"
proof (induction rule: service_reach.induct)
  case (starts decode_config decode_private read base cfg ReadFile svc st)
  show ?case by (rule service_start_ok [OF starts(2) Load_runnable [OF starts(1)]])
next
  case (reloads st ReadFile NewProcessor decode_config decode_private read base st')
  show ?case by (rule Reload_ok [OF reloads(2,3)]) (rule Load_runnable)
next
  case (works st w w')
  have fit: "worker_fits pw ve (rl_currentCfg st) w" and run: "config_runnable ve (rl_currentCfg st)"
    using works(2,6) by (simp_all add: service_ok_def)
  have "runnable_spec (wk_spec w)"
    using fit run by (auto simp: worker_fits_def intro: policy_from_runnable)
  then have "worker_fits pw ve (rl_currentCfg st) w'"
    using fit worker_own_step [OF works(3,4,5)] worker_step_ok [OF works(3)] works
    by (auto simp: worker_fits_def)
  then show ?case using works(6) by (simp add: service_ok_def)
qed


text \<open>
  C6: Whatever the reloads bring and however they interleave with the worker's own steps, the worker
  runs the policy of the committed configuration, that configuration can run, and every cycle so far
  ran with a spec that can: at least one round, a failure limit below the rounds, an interval of a
  minute or more, and a non-empty list of sources with distinct names.
\<close>

theorem service_runs_committed_policy:
  assumes "service_reach pw ve as_filterer ho st" "rl_checker st = Some w"
  shows "config_runnable ve (rl_currentCfg st) \<and> policy_from pw ve (rl_currentCfg st) (wk_spec w) \<and>
    list_all runnable_spec (wk_cycles w)"
  using service_reach_ok [OF assms(1)] assms(2) by (simp add: service_ok_def worker_fits_def)

definition idle_world :: "unit prober_world" where
  "idle_world =
     \<lparr>pw_caps = (\<lambda>s. \<lparr>cp_boundProber = True, cp_bindingReleaser = True, cp_probedAdapterSource = True,
        cp_precheckReporter = True, cp_parseRefusalReporter = True, cp_traceChecker = None\<rparr>),
      pw_checks = (\<lambda>s. \<lparr>ck_gemini = None, ck_claude = None, ck_chatgpt = None, ck_tidal = None, ck_deepl = None, ck_bandwidth = None\<rparr>),
      pw_store = False\<rparr>"

definition same_handover :: "(nat, nat) handover" where
  "same_handover =
     \<lparr>ho_GeofeedState = id, ho_DBIPState = id, ho_RegistryState = id, ho_CIDRState = id, ho_ResolverState = id, ho_ASNState = id\<rparr>"

theorem service_runs_committed_policy_witness:
  "\<exists>(st :: (unit, unit, nat) service) (w :: (unit, unit) worker). rl_checker st = Some w \<and> rl_currentProc st = 0 \<and>
     config_runnable sample_env (rl_currentCfg st) \<and>
     policy_from idle_world sample_env (rl_currentCfg st) (wk_spec w) \<and>
     list_all runnable_spec (wk_cycles w)"
proof -
  let ?cfg = "add_sources one_source (load_defaults empty_config)"
  have en: "SubscriptionsEnabled ?cfg" by (simp add: SubscriptionsEnabled_def one_source_def)
  have nf: "NodeFilterSpecs ?cfg = []"
    by (simp add: NodeFilterSpecs_def load_defaults_def applyFilterDefaults_def empty_config_def Let_def List.map_filter_simps)
  have "\<exists>spec :: (unit, unit) CheckerSpec. worker_policy idle_world (ve_ranges_ok sample_env) (\<lambda>f. None) ?cfg idle_filterer = Inr spec"
    unfolding worker_policy_def nf by (simp add: resolveGeminiKey_def NewMihomoProber_def sample_env_def Let_def)
  then obtain spec :: "(unit, unit) CheckerSpec" where spec: "worker_policy idle_world (ve_ranges_ok sample_env) (\<lambda>f. None) ?cfg idle_filterer = Inr spec"
    by blast
  obtain st where st: "service_start idle_world (ve_ranges_ok sample_env) (\<lambda>c. idle_filterer) (\<lambda>f. None) ?cfg (0 :: nat) = Some st"
      "rl_checker st = Some (NewChecker spec idle_filterer)" "rl_currentProc st = 0"
    by (simp add: service_start_def controller_Apply_def en spec)
  have "service_reach idle_world sample_env (\<lambda>c. idle_filterer) same_handover st"
    by (rule starts [OF sample_loads st(1)])
  note fact = service_runs_committed_policy [OF this st(2)]
  show ?thesis
    by (intro exI [of _ st] exI [of _ "NewChecker spec idle_filterer"] conjI) (use fact st(2,3) in \<open>simp_all only:\<close>)
qed

section \<open>After a rejected configuration\<close>

lemma GroupsChanged_sym: "\<not> GroupsChanged a b \<Longrightarrow> \<not> GroupsChanged b a"
proof -
  assume "\<not> GroupsChanged a b"
  then have e: "map_of (cfg_Groups b) = map_of (cfg_Groups a)" by (rule groups_unchanged [symmetric])
  show "\<not> GroupsChanged b a" unfolding GroupsChanged_def e by (simp add: list_all_iff)
qed

lemma affected_not_equal: "subsAffected old new \<Longrightarrow> \<not> config_Equal old new"
proof
  assume a: "subsAffected old new" and e: "config_Equal old new"
  from e have g: "\<not> GroupsChanged old new" and eq: "old\<lparr>cfg_Groups := []\<rparr> = new\<lparr>cfg_Groups := []\<rparr>"
    by (simp_all add: config_Equal_def)
  have "cfg_Subscriptions old = cfg_Subscriptions new" "cfg_Filters old = cfg_Filters new"
    "cfg_GeoBlock old = cfg_GeoBlock new" "cfg_Geo old = cfg_Geo new" "cfg_Annotate old = cfg_Annotate new"
    using arg_cong [OF eq, of cfg_Subscriptions] arg_cong [OF eq, of cfg_Filters] arg_cong [OF eq, of cfg_GeoBlock]
      arg_cong [OF eq, of cfg_Geo] arg_cong [OF eq, of cfg_Annotate] by simp_all
  with a g show False
    by (simp add: subsAffected_def SubscriptionsChanged_def FiltersChanged_def ProberChanged_def AnnotateChanged_def)
qed

lemma not_affected_refl: "\<not> subsAffected cfg cfg"
  by (auto simp: subsAffected_def SubscriptionsChanged_def GroupsChanged_def FiltersChanged_def ProberChanged_def
      AnnotateChanged_def list_all_iff)

text \<open>
  C28: A configuration the controller rejected is neither forgotten nor stuck. Loading it again reaches
  the controller again, and when it stages now it is committed; going back to the committed file
  rebuilds the processor from that file, hands it to the worker, and leaves both records agreeing.
\<close>

theorem rejected_config_recovers:
  assumes "Reload pw ranges_ok as_filterer ho ReadFile NewProcessor (Inr newCfg) r = Some r'"
    and "rl_currentProcCfg r' = newCfg" "rl_currentCfg r' = rl_currentCfg r" "subsAffected (rl_currentCfg r) newCfg"
    and "OptionsFromConfig newCfg = Some opts" "OptionsFromConfig (rl_currentCfg r) = Some old_opts"
    and "NewProcessor2 (carryLoadedState ho r' opts newCfg) = Some p"
    and "NewProcessor2 (carryLoadedState ho r' old_opts (rl_currentCfg r)) = Some q"
  shows "(case controller_Apply pw ranges_ok ReadFile2 newCfg (as_filterer p) (rl_checker r') of (staged, err, chk) \<Rightarrow>
            if staged \<and> err = None
            then \<exists>r''. Reload pw ranges_ok as_filterer ho ReadFile2 NewProcessor2 (Inr newCfg) r' = Some r'' \<and>
              rl_currentCfg r'' = newCfg \<and> rl_currentProcCfg r'' = newCfg \<and> rl_checker r'' = chk else True) \<and>
    (\<exists>r''. Reload pw ranges_ok as_filterer ho ReadFile2 NewProcessor2 (Inr (rl_currentCfg r)) r' = Some r'' \<and>
       rl_currentCfg r'' = rl_currentCfg r \<and> rl_currentProcCfg r'' = rl_currentCfg r \<and> rl_holder r'' = q \<and>
       rl_checker r'' = UseProcessor (as_filterer q) (rl_checker r'))"
proof (rule conjI)
  have ne: "\<not> config_Equal (rl_currentCfg r') newCfg" using affected_not_equal assms(3,4) by simp
  obtain staged err chk where a: "controller_Apply pw ranges_ok ReadFile2 newCfg (as_filterer p) (rl_checker r') = (staged, err, chk)"
    by (metis prod_cases3)
  show "case controller_Apply pw ranges_ok ReadFile2 newCfg (as_filterer p) (rl_checker r') of (staged, err, chk) \<Rightarrow>
            if staged \<and> err = None
            then \<exists>r''. Reload pw ranges_ok as_filterer ho ReadFile2 NewProcessor2 (Inr newCfg) r' = Some r'' \<and>
              rl_currentCfg r'' = newCfg \<and> rl_currentProcCfg r'' = newCfg \<and> rl_checker r'' = chk else True"
    using ne assms(3,4,5,7) by (auto simp: a Reload_def Let_def)
  have "\<not> config_Equal (rl_currentProcCfg r') (rl_currentCfg r)"
  proof
    assume "config_Equal (rl_currentProcCfg r') (rl_currentCfg r)"
    then have "config_Equal (rl_currentCfg r) newCfg"
      unfolding assms(2) using GroupsChanged_sym [of newCfg "rl_currentCfg r"] by (simp add: config_Equal_def)
    then show False using affected_not_equal assms(4) by blast
  qed
  then show "\<exists>r''. Reload pw ranges_ok as_filterer ho ReadFile2 NewProcessor2 (Inr (rl_currentCfg r)) r' = Some r'' \<and>
       rl_currentCfg r'' = rl_currentCfg r \<and> rl_currentProcCfg r'' = rl_currentCfg r \<and> rl_holder r'' = q \<and>
       rl_checker r'' = UseProcessor (as_filterer q) (rl_checker r')"
    using assms(3,6,8) not_affected_refl by (auto simp: Reload_def Let_def)
qed

theorem rejected_config_recovers_witness:
  "\<exists>r''. Reload idle_world (\<lambda>s. True) (\<lambda>c. idle_filterer) same_handover (\<lambda>f. None) (\<lambda>opts. Some 2)
       (Inr (add_sources one_source (load_defaults empty_config)))
     \<lparr>rl_currentCfg = add_sources one_source (load_defaults empty_config), rl_currentProc = 1,
      rl_currentProcCfg = load_defaults empty_config, rl_holder = 1, rl_level = ''info'',
      rl_checker = None :: (unit, unit) worker option\<rparr> = Some r'' \<and>
     rl_currentProcCfg r'' = add_sources one_source (load_defaults empty_config) \<and> rl_holder r'' = (2 :: nat)"
proof -
  let ?old = "add_sources one_source (load_defaults empty_config)" and ?new = "load_defaults empty_config"
  let ?r = "\<lparr>rl_currentCfg = ?old, rl_currentProc = 0 :: nat, rl_currentProcCfg = ?old, rl_holder = 0, rl_level = ''info'',
      rl_checker = None :: (unit, unit) worker option\<rparr>"
  let ?r' = "\<lparr>rl_currentCfg = ?old, rl_currentProc = 1 :: nat, rl_currentProcCfg = ?new, rl_holder = 1, rl_level = ''info'',
      rl_checker = None :: (unit, unit) worker option\<rparr>"
  have "\<exists>o1. OptionsFromConfig ?old = Some (o1 :: nat Options)" "\<exists>o2. OptionsFromConfig ?new = Some (o2 :: nat Options)"
    by (simp_all add: OptionsFromConfig_def load_defaults_def applyFilterDefaults_def empty_config_def geo_applyDefaults_def
        geofeed_applyDefaults_def add_sources_def ptr_or_def Let_def)
  then obtain o1 o2 :: "nat Options" where o: "OptionsFromConfig ?old = Some o1" "OptionsFromConfig ?new = Some o2" by blast
  have subs: "sub_Sources (cfg_Subscriptions ?new) = []" "cfg_LogLevel ?new = ''info''"
    by (simp_all add: load_defaults_def applyFilterDefaults_def empty_config_def subscriptions_applyDefaults_def text_or_def Let_def)
  have "SubscriptionsChanged ?old ?new"
  proof (rule ccontr)
    assume "\<not> SubscriptionsChanged ?old ?new"
    then have "(cfg_Subscriptions ?old)\<lparr>sub_SnapshotPath := []\<rparr> = (cfg_Subscriptions ?new)\<lparr>sub_SnapshotPath := []\<rparr>"
      by (simp add: SubscriptionsChanged_def)
    from arg_cong [OF this, of sub_Sources] subs(1) show False by (simp add: one_source_def)
  qed
  then have aff: "subsAffected ?old ?new" by (simp add: subsAffected_def)
  have off: "\<not> SubscriptionsEnabled ?new" by (simp add: SubscriptionsEnabled_def subs)
  have step: "Reload idle_world (\<lambda>s. True) (\<lambda>c. idle_filterer) same_handover (\<lambda>f. None) (\<lambda>opts. Some 1) (Inr ?new) ?r = Some ?r'"
    using affected_not_equal [OF aff] by (simp add: Reload_def o aff controller_Apply_def off subs(2) Let_def)
  show ?thesis
    using rejected_config_recovers [OF step _ _ _ o(2), of o1 "\<lambda>opts. Some 2" 2 2 "\<lambda>f. None"] aff o(1) by auto
qed

end
