(* ===== verification/GoMap.thy ===== *)
theory GoMap
  imports Prelude "HOL-Library.AList" "HOL-Library.Multiset" "HOL-Library.List_Lexorder" "HOL-Library.Product_Lexorder"
begin

text \<open>
  The maps the crawler ranges over. A Go \<^verbatim>\<open>map\<close> is an association list with distinct keys, its
  entries in the order a \<^verbatim>\<open>range\<close> over it visits them: that order is arbitrary and differs from run
  to run, so it is an input of the model, and \<open>same_map\<close> says when two lists are the same map. A nil
  map and an empty one are both \<open>[]\<close>. Instants are nanoseconds since the zero \<^verbatim>\<open>time.Time\<close>, which is
  \<open>0\<close>.
\<close>

type_synonym ('k, 'v) gomap = "('k \<times> 'v) list"

type_synonym instant = int

abbreviation put :: "'k \<Rightarrow> 'v \<Rightarrow> ('k, 'v) gomap \<Rightarrow> ('k, 'v) gomap" where
  "put \<equiv> AList.update"

abbreviation del :: "'k \<Rightarrow> ('k, 'v) gomap \<Rightarrow> ('k, 'v) gomap" where
  "del \<equiv> AList.delete"

definition keys :: "('k, 'v) gomap \<Rightarrow> 'k list" where
  "keys m = map fst m"

definition wf_map :: "('k, 'v) gomap \<Rightarrow> bool" where
  "wf_map m = distinct (keys m)"

definition same_map :: "('k, 'v) gomap \<Rightarrow> ('k, 'v) gomap \<Rightarrow> bool" where
  "same_map m m' \<longleftrightarrow> wf_map m \<and> wf_map m' \<and> map_of m = map_of m'"

section \<open>Lookups and updates\<close>

lemma wf_map_Nil [simp]: "wf_map []"
  by (simp add: wf_map_def keys_def)

lemma wf_map_put [simp]: "wf_map m \<Longrightarrow> wf_map (put k v m)"
  by (simp add: wf_map_def keys_def distinct_update)

lemma wf_map_del [simp]: "wf_map m \<Longrightarrow> wf_map (del k m)"
  by (simp add: wf_map_def keys_def distinct_delete)

lemma wf_map_filter [simp]: "wf_map m \<Longrightarrow> wf_map (filter P m)"
  by (simp add: wf_map_def keys_def distinct_map_filter)

lemma map_of_put [simp]: "map_of (put k v m) = (map_of m)(k \<mapsto> v)"
  by (rule update_conv')

lemma map_of_del [simp]: "map_of (del k m) = (map_of m)(k := None)"
  by (rule delete_conv')

lemma set_keys_put [simp]: "set (keys (put k v m)) = insert k (set (keys m))"
  using dom_update [of k v m] by (simp add: keys_def)

lemma set_keys_iff: "k \<in> set (keys m) \<longleftrightarrow> map_of m k \<noteq> None"
  by (simp add: keys_def map_of_eq_None_iff)

lemma length_keys [simp]: "length (keys m) = length m"
  by (simp add: keys_def)

lemma length_put:
  "length (put k v m) = (if k \<in> set (keys m) then length m else Suc (length m))"
proof -
  have "length (keys (put k v m)) = (if k \<in> set (keys m) then length (keys m) else Suc (length (keys m)))"
    by (simp add: keys_def update_keys)
  then show ?thesis by simp
qed

lemma map_of_filter_key:
  "wf_map m \<Longrightarrow> map_of (filter P m) k = (case map_of m k of None \<Rightarrow> None | Some v \<Rightarrow> if P (k, v) then Some v else None)"
proof (induction m)
  case (Cons e m)
  obtain a b where e: "e = (a, b)" by force
  have wf: "wf_map m" and fresh: "map_of m a = None"
    using Cons.prems by (auto simp: wf_map_def keys_def e map_of_eq_None_iff)
  have fresh': "map_of (filter P m) a = None"
    using fresh by (auto simp: map_of_eq_None_iff)
  show ?case using Cons.IH [OF wf] fresh fresh' by (auto simp: e split: option.splits)
qed simp

lemma filter_all_iff: "length (filter P m) = length m \<longleftrightarrow> list_all P m"
proof -
  have "filter P m = m \<longleftrightarrow> length (filter P m) = length m"
    by (metis length_filter_less nat_neq_iff filter_True)
  then show ?thesis by (auto simp: list_all_iff filter_id_conv)
qed

lemma length_card: "wf_map m \<Longrightarrow> length m = card (dom (map_of m))"
  by (simp add: wf_map_def keys_def dom_map_of_conv_image_fst) (metis distinct_card length_map list.set_map)

lemma same_map_length: "same_map m m' \<Longrightarrow> length m = length m'"
  by (simp add: same_map_def length_card)

lemma same_map_keys: "same_map m m' \<Longrightarrow> mset (keys m) = mset (keys m')"
  unfolding same_map_def wf_map_def
  by (metis set_eq_iff_mset_eq_distinct set_keys_iff subsetI subset_antisym)

lemma same_map_put: "same_map m m' \<Longrightarrow> same_map (put k v m) (put k v m')"
  by (simp add: same_map_def)

lemma same_map_filter: "same_map m m' \<Longrightarrow> same_map (filter P m) (filter P m')"
  by (auto simp: same_map_def map_of_filter_key fun_eq_iff)

section \<open>Keeping the first keys of an order\<close>

text \<open>
  The caps of the crawler's memories: collect the keys, \<^verbatim>\<open>sort.Slice\<close> them, \<^verbatim>\<open>delete\<close> every key past
  the first \<open>n\<close>. The comparison is a total order on the keys, so the unstable sort has one result.
\<close>

definition keep_first :: "nat \<Rightarrow> ('k \<Rightarrow> 'o::linorder) \<Rightarrow> ('k, 'v) gomap \<Rightarrow> ('k, 'v) gomap" where
  "keep_first n ord m = fold del (drop n (sort_key ord (keys m))) m"

lemma fold_del: "fold del ks m = filter (\<lambda>e. fst e \<notin> set ks) m"
  by (induction ks arbitrary: m) (auto simp: AList.delete_eq intro!: filter_cong)

lemma keep_first_filter:
  assumes "wf_map m"
  shows "keep_first n ord m = filter (\<lambda>e. fst e \<in> set (take n (sort_key ord (keys m)))) m"
proof -
  let ?ks = "sort_key ord (keys m)"
  have d: "distinct ?ks" using assms by (simp add: wf_map_def)
  have "fst e \<notin> set (drop n ?ks) \<longleftrightarrow> fst e \<in> set (take n ?ks)" if "e \<in> set m" for e
  proof -
    have "fst e \<in> set ?ks" using that by (simp add: keys_def)
    then have "fst e \<in> set (take n ?ks) \<union> set (drop n ?ks)" by (metis append_take_drop_id set_append)
    moreover have "set (take n ?ks) \<inter> set (drop n ?ks) = {}"
      using d by (metis append_take_drop_id distinct_append)
    ultimately show ?thesis by blast
  qed
  then show ?thesis unfolding keep_first_def fold_del by (intro filter_cong) auto
qed

lemma wf_keep_first [simp]: "wf_map m \<Longrightarrow> wf_map (keep_first n ord m)"
  by (simp add: keep_first_filter)

lemma keys_filter_fst: "keys (filter (\<lambda>e. P (fst e)) m) = filter P (keys m)"
  by (induction m) (auto simp: keys_def)

lemma keep_first_keys:
  assumes "wf_map m"
  shows "set (keys (keep_first n ord m)) = set (take n (sort_key ord (keys m)))"
proof -
  let ?K = "set (take n (sort_key ord (keys m)))"
  have "keys (keep_first n ord m) = filter (\<lambda>k. k \<in> ?K) (keys m)"
    unfolding keep_first_filter [OF assms] by (rule keys_filter_fst)
  moreover have "?K \<subseteq> set (keys m)" using set_take_subset [of n "sort_key ord (keys m)"] by simp
  ultimately show ?thesis by auto
qed

lemma keep_first_length:
  assumes "wf_map m"
  shows "length (keep_first n ord m) = min n (length m)"
proof -
  have d: "distinct (take n (sort_key ord (keys m)))"
    using assms by (simp add: wf_map_def)
  have "length (keep_first n ord m) = card (set (keys (keep_first n ord m)))"
    using wf_keep_first [OF assms] by (metis distinct_card length_keys wf_map_def)
  also have "\<dots> = length (take n (sort_key ord (keys m)))"
    using d by (simp add: keep_first_keys [OF assms] distinct_card)
  finally show ?thesis by simp
qed

lemma keep_first_lookup:
  assumes "wf_map m"
  shows "map_of (keep_first n ord m) k =
    (if k \<in> set (take n (sort_key ord (keys m))) then map_of m k else None)"
  by (simp add: keep_first_filter [OF assms] map_of_filter_key [OF assms] split: option.splits)

lemma sorted_take_drop:
  assumes "sorted (map f xs)" "a \<in> set (take n xs)" "b \<in> set (drop n xs)"
  shows "f a \<le> f b"
proof -
  have "sorted (map f (take n xs) @ map f (drop n xs))"
    using assms(1) by (metis append_take_drop_id map_append)
  then show ?thesis using assms(2,3) by (simp add: sorted_append)
qed

text \<open>A key that stays is not after one that goes.\<close>

lemma keep_first_order:
  assumes "wf_map m" "k \<in> set (keys (keep_first n ord m))"
    "k' \<in> set (keys m)" "k' \<notin> set (keys (keep_first n ord m))"
  shows "ord k \<le> ord k'"
proof (rule sorted_take_drop [of ord "sort_key ord (keys m)"])
  show "k \<in> set (take n (sort_key ord (keys m)))" using assms(1,2) by (simp add: keep_first_keys)
  have "k' \<in> set (sort_key ord (keys m))" using assms(3) by simp
  moreover have "k' \<notin> set (take n (sort_key ord (keys m)))" using assms(1,4) by (simp add: keep_first_keys)
  ultimately show "k' \<in> set (drop n (sort_key ord (keys m)))"
    by (metis Un_iff append_take_drop_id set_append)
qed simp

lemma filter_eq_single: "distinct xs \<Longrightarrow> k \<in> set xs \<Longrightarrow> filter (\<lambda>x. x = k) xs = [k]"
  by (induction xs) (auto simp: filter_empty_conv)

text \<open>What is kept does not depend on the order the map was ranged in.\<close>

lemma keep_first_same_map:
  assumes "same_map m m'" "inj_on ord (set (keys m))"
  shows "same_map (keep_first n ord m) (keep_first n ord m')"
proof -
  have wf: "wf_map m" "wf_map m'" and eq: "map_of m = map_of m'"
    using assms(1) by (auto simp: same_map_def)
  have "sort_key ord (keys m) = sort_key ord (keys m')"
  proof (rule properties_for_sort_key [symmetric])
    show "mset (sort_key ord (keys m)) = mset (keys m')" using same_map_keys [OF assms(1)] by simp
    show "\<And>k. k \<in> set (sort_key ord (keys m)) \<Longrightarrow>
      filter (\<lambda>x. ord k = ord x) (sort_key ord (keys m)) = filter (\<lambda>x. ord k = ord x) (keys m')"
    proof -
      fix k assume "k \<in> set (sort_key ord (keys m))"
      then have k: "k \<in> set (keys m)" by simp
      have k': "set (keys m') = set (keys m)" using same_map_keys [OF assms(1)] by (metis set_mset_mset)
      have one: "filter (\<lambda>x. ord k = ord x) xs = [k]" if "distinct xs" "set xs = set (keys m)" for xs
      proof -
        have "filter (\<lambda>x. ord k = ord x) xs = filter (\<lambda>x. x = k) xs"
          using assms(2) k that(2) by (intro filter_cong) (auto dest: inj_onD)
        also have "\<dots> = [k]" using that k by (simp add: filter_eq_single)
        finally show ?thesis .
      qed
      show "filter (\<lambda>x. ord k = ord x) (sort_key ord (keys m)) = filter (\<lambda>x. ord k = ord x) (keys m')"
        using wf k' by (simp add: one wf_map_def)
    qed
    show "sorted (map ord (sort_key ord (keys m)))" by simp
  qed
  then show ?thesis using wf eq by (auto simp: same_map_def keep_first_lookup fun_eq_iff)
qed

end
