(* ===== verification/CrawlState.thy ===== *)
theory CrawlState
  imports GoMap "HOL-Library.Word"
begin

text \<open>
  \<^verbatim>\<open>internal/crawl/state.go\<close>: what the crawler remembers from one cycle to the next. Every mutating
  method sets \<open>dirty\<close>, on which the cycle decides whether to write the file. Adding a duration to an
  instant is exact here: the code's durations are hours and days, far from where \<^verbatim>\<open>time.Time\<close> ends.
\<close>

section \<open>The records\<close>

record channelState =
  chs_FirstSeen :: instant
  chs_LastSubAt :: instant

record managedState =
  mst_LastLiveAt :: instant
  mst_NotLiveSince :: instant
  mst_NotLiveCycles :: int

record repoState =
  rps_FirstSeen :: instant
  rps_LastFileAt :: instant

record ghCursor =
  gcu_Code :: int
  gcu_Repo :: int

record probationState =
  pbs_Barren :: int
  pbs_Published :: "64 word"
  pbs_FirstSeen :: instant
  pbs_LastLive :: instant

record crawl_state =
  cst_Productive :: "(string, channelState) gomap"
  cst_Managed :: "(string, managedState) gomap"
  cst_BulkPruneAt :: instant
  cst_BulkPruneURLs :: "string list option"
  cst_Dead :: "(string, instant) gomap"
  cst_Ladders :: "(string, instant) gomap"
  cst_Repos :: "(string, repoState) gomap"
  cst_GitHub :: ghCursor
  cst_Probation :: "(string, probationState) gomap"
  cst_loadFailed :: bool
  cst_dirty :: bool

text \<open>The zero values a missing map entry reads as.\<close>

definition zero_channel :: channelState where
  "zero_channel = \<lparr>chs_FirstSeen = 0, chs_LastSubAt = 0\<rparr>"

definition zero_managed :: managedState where
  "zero_managed = \<lparr>mst_LastLiveAt = 0, mst_NotLiveSince = 0, mst_NotLiveCycles = 0\<rparr>"

definition zero_repo :: repoState where
  "zero_repo = \<lparr>rps_FirstSeen = 0, rps_LastFileAt = 0\<rparr>"

definition zero_probation :: probationState where
  "zero_probation = \<lparr>pbs_Barren = 0, pbs_Published = 0, pbs_FirstSeen = 0, pbs_LastLive = 0\<rparr>"

definition empty_state :: crawl_state where
  "empty_state =
     \<lparr>cst_Productive = [], cst_Managed = [], cst_BulkPruneAt = 0, cst_BulkPruneURLs = None,
      cst_Dead = [], cst_Ladders = [], cst_Repos = [], cst_GitHub = \<lparr>gcu_Code = 0, gcu_Repo = 0\<rparr>,
      cst_Probation = [], cst_loadFailed = False, cst_dirty = False\<rparr>"

definition read_or :: "'v \<Rightarrow> ('k, 'v) gomap \<Rightarrow> 'k \<Rightarrow> 'v" where
  "read_or z m k = (case map_of m k of None \<Rightarrow> z | Some v \<Rightarrow> v)"

definition mark :: "bool \<Rightarrow> crawl_state \<Rightarrow> crawl_state" where
  "mark changed s = (if changed then s\<lparr>cst_dirty := True\<rparr> else s)"

lemma mark_fields [simp]:
  "cst_Managed (mark b s) = cst_Managed s" "cst_BulkPruneAt (mark b s) = cst_BulkPruneAt s"
  "cst_BulkPruneURLs (mark b s) = cst_BulkPruneURLs s" "cst_GitHub (mark b s) = cst_GitHub s"
  "cst_Productive (mark b s) = cst_Productive s" "cst_Dead (mark b s) = cst_Dead s"
  "cst_Ladders (mark b s) = cst_Ladders s" "cst_Repos (mark b s) = cst_Repos s"
  "cst_Probation (mark b s) = cst_Probation s" "cst_loadFailed (mark b s) = cst_loadFailed s"
  "cst_dirty (mark b s) = (b \<or> cst_dirty s)"
  by (simp_all add: mark_def)

section \<open>Productive channels and repositories\<close>

definition record_channel :: "string \<Rightarrow> instant \<Rightarrow> crawl_state \<Rightarrow> crawl_state" where
  "record_channel ch now s =
     (let e = read_or zero_channel (cst_Productive s) ch;
          e = (if chs_FirstSeen e = 0 then e\<lparr>chs_FirstSeen := now\<rparr> else e)
      in s\<lparr>cst_Productive := put ch (e\<lparr>chs_LastSubAt := now\<rparr>) (cst_Productive s), cst_dirty := True\<rparr>)"

definition maxProductive :: nat where
  "maxProductive = 200"

definition maxProductiveRepos :: nat where
  "maxProductiveRepos = 120"

definition recordGitHubRepo :: "string \<Rightarrow> instant \<Rightarrow> crawl_state \<Rightarrow> crawl_state" where
  "recordGitHubRepo repo now s =
     (let e = read_or zero_repo (cst_Repos s) repo;
          e = (if rps_FirstSeen e = 0 then e\<lparr>rps_FirstSeen := now\<rparr> else e)
      in s\<lparr>cst_Repos := put repo (e\<lparr>rps_LastFileAt := now\<rparr>) (cst_Repos s), cst_dirty := True\<rparr>)"

definition recordGitHubCursor :: "int \<Rightarrow> int \<Rightarrow> crawl_state \<Rightarrow> crawl_state" where
  "recordGitHubCursor code repo s =
     (if gcu_Code (cst_GitHub s) = code \<and> gcu_Repo (cst_GitHub s) = repo then s
      else s\<lparr>cst_GitHub := \<lparr>gcu_Code = code, gcu_Repo = repo\<rparr>, cst_dirty := True\<rparr>)"

text \<open>\<^verbatim>\<open>sort.Slice\<close> with the newer instant first and the key breaking ties.\<close>

definition newest :: "('v \<Rightarrow> instant) \<Rightarrow> 'v \<Rightarrow> (string, 'v) gomap \<Rightarrow> string \<Rightarrow> int \<times> string" where
  "newest at z m k = (- at (read_or z m k), k)"

definition githubRepos :: "crawl_state \<Rightarrow> string list" where
  "githubRepos s = sort_key (newest rps_LastFileAt zero_repo (cst_Repos s)) (keys (cst_Repos s))"

definition pruneGitHubRepos :: "instant \<Rightarrow> crawl_state \<Rightarrow> crawl_state" where
  "pruneGitHubRepos cutoff s =
     (let before = length (cst_Repos s);
          repos = filter (\<lambda>e. \<not> rps_LastFileAt (snd e) < cutoff) (cst_Repos s);
          repos = (if length repos > maxProductiveRepos
                   then keep_first maxProductiveRepos (newest rps_LastFileAt zero_repo repos) repos
                   else repos)
      in mark (length repos \<noteq> before) (s\<lparr>cst_Repos := repos\<rparr>))"

definition prune_ladders :: "instant \<Rightarrow> crawl_state \<Rightarrow> crawl_state" where
  "prune_ladders cutoff s =
     (let kept = filter (\<lambda>e. \<not> snd e < cutoff) (cst_Ladders s)
      in mark (length kept \<noteq> length (cst_Ladders s)) (s\<lparr>cst_Ladders := kept\<rparr>))"

definition prune :: "instant \<Rightarrow> crawl_state \<Rightarrow> crawl_state" where
  "prune cutoff s0 =
     (let s = prune_ladders cutoff (pruneGitHubRepos cutoff s0);
          before = length (cst_Productive s);
          live = filter (\<lambda>e. \<not> chs_LastSubAt (snd e) < cutoff) (cst_Productive s)
      in if length live \<le> maxProductive then mark (length live \<noteq> before) (s\<lparr>cst_Productive := live\<rparr>)
         else s\<lparr>cst_Productive := keep_first maxProductive (newest chs_LastSubAt zero_channel live) live,
                cst_dirty := True\<rparr>)"

definition seeds :: "crawl_state \<Rightarrow> string list" where
  "seeds s = keys (cst_Productive s)"

section \<open>Probation of the sources minted from GitHub\<close>

record sourceOutcome =
  sou_Survivors :: int
  sou_Valid :: int

record outcomeReading =
  ord_Published :: "64 word"
  ord_Sources :: "(string, sourceOutcome) gomap"

definition foldOutcome ::
  "string \<Rightarrow> int \<Rightarrow> 64 word \<Rightarrow> instant \<Rightarrow> crawl_state \<Rightarrow> int \<times> crawl_state" where
  "foldOutcome name survivors published now s =
     (let store = (\<lambda>e. let e = e\<lparr>pbs_Published := published\<rparr>;
                          e = (if survivors > 0 then e\<lparr>pbs_Barren := 0, pbs_LastLive := now\<rparr>
                               else e\<lparr>pbs_Barren := pbs_Barren e + 1\<rparr>)
                      in (pbs_Barren e, s\<lparr>cst_Probation := put name e (cst_Probation s), cst_dirty := True\<rparr>))
      in case map_of (cst_Probation s) name of
           None \<Rightarrow> if published = 0 then (0, s) else store (zero_probation\<lparr>pbs_FirstSeen := now\<rparr>)
         | Some e \<Rightarrow> if published \<le> pbs_Published e then (pbs_Barren e, s) else store e)"

record dueVerdict =
  due_name :: string
  due_barren :: int
  due_valid :: int

fun fold_names ::
  "outcomeReading \<Rightarrow> int \<Rightarrow> instant \<Rightarrow> string list \<Rightarrow> dueVerdict list \<Rightarrow> crawl_state \<Rightarrow>
   dueVerdict list \<times> crawl_state" where
  "fold_names reading window now [] due s = (due, s)"
| "fold_names reading window now (name # names) due s =
     (case map_of (ord_Sources reading) name of
        None \<Rightarrow> fold_names reading window now names due s
      | Some outcome \<Rightarrow>
          (let prev = map_of (cst_Probation s) name;
               (barren, s') = foldOutcome name (sou_Survivors outcome) (ord_Published reading) now s;
               stale = (case prev of None \<Rightarrow> False | Some e \<Rightarrow> ord_Published reading \<le> pbs_Published e)
           in if \<not> stale \<and> barren \<ge> window
              then fold_names reading window now names
                     (due @ [\<lparr>due_name = name, due_barren = barren, due_valid = sou_Valid outcome\<rparr>]) s'
              else fold_names reading window now names due s'))"

definition foldReading ::
  "string list \<Rightarrow> outcomeReading \<Rightarrow> int \<Rightarrow> instant \<Rightarrow> crawl_state \<Rightarrow> dueVerdict list \<times> crawl_state" where
  "foldReading names reading window now s =
     (let (due, s') = fold_names reading window now names [] s
      in (sort_key (\<lambda>v. (- due_barren v, due_name v)) due, s'))"

definition forgetProbation :: "string list \<Rightarrow> crawl_state \<Rightarrow> crawl_state" where
  "forgetProbation names s =
     mark (list_ex (\<lambda>n. map_of (cst_Probation s) n \<noteq> None) names)
       (s\<lparr>cst_Probation := fold del names (cst_Probation s)\<rparr>)"

definition pruneProbation :: "string list \<Rightarrow> crawl_state \<Rightarrow> crawl_state" where
  "pruneProbation known s =
     (let kept = filter (\<lambda>e. fst e \<in> set known) (cst_Probation s)
      in mark (length kept \<noteq> length (cst_Probation s)) (s\<lparr>cst_Probation := kept\<rparr>))"

section \<open>The dead memory\<close>

definition maxDead :: nat where
  "maxDead = 5000"

definition capDead :: "crawl_state \<Rightarrow> bool \<times> crawl_state" where
  "capDead s =
     (if length (cst_Dead s) \<le> maxDead then (False, s)
      else (True, s\<lparr>cst_Dead := keep_first maxDead (newest (\<lambda>at. at) 0 (cst_Dead s)) (cst_Dead s)\<rparr>))"

text \<open>One pass of the loop over the urls: blank ones and unchanged stamps are skipped.\<close>

definition stamp_dead :: "instant \<Rightarrow> string \<Rightarrow> bool \<times> (string, instant) gomap \<Rightarrow> bool \<times> (string, instant) gomap" where
  "stamp_dead until u cd =
     (if u = [] \<or> map_of (snd cd) u = Some until then cd else (True, put u until (snd cd)))"

definition recordDead :: "string list \<Rightarrow> int \<Rightarrow> instant \<Rightarrow> crawl_state \<Rightarrow> bool \<times> crawl_state" where
  "recordDead urls ttl now s =
     (if ttl \<le> 0 then (False, s)
      else let (stamped, dead) = fold (stamp_dead (now + ttl)) urls (False, cst_Dead s);
               (capped, s') = capDead (s\<lparr>cst_Dead := dead\<rparr>);
               changed = (capped \<or> stamped)
           in (changed, mark changed s'))"

definition pruneDead :: "instant \<Rightarrow> crawl_state \<Rightarrow> bool \<times> crawl_state" where
  "pruneDead now s =
     (let kept = filter (\<lambda>e. snd e > now) (cst_Dead s);
          changed = (length kept \<noteq> length (cst_Dead s))
      in (changed, mark changed (s\<lparr>cst_Dead := kept\<rparr>)))"

definition clearDead :: "string list \<Rightarrow> crawl_state \<Rightarrow> bool \<times> crawl_state" where
  "clearDead live s =
     (let changed = list_ex (\<lambda>u. map_of (cst_Dead s) u \<noteq> None) live
      in (changed, mark changed (s\<lparr>cst_Dead := fold del live (cst_Dead s)\<rparr>)))"

section \<open>Retirement of the managed sources\<close>

definition state_hour :: int where
  "state_hour = 3600 * 1000000000"

definition staleRetireAfter :: int where
  "staleRetireAfter = 24 * state_hour"

definition staleRetireCycles :: int where
  "staleRetireCycles = 6"

fun age_urls ::
  "string list \<Rightarrow> instant \<Rightarrow> string list \<Rightarrow> string list \<Rightarrow> crawl_state \<Rightarrow> string list \<times> crawl_state" where
  "age_urls live now [] stale s = (stale, s)"
| "age_urls live now (u # us) stale s =
     (if u \<in> set live
      then let fresh = (case map_of (cst_Managed s) u of None \<Rightarrow> True | Some m \<Rightarrow> mst_LastLiveAt m \<noteq> now)
           in age_urls live now us stale
                (mark fresh (s\<lparr>cst_Managed := put u (zero_managed\<lparr>mst_LastLiveAt := now\<rparr>) (cst_Managed s)\<rparr>))
      else let m = read_or zero_managed (cst_Managed s) u;
               m = (if mst_NotLiveSince m = 0 then m\<lparr>mst_NotLiveSince := now\<rparr> else m);
               m = m\<lparr>mst_NotLiveCycles := mst_NotLiveCycles m + 1\<rparr>;
               s' = s\<lparr>cst_Managed := put u m (cst_Managed s), cst_dirty := True\<rparr>
           in age_urls live now us
                (if mst_NotLiveCycles m \<ge> staleRetireCycles \<and> \<not> now < mst_NotLiveSince m + staleRetireAfter
                 then stale @ [u] else stale) s')"

definition ageManaged ::
  "string list \<Rightarrow> string list \<Rightarrow> instant \<Rightarrow> crawl_state \<Rightarrow> string list \<times> crawl_state" where
  "ageManaged managed live now s =
     (let kept = filter (\<lambda>e. fst e \<in> set managed) (cst_Managed s)
      in age_urls live now managed []
           (mark (length kept \<noteq> length (cst_Managed s)) (s\<lparr>cst_Managed := kept\<rparr>)))"

section \<open>Confirmation of a bulk deletion\<close>

definition bulkPruneConfirmAfter :: int where
  "bulkPruneConfirmAfter = 6 * state_hour"

definition bulkPruneRecordTTL :: int where
  "bulkPruneRecordTTL = 24 * state_hour"

definition bulkPruneOverlap :: nat where
  "bulkPruneOverlap = 80"

definition percentScale :: nat where
  "percentScale = 100"

fun common_count :: "string list \<Rightarrow> string list \<Rightarrow> nat" where
  "common_count (a # as) (b # bs) =
     (if a = b then Suc (common_count as bs)
      else if a < b then common_count as (b # bs)
      else common_count (a # as) bs)"
| "common_count _ _ = 0"

definition sameProposal :: "string list \<Rightarrow> string list \<Rightarrow> bool" where
  "sameProposal recorded proposed =
     (if recorded = [] \<or> proposed = [] then False
      else common_count recorded proposed * percentScale
             \<ge> max (length recorded) (length proposed) * bulkPruneOverlap)"

text \<open>\<^verbatim>\<open>slices.Clone\<close> keeps nil nil; the proposal is built by appending to a nil slice.\<close>

definition Clone :: "string list \<Rightarrow> string list option" where
  "Clone xs = (if xs = [] then None else Some xs)"

definition recorded_urls :: "crawl_state \<Rightarrow> string list" where
  "recorded_urls s = (case cst_BulkPruneURLs s of None \<Rightarrow> [] | Some us \<Rightarrow> us)"

definition confirmBulkPrune :: "instant \<Rightarrow> string list \<Rightarrow> crawl_state \<Rightarrow> (bool \<times> bool) \<times> crawl_state" where
  "confirmBulkPrune now condemned s =
     (if cst_BulkPruneAt s = 0 \<or> now > cst_BulkPruneAt s + bulkPruneRecordTTL \<or>
         \<not> sameProposal (recorded_urls s) condemned
      then ((False, True), s\<lparr>cst_BulkPruneAt := now, cst_BulkPruneURLs := Clone condemned, cst_dirty := True\<rparr>)
      else if now < cst_BulkPruneAt s + bulkPruneConfirmAfter then ((False, False), s)
      else ((True, True), s\<lparr>cst_BulkPruneAt := 0, cst_BulkPruneURLs := None, cst_dirty := True\<rparr>))"

definition clearBulkPrune :: "crawl_state \<Rightarrow> bool \<times> crawl_state" where
  "clearBulkPrune s =
     (if cst_BulkPruneAt s = 0 \<and> cst_BulkPruneURLs s = None then (False, s)
      else (True, s\<lparr>cst_BulkPruneAt := 0, cst_BulkPruneURLs := None, cst_dirty := True\<rparr>))"

section \<open>The state file\<close>

text \<open>
  \<open>decode\<close> is \<^verbatim>\<open>json.Unmarshal\<close> into a fresh state and \<open>encode\<close> is \<^verbatim>\<open>json.MarshalIndent\<close>; the two
  unexported fields are in no file. \<open>write\<close> is \<^verbatim>\<open>writeFileAtomic\<close> on the state path.
\<close>

datatype state_read = StateBytes string | StateAbsent | StateUnreadable

definition loadState :: "(string \<Rightarrow> crawl_state option) \<Rightarrow> string \<Rightarrow> state_read \<Rightarrow> crawl_state" where
  "loadState decode path file =
     (if path = [] then empty_state
      else case file of
        StateAbsent \<Rightarrow> empty_state
      | StateUnreadable \<Rightarrow> empty_state\<lparr>cst_loadFailed := True\<rparr>
      | StateBytes b \<Rightarrow>
          (case decode b of
             None \<Rightarrow> empty_state\<lparr>cst_loadFailed := True\<rparr>
           | Some st \<Rightarrow> st\<lparr>cst_loadFailed := False, cst_dirty := False\<rparr>))"

datatype 'e save_result = SaveSkipped | SaveFailed 'e | Saved string

definition saveState ::
  "(crawl_state \<Rightarrow> 'e + string) \<Rightarrow> (string \<Rightarrow> 'e option) \<Rightarrow> string \<Rightarrow> crawl_state \<Rightarrow> 'e save_result" where
  "saveState encode write path st =
     (if path = [] \<or> cst_loadFailed st then SaveSkipped
      else case encode st of
        Inl e \<Rightarrow> SaveFailed e
      | Inr b \<Rightarrow> (case write b of Some e \<Rightarrow> SaveFailed e | None \<Rightarrow> Saved b))"

end
