(* ===== verification/CrawlHistory.thy ===== *)
theory CrawlHistory
  imports CrawlState
begin

text \<open>
  What the crawler's memory means over its whole life: histories of the operations of
  \<open>CrawlState\<close>. A bulk deletion needs two proposals hours apart; a source is retired by a streak of
  observations.
\<close>

section \<open>Bulk deletions\<close>

lemma common_count_card:
  "sorted_wrt (<) xs \<Longrightarrow> sorted_wrt (<) ys \<Longrightarrow> common_count xs ys = card (set xs \<inter> set ys)"
proof (induction xs ys rule: common_count.induct)
  case (1 a xs b ys)
  have notin: "a \<notin> set xs" "b \<notin> set ys" using "1.prems" by auto
  show ?case
  proof (cases a b rule: linorder_cases)
    assume eq: "a = b"
    have "set (a # xs) \<inter> set (b # ys) = insert a (set xs \<inter> set ys)" using notin eq by auto
    then show ?thesis using 1 eq notin by simp
  next
    assume lt: "a < b"
    have "a \<notin> set (b # ys)" using "1.prems"(2) lt by auto
    then show ?thesis using 1 lt by (simp add: Int_insert_left)
  next
    assume gt: "b < a"
    have "b \<notin> set (a # xs)" using "1.prems"(1) gt by auto
    then show ?thesis using 1 gt by (auto simp: Int_insert_right)
  qed
qed auto

lemma sameProposal_card:
  assumes "sorted_wrt (<) xs" "sorted_wrt (<) ys"
  shows "sameProposal xs ys \<longleftrightarrow>
    xs \<noteq> [] \<and> ys \<noteq> [] \<and> 80 * max (card (set xs)) (card (set ys)) \<le> 100 * card (set xs \<inter> set ys)"
proof -
  have "distinct xs" "distinct ys" using assms by (auto simp: strict_sorted_iff)
  then have "length xs = card (set xs)" "length ys = card (set ys)" by (simp_all add: distinct_card)
  then show ?thesis
    by (auto simp: sameProposal_def common_count_card [OF assms] percentScale_def bulkPruneOverlap_def
      mult.commute)
qed

lemma sameProposal_refl: "sorted_wrt (<) us \<Longrightarrow> us \<noteq> [] \<Longrightarrow> sameProposal us us"
  by (simp add: sameProposal_card)

text \<open>What a cycle that reaches the merge does to the record.\<close>

datatype bulk_event = Propose instant "string list" | Withdraw

fun bulk_step :: "bulk_event \<Rightarrow> crawl_state \<Rightarrow> crawl_state" where
  "bulk_step (Propose now us) s = snd (confirmBulkPrune now us s)"
| "bulk_step Withdraw s = snd (clearBulkPrune s)"

definition bulk_run :: "bulk_event list \<Rightarrow> crawl_state \<Rightarrow> crawl_state" where
  "bulk_run evs s = fold bulk_step evs s"

definition allowed :: "instant \<Rightarrow> string list \<Rightarrow> crawl_state \<Rightarrow> bool" where
  "allowed now us s = fst (fst (confirmBulkPrune now us s))"

fun refused_in :: "bulk_event \<Rightarrow> crawl_state \<Rightarrow> bool" where
  "refused_in (Propose now us) s = (\<not> allowed now us s)"
| "refused_in Withdraw s = False"

text \<open>Every event of the list is a proposal that is refused when it is made.\<close>

fun all_refused :: "bulk_event list \<Rightarrow> crawl_state \<Rightarrow> bool" where
  "all_refused [] s = True"
| "all_refused (e # es) s = (refused_in e s \<and> all_refused es (bulk_step e s))"

lemma all_refused_append:
  "all_refused (es @ es') s \<longleftrightarrow> all_refused es s \<and> all_refused es' (bulk_run es s)"
  by (induction es arbitrary: s) (auto simp: bulk_run_def)

lemma bulk_run_append: "bulk_run (es @ es') s = bulk_run es' (bulk_run es s)"
  by (simp add: bulk_run_def)

lemma recorded_urls_Clone [simp]: "cst_BulkPruneURLs s = Clone us \<Longrightarrow> recorded_urls s = us"
  by (auto simp: recorded_urls_def Clone_def split: if_splits)

definition pending :: "bulk_event list \<Rightarrow> crawl_state \<Rightarrow> instant \<Rightarrow> string list \<Rightarrow> bool" where
  "pending evs s0 at us \<longleftrightarrow>
     (\<exists>pre post. evs = pre @ Propose at us # post \<and> all_refused (Propose at us # post) (bulk_run pre s0))"

lemma bulk_record_pending:
  assumes "cst_BulkPruneAt s0 = 0"
  shows "cst_BulkPruneAt (bulk_run evs s0) \<noteq> 0 \<Longrightarrow>
    pending evs s0 (cst_BulkPruneAt (bulk_run evs s0)) (recorded_urls (bulk_run evs s0))"
proof (induction evs rule: rev_induct)
  case Nil
  then show ?case using assms by (simp add: bulk_run_def)
next
  case (snoc e evs)
  let ?s = "bulk_run evs s0"
  have run: "bulk_run (evs @ [e]) s0 = bulk_step e ?s" by (simp add: bulk_run_def)
  show ?case
  proof (cases e)
    case Withdraw
    then have "cst_BulkPruneAt (bulk_step e ?s) = 0" by (auto simp: clearBulkPrune_def)
    then show ?thesis using snoc.prems run by simp
  next
    case (Propose now us)
    consider (new) "cst_BulkPruneAt ?s = 0 \<or> now > cst_BulkPruneAt ?s + bulkPruneRecordTTL \<or>
         \<not> sameProposal (recorded_urls ?s) us"
      | (early) "\<not> (cst_BulkPruneAt ?s = 0 \<or> now > cst_BulkPruneAt ?s + bulkPruneRecordTTL \<or>
         \<not> sameProposal (recorded_urls ?s) us)" "now < cst_BulkPruneAt ?s + bulkPruneConfirmAfter"
      | (ok) "\<not> (cst_BulkPruneAt ?s = 0 \<or> now > cst_BulkPruneAt ?s + bulkPruneRecordTTL \<or>
         \<not> sameProposal (recorded_urls ?s) us)" "\<not> now < cst_BulkPruneAt ?s + bulkPruneConfirmAfter"
      by blast
    then show ?thesis
    proof cases
      case new
      have c: "confirmBulkPrune now us ?s =
          ((False, True), ?s\<lparr>cst_BulkPruneAt := now, cst_BulkPruneURLs := Clone us, cst_dirty := True\<rparr>)"
        unfolding confirmBulkPrune_def by (simp only: new if_True)
      have "pending (evs @ [e]) s0 now us"
        unfolding pending_def
        by (rule exI [of _ evs], rule exI [of _ "[]"]) (simp add: Propose allowed_def c)
      moreover have "cst_BulkPruneAt (bulk_step e ?s) = now" "recorded_urls (bulk_step e ?s) = us"
        by (simp_all add: Propose c)
      ultimately show ?thesis unfolding run by simp
    next
      case early
      have c: "confirmBulkPrune now us ?s = ((False, False), ?s)"
        unfolding confirmBulkPrune_def using early by (simp only: if_True if_False)
      have nz: "cst_BulkPruneAt ?s \<noteq> 0" using early by blast
      obtain pre post where evs: "evs = pre @ Propose (cst_BulkPruneAt ?s) (recorded_urls ?s) # post"
        and ref: "all_refused (Propose (cst_BulkPruneAt ?s) (recorded_urls ?s) # post) (bulk_run pre s0)"
        using snoc.IH [OF nz] unfolding pending_def by blast
      have s: "bulk_run (Propose (cst_BulkPruneAt ?s) (recorded_urls ?s) # post) (bulk_run pre s0) = ?s"
        using evs by (metis bulk_run_append)
      have "all_refused ((Propose (cst_BulkPruneAt ?s) (recorded_urls ?s) # post) @ [e]) (bulk_run pre s0)"
        unfolding all_refused_append s using ref by (simp add: Propose allowed_def c)
      then have "pending (evs @ [e]) s0 (cst_BulkPruneAt ?s) (recorded_urls ?s)"
        unfolding pending_def using evs by (intro exI [of _ pre] exI [of _ "post @ [e]"]) simp
      moreover have "bulk_step e ?s = ?s" by (simp add: Propose c)
      ultimately show ?thesis unfolding run by simp
    next
      case ok
      have c: "confirmBulkPrune now us ?s =
          ((True, True), ?s\<lparr>cst_BulkPruneAt := 0, cst_BulkPruneURLs := None, cst_dirty := True\<rparr>)"
        unfolding confirmBulkPrune_def using ok by (simp only: if_False)
      have "cst_BulkPruneAt (bulk_step e ?s) = 0" by (simp add: Propose c)
      then show ?thesis using snoc.prems run by simp
    qed
  qed
qed

lemma allowed_record:
  "allowed now us s \<longleftrightarrow> cst_BulkPruneAt s \<noteq> 0 \<and> cst_BulkPruneAt s + bulkPruneConfirmAfter \<le> now \<and>
     now \<le> cst_BulkPruneAt s + bulkPruneRecordTTL \<and> sameProposal (recorded_urls s) us"
  by (auto simp: allowed_def confirmBulkPrune_def)

lemma bulk_deletion_confirmed_aux:
  assumes "cst_BulkPruneAt s0 = 0" "allowed now us (bulk_run evs s0)"
  shows "\<exists>at us0. pending evs s0 at us0 \<and> at + 6 * state_hour \<le> now \<and> now \<le> at + 24 * state_hour \<and>
           sameProposal us0 us"
  using bulk_record_pending [OF assms(1), of evs] assms(2)
  by (auto simp: allowed_record bulkPruneConfirmAfter_def bulkPruneRecordTTL_def)


text \<open>Six hours of proposals close to the refused one leave its record as it is.\<close>

lemma bulk_record_frozen:
  assumes "cst_BulkPruneAt s = at" "at \<noteq> 0" "recorded_urls s = us"
    "list_all (\<lambda>e. case e of Propose t vs \<Rightarrow> t < at + 6 * state_hour \<and> sameProposal us vs | Withdraw \<Rightarrow> False) evs"
  shows "bulk_run evs s = s"
  using assms(4)
proof (induction evs)
  case (Cons e evs)
  then obtain t vs where e: "e = Propose t vs" and t: "t < at + 6 * state_hour" "sameProposal us vs"
    by (auto split: bulk_event.splits)
  have "\<not> t > at + 24 * state_hour" using t by (simp add: state_hour_def)
  then have "bulk_step e s = s"
    using t assms(1-3) by (simp add: e confirmBulkPrune_def bulkPruneRecordTTL_def bulkPruneConfirmAfter_def)
  then show ?case using Cons by (simp add: bulk_run_def)
qed (simp add: bulk_run_def)

lemma bulk_deletion_converges_aux:
  assumes "cst_BulkPruneAt s = 0" "at \<noteq> 0"
    "list_all (\<lambda>e. case e of Propose t vs \<Rightarrow> t < at + 6 * state_hour \<and> sameProposal us vs | Withdraw \<Rightarrow> False) evs"
    "at + 6 * state_hour \<le> now" "now \<le> at + 24 * state_hour" "sameProposal us us'"
  shows "allowed now us' (bulk_run (Propose at us # evs) s)"
proof -
  let ?s1 = "bulk_step (Propose at us) s"
  have s1: "cst_BulkPruneAt ?s1 = at" "recorded_urls ?s1 = us"
    using assms(1) by (simp_all add: confirmBulkPrune_def)
  have "bulk_run (Propose at us # evs) s = bulk_run evs ?s1" by (simp add: bulk_run_def)
  also have "\<dots> = ?s1" by (rule bulk_record_frozen [OF s1(1) assms(2) s1(2) assms(3)])
  finally show ?thesis
    using assms s1 by (simp add: allowed_record bulkPruneConfirmAfter_def bulkPruneRecordTTL_def)
qed

section \<open>Retirement\<close>

text \<open>The effect of one observation on one url.\<close>

definition age_one :: "bool \<Rightarrow> instant \<Rightarrow> managedState option \<Rightarrow> managedState" where
  "age_one live now prev =
     (if live then zero_managed\<lparr>mst_LastLiveAt := now\<rparr>
      else let m = (case prev of None \<Rightarrow> zero_managed | Some m \<Rightarrow> m);
               m = (if mst_NotLiveSince m = 0 then m\<lparr>mst_NotLiveSince := now\<rparr> else m)
           in m\<lparr>mst_NotLiveCycles := mst_NotLiveCycles m + 1\<rparr>)"

definition due :: "instant \<Rightarrow> managedState \<Rightarrow> bool" where
  "due now m \<longleftrightarrow> mst_NotLiveCycles m \<ge> staleRetireCycles \<and> mst_NotLiveSince m + staleRetireAfter \<le> now"

lemma age_urls_Managed:
  "distinct us \<Longrightarrow> map_of (cst_Managed (snd (age_urls live now us stale s))) u =
     (if u \<in> set us then Some (age_one (u \<in> set live) now (map_of (cst_Managed s) u))
      else map_of (cst_Managed s) u)"
proof (induction live now us stale s rule: age_urls.induct)
  case (2 live now v us stale s)
  show ?case
  proof (cases "v \<in> set live")
    case True
    then show ?thesis using 2 by (auto simp: Let_def age_one_def)
  next
    case False
    then show ?thesis using 2 by (auto simp: Let_def age_one_def read_or_def split: option.splits)
  qed
qed simp

lemma age_urls_stale:
  "distinct us \<Longrightarrow> set (fst (age_urls live now us stale s)) =
     set stale \<union> {u \<in> set us. u \<notin> set live \<and> due now (age_one False now (map_of (cst_Managed s) u))}"
proof (induction live now us stale s rule: age_urls.induct)
  case (2 live now v us stale s)
  show ?case
  proof (cases "v \<in> set live")
    case True
    then show ?thesis using 2 by (auto simp: Let_def)
  next
    case False
    have d: "(case map_of (cst_Managed s) v of None \<Rightarrow> zero_managed | Some m \<Rightarrow> m) =
        read_or zero_managed (cst_Managed s) v" by (simp add: read_or_def)
    show ?thesis using False 2
      by (auto simp: Let_def due_def age_one_def d not_less)
  qed
qed simp

text \<open>One observation: the managed urls of the cycle, those seen live, and when.\<close>

type_synonym observation = "string list \<times> string list \<times> instant"

definition observe_cycle :: "observation \<Rightarrow> crawl_state \<Rightarrow> crawl_state" where
  "observe_cycle ob s = snd (ageManaged (fst ob) (fst (snd ob)) (snd (snd ob)) s)"

definition retired :: "observation \<Rightarrow> crawl_state \<Rightarrow> string set" where
  "retired ob s = set (fst (ageManaged (fst ob) (fst (snd ob)) (snd (snd ob)) s))"

definition unlive :: "string \<Rightarrow> observation \<Rightarrow> bool" where
  "unlive u ob \<longleftrightarrow> u \<in> set (fst ob) \<and> u \<notin> set (fst (snd ob))"

text \<open>When a url was last seen not live without a break: the instants of the final streak.\<close>

definition streak :: "observation list \<Rightarrow> string \<Rightarrow> instant list" where
  "streak obs u = map (snd \<circ> snd) (rev (takeWhile (unlive u) (rev obs)))"

definition valid_obs :: "observation \<Rightarrow> bool" where
  "valid_obs ob \<longleftrightarrow> distinct (fst ob) \<and> snd (snd ob) > 0"

lemma streak_snoc:
  "streak (obs @ [ob]) u = (if unlive u ob then streak obs u @ [snd (snd ob)] else [])"
  by (simp add: streak_def)

lemma observe_Managed:
  assumes "valid_obs ob" "wf_map (cst_Managed s)"
  shows "map_of (cst_Managed (observe_cycle ob s)) u =
    (if u \<in> set (fst ob) then Some (age_one (u \<in> set (fst (snd ob))) (snd (snd ob)) (map_of (cst_Managed s) u))
     else None)"
proof -
  have d: "distinct (fst ob)" using assms by (simp add: valid_obs_def)
  show ?thesis
    by (auto simp: observe_cycle_def ageManaged_def Let_def age_urls_Managed [OF d] map_of_filter_key [OF assms(2)]
      split: option.splits)
qed

lemma age_urls_wf: "wf_map (cst_Managed s) \<Longrightarrow> wf_map (cst_Managed (snd (age_urls live now us stale s)))"
  by (induction live now us stale s rule: age_urls.induct) (auto simp: Let_def)

lemma observe_wf: "wf_map (cst_Managed s) \<Longrightarrow> wf_map (cst_Managed (observe_cycle ob s))"
  by (simp add: observe_cycle_def ageManaged_def Let_def age_urls_wf)

lemma observations_wf: "wf_map (cst_Managed s) \<Longrightarrow> wf_map (cst_Managed (fold observe_cycle obs s))"
  by (induction obs arbitrary: s) (auto simp: observe_wf)

text \<open>The record of a url counts its streak and is anchored at its first observation.\<close>

lemma record_is_streak:
  assumes "list_all valid_obs obs" "cst_Managed s0 = []"
  shows "case map_of (cst_Managed (fold observe_cycle obs s0)) u of
           None \<Rightarrow> streak obs u = []
         | Some m \<Rightarrow> mst_NotLiveCycles m = int (length (streak obs u)) \<and>
             mst_NotLiveSince m = (case streak obs u of [] \<Rightarrow> 0 | t # ts \<Rightarrow> t)"
  using assms(1)
proof (induction obs rule: rev_induct)
  case Nil
  then show ?case using assms(2) by (simp add: streak_def)
next
  case (snoc ob obs)
  let ?s = "fold observe_cycle obs s0"
  have wf: "wf_map (cst_Managed ?s)" by (rule observations_wf) (simp add: assms(2))
  have v: "valid_obs ob" and vs: "list_all valid_obs obs" using snoc.prems by auto
  have pos: "\<forall>t \<in> set (streak obs u). t > 0"
    using vs by (force simp: streak_def valid_obs_def list_all_iff dest: set_takeWhileD)
  note IH = snoc.IH [OF vs]
  show ?case
  proof (cases "u \<in> set (fst ob) \<and> u \<notin> set (fst (snd ob))")
    case False
    then show ?thesis
      by (auto simp: observe_Managed [OF v wf] streak_snoc unlive_def age_one_def zero_managed_def)
  next
    case True
    then have un: "unlive u ob" by (simp add: unlive_def)
    show ?thesis
    proof (cases "streak obs u")
      case Nil
      then show ?thesis
        using IH True v un
        by (auto simp: observe_Managed [OF v wf] streak_snoc age_one_def zero_managed_def Let_def valid_obs_def
          split: option.splits)
    next
      case (Cons t ts)
      then obtain m where m: "map_of (cst_Managed ?s) u = Some m" "mst_NotLiveCycles m = int (length (t # ts))"
          "mst_NotLiveSince m = t"
        using IH by (auto split: option.splits)
      have "t \<noteq> 0" using pos Cons by auto
      then show ?thesis
        using True m un Cons by (simp add: observe_Managed [OF v wf] streak_snoc age_one_def Let_def)
    qed
  qed
qed

lemma retired_exactly_aux:
  assumes "list_all valid_obs obs" "valid_obs ob" "cst_Managed s0 = []"
  shows "u \<in> retired ob (fold observe_cycle obs s0) \<longleftrightarrow>
    (let ts = streak (obs @ [ob]) u
     in length ts \<ge> 6 \<and> hd ts + 24 * state_hour \<le> snd (snd ob))"
proof -
  let ?s = "fold observe_cycle obs s0" and ?now = "snd (snd ob)"
  have wf: "wf_map (cst_Managed ?s)" by (rule observations_wf) (simp add: assms(3))
  have d: "distinct (fst ob)" using assms by (simp add: valid_obs_def)
  have ret: "u \<in> retired ob ?s \<longleftrightarrow> unlive u ob \<and> due ?now (age_one False ?now (map_of (cst_Managed ?s) u))"
    by (auto simp: retired_def ageManaged_def Let_def age_urls_stale [OF d] map_of_filter_key [OF wf] unlive_def
      split: option.splits)
  show ?thesis
  proof (cases "unlive u ob")
    case False
    then show ?thesis by (simp add: ret streak_snoc)
  next
    case True
    have "list_all valid_obs (obs @ [ob])" using assms by simp
    note rec = record_is_streak [OF this assms(3), of u]
    have m: "map_of (cst_Managed (fold observe_cycle (obs @ [ob]) s0)) u =
        Some (age_one False ?now (map_of (cst_Managed ?s) u))"
      using True by (simp add: observe_Managed [OF assms(2) wf] unlive_def)
    show ?thesis
      using rec True unfolding m ret
      by (cases "streak obs u") (auto simp: streak_snoc due_def Let_def staleRetireCycles_def staleRetireAfter_def)
  qed
qed


section \<open>The contracts\<close>

text \<open>
  C14: A bulk deletion is carried out only on a second proposal: some earlier cycle proposed a set
  of urls that agrees with the deleted one in four fifths of the larger, that proposal was refused,
  and so was every proposal between the two, no cycle withdrew it, and it lies at least six and at
  most twenty-four hours back.
\<close>

theorem bulk_deletion_needs_two_proposals:
  assumes "allowed now us (bulk_run evs empty_state)" "sorted_wrt (<) us"
    "list_all (\<lambda>e. case e of Propose t vs \<Rightarrow> sorted_wrt (<) vs | Withdraw \<Rightarrow> True) evs"
  shows "\<exists>at us0 pre post. evs = pre @ Propose at us0 # post \<and>
    all_refused (Propose at us0 # post) (bulk_run pre empty_state) \<and>
    at + 6 * state_hour \<le> now \<and> now \<le> at + 24 * state_hour \<and>
    80 * max (card (set us0)) (card (set us)) \<le> 100 * card (set us0 \<inter> set us)"
proof -
  have "cst_BulkPruneAt empty_state = 0" by (simp add: empty_state_def)
  from bulk_deletion_confirmed_aux [OF this assms(1)]
  obtain at us0 pre post where h: "evs = pre @ Propose at us0 # post"
      "all_refused (Propose at us0 # post) (bulk_run pre empty_state)"
      "at + 6 * state_hour \<le> now" "now \<le> at + 24 * state_hour" "sameProposal us0 us"
    unfolding pending_def by blast
  have "sorted_wrt (<) us0" using assms(3) h(1) by simp
  then have "80 * max (card (set us0)) (card (set us)) \<le> 100 * card (set us0 \<inter> set us)"
    using h(5) assms(2) by (simp add: sameProposal_card)
  then show ?thesis using h by blast
qed

lemma bulk_deletion_needs_two_proposals_witness:
  "allowed (1 + 6 * state_hour) [''u''] (bulk_run [Propose 1 [''u'']] empty_state) \<and>
   (\<exists>at us0 pre post. [Propose 1 [''u'']] = pre @ Propose at us0 # post \<and>
      all_refused (Propose at us0 # post) (bulk_run pre empty_state) \<and>
      at + 6 * state_hour \<le> 1 + 6 * state_hour \<and> 1 + 6 * state_hour \<le> at + 24 * state_hour \<and>
      80 * max (card (set us0)) (card (set [''u''])) \<le> 100 * card (set us0 \<inter> set [''u'']))"
proof -
  have h: "allowed (1 + 6 * state_hour) [''u''] (bulk_run [Propose 1 [''u'']] empty_state)"
    by (simp add: bulk_run_def allowed_def confirmBulkPrune_def empty_state_def bulkPruneConfirmAfter_def
      bulkPruneRecordTTL_def sameProposal_def recorded_urls_def Clone_def percentScale_def
      bulkPruneOverlap_def state_hour_def)
  show ?thesis using h bulk_deletion_needs_two_proposals [OF h] by simp
qed

text \<open>
  A genuine mass expiry converges: cycles that keep proposing sets close to the one first
  refused do not move its record, and the first proposal six hours after it is carried out.
\<close>

theorem bulk_deletion_converges:
  assumes "cst_BulkPruneAt s = 0" "at \<noteq> 0"
    "list_all (\<lambda>e. case e of Propose t vs \<Rightarrow> t < at + 6 * state_hour \<and> sameProposal us vs | Withdraw \<Rightarrow> False) evs"
    "at + 6 * state_hour \<le> now" "now \<le> at + 24 * state_hour" "sameProposal us us'"
  shows "allowed now us' (bulk_run (Propose at us # evs) s)"
  using assms by (rule bulk_deletion_converges_aux)

lemma bulk_deletion_converges_witness:
  "allowed (1 + 6 * state_hour) [''u''] (bulk_run [Propose 1 [''u''], Propose 2 [''u'']] empty_state)"
  by (rule bulk_deletion_converges [where at = 1])
    (simp_all add: empty_state_def state_hour_def sameProposal_def percentScale_def bulkPruneOverlap_def)

text \<open>
  C29: A managed source is condemned by a cycle exactly when its unbroken run of not-live cycles,
  this one included, is six or more long and began at least a day before. A live answer, or a cycle
  in which the source was not managed, breaks the run.
\<close>

theorem retired_exactly:
  assumes "list_all valid_obs obs" "valid_obs ob"
  shows "u \<in> retired ob (fold observe_cycle obs empty_state) \<longleftrightarrow>
    (let ts = streak (obs @ [ob]) u
     in length ts \<ge> 6 \<and> hd ts + 24 * state_hour \<le> snd (snd ob))"
  using assms by (rule retired_exactly_aux) (simp add: empty_state_def)

definition silent :: "instant \<Rightarrow> observation" where
  "silent t = ([''u''], [], t)"

lemma retired_exactly_witness:
  "''u'' \<in> retired (silent (6 + 24 * state_hour)) (fold observe_cycle (map silent [1, 2, 3, 4, 5]) empty_state) \<and>
   ''u'' \<notin> retired (silent (6 + 24 * state_hour)) (fold observe_cycle (map silent [2, 3, 4, 5]) empty_state)"
proof -
  have v: "list_all valid_obs (map silent [1, 2, 3, 4, 5])" "list_all valid_obs (map silent [2, 3, 4, 5])"
    "valid_obs (silent (6 + 24 * state_hour))"
    by (simp_all add: valid_obs_def silent_def state_hour_def)
  show ?thesis
    using retired_exactly [OF v(1,3), of "''u''"] retired_exactly [OF v(2,3), of "''u''"]
    by (simp add: streak_def silent_def unlive_def Let_def)
qed

end
