(* ===== verification/CrawlMemory.thy ===== *)
theory CrawlMemory
  imports CrawlState
begin

text \<open>
  More of what \<open>CrawlState\<close> promises: a probation counts the lists the service published, not the
  readings of them; the caps keep the newest keys whatever order a map was ranged in; a state that is
  not \<open>dirty\<close> is the one that was loaded; and a file that could not be read is never written.
\<close>

section \<open>Probation counts published lists\<close>

text \<open>The readings of one source that the service's clock advanced on.\<close>

fun advancing :: "64 word \<Rightarrow> (int \<times> 64 word) list \<Rightarrow> (int \<times> 64 word) list" where
  "advancing clock [] = []"
| "advancing clock (r # rs) = (if snd r \<le> clock then advancing clock rs else r # advancing (snd r) rs)"

definition clock_after :: "(int \<times> 64 word) list \<Rightarrow> 64 word" where
  "clock_after rs = foldl max 0 (map snd rs)"

definition barren_run :: "(int \<times> 64 word) list \<Rightarrow> nat" where
  "barren_run rs = length (takeWhile (\<lambda>r. fst r \<le> 0) (rev rs))"

lemma advancing_append:
  "advancing c (rs @ rs') = advancing c rs @ advancing (foldl max c (map snd rs)) rs'"
proof (induction rs arbitrary: c)
  case (Cons r rs)
  show ?case
  proof (cases "snd r \<le> c")
    case True
    then show ?thesis using Cons by (simp add: max.absorb1)
  next
    case False
    then have "max c (snd r) = snd r" by (simp add: max.absorb2)
    then show ?thesis using Cons False by simp
  qed
qed simp

lemma advancing_snoc:
  "advancing 0 (rs @ [r]) = (if snd r \<le> clock_after rs then advancing 0 rs else advancing 0 rs @ [r])"
  by (simp add: advancing_append clock_after_def)

lemma barren_run_snoc: "barren_run (rs @ [r]) = (if fst r \<le> 0 then Suc (barren_run rs) else 0)"
  by (simp add: barren_run_def)

lemma advancing_Nil_clock: "advancing c rs = [] \<Longrightarrow> foldl max c (map snd rs) = c"
  by (induction rs arbitrary: c) (auto simp: max_def split: if_splits)

definition fold_readings :: "string \<Rightarrow> ((int \<times> 64 word) \<times> instant) list \<Rightarrow> crawl_state \<Rightarrow> crawl_state" where
  "fold_readings name rs s = fold (\<lambda>r s. snd (foldOutcome name (fst (fst r)) (snd (fst r)) (snd r) s)) rs s"

lemma probation_record:
  assumes "map_of (cst_Probation s0) name = None"
  shows "let adv = advancing 0 (map fst rs) in
         case map_of (cst_Probation (fold_readings name rs s0)) name of
           None \<Rightarrow> adv = []
         | Some e \<Rightarrow> adv \<noteq> [] \<and> pbs_Published e = clock_after (map fst rs) \<and>
             pbs_Barren e = int (barren_run adv)"
proof (induction rs rule: rev_induct)
  case Nil
  then show ?case using assms by (simp add: fold_readings_def)
next
  case (snoc r rs)
  obtain sv pub now where r: "r = ((sv, pub), now)" by (metis prod.exhaust)
  let ?s = "fold_readings name rs s0" and ?adv = "advancing 0 (map fst rs)"
  have run: "fold_readings name (rs @ [r]) s0 = snd (foldOutcome name sv pub now ?s)"
    by (simp add: fold_readings_def r)
  have mf: "map fst (rs @ [r]) = map fst rs @ [(sv, pub)]" by (simp add: r)
  have clock: "clock_after (map fst rs @ [(sv, pub)]) = max (clock_after (map fst rs)) pub"
    by (simp add: clock_after_def)
  have adv: "advancing 0 (map fst rs @ [(sv, pub)]) =
      (if pub \<le> clock_after (map fst rs) then ?adv else ?adv @ [(sv, pub)])"
    by (simp add: advancing_snoc)
  show ?case
  proof (cases "map_of (cst_Probation ?s) name")
    case None
    then have e: "?adv = []" using snoc.IH by (simp add: Let_def)
    then have c0: "clock_after (map fst rs) = 0"
      unfolding clock_after_def by (rule advancing_Nil_clock)
    show ?thesis
    proof (cases "pub = 0")
      case True
      then have "foldOutcome name sv pub now ?s = (0, ?s)"
        using None by (simp add: foldOutcome_def Let_def)
      then show ?thesis using None e True unfolding run mf adv clock c0 by (simp add: Let_def)
    next
      case False
      then have "\<not> pub \<le> 0" by simp
      then show ?thesis using None False e unfolding run mf adv clock c0
        by (simp add: foldOutcome_def Let_def zero_probation_def barren_run_def max_def)
    qed
  next
    case (Some e)
    then have h: "?adv \<noteq> []" "pbs_Published e = clock_after (map fst rs)" "pbs_Barren e = int (barren_run ?adv)"
      using snoc.IH by (simp_all add: Let_def)
    show ?thesis
    proof (cases "pub \<le> clock_after (map fst rs)")
      case True
      then have "foldOutcome name sv pub now ?s = (pbs_Barren e, ?s)"
        using Some h by (simp add: foldOutcome_def Let_def)
      then show ?thesis using Some h True unfolding run mf adv clock by (simp add: Let_def max.absorb1)
    next
      case False
      then have "max (clock_after (map fst rs)) pub = pub" by (simp add: max.absorb2)
      then show ?thesis using False Some h unfolding run mf adv clock
        by (simp add: foldOutcome_def Let_def barren_run_snoc)
    qed
  qed
qed

lemma probation_counts_aux:
  "fst (foldOutcome name sv pub now (fold_readings name rs empty_state)) =
     int (barren_run (advancing 0 (map fst rs @ [(sv, pub)])))"
proof -
  have n: "map_of (cst_Probation empty_state) name = None" by (simp add: empty_state_def)
  let ?s = "fold_readings name rs empty_state"
  have snd: "snd (foldOutcome name sv pub now ?s) = fold_readings name (rs @ [((sv, pub), now)]) empty_state"
    by (simp add: fold_readings_def)
  note rec = probation_record [OF n, of "rs @ [((sv, pub), now)]", folded snd]
  show ?thesis
  proof (cases "map_of (cst_Probation (snd (foldOutcome name sv pub now ?s))) name")
    case None
    then have "advancing 0 (map fst rs @ [(sv, pub)]) = []" using rec by (simp add: Let_def)
    moreover have "fst (foldOutcome name sv pub now ?s) = 0"
      using None by (auto simp: foldOutcome_def Let_def split: option.splits if_splits)
    ultimately show ?thesis by (simp add: barren_run_def)
  next
    case (Some e)
    then have "pbs_Barren e = int (barren_run (advancing 0 (map fst rs @ [(sv, pub)])))"
      using rec by (simp add: Let_def)
    moreover have "fst (foldOutcome name sv pub now ?s) = pbs_Barren e"
      using Some by (auto simp: foldOutcome_def Let_def split: option.splits if_splits)
    ultimately show ?thesis by simp
  qed
qed

section \<open>The caps\<close>

text \<open>A key is kept by a cap exactly when fewer than \<open>n\<close> keys come before it.\<close>

lemma take_sorted_rank:
  fixes f :: "'a \<Rightarrow> 'o::linorder"
  assumes "sorted (map f ys)" "distinct ys" "inj_on f (set ys)" "k \<in> set ys"
  shows "k \<in> set (take n ys) \<longleftrightarrow> card {x \<in> set ys. f x < f k} < n"
proof -
  obtain i where i: "i < length ys" "ys ! i = k" using assms(4) by (metis in_set_conv_nth)
  have lt: "f (ys ! a) < f (ys ! b)" if "a < b" "b < length ys" for a b
  proof -
    have "f (ys ! a) \<le> f (ys ! b)"
      using sorted_nth_mono [OF assms(1), of a b] that by simp
    moreover have "ys ! a \<noteq> ys ! b" using assms(2) that by (simp add: nth_eq_iff_index_eq)
    then have "f (ys ! a) \<noteq> f (ys ! b)" using assms(3) that by (auto dest: inj_onD)
    ultimately show ?thesis by simp
  qed
  have "{x \<in> set ys. f x < f k} = set (take i ys)"
  proof (intro set_eqI iffI)
    fix x assume "x \<in> {x \<in> set ys. f x < f k}"
    then obtain j where j: "j < length ys" "ys ! j = x" "f (ys ! j) < f (ys ! i)"
      using i by (auto simp: in_set_conv_nth)
    then have "j < i" using lt [of i j] by (cases i j rule: linorder_cases) auto
    then show "x \<in> set (take i ys)" using j i by (auto simp: in_set_conv_nth)
  next
    fix x assume "x \<in> set (take i ys)"
    then obtain j where "j < i" "ys ! j = x" using i by (auto simp: in_set_conv_nth)
    then show "x \<in> {x \<in> set ys. f x < f k}" using lt [of j i] i by auto
  qed
  moreover have "card (set (take i ys)) = i" using assms(2) i by (simp add: distinct_card)
  moreover have "k \<in> set (take n ys) \<longleftrightarrow> i < n"
  proof
    assume "k \<in> set (take n ys)"
    then obtain j where "j < n" "j < length ys" "ys ! j = k" by (auto simp: in_set_conv_nth)
    then show "i < n" using i assms(2) nth_eq_iff_index_eq by metis
  next
    assume "i < n"
    then show "k \<in> set (take n ys)" using i by (auto simp: in_set_conv_nth)
  qed
  ultimately show ?thesis by simp
qed

lemma newest_inj: "inj_on (newest at z m) A"
  by (auto simp: newest_def inj_on_def)

text \<open>How many keys of \<open>m\<close> are newer than \<open>k\<close>, the key order breaking ties.\<close>

definition rank :: "('v \<Rightarrow> instant) \<Rightarrow> 'v \<Rightarrow> (string, 'v) gomap \<Rightarrow> string \<Rightarrow> nat" where
  "rank at z m k = card {k' \<in> set (keys m). newest at z m k' < newest at z m k}"

lemma keep_first_rank:
  assumes "wf_map m"
  shows "map_of (keep_first n (newest at z m) m) k =
    (case map_of m k of None \<Rightarrow> None | Some v \<Rightarrow> if rank at z m k < n then Some v else None)"
proof (cases "map_of m k")
  case None
  then show ?thesis by (simp add: keep_first_lookup [OF assms])
next
  case (Some v)
  then have k: "k \<in> set (sort_key (newest at z m) (keys m))" by (simp add: set_keys_iff)
  have d: "distinct (sort_key (newest at z m) (keys m))" using assms by (simp add: wf_map_def)
  have s: "sorted (map (newest at z m) (sort_key (newest at z m) (keys m)))" by simp
  show ?thesis
    using take_sorted_rank [OF s d newest_inj k, of n] Some
    by (simp add: keep_first_lookup [OF assms] rank_def)
qed

lemma cap_rank:
  assumes "wf_map m"
  shows "map_of (if length m \<le> n then m else keep_first n (newest at z m) m) k =
    (case map_of m k of None \<Rightarrow> None | Some v \<Rightarrow> if rank at z m k < n then Some v else None)"
proof (cases "length m \<le> n")
  case False
  then show ?thesis by (simp add: keep_first_rank [OF assms])
next
  case True
  have "rank at z m k < n" if "k \<in> set (keys m)"
  proof -
    have "{k' \<in> set (keys m). newest at z m k' < newest at z m k} \<subset> set (keys m)" using that by auto
    then have "rank at z m k < card (set (keys m))" unfolding rank_def by (rule psubset_card_mono [rotated]) simp
    also have "\<dots> = length m" using assms by (simp add: distinct_card wf_map_def)
    finally show ?thesis using True by simp
  qed
  then show ?thesis using True by (auto simp: set_keys_iff split: option.splits)
qed

lemma prune_others_Productive [simp]:
  "cst_Productive (pruneGitHubRepos cutoff s) = cst_Productive s"
  "cst_Productive (prune_ladders cutoff s) = cst_Productive s"
  by (simp_all add: pruneGitHubRepos_def prune_ladders_def Let_def)

lemma prune_Productive:
  "cst_Productive (prune cutoff s) =
     (let live = filter (\<lambda>e. \<not> chs_LastSubAt (snd e) < cutoff) (cst_Productive s)
      in if length live \<le> maxProductive then live
         else keep_first maxProductive (newest chs_LastSubAt zero_channel live) live)"
  unfolding prune_def Let_def prune_others_Productive
  by (simp split: if_split)

text \<open>The entries an entry stands behind: those productive later, or at the same time under a smaller key.\<close>

definition ahead_of :: "('v \<Rightarrow> instant) \<Rightarrow> (string, 'v) gomap \<Rightarrow> string \<Rightarrow> 'v \<Rightarrow> (string \<times> 'v) set" where
  "ahead_of at m k e = {(k', e') \<in> set m. at e < at e' \<or> at e' = at e \<and> k' < k}"

lemma rank_ahead:
  assumes "wf_map m" "map_of m k = Some e"
  shows "rank at z m k = card (ahead_of at m k e)"
proof -
  have v: "map_of m k' = Some e'" if "(k', e') \<in> set m" for k' e'
    using that assms(1) by (simp add: wf_map_def keys_def)
  then have r: "read_or z m k' = e'" if "(k', e') \<in> set m" for k' e' using that by (simp add: read_or_def)
  have e: "read_or z m k = e" using assms(2) by (simp add: read_or_def)
  have "{k' \<in> set (keys m). newest at z m k' < newest at z m k} = fst ` ahead_of at m k e"
    using r by (force simp: newest_def e keys_def ahead_of_def less_prod_def)
  moreover have "inj_on fst (ahead_of at m k e)"
  proof (rule inj_onI)
    fix x y assume x: "x \<in> ahead_of at m k e" and y: "y \<in> ahead_of at m k e" and "fst x = fst y"
    moreover have "map_of m (fst x) = Some (snd x)" "map_of m (fst y) = Some (snd y)"
      using v x y by (auto simp: ahead_of_def)
    ultimately show "x = y" by (simp add: prod_eq_iff)
  qed
  ultimately show ?thesis by (simp add: rank_def card_image)
qed

lemma filter_wf_lookup:
  assumes "wf_map m"
  shows "map_of (filter (\<lambda>e. P (snd e)) m) k = (case map_of m k of None \<Rightarrow> None | Some e \<Rightarrow> if P e then Some e else None)"
proof (cases "map_of m k")
  case None
  then have "k \<notin> fst ` set m" by (simp add: map_of_eq_None_iff)
  then have "k \<notin> fst ` set (filter (\<lambda>e. P (snd e)) m)" by auto
  then have "map_of (filter (\<lambda>e. P (snd e)) m) k = None" by (simp only: map_of_eq_None_iff not_False_eq_True)
  then show ?thesis using None by simp
next
  case (Some e)
  have d: "distinct (map fst (filter (\<lambda>e. P (snd e)) m))"
    using wf_map_filter [OF assms, of "\<lambda>e. P (snd e)"] by (simp add: wf_map_def keys_def)
  show ?thesis
  proof (cases "P e")
    case True
    then have "(k, e) \<in> set (filter (\<lambda>e. P (snd e)) m)" using Some by (simp add: map_of_SomeD)
    then show ?thesis using d Some True by (simp add: map_of_eq_Some_iff)
  next
    case False
    have "(k, e') \<notin> set (filter (\<lambda>e. P (snd e)) m)" for e'
    proof
      assume "(k, e') \<in> set (filter (\<lambda>e. P (snd e)) m)"
      then have "map_of m k = Some e'" "P e'" using assms by (simp_all add: wf_map_def keys_def)
      then show False using Some False by simp
    qed
    then have "map_of (filter (\<lambda>e. P (snd e)) m) k = None" by (metis map_of_SomeD not_None_eq)
    then show ?thesis using Some False by simp
  qed
qed

lemma cap_fresh:
  fixes at :: "'v \<Rightarrow> instant"
  defines "fresh cutoff m \<equiv> filter (\<lambda>e. \<not> at (snd e) < cutoff) m"
  assumes "wf_map m"
  shows "map_of (if length (fresh cutoff m) \<le> n then fresh cutoff m
                 else keep_first n (newest at z (fresh cutoff m)) (fresh cutoff m)) k =
    (case map_of m k of
       None \<Rightarrow> None
     | Some e \<Rightarrow> if cutoff \<le> at e \<and> card (ahead_of at m k e) < n then Some e else None)"
proof -
  have wf: "wf_map (fresh cutoff m)" unfolding fresh_def by (rule wf_map_filter [OF assms(2)])
  have l: "map_of (fresh cutoff m) k = (case map_of m k of None \<Rightarrow> None | Some e \<Rightarrow> if cutoff \<le> at e then Some e else None)"
    using filter_wf_lookup [OF assms(2), of "\<lambda>e. \<not> at e < cutoff" k] by (simp add: fresh_def not_less split: option.splits)
  show ?thesis
  proof (cases "map_of (fresh cutoff m) k")
    case None
    then show ?thesis using l unfolding cap_rank [OF wf] by (auto split: option.splits if_splits)
  next
    case (Some e)
    then have e: "map_of m k = Some e" "cutoff \<le> at e" using l by (auto split: option.splits if_splits)
    have "ahead_of at (fresh cutoff m) k e = ahead_of at m k e"
      using e(2) by (auto simp: ahead_of_def fresh_def)
    then show ?thesis unfolding cap_rank [OF wf] using Some e rank_ahead [OF wf Some, of at z] by simp
  qed
qed

lemma pruned_Repos:
  "cst_Repos (prune cutoff s) =
     (let repos = filter (\<lambda>e. \<not> rps_LastFileAt (snd e) < cutoff) (cst_Repos s)
      in if length repos \<le> maxProductiveRepos then repos
         else keep_first maxProductiveRepos (newest rps_LastFileAt zero_repo repos) repos)"
  by (simp add: prune_def prune_ladders_def pruneGitHubRepos_def Let_def not_le [symmetric] split: if_split)

lemma prune_length: "wf_map (cst_Productive s) \<Longrightarrow> length (cst_Productive (prune cutoff s)) \<le> 200"
  by (simp add: prune_Productive Let_def maxProductive_def keep_first_length)


section \<open>The dirty flag and the state file\<close>

text \<open>The mutating methods, as the cycle calls them.\<close>

datatype state_op =
    RecordChannel string instant
  | RecordRepo string instant
  | RecordCursor int int
  | PruneOld instant
  | FoldReading "string list" outcomeReading int instant
  | ForgetProbation "string list"
  | PruneProbation "string list"
  | RecordDead "string list" int instant
  | PruneDead instant
  | ClearDead "string list"
  | AgeManaged "string list" "string list" instant
  | ConfirmBulk instant "string list"
  | ClearBulk

fun run_op :: "state_op \<Rightarrow> crawl_state \<Rightarrow> crawl_state" where
  "run_op (RecordChannel ch now) s = record_channel ch now s"
| "run_op (RecordRepo repo now) s = recordGitHubRepo repo now s"
| "run_op (RecordCursor code repo) s = recordGitHubCursor code repo s"
| "run_op (PruneOld cutoff) s = prune cutoff s"
| "run_op (FoldReading names reading window now) s = snd (foldReading names reading window now s)"
| "run_op (ForgetProbation names) s = forgetProbation names s"
| "run_op (PruneProbation known) s = pruneProbation known s"
| "run_op (RecordDead urls ttl now) s = snd (recordDead urls ttl now s)"
| "run_op (PruneDead now) s = snd (pruneDead now s)"
| "run_op (ClearDead live) s = snd (clearDead live s)"
| "run_op (AgeManaged managed live now) s = snd (ageManaged managed live now s)"
| "run_op (ConfirmBulk now urls) s = snd (confirmBulkPrune now urls s)"
| "run_op ClearBulk s = snd (clearBulkPrune s)"

lemma mark_clean: "\<not> cst_dirty (mark b s) \<Longrightarrow> mark b s = s \<and> \<not> b \<and> \<not> cst_dirty s"
  by (simp add: mark_def split: if_splits)

lemma filter_length_id: "length (filter P xs) = length xs \<Longrightarrow> filter P xs = xs"
  by (metis length_filter_less less_irrefl filter_id_conv)

lemma clean_pruneGitHubRepos:
  "\<not> cst_dirty (pruneGitHubRepos c s) \<Longrightarrow> pruneGitHubRepos c s = s \<and> \<not> cst_dirty s"
proof -
  assume a: "\<not> cst_dirty (pruneGitHubRepos c s)"
  let ?r = "filter (\<lambda>e. \<not> rps_LastFileAt (snd e) < c) (cst_Repos s)"
  have le: "length ?r \<le> length (cst_Repos s)" by simp
  show ?thesis
  proof (cases "length ?r > maxProductiveRepos")
    case True
    have "length (keep_first maxProductiveRepos (newest rps_LastFileAt zero_repo ?r) ?r) < length ?r"
    proof -
      let ?ks = "sort_key (newest rps_LastFileAt zero_repo ?r) (keys ?r)"
      have "drop maxProductiveRepos ?ks \<noteq> []" using True by simp
      then have "hd (drop maxProductiveRepos ?ks) \<in> set (drop maxProductiveRepos ?ks)" by (rule list.set_sel(1))
      then obtain k where k: "k \<in> set (drop maxProductiveRepos ?ks)" by blast
      then have "k \<in> set (keys ?r)" by (metis in_set_dropD set_sort)
      then obtain e where "e \<in> set ?r" "fst e = k" unfolding keys_def by auto
      then show ?thesis
        unfolding keep_first_def fold_del using k by (intro length_filter_less [of e]) auto
    qed
    then show ?thesis using a True le by (auto simp: pruneGitHubRepos_def Let_def mark_def split: if_splits)
  next
    case False
    have e: "length ?r = length (cst_Repos s)" and d: "\<not> cst_dirty s"
      using a False by (auto simp: pruneGitHubRepos_def Let_def mark_def split: if_splits)
    have "?r = cst_Repos s" using e by (rule filter_length_id)
    then show ?thesis using False d by (simp add: pruneGitHubRepos_def Let_def mark_def)
  qed
qed

lemma clean_prune_ladders: "\<not> cst_dirty (prune_ladders c s) \<Longrightarrow> prune_ladders c s = s \<and> \<not> cst_dirty s"
  by (auto simp: prune_ladders_def Let_def mark_def filter_length_id split: if_splits)

lemma clean_prune: "\<not> cst_dirty (prune c s) \<Longrightarrow> prune c s = s"
proof -
  assume a: "\<not> cst_dirty (prune c s)"
  let ?s = "prune_ladders c (pruneGitHubRepos c s)"
  let ?l = "filter (\<lambda>e. \<not> chs_LastSubAt (snd e) < c) (cst_Productive ?s)"
  have len: "length ?l \<le> maxProductive" using a by (auto simp: prune_def Let_def split: if_splits)
  have p: "prune c s = mark (length ?l \<noteq> length (cst_Productive ?s)) (?s\<lparr>cst_Productive := ?l\<rparr>)"
    unfolding prune_def Let_def using len by (simp only: if_True)
  have m: "length ?l = length (cst_Productive ?s)" "\<not> cst_dirty ?s"
    using mark_clean [OF a [unfolded p]] by simp_all
  have "?s = s" using clean_prune_ladders [OF m(2)] clean_pruneGitHubRepos by metis
  moreover have "?l = cst_Productive ?s" using m(1) by (rule filter_length_id)
  ultimately show ?thesis unfolding p by (simp add: mark_def)
qed

lemma foldOutcome_clean:
  "foldOutcome name sv pub now s = (b, s') \<Longrightarrow> s' = s \<or> cst_dirty s'"
  by (auto simp: foldOutcome_def Let_def split: option.splits if_splits)

lemma foldOutcome_dirty: "foldOutcome name sv pub now s = (b, s') \<Longrightarrow> cst_dirty s \<Longrightarrow> cst_dirty s'"
  by (auto simp: foldOutcome_def Let_def split: option.splits if_splits)

lemma fold_names_clean:
  "(cst_dirty s \<longrightarrow> cst_dirty (snd (fold_names r w now ns d s))) \<and>
   (\<not> cst_dirty (snd (fold_names r w now ns d s)) \<longrightarrow> snd (fold_names r w now ns d s) = s)"
proof (induction r w now ns d s rule: fold_names.induct)
  case (2 r w now n ns d s)
  show ?case
  proof (cases "map_of (ord_Sources r) n")
    case None
    then show ?thesis using 2 by simp
  next
    case (Some oc)
    obtain b s' where f: "foldOutcome n (sou_Survivors oc) (ord_Published r) now s = (b, s')" by force
    then show ?thesis
      using 2(2,3) [OF Some refl f [symmetric] refl refl] foldOutcome_clean [OF f] foldOutcome_dirty [OF f]
      by (auto simp: Some f Let_def)
  qed
qed simp

lemma stamp_fold_clean:
  "\<not> fst (fold (stamp_dead t) us (False, d)) \<Longrightarrow> fold (stamp_dead t) us (False, d) = (False, d)"
proof -
  have keep: "fst (fold (stamp_dead t) us (True, d))" for d :: "(string, instant) gomap" and us
    by (induction us arbitrary: d) (auto simp: stamp_dead_def)
  show "\<not> fst (fold (stamp_dead t) us (False, d)) \<Longrightarrow> fold (stamp_dead t) us (False, d) = (False, d)"
    by (induction us) (auto simp: stamp_dead_def keep)
qed

lemma clean_recordDead: "\<not> cst_dirty (snd (recordDead us ttl now s)) \<Longrightarrow> snd (recordDead us ttl now s) = s"
proof (cases "ttl \<le> 0")
  case False
  assume a: "\<not> cst_dirty (snd (recordDead us ttl now s))"
  obtain st d where f: "fold (stamp_dead (now + ttl)) us (False, cst_Dead s) = (st, d)" by force
  have st: "\<not> st" and cap: "\<not> fst (capDead (s\<lparr>cst_Dead := d\<rparr>))"
    using a False by (auto simp: recordDead_def f Let_def mark_def split: prod.splits if_splits)
  have "d = cst_Dead s" using stamp_fold_clean [of "now + ttl" us "cst_Dead s"] st f by simp
  then show ?thesis
    using False st cap by (simp add: recordDead_def f Let_def mark_def capDead_def split: if_splits)
qed (simp add: recordDead_def)

lemma fold_del_id: "\<not> list_ex (\<lambda>u. map_of m u \<noteq> None) us \<Longrightarrow> fold del us m = m"
  unfolding fold_del filter_id_conv
  by (auto simp: list_ex_iff map_of_eq_None_iff)

text \<open>
  A liveness fold may leave the flag alone on a url it already saw live at this very instant. The
  cycle's clock is past every such record, as each fold stamps its own instant.
\<close>

definition clock_advanced :: "state_op \<Rightarrow> crawl_state \<Rightarrow> bool" where
  "clock_advanced op s =
     (case op of
        AgeManaged managed live now \<Rightarrow>
          distinct managed \<and> list_all (\<lambda>e. mst_LastLiveAt (snd e) < now) (cst_Managed s)
      | _ \<Rightarrow> True)"

lemma age_urls_dirty: "cst_dirty s \<Longrightarrow> cst_dirty (snd (age_urls live now us st s))"
  by (induction live now us st s rule: age_urls.induct) (auto simp: Let_def)

lemma clean_ageManaged:
  assumes "list_all (\<lambda>e. mst_LastLiveAt (snd e) < now) (cst_Managed s)"
    "\<not> cst_dirty (snd (ageManaged managed live now s))"
  shows "snd (ageManaged managed live now s) = s"
proof -
  let ?k = "filter (\<lambda>e. fst e \<in> set managed) (cst_Managed s)"
  let ?s = "mark (length ?k \<noteq> length (cst_Managed s)) (s\<lparr>cst_Managed := ?k\<rparr>)"
  have run: "snd (ageManaged managed live now s) = snd (age_urls live now managed [] ?s)"
    by (simp add: ageManaged_def Let_def)
  show ?thesis
  proof (cases managed)
    case Nil
    have "\<not> cst_dirty ?s" using assms(2) run by (simp add: Nil)
    then have "?s = s\<lparr>cst_Managed := ?k\<rparr>" "length ?k = length (cst_Managed s)"
      using mark_clean [of "length ?k \<noteq> length (cst_Managed s)" "s\<lparr>cst_Managed := ?k\<rparr>"] by simp_all
    then have "?s = s" using filter_length_id [of "\<lambda>e. fst e \<in> set managed" "cst_Managed s"] by simp
    moreover have "snd (age_urls live now managed [] ?s) = ?s" by (simp only: Nil age_urls.simps snd_conv)
    ultimately show ?thesis using run by (simp only:)
  next
    case (Cons u us)
    have old: "mst_LastLiveAt m < now" if "map_of (cst_Managed ?s) u = Some m" for m
    proof -
      have "(u, m) \<in> set ?k" using map_of_SomeD [OF that] by simp
      then have "(u, m) \<in> set (cst_Managed s)" by simp
      then show ?thesis using assms(1) unfolding list_all_iff by (metis snd_conv)
    qed
    have "cst_dirty (snd (age_urls live now managed [] ?s))"
    proof (cases "u \<in> set live")
      case True
      have "(case map_of (cst_Managed ?s) u of None \<Rightarrow> True | Some m \<Rightarrow> mst_LastLiveAt m \<noteq> now)"
        using old by (force split: option.splits)
      then show ?thesis using True by (simp add: Cons Let_def age_urls_dirty)
    next
      case False
      then show ?thesis by (simp add: Cons Let_def age_urls_dirty)
    qed
    then show ?thesis using assms(2) run by simp
  qed
qed

lemma clean_op_is_identity:
  "clock_advanced op s \<Longrightarrow> \<not> cst_dirty (run_op op s) \<Longrightarrow> run_op op s = s"
proof (cases op)
  case (FoldReading names reading window now)
  assume "\<not> cst_dirty (run_op op s)"
  then show ?thesis
    using fold_names_clean [of s reading window now names "[]"]
    by (simp add: FoldReading foldReading_def split: prod.splits)
next
  case (ForgetProbation names)
  assume a: "\<not> cst_dirty (run_op op s)"
  then have "\<not> list_ex (\<lambda>n. map_of (cst_Probation s) n \<noteq> None) names"
    by (simp add: ForgetProbation forgetProbation_def)
  then show ?thesis using fold_del_id [of "cst_Probation s" names]
    by (simp add: ForgetProbation forgetProbation_def mark_def)
next
  case (ClearDead live)
  assume a: "\<not> cst_dirty (run_op op s)"
  then have "\<not> list_ex (\<lambda>n. map_of (cst_Dead s) n \<noteq> None) live"
    by (simp add: ClearDead clearDead_def Let_def)
  then show ?thesis using fold_del_id [of "cst_Dead s" live]
    by (simp add: ClearDead clearDead_def mark_def Let_def)
next
  case (AgeManaged managed live now)
  assume "clock_advanced op s" "\<not> cst_dirty (run_op op s)"
  then show ?thesis using clean_ageManaged by (simp add: AgeManaged clock_advanced_def)
next
  case (PruneProbation known)
  assume "\<not> cst_dirty (run_op op s)"
  then show ?thesis using filter_length_id [of "\<lambda>e. fst e \<in> set known" "cst_Probation s"]
    by (auto simp: PruneProbation pruneProbation_def Let_def mark_def split: if_splits)
next
  case (PruneDead now)
  assume "\<not> cst_dirty (run_op op s)"
  then show ?thesis using filter_length_id [of "\<lambda>e. snd e > now" "cst_Dead s"]
    by (auto simp: PruneDead pruneDead_def Let_def mark_def split: if_splits)
qed (simp_all add: record_channel_def recordGitHubRepo_def recordGitHubCursor_def Let_def clean_prune
  clean_recordDead confirmBulkPrune_def clearBulkPrune_def split: if_splits)


lemma run_op_loadFailed_prune [simp]:
  "cst_loadFailed (prune c s) = cst_loadFailed s"
  by (simp add: prune_def prune_ladders_def pruneGitHubRepos_def Let_def)

lemma fold_names_loadFailed: "cst_loadFailed (snd (fold_names r w now ns d s)) = cst_loadFailed s"
proof (induction r w now ns d s rule: fold_names.induct)
  case (2 r w now n ns d s)
  have "cst_loadFailed (snd (foldOutcome a b c t s)) = cst_loadFailed s" for a b c t
    by (auto simp: foldOutcome_def Let_def split: option.splits if_splits)
  then show ?case using 2
    by (auto simp: Let_def split: option.splits prod.splits) (metis snd_conv)+
qed simp

lemma age_urls_loadFailed: "cst_loadFailed (snd (age_urls live now us st s)) = cst_loadFailed s"
  by (induction live now us st s rule: age_urls.induct) (auto simp: Let_def)

lemma run_op_loadFailed: "cst_loadFailed (run_op op s) = cst_loadFailed s"
proof (cases op)
  case (FoldReading names reading window now)
  obtain vs s' where f: "fold_names reading window now names [] s = (vs, s')" by force
  then show ?thesis using fold_names_loadFailed [of reading window now names "[]" s]
    by (simp add: FoldReading foldReading_def)
next
  case (RecordDead us ttl now)
  then show ?thesis by (auto simp: recordDead_def capDead_def Let_def split: prod.splits)
qed (simp_all add: record_channel_def recordGitHubRepo_def recordGitHubCursor_def forgetProbation_def
  pruneProbation_def pruneDead_def clearDead_def ageManaged_def age_urls_loadFailed confirmBulkPrune_def
  clearBulkPrune_def Let_def)

lemma run_ops_loadFailed: "cst_loadFailed (fold run_op ops s) = cst_loadFailed s"
  by (induction ops arbitrary: s) (simp_all add: run_op_loadFailed)


section \<open>The contracts\<close>

text \<open>
  The barren count of a source after any history of readings is the number of consecutive
  published lists, at the end of that history, in which it had no survivor: a reading whose publish
  time did not advance, and one before anything was published, counts for nothing.
\<close>

theorem probation_counts_published_lists:
  "fst (foldOutcome name sv pub now (fold_readings name rs empty_state)) =
     int (barren_run (advancing 0 (map fst rs @ [(sv, pub)])))"
  by (rule probation_counts_aux)

text \<open>
  C34: Pruning keeps a channel exactly when it was productive since the cutoff and fewer than 200
  channels stand ahead of it: more recently productive ones, or as recent ones of a smaller slug. The
  repositories are kept by the same rule. Which ones stay depends on the memory alone, not on the
  order a map is ranged in.
\<close>

theorem prune_keeps_the_newest:
  assumes "wf_map (cst_Productive s)" and "wf_map (cst_Repos s)"
  shows "map_of (cst_Productive (prune cutoff s)) ch =
      (case map_of (cst_Productive s) ch of
         None \<Rightarrow> None
       | Some e \<Rightarrow>
           if cutoff \<le> chs_LastSubAt e \<and>
              card {(ch', e') \<in> set (cst_Productive s). chs_LastSubAt e < chs_LastSubAt e' \<or>
                      chs_LastSubAt e' = chs_LastSubAt e \<and> ch' < ch} < 200
           then Some e else None) \<and>
    map_of (cst_Repos (prune cutoff s)) repo =
      (case map_of (cst_Repos s) repo of
         None \<Rightarrow> None
       | Some e \<Rightarrow>
           if cutoff \<le> rps_LastFileAt e \<and>
              card {(r', e') \<in> set (cst_Repos s). rps_LastFileAt e < rps_LastFileAt e' \<or>
                      rps_LastFileAt e' = rps_LastFileAt e \<and> r' < repo} < 120
           then Some e else None)"
  using cap_fresh [OF assms(1), where at = chs_LastSubAt and n = maxProductive and z = zero_channel and k = ch and cutoff = cutoff]
    cap_fresh [OF assms(2), where at = rps_LastFileAt and n = maxProductiveRepos and z = zero_repo and k = repo and cutoff = cutoff]
  unfolding prune_Productive pruned_Repos Let_def ahead_of_def maxProductive_def maxProductiveRepos_def
  by (rule conjI)

definition two_channels :: crawl_state where
  "two_channels = empty_state\<lparr>cst_Productive :=
     [(''old'', \<lparr>chs_FirstSeen = 1, chs_LastSubAt = 5\<rparr>), (''new'', \<lparr>chs_FirstSeen = 2, chs_LastSubAt = 9\<rparr>)]\<rparr>"

lemma prune_keeps_the_newest_witness:
  "map_of (cst_Productive (prune 7 two_channels)) ''old'' = None \<and>
   map_of (cst_Productive (prune 7 two_channels)) ''new'' = Some \<lparr>chs_FirstSeen = 2, chs_LastSubAt = 9\<rparr>"
proof -
  have wf: "wf_map (cst_Productive two_channels)" "wf_map (cst_Repos two_channels)"
    by (simp_all add: two_channels_def empty_state_def wf_map_def keys_def)
  have ahead: "card {(ch', e') \<in> set (cst_Productive two_channels). 9 < chs_LastSubAt e' \<or>
      chs_LastSubAt e' = 9 \<and> ch' < ''new''} = 0"
    by (auto simp: two_channels_def intro: card_eq_0_iff [THEN iffD2])
  have look: "map_of (cst_Productive two_channels) ''old'' = Some \<lparr>chs_FirstSeen = 1, chs_LastSubAt = 5\<rparr>"
    "map_of (cst_Productive two_channels) ''new'' = Some \<lparr>chs_FirstSeen = 2, chs_LastSubAt = 9\<rparr>"
    by (simp_all add: two_channels_def)
  show ?thesis
    unfolding prune_keeps_the_newest [OF wf, THEN conjunct1] look option.case crawl_state.simps
      channelState.select_convs ahead by simp
qed

text \<open>
  The dirty flag misses no method of the state: one that leaves it unset changed nothing, so the
  cycle that skips the write skips a write of what the file already holds.
\<close>

theorem clean_method_changes_nothing:
  assumes "clock_advanced op s" "\<not> cst_dirty (run_op op s)"
  shows "run_op op s = s"
  using assms by (rule clean_op_is_identity)

lemma clean_method_changes_nothing_witness:
  "clock_advanced (PruneOld 4) two_channels \<and> \<not> cst_dirty (run_op (PruneOld 4) two_channels) \<and>
   run_op (PruneOld 4) two_channels = two_channels \<and> cst_dirty (run_op (PruneOld 7) two_channels)"
proof -
  have h: "clock_advanced (PruneOld 4) two_channels" "\<not> cst_dirty (run_op (PruneOld 4) two_channels)"
    "cst_dirty (run_op (PruneOld 7) two_channels)"
    by (simp_all add: clock_advanced_def two_channels_def empty_state_def prune_def prune_ladders_def
      pruneGitHubRepos_def maxProductiveRepos_def maxProductive_def mark_def Let_def)
  show ?thesis using h clean_method_changes_nothing [OF h(1,2)] by simp
qed

text \<open>
  C39: A state file that could not be read or decoded is never written: the memory that stands in for
  it stays marked through every method, and saving it is skipped.
\<close>

theorem unreadable_state_is_never_written:
  "if (case disk of StateUnreadable \<Rightarrow> True | StateBytes b \<Rightarrow> decode b = None | StateAbsent \<Rightarrow> False)
   then saveState encode write path (fold run_op ops (loadState decode path disk)) = SaveSkipped
   else True"
  by (auto simp: saveState_def loadState_def run_ops_loadFailed split: state_read.splits option.split)

end
