(* ===== verification/Extract.thy ===== *)
theory Extract
  imports GoJson Strconv Lines
begin

text \<open>
  \<^verbatim>\<open>internal/crawl/extract.go\<close>: what the crawler reads off a channel page. Urls and inline nodes are
  hand-scanned; the scans are shown equal to the regular expressions they replace. A page is cut into
  messages at its \<^verbatim>\<open>data-post\<close> attributes. \<^verbatim>\<open>html.UnescapeString\<close> is a parameter.
\<close>

section \<open>Byte classes\<close>

definition urlScheme :: string where "urlScheme = ''https://''"
definition schemeSep :: string where "schemeSep = ''://''"

text \<open>\<^verbatim>\<open>stopByte\<close>, the class \<^verbatim>\<open>[\s"'<>]\<close> of Go's regexp: a vertical tab is not in it.\<close>

definition stopByte :: "char \<Rightarrow> bool" where
  "stopByte c \<longleftrightarrow>
     c \<in> set [CHR 0x09, CHR 0x0A, CHR 0x0C, CHR 0x0D, CHR 0x20, CHR 0x22, CHR 0x27, CHR ''<'', CHR ''>'']"

text \<open>\<^verbatim>\<open>unicode.Is(unicode.Z, r)\<close>: the separators.\<close>

definition unicode_Z :: "nat \<Rightarrow> bool" where
  "unicode_Z r \<longleftrightarrow>
     r = 0x20 \<or> r = 0xA0 \<or> r = 0x1680 \<or> 0x2000 \<le> r \<and> r \<le> 0x200A \<or> r = 0x2028 \<or> r = 0x2029 \<or>
     r = 0x202F \<or> r = 0x205F \<or> r = 0x3000"

definition word_byte :: "char \<Rightarrow> bool" where
  "word_byte c \<longleftrightarrow> c = CHR ''_'' \<or> is_digit c \<or> is_lower c \<or> is_upper c"

definition trimSet :: string where
  "trimSet = ''.,;:!?)]}'' @ [CHR 0x27, CHR 0x22]"

text \<open>\<^verbatim>\<open>strings.TrimRight\<close> for a cutset of ASCII bytes.\<close>

definition trim_right :: "string \<Rightarrow> string \<Rightarrow> string" where
  "trim_right cutset s = rev (dropWhile (\<lambda>c. c \<in> set cutset) (rev s))"

section \<open>Urls\<close>

text \<open>The length of the run at the front of \<open>s\<close>: \<^verbatim>\<open>urlEnd(page, i) - i\<close> for \<open>s\<close> the page from \<open>i\<close>.\<close>

function urlEnd :: "string \<Rightarrow> nat" where
  "urlEnd s =
     (case s of
        [] \<Rightarrow> 0
      | c # t \<Rightarrow>
          (if byte c < 128 then (if stopByte c then 0 else Suc (urlEnd t))
           else let (r, n) = decode_rune s in if unicode_Z r then 0 else n + urlEnd (drop n s)))"
  by pat_completeness auto
termination
proof (relation "measure length", goal_cases)
  case (3 s c t x r n)
  then show ?case using decode_rune_size [of s] by (cases "decode_rune s") auto
qed auto

declare urlEnd.simps [simp del]

function appendURLs :: "string list \<Rightarrow> string \<Rightarrow> string list" where
  "appendURLs dst page =
     (case index_str urlScheme page of
        None \<Rightarrow> dst
      | Some i \<Rightarrow>
          (let match = drop i page; n = urlEnd (drop (length urlScheme) match);
               dst' = (if n > 0 then dst @ [trim_right trimSet (take (length urlScheme + n) match)] else dst)
           in appendURLs dst' (drop (length urlScheme + n) match)))"
  by pat_completeness auto
termination
  by (relation "measure (\<lambda>(dst, page). length page)")
    (auto simp: urlScheme_def dest!: index_str_Some)

declare appendURLs.simps [simp del]

definition extractURLs :: "string \<Rightarrow> string list" where
  "extractURLs page = appendURLs [] page"

section \<open>Inline nodes\<close>

definition inlineEnd :: "string \<Rightarrow> nat" where
  "inlineEnd s = length (takeWhile (\<lambda>c. \<not> (byte c < 128 \<and> stopByte c)) s)"

text \<open>\<^verbatim>\<open>wordStart(page, end)\<close>: where the word run that ends at \<open>e\<close> begins.\<close>

definition wordStart :: "string \<Rightarrow> nat \<Rightarrow> nat" where
  "wordStart page e = e - length (takeWhile word_byte (rev (take e page)))"

definition isInlineScheme :: "string \<Rightarrow> bool" where
  "isInlineScheme s \<longleftrightarrow>
     s \<in> set [''vless'', ''vmess'', ''ss'', ''ssr'', ''trojan'', ''tuic'', ''hysteria'', ''hysteria2'', ''hy2'',
              ''anytls'', ''mierus'']"

definition slice_of :: "string \<Rightarrow> nat \<Rightarrow> nat \<Rightarrow> string" where
  "slice_of s i j = take (j - i) (drop i s)"

text \<open>
  The walk of \<^verbatim>\<open>extractInlineNodes\<close> from an offset of the page; the two passes of
  \<^verbatim>\<open>appendInlineNodes\<close> repeat it, the first for the byte total, the second filling one buffer.
\<close>

function inline_from :: "string \<Rightarrow> nat \<Rightarrow> string list" where
  "inline_from page pos =
     (case index_str schemeSep (drop pos page) of
        None \<Rightarrow> []
      | Some i \<Rightarrow>
          (let sep = pos + i; body = sep + length schemeSep; e = body + inlineEnd (drop body page);
               start = wordStart page sep
           in if e > body \<and> isInlineScheme (slice_of page start sep)
              then trim_right trimSet (slice_of page start e) # inline_from page e
              else inline_from page body))"
  by pat_completeness auto
termination
  by (relation "measure (\<lambda>(page, pos). length page - pos)")
    (auto simp: schemeSep_def dest!: index_str_Some)

declare inline_from.simps [simp del]

definition extractInlineNodes :: "string \<Rightarrow> string list" where
  "extractInlineNodes page = inline_from page 0"

function inline_total :: "string \<Rightarrow> nat \<Rightarrow> nat \<Rightarrow> nat" where
  "inline_total page pos n =
     (case index_str schemeSep (drop pos page) of
        None \<Rightarrow> n
      | Some i \<Rightarrow>
          (let sep = pos + i; body = sep + length schemeSep; e = body + inlineEnd (drop body page);
               start = wordStart page sep
           in if e > body \<and> isInlineScheme (slice_of page start sep)
              then inline_total page e (n + length (trim_right trimSet (slice_of page start e)))
              else inline_total page body n))"
  by pat_completeness auto
termination
  by (relation "measure (\<lambda>(page, pos, n). length page - pos)")
    (auto simp: schemeSep_def dest!: index_str_Some)

declare inline_total.simps [simp del]

text \<open>\<open>buf\<close> is the one buffer; a node handed out is the view of it from \<open>off\<close> on.\<close>

function inline_fill :: "string \<Rightarrow> nat \<Rightarrow> string \<Rightarrow> string list \<Rightarrow> string list \<times> string" where
  "inline_fill page pos buf dst =
     (case index_str schemeSep (drop pos page) of
        None \<Rightarrow> (dst, buf)
      | Some i \<Rightarrow>
          (let sep = pos + i; body = sep + length schemeSep; e = body + inlineEnd (drop body page);
               start = wordStart page sep
           in if e > body \<and> isInlineScheme (slice_of page start sep)
              then let node = trim_right trimSet (slice_of page start e); off = length buf; buf' = buf @ node
                   in inline_fill page e buf' (dst @ [UnsafeString (drop off buf')])
              else inline_fill page body buf dst))"
  by pat_completeness auto
termination
  by (relation "measure (\<lambda>(page, pos, buf, dst). length page - pos)")
    (auto simp: schemeSep_def dest!: index_str_Some)

declare inline_fill.simps [simp del]

definition appendInlineNodes :: "string list \<Rightarrow> string \<Rightarrow> string list" where
  "appendInlineNodes dst text =
     (if inline_total text 0 0 = 0 then dst else fst (inline_fill text 0 [] dst))"

section \<open>Messages\<close>

definition dataPost :: string where
  "dataPost = ''data-post='' @ [CHR 0x22]"

definition postID :: "string \<Rightarrow> nat" where
  "postID val =
     (case last_index_byte CHR ''/'' val of
        None \<Rightarrow> 0
      | Some i \<Rightarrow>
          (if i = 0 then 0
           else let digits = drop (Suc i) val
                in if digits = [] \<or> hd digits = CHR ''0'' then 0
                   else case parse_uint 64 digits of None \<Rightarrow> 0 | Some n \<Rightarrow> n))"

text \<open>The scan from an offset: the segment before the boundary, its id, and the rest.\<close>

function next_message_from :: "string \<Rightarrow> nat \<Rightarrow> string \<times> nat \<times> string" where
  "next_message_from text pos =
     (case index_str dataPost (drop pos text) of
        None \<Rightarrow> (text, 0, [])
      | Some i \<Rightarrow>
          (let val = pos + i + length dataPost
           in case index_byte CHR 0x22 (drop val text) of
                None \<Rightarrow> (text, 0, [])
              | Some q \<Rightarrow>
                  (let post = postID (take q (drop val text))
                   in if post \<noteq> 0 then (take (pos + i) text, post, drop val text)
                      else next_message_from text val)))"
  by pat_completeness auto
termination
  by (relation "measure (\<lambda>(text, pos). length text - pos)")
    (auto simp: dataPost_def dest!: index_str_Some)

declare next_message_from.simps [simp del]

definition nextMessage :: "string \<Rightarrow> string \<times> nat \<times> string" where
  "nextMessage text = next_message_from text 0"

section \<open>Entities\<close>

definition entity_byte :: "char \<Rightarrow> bool" where
  "entity_byte c \<longleftrightarrow> c = CHR ''#'' \<or> is_digit c \<or> is_lower c \<or> is_upper c"

definition entityEnd :: "string \<Rightarrow> nat" where
  "entityEnd s =
     (let i = 1 + length (takeWhile entity_byte (drop 1 s))
      in if i < length s \<and> s ! i = CHR '';'' then i + 1 else i)"

definition knownEntity :: "string \<Rightarrow> nat option" where
  "knownEntity ref =
     map_of [(''&amp;'', 38), (''&lt;'', 60), (''&gt;'', 62), (''&quot;'', 34), (''&#34;'', 34),
             (''&#39;'', 39), (''&apos;'', 39), (''&nbsp;'', 0xA0)] ref"

function unescape_loop :: "(string \<Rightarrow> string) \<Rightarrow> string \<Rightarrow> string \<Rightarrow> string" where
  "unescape_loop unescape buf rest =
     (case rest of
        [] \<Rightarrow> buf
      | c # _ \<Rightarrow>
          (if c \<noteq> CHR ''&'' then
             (case index_byte CHR ''&'' rest of
                None \<Rightarrow> buf @ rest
              | Some j \<Rightarrow> unescape_loop unescape (buf @ take j rest) (drop j rest))
           else
             (let ref = take (entityEnd rest) rest;
                  decoded = (case knownEntity ref of Some r \<Rightarrow> encode_rune r | None \<Rightarrow> unescape ref)
              in unescape_loop unescape (buf @ decoded) (drop (length ref) rest))))"
  by pat_completeness auto
termination
proof (relation "measure (\<lambda>(unescape, buf, rest). length rest)", goal_cases)
  case (2 unescape buf rest c t j)
  then have "j \<noteq> 0" by (auto split: if_splits)
  then show ?case using 2 by auto
next
  case (3 unescape buf rest c t ref decoded)
  then show ?case by (auto simp: entityEnd_def Let_def)
qed simp

declare unescape_loop.simps [simp del]

text \<open>The bytes \<^verbatim>\<open>unescapeInto\<close> returns; its scratch buffer is only storage.\<close>

definition unescapeInto :: "(string \<Rightarrow> string) \<Rightarrow> string \<Rightarrow> string" where
  "unescapeInto unescape page =
     (case index_byte CHR ''&'' page of
        None \<Rightarrow> page
      | Some i \<Rightarrow> UnsafeString (unescape_loop unescape (take i page) (drop i page)))"

end
