(* ===== verification/ExtractLaws.thy ===== *)
theory ExtractLaws
  imports Extract Endpoint
begin

text \<open>
  The scans of \<open>Extract\<close> against what they stand for: the regular expressions of the first version
  of the crawler, matched leftmost and not overlapping; one pass over a page against two; the whole
  page against its messages; and \<^verbatim>\<open>html.UnescapeString\<close>.
\<close>

section \<open>Leftmost matches\<close>

text \<open>
  \<^verbatim>\<open>FindAllStringIndex\<close> for an expression that never matches the empty string: \<open>m p\<close> is where the
  preferred match that starts at \<open>p\<close> ends.
\<close>

function FindAll :: "(nat \<Rightarrow> nat option) \<Rightarrow> nat \<Rightarrow> nat \<Rightarrow> (nat \<times> nat) list" where
  "FindAll m n p =
     (if p \<ge> n then []
      else case m p of
        None \<Rightarrow> FindAll m n (Suc p)
      | Some e \<Rightarrow> if e > p then (p, e) # FindAll m n e else FindAll m n (Suc p))"
  by pat_completeness auto
termination
  by (relation "measure (\<lambda>(m, n, p). n - p)") auto

declare FindAll.simps [simp del]

lemma FindAll_end: "n \<le> p \<Longrightarrow> FindAll m n p = []"
  by (simp add: FindAll.simps)

lemma FindAll_skip:
  "a \<le> b \<Longrightarrow> (\<And>p. a \<le> p \<Longrightarrow> p < b \<Longrightarrow> m p = None) \<Longrightarrow> FindAll m n a = FindAll m n b"
proof (induction "b - a" arbitrary: a)
  case (Suc d)
  then have "FindAll m n (Suc a) = FindAll m n b" by simp
  moreover have "m a = None" using Suc by simp
  ultimately show ?case by (cases "n \<le> a") (simp_all add: FindAll.simps [of m n a] FindAll_end)
qed simp

lemma FindAll_none: "(\<And>p. a \<le> p \<Longrightarrow> m p = None) \<Longrightarrow> FindAll m n a = []"
  by (metis FindAll_end FindAll_skip linear)

lemma FindAll_hit: "p < n \<Longrightarrow> m p = Some e \<Longrightarrow> p < e \<Longrightarrow> FindAll m n p = (p, e) # FindAll m n e"
  by (simp add: FindAll.simps)

lemma index_str_first:
  "index_str sep s = Some i \<Longrightarrow> has_prefix sep (drop i s) \<and> (\<forall>j < i. \<not> has_prefix sep (drop j s))"
proof (induction sep s arbitrary: i rule: index_str.induct)
  case (2 sep x xs)
  show ?case
  proof (cases "has_prefix sep (x # xs)")
    case False
    then obtain k where k: "index_str sep xs = Some k" "i = Suc k" using "2.prems" by auto
    have "\<not> has_prefix sep (drop j (x # xs))" if "j < i" for j
      using that k False "2.IH" [OF False k(1)] by (cases j) auto
    then show ?thesis using k "2.IH" [OF False k(1)] by simp
  qed (use "2.prems" in auto)
qed (auto split: if_splits)

lemma index_str_absent:
  "index_str sep s = None \<Longrightarrow> sep \<noteq> [] \<Longrightarrow> \<not> has_prefix sep (drop j s)"
proof (induction sep s arbitrary: j rule: index_str.induct)
  case (2 sep x xs)
  then show ?case by (cases j) (auto split: if_splits)
qed auto

section \<open>Urls\<close>

text \<open>The expression \<^verbatim>\<open>https://[^\s"'<>\p{Z}]+\<close>: a run of runes outside the class.\<close>

definition url_rune :: "nat \<Rightarrow> bool" where
  "url_rune r \<longleftrightarrow> r \<notin> set [0x09, 0x0A, 0x0C, 0x0D, 0x20, 0x22, 0x27, 0x3C, 0x3E] \<and> \<not> unicode_Z r"

function class_run :: "string \<Rightarrow> nat" where
  "class_run s =
     (if s = [] then 0
      else let (r, n) = decode_rune s in if url_rune r then n + class_run (drop n s) else 0)"
  by pat_completeness auto
termination
proof (relation "measure length", goal_cases)
  case (2 s x r n)
  then show ?case using decode_rune_size [of s] by (cases "decode_rune s") auto
qed simp

declare class_run.simps [simp del]

definition url_match :: "string \<Rightarrow> nat \<Rightarrow> nat option" where
  "url_match page p =
     (let n = class_run (drop (p + 8) page)
      in if has_prefix ''https://'' (drop p page) \<and> n > 0 then Some (p + 8 + n) else None)"

lemma decode_rune_ascii: "byte c < 128 \<Longrightarrow> decode_rune (c # t) = (byte c, 1)"
  by (simp add: decode_rune_def)

lemma decode_rune_wide: "\<not> byte c < 128 \<Longrightarrow> 128 \<le> fst (decode_rune (c # t))"
  by (auto simp: decode_rune_def Let_def runeError_def cont_def split: list.split)

lemma stop_rune: "byte c < 128 \<Longrightarrow> url_rune (byte c) \<longleftrightarrow> \<not> stopByte c"
proof -
  assume a: "byte c < 128"
  have "stopByte c \<longleftrightarrow> byte c \<in> byte ` set [CHR 0x09, CHR 0x0A, CHR 0x0C, CHR 0x0D, CHR 0x20, CHR 0x22,
      CHR 0x27, CHR ''<'', CHR ''>'']"
    unfolding stopByte_def by (rule inj_image_mem_iff [symmetric]) (simp add: inj_def)
  then have s: "stopByte c \<longleftrightarrow> byte c \<in> set [0x09, 0x0A, 0x0C, 0x0D, 0x20, 0x22, 0x27, 0x3C, 0x3E]" by simp
  have "unicode_Z (byte c) \<longleftrightarrow> byte c = 0x20" using a by (auto simp: unicode_Z_def)
  then show ?thesis unfolding url_rune_def s by auto
qed

lemma urlEnd_class_run: "urlEnd s = class_run s"
proof (induction s rule: urlEnd.induct)
  case (1 s)
  show ?case
  proof (cases s)
    case Nil
    then show ?thesis by (simp add: urlEnd.simps class_run.simps)
  next
    case (Cons c t)
    show ?thesis
    proof (cases "byte c < 128")
      case True
      have u: "urlEnd s = (if stopByte c then 0 else Suc (urlEnd t))"
        by (subst urlEnd.simps) (simp add: Cons True)
      have r: "class_run s = (if stopByte c then 0 else Suc (class_run t))"
        by (subst class_run.simps) (simp add: Cons True decode_rune_ascii stop_rune)
      show ?thesis using 1(1) [OF Cons True] u r by auto
    next
      case False
      obtain r n where d: "decode_rune s = (r, n)" by force
      have "128 \<le> r" using decode_rune_wide [OF False, of t] d Cons by simp
      then have cls: "url_rune r \<longleftrightarrow> \<not> unicode_Z r" by (auto simp: url_rune_def)
      have u: "urlEnd s = (if unicode_Z r then 0 else n + urlEnd (drop n s))"
        using False d by (subst urlEnd.simps) (simp add: Cons)
      have c: "class_run s = (if unicode_Z r then 0 else n + class_run (drop n s))"
        by (subst class_run.simps) (simp add: d cls, simp add: Cons)
      show ?thesis using 1(2) [OF Cons False d [symmetric] refl] u c by auto
    qed
  qed
qed

text \<open>No scheme begins inside another one.\<close>

lemma scheme_no_overlap:
  assumes "has_prefix ''https://'' (drop p page)" "p < q" "q < p + 8"
  shows "\<not> has_prefix ''https://'' (drop q page)"
proof -
  obtain r where r: "drop p page = ''https://'' @ r" using assms(1) by (auto simp: has_prefix_iff)
  obtain k where k: "q = p + k" "0 < k" "k < 8" using assms(2,3) by (metis add_diff_inverse_nat less_diff_conv2 less_imp_le not_less zero_less_diff add.commute)
  have "drop q page = drop k (''https://'' @ r)" using k r by (metis add.commute drop_drop)
  moreover have "k \<in> {1, 2, 3, 4, 5, 6, 7}" using k by auto
  ultimately show ?thesis by auto
qed

definition page_matches :: "(nat \<Rightarrow> nat option) \<Rightarrow> string \<Rightarrow> nat \<Rightarrow> string list" where
  "page_matches m page p = map (\<lambda>(i, j). trim_right trimSet (slice_of page i j)) (FindAll m (length page) p)"

lemma urlScheme_len: "length urlScheme = 8"
  by (simp add: urlScheme_def)

lemma appendURLs_matches:
  "appendURLs dst (drop pos page) = dst @ page_matches (url_match page) page pos"
proof (induction "length page - pos" arbitrary: pos dst rule: less_induct)
  case less
  show ?case
  proof (cases "index_str urlScheme (drop pos page)")
    case None
    have "url_match page p = None" if "pos \<le> p" for p
      using index_str_absent [OF None, of "p - pos"] that by (simp add: url_match_def urlScheme_def Let_def)
    then have "FindAll (url_match page) (length page) pos = []" by (rule FindAll_none)
    then show ?thesis using None by (simp add: appendURLs.simps page_matches_def)
  next
    case (Some i)
    let ?p = "pos + i" and ?n = "urlEnd (drop (pos + i + 8) page)"
    have l: "i + 8 \<le> length page - pos" and pre: "has_prefix ''https://'' (drop ?p page)"
      and first: "\<forall>j < i. \<not> has_prefix ''https://'' (drop (pos + j) page)"
      using index_str_Some [OF Some] index_str_first [OF Some] by (auto simp: urlScheme_def add.commute)
    have bound: "?p + 8 \<le> length page" using l by simp
    have none: "url_match page p = None" if "pos \<le> p" "p < ?p" for p
    proof -
      have "\<not> has_prefix ''https://'' (drop p page)" using first that by (metis add_less_cancel_left le_add_diff_inverse)
      then show ?thesis by (simp add: url_match_def)
    qed
    have skip: "FindAll (url_match page) (length page) pos = FindAll (url_match page) (length page) ?p"
      by (rule FindAll_skip) (use none in auto)
    have step: "appendURLs dst (drop pos page) =
        appendURLs (if ?n > 0 then dst @ [trim_right trimSet (take (8 + ?n) (drop ?p page))] else dst)
          (drop (?p + 8 + ?n) page)"
      by (subst appendURLs.simps) (simp add: Some urlScheme_len Let_def ac_simps)
    have dec: "length page - (?p + 8 + ?n) < length page - pos" using bound by simp
    note IH = less [OF dec]
    show ?thesis
    proof (cases "?n > 0")
      case True
      have "url_match page ?p = Some (?p + 8 + ?n)"
        using pre True by (simp add: url_match_def Let_def urlEnd_class_run add.assoc)
      then have "FindAll (url_match page) (length page) ?p =
          (?p, ?p + 8 + ?n) # FindAll (url_match page) (length page) (?p + 8 + ?n)"
        using bound by (intro FindAll_hit) auto
      then have "page_matches (url_match page) page pos =
          trim_right trimSet (slice_of page ?p (?p + 8 + ?n)) # page_matches (url_match page) page (?p + 8 + ?n)"
        by (simp add: page_matches_def skip)
      moreover have "slice_of page ?p (?p + 8 + ?n) = take (8 + ?n) (drop ?p page)"
        by (simp add: slice_of_def)
      ultimately show ?thesis using True IH by (simp add: step)
    next
      case False
      then have z: "?n = 0" by simp
      have "url_match page p = None" if "?p \<le> p" "p < ?p + 8" for p
      proof (cases "p = ?p")
        case True
        then show ?thesis using z by (simp add: url_match_def Let_def urlEnd_class_run)
      next
        case False
        then show ?thesis using scheme_no_overlap [OF pre, of p] that by (simp add: url_match_def Let_def)
      qed
      then have "FindAll (url_match page) (length page) ?p = FindAll (url_match page) (length page) (?p + 8)"
        by (intro FindAll_skip) auto
      then show ?thesis using z IH by (simp add: step page_matches_def skip)
    qed
  qed
qed

lemma extractURLs_matches: "extractURLs page = page_matches (url_match page) page 0"
  using appendURLs_matches [of "[]" 0 page] by (simp add: extractURLs_def)


section \<open>Inline nodes\<close>

text \<open>
  The expression \<^verbatim>\<open>\b(?:vless|...)://[^\s"'<>]+\<close>: the boundary asks that no word byte precede the
  scheme, and the alternatives are tried in their order.
\<close>

definition inline_schemes :: "string list" where
  "inline_schemes = [''vless'', ''vmess'', ''ss'', ''ssr'', ''trojan'', ''tuic'', ''hysteria'', ''hysteria2'',
     ''hy2'', ''anytls'', ''mierus'']"

definition node_match :: "string \<Rightarrow> nat \<Rightarrow> nat option" where
  "node_match page p =
     (if p > 0 \<and> word_byte (page ! (p - 1)) then None
      else case find (\<lambda>a. has_prefix (a @ ''://'') (drop p page) \<and>
                          inlineEnd (drop (p + length a + 3) page) > 0) inline_schemes of
        None \<Rightarrow> None
      | Some a \<Rightarrow> Some (p + length a + 3 + inlineEnd (drop (p + length a + 3) page)))"

lemma isInlineScheme_iff: "isInlineScheme s \<longleftrightarrow> s \<in> set inline_schemes"
  by (simp add: isInlineScheme_def inline_schemes_def)

lemma scheme_words: "a \<in> set inline_schemes \<Longrightarrow> list_all word_byte a \<and> a \<noteq> []"
  by (auto simp: inline_schemes_def word_byte_def is_digit_def is_lower_def)

lemma wordStart_iff:
  assumes "e \<le> length page"
  shows "wordStart page e = p \<longleftrightarrow>
    p \<le> e \<and> (\<forall>k. p \<le> k \<and> k < e \<longrightarrow> word_byte (page ! k)) \<and> (p = 0 \<or> \<not> word_byte (page ! (p - 1)))"
proof -
  let ?r = "rev (take e page)" and ?n = "length (takeWhile word_byte (rev (take e page)))"
  have len: "length ?r = e" using assms by simp
  have nth: "?r ! j = page ! (e - Suc j)" if "j < e" for j using that assms by (simp add: rev_nth)
  have le: "?n \<le> e" using length_takeWhile_le [of word_byte ?r] len by simp
  have all: "word_byte (page ! k)" if "e - ?n \<le> k" "k < e" for k
  proof -
    have "e - Suc k < ?n" using that le by linarith
    then have "word_byte (takeWhile word_byte ?r ! (e - Suc k))" using nth_mem set_takeWhileD by fastforce
    then have "word_byte (?r ! (e - Suc k))" using \<open>e - Suc k < ?n\<close> by (simp add: takeWhile_nth)
    moreover have "e - Suc (e - Suc k) = k" using that by linarith
    ultimately show ?thesis using nth [of "e - Suc k"] that by simp
  qed
  have stop: "\<not> word_byte (page ! (e - ?n - 1))" if "e - ?n > 0"
  proof -
    have "?n < length ?r" using that len by simp
    then have "\<not> word_byte (?r ! ?n)" by (rule nth_length_takeWhile)
    then show ?thesis using nth [of ?n] that by simp
  qed
  have w: "wordStart page e = e - ?n" by (simp add: wordStart_def)
  show ?thesis
  proof
    assume "wordStart page e = p"
    then have "p = e - ?n" using w by simp
    then show "p \<le> e \<and> (\<forall>k. p \<le> k \<and> k < e \<longrightarrow> word_byte (page ! k)) \<and> (p = 0 \<or> \<not> word_byte (page ! (p - 1)))"
      using all stop by auto
  next
    assume p: "p \<le> e \<and> (\<forall>k. p \<le> k \<and> k < e \<longrightarrow> word_byte (page ! k)) \<and> (p = 0 \<or> \<not> word_byte (page ! (p - 1)))"
    have "\<not> p < e - ?n"
    proof
      assume lt: "p < e - ?n"
      then have "\<not> word_byte (page ! (e - ?n - 1))" using stop by simp
      moreover have "p \<le> e - ?n - 1" "e - ?n - 1 < e" using lt by linarith+
      ultimately show False using p by blast
    qed
    moreover have "\<not> e - ?n < p"
    proof
      assume lt: "e - ?n < p"
      then have "p \<noteq> 0" "e - ?n \<le> p - 1" "p - 1 < e" using p by linarith+
      then show False using p all by blast
    qed
    ultimately show "wordStart page e = p" using w by simp
  qed
qed

lemma find_matchD: "find P xs = Some x \<Longrightarrow> x \<in> set xs \<and> P x"
  by (induction xs) (auto split: if_splits)

text \<open>A match is a separator whose word run is a scheme that begins there.\<close>

lemma node_match_iff:
  "node_match page p = Some e \<longleftrightarrow>
     (\<exists>sep. p \<le> sep \<and> has_prefix ''://'' (drop sep page) \<and> wordStart page sep = p \<and>
        isInlineScheme (slice_of page p sep) \<and> inlineEnd (drop (sep + 3) page) > 0 \<and>
        e = sep + 3 + inlineEnd (drop (sep + 3) page))"
proof
  assume "node_match page p = Some e"
  then obtain a where pre: "\<not> (p > 0 \<and> word_byte (page ! (p - 1)))"
      and a: "a \<in> set inline_schemes" "has_prefix (a @ ''://'') (drop p page)"
        "inlineEnd (drop (p + length a + 3) page) > 0"
      and e: "e = p + length a + 3 + inlineEnd (drop (p + length a + 3) page)"
    unfolding node_match_def by (auto dest!: find_matchD split: if_splits option.splits)
  let ?sep = "p + length a"
  obtain r where r: "drop p page = a @ ''://'' @ r" using a(2) by (auto simp: has_prefix_iff)
  have "length page - p = length (a @ ''://'' @ r)" using r by (metis length_drop)
  then have len: "?sep \<le> length page" by simp
  have sl: "slice_of page p ?sep = a" using r by (simp add: slice_of_def)
  have "drop ?sep page = drop (length a) (drop p page)" by (simp add: add.commute)
  then have sep: "has_prefix ''://'' (drop ?sep page)" using r by simp
  have nth: "page ! k = a ! (k - p)" if "p \<le> k" "k < ?sep" for k
  proof -
    have "page ! k = drop p page ! (k - p)" using that len by simp
    also have "\<dots> = a ! (k - p)" using that by (simp only: r nth_append) auto
    finally show ?thesis .
  qed
  have "wordStart page ?sep = p"
    unfolding wordStart_iff [OF len]
    using pre scheme_words [OF a(1)] nth by (auto simp: list_all_length)
  then show "\<exists>sep. p \<le> sep \<and> has_prefix ''://'' (drop sep page) \<and> wordStart page sep = p \<and>
        isInlineScheme (slice_of page p sep) \<and> inlineEnd (drop (sep + 3) page) > 0 \<and>
        e = sep + 3 + inlineEnd (drop (sep + 3) page)"
    using sep a e sl by (intro exI [of _ ?sep]) (simp add: isInlineScheme_iff)
next
  assume "\<exists>sep. p \<le> sep \<and> has_prefix ''://'' (drop sep page) \<and> wordStart page sep = p \<and>
        isInlineScheme (slice_of page p sep) \<and> inlineEnd (drop (sep + 3) page) > 0 \<and>
        e = sep + 3 + inlineEnd (drop (sep + 3) page)"
  then obtain sep where s: "p \<le> sep" "has_prefix ''://'' (drop sep page)" "wordStart page sep = p"
      "isInlineScheme (slice_of page p sep)" "inlineEnd (drop (sep + 3) page) > 0"
      "e = sep + 3 + inlineEnd (drop (sep + 3) page)" by blast
  have len: "sep \<le> length page" using s(2) by (cases "sep \<le> length page") auto
  have ws: "\<forall>k. p \<le> k \<and> k < sep \<longrightarrow> word_byte (page ! k)" "p = 0 \<or> \<not> word_byte (page ! (p - 1))"
    using wordStart_iff [OF len, of p] s(3) by auto
  let ?a = "slice_of page p sep"
  have la: "length ?a = sep - p" using len by (simp add: slice_of_def)
  obtain r where "drop sep page = ''://'' @ r" using s(2) by (auto simp: has_prefix_iff)
  moreover have "drop p page = ?a @ drop sep page"
    unfolding slice_of_def using s(1) by (metis append_take_drop_id drop_drop le_add_diff_inverse2)
  ultimately have dp: "drop p page = ?a @ ''://'' @ r" by simp
  have uniq: "b = ?a" if b: "b \<in> set inline_schemes" "has_prefix (b @ ''://'') (drop p page)" for b
  proof -
    obtain r' where r': "drop p page = b @ ''://'' @ r'" using b(2) by (auto simp: has_prefix_iff)
    have wb: "list_all word_byte b" "list_all word_byte ?a"
      using scheme_words b(1) s(4) by (auto simp: isInlineScheme_iff)
    have nc: "\<not> word_byte CHR '':''" by (simp add: word_byte_def is_digit_def is_lower_def is_upper_def)
    have tw: "takeWhile word_byte (x @ ''://'' @ y) = x" if "list_all word_byte x" for x y
      using that nc by (simp add: list_all_iff takeWhile_append2)
    show "b = ?a" using tw [OF wb(1)] tw [OF wb(2)] dp r' by metis
  qed
  have Q: "has_prefix (?a @ ''://'') (drop p page) \<and> inlineEnd (drop (p + length ?a + 3) page) > 0"
    using dp s(1,5) la by (simp add: has_prefix_iff)
  have f: "find (\<lambda>a. has_prefix (a @ ''://'') (drop p page) \<and>
      inlineEnd (drop (p + length a + 3) page) > 0) inline_schemes = Some ?a"
  proof (cases "find (\<lambda>a. has_prefix (a @ ''://'') (drop p page) \<and>
      inlineEnd (drop (p + length a + 3) page) > 0) inline_schemes")
    case None
    then show ?thesis using Q s(4) by (auto simp: find_None_iff isInlineScheme_iff)
  next
    case (Some b)
    then have "b \<in> set inline_schemes" "has_prefix (b @ ''://'') (drop p page)"
      by (auto dest: find_matchD)
    then show ?thesis using uniq Some by metis
  qed
  show "node_match page p = Some e"
    unfolding node_match_def using ws(2) f s(1,6) la by auto
qed


text \<open>An offset from which no scheme can reach back across.\<close>

definition clean_at :: "string \<Rightarrow> nat \<Rightarrow> bool" where
  "clean_at page pos \<longleftrightarrow>
     pos = 0 \<or> pos \<ge> length page \<or> \<not> word_byte (page ! (pos - 1)) \<or> stopByte (page ! pos)"

lemma stop_not_word: "stopByte c \<Longrightarrow> \<not> word_byte c \<and> c \<noteq> CHR '':''"
  by (auto simp: stopByte_def word_byte_def is_digit_def is_lower_def is_upper_def)

lemma slash_not_word: "\<not> word_byte CHR ''/''" "\<not> word_byte CHR '':''"
  by (simp_all add: word_byte_def is_digit_def is_lower_def is_upper_def)

lemma clean_at_run: "clean_at page (b + inlineEnd (drop b page))"
proof -
  let ?P = "\<lambda>c. \<not> (byte c < 128 \<and> stopByte c)" and ?n = "inlineEnd (drop b page)"
  show ?thesis
  proof (cases "b + ?n < length page")
    case True
    then have "?n < length (drop b page)" by simp
    then have "\<not> ?P (drop b page ! ?n)" unfolding inlineEnd_def by (rule nth_length_takeWhile)
    then show ?thesis using True by (simp add: clean_at_def)
  qed (simp add: clean_at_def)
qed

lemma sep_bytes:
  assumes "has_prefix ''://'' (drop sep page)"
  shows "page ! sep = CHR '':''" "page ! (sep + 1) = CHR ''/''" "page ! (sep + 2) = CHR ''/''" "sep + 3 \<le> length page"
proof -
  obtain r where r: "drop sep page = ''://'' @ r" using assms by (auto simp: has_prefix_iff)
  have "length page - sep = length (''://'' @ r)" using r by (metis length_drop)
  then show l: "sep + 3 \<le> length page" by simp
  have "page ! (sep + k) = (''://'' @ r) ! k" for k
  proof -
    have "page ! (sep + k) = drop sep page ! k" using l by simp
    then show ?thesis by (simp only: r)
  qed
  from this [of 0] this [of 1] this [of 2]
  show "page ! sep = CHR '':''" "page ! (sep + 1) = CHR ''/''" "page ! (sep + 2) = CHR ''/''" by simp_all
qed

lemma schemeSep_len: "length schemeSep = 3"
  by (simp add: schemeSep_def)

lemma inline_from_matches:
  assumes "clean_at page pos"
  shows "inline_from page pos = page_matches (node_match page) page pos"
  using assms
proof (induction "length page - pos" arbitrary: pos rule: less_induct)
  case less
  show ?case
  proof (cases "index_str schemeSep (drop pos page)")
    case None
    have no: "\<not> has_prefix ''://'' (drop q page)" if "pos \<le> q" for q
      using index_str_absent [OF None, of "q - pos"] that by (simp add: schemeSep_def)
    have "node_match page p = None" if "pos \<le> p" for p
    proof (rule ccontr)
      assume "node_match page p \<noteq> None"
      then obtain e where "node_match page p = Some e" by blast
      then show False using that no unfolding node_match_iff by (meson le_trans)
    qed
    then have "FindAll (node_match page) (length page) pos = []" by (rule FindAll_none)
    then show ?thesis using None by (subst inline_from.simps) (simp add: page_matches_def)
  next
    case (Some i)
    define sep where "sep = pos + i"
    define start where "start = wordStart page sep"
    have pre: "has_prefix ''://'' (drop sep page)"
      and first: "\<And>q. pos \<le> q \<Longrightarrow> q < sep \<Longrightarrow> \<not> has_prefix ''://'' (drop q page)"
    proof -
      have f: "has_prefix ''://'' (drop i (drop pos page))" "\<forall>j<i. \<not> has_prefix ''://'' (drop j (drop pos page))"
        using index_str_first [OF Some] by (auto simp: schemeSep_def)
      show "has_prefix ''://'' (drop sep page)" using f(1) by (simp add: sep_def add.commute)
      fix q assume "pos \<le> q" "q < sep"
      then have "q - pos < i" by (simp add: sep_def)
      then have "\<not> has_prefix ''://'' (drop (q - pos) (drop pos page))" using f(2) by blast
      then show "\<not> has_prefix ''://'' (drop q page)" using \<open>pos \<le> q\<close> by simp
    qed
    note bytes = sep_bytes [OF pre]
    have len: "sep \<le> length page" using bytes(4) by simp
    have ws: "start \<le> sep" "\<And>k. start \<le> k \<Longrightarrow> k < sep \<Longrightarrow> word_byte (page ! k)"
      using wordStart_iff [OF len, of start] by (auto simp: start_def)
    have ge: "pos \<le> start"
    proof (rule ccontr)
      assume "\<not> pos \<le> start"
      then have lt: "start < pos" "pos \<le> sep" by (auto simp: sep_def)
      have "word_byte (page ! (pos - 1))" using ws(2) [of "pos - 1"] lt by simp
      moreover have "\<not> stopByte (page ! pos)"
      proof (cases "pos = sep")
        case True
        then show ?thesis using bytes(1) stop_not_word by metis
      next
        case False
        then have "word_byte (page ! pos)" using ws(2) [of pos] lt by simp
        then show ?thesis using stop_not_word by blast
      qed
      ultimately show False using less.prems lt bytes(4) by (auto simp: clean_at_def)
    qed
    have hit: "p = start \<and> isInlineScheme (slice_of page start sep) \<and> inlineEnd (drop (sep + 3) page) > 0 \<and>
        e = sep + 3 + inlineEnd (drop (sep + 3) page)"
      if m: "node_match page p = Some e" and p: "pos \<le> p" "p < sep + 3" for p e
    proof -
      obtain s' where s': "p \<le> s'" "has_prefix ''://'' (drop s' page)" "wordStart page s' = p"
          "isInlineScheme (slice_of page p s')" "inlineEnd (drop (s' + 3) page) > 0"
          "e = s' + 3 + inlineEnd (drop (s' + 3) page)"
        using m unfolding node_match_iff by blast
      note b' = sep_bytes [OF s'(2)]
      have w': "\<And>k. p \<le> k \<Longrightarrow> k < s' \<Longrightarrow> word_byte (page ! k)"
        using wordStart_iff [of s' page p] b'(4) s'(3) by auto
      have "s' = sep"
      proof (cases s' sep rule: linorder_cases)
        case less
        then show ?thesis using first [of s'] p s' by simp
      next
        case greater
        show ?thesis
        proof (cases "p \<le> sep")
          case True
          then show ?thesis using w' [of sep] greater bytes(1) slash_not_word by simp
        next
          case False
          then have "p = sep + 1 \<or> p = sep + 2" using p by arith
          then have "page ! p = CHR ''/''" using bytes(2,3) by auto
          then have "p = s'" using w' [of p] s'(1) slash_not_word by (cases "p = s'") auto
          then show ?thesis using b'(1) \<open>page ! p = CHR ''/''\<close> by simp
        qed
      qed
      then show ?thesis using s' start_def by simp
    qed
    have step: "inline_from page pos =
        (if inlineEnd (drop (sep + 3) page) > 0 \<and> isInlineScheme (slice_of page start sep)
         then trim_right trimSet (slice_of page start (sep + 3 + inlineEnd (drop (sep + 3) page)))
              # inline_from page (sep + 3 + inlineEnd (drop (sep + 3) page))
         else inline_from page (sep + 3))"
      using Some by (subst inline_from.simps) (simp add: Let_def schemeSep_len sep_def start_def)
    show ?thesis
    proof (cases "inlineEnd (drop (sep + 3) page) > 0 \<and> isInlineScheme (slice_of page start sep)")
      case True
      let ?e = "sep + 3 + inlineEnd (drop (sep + 3) page)"
      have m: "node_match page start = Some ?e"
        unfolding node_match_iff using True ws(1) pre start_def by blast
      have skip: "FindAll (node_match page) (length page) pos = FindAll (node_match page) (length page) start"
      proof (rule FindAll_skip [OF ge])
        fix p assume "pos \<le> p" "p < start"
        then show "node_match page p = None" using hit [of p] ws(1) by (cases "node_match page p") fastforce+
      qed
      have "FindAll (node_match page) (length page) start = (start, ?e) # FindAll (node_match page) (length page) ?e"
        using m bytes(4) ws(1) by (intro FindAll_hit) auto
      moreover have "inline_from page ?e = page_matches (node_match page) page ?e"
        using bytes(4) ge ws(1) by (intro less.hyps clean_at_run) auto
      ultimately show ?thesis using True by (simp add: step page_matches_def skip)
    next
      case False
      have skip: "FindAll (node_match page) (length page) pos = FindAll (node_match page) (length page) (sep + 3)"
      proof (rule FindAll_skip)
        fix p assume "pos \<le> p" "p < sep + 3"
        then show "node_match page p = None" using hit [of p] False by (cases "node_match page p") auto
      qed (simp add: sep_def)
      have "clean_at page (sep + 3)" using bytes(3) slash_not_word by (simp add: clean_at_def)
      then have "inline_from page (sep + 3) = page_matches (node_match page) page (sep + 3)"
        using bytes(4) by (intro less.hyps) (auto simp: sep_def)
      moreover have "inline_from page pos = inline_from page (sep + 3)" using False step by (simp only: if_False)
      ultimately show ?thesis by (simp add: page_matches_def skip)
    qed
  qed
qed

lemma extractInlineNodes_matches: "extractInlineNodes page = page_matches (node_match page) page 0"
  unfolding extractInlineNodes_def by (rule inline_from_matches) (simp add: clean_at_def)

section \<open>One buffer\<close>

lemma inline_total_sum: "inline_total page pos n = n + sum_list (map length (inline_from page pos))"
proof (induction page pos n rule: inline_total.induct)
  case (1 page pos n)
  show ?case
    unfolding inline_total.simps [of page pos n] inline_from.simps [of page pos]
    using 1 by (auto simp: Let_def split: option.splits)
qed

lemma inline_fill_views:
  "inline_fill page pos buf dst = (dst @ inline_from page pos, buf @ concat (inline_from page pos))"
proof (induction page pos buf dst rule: inline_fill.induct)
  case (1 page pos buf dst)
  show ?case
    unfolding inline_fill.simps [of page pos buf dst] inline_from.simps [of page pos]
    using 1 by (auto simp: Let_def UnsafeString_def split: option.splits)
qed

lemma trim_right_keeps: "c \<in> set s \<Longrightarrow> c \<notin> set cutset \<Longrightarrow> trim_right cutset s \<noteq> []"
  by (auto simp: trim_right_def dropWhile_eq_Nil_conv)

lemma inline_from_nonempty: "[] \<notin> set (inline_from page pos)"
proof (induction page pos rule: inline_from.induct)
  case (1 page pos)
  have keep: "trim_right trimSet (slice_of page (wordStart page (pos + i)) e) \<noteq> []"
    if i: "index_str schemeSep (drop pos page) = Some i" and e: "e > pos + i + length schemeSep" for i e
  proof -
    let ?sep = "pos + i" and ?st = "wordStart page (pos + i)"
    have pre: "has_prefix ''://'' (drop ?sep page)"
      using index_str_first [OF i] by (simp add: schemeSep_def add.commute)
    note b = sep_bytes [OF pre]
    have st: "?st \<le> ?sep" by (simp add: wordStart_def)
    have e3: "e > ?sep + 3" using e by (simp add: schemeSep_def)
    have "page ! (?sep + 1) \<in> set (slice_of page ?st e)"
      unfolding slice_of_def in_set_conv_nth using b(4) st e3
      by (intro exI [of _ "?sep + 1 - ?st"]) auto
    moreover have "page ! (?sep + 1) \<notin> set trimSet" unfolding b(2) by (simp add: trimSet_def)
    ultimately show ?thesis by (rule trim_right_keeps)
  qed
  show ?case
    unfolding inline_from.simps [of page pos]
    using 1 keep by (auto simp: Let_def split: option.splits) (metis less_add_same_cancel1 option.inject)
qed

lemma appendInlineNodes_eq: "appendInlineNodes dst text = dst @ extractInlineNodes text"
proof (cases "inline_total text 0 0 = 0")
  case True
  then have "\<forall>x \<in> set (inline_from text 0). x = []"
    by (simp add: inline_total_sum sum_list_eq_0_iff)
  then have "inline_from text 0 = []" using inline_from_nonempty [of "text" 0]
    by (cases "inline_from text 0") auto
  then show ?thesis using True by (simp add: appendInlineNodes_def extractInlineNodes_def)
qed (simp add: appendInlineNodes_def inline_fill_views extractInlineNodes_def)


section \<open>Messages\<close>

text \<open>A boundary cuts the text at its attribute; the tail resumes at the attribute's value.\<close>

lemma next_message_cut:
  "next_message_from page pos = (seg, mid, rest) \<Longrightarrow>
     (if mid = 0 then seg = page \<and> rest = [] else page = seg @ dataPost @ rest)"
proof (induction page pos rule: next_message_from.induct)
  case (1 page pos)
  show ?case
  proof (cases "index_str dataPost (drop pos page)")
    case None
    then show ?thesis using "1.prems" by (subst (asm) next_message_from.simps) auto
  next
    case (Some i)
    let ?val = "pos + i + length dataPost"
    show ?thesis
    proof (cases "index_byte CHR 0x22 (drop ?val page)")
      case None
      then show ?thesis using "1.prems" Some by (subst (asm) next_message_from.simps) (auto simp: Let_def)
    next
      case (Some q)
      note i = \<open>index_str dataPost (drop pos page) = Some i\<close>
      have cut: "page = take (pos + i) page @ dataPost @ drop ?val page"
      proof -
        have "drop pos page = take i (drop pos page) @ dataPost @ drop (i + length dataPost) (drop pos page)"
          using index_str_Some [OF i] by blast
        moreover have "i + length dataPost \<le> length page - pos" using index_str_Some [OF i] by simp
        ultimately have "drop (pos + i) page = dataPost @ drop ?val page"
          using index_str_first [OF i] unfolding has_prefix_def
          by (metis add.commute append_take_drop_id drop_drop)
        then show ?thesis by (metis append_take_drop_id)
      qed
      show ?thesis
      proof (cases "postID (take q (drop ?val page)) = 0")
        case True
        then have "next_message_from page ?val = (seg, mid, rest)"
          using "1.prems" i Some by (subst (asm) next_message_from.simps) (simp add: Let_def)
        then show ?thesis using 1(1) [OF i refl Some refl] True by simp
      next
        case False
        then have "next_message_from page pos = (take (pos + i) page, postID (take q (drop ?val page)), drop ?val page)"
          using i Some by (subst next_message_from.simps) (simp add: Let_def)
        then have "seg = take (pos + i) page" "rest = drop ?val page" "mid \<noteq> 0"
          using False "1.prems" by auto
        then show ?thesis using cut by simp
      qed
    qed
  qed
qed

lemma hd_itoa_nonzero: "n \<noteq> 0 \<Longrightarrow> hd (itoa n) \<noteq> CHR ''0''"
proof (cases "n < 10")
  case True
  assume "n \<noteq> 0"
  then have "byte (char_of (48 + n)) \<noteq> byte CHR ''0''" using True by simp
  moreover have "itoa n = [char_of (48 + n)]" using True by (subst itoa.simps) simp
  ultimately show ?thesis by (metis list.sel(1))
qed (simp add: hd_itoa)

lemma postID_iff:
  assumes "n \<noteq> 0"
  shows "postID val = n \<longleftrightarrow> (\<exists>chat. chat \<noteq> [] \<and> val = chat @ CHR ''/'' # itoa n \<and> n < 2 ^ 64)"
proof
  assume p: "postID val = n"
  then obtain i where i: "last_index_byte CHR ''/'' val = Some i" "i \<noteq> 0"
      and d: "drop (Suc i) val \<noteq> []" "hd (drop (Suc i) val) \<noteq> CHR ''0''"
        "parse_uint 64 (drop (Suc i) val) = Some n"
    using assms by (auto simp: postID_def Let_def split: option.splits if_splits)
  have v: "val = take i val @ CHR ''/'' # drop (Suc i) val"
    using last_index_byte_Some [OF i(1)] id_take_nth_drop [of i val] by auto
  have "drop (Suc i) val = itoa n"
    using d itoa_dec_value [of "drop (Suc i) val"] by (auto simp: parse_uint_Some)
  then show "\<exists>chat. chat \<noteq> [] \<and> val = chat @ CHR ''/'' # itoa n \<and> n < 2 ^ 64"
    using v i last_index_byte_Some [OF i(1)] d(3)
    by (intro exI [of _ "take i val"]) (auto simp: parse_uint_Some)
next
  assume "\<exists>chat. chat \<noteq> [] \<and> val = chat @ CHR ''/'' # itoa n \<and> n < 2 ^ 64"
  then obtain chat where c: "chat \<noteq> []" "val = chat @ CHR ''/'' # itoa n" "n < 2 ^ 64" by blast
  have "CHR ''/'' \<notin> set (itoa n)" by (rule not_in_itoa) (simp add: is_digit_def)
  then have "last_index_byte CHR ''/'' val = Some (length chat)" using c by (simp add: last_index_byte_append)
  moreover have "hd (itoa n) \<noteq> CHR ''0''" using assms by (rule hd_itoa_nonzero)
  ultimately show "postID val = n" using c by (simp add: postID_def)
qed


section \<open>Entities\<close>

text \<open>
  What the package relies on of \<^verbatim>\<open>html.UnescapeString\<close>: bytes outside a reference are copied, a
  reference decodes in its window as it does inside a page, and the named ones decode as HTML says.
\<close>

definition html_contract :: "(string \<Rightarrow> string) \<Rightarrow> bool" where
  "html_contract un \<longleftrightarrow>
     un [] = [] \<and>
     (\<forall>a s. CHR ''&'' \<notin> set a \<longrightarrow> un (a @ s) = a @ un s) \<and>
     (\<forall>t. let s = CHR ''&'' # t in un s = un (take (entityEnd s) s) @ un (drop (entityEnd s) s)) \<and>
     (\<forall>ref r. knownEntity ref = Some r \<longrightarrow> un ref = encode_rune r)"

lemma entityEnd_pos: "1 \<le> entityEnd s"
  by (simp add: entityEnd_def Let_def)

lemma entityEnd_le: "entityEnd (c # t) \<le> length (c # t)"
  using length_takeWhile_le [of entity_byte t] by (auto simp: entityEnd_def Let_def)

lemma unescape_loop_amp:
  "unescape_loop un buf (CHR ''&'' # t) =
     (let s = CHR ''&'' # t; ref = take (entityEnd s) s
      in unescape_loop un (buf @ (case knownEntity ref of Some r \<Rightarrow> encode_rune r | None \<Rightarrow> un ref))
           (drop (entityEnd s) s))"
proof -
  have "length (take (entityEnd (CHR ''&'' # t)) (CHR ''&'' # t)) = entityEnd (CHR ''&'' # t)"
    using entityEnd_le [of "CHR ''&''" t] by simp
  then show ?thesis by (subst unescape_loop.simps) (simp add: Let_def)
qed

lemma unescape_loop_eq:
  assumes "html_contract un"
  shows "unescape_loop un buf rest = buf @ un rest"
  using assms
proof (induction un buf rest rule: unescape_loop.induct)
  case (1 un buf rest)
  note assms = "1.prems"
  show ?case
  proof (cases rest)
    case Nil
    then show ?thesis using assms by (simp add: unescape_loop.simps html_contract_def)
  next
    case (Cons c t)
    show ?thesis
    proof (cases "c = CHR ''&''")
      case False
      show ?thesis
      proof (cases "index_byte CHR ''&'' rest")
        case None
        then have "un (rest @ []) = rest @ un []"
          using assms unfolding html_contract_def by (metis index_byte_None)
        then have u: "un rest = rest" using assms by (simp add: html_contract_def)
        have "unescape_loop un buf rest = buf @ rest"
          by (subst unescape_loop.simps) (use None Cons False in auto)
        then show ?thesis using u by simp
      next
        case (Some j)
        have "CHR ''&'' \<notin> set (take j rest)" using index_byte_Some [OF Some] by blast
        then have "un (take j rest @ drop j rest) = take j rest @ un (drop j rest)"
          using assms unfolding html_contract_def by metis
        moreover have "unescape_loop un buf rest = unescape_loop un (buf @ take j rest) (drop j rest)"
          by (subst unescape_loop.simps) (use Some Cons False in auto)
        ultimately show ?thesis using 1(1) [OF Cons False Some assms] by simp
      qed
    next
      case True
      let ?ref = "take (entityEnd rest) rest"
      have len: "length ?ref = entityEnd rest" using entityEnd_le [of c t] Cons by simp
      have un: "(case knownEntity ?ref of Some r \<Rightarrow> encode_rune r | None \<Rightarrow> un ?ref) = un ?ref"
        using assms by (auto simp: html_contract_def split: option.splits)
      have win: "un rest = un ?ref @ un (drop (entityEnd rest) rest)"
        using assms True Cons unfolding html_contract_def Let_def by blast
      have step: "unescape_loop un buf rest = unescape_loop un (buf @ un ?ref) (drop (entityEnd rest) rest)"
        using unescape_loop_amp [of un buf t] un unfolding Cons True Let_def by simp
      have neq: "\<not> c \<noteq> CHR ''&''" using True by simp
      have "unescape_loop un (buf @ un ?ref) (drop (entityEnd rest) rest) =
          (buf @ un ?ref) @ un (drop (entityEnd rest) rest)"
        using 1(2) [OF Cons neq refl refl assms] unfolding un len .
      then show ?thesis using step win by simp
    qed
  qed
qed


lemma unescapeInto_eq:
  assumes "html_contract un"
  shows "unescapeInto un page = un page"
proof (cases "index_byte CHR ''&'' page")
  case None
  then have "un (page @ []) = page @ un []"
    using assms unfolding html_contract_def by (metis index_byte_None)
  then show ?thesis using None assms by (simp add: unescapeInto_def html_contract_def)
next
  case (Some i)
  have "CHR ''&'' \<notin> set (take i page)" using index_byte_Some [OF Some] by blast
  then have "un (take i page @ drop i page) = take i page @ un (drop i page)"
    using assms unfolding html_contract_def by metis
  then show ?thesis
    using Some by (simp add: unescapeInto_def UnsafeString_def unescape_loop_eq [OF assms])
qed

text \<open>A function with the contract: references by their windows, unknown ones left alone.\<close>

definition plain_unescape :: "string \<Rightarrow> string" where
  "plain_unescape s = unescape_loop (\<lambda>ref. ref) [] s"

lemma unescape_loop_buf: "unescape_loop un (b1 @ b2) rest = b1 @ unescape_loop un b2 rest"
proof (induction "length rest" arbitrary: b2 rest rule: less_induct)
  case less
  show ?case
  proof (cases rest)
    case Nil
    then show ?thesis by (simp add: unescape_loop.simps)
  next
    case (Cons c t)
    show ?thesis
    proof (cases "c = CHR ''&''")
      case True
      have "length (drop (entityEnd rest) rest) < length rest"
        using entityEnd_pos [of rest] Cons by simp
      then show ?thesis
        using less [of "drop (entityEnd rest) rest"] unfolding Cons True unescape_loop_amp Let_def by simp
    next
      case False
      show ?thesis
      proof (cases "index_byte CHR ''&'' rest")
        case None
        then show ?thesis
          using False unfolding unescape_loop.simps [of un "b1 @ b2" rest] unescape_loop.simps [of un b2 rest]
          by (simp add: Cons)
      next
        case (Some j)
        have "j \<noteq> 0" using Some Cons False by (auto split: if_splits)
        then have "length (drop j rest) < length rest" using Cons by simp
        note IH = less [OF this]
        have "unescape_loop un b rest = unescape_loop un (b @ take j rest) (drop j rest)" for b
          by (subst unescape_loop.simps) (use Some Cons False in auto)
        then show ?thesis using IH [of "b2 @ take j rest"] by simp
      qed
    qed
  qed
qed

lemma plain_unescape_char: "c \<noteq> CHR ''&'' \<Longrightarrow> plain_unescape (c # t) = c # plain_unescape t"
proof -
  assume c: "c \<noteq> CHR ''&''"
  show ?thesis
  proof (cases "index_byte CHR ''&'' t")
    case None
    have "plain_unescape t = t"
      by (cases t) (use None in \<open>auto simp: plain_unescape_def unescape_loop.simps split: if_splits\<close>)
    moreover have "plain_unescape (c # t) = c # t"
      using None c by (simp add: plain_unescape_def unescape_loop.simps [of _ _ "c # t"])
    ultimately show ?thesis by simp
  next
    case (Some j)
    have "plain_unescape (c # t) = unescape_loop (\<lambda>ref. ref) (c # take j t) (drop j t)"
      using Some c by (simp add: plain_unescape_def unescape_loop.simps [of _ _ "c # t"])
    also have "\<dots> = c # take j t @ plain_unescape (drop j t)"
      using unescape_loop_buf [of _ "c # take j t" "[]"] by (simp add: plain_unescape_def)
    also have "take j t @ plain_unescape (drop j t) = plain_unescape t"
    proof (cases "j = 0")
      case False
      then obtain d u where t: "t = d # u" "d \<noteq> CHR ''&''" using Some by (cases t) (auto split: if_splits)
      have "plain_unescape t = unescape_loop (\<lambda>ref. ref) (take j t) (drop j t)"
        using Some t(2) unfolding t(1) plain_unescape_def by (subst unescape_loop.simps) auto
      also have "\<dots> = take j t @ plain_unescape (drop j t)"
        using unescape_loop_buf [of _ "take j t" "[]"] by (simp add: plain_unescape_def)
      finally show ?thesis by simp
    qed simp
    finally show ?thesis .
  qed
qed

lemma plain_unescape_ref:
  "plain_unescape (CHR ''&'' # t) =
     (let s = CHR ''&'' # t; ref = take (entityEnd s) s
      in (case knownEntity ref of Some r \<Rightarrow> encode_rune r | None \<Rightarrow> ref) @ plain_unescape (drop (entityEnd s) s))"
  unfolding plain_unescape_def unescape_loop_amp Let_def append_Nil
  by (subst append_Nil2 [symmetric], subst unescape_loop_buf) (rule refl)

lemma entityEnd_window: "entityEnd (take (entityEnd (c # t)) (c # t)) = entityEnd (c # t)"
proof -
  define w where "w = takeWhile entity_byte t"
  have semi: "\<not> entity_byte CHR '';''" by (simp add: entity_byte_def is_digit_def is_lower_def is_upper_def)
  have all: "list_all entity_byte w" unfolding w_def list_all_iff by (blast dest: set_takeWhileD)
  have tw: "takeWhile entity_byte w = w" "takeWhile entity_byte (w @ [CHR '';'']) = w"
    using all semi by (simp_all add: list_all_iff takeWhile_append2 takeWhile_eq_all_conv)
  have wt: "take (length w) t = w" unfolding w_def by (rule takeWhile_eq_take [symmetric])
  show ?thesis
  proof (cases "length w < length t \<and> t ! length w = CHR '';''")
    case True
    have e: "entityEnd (c # t) = Suc (Suc (length w))" using True by (simp add: entityEnd_def Let_def w_def)
    have "take (Suc (length w)) t = w @ [CHR '';'']" using True wt by (simp add: take_Suc_conv_app_nth)
    then have tk: "take (entityEnd (c # t)) (c # t) = c # w @ [CHR '';'']" by (simp add: e)
    have "entityEnd (c # w @ [CHR '';'']) = Suc (Suc (length w))" by (simp add: entityEnd_def Let_def tw nth_append)
    then show ?thesis using tk e by (simp only:)
  next
    case False
    have e: "entityEnd (c # t) = Suc (length w)" using False by (auto simp: entityEnd_def Let_def w_def)
    have tk: "take (entityEnd (c # t)) (c # t) = c # w" by (simp add: e wt)
    have "entityEnd (c # w) = Suc (length w)" by (simp add: entityEnd_def Let_def tw)
    then show ?thesis using tk e by (simp only:)
  qed
qed

lemma plain_unescape_contract: "html_contract plain_unescape"
  unfolding html_contract_def
proof (intro conjI allI impI)
  show e: "plain_unescape [] = []" by (simp add: plain_unescape_def unescape_loop.simps)
  show "CHR ''&'' \<notin> set a \<Longrightarrow> plain_unescape (a @ s) = a @ plain_unescape s" for a s
    by (induction a) (auto simp: plain_unescape_char)
  show "let s = CHR ''&'' # t in plain_unescape s =
      plain_unescape (take (entityEnd s) s) @ plain_unescape (drop (entityEnd s) s)" for t
  proof -
    let ?s = "CHR ''&'' # t"
    obtain u where u: "take (entityEnd ?s) ?s = CHR ''&'' # u"
      using entityEnd_pos [of ?s] by (cases "entityEnd ?s") auto
    have w: "entityEnd (CHR ''&'' # u) = entityEnd ?s" using entityEnd_window [of "CHR ''&''" t] u by simp
    have l: "length (CHR ''&'' # u) = entityEnd ?s"
      using entityEnd_le [of "CHR ''&''" t] by (simp flip: u)
    have A: "plain_unescape (CHR ''&'' # u) =
        (case knownEntity (CHR ''&'' # u) of Some r \<Rightarrow> encode_rune r | None \<Rightarrow> CHR ''&'' # u)"
    proof -
      have "take (entityEnd ?s) (CHR ''&'' # u) = CHR ''&'' # u" "drop (entityEnd ?s) (CHR ''&'' # u) = []"
        using l by simp_all
      then show ?thesis using plain_unescape_ref [of u] by (simp only: Let_def w e append_Nil2)
    qed
    have B: "plain_unescape ?s = (case knownEntity (CHR ''&'' # u) of Some r \<Rightarrow> encode_rune r | None \<Rightarrow> CHR ''&'' # u) @
        plain_unescape (drop (entityEnd ?s) ?s)"
      using plain_unescape_ref [of t] unfolding Let_def u .
    show ?thesis by (simp only: Let_def B u A)
  qed
  show "knownEntity ref = Some r \<Longrightarrow> plain_unescape ref = encode_rune r" for ref r
    unfolding knownEntity_def
    by (auto split: if_splits simp: plain_unescape_ref entityEnd_def knownEntity_def Let_def e
      entity_byte_def is_digit_def is_lower_def is_upper_def)
qed

section \<open>The contracts\<close>

text \<open>
  C40: Scanning a page for urls by hand finds what the expression finds: the leftmost, longest,
  non-overlapping runs of non-separator runes behind an https scheme, trailing punctuation dropped.
\<close>

theorem urls_are_regexp_matches:
  "extractURLs page =
     map (\<lambda>(i, j). trim_right trimSet (slice_of page i j)) (FindAll (url_match page) (length page) 0)"
  using extractURLs_matches [of page] by (simp add: page_matches_def)

text \<open>
  Scanning for inline nodes from their separators finds what the expression finds from the word
  boundary, and the two-pass copy into one buffer hands out those nodes, the buffer filled to the
  byte the first pass counted.
\<close>

theorem inline_nodes_are_regexp_matches:
  "appendInlineNodes dst page =
     dst @ map (\<lambda>(i, j). trim_right trimSet (slice_of page i j)) (FindAll (node_match page) (length page) 0) \<and>
   length (snd (inline_fill page 0 [] dst)) = inline_total page 0 0"
  using appendInlineNodes_eq [of dst page] extractInlineNodes_matches [of page]
  by (simp add: page_matches_def inline_fill_views inline_total_sum length_concat)

text \<open>
  A boundary's id is the decimal number behind the last slash of its value, and only its
  canonical spelling counts: no value mints the id another spelling of it already owns.
\<close>

theorem message_id_is_canonical:
  assumes "n \<noteq> 0"
  shows "postID val = n \<longleftrightarrow> (\<exists>chat. chat \<noteq> [] \<and> val = chat @ CHR ''/'' # itoa n \<and> n < 2 ^ 64)"
  using assms by (rule postID_iff)

lemma message_id_is_canonical_witness:
  "postID ''chan/12'' = 12 \<and> postID ''chan/012'' \<noteq> 12"
proof -
  have i: "itoa 12 = ''12''" by code_simp
  have "(12 :: nat) \<noteq> 0" by simp
  from message_id_is_canonical [OF this, of "''chan/12''"] message_id_is_canonical [OF this, of "''chan/012''"]
  show ?thesis
    unfolding i by (auto intro!: exI [of _ "''chan''"] simp: append_eq_Cons_conv Cons_eq_append_conv)
qed

text \<open>
  Decoding a page's entities window by window, the common ones from a table, gives what
  \<^verbatim>\<open>html.UnescapeString\<close> gives for the whole page.
\<close>

theorem unescape_is_html:
  assumes "html_contract un"
  shows "unescapeInto un page = un page"
  using assms by (rule unescapeInto_eq)

lemma unescape_is_html_witness: "unescapeInto plain_unescape ''a&amp;b&#x;'' = ''a&b&#x;''"
proof -
  have "encode_rune 38 = ''&''" by code_simp
  then have "plain_unescape ''a&amp;b&#x;'' = ''a&b&#x;''"
    by (simp add: plain_unescape_char plain_unescape_ref entityEnd_def knownEntity_def Let_def
      entity_byte_def is_digit_def is_lower_def is_upper_def, simp add: plain_unescape_def unescape_loop.simps)
  then show ?thesis using unescape_is_html [OF plain_unescape_contract, of "''a&amp;b&#x;''"] by simp
qed

end
