(* ===== verification/Metrics.thy ===== *)
theory Metrics
  imports Cycle "HOL-Library.List_Lexorder"
begin

text \<open>
  \<^verbatim>\<open>internal/metrics/metrics.go\<close> and \<^verbatim>\<open>crawl.go\<close>: the cycle report as the Prometheus exposition. A writer is
  the list of what it appends up to each \<^verbatim>\<open>endLine\<close>; \<open>write_chunks\<close> is the buffer those appends go
  through. A float64 is a value of the abstract type \<open>'f\<close>: its conversions, its addition and its
  shortest decimal are the fields of \<open>render_env\<close>, as are the help texts.
\<close>

section \<open>The buffer\<close>

record exposition =
  ex_written :: string
  ex_b :: string

definition flushAt :: nat where
  "flushAt = 32 * 1024"

definition expo_flush :: "exposition \<Rightarrow> exposition" where
  "expo_flush e = (if ex_b e = [] then e else \<lparr>ex_written = ex_written e @ ex_b e, ex_b = []\<rparr>)"

definition endLine :: "exposition \<Rightarrow> exposition" where
  "endLine e0 =
     (let e = e0\<lparr>ex_b := ex_b e0 @ [CHR 0x0A]\<rparr>
      in if length (ex_b e) \<ge> flushAt then expo_flush e else e)"

definition put_chunk :: "string \<Rightarrow> exposition \<Rightarrow> exposition" where
  "put_chunk c e = endLine (e\<lparr>ex_b := ex_b e @ c\<rparr>)"

definition write_chunks :: "string list \<Rightarrow> string" where
  "write_chunks cs = ex_written (expo_flush (fold put_chunk cs \<lparr>ex_written = [], ex_b = []\<rparr>))"

section \<open>Labels\<close>

definition labelFilter :: string where "labelFilter = ''filter''"
definition labelSource :: string where "labelSource = ''source''"
definition labelFeed :: string where "labelFeed = ''feed''"
definition labelOwner :: string where "labelOwner = ''owner''"
definition labelReason :: string where "labelReason = ''reason''"
definition labelPhase :: string where "labelPhase = ''phase''"
definition labelStage :: string where "labelStage = ''stage''"
definition ownerCrawler :: string where "ownerCrawler = ''crawler''"
definition ownerCurated :: string where "ownerCurated = ''curated''"

text \<open>\<^verbatim>\<open>utf8.ValidString\<close>.\<close>

function valid_utf8 :: "string \<Rightarrow> bool" where
  "valid_utf8 s =
     (if s = [] then True
      else let (r, n) = decode_rune s in \<not> (r = runeError \<and> n = 1) \<and> valid_utf8 (drop n s))"
  by pat_completeness auto
termination
proof (relation "measure length", goal_cases)
  case (2 s x r n)
  then show ?case using decode_rune_size [of s] by (cases "decode_rune s") auto
qed simp

declare valid_utf8.simps [simp del]

definition invalidLabelValue :: string where
  "invalidLabelValue = ''invalid_utf8''"

definition escape_label_byte :: "char \<Rightarrow> string" where
  "escape_label_byte c =
     (if c = CHR 0x5C then [CHR 0x5C, CHR 0x5C]
      else if c = CHR 0x22 then [CHR 0x5C, CHR 0x22]
      else if c = CHR 0x0A then [CHR 0x5C, CHR ''n'']
      else [c])"

definition labelValue :: "string \<Rightarrow> string" where
  "labelValue s =
     (if \<not> valid_utf8 s then invalidLabelValue
      else if \<not> list_ex (\<lambda>c. c \<in> set [CHR 0x5C, CHR 0x22, CHR 0x0A]) s then s
      else concat (map escape_label_byte s))"

definition label :: "string \<Rightarrow> string \<Rightarrow> string" where
  "label key val = key @ [CHR ''='', CHR 0x22] @ val @ [CHR 0x22]"

definition labelEsc :: "string \<Rightarrow> string \<Rightarrow> string" where
  "labelEsc key val = key @ [CHR ''='', CHR 0x22] @ labelValue val @ [CHR 0x22]"

section \<open>Samples\<close>

record 'f render_env =
  rv_doc :: "string \<Rightarrow> string"
  rv_of_int :: "int \<Rightarrow> 'f"
  rv_seconds :: "int \<Rightarrow> 'f"
  rv_add :: "'f \<Rightarrow> 'f \<Rightarrow> 'f"
  rv_fmt :: "'f \<Rightarrow> string"

definition fmt_int :: "int \<Rightarrow> string" where
  "fmt_int n = (if n < 0 then CHR ''-'' # itoa (nat (- n)) else itoa (nat n))"

definition help_chunk :: "'f render_env \<Rightarrow> string \<Rightarrow> string \<Rightarrow> string" where
  "help_chunk rv name typ =
     ''# HELP '' @ name @ '' '' @ rv_doc rv name @ [CHR 0x0A] @ ''# TYPE '' @ name @ '' '' @ typ"

definition sample_head :: "string \<Rightarrow> string \<Rightarrow> string \<Rightarrow> string" where
  "sample_head name sfx labels =
     name @ sfx @ (if labels \<noteq> [] then ''{'' @ labels @ ''}'' else []) @ '' ''"

definition floatSample :: "'f render_env \<Rightarrow> string \<Rightarrow> string \<Rightarrow> string \<Rightarrow> 'f \<Rightarrow> string" where
  "floatSample rv name sfx labels v = sample_head name sfx labels @ rv_fmt rv v"

definition intSample :: "string \<Rightarrow> string \<Rightarrow> string \<Rightarrow> int \<Rightarrow> string" where
  "intSample name sfx labels n = sample_head name sfx labels @ fmt_int n"

definition sample :: "'f render_env \<Rightarrow> string \<Rightarrow> string \<Rightarrow> 'f \<Rightarrow> string" where
  "sample rv name labels v = floatSample rv name [] labels v"

definition sampleLit :: "'f render_env \<Rightarrow> string \<Rightarrow> string \<Rightarrow> string \<Rightarrow> 'f \<Rightarrow> string" where
  "sampleLit rv name key val v = name @ ''{'' @ label key val @ ''} '' @ rv_fmt rv v"

definition sampleEsc :: "'f render_env \<Rightarrow> string \<Rightarrow> string \<Rightarrow> string \<Rightarrow> 'f \<Rightarrow> string" where
  "sampleEsc rv name key val v = name @ ''{'' @ labelEsc key val @ ''} '' @ rv_fmt rv v"

definition gauge :: "'f render_env \<Rightarrow> string \<Rightarrow> 'f \<Rightarrow> string list" where
  "gauge rv name v = [help_chunk rv name ''gauge'', sample rv name [] v]"

definition counter :: "'f render_env \<Rightarrow> string \<Rightarrow> int \<Rightarrow> string list" where
  "counter rv name v = [help_chunk rv name ''counter'', intSample name [] [] v]"

abbreviation num :: "'f render_env \<Rightarrow> nat \<Rightarrow> 'f" where
  "num rv n \<equiv> rv_of_int rv (int n)"

section \<open>The families\<close>

text \<open>\<^verbatim>\<open>sortedKeys\<close>: the keys of a map of counts, in order.\<close>

definition sortedKeys :: "(string \<rightharpoonup> nat) \<Rightarrow> string list" where
  "sortedKeys m = sorted_list_of_set (dom m)"

definition count_at :: "(string \<rightharpoonup> nat) \<Rightarrow> string \<Rightarrow> nat" where
  "count_at m k = (case m k of None \<Rightarrow> 0 | Some n \<Rightarrow> n)"

definition writeFilters :: "'f render_env \<Rightarrow> FilterReport list \<Rightarrow> string list" where
  "writeFilters rv fs =
     (let covered = (\<lambda>f. fr_State f \<noteq> FilterAbsent \<and> fc_Measured (fr_Coverage f))
      in [help_chunk rv ''stable_filter_trusted'' ''gauge''] @
         map (\<lambda>f. sampleEsc rv ''stable_filter_trusted'' labelFilter (fr_Name f)
                    (num rv (if fr_State f = FilterRan then 1 else 0)))
             (filter (\<lambda>f. fr_State f \<noteq> FilterAbsent) fs) @
         [help_chunk rv ''stable_filter_in_nodes'' ''gauge''] @
         map (\<lambda>f. sampleEsc rv ''stable_filter_in_nodes'' labelFilter (fr_Name f) (num rv (fr_In f))) fs @
         [help_chunk rv ''stable_filter_kept_nodes'' ''gauge''] @
         map (\<lambda>f. sampleEsc rv ''stable_filter_kept_nodes'' labelFilter (fr_Name f) (num rv (fr_Kept f))) fs @
         [help_chunk rv ''stable_filter_verified_nodes'' ''gauge''] @
         map (\<lambda>f. sampleEsc rv ''stable_filter_verified_nodes'' labelFilter (fr_Name f)
                    (num rv (fc_Verified (fr_Coverage f)))) (filter covered fs) @
         [help_chunk rv ''stable_filter_unverified_nodes'' ''gauge''] @
         map (\<lambda>f. sampleEsc rv ''stable_filter_unverified_nodes'' labelFilter (fr_Name f)
                    (num rv (fc_Unverified (fr_Coverage f)))) (filter covered fs) @
         [help_chunk rv ''stable_filter_dropped_nodes'' ''gauge''] @
         concat (map (\<lambda>f. map (\<lambda>reason. sample rv ''stable_filter_dropped_nodes''
                    (labelEsc labelFilter (fr_Name f) @ '','' @ labelEsc labelReason reason)
                    (num rv (count_at (map_of (fr_Dropped f)) reason)))
                  (sortedKeys (map_of (fr_Dropped f)))) fs))"

definition writePhases :: "'f render_env \<Rightarrow> CyclePhases \<Rightarrow> string list" where
  "writePhases rv p =
     help_chunk rv ''stable_cycle_phase_duration_seconds'' ''gauge'' #
     map (\<lambda>(name, d). sampleLit rv ''stable_cycle_phase_duration_seconds'' labelPhase name (rv_seconds rv d))
       [(''fetch'', ph_Fetch p), (''merge'', ph_Merge p), (''dead_filter'', ph_DeadFilter p),
        (''probe'', ph_Probe p), (''egress'', ph_Egress p), (''publish'', ph_Publish p)]"

text \<open>A stage enters the map when it is first counted, so a map without counts is the empty one.\<close>

definition writeProbeStages :: "'f render_env \<Rightarrow> (ProbeStage \<Rightarrow> nat) \<Rightarrow> string list" where
  "writeProbeStages rv stages =
     (if list_all (\<lambda>s. stages s = 0) [StageUnknown, StageCondemned, StageConnect, StageFetch, StagePassed] then []
      else [help_chunk rv ''stable_probe_outcome_nodes'' ''gauge''] @
        map (\<lambda>s. sampleEsc rv ''stable_probe_outcome_nodes'' labelStage (stage_String s) (num rv (stages s)))
          [StageCondemned, StageConnect, StageFetch, StagePassed] @
        (if stages StageUnknown > 0
         then [sampleEsc rv ''stable_probe_outcome_nodes'' labelStage (stage_String StageUnknown)
                 (num rv (stages StageUnknown))]
         else []))"

definition writeRefusals :: "'f render_env \<Rightarrow> RefusalReport \<Rightarrow> string list" where
  "writeRefusals rv r =
     (if rf_State r \<noteq> RefusalRan then []
      else [help_chunk rv ''stable_probe_refused_nodes'' ''gauge'',
            sampleEsc rv ''stable_probe_refused_nodes'' labelReason ''unconvertible'' (num rv (rf_Unconvertible r)),
            sampleEsc rv ''stable_probe_refused_nodes'' labelReason ''unparsable'' (num rv (rf_Unparsable r))])"

definition writePrecheck :: "'f render_env \<Rightarrow> PrecheckReport \<Rightarrow> string list" where
  "writePrecheck rv p =
     (if pc_State p = PrecheckAbsent then []
      else gauge rv ''stable_precheck_trusted'' (num rv (if pc_State p = PrecheckRan then 1 else 0)) @
           gauge rv ''stable_precheck_dialled_endpoints'' (num rv (pc_Dialled p)) @
           gauge rv ''stable_precheck_refused_endpoints'' (num rv (pc_Refused p)) @
           gauge rv ''stable_precheck_unresolved_endpoints'' (num rv (pc_Unresolved p)))"

definition writeTrace :: "'f render_env \<Rightarrow> TraceReport \<Rightarrow> string list" where
  "writeTrace rv t =
     (if tp_State t \<noteq> TraceRan then []
      else gauge rv ''stable_trace_answered_nodes'' (num rv (tp_Answered t)) @
           gauge rv ''stable_trace_unanswered_nodes'' (num rv (tp_Unanswered t)) @
           gauge rv ''stable_trace_moved_nodes'' (num rv (tp_Moved t)))"

section \<open>Sources\<close>

definition dropReasons :: "string list" where
  "dropReasons = [''dns'', ''geo'', ''cidr'', ''asn'', ''geoblock'', ''ipv6'', ''unsupported'']"

definition sourceFeed :: "SourceReport \<Rightarrow> string" where
  "sourceFeed s = (if so_Feed s \<noteq> [] then so_Feed s else so_Name s)"

definition source_labels :: "SourceReport \<Rightarrow> string" where
  "source_labels s =
     labelEsc labelFeed (sourceFeed s) @ '','' @
     label labelOwner (if so_Managed s then ownerCrawler else ownerCurated) @ '','' @
     labelEsc labelSource (so_Name s)"

text \<open>
  The label sets of all sources in one arena; \<open>ends\<close> holds where each one stops.
\<close>

definition source_arena :: "SourceReport list \<Rightarrow> string \<times> nat list" where
  "source_arena ss =
     foldl (\<lambda>(labels, ends) s. let labels' = labels @ source_labels s in (labels', ends @ [length labels']))
       ([], []) ss"

definition sourceLabels :: "string \<Rightarrow> nat list \<Rightarrow> nat \<Rightarrow> string" where
  "sourceLabels arena ends i =
     (if i = 0 then take (ends ! 0) arena
      else take (ends ! i - ends ! (i - 1)) (drop (ends ! (i - 1)) arena))"

definition source_family ::
  "'f render_env \<Rightarrow> string \<Rightarrow> (SourceReport \<Rightarrow> nat) \<Rightarrow> SourceReport list \<Rightarrow> string list" where
  "source_family rv name value ss =
     (let (labels, ends) = source_arena ss
      in help_chunk rv name ''gauge'' #
         map (\<lambda>i. sample rv name (sourceLabels labels ends i) (num rv (value (ss ! i)))) [0..<length ss])"

definition drop_counts :: "SourceReport \<Rightarrow> nat list" where
  "drop_counts s = [so_DNSDrop s, so_GeoDrop s, so_CIDRDrop s, so_ASNDrop s, so_GeoBlockDrop s, so_IPv6Drop s,
     so_Unsupported s]"

definition writeSources :: "'f render_env \<Rightarrow> SourceReport list \<Rightarrow> string list" where
  "writeSources rv ss =
     source_family rv ''stable_source_nodes_total'' so_Total ss @
     source_family rv ''stable_source_valid_nodes'' so_Valid ss @
     source_family rv ''stable_source_tested_nodes'' so_Tested ss @
     source_family rv ''stable_source_published_nodes'' so_Filtered ss @
     help_chunk rv ''stable_source_dropped_nodes'' ''gauge'' #
     concat (map (\<lambda>s. map (\<lambda>(reason, n). sample rv ''stable_source_dropped_nodes''
                 (label labelReason reason @ '','' @ labelEsc labelSource (so_Name s)) (num rv n))
               (zip dropReasons (drop_counts s))) ss)"

section \<open>Histograms\<close>

definition speedBuckets :: "int list" where
  "speedBuckets = [5, 10, 15, 25, 30, 50, 100, 250, 500]"

definition latencyBuckets :: "int list" where
  "latencyBuckets = [100, 250, 500, 800, 1000, 1500, 3000, 4000, 6000, 12000]"

text \<open>The double loop: a value is added to every bucket whose bound it does not exceed.\<close>

definition bump :: "int list \<Rightarrow> int \<Rightarrow> nat list \<Rightarrow> nat list" where
  "bump buckets v counts = map2 (\<lambda>ub n. if v \<le> ub then Suc n else n) buckets counts"

definition bucket_counts :: "int list \<Rightarrow> int list \<Rightarrow> nat list" where
  "bucket_counts buckets values = fold (bump buckets) values (replicate (length buckets) 0)"

definition writeHistogram :: "'f render_env \<Rightarrow> string \<Rightarrow> int list \<Rightarrow> int list \<Rightarrow> string list" where
  "writeHistogram rv name values buckets =
     help_chunk rv name ''histogram'' #
     map2 (\<lambda>ub n. intSample name ''_bucket'' (label ''le'' (rv_fmt rv (rv_of_int rv ub))) (int n))
       buckets (bucket_counts buckets values) @
     [intSample name ''_bucket'' (label ''le'' ''+Inf'') (int (length values)),
      floatSample rv name ''_sum'' [] (foldl (\<lambda>s v. rv_add rv s (rv_of_int rv v)) (rv_of_int rv 0) values),
      intSample name ''_count'' [] (int (length values))]"

section \<open>The page\<close>

record metrics_state =
  mt_last :: "CycleReport option"
  mt_lastAt :: int
  mt_cyclesTotal :: int
  mt_cyclesFailed :: int

definition new_metrics :: metrics_state where
  "new_metrics = \<lparr>mt_last = None, mt_lastAt = 0, mt_cyclesTotal = 0, mt_cyclesFailed = 0\<rparr>"

text \<open>\<open>now\<close> is the clock in whole Unix seconds, all the page shows of it.\<close>

definition Observe :: "CycleReport \<Rightarrow> int \<Rightarrow> metrics_state \<Rightarrow> metrics_state" where
  "Observe r now m = m\<lparr>mt_last := Some r, mt_lastAt := now, mt_cyclesTotal := mt_cyclesTotal m + 1\<rparr>"

definition ObserveError :: "metrics_state \<Rightarrow> metrics_state" where
  "ObserveError m = m\<lparr>mt_cyclesTotal := mt_cyclesTotal m + 1, mt_cyclesFailed := mt_cyclesFailed m + 1\<rparr>"

definition extremes :: "'f render_env \<Rightarrow> string \<Rightarrow> string \<Rightarrow> int list \<Rightarrow> string list" where
  "extremes rv lowest highest values =
     (if values = [] then []
      else gauge rv lowest (rv_of_int rv (Min (set values))) @ gauge rv highest (rv_of_int rv (Max (set values))))"

definition writeReport :: "'f render_env \<Rightarrow> CycleReport \<Rightarrow> int \<Rightarrow> string list" where
  "writeReport rv r lastAt =
     gauge rv ''stable_sources_ok'' (num rv (cr_SourcesOK r)) @
     gauge rv ''stable_sources_total'' (num rv (cr_SourcesTotal r)) @
     gauge rv ''stable_merged_nodes'' (num rv (cr_Merged r)) @
     gauge rv ''stable_dead_skipped_nodes'' (num rv (cr_DeadSkipped r)) @
     gauge rv ''stable_probed_nodes'' (num rv (cr_Probed r)) @
     writeProbeStages rv (cr_ProbeStages r) @
     writeRefusals rv (cr_Refusals r) @
     writePrecheck rv (cr_Precheck r) @
     gauge rv ''stable_kept_nodes'' (num rv (cr_Kept r)) @
     gauge rv ''stable_geo_unknown_nodes'' (num rv (cr_GeoUnknown r)) @
     writeTrace rv (cr_Trace r) @
     (if cr_KeptCountries r = Map.empty then []
      else help_chunk rv ''stable_kept_country_nodes'' ''gauge'' #
        map (\<lambda>c. sampleEsc rv ''stable_kept_country_nodes'' ''country'' c (num rv (count_at (cr_KeptCountries r) c)))
          (sortedKeys (cr_KeptCountries r))) @
     gauge rv ''stable_cycle_duration_seconds'' (rv_seconds rv (cr_Duration r)) @
     writePhases rv (cr_Phases r) @
     gauge rv ''stable_last_success_timestamp_seconds'' (rv_of_int rv lastAt) @
     writeFilters rv (cr_Filters r) @
     writeSources rv (cr_Sources r) @
     writeHistogram rv ''stable_kept_speed_mbps'' (cr_KeptSpeeds r) speedBuckets @
     extremes rv ''stable_kept_speed_min_mbps'' ''stable_kept_speed_max_mbps'' (cr_KeptSpeeds r) @
     writeHistogram rv ''stable_kept_latency_ms'' (cr_KeptLatenciesMs r) latencyBuckets @
     extremes rv ''stable_kept_latency_min_ms'' ''stable_kept_latency_max_ms'' (cr_KeptLatenciesMs r)"

definition metrics_chunks :: "'f render_env \<Rightarrow> metrics_state \<Rightarrow> string list" where
  "metrics_chunks rv m =
     counter rv ''stable_cycles_total'' (mt_cyclesTotal m) @
     counter rv ''stable_cycle_failures_total'' (mt_cyclesFailed m) @
     (case mt_last m of None \<Rightarrow> [] | Some r \<Rightarrow> writeReport rv r (mt_lastAt m))"

definition writeMetrics :: "'f render_env \<Rightarrow> metrics_state \<Rightarrow> string" where
  "writeMetrics rv m = write_chunks (metrics_chunks rv m)"

section \<open>The crawler's counters\<close>

record CrawlStats =
  cs_TopicPages :: int
  cs_TopicLive :: int
  cs_TopicEmpty :: int
  cs_TopicDiscovered :: int
  cs_GroupEmpty :: int
  cs_GitHubSearches :: int
  cs_GitHubRepos :: int
  cs_GitHubSkipped :: int
  cs_GitHubProbed :: int
  cs_GitHubLiveFiles :: int
  cs_GitHubAccepted :: int
  cs_GitHubNovel :: int
  cs_GitHubSleeps :: int
  cs_GitHubErrors :: int
  cs_GitHubWithdrawn :: int

text \<open>The counters themselves are the current \<^verbatim>\<open>Stats\<close>; the reader subtracts an earlier reading.\<close>

definition Since :: "CrawlStats \<Rightarrow> CrawlStats \<Rightarrow> CrawlStats" where
  "Since cur prev =
     \<lparr>cs_TopicPages = cs_TopicPages cur - cs_TopicPages prev,
      cs_TopicLive = cs_TopicLive cur - cs_TopicLive prev,
      cs_TopicEmpty = cs_TopicEmpty cur - cs_TopicEmpty prev,
      cs_TopicDiscovered = cs_TopicDiscovered cur - cs_TopicDiscovered prev,
      cs_GroupEmpty = cs_GroupEmpty cur - cs_GroupEmpty prev,
      cs_GitHubSearches = cs_GitHubSearches cur - cs_GitHubSearches prev,
      cs_GitHubRepos = cs_GitHubRepos cur - cs_GitHubRepos prev,
      cs_GitHubSkipped = cs_GitHubSkipped cur - cs_GitHubSkipped prev,
      cs_GitHubProbed = cs_GitHubProbed cur - cs_GitHubProbed prev,
      cs_GitHubLiveFiles = cs_GitHubLiveFiles cur - cs_GitHubLiveFiles prev,
      cs_GitHubAccepted = cs_GitHubAccepted cur - cs_GitHubAccepted prev,
      cs_GitHubNovel = cs_GitHubNovel cur - cs_GitHubNovel prev,
      cs_GitHubSleeps = cs_GitHubSleeps cur - cs_GitHubSleeps prev,
      cs_GitHubErrors = cs_GitHubErrors cur - cs_GitHubErrors prev,
      cs_GitHubWithdrawn = cs_GitHubWithdrawn cur - cs_GitHubWithdrawn prev\<rparr>"

definition writeCrawl :: "'f render_env \<Rightarrow> CrawlStats \<Rightarrow> string list" where
  "writeCrawl rv s =
     counter rv ''stable_crawl_topic_pages_total'' (cs_TopicPages s) @
     counter rv ''stable_crawl_topic_live_total'' (cs_TopicLive s) @
     counter rv ''stable_crawl_topic_empty_total'' (cs_TopicEmpty s) @
     counter rv ''stable_crawl_topic_discovered_total'' (cs_TopicDiscovered s) @
     counter rv ''stable_crawl_group_empty_total'' (cs_GroupEmpty s) @
     counter rv ''stable_crawl_github_searches_total'' (cs_GitHubSearches s) @
     counter rv ''stable_crawl_github_repos_total'' (cs_GitHubRepos s) @
     counter rv ''stable_crawl_github_skipped_total'' (cs_GitHubSkipped s) @
     counter rv ''stable_crawl_github_probed_total'' (cs_GitHubProbed s) @
     counter rv ''stable_crawl_github_live_files_total'' (cs_GitHubLiveFiles s) @
     counter rv ''stable_crawl_github_accepted_total'' (cs_GitHubAccepted s) @
     counter rv ''stable_crawl_github_novel_endpoints_total'' (cs_GitHubNovel s) @
     counter rv ''stable_crawl_github_rate_sleeps_total'' (cs_GitHubSleeps s) @
     counter rv ''stable_crawl_github_errors_total'' (cs_GitHubErrors s) @
     counter rv ''stable_crawl_github_withdrawn_total'' (cs_GitHubWithdrawn s)"

definition CrawlHandler :: "'f render_env \<Rightarrow> CrawlStats \<Rightarrow> string" where
  "CrawlHandler rv s = write_chunks (writeCrawl rv s)"

section \<open>What the writers write\<close>

text \<open>The buffer is transparent: flushing early changes nothing the reader sees.\<close>

definition expo_text :: "exposition \<Rightarrow> string" where
  "expo_text e = ex_written e @ ex_b e"

lemma expo_text_flush [simp]: "expo_text (expo_flush e) = expo_text e"
  by (simp add: expo_text_def expo_flush_def)

lemma expo_text_put [simp]: "expo_text (put_chunk c e) = expo_text e @ c @ [CHR 0x0A]"
  by (simp add: put_chunk_def endLine_def Let_def expo_text_def expo_flush_def)

lemma expo_text_fold: "expo_text (fold put_chunk cs e) = expo_text e @ concat (map (\<lambda>c. c @ [CHR 0x0A]) cs)"
  by (induction cs arbitrary: e) auto

lemma write_chunks_concat: "write_chunks cs = concat (map (\<lambda>c. c @ [CHR 0x0A]) cs)"
proof -
  have "ex_written (expo_flush e) = expo_text e" for e
    by (simp add: expo_flush_def expo_text_def)
  then show ?thesis by (simp add: write_chunks_def expo_text_fold) (simp add: expo_text_def)
qed

text \<open>The arena hands every source its own label set.\<close>

lemma source_arena_snoc:
  "source_arena (ss @ [s]) =
     (let (labels, ends) = source_arena ss; labels' = labels @ source_labels s in (labels', ends @ [length labels']))"
  by (simp add: source_arena_def split: prod.splits)

lemma source_arena_eq:
  "source_arena ss = (concat (map source_labels ss),
     map (\<lambda>i. length (concat (map source_labels (take (Suc i) ss)))) [0..<length ss])"
proof (induction ss rule: rev_induct)
  case Nil
  then show ?case by (simp add: source_arena_def)
next
  case (snoc s ss)
  have "map (\<lambda>i. length (concat (map source_labels (take (Suc i) (ss @ [s]))))) [0..<length ss] =
      map (\<lambda>i. length (concat (map source_labels (take (Suc i) ss)))) [0..<length ss]"
    by (rule map_cong) auto
  then show ?case by (simp add: source_arena_snoc snoc)
qed

lemma sourceLabels_source:
  assumes "i < length ss"
  shows "sourceLabels (fst (source_arena ss)) (snd (source_arena ss)) i = source_labels (ss ! i)"
proof -
  let ?C = "\<lambda>xs. concat (map source_labels xs)"
  have all: "?C ss = ?C (take i ss) @ source_labels (ss ! i) @ ?C (drop (Suc i) ss)"
    using assms by (metis append_take_drop_id concat.simps(2) concat_append id_take_nth_drop list.simps(9) map_append)
  have suc: "?C (take (Suc i) ss) = ?C (take i ss) @ source_labels (ss ! i)"
    using assms by (simp add: take_Suc_conv_app_nth)
  show ?thesis
  proof (cases i)
    case 0
    then show ?thesis using assms all suc by (simp add: source_arena_eq sourceLabels_def)
  next
    case (Suc j)
    have "j < length ss" using Suc assms by simp
    then have "sourceLabels (fst (source_arena ss)) (snd (source_arena ss)) i =
        take (length (?C (take (Suc i) ss)) - length (?C (take i ss))) (drop (length (?C (take i ss))) (?C ss))"
      using assms Suc by (simp add: source_arena_eq sourceLabels_def)
    then show ?thesis by (simp add: all suc)
  qed
qed

lemma source_family_lines:
  "source_family rv name value ss =
     help_chunk rv name ''gauge'' # map (\<lambda>s. sample rv name (source_labels s) (num rv (value s))) ss"
proof -
  have "map (\<lambda>i. sample rv name (sourceLabels (fst (source_arena ss)) (snd (source_arena ss)) i) (num rv (value (ss ! i))))
      [0..<length ss] = map (\<lambda>i. sample rv name (source_labels (ss ! i)) (num rv (value (ss ! i)))) [0..<length ss]"
    by (rule map_cong) (auto simp: sourceLabels_source)
  also have "\<dots> = map (\<lambda>s. sample rv name (source_labels s) (num rv (value s))) ss"
    by (rule nth_equalityI) auto
  finally show ?thesis by (simp add: source_family_def case_prod_unfold)
qed

text \<open>A bucket counts the values under its bound, so the counts are cumulative.\<close>

lemma bump_fold_length: "length cs = length bs \<Longrightarrow> length (fold (bump bs) vs cs) = length bs"
  by (induction vs arbitrary: cs) (auto simp: bump_def)

lemma bump_fold:
  "length cs = length bs \<Longrightarrow> i < length bs \<Longrightarrow>
     fold (bump bs) vs cs ! i = cs ! i + length (filter (\<lambda>v. v \<le> bs ! i) vs)"
proof (induction vs arbitrary: cs)
  case (Cons v vs)
  have "length (bump bs v cs) = length bs" using Cons.prems by (simp add: bump_def)
  then have "fold (bump bs) vs (bump bs v cs) ! i = bump bs v cs ! i + length (filter (\<lambda>v. v \<le> bs ! i) vs)"
    using Cons by blast
  moreover have "bump bs v cs ! i = (if v \<le> bs ! i then Suc (cs ! i) else cs ! i)"
    using Cons.prems by (simp add: bump_def)
  ultimately show ?case by simp
qed simp

lemma bucket_counts_eq: "bucket_counts bs vs = map (\<lambda>ub. length (filter (\<lambda>v. v \<le> ub) vs)) bs"
  by (rule nth_equalityI) (auto simp: bucket_counts_def bump_fold bump_fold_length)

end
