(* ===== verification/Outcomes.thy ===== *)
theory Outcomes
  imports CrawlState Lines Complex_Main
begin

text \<open>
  \<^verbatim>\<open>internal/crawl/outcomes.go\<close>: reading the service's exposition back. \<^verbatim>\<open>strconv.ParseFloat\<close> is the
  parameter \<open>parse_float\<close>; a float64 is what the fold can tell apart of one. The body is what the
  stream yields before it ends or breaks.
\<close>

datatype float64 = FNaN | FInf bool | FNum rat

definition outcomesMaxBody :: nat where "outcomesMaxBody = 8 * 2 ^ 20"
definition outcomesMaxRead :: nat where "outcomesMaxRead = outcomesMaxBody + 1"
definition outcomesMaxLine :: nat where "outcomesMaxLine = 2 ^ 20"
definition outcomesCountCeil :: rat where "outcomesCountCeil = 2 ^ 63"
definition outcomesClockCeil :: rat where "outcomesClockCeil = 2 ^ 64"

definition publishedFamily :: string where "publishedFamily = ''stable_last_success_timestamp_seconds ''"
definition testedFamily :: string where "testedFamily = ''stable_source_tested_nodes{''"
definition validFamily :: string where "validFamily = ''stable_source_valid_nodes{''"
definition sourceLabel :: string where "sourceLabel = ''source''"

section \<open>Values\<close>

definition blank :: "char \<Rightarrow> bool" where
  "blank c \<longleftrightarrow> c = CHR 0x20 \<or> c = CHR 0x09"

definition parseFloatValue :: "(string \<Rightarrow> float64 option) \<Rightarrow> string \<Rightarrow> float64 option" where
  "parseFloatValue parse_float rest0 =
     (let rest = dropWhile blank rest0
      in if rest = [] then None else parse_float (takeWhile (\<lambda>c. \<not> blank c) rest))"

text \<open>The truncating conversion below a ceiling; NaN, the infinities and negative values are refused.\<close>

definition truncated :: "rat \<Rightarrow> float64 \<Rightarrow> int option" where
  "truncated ceil v =
     (case v of
        FNaN \<Rightarrow> None
      | FInf neg \<Rightarrow> None
      | FNum f \<Rightarrow> if f < 0 \<or> f \<ge> ceil then None else Some \<lfloor>f\<rfloor>)"

definition parsePublished :: "(string \<Rightarrow> float64 option) \<Rightarrow> string \<Rightarrow> 64 word option" where
  "parsePublished parse_float rest =
     (case parseFloatValue parse_float rest of
        None \<Rightarrow> None
      | Some f \<Rightarrow> map_option word_of_int (truncated outcomesClockCeil f))"

definition parseCount :: "(string \<Rightarrow> float64 option) \<Rightarrow> string \<Rightarrow> int option" where
  "parseCount parse_float rest =
     (case parseFloatValue parse_float rest of
        None \<Rightarrow> None
      | Some f \<Rightarrow> truncated outcomesCountCeil f)"

section \<open>Labels\<close>

text \<open>
  The scan of a quoted value, given the rest of the line after its opening quote: the offset of the
  closing quote and whether an escape was seen.
\<close>

fun labelValueEnd :: "string \<Rightarrow> (nat \<times> bool) option" where
  "labelValueEnd [] = None"
| "labelValueEnd (c # s) =
     (if c = CHR 0x5C
      then (case s of
              [] \<Rightarrow> None
            | _ # s' \<Rightarrow> map_option (\<lambda>(n, escaped). (n + 2, True)) (labelValueEnd s'))
      else if c = CHR 0x22 then Some (0, False)
      else map_option (\<lambda>(n, escaped). (n + 1, escaped)) (labelValueEnd s))"

fun unescapeLabel :: "string \<Rightarrow> string" where
  "unescapeLabel [] = []"
| "unescapeLabel [c] = [c]"
| "unescapeLabel (c # d # s) =
     (if c \<noteq> CHR 0x5C then c # unescapeLabel (d # s)
      else (if d = CHR 0x5C then [CHR 0x5C]
            else if d = CHR 0x22 then [CHR 0x22]
            else if d = CHR ''n'' then [CHR 0x0A]
            else [c, d]) @ unescapeLabel s)"

text \<open>
  The walk over the labels: \<open>line\<close> is the rest from the current label's first byte, \<open>name\<close> the last
  \<^verbatim>\<open>source\<close> value seen.
\<close>

function split_labels :: "string \<Rightarrow> string \<Rightarrow> (string \<times> string) option" where
  "split_labels name line =
     (case index_byte (CHR ''='') line of
        None \<Rightarrow> None
      | Some eq \<Rightarrow>
          (case drop (eq + 1) line of
             [] \<Rightarrow> None
           | quote # body \<Rightarrow>
               if quote \<noteq> CHR 0x22 then None
               else (case labelValueEnd body of
                  None \<Rightarrow> None
                | Some (n, escaped) \<Rightarrow>
                    (let raw = take n body;
                         name = (if take eq line = sourceLabel
                                 then (if escaped then unescapeLabel raw else raw) else name)
                     in (case drop (n + 1) body of
                           [] \<Rightarrow> None
                         | c # rest \<Rightarrow>
                             if c = CHR ''}'' then (if name \<noteq> [] then Some (name, rest) else None)
                             else if c \<noteq> CHR '','' then None
                             else split_labels name rest)))))"
  by pat_completeness auto
termination
  apply (relation "measure (\<lambda>(name, line). length line)")
   apply simp
  apply clarsimp
  apply (drule arg_cong [where f = length and x = "drop (Suc _) _"])+
  apply simp
  done

declare split_labels.simps [simp del]

definition splitSourceSample :: "string \<Rightarrow> (string \<times> string) option" where
  "splitSourceSample line = split_labels [] line"

section \<open>The fold\<close>

definition zero_outcome :: sourceOutcome where
  "zero_outcome = \<lparr>sou_Survivors = 0, sou_Valid = 0\<rparr>"

definition zero_reading :: outcomeReading where
  "zero_reading = \<lparr>ord_Published = 0, ord_Sources = []\<rparr>"

definition foldSample ::
  "(string \<Rightarrow> float64 option) \<Rightarrow> string \<Rightarrow> bool \<Rightarrow> outcomeReading \<Rightarrow> bool \<times> outcomeReading" where
  "foldSample parse_float rest tested reading =
     (case splitSourceSample rest of
        None \<Rightarrow> (False, reading)
      | Some (name, value) \<Rightarrow>
          (case parseCount parse_float value of
             None \<Rightarrow> (False, reading)
           | Some n \<Rightarrow>
               (let o1 = read_or zero_outcome (ord_Sources reading) name;
                    o2 = (if tested then o1\<lparr>sou_Survivors := n\<rparr> else o1\<lparr>sou_Valid := n\<rparr>)
                in (True, reading\<lparr>ord_Sources := put name o2 (ord_Sources reading)\<rparr>))))"

definition foldLine ::
  "(string \<Rightarrow> float64 option) \<Rightarrow> string \<Rightarrow> outcomeReading \<Rightarrow> bool \<times> outcomeReading" where
  "foldLine parse_float line reading =
     (if has_prefix publishedFamily line
      then (case parsePublished parse_float (drop (length publishedFamily) line) of
              None \<Rightarrow> (False, reading)
            | Some v \<Rightarrow> (True, reading\<lparr>ord_Published := v\<rparr>))
      else if has_prefix testedFamily line
           then foldSample parse_float (drop (length testedFamily) line) True reading
      else if has_prefix validFamily line
           then foldSample parse_float (drop (length validFamily) line) False reading
      else (False, reading))"

section \<open>The scanner\<close>

text \<open>
  \<^verbatim>\<open>bufio.ScanLines\<close>: a line ends at a newline or with the stream and loses one carriage return; the
  empty rest at the end is no line. A line that does not fit the buffer with its end is too long.
\<close>

definition drop_cr :: "string \<Rightarrow> string" where
  "drop_cr s = (if s \<noteq> [] \<and> last s = CHR 0x0D then butlast s else s)"

function raw_lines :: "string \<Rightarrow> string list" where
  "raw_lines s =
     (if s = [] then []
      else case index_byte newline s of
        None \<Rightarrow> [s]
      | Some i \<Rightarrow> take i s # raw_lines (drop (i + 1) s))"
  by pat_completeness auto
termination
  by (relation "measure length") (auto dest: index_byte_Some)

declare raw_lines.simps [simp del]

definition scan_fold ::
  "(string \<Rightarrow> float64 option) \<Rightarrow> string \<Rightarrow> bool \<times> outcomeReading \<Rightarrow> bool \<times> outcomeReading" where
  "scan_fold parse_float line acc =
     (if line = [] \<or> hd line = CHR ''#'' then acc
      else let (hit, reading) = foldLine parse_float line (snd acc) in (fst acc \<or> hit, reading))"

datatype outcomes_error = TransportFailed | BadStatus | ReadFailed | BodyTooLarge | NotService

text \<open>What the exchange yields: a failure, or a status and a body that may break off.\<close>

datatype outcomes_reply = NoReply | Reply (orp_status: int) (orp_body: string) (orp_broken: bool)

definition fetchOutcomes ::
  "(string \<Rightarrow> float64 option) \<Rightarrow> outcomes_reply \<Rightarrow> outcomes_error + outcomeReading" where
  "fetchOutcomes parse_float reply =
     (case reply of
        NoReply \<Rightarrow> Inl TransportFailed
      | Reply status body broken \<Rightarrow>
          if status < 200 \<or> status \<ge> 300 then Inl BadStatus
          else (let seen = take outcomesMaxRead body;
                    (found, reading) = fold (scan_fold parse_float) (map drop_cr (raw_lines seen)) (False, zero_reading)
                in if list_ex (\<lambda>l. length l \<ge> outcomesMaxLine) (raw_lines seen)
                      \<or> broken \<and> length body \<le> outcomesMaxBody
                   then Inl ReadFailed
                   else if length seen > outcomesMaxBody then Inl BodyTooLarge
                   else if \<not> found then Inl NotService
                   else Inr reading))"

end
