(* ===== verification/ScrapeLoop.thy ===== *)
theory ScrapeLoop
  imports Metrics Outcomes
begin

text \<open>
  The service's exposition and the crawler's reader of it meet: what \<^verbatim>\<open>writeMetrics\<close> renders for the
  last published cycle is what \<^verbatim>\<open>fetchOutcomes\<close> folds on.
\<close>

section \<open>Labels read back\<close>

lemma unescape_escape: "unescapeLabel (concat (map escape_label_byte s)) = s"
proof (induction s)
  case (Cons c s)
  have plain: "unescapeLabel (c # t) = c # unescapeLabel t" if "c \<noteq> CHR 0x5C" for t
    using that by (cases t) auto
  show ?case
    by (cases "c \<in> {CHR 0x5C, CHR 0x22, CHR 0x0A}") (auto simp: escape_label_byte_def [of c] plain Cons)
qed simp

lemma escaped_plain:
  "\<not> list_ex (\<lambda>c. c \<in> set [CHR 0x5C, CHR 0x22, CHR 0x0A]) s \<Longrightarrow> concat (map escape_label_byte s) = s"
  by (induction s) (auto simp: escape_label_byte_def)

lemma labelValueEnd_escaped:
  "labelValueEnd (concat (map escape_label_byte s) @ CHR 0x22 # rest) =
     Some (length (concat (map escape_label_byte s)), list_ex (\<lambda>c. c \<in> set [CHR 0x5C, CHR 0x22, CHR 0x0A]) s)"
proof (induction s)
  case (Cons c s)
  then show ?case by (auto simp: escape_label_byte_def [of c])
qed simp

lemma labelValue_end:
  obtains esc where
    "labelValueEnd (labelValue s @ CHR 0x22 # rest) = Some (length (labelValue s), esc)"
    "valid_utf8 s \<Longrightarrow> (if esc then unescapeLabel (labelValue s) else labelValue s) = s"
proof -
  let ?special = "list_ex (\<lambda>c. c \<in> set [CHR 0x5C, CHR 0x22, CHR 0x0A])"
  have plain: "labelValueEnd (t @ CHR 0x22 # rest) = Some (length t, False)" if "\<not> ?special t" for t
    using labelValueEnd_escaped [of t rest] escaped_plain [OF that] that by simp
  show thesis
  proof (cases "valid_utf8 s")
    case False
    then have "labelValueEnd (labelValue s @ CHR 0x22 # rest) = Some (length (labelValue s), False)"
      using plain [of invalidLabelValue] by (simp add: labelValue_def invalidLabelValue_def)
    then show thesis using that False by simp
  next
    case True
    show thesis
    proof (cases "?special s")
      case False
      then have "labelValue s = s" using True by (simp add: labelValue_def)
      then show thesis using that [of False] plain [OF False] by simp
    next
      case special: True
      then have "labelValue s = concat (map escape_label_byte s)" using True by (auto simp: labelValue_def)
      then show thesis using that [of True] labelValueEnd_escaped [of s rest] special
        by (simp add: unescape_escape)
    qed
  qed
qed

lemma split_labels_step:
  assumes "CHR ''='' \<notin> set key" and "labelValueEnd (v @ CHR 0x22 # c # rest) = Some (length v, esc)"
  shows "split_labels name (key @ CHR ''='' # CHR 0x22 # v @ CHR 0x22 # c # rest) =
     (let name = (if key = sourceLabel then (if esc then unescapeLabel v else v) else name)
      in if c = CHR ''}'' then (if name \<noteq> [] then Some (name, rest) else None)
         else if c \<noteq> CHR '','' then None else split_labels name rest)"
proof -
  let ?line = "key @ CHR ''='' # CHR 0x22 # v @ CHR 0x22 # c # rest"
  have eq: "index_byte (CHR ''='') ?line = Some (length key)" by (rule index_byte_append [OF assms(1)])
  have "drop (length key + 1) ?line = CHR 0x22 # v @ CHR 0x22 # c # rest" by simp
  moreover have "drop (length v + 1) (v @ CHR 0x22 # c # rest) = c # rest" by simp
  ultimately show ?thesis
    by (subst split_labels.simps) (simp add: eq assms(2) Let_def del: drop_append append_Cons)
qed

lemma split_source_labels:
  assumes "valid_utf8 (so_Name s)" and "so_Name s \<noteq> []"
  shows "splitSourceSample (source_labels s @ CHR ''}'' # rest) = Some (so_Name s, rest)"
proof -
  let ?own = "if so_Managed s then ownerCrawler else ownerCurated"
  let ?n = "labelValue (so_Name s)"
  define t3 where "t3 = labelSource @ CHR ''='' # CHR 0x22 # ?n @ CHR 0x22 # CHR ''}'' # rest"
  define t2 where "t2 = labelOwner @ CHR ''='' # CHR 0x22 # ?own @ CHR 0x22 # CHR '','' # t3"
  obtain e1 where e1: "labelValueEnd (labelValue (sourceFeed s) @ CHR 0x22 # CHR '','' # t2) =
      Some (length (labelValue (sourceFeed s)), e1)" by (rule labelValue_end)
  obtain e3 where e3: "labelValueEnd (?n @ CHR 0x22 # CHR ''}'' # rest) = Some (length ?n, e3)"
    and reads: "(if e3 then unescapeLabel ?n else ?n) = so_Name s" using assms(1) labelValue_end by metis
  have e2: "labelValueEnd (?own @ CHR 0x22 # CHR '','' # t3) = Some (length ?own, False)"
    by (simp add: ownerCrawler_def ownerCurated_def)
  have line: "source_labels s @ CHR ''}'' # rest =
      labelFeed @ CHR ''='' # CHR 0x22 # labelValue (sourceFeed s) @ CHR 0x22 # CHR '','' # t2"
    by (simp add: source_labels_def labelEsc_def label_def t2_def t3_def)
  have "splitSourceSample (source_labels s @ CHR ''}'' # rest) = split_labels [] t2"
    unfolding splitSourceSample_def line
    by (subst split_labels_step [OF _ e1]) (simp_all add: labelFeed_def sourceLabel_def)
  also have "\<dots> = split_labels [] t3"
    unfolding t2_def by (subst split_labels_step [OF _ e2]) (simp_all add: labelOwner_def sourceLabel_def)
  also have "\<dots> = Some (so_Name s, rest)"
    unfolding t3_def
    by (subst split_labels_step [OF _ e3]) (use reads assms(2) in \<open>simp_all add: labelSource_def sourceLabel_def Let_def\<close>)
  finally show ?thesis .
qed

section \<open>Lines\<close>

lemma raw_lines_newline: "newline \<notin> set l \<Longrightarrow> raw_lines (l @ newline # s) = l # raw_lines s"
  by (subst raw_lines.simps) (simp add: index_byte_append)

definition fold_text ::
  "(string \<Rightarrow> float64 option) \<Rightarrow> string \<Rightarrow> bool \<times> outcomeReading \<Rightarrow> bool \<times> outcomeReading" where
  "fold_text p s = fold (scan_fold p) (map drop_cr (raw_lines s))"

lemma fold_text_Nil [simp]: "fold_text p [] = id"
  by (simp add: fold_text_def raw_lines.simps)

lemma fold_text_line:
  "newline \<notin> set l \<Longrightarrow> fold_text p (l @ newline # s) acc = fold_text p s (scan_fold p (drop_cr l) acc)"
  by (simp add: fold_text_def raw_lines_newline)

definition quiet :: "(string \<Rightarrow> float64 option) \<Rightarrow> string \<Rightarrow> bool" where
  "quiet p c \<longleftrightarrow> (\<forall>s acc. fold_text p (c @ newline # s) acc = fold_text p s acc)"

lemma quietD: "quiet p c \<Longrightarrow> fold_text p (c @ newline # s) acc = fold_text p s acc"
  unfolding quiet_def by blast

lemma quiet_chunks:
  "list_all (quiet p) cs \<Longrightarrow> fold_text p (concat (map (\<lambda>c. c @ [newline]) cs) @ s) acc = fold_text p s acc"
  by (induction cs) (simp_all add: quiet_def del: split_paired_All)

lemma drop_cr_prefix: "has_prefix f (drop_cr l) \<Longrightarrow> has_prefix f l"
  by (auto simp: drop_cr_def has_prefix_iff) (metis append_assoc append_butlast_last_id)

text \<open>A metric name no line of the three families starts with.\<close>

definition foreign :: "string \<Rightarrow> bool" where
  "foreign n \<longleftrightarrow> newline \<notin> set n \<and>
     list_all (\<lambda>f. take (min (length n) (length f)) n \<noteq> take (min (length n) (length f)) f)
       [publishedFamily, testedFamily, validFamily]"

lemma foreign_prefix:
  assumes "foreign n" and "f \<in> {publishedFamily, testedFamily, validFamily}"
  shows "\<not> has_prefix f (n @ t)"
proof
  assume "has_prefix f (n @ t)"
  then obtain r where "n @ t = f @ r" by (auto simp: has_prefix_iff)
  then have "take (min (length n) (length f)) n = take (min (length n) (length f)) f"
    by (metis append_eq_append_conv_if min.cobounded1 min.cobounded2 take_all take_take append_take_drop_id)
  then show False using assms by (auto simp: foreign_def)
qed

lemma quiet_foreign: "foreign n \<Longrightarrow> newline \<notin> set t \<Longrightarrow> quiet p (n @ t)"
  using foreign_prefix [of n _ t] drop_cr_prefix [of _ "n @ t"]
  by (auto simp: quiet_def fold_text_line foreign_def scan_fold_def foldLine_def
      fold_text_line [of "n @ t", simplified])


section \<open>Every other family is passed over\<close>

definition plain_env :: "'f render_env \<Rightarrow> bool" where
  "plain_env rv \<longleftrightarrow> (\<forall>n. newline \<notin> set (rv_doc rv n)) \<and>
     (\<forall>v. rv_fmt rv v \<noteq> [] \<and> list_all (\<lambda>c. c \<notin> {newline, CHR 0x0D, CHR 0x20, CHR 0x09}) (rv_fmt rv v))"

lemma labelValue_newline [simp]: "newline \<notin> set (labelValue s)"
  by (auto simp: labelValue_def invalidLabelValue_def escape_label_byte_def list_ex_iff split: if_splits)

lemma labelEsc_newline [simp]: "newline \<notin> set k \<Longrightarrow> newline \<notin> set (labelEsc k s)"
  by (simp add: labelEsc_def)

lemma itoa_newline [simp]: "newline \<notin> set (itoa n)"
  by (rule not_in_itoa) (simp add: is_digit_def)

lemma fmt_int_newline [simp]: "newline \<notin> set (fmt_int n)"
  by (simp add: fmt_int_def)

lemma label_names [simp]:
  "newline \<notin> set labelFilter" "newline \<notin> set labelSource" "newline \<notin> set labelFeed"
  "newline \<notin> set labelOwner" "newline \<notin> set labelReason" "newline \<notin> set labelPhase"
  "newline \<notin> set labelStage" "newline \<notin> set ownerCrawler" "newline \<notin> set ownerCurated"
  by (simp_all add: labelFilter_def labelSource_def labelFeed_def labelOwner_def labelReason_def labelPhase_def
      labelStage_def ownerCrawler_def ownerCurated_def)

lemma fmt_newline [simp]: "plain_env rv \<Longrightarrow> newline \<notin> set (rv_fmt rv v)"
  by (auto simp: plain_env_def list_all_iff)

lemma label_newline [simp]: "newline \<notin> set k \<Longrightarrow> newline \<notin> set v \<Longrightarrow> newline \<notin> set (label k v)"
  by (simp add: label_def)

lemma source_labels_newline [simp]: "newline \<notin> set (source_labels s)"
  by (simp add: source_labels_def)

lemma quiet_help:
  assumes "plain_env rv" and "newline \<notin> set n" and "newline \<notin> set t"
  shows "quiet p (help_chunk rv n t)"
proof -
  let ?h = "''# HELP '' @ n @ '' '' @ rv_doc rv n" and ?t = "''# TYPE '' @ n @ '' '' @ t"
  have cr: "hd (drop_cr (''# '' @ x)) = CHR ''#'' \<and> drop_cr (''# '' @ x) \<noteq> []" for x
    by (cases x rule: rev_cases) (auto simp: drop_cr_def butlast_append)
  have skip: "scan_fold p (drop_cr (''# '' @ x)) acc = acc" for x acc
    using cr [of x] by (simp add: scan_fold_def)
  have h: "newline \<notin> set ?h" using assms by (simp add: plain_env_def)
  have t: "newline \<notin> set ?t" using assms by simp
  have "fold_text p (help_chunk rv n t @ newline # s) acc = acc'" if "fold_text p s acc = acc'" for s acc acc'
  proof -
    have "help_chunk rv n t @ newline # s = ?h @ newline # ?t @ newline # s" by (simp add: help_chunk_def)
    then have "fold_text p (help_chunk rv n t @ newline # s) acc =
        fold_text p s (scan_fold p (drop_cr ?t) (scan_fold p (drop_cr ?h) acc))"
      by (simp only: fold_text_line [OF h] fold_text_line [OF t])
    then show ?thesis using skip [of "''HELP '' @ n @ '' '' @ rv_doc rv n"] skip [of "''TYPE '' @ n @ '' '' @ t"] that
      by simp
  qed
  then show ?thesis by (simp add: quiet_def)
qed

lemma quiet_samples:
  assumes "plain_env rv" and "foreign n"
  shows "newline \<notin> set sfx \<Longrightarrow> newline \<notin> set ls \<Longrightarrow> quiet p (floatSample rv n sfx ls v)"
    and "newline \<notin> set sfx \<Longrightarrow> newline \<notin> set ls \<Longrightarrow> quiet p (intSample n sfx ls i)"
    and "newline \<notin> set ls \<Longrightarrow> quiet p (sample rv n ls v)"
    and "newline \<notin> set k \<Longrightarrow> quiet p (sampleEsc rv n k x v)"
    and "newline \<notin> set k \<Longrightarrow> newline \<notin> set x \<Longrightarrow> quiet p (sampleLit rv n k x v)"
  using assms
  by (auto simp: floatSample_def intSample_def sample_def sampleEsc_def sampleLit_def sample_head_def
      intro!: quiet_foreign)

lemma foreign_names [simp]:
  "foreign ''stable_sources_ok''" "foreign ''stable_sources_total''" "foreign ''stable_merged_nodes''"
  "foreign ''stable_dead_skipped_nodes''" "foreign ''stable_probed_nodes''" "foreign ''stable_kept_nodes''"
  "foreign ''stable_geo_unknown_nodes''" "foreign ''stable_kept_country_nodes''"
  "foreign ''stable_cycle_duration_seconds''" "foreign ''stable_cycle_phase_duration_seconds''"
  "foreign ''stable_probe_outcome_nodes''" "foreign ''stable_probe_refused_nodes''"
  "foreign ''stable_precheck_trusted''" "foreign ''stable_precheck_dialled_endpoints''"
  "foreign ''stable_precheck_refused_endpoints''" "foreign ''stable_precheck_unresolved_endpoints''"
  "foreign ''stable_trace_answered_nodes''" "foreign ''stable_trace_unanswered_nodes''"
  "foreign ''stable_trace_moved_nodes''" "foreign ''stable_cycles_total''" "foreign ''stable_cycle_failures_total''"
  "foreign ''stable_filter_trusted''" "foreign ''stable_filter_in_nodes''" "foreign ''stable_filter_kept_nodes''"
  "foreign ''stable_filter_verified_nodes''" "foreign ''stable_filter_unverified_nodes''"
  "foreign ''stable_filter_dropped_nodes''" "foreign ''stable_source_nodes_total''"
  "foreign ''stable_source_published_nodes''" "foreign ''stable_source_dropped_nodes''"
  "foreign ''stable_kept_speed_mbps''" "foreign ''stable_kept_speed_min_mbps''" "foreign ''stable_kept_speed_max_mbps''"
  "foreign ''stable_kept_latency_ms''" "foreign ''stable_kept_latency_min_ms''" "foreign ''stable_kept_latency_max_ms''"
  by code_simp+

lemma foreign_newline: "foreign n \<Longrightarrow> newline \<notin> set n"
  by (simp add: foreign_def)

lemma quiet_gauge [simp]: "plain_env rv \<Longrightarrow> foreign n \<Longrightarrow> list_all (quiet p) (gauge rv n v)"
  by (simp add: gauge_def quiet_help quiet_samples foreign_newline)

lemma quiet_counter [simp]: "plain_env rv \<Longrightarrow> foreign n \<Longrightarrow> list_all (quiet p) (counter rv n v)"
  by (simp add: counter_def quiet_help quiet_samples foreign_newline)

lemma quiet_labelled [simp]:
  assumes "plain_env rv" and "foreign n"
  shows "newline \<notin> set t \<Longrightarrow> quiet p (help_chunk rv n t)"
    and "newline \<notin> set k \<Longrightarrow> quiet p (sampleEsc rv n k x v)"
    and "newline \<notin> set ls \<Longrightarrow> quiet p (sample rv n ls v)"
  using assms by (simp_all add: quiet_help quiet_samples foreign_newline)


lemma quiet_filters: "plain_env rv \<Longrightarrow> list_all (quiet p) (writeFilters rv fs)"
  by (auto simp: writeFilters_def Let_def list_all_iff)

lemma quiet_phases: "plain_env rv \<Longrightarrow> list_all (quiet p) (writePhases rv ph)"
  by (simp add: writePhases_def quiet_samples)

lemma quiet_stages: "plain_env rv \<Longrightarrow> list_all (quiet p) (writeProbeStages rv st)"
  by (simp add: writeProbeStages_def)

lemma quiet_refusals: "plain_env rv \<Longrightarrow> list_all (quiet p) (writeRefusals rv r)"
  by (simp add: writeRefusals_def)

lemma quiet_precheck: "plain_env rv \<Longrightarrow> list_all (quiet p) (writePrecheck rv r)"
  by (simp add: writePrecheck_def)

lemma quiet_trace: "plain_env rv \<Longrightarrow> list_all (quiet p) (writeTrace rv r)"
  by (simp add: writeTrace_def)

lemma quiet_histogram:
  assumes "plain_env rv" and "foreign n"
  shows "list_all (quiet p) (writeHistogram rv n vs bs)"
proof -
  have q: "quiet p (intSample n ''_bucket'' (label ''le'' x) i)" if "newline \<notin> set x" for x i
    by (rule quiet_samples(2) [OF assms]) (use that in simp_all)
  have "list_all (quiet p) (map2 (\<lambda>ub c. intSample n ''_bucket'' (label ''le'' (rv_fmt rv (rv_of_int rv ub))) (int c)) xs ys)"
    for xs ys by (auto simp: list_all_iff assms intro!: q)
  then show ?thesis
    by (simp add: writeHistogram_def assms q quiet_samples [OF assms])
qed

lemma quiet_extremes:
  "plain_env rv \<Longrightarrow> foreign a \<Longrightarrow> foreign b \<Longrightarrow> list_all (quiet p) (extremes rv a b vs)"
  by (simp add: extremes_def)

lemma quiet_family:
  "plain_env rv \<Longrightarrow> foreign n \<Longrightarrow> list_all (quiet p) (source_family rv n f ss)"
  by (simp add: source_family_lines list_all_iff)

section \<open>The two source families\<close>

definition reads_counts :: "'f render_env \<Rightarrow> (string \<Rightarrow> float64 option) \<Rightarrow> bool" where
  "reads_counts rv p \<longleftrightarrow>
     (\<forall>n. 0 \<le> n \<and> n < 2 ^ 53 \<longrightarrow> p (rv_fmt rv (rv_of_int rv n)) = Some (FNum (of_int n)))"

lemma count_text:
  assumes "plain_env rv"
  shows "newline \<notin> set (rv_fmt rv v)" and "drop_cr (x @ rv_fmt rv v) = x @ rv_fmt rv v"
    and "parseFloatValue p ('' '' @ rv_fmt rv v) = p (rv_fmt rv v)" and "parseFloatValue p (rv_fmt rv v) = p (rv_fmt rv v)"
proof -
  have f: "rv_fmt rv v \<noteq> []" "list_all (\<lambda>c. c \<notin> {newline, CHR 0x0D, CHR 0x20, CHR 0x09}) (rv_fmt rv v)"
    using assms by (auto simp: plain_env_def)
  have nb: "\<not> blank c" if "c \<in> set (rv_fmt rv v)" for c using f(2) that by (auto simp: list_all_iff blank_def)
  have dw: "dropWhile blank (rv_fmt rv v) = rv_fmt rv v" using nb f(1) by (cases "rv_fmt rv v") auto
  have tw: "takeWhile (\<lambda>c. \<not> blank c) (rv_fmt rv v) = rv_fmt rv v" using nb by (simp add: takeWhile_eq_all_conv)
  have "blank CHR 0x20" by (simp add: blank_def)
  then show "parseFloatValue p ('' '' @ rv_fmt rv v) = p (rv_fmt rv v)"
    and "parseFloatValue p (rv_fmt rv v) = p (rv_fmt rv v)"
    by (simp_all add: parseFloatValue_def dw tw f(1))
  show "newline \<notin> set (rv_fmt rv v)" using assms by simp
  have "last (rv_fmt rv v) \<noteq> CHR 0x0D" using f last_in_set [OF f(1)] by (auto simp: list_all_iff)
  then show "drop_cr (x @ rv_fmt rv v) = x @ rv_fmt rv v" using f(1) by (simp add: drop_cr_def)
qed

lemma truncated_int: "0 \<le> n \<Longrightarrow> rat_of_int n < ceil \<Longrightarrow> truncated ceil (FNum (of_int n)) = Some n"
  by (simp add: truncated_def)

lemma below_ceil: "n < 2 ^ 53 \<Longrightarrow> rat_of_int n < 2 ^ 63" "n < 2 ^ 53 \<Longrightarrow> rat_of_int n < 2 ^ 64"
proof -
  assume "n < 2 ^ 53"
  then have "rat_of_int n < rat_of_int (2 ^ 53)" by (simp only: of_int_less_iff)
  then show "rat_of_int n < 2 ^ 63" "rat_of_int n < 2 ^ 64" by simp_all
qed

definition source_name_ok :: "SourceReport \<Rightarrow> bool" where
  "source_name_ok s \<longleftrightarrow> valid_utf8 (so_Name s) \<and> so_Name s \<noteq> []"

definition put_source :: "bool \<Rightarrow> SourceReport \<Rightarrow> (string, sourceOutcome) gomap \<Rightarrow> (string, sourceOutcome) gomap" where
  "put_source tested s m =
     (let o1 = read_or zero_outcome m (so_Name s)
      in put (so_Name s) (if tested then o1\<lparr>sou_Survivors := int (so_Tested s)\<rparr> else o1\<lparr>sou_Valid := int (so_Valid s)\<rparr>) m)"

lemma fold_source_sample:
  assumes "plain_env rv" and "reads_counts rv p" and "source_name_ok s"
    and "(if tested then so_Tested s else so_Valid s) < 2 ^ 53"
  shows "fold_text p (sample rv (if tested then ''stable_source_tested_nodes'' else ''stable_source_valid_nodes'')
      (source_labels s) (num rv (if tested then so_Tested s else so_Valid s)) @ newline # t) acc =
    fold_text p t (True, (snd acc)\<lparr>ord_Sources := put_source tested s (ord_Sources (snd acc))\<rparr>)"
proof -
  let ?n = "if tested then ''stable_source_tested_nodes'' else ''stable_source_valid_nodes''"
  let ?c = "if tested then so_Tested s else so_Valid s"
  let ?v = "rv_fmt rv (num rv ?c)"
  let ?fam = "if tested then testedFamily else validFamily"
  have nonempty: "source_labels s \<noteq> []" by (simp add: source_labels_def labelEsc_def labelFeed_def)
  have line: "sample rv ?n (source_labels s) (num rv ?c) = ?fam @ source_labels s @ CHR ''}'' # '' '' @ ?v"
    using nonempty by (simp add: sample_def floatSample_def sample_head_def testedFamily_def validFamily_def)
  have nl: "newline \<notin> set (sample rv ?n (source_labels s) (num rv ?c))"
    using assms(1) by (simp add: sample_def floatSample_def sample_head_def)
  have cr: "drop_cr (sample rv ?n (source_labels s) (num rv ?c)) = sample rv ?n (source_labels s) (num rv ?c)"
    using count_text(2) [OF assms(1), of "?fam @ source_labels s @ CHR ''}'' # '' ''" "num rv ?c"] unfolding line by simp
  have "int ?c < 2 ^ 53" using assms(4) by (metis of_nat_less_iff of_nat_numeral of_nat_power)
  then have count: "parseCount p ('' '' @ ?v) = Some (int ?c)"
    using assms(2) count_text(3) [OF assms(1), of p "num rv ?c"] truncated_int [of "int ?c" outcomesCountCeil] below_ceil(1) [of "int ?c"]
    by (simp add: parseCount_def reads_counts_def outcomesCountCeil_def del: append_Cons of_int_of_nat_eq)
  have split: "splitSourceSample (source_labels s @ CHR ''}'' # '' '' @ ?v) = Some (so_Name s, '' '' @ ?v)"
    using assms(3) by (intro split_source_labels) (auto simp: source_name_ok_def)
  have "foldLine p (?fam @ source_labels s @ CHR ''}'' # '' '' @ ?v) rd =
      foldSample p (source_labels s @ CHR ''}'' # '' '' @ ?v) tested rd" for rd
    by (cases tested) (simp_all add: foldLine_def publishedFamily_def testedFamily_def validFamily_def)
  then have "foldLine p (?fam @ source_labels s @ CHR ''}'' # '' '' @ ?v) rd =
      (True, rd\<lparr>ord_Sources := put_source tested s (ord_Sources rd)\<rparr>)" for rd
    unfolding foldSample_def split option.case prod.case count by (simp add: put_source_def Let_def)
  moreover have "?fam @ x \<noteq> [] \<and> hd (?fam @ x) \<noteq> CHR ''#''" for x
    by (simp add: testedFamily_def validFamily_def)
  ultimately show ?thesis
    unfolding fold_text_line [OF nl] cr unfolding line by (simp add: scan_fold_def Let_def del: append_assoc)
qed


lemma fold_source_family:
  assumes "plain_env rv" and "reads_counts rv p"
    and "list_all source_name_ok ss" and "list_all (\<lambda>s. (if tested then so_Tested s else so_Valid s) < 2 ^ 53) ss"
  shows "fold_text p (concat (map (\<lambda>c. c @ [newline]) (source_family rv
        (if tested then ''stable_source_tested_nodes'' else ''stable_source_valid_nodes'')
        (if tested then so_Tested else so_Valid) ss)) @ t) acc =
    fold_text p t (fst acc \<or> ss \<noteq> [], (snd acc)\<lparr>ord_Sources := fold (put_source tested) ss (ord_Sources (snd acc))\<rparr>)"
    (is "fold_text p (concat (map _ (source_family rv ?n ?f ss)) @ t) acc = _")
proof -
  let ?line = "\<lambda>s. sample rv ?n (source_labels s) (num rv (?f s)) @ [newline]"
  have body: "fold_text p (concat (map ?line ss) @ t) acc =
      fold_text p t (fst acc \<or> ss \<noteq> [], (snd acc)\<lparr>ord_Sources := fold (put_source tested) ss (ord_Sources (snd acc))\<rparr>)"
    using assms(3,4)
  proof (induction ss arbitrary: acc)
    case (Cons s ss)
    have f: "?f s = (if tested then so_Tested s else so_Valid s)" by simp
    have "fold_text p (concat (map ?line (s # ss)) @ t) acc =
        fold_text p (sample rv ?n (source_labels s) (num rv (?f s)) @ newline # concat (map ?line ss) @ t) acc" by simp
    also have "\<dots> = fold_text p (concat (map ?line ss) @ t)
        (True, (snd acc)\<lparr>ord_Sources := put_source tested s (ord_Sources (snd acc))\<rparr>)"
      unfolding f by (rule fold_source_sample [OF assms(1,2)]) (use Cons.prems in simp_all)
    also have "\<dots> = fold_text p t (True, (snd acc)\<lparr>ord_Sources := fold (put_source tested) (s # ss) (ord_Sources (snd acc))\<rparr>)"
      by (subst Cons.IH) (use Cons.prems in simp_all)
    finally show ?case by simp
  qed simp
  have header: "quiet p (help_chunk rv ?n ''gauge'')" by (rule quiet_help [OF assms(1)]) simp_all
  have page: "concat (map (\<lambda>c. c @ [newline]) (source_family rv ?n ?f ss)) @ t =
      help_chunk rv ?n ''gauge'' @ newline # concat (map ?line ss) @ t"
    by (simp add: source_family_lines comp_def)
  show ?thesis unfolding page quietD [OF header] by (rule body)
qed

lemma map_of_put_source:
  "map_of (put_source b s m) k = (if k = so_Name s then map_of (put_source b s m) k else map_of m k)"
  by (simp add: put_source_def Let_def)

lemma fold_put_other:
  "k \<notin> so_Name ` set ss \<Longrightarrow> map_of (fold (put_source b) ss m) k = map_of m k"
proof (induction ss arbitrary: m)
  case (Cons s ss)
  then show ?case using map_of_put_source [of b s m k] by auto
qed simp

lemma fold_put_source:
  assumes "distinct (map so_Name ss)" and "s \<in> set ss"
  shows "map_of (fold (put_source b) ss m) (so_Name s) =
    Some (let o1 = read_or zero_outcome m (so_Name s)
          in if b then o1\<lparr>sou_Survivors := int (so_Tested s)\<rparr> else o1\<lparr>sou_Valid := int (so_Valid s)\<rparr>)"
  using assms
proof (induction ss arbitrary: m)
  case (Cons x ss)
  show ?case
  proof (cases "s = x")
    case True
    then have "so_Name s \<notin> so_Name ` set ss" using Cons.prems by simp
    then show ?thesis using True by (simp add: fold_put_other) (simp add: put_source_def Let_def)
  next
    case False
    then have s: "s \<in> set ss" and "so_Name s \<noteq> so_Name x" using Cons.prems by (simp, metis distinct.simps(2) image_eqI list.simps(9) set_ConsD set_map)
    then have "read_or zero_outcome (put_source b x m) (so_Name s) = read_or zero_outcome m (so_Name s)"
      using map_of_put_source [of b x m "so_Name s"] by (simp add: read_or_def)
    then show ?thesis using Cons.IH [of "put_source b x m"] Cons.prems s by simp
  qed
qed simp

lemma wf_put_source: "wf_map m \<Longrightarrow> wf_map (fold (put_source b) ss m)"
  by (induction ss arbitrary: m) (simp_all add: put_source_def Let_def)

text \<open>What the reading of a report is: per source name the tested and the valid count.\<close>

definition reported_outcomes :: "SourceReport list \<Rightarrow> (string \<times> sourceOutcome) list" where
  "reported_outcomes ss =
     map (\<lambda>s. (so_Name s, \<lparr>sou_Survivors = int (so_Tested s), sou_Valid = int (so_Valid s)\<rparr>)) ss"

lemma both_families:
  assumes "distinct (map so_Name ss)"
  shows "map_of (fold (put_source True) ss (fold (put_source False) ss [])) = map_of (reported_outcomes ss)"
proof
  fix k
  have keys: "map fst (reported_outcomes ss) = map so_Name ss" by (simp add: reported_outcomes_def)
  show "map_of (fold (put_source True) ss (fold (put_source False) ss [])) k = map_of (reported_outcomes ss) k"
  proof (cases "k \<in> so_Name ` set ss")
    case False
    then have "map_of (reported_outcomes ss) k = None" by (simp add: map_of_eq_None_iff reported_outcomes_def image_image)
    then show ?thesis using False by (simp add: fold_put_other)
  next
    case True
    then obtain s where s: "s \<in> set ss" "k = so_Name s" by auto
    have "map_of (reported_outcomes ss) k = Some \<lparr>sou_Survivors = int (so_Tested s), sou_Valid = int (so_Valid s)\<rparr>"
      using assms keys s(1) unfolding s(2) by (intro map_of_is_SomeI) (simp, auto simp: reported_outcomes_def)
    moreover have "read_or zero_outcome (fold (put_source False) ss []) (so_Name s) =
        zero_outcome\<lparr>sou_Valid := int (so_Valid s)\<rparr>"
      using fold_put_source [OF assms s(1), of False "[]"] by (simp add: read_or_def)
    ultimately show ?thesis
      using fold_put_source [OF assms s(1), of True "fold (put_source False) ss []"] s(2) by (simp add: zero_outcome_def)
  qed
qed

section \<open>The page\<close>

lemma raw_lines_cons:
  "raw_lines (c @ newline # s) = raw_lines (c @ [newline]) @ raw_lines s"
  "l \<in> set (raw_lines (c @ [newline])) \<Longrightarrow> length l \<le> length c"
proof (atomize (full), induction c rule: length_induct)
  case (1 c)
  show ?case
  proof (cases "index_byte newline c")
    case None
    then have "newline \<notin> set c" by (simp add: index_byte_None)
    then show ?thesis by (simp add: raw_lines_newline) (simp add: raw_lines.simps)
  next
    case (Some i)
    have i: "i < length c" "newline \<notin> set (take i c)" using index_byte_Some [OF Some] by auto
    define d where "d = drop (Suc i) c"
    have c: "c = take i c @ newline # d" unfolding d_def by (rule index_byte_split [OF Some])
    have shorter: "length d < length c" using i by (simp add: d_def)
    have step: "raw_lines (c @ x) = take i c # raw_lines (d @ x)" for x
      by (subst c) (simp add: raw_lines_newline i(2))
    show ?thesis using 1 [rule_format, OF shorter] shorter i(1) by (auto simp: step)
  qed
qed

lemma list_all_concat: "list_all P (concat (map f xs)) \<longleftrightarrow> list_all (\<lambda>x. list_all P (f x)) xs"
  by (induction xs) auto

lemma raw_lines_short:
  "l \<in> set (raw_lines (concat (map (\<lambda>c. c @ [newline]) cs))) \<Longrightarrow> \<exists>c\<in>set cs. length l \<le> length c"
proof (induction cs)
  case Nil
  then show ?case by (simp add: raw_lines.simps)
next
  case (Cons c cs)
  then have "l \<in> set (raw_lines (c @ [newline])) \<or> l \<in> set (raw_lines (concat (map (\<lambda>c. c @ [newline]) cs)))"
    by (simp add: raw_lines_cons(1) [of c "concat (map (\<lambda>c. c @ [newline]) cs)"])
  then show ?case using raw_lines_cons(2) [of l c] Cons.IH by auto
qed

lemma fold_published:
  assumes "plain_env rv" and "reads_counts rv p" and "0 \<le> clk" and "clk < 2 ^ 53"
  shows "fold_text p (sample rv ''stable_last_success_timestamp_seconds'' [] (rv_of_int rv clk) @ newline # t) acc =
    fold_text p t (True, (snd acc)\<lparr>ord_Published := word_of_int clk\<rparr>)"
proof -
  let ?v = "rv_fmt rv (rv_of_int rv clk)"
  have line: "sample rv ''stable_last_success_timestamp_seconds'' [] (rv_of_int rv clk) = publishedFamily @ ?v"
    by (simp add: sample_def floatSample_def sample_head_def publishedFamily_def)
  have nl: "newline \<notin> set (publishedFamily @ ?v)" using assms(1) by (simp add: publishedFamily_def)
  have cr: "drop_cr (publishedFamily @ ?v) = publishedFamily @ ?v" by (rule count_text(2) [OF assms(1)])
  have "p ?v = Some (FNum (of_int clk))" using assms by (simp add: reads_counts_def)
  moreover have "truncated outcomesClockCeil (FNum (of_int clk)) = Some clk"
    by (rule truncated_int) (use assms below_ceil(2) in \<open>simp_all add: outcomesClockCeil_def\<close>)
  ultimately have "parsePublished p ?v = Some (word_of_int clk)"
    by (simp add: parsePublished_def count_text(4) [OF assms(1)])
  moreover have "publishedFamily \<noteq> []" "hd publishedFamily \<noteq> CHR ''#''" by (simp_all add: publishedFamily_def)
  ultimately have "scan_fold p (publishedFamily @ ?v) acc = (True, (snd acc)\<lparr>ord_Published := word_of_int clk\<rparr>)"
    by (simp add: scan_fold_def foldLine_def)
  then show ?thesis unfolding line fold_text_line [OF nl] cr by simp
qed

definition sources_readable :: "CycleReport \<Rightarrow> bool" where
  "sources_readable r \<longleftrightarrow> list_all source_name_ok (cr_Sources r) \<and> distinct (map so_Name (cr_Sources r)) \<and>
     list_all (\<lambda>s. so_Tested s < 2 ^ 53 \<and> so_Valid s < 2 ^ 53) (cr_Sources r)"

abbreviation chunk_text :: "string list \<Rightarrow> string" where
  "chunk_text cs \<equiv> concat (map (\<lambda>c. c @ [newline]) cs)"

lemma fold_report:
  assumes "plain_env rv" and "reads_counts rv p" and "sources_readable r" and "0 \<le> clk" and "clk < 2 ^ 53"
  shows "fold_text p (chunk_text (writeReport rv r clk)) acc =
    (True, (snd acc)\<lparr>ord_Published := word_of_int clk,
       ord_Sources := fold (put_source True) (cr_Sources r) (fold (put_source False) (cr_Sources r) (ord_Sources (snd acc)))\<rparr>)"
proof -
  let ?ss = "cr_Sources r"
  note q = quiet_filters [OF assms(1)] quiet_phases [OF assms(1)] quiet_stages [OF assms(1)] quiet_refusals [OF assms(1)]
    quiet_precheck [OF assms(1)] quiet_trace [OF assms(1)] quiet_histogram [OF assms(1)] quiet_extremes [OF assms(1)]
    quiet_family [OF assms(1)]
  define before where "before = gauge rv ''stable_sources_ok'' (num rv (cr_SourcesOK r)) @
     gauge rv ''stable_sources_total'' (num rv (cr_SourcesTotal r)) @
     gauge rv ''stable_merged_nodes'' (num rv (cr_Merged r)) @
     gauge rv ''stable_dead_skipped_nodes'' (num rv (cr_DeadSkipped r)) @
     gauge rv ''stable_probed_nodes'' (num rv (cr_Probed r)) @
     writeProbeStages rv (cr_ProbeStages r) @
     writeRefusals rv (cr_Refusals r) @
     writePrecheck rv (cr_Precheck r) @
     gauge rv ''stable_kept_nodes'' (num rv (cr_Kept r)) @
     gauge rv ''stable_geo_unknown_nodes'' (num rv (cr_GeoUnknown r)) @
     writeTrace rv (cr_Trace r) @
     (if cr_KeptCountries r = Map.empty then []
      else help_chunk rv ''stable_kept_country_nodes'' ''gauge'' #
        map (\<lambda>c. sampleEsc rv ''stable_kept_country_nodes'' ''country'' c (num rv (count_at (cr_KeptCountries r) c)))
          (sortedKeys (cr_KeptCountries r))) @
     gauge rv ''stable_cycle_duration_seconds'' (rv_seconds rv (cr_Duration r)) @
     writePhases rv (cr_Phases r) @ [help_chunk rv ''stable_last_success_timestamp_seconds'' ''gauge'']"
  define between where "between = writeFilters rv (cr_Filters r) @ source_family rv ''stable_source_nodes_total'' so_Total ?ss"
  define after where "after = source_family rv ''stable_source_published_nodes'' so_Filtered ?ss @
     help_chunk rv ''stable_source_dropped_nodes'' ''gauge'' #
     concat (map (\<lambda>s. map (\<lambda>(reason, n). sample rv ''stable_source_dropped_nodes''
                 (label labelReason reason @ '','' @ labelEsc labelSource (so_Name s)) (num rv n))
               (zip dropReasons (drop_counts s))) ?ss) @
     writeHistogram rv ''stable_kept_speed_mbps'' (cr_KeptSpeeds r) speedBuckets @
     extremes rv ''stable_kept_speed_min_mbps'' ''stable_kept_speed_max_mbps'' (cr_KeptSpeeds r) @
     writeHistogram rv ''stable_kept_latency_ms'' (cr_KeptLatenciesMs r) latencyBuckets @
     extremes rv ''stable_kept_latency_min_ms'' ''stable_kept_latency_max_ms'' (cr_KeptLatenciesMs r)"
  have page: "chunk_text (writeReport rv r clk) = chunk_text before @
      sample rv ''stable_last_success_timestamp_seconds'' [] (rv_of_int rv clk) @ newline # chunk_text between @
      chunk_text (source_family rv ''stable_source_valid_nodes'' so_Valid ?ss) @
      chunk_text (source_family rv ''stable_source_tested_nodes'' so_Tested ?ss) @ chunk_text after"
    by (simp add: writeReport_def before_def between_def after_def writeSources_def gauge_def)
  have b: "list_all (quiet p) before"
    using assms(1) by (auto simp: before_def q quiet_help list_all_iff [of _ "map _ _"])
  have m: "list_all (quiet p) between" by (simp add: between_def q)
  have "newline \<notin> set d" if "d \<in> set dropReasons" for d using that by (auto simp: dropReasons_def)
  then have drops: "list_all (quiet p) (map (\<lambda>(reason, n). sample rv ''stable_source_dropped_nodes''
      (label labelReason reason @ '','' @ labelEsc labelSource (so_Name s)) (num rv n)) (zip dropReasons (drop_counts s)))" for s
    using assms(1) by (auto simp: list_all_iff dest: set_zip_leftD)
  have a: "list_all (quiet p) after"
    using assms(1) by (simp add: after_def q list_all_concat) (simp add: list_all_iff drops [unfolded list_all_iff])
  have V: "fold_text p (chunk_text (source_family rv ''stable_source_valid_nodes'' so_Valid ?ss) @ t) x =
      fold_text p t (fst x \<or> ?ss \<noteq> [], (snd x)\<lparr>ord_Sources := fold (put_source False) ?ss (ord_Sources (snd x))\<rparr>)" for t x
    using fold_source_family [OF assms(1,2), of ?ss False t x] assms(3)
    by (simp add: sources_readable_def list_all_iff)
  have T: "fold_text p (chunk_text (source_family rv ''stable_source_tested_nodes'' so_Tested ?ss) @ t) x =
      fold_text p t (fst x \<or> ?ss \<noteq> [], (snd x)\<lparr>ord_Sources := fold (put_source True) ?ss (ord_Sources (snd x))\<rparr>)" for t x
    using fold_source_family [OF assms(1,2), of ?ss True t x] assms(3)
    by (simp add: sources_readable_def list_all_iff)
  have A: "fold_text p (chunk_text after) x = x" for x using quiet_chunks [OF a, of "[]" x] by simp
  show ?thesis
    unfolding page quiet_chunks [OF b] fold_published [OF assms(1,2,4,5)] quiet_chunks [OF m] V T A by simp
qed


definition exposition_fits :: "'f render_env \<Rightarrow> metrics_state \<Rightarrow> bool" where
  "exposition_fits rv m \<longleftrightarrow> length (writeMetrics rv m) \<le> outcomesMaxBody \<and>
     list_all (\<lambda>c. length c < outcomesMaxLine) (metrics_chunks rv m)"

text \<open>
  C21: What the service publishes about its sources is what the crawler folds: an exposition within the
  reader's bounds is read completely, the clock is the last publication, and the reading holds for
  every source, under its name as configured, its tested and its valid count.
\<close>

theorem outcomes_read_back:
  assumes "plain_env rv" and "reads_counts rv p" and "mt_last m = Some r" and "sources_readable r"
    and "0 \<le> mt_lastAt m" and "mt_lastAt m < 2 ^ 53" and "exposition_fits rv m"
  shows "\<exists>rd. fetchOutcomes p (Reply 200 (writeMetrics rv m) False) = Inr rd \<and>
    ord_Published rd = word_of_int (mt_lastAt m) \<and> wf_map (ord_Sources rd) \<and>
    map_of (ord_Sources rd) = map_of (reported_outcomes (cr_Sources r))"
proof -
  define rd where "rd = zero_reading\<lparr>ord_Published := word_of_int (mt_lastAt m),
    ord_Sources := fold (put_source True) (cr_Sources r) (fold (put_source False) (cr_Sources r) [])\<rparr>"
  let ?cs = "metrics_chunks rv m"
  have body: "writeMetrics rv m = chunk_text ?cs" by (simp add: writeMetrics_def write_chunks_concat)
  have fits: "length (writeMetrics rv m) \<le> outcomesMaxBody" using assms(7) by (simp add: exposition_fits_def)
  then have seen: "take outcomesMaxRead (writeMetrics rv m) = writeMetrics rv m" by (simp add: outcomesMaxRead_def)
  have short: "\<not> list_ex (\<lambda>l. length l \<ge> outcomesMaxLine) (raw_lines (writeMetrics rv m))"
    using raw_lines_short [of _ ?cs] assms(7) unfolding body
    by (fastforce simp: exposition_fits_def list_ex_iff list_all_iff)
  have chunks: "chunk_text ?cs = chunk_text (counter rv ''stable_cycles_total'' (mt_cyclesTotal m)) @
      chunk_text (counter rv ''stable_cycle_failures_total'' (mt_cyclesFailed m)) @ chunk_text (writeReport rv r (mt_lastAt m))"
    using assms(3) by (simp add: metrics_chunks_def)
  have "fold_text p (writeMetrics rv m) (False, zero_reading) = (True, rd)"
    unfolding body chunks quiet_chunks [OF quiet_counter [OF assms(1) foreign_names(20)]]
      quiet_chunks [OF quiet_counter [OF assms(1) foreign_names(21)]] fold_report [OF assms(1,2,4,5,6)]
    by (simp add: rd_def zero_reading_def)
  then have "fetchOutcomes p (Reply 200 (writeMetrics rv m) False) = Inr rd"
    using short fits by (simp add: fetchOutcomes_def seen fold_text_def Let_def)
  moreover have "wf_map (ord_Sources rd)" by (simp add: rd_def wf_put_source)
  moreover have "map_of (ord_Sources rd) = map_of (reported_outcomes (cr_Sources r))"
    using both_families assms(4) by (simp add: rd_def sources_readable_def)
  ultimately show ?thesis by (auto simp: rd_def)
qed

definition int_env :: "int render_env" where
  "int_env = \<lparr>rv_doc = (\<lambda>_. ''text''), rv_of_int = id, rv_seconds = id, rv_add = (+), rv_fmt = fmt_int\<rparr>"

definition read_int :: "string \<Rightarrow> float64 option" where
  "read_int s = map_option (\<lambda>n. FNum (of_int n)) (atoi s)"

lemma int_env_plain: "plain_env int_env"
proof -
  have "list_all (\<lambda>c. c \<notin> {newline, CHR 0x0D, CHR 0x20, CHR 0x09}) (itoa n)" for n
    using not_in_itoa [of newline n] not_in_itoa [of "CHR 0x0D" n] not_in_itoa [of "CHR 0x20" n] not_in_itoa [of "CHR 0x09" n]
    by (auto simp: list_all_iff is_digit_def)
  then show ?thesis by (auto simp: plain_env_def int_env_def fmt_int_def)
qed

lemma int_env_reads: "reads_counts int_env read_int"
proof -
  have "atoi (fmt_int n) = Some n" if "0 \<le> n" "n < 2 ^ 53" for n
    using that atoi_itoa [of "nat n"] by (simp add: fmt_int_def nat_less_iff)
  then show ?thesis by (simp add: reads_counts_def int_env_def read_int_def)
qed

definition one_source_state :: metrics_state where
  "one_source_state = \<lparr>mt_last = Some \<lparr>cr_SourcesOK = 1, cr_SourcesTotal = 1, cr_Merged = 0, cr_DeadSkipped = 0,
     cr_Probed = 0, cr_Kept = 0, cr_ProbeStages = (\<lambda>_. 0),
     cr_Refusals = \<lparr>rf_State = RefusalAbsent, rf_Unparsable = 0, rf_Unconvertible = 0, rf_refused = []\<rparr>,
     cr_Precheck = \<lparr>pc_State = PrecheckAbsent, pc_Dialled = 0, pc_Refused = 0, pc_Unresolved = 0\<rparr>,
     cr_GeoUnknown = 0, cr_KeptCountries = Map.empty, cr_Duration = 1,
     cr_Phases = \<lparr>ph_Fetch = 1, ph_Merge = 0, ph_DeadFilter = 0, ph_Probe = 0, ph_Egress = 0, ph_Publish = 0\<rparr>,
     cr_Sources = [\<lparr>so_Name = [CHR ''a'', CHR 0x22], so_Managed = True, so_Feed = [], so_Total = 3, so_Valid = 2, so_Tested = 1,
       so_Filtered = 0, so_DNSDrop = 0, so_GeoDrop = 0, so_CIDRDrop = 0, so_ASNDrop = 0, so_GeoBlockDrop = 0,
       so_IPv6Drop = 0, so_Unsupported = 0\<rparr>],
     cr_Filters = [], cr_KeptSpeeds = [], cr_KeptLatenciesMs = [],
     cr_Trace = \<lparr>tp_State = TraceAbsent, tp_Answered = 0, tp_Unanswered = 0, tp_Moved = 0\<rparr>\<rparr>,
     mt_lastAt = 7, mt_cyclesTotal = 1, mt_cyclesFailed = 0\<rparr>"


lemma valid_ascii: "list_all is_ascii s \<Longrightarrow> valid_utf8 s"
proof (induction s)
  case (Cons c s)
  then have "decode_rune (c # s) = (byte c, 1)" "byte c \<noteq> runeError"
    by (auto simp: decode_rune_def is_ascii_def runeError_def)
  then show ?case using Cons by (subst valid_utf8.simps) simp
qed (simp add: valid_utf8.simps)

lemma one_source_fits: "exposition_fits int_env one_source_state"
proof -
  let ?cs = "metrics_chunks int_env one_source_state"
  note defs = metrics_chunks_def one_source_state_def writeReport_def writeProbeStages_def writeRefusals_def
    writePrecheck_def writeTrace_def writePhases_def writeFilters_def writeSources_def source_family_lines
    writeHistogram_def extremes_def counter_def gauge_def int_env_def fmt_int_def
    sample_def sampleLit_def sampleEsc_def floatSample_def intSample_def sample_head_def help_chunk_def
    label_def labelEsc_def labelFilter_def labelPhase_def labelFeed_def labelOwner_def labelSource_def labelReason_def
    ownerCrawler_def source_labels_def sourceFeed_def dropReasons_def drop_counts_def bucket_counts_def
    speedBuckets_def latencyBuckets_def Let_def
  have v: "labelValue [CHR ''a'', CHR 0x22] = [CHR ''a'', CHR 0x5C, CHR 0x22]"
    by (simp add: labelValue_def valid_ascii is_ascii_def escape_label_byte_def)
  have digits: "map (\<lambda>n. length (itoa n)) [0,1,2,3,7,5,10,15,25,30,50,100,250,500,800,1000,1500,3000,4000,6000,12000] =
    [1,1,1,1,1,1,2,2,2,2,2,3,3,3,3,4,4,4,4,4,5]" by (simp add: itoa.simps)
  have sz: "length ?cs \<le> 200" "list_all (\<lambda>c. length c \<le> 200) ?cs"
    by (simp_all add: defs v digits [simplified])
  have "length (chunk_text cs) \<le> 201 * length cs" if "list_all (\<lambda>c. length c \<le> 200) cs" for cs
    using that by (induction cs) auto
  from this [OF sz(2)] have "length (writeMetrics int_env one_source_state) \<le> 201 * 200"
    using sz(1) by (simp add: writeMetrics_def write_chunks_concat)
  then have "length (writeMetrics int_env one_source_state) \<le> outcomesMaxBody" by (simp add: outcomesMaxBody_def)
  moreover have "list_all (\<lambda>c. length c < outcomesMaxLine) ?cs"
    using sz(2) by (rule list.pred_mono_strong) (simp add: outcomesMaxLine_def)
  ultimately show ?thesis by (simp add: exposition_fits_def)
qed

theorem outcomes_read_back_witness:
  "\<exists>rd. fetchOutcomes read_int (Reply 200 (writeMetrics int_env one_source_state) False) = Inr rd \<and>
    ord_Published rd = 7 \<and> wf_map (ord_Sources rd) \<and>
    map_of (ord_Sources rd) = [[CHR ''a'', CHR 0x22] \<mapsto> \<lparr>sou_Survivors = 1, sou_Valid = 2\<rparr>]"
proof -
  obtain r where r: "mt_last one_source_state = Some r" by (simp add: one_source_state_def)
  then have srcs: "cr_Sources r = [\<lparr>so_Name = [CHR ''a'', CHR 0x22], so_Managed = True, so_Feed = [], so_Total = 3,
       so_Valid = 2, so_Tested = 1, so_Filtered = 0, so_DNSDrop = 0, so_GeoDrop = 0, so_CIDRDrop = 0, so_ASNDrop = 0,
       so_GeoBlockDrop = 0, so_IPv6Drop = 0, so_Unsupported = 0\<rparr>]"
    by (auto simp: one_source_state_def)
  have "sources_readable r" by (simp add: sources_readable_def srcs source_name_ok_def valid_ascii is_ascii_def)
  from outcomes_read_back [OF int_env_plain int_env_reads r this _ _ one_source_fits]
  show ?thesis by (simp add: srcs reported_outcomes_def) (simp add: one_source_state_def)
qed

end
