(* ===== verification/CrawlNames.thy ===== *)
theory CrawlNames
  imports Extract HttpGuard CrawlState
begin

text \<open>
  \<^verbatim>\<open>internal/crawl/crawl.go\<close>: the entries of the managed overlay and the names the crawler mints for
  them, the adoption of the names of an earlier version, and the paging cursor. The taken names are the
  list \<open>used\<close>. \<^verbatim>\<open>sha256\<close> is the parameter \<open>sha_hex\<close>, the 64 hexadecimal digits of a hash.
\<close>

section \<open>The overlay\<close>

record source =
  sc_Name :: string
  sc_URL :: string
  sc_Body :: string
  sc_Feed :: string
  sc_Managed :: bool
  sc_HWID :: string

record privateFile =
  pv_Sources :: "source list"
  pv_adopted :: bool

record origin =
  og_Slug :: string
  og_Post :: nat
  og_Stem :: string
  og_Feed :: string

definition no_origin :: origin where
  "no_origin = \<lparr>og_Slug = [], og_Post = 0, og_Stem = [], og_Feed = []\<rparr>"

section \<open>Slugs\<close>

definition maxSlug :: nat where "maxSlug = 24"
definition maxGitHubStem :: nat where "maxGitHubStem = 40"
definition firstSiblingOrdinal :: nat where "firstSiblingOrdinal = 2"
definition unattributedNameHex :: nat where "unattributedNameHex = 10"
definition legacyManagedPrefix :: string where "legacyManagedPrefix = ''tg-''"
definition inlineSourceName :: string where "inlineSourceName = ''inline''"
definition ghFeedPrefix :: string where "ghFeedPrefix = ''gh:''"

definition trimTrailingDash :: "string \<Rightarrow> string" where
  "trimTrailingDash b = rev (dropWhile (\<lambda>c. c = CHR ''-'') (rev b))"

fun slug_bytes :: "string \<Rightarrow> string \<Rightarrow> string" where
  "slug_bytes dst [] = dst"
| "slug_bytes dst (r # ch) =
     (if length dst \<ge> maxSlug then dst
      else if is_upper r then slug_bytes (dst @ [lower_byte r]) ch
      else if is_lower r \<or> is_digit r then slug_bytes (dst @ [r]) ch
      else if r = CHR ''_'' \<or> r = CHR ''-''
           then slug_bytes (if dst \<noteq> [] \<and> last dst \<noteq> CHR ''-'' then dst @ [CHR ''-''] else dst) ch
      else slug_bytes dst ch)"

definition channelSlug :: "string \<Rightarrow> string" where
  "channelSlug ch = trimTrailingDash (slug_bytes [] ch)"

fun stem_bytes :: "string \<Rightarrow> bool \<Rightarrow> string \<Rightarrow> string" where
  "stem_bytes buf dash [] = buf"
| "stem_bytes buf dash (ch # repo) =
     (if length buf \<ge> maxGitHubStem then buf
      else if is_upper ch then stem_bytes (buf @ [lower_byte ch]) False repo
      else if is_lower ch \<or> is_digit ch then stem_bytes (buf @ [ch]) False repo
      else if \<not> dash then stem_bytes (buf @ [CHR ''-'']) True repo
      else stem_bytes buf dash repo)"

definition ghStem :: "string \<Rightarrow> string" where
  "ghStem repo = trimTrailingDash (stem_bytes ''gh-'' False repo)"

definition origin_label :: "origin \<Rightarrow> string" where
  "origin_label o1 = (if og_Feed o1 \<noteq> [] then og_Feed o1 else channelSlug (og_Slug o1))"

section \<open>Names\<close>

definition urlHash :: "(string \<Rightarrow> string) \<Rightarrow> string \<Rightarrow> nat \<Rightarrow> string" where
  "urlHash sha_hex u n = take n (sha_hex u)"

definition managedName :: "(string \<Rightarrow> string) \<Rightarrow> string \<Rightarrow> string" where
  "managedName sha_hex u = urlHash sha_hex u unattributedNameHex"

definition hex_lower :: "char \<Rightarrow> bool" where
  "hex_lower c = (is_digit c \<or> (CHR ''a'' \<le> c \<and> c \<le> CHR ''f''))"

definition unattributedNameRe :: "string \<Rightarrow> bool" where
  "unattributedNameRe s = (length s = 10 \<and> list_all hex_lower s)"

text \<open>
  The walk over the ordinals from \<open>n\<close>: every ordinal it rejects is a name of \<open>used\<close> of its own, so it
  ends within \<^verbatim>\<open>len(used)+1\<close> steps, far from where the code's \<^verbatim>\<open>uint64\<close> ordinal would wrap.
\<close>

definition taken_ordinals :: "string \<Rightarrow> string list \<Rightarrow> nat \<Rightarrow> nat set" where
  "taken_ordinals stem used n = {k. n \<le> k \<and> stem @ itoa k \<in> set used}"

lemma finite_taken: "finite (taken_ordinals stem used n)"
proof -
  have "inj_on (\<lambda>k. stem @ itoa k) A" for A by (auto intro!: inj_onI)
  moreover have "(\<lambda>k. stem @ itoa k) ` taken_ordinals stem used n \<subseteq> set used" by (auto simp: taken_ordinals_def)
  ultimately show ?thesis by (meson finite_imageD finite_set finite_subset)
qed

function first_free :: "string \<Rightarrow> string list \<Rightarrow> nat \<Rightarrow> string" where
  "first_free stem used n =
     (if stem @ itoa n \<in> set used then first_free stem used (Suc n) else stem @ itoa n)"
  by pat_completeness auto
termination
proof (relation "measure (\<lambda>(stem, used, n). card (taken_ordinals stem used n))")
  fix stem :: string and used :: "string list" and n :: nat
  assume "stem @ itoa n \<in> set used"
  then have "taken_ordinals stem used n = insert n (taken_ordinals stem used (Suc n))"
    by (auto simp: taken_ordinals_def Suc_le_eq order_le_less)
  moreover have "n \<notin> taken_ordinals stem used (Suc n)" by (simp add: taken_ordinals_def)
  ultimately have "card (taken_ordinals stem used n) = Suc (card (taken_ordinals stem used (Suc n)))"
    by (simp add: finite_taken)
  then show "((stem, used, Suc n), stem, used, n) \<in> measure (\<lambda>(stem, used, n). card (taken_ordinals stem used n))"
    by simp
qed simp

declare first_free.simps [simp del]

definition uniqueName :: "string \<Rightarrow> string list \<Rightarrow> string" where
  "uniqueName stem used =
     (if stem \<notin> set used then stem else first_free (stem @ [CHR ''-'']) used firstSiblingOrdinal)"

definition sourceName ::
  "(string \<Rightarrow> string) \<Rightarrow> string \<Rightarrow> string \<Rightarrow> origin \<Rightarrow> string list \<Rightarrow> string" where
  "sourceName sha_hex u existingName o1 used =
     (if existingName \<noteq> [] \<and> \<not> unattributedNameRe existingName then existingName
      else if og_Stem o1 \<noteq> [] then uniqueName (og_Stem o1) used
      else let slug = channelSlug (og_Slug o1)
           in if slug \<noteq> []
              then (if og_Post o1 \<noteq> 0
                    then (let stem = slug @ CHR ''-'' # itoa (og_Post o1)
                          in if stem \<notin> set used then stem else first_free (stem @ [CHR ''-'']) used 2)
                    else first_free (slug @ [CHR ''-'']) used 1)
              else if existingName \<noteq> [] then existingName
              else managedName sha_hex u)"

section \<open>Adoption\<close>

definition legacyFeed :: "string \<Rightarrow> string" where
  "legacyFeed name =
     (if length name < 8 \<or> name ! (length name - 7) \<noteq> CHR ''-'' then []
      else if list_all hex_lower (drop (length name - 6) name) then take (length name - 7) name
      else [])"

definition needsAdoption :: "source \<Rightarrow> bool" where
  "needsAdoption s =
     (if sc_Managed s \<or> \<not> has_prefix legacyManagedPrefix (sc_Name s) then False
      else let rest = drop (length legacyManagedPrefix) (sc_Name s)
           in rest = inlineSourceName \<or> legacyFeed rest \<noteq> [] \<or> unattributedNameRe rest)"

definition adoptedName ::
  "(string \<Rightarrow> string) \<Rightarrow> source \<Rightarrow> string \<Rightarrow> string list \<Rightarrow> string option" where
  "adoptedName sha_hex s stripped taken =
     (if stripped \<notin> set taken then Some stripped
      else let byURL = managedName sha_hex (sc_URL s)
           in if byURL \<notin> set taken then Some byURL
              else let byName = urlHash sha_hex (sc_Name s) unattributedNameHex
                   in if byName \<notin> set taken then Some byName else None)"

fun adopt_each :: "(string \<Rightarrow> string) \<Rightarrow> string list \<Rightarrow> source list \<Rightarrow> source list" where
  "adopt_each sha_hex taken [] = []"
| "adopt_each sha_hex taken (s # ss) =
     (if \<not> needsAdoption s then s # adopt_each sha_hex taken ss
      else let stripped = drop (length legacyManagedPrefix) (sc_Name s)
           in case adoptedName sha_hex s stripped taken of
                None \<Rightarrow> s # adopt_each sha_hex taken ss
              | Some name \<Rightarrow>
                  s\<lparr>sc_Name := name, sc_Feed := legacyFeed stripped, sc_Managed := True\<rparr>
                    # adopt_each sha_hex (name # taken) ss)"

definition adoptLegacyNames :: "(string \<Rightarrow> string) \<Rightarrow> privateFile \<Rightarrow> privateFile" where
  "adoptLegacyNames sha_hex pf =
     (if find needsAdoption (pv_Sources pf) = None then pf
      else let taken = map sc_Name (filter (\<lambda>s. \<not> needsAdoption s) (pv_Sources pf))
           in \<lparr>pv_Sources = adopt_each sha_hex taken (pv_Sources pf), pv_adopted = True\<rparr>)"

section \<open>The cursor\<close>

definition less_id :: "string \<Rightarrow> string \<Rightarrow> bool" where
  "less_id a b = (if length a \<noteq> length b then length a < length b else a < b)"

definition cursorID :: "string \<Rightarrow> string option" where
  "cursorID value =
     (case last_index_byte CHR ''/'' value of
        None \<Rightarrow> None
      | Some i \<Rightarrow>
          (let n = drop (i + 1) value
           in if i = 0 \<or> n = [] then None else if list_all is_digit n then Some n else None))"

function page_cursor :: "string \<Rightarrow> string \<Rightarrow> string" where
  "page_cursor best page =
     (case index_str dataPost page of
        None \<Rightarrow> best
      | Some i \<Rightarrow>
          (let val = drop (i + length dataPost) page
           in case index_byte (CHR 0x22) val of
                None \<Rightarrow> best
              | Some q \<Rightarrow>
                  page_cursor
                    (case cursorID (take q val) of
                       None \<Rightarrow> best
                     | Some n \<Rightarrow> if best = [] \<or> less_id n best then n else best) val))"
  by pat_completeness auto
termination
proof (relation "measure (\<lambda>(best, page). length page)", goal_cases)
  case (2 best page i val q)
  then show ?case using index_str_Some [of dataPost page i] by (auto simp: dataPost_def)
qed simp

declare page_cursor.simps [simp del]

definition pageCursor :: "string \<Rightarrow> string" where
  "pageCursor page = page_cursor [] page"

section \<open>Candidates\<close>

definition has_suffix :: "string \<Rightarrow> string \<Rightarrow> bool" where
  "has_suffix p s = has_prefix (rev p) (rev s)"

text \<open>No letter beyond ASCII folds into one of these names, so folding the ASCII letters is enough.\<close>

definition isNoiseHost :: "string \<Rightarrow> bool" where
  "isNoiseHost host0 =
     (let host = map lower_byte host0
      in host \<in> set [''t.me'', ''telegram.org'', ''www.telegram.org'', ''telegram.me'', ''telegram.dog'', ''oauth.tg.dev'']
         \<or> host = ''telesco.pe'' \<or> has_suffix ''.telesco.pe'' host)"

datatype rejectReason =
  rejectNoiseHost | rejectInvalidURL | rejectFetch | rejectStatus | rejectNodeless | rejectExpired | rejectDead

definition candidate :: "(string \<Rightarrow> URL option) \<Rightarrow> string \<Rightarrow> rejectReason option" where
  "candidate url_Parse raw =
     (case url_Parse raw of
        None \<Rightarrow> Some rejectInvalidURL
      | Some u \<Rightarrow>
          if isNoiseHost (Hostname u) then Some rejectNoiseHost
          else if ValidatePublicParsedHTTPSURL u \<noteq> None then Some rejectInvalidURL
          else None)"

section \<open>Comparing files\<close>

definition sameSources :: "source list \<Rightarrow> source list \<Rightarrow> bool" where
  "sameSources a b =
     (length a = length b \<and> list_all (\<lambda>s. int (count_list a s) - int (count_list b s) = 0) (a @ b))"

lemma sameSources_mset: "sameSources a b \<longleftrightarrow> mset a = mset b"
proof
  assume s: "sameSources a b"
  have "count (mset a) x = count (mset b) x" for x
  proof (cases "x \<in> set (a @ b)")
    case True
    then show ?thesis using s by (auto simp: sameSources_def list_all_iff count_mset)
  next
    case False
    then show ?thesis by (metis Un_iff count_mset_0_iff set_append)
  qed
  then show "mset a = mset b" by (simp add: multiset_eq_iff)
next
  assume m: "mset a = mset b"
  then have "length a = length b" by (rule mset_eq_length)
  moreover have "count_list a x = count_list b x" for x using m by (metis count_mset)
  ultimately show "sameSources a b" by (simp add: sameSources_def list_all_iff)
qed

end
