(* ===== verification/CrawlVerdicts.thy ===== *)
theory CrawlVerdicts
  imports CrawlNames
begin

text \<open>
  \<^verbatim>\<open>classifyAll\<close> and \<^verbatim>\<open>recheckManaged\<close> of \<^verbatim>\<open>internal/crawl/crawl.go\<close> and the accounting of
  \<^verbatim>\<open>reject.go\<close>: what a cycle learns about urls. The classifier is the parameter \<open>classify\<close>, given the url
  and the hwid it is fetched with. Its calls finish in any order; the list of urls is that order here, and
  of the results only the order of the dead urls and the choice of the logged lines depend on it.
\<close>

section \<open>Rejected candidates\<close>

definition defaultMaxDiscovered :: nat where "defaultMaxDiscovered = 200"
definition maxInlineAccum :: nat where "maxInlineAccum = 20000"
definition maxRejectLines :: nat where "maxRejectLines = defaultMaxDiscovered"
definition maxRejectTracked :: nat where "maxRejectTracked = maxInlineAccum"

record rejects =
  rj_verdict :: "(string, rejectReason) gomap"
  rj_untracked :: nat
  rj_logged :: nat
  rj_noted :: nat

definition newRejects :: rejects where
  "newRejects = \<lparr>rj_verdict = [], rj_untracked = 0, rj_logged = 0, rj_noted = 0\<rparr>"

text \<open>A nil recorder records nothing.\<close>

definition record_reject :: "string \<Rightarrow> rejectReason \<Rightarrow> rejects option \<Rightarrow> rejects option" where
  "record_reject rawURL reason rej =
     (case rej of
        None \<Rightarrow> None
      | Some r \<Rightarrow>
          if map_of (rj_verdict r) rawURL \<noteq> None then Some r
          else if length (rj_verdict r) \<ge> maxRejectTracked then Some (r\<lparr>rj_untracked := rj_untracked r + 1\<rparr>)
          else let r1 = r\<lparr>rj_verdict := put rawURL reason (rj_verdict r)\<rparr>
               in Some (if rj_logged r1 \<ge> maxRejectLines then r1 else r1\<lparr>rj_logged := rj_logged r1 + 1\<rparr>))"

definition noteDead :: "string \<Rightarrow> rejects option \<Rightarrow> rejects option" where
  "noteDead rawURL rej =
     (case rej of
        None \<Rightarrow> None
      | Some r \<Rightarrow>
          if map_of (rj_verdict r) rawURL \<noteq> None then Some r
          else if length (rj_verdict r) \<ge> maxRejectTracked then Some (r\<lparr>rj_untracked := rj_untracked r + 1\<rparr>)
          else Some (r\<lparr>rj_verdict := put rawURL rejectDead (rj_verdict r), rj_noted := rj_noted r + 1\<rparr>))"

text \<open>The summary line: the total, the count of each reason, and the suppressed lines.\<close>

definition reject_report :: "string list \<Rightarrow> rejects \<Rightarrow> nat \<times> (rejectReason \<Rightarrow> nat) \<times> int" where
  "reject_report live r =
     (let counted = filter (\<lambda>e. fst e \<notin> set live) (rj_verdict r)
      in (length counted, \<lambda>reason. length (filter (\<lambda>e. snd e = reason) counted),
          int (length (rj_verdict r)) - int (rj_logged r) - int (rj_noted r)))"

section \<open>Verdicts\<close>

datatype classify_answer = BadStatus nat | FetchError | SaysLive | SaysNodeless | SaysExpired

text \<open>\<^verbatim>\<open>StatusError.Gone\<close>.\<close>

definition goneCodes :: "nat list" where
  "goneCodes = [404, 410, 451]"

record verdicts =
  vd_live :: "string list"
  vd_unknown :: "string list"
  vd_dead :: "string list"

definition fold_answer :: "string \<Rightarrow> classify_answer \<Rightarrow> verdicts \<Rightarrow> verdicts" where
  "fold_answer u ans v =
     (case ans of
        FetchError \<Rightarrow> v\<lparr>vd_unknown := u # vd_unknown v\<rparr>
      | BadStatus code \<Rightarrow>
          if code \<notin> set goneCodes then v\<lparr>vd_unknown := u # vd_unknown v\<rparr> else v\<lparr>vd_dead := vd_dead v @ [u]\<rparr>
      | SaysLive \<Rightarrow> v\<lparr>vd_live := u # vd_live v\<rparr>
      | SaysNodeless \<Rightarrow> v\<lparr>vd_unknown := u # vd_unknown v\<rparr>
      | SaysExpired \<Rightarrow> v\<lparr>vd_dead := vd_dead v @ [u]\<rparr>)"

definition answer_reject :: "classify_answer \<Rightarrow> rejectReason option" where
  "answer_reject ans =
     (case ans of
        FetchError \<Rightarrow> Some rejectFetch
      | BadStatus code \<Rightarrow> Some rejectStatus
      | SaysLive \<Rightarrow> None
      | SaysNodeless \<Rightarrow> Some rejectNodeless
      | SaysExpired \<Rightarrow> Some rejectExpired)"

definition hwidFor :: "(string, string) gomap \<Rightarrow> string \<Rightarrow> string" where
  "hwidFor hwids u = read_or [] hwids u"

fun classify_each ::
  "(string \<Rightarrow> string \<Rightarrow> classify_answer) \<Rightarrow> (string, instant) gomap \<Rightarrow> (string, string) gomap \<Rightarrow>
   string list \<Rightarrow> verdicts \<times> rejects option \<Rightarrow> verdicts \<times> rejects option" where
  "classify_each classify dead hwids [] vr = vr"
| "classify_each classify dead hwids (u # us) (v, rej) =
     (if map_of dead u \<noteq> None then classify_each classify dead hwids us (v, noteDead u rej)
      else let ans = classify u (hwidFor hwids u)
           in classify_each classify dead hwids us
                (fold_answer u ans v,
                 case answer_reject ans of None \<Rightarrow> rej | Some reason \<Rightarrow> record_reject u reason rej))"

definition classifyAll ::
  "(string \<Rightarrow> string \<Rightarrow> classify_answer) \<Rightarrow> (string, instant) gomap \<Rightarrow> (string, string) gomap \<Rightarrow>
   string list \<Rightarrow> rejects option \<Rightarrow> verdicts \<times> rejects option" where
  "classifyAll classify dead hwids urls rej =
     classify_each classify dead hwids urls (\<lparr>vd_live = [], vd_unknown = [], vd_dead = []\<rparr>, rej)"

section \<open>The recheck\<close>

record recheckResult =
  rr_managedURL :: "string list"
  rr_unknown :: "string list"
  rr_stale :: "string list"
  rr_checked :: nat
  rr_revived :: nat
  rr_dead :: "string list"

definition dark :: "recheckResult \<Rightarrow> nat \<Rightarrow> bool" where
  "dark r discovered = (discovered = 0 \<and> rr_checked r > 0 \<and> rr_revived r = 0)"

text \<open>The loop over the sources: the managed urls, those not rediscovered, and their hwids.\<close>

definition collect_source ::
  "(string, origin) gomap \<Rightarrow> source \<Rightarrow> string list \<times> string list \<times> (string, string) gomap \<Rightarrow>
   string list \<times> string list \<times> (string, string) gomap" where
  "collect_source live s mph =
     (case mph of (managed, pending, hwids) \<Rightarrow>
        if \<not> sc_Managed s \<or> sc_Body s \<noteq> [] then (managed, pending, hwids)
        else (List.insert (sc_URL s) managed,
              if map_of live (sc_URL s) = None then pending @ [sc_URL s] else pending,
              if map_of live (sc_URL s) = None \<and> sc_HWID s \<noteq> [] then put (sc_URL s) (sc_HWID s) hwids else hwids))"

definition revive :: "string \<Rightarrow> (string, origin) gomap \<Rightarrow> (string, origin) gomap" where
  "revive u live = (if map_of live u = None then put u no_origin live else live)"

definition recheckManaged ::
  "(string \<Rightarrow> string \<Rightarrow> classify_answer) \<Rightarrow> privateFile \<Rightarrow> (string, origin) gomap \<Rightarrow>
   recheckResult \<times> (string, origin) gomap" where
  "recheckManaged classify pf live =
     (let (managed, pending, hwids) = fold (collect_source live) (pv_Sources pf) ([], [], []);
          v = fst (classifyAll classify [] hwids pending None)
      in (\<lparr>rr_managedURL = managed, rr_unknown = vd_unknown v, rr_stale = [], rr_checked = length pending,
           rr_revived = length (remdups (vd_live v)), rr_dead = vd_dead v\<rparr>,
          fold revive (vd_live v) live))"

section \<open>Where a url ends up\<close>

lemma classify_each_sets:
  "fst (classify_each classify dead hwids us (v, rej)) =
     \<lparr>vd_live = rev (filter (\<lambda>u. map_of dead u = None \<and> classify u (hwidFor hwids u) = SaysLive) us) @ vd_live v,
      vd_unknown = rev (filter (\<lambda>u. map_of dead u = None \<and>
          (case classify u (hwidFor hwids u) of FetchError \<Rightarrow> True | BadStatus c \<Rightarrow> c \<notin> set goneCodes
           | SaysLive \<Rightarrow> False | SaysNodeless \<Rightarrow> True | SaysExpired \<Rightarrow> False)) us) @ vd_unknown v,
      vd_dead = vd_dead v @ filter (\<lambda>u. map_of dead u = None \<and>
          (case classify u (hwidFor hwids u) of FetchError \<Rightarrow> False | BadStatus c \<Rightarrow> c \<in> set goneCodes
           | SaysLive \<Rightarrow> False | SaysNodeless \<Rightarrow> False | SaysExpired \<Rightarrow> True)) us\<rparr>"
proof (induction us arbitrary: v rej)
  case (Cons u us)
  show ?case
  proof (cases "map_of dead u")
    case None
    then show ?thesis
      by (cases "classify u (hwidFor hwids u)") (simp_all add: Cons Let_def fold_answer_def)
  qed (simp add: Cons)
qed simp

lemma classifyAll_fst:
  "fst (classifyAll classify dead hwids us rej) =
     \<lparr>vd_live = rev (filter (\<lambda>u. map_of dead u = None \<and> classify u (hwidFor hwids u) = SaysLive) us),
      vd_unknown = rev (filter (\<lambda>u. map_of dead u = None \<and>
          (case classify u (hwidFor hwids u) of FetchError \<Rightarrow> True | BadStatus c \<Rightarrow> c \<notin> set goneCodes
           | SaysLive \<Rightarrow> False | SaysNodeless \<Rightarrow> True | SaysExpired \<Rightarrow> False)) us),
      vd_dead = filter (\<lambda>u. map_of dead u = None \<and>
          (case classify u (hwidFor hwids u) of FetchError \<Rightarrow> False | BadStatus c \<Rightarrow> c \<in> set goneCodes
           | SaysLive \<Rightarrow> False | SaysNodeless \<Rightarrow> False | SaysExpired \<Rightarrow> True)) us\<rparr>"
  by (simp add: classifyAll_def classify_each_sets)

end
