(* ===== verification/CrawlMerge.thy ===== *)
theory CrawlMerge
  imports CrawlVerdicts Subscription
begin

text \<open>
  The merge of \<^verbatim>\<open>internal/crawl/crawl.go\<close>: the managed overlay rebuilt from the file, the live urls and
  the verdicts, and the gate every write of it passes. \<open>url_Parse\<close> is \<^verbatim>\<open>net/url\<close>'s parser.
\<close>

section \<open>The curated overlays\<close>

text \<open>What reading one of the files gave: its names and urls, or nothing.\<close>

type_synonym curated_read = "(string \<times> string) list option"

definition curatedNames :: "curated_read list \<Rightarrow> string list" where
  "curatedNames reads =
     remdups (concat (map (\<lambda>r. case r of None \<Rightarrow> [] | Some es \<Rightarrow> filter (\<lambda>n. n \<noteq> []) (map fst es)) reads))"

definition curatedURLs :: "curated_read list \<Rightarrow> string list" where
  "curatedURLs reads =
     remdups (concat (map (\<lambda>r. case r of None \<Rightarrow> [] | Some es \<Rightarrow> filter (\<lambda>u. u \<noteq> []) (map snd es)) reads))"

section \<open>One url\<close>

definition retainManaged :: "string \<Rightarrow> (string, origin) gomap \<Rightarrow> recheckResult \<Rightarrow> bool \<Rightarrow> bool" where
  "retainManaged u live rr may_prune =
     (if map_of live u \<noteq> None then True
      else if u \<notin> set (rr_managedURL rr) then True
      else if \<not> may_prune then True
      else if u \<in> set (rr_unknown rr) then u \<notin> set (rr_stale rr)
      else False)"

definition zero_source :: source where
  "zero_source = \<lparr>sc_Name = [], sc_URL = [], sc_Body = [], sc_Feed = [], sc_Managed = False, sc_HWID = []\<rparr>"

definition mintSource :: "(string \<Rightarrow> string) \<Rightarrow> string \<Rightarrow> source \<Rightarrow> origin \<Rightarrow> string list \<Rightarrow> source" where
  "mintSource sha_hex u prev o1 used =
     (let name = sourceName sha_hex u (sc_Name prev) o1 used;
          feed = (if name \<noteq> sc_Name prev then origin_label o1 else sc_Feed prev)
      in \<lparr>sc_Name = name, sc_URL = u, sc_Body = [], sc_Feed = feed, sc_Managed = True, sc_HWID = sc_HWID prev\<rparr>)"

section \<open>The merge\<close>

record mint_env =
  me_sha :: "string \<Rightarrow> string"
  me_url_Parse :: "string \<Rightarrow> URL option"

record mint_input =
  mi_existing :: "(string, source) gomap"
  mi_live :: "(string, origin) gomap"
  mi_rr :: recheckResult
  mi_prune :: bool
  mi_denied :: "string list"

record minted =
  mn_managed :: "source list"
  mn_deleted :: "string list"
  mn_denied :: nat

fun mint_each :: "mint_env \<Rightarrow> mint_input \<Rightarrow> string list \<Rightarrow> string list \<Rightarrow> minted" where
  "mint_each env mi [] used = \<lparr>mn_managed = [], mn_deleted = [], mn_denied = 0\<rparr>"
| "mint_each env mi (u # us) used =
     (let was = map_of (mi_existing mi) u \<noteq> None;
          dropped = (\<lambda>m. if was then m\<lparr>mn_deleted := u # mn_deleted m\<rparr> else m)
      in if u \<in> set (mi_denied mi) then (let m = mint_each env mi us used in m\<lparr>mn_denied := mn_denied m + 1\<rparr>)
         else if \<not> retainManaged u (mi_live mi) (mi_rr mi) (mi_prune mi) then dropped (mint_each env mi us used)
         else if ValidatePublicHTTPSURL (me_url_Parse env) u \<noteq> None then dropped (mint_each env mi us used)
         else let s = mintSource (me_sha env) u (read_or zero_source (mi_existing mi) u)
                        (read_or no_origin (mi_live mi) u) used;
                  m = mint_each env mi us (sc_Name s # used)
              in m\<lparr>mn_managed := s # mn_managed m\<rparr>)"

definition mintRetained :: "mint_env \<Rightarrow> mint_input \<Rightarrow> string set \<Rightarrow> string list \<Rightarrow> minted" where
  "mintRetained env mi all used = mint_each env mi (sorted_list_of_set all) used"

text \<open>The switch over the file's entries.\<close>

record sorted_entries =
  se_all :: "string list"
  se_existing :: "(string, source) gomap"
  se_kept :: "source list"
  se_used :: "string list"
  se_sheltered :: "string list"

definition sort_entry :: "source \<Rightarrow> sorted_entries \<Rightarrow> sorted_entries" where
  "sort_entry s e =
     (if sc_Body s \<noteq> [] \<and> sc_Managed s then e
      else if sc_Managed s
           then e\<lparr>se_all := sc_URL s # se_all e, se_existing := put (sc_URL s) s (se_existing e),
                  se_used := sc_Name s # se_used e\<rparr>
      else e\<lparr>se_kept := se_kept e @ [s], se_used := sc_Name s # se_used e,
             se_sheltered := (if sc_URL s \<noteq> [] then sc_URL s # se_sheltered e else se_sheltered e)\<rparr>)"

record merged =
  mg_next :: "source list"
  mg_managed :: "source list"
  mg_deleted :: "string list"
  mg_curated :: nat

definition mergeManaged ::
  "mint_env \<Rightarrow> curated_read list \<Rightarrow> privateFile \<Rightarrow> (string, origin) gomap \<Rightarrow> recheckResult \<Rightarrow> bool \<Rightarrow>
   string list \<Rightarrow> merged" where
  "mergeManaged env curated pf live rr may_prune denied =
     (let names = curatedNames curated;
          e = fold sort_entry (pv_Sources pf)
                \<lparr>se_all = [], se_existing = [], se_kept = [], se_used = names, se_sheltered = []\<rparr>;
          all = set (se_all e) \<union> set (filter (\<lambda>u. u \<notin> set (se_sheltered e)) (keys live));
          m = mintRetained env
                \<lparr>mi_existing = se_existing e, mi_live = live, mi_rr = rr, mi_prune = may_prune, mi_denied = denied\<rparr>
                all (se_used e);
          managed = sort_key sc_Name (mn_managed m)
      in \<lparr>mg_next = se_kept e @ managed, mg_managed = managed, mg_deleted = mn_deleted m,
          mg_curated = length names\<rparr>)"

definition managedCount :: "privateFile \<Rightarrow> nat" where
  "managedCount pf = length (filter (\<lambda>s. sc_Body s = [] \<and> sc_Managed s) (pv_Sources pf))"

section \<open>The write gate\<close>

datatype private_error = BadSourceName string | DupSourceName string | DupFetch string | BadSourceURL string url_error

definition sourceNameRe :: "string \<Rightarrow> bool" where
  "sourceNameRe s = (s \<noteq> [] \<and> list_all (\<lambda>c. is_lower c \<or> is_digit c \<or> c = CHR ''-'') s)"

fun validate_private ::
  "(string \<Rightarrow> URL option) \<Rightarrow> string list \<Rightarrow> ((string \<times> string) \<times> string) list \<Rightarrow> source list \<Rightarrow> private_error option" where
  "validate_private url_Parse seen urlOwner [] = None"
| "validate_private url_Parse seen urlOwner (s # ss) =
     (if \<not> sourceNameRe (sc_Name s) then Some (BadSourceName (sc_Name s))
      else if sc_Name s \<in> set seen then Some (DupSourceName (sc_Name s))
      else
        (let url = trim_space (sc_URL s);
             key = (url, sc_HWID s);
             owner' = (if url \<noteq> [] then (key, sc_Name s) # urlOwner else urlOwner)
         in if url \<noteq> [] \<and> map_of urlOwner key \<noteq> None then Some (DupFetch (sc_Name s))
            else if trim_space (sc_Body s) \<noteq> [] then validate_private url_Parse (sc_Name s # seen) owner' ss
            else case ValidatePublicHTTPSURL url_Parse (sc_URL s) of
                   Some e \<Rightarrow> Some (BadSourceURL (sc_Name s) e)
                 | None \<Rightarrow> validate_private url_Parse (sc_Name s # seen) owner' ss))"

definition validatePrivate :: "(string \<Rightarrow> URL option) \<Rightarrow> privateFile \<Rightarrow> private_error option" where
  "validatePrivate url_Parse pf = validate_private url_Parse [] [] (pv_Sources pf)"

text \<open>\<^verbatim>\<open>buildInlineSource\<close>: the callback of the parse and what is packed.\<close>

definition keep_inline ::
  "(string \<Rightarrow> string) \<Rightarrow> int \<Rightarrow> string list \<times> string list \<Rightarrow> Node \<Rightarrow> (string list \<times> string list) \<times> bool" where
  "keep_inline lower inlineMax st n =
     (case st of (seen, kept) \<Rightarrow>
        if Server n = [] \<or> Port n = [] then ((seen, kept), True)
        else let key = lower (Server n) @ CHR '':'' # Port n
             in if key \<in> set seen then ((seen, kept), True)
                else let kept' = kept @ [Raw n]
                     in ((key # seen, kept'), \<not> (inlineMax > 0 \<and> int (length kept') \<ge> inlineMax)))"

fun join_newline :: "string list \<Rightarrow> string" where
  "join_newline [] = []"
| "join_newline [s] = s"
| "join_newline (s # t # ss) = s @ newline # join_newline (t # ss)"

definition buildInlineSource ::
  "(string \<Rightarrow> string) \<Rightarrow> int \<Rightarrow> string list \<Rightarrow> (source \<times> nat) option" where
  "buildInlineSource lower inlineMax uris =
     (if inlineMax = 0 then None
      else let kept = snd (fst (Parse (join_newline uris) (keep_inline lower inlineMax) ([], [])))
           in if kept = [] then None
              else Some (zero_source\<lparr>sc_Name := inlineSourceName, sc_Managed := True,
                           sc_Body := AppendEncode StdEncoding (join_newline kept)\<rparr>, length kept))"

end
