(* ===== verification/CrawlMergeLaws.thy ===== *)
theory CrawlMergeLaws
  imports CrawlMerge ConfigCheck
begin

text \<open>
  What the merge keeps, drops and mints, and that the file it proposes is one the write gate and the
  service's own loading accept.
\<close>

section \<open>Sorting the entries\<close>

definition owned :: "source list \<Rightarrow> source list" where
  "owned ss = filter (\<lambda>s. sc_Managed s \<and> sc_Body s = []) ss"

definition by_hand :: "source list \<Rightarrow> source list" where
  "by_hand ss = filter (\<lambda>s. \<not> sc_Managed s) ss"

lemma sort_entries_lists:
  "se_kept (fold sort_entry ss e) = se_kept e @ by_hand ss"
  "set (se_all (fold sort_entry ss e)) = sc_URL ` set (owned ss) \<union> set (se_all e)"
  "set (se_used (fold sort_entry ss e)) = sc_Name ` set (owned ss @ by_hand ss) \<union> set (se_used e)"
  "set (se_sheltered (fold sort_entry ss e)) = {u \<in> sc_URL ` set (by_hand ss). u \<noteq> []} \<union> set (se_sheltered e)"
  by (induction ss arbitrary: e) (auto simp: sort_entry_def owned_def by_hand_def)

lemma sort_entries_existing:
  "map_of (se_existing (fold sort_entry ss e)) u =
     (case find (\<lambda>s. sc_URL s = u) (rev (owned ss)) of Some s \<Rightarrow> Some s | None \<Rightarrow> map_of (se_existing e) u)"
proof (induction ss arbitrary: e)
  case Nil
  then show ?case by (simp add: owned_def)
next
  case (Cons s ss)
  have app: "find P (xs @ [x]) = (case find P xs of Some y \<Rightarrow> Some y | None \<Rightarrow> if P x then Some x else None)" for P :: "source \<Rightarrow> bool" and xs x
    by (induction xs) auto
  show ?case
  proof (cases "sc_Managed s \<and> sc_Body s = []")
    case True
    then have "se_existing (sort_entry s e) = put (sc_URL s) s (se_existing e)" "owned (s # ss) = s # owned ss"
      by (auto simp: sort_entry_def owned_def)
    then show ?thesis by (simp add: Cons.IH app split: option.split)
  next
    case False
    then have "se_existing (sort_entry s e) = se_existing e" "owned (s # ss) = owned ss"
      by (auto simp: sort_entry_def owned_def)
    then show ?thesis by (simp add: Cons.IH split: option.split)
  qed
qed

lemma find_rev_Some: "find P (rev xs) = Some x \<Longrightarrow> x \<in> set xs \<and> P x"
  by (metis find_Some_iff nth_mem set_rev)

lemma find_rev_None: "find P (rev xs) = None \<longleftrightarrow> (\<forall>x\<in>set xs. \<not> P x)"
  by (auto simp: find_None_iff)

section \<open>The mint\<close>

definition mint_keeps :: "mint_env \<Rightarrow> mint_input \<Rightarrow> string \<Rightarrow> bool" where
  "mint_keeps env mi u \<longleftrightarrow> u \<notin> set (mi_denied mi) \<and> retainManaged u (mi_live mi) (mi_rr mi) (mi_prune mi) \<and>
     ValidatePublicHTTPSURL (me_url_Parse env) u = None"

lemma mint_each_urls: "map sc_URL (mn_managed (mint_each env mi us used)) = filter (mint_keeps env mi) us"
  by (induction us arbitrary: used) (auto simp: Let_def mint_keeps_def mintSource_def)

lemma mint_each_deleted:
  "mn_deleted (mint_each env mi us used) =
     filter (\<lambda>u. map_of (mi_existing mi) u \<noteq> None \<and> u \<notin> set (mi_denied mi) \<and> \<not> mint_keeps env mi u) us"
  by (induction us arbitrary: used) (auto simp: Let_def mint_keeps_def)

lemma mint_each_shape:
  "s \<in> set (mn_managed (mint_each env mi us used)) \<Longrightarrow>
     sc_Managed s \<and> sc_Body s = [] \<and> sc_HWID s = sc_HWID (read_or zero_source (mi_existing mi) (sc_URL s))"
  by (induction us arbitrary: used) (auto simp: Let_def mintSource_def split: if_splits)

subsection \<open>Names\<close>

lemma first_free_fresh: "first_free stem used n \<notin> set used"
  by (induction stem used n rule: first_free.induct) (subst first_free.simps, simp)

lemma first_free_form: "\<exists>k \<ge> n. first_free stem used n = stem @ itoa k"
proof (induction stem used n rule: first_free.induct)
  case (1 stem used n)
  show ?case
  proof (cases "stem @ itoa n \<in> set used")
    case True
    then obtain k where "k \<ge> Suc n" "first_free stem used (Suc n) = stem @ itoa k" using 1 by auto
    then show ?thesis using True by (subst first_free.simps) (auto intro: exI [of _ k])
  next
    case False
    then show ?thesis by (subst first_free.simps) auto
  qed
qed

lemma uniqueName_fresh: "uniqueName stem used \<notin> set used"
  by (simp add: uniqueName_def first_free_fresh)

text \<open>A new name carries where the url came from: a channel, or a repository's stem.\<close>

definition origin_known :: "origin \<Rightarrow> bool" where
  "origin_known o1 \<longleftrightarrow> og_Stem o1 \<noteq> [] \<or> channelSlug (og_Slug o1) \<noteq> []"

lemma sourceName_fresh:
  assumes "existing \<noteq> [] \<or> origin_known o1"
  shows "sourceName sha u existing o1 used = existing \<and> existing \<noteq> [] \<or> sourceName sha u existing o1 used \<notin> set used"
  using assms by (auto simp: sourceName_def Let_def uniqueName_fresh first_free_fresh origin_known_def)

definition name_source :: "mint_input \<Rightarrow> string \<Rightarrow> string" where
  "name_source mi u = sc_Name (read_or zero_source (mi_existing mi) u)"

lemma mint_each_names:
  assumes "list_all (\<lambda>u. name_source mi u \<noteq> [] \<or> origin_known (read_or no_origin (mi_live mi) u)) us"
    and "distinct us"
    and "\<forall>u\<in>set us. name_source mi u \<noteq> [] \<longrightarrow> name_source mi u \<in> set used"
    and "\<forall>u\<in>set us. \<forall>u'\<in>set us. name_source mi u \<noteq> [] \<and> name_source mi u = name_source mi u' \<longrightarrow> u = u'"
  shows "distinct (map sc_Name (mn_managed (mint_each env mi us used)))"
    and "s \<in> set (mn_managed (mint_each env mi us used)) \<Longrightarrow>
      sc_Name s = name_source mi (sc_URL s) \<and> sc_Name s \<noteq> [] \<or> sc_Name s \<notin> set used"
proof -
  have "distinct (map sc_Name (mn_managed (mint_each env mi us used))) \<and>
    (\<forall>s \<in> set (mn_managed (mint_each env mi us used)).
      sc_Name s = name_source mi (sc_URL s) \<and> sc_Name s \<noteq> [] \<or> sc_Name s \<notin> set used)"
    using assms
  proof (induction us arbitrary: used)
    case Nil
    show ?case by simp
  next
    case (Cons u us)
    have rest: "list_all (\<lambda>u. name_source mi u \<noteq> [] \<or> origin_known (read_or no_origin (mi_live mi) u)) us"
      "distinct us" "u \<notin> set us"
      "\<forall>u\<in>set us. \<forall>u'\<in>set us. name_source mi u \<noteq> [] \<and> name_source mi u = name_source mi u' \<longrightarrow> u = u'"
      using Cons.prems by auto
    have used: "\<forall>v\<in>set us. name_source mi v \<noteq> [] \<longrightarrow> name_source mi v \<in> set (x # used)" for x
      using Cons.prems(3) by auto
    show ?case
    proof (cases "mint_keeps env mi u")
      case False
      have "\<forall>v\<in>set us. name_source mi v \<noteq> [] \<longrightarrow> name_source mi v \<in> set used" using Cons.prems(3) by simp
      moreover have "mn_managed (mint_each env mi (u # us) used) = mn_managed (mint_each env mi us used)"
        using False by (auto simp: Let_def mint_keeps_def)
      ultimately show ?thesis using Cons.IH [of used] rest by simp
    next
      case True
      define n where "n = mintSource (me_sha env) u (read_or zero_source (mi_existing mi) u)
        (read_or no_origin (mi_live mi) u) used"
      let ?m = "mint_each env mi us (sc_Name n # used)"
      have step: "mn_managed (mint_each env mi (u # us) used) = n # mn_managed ?m"
        using True by (simp add: Let_def mint_keeps_def n_def)
      have nm: "sc_Name n = sourceName (me_sha env) u (name_source mi u) (read_or no_origin (mi_live mi) u) used"
        "sc_URL n = u" by (simp_all add: n_def mintSource_def name_source_def Let_def)
      have n: "sc_Name n = name_source mi u \<and> name_source mi u \<noteq> [] \<or> sc_Name n \<notin> set used"
        unfolding nm(1) by (rule sourceName_fresh) (use Cons.prems(1) in simp)
      have IH: "distinct (map sc_Name (mn_managed ?m))"
        "s \<in> set (mn_managed ?m) \<Longrightarrow>
          sc_Name s = name_source mi (sc_URL s) \<and> sc_Name s \<noteq> [] \<or> sc_Name s \<notin> set (sc_Name n # used)" for s
        using Cons.IH [of "sc_Name n # used"] rest used by blast+
      have "sc_Name s \<noteq> sc_Name n" if s: "s \<in> set (mn_managed ?m)" for s
      proof
        assume eq: "sc_Name s = sc_Name n"
        then have e: "sc_Name s = name_source mi (sc_URL s)" "sc_Name s \<noteq> []" using IH(2) [OF s] by auto
        have "sc_URL s \<in> set (map sc_URL (mn_managed ?m))" using s by simp
        then have v: "sc_URL s \<in> set us" by (simp add: mint_each_urls)
        then have "sc_Name n \<in> set used" using Cons.prems(3) e eq by auto
        then have "sc_Name n = name_source mi u" using n by blast
        then have "u = sc_URL s" using Cons.prems(4) v e eq by auto
        then show False using v rest(3) by simp
      qed
      moreover have "sc_Name s = name_source mi (sc_URL s) \<and> sc_Name s \<noteq> [] \<or> sc_Name s \<notin> set used"
        if "s \<in> set (mn_managed ?m)" for s using IH(2) [OF that] by auto
      ultimately have fresh: "sc_Name n \<notin> sc_Name ` set (mn_managed ?m)"
        and each: "\<forall>s\<in>set (mn_managed ?m). sc_Name s = name_source mi (sc_URL s) \<and> sc_Name s \<noteq> [] \<or> sc_Name s \<notin> set used"
        by (metis (no_types, lifting) imageE, blast)
      have "sc_Name n = name_source mi (sc_URL n) \<and> sc_Name n \<noteq> [] \<or> sc_Name n \<notin> set used" using n nm(2) by auto
      then show ?thesis unfolding step using IH(1) fresh each by simp
    qed
  qed
  then show "distinct (map sc_Name (mn_managed (mint_each env mi us used)))"
    and "s \<in> set (mn_managed (mint_each env mi us used)) \<Longrightarrow>
      sc_Name s = name_source mi (sc_URL s) \<and> sc_Name s \<noteq> [] \<or> sc_Name s \<notin> set used"
    by simp_all
qed


section \<open>The whole merge\<close>

definition merge_urls :: "source list \<Rightarrow> (string, origin) gomap \<Rightarrow> string set" where
  "merge_urls ss live =
     sc_URL ` set (owned ss) \<union> {u \<in> set (keys live). u = [] \<or> u \<notin> sc_URL ` set (by_hand ss)}"

definition last_owned :: "source list \<Rightarrow> string \<Rightarrow> source option" where
  "last_owned ss u = find (\<lambda>s. sc_URL s = u) (rev (owned ss))"

text \<open>
  The urls that survive the mint: not withheld, one the service would load, and live, or unknown to the
  recheck, or safe because this cycle may not prune, or of an undetermined verdict that is not stale.
\<close>

definition url_kept ::
  "mint_env \<Rightarrow> (string, origin) gomap \<Rightarrow> recheckResult \<Rightarrow> bool \<Rightarrow> string list \<Rightarrow> string \<Rightarrow> bool" where
  "url_kept env live rr may_prune denied u \<longleftrightarrow>
     u \<notin> set denied \<and> ValidatePublicHTTPSURL (me_url_Parse env) u = None \<and>
     (u \<in> set (keys live) \<or> u \<notin> set (rr_managedURL rr) \<or> \<not> may_prune \<or>
      u \<in> set (rr_unknown rr) \<and> u \<notin> set (rr_stale rr))"

definition merge_entries :: "curated_read list \<Rightarrow> privateFile \<Rightarrow> sorted_entries" where
  "merge_entries curated pf = fold sort_entry (pv_Sources pf)
     \<lparr>se_all = [], se_existing = [], se_kept = [], se_used = curatedNames curated, se_sheltered = []\<rparr>"

definition merge_minted ::
  "mint_env \<Rightarrow> curated_read list \<Rightarrow> privateFile \<Rightarrow> (string, origin) gomap \<Rightarrow> recheckResult \<Rightarrow> bool \<Rightarrow>
   string list \<Rightarrow> minted" where
  "merge_minted env curated pf live rr may_prune denied =
     mint_each env \<lparr>mi_existing = se_existing (merge_entries curated pf), mi_live = live, mi_rr = rr,
                    mi_prune = may_prune, mi_denied = denied\<rparr>
       (sorted_list_of_set (merge_urls (pv_Sources pf) live)) (se_used (merge_entries curated pf))"

lemma mergeManaged_eq:
  "mergeManaged env curated pf live rr may_prune denied =
     \<lparr>mg_next = by_hand (pv_Sources pf) @ sort_key sc_Name (mn_managed (merge_minted env curated pf live rr may_prune denied)),
      mg_managed = sort_key sc_Name (mn_managed (merge_minted env curated pf live rr may_prune denied)),
      mg_deleted = mn_deleted (merge_minted env curated pf live rr may_prune denied),
      mg_curated = length (curatedNames curated)\<rparr>"
proof -
  let ?e = "merge_entries curated pf"
  have all: "set (se_all ?e) \<union> set (filter (\<lambda>u. u \<notin> set (se_sheltered ?e)) (keys live)) = merge_urls (pv_Sources pf) live"
    by (auto simp: merge_entries_def sort_entries_lists merge_urls_def)
  show ?thesis
    unfolding mergeManaged_def Let_def merge_entries_def [symmetric] mintRetained_def all merge_minted_def [symmetric]
    by (simp add: merge_entries_def sort_entries_lists)
qed

lemma existing_entry: "map_of (se_existing (merge_entries curated pf)) u = last_owned (pv_Sources pf) u"
  by (simp add: merge_entries_def sort_entries_existing last_owned_def split: option.split)

lemma last_owned_iff: "last_owned ss u \<noteq> None \<longleftrightarrow> u \<in> sc_URL ` set (owned ss)"
proof -
  have "last_owned ss u = None \<longleftrightarrow> (\<forall>s\<in>set (owned ss). sc_URL s \<noteq> u)"
    unfolding last_owned_def by (rule find_rev_None)
  then show ?thesis by auto
qed

lemma last_owned_Some: "last_owned ss u = Some s \<Longrightarrow> s \<in> set (owned ss) \<and> sc_URL s = u"
  unfolding last_owned_def by (rule find_rev_Some)

lemma finite_merge_urls [simp]: "finite (merge_urls ss live)"
  by (simp add: merge_urls_def)

lemma mint_keeps_eq:
  "mint_keeps env \<lparr>mi_existing = ex, mi_live = live, mi_rr = rr, mi_prune = may_prune, mi_denied = denied\<rparr> =
     url_kept env live rr may_prune denied"
  by (rule ext) (auto simp: mint_keeps_def url_kept_def retainManaged_def set_keys_iff)

lemma minted_urls:
  "map sc_URL (mn_managed (merge_minted env curated pf live rr may_prune denied)) =
     filter (url_kept env live rr may_prune denied) (sorted_list_of_set (merge_urls (pv_Sources pf) live))"
  by (simp add: merge_minted_def mint_each_urls mint_keeps_eq)

lemma minted_deleted:
  "mn_deleted (merge_minted env curated pf live rr may_prune denied) =
     filter (\<lambda>u. u \<notin> set denied \<and> \<not> url_kept env live rr may_prune denied u)
       (sorted_list_of_set (sc_URL ` set (owned (pv_Sources pf))))"
proof -
  have f: "filter P (sorted_list_of_set A) = sorted_list_of_set {u \<in> A. P u}" if "finite A" for P and A :: "string set"
    using that by (intro sorted_distinct_set_unique) (auto simp: sorted_wrt_filter)
  have "{u \<in> merge_urls (pv_Sources pf) live. last_owned (pv_Sources pf) u \<noteq> None \<and> u \<notin> set denied \<and> \<not> url_kept env live rr may_prune denied u}
      = {u \<in> sc_URL ` set (owned (pv_Sources pf)). u \<notin> set denied \<and> \<not> url_kept env live rr may_prune denied u}"
    using last_owned_iff [of "pv_Sources pf"] by (auto simp: merge_urls_def)
  then show ?thesis
    by (simp add: merge_minted_def mint_each_deleted mint_keeps_eq existing_entry f)
qed


text \<open>
  C22: The merged file is the hand-added entries, verbatim and in their order, followed by managed
  entries, in the order of their names: one for each url that is managed in the file or live and not held by a hand-added entry, and
  that is neither withheld nor condemned nor refused by the service. The deletions reported to the
  prune floor are the managed urls that drop out for any reason but the withholding, in order.
\<close>

theorem merge_exact:
  "let g = mergeManaged env curated pf live rr may_prune denied;
       ours = sc_URL ` set (owned (pv_Sources pf));
       theirs = sc_URL ` set (by_hand (pv_Sources pf)) - {[]}
   in mg_next g = by_hand (pv_Sources pf) @ mg_managed g \<and>
      list_all (\<lambda>s. sc_Managed s \<and> sc_Body s = []) (mg_managed g) \<and>
      distinct (map sc_URL (mg_managed g)) \<and> sorted (map sc_Name (mg_managed g)) \<and>
      set (map sc_URL (mg_managed g)) =
        {u \<in> ours \<union> (set (keys live) - theirs). url_kept env live rr may_prune denied u} \<and>
      mg_deleted g =
        filter (\<lambda>u. u \<notin> set denied \<and> \<not> url_kept env live rr may_prune denied u) (sorted_list_of_set ours)"
proof -
  let ?m = "merge_minted env curated pf live rr may_prune denied"
  have "list_all (\<lambda>s. sc_Managed s \<and> sc_Body s = []) (mn_managed ?m)"
    using mint_each_shape by (auto simp: merge_minted_def list_all_iff)
  moreover have "distinct (map sc_URL (mn_managed ?m))" by (simp add: minted_urls)
  moreover have "set (map sc_URL (mn_managed ?m)) =
      {u \<in> merge_urls (pv_Sources pf) live. url_kept env live rr may_prune denied u}"
    unfolding minted_urls by auto
  moreover have "merge_urls (pv_Sources pf) live =
      sc_URL ` set (owned (pv_Sources pf)) \<union> (set (keys live) - (sc_URL ` set (by_hand (pv_Sources pf)) - {[]}))"
    by (auto simp: merge_urls_def)
  moreover have "distinct (map sc_URL (sort_key sc_Name xs)) \<longleftrightarrow> distinct (map sc_URL xs)" for xs :: "source list"
    by (metis mset_map mset_sort mset_eq_imp_distinct_iff)
  ultimately show ?thesis
    by (simp add: mergeManaged_eq Let_def minted_deleted list_all_iff)
qed

section \<open>The gate\<close>

definition private_ok :: "(string \<Rightarrow> URL option) \<Rightarrow> source \<Rightarrow> bool" where
  "private_ok url_Parse s \<longleftrightarrow> sourceNameRe (sc_Name s) \<and>
     (trim_space (sc_Body s) \<noteq> [] \<or> ValidatePublicHTTPSURL url_Parse (sc_URL s) = None)"

definition private_keys :: "source list \<Rightarrow> (string \<times> string) list" where
  "private_keys ss = map (\<lambda>s. (trim_space (sc_URL s), sc_HWID s)) (filter (\<lambda>s. trim_space (sc_URL s) \<noteq> []) ss)"

lemma validate_private_None:
  "validate_private url_Parse seen urlOwner ss = None \<longleftrightarrow>
     list_all (private_ok url_Parse) ss \<and> distinct (map sc_Name ss) \<and> sc_Name ` set ss \<inter> set seen = {} \<and>
     distinct (private_keys ss) \<and> set (private_keys ss) \<inter> fst ` set urlOwner = {}"
proof (induction ss arbitrary: seen urlOwner)
  case Nil
  then show ?case by (simp add: private_keys_def)
next
  case (Cons s ss)
  let ?url = "trim_space (sc_URL s)"
  let ?own = "if ?url \<noteq> [] then ((?url, sc_HWID s), sc_Name s) # urlOwner else urlOwner"
  have m: "map_of urlOwner k \<noteq> None \<longleftrightarrow> k \<in> fst ` set urlOwner" for k by (metis map_of_eq_None_iff)
  have step: "validate_private url_Parse seen urlOwner (s # ss) = None \<longleftrightarrow>
      private_ok url_Parse s \<and> sc_Name s \<notin> set seen \<and> (?url = [] \<or> (?url, sc_HWID s) \<notin> fst ` set urlOwner) \<and>
      validate_private url_Parse (sc_Name s # seen) ?own ss = None"
    using m [of "(?url, sc_HWID s)"] by (auto simp: private_ok_def Let_def split: option.splits)
  have keys: "private_keys (s # ss) = (if ?url \<noteq> [] then (?url, sc_HWID s) # private_keys ss else private_keys ss)"
    by (simp add: private_keys_def)
  show ?case unfolding step Cons.IH keys by auto
qed

text \<open>The entry as the configuration decodes it.\<close>

definition config_source :: "source \<Rightarrow> SubscriptionSource" where
  "config_source s = \<lparr>su_Name = sc_Name s, su_URL = sc_URL s, su_Body = sc_Body s, su_Managed = sc_Managed s,
     su_Feed = sc_Feed s, su_HWID = sc_HWID s\<rparr>"

lemma config_source_ok:
  "source_ok env [] (config_source s) \<longleftrightarrow>
     private_ok (ve_url_Parse env) s \<and> validateSourceHWID (config_source s) = None"
  by (auto simp: source_ok_def private_ok_def config_source_def sourceName_ok_def sourceNameRe_def)

lemma gate_eq:
  "validateSources env [] (map config_source ss) = None \<longleftrightarrow>
     validatePrivate (ve_url_Parse env) \<lparr>pv_Sources = ss, pv_adopted = a\<rparr> = None \<and>
     list_all (\<lambda>s. validateSourceHWID (config_source s) = None) ss"
proof -
  have names: "map su_Name (map config_source ss) = map sc_Name ss" by (simp add: config_source_def)
  have keys: "fetch_keys (map config_source ss) = private_keys ss"
    by (simp add: fetch_keys_def private_keys_def config_source_def filter_map comp_def)
  have "list_all (source_ok env []) (map config_source ss) \<longleftrightarrow>
      list_all (private_ok (ve_url_Parse env)) ss \<and> list_all (\<lambda>s. validateSourceHWID (config_source s) = None) ss"
    by (auto simp: list_all_iff config_source_ok)
  then show ?thesis
    unfolding validateSources_def validate_sources_loop_None validatePrivate_def validate_private_None names keys by auto
qed

lemma validateSources_append:
  "validateSources env [] (pre @ ss) = None \<longleftrightarrow>
     validateSources env [] pre = None \<and> validateSources env [] ss = None \<and>
     su_Name ` set pre \<inter> su_Name ` set ss = {} \<and> set (fetch_keys pre) \<inter> set (fetch_keys ss) = {}"
  by (auto simp: validateSources_def validate_sources_loop_None fetch_keys_def)

lemma config_source_lists:
  "su_Name ` config_source ` set ss = sc_Name ` set ss"
  "fetch_keys (map config_source ss) = private_keys ss"
  by (force simp: config_source_def, simp add: fetch_keys_def private_keys_def config_source_def filter_map comp_def)

text \<open>
  C35: The write gate against the loader. Beside a configuration that loads without \<^verbatim>\<open>private.yaml\<close>,
  one that decodes to the file's sources loads exactly when the write gate accepts the file, every hwid
  is well-formed and beside a url, and no source has the name, or the url and hwid, of one that the
  configuration already holds.
\<close>

theorem write_gate_against_load:
  "case Load env decode_config decode_private (read(''private.yaml'' := FileAbsent)) base of
     Inl e \<Rightarrow> True
   | Inr cfg \<Rightarrow>
       (if base \<noteq> ''private.yaml'' \<and> decode_private b = Some (map config_source (pv_Sources pf)) then
          (Load env decode_config decode_private (read(''private.yaml'' := FileBytes b)) base =
             Inr (add_sources (map config_source (pv_Sources pf)) cfg)) \<longleftrightarrow>
          validatePrivate (ve_url_Parse env) pf = None \<and>
          list_all (\<lambda>s. validateSourceHWID (config_source s) = None) (pv_Sources pf) \<and>
          su_Name ` set (sub_Sources (cfg_Subscriptions cfg)) \<inter> sc_Name ` set (pv_Sources pf) = {} \<and>
          set (fetch_keys (sub_Sources (cfg_Subscriptions cfg))) \<inter> set (private_keys (pv_Sources pf)) = {}
        else True)"
proof (cases "Load env decode_config decode_private (read(''private.yaml'' := FileAbsent)) base")
  case (Inr cfg)
  let ?new = "map config_source (pv_Sources pf)"
  obtain b0 cfg0 ss where c: "(read(''private.yaml'' := FileAbsent)) base = FileBytes b0" "decode_config b0 = Some cfg0"
      "overlay_sources decode_private (read(''private.yaml'' := FileAbsent)) ''sources.yaml'' = Some ss"
      "Validate env (add_sources ss (load_defaults cfg0)) = None" "cfg = add_sources ss (load_defaults cfg0)"
      "validateSources env [] (sub_Sources (cfg_Subscriptions cfg)) = None"
    using Inr unfolding Load_Inr by (auto simp: overlay_sources_def)
  have "Load env decode_config decode_private (read(''private.yaml'' := FileBytes b)) base = Inr (add_sources ?new cfg) \<longleftrightarrow>
      validateSources env [] (sub_Sources (cfg_Subscriptions cfg) @ ?new) = None"
    if "base \<noteq> ''private.yaml''" "decode_private b = Some ?new"
    using that c unfolding Load_Inr by (auto simp: overlay_sources_def)
  moreover have "validateSources env [] ?new = None \<longleftrightarrow> validatePrivate (ve_url_Parse env) pf = None \<and>
      list_all (\<lambda>s. validateSourceHWID (config_source s) = None) (pv_Sources pf)"
    using gate_eq [of env "pv_Sources pf" "pv_adopted pf"] by (cases pf) simp
  ultimately show ?thesis
    using c(6) by (simp add: Inr validateSources_append config_source_lists conj_assoc)
qed simp

section \<open>The alphabet of names\<close>

abbreviation name_char :: "char \<Rightarrow> bool" where
  "name_char c \<equiv> is_lower c \<or> is_digit c \<or> c = CHR ''-''"

lemma lower_of_upper: "is_upper r \<Longrightarrow> is_lower (lower_byte r)"
  by (simp add: is_upper_def is_lower_def lower_byte_def)

lemma slug_bytes_chars: "list_all name_char dst \<Longrightarrow> list_all name_char (slug_bytes dst ch)"
  by (induction dst ch rule: slug_bytes.induct) (auto simp: lower_of_upper)

lemma stem_bytes_chars: "list_all name_char buf \<Longrightarrow> list_all name_char (stem_bytes buf dash repo)"
  by (induction buf dash repo rule: stem_bytes.induct) (auto simp: lower_of_upper)

lemma trimTrailingDash_chars: "list_all P s \<Longrightarrow> list_all P (trimTrailingDash s)"
  by (auto simp: trimTrailingDash_def list_all_iff dest: set_dropWhileD)

lemma channelSlug_chars: "list_all name_char (channelSlug ch)"
  by (simp add: channelSlug_def trimTrailingDash_chars slug_bytes_chars)

lemma stem_bytes_prefix: "\<exists>t. stem_bytes buf dash repo = buf @ t"
proof (induction buf dash repo rule: stem_bytes.induct)
  case (2 buf dash ch repo)
  then show ?case by (auto split: if_splits)
qed simp

lemma ghStem_name: "sourceNameRe (ghStem repo)"
proof -
  obtain t where t: "stem_bytes ''gh-'' False repo = ''gh-'' @ t" using stem_bytes_prefix by blast
  have "list_all name_char ''gh-''" by (simp add: is_lower_def)
  then have "list_all name_char (ghStem repo)"
    unfolding ghStem_def by (rule trimTrailingDash_chars [OF stem_bytes_chars])
  moreover have "trimTrailingDash (''g'' @ x) \<noteq> []" for x
    by (auto simp: trimTrailingDash_def dropWhile_eq_Nil_conv)
  then have "ghStem repo \<noteq> []" unfolding ghStem_def t by simp
  ultimately show ?thesis by (simp add: sourceNameRe_def)
qed

lemma itoa_chars: "list_all name_char (itoa n)"
  by (rule list.pred_mono_strong [OF itoa_digits]) simp

lemma first_free_chars: "list_all name_char stem \<Longrightarrow> list_all name_char (first_free stem used n)"
  using first_free_form [of n stem used] itoa_chars by auto

lemma sourceName_chars:
  assumes "existing = [] \<or> sourceNameRe existing" and "og_Stem o1 = [] \<or> sourceNameRe (og_Stem o1)"
    and "existing \<noteq> [] \<or> origin_known o1"
  shows "sourceNameRe (sourceName sha u existing o1 used)"
proof -
  have free: "sourceNameRe (first_free (stem @ [CHR ''-'']) used n)" if "list_all name_char stem" for stem n
    using first_free_chars [of "stem @ [CHR ''-'']" used n] first_free_form [of n "stem @ [CHR ''-'']" used] that
    by (auto simp: sourceNameRe_def)
  have "list_all name_char (og_Stem o1)" using assms(2) by (auto simp: sourceNameRe_def)
  then have "og_Stem o1 \<noteq> [] \<Longrightarrow> sourceNameRe (uniqueName (og_Stem o1) used)"
    using assms(2) free by (auto simp: uniqueName_def)
  moreover have "sourceNameRe (channelSlug (og_Slug o1) @ CHR ''-'' # itoa n)" for n
    using channelSlug_chars itoa_chars by (simp add: sourceNameRe_def)
  moreover have "list_all name_char (channelSlug (og_Slug o1) @ CHR ''-'' # itoa n)" for n
    using channelSlug_chars itoa_chars by simp
  ultimately show ?thesis
    using assms(1,3) free [OF channelSlug_chars] free [of "channelSlug (og_Slug o1) @ CHR ''-'' # itoa (og_Post o1)" 2]
    by (auto simp: sourceName_def Let_def origin_known_def)
qed


section \<open>The proposed file\<close>

text \<open>
  Every live url that is new to the file was found somewhere, and no url carries white space at its
  ends: the crawler's urls are cut at white space.
\<close>

definition origins_named :: "privateFile \<Rightarrow> (string, origin) gomap \<Rightarrow> bool" where
  "origins_named pf live \<longleftrightarrow>
     list_all (\<lambda>u. let o1 = read_or no_origin live u in
        (og_Stem o1 = [] \<or> sourceNameRe (og_Stem o1)) \<and>
        (u \<in> sc_URL ` set (owned (pv_Sources pf)) \<or> origin_known o1)) (keys live)"

definition urls_trimmed :: "privateFile \<Rightarrow> (string, origin) gomap \<Rightarrow> bool" where
  "urls_trimmed pf live \<longleftrightarrow>
     list_all (\<lambda>s. trim_space (sc_URL s) = sc_URL s) (pv_Sources pf) \<and> list_all (\<lambda>u. trim_space u = u) (keys live)"

lemma distinct_map_filter2:
  assumes "distinct (map f xs)"
  shows "distinct (map f (filter P xs))"
  using assms by (simp add: distinct_map_filter)

lemma minted_source_facts:
  assumes "list_all (private_ok url_Parse) (pv_Sources pf)" and "distinct (map sc_Name (pv_Sources pf))"
    and "origins_named pf live"
  shows "distinct (map sc_Name (mn_managed (merge_minted env curated pf live rr may_prune denied)))"
    and "s \<in> set (mn_managed (merge_minted env curated pf live rr may_prune denied)) \<Longrightarrow>
      (case last_owned (pv_Sources pf) (sc_URL s) of None \<Rightarrow> False | Some e \<Rightarrow> sc_Name s = sc_Name e) \<or>
      sc_Name s \<notin> set (curatedNames curated) \<union> sc_Name ` set (owned (pv_Sources pf) @ by_hand (pv_Sources pf))"
proof -
  let ?ss = "pv_Sources pf"
  let ?mi = "\<lparr>mi_existing = se_existing (merge_entries curated pf), mi_live = live, mi_rr = rr,
                    mi_prune = may_prune, mi_denied = denied\<rparr>"
  let ?us = "sorted_list_of_set (merge_urls ?ss live)"
  let ?used = "se_used (merge_entries curated pf)"
  have used: "set ?used = set (curatedNames curated) \<union> sc_Name ` set (owned ?ss @ by_hand ?ss)"
    by (auto simp: merge_entries_def sort_entries_lists)
  have name: "name_source ?mi u = (case last_owned ?ss u of None \<Rightarrow> [] | Some e \<Rightarrow> sc_Name e)" for u
    by (simp add: name_source_def read_or_def existing_entry zero_source_def split: option.split)
  have entry: "e \<in> set ?ss \<and> sc_URL e = u \<and> sc_Name e \<noteq> [] \<and> e \<in> set (owned ?ss)" if "last_owned ?ss u = Some e" for u e
    using last_owned_Some [OF that] assms(1) by (auto simp: owned_def list_all_iff private_ok_def sourceNameRe_def)
  have 1: "list_all (\<lambda>u. name_source ?mi u \<noteq> [] \<or> origin_known (read_or no_origin (mi_live ?mi) u)) ?us"
  proof (unfold list_all_iff, rule ballI)
    fix u assume "u \<in> set ?us"
    then have u: "u \<in> merge_urls ?ss live" by simp
    show "name_source ?mi u \<noteq> [] \<or> origin_known (read_or no_origin (mi_live ?mi) u)"
    proof (cases "last_owned ?ss u")
      case None
      then have "u \<notin> sc_URL ` set (owned ?ss)" using last_owned_iff [of ?ss u] by simp
      then show ?thesis using u assms(3) by (auto simp: merge_urls_def origins_named_def list_all_iff Let_def)
    qed (use entry in \<open>auto simp: name\<close>)
  qed
  have 3: "\<forall>u\<in>set ?us. name_source ?mi u \<noteq> [] \<longrightarrow> name_source ?mi u \<in> set ?used"
    using entry by (auto simp: name used split: option.splits)
  have 4: "\<forall>u\<in>set ?us. \<forall>u'\<in>set ?us. name_source ?mi u \<noteq> [] \<and> name_source ?mi u = name_source ?mi u' \<longrightarrow> u = u'"
  proof (intro ballI impI)
    fix u u' assume "name_source ?mi u \<noteq> [] \<and> name_source ?mi u = name_source ?mi u'"
    then obtain e e' where e: "last_owned ?ss u = Some e" "last_owned ?ss u' = Some e'" "sc_Name e = sc_Name e'"
      by (auto simp: name split: option.splits)
    then have "e = e'" using entry assms(2) by (meson distinct_map inj_onD)
    then show "u = u'" using entry e by blast
  qed
  note facts = mint_each_names [OF 1 _ 3 4]
  show "distinct (map sc_Name (mn_managed (merge_minted env curated pf live rr may_prune denied)))"
    unfolding merge_minted_def by (rule facts(1)) simp
  assume "s \<in> set (mn_managed (merge_minted env curated pf live rr may_prune denied))"
  then have "sc_Name s = name_source ?mi (sc_URL s) \<and> sc_Name s \<noteq> [] \<or> sc_Name s \<notin> set ?used"
    unfolding merge_minted_def by (intro facts(2)) simp_all
  then show "(case last_owned ?ss (sc_URL s) of None \<Rightarrow> False | Some e \<Rightarrow> sc_Name s = sc_Name e) \<or>
      sc_Name s \<notin> set (curatedNames curated) \<union> sc_Name ` set (owned ?ss @ by_hand ?ss)"
    unfolding used by (auto simp: name split: option.splits)
qed

lemma mintSource_name: "sc_Name (mintSource sha u prev o1 used) = sourceName sha u (sc_Name prev) o1 used"
  by (simp add: mintSource_def Let_def)

lemma minted_alphabet:
  assumes "list_all (private_ok url_Parse) (pv_Sources pf)" and "origins_named pf live"
    and "s \<in> set (mn_managed (merge_minted env curated pf live rr may_prune denied))"
  shows "sourceNameRe (sc_Name s)"
proof -
  let ?ss = "pv_Sources pf"
  have each: "s \<in> set (mn_managed (mint_each env mi us used)) \<Longrightarrow>
      \<exists>u \<in> set us. \<exists>used'. sc_Name s = sourceName (me_sha env) u (sc_Name (read_or zero_source (mi_existing mi) u))
        (read_or no_origin (mi_live mi) u) used'" for mi us used
  proof (induction us arbitrary: used)
    case (Cons v us)
    then have "s = mintSource (me_sha env) v (read_or zero_source (mi_existing mi) v) (read_or no_origin (mi_live mi) v) used \<or>
        (\<exists>x. s \<in> set (mn_managed (mint_each env mi us x)))"
      by (auto simp: Let_def split: if_splits)
    then show ?case using Cons.IH mintSource_name by (metis list.set_intros(1) list.set_intros(2))
  qed simp
  obtain u used' where u: "u \<in> merge_urls ?ss live" and n: "sc_Name s = sourceName (me_sha env) u
      (sc_Name (read_or zero_source (se_existing (merge_entries curated pf)) u)) (read_or no_origin live u) used'"
    using each [OF assms(3) [unfolded merge_minted_def]] by auto
  have stem: "og_Stem (read_or no_origin live u) = [] \<or> sourceNameRe (og_Stem (read_or no_origin live u))"
  proof (cases "u \<in> set (keys live)")
    case True
    then show ?thesis using assms(2) by (auto simp: origins_named_def list_all_iff Let_def)
  next
    case False
    then have "map_of live u = None" by (simp add: set_keys_iff)
    then show ?thesis by (simp add: read_or_def no_origin_def)
  qed
  show ?thesis
  proof (cases "last_owned ?ss u")
    case None
    then have "u \<notin> sc_URL ` set (owned ?ss)" using last_owned_iff [of ?ss u] by simp
    then have "origin_known (read_or no_origin live u)" using u assms(2)
      by (auto simp: merge_urls_def origins_named_def list_all_iff Let_def)
    then show ?thesis unfolding n using stem by (intro sourceName_chars) (simp_all add: read_or_def existing_entry None zero_source_def)
  next
    case (Some e)
    then have "sourceNameRe (sc_Name e)" using last_owned_Some [OF Some] assms(1)
      by (auto simp: owned_def list_all_iff private_ok_def)
    moreover have "sc_Name e \<noteq> []" using calculation by (simp add: sourceNameRe_def)
    ultimately show ?thesis unfolding n using stem
      by (intro sourceName_chars) (simp_all add: read_or_def existing_entry Some)
  qed
qed


lemma private_keys_append: "private_keys (a @ b) = private_keys a @ private_keys b"
  by (simp add: private_keys_def)

text \<open>The shape of a minted entry, and the url it stands for.\<close>

lemma minted_shape:
  assumes "s \<in> set (mn_managed (merge_minted env curated pf live rr may_prune denied))"
  shows "sc_Managed s \<and> sc_Body s = [] \<and>
      sc_HWID s = (case last_owned (pv_Sources pf) (sc_URL s) of None \<Rightarrow> [] | Some e \<Rightarrow> sc_HWID e)"
  using mint_each_shape [OF assms [unfolded merge_minted_def]]
  by (simp add: read_or_def existing_entry zero_source_def split: option.splits)

lemma minted_kept:
  assumes "s \<in> set (mn_managed (merge_minted env curated pf live rr may_prune denied))"
  shows "sc_URL s \<in> merge_urls (pv_Sources pf) live" and "url_kept env live rr may_prune denied (sc_URL s)"
proof -
  have "sc_URL s \<in> set (map sc_URL (mn_managed (merge_minted env curated pf live rr may_prune denied)))"
    using assms by simp
  then show "sc_URL s \<in> merge_urls (pv_Sources pf) live" "url_kept env live rr may_prune denied (sc_URL s)"
    unfolding minted_urls by simp_all
qed

lemma by_hand_entry: "t \<in> set (by_hand ss) \<longleftrightarrow> t \<in> set ss \<and> \<not> sc_Managed t"
  by (auto simp: by_hand_def)

lemma last_owned_entry: "last_owned ss u = Some e \<Longrightarrow> e \<in> set ss \<and> sc_Managed e \<and> sc_URL e = u"
  using last_owned_Some [of ss u e] by (auto simp: owned_def)

lemma minted_apart:
  assumes "list_all (private_ok url_Parse) (pv_Sources pf)" and "distinct (map sc_Name (pv_Sources pf))"
    and "origins_named pf live"
  shows "sc_Name ` set (by_hand (pv_Sources pf)) \<inter>
      sc_Name ` set (mn_managed (merge_minted env curated pf live rr may_prune denied)) = {}"
proof -
  let ?ss = "pv_Sources pf"
  let ?new = "mn_managed (merge_minted env curated pf live rr may_prune denied)"
  note name = minted_source_facts(2) [OF assms, where env = env and curated = curated and rr = rr
    and may_prune = may_prune and denied = denied]
  have "sc_Name s \<noteq> sc_Name t" if s: "s \<in> set ?new" and t: "t \<in> set (by_hand ?ss)" for s t
  proof
    assume eq: "sc_Name s = sc_Name t"
    then obtain e where e: "last_owned ?ss (sc_URL s) = Some e" "sc_Name e = sc_Name t"
      using name [OF s] t by (auto split: option.splits)
    then have "e \<in> set ?ss" "sc_Managed e" using last_owned_entry [OF e(1)] by simp_all
    moreover have "t \<in> set ?ss" "\<not> sc_Managed t" using t by (simp_all add: by_hand_entry)
    ultimately show False using e(2) assms(2) by (metis distinct_map inj_onD)
  qed
  then show ?thesis by fastforce
qed

text \<open>No minted entry performs the fetch of a hand-added one.\<close>

lemma minted_fetch_apart:
  assumes "distinct (private_keys (pv_Sources pf))" and "urls_trimmed pf live"
    and s: "s \<in> set (mn_managed (merge_minted env curated pf live rr may_prune denied))"
    and t: "t \<in> set (by_hand (pv_Sources pf))" and "sc_URL t \<noteq> []"
    and same: "sc_URL s = sc_URL t" "sc_HWID s = sc_HWID t"
  shows False
proof (cases "last_owned (pv_Sources pf) (sc_URL s)")
  case None
  then have "sc_URL s \<notin> sc_URL ` set (owned (pv_Sources pf))" using last_owned_iff [of "pv_Sources pf" "sc_URL s"] by simp
  then have "sc_URL s = [] \<or> sc_URL s \<notin> sc_URL ` set (by_hand (pv_Sources pf))"
    using minted_kept(1) [OF s] by (simp add: merge_urls_def)
  then show False using same t assms(5) by auto
next
  case (Some e)
  let ?fs = "filter (\<lambda>s. trim_space (sc_URL s) \<noteq> []) (pv_Sources pf)"
  have e: "e \<in> set (pv_Sources pf)" "sc_Managed e" "sc_URL e = sc_URL t" "sc_HWID e = sc_HWID t"
    using last_owned_entry [OF Some] minted_shape [OF s] same Some by simp_all
  have tss: "t \<in> set (pv_Sources pf)" "\<not> sc_Managed t" using t by (simp_all add: by_hand_entry)
  then have trim: "trim_space (sc_URL t) = sc_URL t" using assms(2) by (auto simp: urls_trimmed_def list_all_iff)
  have "inj_on (\<lambda>s. (trim_space (sc_URL s), sc_HWID s)) (set ?fs)"
    using assms(1) by (simp add: private_keys_def distinct_map)
  moreover have "e \<in> set ?fs" "t \<in> set ?fs" using e tss assms(5) trim by simp_all
  moreover have "(trim_space (sc_URL e), sc_HWID e) = (trim_space (sc_URL t), sc_HWID t)" using e by simp
  ultimately have "e = t" by (metis (no_types, lifting) inj_onD)
  then show False using e tss by simp
qed

lemma merged_keys_distinct:
  assumes "distinct (private_keys (pv_Sources pf))" and "urls_trimmed pf live"
  shows "distinct (private_keys (by_hand (pv_Sources pf) @
      mn_managed (merge_minted env curated pf live rr may_prune denied)))"
proof -
  let ?ss = "pv_Sources pf"
  let ?new = "mn_managed (merge_minted env curated pf live rr may_prune denied)"
  have hand: "distinct (private_keys (by_hand ?ss))"
    using distinct_map_filter2 [of _ "filter (\<lambda>s. trim_space (sc_URL s) \<noteq> []) ?ss" "\<lambda>s. \<not> sc_Managed s"] assms(1)
    by (simp add: private_keys_def by_hand_def conj_commute)
  have trim: "trim_space (sc_URL s) = sc_URL s" if "s \<in> set ?new" for s
    using minted_kept(1) [OF that] assms(2) by (auto simp: merge_urls_def urls_trimmed_def owned_def list_all_iff)
  have handtrim: "trim_space (sc_URL t) = sc_URL t" if "t \<in> set (by_hand ?ss)" for t
    using that assms(2) by (auto simp: urls_trimmed_def list_all_iff by_hand_def)
  have "distinct (map sc_URL ?new)" by (simp add: minted_urls)
  then have "inj_on sc_URL (set ?new)" "distinct ?new" by (simp_all add: distinct_map)
  then have new: "distinct (private_keys ?new)"
    using trim by (auto simp: private_keys_def distinct_map intro!: inj_onI dest: inj_onD)
  have "k \<notin> set (private_keys (by_hand ?ss))" if k: "k \<in> set (private_keys ?new)" for k
  proof
    assume "k \<in> set (private_keys (by_hand ?ss))"
    then obtain t where t: "t \<in> set (by_hand ?ss)" "k = (trim_space (sc_URL t), sc_HWID t)" "trim_space (sc_URL t) \<noteq> []"
      by (auto simp: private_keys_def)
    obtain s where s: "s \<in> set ?new" "k = (trim_space (sc_URL s), sc_HWID s)" using k by (auto simp: private_keys_def)
    have "sc_URL s = sc_URL t" "sc_HWID s = sc_HWID t" "sc_URL t \<noteq> []"
      using t s trim [OF s(1)] handtrim [OF t(1)] by auto
    then show False using minted_fetch_apart [OF assms s(1) t(1)] by blast
  qed
  then show ?thesis using hand new by (auto simp: private_keys_append)
qed

text \<open>The gate does not depend on the order of the entries.\<close>

lemma gate_permuted:
  assumes "mset ss = mset ts"
  shows "validatePrivate url_Parse (pf\<lparr>pv_Sources := ss\<rparr>) = None \<longleftrightarrow>
      list_all (private_ok url_Parse) ts \<and> distinct (map sc_Name ts) \<and> distinct (private_keys ts)"
proof -
  have "mset (private_keys ss) = mset (private_keys ts)" using assms by (simp add: private_keys_def)
  then have "distinct (private_keys ss) = distinct (private_keys ts)" by (rule mset_eq_imp_distinct_iff)
  moreover have "distinct (map sc_Name ss) = distinct (map sc_Name ts)"
    using assms by (metis mset_eq_imp_distinct_iff mset_map)
  moreover have "set ss = set ts" using assms by (rule mset_eq_setD)
  ultimately show ?thesis by (simp add: validatePrivate_def validate_private_None list_all_iff)
qed

text \<open>
  C15: A merge of a file the gate accepts proposes a file the gate accepts, provided no url of the
  file or among the live ones has white space at its ends and every live url new to the file comes from
  a channel or a repository's stem. Every minted entry keeps the name the url has in the file or takes
  one that neither the file nor a curated overlay holds.
\<close>

theorem merged_file_passes_gate:
  assumes "validatePrivate (me_url_Parse env) pf = None"
    and "origins_named pf live" and "urls_trimmed pf live"
  shows "let g = mergeManaged env curated pf live rr may_prune denied
    in validatePrivate (me_url_Parse env) (pf\<lparr>pv_Sources := mg_next g\<rparr>) = None \<and>
       (\<forall>s. if s \<in> set (mg_managed g) \<and> sc_Name s \<in> set (curatedNames curated) \<union> sc_Name ` set (owned (pv_Sources pf) @ by_hand (pv_Sources pf))
            then (case last_owned (pv_Sources pf) (sc_URL s) of None \<Rightarrow> False | Some e \<Rightarrow> sc_Name s = sc_Name e) else True)"
proof -
  let ?ss = "pv_Sources pf"
  let ?new = "mn_managed (merge_minted env curated pf live rr may_prune denied)"
  have ok: "list_all (private_ok (me_url_Parse env)) ?ss" "distinct (map sc_Name ?ss)" "distinct (private_keys ?ss)"
    using assms(1) by (simp_all add: validatePrivate_def validate_private_None)
  note names = minted_source_facts [OF ok(1,2) assms(2), where env = env and curated = curated and rr = rr
    and may_prune = may_prune and denied = denied]
  have "list_all (private_ok (me_url_Parse env)) (by_hand ?ss @ ?new)"
    using ok(1) minted_alphabet [OF ok(1) assms(2)] minted_kept(2)
    by (auto simp: by_hand_def list_all_iff private_ok_def url_kept_def)
  moreover have "distinct (map sc_Name (by_hand ?ss))"
    unfolding by_hand_def by (rule distinct_map_filter2 [OF ok(2)])
  then have "distinct (map sc_Name (by_hand ?ss @ ?new))"
    using names(1) minted_apart [OF ok(1,2) assms(2)] by simp
  moreover have "distinct (private_keys (by_hand ?ss @ ?new))" by (rule merged_keys_distinct [OF ok(3) assms(3)])
  moreover have "mset (by_hand ?ss @ sort_key sc_Name ?new) = mset (by_hand ?ss @ ?new)" by simp
  ultimately have "validatePrivate (me_url_Parse env) (pf\<lparr>pv_Sources := by_hand ?ss @ sort_key sc_Name ?new\<rparr>) = None"
    using gate_permuted by blast
  moreover have "case last_owned ?ss (sc_URL s) of None \<Rightarrow> False | Some e \<Rightarrow> sc_Name s = sc_Name e"
    if "s \<in> set ?new" "sc_Name s \<in> set (curatedNames curated) \<union> sc_Name ` set (owned ?ss @ by_hand ?ss)" for s
    using names(2) [OF that(1)] that(2) by blast
  ultimately show ?thesis by (simp add: mergeManaged_eq Let_def)
qed

text \<open>A hand-added entry and one live url, found in a channel.\<close>

definition sample_mint_env :: mint_env where
  "sample_mint_env = \<lparr>me_sha = (\<lambda>u. u), me_url_Parse = (\<lambda>raw. Some \<lparr>u_Scheme = ''https'', u_Host = raw, u_HasUser = False\<rparr>)\<rparr>"

definition sample_file :: privateFile where
  "sample_file = \<lparr>pv_Sources = [zero_source\<lparr>sc_Name := ''mine'', sc_Body := ''x''\<rparr>], pv_adopted = False\<rparr>"

definition sample_live :: "(string, origin) gomap" where
  "sample_live = [(''8.8.8.8:443'', no_origin\<lparr>og_Slug := ''a_channel''\<rparr>)]"

theorem merged_file_passes_gate_witness:
  "let g = mergeManaged sample_mint_env [Some [(''a'', ''b'')]] sample_file sample_live
             \<lparr>rr_managedURL = [], rr_unknown = [], rr_stale = [], rr_checked = 0, rr_revived = 0, rr_dead = []\<rparr> True []
    in validatePrivate (me_url_Parse sample_mint_env) (sample_file\<lparr>pv_Sources := mg_next g\<rparr>) = None \<and>
       (\<forall>s. if s \<in> set (mg_managed g) \<and> sc_Name s \<in> set (curatedNames [Some [(''a'', ''b'')]]) \<union> sc_Name ` set (owned (pv_Sources sample_file) @ by_hand (pv_Sources sample_file))
            then (case last_owned (pv_Sources sample_file) (sc_URL s) of None \<Rightarrow> False | Some e \<Rightarrow> sc_Name s = sc_Name e) else True)"
proof (rule merged_file_passes_gate)
  have x: "trim_space ''x'' = ''x''" "trim_space [] = []" by (rule trim_space_id, simp add: graphic_def)+
  then show "validatePrivate (me_url_Parse sample_mint_env) sample_file = None"
    by (simp add: validatePrivate_def sample_file_def zero_source_def sourceNameRe_def is_lower_def)
  have "trimTrailingDash ''a-channel'' = ''a-channel''" by (simp add: trimTrailingDash_def)
  then have "channelSlug ''a_channel'' = ''a-channel''"
    by (simp add: channelSlug_def maxSlug_def is_upper_def is_lower_def is_digit_def)
  then show "origins_named sample_file sample_live"
    by (simp add: origins_named_def sample_live_def no_origin_def read_or_def origin_known_def keys_def)
  have "trim_space ''8.8.8.8:443'' = ''8.8.8.8:443''" by (rule trim_space_id) (simp add: graphic_def)
  then show "urls_trimmed sample_file sample_live"
    by (simp add: urls_trimmed_def sample_live_def sample_file_def zero_source_def keys_def x)
qed

text \<open>
  Without the first proviso the crawler locks itself out: the merge shelters the url of a hand-added
  entry as it is written, the gate compares urls trimmed. A file with the url \<^verbatim>\<open>"u "\<close> passes the gate;
  once \<^verbatim>\<open>"u"\<close> is live, what the merge proposes does not, on this cycle and every later one.
\<close>

lemma untrimmed_url_locks_out:
  fixes sha :: "string \<Rightarrow> string" and curated :: "curated_read list"
  defines "env \<equiv> \<lparr>me_sha = sha, me_url_Parse = (\<lambda>raw. Some \<lparr>u_Scheme = ''https'', u_Host = ''8.8.8.8'', u_HasUser = False\<rparr>)\<rparr>"
    and "held \<equiv> \<lparr>pv_Sources = [zero_source\<lparr>sc_Name := ''mine'', sc_URL := ''u ''\<rparr>], pv_adopted = False\<rparr>"
    and "live \<equiv> [(''u'', no_origin\<lparr>og_Slug := ''a_channel''\<rparr>)]"
  shows "validatePrivate (me_url_Parse env) held = None"
    and "validatePrivate (me_url_Parse env) (held\<lparr>pv_Sources := mg_next (mergeManaged env curated held live rr may_prune [])\<rparr>) \<noteq> None"
proof -
  let ?new = "mn_managed (merge_minted env curated held live rr may_prune [])"
  have "Hostname \<lparr>u_Scheme = ''https'', u_Host = ''8.8.8.8'', u_HasUser = False\<rparr> = ''8.8.8.8''"
    by (simp add: Hostname_def validOptionalPort_def is_digit_def)
  moreover have "parseIPHost ''8.8.8.8'' = Some (V4 0x08080808)" by (simp add: parseIPHost_ParseAddr model_defs)
  moreover have "isPublicIP (V4 0x08080808)" by (simp add: isPublicIP_V4 v4_forbidden_def)
  ultimately have ok: "ValidatePublicHTTPSURL (me_url_Parse env) raw = None" for raw
    by (simp add: env_def ValidatePublicHTTPSURL_def ValidatePublicParsedHTTPSURL_def checkHTTPSURL_def fold_https_def lower_byte_def is_upper_def)
  have trim: "trim_space ''u '' = ''u''" "trim_space ''u'' = ''u''" "trim_space [] = []"
    by (simp_all add: trim_space_def skip_runes.simps strip_one_def space_runes_def has_prefix_def)
  show "validatePrivate (me_url_Parse env) held = None"
    using ok trim by (simp add: validatePrivate_def held_def zero_source_def sourceNameRe_def is_lower_def)
  have urls: "merge_urls (pv_Sources held) live = {''u''}" "owned (pv_Sources held) = []" "by_hand (pv_Sources held) = pv_Sources held"
    by (auto simp: merge_urls_def owned_def by_hand_def held_def live_def keys_def zero_source_def)
  then have "map sc_URL ?new = [''u'']"
    using ok by (simp add: minted_urls url_kept_def live_def keys_def)
  then obtain s where s: "?new = [s]" "sc_URL s = ''u''" by (cases ?new) auto
  then have "sc_HWID s = []" using minted_shape [of s env curated held live rr may_prune "[]"] urls(2) by (simp add: last_owned_def)
  then have "\<not> distinct (private_keys (by_hand (pv_Sources held) @ ?new))"
    using s trim urls(3) by (simp add: private_keys_def held_def zero_source_def)
  then have "validatePrivate (me_url_Parse env) (held\<lparr>pv_Sources := by_hand (pv_Sources held) @ sort_key sc_Name ?new\<rparr>) \<noteq> None"
    using gate_permuted [of "by_hand (pv_Sources held) @ sort_key sc_Name ?new" "by_hand (pv_Sources held) @ ?new" "me_url_Parse env" held]
    by simp
  then show "validatePrivate (me_url_Parse env) (held\<lparr>pv_Sources := mg_next (mergeManaged env curated held live rr may_prune [])\<rparr>) \<noteq> None"
    by (simp add: mergeManaged_eq)
qed

end
