(* ===== verification/Spec2Isabelle.thy ===== *)
theory Spec2Isabelle
  imports Lines CidrSet GeoSources CountryFilter Refresh Rewrite PipelineLaws AsnFlights Reload
    CrawlHistory CrawlMemory ExtractLaws ScrapeLoop CrawlMergeLaws
begin

text \<open>
  A verification library of sub-preprocessor, a service that downloads proxy subscriptions, filters
  their nodes by address, country and network, probes what is left and publishes a tested list; and of
  the crawler beside it, which looks for subscriptions in Telegram channels and keeps the list of them.

  \<^bold>\<open>The program.\<close> \<^verbatim>\<open>internal/config\<close> decodes and checks the configuration; \<^verbatim>\<open>internal/reload\<close> watches
  it and turns it into a processor (\<^verbatim>\<open>internal/preprocess\<close>) and a policy for the worker
  (\<^verbatim>\<open>internal/stable/controller.go\<close>). A request runs a downloaded body (\<^verbatim>\<open>internal/fetch\<close>) through the
  link parser (\<^verbatim>\<open>internal/subscription\<close>) and, node by node, through DNS (\<^verbatim>\<open>internal/resolver\<close>), the IP
  filters with the allow-list (\<^verbatim>\<open>internal/cidrset\<close>), the country databases (\<^verbatim>\<open>internal/geofeed\<close>) and the
  AS lookups (\<^verbatim>\<open>internal/asn\<close>), and writes the surviving lines with their tags (\<^verbatim>\<open>internal/rewrite\<close>). The
  worker (\<^verbatim>\<open>internal/stable\<close>) does this for every source on an interval, merges the results, probes the
  entries through mihomo, runs the through-node filters, publishes the survivors and reports the cycle
  (\<^verbatim>\<open>internal/metrics\<close>). The crawler (\<^verbatim>\<open>internal/crawl\<close>) reads that report back, keeps a state file of
  what it learned, and rewrites the overlay the configuration reads its managed sources from.

  \<^bold>\<open>Conventions.\<close> A string is a list of bytes. A Go map is a function to options, or an association
  list where the order a run visits it in can be seen; that order is then an argument. An integer the
  code lets wrap is a \<^verbatim>\<open>word\<close>; a counter that cannot reach its bound is a \<^verbatim>\<open>nat\<close> or an \<^verbatim>\<open>int\<close>. An error is
  a value of a sum or an option, with as much of it as the code inspects; log lines are left out. Time
  is a count of nanoseconds and the clock is an argument of what reads it. What the repository only
  calls is a parameter: the network, \<^verbatim>\<open>net/url\<close>, gzip, YAML and JSON decoding, \<^verbatim>\<open>html\<close>, \<^verbatim>\<open>strconv\<close> on
  floats, mihomo. No definition recurses on fuel: every loop is a terminating function with its measure, but
  the three read loops of \<^verbatim>\<open>FetchBody\<close>, where not returning is the value \<^verbatim>\<open>None\<close> and a theorem says they
  return. Concurrent parts are inductive step relations with their reachable states.

  \<^bold>\<open>Shared ground.\<close> \<^verbatim>\<open>Prelude\<close>: \<^verbatim>\<open>strings\<close>, \<^verbatim>\<open>bytes\<close>, \<^verbatim>\<open>sort\<close>. \<^verbatim>\<open>Lines\<close>: \<^verbatim>\<open>ioutil.go\<close>, the line iterator;
  it yields exactly the trimmed non-comment lines. \<^verbatim>\<open>Words\<close>: intervals of machine words. \<^verbatim>\<open>Trim\<close>, \<^verbatim>\<open>Strconv\<close>,
  \<^verbatim>\<open>GoBase64\<close>, \<^verbatim>\<open>GoJson\<close>, \<^verbatim>\<open>HostPort\<close>, \<^verbatim>\<open>GoMap\<close>: what is used of Go's libraries, with the round trips.
  \<^verbatim>\<open>SourceLoop\<close>, \<^verbatim>\<open>BoundedCache\<close>: the two loops and caches several packages share, as locales.

  \<^bold>\<open>Addresses and countries.\<close> \<^verbatim>\<open>Netip\<close>: \<^verbatim>\<open>net/netip\<close>. \<^verbatim>\<open>CidrSet\<close>: \<^verbatim>\<open>cidrset.go\<close>; the coalesced ranges admit
  exactly the parsed ones, \<^verbatim>\<open>Covered\<close> counts them without wrapping. \<^verbatim>\<open>GeoLookup\<close>: \<^verbatim>\<open>lookup.go\<close>; the indexed
  search answers the smallest range around an address, by one proof for both families (\<^verbatim>\<open>span_walk\<close>).
  \<^verbatim>\<open>GeoSources\<close>: the parsers and loaders of the three databases. \<^verbatim>\<open>CountryFilter\<close>: \<^verbatim>\<open>filter.go\<close>.
  \<^verbatim>\<open>Refresh\<close>: the downloaded tables of \<^verbatim>\<open>processor.go\<close>, their staleness, back-off and the guards a reload
  must pass; an allow-list never becomes empty.

  \<^bold>\<open>Links.\<close> \<^verbatim>\<open>Endpoint\<close>, \<^verbatim>\<open>Query\<close>, \<^verbatim>\<open>Ssr\<close>, \<^verbatim>\<open>Vmess\<close>, \<^verbatim>\<open>Placeholder\<close>, \<^verbatim>\<open>Subscription\<close>: the parser of each
  scheme and the loop over a body. \<^verbatim>\<open>VmessWalk\<close>: the walkers that index JSON unchecked never leave an
  accepted document. \<^verbatim>\<open>VmessLinks\<close>: a vmess link survives relabelling. \<^verbatim>\<open>Rewrite\<close>: \<^verbatim>\<open>rewrite.go\<close>; a
  relabelled line parses back to the same endpoint.

  \<^bold>\<open>Requests.\<close> \<^verbatim>\<open>Resolver\<close>: the DNS cache. \<^verbatim>\<open>Asn\<close>, \<^verbatim>\<open>AsnFlights\<close>: the AS lookups and how they coalesce, a
  step relation over any number of numbered callers; each one that waits can be served. \<^verbatim>\<open>Pipeline\<close>, \<^verbatim>\<open>PipelineLaws\<close>:
  \<^verbatim>\<open>filters.go\<close> and the request path; every node is booked once, survivors are admitted by each filter.
  \<^verbatim>\<open>Annotator\<close>: the tags. \<^verbatim>\<open>TtlCaches\<close>: the dead set and the geoblock store.

  \<^bold>\<open>Downloads.\<close> \<^verbatim>\<open>HttpGuard\<close>: \<^verbatim>\<open>fetch.go\<close>, which urls and addresses may be reached. \<^verbatim>\<open>FetchBody\<close>: reading
  under a limit, however the stream is cut, and the guard that bounds what gzip, any program of pulls
  on the counted wire, makes of it.

  \<^bold>\<open>The worker.\<close> \<^verbatim>\<open>Merge\<close>: \<^verbatim>\<open>merge.go\<close> and \<^verbatim>\<open>label.go\<close>, refining a list-level specification. \<^verbatim>\<open>Prober\<close>,
  \<^verbatim>\<open>ProberLaws\<close>: the pre-check, the binding of dials, the rounds. \<^verbatim>\<open>Verdicts\<close>: the through-node checks.
  \<^verbatim>\<open>NodeFilters\<close>: the filter chain and its breaker. \<^verbatim>\<open>Select\<close>: the latency gate and the payload.
  \<^verbatim>\<open>Snapshot\<close>: the published list in memory and on disk. \<^verbatim>\<open>Cycle\<close>: one cycle, \<^verbatim>\<open>checker.go\<close>; \<^verbatim>\<open>CycleLaws\<close>,
  \<^verbatim>\<open>CycleRuns\<close>, \<^verbatim>\<open>CycleBooks\<close>: a failed cycle keeps the list, the adapters are closed once, the report
  balances, published nodes passed the probe. \<^verbatim>\<open>Worker\<close>: the loop around the cycle, a step relation
  in which the store and the poke of a reload are steps of their own.

  \<^bold>\<open>Configuration.\<close> \<^verbatim>\<open>Config\<close>: the settings and their defaults. \<^verbatim>\<open>ConfigCheck\<close>: validation and loading; a
  configuration that loads can be run, and loading fails exactly where it must. \<^verbatim>\<open>Reload\<close>: the
  controller and \<^verbatim>\<open>internal/reload\<close>; the worker runs the committed policy in every reachable state.

  \<^bold>\<open>Reports.\<close> \<^verbatim>\<open>Metrics\<close>: \<^verbatim>\<open>metrics.go\<close> and \<^verbatim>\<open>crawl.go\<close> of \<^verbatim>\<open>internal/metrics\<close>, the exposition as the chunks
  written to its buffer. \<^verbatim>\<open>ScrapeLoop\<close>: what the crawler reads back from it is what was published.

  \<^bold>\<open>The crawler.\<close> \<^verbatim>\<open>CrawlState\<close>: \<^verbatim>\<open>state.go\<close>, the remembered channels, repositories, probations, dead
  urls and liveness streaks. \<^verbatim>\<open>CrawlHistory\<close>, \<^verbatim>\<open>CrawlMemory\<close>: what these mean over whole histories of
  cycles: a bulk deletion needs two proposals hours apart, a source is retired by an unbroken streak,
  the caps keep what fewer than the cap is more recent than, a state that could not be read is never written. \<^verbatim>\<open>Extract\<close>, \<^verbatim>\<open>ExtractLaws\<close>:
  \<^verbatim>\<open>extract.go\<close>; the hand-written scans are the regular expressions they replaced. \<^verbatim>\<open>Outcomes\<close>:
  \<^verbatim>\<open>outcomes.go\<close>, the reader of the service's exposition. \<^verbatim>\<open>CrawlNames\<close>, \<^verbatim>\<open>CrawlVerdicts\<close>, \<^verbatim>\<open>CrawlMerge\<close>:
  \<^verbatim>\<open>crawl.go\<close>, with \<^verbatim>\<open>reject.go\<close> and the name stems of \<^verbatim>\<open>github.go\<close>: the entries of the managed overlay and
  the names minted for them, what classifying urls records, the merge of the overlay with the live urls
  and the gate on writing it. \<^verbatim>\<open>CrawlMergeLaws\<close>: what a merge keeps, mints and deletes, that a merged file
  passes the gate and where it would not, and how the gate compares to the service's loading.

  \<^bold>\<open>Interfaces.\<close> The locales \<^verbatim>\<open>source_loop\<close>, \<^verbatim>\<open>bounded_cache\<close>, \<^verbatim>\<open>span_walk\<close>, \<^verbatim>\<open>filter_stage\<close>, \<^verbatim>\<open>v4_world\<close>,
  \<^verbatim>\<open>refreshable\<close>, \<^verbatim>\<open>ttl_blocklist\<close>, \<^verbatim>\<open>label_fold\<close>, \<^verbatim>\<open>io_reader\<close> and \<^verbatim>\<open>counted_reader\<close> state what a client
  relies on, and each is interpreted on the definitions of the component that provides it.

  \<^bold>\<open>Not modelled.\<close> The parameters above. What a disk keeps across a power loss: files are their
  contents, so \<^verbatim>\<open>fsync\<close> does nothing. The Xray document converter (\<^verbatim>\<open>xray.go\<close>), which rewrites a
  decoded JSON tree. Of the crawler, the traversal of channels (\<^verbatim>\<open>discover.go\<close>), the order
  of a cycle (\<^verbatim>\<open>RunOnce\<close>), its scheduling, and the GitHub phase. The repository search (\<^verbatim>\<open>internal/ghfind\<close>), the classifier, the HTTP
  handlers, the file watcher, logging, the progress throttle and the wiring of the process.
\<close>

end
